(* ===== verification/Prelude.thy ===== *)
theory Prelude
  imports Main "HOL-Library.Word" "HOL-Library.Monad_Syntax" "HOL-Library.Sublist"
begin

unbundle bit_operations_syntax

text \<open>
  Shared vocabulary of the development: machine integers, byte buffers with checked reads and
  writes, the byte-order macros of src/src/utils/common.h, C strings, and the generic lemmas on
  lists, options and words that the component theories use.

  A value of type \<open>'a option\<close> returned by a model of a C function stands for the outcome of the
  call: \<open>Some v\<close> is a normal return, \<open>None\<close> a fault (a read or write outside the object, a null
  pointer dereference, a division by zero, or \<open>abort ()\<close>). A C function that may return a null pointer
  returns an inner \<open>option\<close>, so that "the parser rejects its input" and "the parser reads out of
  bounds" are different values. Memory-safety theorems are statements \<open>f x \<noteq> None\<close>.

  Lengths and offsets (\<open>size_t\<close>, pointer differences) are \<open>nat\<close>; a pointer into a buffer is an
  offset. Data read from packets keep their width (\<open>8 word\<close>, \<open>16 word\<close>, \<open>32 word\<close>).
\<close>

named_theorems fault_simps \<open>rewriting the checked accesses of the memory model\<close>
named_theorems byte_simps \<open>byte-order conversions\<close>

type_synonym u8 = "8 word"
type_synonym u16 = "16 word"
type_synonym u32 = "32 word"
type_synonym u64 = "64 word"
type_synonym bytes = "8 word list"

section \<open>Searching lists\<close>

lemma find_SomeD: "find P xs = Some x \<Longrightarrow> x \<in> set xs \<and> P x"
  by (induction xs) (auto split: if_splits)

lemma find_NoneD: "find P xs = None \<Longrightarrow> \<forall>x\<in>set xs. \<not> P x"
  by (induction xs) (auto split: if_splits)

section \<open>Checked access to byte buffers\<close>

definition rd :: "bytes \<Rightarrow> nat \<Rightarrow> u8 option" where
  "rd buf i = (if i < length buf then Some (buf ! i) else None)"

definition rd_bytes :: "bytes \<Rightarrow> nat \<Rightarrow> nat \<Rightarrow> bytes option" where
  "rd_bytes buf i n = (if i + n \<le> length buf then Some (take n (drop i buf)) else None)"

definition wr_bytes :: "bytes \<Rightarrow> nat \<Rightarrow> bytes \<Rightarrow> bytes option" where
  "wr_bytes buf i d =
     (if i + length d \<le> length buf then Some (take i buf @ d @ drop (i + length d) buf) else None)"

lemma rd_Some [fault_simps]: "i < length buf \<Longrightarrow> rd buf i = Some (buf ! i)"
  by (simp add: rd_def)

lemma rd_None_iff: "rd buf i = None \<longleftrightarrow> length buf \<le> i"
  by (simp add: rd_def)

lemma rd_eq_Some_iff: "rd buf i = Some v \<longleftrightarrow> i < length buf \<and> v = buf ! i"
  by (auto simp: rd_def)

lemma rd_bytes_Some [fault_simps]:
  "i + n \<le> length buf \<Longrightarrow> rd_bytes buf i n = Some (take n (drop i buf))"
  by (simp add: rd_bytes_def)

lemma rd_bytes_eq_Some_iff:
  "rd_bytes buf i n = Some v \<longleftrightarrow> i + n \<le> length buf \<and> v = take n (drop i buf)"
  by (auto simp: rd_bytes_def)

lemma length_rd_bytes: "rd_bytes buf i n = Some v \<Longrightarrow> length v = n"
  by (auto simp: rd_bytes_def split: if_splits)

lemma wr_bytes_Some [fault_simps]:
  "i + length d \<le> length buf \<Longrightarrow>
     wr_bytes buf i d = Some (take i buf @ d @ drop (i + length d) buf)"
  by (simp add: wr_bytes_def)

lemma length_wr_bytes: "wr_bytes buf i d = Some buf' \<Longrightarrow> length buf' = length buf"
  by (auto simp: wr_bytes_def split: if_splits)

lemma rd_wr_bytes_same:
  "wr_bytes buf i d = Some buf' \<Longrightarrow> rd_bytes buf' i (length d) = Some d"
  by (auto simp: wr_bytes_def rd_bytes_def split: if_splits)

lemma take_wr_bytes:
  "wr_bytes buf i d = Some buf' \<Longrightarrow> n \<le> i \<Longrightarrow> take n buf' = take n buf"
  by (auto simp: wr_bytes_def min_def split: if_splits)

lemma take_wr_bytes_end:
  "wr_bytes buf i d = Some buf' \<Longrightarrow> take (i + length d) buf' = take i buf @ d"
  by (auto simp: wr_bytes_def split: if_splits)

section \<open>Byte-order macros\<close>

definition get_le16 :: "u8 \<Rightarrow> u8 \<Rightarrow> u16" where
  "get_le16 a0 a1 = (push_bit 8 (ucast a1)) OR ucast a0"

definition get_be16 :: "u8 \<Rightarrow> u8 \<Rightarrow> u16" where
  "get_be16 a0 a1 = (push_bit 8 (ucast a0)) OR ucast a1"

definition get_be24 :: "u8 \<Rightarrow> u8 \<Rightarrow> u8 \<Rightarrow> u32" where
  "get_be24 a0 a1 a2 = push_bit 16 (ucast a0) OR push_bit 8 (ucast a1) OR ucast a2"

definition get_be32 :: "u8 \<Rightarrow> u8 \<Rightarrow> u8 \<Rightarrow> u8 \<Rightarrow> u32" where
  "get_be32 a0 a1 a2 a3 =
     push_bit 24 (ucast a0) OR push_bit 16 (ucast a1) OR push_bit 8 (ucast a2) OR ucast a3"

definition put_le16 :: "u16 \<Rightarrow> bytes" where
  "put_le16 v = [ucast (v AND 0xff), ucast (drop_bit 8 v)]"

definition put_be16 :: "u16 \<Rightarrow> bytes" where
  "put_be16 v = [ucast (drop_bit 8 v), ucast (v AND 0xff)]"

definition put_be24 :: "u32 \<Rightarrow> bytes" where
  "put_be24 v = [ucast (drop_bit 16 v AND 0xff), ucast (drop_bit 8 v AND 0xff), ucast (v AND 0xff)]"

definition put_be32 :: "u32 \<Rightarrow> bytes" where
  "put_be32 v = [ucast (drop_bit 24 v AND 0xff), ucast (drop_bit 16 v AND 0xff),
                 ucast (drop_bit 8 v AND 0xff), ucast (v AND 0xff)]"

definition put_le32 :: "u32 \<Rightarrow> bytes" where
  "put_le32 v = [ucast (v AND 0xff), ucast (drop_bit 8 v AND 0xff),
                 ucast (drop_bit 16 v AND 0xff), ucast (drop_bit 24 v AND 0xff)]"

definition rd_le16 :: "bytes \<Rightarrow> nat \<Rightarrow> u16 option" where
  "rd_le16 buf i = do { a0 \<leftarrow> rd buf i; a1 \<leftarrow> rd buf (i + 1); Some (get_le16 a0 a1) }"

definition rd_be16 :: "bytes \<Rightarrow> nat \<Rightarrow> u16 option" where
  "rd_be16 buf i = do { a0 \<leftarrow> rd buf i; a1 \<leftarrow> rd buf (i + 1); Some (get_be16 a0 a1) }"

definition rd_be24 :: "bytes \<Rightarrow> nat \<Rightarrow> u32 option" where
  "rd_be24 buf i = do {
     a0 \<leftarrow> rd buf i; a1 \<leftarrow> rd buf (i + 1); a2 \<leftarrow> rd buf (i + 2); Some (get_be24 a0 a1 a2) }"

definition rd_be32 :: "bytes \<Rightarrow> nat \<Rightarrow> u32 option" where
  "rd_be32 buf i = do {
     a0 \<leftarrow> rd buf i; a1 \<leftarrow> rd buf (i + 1); a2 \<leftarrow> rd buf (i + 2); a3 \<leftarrow> rd buf (i + 3);
     Some (get_be32 a0 a1 a2 a3) }"

lemma length_put [simp]:
  "length (put_le16 v) = 2" "length (put_be16 v) = 2" "length (put_be24 w) = 3"
  "length (put_be32 w) = 4" "length (put_le32 w) = 4"
  by (simp_all add: put_le16_def put_be16_def put_be24_def put_be32_def put_le32_def)

lemma rd_le16_Some [fault_simps]:
  "i + 2 \<le> length buf \<Longrightarrow> rd_le16 buf i = Some (get_le16 (buf ! i) (buf ! (i + 1)))"
  by (simp add: rd_le16_def rd_def)

lemma rd_be16_Some [fault_simps]:
  "i + 2 \<le> length buf \<Longrightarrow> rd_be16 buf i = Some (get_be16 (buf ! i) (buf ! (i + 1)))"
  by (simp add: rd_be16_def rd_def)

lemma rd_be24_Some [fault_simps]:
  "i + 3 \<le> length buf \<Longrightarrow>
     rd_be24 buf i = Some (get_be24 (buf ! i) (buf ! (i + 1)) (buf ! (i + 2)))"
  by (simp add: rd_be24_def rd_def)

lemma rd_be32_Some [fault_simps]:
  "i + 4 \<le> length buf \<Longrightarrow>
     rd_be32 buf i = Some (get_be32 (buf ! i) (buf ! (i + 1)) (buf ! (i + 2)) (buf ! (i + 3)))"
  by (simp add: rd_be32_def rd_def)

lemma mask8 [byte_simps]: "(0xff :: u16) = mask 8" "(0xff :: u32) = mask 8" "(0xff :: u8) = mask 8"
  by (simp_all add: mask_eq_exp_minus_1)

lemma get_put_le16: "get_le16 (ucast (v AND 0xff)) (ucast (drop_bit 8 v)) = v"
  by (rule bit_word_eqI) (auto simp: get_le16_def bit_simps byte_simps)

lemma get_put_be16: "get_be16 (ucast (drop_bit 8 v)) (ucast (v AND 0xff)) = v"
  by (rule bit_word_eqI) (auto simp: get_be16_def bit_simps byte_simps)

lemma get_put_be32:
  "get_be32 (ucast (drop_bit 24 v AND 0xff)) (ucast (drop_bit 16 v AND 0xff))
     (ucast (drop_bit 8 v AND 0xff)) (ucast (v AND 0xff)) = v"
proof (rule bit_word_eqI)
  fix n assume "n < LENGTH(32)"
  then consider "n < 8" | "8 \<le> n" "n < 16" | "16 \<le> n" "n < 24" | "24 \<le> n" "n < 32"
    by fastforce
  then show "bit (get_be32 (ucast (drop_bit 24 v AND 0xff)) (ucast (drop_bit 16 v AND 0xff))
     (ucast (drop_bit 8 v AND 0xff)) (ucast (v AND 0xff))) n = bit v n"
    by cases (auto simp: get_be32_def bit_simps byte_simps)
qed

lemma rd_le16_put: "rd_le16 (put_le16 v @ rest) 0 = Some v"
  by (simp add: rd_le16_def rd_def put_le16_def get_put_le16)

lemma unat_get_le16: "unat (get_le16 a b) = unat a + 256 * unat b"
proof -
  have "get_le16 a b = push_bit 8 (ucast b) + ucast a"
    unfolding get_le16_def
    by (rule disjunctive_add [symmetric]) (auto simp: bit_simps dest: bit_imp_le_length)
  moreover have "unat a + 256 * unat b < 65536"
    using unsigned_less [where ?'a = nat, of a] unsigned_less [where ?'a = nat, of b] by simp
  ultimately show ?thesis
    by (simp add: push_bit_eq_mult unat_word_ariths unsigned_ucast_eq take_bit_nat_eq_self)
qed

section \<open>C strings\<close>

text \<open>
  A C string is the list of its bytes without the terminating NUL. \<open>c_str\<close> is the string a C
  function sees in a buffer: everything before the first NUL. \<open>lit\<close> turns a string literal of the
  source into bytes.
\<close>

definition c_str :: "bytes \<Rightarrow> bytes" where
  "c_str b = takeWhile (\<lambda>c. c \<noteq> 0) b"

definition lit :: "string \<Rightarrow> bytes" where
  "lit s = map (\<lambda>c. word_of_nat (of_char c)) s"

definition tolower8 :: "u8 \<Rightarrow> u8" where
  "tolower8 c = (if 65 \<le> c \<and> c \<le> 90 then c + 32 else c)"

definition strcaseeq :: "bytes \<Rightarrow> bytes \<Rightarrow> bool" where
  "strcaseeq a b = (map tolower8 a = map tolower8 b)"

text \<open>
  Reading the memory of a string object: the byte at its length is the terminator, anything
  beyond is outside the object.
\<close>

definition rds :: "bytes \<Rightarrow> nat \<Rightarrow> u8 option" where
  "rds s i = rd (s @ [0]) i"

lemma rds_Some [fault_simps]: "i < length s \<Longrightarrow> rds s i = Some (s ! i)"
  by (simp add: rds_def rd_def nth_append)

lemma rds_end [fault_simps]: "rds s (length s) = Some 0"
  by (simp add: rds_def rd_def)

lemma rds_cases:
  "i \<le> length s \<Longrightarrow> rds s i = Some (if i < length s then s ! i else 0)"
  by (cases "i < length s") (simp_all add: fault_simps)

text \<open>
  \<open>os_snprintf (buf + pos, size, ...)\<close> with the formatted text given: at most \<open>size - 1\<close> bytes and a
  NUL are stored, the return value is the length of the full text.
\<close>

definition snprintf_at :: "bytes \<Rightarrow> nat \<Rightarrow> nat \<Rightarrow> bytes \<Rightarrow> bytes option" where
  "snprintf_at buf pos room text =
     (if room = 0 then Some buf else wr_bytes buf pos (take (room - 1) text @ [0]))"

lemma snprintf_at_Some:
  "pos + room \<le> length buf \<Longrightarrow> \<exists>buf'. snprintf_at buf pos room text = Some buf' \<and> length buf' = length buf"
  by (auto simp: snprintf_at_def wr_bytes_def)

lemma length_snprintf_at: "snprintf_at buf pos room text = Some buf' \<Longrightarrow> length buf' = length buf"
  by (auto simp: snprintf_at_def dest: length_wr_bytes split: if_splits)

lemma snprintf_at_fits:
  "snprintf_at buf pos room text = Some buf' \<Longrightarrow> length text < room \<Longrightarrow>
     take (pos + length text) buf' = take pos buf @ text"
  by (auto simp: snprintf_at_def wr_bytes_def split: if_splits)

lemma take_snprintf_at:
  "snprintf_at buf pos room text = Some buf' \<Longrightarrow> n \<le> pos \<Longrightarrow> take n buf' = take n buf"
  by (auto simp: snprintf_at_def intro: take_wr_bytes split: if_splits)

lemma c_str_no_nul: "0 \<notin> set (c_str b)"
  by (auto simp: c_str_def dest: set_takeWhileD)

lemma c_str_id: "0 \<notin> set b \<Longrightarrow> c_str b = b"
  by (auto simp: c_str_def takeWhile_eq_all_conv)

lemma strcaseeq_refl [simp]: "strcaseeq a a"
  by (simp add: strcaseeq_def)

lemma strcaseeq_length: "strcaseeq a b \<Longrightarrow> length a = length b"
  unfolding strcaseeq_def by (metis length_map)

section \<open>Total correctness of computations that may fault\<close>

text \<open>
  \<open>succeeds m P\<close>: the computation \<open>m\<close> does not fault and its result satisfies \<open>P\<close>. The rules push the
  postcondition through the monadic operators, so that a goal about a whole function becomes conditions
  on its accesses.
\<close>

named_theorems succeeds_simps \<open>weakest preconditions of checked computations\<close>

definition succeeds :: "'a option \<Rightarrow> ('a \<Rightarrow> bool) \<Rightarrow> bool" where
  "succeeds m P \<longleftrightarrow> (\<exists>x. m = Some x \<and> P x)"

lemma succeeds_Some [succeeds_simps]: "succeeds (Some x) P = P x"
  by (simp add: succeeds_def)

lemma succeeds_None [succeeds_simps]: "\<not> succeeds None P"
  by (simp add: succeeds_def)

lemma succeeds_bind [succeeds_simps]: "succeeds (m \<bind> f) P = succeeds m (\<lambda>x. succeeds (f x) P)"
  by (cases m) (simp_all add: succeeds_def)

lemma succeeds_if [succeeds_simps]:
  "succeeds (if c then m else n) P = ((c \<longrightarrow> succeeds m P) \<and> (\<not> c \<longrightarrow> succeeds n P))"
  by simp

lemma succeeds_rd [succeeds_simps]: "succeeds (rd buf i) P = (i < length buf \<and> P (buf ! i))"
  by (auto simp: succeeds_def rd_def)

lemma succeeds_rd_bytes [succeeds_simps]:
  "succeeds (rd_bytes buf i n) P = (i + n \<le> length buf \<and> P (take n (drop i buf)))"
  by (auto simp: succeeds_def rd_bytes_def)

lemma succeeds_rd_le16 [succeeds_simps]:
  "succeeds (rd_le16 buf i) P = (i + 1 < length buf \<and> P (get_le16 (buf ! i) (buf ! (i + 1))))"
  by (auto simp: rd_le16_def succeeds_simps)

lemma succeeds_mono: "succeeds m P \<Longrightarrow> (\<And>x. P x \<Longrightarrow> Q x) \<Longrightarrow> succeeds m Q"
  by (auto simp: succeeds_def)

lemma succeedsI: "m = Some x \<Longrightarrow> P x \<Longrightarrow> succeeds m P"
  by (simp add: succeeds_def)

lemma succeedsE: "succeeds m P \<Longrightarrow> (\<And>x. m = Some x \<Longrightarrow> P x \<Longrightarrow> thesis) \<Longrightarrow> thesis"
  by (auto simp: succeeds_def)

end
