(* ===== verification/Common_Util.thy ===== *)
theory Common_Util
  imports Prelude
begin

text \<open>
  src/src/utils/common.c: hexadecimal text and MAC address conversion, big-endian counters,
  printable SSIDs. Strings are read through \<^const>\<open>rds\<close>, so a conversion that ran past the
  terminator would be a fault; output buffers are byte lists written through \<^const>\<open>wr_bytes\<close>.
  The lemmas show that the conversions never leave their input string, that printing and parsing
  are inverse, and that \<open>inc_byte_array\<close> is addition of one modulo \<open>256 ^ len\<close>.
\<close>

section \<open>Hexadecimal digits\<close>

definition hex2num :: "u8 \<Rightarrow> int" where
  "hex2num c =
     (if 48 \<le> c \<and> c \<le> 57 then uint (c - 48)
      else if 97 \<le> c \<and> c \<le> 102 then uint (c - 97) + 10
      else if 65 \<le> c \<and> c \<le> 70 then uint (c - 65) + 10
      else -1)"

definition hex2byte :: "bytes \<Rightarrow> nat \<Rightarrow> int option" where
  "hex2byte s i = do {
     c \<leftarrow> rds s i;
     let a = hex2num c;
     if a < 0 then Some (-1)
     else do {
       d \<leftarrow> rds s (i + 1);
       let b = hex2num d;
       if b < 0 then Some (-1) else Some ((push_bit 4 a) OR b)
     }
   }"

section \<open>MAC addresses\<close>

text \<open>
  The three conversions differ in the separators they accept. Each returns the C return value and
  the six-byte output array, partially written when the text is rejected.
\<close>

function hwaddr_aton_loop :: "nat \<Rightarrow> bytes \<Rightarrow> nat \<Rightarrow> bytes \<Rightarrow> (int \<times> bytes) option" where
  "hwaddr_aton_loop i txt pos addr =
     (if i < 6 then do {
        c \<leftarrow> rds txt pos;
        let a = hex2num c;
        if a < 0 then Some (-1, addr)
        else do {
          d \<leftarrow> rds txt (pos + 1);
          let b = hex2num d;
          if b < 0 then Some (-1, addr)
          else do {
            addr' \<leftarrow> wr_bytes addr i [word_of_int ((push_bit 4 a) OR b)];
            if i < 5 then do {
              sep \<leftarrow> rds txt (pos + 2);
              if sep \<noteq> 58 then Some (-1, addr')
              else hwaddr_aton_loop (i + 1) txt (pos + 3) addr'
            } else hwaddr_aton_loop (i + 1) txt (pos + 2) addr'
          }
        }
      } else Some (0, addr))"
  by pat_completeness auto
termination by (relation "measure (\<lambda>(i, txt, pos, addr). 6 - i)") auto

definition hwaddr_aton :: "bytes \<Rightarrow> bytes \<Rightarrow> (int \<times> bytes) option" where
  "hwaddr_aton txt addr = hwaddr_aton_loop 0 txt 0 addr"

function hwaddr_compact_aton_loop :: "nat \<Rightarrow> bytes \<Rightarrow> nat \<Rightarrow> bytes \<Rightarrow> (int \<times> bytes) option" where
  "hwaddr_compact_aton_loop i txt pos addr =
     (if i < 6 then do {
        c \<leftarrow> rds txt pos;
        let a = hex2num c;
        if a < 0 then Some (-1, addr)
        else do {
          d \<leftarrow> rds txt (pos + 1);
          let b = hex2num d;
          if b < 0 then Some (-1, addr)
          else do {
            addr' \<leftarrow> wr_bytes addr i [word_of_int ((push_bit 4 a) OR b)];
            hwaddr_compact_aton_loop (i + 1) txt (pos + 2) addr'
          }
        }
      } else Some (0, addr))"
  by pat_completeness auto
termination by (relation "measure (\<lambda>(i, txt, pos, addr). 6 - i)") auto

definition hwaddr_compact_aton :: "bytes \<Rightarrow> bytes \<Rightarrow> (int \<times> bytes) option" where
  "hwaddr_compact_aton txt addr = hwaddr_compact_aton_loop 0 txt 0 addr"

text \<open>The inner loop of \<open>hwaddr_aton2\<close>, which skips separators.\<close>

function skip_sep :: "bytes \<Rightarrow> nat \<Rightarrow> nat option" where
  "skip_sep txt pos =
     (if length txt < pos then None
      else do {
        c \<leftarrow> rds txt pos;
        if c = 58 \<or> c = 46 \<or> c = 45 then skip_sep txt (pos + 1) else Some pos
      })"
  by pat_completeness auto
termination by (relation "measure (\<lambda>(txt, pos). Suc (length txt) - pos)") auto

function hwaddr_aton2_loop :: "nat \<Rightarrow> bytes \<Rightarrow> nat \<Rightarrow> bytes \<Rightarrow> (int \<times> bytes) option" where
  "hwaddr_aton2_loop i txt pos addr =
     (if i < 6 then do {
        p \<leftarrow> skip_sep txt pos;
        c \<leftarrow> rds txt p;
        let a = hex2num c;
        if a < 0 then Some (-1, addr)
        else do {
          d \<leftarrow> rds txt (p + 1);
          let b = hex2num d;
          if b < 0 then Some (-1, addr)
          else do {
            addr' \<leftarrow> wr_bytes addr i [word_of_int ((push_bit 4 a) OR b)];
            hwaddr_aton2_loop (i + 1) txt (p + 2) addr'
          }
        }
      } else Some (int pos, addr))"
  by pat_completeness auto
termination by (relation "measure (\<lambda>(i, txt, pos, addr). 6 - i)") auto

definition hwaddr_aton2 :: "bytes \<Rightarrow> bytes \<Rightarrow> (int \<times> bytes) option" where
  "hwaddr_aton2 txt addr = hwaddr_aton2_loop 0 txt 0 addr"

section \<open>Hexadecimal strings\<close>

function hexstr2bin_loop :: "nat \<Rightarrow> nat \<Rightarrow> bytes \<Rightarrow> bytes \<Rightarrow> (int \<times> bytes) option" where
  "hexstr2bin_loop i len hex buf =
     (if i < len then do {
        a \<leftarrow> hex2byte hex (2 * i);
        if a < 0 then Some (-1, buf)
        else do {
          buf' \<leftarrow> wr_bytes buf i [word_of_int a];
          hexstr2bin_loop (i + 1) len hex buf'
        }
      } else Some (0, buf))"
  by pat_completeness auto
termination by (relation "measure (\<lambda>(i, len, hex, buf). len - i)") auto

definition hexstr2bin :: "bytes \<Rightarrow> bytes \<Rightarrow> nat \<Rightarrow> (int \<times> bytes) option" where
  "hexstr2bin hex buf len = hexstr2bin_loop 0 len hex buf"

definition hex_digit :: "bool \<Rightarrow> nat \<Rightarrow> u8" where
  "hex_digit upper n = (if n < 10 then word_of_nat (48 + n)
     else word_of_nat ((if upper then 55 else 87) + n))"

text \<open>The conversion \<open>%02x\<close> (\<open>%02X\<close>) of one byte.\<close>

definition fmt02x :: "bool \<Rightarrow> u8 \<Rightarrow> bytes" where
  "fmt02x upper b = [hex_digit upper (unat b div 16), hex_digit upper (unat b mod 16)]"

function snprintf_hex_loop :: "nat \<Rightarrow> bytes \<Rightarrow> nat \<Rightarrow> nat \<Rightarrow> bytes \<Rightarrow> nat \<Rightarrow> bool \<Rightarrow> (nat \<times> bytes) option" where
  "snprintf_hex_loop i buf pos buf_size data len upper =
     (if i < len then do {
        d \<leftarrow> rd data i;
        buf' \<leftarrow> snprintf_at buf pos (buf_size - pos) (fmt02x upper d);
        if 2 \<ge> buf_size - pos then Some (pos, buf')
        else snprintf_hex_loop (i + 1) buf' (pos + 2) buf_size data len upper
      } else Some (pos, buf))"
  by pat_completeness auto
termination by (relation "measure (\<lambda>(i, buf, pos, buf_size, data, len, upper). len - i)") auto

definition wpa_snprintf_hex_gen :: "bytes \<Rightarrow> nat \<Rightarrow> bytes \<Rightarrow> nat \<Rightarrow> bool \<Rightarrow> (nat \<times> bytes) option" where
  "wpa_snprintf_hex_gen buf buf_size data len upper =
     (if buf_size = 0 then Some (0, buf)
      else do {
        (pos, buf') \<leftarrow> snprintf_hex_loop 0 buf 0 buf_size data len upper;
        buf'' \<leftarrow> wr_bytes buf' (buf_size - 1) [0];
        Some (pos, buf'')
      })"

definition wpa_snprintf_hex :: "bytes \<Rightarrow> nat \<Rightarrow> bytes \<Rightarrow> nat \<Rightarrow> (nat \<times> bytes) option" where
  "wpa_snprintf_hex buf buf_size data len = wpa_snprintf_hex_gen buf buf_size data len False"

definition wpa_snprintf_hex_uppercase :: "bytes \<Rightarrow> nat \<Rightarrow> bytes \<Rightarrow> nat \<Rightarrow> (nat \<times> bytes) option" where
  "wpa_snprintf_hex_uppercase buf buf_size data len = wpa_snprintf_hex_gen buf buf_size data len True"

section \<open>Counters, timestamps, printable SSIDs\<close>

fun inc_byte_array_at :: "bytes \<Rightarrow> nat \<Rightarrow> bytes option" where
  "inc_byte_array_at counter 0 = Some counter"
| "inc_byte_array_at counter (Suc pos) = do {
     c \<leftarrow> rd counter pos;
     counter' \<leftarrow> wr_bytes counter pos [c + 1];
     if c + 1 \<noteq> 0 then Some counter' else inc_byte_array_at counter' pos
   }"

definition inc_byte_array :: "bytes \<Rightarrow> nat \<Rightarrow> bytes option" where
  "inc_byte_array counter len = inc_byte_array_at counter len"

definition wpa_get_ntp_timestamp :: "u64 \<Rightarrow> u64 \<Rightarrow> bytes" where
  "wpa_get_ntp_timestamp now_sec now_usec =
     (let sec = ucast (now_sec + 2208988800) :: u32;
          usec = ucast now_usec :: u32;
          usec = 4295 * usec - drop_bit 5 usec - drop_bit 9 usec
      in put_be32 sec @ put_be32 usec)"

definition wpa_ssid_txt :: "bytes \<Rightarrow> nat \<Rightarrow> bytes option" where
  "wpa_ssid_txt ssid ssid_len = do {
     let n = min ssid_len 32;
     d \<leftarrow> rd_bytes ssid 0 n;
     Some (map (\<lambda>c. if c < 32 \<or> 127 \<le> c then 95 else c) (c_str d))
   }"

section \<open>Properties\<close>

lemmas hex_loop_simps = hwaddr_aton_loop.simps hwaddr_compact_aton_loop.simps skip_sep.simps
  hwaddr_aton2_loop.simps hexstr2bin_loop.simps snprintf_hex_loop.simps

declare hex_loop_simps [simp del]

lemma hex2num_zero [simp]: "hex2num 0 = -1"
  by (simp add: hex2num_def)

lemma hex2num_digit: "n < 16 \<Longrightarrow> hex2num (hex_digit upper n) = int n"
proof -
  have "\<forall>n < 16. \<forall>u. hex2num (hex_digit u n) = int n"
    by code_simp
  then show "n < 16 \<Longrightarrow> ?thesis" by blast
qed

lemma hex_digit_nonzero: "n < 16 \<Longrightarrow> hex_digit upper n \<noteq> 0"
  using hex2num_digit [of n upper] by auto

lemma push_bit_or_nibble: "0 \<le> b \<Longrightarrow> b < 16 \<Longrightarrow> (push_bit 4 a) OR b = 16 * a + (b :: int)"
proof -
  assume b: "0 \<le> b" "b < 16"
  then have tb: "take_bit 4 b = b" by (simp add: take_bit_eq_mod)
  have "push_bit 4 a + b = (push_bit 4 a) OR b"
  proof (rule disjunctive_add)
    fix n show "\<not> bit (push_bit 4 a) n \<or> \<not> bit b n"
      by (subst tb [symmetric]) (auto simp: bit_simps)
  qed
  then show ?thesis by (simp add: push_bit_eq_mult)
qed

lemma nibbles_to_byte:
  "word_of_int ((push_bit 4 (int (unat b div 16))) OR int (unat b mod 16)) = (b :: u8)"
proof -
  have "(push_bit 4 (int (unat b div 16))) OR int (unat b mod 16) = int (unat b)"
    by (subst push_bit_or_nibble)
      (simp, simp, metis mult_div_mod_eq of_nat_add of_nat_mult of_nat_numeral)
  then show ?thesis by simp
qed

lemma hex2byte_total: "i \<le> length s \<Longrightarrow> hex2byte s i \<noteq> None"
  by (auto simp: hex2byte_def rds_cases Let_def)

lemma hex2byte_nonneg_bound:
  "hex2byte s i = Some a \<Longrightarrow> 0 \<le> a \<Longrightarrow> i + 2 \<le> length s"
  by (auto simp: hex2byte_def rds_def rd_def nth_append Let_def split: if_splits bind_splits)

lemma hex2byte_fmt02x:
  fixes b :: u8
  assumes "i + 2 \<le> length s" "s ! i = hex_digit u (unat b div 16)" "s ! (i + 1) = hex_digit u (unat b mod 16)"
  shows "\<exists>a. hex2byte s i = Some a \<and> 0 \<le> a \<and> word_of_int a = b"
proof -
  have "unat b < 256" using unsigned_less [where ?'a = nat, of b] by simp
  then have "unat b div 16 < 16" by simp
  then show ?thesis
    using assms nibbles_to_byte [of b]
    by (simp add: hex2byte_def fault_simps hex2num_digit Let_def)
qed

lemma length_fmt02x [simp]: "length (fmt02x u b) = 2"
  by (simp add: fmt02x_def)

definition hex_text :: "bool \<Rightarrow> bytes \<Rightarrow> bytes" where
  "hex_text u data = concat (map (fmt02x u) data)"

lemma length_hex_text [simp]: "length (hex_text u data) = 2 * length data"
  by (induction data) (simp_all add: hex_text_def)

lemma hex_text_nonzero: "0 \<notin> set (hex_text u data)"
proof -
  have "0 \<notin> set (fmt02x u b)" for b :: u8
  proof -
    have "unat b div 16 < 16" using unsigned_less [where ?'a = nat, of b] by simp
    then show ?thesis
      using hex_digit_nonzero [of "unat b div 16" u] hex_digit_nonzero [of "unat b mod 16" u]
      by (auto simp: fmt02x_def)
  qed
  then show ?thesis by (simp add: hex_text_def)
qed

lemma nth_hex_text:
  "i < length data \<Longrightarrow> hex_text u data ! (2 * i) = hex_digit u (unat (data ! i) div 16) \<and>
     hex_text u data ! (2 * i + 1) = hex_digit u (unat (data ! i) mod 16)"
proof (induction data arbitrary: i)
  case Nil
  then show ?case by simp
next
  case (Cons b data)
  then show ?case
    by (cases i) (auto simp: hex_text_def fmt02x_def)
qed

lemma hexstr2bin_loop_hex_text:
  assumes "\<forall>k < length data. hex ! (2 * k) = hex_digit u (unat (data ! k) div 16) \<and>
             hex ! (2 * k + 1) = hex_digit u (unat (data ! k) mod 16)"
    and "2 * length data \<le> length hex" "i \<le> length data" "length data \<le> length buf"
    and "take i buf = take i data"
  shows "\<exists>buf'. hexstr2bin_loop i (length data) hex buf = Some (0, buf') \<and>
           length buf' = length buf \<and> take (length data) buf' = data"
  using assms(3-5)
proof (induction "length data - i" arbitrary: i buf)
  case 0
  then show ?case by (simp add: hexstr2bin_loop.simps)
next
  case (Suc n)
  then have i: "i < length data" by simp
  then obtain a where a: "hex2byte hex (2 * i) = Some a" "0 \<le> a" "word_of_int a = data ! i"
    using hex2byte_fmt02x [of "2 * i" hex u "data ! i"] assms(1,2) by auto
  let ?buf = "take i buf @ [data ! i] @ drop (i + 1) buf"
  have w: "wr_bytes buf i [word_of_int a] = Some ?buf"
    using i Suc.prems a by (simp add: wr_bytes_def)
  have "n = length data - (i + 1)" "i + 1 \<le> length data" "length data \<le> length ?buf"
    "take (i + 1) ?buf = take (i + 1) data"
    using Suc i by (auto simp: take_Suc_conv_app_nth)
  from Suc.hyps(1) [OF this] obtain buf' where
    "hexstr2bin_loop (i + 1) (length data) hex ?buf = Some (0, buf')"
    "length buf' = length ?buf" "take (length data) buf' = data" by blast
  with a w i Suc.prems show ?case
    by (subst hexstr2bin_loop.simps) simp
qed

lemma snprintf_hex_loop_fits:
  assumes "2 * length data < buf_size" "buf_size \<le> length buf" "i \<le> length data"
  shows "\<exists>buf'. snprintf_hex_loop i buf (2 * i) buf_size data (length data) u = Some (2 * length data, buf') \<and>
           length buf' = length buf \<and>
           take (2 * length data) buf' = take (2 * i) buf @ hex_text u (drop i data) \<and>
           (i < length data \<longrightarrow> buf' ! (2 * length data) = 0)"
  using assms(2,3)
proof (induction "length data - i" arbitrary: i buf)
  case 0
  then show ?case by (simp add: snprintf_hex_loop.simps hex_text_def)
next
  case (Suc n)
  let ?t = "fmt02x u (data ! i)"
  from Suc have i: "i < length data" by simp
  have "2 * i + (buf_size - 2 * i) \<le> length buf" using i assms(1) Suc.prems by simp
  then obtain buf1 where b1: "snprintf_at buf (2 * i) (buf_size - 2 * i) ?t = Some buf1"
    and l1: "length buf1 = length buf"
    using snprintf_at_Some by blast
  have t1: "take (2 * i + 2) buf1 = take (2 * i) buf @ ?t"
    using snprintf_at_fits [OF b1] i assms(1) by simp
  have z1: "buf1 ! (2 * i + 2) = 0"
    using b1 i assms(1) Suc.prems
    by (auto simp: snprintf_at_def wr_bytes_def nth_append split: if_splits)
  have "n = length data - (i + 1)" "buf_size \<le> length buf1" "i + 1 \<le> length data"
    using Suc i l1 by auto
  from Suc.hyps(1) [OF this] obtain buf' where
    b': "snprintf_hex_loop (i + 1) buf1 (2 * (i + 1)) buf_size data (length data) u = Some (2 * length data, buf')"
    "length buf' = length buf1"
    "take (2 * length data) buf' = take (2 * (i + 1)) buf1 @ hex_text u (drop (i + 1) data)"
    "i + 1 < length data \<longrightarrow> buf' ! (2 * length data) = 0" by blast
  have "hex_text u (drop i data) = ?t @ hex_text u (drop (i + 1) data)"
    using i by (simp add: hex_text_def flip: Cons_nth_drop_Suc)
  moreover have "buf' ! (2 * length data) = 0"
  proof (cases "i + 1 < length data")
    case True
    with b'(4) show ?thesis by simp
  next
    case False
    with i have e: "length data = i + 1" by simp
    have "snprintf_hex_loop (i + 1) buf1 (2 * (i + 1)) buf_size data (length data) u
        = Some (2 * (i + 1), buf1)"
      by (subst snprintf_hex_loop.simps) (simp add: e)
    with b'(1) have "buf' = buf1" by simp
    with z1 e show ?thesis by simp
  qed
  ultimately show ?case
    using b' b1 l1 t1 i assms(1)
    by (subst snprintf_hex_loop.simps) (simp add: fault_simps)
qed

lemma c_str_take:
  assumes "n < length b" "b ! n = 0" "0 \<notin> set (take n b)"
  shows "c_str b = take n b"
proof -
  have "b = take n b @ 0 # drop (Suc n) b"
    using assms(1,2) by (metis id_take_nth_drop)
  moreover have "takeWhile (\<lambda>c. c \<noteq> 0) (take n b @ 0 # drop (Suc n) b) = take n b"
    using assms(3) by (subst takeWhile_append2) auto
  ultimately show ?thesis unfolding c_str_def by metis
qed

lemma nth_take_eq: "take n a = take n b \<Longrightarrow> k < n \<Longrightarrow> a ! k = b ! k"
  by (metis nth_take)

lemma wpa_snprintf_hex_gen_fits:
  assumes "2 * length data < buf_size" "buf_size \<le> length buf"
  obtains buf' where "wpa_snprintf_hex_gen buf buf_size data (length data) u = Some (2 * length data, buf')"
    "length buf' = length buf" "take (2 * length data) buf' = hex_text u data"
    "data \<noteq> [] \<longrightarrow> c_str buf' = hex_text u data"
proof -
  obtain b1 where b1: "snprintf_hex_loop 0 buf (2 * 0) buf_size data (length data) u = Some (2 * length data, b1)"
    "length b1 = length buf" "take (2 * length data) b1 = take (2 * 0) buf @ hex_text u (drop 0 data)"
    "0 < length data \<longrightarrow> b1 ! (2 * length data) = 0"
    using snprintf_hex_loop_fits [OF assms, of 0 u] by auto
  define b2 where "b2 = take (buf_size - 1) b1 @ [0] @ drop buf_size b1"
  have w: "wr_bytes b1 (buf_size - 1) [0] = Some b2"
    using b1(2) assms by (auto simp: wr_bytes_def b2_def)
  have l2: "length b2 = length buf" using b1(2) assms by (simp add: b2_def)
  have t2: "take (2 * length data) b2 = hex_text u data"
    using take_wr_bytes [OF w, of "2 * length data"] b1(3) assms by simp
  have z: "data \<noteq> [] \<longrightarrow> b2 ! (2 * length data) = 0"
    using b1(2,4) assms by (auto simp: b2_def nth_append)
  have "data \<noteq> [] \<longrightarrow> c_str b2 = hex_text u data"
    using c_str_take [of "2 * length data" b2] z t2 hex_text_nonzero [of u data] l2 assms by simp
  with that [of b2] b1(1) w l2 t2 assms show ?thesis
    by (simp add: wpa_snprintf_hex_gen_def)
qed

lemma hexstr2bin_hex_text:
  assumes "length data \<le> length out"
  shows "\<exists>out'. hexstr2bin (hex_text u data) out (length data) = Some (0, out') \<and>
           length out' = length out \<and> take (length data) out' = data"
proof -
  have "\<forall>k < length data. hex_text u data ! (2 * k) = hex_digit u (unat (data ! k) div 16) \<and>
          hex_text u data ! (2 * k + 1) = hex_digit u (unat (data ! k) mod 16)"
    using nth_hex_text by blast
  then show ?thesis
    unfolding hexstr2bin_def
    using hexstr2bin_loop_hex_text [of data "hex_text u data" u 0 out] assms by simp
qed

text \<open>
  Printing bytes with \<open>wpa_snprintf_hex\<close> or \<open>wpa_snprintf_hex_uppercase\<close> into a buffer with room for
  \<open>2 * len + 1\<close> octets and parsing the string that is then in the buffer with \<open>hexstr2bin\<close> gives the
  bytes back; no access is outside the buffers, and the reported length is \<open>2 * len\<close>.
\<close>

lemma snprintf_hex_hexstr2bin:
  assumes "data \<noteq> []" "2 * length data < buf_size" "buf_size \<le> length buf"
  shows "\<exists>b1 b2 out1 out2.
      wpa_snprintf_hex buf buf_size data (length data) = Some (2 * length data, b1) \<and>
      hexstr2bin (c_str b1) (replicate (length data) 0) (length data) = Some (0, out1) \<and> out1 = data \<and>
      wpa_snprintf_hex_uppercase buf buf_size data (length data) = Some (2 * length data, b2) \<and>
      hexstr2bin (c_str b2) (replicate (length data) 0) (length data) = Some (0, out2) \<and> out2 = data"
proof -
  have *: "\<exists>b out. wpa_snprintf_hex_gen buf buf_size data (length data) u = Some (2 * length data, b) \<and>
      hexstr2bin (c_str b) (replicate (length data) 0) (length data) = Some (0, out) \<and> out = data" for u
  proof -
    obtain b where b: "wpa_snprintf_hex_gen buf buf_size data (length data) u = Some (2 * length data, b)"
      "c_str b = hex_text u data"
      using wpa_snprintf_hex_gen_fits [OF assms(2,3)] assms(1) by metis
    obtain out where "hexstr2bin (hex_text u data) (replicate (length data) 0) (length data) = Some (0, out)"
      "length out = length data" "take (length data) out = data"
      using hexstr2bin_hex_text [of data "replicate (length data) 0" u] by auto
    with b show ?thesis by simp
  qed
  from * [of False] * [of True] show ?thesis
    unfolding wpa_snprintf_hex_def wpa_snprintf_hex_uppercase_def by blast
qed

subsection \<open>MAC addresses\<close>

text \<open>The text of \<open>MACSTR\<close> with \<open>MAC2STR\<close> (src/src/utils/common.h): six \<open>%02x\<close> separated by colons.\<close>

definition mac2str :: "bytes \<Rightarrow> bytes" where
  "mac2str a = fmt02x False (a ! 0) @ concat (map (\<lambda>b. 58 # fmt02x False b) (map ((!) a) [1, 2, 3, 4, 5]))"

lemma hwaddr_aton_loop_total:
  "pos \<le> length txt \<Longrightarrow> 6 \<le> length addr \<Longrightarrow>
     \<exists>r addr'. hwaddr_aton_loop i txt pos addr = Some (r, addr') \<and> (r = 0 \<or> r = -1) \<and>
       length addr' = length addr"
proof (induction "6 - i" arbitrary: i pos addr)
  case 0
  then show ?case by (simp add: hwaddr_aton_loop.simps)
next
  case (Suc n)
  let ?rec = "\<lambda>p a'. \<exists>r addr'. hwaddr_aton_loop (i + 1) txt p a' = Some (r, addr') \<and>
    (r = 0 \<or> r = -1) \<and> length addr' = length a'"
  have rec: "p \<le> length txt \<Longrightarrow> 6 \<le> length a' \<Longrightarrow> ?rec p a'" for p a'
    using Suc.hyps(1) [of "i + 1"] Suc.hyps(2) by simp
  have i: "i < 6" using Suc.hyps(2) by simp
  define w where "w = (\<lambda>v :: u8. take i addr @ [v] @ drop (i + 1) addr)"
  have w: "wr_bytes addr i [v] = Some (w v)" "length (w v) = length addr" for v
    using i Suc.prems(2) by (simp_all add: wr_bytes_def w_def)
  have recw: "p \<le> length txt \<Longrightarrow> ?rec p (w v)" for p v
    using rec [of p "w v"] w(2) [of v] Suc.prems(2) by simp
  show ?case
    using recw [of "pos + 2"] recw [of "pos + 3"] Suc.prems i
    by (subst hwaddr_aton_loop.simps) (auto simp: rds_cases Let_def w)
qed

lemma hwaddr_aton_loop_step:
  fixes b :: u8
  assumes "i < 6" "txt ! pos = hex_digit u (unat b div 16)" "txt ! (pos + 1) = hex_digit u (unat b mod 16)"
    "pos + 2 \<le> length txt" "6 \<le> length addr" "i < 5 \<longrightarrow> pos + 2 < length txt \<and> txt ! (pos + 2) = 58"
  shows "hwaddr_aton_loop i txt pos addr =
     hwaddr_aton_loop (i + 1) txt (if i < 5 then pos + 3 else pos + 2) (addr[i := b])"
proof -
  have "unat b div 16 < 16" using unsigned_less [where ?'a = nat, of b] by simp
  moreover have "wr_bytes addr i [b] = Some (addr[i := b])"
    using assms(1,5) by (simp add: wr_bytes_def upd_conv_take_nth_drop)
  ultimately show ?thesis
    using assms nibbles_to_byte [of b]
    by (subst hwaddr_aton_loop.simps) (simp add: fault_simps hex2num_digit Let_def)
qed

lemma hwaddr_aton_spec:
  assumes "length a = 6" "length addr = 6"
  shows "hwaddr_aton (mac2str a) addr = Some (0, a) \<and>
    (\<exists>r addr'. hwaddr_aton txt addr = Some (r, addr') \<and> (r = 0 \<or> r = -1) \<and> length addr' = 6)"
proof
  obtain a0 a1 a2 a3 a4 a5 where a: "a = [a0, a1, a2, a3, a4, a5]"
    using assms(1) by (auto simp: length_Suc_conv eval_nat_numeral)
  obtain r0 r1 r2 r3 r4 r5 where r: "addr = [r0, r1, r2, r3, r4, r5]"
    using assms(2) by (auto simp: length_Suc_conv eval_nat_numeral)
  let ?t = "mac2str a"
  have lt: "length ?t = 17" by (simp add: mac2str_def)
  have tt: "?t = [hex_digit False (unat a0 div 16), hex_digit False (unat a0 mod 16), 58,
      hex_digit False (unat a1 div 16), hex_digit False (unat a1 mod 16), 58,
      hex_digit False (unat a2 div 16), hex_digit False (unat a2 mod 16), 58,
      hex_digit False (unat a3 div 16), hex_digit False (unat a3 mod 16), 58,
      hex_digit False (unat a4 div 16), hex_digit False (unat a4 mod 16), 58,
      hex_digit False (unat a5 div 16), hex_digit False (unat a5 mod 16)]"
    by (simp add: mac2str_def fmt02x_def a)
  have t: "i < 6 \<Longrightarrow> ?t ! (3 * i) = hex_digit False (unat (a ! i) div 16) \<and>
      ?t ! (3 * i + 1) = hex_digit False (unat (a ! i) mod 16) \<and> (i < 5 \<longrightarrow> ?t ! (3 * i + 2) = 58)" for i
  proof -
    assume "i < 6"
    then consider "i = 0" | "i = 1" | "i = 2" | "i = 3" | "i = 4" | "i = 5" by linarith
    then show ?thesis unfolding tt by cases (simp_all add: a)
  qed
  have step: "hwaddr_aton_loop i ?t (3 * i) ad =
      hwaddr_aton_loop (i + 1) ?t (if i < 5 then 3 * (i + 1) else 17) (ad[i := a ! i])"
    if "i < 6" "length ad = 6" for i ad
    using hwaddr_aton_loop_step [of i ?t "3 * i" False "a ! i" ad] t [of i] that lt
    by (cases "i = 5") (auto simp: algebra_simps)
  have fin: "hwaddr_aton_loop 6 ?t 17 ad = Some (0, ad)" for ad
    by (simp add: hwaddr_aton_loop.simps)
  show "hwaddr_aton ?t addr = Some (0, a)"
    unfolding hwaddr_aton_def
    using step [of 0 addr] step [of 1] step [of 2] step [of 3] step [of 4] step [of 5] fin
    by (simp add: r a eval_nat_numeral)
  show "\<exists>r addr'. hwaddr_aton txt addr = Some (r, addr') \<and> (r = 0 \<or> r = -1) \<and> length addr' = 6"
    unfolding hwaddr_aton_def
    using hwaddr_aton_loop_total [of 0 "txt" addr 0] assms(2) by auto
qed

text \<open>
  \<open>hwaddr_aton\<close> reads back every address printed with \<open>MACSTR\<close>, and on any other text it returns
  \<open>0\<close> or \<open>-1\<close> without reading past the terminator or writing outside the six-byte output.
\<close>

lemma hwaddr_aton_mac2str:
  assumes "length a = 6" "length addr = 6"
  shows "hwaddr_aton (mac2str a) addr = Some (0, a) \<and>
    (\<exists>r addr'. hwaddr_aton txt addr = Some (r, addr') \<and> (r = 0 \<or> r = -1) \<and> length addr' = 6)"
  using assms by (rule hwaddr_aton_spec)

subsection \<open>Counters\<close>

fun be_val :: "bytes \<Rightarrow> nat" where
  "be_val [] = 0"
| "be_val (b # bs) = unat b * 256 ^ length bs + be_val bs"

lemma be_val_append: "be_val (a @ b) = be_val a * 256 ^ length b + be_val b"
  by (induction a) (simp_all add: algebra_simps power_add)

lemma be_val_bound: "be_val a < 256 ^ length a"
proof (induction a)
  case (Cons b a)
  have "unat b \<le> 255" using unsigned_less [where ?'a = nat, of b] by simp
  then have "unat b * 256 ^ length a + be_val a < 255 * 256 ^ length a + 256 ^ length a"
    using Cons by (intro add_le_less_mono mult_le_mono1)
  then show ?case by simp
qed simp

lemma inc_byte_array_at_spec:
  "n \<le> length c \<Longrightarrow> \<exists>c'. inc_byte_array_at c n = Some c' \<and> length c' = length c \<and>
     drop n c' = drop n c \<and> be_val (take n c') = (be_val (take n c) + 1) mod 256 ^ n"
proof (induction n arbitrary: c)
  case 0
  then show ?case by simp
next
  case (Suc n)
  let ?c1 = "c[n := c ! n + 1]"
  have w: "wr_bytes c n [c ! n + 1] = Some ?c1"
    using Suc.prems by (simp add: wr_bytes_def upd_conv_take_nth_drop)
  have t: "take (Suc n) c = take n c @ [c ! n]" using Suc.prems by (simp add: take_Suc_conv_app_nth)
  have b: "be_val (take n c) < 256 ^ n" using be_val_bound [of "take n c"] Suc.prems by simp
  show ?case
  proof (cases "c ! n + 1 = 0")
    case False
    then have u: "unat (c ! n + 1) = unat (c ! n) + 1"
      using unatSuc [of "c ! n"] by (simp add: add.commute)
    moreover have "unat (c ! n + 1) < 256" using unsigned_less [where ?'a = nat, of "c ! n + 1"] by simp
    ultimately have "be_val (take n c) * 256 + unat (c ! n) + 1 < 256 ^ Suc n" using b by simp
    with False Suc.prems w t u show ?thesis
      by (simp add: fault_simps be_val_append take_Suc_conv_app_nth)
  next
    case True
    then have "c ! n = - 1" by (simp add: eq_neg_iff_add_eq_0)
    then have c255: "unat (c ! n) = 255" by (simp add: unat_word_ariths unsigned_minus_1_eq_mask mask_eq_exp_minus_1)
    obtain c' where c': "inc_byte_array_at ?c1 n = Some c'" "length c' = length c"
      "drop n c' = drop n ?c1" "be_val (take n c') = (be_val (take n ?c1) + 1) mod 256 ^ n"
      using Suc.IH [of ?c1] Suc.prems by auto
    have n: "n < length c" using Suc.prems by simp
    have "c' ! n = ?c1 ! n"
      using c'(2,3) n by (metis hd_drop_conv_nth length_list_update)
    moreover have "drop (Suc n) c' = drop (Suc n) ?c1"
      using c'(3) by (metis drop_drop plus_1_eq_Suc)
    ultimately have c'n: "c' ! n = 0" "drop (Suc n) c' = drop (Suc n) c"
      using n True by simp_all
    have "be_val (take (Suc n) c') = (be_val (take n c) + 1) mod 256 ^ n * 256"
      using c'(2,4) n c'n by (simp add: take_Suc_conv_app_nth be_val_append)
    also have "\<dots> = ((be_val (take n c) + 1) * 256) mod (256 ^ n * 256)"
      by (rule mod_mult_mult2 [symmetric])
    also have "\<dots> = (be_val (take (Suc n) c) + 1) mod 256 ^ Suc n"
      using t c255 by (simp add: be_val_append algebra_simps)
    finally show ?thesis
      using c' c'n w n True by (simp add: fault_simps)
  qed
qed

text \<open>
  \<open>inc_byte_array\<close> adds one to the big-endian number in the first \<open>len\<close> octets, modulo
  \<open>256 ^ len\<close> (it wraps to zero), and touches nothing else.
\<close>

lemma inc_byte_array_increments:
  assumes "len \<le> length counter"
  shows "\<exists>c'. inc_byte_array counter len = Some c' \<and> length c' = length counter \<and>
     drop len c' = drop len counter \<and>
     be_val (take len c') = (be_val (take len counter) + 1) mod 256 ^ len"
  unfolding inc_byte_array_def by (rule inc_byte_array_at_spec [OF assms])

end
