(* ===== verification/Wpabuf.thy ===== *)
theory Wpabuf
  imports Prelude
begin

text \<open>
  src/src/utils/wpabuf.c and wpabuf.h: the growable message buffer. A \<open>wpabuf\<close> has an allocated size, a
  used length and its storage, which is either the memory that follows the structure or an external
  array (\<open>ext_data\<close>). Writing past the allocated size calls \<open>wpabuf_overflow\<close>, which aborts: a fault.
  Whether an allocation succeeds is an argument of the operation (\<open>ok\<close>).

  The locale \<open>byte_buffer\<close> is the contract the frame builders rely on: appending within the room left
  extends the contents, appending beyond it faults. \<open>wb\<close> interprets it on the model of wpabuf.c.
\<close>

section \<open>Structure and accessors\<close>

record wpabuf =
  wb_size :: nat
  wb_used :: nat
  ext_data :: "bytes option"
  inline_data :: bytes

definition wpabuf_size :: "wpabuf \<Rightarrow> nat" where "wpabuf_size buf = wb_size buf"

definition wpabuf_len :: "wpabuf \<Rightarrow> nat" where "wpabuf_len buf = wb_used buf"

definition wpabuf_tailroom :: "wpabuf \<Rightarrow> nat" where "wpabuf_tailroom buf = wb_size buf - wb_used buf"

definition wpabuf_head :: "wpabuf \<Rightarrow> bytes" where
  "wpabuf_head buf = (case ext_data buf of Some d \<Rightarrow> d | None \<Rightarrow> inline_data buf)"

text \<open>Storing through the pointer of \<open>wpabuf_mhead\<close>.\<close>

definition wpabuf_mhead_store :: "wpabuf \<Rightarrow> bytes \<Rightarrow> wpabuf" where
  "wpabuf_mhead_store buf d =
     (case ext_data buf of Some _ \<Rightarrow> buf\<lparr>ext_data := Some d\<rparr> | None \<Rightarrow> buf\<lparr>inline_data := d\<rparr>)"

section \<open>Operations of wpabuf.c\<close>

definition wpabuf_alloc :: "bool \<Rightarrow> nat \<Rightarrow> wpabuf option" where
  "wpabuf_alloc ok len =
     (if ok then Some \<lparr>wb_size = len, wb_used = 0, ext_data = None, inline_data = replicate len 0\<rparr>
      else None)"

definition wpabuf_alloc_ext_data :: "bool \<Rightarrow> bytes \<Rightarrow> nat \<Rightarrow> wpabuf option" where
  "wpabuf_alloc_ext_data ok data len =
     (if ok then Some \<lparr>wb_size = len, wb_used = len, ext_data = Some data, inline_data = []\<rparr> else None)"

definition wpabuf_put :: "wpabuf \<Rightarrow> nat \<Rightarrow> (nat \<times> wpabuf) option" where
  "wpabuf_put buf len =
     (let used = wb_used buf + len
      in if wb_size buf < used then None else Some (wb_used buf, buf\<lparr>wb_used := used\<rparr>))"

definition wpabuf_store :: "wpabuf \<Rightarrow> nat \<Rightarrow> bytes \<Rightarrow> wpabuf option" where
  "wpabuf_store buf pos d = map_option (wpabuf_mhead_store buf) (wr_bytes (wpabuf_head buf) pos d)"

definition wpabuf_put_data :: "wpabuf \<Rightarrow> bytes option \<Rightarrow> wpabuf option" where
  "wpabuf_put_data buf data =
     (case data of None \<Rightarrow> Some buf
      | Some d \<Rightarrow> do { (pos, buf') \<leftarrow> wpabuf_put buf (length d); wpabuf_store buf' pos d })"

definition wpabuf_put_u8 :: "wpabuf \<Rightarrow> u8 \<Rightarrow> wpabuf option" where
  "wpabuf_put_u8 buf v = do { (pos, buf') \<leftarrow> wpabuf_put buf 1; wpabuf_store buf' pos [v] }"

definition wpabuf_put_le16 :: "wpabuf \<Rightarrow> u16 \<Rightarrow> wpabuf option" where
  "wpabuf_put_le16 buf v = do { (pos, buf') \<leftarrow> wpabuf_put buf 2; wpabuf_store buf' pos (put_le16 v) }"

definition wpabuf_put_le32 :: "wpabuf \<Rightarrow> u32 \<Rightarrow> wpabuf option" where
  "wpabuf_put_le32 buf v = do { (pos, buf') \<leftarrow> wpabuf_put buf 4; wpabuf_store buf' pos (put_le32 v) }"

definition wpabuf_put_be16 :: "wpabuf \<Rightarrow> u16 \<Rightarrow> wpabuf option" where
  "wpabuf_put_be16 buf v = do { (pos, buf') \<leftarrow> wpabuf_put buf 2; wpabuf_store buf' pos (put_be16 v) }"

definition wpabuf_put_be24 :: "wpabuf \<Rightarrow> u32 \<Rightarrow> wpabuf option" where
  "wpabuf_put_be24 buf v = do { (pos, buf') \<leftarrow> wpabuf_put buf 3; wpabuf_store buf' pos (put_be24 v) }"

definition wpabuf_put_be32 :: "wpabuf \<Rightarrow> u32 \<Rightarrow> wpabuf option" where
  "wpabuf_put_be32 buf v = do { (pos, buf') \<leftarrow> wpabuf_put buf 4; wpabuf_store buf' pos (put_be32 v) }"

definition wpabuf_put_buf :: "wpabuf \<Rightarrow> wpabuf \<Rightarrow> wpabuf option" where
  "wpabuf_put_buf dst src = do {
     d \<leftarrow> rd_bytes (wpabuf_head src) 0 (wpabuf_len src);
     wpabuf_put_data dst (Some d) }"

definition wpabuf_put_str :: "wpabuf \<Rightarrow> bytes \<Rightarrow> wpabuf option" where
  "wpabuf_put_str dst str = wpabuf_put_data dst (Some str)"

definition wpabuf_set :: "wpabuf \<Rightarrow> bytes \<Rightarrow> nat \<Rightarrow> wpabuf" where
  "wpabuf_set buf data len = buf\<lparr>ext_data := Some data, wb_size := len, wb_used := len\<rparr>"

text \<open>
  \<open>wpabuf_resize\<close> returns the C return value and the new value of \<open>*buf\<close>. \<open>os_realloc\<close> keeps the bytes of
  the old block up to the smaller size; the \<open>os_memset\<close> that follows fixes the rest.
\<close>

definition wpabuf_resize :: "bool \<Rightarrow> wpabuf option \<Rightarrow> nat \<Rightarrow> int \<times> wpabuf option" where
  "wpabuf_resize ok buf_p add_len =
     (case buf_p of
        None \<Rightarrow> (case wpabuf_alloc ok add_len of None \<Rightarrow> (-1, None) | Some b \<Rightarrow> (0, Some b))
      | Some buf \<Rightarrow>
          if wb_size buf < wb_used buf + add_len then
            (if \<not> ok then (-1, Some buf)
             else
               let nbuf = take (wb_used buf) (wpabuf_head buf) @ replicate add_len 0
               in (0, Some ((wpabuf_mhead_store buf nbuf)\<lparr>wb_size := wb_used buf + add_len\<rparr>)))
          else (0, Some buf))"

text \<open>
  Functions that return a fresh buffer: the outer option is the fault (the copy would overflow), the
  inner one the null pointer of a failed allocation.
\<close>

definition wpabuf_alloc_copy :: "bool \<Rightarrow> bytes \<Rightarrow> wpabuf option option" where
  "wpabuf_alloc_copy ok data =
     (case wpabuf_alloc ok (length data) of None \<Rightarrow> Some None
      | Some buf \<Rightarrow> map_option Some (wpabuf_put_data buf (Some data)))"

definition wpabuf_dup :: "bool \<Rightarrow> wpabuf \<Rightarrow> wpabuf option option" where
  "wpabuf_dup ok src =
     (case wpabuf_alloc ok (wpabuf_len src) of None \<Rightarrow> Some None
      | Some buf \<Rightarrow> map_option Some (wpabuf_put_buf buf src))"

definition wpabuf_concat :: "bool \<Rightarrow> wpabuf option \<Rightarrow> wpabuf option \<Rightarrow> wpabuf option option" where
  "wpabuf_concat ok a b =
     (case b of None \<Rightarrow> Some a
      | Some b' \<Rightarrow>
          let len = (case a of Some a' \<Rightarrow> wpabuf_len a' | None \<Rightarrow> 0) + wpabuf_len b'
          in case wpabuf_alloc ok len of None \<Rightarrow> Some None
             | Some n \<Rightarrow> do {
                 n1 \<leftarrow> (case a of Some a' \<Rightarrow> wpabuf_put_buf n a' | None \<Rightarrow> Some n);
                 n2 \<leftarrow> wpabuf_put_buf n1 b';
                 Some (Some n2) })"

definition wpabuf_zeropad :: "bool \<Rightarrow> wpabuf option \<Rightarrow> nat \<Rightarrow> wpabuf option option" where
  "wpabuf_zeropad ok buf len =
     (case buf of None \<Rightarrow> Some None
      | Some b \<Rightarrow>
          let blen = wpabuf_len b
          in if len \<le> blen then Some (Some b)
             else case wpabuf_alloc ok len of None \<Rightarrow> Some None
               | Some ret \<Rightarrow> do {
                   (pos, r1) \<leftarrow> wpabuf_put ret (len - blen);
                   r2 \<leftarrow> wpabuf_store r1 pos (replicate (len - blen) 0);
                   r3 \<leftarrow> wpabuf_put_buf r2 b;
                   Some (Some r3) })"

text \<open>\<open>wpabuf_printf\<close> with the formatted text given: the text and its NUL have to fit.\<close>

definition wpabuf_printf :: "wpabuf \<Rightarrow> bytes \<Rightarrow> wpabuf option" where
  "wpabuf_printf buf text = do {
     d \<leftarrow> snprintf_at (wpabuf_head buf) (wb_used buf) (wb_size buf - wb_used buf) text;
     if wb_size buf - wb_used buf \<le> length text then None
     else Some ((wpabuf_mhead_store buf d)\<lparr>wb_used := wb_used buf + length text\<rparr>) }"

section \<open>The buffer contract\<close>

definition wpabuf_inv :: "wpabuf \<Rightarrow> bool" where
  "wpabuf_inv buf \<longleftrightarrow> wb_used buf \<le> wb_size buf \<and> wb_size buf \<le> length (wpabuf_head buf)"

definition wpabuf_data :: "wpabuf \<Rightarrow> bytes" where
  "wpabuf_data buf = take (wb_used buf) (wpabuf_head buf)"

locale byte_buffer =
  fixes inv :: "'b \<Rightarrow> bool"
    and content :: "'b \<Rightarrow> bytes"
    and room :: "'b \<Rightarrow> nat"
    and put :: "'b \<Rightarrow> bytes \<Rightarrow> 'b option"
  assumes put_fits: "inv b \<Longrightarrow> length d \<le> room b \<Longrightarrow>
      \<exists>b'. put b d = Some b' \<and> inv b' \<and> content b' = content b @ d \<and> room b' = room b - length d"
    and put_overflow: "inv b \<Longrightarrow> room b < length d \<Longrightarrow> put b d = None"
begin

fun put_all :: "'b \<Rightarrow> bytes list \<Rightarrow> 'b option" where
  "put_all b [] = Some b"
| "put_all b (d # ds) = put b d \<bind> (\<lambda>b'. put_all b' ds)"

lemma put_all_fits:
  "inv b \<Longrightarrow> sum_list (map length ds) \<le> room b \<Longrightarrow>
     \<exists>b'. put_all b ds = Some b' \<and> inv b' \<and> content b' = content b @ concat ds \<and>
       room b' = room b - sum_list (map length ds)"
proof (induction ds arbitrary: b)
  case Nil
  then show ?case by simp
next
  case (Cons d ds)
  then obtain b1 where b1: "put b d = Some b1" "inv b1" "content b1 = content b @ d"
    "room b1 = room b - length d"
    using put_fits [of b d] by auto
  with Cons.prems have "sum_list (map length ds) \<le> room b1" by simp
  from Cons.IH [OF b1(2) this] b1 show ?case by simp
qed

lemma put_all_overflow:
  "inv b \<Longrightarrow> room b < sum_list (map length ds) \<Longrightarrow> put_all b ds = None"
proof (induction ds arbitrary: b)
  case Nil
  then show ?case by simp
next
  case (Cons d ds)
  show ?case
  proof (cases "length d \<le> room b")
    case True
    then obtain b1 where "put b d = Some b1" "inv b1" "room b1 = room b - length d"
      using put_fits Cons.prems(1) by blast
    with Cons True show ?thesis by simp
  next
    case False
    then show ?thesis using put_overflow Cons.prems(1) by simp
  qed
qed

lemma put_content: "inv b \<Longrightarrow> put b d = Some b' \<Longrightarrow> content b' = content b @ d \<and> inv b'"
  using put_fits [of b d] put_overflow [of b d] by (cases "length d \<le> room b") auto

end

section \<open>wpabuf.c satisfies the contract\<close>

lemma wpabuf_head_store [simp]: "wpabuf_head (wpabuf_mhead_store buf d) = d"
  by (auto simp: wpabuf_head_def wpabuf_mhead_store_def split: option.splits)

lemma wpabuf_store_sizes [simp]:
  "wb_size (wpabuf_mhead_store buf d) = wb_size buf" "wb_used (wpabuf_mhead_store buf d) = wb_used buf"
  by (auto simp: wpabuf_mhead_store_def split: option.splits)

lemma wpabuf_head_upd [simp]:
  "wpabuf_head (buf\<lparr>wb_used := n\<rparr>) = wpabuf_head buf" "wpabuf_head (buf\<lparr>wb_size := n\<rparr>) = wpabuf_head buf"
  by (simp_all add: wpabuf_head_def split: option.splits)

lemma wpabuf_mhead_store_upd:
  "wpabuf_mhead_store (buf\<lparr>wb_used := n\<rparr>) d = (wpabuf_mhead_store buf d)\<lparr>wb_used := n\<rparr>"
  by (simp add: wpabuf_mhead_store_def split: option.splits)

lemmas wpabuf_put_defs = wpabuf_put_data_def wpabuf_put_def wpabuf_store_def Let_def

lemma wpabuf_put_data_fits:
  assumes "wpabuf_inv b" "length d \<le> wpabuf_tailroom b"
  shows "\<exists>b'. wpabuf_put_data b (Some d) = Some b' \<and> wpabuf_inv b' \<and>
     wpabuf_data b' = wpabuf_data b @ d \<and> wpabuf_tailroom b' = wpabuf_tailroom b - length d"
  using assms
  by (auto simp: wpabuf_put_defs wpabuf_inv_def wpabuf_tailroom_def wpabuf_data_def wr_bytes_def)

lemma wpabuf_put_data_overflow:
  "wpabuf_inv b \<Longrightarrow> wpabuf_tailroom b < length d \<Longrightarrow> wpabuf_put_data b (Some d) = None"
  by (auto simp: wpabuf_put_defs wpabuf_inv_def wpabuf_tailroom_def)

interpretation wb: byte_buffer wpabuf_inv wpabuf_data wpabuf_tailroom "\<lambda>b d. wpabuf_put_data b (Some d)"
  by unfold_locales (fact wpabuf_put_data_fits wpabuf_put_data_overflow)+

lemma wpabuf_put_as_data:
  "wpabuf_put_u8 b v = wpabuf_put_data b (Some [v])"
  "wpabuf_put_le16 b v16 = wpabuf_put_data b (Some (put_le16 v16))"
  "wpabuf_put_be16 b v16 = wpabuf_put_data b (Some (put_be16 v16))"
  "wpabuf_put_be24 b v32 = wpabuf_put_data b (Some (put_be24 v32))"
  "wpabuf_put_be32 b v32 = wpabuf_put_data b (Some (put_be32 v32))"
  "wpabuf_put_le32 b v32 = wpabuf_put_data b (Some (put_le32 v32))"
  by (simp_all add: wpabuf_put_u8_def wpabuf_put_le16_def wpabuf_put_be16_def wpabuf_put_be24_def
      wpabuf_put_be32_def wpabuf_put_le32_def wpabuf_put_data_def)

lemma wpabuf_put_buf_as_data:
  "wpabuf_inv src \<Longrightarrow> wpabuf_put_buf dst src = wpabuf_put_data dst (Some (wpabuf_data src))"
  by (simp add: wpabuf_put_buf_def rd_bytes_def wpabuf_inv_def wpabuf_len_def wpabuf_data_def)

lemma length_wpabuf_data: "wpabuf_inv b \<Longrightarrow> length (wpabuf_data b) = wpabuf_len b"
  by (simp add: wpabuf_inv_def wpabuf_data_def wpabuf_len_def)

lemma wpabuf_put_spec:
  assumes "wpabuf_inv b" "n \<le> wpabuf_tailroom b"
  shows "\<exists>b' u. wpabuf_put b n = Some (wpabuf_len b, b') \<and> wpabuf_inv b' \<and> length u = n \<and>
     wpabuf_data b' = wpabuf_data b @ u \<and> wpabuf_tailroom b' = wpabuf_tailroom b - n"
proof -
  let ?b = "b\<lparr>wb_used := wb_used b + n\<rparr>"
  have "wpabuf_put b n = Some (wpabuf_len b, ?b)" "wpabuf_inv ?b"
    "wpabuf_tailroom ?b = wpabuf_tailroom b - n"
    using assms by (auto simp: wpabuf_put_def wpabuf_inv_def wpabuf_tailroom_def wpabuf_len_def Let_def)
  moreover have "wpabuf_data ?b = wpabuf_data b @ take n (drop (wb_used b) (wpabuf_head b))"
    by (simp add: wpabuf_data_def take_add)
  moreover have "length (take n (drop (wb_used b) (wpabuf_head b))) = n"
    using assms by (auto simp: wpabuf_inv_def wpabuf_tailroom_def)
  ultimately show ?thesis by blast
qed

lemma wpabuf_store_spec:
  assumes "wpabuf_inv b" "pos + length d \<le> wpabuf_len b"
  shows "\<exists>b'. wpabuf_store b pos d = Some b' \<and> wpabuf_inv b' \<and> wpabuf_len b' = wpabuf_len b \<and>
     wpabuf_data b' = take pos (wpabuf_data b) @ d @ drop (pos + length d) (wpabuf_data b) \<and>
     wpabuf_tailroom b' = wpabuf_tailroom b"
proof -
  let ?h = "wpabuf_head b" and ?n = "wb_used b"
  have le: "pos + length d \<le> ?n" "?n \<le> wb_size b" "wb_size b \<le> length ?h"
    using assms by (simp_all add: wpabuf_inv_def wpabuf_len_def)
  define h where "h = take pos ?h @ d @ drop (pos + length d) ?h"
  have "wpabuf_store b pos d = Some (wpabuf_mhead_store b h)"
    using le by (simp add: wpabuf_store_def wr_bytes_def h_def)
  moreover have "length h = length ?h" using le by (simp add: h_def)
  moreover have "take ?n h = take pos (take ?n ?h) @ d @ drop (pos + length d) (take ?n ?h)"
    using le by (simp add: h_def drop_take min_absorb1 min_absorb2)
  ultimately show ?thesis
    using le by (simp add: wpabuf_inv_def wpabuf_len_def wpabuf_data_def wpabuf_tailroom_def)
qed

lemma rd_head_data: "wpabuf_inv b \<Longrightarrow> i < wpabuf_len b \<Longrightarrow> rd (wpabuf_head b) i = Some (wpabuf_data b ! i)"
  by (simp add: rd_def wpabuf_inv_def wpabuf_len_def wpabuf_data_def)

lemma wpabuf_alloc_props:
  "wpabuf_alloc ok n = Some b \<Longrightarrow>
     wpabuf_inv b \<and> wpabuf_data b = [] \<and> wpabuf_tailroom b = n \<and> ok"
  by (auto simp: wpabuf_alloc_def wpabuf_inv_def wpabuf_data_def wpabuf_tailroom_def wpabuf_head_def
      split: if_splits)

lemma wpabuf_alloc_None: "wpabuf_alloc ok n = None \<longleftrightarrow> \<not> ok"
  by (simp add: wpabuf_alloc_def)

lemma wpabuf_alloc_copy_data:
  "\<exists>b. wpabuf_alloc_copy True d = Some (Some b) \<and> wpabuf_inv b \<and> wpabuf_data b = d"
proof -
  obtain b where b: "wpabuf_alloc True (length d) = Some b"
    by (simp add: wpabuf_alloc_def)
  with wpabuf_alloc_props wb.put_fits [of b d] show ?thesis
    by (fastforce simp: wpabuf_alloc_copy_def)
qed

lemma wpabuf_alloc_copy_total: "wpabuf_alloc_copy ok d \<noteq> None"
  using wpabuf_alloc_copy_data [of d] by (cases ok) (auto simp: wpabuf_alloc_copy_def wpabuf_alloc_def)

lemma wpabuf_resize_spec:
  assumes "wpabuf_resize ok bp n = (0, bp')" "\<forall>b. bp = Some b \<longrightarrow> wpabuf_inv b"
  obtains b' where "bp' = Some b'" "wpabuf_inv b'" "n \<le> wpabuf_tailroom b'"
    "wpabuf_data b' = (case bp of None \<Rightarrow> [] | Some b \<Rightarrow> wpabuf_data b)"
proof (cases bp)
  case None
  with assms(1) obtain b where "wpabuf_alloc ok n = Some b" "bp' = Some b"
    by (auto simp: wpabuf_resize_def split: option.splits)
  with None that wpabuf_alloc_props show ?thesis by fastforce
next
  case (Some b)
  then show ?thesis
    using assms that
    by (auto simp: wpabuf_resize_def wpabuf_inv_def wpabuf_tailroom_def wpabuf_data_def Let_def
        split: if_splits)
qed

text \<open>
  \<open>wpabuf_resize\<close> followed by \<open>wpabuf_put_data\<close> (the way responses are accumulated) never overflows:
  when the allocation succeeds the new bytes are appended to the old contents and the buffer
  invariant holds; when it fails the call returns \<open>-1\<close> and leaves the buffer as it was.
\<close>

lemma wpabuf_resize_put:
  assumes "\<forall>b. bp = Some b \<longrightarrow> wpabuf_inv b"
  shows "(\<exists>b1 b2. wpabuf_resize True bp (length d) = (0, Some b1) \<and>
            wpabuf_put_data b1 (Some d) = Some b2 \<and> wpabuf_inv b2 \<and>
            wpabuf_data b2 = (case bp of None \<Rightarrow> [] | Some b \<Rightarrow> wpabuf_data b) @ d) \<and>
         (wpabuf_resize False bp (length d) = (0, bp) \<or> wpabuf_resize False bp (length d) = (-1, bp))"
proof
  have "\<exists>bp'. wpabuf_resize True bp (length d) = (0, bp')"
    by (cases bp) (auto simp: wpabuf_resize_def wpabuf_alloc_def Let_def)
  then obtain bp' where bp': "wpabuf_resize True bp (length d) = (0, bp')" by blast
  from bp' assms obtain b1 where "bp' = Some b1" "wpabuf_inv b1" "length d \<le> wpabuf_tailroom b1"
    "wpabuf_data b1 = (case bp of None \<Rightarrow> [] | Some b \<Rightarrow> wpabuf_data b)"
    by (rule wpabuf_resize_spec)
  with bp' show "\<exists>b1 b2. wpabuf_resize True bp (length d) = (0, Some b1) \<and>
            wpabuf_put_data b1 (Some d) = Some b2 \<and> wpabuf_inv b2 \<and>
            wpabuf_data b2 = (case bp of None \<Rightarrow> [] | Some b \<Rightarrow> wpabuf_data b) @ d"
    using wb.put_fits [of b1 d] by auto
  show "wpabuf_resize False bp (length d) = (0, bp) \<or> wpabuf_resize False bp (length d) = (-1, bp)"
    by (auto simp: wpabuf_resize_def wpabuf_alloc_def split: option.splits)
qed

text \<open>
  \<open>wpabuf_concat\<close> and \<open>wpabuf_zeropad\<close>, when their allocation succeeds, return the concatenation of
  the two contents and the contents padded on the left with zeros to the requested length.
\<close>

lemma wpabuf_concat_zeropad:
  assumes "wpabuf_inv a" "wpabuf_inv b"
  shows "(\<exists>n. wpabuf_concat True (Some a) (Some b) = Some (Some n) \<and> wpabuf_inv n \<and>
            wpabuf_data n = wpabuf_data a @ wpabuf_data b) \<and>
         (\<exists>z. wpabuf_zeropad True (Some a) len = Some (Some z) \<and> wpabuf_inv z \<and>
            wpabuf_data z = replicate (len - wpabuf_len a) 0 @ wpabuf_data a)"
proof
  let ?n = "wpabuf_len a + wpabuf_len b"
  obtain n where n: "wpabuf_alloc True ?n = Some n" by (simp add: wpabuf_alloc_def)
  obtain n2 where "wb.put_all n [wpabuf_data a, wpabuf_data b] = Some n2" "wpabuf_inv n2"
    "wpabuf_data n2 = wpabuf_data n @ concat [wpabuf_data a, wpabuf_data b]"
    using wb.put_all_fits [of n "[wpabuf_data a, wpabuf_data b]"] wpabuf_alloc_props [OF n]
      length_wpabuf_data assms by auto
  with n show "\<exists>n. wpabuf_concat True (Some a) (Some b) = Some (Some n) \<and> wpabuf_inv n \<and>
      wpabuf_data n = wpabuf_data a @ wpabuf_data b"
    using wpabuf_alloc_props [OF n] assms
    by (auto simp: wpabuf_concat_def wpabuf_put_buf_as_data split: bind_splits)
next
  show "\<exists>z. wpabuf_zeropad True (Some a) len = Some (Some z) \<and> wpabuf_inv z \<and>
      wpabuf_data z = replicate (len - wpabuf_len a) 0 @ wpabuf_data a"
  proof (cases "len \<le> wpabuf_len a")
    case True
    then show ?thesis using assms by (simp add: wpabuf_zeropad_def)
  next
    case False
    let ?zs = "replicate (len - wpabuf_len a) 0 :: bytes"
    obtain r where r: "wpabuf_alloc True len = Some r" by (simp add: wpabuf_alloc_def)
    obtain r3 where r3: "wb.put_all r [?zs, wpabuf_data a] = Some r3" "wpabuf_inv r3"
      "wpabuf_data r3 = wpabuf_data r @ concat [?zs, wpabuf_data a]"
      using wb.put_all_fits [of r "[?zs, wpabuf_data a]"] wpabuf_alloc_props [OF r]
        length_wpabuf_data assms False by auto
    from r3(1) obtain r2 where "wpabuf_put_data r (Some ?zs) = Some r2"
      "wpabuf_put_data r2 (Some (wpabuf_data a)) = Some r3"
      by (auto split: bind_splits)
    moreover have "wpabuf_put_data r (Some ?zs) = do {
        (pos, r1) \<leftarrow> wpabuf_put r (len - wpabuf_len a); wpabuf_store r1 pos ?zs }"
      by (simp add: wpabuf_put_data_def)
    ultimately show ?thesis
      using r r3 False wpabuf_alloc_props [OF r] assms(1)
      by (auto simp: wpabuf_zeropad_def Let_def wpabuf_put_buf_as_data split: bind_splits)
  qed
qed

end
