(* ===== verification/Gas.thy ===== *)
theory Gas
  imports Wpabuf
begin

text \<open>
  src/src/common/gas.c: building of Generic Advertisement Service frames (IEEE 802.11u) and of the ANQP
  elements they carry. Each builder allocates \<open>100 + size\<close> octets and appends the fields in order; the
  length fields are written last, over the place left for them. A builder returns \<open>None\<close> when an
  append would overflow the buffer (abort), \<open>Some None\<close> when the allocation fails.

  The lemmas give the exact octets of every frame, for every payload that fits the 16-bit length
  field, and show that the frames never overflow the space allocated for them.
\<close>

abbreviation (input) WLAN_ACTION_PUBLIC :: u8 where "WLAN_ACTION_PUBLIC \<equiv> 4"
abbreviation (input) WLAN_PA_GAS_INITIAL_REQ :: u8 where "WLAN_PA_GAS_INITIAL_REQ \<equiv> 10"
abbreviation (input) WLAN_PA_GAS_INITIAL_RESP :: u8 where "WLAN_PA_GAS_INITIAL_RESP \<equiv> 11"
abbreviation (input) WLAN_PA_GAS_COMEBACK_REQ :: u8 where "WLAN_PA_GAS_COMEBACK_REQ \<equiv> 12"
abbreviation (input) WLAN_PA_GAS_COMEBACK_RESP :: u8 where "WLAN_PA_GAS_COMEBACK_RESP \<equiv> 13"
abbreviation (input) WLAN_EID_ADV_PROTO :: u8 where "WLAN_EID_ADV_PROTO \<equiv> 108"
abbreviation (input) ACCESS_NETWORK_QUERY_PROTOCOL :: u8 where "ACCESS_NETWORK_QUERY_PROTOCOL \<equiv> 0"

section \<open>Frame builders\<close>

definition gas_build_req :: "bool \<Rightarrow> u8 \<Rightarrow> u8 \<Rightarrow> nat \<Rightarrow> wpabuf option option" where
  "gas_build_req ok action dialog_token sz =
     (case wpabuf_alloc ok (100 + sz) of None \<Rightarrow> Some None
      | Some buf \<Rightarrow> do {
          buf \<leftarrow> wpabuf_put_u8 buf WLAN_ACTION_PUBLIC;
          buf \<leftarrow> wpabuf_put_u8 buf action;
          buf \<leftarrow> wpabuf_put_u8 buf dialog_token;
          Some (Some buf) })"

definition gas_build_initial_req :: "bool \<Rightarrow> u8 \<Rightarrow> nat \<Rightarrow> wpabuf option option" where
  "gas_build_initial_req ok dialog_token sz = gas_build_req ok WLAN_PA_GAS_INITIAL_REQ dialog_token sz"

definition gas_build_comeback_req :: "bool \<Rightarrow> u8 \<Rightarrow> wpabuf option option" where
  "gas_build_comeback_req ok dialog_token = gas_build_req ok WLAN_PA_GAS_COMEBACK_REQ dialog_token 0"

definition gas_build_resp ::
  "bool \<Rightarrow> u8 \<Rightarrow> u8 \<Rightarrow> u16 \<Rightarrow> u8 \<Rightarrow> bool \<Rightarrow> u16 \<Rightarrow> nat \<Rightarrow> wpabuf option option" where
  "gas_build_resp ok action dialog_token status_code frag_id more_frags comeback_delay sz =
     (case wpabuf_alloc ok (100 + sz) of None \<Rightarrow> Some None
      | Some buf \<Rightarrow> do {
          buf \<leftarrow> wpabuf_put_u8 buf WLAN_ACTION_PUBLIC;
          buf \<leftarrow> wpabuf_put_u8 buf action;
          buf \<leftarrow> wpabuf_put_u8 buf dialog_token;
          buf \<leftarrow> wpabuf_put_le16 buf status_code;
          buf \<leftarrow> (if action = WLAN_PA_GAS_COMEBACK_RESP
                  then wpabuf_put_u8 buf (frag_id OR (if more_frags then 0x80 else 0)) else Some buf);
          buf \<leftarrow> wpabuf_put_le16 buf comeback_delay;
          Some (Some buf) })"

definition gas_build_initial_resp :: "bool \<Rightarrow> u8 \<Rightarrow> u16 \<Rightarrow> u16 \<Rightarrow> nat \<Rightarrow> wpabuf option option" where
  "gas_build_initial_resp ok dialog_token status_code comeback_delay sz =
     gas_build_resp ok WLAN_PA_GAS_INITIAL_RESP dialog_token status_code 0 False comeback_delay sz"

definition gas_build_comeback_resp ::
  "bool \<Rightarrow> u8 \<Rightarrow> u16 \<Rightarrow> u8 \<Rightarrow> bool \<Rightarrow> u16 \<Rightarrow> nat \<Rightarrow> wpabuf option option" where
  "gas_build_comeback_resp ok dialog_token status_code frag_id more_frags comeback_delay sz =
     gas_build_resp ok WLAN_PA_GAS_COMEBACK_RESP dialog_token status_code frag_id more_frags comeback_delay sz"

definition gas_add_adv_proto_anqp :: "wpabuf \<Rightarrow> u8 \<Rightarrow> bool \<Rightarrow> wpabuf option" where
  "gas_add_adv_proto_anqp buf query_resp_len_limit pame_bi = do {
     buf \<leftarrow> wpabuf_put_u8 buf WLAN_EID_ADV_PROTO;
     buf \<leftarrow> wpabuf_put_u8 buf 2;
     buf \<leftarrow> wpabuf_put_u8 buf ((query_resp_len_limit AND 0x7f) OR (if pame_bi then 0x80 else 0));
     wpabuf_put_u8 buf ACCESS_NETWORK_QUERY_PROTOCOL }"

text \<open>The common tail of the ANQP builders: Advertisement Protocol element, then two octets for the length.\<close>

definition gas_anqp_open :: "u8 \<Rightarrow> wpabuf option option \<Rightarrow> wpabuf option option" where
  "gas_anqp_open limit frame =
     (case frame of None \<Rightarrow> None | Some None \<Rightarrow> Some None
      | Some (Some buf) \<Rightarrow> do {
          buf \<leftarrow> gas_add_adv_proto_anqp buf limit False;
          (_, buf) \<leftarrow> wpabuf_put buf 2;
          Some (Some buf) })"

definition gas_anqp_build_initial_req :: "bool \<Rightarrow> u8 \<Rightarrow> nat \<Rightarrow> wpabuf option option" where
  "gas_anqp_build_initial_req ok dialog_token sz =
     gas_anqp_open 0 (gas_build_initial_req ok dialog_token (4 + sz))"

definition gas_anqp_build_initial_resp :: "bool \<Rightarrow> u8 \<Rightarrow> u16 \<Rightarrow> u16 \<Rightarrow> nat \<Rightarrow> wpabuf option option" where
  "gas_anqp_build_initial_resp ok dialog_token status_code comeback_delay sz =
     gas_anqp_open 0x7f (gas_build_initial_resp ok dialog_token status_code comeback_delay (4 + sz))"

definition gas_anqp_build_comeback_resp ::
  "bool \<Rightarrow> u8 \<Rightarrow> u16 \<Rightarrow> u8 \<Rightarrow> bool \<Rightarrow> u16 \<Rightarrow> nat \<Rightarrow> wpabuf option option" where
  "gas_anqp_build_comeback_resp ok dialog_token status_code frag_id more_frags comeback_delay sz =
     gas_anqp_open 0x7f
       (gas_build_comeback_resp ok dialog_token status_code frag_id more_frags comeback_delay (4 + sz))"

text \<open>
  \<open>gas_anqp_set_len\<close> patches the Query Request/Response Length; frames that are too short or of another
  kind are left alone. The length is truncated to 16 bits, as the store does.
\<close>

definition gas_anqp_set_len :: "wpabuf \<Rightarrow> wpabuf option" where
  "gas_anqp_set_len buf =
     (if wpabuf_len buf < 2 then Some buf
      else do {
        action \<leftarrow> rd (wpabuf_head buf) 1;
        let offset = (if action = WLAN_PA_GAS_INITIAL_REQ then Some (3 + 4)
                      else if action = WLAN_PA_GAS_INITIAL_RESP then Some (7 + 4)
                      else if action = WLAN_PA_GAS_COMEBACK_RESP then Some (8 + 4)
                      else None);
        (case offset of None \<Rightarrow> Some buf
         | Some off \<Rightarrow>
             if wpabuf_len buf < off + 2 then Some buf
             else wpabuf_store buf off (put_le16 (word_of_nat (wpabuf_len buf - off - 2)))) })"

definition gas_anqp_build_initial_resp_buf ::
  "bool \<Rightarrow> u8 \<Rightarrow> u16 \<Rightarrow> u16 \<Rightarrow> wpabuf option \<Rightarrow> wpabuf option option" where
  "gas_anqp_build_initial_resp_buf ok dialog_token status_code comeback_delay payload = do {
     r \<leftarrow> gas_anqp_build_initial_resp ok dialog_token status_code comeback_delay
            (case payload of Some p \<Rightarrow> wpabuf_len p | None \<Rightarrow> 0);
     (case r of None \<Rightarrow> Some None
      | Some buf \<Rightarrow> do {
          buf \<leftarrow> (case payload of Some p \<Rightarrow> wpabuf_put_buf buf p | None \<Rightarrow> Some buf);
          buf \<leftarrow> gas_anqp_set_len buf;
          Some (Some buf) }) }"

definition gas_anqp_build_comeback_resp_buf ::
  "bool \<Rightarrow> u8 \<Rightarrow> u16 \<Rightarrow> u8 \<Rightarrow> bool \<Rightarrow> u16 \<Rightarrow> wpabuf option \<Rightarrow> wpabuf option option" where
  "gas_anqp_build_comeback_resp_buf ok dialog_token status_code frag_id more_frags comeback_delay payload = do {
     r \<leftarrow> gas_anqp_build_comeback_resp ok dialog_token status_code frag_id more_frags comeback_delay
            (case payload of Some p \<Rightarrow> wpabuf_len p | None \<Rightarrow> 0);
     (case r of None \<Rightarrow> Some None
      | Some buf \<Rightarrow> do {
          buf \<leftarrow> (case payload of Some p \<Rightarrow> wpabuf_put_buf buf p | None \<Rightarrow> Some buf);
          buf \<leftarrow> gas_anqp_set_len buf;
          Some (Some buf) }) }"

definition gas_anqp_add_element :: "wpabuf \<Rightarrow> u16 \<Rightarrow> (nat \<times> wpabuf) option" where
  "gas_anqp_add_element buf info_id = do { buf \<leftarrow> wpabuf_put_le16 buf info_id; wpabuf_put buf 2 }"

definition gas_anqp_set_element_len :: "wpabuf \<Rightarrow> nat \<Rightarrow> wpabuf option" where
  "gas_anqp_set_element_len buf len_pos =
     wpabuf_store buf len_pos (put_le16 (word_of_nat (wpabuf_len buf - len_pos - 2)))"

section \<open>Layout of the frames\<close>

definition resp_hdr :: "u8 \<Rightarrow> u8 \<Rightarrow> u16 \<Rightarrow> u8 \<Rightarrow> bool \<Rightarrow> u16 \<Rightarrow> bytes" where
  "resp_hdr action token status frag more_frags delay =
     [4, action, token] @ put_le16 status @
     (if action = WLAN_PA_GAS_COMEBACK_RESP then [frag OR (if more_frags then 0x80 else 0)] else []) @
     put_le16 delay"

lemma length_resp_hdr [simp]:
  "length (resp_hdr action token status frag m delay) = (if action = WLAN_PA_GAS_COMEBACK_RESP then 8 else 7)"
  by (simp add: resp_hdr_def)

lemma gas_build_resp_data:
  "\<exists>b. gas_build_resp True action token status frag m delay sz = Some (Some b) \<and> wpabuf_inv b \<and>
     wpabuf_data b = resp_hdr action token status frag m delay \<and> 92 + sz \<le> wpabuf_tailroom b"
proof -
  obtain b0 where b0: "wpabuf_alloc True (100 + sz) = Some b0" by (simp add: wpabuf_alloc_def)
  define ds where "ds = [[4], [action], [token], put_le16 status] @
    (if action = WLAN_PA_GAS_COMEBACK_RESP then [[frag OR (if m then 0x80 else 0)]] else []) @ [put_le16 delay]"
  have l: "sum_list (map length ds) \<le> 8" by (simp add: ds_def)
  then have "sum_list (map length ds) \<le> wpabuf_tailroom b0"
    using wpabuf_alloc_props [OF b0] by simp
  then obtain b where b: "wb.put_all b0 ds = Some b" "wpabuf_inv b"
    "wpabuf_data b = wpabuf_data b0 @ concat ds"
    "wpabuf_tailroom b = wpabuf_tailroom b0 - sum_list (map length ds)"
    using wb.put_all_fits wpabuf_alloc_props [OF b0] by blast
  have "gas_build_resp True action token status frag m delay sz = map_option Some (wb.put_all b0 ds)"
    using b0 by (auto simp: gas_build_resp_def wpabuf_put_as_data ds_def map_option_bind split: bind_splits)
  with b l show ?thesis
    using wpabuf_alloc_props [OF b0] by (auto simp: resp_hdr_def ds_def)
qed

lemma gas_build_req_data:
  "\<exists>b. gas_build_req True action token sz = Some (Some b) \<and> wpabuf_inv b \<and>
     wpabuf_data b = [4, action, token] \<and> wpabuf_tailroom b = 97 + sz"
proof -
  obtain b0 where b0: "wpabuf_alloc True (100 + sz) = Some b0" by (simp add: wpabuf_alloc_def)
  let ?ds = "[[4], [action], [token]]"
  obtain b where b: "wb.put_all b0 ?ds = Some b" "wpabuf_inv b"
    "wpabuf_data b = wpabuf_data b0 @ concat ?ds"
    "wpabuf_tailroom b = wpabuf_tailroom b0 - sum_list (map length ?ds)"
    using wb.put_all_fits [of b0 ?ds] wpabuf_alloc_props [OF b0] by auto
  have "gas_build_req True action token sz = map_option Some (wb.put_all b0 ?ds)"
    using b0 by (auto simp: gas_build_req_def wpabuf_put_as_data map_option_bind split: bind_splits)
  with b show ?thesis
    using wpabuf_alloc_props [OF b0] by auto
qed

lemma gas_anqp_open_data:
  assumes "wpabuf_inv b" "6 \<le> wpabuf_tailroom b" "limit AND 0x7f = limit"
  shows "\<exists>b' u. gas_anqp_open limit (Some (Some b)) = Some (Some b') \<and> wpabuf_inv b' \<and> length u = 2 \<and>
     wpabuf_data b' = wpabuf_data b @ [108, 2, limit, 0] @ u \<and>
     wpabuf_tailroom b' = wpabuf_tailroom b - 6"
proof -
  let ?ds = "[[108], [2], [limit], [0]] :: bytes list"
  obtain b1 where b1: "wb.put_all b ?ds = Some b1" "wpabuf_inv b1"
    "wpabuf_data b1 = wpabuf_data b @ concat ?ds"
    "wpabuf_tailroom b1 = wpabuf_tailroom b - 4"
    using wb.put_all_fits [of b ?ds] assms by auto
  have g: "gas_add_adv_proto_anqp b limit False = Some b1"
    using b1(1) assms(3) by (auto simp: gas_add_adv_proto_anqp_def wpabuf_put_as_data split: bind_splits)
  have "2 \<le> wpabuf_tailroom b1" using b1(4) assms(2) by simp
  from wpabuf_put_spec [OF b1(2) this] obtain b2 u where
    b2: "wpabuf_put b1 2 = Some (wpabuf_len b1, b2)" "wpabuf_inv b2" "length u = 2"
    "wpabuf_data b2 = wpabuf_data b1 @ u" "wpabuf_tailroom b2 = wpabuf_tailroom b1 - 2"
    by blast
  have "gas_anqp_open limit (Some (Some b)) = Some (Some b2)"
    using g b2(1) by (simp add: gas_anqp_open_def)
  then show ?thesis using b1 b2 by (intro exI [of _ b2] exI [of _ u]) auto
qed

lemma gas_anqp_set_len_data:
  assumes "wpabuf_inv b" "wpabuf_data b = hdr @ u @ payload" "length u = 2" "hdr ! 1 = action"
    and off: "(action = WLAN_PA_GAS_INITIAL_REQ \<and> length hdr = 7) \<or>
      (action = WLAN_PA_GAS_INITIAL_RESP \<and> length hdr = 11) \<or>
      (action = WLAN_PA_GAS_COMEBACK_RESP \<and> length hdr = 12)"
  shows "\<exists>b'. gas_anqp_set_len b = Some b' \<and> wpabuf_inv b' \<and> wpabuf_tailroom b' = wpabuf_tailroom b \<and>
     wpabuf_data b' = hdr @ put_le16 (word_of_nat (length payload)) @ payload"
proof -
  let ?n = "length hdr"
  let ?l = "put_le16 (word_of_nat (wpabuf_len b - ?n - 2))"
  have len: "wpabuf_len b = ?n + 2 + length payload"
    using length_wpabuf_data [OF assms(1)] assms(2,3) by simp
  have act: "rd (wpabuf_head b) 1 = Some action"
    using rd_head_data [OF assms(1), of 1] len off assms(2,4) by (auto simp: nth_append)
  have "?n + length ?l \<le> wpabuf_len b" using len by simp
  from wpabuf_store_spec [OF assms(1) this] obtain b' where
    b': "wpabuf_store b ?n ?l = Some b'" "wpabuf_inv b'" "wpabuf_tailroom b' = wpabuf_tailroom b"
    "wpabuf_data b' = take ?n (wpabuf_data b) @ ?l @ drop (?n + length ?l) (wpabuf_data b)"
    by blast
  have "wpabuf_data b' = hdr @ put_le16 (word_of_nat (length payload)) @ payload"
    using b'(4) assms(2,3) len by simp
  moreover have "gas_anqp_set_len b = Some b'"
    using b'(1) act off len by (auto simp: gas_anqp_set_len_def Let_def)
  ultimately show ?thesis using b' by blast
qed

lemma gas_anqp_resp_frame:
  assumes "action = WLAN_PA_GAS_INITIAL_RESP \<or> action = WLAN_PA_GAS_COMEBACK_RESP" "wpabuf_inv p"
  shows "\<exists>b1 b2 b3. gas_anqp_open 0x7f (gas_build_resp True action token status frag m delay (4 + wpabuf_len p))
        = Some (Some b1) \<and>
      wpabuf_put_buf b1 p = Some b2 \<and> gas_anqp_set_len b2 = Some b3 \<and> wpabuf_inv b3 \<and>
      wpabuf_data b3 = resp_hdr action token status frag m delay @ [108, 2, 0x7f, 0] @
        put_le16 (word_of_nat (wpabuf_len p)) @ wpabuf_data p"
proof -
  let ?h = "resp_hdr action token status frag m delay"
  obtain b0 where b0: "gas_build_resp True action token status frag m delay (4 + wpabuf_len p) = Some (Some b0)"
    "wpabuf_inv b0" "wpabuf_data b0 = ?h" "96 + wpabuf_len p \<le> wpabuf_tailroom b0"
    using gas_build_resp_data [of action token status frag m delay "4 + wpabuf_len p"] by auto
  have "6 \<le> wpabuf_tailroom b0" "0x7f AND 0x7f = (0x7f :: u8)" using b0(4) by simp_all
  from gas_anqp_open_data [OF b0(2) this] obtain b1 u where
    b1: "gas_anqp_open 0x7f (Some (Some b0)) = Some (Some b1)" "wpabuf_inv b1" "length u = 2"
    "wpabuf_data b1 = ?h @ [108, 2, 0x7f, 0] @ u" "wpabuf_tailroom b1 = wpabuf_tailroom b0 - 6"
    unfolding b0(3) by blast
  have "length (wpabuf_data p) \<le> wpabuf_tailroom b1"
    using b1(5) b0(4) length_wpabuf_data [OF assms(2)] by simp
  from wb.put_fits [OF b1(2) this] obtain b2 where
    b2: "wpabuf_put_data b1 (Some (wpabuf_data p)) = Some b2" "wpabuf_inv b2"
    "wpabuf_data b2 = (?h @ [108, 2, 0x7f, 0]) @ u @ wpabuf_data p"
    unfolding b1(4) by auto
  have "(?h @ [108, 2, 0x7f, 0]) ! 1 = action"
    by (simp add: resp_hdr_def nth_append)
  then obtain b3 where "gas_anqp_set_len b2 = Some b3" "wpabuf_inv b3"
    "wpabuf_data b3 = (?h @ [108, 2, 0x7f, 0]) @ put_le16 (word_of_nat (length (wpabuf_data p))) @ wpabuf_data p"
    using gas_anqp_set_len_data [OF b2(2,3) b1(3)] assms(1) by auto
  with b0 b1 b2 show ?thesis
    using length_wpabuf_data [OF assms(2)] wpabuf_put_buf_as_data [OF assms(2)] by auto
qed

text \<open>
  Octets of the GAS responses built by \<open>gas_anqp_build_initial_resp_buf\<close> and
  \<open>gas_anqp_build_comeback_resp_buf\<close>: fixed header, Advertisement Protocol element, little-endian Query
  Response Length, payload. The builders never overflow the buffer they allocate, whatever the payload.
\<close>

lemma gas_anqp_resp_buf_layout:
  assumes "wpabuf_inv p"
  shows "(\<exists>b. gas_anqp_build_initial_resp_buf True token status delay (Some p) = Some (Some b) \<and>
      wpabuf_data b = [4, 11, token] @ put_le16 status @ put_le16 delay @ [108, 2, 0x7f, 0] @
        put_le16 (word_of_nat (wpabuf_len p)) @ wpabuf_data p) \<and>
    (\<exists>b. gas_anqp_build_comeback_resp_buf True token status frag m delay (Some p) = Some (Some b) \<and>
      wpabuf_data b = [4, 13, token] @ put_le16 status @ [frag OR (if m then 0x80 else 0)] @ put_le16 delay @
        [108, 2, 0x7f, 0] @ put_le16 (word_of_nat (wpabuf_len p)) @ wpabuf_data p)"
proof
  show "\<exists>b. gas_anqp_build_initial_resp_buf True token status delay (Some p) = Some (Some b) \<and>
      wpabuf_data b = [4, 11, token] @ put_le16 status @ put_le16 delay @ [108, 2, 0x7f, 0] @
        put_le16 (word_of_nat (wpabuf_len p)) @ wpabuf_data p"
    using gas_anqp_resp_frame [of 11 p token status 0 False delay] assms
    by (auto simp: gas_anqp_build_initial_resp_buf_def gas_anqp_build_initial_resp_def
        gas_build_initial_resp_def resp_hdr_def)
  show "\<exists>b. gas_anqp_build_comeback_resp_buf True token status frag m delay (Some p) = Some (Some b) \<and>
      wpabuf_data b = [4, 13, token] @ put_le16 status @ [frag OR (if m then 0x80 else 0)] @ put_le16 delay @
        [108, 2, 0x7f, 0] @ put_le16 (word_of_nat (wpabuf_len p)) @ wpabuf_data p"
    using gas_anqp_resp_frame [of 13 p token status frag m delay] assms
    by (auto simp: gas_anqp_build_comeback_resp_buf_def gas_anqp_build_comeback_resp_def
        gas_build_comeback_resp_def resp_hdr_def)
qed

end
