(* ===== verification/Eloop.thy ===== *)
theory Eloop
  imports Prelude
begin

text \<open>
  The event loop of src/src/utils/eloop.c (select() variant) and the time arithmetic of
  src/src/utils/os.h.

  The static variable \<open>eloop\<close> is the record \<open>eloop_data\<close>, passed and returned explicitly. Handlers are
  application code: the type \<open>'h\<close> names them and a record \<open>app\<close> says what calling one does to the
  loop's state and to the rest of the program (\<open>'w\<close>). Pointers handed to handlers are 64-bit words,
  so \<open>ELOOP_ALL_CTX\<close> is \<open>(void *) -1\<close>. \<open>os_time_t\<close> is a signed 64-bit integer: values are \<open>int\<close>
  and the addition that the code checks for overflow wraps explicitly.

  A handler returns: what a handler may do wrong by itself is the subject of the component it belongs to, and is not
  repeated here. Signals are delivered while \<open>select ()\<close> waits, and not in the middle of other code.

  Results of \<open>os_get_time\<close>, of allocations and of \<open>select ()\<close> are arguments. A table pointer that is
  still NULL is \<open>None\<close>; \<open>count\<close> is the length of the table.
\<close>

section \<open>Time\<close>

record os_time =
  t_sec :: int
  t_usec :: int

definition wrap64 :: "int \<Rightarrow> int" where
  "wrap64 i = (i + 2 ^ 63) mod 2 ^ 64 - 2 ^ 63"

definition os_time_before :: "os_time \<Rightarrow> os_time \<Rightarrow> bool" where
  "os_time_before a b = (t_sec a < t_sec b \<or> (t_sec a = t_sec b \<and> t_usec a < t_usec b))"

definition os_time_sub :: "os_time \<Rightarrow> os_time \<Rightarrow> os_time" where
  "os_time_sub a b =
     (let res = \<lparr>t_sec = wrap64 (t_sec a - t_sec b), t_usec = wrap64 (t_usec a - t_usec b)\<rparr>
      in if t_usec res < 0
         then \<lparr>t_sec = wrap64 (t_sec res - 1), t_usec = wrap64 (t_usec res + 1000000)\<rparr>
         else res)"

definition time_us :: "os_time \<Rightarrow> int" where
  "time_us t = 1000000 * t_sec t + t_usec t"

definition time_ok :: "os_time \<Rightarrow> bool" where
  "time_ok t = (0 \<le> t_sec t \<and> t_sec t < 2 ^ 62 \<and> 0 \<le> t_usec t \<and> t_usec t < 1000000)"

section \<open>State\<close>

type_synonym ptr = u64

definition ELOOP_ALL_CTX :: ptr where
  "ELOOP_ALL_CTX = - 1"

record 'h eloop_sock =
  s_sock :: int
  s_eloop_data :: ptr
  s_user_data :: ptr
  s_handler :: 'h

record 'h eloop_timeout =
  to_time :: os_time
  to_eloop_data :: ptr
  to_user_data :: ptr
  to_handler :: 'h

record 'h eloop_signal =
  g_sig :: int
  g_user_data :: ptr
  g_handler :: 'h
  g_signaled :: int

record 'h eloop_sock_table =
  st_table :: "'h eloop_sock list option"
  st_changed :: bool

record 'h eloop_data =
  el_max_sock :: int
  el_readers :: "'h eloop_sock_table"
  el_writers :: "'h eloop_sock_table"
  el_exceptions :: "'h eloop_sock_table"
  el_timeout :: "'h eloop_timeout list"
  el_signals :: "'h eloop_signal list"
  el_signaled :: int
  el_pending_terminate :: bool
  el_terminate :: bool

datatype eloop_event_type = EVENT_TYPE_READ | EVENT_TYPE_WRITE | EVENT_TYPE_EXCEPTION

record ('h, 'w) app =
  on_timeout :: "'h \<Rightarrow> ptr \<Rightarrow> ptr \<Rightarrow> 'h eloop_data \<times> 'w \<Rightarrow> 'h eloop_data \<times> 'w"
  on_sock :: "'h \<Rightarrow> int \<Rightarrow> ptr \<Rightarrow> ptr \<Rightarrow> 'h eloop_data \<times> 'w \<Rightarrow> 'h eloop_data \<times> 'w"
  on_signal :: "'h \<Rightarrow> int \<Rightarrow> ptr \<Rightarrow> 'h eloop_data \<times> 'w \<Rightarrow> 'h eloop_data \<times> 'w"

definition st_list :: "'h eloop_sock_table \<Rightarrow> 'h eloop_sock list" where
  "st_list t = (case st_table t of None \<Rightarrow> [] | Some l \<Rightarrow> l)"

definition st_count :: "'h eloop_sock_table \<Rightarrow> nat" where
  "st_count t = length (st_list t)"

definition empty_table :: "'h eloop_sock_table" where
  "empty_table = \<lparr>st_table = None, st_changed = False\<rparr>"

definition eloop_init :: "'h eloop_data" where
  "eloop_init = \<lparr>el_max_sock = 0, el_readers = empty_table, el_writers = empty_table,
     el_exceptions = empty_table, el_timeout = [], el_signals = [], el_signaled = 0,
     el_pending_terminate = False, el_terminate = False\<rparr>"

section \<open>Sockets\<close>

definition eloop_get_sock_table ::
  "eloop_event_type \<Rightarrow> 'h eloop_data \<Rightarrow> 'h eloop_sock_table" where
  "eloop_get_sock_table ty el = (case ty of
     EVENT_TYPE_READ \<Rightarrow> el_readers el
   | EVENT_TYPE_WRITE \<Rightarrow> el_writers el
   | EVENT_TYPE_EXCEPTION \<Rightarrow> el_exceptions el)"

definition set_sock_table ::
  "eloop_event_type \<Rightarrow> 'h eloop_sock_table \<Rightarrow> 'h eloop_data \<Rightarrow> 'h eloop_data" where
  "set_sock_table ty t el = (case ty of
     EVENT_TYPE_READ \<Rightarrow> el\<lparr>el_readers := t\<rparr>
   | EVENT_TYPE_WRITE \<Rightarrow> el\<lparr>el_writers := t\<rparr>
   | EVENT_TYPE_EXCEPTION \<Rightarrow> el\<lparr>el_exceptions := t\<rparr>)"

definition eloop_sock_table_add_sock ::
  "bool \<Rightarrow> eloop_event_type \<Rightarrow> int \<Rightarrow> 'h \<Rightarrow> ptr \<Rightarrow> ptr \<Rightarrow> 'h eloop_data \<Rightarrow> int \<times> 'h eloop_data" where
  "eloop_sock_table_add_sock ok ty sock handler eloop_data user_data el =
     (let table = eloop_get_sock_table ty el in
      if \<not> ok then (-1, el)
      else
        let tmp = \<lparr>s_sock = sock, s_eloop_data = eloop_data, s_user_data = user_data,
                   s_handler = handler\<rparr>;
            table' = \<lparr>st_table = Some (st_list table @ [tmp]), st_changed = True\<rparr>;
            el' = el\<lparr>el_max_sock := (if el_max_sock el < sock then sock else el_max_sock el)\<rparr>
        in (0, set_sock_table ty table' el'))"

fun sock_index :: "int \<Rightarrow> 'h eloop_sock list \<Rightarrow> nat" where
  "sock_index sock [] = 0"
| "sock_index sock (s # ss) = (if s_sock s = sock then 0 else Suc (sock_index sock ss))"

definition eloop_sock_table_remove_sock ::
  "eloop_event_type \<Rightarrow> int \<Rightarrow> 'h eloop_data \<Rightarrow> 'h eloop_data" where
  "eloop_sock_table_remove_sock ty sock el =
     (let table = eloop_get_sock_table ty el; l = st_list table; i = sock_index sock l in
      if st_table table = None \<or> l = [] then el
      else if i = length l then el
      else set_sock_table ty
             \<lparr>st_table = Some (take i l @ drop (i + 1) l), st_changed = True\<rparr> el)"

text \<open>
  An \<open>fd_set\<close> is the list of the descriptors in it; \<open>FD_SET\<close> outside \<open>0 .. FD_SETSIZE - 1\<close> writes
  outside the bitmap.
\<close>

definition FD_SETSIZE :: int where
  "FD_SETSIZE = 1024"

definition FD_SET :: "int \<Rightarrow> int list \<Rightarrow> int list option" where
  "FD_SET s fds = (if 0 \<le> s \<and> s < FD_SETSIZE then Some (s # fds) else None)"

fun set_fds_loop :: "'h eloop_sock list \<Rightarrow> int list \<Rightarrow> int list option" where
  "set_fds_loop [] fds = Some fds"
| "set_fds_loop (s # ss) fds = do { fds' \<leftarrow> FD_SET (s_sock s) fds; set_fds_loop ss fds' }"

definition eloop_sock_table_set_fds :: "'h eloop_sock_table \<Rightarrow> int list option" where
  "eloop_sock_table_set_fds table = set_fds_loop (st_list table) []"

text \<open>
  The dispatch loop reads the table again after every handler. Handlers change a table only through
  \<open>eloop_register_sock\<close> and \<open>eloop_unregister_sock\<close>, which set \<open>changed\<close>, so at most \<open>count\<close> rounds
  are made; \<open>n\<close> counts the rounds left.
\<close>

fun dispatch_loop ::
  "('h, 'w) app \<Rightarrow> eloop_event_type \<Rightarrow> int list \<Rightarrow> nat \<Rightarrow> nat \<Rightarrow> 'h eloop_data \<times> 'w \<Rightarrow>
     'h eloop_data \<times> 'w" where
  "dispatch_loop ap ty fds 0 i st = st"
| "dispatch_loop ap ty fds (Suc n) i st =
     (let l = st_list (eloop_get_sock_table ty (fst st)) in
      if i < length l then
        if s_sock (l ! i) \<in> set fds then
          let st' = on_sock ap (s_handler (l ! i)) (s_sock (l ! i)) (s_eloop_data (l ! i))
                      (s_user_data (l ! i)) st
          in if st_changed (eloop_get_sock_table ty (fst st')) then st'
             else dispatch_loop ap ty fds n (i + 1) st'
        else dispatch_loop ap ty fds n (i + 1) st
      else st)"

definition eloop_sock_table_dispatch ::
  "('h, 'w) app \<Rightarrow> eloop_event_type \<Rightarrow> int list \<Rightarrow> 'h eloop_data \<times> 'w \<Rightarrow> 'h eloop_data \<times> 'w" where
  "eloop_sock_table_dispatch ap ty fds st =
     (let table = eloop_get_sock_table ty (fst st) in
      if st_table table = None then st
      else dispatch_loop ap ty fds (st_count table) 0
             (set_sock_table ty (table\<lparr>st_changed := False\<rparr>) (fst st), snd st))"

definition eloop_register_sock ::
  "bool \<Rightarrow> int \<Rightarrow> eloop_event_type \<Rightarrow> 'h \<Rightarrow> ptr \<Rightarrow> ptr \<Rightarrow> 'h eloop_data \<Rightarrow> int \<times> 'h eloop_data" where
  "eloop_register_sock ok sock ty handler eloop_data user_data el =
     eloop_sock_table_add_sock ok ty sock handler eloop_data user_data el"

definition eloop_unregister_sock ::
  "int \<Rightarrow> eloop_event_type \<Rightarrow> 'h eloop_data \<Rightarrow> 'h eloop_data" where
  "eloop_unregister_sock sock ty el = eloop_sock_table_remove_sock ty sock el"

definition eloop_register_read_sock ::
  "bool \<Rightarrow> int \<Rightarrow> 'h \<Rightarrow> ptr \<Rightarrow> ptr \<Rightarrow> 'h eloop_data \<Rightarrow> int \<times> 'h eloop_data" where
  "eloop_register_read_sock ok sock handler eloop_data user_data el =
     eloop_register_sock ok sock EVENT_TYPE_READ handler eloop_data user_data el"

definition eloop_unregister_read_sock :: "int \<Rightarrow> 'h eloop_data \<Rightarrow> 'h eloop_data" where
  "eloop_unregister_read_sock sock el = eloop_unregister_sock sock EVENT_TYPE_READ el"

section \<open>Timeouts\<close>

text \<open>
  \<open>usec_norm\<close> is the loop that carries whole seconds out of \<open>usec\<close>.
\<close>

function usec_norm :: "int \<Rightarrow> int \<Rightarrow> os_time" where
  "usec_norm sec usec =
     (if 1000000 \<le> usec then usec_norm (wrap64 (sec + 1)) (usec - 1000000)
      else \<lparr>t_sec = sec, t_usec = usec\<rparr>)"
  by pat_completeness auto
termination by (relation "measure (\<lambda>(s, u). nat u)") auto

declare usec_norm.simps [simp del]

fun insert_timeout :: "'h eloop_timeout \<Rightarrow> 'h eloop_timeout list \<Rightarrow> 'h eloop_timeout list" where
  "insert_timeout t [] = [t]"
| "insert_timeout t (tmp # ts) =
     (if os_time_before (to_time t) (to_time tmp) then t # tmp # ts
      else tmp # insert_timeout t ts)"

definition eloop_register_timeout ::
  "bool \<Rightarrow> os_time option \<Rightarrow> u32 \<Rightarrow> u32 \<Rightarrow> 'h \<Rightarrow> ptr \<Rightarrow> ptr \<Rightarrow> 'h eloop_data \<Rightarrow>
     int \<times> 'h eloop_data" where
  "eloop_register_timeout ok gettime secs usecs handler eloop_data user_data el =
     (if \<not> ok then (-1, el)
      else case gettime of
        None \<Rightarrow> (-1, el)
      | Some time \<Rightarrow>
          let now_sec = t_sec time;
              sec = wrap64 (t_sec time + uint secs)
          in if sec < now_sec then (0, el)
             else
               let timeout = \<lparr>to_time = usec_norm sec (wrap64 (t_usec time + uint usecs)),
                              to_eloop_data = eloop_data, to_user_data = user_data,
                              to_handler = handler\<rparr>
               in (0, el\<lparr>el_timeout := insert_timeout timeout (el_timeout el)\<rparr>))"

definition cancel_match :: "'h \<Rightarrow> ptr \<Rightarrow> ptr \<Rightarrow> 'h eloop_timeout \<Rightarrow> bool" where
  "cancel_match handler eloop_data user_data timeout =
     (to_handler timeout = handler \<and>
      (to_eloop_data timeout = eloop_data \<or> eloop_data = ELOOP_ALL_CTX) \<and>
      (to_user_data timeout = user_data \<or> user_data = ELOOP_ALL_CTX))"

fun cancel_loop ::
  "'h \<Rightarrow> ptr \<Rightarrow> ptr \<Rightarrow> 'h eloop_timeout list \<Rightarrow> int \<times> 'h eloop_timeout list" where
  "cancel_loop handler eloop_data user_data [] = (0, [])"
| "cancel_loop handler eloop_data user_data (t # ts) =
     (let (removed, ts') = cancel_loop handler eloop_data user_data ts
      in if cancel_match handler eloop_data user_data t then (removed + 1, ts')
         else (removed, t # ts'))"

definition eloop_cancel_timeout ::
  "'h \<Rightarrow> ptr \<Rightarrow> ptr \<Rightarrow> 'h eloop_data \<Rightarrow> int \<times> 'h eloop_data" where
  "eloop_cancel_timeout handler eloop_data user_data el =
     (let (removed, ts) = cancel_loop handler eloop_data user_data (el_timeout el)
      in (removed, el\<lparr>el_timeout := ts\<rparr>))"

definition eloop_is_timeout_registered :: "'h \<Rightarrow> ptr \<Rightarrow> ptr \<Rightarrow> 'h eloop_data \<Rightarrow> bool" where
  "eloop_is_timeout_registered handler eloop_data user_data el =
     list_ex (\<lambda>tmp. to_handler tmp = handler \<and> to_eloop_data tmp = eloop_data \<and>
                to_user_data tmp = user_data) (el_timeout el)"

section \<open>Signals\<close>

definition SIGHUP :: int where "SIGHUP = 1"
definition SIGINT :: int where "SIGINT = 2"
definition SIGTERM :: int where "SIGTERM = 15"

fun mark_signal :: "int \<Rightarrow> 'h eloop_signal list \<Rightarrow> 'h eloop_signal list" where
  "mark_signal sig [] = []"
| "mark_signal sig (s # ss) =
     (if g_sig s = sig then s\<lparr>g_signaled := g_signaled s + 1\<rparr> # ss else s # mark_signal sig ss)"

definition eloop_handle_signal :: "int \<Rightarrow> 'h eloop_data \<Rightarrow> 'h eloop_data" where
  "eloop_handle_signal sig el =
     (let el' = (if (sig = SIGINT \<or> sig = SIGTERM) \<and> \<not> el_pending_terminate el
                 then el\<lparr>el_pending_terminate := True\<rparr> else el)
      in el'\<lparr>el_signaled := el_signaled el' + 1, el_signals := mark_signal sig (el_signals el')\<rparr>)"

text \<open>
  The code reads \<open>signal_count\<close> again in every round, as handlers may register signals. The model visits the entries
  that were in the table at the start (\<open>n\<close> counts them): one registered meanwhile has \<open>signaled\<close> zero, as no signal
  is delivered outside \<open>select ()\<close>, so the code would pass over it.
\<close>

fun pending_loop ::
  "('h, 'w) app \<Rightarrow> nat \<Rightarrow> nat \<Rightarrow> 'h eloop_data \<times> 'w \<Rightarrow> 'h eloop_data \<times> 'w" where
  "pending_loop ap 0 i st = st"
| "pending_loop ap (Suc n) i st =
     (let l = el_signals (fst st) in
      if i < length l then
        if g_signaled (l ! i) \<noteq> 0 then
          let el' = (fst st)\<lparr>el_signals := l[i := (l ! i)\<lparr>g_signaled := 0\<rparr>]\<rparr>;
              st' = on_signal ap (g_handler (l ! i)) (g_sig (l ! i)) (g_user_data (l ! i)) (el', snd st)
          in pending_loop ap n (i + 1) st'
        else pending_loop ap n (i + 1) st
      else st)"

definition eloop_process_pending_signals ::
  "('h, 'w) app \<Rightarrow> 'h eloop_data \<times> 'w \<Rightarrow> 'h eloop_data \<times> 'w" where
  "eloop_process_pending_signals ap st =
     (if el_signaled (fst st) = 0 then st
      else pending_loop ap (length (el_signals (fst st))) 0
             ((fst st)\<lparr>el_signaled := 0, el_pending_terminate := False\<rparr>, snd st))"

definition eloop_register_signal ::
  "bool \<Rightarrow> int \<Rightarrow> 'h \<Rightarrow> ptr \<Rightarrow> 'h eloop_data \<Rightarrow> int \<times> 'h eloop_data" where
  "eloop_register_signal ok sig handler user_data el =
     (if \<not> ok then (-1, el)
      else (0, el\<lparr>el_signals := el_signals el @
                   [\<lparr>g_sig = sig, g_user_data = user_data, g_handler = handler, g_signaled = 0\<rparr>]\<rparr>))"

definition eloop_register_signal_terminate ::
  "bool \<Rightarrow> bool \<Rightarrow> 'h \<Rightarrow> ptr \<Rightarrow> 'h eloop_data \<Rightarrow> int \<times> 'h eloop_data" where
  "eloop_register_signal_terminate ok1 ok2 handler user_data el =
     (let (ret, el') = eloop_register_signal ok1 SIGINT handler user_data el
      in if ret = 0 then eloop_register_signal ok2 SIGTERM handler user_data el' else (ret, el'))"

definition eloop_register_signal_reconfig ::
  "bool \<Rightarrow> 'h \<Rightarrow> ptr \<Rightarrow> 'h eloop_data \<Rightarrow> int \<times> 'h eloop_data" where
  "eloop_register_signal_reconfig ok handler user_data el =
     eloop_register_signal ok SIGHUP handler user_data el"

section \<open>The loop\<close>

text \<open>
  One round of \<open>eloop_run\<close> meets the environment in an \<open>env_round\<close>: the two clock readings, the
  signals that arrive while \<open>select ()\<close> waits, and the result of \<open>select ()\<close> as a function of its
  arguments (highest descriptor plus one, the three descriptor sets, the time to wait).
\<close>

record sel_out =
  so_res :: int
  so_errno :: int
  so_rfds :: "int list"
  so_wfds :: "int list"
  so_efds :: "int list"

record env_round =
  ev_now1 :: os_time
  ev_select :: "int \<Rightarrow> int list \<Rightarrow> int list \<Rightarrow> int list \<Rightarrow> os_time option \<Rightarrow> sel_out"
  ev_signals :: "int list"
  ev_now2 :: os_time

datatype 'a run_result = Exited 'a | Running 'a

definition EINTR :: int where "EINTR = 4"

definition loop_guard :: "'h eloop_data \<Rightarrow> bool" where
  "loop_guard el = (\<not> el_terminate el \<and>
     (el_timeout el \<noteq> [] \<or> st_count (el_readers el) > 0 \<or> st_count (el_writers el) > 0 \<or>
      st_count (el_exceptions el) > 0))"

definition select_timeout :: "os_time \<Rightarrow> 'h eloop_data \<Rightarrow> os_time option" where
  "select_timeout now el = (case el_timeout el of
     [] \<Rightarrow> None
   | t # _ \<Rightarrow> Some (if os_time_before now (to_time t) then os_time_sub (to_time t) now
                   else \<lparr>t_sec = 0, t_usec = 0\<rparr>))"

definition eloop_select :: "env_round \<Rightarrow> 'h eloop_data \<Rightarrow> sel_out option" where
  "eloop_select ev el = do {
     rfds \<leftarrow> eloop_sock_table_set_fds (el_readers el);
     wfds \<leftarrow> eloop_sock_table_set_fds (el_writers el);
     efds \<leftarrow> eloop_sock_table_set_fds (el_exceptions el);
     Some (ev_select ev (el_max_sock el + 1) rfds wfds efds (select_timeout (ev_now1 ev) el)) }"

definition fire_timeout ::
  "('h, 'w) app \<Rightarrow> os_time \<Rightarrow> 'h eloop_data \<times> 'w \<Rightarrow> 'h eloop_data \<times> 'w" where
  "fire_timeout ap now st = (case el_timeout (fst st) of
     [] \<Rightarrow> st
   | t # ts \<Rightarrow>
       if \<not> os_time_before now (to_time t)
       then on_timeout ap (to_handler t) (to_eloop_data t) (to_user_data t)
              ((fst st)\<lparr>el_timeout := ts\<rparr>, snd st)
       else st)"

definition eloop_round ::
  "('h, 'w) app \<Rightarrow> env_round \<Rightarrow> 'h eloop_data \<times> 'w \<Rightarrow> ('h eloop_data \<times> 'w) run_result option" where
  "eloop_round ap ev st = do {
     so \<leftarrow> eloop_select ev (fst st);
     let st1 = (fold eloop_handle_signal (ev_signals ev) (fst st), snd st);
     if so_res so < 0 \<and> so_errno so \<noteq> EINTR \<and> so_errno so \<noteq> 0 then Some (Exited st1)
     else do {
       let st2 = eloop_process_pending_signals ap st1;
       let st3 = fire_timeout ap (ev_now2 ev) st2;
       if so_res so \<le> 0 then Some (Running st3)
       else do {
         let st4 = eloop_sock_table_dispatch ap EVENT_TYPE_READ (so_rfds so) st3;
         let st5 = eloop_sock_table_dispatch ap EVENT_TYPE_WRITE (so_wfds so) st4;
         Some (Running (eloop_sock_table_dispatch ap EVENT_TYPE_EXCEPTION (so_efds so) st5))
       }
     }
   }"

fun eloop_run_rounds ::
  "('h, 'w) app \<Rightarrow> env_round list \<Rightarrow> 'h eloop_data \<times> 'w \<Rightarrow>
     ('h eloop_data \<times> 'w) run_result option" where
  "eloop_run_rounds ap evs st =
     (if \<not> loop_guard (fst st) then Some (Exited st)
      else case evs of
        [] \<Rightarrow> Some (Running st)
      | ev # evs' \<Rightarrow> do {
          r \<leftarrow> eloop_round ap ev st;
          case r of Exited st' \<Rightarrow> Some (Exited st') | Running st' \<Rightarrow> eloop_run_rounds ap evs' st' })"

definition eloop_run ::
  "bool \<Rightarrow> ('h, 'w) app \<Rightarrow> env_round list \<Rightarrow> 'h eloop_data \<times> 'w \<Rightarrow>
     ('h eloop_data \<times> 'w) run_result option" where
  "eloop_run ok ap evs st = (if \<not> ok then Some (Exited st) else eloop_run_rounds ap evs st)"

definition eloop_terminate :: "'h eloop_data \<Rightarrow> 'h eloop_data" where
  "eloop_terminate el = el\<lparr>el_terminate := True\<rparr>"

definition eloop_terminated :: "'h eloop_data \<Rightarrow> bool" where
  "eloop_terminated el = el_terminate el"

text \<open>\<open>eloop_destroy\<close> frees every timeout and the tables; the table pointers and counts keep their
  values in the code and must not be used again, which the model renders as an empty loop.\<close>

definition eloop_destroy :: "'h eloop_data \<Rightarrow> 'h eloop_data" where
  "eloop_destroy el = el\<lparr>el_timeout := [], el_readers := empty_table, el_writers := empty_table,
     el_exceptions := empty_table, el_signals := []\<rparr>"


section \<open>The timeout queue is ordered\<close>

text \<open>
  The contract of an insertion that walks the list to the first strictly later entry, for any
  strict weak order \<open>before\<close>: insertion keeps the list ordered, and entries of equal rank stay in
  the order of their insertion.
\<close>

locale ordered_queue =
  fixes before :: "'a \<Rightarrow> 'a \<Rightarrow> bool"
    and ins :: "'a \<Rightarrow> 'a list \<Rightarrow> 'a list"
  assumes asym: "before a b \<Longrightarrow> \<not> before b a"
    and neg_trans: "\<not> before a b \<Longrightarrow> \<not> before b c \<Longrightarrow> \<not> before a c"
    and ins_Nil: "ins x [] = [x]"
    and ins_Cons: "ins x (y # ys) = (if before x y then x # y # ys else y # ins x ys)"
begin

definition ordered :: "'a list \<Rightarrow> bool" where
  "ordered = sorted_wrt (\<lambda>a b. \<not> before b a)"

lemma ins_split:
  "ins x xs = takeWhile (\<lambda>y. \<not> before x y) xs @ x # dropWhile (\<lambda>y. \<not> before x y) xs"
  by (induction xs) (simp_all add: ins_Nil ins_Cons)

lemma set_ins: "set (ins x xs) = insert x (set xs)"
  by (induction xs) (auto simp: ins_Nil ins_Cons)

lemma ordered_ins: "ordered xs \<Longrightarrow> ordered (ins x xs)"
proof (induction xs)
  case (Cons y ys)
  then have "\<not> before z x" if "before x y" "z \<in> set (y # ys)" for z
    using that asym [of x y] neg_trans [of z y x] by (auto simp: ordered_def)
  then show ?case
    using Cons by (auto simp: ordered_def ins_Cons set_ins)
qed (simp add: ordered_def ins_Nil)

lemma ordered_filter: "ordered xs \<Longrightarrow> ordered (filter P xs)"
  by (simp add: ordered_def sorted_wrt_filter)

lemma ordered_hd_least: "ordered (x # xs) \<Longrightarrow> y \<in> set (x # xs) \<Longrightarrow> \<not> before y x"
  by (auto simp: ordered_def dest: asym)

lemma ordered_tl: "ordered (x # xs) \<Longrightarrow> ordered xs"
  by (simp add: ordered_def)

end

interpretation tq: ordered_queue "\<lambda>a b. os_time_before (to_time a) (to_time b)" insert_timeout
  by unfold_locales (auto simp: os_time_before_def)

definition timers_sorted :: "'h eloop_data \<Rightarrow> bool" where
  "timers_sorted el = sorted_wrt (\<lambda>a b. \<not> os_time_before (to_time b) (to_time a)) (el_timeout el)"

lemma timers_sorted_ordered: "timers_sorted el = tq.ordered (el_timeout el)"
  by (simp add: timers_sorted_def tq.ordered_def)

lemma wrap64_id: "- (2 ^ 63) \<le> i \<Longrightarrow> i < 2 ^ 63 \<Longrightarrow> wrap64 i = i"
  by (simp add: wrap64_def)

lemma wrap64_nonneg: "0 \<le> i \<Longrightarrow> i < 2 ^ 63 \<Longrightarrow> wrap64 i = i"
  by (simp add: wrap64_id)

lemma os_time_before_us:
  "time_ok a \<Longrightarrow> time_ok b \<Longrightarrow> os_time_before a b \<longleftrightarrow> time_us a < time_us b"
  by (auto simp: time_ok_def os_time_before_def time_us_def)

lemma os_time_sub_us:
  assumes "time_ok a" "time_ok b"
  shows "time_us (os_time_sub a b) = time_us a - time_us b"
    and "0 \<le> t_usec (os_time_sub a b)" and "t_usec (os_time_sub a b) < 1000000"
  using assms by (auto simp: time_ok_def os_time_sub_def time_us_def wrap64_id Let_def)

lemma usec_norm_us:
  assumes "0 \<le> usec" "0 \<le> sec" "sec + usec div 1000000 < 2 ^ 63"
  shows "time_us (usec_norm sec usec) = 1000000 * sec + usec
    \<and> 0 \<le> t_usec (usec_norm sec usec) \<and> t_usec (usec_norm sec usec) < 1000000
    \<and> t_sec (usec_norm sec usec) = sec + usec div 1000000"
  using assms
proof (induction sec usec rule: usec_norm.induct)
  case (1 sec usec)
  show ?case
  proof (cases "1000000 \<le> usec")
    case True
    then have d: "usec div 1000000 = (usec - 1000000) div 1000000 + 1" by simp
    moreover have "0 \<le> (usec - 1000000) div 1000000"
      using True by (simp add: pos_imp_zdiv_nonneg_iff)
    ultimately have w: "wrap64 (sec + 1) = sec + 1"
      using 1(3,4) by (intro wrap64_id) linarith+
    have "time_us (usec_norm (sec + 1) (usec - 1000000)) = 1000000 * (sec + 1) + (usec - 1000000)
      \<and> 0 \<le> t_usec (usec_norm (sec + 1) (usec - 1000000))
      \<and> t_usec (usec_norm (sec + 1) (usec - 1000000)) < 1000000
      \<and> t_sec (usec_norm (sec + 1) (usec - 1000000)) = sec + 1 + (usec - 1000000) div 1000000"
      using 1(1) [OF True] 1(2-4) True d unfolding w by linarith
    then show ?thesis
      using True d by (subst (1 2 3 4) usec_norm.simps) (auto simp: w)
  next
    case False
    then show ?thesis
      using 1 by (subst (1 2 3 4) usec_norm.simps) (auto simp: time_us_def)
  qed
qed

lemma timers_sorted_insert:
  "timers_sorted el \<Longrightarrow> timers_sorted (el\<lparr>el_timeout := insert_timeout t (el_timeout el)\<rparr>)"
  by (simp add: timers_sorted_ordered tq.ordered_ins)

lemma eloop_register_timeout_sorted:
  "timers_sorted el \<Longrightarrow>
     timers_sorted (snd (eloop_register_timeout ok gt secs usecs h d u el))"
  by (auto simp: eloop_register_timeout_def timers_sorted_insert Let_def split: option.split)

lemma cancel_loop_eq:
  "cancel_loop h d u ts =
     (int (length (filter (cancel_match h d u) ts)), filter (\<lambda>t. \<not> cancel_match h d u t) ts)"
  by (induction ts) auto

lemma eloop_cancel_timeout_eq:
  "eloop_cancel_timeout h d u el =
     (int (length (filter (cancel_match h d u) (el_timeout el))),
      el\<lparr>el_timeout := filter (\<lambda>t. \<not> cancel_match h d u t) (el_timeout el)\<rparr>)"
  by (simp add: eloop_cancel_timeout_def cancel_loop_eq)

lemma eloop_cancel_timeout_sorted:
  "timers_sorted el \<Longrightarrow> timers_sorted (snd (eloop_cancel_timeout h d u el))"
  by (simp add: eloop_cancel_timeout_eq timers_sorted_ordered tq.ordered_filter)

text \<open>
  Registering a timeout. For a clock reading in range, the new entry's deadline is exactly
  the current time plus the requested delay in microseconds, with a normalised microsecond part; it
  is placed behind every pending timeout that is not later and before every later one (so equal
  deadlines fire in registration order), nothing else changes, and an ordered queue stays ordered.
\<close>

lemma eloop_register_timeout_deadline:
  assumes now: "time_ok now"
  shows "\<exists>t. eloop_register_timeout True (Some now) secs usecs h d u el =
               (0, el\<lparr>el_timeout :=
                   takeWhile (\<lambda>x. \<not> os_time_before (to_time t) (to_time x)) (el_timeout el) @ [t] @
                   dropWhile (\<lambda>x. \<not> os_time_before (to_time t) (to_time x)) (el_timeout el)\<rparr>)
             \<and> time_us (to_time t) = time_us now + 1000000 * uint secs + uint usecs
             \<and> 0 \<le> t_usec (to_time t) \<and> t_usec (to_time t) < 1000000
             \<and> to_handler t = h \<and> to_eloop_data t = d \<and> to_user_data t = u
             \<and> (timers_sorted el \<longrightarrow>
                  timers_sorted (snd (eloop_register_timeout True (Some now) secs usecs h d u el)))"
proof -
  let ?tm = "usec_norm (t_sec now + uint secs) (t_usec now + uint usecs)"
  let ?t = "\<lparr>to_time = ?tm, to_eloop_data = d, to_user_data = u, to_handler = h\<rparr>"
  have b: "0 \<le> uint secs" "uint secs < 2 ^ 32" "0 \<le> uint usecs" "uint usecs < 2 ^ 32"
    using unsigned_less [where ?'a = int, of secs] unsigned_less [where ?'a = int, of usecs] by simp_all
  have n: "0 \<le> t_sec now" "t_sec now < 2 ^ 62" "0 \<le> t_usec now" "t_usec now < 1000000"
    using now by (simp_all add: time_ok_def)
  have pos: "0 \<le> t_sec now + uint secs" "0 \<le> t_usec now + uint usecs"
    using b n by linarith+
  have w1: "wrap64 (t_sec now + uint secs) = t_sec now + uint secs"
    by (rule wrap64_nonneg [OF pos(1)]) (use b n in simp)
  have w2: "wrap64 (t_usec now + uint usecs) = t_usec now + uint usecs"
    by (rule wrap64_nonneg [OF pos(2)]) (use b n in simp)
  have "t_usec now + uint usecs < 2 ^ 33" using b n by simp
  then have "(t_usec now + uint usecs) div 1000000 \<le> 2 ^ 33"
    using b n by (smt (verit) div_by_1 zdiv_mono2)
  then have "t_sec now + uint secs + (t_usec now + uint usecs) div 1000000 < 2 ^ 63"
    using b n by simp
  then have us: "time_us ?tm = 1000000 * (t_sec now + uint secs) + (t_usec now + uint usecs)
    \<and> 0 \<le> t_usec ?tm \<and> t_usec ?tm < 1000000"
    using usec_norm_us [of "t_usec now + uint usecs" "t_sec now + uint secs"] b n by simp
  have "eloop_register_timeout True (Some now) secs usecs h d u el =
    (0, el\<lparr>el_timeout := insert_timeout ?t (el_timeout el)\<rparr>)"
    using w1 w2 b by (simp add: eloop_register_timeout_def Let_def)
  then show "\<exists>t. eloop_register_timeout True (Some now) secs usecs h d u el =
               (0, el\<lparr>el_timeout :=
                   takeWhile (\<lambda>x. \<not> os_time_before (to_time t) (to_time x)) (el_timeout el) @ [t] @
                   dropWhile (\<lambda>x. \<not> os_time_before (to_time t) (to_time x)) (el_timeout el)\<rparr>)
             \<and> time_us (to_time t) = time_us now + 1000000 * uint secs + uint usecs
             \<and> 0 \<le> t_usec (to_time t) \<and> t_usec (to_time t) < 1000000
             \<and> to_handler t = h \<and> to_eloop_data t = d \<and> to_user_data t = u
             \<and> (timers_sorted el \<longrightarrow>
                  timers_sorted (snd (eloop_register_timeout True (Some now) secs usecs h d u el)))"
    using us eloop_register_timeout_sorted [of el True "Some now" secs usecs h d u]
    by (intro exI [of _ ?t]) (simp add: tq.ins_split time_us_def)
qed

lemma eloop_cancel_timeout_facts:
  assumes "eloop_cancel_timeout h d u el = (removed, el')"
  shows "el_timeout el' = filter (\<lambda>t. \<not> cancel_match h d u t) (el_timeout el)"
    and "removed = int (length (el_timeout el)) - int (length (el_timeout el'))"
    and "\<not> eloop_is_timeout_registered h d u el'"
    and "timers_sorted el \<Longrightarrow> timers_sorted el'"
    and "el'\<lparr>el_timeout := el_timeout el\<rparr> = el"
proof -
  show f: "el_timeout el' = filter (\<lambda>t. \<not> cancel_match h d u t) (el_timeout el)"
    using assms by (auto simp: eloop_cancel_timeout_eq)
  show "removed = int (length (el_timeout el)) - int (length (el_timeout el'))"
    unfolding f using assms sum_length_filter_compl [of "cancel_match h d u" "el_timeout el"]
    by (auto simp: eloop_cancel_timeout_eq)
  show "\<not> eloop_is_timeout_registered h d u el'"
    by (auto simp: eloop_is_timeout_registered_def f list_ex_iff cancel_match_def)
  show "timers_sorted el'" if "timers_sorted el"
    using eloop_cancel_timeout_sorted [OF that, of h d u] assms by simp
  show "el'\<lparr>el_timeout := el_timeout el\<rparr> = el"
    using assms by (auto simp: eloop_cancel_timeout_eq)
qed

text \<open>
  Cancelling timeouts. Exactly the entries whose handler and context pointers match (with
  \<open>ELOOP_ALL_CTX\<close> matching every pointer) are removed, their number is returned, the others keep
  their order, and afterwards the cancelled timeout is not registered any more.
\<close>

lemma eloop_cancel_timeout_exact:
  assumes "eloop_cancel_timeout h d u el = (removed, el')"
  shows "el_timeout el' = filter (\<lambda>t. \<not> cancel_match h d u t) (el_timeout el) \<and>
    removed = int (length (el_timeout el)) - int (length (el_timeout el')) \<and>
    \<not> eloop_is_timeout_registered h d u el' \<and>
    (timers_sorted el \<longrightarrow> timers_sorted el') \<and> el'\<lparr>el_timeout := el_timeout el\<rparr> = el"
  using eloop_cancel_timeout_facts [OF assms] by blast

section \<open>The loop honours deadlines\<close>

lemma fire_timeout_none:
  "timers_sorted (fst st) \<Longrightarrow>
     \<forall>t \<in> set (el_timeout (fst st)). os_time_before now (to_time t) \<Longrightarrow> fire_timeout ap now st = st"
  by (auto simp: fire_timeout_def split: list.split)

lemma fire_timeout_facts:
  assumes "timers_sorted el"
  shows "(\<forall>t \<in> set (el_timeout el). os_time_before now (to_time t)) \<Longrightarrow>
           fire_timeout ap now (el, w) = (el, w)"
    and "t0 \<in> set (el_timeout el) \<Longrightarrow> \<not> os_time_before now (to_time t0) \<Longrightarrow>
           \<exists>t ts. el_timeout el = t # ts
             \<and> \<not> os_time_before now (to_time t)
             \<and> (\<forall>x \<in> set (el_timeout el). \<not> os_time_before (to_time x) (to_time t))
             \<and> fire_timeout ap now (el, w) =
                 on_timeout ap (to_handler t) (to_eloop_data t) (to_user_data t)
                   (el\<lparr>el_timeout := ts\<rparr>, w)"
proof -
  show "fire_timeout ap now (el, w) = (el, w)"
    if "\<forall>t \<in> set (el_timeout el). os_time_before now (to_time t)"
    using fire_timeout_none [of "(el, w)"] assms that by simp
  show "\<exists>t ts. el_timeout el = t # ts
             \<and> \<not> os_time_before now (to_time t)
             \<and> (\<forall>x \<in> set (el_timeout el). \<not> os_time_before (to_time x) (to_time t))
             \<and> fire_timeout ap now (el, w) =
                 on_timeout ap (to_handler t) (to_eloop_data t) (to_user_data t)
                   (el\<lparr>el_timeout := ts\<rparr>, w)"
    if t0: "t0 \<in> set (el_timeout el)" "\<not> os_time_before now (to_time t0)"
  proof -
    obtain t ts where e: "el_timeout el = t # ts" using t0(1) by (cases "el_timeout el") auto
    have least: "\<forall>x \<in> set (t # ts). \<not> os_time_before (to_time x) (to_time t)"
      using assms tq.ordered_hd_least [of t ts] by (simp add: timers_sorted_ordered e)
    then have "\<not> os_time_before (to_time t0) (to_time t)" using t0(1) unfolding e by blast
    then have "\<not> os_time_before now (to_time t)"
      using t0(2) by (auto simp: os_time_before_def)
    then show ?thesis using e least by (simp add: fire_timeout_def)
  qed
qed

text \<open>
  C28. Firing. On an ordered queue a round of the loop calls no timeout handler when no timeout is
  due, and otherwise calls exactly one, for a due entry that no other pending entry precedes; the
  entry is removed before its handler runs, so the handler may register it again.
\<close>

theorem fire_timeout_earliest_due:
  assumes "timers_sorted el"
  shows "((\<forall>t \<in> set (el_timeout el). os_time_before now (to_time t)) \<longrightarrow>
           fire_timeout ap now (el, w) = (el, w)) \<and>
    ((\<exists>t \<in> set (el_timeout el). \<not> os_time_before now (to_time t)) \<longrightarrow>
           (\<exists>t ts. el_timeout el = t # ts
             \<and> \<not> os_time_before now (to_time t)
             \<and> (\<forall>x \<in> set (el_timeout el). \<not> os_time_before (to_time x) (to_time t))
             \<and> fire_timeout ap now (el, w) =
                 on_timeout ap (to_handler t) (to_eloop_data t) (to_user_data t)
                   (el\<lparr>el_timeout := ts\<rparr>, w)))"
proof (intro conjI impI, goal_cases)
  case 1
  then show ?case by (rule fire_timeout_facts(1) [OF assms])
next
  case 2
  then obtain t0 where "t0 \<in> set (el_timeout el)" "\<not> os_time_before now (to_time t0)" by (elim bexE)
  then show ?case by (rule fire_timeout_facts(2) [OF assms])
qed

lemma fire_timeout_earliest_due_witness:
  "let t = \<lparr>to_time = \<lparr>t_sec = 1, t_usec = 0\<rparr>, to_eloop_data = 4, to_user_data = 5,
            to_handler = (3 :: nat)\<rparr>;
       el = eloop_init\<lparr>el_timeout := [t]\<rparr>;
       ap = \<lparr>on_timeout = \<lambda>h a b (e, w). (e, w + h), on_sock = \<lambda>h s a b st. st,
             on_signal = \<lambda>h s a st. st\<rparr>
   in \<exists>t' ts. el_timeout el = t' # ts
        \<and> \<not> os_time_before \<lparr>t_sec = 1, t_usec = 0\<rparr> (to_time t')
        \<and> (list_all (\<lambda>x. \<not> os_time_before (to_time x) (to_time t')) (el_timeout el))
        \<and> fire_timeout ap \<lparr>t_sec = 1, t_usec = 0\<rparr> (el, 10 :: nat) =
            on_timeout ap (to_handler t') (to_eloop_data t') (to_user_data t')
              (el\<lparr>el_timeout := ts\<rparr>, 10)"
  unfolding Let_def list_all_iff
  by (rule fire_timeout_earliest_due [THEN conjunct2, THEN mp])
    (simp_all add: timers_sorted_def os_time_before_def)

text \<open>
  The wait is exact. \<open>select ()\<close> is given the time that remains until the first deadline (zero
  when it has passed, no limit when there is no timeout): a round whose second clock reading is that
  much later than the first finds the timeout due, and any shorter wait does not.
\<close>

lemma select_timeout_exact:
  assumes "el_timeout el = t # ts" "time_ok (to_time t)" "time_ok now1" "time_ok now2"
  shows "\<exists>tv. select_timeout now1 el = Some tv
           \<and> 0 \<le> time_us tv \<and> 0 \<le> t_usec tv \<and> t_usec tv < 1000000
           \<and> (time_us now1 \<le> time_us (to_time t) \<longrightarrow>
               (os_time_before now2 (to_time t) \<longleftrightarrow> time_us now2 < time_us now1 + time_us tv))"
proof -
  have us: "os_time_before now1 (to_time t) \<longleftrightarrow> time_us now1 < time_us (to_time t)"
    "os_time_before now2 (to_time t) \<longleftrightarrow> time_us now2 < time_us (to_time t)"
    using assms by (simp_all add: os_time_before_us)
  show ?thesis
  proof (cases "os_time_before now1 (to_time t)")
    case True
    then show ?thesis
      using os_time_sub_us [OF assms(2,3)] us assms(1) by (simp add: select_timeout_def)
  next
    case False
    then show ?thesis
      using us assms(1) by (simp add: select_timeout_def time_us_def)
  qed
qed

section \<open>The loop keeps its invariant\<close>

text \<open>
  Application code reaches the loop's state only through the functions of eloop.h. A call of one of them, with what the
  allocation and the clock return to it, is a value of \<open>eloop_call\<close>, and \<open>do_call\<close> is its effect.
\<close>

datatype 'h eloop_call =
    Register_timeout bool "os_time option" u32 u32 'h ptr ptr
  | Cancel_timeout 'h ptr ptr
  | Register_sock bool int eloop_event_type 'h ptr ptr
  | Unregister_sock int eloop_event_type
  | Register_signal bool int 'h ptr
  | Register_signal_terminate bool bool 'h ptr
  | Terminate

fun do_call :: "'h eloop_call \<Rightarrow> 'h eloop_data \<Rightarrow> 'h eloop_data" where
  "do_call (Register_timeout ok gt secs usecs h d u) el = snd (eloop_register_timeout ok gt secs usecs h d u el)"
| "do_call (Cancel_timeout h d u) el = snd (eloop_cancel_timeout h d u el)"
| "do_call (Register_sock ok sock ty h d u) el = snd (eloop_register_sock ok sock ty h d u el)"
| "do_call (Unregister_sock sock ty) el = eloop_unregister_sock sock ty el"
| "do_call (Register_signal ok sig h u) el = snd (eloop_register_signal ok sig h u el)"
| "do_call (Register_signal_terminate ok1 ok2 h u) el = snd (eloop_register_signal_terminate ok1 ok2 h u el)"
| "do_call Terminate el = eloop_terminate el"

text \<open>
  A handler is any function that, from the state of the loop and of the program when it is entered, makes a sequence of
  calls and leaves a state of the program; \<open>client_app\<close> runs the calls. As the results of the calls are determined by
  the state at entry, a handler that looks at them is such a function too.
\<close>

record ('h, 'w) client =
  cl_timeout :: "'h \<Rightarrow> ptr \<Rightarrow> ptr \<Rightarrow> 'h eloop_data \<times> 'w \<Rightarrow> 'h eloop_call list \<times> 'w"
  cl_sock :: "'h \<Rightarrow> int \<Rightarrow> ptr \<Rightarrow> ptr \<Rightarrow> 'h eloop_data \<times> 'w \<Rightarrow> 'h eloop_call list \<times> 'w"
  cl_signal :: "'h \<Rightarrow> int \<Rightarrow> ptr \<Rightarrow> 'h eloop_data \<times> 'w \<Rightarrow> 'h eloop_call list \<times> 'w"

definition do_calls :: "'h eloop_call list \<times> 'w \<Rightarrow> 'h eloop_data \<Rightarrow> 'h eloop_data \<times> 'w" where
  "do_calls cw el = (fold do_call (fst cw) el, snd cw)"

definition client_app :: "('h, 'w) client \<Rightarrow> ('h, 'w) app" where
  "client_app c = \<lparr>on_timeout = \<lambda>h a b st. do_calls (cl_timeout c h a b st) (fst st),
     on_sock = \<lambda>h s a b st. do_calls (cl_sock c h s a b st) (fst st),
     on_signal = \<lambda>h s a st. do_calls (cl_signal c h s a st) (fst st)\<rparr>"

text \<open>The one obligation of the application: \<open>select ()\<close> takes descriptors below \<open>FD_SETSIZE\<close> only.\<close>

fun call_ok :: "'h eloop_call \<Rightarrow> bool" where
  "call_ok (Register_sock ok sock ty h d u) \<longleftrightarrow> 0 \<le> sock \<and> sock < FD_SETSIZE"
| "call_ok _ \<longleftrightarrow> True"

definition client_ok :: "('h, 'w) client \<Rightarrow> bool" where
  "client_ok c \<longleftrightarrow> (\<forall>h a b st. list_all call_ok (fst (cl_timeout c h a b st))) \<and>
     (\<forall>h s a b st. list_all call_ok (fst (cl_sock c h s a b st))) \<and>
     (\<forall>h s a st. list_all call_ok (fst (cl_signal c h s a st)))"

text \<open>
  The invariant: the timeout queue is ordered, and every registered descriptor fits an \<open>fd_set\<close> and is not above
  \<open>max_sock\<close>, the value that bounds what \<open>select ()\<close> watches.
\<close>

definition eloop_inv :: "'h eloop_data \<Rightarrow> bool" where
  "eloop_inv el \<longleftrightarrow> timers_sorted el \<and>
     (\<forall>ty. \<forall>s \<in> set (st_list (eloop_get_sock_table ty el)). 0 \<le> s_sock s \<and> s_sock s < FD_SETSIZE \<and> s_sock s \<le> el_max_sock el)"

lemma eloop_init_inv [simp]: "eloop_inv eloop_init"
  by (simp add: eloop_inv_def eloop_init_def timers_sorted_def empty_table_def st_list_def eloop_get_sock_table_def
      split: eloop_event_type.split)

lemma get_sock_table_cong [simp]:
  "eloop_get_sock_table ty (set_sock_table ty' t el) = (if ty = ty' then t else eloop_get_sock_table ty el)"
  "eloop_get_sock_table ty (el\<lparr>el_timeout := ts\<rparr>) = eloop_get_sock_table ty el"
  "eloop_get_sock_table ty (el\<lparr>el_max_sock := m\<rparr>) = eloop_get_sock_table ty el"
  "eloop_get_sock_table ty (el\<lparr>el_signals := gs\<rparr>) = eloop_get_sock_table ty el"
  "eloop_get_sock_table ty (el\<lparr>el_terminate := b\<rparr>) = eloop_get_sock_table ty el"
  "eloop_get_sock_table ty (el\<lparr>el_signaled := n, el_pending_terminate := b\<rparr>) = eloop_get_sock_table ty el"
  "eloop_get_sock_table ty (eloop_handle_signal sig el) = eloop_get_sock_table ty el"
  by (auto simp: eloop_get_sock_table_def set_sock_table_def eloop_handle_signal_def Let_def split: eloop_event_type.splits)

lemma max_sock_cong [simp]:
  "el_max_sock (set_sock_table ty t el) = el_max_sock el"
  "el_max_sock (eloop_handle_signal sig el) = el_max_sock el"
  by (simp_all add: set_sock_table_def eloop_handle_signal_def Let_def split: eloop_event_type.split)

lemma timers_sorted_cong [simp]:
  "timers_sorted (set_sock_table ty t el) = timers_sorted el"
  "timers_sorted (el\<lparr>el_signaled := n, el_pending_terminate := b\<rparr>) = timers_sorted el"
  "timers_sorted (el\<lparr>el_signals := gs\<rparr>) = timers_sorted el"
  "timers_sorted (el\<lparr>el_max_sock := m\<rparr>) = timers_sorted el"
  "timers_sorted (el\<lparr>el_terminate := b\<rparr>) = timers_sorted el"
  "timers_sorted (eloop_handle_signal sig el) = timers_sorted el"
  by (simp_all add: timers_sorted_def set_sock_table_def eloop_handle_signal_def Let_def
      split: eloop_event_type.split)

lemma eloop_inv_cong [simp]:
  "eloop_inv (el\<lparr>el_signaled := n, el_pending_terminate := b\<rparr>) = eloop_inv el"
  "eloop_inv (el\<lparr>el_signals := gs\<rparr>) = eloop_inv el"
  "eloop_inv (eloop_handle_signal sig el) = eloop_inv el"
  "eloop_inv (eloop_terminate el) = eloop_inv el"
  by (simp_all add: eloop_inv_def eloop_terminate_def)

lemma fold_handle_signal_inv [simp]: "eloop_inv (fold eloop_handle_signal sigs el) = eloop_inv el"
  by (induction sigs arbitrary: el) simp_all

lemma eloop_inv_timeout: "eloop_inv el \<Longrightarrow> timers_sorted (el\<lparr>el_timeout := ts\<rparr>) \<Longrightarrow> eloop_inv (el\<lparr>el_timeout := ts\<rparr>)"
  by (simp add: eloop_inv_def)

lemma register_timeout_inv: "eloop_inv el \<Longrightarrow> eloop_inv (snd (eloop_register_timeout ok gt secs usecs h d u el))"
  by (auto simp: eloop_register_timeout_def Let_def eloop_inv_timeout timers_sorted_insert eloop_inv_def [of el] split: option.split)

lemma cancel_timeout_inv: "eloop_inv el \<Longrightarrow> eloop_inv (snd (eloop_cancel_timeout h d u el))"
  using eloop_cancel_timeout_sorted [of el h d u] by (simp add: eloop_cancel_timeout_eq eloop_inv_timeout eloop_inv_def [of el])

lemma add_sock_inv:
  assumes "eloop_inv el" "0 \<le> sock" "sock < FD_SETSIZE"
  shows "eloop_inv (snd (eloop_sock_table_add_sock ok ty sock h d u el))"
  using assms by (fastforce simp: eloop_sock_table_add_sock_def Let_def eloop_inv_def st_list_def [of "eloop_sock_table.make _ _"] st_list_def)

lemma remove_sock_inv: "eloop_inv el \<Longrightarrow> eloop_inv (eloop_sock_table_remove_sock ty sock el)"
  by (auto simp: eloop_sock_table_remove_sock_def Let_def eloop_inv_def st_list_def [of "\<lparr>st_table = Some _, st_changed = _\<rparr>"]
      dest!: in_set_takeD in_set_dropD)

lemma do_call_inv: "call_ok c \<Longrightarrow> eloop_inv el \<Longrightarrow> eloop_inv (do_call c el)"
  by (cases c) (simp_all add: register_timeout_inv cancel_timeout_inv eloop_register_sock_def eloop_unregister_sock_def
      add_sock_inv remove_sock_inv eloop_register_signal_def eloop_register_signal_terminate_def)

lemma do_calls_inv: "list_all call_ok cs \<Longrightarrow> eloop_inv el \<Longrightarrow> eloop_inv (fold do_call cs el)"
  by (induction cs arbitrary: el) (simp_all add: do_call_inv)

lemma client_app_inv:
  assumes "client_ok c" "eloop_inv (fst st)"
  shows "eloop_inv (fst (on_timeout (client_app c) h a b st))" "eloop_inv (fst (on_sock (client_app c) h s a b st))"
    "eloop_inv (fst (on_signal (client_app c) h s a st))"
  by (cases st; use assms in \<open>simp add: client_app_def do_calls_def client_ok_def do_calls_inv\<close>)+

lemma dispatch_loop_inv:
  "client_ok c \<Longrightarrow> eloop_inv (fst st) \<Longrightarrow> eloop_inv (fst (dispatch_loop (client_app c) ty fds n i st))"
  by (induction n arbitrary: i st) (simp_all add: Let_def client_app_inv)

lemma changed_inv [simp]:
  "eloop_inv (set_sock_table ty ((eloop_get_sock_table ty el)\<lparr>st_changed := b\<rparr>) el) = eloop_inv el"
proof -
  have "st_list (t\<lparr>st_changed := b\<rparr>) = st_list t" for t :: "'a eloop_sock_table" by (simp add: st_list_def)
  then show ?thesis by (auto simp: eloop_inv_def split: if_splits)
qed

lemma dispatch_inv:
  "client_ok c \<Longrightarrow> eloop_inv (fst st) \<Longrightarrow> eloop_inv (fst (eloop_sock_table_dispatch (client_app c) ty fds st))"
  by (simp add: eloop_sock_table_dispatch_def Let_def dispatch_loop_inv)

lemma pending_loop_inv:
  "client_ok c \<Longrightarrow> eloop_inv (fst st) \<Longrightarrow> eloop_inv (fst (pending_loop (client_app c) n i st))"
  by (induction n arbitrary: i st) (simp_all add: Let_def client_app_inv)

lemma pending_signals_inv:
  "client_ok c \<Longrightarrow> eloop_inv (fst st) \<Longrightarrow> eloop_inv (fst (eloop_process_pending_signals (client_app c) st))"
  by (auto simp: eloop_process_pending_signals_def intro!: pending_loop_inv)

lemma fire_timeout_inv:
  assumes "client_ok c" "eloop_inv (fst st)"
  shows "eloop_inv (fst (fire_timeout (client_app c) now st))"
proof (cases "el_timeout (fst st)")
  case (Cons t ts)
  then have "eloop_inv ((fst st)\<lparr>el_timeout := ts\<rparr>)"
    using assms(2) by (auto simp: eloop_inv_def timers_sorted_def)
  then show ?thesis using assms Cons by (simp add: fire_timeout_def client_app_inv)
qed (use assms in \<open>simp add: fire_timeout_def\<close>)

lemma set_fds_ok:
  "\<forall>s \<in> set ss. 0 \<le> s_sock s \<and> s_sock s < FD_SETSIZE \<Longrightarrow> set_fds_loop ss fds = Some (rev (map s_sock ss) @ fds)"
  by (induction ss arbitrary: fds) (simp_all add: FD_SET_def)

lemma eloop_select_ok:
  assumes "eloop_inv el"
  shows "eloop_select ev el = Some (ev_select ev (el_max_sock el + 1) (rev (map s_sock (st_list (el_readers el))))
     (rev (map s_sock (st_list (el_writers el)))) (rev (map s_sock (st_list (el_exceptions el)))) (select_timeout (ev_now1 ev) el))"
proof -
  have "eloop_sock_table_set_fds (eloop_get_sock_table ty el) = Some (rev (map s_sock (st_list (eloop_get_sock_table ty el))))" for ty
    using assms by (simp add: eloop_sock_table_set_fds_def eloop_inv_def set_fds_ok)
  from this [of EVENT_TYPE_READ] this [of EVENT_TYPE_WRITE] this [of EVENT_TYPE_EXCEPTION]
  show ?thesis by (simp add: eloop_select_def eloop_get_sock_table_def)
qed

fun run_state :: "'a run_result \<Rightarrow> 'a" where
  "run_state (Exited s) = s"
| "run_state (Running s) = s"

lemma eloop_round_inv:
  assumes "client_ok c" "eloop_inv (fst st)"
  shows "\<exists>r. eloop_round (client_app c) ev st = Some r \<and> eloop_inv (fst (run_state r))"
  using assms by (auto simp: eloop_round_def Let_def eloop_select_ok dispatch_inv fire_timeout_inv pending_signals_inv)

lemma eloop_run_rounds_inv:
  "client_ok c \<Longrightarrow> eloop_inv (fst st) \<Longrightarrow>
     \<exists>r. eloop_run_rounds (client_app c) evs st = Some r \<and> eloop_inv (fst (run_state r))"
proof (induction evs arbitrary: st)
  case (Cons ev evs)
  obtain r where r: "eloop_round (client_app c) ev st = Some r" "eloop_inv (fst (run_state r))"
    using eloop_round_inv [OF Cons.prems] by blast
  show ?case
  proof (cases r)
    case (Running st')
    then obtain r' where "eloop_run_rounds (client_app c) evs st' = Some r'" "eloop_inv (fst (run_state r'))"
      using Cons.IH [OF Cons.prems(1)] r(2) by fastforce
    then show ?thesis using r Running Cons.prems(2) by (subst eloop_run_rounds.simps) simp
  qed (use r Cons.prems(2) in \<open>subst eloop_run_rounds.simps, simp\<close>)
qed simp

lemma eloop_run_inv:
  assumes "client_ok c" "list_all call_ok cs"
  shows "\<exists>r. eloop_run ok (client_app c) evs (fold do_call cs eloop_init, w) = Some r \<and> eloop_inv (fst (run_state r))"
  using eloop_run_rounds_inv [OF assms(1), of "(fold do_call cs eloop_init, w)" evs] do_calls_inv [OF assms(2), of eloop_init]
  by (simp add: eloop_run_def)

text \<open>
  C29. The loop runs safely with any application. Start from \<open>eloop_init\<close> and any sequence of calls of the registration
  interface, and let the handlers of timeouts, sockets and signals make any sequences of such calls (register and cancel
  timeouts, register and unregister sockets, register signals, terminate), the only condition being that the descriptors
  they register are those \<open>select ()\<close> can take. Whatever the clock, the signals and \<open>select ()\<close> do, \<open>eloop_run\<close> never
  writes outside an \<open>fd_set\<close>, and after every number of rounds the timeout queue is ordered by deadline (the hypothesis
  of the firing property above) and every registered descriptor is one that \<open>select ()\<close> is asked to watch: it is below
  \<open>max_sock + 1\<close>.
\<close>

theorem eloop_run_safe:
  assumes "client_ok c" "list_all call_ok cs"
  shows "\<exists>r. eloop_run ok (client_app c) evs (fold do_call cs eloop_init, w) = Some r \<and>
    timers_sorted (fst (run_state r)) \<and>
    (\<forall>ty. \<forall>s \<in> set (st_list (eloop_get_sock_table ty (fst (run_state r)))).
       0 \<le> s_sock s \<and> s_sock s < FD_SETSIZE \<and> s_sock s < el_max_sock (fst (run_state r)) + 1)"
  using eloop_run_inv [OF assms, of ok evs w] unfolding eloop_inv_def by fastforce

text \<open>
  A timeout handler that registers itself again one second later and adds a socket, and a first round at whose end the
  timeout has been fired: the queue holds its next deadline.
\<close>

definition demo_client :: "(nat, int) client" where
  "demo_client = \<lparr>
     cl_timeout = \<lambda>h a b (el, w). ([Register_timeout True (Some \<lparr>t_sec = w, t_usec = 0\<rparr>) 1 0 h a b,
        Register_sock True 9 EVENT_TYPE_WRITE h a b], w + 1),
     cl_sock = \<lambda>h s a b (el, w). ([Cancel_timeout h a b], w),
     cl_signal = \<lambda>h s a (el, w). ([Terminate], w)\<rparr>"

definition demo_calls :: "nat eloop_call list" where
  "demo_calls = [Register_timeout True (Some \<lparr>t_sec = 10, t_usec = 0\<rparr>) 5 0 7 1 2, Register_sock True 4 EVENT_TYPE_READ 8 1 2]"

definition demo_round :: env_round where
  "demo_round = \<lparr>ev_now1 = \<lparr>t_sec = 10, t_usec = 0\<rparr>,
     ev_select = \<lambda>n r w e tv. \<lparr>so_res = 0, so_errno = 0, so_rfds = [], so_wfds = [], so_efds = []\<rparr>,
     ev_signals = [], ev_now2 = \<lparr>t_sec = 15, t_usec = 0\<rparr>\<rparr>"

lemma demo_ok: "client_ok demo_client" "list_all call_ok demo_calls"
  by (auto simp: client_ok_def demo_client_def demo_calls_def FD_SETSIZE_def)

lemma demo_runs:
  "map_option (\<lambda>r. (snd (run_state r), map (t_sec \<circ> to_time) (el_timeout (fst (run_state r))), el_max_sock (fst (run_state r))))
     (eloop_run True (client_app demo_client) [demo_round] (fold do_call demo_calls eloop_init, 15)) = Some (16, [16], 9)"
  by code_simp

lemma eloop_run_safe_witness:
  "\<exists>r. eloop_run True (client_app demo_client) [demo_round] (fold do_call demo_calls eloop_init, 15) = Some r \<and>
     timers_sorted (fst (run_state r)) \<and> snd (run_state r) = 16 \<and>
     map (t_sec \<circ> to_time) (el_timeout (fst (run_state r))) = [16]"
  using eloop_run_safe [OF demo_ok, of True "[demo_round]" 15] demo_runs by auto

end
