(* ===== verification/Supplicant_State.thy ===== *)
theory Supplicant_State
  imports Wpabuf Eloop
begin

text \<open>
  The state of one interface, \<open>struct wpa_supplicant\<close> of src/wpa_supplicant/wpa_supplicant_i.h, as far
  as the BSS table, the GAS query layer, Interworking and the arbiter use it, with the structures it
  points to: \<open>struct wpa_bss\<close> (src/wpa_supplicant/bss.h), \<open>struct wpa_ssid\<close> and \<open>struct wpa_config\<close>
  (config_ssid.h, config.h), \<open>struct wpa_scan_res\<close> and \<open>struct scan_info\<close> (src/src/drivers/driver.h),
  \<open>struct gas_query\<close> (gas_query.c) and the arbiter (arbiter/arbiter.h).

  BSS entries and pending GAS queries are reached through pointers that other code keeps
  (\<open>current_bss\<close>, timeout contexts, candidates), so they live in explicit heaps: partial maps from
  addresses to objects, with the lists holding addresses. Reading an address that is not in the heap
  is a use after free and faults. Addresses returned by the allocator are arguments of the operations
  that allocate. The event loop's state is the component \<open>eloop\<close>. Calls that leave the program (D-Bus
  and control interface notifications, log messages for the user, frames given to the driver) are
  appended to logs.
\<close>

section \<open>Structures\<close>

record wpa_bss =
  b_id :: u32
  b_scan_miss_count :: u32
  b_last_update_idx :: u32
  b_flags :: u32
  b_bssid :: bytes
  b_ssid :: bytes
  b_ssid_len :: nat
  b_freq :: int
  b_beacon_int :: u16
  b_caps :: u16
  b_qual :: int
  b_noise :: int
  b_level :: int
  b_tsf :: u64
  b_last_update :: os_time
  b_fetched :: bool
  anqp_venue_name :: "wpabuf option"
  anqp_network_auth_type :: "wpabuf option"
  anqp_roaming_consortium :: "wpabuf option"
  anqp_ip_addr_type_availability :: "wpabuf option"
  anqp_nai_realm :: "wpabuf option"
  anqp_3gpp :: "wpabuf option"
  anqp_domain_name :: "wpabuf option"
  hs20_operator_friendly_name :: "wpabuf option"
  hs20_wan_metrics :: "wpabuf option"
  hs20_connection_capability :: "wpabuf option"
  b_ie_len :: nat
  b_beacon_ie_len :: nat
  b_ies :: bytes

record wpa_scan_res =
  r_flags :: u32
  r_bssid :: bytes
  r_freq :: int
  r_beacon_int :: u16
  r_caps :: u16
  r_qual :: int
  r_noise :: int
  r_level :: int
  r_tsf :: u64
  r_age :: u32
  r_ie_len :: nat
  r_beacon_ie_len :: nat
  r_ies :: bytes

record scan_ssid =
  sc_ssid :: "bytes option"
  sc_ssid_len :: nat

record scan_info =
  si_freqs :: "int list"
  si_ssids :: "scan_ssid list"

text \<open>
  A network block. The variables that the configuration table handles generically, by the offset of the
  field, are maps from the variable's name: strings (without the terminating NUL), the lengths that go with
  some of them, and integers.
\<close>

record wpa_ssid =
  n_id :: int
  n_ssid :: "bytes option"
  n_ssid_len :: nat
  n_str :: "string \<Rightarrow> bytes option"
  n_str_len :: "string \<Rightarrow> nat"
  n_int :: "string \<Rightarrow> int"
  n_bssid :: bytes
  n_bssid_set :: bool
  n_psk :: bytes
  n_psk_set :: bool
  n_passphrase :: "bytes option"
  n_pairwise_cipher :: u32
  n_group_cipher :: u32
  n_key_mgmt :: u32
  n_proto :: u32
  n_auth_alg :: u32
  n_scan_freq :: "int list option"
  n_freq_list :: "int list option"
  n_eap_methods :: "(int \<times> u8) list option"
  n_leap :: int
  n_non_leap :: int
  n_password :: "bytes option"
  n_password_len :: nat
  n_eap_flags :: u32
  n_wep_key :: "bytes list"
  n_wep_key_len :: "nat list"
  n_temporary :: bool
  n_export_keys :: bool

record wpa_config =
  c_ssid :: "wpa_ssid list"
  c_ap_scan :: int
  c_bss_max_count :: nat
  c_bss_expiration_age :: int
  c_bss_expiration_scan_count :: u32
  c_home_realm :: "bytes option"
  c_home_username :: "bytes option"
  c_home_password :: "bytes option"
  c_home_imsi :: "bytes option"
  c_home_milenage :: "bytes option"
  c_home_ca_cert :: "bytes option"
  c_pssid :: "int list list"

datatype gas_query_result =
    GAS_QUERY_SUCCESS
  | GAS_QUERY_FAILURE
  | GAS_QUERY_TIMEOUT
  | GAS_QUERY_PEER_ERROR
  | GAS_QUERY_INTERNAL_ERROR
  | GAS_QUERY_CANCELLED
  | GAS_QUERY_DELETED_AT_DEINIT

text \<open>The response callbacks that the code installs in a query.\<close>

datatype gas_cb = CB_anqp_resp_cb | CB_interworking_anqp_resp_cb

record gas_query_pending =
  q_addr :: bytes
  q_dialog_token :: u8
  q_next_frag_id :: u8
  q_wait_comeback :: bool
  q_offchannel_tx_started :: bool
  q_freq :: int
  q_status_code :: u16
  q_adv_proto :: "wpabuf option"
  q_resp :: "wpabuf option"
  q_cb :: gas_cb

record gas_query =
  gas_ptr :: ptr
  gas_pending :: "ptr list"
  gas_heap :: "ptr \<Rightarrow> gas_query_pending option"

datatype arbiter_state = ARBITER_IDLE | ARBITER_QUERYING | ARBITER_DECIDING | ARBITER_STATE_LAST

datatype arbiter_filter = Free_public_filter | Access_internet_filter | Random_filter | Consortium_filter

record arbiter =
  arb_state :: arbiter_state
  arb_filters :: "arbiter_filter list"
  arb_set_auto :: bool

text \<open>The functions registered with the event loop.\<close>

datatype handler =
    H_wpa_bss_timeout
  | H_gas_query_tx_comeback_timeout
  | H_gas_query_timeout
  | H_wpa_supplicant_scan

datatype bss_change = Freq_changed | Signal_changed | Privacy_changed | Mode_changed | Wpaie_changed
  | Rsnie_changed | Wps_changed | Ies_changed | Rates_changed

datatype notification =
    Bss_added bytes u32
  | Bss_removed bytes u32
  | Bss_changed bss_change u32
  | Network_added int
  | Network_removed int

datatype scan_handler = Interworking_scan_res_handler

record wpa_supplicant =
  wpa_s_ptr :: ptr
  conf :: wpa_config
  own_addr :: bytes
  bss_heap :: "ptr \<Rightarrow> wpa_bss option"
  bss :: "ptr list"
  bss_id :: "ptr list"
  num_bss :: nat
  bss_update_idx :: u32
  bss_next_id :: u32
  current_bss :: "ptr option"
  cur_bssid :: bytes
  pending_bssid :: bytes
  bssid_filter :: "bytes list option"
  assoc_freq :: int
  disconnected :: bool
  reassociate :: bool
  scan_req :: int
  scan_res_handler :: "scan_handler option"
  fetch_anqp_in_progress :: bool
  network_select :: bool
  auto_select :: bool
  gas :: "gas_query option"
  arb :: "arbiter option"
  eloop :: "handler eloop_data"
  note_log :: "notification list"
  messages :: "bytes list"
  tx_log :: "(int \<times> bytes \<times> bytes) list"

section \<open>Memory comparison and dereference\<close>

definition memeq :: "bytes \<Rightarrow> bytes \<Rightarrow> nat \<Rightarrow> bool option" where
  "memeq a b n = do { x \<leftarrow> rd_bytes a 0 n; y \<leftarrow> rd_bytes b 0 n; Some (x = y) }"

lemma memeq_Some [fault_simps]:
  "n \<le> length a \<Longrightarrow> n \<le> length b \<Longrightarrow> memeq a b n = Some (take n a = take n b)"
  by (simp add: memeq_def fault_simps)

definition ETH_ALEN :: nat where
  "ETH_ALEN = 6"

definition notify :: "notification \<Rightarrow> wpa_supplicant \<Rightarrow> wpa_supplicant" where
  "notify n wpa_s = wpa_s\<lparr>note_log := note_log wpa_s @ [n]\<rparr>"

lemma notify_simps [simp]:
  "bss_heap (notify n s) = bss_heap s" "bss (notify n s) = bss s" "bss_id (notify n s) = bss_id s"
  "num_bss (notify n s) = num_bss s" "conf (notify n s) = conf s"
  "current_bss (notify n s) = current_bss s" "cur_bssid (notify n s) = cur_bssid s"
  "pending_bssid (notify n s) = pending_bssid s" "bssid_filter (notify n s) = bssid_filter s"
  "bss_update_idx (notify n s) = bss_update_idx s" "bss_next_id (notify n s) = bss_next_id s"
  "note_log (notify n s) = note_log s @ [n]" "eloop (notify n s) = eloop s"
  "wpa_s_ptr (notify n s) = wpa_s_ptr s" "gas (notify n s) = gas s" "arb (notify n s) = arb s"
  "fetch_anqp_in_progress (notify n s) = fetch_anqp_in_progress s"
  by (simp_all add: notify_def)

end
