(* ===== verification/Ie_Walk.thy ===== *)
theory Ie_Walk
  imports Supplicant_State
begin

text \<open>
  Information elements of scan results and BSS entries: the walking loops of
  src/wpa_supplicant/bss.c (\<open>wpa_bss_get_ie\<close> and its companions) and of src/wpa_supplicant/scan.c
  (\<open>wpa_scan_get_ie\<close> and its companions). The two files repeat the same loop over the octets behind a
  structure; the model has the loop once, with the test that decides about an element as a parameter,
  and one definition per C function.

  The contract of these functions is the locale \<open>ie_container\<close>: they never read outside the octets
  given to them, and they find the first matching element of the list of complete elements
  (\<open>elems\<close>). It is interpreted on both structures.
\<close>

section \<open>The loops\<close>

abbreviation (input) WLAN_EID_SSID :: u8 where "WLAN_EID_SSID \<equiv> 0"
abbreviation (input) WLAN_EID_SUPP_RATES :: u8 where "WLAN_EID_SUPP_RATES \<equiv> 1"
abbreviation (input) WLAN_EID_RSN :: u8 where "WLAN_EID_RSN \<equiv> 48"
abbreviation (input) WLAN_EID_EXT_SUPP_RATES :: u8 where "WLAN_EID_EXT_SUPP_RATES \<equiv> 50"
abbreviation (input) WLAN_EID_INTERWORKING :: u8 where "WLAN_EID_INTERWORKING \<equiv> 107"
abbreviation (input) WLAN_EID_EXT_CAPAB :: u8 where "WLAN_EID_EXT_CAPAB \<equiv> 127"
abbreviation (input) WLAN_EID_VENDOR_SPECIFIC :: u8 where "WLAN_EID_VENDOR_SPECIFIC \<equiv> 221"
abbreviation (input) WPA_IE_VENDOR_TYPE :: u32 where "WPA_IE_VENDOR_TYPE \<equiv> 0x0050f201"
abbreviation (input) WPS_IE_VENDOR_TYPE :: u32 where "WPS_IE_VENDOR_TYPE \<equiv> 0x0050f204"
abbreviation (input) P2P_IE_VENDOR_TYPE :: u32 where "P2P_IE_VENDOR_TYPE \<equiv> 0x506f9a09"
abbreviation (input) HS20_IE_VENDOR_TYPE :: u32 where "HS20_IE_VENDOR_TYPE \<equiv> 0x506f9a10"

type_synonym ie_test = "bytes \<Rightarrow> nat \<Rightarrow> bool option"

definition id_test :: "u8 \<Rightarrow> ie_test" where
  "id_test ie mem pos = do { x \<leftarrow> rd mem pos; Some (x = ie) }"

definition vendor_test :: "u32 \<Rightarrow> ie_test" where
  "vendor_test vendor_type mem pos = do {
     x \<leftarrow> rd mem pos;
     if x \<noteq> WLAN_EID_VENDOR_SPECIFIC then Some False
     else do {
       l \<leftarrow> rd mem (pos + 1);
       if l < 4 then Some False
       else do { t \<leftarrow> rd_be32 mem (pos + 2); Some (vendor_type = t) }
     }
   }"

function ie_find :: "ie_test \<Rightarrow> bytes \<Rightarrow> nat \<Rightarrow> nat \<Rightarrow> nat option option" where
  "ie_find test mem pos fin =
     (if pos + 1 < fin then do {
        l \<leftarrow> rd mem (pos + 1);
        if fin < pos + 2 + unat l then Some None
        else do {
          m \<leftarrow> test mem pos;
          if m then Some (Some pos) else ie_find test mem (pos + 2 + unat l) fin
        }
      } else Some None)"
  by pat_completeness auto
termination by (relation "measure (\<lambda>(t, m, p, e). e - p)") auto

declare ie_find.simps [simp del]

function ie_multi_loop :: "u32 \<Rightarrow> bytes \<Rightarrow> nat \<Rightarrow> nat \<Rightarrow> wpabuf \<Rightarrow> wpabuf option" where
  "ie_multi_loop vendor_type mem pos fin buf =
     (if pos + 1 < fin then do {
        l \<leftarrow> rd mem (pos + 1);
        if fin < pos + 2 + unat l then Some buf
        else do {
          m \<leftarrow> vendor_test vendor_type mem pos;
          buf' \<leftarrow> (if m then do { d \<leftarrow> rd_bytes mem (pos + 2 + 4) (unat l - 4);
                              wpabuf_put_data buf (Some d) }
                  else Some buf);
          ie_multi_loop vendor_type mem (pos + 2 + unat l) fin buf'
        }
      } else Some buf)"
  by pat_completeness auto
termination by (relation "measure (\<lambda>(t, m, p, e, b). e - p)") auto

declare ie_multi_loop.simps [simp del]

definition ie_multi :: "bool \<Rightarrow> u32 \<Rightarrow> bytes \<Rightarrow> nat \<Rightarrow> nat \<Rightarrow> wpabuf option option" where
  "ie_multi ok vendor_type mem pos len =
     (case wpabuf_alloc ok len of
        None \<Rightarrow> Some None
      | Some buf \<Rightarrow> do {
          buf \<leftarrow> ie_multi_loop vendor_type mem pos (pos + len) buf;
          Some (if wpabuf_len buf = 0 then None else Some buf) })"

section \<open>Operations on BSS entries\<close>

definition wpa_bss_get_ie :: "wpa_bss \<Rightarrow> u8 \<Rightarrow> nat option option" where
  "wpa_bss_get_ie b ie = ie_find (id_test ie) (b_ies b) 0 (b_ie_len b)"

definition wpa_bss_get_vendor_ie :: "wpa_bss \<Rightarrow> u32 \<Rightarrow> nat option option" where
  "wpa_bss_get_vendor_ie b vendor_type = ie_find (vendor_test vendor_type) (b_ies b) 0 (b_ie_len b)"

definition wpa_bss_get_vendor_ie_multi :: "bool \<Rightarrow> wpa_bss \<Rightarrow> u32 \<Rightarrow> wpabuf option option" where
  "wpa_bss_get_vendor_ie_multi ok b vendor_type = ie_multi ok vendor_type (b_ies b) 0 (b_ie_len b)"

text \<open>The loop over the rates of one element, for \<open>n\<close> octets from index \<open>i\<close>.\<close>

fun max_rate_loop :: "bytes \<Rightarrow> nat \<Rightarrow> nat \<Rightarrow> int \<Rightarrow> int option" where
  "max_rate_loop mem pos 0 rate = Some rate"
| "max_rate_loop mem pos (Suc n) rate = do {
     x \<leftarrow> rd mem pos;
     let v = uint (x AND 0x7f);
     max_rate_loop mem (pos + 1) n (if rate < v then v else rate) }"

definition max_rate_of :: "bytes \<Rightarrow> nat option \<Rightarrow> int \<Rightarrow> int option" where
  "max_rate_of mem ie rate = (case ie of
     None \<Rightarrow> Some rate
   | Some p \<Rightarrow> do { l \<leftarrow> rd mem (p + 1); max_rate_loop mem (p + 2) (unat l) rate })"

definition wpa_bss_get_max_rate :: "wpa_bss \<Rightarrow> int option" where
  "wpa_bss_get_max_rate b = do {
     ie \<leftarrow> wpa_bss_get_ie b WLAN_EID_SUPP_RATES;
     rate \<leftarrow> max_rate_of (b_ies b) ie 0;
     ie \<leftarrow> wpa_bss_get_ie b WLAN_EID_EXT_SUPP_RATES;
     max_rate_of (b_ies b) ie rate }"

definition ie_rates :: "bytes \<Rightarrow> nat option \<Rightarrow> bytes option" where
  "ie_rates mem ie = (case ie of
     None \<Rightarrow> Some []
   | Some p \<Rightarrow> do {
       l \<leftarrow> rd mem (p + 1);
       d \<leftarrow> rd_bytes mem (p + 2) (unat l);
       Some (map (\<lambda>x. x AND 0x7f) d) })"

text \<open>\<open>wpa_bss_get_bit_rates\<close> returns -1 (\<open>Some None\<close>) when the array cannot be allocated, and otherwise
  the array, whose length is its return value.\<close>

definition wpa_bss_get_bit_rates :: "bool \<Rightarrow> wpa_bss \<Rightarrow> bytes option option" where
  "wpa_bss_get_bit_rates ok b = do {
     ie \<leftarrow> wpa_bss_get_ie b WLAN_EID_SUPP_RATES;
     ie2 \<leftarrow> wpa_bss_get_ie b WLAN_EID_EXT_SUPP_RATES;
     if \<not> ok then Some None
     else do {
       r \<leftarrow> ie_rates (b_ies b) ie;
       r2 \<leftarrow> ie_rates (b_ies b) ie2;
       Some (Some (r @ r2)) } }"

section \<open>Operations on scan results\<close>

definition wpa_scan_get_ie :: "wpa_scan_res \<Rightarrow> u8 \<Rightarrow> nat option option" where
  "wpa_scan_get_ie res ie = ie_find (id_test ie) (r_ies res) 0 (r_ie_len res)"

definition wpa_scan_get_vendor_ie :: "wpa_scan_res \<Rightarrow> u32 \<Rightarrow> nat option option" where
  "wpa_scan_get_vendor_ie res vendor_type =
     ie_find (vendor_test vendor_type) (r_ies res) 0 (r_ie_len res)"

definition wpa_scan_get_vendor_ie_multi :: "bool \<Rightarrow> wpa_scan_res \<Rightarrow> u32 \<Rightarrow> wpabuf option option" where
  "wpa_scan_get_vendor_ie_multi ok res vendor_type =
     ie_multi ok vendor_type (r_ies res) 0 (r_ie_len res)"

definition wpa_scan_get_vendor_ie_multi_beacon ::
  "bool \<Rightarrow> wpa_scan_res \<Rightarrow> u32 \<Rightarrow> wpabuf option option" where
  "wpa_scan_get_vendor_ie_multi_beacon ok res vendor_type =
     (if r_beacon_ie_len res = 0 then Some None
      else ie_multi ok vendor_type (r_ies res) (r_ie_len res) (r_beacon_ie_len res))"

definition wpa_scan_get_max_rate :: "wpa_scan_res \<Rightarrow> int option" where
  "wpa_scan_get_max_rate res = do {
     ie \<leftarrow> wpa_scan_get_ie res WLAN_EID_SUPP_RATES;
     rate \<leftarrow> max_rate_of (r_ies res) ie 0;
     ie \<leftarrow> wpa_scan_get_ie res WLAN_EID_EXT_SUPP_RATES;
     max_rate_of (r_ies res) ie rate }"

section \<open>The list of elements\<close>

text \<open>
  \<open>elems\<close> reads a string of octets as elements (identifier, payload) up to the first one that is not
  complete: the abstract value the loops search.
\<close>

fun elems :: "bytes \<Rightarrow> (u8 \<times> bytes) list" where
  "elems (i # l # d) =
     (if unat l \<le> length d then (i, take (unat l) d) # elems (drop (unat l) d) else [])"
| "elems _ = []"

definition element_at :: "bytes \<Rightarrow> nat \<Rightarrow> u8 \<times> bytes" where
  "element_at mem p = (mem ! p, take (unat (mem ! (p + 1))) (drop (p + 2) mem))"

definition complete_at :: "bytes \<Rightarrow> nat \<Rightarrow> nat \<Rightarrow> bool" where
  "complete_at mem p fin = (p + 1 < fin \<and> p + 2 + unat (mem ! (p + 1)) \<le> fin)"

definition is_vendor :: "u32 \<Rightarrow> u8 \<times> bytes \<Rightarrow> bool" where
  "is_vendor v e = (fst e = WLAN_EID_VENDOR_SPECIFIC \<and> 4 \<le> length (snd e) \<and>
     v = get_be32 (snd e ! 0) (snd e ! 1) (snd e ! 2) (snd e ! 3))"

definition window :: "bytes \<Rightarrow> nat \<Rightarrow> nat \<Rightarrow> bytes" where
  "window mem pos fin = take (fin - pos) (drop pos mem)"

lemma length_window [simp]: "fin \<le> length mem \<Longrightarrow> length (window mem pos fin) = fin - pos"
  by (simp add: window_def)

lemma window_Cons2:
  assumes "pos + 1 < fin" "fin \<le> length mem"
  shows "window mem pos fin = mem ! pos # mem ! (pos + 1) # window mem (pos + 2) fin"
proof -
  have "drop pos mem = mem ! pos # mem ! (pos + 1) # drop (pos + 2) mem"
    using assms by (metis Cons_nth_drop_Suc Suc_eq_plus1 add.assoc add_lessD1 less_le_trans nat_1_add_1)
  moreover obtain k where "fin = pos + 2 + k"
    using le_Suc_ex [of "pos + 2" fin] assms(1) by auto
  ultimately show ?thesis by (simp add: window_def)
qed

lemma take_window: "n \<le> fin - pos \<Longrightarrow> take n (window mem pos fin) = take n (drop pos mem)"
  by (simp add: window_def min_absorb1)

lemma drop_window: "drop n (window mem pos fin) = window mem (pos + n) fin"
  by (simp add: window_def drop_take add.commute)

lemma elems_window:
  assumes "fin \<le> length mem"
  shows "elems (window mem pos fin) =
    (if complete_at mem pos fin
     then element_at mem pos # elems (window mem (pos + 2 + unat (mem ! (pos + 1))) fin) else [])"
proof (cases "pos + 1 < fin")
  case True
  then show ?thesis
    unfolding window_Cons2 [OF True assms] elems.simps length_window [OF assms]
    by (auto simp: complete_at_def element_at_def take_window drop_window)
next
  case False
  then have "length (window mem pos fin) < 2" using assms by simp
  then have "elems (window mem pos fin) = []"
    by (cases "window mem pos fin" rule: elems.cases) auto
  with False show ?thesis by (simp add: complete_at_def)
qed

text \<open>A test that decides by the element alone, whenever the element is complete.\<close>

definition tests :: "ie_test \<Rightarrow> (u8 \<times> bytes \<Rightarrow> bool) \<Rightarrow> bool" where
  "tests test P \<longleftrightarrow> (\<forall>mem p fin. fin \<le> length mem \<longrightarrow> complete_at mem p fin \<longrightarrow>
     test mem p = Some (P (element_at mem p)))"

lemma tests_id: "tests (id_test ie) (\<lambda>e. fst e = ie)"
  by (auto simp: tests_def id_test_def complete_at_def element_at_def fault_simps)

lemma tests_vendor: "tests (vendor_test v) (is_vendor v)"
  unfolding tests_def
proof (intro allI impI)
  fix mem p fin assume a: "fin \<le> length mem" "complete_at mem p fin"
  let ?l = "mem ! (p + 1)"
  have b: "p + 1 < length mem" "p + 2 + unat ?l \<le> length mem"
    using a by (auto simp: complete_at_def)
  have lt: "?l < 4 \<longleftrightarrow> unat ?l < 4"
    by (simp add: word_less_nat_alt)
  show "vendor_test v mem p = Some (is_vendor v (element_at mem p))"
  proof (cases "4 \<le> unat ?l")
    case True
    then have "rd_be32 mem (p + 2) =
      Some (get_be32 (mem ! (p + 2)) (mem ! (p + 3)) (mem ! (p + 4)) (mem ! (p + 5)))"
      using b by (subst rd_be32_Some) (auto simp: numeral_eq_Suc)
    then show ?thesis
      using b True lt by (simp add: vendor_test_def rd_def is_vendor_def element_at_def eval_nat_numeral)
  next
    case False
    then show ?thesis
      using b lt by (simp add: vendor_test_def rd_def is_vendor_def element_at_def)
  qed
qed

lemma ie_find_spec:
  assumes "tests test P" "fin \<le> length mem"
  shows "\<exists>r. ie_find test mem pos fin = Some r \<and>
    map_option (element_at mem) r = find P (elems (window mem pos fin)) \<and>
    (\<forall>p. r = Some p \<longrightarrow> complete_at mem p fin)"
  using assms
proof (induction test mem pos fin rule: ie_find.induct)
  case (1 test mem pos fin)
  let ?next = "pos + 2 + unat (mem ! (pos + 1))"
  show ?case
  proof (cases "complete_at mem pos fin")
    case c: True
    then have t: "test mem pos = Some (P (element_at mem pos))"
      using 1(2,3) by (auto simp: tests_def)
    have r: "pos + 1 < fin" "rd mem (pos + 1) = Some (mem ! (pos + 1))" "\<not> fin < ?next"
      using c 1(3) by (auto simp: complete_at_def rd_def)
    show ?thesis
    proof (cases "P (element_at mem pos)")
      case True
      then show ?thesis
        using r t c 1(3) by (subst ie_find.simps) (simp add: elems_window)
    next
      case False
      then have "ie_find test mem pos fin = ie_find test mem ?next fin"
        using r t by (subst ie_find.simps) simp
      then show ?thesis
        using 1(1) [OF r(1,2,3) t] False c 1(2,3) by (simp add: elems_window)
    qed
  next
    case False
    then have "ie_find test mem pos fin = Some None"
      using 1(3) by (subst ie_find.simps) (auto simp: complete_at_def rd_def)
    then show ?thesis using False 1(3) by (simp add: elems_window)
  qed
qed

definition vendor_payloads :: "u32 \<Rightarrow> bytes \<Rightarrow> bytes" where
  "vendor_payloads v mem = concat (map (\<lambda>e. drop 4 (snd e)) (filter (is_vendor v) (elems mem)))"

lemma vendor_payloads_window:
  assumes "fin \<le> length mem"
  shows "vendor_payloads v (window mem pos fin) =
    (if complete_at mem pos fin then
       (if is_vendor v (element_at mem pos)
        then take (unat (mem ! (pos + 1)) - 4) (drop (pos + 6) mem) else []) @
       vendor_payloads v (window mem (pos + 2 + unat (mem ! (pos + 1))) fin)
     else [])"
  using assms
  by (simp add: vendor_payloads_def elems_window [of fin mem pos])
    (simp add: element_at_def drop_take add.commute)

lemma ie_multi_loop_spec:
  assumes "fin \<le> length mem" "wpabuf_inv buf" "fin - pos \<le> wpabuf_tailroom buf"
  shows "\<exists>buf'. ie_multi_loop v mem pos fin buf = Some buf' \<and> wpabuf_inv buf' \<and>
    wpabuf_data buf' = wpabuf_data buf @ vendor_payloads v (window mem pos fin)"
  using assms
proof (induction v mem pos fin buf rule: ie_multi_loop.induct)
  case (1 v mem pos fin buf)
  let ?l = "mem ! (pos + 1)"
  let ?next = "pos + 2 + unat ?l"
  show ?case
  proof (cases "complete_at mem pos fin")
    case c: True
    then have r: "pos + 1 < fin" "rd mem (pos + 1) = Some ?l" "\<not> fin < ?next"
      using 1(2) by (auto simp: complete_at_def rd_def)
    have t: "vendor_test v mem pos = Some (is_vendor v (element_at mem pos))"
      using tests_vendor c 1(2) by (auto simp: tests_def)
    define d where "d = (if is_vendor v (element_at mem pos)
        then take (unat ?l - 4) (drop (pos + 6) mem) else [])"
    have v4: "4 \<le> unat ?l" if "is_vendor v (element_at mem pos)"
      using that c 1(2) by (auto simp: is_vendor_def element_at_def complete_at_def)
    have ld: "length d \<le> unat ?l" using c 1(2) by (auto simp: d_def)
    then have "length d \<le> wpabuf_tailroom buf" using r 1(4) by simp
    from wpabuf_put_data_fits [OF 1(3) this] obtain b' where
      b': "wpabuf_put_data buf (Some d) = Some b'" "wpabuf_inv b'"
      "wpabuf_data b' = wpabuf_data buf @ d" "wpabuf_tailroom b' = wpabuf_tailroom buf - length d"
      by blast
    define b2 where "b2 = (if is_vendor v (element_at mem pos) then b' else buf)"
    have s: "(if is_vendor v (element_at mem pos)
        then do { d \<leftarrow> rd_bytes mem (pos + 2 + 4) (unat ?l - 4); wpabuf_put_data buf (Some d) }
        else Some buf) = Some b2"
      using b'(1) v4 r 1(2) by (auto simp: b2_def d_def rd_bytes_def add.commute)
    have b2: "wpabuf_inv b2" "wpabuf_data b2 = wpabuf_data buf @ d" "fin - ?next \<le> wpabuf_tailroom b2"
      using b' 1(3,4) ld by (auto simp: b2_def split: if_splits) (simp_all add: d_def)
    have "ie_multi_loop v mem pos fin buf = ie_multi_loop v mem ?next fin b2"
      by (subst ie_multi_loop.simps) (simp only: r t s if_True if_False simp_thms bind.simps)
    moreover obtain b3 where "ie_multi_loop v mem ?next fin b2 = Some b3" "wpabuf_inv b3"
      "wpabuf_data b3 = wpabuf_data b2 @ vendor_payloads v (window mem ?next fin)"
      using 1(1) [OF r t s 1(2) b2(1,3)] by blast
    ultimately show ?thesis
      using c b2(2) 1(2) by (simp add: vendor_payloads_window [of fin mem v pos] d_def)
  next
    case False
    then have "ie_multi_loop v mem pos fin buf = Some buf"
      using 1(2) by (subst ie_multi_loop.simps) (auto simp: complete_at_def rd_def)
    then show ?thesis using False 1(2,3) by (simp add: vendor_payloads_window)
  qed
qed

lemma ie_multi_spec:
  assumes "pos + len \<le> length mem"
  shows "\<exists>r. ie_multi True v mem pos len = Some r \<and> (\<forall>b. r = Some b \<longrightarrow> wpabuf_inv b) \<and>
    (case r of None \<Rightarrow> [] | Some b \<Rightarrow> wpabuf_data b) = vendor_payloads v (window mem pos (pos + len)) \<and>
    (r = None \<longleftrightarrow> vendor_payloads v (window mem pos (pos + len)) = [])"
proof -
  obtain b0 where b0: "wpabuf_alloc True len = Some b0" by (simp add: wpabuf_alloc_def)
  obtain b where b: "ie_multi_loop v mem pos (pos + len) b0 = Some b" "wpabuf_inv b"
    "wpabuf_data b = vendor_payloads v (window mem pos (pos + len))"
    using ie_multi_loop_spec [OF assms, of b0 pos v] wpabuf_alloc_props [OF b0] by auto
  have "wpabuf_len b = 0 \<longleftrightarrow> vendor_payloads v (window mem pos (pos + len)) = []"
    using length_wpabuf_data [OF b(2)] b(3) by auto
  then show ?thesis using b0 b by (auto simp: ie_multi_def)
qed

lemma ie_multi_no_alloc: "ie_multi False v mem pos len = Some None"
  by (simp add: ie_multi_def wpabuf_alloc_def)

section \<open>The contract of a structure that carries elements\<close>

locale ie_container =
  fixes mem :: "'a \<Rightarrow> bytes"
    and len :: "'a \<Rightarrow> nat"
    and get_ie :: "'a \<Rightarrow> u8 \<Rightarrow> nat option option"
    and get_vendor_ie :: "'a \<Rightarrow> u32 \<Rightarrow> nat option option"
    and get_vendor_ie_multi :: "bool \<Rightarrow> 'a \<Rightarrow> u32 \<Rightarrow> wpabuf option option"
  assumes get_ie_loop: "get_ie x ie = ie_find (id_test ie) (mem x) 0 (len x)"
    and get_vendor_ie_loop: "get_vendor_ie x v = ie_find (vendor_test v) (mem x) 0 (len x)"
    and get_vendor_ie_multi_loop: "get_vendor_ie_multi ok x v = ie_multi ok v (mem x) 0 (len x)"
begin

definition elements :: "'a \<Rightarrow> (u8 \<times> bytes) list" where
  "elements x = elems (take (len x) (mem x))"

definition wf :: "'a \<Rightarrow> bool" where
  "wf x = (len x \<le> length (mem x))"

lemma get_ie_first:
  assumes "wf x"
  shows "\<exists>r. get_ie x ie = Some r \<and> map_option (element_at (mem x)) r = find (\<lambda>e. fst e = ie) (elements x) \<and>
    (\<forall>p. r = Some p \<longrightarrow> complete_at (mem x) p (len x))"
  using ie_find_spec [OF tests_id, of "len x" "mem x" ie 0] assms
  by (simp add: get_ie_loop elements_def wf_def window_def)

lemma get_vendor_ie_first:
  assumes "wf x"
  shows "\<exists>r. get_vendor_ie x v = Some r \<and>
    map_option (element_at (mem x)) r = find (is_vendor v) (elements x) \<and>
    (\<forall>p. r = Some p \<longrightarrow> complete_at (mem x) p (len x))"
  using ie_find_spec [OF tests_vendor, of "len x" "mem x" v 0] assms
  by (simp add: get_vendor_ie_loop elements_def wf_def window_def)

lemma get_vendor_ie_multi_all:
  assumes "wf x"
  shows "\<exists>r. get_vendor_ie_multi True x v = Some r \<and> (\<forall>b. r = Some b \<longrightarrow> wpabuf_inv b) \<and>
    (case r of None \<Rightarrow> [] | Some b \<Rightarrow> wpabuf_data b) = vendor_payloads v (take (len x) (mem x)) \<and>
    (r = None \<longleftrightarrow> vendor_payloads v (take (len x) (mem x)) = [])"
  using ie_multi_spec [of 0 "len x" "mem x" v] assms
  by (simp add: get_vendor_ie_multi_loop wf_def window_def)

end

interpretation bss_ie: ie_container b_ies b_ie_len wpa_bss_get_ie wpa_bss_get_vendor_ie
  wpa_bss_get_vendor_ie_multi
  by unfold_locales
    (simp_all add: wpa_bss_get_ie_def wpa_bss_get_vendor_ie_def wpa_bss_get_vendor_ie_multi_def)

interpretation scan_ie: ie_container r_ies r_ie_len wpa_scan_get_ie wpa_scan_get_vendor_ie
  wpa_scan_get_vendor_ie_multi
  by unfold_locales
    (simp_all add: wpa_scan_get_ie_def wpa_scan_get_vendor_ie_def wpa_scan_get_vendor_ie_multi_def)


section \<open>Properties\<close>

definition encode_elem :: "u8 \<times> bytes \<Rightarrow> bytes" where
  "encode_elem e = fst e # word_of_nat (length (snd e)) # snd e"

lemma elems_encode:
  "list_all (\<lambda>e. length (snd e) \<le> 255) es \<Longrightarrow> elems (concat (map encode_elem es)) = es"
  by (induction es) (auto simp: encode_elem_def unsigned_of_nat take_bit_nat_eq_self)

lemma wpa_bss_get_ie_facts:
  assumes "b_ie_len b \<le> length (b_ies b)"
  shows "\<exists>r. wpa_bss_get_ie b ie = Some r \<and>
           map_option (element_at (b_ies b)) r =
             find (\<lambda>e. fst e = ie) (elems (take (b_ie_len b) (b_ies b)))"
    and "\<exists>r. wpa_bss_get_vendor_ie b v = Some r \<and>
           map_option (element_at (b_ies b)) r =
             find (is_vendor v) (elems (take (b_ie_len b) (b_ies b)))"
    and "b_ies b = concat (map encode_elem es) @ beacon \<Longrightarrow>
         b_ie_len b = length (concat (map encode_elem es)) \<Longrightarrow>
         list_all (\<lambda>e. length (snd e) \<le> 255) es \<Longrightarrow>
         \<exists>r. wpa_bss_get_ie b ie = Some r \<and>
           map_option (element_at (b_ies b)) r = find (\<lambda>e. fst e = ie) es"
proof -
  have wf: "bss_ie.wf b" using assms by (simp add: bss_ie.wf_def)
  show f: "\<exists>r. wpa_bss_get_ie b ie = Some r \<and> map_option (element_at (b_ies b)) r =
             find (\<lambda>e. fst e = ie) (elems (take (b_ie_len b) (b_ies b)))"
    using bss_ie.get_ie_first [OF wf, of ie] unfolding bss_ie.elements_def by blast
  show "\<exists>r. wpa_bss_get_vendor_ie b v = Some r \<and> map_option (element_at (b_ies b)) r =
             find (is_vendor v) (elems (take (b_ie_len b) (b_ies b)))"
    using bss_ie.get_vendor_ie_first [OF wf, of v] unfolding bss_ie.elements_def by blast
  assume "b_ies b = concat (map encode_elem es) @ beacon"
    "b_ie_len b = length (concat (map encode_elem es))" "list_all (\<lambda>e. length (snd e) \<le> 255) es"
  then show "\<exists>r. wpa_bss_get_ie b ie = Some r \<and>
      map_option (element_at (b_ies b)) r = find (\<lambda>e. fst e = ie) es"
    using f elems_encode [of es] by simp
qed

text \<open>
  Searching elements. On a BSS entry whose element length does not exceed the octets stored
  behind it, \<open>wpa_bss_get_ie\<close> and \<open>wpa_bss_get_vendor_ie\<close> never read outside those octets, whatever the
  octets are, and return the position of the first complete element with the identifier (vendor type),
  or NULL when there is none. In particular an encoded list of elements is searched faithfully.
\<close>

lemma wpa_bss_get_ie_first:
  assumes "b_ie_len b \<le> length (b_ies b)"
  shows "(\<exists>r. wpa_bss_get_ie b ie = Some r \<and>
      map_option (element_at (b_ies b)) r =
        find (\<lambda>e. fst e = ie) (elems (take (b_ie_len b) (b_ies b)))) \<and>
    (\<exists>r. wpa_bss_get_vendor_ie b v = Some r \<and>
      map_option (element_at (b_ies b)) r =
        find (is_vendor v) (elems (take (b_ie_len b) (b_ies b)))) \<and>
    (\<forall>es beacon. b_ies b = concat (map encode_elem es) @ beacon \<and>
      b_ie_len b = length (concat (map encode_elem es)) \<and> list_all (\<lambda>e. length (snd e) \<le> 255) es \<longrightarrow>
      (\<exists>r. wpa_bss_get_ie b ie = Some r \<and>
        map_option (element_at (b_ies b)) r = find (\<lambda>e. fst e = ie) es))"
  using wpa_bss_get_ie_facts [OF assms] by blast

definition zero_bss :: wpa_bss where
  "zero_bss = \<lparr>b_id = 0, b_scan_miss_count = 0, b_last_update_idx = 0, b_flags = 0,
     b_bssid = replicate 6 0, b_ssid = replicate 32 0, b_ssid_len = 0, b_freq = 0, b_beacon_int = 0,
     b_caps = 0, b_qual = 0, b_noise = 0, b_level = 0, b_tsf = 0,
     b_last_update = \<lparr>t_sec = 0, t_usec = 0\<rparr>, b_fetched = False, anqp_venue_name = None,
     anqp_network_auth_type = None, anqp_roaming_consortium = None,
     anqp_ip_addr_type_availability = None, anqp_nai_realm = None, anqp_3gpp = None,
     anqp_domain_name = None, hs20_operator_friendly_name = None, hs20_wan_metrics = None,
     hs20_connection_capability = None, b_ie_len = 0, b_beacon_ie_len = 0, b_ies = []\<rparr>"

lemma max_rate_loop_spec:
  "pos + n \<le> length mem \<Longrightarrow>
     max_rate_loop mem pos n rate =
       Some (foldl max rate (map (\<lambda>x. uint (x AND 0x7f)) (take n (drop pos mem))))"
proof (induction n arbitrary: pos rate)
  case (Suc n)
  then have "take (Suc n) (drop pos mem) = mem ! pos # take n (drop (pos + 1) mem)"
    by (simp add: Cons_nth_drop_Suc [symmetric])
  then show ?case
    using Suc by (simp add: rd_def Let_def max_def)
qed simp

definition rates_of :: "wpa_bss \<Rightarrow> u8 \<Rightarrow> bytes" where
  "rates_of b ie = (case find (\<lambda>e. fst e = ie) (elems (take (b_ie_len b) (b_ies b))) of
     None \<Rightarrow> [] | Some e \<Rightarrow> map (\<lambda>x. x AND 0x7f) (snd e))"

lemma rates_at:
  assumes "bss_ie.wf b" "wpa_bss_get_ie b ie = Some r"
  shows "ie_rates (b_ies b) r = Some (rates_of b ie)"
    and "max_rate_of (b_ies b) r rate = Some (foldl max rate (map uint (rates_of b ie)))"
proof -
  have f: "map_option (element_at (b_ies b)) r =
      find (\<lambda>e. fst e = ie) (elems (take (b_ie_len b) (b_ies b)))"
    "\<forall>p. r = Some p \<longrightarrow> complete_at (b_ies b) p (b_ie_len b)"
    using bss_ie.get_ie_first [OF assms(1), of ie] assms(2) by (auto simp: bss_ie.elements_def)
  have wf: "b_ie_len b \<le> length (b_ies b)" using assms(1) by (simp add: bss_ie.wf_def)
  show "ie_rates (b_ies b) r = Some (rates_of b ie)"
    using f wf by (cases r)
      (auto simp: ie_rates_def rates_of_def element_at_def complete_at_def fault_simps dest: sym)
  show "max_rate_of (b_ies b) r rate = Some (foldl max rate (map uint (rates_of b ie)))"
  proof (cases r)
    case None
    then show ?thesis using f by (auto simp: max_rate_of_def rates_of_def dest: sym)
  next
    case (Some p)
    then have "p + 2 + unat (b_ies b ! (p + 1)) \<le> length (b_ies b)" "p + 1 < length (b_ies b)"
      using f(2) wf by (auto simp: complete_at_def)
    moreover have "rates_of b ie =
        map (\<lambda>x. x AND 0x7f) (take (unat (b_ies b ! (p + 1))) (drop (p + 2) (b_ies b)))"
      using f(1) [symmetric] Some by (simp add: rates_of_def element_at_def)
    ultimately show ?thesis
      using Some by (simp add: max_rate_of_def rd_def max_rate_loop_spec o_def)
  qed
qed

text \<open>
  Rates. \<open>wpa_bss_get_bit_rates\<close> returns the supported rates followed by the extended ones with
  the basic-rate bit cleared, \<open>wpa_bss_get_max_rate\<close> returns the greatest of exactly these (0 if there
  are none), and neither reads outside the elements.
\<close>

lemma wpa_bss_rates:
  assumes "b_ie_len b \<le> length (b_ies b)"
  shows "wpa_bss_get_bit_rates True b = Some (Some (rates_of b 1 @ rates_of b 50)) \<and>
    wpa_bss_get_max_rate b = Some (foldl max 0 (map uint (rates_of b 1 @ rates_of b 50)))"
proof (rule conjI)
  have wf: "bss_ie.wf b" using assms by (simp add: bss_ie.wf_def)
  obtain r1 r2 where r: "wpa_bss_get_ie b 1 = Some r1" "wpa_bss_get_ie b 50 = Some r2"
    using bss_ie.get_ie_first [OF wf] by blast
  show "wpa_bss_get_bit_rates True b = Some (Some (rates_of b 1 @ rates_of b 50))"
    using r rates_at(1) [OF wf r(1)] rates_at(1) [OF wf r(2)] by (simp add: wpa_bss_get_bit_rates_def)
  show "wpa_bss_get_max_rate b = Some (foldl max 0 (map uint (rates_of b 1 @ rates_of b 50)))"
    using r rates_at(2) [OF wf r(1)] rates_at(2) [OF wf r(2)] by (simp add: wpa_bss_get_max_rate_def)
qed

end
