(* ===== verification/Bss.thy ===== *)
theory Bss
  imports Ie_Walk
begin

text \<open>
  The BSS table, src/wpa_supplicant/bss.c, and the BSSID filter of scan.c. The table is the pair of
  lists \<open>bss\<close> (in update order) and \<open>bss_id\<close> (in order of addition) over the heap of entries, with the
  counter \<open>num_bss\<close>. Clock readings, allocator results (an address, or \<open>None\<close>) and the outcome of
  \<open>os_realloc\<close> (the same address, another one, or failure) are arguments.

  \<open>bss_inv\<close> says that both lists hold exactly the live entries, without repetition, and that the
  counter agrees; every operation keeps it and, under it, no operation faults.
\<close>

section \<open>Lookup\<close>

definition deref :: "wpa_supplicant \<Rightarrow> ptr \<Rightarrow> wpa_bss option" where
  "deref wpa_s a = bss_heap wpa_s a"

fun filter_match_loop :: "bytes list \<Rightarrow> bytes \<Rightarrow> bool option" where
  "filter_match_loop [] bssid = Some False"
| "filter_match_loop (f # fs) bssid = do {
     e \<leftarrow> memeq f bssid ETH_ALEN;
     if e then Some True else filter_match_loop fs bssid }"

definition wpa_supplicant_filter_bssid_match :: "wpa_supplicant \<Rightarrow> bytes \<Rightarrow> bool option" where
  "wpa_supplicant_filter_bssid_match wpa_s bssid = (case bssid_filter wpa_s of
     None \<Rightarrow> Some True
   | Some fs \<Rightarrow> filter_match_loop fs bssid)"

fun bss_find :: "(wpa_bss \<Rightarrow> bool option) \<Rightarrow> wpa_supplicant \<Rightarrow> ptr list \<Rightarrow> ptr option option" where
  "bss_find test wpa_s [] = Some None"
| "bss_find test wpa_s (a # as) = do {
     b \<leftarrow> deref wpa_s a;
     m \<leftarrow> test b;
     if m then Some (Some a) else bss_find test wpa_s as }"

definition same_bss :: "bytes \<Rightarrow> bytes \<Rightarrow> nat \<Rightarrow> wpa_bss \<Rightarrow> bool option" where
  "same_bss bssid ssid ssid_len b = do {
     e \<leftarrow> memeq (b_bssid b) bssid ETH_ALEN;
     if \<not> e then Some False
     else if b_ssid_len b \<noteq> ssid_len then Some False
     else memeq (b_ssid b) ssid ssid_len }"

definition wpa_bss_get :: "wpa_supplicant \<Rightarrow> bytes \<Rightarrow> bytes \<Rightarrow> nat \<Rightarrow> ptr option option" where
  "wpa_bss_get wpa_s bssid ssid ssid_len = do {
     ok \<leftarrow> wpa_supplicant_filter_bssid_match wpa_s bssid;
     if \<not> ok then Some None
     else bss_find (same_bss bssid ssid ssid_len) wpa_s (bss wpa_s) }"

definition wpa_bss_get_bssid :: "wpa_supplicant \<Rightarrow> bytes \<Rightarrow> ptr option option" where
  "wpa_bss_get_bssid wpa_s bssid = do {
     ok \<leftarrow> wpa_supplicant_filter_bssid_match wpa_s bssid;
     if \<not> ok then Some None
     else bss_find (\<lambda>b. memeq (b_bssid b) bssid ETH_ALEN) wpa_s (rev (bss wpa_s)) }"

definition wpa_bss_get_id :: "wpa_supplicant \<Rightarrow> u32 \<Rightarrow> ptr option option" where
  "wpa_bss_get_id wpa_s i = bss_find (\<lambda>b. Some (b_id b = i)) wpa_s (bss wpa_s)"

section \<open>Removal and addition\<close>

definition wpa_bss_remove :: "wpa_supplicant \<Rightarrow> ptr \<Rightarrow> wpa_supplicant option" where
  "wpa_bss_remove wpa_s a = do {
     b \<leftarrow> deref wpa_s a;
     if a \<notin> set (bss wpa_s) \<or> a \<notin> set (bss_id wpa_s) then None
     else do {
       let wpa_s = wpa_s\<lparr>bss := remove1 a (bss wpa_s), bss_id := remove1 a (bss_id wpa_s),
                    num_bss := (if num_bss wpa_s = 0 then 2 ^ 64 - 1 else num_bss wpa_s - 1)\<rparr>;
       let wpa_s = notify (Bss_removed (b_bssid b) (b_id b)) wpa_s;
       Some (wpa_s\<lparr>bss_heap := (bss_heap wpa_s)(a := None)\<rparr>)
     }
   }"

definition wpa_bss_copy_res :: "os_time \<Rightarrow> wpa_bss \<Rightarrow> wpa_scan_res \<Rightarrow> wpa_bss option" where
  "wpa_bss_copy_res now dst src = do {
     bssid \<leftarrow> rd_bytes (r_bssid src) 0 ETH_ALEN;
     let sec = wrap64 (t_sec now - uint (r_age src) div 1000);
     let usec = uint (r_age src) mod 1000 * 1000;
     let (sec, us) = (if t_usec now < usec then (wrap64 (sec - 1), t_usec now + 1000000)
                      else (sec, t_usec now));
     Some (dst\<lparr>b_flags := r_flags src, b_bssid := bssid, b_freq := r_freq src,
       b_beacon_int := r_beacon_int src, b_caps := r_caps src, b_qual := r_qual src,
       b_noise := r_noise src, b_level := r_level src, b_tsf := r_tsf src,
       b_last_update := \<lparr>t_sec = sec, t_usec = us - usec\<rparr>\<rparr>) }"

fun known_loop :: "wpa_ssid list \<Rightarrow> wpa_bss \<Rightarrow> bool option" where
  "known_loop [] b = Some False"
| "known_loop (n # ns) b = (case n_ssid n of
     None \<Rightarrow> known_loop ns b
   | Some s \<Rightarrow>
       if n_ssid_len n = 0 then known_loop ns b
       else if n_ssid_len n \<noteq> b_ssid_len b then known_loop ns b
       else do {
         e \<leftarrow> memeq s (b_ssid b) (n_ssid_len n);
         if e then Some True else known_loop ns b })"

definition wpa_bss_known :: "wpa_supplicant \<Rightarrow> wpa_bss \<Rightarrow> bool option" where
  "wpa_bss_known wpa_s b = known_loop (c_ssid (conf wpa_s)) b"

fun remove_unknown_loop :: "wpa_supplicant \<Rightarrow> ptr list \<Rightarrow> (int \<times> wpa_supplicant) option" where
  "remove_unknown_loop wpa_s [] = Some (-1, wpa_s)"
| "remove_unknown_loop wpa_s (a # as) = do {
     b \<leftarrow> deref wpa_s a;
     k \<leftarrow> wpa_bss_known wpa_s b;
     if \<not> k then do { wpa_s \<leftarrow> wpa_bss_remove wpa_s a; Some (0, wpa_s) }
     else remove_unknown_loop wpa_s as }"

definition wpa_bss_remove_oldest_unknown :: "wpa_supplicant \<Rightarrow> (int \<times> wpa_supplicant) option" where
  "wpa_bss_remove_oldest_unknown wpa_s = remove_unknown_loop wpa_s (bss wpa_s)"

definition wpa_bss_remove_oldest :: "wpa_supplicant \<Rightarrow> wpa_supplicant option" where
  "wpa_bss_remove_oldest wpa_s = do {
     (ret, wpa_s) \<leftarrow> wpa_bss_remove_oldest_unknown wpa_s;
     if ret = 0 then Some wpa_s
     else (case bss wpa_s of [] \<Rightarrow> None | a # _ \<Rightarrow> wpa_bss_remove wpa_s a) }"

definition wpa_bss_add ::
  "ptr option \<Rightarrow> os_time \<Rightarrow> wpa_supplicant \<Rightarrow> bytes \<Rightarrow> nat \<Rightarrow> wpa_scan_res \<Rightarrow> wpa_supplicant option" where
  "wpa_bss_add alloc now wpa_s ssid ssid_len res = (case alloc of
     None \<Rightarrow> Some wpa_s
   | Some a \<Rightarrow> do {
       let n = r_ie_len res + r_beacon_ie_len res;
       let b = zero_bss\<lparr>b_id := bss_next_id wpa_s, b_last_update_idx := bss_update_idx wpa_s\<rparr>;
       let wpa_s = wpa_s\<lparr>bss_next_id := bss_next_id wpa_s + 1\<rparr>;
       b \<leftarrow> wpa_bss_copy_res now b res;
       s \<leftarrow> rd_bytes ssid 0 ssid_len;
       arr \<leftarrow> wr_bytes (b_ssid b) 0 s;
       ies \<leftarrow> rd_bytes (r_ies res) 0 n;
       let b = b\<lparr>b_ssid := arr, b_ssid_len := ssid_len, b_ie_len := r_ie_len res,
                 b_beacon_ie_len := r_beacon_ie_len res, b_fetched := False, b_ies := ies\<rparr>;
       let wpa_s = wpa_s\<lparr>bss_heap := (bss_heap wpa_s)(a \<mapsto> b), bss := bss wpa_s @ [a],
                    bss_id := bss_id wpa_s @ [a], num_bss := num_bss wpa_s + 1\<rparr>;
       let wpa_s = notify (Bss_added (b_bssid b) (b_id b)) wpa_s;
       if c_bss_max_count (conf wpa_s) < num_bss wpa_s then wpa_bss_remove_oldest wpa_s
       else Some wpa_s })"

section \<open>Comparison and update\<close>

text \<open>\<open>are_ies_equal\<close> compares the element at each position with its length octet; \<open>ie_bytes\<close> reads it.\<close>

definition ie_bytes :: "bytes \<Rightarrow> nat option \<Rightarrow> bytes option option" where
  "ie_bytes mem p = (case p of
     None \<Rightarrow> Some None
   | Some i \<Rightarrow> do { l \<leftarrow> rd mem (i + 1); d \<leftarrow> rd_bytes mem i (unat l + 2); Some (Some d) })"

definition buf_bytes :: "wpabuf option \<Rightarrow> bytes option option" where
  "buf_bytes r = (case r of
     None \<Rightarrow> Some None
   | Some b \<Rightarrow> do { d \<leftarrow> rd_bytes (wpabuf_head b) 0 (wpabuf_len b); Some (Some d) })"

definition are_ies_equal ::
  "bool \<Rightarrow> bool \<Rightarrow> wpa_bss \<Rightarrow> wpa_scan_res \<Rightarrow> u32 \<Rightarrow> bool option" where
  "are_ies_equal ok1 ok2 old new ie =
     (if ie = WPA_IE_VENDOR_TYPE then do {
        x \<leftarrow> wpa_bss_get_vendor_ie old ie; y \<leftarrow> wpa_scan_get_vendor_ie new ie;
        x \<leftarrow> ie_bytes (b_ies old) x; y \<leftarrow> ie_bytes (r_ies new) y;
        Some (x = y) }
      else if ie = WPS_IE_VENDOR_TYPE then do {
        x \<leftarrow> wpa_bss_get_vendor_ie_multi ok1 old ie; y \<leftarrow> wpa_scan_get_vendor_ie_multi ok2 new ie;
        x \<leftarrow> buf_bytes x; y \<leftarrow> buf_bytes y;
        Some (x = y) }
      else if ie = ucast WLAN_EID_RSN \<or> ie = ucast WLAN_EID_SUPP_RATES \<or> ie = ucast WLAN_EID_EXT_SUPP_RATES
      then do {
        x \<leftarrow> wpa_bss_get_ie old (ucast ie); y \<leftarrow> wpa_scan_get_ie new (ucast ie);
        x \<leftarrow> ie_bytes (b_ies old) x; y \<leftarrow> ie_bytes (r_ies new) y;
        Some (x = y) }
      else Some False)"

abbreviation (input) FREQ_CHANGED :: u32 where "FREQ_CHANGED \<equiv> 1"
abbreviation (input) SIGNAL_CHANGED :: u32 where "SIGNAL_CHANGED \<equiv> 2"
abbreviation (input) PRIVACY_CHANGED :: u32 where "PRIVACY_CHANGED \<equiv> 4"
abbreviation (input) MODE_CHANGED :: u32 where "MODE_CHANGED \<equiv> 8"
abbreviation (input) WPAIE_CHANGED :: u32 where "WPAIE_CHANGED \<equiv> 16"
abbreviation (input) RSNIE_CHANGED :: u32 where "RSNIE_CHANGED \<equiv> 32"
abbreviation (input) WPS_CHANGED :: u32 where "WPS_CHANGED \<equiv> 64"
abbreviation (input) RATES_CHANGED :: u32 where "RATES_CHANGED \<equiv> 128"
abbreviation (input) IES_CHANGED :: u32 where "IES_CHANGED \<equiv> 256"

abbreviation (input) IEEE80211_CAP_ESS :: u16 where "IEEE80211_CAP_ESS \<equiv> 0x0001"
abbreviation (input) IEEE80211_CAP_IBSS :: u16 where "IEEE80211_CAP_IBSS \<equiv> 0x0002"
abbreviation (input) IEEE80211_CAP_PRIVACY :: u16 where "IEEE80211_CAP_PRIVACY \<equiv> 0x0010"

definition flag_if :: "bool \<Rightarrow> u32 \<Rightarrow> u32 \<Rightarrow> u32" where
  "flag_if c f changes = (if c then changes OR f else changes)"

definition wpa_bss_compare_res :: "bool \<Rightarrow> bool \<Rightarrow> wpa_bss \<Rightarrow> wpa_scan_res \<Rightarrow> u32 option" where
  "wpa_bss_compare_res ok1 ok2 old new = do {
     let caps_diff = b_caps old XOR r_caps new;
     let changes = flag_if (b_freq old \<noteq> r_freq new) FREQ_CHANGED 0;
     let changes = flag_if (b_level old \<noteq> r_level new) SIGNAL_CHANGED changes;
     let changes = flag_if (caps_diff AND IEEE80211_CAP_PRIVACY \<noteq> 0) PRIVACY_CHANGED changes;
     let changes = flag_if (caps_diff AND IEEE80211_CAP_IBSS \<noteq> 0) MODE_CHANGED changes;
     same \<leftarrow> (if b_ie_len old = r_ie_len new then memeq (b_ies old) (r_ies new) (b_ie_len old)
             else Some False);
     if same then Some changes
     else do {
       let changes = changes OR IES_CHANGED;
       wpa \<leftarrow> are_ies_equal ok1 ok2 old new WPA_IE_VENDOR_TYPE;
       let changes = flag_if (\<not> wpa) WPAIE_CHANGED changes;
       rsn \<leftarrow> are_ies_equal ok1 ok2 old new (ucast WLAN_EID_RSN);
       let changes = flag_if (\<not> rsn) RSNIE_CHANGED changes;
       wps \<leftarrow> are_ies_equal ok1 ok2 old new WPS_IE_VENDOR_TYPE;
       let changes = flag_if (\<not> wps) WPS_CHANGED changes;
       rates \<leftarrow> are_ies_equal ok1 ok2 old new (ucast WLAN_EID_SUPP_RATES);
       ext \<leftarrow> (if \<not> rates then Some False
              else are_ies_equal ok1 ok2 old new (ucast WLAN_EID_EXT_SUPP_RATES));
       Some (flag_if (\<not> rates \<or> \<not> ext) RATES_CHANGED changes)
     }
   }"

definition note_if :: "u32 \<Rightarrow> u32 \<Rightarrow> bss_change \<Rightarrow> u32 \<Rightarrow> wpa_supplicant \<Rightarrow> wpa_supplicant" where
  "note_if changes f c i wpa_s =
     (if changes AND f \<noteq> 0 then notify (Bss_changed c i) wpa_s else wpa_s)"

definition notify_bss_changes :: "wpa_supplicant \<Rightarrow> u32 \<Rightarrow> wpa_bss \<Rightarrow> wpa_supplicant" where
  "notify_bss_changes wpa_s changes b =
     (let i = b_id b;
          wpa_s = note_if changes FREQ_CHANGED Freq_changed i wpa_s;
          wpa_s = note_if changes SIGNAL_CHANGED Signal_changed i wpa_s;
          wpa_s = note_if changes PRIVACY_CHANGED Privacy_changed i wpa_s;
          wpa_s = note_if changes MODE_CHANGED Mode_changed i wpa_s;
          wpa_s = note_if changes WPAIE_CHANGED Wpaie_changed i wpa_s;
          wpa_s = note_if changes RSNIE_CHANGED Rsnie_changed i wpa_s;
          wpa_s = note_if changes WPS_CHANGED Wps_changed i wpa_s;
          wpa_s = note_if changes IES_CHANGED Ies_changed i wpa_s
      in note_if changes RATES_CHANGED Rates_changed i wpa_s)"

text \<open>
  \<open>realloc\<close> is the result of \<open>os_realloc\<close> in the branch that needs more room. A successful one moves
  the entry to the address returned and the old address is no longer valid, unless they are equal.
\<close>

definition wpa_bss_update ::
  "bool \<Rightarrow> bool \<Rightarrow> ptr option \<Rightarrow> os_time \<Rightarrow> wpa_supplicant \<Rightarrow> ptr \<Rightarrow> wpa_scan_res \<Rightarrow>
     wpa_supplicant option" where
  "wpa_bss_update ok1 ok2 realloc now wpa_s a res = do {
     b \<leftarrow> deref wpa_s a;
     changes \<leftarrow> wpa_bss_compare_res ok1 ok2 b res;
     let b = b\<lparr>b_scan_miss_count := 0, b_last_update_idx := bss_update_idx wpa_s\<rparr>;
     b \<leftarrow> wpa_bss_copy_res now b res;
     let n = r_ie_len res + r_beacon_ie_len res;
     let l = remove1 a (bss wpa_s);
     ies \<leftarrow> rd_bytes (r_ies res) 0 n;
     if n \<le> b_ie_len b + b_beacon_ie_len b then do {
       m \<leftarrow> wr_bytes (b_ies b) 0 ies;
       let b = b\<lparr>b_ies := m, b_ie_len := r_ie_len res, b_beacon_ie_len := r_beacon_ie_len res\<rparr>;
       let wpa_s = wpa_s\<lparr>bss_heap := (bss_heap wpa_s)(a \<mapsto> b), bss := l @ [a]\<rparr>;
       Some (notify_bss_changes wpa_s changes b)
     } else (case realloc of
       None \<Rightarrow> do {
         let wpa_s = wpa_s\<lparr>bss_heap := (bss_heap wpa_s)(a \<mapsto> b), bss := l @ [a]\<rparr>;
         Some (notify_bss_changes wpa_s changes b)
       }
     | Some a' \<Rightarrow> do {
         let b = b\<lparr>b_ies := ies, b_ie_len := r_ie_len res, b_beacon_ie_len := r_beacon_ie_len res\<rparr>;
         let wpa_s = wpa_s\<lparr>bss_heap := (bss_heap wpa_s)(a := None, a' \<mapsto> b), bss := l @ [a'],
                      bss_id := map (\<lambda>x. if x = a then a' else x) (bss_id wpa_s)\<rparr>;
         Some (notify_bss_changes wpa_s changes b)
       })
   }"

section \<open>Scan result processing and expiry\<close>

definition wpa_bss_in_use :: "wpa_supplicant \<Rightarrow> ptr \<Rightarrow> wpa_bss \<Rightarrow> bool option" where
  "wpa_bss_in_use wpa_s a b = (if Some a = current_bss wpa_s then Some True else do {
     e \<leftarrow> memeq (b_bssid b) (cur_bssid wpa_s) ETH_ALEN;
     if e then Some True else memeq (b_bssid b) (pending_bssid wpa_s) ETH_ALEN })"

definition wpa_bss_update_start :: "wpa_supplicant \<Rightarrow> wpa_supplicant" where
  "wpa_bss_update_start wpa_s = wpa_s\<lparr>bss_update_idx := bss_update_idx wpa_s + 1\<rparr>"

definition P2P_WILDCARD_SSID :: bytes where
  "P2P_WILDCARD_SSID = lit ''DIRECT-''"

definition wpa_bss_update_scan_res ::
  "ptr option \<Rightarrow> bool \<Rightarrow> bool \<Rightarrow> ptr option \<Rightarrow> os_time \<Rightarrow> wpa_supplicant \<Rightarrow> wpa_scan_res \<Rightarrow>
     wpa_supplicant option" where
  "wpa_bss_update_scan_res alloc ok1 ok2 realloc now wpa_s res = do {
     ssid \<leftarrow> wpa_scan_get_ie res WLAN_EID_SSID;
     (case ssid of
        None \<Rightarrow> Some wpa_s
      | Some p \<Rightarrow> do {
          l \<leftarrow> rd (r_ies res) (p + 1);
          if 32 < l then Some wpa_s
          else do {
            p2p \<leftarrow> wpa_scan_get_vendor_ie res P2P_IE_VENDOR_TYPE;
            w \<leftarrow> (if p2p \<noteq> None \<and> unat l = 7
                  then memeq (drop (p + 2) (r_ies res)) P2P_WILDCARD_SSID 7 else Some False);
            if w then Some wpa_s
            else do {
              b \<leftarrow> wpa_bss_get wpa_s (r_bssid res) (drop (p + 2) (r_ies res)) (unat l);
              (case b of
                 None \<Rightarrow> wpa_bss_add alloc now wpa_s (drop (p + 2) (r_ies res)) (unat l) res
               | Some a \<Rightarrow> wpa_bss_update ok1 ok2 realloc now wpa_s a res)
            }
          }
        })
   }"

fun scanned_ssid_loop :: "scan_ssid list \<Rightarrow> wpa_bss \<Rightarrow> bool option" where
  "scanned_ssid_loop [] b = Some False"
| "scanned_ssid_loop (s # ss) b = (case sc_ssid s of
     None \<Rightarrow> Some True
   | Some d \<Rightarrow>
       if sc_ssid_len s = 0 then Some True
       else if sc_ssid_len s \<noteq> b_ssid_len b then scanned_ssid_loop ss b
       else do {
         e \<leftarrow> memeq d (b_ssid b) (b_ssid_len b);
         if e then Some True else scanned_ssid_loop ss b })"

definition wpa_bss_included_in_scan :: "wpa_bss \<Rightarrow> scan_info option \<Rightarrow> bool option" where
  "wpa_bss_included_in_scan b info = (case info of
     None \<Rightarrow> Some True
   | Some i \<Rightarrow>
       if si_freqs i \<noteq> [] \<and> \<not> list_ex (\<lambda>f. b_freq b = f) (si_freqs i) then Some False
       else if si_ssids i \<noteq> [] then scanned_ssid_loop (si_ssids i) b
       else Some True)"

fun update_end_loop :: "scan_info option \<Rightarrow> wpa_supplicant \<Rightarrow> ptr list \<Rightarrow> wpa_supplicant option" where
  "update_end_loop info wpa_s [] = Some wpa_s"
| "update_end_loop info wpa_s (a # as) = do {
     b \<leftarrow> deref wpa_s a;
     u \<leftarrow> wpa_bss_in_use wpa_s a b;
     if u then update_end_loop info wpa_s as
     else do {
       i \<leftarrow> wpa_bss_included_in_scan b info;
       if \<not> i then update_end_loop info wpa_s as
       else do {
         let b = (if b_last_update_idx b < bss_update_idx wpa_s
                  then b\<lparr>b_scan_miss_count := b_scan_miss_count b + 1\<rparr> else b);
         let wpa_s = wpa_s\<lparr>bss_heap := (bss_heap wpa_s)(a \<mapsto> b)\<rparr>;
         if c_bss_expiration_scan_count (conf wpa_s) \<le> b_scan_miss_count b
         then do { wpa_s \<leftarrow> wpa_bss_remove wpa_s a; update_end_loop info wpa_s as }
         else update_end_loop info wpa_s as
       }
     }
   }"

definition wpa_bss_update_end ::
  "wpa_supplicant \<Rightarrow> scan_info option \<Rightarrow> bool \<Rightarrow> wpa_supplicant option" where
  "wpa_bss_update_end wpa_s info new_scan =
     (if \<not> new_scan then Some wpa_s else update_end_loop info wpa_s (bss wpa_s))"

fun flush_by_age_loop :: "os_time \<Rightarrow> wpa_supplicant \<Rightarrow> ptr list \<Rightarrow> wpa_supplicant option" where
  "flush_by_age_loop t wpa_s [] = Some wpa_s"
| "flush_by_age_loop t wpa_s (a # as) = do {
     b \<leftarrow> deref wpa_s a;
     u \<leftarrow> wpa_bss_in_use wpa_s a b;
     if u then flush_by_age_loop t wpa_s as
     else if os_time_before (b_last_update b) t
     then do { wpa_s \<leftarrow> wpa_bss_remove wpa_s a; flush_by_age_loop t wpa_s as }
     else Some wpa_s }"

definition wpa_bss_flush_by_age :: "os_time \<Rightarrow> wpa_supplicant \<Rightarrow> int \<Rightarrow> wpa_supplicant option" where
  "wpa_bss_flush_by_age now wpa_s age =
     (if bss wpa_s = [] then Some wpa_s
      else flush_by_age_loop (now\<lparr>t_sec := wrap64 (t_sec now - age)\<rparr>) wpa_s (bss wpa_s))"

abbreviation (input) WPA_BSS_EXPIRATION_PERIOD :: u32 where "WPA_BSS_EXPIRATION_PERIOD \<equiv> 10"

definition register_timer ::
  "bool \<Rightarrow> os_time option \<Rightarrow> u32 \<Rightarrow> u32 \<Rightarrow> handler \<Rightarrow> ptr \<Rightarrow> ptr \<Rightarrow> wpa_supplicant \<Rightarrow> wpa_supplicant" where
  "register_timer ok gt secs usecs h d u wpa_s =
     wpa_s\<lparr>eloop := snd (eloop_register_timeout ok gt secs usecs h d u (eloop wpa_s))\<rparr>"

definition cancel_timer :: "handler \<Rightarrow> ptr \<Rightarrow> ptr \<Rightarrow> wpa_supplicant \<Rightarrow> wpa_supplicant" where
  "cancel_timer h d u wpa_s = wpa_s\<lparr>eloop := snd (eloop_cancel_timeout h d u (eloop wpa_s))\<rparr>"

definition wpa_bss_timeout ::
  "os_time \<Rightarrow> bool \<Rightarrow> os_time option \<Rightarrow> wpa_supplicant \<Rightarrow> wpa_supplicant option" where
  "wpa_bss_timeout now ok gt wpa_s = do {
     wpa_s \<leftarrow> wpa_bss_flush_by_age now wpa_s (c_bss_expiration_age (conf wpa_s));
     Some (register_timer ok gt WPA_BSS_EXPIRATION_PERIOD 0 H_wpa_bss_timeout (wpa_s_ptr wpa_s) 0 wpa_s) }"

definition wpa_bss_init :: "bool \<Rightarrow> os_time option \<Rightarrow> wpa_supplicant \<Rightarrow> wpa_supplicant" where
  "wpa_bss_init ok gt wpa_s =
     register_timer ok gt WPA_BSS_EXPIRATION_PERIOD 0 H_wpa_bss_timeout (wpa_s_ptr wpa_s) 0
       (wpa_s\<lparr>bss := [], bss_id := []\<rparr>)"

fun flush_loop :: "wpa_supplicant \<Rightarrow> ptr list \<Rightarrow> wpa_supplicant option" where
  "flush_loop wpa_s [] = Some wpa_s"
| "flush_loop wpa_s (a # as) = do {
     b \<leftarrow> deref wpa_s a;
     u \<leftarrow> wpa_bss_in_use wpa_s a b;
     if u then flush_loop wpa_s as
     else do { wpa_s \<leftarrow> wpa_bss_remove wpa_s a; flush_loop wpa_s as } }"

text \<open>
  The early return of \<open>wpa_bss_flush\<close> for a table that was never initialised (\<open>bss.next == NULL\<close>) has no counterpart:
  there the list of the model is empty and the loop does nothing.
\<close>

definition wpa_bss_flush :: "wpa_supplicant \<Rightarrow> wpa_supplicant option" where
  "wpa_bss_flush wpa_s = flush_loop wpa_s (bss wpa_s)"

definition wpa_bss_deinit :: "wpa_supplicant \<Rightarrow> wpa_supplicant option" where
  "wpa_bss_deinit wpa_s = wpa_bss_flush (cancel_timer H_wpa_bss_timeout (wpa_s_ptr wpa_s) 0 wpa_s)"


section \<open>The invariant\<close>

definition bss_wf :: "wpa_bss \<Rightarrow> bool" where
  "bss_wf b \<longleftrightarrow> length (b_bssid b) = 6 \<and> length (b_ssid b) = 32 \<and> b_ssid_len b \<le> 32 \<and>
     b_ie_len b + b_beacon_ie_len b \<le> length (b_ies b)"

definition res_wf :: "wpa_scan_res \<Rightarrow> bool" where
  "res_wf r \<longleftrightarrow> length (r_bssid r) = 6 \<and> r_ie_len r + r_beacon_ie_len r \<le> length (r_ies r)"

definition conf_wf :: "wpa_config \<Rightarrow> bool" where
  "conf_wf c \<longleftrightarrow> list_all (\<lambda>n. case n_ssid n of None \<Rightarrow> True | Some s \<Rightarrow> n_ssid_len n \<le> length s) (c_ssid c)"

definition info_wf :: "scan_info option \<Rightarrow> bool" where
  "info_wf info \<longleftrightarrow> (case info of None \<Rightarrow> True | Some i \<Rightarrow>
     list_all (\<lambda>s. case sc_ssid s of None \<Rightarrow> True | Some d \<Rightarrow> sc_ssid_len s \<le> length d) (si_ssids i))"

definition bss_inv :: "wpa_supplicant \<Rightarrow> bool" where
  "bss_inv s \<longleftrightarrow>
     distinct (bss s) \<and> distinct (bss_id s) \<and>
     set (bss s) = dom (bss_heap s) \<and> set (bss_id s) = dom (bss_heap s) \<and>
     num_bss s = length (bss s) \<and>
     (\<forall>a b. bss_heap s a = Some b \<longrightarrow> bss_wf b) \<and>
     length (cur_bssid s) = 6 \<and> length (pending_bssid s) = 6 \<and>
     (case bssid_filter s of None \<Rightarrow> True | Some fs \<Rightarrow> list_all (\<lambda>f. length f = 6) fs) \<and>
     conf_wf (conf s)"

lemma bss_inv_deref:
  assumes "bss_inv s" "a \<in> set (bss s)"
  obtains b where "bss_heap s a = Some b" "deref s a = Some b" "bss_wf b"
proof -
  have "a \<in> dom (bss_heap s)" using assms by (simp add: bss_inv_def)
  then obtain b where "bss_heap s a = Some b" by blast
  with assms show ?thesis by (auto simp: bss_inv_def deref_def intro: that)
qed

lemma filter_match_loop_spec:
  "list_all (\<lambda>f. length f = 6) fs \<Longrightarrow> length bssid = 6 \<Longrightarrow>
     filter_match_loop fs bssid = Some (bssid \<in> set fs)"
  by (induction fs) (auto simp: memeq_Some ETH_ALEN_def)

definition filter_admits :: "wpa_supplicant \<Rightarrow> bytes \<Rightarrow> bool" where
  "filter_admits s bssid = (case bssid_filter s of None \<Rightarrow> True | Some fs \<Rightarrow> bssid \<in> set fs)"

lemma filter_match_spec:
  "bss_inv s \<Longrightarrow> length bssid = 6 \<Longrightarrow>
     wpa_supplicant_filter_bssid_match s bssid = Some (filter_admits s bssid)"
  by (auto simp: wpa_supplicant_filter_bssid_match_def filter_admits_def bss_inv_def
      filter_match_loop_spec split: option.splits)

lemma bss_find_spec:
  assumes "\<forall>a \<in> set as. \<exists>b. bss_heap s a = Some b \<and> test b = Some (P b)"
  shows "bss_find test s as = Some (find (\<lambda>a. P (the (bss_heap s a))) as)"
  using assms by (induction as) (auto simp: deref_def)

definition ssid_of :: "wpa_bss \<Rightarrow> bytes" where
  "ssid_of b = take (b_ssid_len b) (b_ssid b)"

lemma same_bss_spec:
  assumes "bss_wf b" "length bssid = 6" "n \<le> 32" "n \<le> length ssid"
  shows "same_bss bssid ssid n b = Some (b_bssid b = bssid \<and> ssid_of b = take n ssid)"
  using assms
  by (auto simp: same_bss_def bss_wf_def memeq_Some ETH_ALEN_def ssid_of_def)
    (metis length_take min.absorb2)+

lemma wpa_bss_get_spec:
  assumes "bss_inv s" "length bssid = 6" "n \<le> 32" "n \<le> length ssid"
  shows "wpa_bss_get s bssid ssid n = Some (if filter_admits s bssid
    then find (\<lambda>a. b_bssid (the (bss_heap s a)) = bssid \<and> ssid_of (the (bss_heap s a)) = take n ssid) (bss s)
    else None)"
proof -
  have "bss_find (same_bss bssid ssid n) s (bss s) =
      Some (find (\<lambda>a. b_bssid (the (bss_heap s a)) = bssid \<and> ssid_of (the (bss_heap s a)) = take n ssid) (bss s))"
    by (rule bss_find_spec [where P = "\<lambda>b. b_bssid b = bssid \<and> ssid_of b = take n ssid"])
      (use assms same_bss_spec in \<open>metis bss_inv_deref\<close>)
  then show ?thesis using assms by (simp add: wpa_bss_get_def filter_match_spec)
qed

lemma wpa_bss_get_bssid_spec:
  assumes "bss_inv s" "length bssid = 6"
  shows "wpa_bss_get_bssid s bssid = Some (if filter_admits s bssid
    then find (\<lambda>a. b_bssid (the (bss_heap s a)) = bssid) (rev (bss s)) else None)"
proof -
  have "bss_find (\<lambda>b. memeq (b_bssid b) bssid ETH_ALEN) s (rev (bss s)) =
      Some (find (\<lambda>a. b_bssid (the (bss_heap s a)) = bssid) (rev (bss s)))"
  proof (rule bss_find_spec [where P = "\<lambda>b. b_bssid b = bssid"], intro ballI)
    fix a assume "a \<in> set (rev (bss s))"
    then obtain b where "bss_heap s a = Some b" "bss_wf b"
      using bss_inv_deref [OF assms(1)] by auto
    then show "\<exists>b. bss_heap s a = Some b \<and> memeq (b_bssid b) bssid ETH_ALEN = Some (b_bssid b = bssid)"
      using assms(2) by (auto simp: bss_wf_def memeq_Some ETH_ALEN_def)
  qed
  then show ?thesis using assms by (simp add: wpa_bss_get_bssid_def filter_match_spec)
qed

section \<open>Removal\<close>

definition drop_bss :: "wpa_supplicant \<Rightarrow> ptr \<Rightarrow> wpa_supplicant" where
  "drop_bss s a = s\<lparr>bss := remove1 a (bss s), bss_id := remove1 a (bss_id s), num_bss := num_bss s - 1,
     bss_heap := (bss_heap s)(a := None),
     note_log := note_log s @ [Bss_removed (b_bssid (the (bss_heap s a))) (b_id (the (bss_heap s a)))]\<rparr>"

lemma drop_bss_sel [simp]:
  "bss (drop_bss s a) = remove1 a (bss s)" "bss_heap (drop_bss s a) = (bss_heap s)(a := None)"
  "bss_id (drop_bss s a) = remove1 a (bss_id s)"
  "num_bss (drop_bss s a) = num_bss s - 1" "conf (drop_bss s a) = conf s"
  "current_bss (drop_bss s a) = current_bss s" "cur_bssid (drop_bss s a) = cur_bssid s"
  "pending_bssid (drop_bss s a) = pending_bssid s" "bss_update_idx (drop_bss s a) = bss_update_idx s"
  "bssid_filter (drop_bss s a) = bssid_filter s"
  by (simp_all add: drop_bss_def)

lemma wpa_bss_remove_spec:
  assumes "bss_inv s" "a \<in> set (bss s)"
  shows "wpa_bss_remove s a = Some (drop_bss s a)" and "bss_inv (drop_bss s a)"
proof -
  obtain b where b: "deref s a = Some b" "bss_heap s a = Some b" using bss_inv_deref [OF assms] by metis
  have "a \<in> set (bss_id s)" "num_bss s \<noteq> 0" using assms by (auto simp: bss_inv_def)
  then show "wpa_bss_remove s a = Some (drop_bss s a)"
    using assms b by (simp add: wpa_bss_remove_def drop_bss_def notify_def Let_def)
  show "bss_inv (drop_bss s a)"
    using assms by (auto simp: bss_inv_def length_remove1)
qed

lemma known_loop_total:
  "list_all (\<lambda>n. case n_ssid n of None \<Rightarrow> True | Some s \<Rightarrow> n_ssid_len n \<le> length s) ns \<Longrightarrow> bss_wf b \<Longrightarrow>
     \<exists>k. known_loop ns b = Some k"
  by (induction ns) (auto simp: bss_wf_def memeq_Some split: option.splits)

definition known :: "wpa_supplicant \<Rightarrow> ptr \<Rightarrow> bool" where
  "known s a = (wpa_bss_known s (the (bss_heap s a)) = Some True)"

lemma wpa_bss_known_spec:
  assumes "bss_inv s" "bss_heap s a = Some b"
  shows "wpa_bss_known s b = Some (known s a)"
proof -
  have "bss_wf b" "conf_wf (conf s)" using assms by (auto simp: bss_inv_def)
  then show ?thesis
    using known_loop_total [of "c_ssid (conf s)" b] assms(2)
    by (auto simp: known_def wpa_bss_known_def conf_wf_def)
qed

text \<open>The entry that \<open>wpa_bss_remove_oldest\<close> evicts: the first unknown one, else the first.\<close>

definition victim :: "wpa_supplicant \<Rightarrow> ptr" where
  "victim s = (case find (\<lambda>a. \<not> known s a) (bss s) of Some a \<Rightarrow> a | None \<Rightarrow> hd (bss s))"

lemma victim_in: "bss s \<noteq> [] \<Longrightarrow> victim s \<in> set (bss s)"
  by (auto simp: victim_def find_Some_iff split: option.split)

lemma remove_unknown_loop_spec:
  assumes "bss_inv s" "set as \<subseteq> set (bss s)"
  shows "remove_unknown_loop s as = Some (case find (\<lambda>a. \<not> known s a) as of
    None \<Rightarrow> (-1, s) | Some a \<Rightarrow> (0, drop_bss s a))"
  using assms(2)
proof (induction as)
  case (Cons a as)
  then obtain b where b: "bss_heap s a = Some b" "deref s a = Some b"
    using bss_inv_deref [OF assms(1), of a] by auto
  then show ?case
    using Cons wpa_bss_known_spec [OF assms(1) b(1)] wpa_bss_remove_spec(1) [OF assms(1), of a] by simp
qed simp

lemma wpa_bss_remove_oldest_spec:
  assumes "bss_inv s" "bss s \<noteq> []"
  shows "wpa_bss_remove_oldest s = Some (drop_bss s (victim s))"
  using assms remove_unknown_loop_spec [OF assms(1) subset_refl] wpa_bss_remove_spec(1) [OF assms(1)]
  by (cases "bss s")
    (auto simp: wpa_bss_remove_oldest_def wpa_bss_remove_oldest_unknown_def victim_def
      split: option.splits if_splits)


section \<open>Addition and update\<close>

text \<open>What an entry must hold after a scan result was stored in it.\<close>

definition reflects :: "u32 \<Rightarrow> wpa_bss \<Rightarrow> wpa_scan_res \<Rightarrow> bool" where
  "reflects idx b r \<longleftrightarrow>
     b_bssid b = r_bssid r \<and> b_flags b = r_flags r \<and> b_freq b = r_freq r \<and> b_caps b = r_caps r \<and>
     b_level b = r_level r \<and> b_tsf b = r_tsf r \<and> b_beacon_int b = r_beacon_int r \<and>
     b_scan_miss_count b = 0 \<and> b_last_update_idx b = idx \<and>
     b_ie_len b = r_ie_len r \<and> b_beacon_ie_len b = r_beacon_ie_len r \<and>
     take (b_ie_len b + b_beacon_ie_len b) (b_ies b) = take (r_ie_len r + r_beacon_ie_len r) (r_ies r)"

lemma copy_res_spec:
  assumes "res_wf r"
  obtains d where "wpa_bss_copy_res now b r = Some d" "b_bssid d = r_bssid r" "b_flags d = r_flags r"
    "b_freq d = r_freq r" "b_caps d = r_caps r" "b_level d = r_level r" "b_tsf d = r_tsf r"
    "b_beacon_int d = r_beacon_int r" "b_ssid d = b_ssid b" "b_ssid_len d = b_ssid_len b"
    "b_scan_miss_count d = b_scan_miss_count b" "b_last_update_idx d = b_last_update_idx b"
    "b_ie_len d = b_ie_len b" "b_beacon_ie_len d = b_beacon_ie_len b" "b_ies d = b_ies b" "b_id d = b_id b"
proof -
  have "rd_bytes (r_bssid r) 0 ETH_ALEN = Some (r_bssid r)"
    using assms by (simp add: res_wf_def rd_bytes_def ETH_ALEN_def)
  then show ?thesis
    by (intro that [of "the (wpa_bss_copy_res now b r)"])
      (simp_all add: wpa_bss_copy_res_def Let_def split: if_split)
qed

lemma wpa_bss_add_spec:
  assumes inv: "bss_inv s" and r: "res_wf r" and n: "n \<le> 32" "n \<le> length ssid"
    and fresh: "a \<notin> dom (bss_heap s)"
  shows "\<exists>s1 b. wpa_bss_add (Some a) now s ssid n r =
        (if c_bss_max_count (conf s) < num_bss s + 1 then wpa_bss_remove_oldest s1 else Some s1) \<and>
      bss_inv s1 \<and> bss s1 = bss s @ [a] \<and> bss_heap s1 = (bss_heap s)(a \<mapsto> b) \<and>
      ssid_of b = take n ssid \<and> reflects (bss_update_idx s) b r \<and> bssid_filter s1 = bssid_filter s \<and>
      num_bss s1 = num_bss s + 1 \<and> conf s1 = conf s \<and> bss_update_idx s1 = bss_update_idx s \<and> current_bss s1 = current_bss s"
proof -
  let ?b0 = "zero_bss\<lparr>b_id := bss_next_id s, b_last_update_idx := bss_update_idx s\<rparr>"
  let ?n = "r_ie_len r + r_beacon_ie_len r"
  obtain d where d: "wpa_bss_copy_res now ?b0 r = Some d" "b_bssid d = r_bssid r" "b_flags d = r_flags r"
    "b_freq d = r_freq r" "b_caps d = r_caps r" "b_level d = r_level r" "b_tsf d = r_tsf r"
    "b_beacon_int d = r_beacon_int r" "b_ssid d = replicate 32 0"
    "b_scan_miss_count d = 0" "b_last_update_idx d = bss_update_idx s" "b_id d = bss_next_id s"
    using copy_res_spec [OF r, of now ?b0] by (auto simp: zero_bss_def)
  define arr where "arr = take n ssid @ drop n (replicate 32 0)"
  define b where "b = d\<lparr>b_ssid := arr, b_ssid_len := n, b_ie_len := r_ie_len r,
    b_beacon_ie_len := r_beacon_ie_len r, b_fetched := False, b_ies := take ?n (r_ies r)\<rparr>"
  define s1 where "s1 = notify (Bss_added (b_bssid b) (b_id b)) (s\<lparr>bss_next_id := bss_next_id s + 1,
    bss_heap := (bss_heap s)(a \<mapsto> b), bss := bss s @ [a], bss_id := bss_id s @ [a], num_bss := num_bss s + 1\<rparr>)"
  have w: "wr_bytes (b_ssid d) 0 (take n ssid) = Some arr" "rd_bytes ssid 0 n = Some (take n ssid)"
    "rd_bytes (r_ies r) 0 ?n = Some (take ?n (r_ies r))"
    using n r by (simp_all add: d wr_bytes_def rd_bytes_def arr_def res_wf_def min_absorb2)
  have "wpa_bss_add (Some a) now s ssid n r =
      (if c_bss_max_count (conf s) < num_bss s + 1 then wpa_bss_remove_oldest s1 else Some s1)"
    by (simp add: wpa_bss_add_def Let_def d(1) w s1_def b_def)
  moreover have "length arr = 32" using n by (simp add: arr_def)
  moreover have "bss_inv s1"
    using inv fresh r n calculation(2)
    by (auto simp: bss_inv_def s1_def bss_wf_def b_def d res_wf_def)
  moreover have "ssid_of b = take n ssid" "reflects (bss_update_idx s) b r"
    using n r by (auto simp: ssid_of_def b_def arr_def reflects_def d res_wf_def)
  ultimately show ?thesis by (intro exI [of _ s1] exI [of _ b]) (simp add: s1_def)
qed

lemma ie_bytes_total:
  assumes "wf_mem \<le> length mem" "\<forall>p. r = Some p \<longrightarrow> complete_at mem p wf_mem"
  shows "\<exists>x. ie_bytes mem r = Some x"
  using assms by (cases r) (auto simp: ie_bytes_def complete_at_def rd_def rd_bytes_def)

lemma buf_bytes_total:
  "\<forall>b. r = Some b \<longrightarrow> wpabuf_inv b \<Longrightarrow> \<exists>x. buf_bytes r = Some x"
  by (cases r) (auto simp: buf_bytes_def rd_bytes_def wpabuf_inv_def wpabuf_len_def)

lemma ie_multi_wf:
  assumes "len \<le> length mem"
  shows "\<exists>r. ie_multi ok v mem 0 len = Some r \<and> (\<forall>b. r = Some b \<longrightarrow> wpabuf_inv b)"
  using ie_multi_spec [of 0 len mem v] ie_multi_no_alloc [of v mem 0 len] assms by (cases ok) auto

lemma are_ies_equal_total:
  assumes "bss_wf b" "res_wf r"
  shows "\<exists>x. are_ies_equal ok1 ok2 b r ie = Some x"
proof -
  have w: "bss_ie.wf b" "scan_ie.wf r" "b_ie_len b \<le> length (b_ies b)" "r_ie_len r \<le> length (r_ies r)"
    using assms by (auto simp: bss_ie.wf_def scan_ie.wf_def bss_wf_def res_wf_def)
  note t = ie_bytes_total [OF w(3)] ie_bytes_total [OF w(4)]
  have g: "\<exists>p x. wpa_bss_get_ie b i = Some p \<and> ie_bytes (b_ies b) p = Some x"
    "\<exists>p x. wpa_scan_get_ie r i = Some p \<and> ie_bytes (r_ies r) p = Some x" for i
    using bss_ie.get_ie_first [OF w(1)] scan_ie.get_ie_first [OF w(2)] t by meson+
  have v: "\<exists>p x. wpa_bss_get_vendor_ie b i = Some p \<and> ie_bytes (b_ies b) p = Some x"
    "\<exists>p x. wpa_scan_get_vendor_ie r i = Some p \<and> ie_bytes (r_ies r) p = Some x" for i
    using bss_ie.get_vendor_ie_first [OF w(1)] scan_ie.get_vendor_ie_first [OF w(2)] t by meson+
  have m: "\<exists>p x. wpa_bss_get_vendor_ie_multi ok b i = Some p \<and> buf_bytes p = Some x"
    "\<exists>p x. wpa_scan_get_vendor_ie_multi ok r i = Some p \<and> buf_bytes p = Some x" for ok i
    unfolding wpa_bss_get_vendor_ie_multi_def wpa_scan_get_vendor_ie_multi_def
    using ie_multi_wf [OF w(3)] ie_multi_wf [OF w(4)] buf_bytes_total by meson+
  from g [of "ucast ie"] v [of ie] m(1) [of ok1 ie] m(2) [of ok2 ie] show ?thesis
    by (auto simp: are_ies_equal_def)
qed

lemma compare_res_total:
  assumes "bss_wf b" "res_wf r"
  shows "\<exists>c. wpa_bss_compare_res ok1 ok2 b r = Some c"
proof -
  obtain f where f: "are_ies_equal ok1 ok2 b r = (\<lambda>ie. Some (f ie))"
    using are_ies_equal_total [OF assms, of ok1 ok2] by (metis option.collapse option.distinct(1))
  have "b_ie_len b = r_ie_len r \<Longrightarrow> memeq (b_ies b) (r_ies r) (b_ie_len b) \<noteq> None"
    using assms by (simp add: bss_wf_def res_wf_def memeq_Some)
  then show ?thesis by (auto simp: wpa_bss_compare_res_def Let_def f)
qed

lemma notify_bss_changes_sel [simp]:
  "bss (notify_bss_changes s c b) = bss s" "bss_heap (notify_bss_changes s c b) = bss_heap s"
  "bss_id (notify_bss_changes s c b) = bss_id s" "num_bss (notify_bss_changes s c b) = num_bss s"
  "conf (notify_bss_changes s c b) = conf s" "cur_bssid (notify_bss_changes s c b) = cur_bssid s"
  "pending_bssid (notify_bss_changes s c b) = pending_bssid s"
  "bssid_filter (notify_bss_changes s c b) = bssid_filter s"
  "bss_update_idx (notify_bss_changes s c b) = bss_update_idx s"
  by (simp_all add: notify_bss_changes_def note_if_def Let_def)

lemma bss_inv_notify_changes [simp]: "bss_inv (notify_bss_changes s c b) = bss_inv s"
  by (simp add: bss_inv_def)

lemma bss_inv_moved:
  assumes inv: "bss_inv s" and a: "a \<in> set (bss s)" and a': "a' = a \<or> a' \<notin> dom (bss_heap s)"
    and b: "bss_wf b"
  shows "bss_inv (s\<lparr>bss_heap := (bss_heap s)(a := None, a' \<mapsto> b), bss := remove1 a (bss s) @ [a'],
    bss_id := map (\<lambda>x. if x = a then a' else x) (bss_id s)\<rparr>)"
proof -
  let ?m = "\<lambda>x. if x = a then a' else x"
  have d: "distinct (bss s)" "distinct (bss_id s)" "set (bss s) = dom (bss_heap s)"
    "set (bss_id s) = dom (bss_heap s)"
    using inv by (auto simp: bss_inv_def)
  have "inj_on ?m (set (bss_id s))" using a' d by (auto simp: inj_on_def)
  then have "distinct (map ?m (bss_id s))" using d(2) by (simp add: distinct_map)
  moreover have "set (map ?m (bss_id s)) = insert a' (set (bss_id s) - {a})"
    using a d by auto
  moreover have "length (remove1 a (bss s)) + 1 = length (bss s)"
    using a by (simp add: length_remove1) (metis Suc_pred length_pos_if_in_set)
  ultimately show ?thesis
    using inv a a' b d by (auto simp: bss_inv_def)
qed

lemma wpa_bss_update_spec:
  assumes inv: "bss_inv s" and a: "a \<in> set (bss s)" and r: "res_wf r"
    and re: "\<forall>a'. realloc = Some a' \<longrightarrow> a' = a \<or> a' \<notin> dom (bss_heap s)"
  shows "\<exists>s' a2 b. wpa_bss_update ok1 ok2 realloc now s a r = Some s' \<and> bss_inv s' \<and>
    bss s' = remove1 a (bss s) @ [a2] \<and> (a2 = a \<or> realloc = Some a2) \<and>
    bss_heap s' = (bss_heap s)(a := None, a2 \<mapsto> b) \<and>
    ssid_of b = ssid_of (the (bss_heap s a)) \<and> b_bssid b = r_bssid r \<and>
    (realloc \<noteq> None \<longrightarrow> reflects (bss_update_idx s) b r) \<and>
    bssid_filter s' = bssid_filter s \<and> num_bss s' = num_bss s \<and> conf s' = conf s \<and>
    bss_update_idx s' = bss_update_idx s"
proof -
  obtain b where b: "bss_heap s a = Some b" "deref s a = Some b" "bss_wf b"
    using bss_inv_deref [OF inv a] .
  obtain c where c: "wpa_bss_compare_res ok1 ok2 b r = Some c"
    using compare_res_total [OF b(3) r] by blast
  let ?b0 = "b\<lparr>b_scan_miss_count := 0, b_last_update_idx := bss_update_idx s\<rparr>"
  let ?n = "r_ie_len r + r_beacon_ie_len r"
  obtain d where d: "wpa_bss_copy_res now ?b0 r = Some d" "b_bssid d = r_bssid r" "b_flags d = r_flags r"
    "b_freq d = r_freq r" "b_caps d = r_caps r" "b_level d = r_level r" "b_tsf d = r_tsf r"
    "b_beacon_int d = r_beacon_int r" "b_ssid d = b_ssid b" "b_ssid_len d = b_ssid_len b"
    "b_scan_miss_count d = 0" "b_last_update_idx d = bss_update_idx s"
    "b_ie_len d = b_ie_len b" "b_beacon_ie_len d = b_beacon_ie_len b" "b_ies d = b_ies b"
    using copy_res_spec [OF r, of now ?b0] by auto
  have ies: "rd_bytes (r_ies r) 0 ?n = Some (take ?n (r_ies r))" "length (take ?n (r_ies r)) = ?n"
    using r by (simp_all add: rd_bytes_def res_wf_def)
  have wfd: "length (b_bssid d) = 6" "length (b_ssid d) = 32" "b_ssid_len d \<le> 32"
    "b_ie_len d + b_beacon_ie_len d \<le> length (b_ies d)"
    using b(3) r by (simp_all add: d bss_wf_def res_wf_def)
  have upd: "bss_inv (s\<lparr>bss_heap := (bss_heap s)(a \<mapsto> x), bss := remove1 a (bss s) @ [a]\<rparr>)"
    if "bss_wf x" for x
    using bss_inv_moved [OF inv a _ that, of a] by (simp add: if_distrib cong: if_cong)
  consider (fits) "?n \<le> b_ie_len b + b_beacon_ie_len b"
    | (fails) "\<not> ?n \<le> b_ie_len b + b_beacon_ie_len b" "realloc = None"
    | (moved) a' where "\<not> ?n \<le> b_ie_len b + b_beacon_ie_len b" "realloc = Some a'"
    by blast
  then show ?thesis
  proof cases
    case fits
    define m where "m = take ?n (r_ies r) @ drop ?n (b_ies b)"
    let ?b = "d\<lparr>b_ies := m, b_ie_len := r_ie_len r, b_beacon_ie_len := r_beacon_ie_len r\<rparr>"
    have le: "?n \<le> length (b_ies b)" using fits b(3) by (simp add: bss_wf_def)
    then have w: "wr_bytes (b_ies d) 0 (take ?n (r_ies r)) = Some m"
      using ies(2) by (simp add: wr_bytes_def d m_def)
    have wf: "bss_wf ?b" using wfd le ies(2) by (simp add: bss_wf_def m_def)
    have "reflects (bss_update_idx s) ?b r"
      using ies(2) by (simp add: reflects_def d m_def)
    moreover let ?s = "s\<lparr>bss_heap := (bss_heap s)(a \<mapsto> ?b), bss := remove1 a (bss s) @ [a]\<rparr>"
    have "wpa_bss_update ok1 ok2 realloc now s a r = Some (notify_bss_changes ?s c ?b)"
      using fits w b c d ies by (simp add: wpa_bss_update_def Let_def)
    ultimately show ?thesis
      using upd [OF wf] b d
      by (intro exI [of _ "notify_bss_changes ?s c ?b"] exI [of _ a] exI [of _ ?b]) (simp add: ssid_of_def)
  next
    case fails
    have "bss_wf d" using wfd by (simp add: bss_wf_def)
    moreover let ?s = "s\<lparr>bss_heap := (bss_heap s)(a \<mapsto> d), bss := remove1 a (bss s) @ [a]\<rparr>"
    have "wpa_bss_update ok1 ok2 realloc now s a r = Some (notify_bss_changes ?s c d)"
      using fails b c d ies by (simp add: wpa_bss_update_def Let_def)
    ultimately show ?thesis
      using upd [of d] fails b d
      by (intro exI [of _ "notify_bss_changes ?s c d"] exI [of _ a] exI [of _ d]) (simp add: ssid_of_def)
  next
    case moved
    let ?b = "d\<lparr>b_ies := take ?n (r_ies r), b_ie_len := r_ie_len r, b_beacon_ie_len := r_beacon_ie_len r\<rparr>"
    have wf: "bss_wf ?b" using wfd ies(2) by (simp add: bss_wf_def)
    have "reflects (bss_update_idx s) ?b r" by (simp add: reflects_def d)
    moreover let ?s = "s\<lparr>bss_heap := (bss_heap s)(a := None, a' \<mapsto> ?b), bss := remove1 a (bss s) @ [a'],
           bss_id := map (\<lambda>x. if x = a then a' else x) (bss_id s)\<rparr>"
    have "wpa_bss_update ok1 ok2 realloc now s a r = Some (notify_bss_changes ?s c ?b)"
      using moved b c d ies by (simp add: wpa_bss_update_def Let_def)
    ultimately show ?thesis
      using moved bss_inv_moved [OF inv a _ wf, of a'] re b d
      by (intro exI [of _ "notify_bss_changes ?s c ?b"] exI [of _ a'] exI [of _ ?b]) (simp add: ssid_of_def)
  qed
qed


section \<open>Scan results in the table\<close>

definition res_ssid :: "wpa_scan_res \<Rightarrow> bytes option" where
  "res_ssid r = map_option snd (find (\<lambda>e. fst e = WLAN_EID_SSID) (elems (take (r_ie_len r) (r_ies r))))"

definition res_p2p :: "wpa_scan_res \<Rightarrow> bool" where
  "res_p2p r = (find (is_vendor P2P_IE_VENDOR_TYPE) (elems (take (r_ie_len r) (r_ies r))) \<noteq> None)"

text \<open>The results the table keeps: an SSID of at most 32 octets, not a P2P listen discovery.\<close>

definition storable :: "wpa_scan_res \<Rightarrow> bytes \<Rightarrow> bool" where
  "storable r ssid \<longleftrightarrow> res_ssid r = Some ssid \<and> length ssid \<le> 32 \<and> \<not> (res_p2p r \<and> ssid = P2P_WILDCARD_SSID)"

definition has_key :: "wpa_supplicant \<Rightarrow> bytes \<Rightarrow> bytes \<Rightarrow> ptr \<Rightarrow> bool" where
  "has_key s bssid ssid a \<longleftrightarrow> b_bssid (the (bss_heap s a)) = bssid \<and> ssid_of (the (bss_heap s a)) = ssid"

definition target :: "wpa_supplicant \<Rightarrow> wpa_scan_res \<Rightarrow> bytes \<Rightarrow> ptr option" where
  "target s r ssid = (if filter_admits s (r_bssid r) then find (has_key s (r_bssid r) ssid) (bss s) else None)"

lemma target_in: "target s r ssid = Some a \<Longrightarrow> a \<in> set (bss s) \<and> has_key s (r_bssid r) ssid a"
  by (auto simp: target_def find_Some_iff split: if_splits)

lemma target_None:
  "filter_admits s (r_bssid r) \<Longrightarrow> target s r ssid = None \<Longrightarrow> a \<in> set (bss s) \<Longrightarrow> \<not> has_key s (r_bssid r) ssid a"
  by (auto simp: target_def find_None_iff)

lemma wpa_bss_get_key:
  assumes "bss_inv s" "length bssid = 6" "n \<le> 32" "n \<le> length mem"
  shows "wpa_bss_get s bssid mem n =
    Some (if filter_admits s bssid then find (has_key s bssid (take n mem)) (bss s) else None)"
  using wpa_bss_get_spec [OF assms] by (simp add: has_key_def [abs_def])

lemma length_P2P: "length P2P_WILDCARD_SSID = 7"
  by (simp add: P2P_WILDCARD_SSID_def lit_def)

lemma scan_res_cases:
  assumes inv: "bss_inv s" and r: "res_wf r"
  shows "(\<nexists>ssid. storable r ssid) \<Longrightarrow> wpa_bss_update_scan_res alloc ok1 ok2 realloc now s r = Some s"
    and "storable r ssid \<Longrightarrow> \<exists>mem. length ssid \<le> length mem \<and> take (length ssid) mem = ssid \<and>
      wpa_bss_update_scan_res alloc ok1 ok2 realloc now s r = (case target s r ssid of
        None \<Rightarrow> wpa_bss_add alloc now s mem (length ssid) r
      | Some a \<Rightarrow> wpa_bss_update ok1 ok2 realloc now s a r)"
proof -
  let ?upd = "wpa_bss_update_scan_res alloc ok1 ok2 realloc now s r"
  have wf: "scan_ie.wf r" using r by (simp add: scan_ie.wf_def res_wf_def)
  obtain q where q: "wpa_scan_get_ie r 0 = Some q"
    "map_option snd (map_option (element_at (r_ies r)) q) = res_ssid r"
    "\<forall>p. q = Some p \<longrightarrow> complete_at (r_ies r) p (r_ie_len r)"
    using scan_ie.get_ie_first [OF wf, of 0] by (auto simp: scan_ie.elements_def res_ssid_def)
  obtain v where v: "wpa_scan_get_vendor_ie r P2P_IE_VENDOR_TYPE = Some v" "(v \<noteq> None) = res_p2p r"
    using scan_ie.get_vendor_ie_first [OF wf, of P2P_IE_VENDOR_TYPE]
    unfolding scan_ie.elements_def res_p2p_def by (metis option.map_disc_iff)
  have main: "if length ssid \<le> 32 \<and> \<not> (res_p2p r \<and> ssid = P2P_WILDCARD_SSID)
    then \<exists>mem. length ssid \<le> length mem \<and> take (length ssid) mem = ssid \<and> ?upd = (case target s r ssid of
        None \<Rightarrow> wpa_bss_add alloc now s mem (length ssid) r
      | Some a \<Rightarrow> wpa_bss_update ok1 ok2 realloc now s a r)
    else ?upd = Some s" if e: "res_ssid r = Some ssid" for ssid
  proof -
    obtain p where p: "q = Some p" "complete_at (r_ies r) p (r_ie_len r)"
      "ssid = take (unat (r_ies r ! (p + 1))) (drop (p + 2) (r_ies r))"
      using q e by (auto simp: element_at_def)
    define mem where "mem = drop (p + 2) (r_ies r)"
    have l: "unat (r_ies r ! (p + 1)) = length ssid" "length ssid \<le> length mem"
      "take (length ssid) mem = ssid" "rd (r_ies r) (p + 1) = Some (r_ies r ! (p + 1))"
      using p r by (auto simp: complete_at_def res_wf_def mem_def rd_def)
    have w: "(if v \<noteq> None \<and> length ssid = 7 then memeq mem P2P_WILDCARD_SSID 7 else Some False)
      = Some (res_p2p r \<and> ssid = P2P_WILDCARD_SSID)"
      using v(2) l(2,3) length_P2P by (auto simp: memeq_Some)
    have g: "wpa_bss_get s (r_bssid r) mem (length ssid) = Some (target s r ssid)" if "length ssid \<le> 32"
      using wpa_bss_get_key [OF inv _ that l(2)] r l(3) by (simp add: res_wf_def target_def)
    have c: "(32 < r_ies r ! (p + 1)) = (32 < length ssid)"
      using l(1) by (simp add: word_less_nat_alt)
    have "?upd = (if 32 < length ssid then Some s else
        if res_p2p r \<and> ssid = P2P_WILDCARD_SSID then Some s
        else case target s r ssid of
          None \<Rightarrow> wpa_bss_add alloc now s mem (length ssid) r
        | Some a \<Rightarrow> wpa_bss_update ok1 ok2 realloc now s a r)"
      unfolding wpa_bss_update_scan_res_def q(1) p(1) bind.simps option.case l(4) c l(1) v(1) w [unfolded mem_def]
      using g [unfolded mem_def]
      by (cases "length ssid \<le> 32") (simp_all add: mem_def split: option.split)
    with l show ?thesis by auto
  qed
  show "?upd = Some s" if "\<nexists>ssid. storable r ssid"
  proof (cases "res_ssid r")
    case None
    then show ?thesis using q by (simp add: wpa_bss_update_scan_res_def)
  next
    case (Some ssid)
    then show ?thesis using main [of ssid] that by (auto simp: storable_def split: if_splits)
  qed
  show "\<exists>mem. length ssid \<le> length mem \<and> take (length ssid) mem = ssid \<and> ?upd = (case target s r ssid of
        None \<Rightarrow> wpa_bss_add alloc now s mem (length ssid) r
      | Some a \<Rightarrow> wpa_bss_update ok1 ok2 realloc now s a r)" if "storable r ssid"
    using main [of ssid] that by (simp add: storable_def)
qed

text \<open>Addresses the allocator may return: fresh ones; \<open>os_realloc\<close> may also keep the block in place.\<close>

definition alloc_ok :: "wpa_supplicant \<Rightarrow> ptr option \<Rightarrow> bool" where
  "alloc_ok s alloc \<longleftrightarrow> (case alloc of None \<Rightarrow> True | Some a \<Rightarrow> bss_heap s a = None)"

definition realloc_ok :: "wpa_supplicant \<Rightarrow> wpa_scan_res \<Rightarrow> ptr option \<Rightarrow> bool" where
  "realloc_ok s r realloc \<longleftrightarrow> (case realloc of None \<Rightarrow> True | Some a' \<Rightarrow> bss_heap s a' = None \<or>
     (case res_ssid r of None \<Rightarrow> False | Some ssid \<Rightarrow> target s r ssid = Some a'))"

lemma realloc_ok_target:
  "realloc_ok s r realloc \<Longrightarrow> storable r ssid \<Longrightarrow> target s r ssid = Some a \<Longrightarrow>
     \<forall>a'. realloc = Some a' \<longrightarrow> a' = a \<or> a' \<notin> dom (bss_heap s)"
  by (auto simp: realloc_ok_def storable_def)

lemma update_scan_res_inv:
  assumes "bss_inv s" "res_wf r" "alloc_ok s alloc" "realloc_ok s r realloc"
  shows "\<exists>s'. wpa_bss_update_scan_res alloc ok1 ok2 realloc now s r = Some s' \<and> bss_inv s' \<and>
    num_bss s' \<le> max (num_bss s) (c_bss_max_count (conf s))"
proof (cases "\<exists>ssid. storable r ssid")
  case False
  then show ?thesis using scan_res_cases(1) [OF assms(1,2) False] assms(1) by simp
next
  case True
  then obtain ssid mem where st: "storable r ssid" "length ssid \<le> length mem"
    and eq: "wpa_bss_update_scan_res alloc ok1 ok2 realloc now s r = (case target s r ssid of
        None \<Rightarrow> wpa_bss_add alloc now s mem (length ssid) r
      | Some a \<Rightarrow> wpa_bss_update ok1 ok2 realloc now s a r)"
    using scan_res_cases(2) [OF assms(1,2)] by blast
  show ?thesis
  proof (cases "target s r ssid")
    case (Some a)
    then have a: "a \<in> set (bss s)" by (simp add: target_in)
    show ?thesis
      using wpa_bss_update_spec [OF assms(1) a assms(2) realloc_ok_target [OF assms(4) st(1) Some],
          of ok1 ok2 now] eq Some by auto
  next
    case None
    show ?thesis
    proof (cases alloc)
      case None2: None
      then show ?thesis using eq None assms(1) by (simp add: wpa_bss_add_def)
    next
      case (Some a)
      then have "a \<notin> dom (bss_heap s)" "length ssid \<le> 32"
        using assms(3) st(1) by (auto simp: alloc_ok_def storable_def)
      then obtain s1 b where s1: "wpa_bss_add (Some a) now s mem (length ssid) r =
          (if c_bss_max_count (conf s) < num_bss s + 1 then wpa_bss_remove_oldest s1 else Some s1)"
        "bss_inv s1" "bss s1 = bss s @ [a]" "num_bss s1 = num_bss s + 1"
        using wpa_bss_add_spec [OF assms(1,2) _ st(2), of a now] by blast
      then have o: "wpa_bss_remove_oldest s1 = Some (drop_bss s1 (victim s1))"
        "bss_inv (drop_bss s1 (victim s1))"
        using wpa_bss_remove_oldest_spec [of s1] wpa_bss_remove_spec(2) [of s1] victim_in [of s1] by auto
      then show ?thesis using eq None Some s1 by (auto simp: max_def)
    qed
  qed
qed

text \<open>
  C13. Processing a scan result never faults and keeps the table consistent, for every content of the
  result, every allocator outcome and every table: both lists hold exactly the live entries, the counter
  agrees, and the table does not grow beyond \<open>bss_max_count\<close>.
\<close>

theorem wpa_bss_update_scan_res_inv:
  assumes "bss_inv s" "res_wf r" "alloc_ok s alloc" "realloc_ok s r realloc"
  shows "\<exists>s'. wpa_bss_update_scan_res alloc ok1 ok2 realloc now s r = Some s' \<and> bss_inv s' \<and>
    num_bss s' \<le> max (num_bss s) (c_bss_max_count (conf s))"
  using assms by (rule update_scan_res_inv)

definition keys_unique :: "wpa_supplicant \<Rightarrow> bool" where
  "keys_unique s \<longleftrightarrow> inj_on (\<lambda>a. (b_bssid (the (bss_heap s a)), ssid_of (the (bss_heap s a)))) (set (bss s))"

lemma get_last_entry:
  assumes "bss_inv s'" "filter_admits s' bssid" "length bssid = 6" "length ssid \<le> 32"
    and "bss s' = l @ [p]" "has_key s' bssid ssid p" "\<forall>a \<in> set l. \<not> has_key s' bssid ssid a"
  shows "wpa_bss_get s' bssid ssid (length ssid) = Some (Some p)"
proof -
  have "find (has_key s' bssid ssid) l = None" using assms(7) by (simp add: find_None_iff)
  then have "find (has_key s' bssid ssid) (l @ [p]) = Some p"
    using assms(6) by (induction l) (auto split: if_splits)
  then show ?thesis using assms by (simp add: wpa_bss_get_key)
qed

lemma keys_unique_append:
  assumes "inj_on f (set l)" "\<forall>a \<in> set l. f a \<noteq> f p"
  shows "inj_on f (set (l @ [p]))"
  using assms by (auto simp: inj_on_def)

lemma update_scan_res_stored:
  assumes inv: "bss_inv s" "keys_unique s" "res_wf r" and st: "storable r ssid" "filter_admits s (r_bssid r)"
    and mem: "bss_heap s a0 = None" "realloc_ok s r (Some a1)" "num_bss s < c_bss_max_count (conf s)"
  shows "\<exists>s' l p b. wpa_bss_update_scan_res (Some a0) ok1 ok2 (Some a1) now s r = Some s' \<and> bss_inv s' \<and>
    bss s' = l @ [p] \<and> bss_heap s' p = Some b \<and> ssid_of b = ssid \<and> reflects (bss_update_idx s) b r \<and>
    set l \<subseteq> set (bss s) \<and> (\<forall>a \<in> set l. bss_heap s' a = bss_heap s a \<and> \<not> has_key s (r_bssid r) ssid a) \<and>
    (\<forall>a \<in> set (bss s). a \<notin> set l \<longrightarrow> has_key s (r_bssid r) ssid a) \<and> bssid_filter s' = bssid_filter s \<and>
    conf s' = conf s \<and> bss_update_idx s' = bss_update_idx s \<and> num_bss s' \<le> num_bss s + 1"
proof -
  obtain m where m: "length ssid \<le> length m" "take (length ssid) m = ssid"
    "wpa_bss_update_scan_res (Some a0) ok1 ok2 (Some a1) now s r = (case target s r ssid of
        None \<Rightarrow> wpa_bss_add (Some a0) now s m (length ssid) r
      | Some a \<Rightarrow> wpa_bss_update ok1 ok2 (Some a1) now s a r)"
    using scan_res_cases(2) [OF inv(1,3) st(1)] by blast
  have len: "length ssid \<le> 32" "length (r_bssid r) = 6"
    using st(1) inv(3) by (auto simp: storable_def res_wf_def)
  have dom: "set (bss s) = dom (bss_heap s)" "distinct (bss s)" using inv(1) by (auto simp: bss_inv_def)
  show ?thesis
  proof (cases "target s r ssid")
    case None
    from wpa_bss_add_spec [OF inv(1,3) len(1) m(1), of a0 now] mem(1) obtain s1 b where
      "wpa_bss_add (Some a0) now s m (length ssid) r =
        (if c_bss_max_count (conf s) < num_bss s + 1 then wpa_bss_remove_oldest s1 else Some s1)"
      "bss_inv s1" "bss s1 = bss s @ [a0]" "bss_heap s1 = (bss_heap s)(a0 \<mapsto> b)"
      "ssid_of b = take (length ssid) m" "reflects (bss_update_idx s) b r" "bssid_filter s1 = bssid_filter s"
      "num_bss s1 = num_bss s + 1" "conf s1 = conf s" "bss_update_idx s1 = bss_update_idx s"
      by blast
    moreover have "a \<noteq> a0" if "a \<in> set (bss s)" for a using that mem(1) dom by auto
    ultimately show ?thesis
      using None m(2,3) mem(3) target_None [OF st(2) None]
      by (intro exI [of _ s1] exI [of _ "bss s"] exI [of _ a0] exI [of _ b]) auto
  next
    case (Some a)
    then have a: "a \<in> set (bss s)" "has_key s (r_bssid r) ssid a" by (simp_all add: target_in)
    from wpa_bss_update_spec [OF inv(1) a(1) inv(3) realloc_ok_target [OF mem(2) st(1) Some], of ok1 ok2 now]
    obtain s' a2 b where u: "wpa_bss_update ok1 ok2 (Some a1) now s a r = Some s'" "bss_inv s'"
      "bss s' = remove1 a (bss s) @ [a2]" "a2 = a \<or> Some a1 = Some a2"
      "bss_heap s' = (bss_heap s)(a := None, a2 \<mapsto> b)" "ssid_of b = ssid_of (the (bss_heap s a))"
      "reflects (bss_update_idx s) b r" "bssid_filter s' = bssid_filter s"
      "num_bss s' = num_bss s" "conf s' = conf s" "bss_update_idx s' = bss_update_idx s"
      by blast
    have ne: "x \<noteq> a \<and> x \<noteq> a2" if "x \<in> set (remove1 a (bss s))" for x
      using that dom u(2,3) by (auto simp: bss_inv_def)
    have key: "\<not> has_key s (r_bssid r) ssid x" if "x \<in> set (remove1 a (bss s))" for x
      using that ne [OF that] a inv(2) dom(2) by (auto simp: keys_unique_def inj_on_def has_key_def)
    show ?thesis
      using Some m(3) u a ne key dom(2)
      by (intro exI [of _ s'] exI [of _ "remove1 a (bss s)"] exI [of _ a2] exI [of _ b])
        (auto simp: has_key_def)
  qed
qed

text \<open>
  C17. A stored result can be found. When the table has room and memory is available, processing a
  result with an admitted BSSID and a usable SSID leaves exactly one entry for its (BSSID, SSID) pair:
  \<open>wpa_bss_get\<close> returns it, it is the most recently updated one, it carries the result's data and
  elements, and no other entry has changed.
\<close>

theorem wpa_bss_update_scan_res_stored:
  assumes inv: "bss_inv s" "keys_unique s" "res_wf r" and st: "storable r ssid" "filter_admits s (r_bssid r)"
    and mem: "bss_heap s a0 = None" "realloc_ok s r (Some a1)" "num_bss s < c_bss_max_count (conf s)"
  shows "\<exists>s' p b. wpa_bss_update_scan_res (Some a0) ok1 ok2 (Some a1) now s r = Some s' \<and>
    wpa_bss_get s' (r_bssid r) ssid (length ssid) = Some (Some p) \<and> last (bss s') = p \<and>
    bss_heap s' p = Some b \<and> ssid_of b = ssid \<and> reflects (bss_update_idx s) b r \<and>
    bss_inv s' \<and> keys_unique s' \<and>
    list_all (\<lambda>x. has_key s (r_bssid r) ssid x \<or> bss_heap s' x = bss_heap s x) (bss s)"
proof -
  have len: "length ssid \<le> 32" "length (r_bssid r) = 6"
    using st(1) inv(3) by (auto simp: storable_def res_wf_def)
  let ?k = "\<lambda>s a. (b_bssid (the (bss_heap s a)), ssid_of (the (bss_heap s a)))"
  obtain s' l p b where s': "wpa_bss_update_scan_res (Some a0) ok1 ok2 (Some a1) now s r = Some s'"
    "bss_inv s'" "bss s' = l @ [p]" "bss_heap s' p = Some b" "ssid_of b = ssid"
    "reflects (bss_update_idx s) b r" "set l \<subseteq> set (bss s)"
    "\<forall>a \<in> set l. bss_heap s' a = bss_heap s a \<and> \<not> has_key s (r_bssid r) ssid a"
    "\<forall>a \<in> set (bss s). a \<notin> set l \<longrightarrow> has_key s (r_bssid r) ssid a" "bssid_filter s' = bssid_filter s"
    using update_scan_res_stored [OF assms] by blast
  have p: "has_key s' (r_bssid r) ssid p" using s' by (simp add: has_key_def reflects_def)
  have l: "\<forall>a \<in> set l. \<not> has_key s' (r_bssid r) ssid a" using s'(8) by (simp add: has_key_def)
  have "wpa_bss_get s' (r_bssid r) ssid (length ssid) = Some (Some p)"
    using get_last_entry [OF s'(2) _ len(2,1) s'(3) p l] st(2) s'(10) by (simp add: filter_admits_def)
  moreover have "inj_on (?k s') (set l)"
    using inv(2) s'(7,8) by (auto simp: keys_unique_def inj_on_def)
  then have "keys_unique s'"
    using keys_unique_append [of "?k s'" l p] l p s'(3) by (auto simp: keys_unique_def has_key_def)
  moreover have "list_all (\<lambda>x. has_key s (r_bssid r) ssid x \<or> bss_heap s' x = bss_heap s x) (bss s)"
    using s'(8,9) by (auto simp: list_all_iff)
  ultimately show ?thesis using s' by (intro exI [of _ s'] exI [of _ p] exI [of _ b]) simp
qed


section \<open>Expiry\<close>

definition in_use :: "wpa_supplicant \<Rightarrow> ptr \<Rightarrow> bool" where
  "in_use s a \<longleftrightarrow> current_bss s = Some a \<or> b_bssid (the (bss_heap s a)) = cur_bssid s \<or>
     b_bssid (the (bss_heap s a)) = pending_bssid s"

lemma wpa_bss_in_use_spec:
  assumes "bss_inv s" "bss_heap s a = Some b"
  shows "wpa_bss_in_use s a b = Some (in_use s a)"
proof -
  have "length (b_bssid b) = 6" "length (cur_bssid s) = 6" "length (pending_bssid s) = 6"
    using assms by (auto simp: bss_inv_def bss_wf_def)
  then show ?thesis
    using assms(2) by (auto simp: wpa_bss_in_use_def in_use_def memeq_Some ETH_ALEN_def)
qed

lemma scanned_ssid_loop_total:
  "list_all (\<lambda>s. case sc_ssid s of None \<Rightarrow> True | Some d \<Rightarrow> sc_ssid_len s \<le> length d) ss \<Longrightarrow> bss_wf b \<Longrightarrow>
     \<exists>x. scanned_ssid_loop ss b = Some x"
  by (induction ss) (auto simp: bss_wf_def memeq_Some split: option.splits)

definition included :: "scan_info option \<Rightarrow> wpa_bss \<Rightarrow> bool" where
  "included info b = (wpa_bss_included_in_scan b info = Some True)"

lemma included_spec:
  "info_wf info \<Longrightarrow> bss_wf b \<Longrightarrow> wpa_bss_included_in_scan b info = Some (included info b)"
  using scanned_ssid_loop_total [of "si_ssids (the info)" b]
  by (auto simp: included_def wpa_bss_included_in_scan_def info_wf_def split: option.splits)

text \<open>The part of the state that the expiry loops read but do not change.\<close>

definition frame_of :: "wpa_supplicant \<Rightarrow> _" where
  "frame_of s = (current_bss s, cur_bssid s, pending_bssid s, conf s, bss_update_idx s, bssid_filter s)"

lemma frame_drop [simp]: "frame_of (drop_bss s a) = frame_of s"
  by (simp add: frame_of_def)

lemma frame_heap [simp]: "frame_of (s\<lparr>bss_heap := h\<rparr>) = frame_of s"
  by (simp add: frame_of_def)

lemma in_use_cong:
  "frame_of s' = frame_of s \<Longrightarrow> b_bssid (the (bss_heap s' a)) = b_bssid (the (bss_heap s a)) \<Longrightarrow>
     in_use s' a = in_use s a"
  by (simp add: in_use_def frame_of_def)

lemma bss_inv_heap_upd:
  "bss_inv s \<Longrightarrow> bss_heap s a \<noteq> None \<Longrightarrow> bss_wf b \<Longrightarrow> bss_inv (s\<lparr>bss_heap := (bss_heap s)(a \<mapsto> b)\<rparr>)"
  by (auto simp: bss_inv_def insert_absorb)

lemma filter_remove1:
  "distinct xs \<Longrightarrow> filter P (remove1 a xs) = filter (\<lambda>x. x \<noteq> a \<and> P x) xs"
  by (induction xs) (auto intro: filter_cong)

lemma distinct_frame_eq:
  "frame_of s' = frame_of s \<Longrightarrow> current_bss s' = current_bss s" by (simp add: frame_of_def)

subsection \<open>Flush\<close>

lemma flush_loop_spec:
  assumes "bss_inv s" "distinct as" "set as \<subseteq> set (bss s)"
  shows "\<exists>s'. flush_loop s as = Some s' \<and> bss_inv s' \<and> frame_of s' = frame_of s \<and>
    bss s' = filter (\<lambda>a. a \<notin> set as \<or> in_use s a) (bss s) \<and>
    bss_heap s' = (bss_heap s) |` set (bss s')"
  using assms
proof (induction as arbitrary: s)
  case Nil
  have "bss_heap s |` set (bss s) = bss_heap s"
    using Nil(1) by (auto simp: restrict_map_def bss_inv_def dom_def fun_eq_iff)
  then show ?case using Nil by simp
next
  case (Cons a as)
  then have "a \<in> set (bss s)" by simp
  then obtain b where b: "bss_heap s a = Some b" "deref s a = Some b"
    using bss_inv_deref [OF Cons.prems(1)] by metis
  note u = wpa_bss_in_use_spec [OF Cons.prems(1) b(1)]
  have d: "distinct (bss s)" using Cons.prems(1) by (simp add: bss_inv_def)
  show ?case
  proof (cases "in_use s a")
    case True
    then have e: "flush_loop s (a # as) = flush_loop s as" using b u by simp
    have "filter (\<lambda>x. x \<notin> set as \<or> in_use s x) (bss s) =
        filter (\<lambda>x. x \<notin> set (a # as) \<or> in_use s x) (bss s)"
      using True by (auto intro: filter_cong)
    then show ?thesis using Cons.IH [OF Cons.prems(1)] Cons.prems e by auto
  next
    case False
    let ?s = "drop_bss s a"
    have a: "a \<in> set (bss s)" using Cons.prems(3) by simp
    have e: "flush_loop s (a # as) = flush_loop ?s as"
      using False b u wpa_bss_remove_spec(1) [OF Cons.prems(1) a] by simp
    have "set as \<subseteq> set (bss ?s)" "distinct as" using Cons.prems(2,3) d by auto
    then obtain s' where s': "flush_loop ?s as = Some s'" "bss_inv s'" "frame_of s' = frame_of s"
      "bss s' = filter (\<lambda>x. x \<notin> set as \<or> in_use ?s x) (remove1 a (bss s))"
      "bss_heap s' = bss_heap ?s |` set (bss s')"
      using Cons.IH [OF wpa_bss_remove_spec(2) [OF Cons.prems(1) a]]
      unfolding frame_drop drop_bss_sel(1) by blast
    have "(x \<noteq> a \<and> (x \<notin> set as \<or> in_use ?s x)) \<longleftrightarrow> (x \<notin> set (a # as) \<or> in_use s x)" for x
      using False in_use_cong [of ?s s x] by (cases "x = a") auto
    then have "bss s' = filter (\<lambda>x. x \<notin> set (a # as) \<or> in_use s x) (bss s)"
      unfolding s'(4) filter_remove1 [OF d] by simp
    moreover have "a \<notin> set (bss s')" using s'(4) d by simp
    then have "bss_heap s' = bss_heap s |` set (bss s')"
      unfolding s'(5) by (auto simp: restrict_map_def fun_eq_iff)
    ultimately show ?thesis using e s' by auto
  qed
qed

text \<open>
  Flushing the table removes exactly the entries that are not in use (not the current BSS, not the
  BSSID associated with or being associated with), keeps the others unchanged and in order, and never
  leaves \<open>current_bss\<close> pointing to a freed entry.
\<close>

lemma wpa_bss_flush_keeps_in_use:
  assumes "bss_inv s"
  shows "\<exists>s'. wpa_bss_flush s = Some s' \<and> bss_inv s' \<and> bss s' = filter (in_use s) (bss s) \<and>
    list_all (\<lambda>a. bss_heap s' a = bss_heap s a) (bss s') \<and> current_bss s' = current_bss s \<and>
    (case current_bss s of None \<Rightarrow> True | Some a \<Rightarrow> (bss_heap s' a = None) = (bss_heap s a = None))"
proof -
  have d: "distinct (bss s)" "set (bss s) = dom (bss_heap s)" using assms by (auto simp: bss_inv_def)
  from flush_loop_spec [OF assms d(1) subset_refl] obtain s' where
    s': "wpa_bss_flush s = Some s'" "bss_inv s'" "frame_of s' = frame_of s"
    "bss s' = filter (\<lambda>a. a \<notin> set (bss s) \<or> in_use s a) (bss s)" "bss_heap s' = bss_heap s |` set (bss s')"
    by (auto simp: wpa_bss_flush_def)
  have "bss s' = filter (in_use s) (bss s)" unfolding s'(4) by (rule filter_cong) auto
  then show ?thesis
    using s' d distinct_frame_eq [OF s'(3)]
    by (auto simp: list_all_iff in_use_def restrict_map_def split: option.split)
qed

subsection \<open>Entries missed by scans\<close>

definition aged :: "wpa_supplicant \<Rightarrow> scan_info option \<Rightarrow> ptr \<Rightarrow> wpa_bss" where
  "aged s info a = (let b = the (bss_heap s a) in
     if \<not> in_use s a \<and> included info b \<and> b_last_update_idx b < bss_update_idx s
     then b\<lparr>b_scan_miss_count := b_scan_miss_count b + 1\<rparr> else b)"

definition expires :: "wpa_supplicant \<Rightarrow> scan_info option \<Rightarrow> ptr \<Rightarrow> bool" where
  "expires s info a \<longleftrightarrow> \<not> in_use s a \<and> included info (the (bss_heap s a)) \<and>
     c_bss_expiration_scan_count (conf s) \<le> b_scan_miss_count (aged s info a)"

lemma expires_cong:
  assumes "frame_of s' = frame_of s" "bss_heap s' a = bss_heap s a"
  shows "expires s' info a = expires s info a" "aged s' info a = aged s info a"
  using assms in_use_cong [OF assms(1), of a]
  by (simp_all add: expires_def aged_def frame_of_def Let_def)

lemma aged_wf: "bss_inv s \<Longrightarrow> bss_heap s a = Some b \<Longrightarrow> bss_wf (aged s info a)"
  by (auto simp: aged_def bss_inv_def bss_wf_def Let_def)

lemma update_end_step:
  assumes inv: "bss_inv s" and a: "a \<in> set (bss s)" and info: "info_wf info"
  defines "s1 \<equiv> s\<lparr>bss_heap := (bss_heap s)(a \<mapsto> aged s info a)\<rparr>"
  shows "bss_inv s1"
    and "update_end_loop info s (a # as) =
      update_end_loop info (if expires s info a then drop_bss s1 a else s1) as"
proof -
  obtain b where b: "bss_heap s a = Some b" "deref s a = Some b" "bss_wf b"
    using bss_inv_deref [OF inv a] .
  show inv1: "bss_inv s1"
    using bss_inv_heap_upd [OF inv] aged_wf [OF inv b(1)] b(1) by (simp add: s1_def)
  note u = wpa_bss_in_use_spec [OF inv b(1)]
  have i: "wpa_bss_included_in_scan b info = Some (included info b)"
    using included_spec [OF info b(3)] .
  have rm: "wpa_bss_remove s1 a = Some (drop_bss s1 a)"
    by (rule wpa_bss_remove_spec(1) [OF inv1]) (use a in \<open>simp add: s1_def\<close>)
  show "update_end_loop info s (a # as) =
      update_end_loop info (if expires s info a then drop_bss s1 a else s1) as"
  proof (cases "\<not> in_use s a \<and> included info b")
    case False
    then have "aged s info a = b" "\<not> expires s info a" using b(1) by (auto simp: aged_def expires_def)
    moreover have "s1 = s" using calculation(1) b(1) by (simp add: s1_def fun_upd_idem)
    ultimately show ?thesis using False b u i by auto
  next
    case True
    define b1 where "b1 = (if b_last_update_idx b < bss_update_idx s
      then b\<lparr>b_scan_miss_count := b_scan_miss_count b + 1\<rparr> else b)"
    have ag: "aged s info a = b1" using True b(1) by (simp add: aged_def b1_def)
    have ex: "expires s info a = (c_bss_expiration_scan_count (conf s) \<le> b_scan_miss_count b1)"
      using True b(1) ag by (simp add: expires_def)
    have "update_end_loop info s (a # as) =
        (if c_bss_expiration_scan_count (conf s) \<le> b_scan_miss_count b1
         then do { s \<leftarrow> wpa_bss_remove s1 a; update_end_loop info s as }
         else update_end_loop info s1 as)"
      using True b u i by (simp add: s1_def ag Let_def flip: b1_def)
    then show ?thesis using rm ex by simp
  qed
qed

lemma update_end_loop_spec:
  assumes "bss_inv s" "distinct as" "set as \<subseteq> set (bss s)" "info_wf info"
  shows "\<exists>s'. update_end_loop info s as = Some s' \<and> bss_inv s' \<and> frame_of s' = frame_of s \<and>
    bss s' = filter (\<lambda>a. a \<notin> set as \<or> \<not> expires s info a) (bss s) \<and>
    (\<forall>a \<in> set (bss s'). bss_heap s' a = Some (if a \<in> set as then aged s info a else the (bss_heap s a)))"
  using assms
proof (induction as arbitrary: s)
  case Nil
  then show ?case by (auto simp: bss_inv_def)
next
  case (Cons a as)
  let ?s1 = "s\<lparr>bss_heap := (bss_heap s)(a \<mapsto> aged s info a)\<rparr>"
  let ?s2 = "if expires s info a then drop_bss ?s1 a else ?s1"
  have a: "a \<in> set (bss s)" using Cons.prems(3) by simp
  note step = update_end_step [OF Cons.prems(1) a Cons.prems(4)]
  have inv2: "bss_inv ?s2"
    using step(1) wpa_bss_remove_spec(2) [OF step(1), of a] a by simp
  have d: "distinct (bss s)" using Cons.prems(1) by (simp add: bss_inv_def)
  have sub: "distinct as" "set as \<subseteq> set (bss ?s2)" using Cons.prems(2,3) d by auto
  have fr: "frame_of ?s2 = frame_of s" by simp
  from Cons.IH [OF inv2 sub Cons.prems(4)] obtain s' where s': "update_end_loop info ?s2 as = Some s'"
    "bss_inv s'" "frame_of s' = frame_of ?s2"
    "bss s' = filter (\<lambda>x. x \<notin> set as \<or> \<not> expires ?s2 info x) (bss ?s2)"
    "\<forall>x \<in> set (bss s'). bss_heap s' x =
        Some (if x \<in> set as then aged ?s2 info x else the (bss_heap ?s2 x))"
    by blast
  have c: "expires ?s2 info x = expires s info x" "aged ?s2 info x = aged s info x"
    "bss_heap ?s2 x = bss_heap s x" if "x \<noteq> a" for x
    using that expires_cong [OF fr, of x] by auto
  have "bss s' = filter (\<lambda>x. x \<notin> set (a # as) \<or> \<not> expires s info x) (bss s)"
  proof (cases "expires s info a")
    case True
    then have "bss s' = filter (\<lambda>x. x \<noteq> a \<and> (x \<notin> set as \<or> \<not> expires ?s2 info x)) (bss s)"
      using s'(4) by (simp add: filter_remove1 [OF d])
    moreover have "(x \<noteq> a \<and> (x \<notin> set as \<or> \<not> expires ?s2 info x)) \<longleftrightarrow>
        (x \<notin> set (a # as) \<or> \<not> expires s info x)" for x
      using True c(1) [of x] by (cases "x = a") auto
    ultimately show ?thesis by simp
  next
    case False
    have "a \<notin> set as" using Cons.prems(2) by simp
    then have "(x \<notin> set as \<or> \<not> expires ?s2 info x) \<longleftrightarrow>
        (x \<notin> set (a # as) \<or> \<not> expires s info x)" for x
      using False c(1) [of x] by (cases "x = a") auto
    then show ?thesis using s'(4) False by simp
  qed
  moreover have "\<forall>x \<in> set (bss s'). bss_heap s' x =
      Some (if x \<in> set (a # as) then aged s info x else the (bss_heap s x))"
  proof
    fix x assume x: "x \<in> set (bss s')"
    show "bss_heap s' x = Some (if x \<in> set (a # as) then aged s info x else the (bss_heap s x))"
    proof (cases "x = a")
      case True
      then have "\<not> expires s info a" using x calculation by auto
      moreover have "a \<notin> set as" using Cons.prems(2) by simp
      ultimately show ?thesis using True s'(5) x by auto
    qed (use s'(5) x c in auto)
  qed
  ultimately show ?case using step(2) s'(1-3) fr by (intro exI [of _ s']) simp
qed

text \<open>
  C30. The end of a scan. \<open>wpa_bss_update_end\<close> expires exactly the entries that are not in use, were
  covered by the scan (frequency and SSID) and have been missed by at least
  \<open>bss_expiration_scan_count\<close> scans counting this one. Entries in use or outside the scan keep their
  miss counter, the others are counted; nothing else in the table changes, and without a new scan
  nothing happens.
\<close>

theorem wpa_bss_update_end_expires:
  assumes "bss_inv s" "info_wf info"
  shows "\<exists>s'. wpa_bss_update_end s info True = Some s' \<and> bss_inv s' \<and>
      bss s' = filter (\<lambda>a. \<not> expires s info a) (bss s) \<and>
      list_all (\<lambda>a. bss_heap s' a = Some (aged s info a)) (bss s') \<and>
      list_all (\<lambda>a. in_use s a = (a \<in> set (bss s') \<and> in_use s' a)) (filter (in_use s) (bss s)) \<and>
      wpa_bss_update_end s info False = Some s"
proof -
  have d: "distinct (bss s)" using assms by (simp add: bss_inv_def)
  from update_end_loop_spec [OF assms(1) d subset_refl assms(2)] obtain s' where
    s': "wpa_bss_update_end s info True = Some s'" "bss_inv s'" "frame_of s' = frame_of s"
    "bss s' = filter (\<lambda>a. a \<notin> set (bss s) \<or> \<not> expires s info a) (bss s)"
    "\<forall>a \<in> set (bss s'). bss_heap s' a =
        Some (if a \<in> set (bss s) then aged s info a else the (bss_heap s a))"
    by (auto simp: wpa_bss_update_end_def)
  have f: "bss s' = filter (\<lambda>a. \<not> expires s info a) (bss s)" unfolding s'(4) by (rule filter_cong) auto
  have k: "in_use s' a" "a \<in> set (bss s')" if "in_use s a" "a \<in> set (bss s)" for a
  proof -
    show "a \<in> set (bss s')" using that f by (simp add: expires_def)
    then have "bss_heap s' a = Some (aged s info a)" using s'(5) that by simp
    then show "in_use s' a"
      using in_use_cong [OF s'(3), of a] that by (simp add: aged_def Let_def)
  qed
  show ?thesis
    using s'(1,2,5) f k by (auto simp: list_all_iff wpa_bss_update_end_def)
qed


subsection \<open>Old entries\<close>

fun age_out :: "wpa_supplicant \<Rightarrow> os_time \<Rightarrow> ptr list \<Rightarrow> ptr list" where
  "age_out s t [] = []"
| "age_out s t (a # as) =
     (if in_use s a then age_out s t as
      else if os_time_before (b_last_update (the (bss_heap s a))) t then a # age_out s t as
      else [])"

lemma age_out_sub: "set (age_out s t as) \<subseteq> set as"
  by (induction as) auto

lemma age_out_old:
  "x \<in> set (age_out s t as) \<Longrightarrow> \<not> in_use s x \<and> os_time_before (b_last_update (the (bss_heap s x))) t"
  by (induction as) (auto split: if_splits)

lemma age_out_cong:
  assumes "frame_of s' = frame_of s" "\<forall>x \<in> set as. bss_heap s' x = bss_heap s x"
  shows "age_out s' t as = age_out s t as"
  using assms(2)
proof (induction as)
  case (Cons a as)
  then show ?case using in_use_cong [OF assms(1), of a] by simp
qed simp

lemma flush_by_age_loop_spec:
  assumes "bss_inv s" "distinct as" "set as \<subseteq> set (bss s)"
  shows "\<exists>s'. flush_by_age_loop t s as = Some s' \<and> bss_inv s' \<and> frame_of s' = frame_of s \<and>
    eloop s' = eloop s \<and> wpa_s_ptr s' = wpa_s_ptr s \<and>
    bss s' = filter (\<lambda>a. a \<notin> set (age_out s t as)) (bss s) \<and>
    (\<forall>a \<in> set (bss s'). bss_heap s' a = bss_heap s a)"
  using assms
proof (induction as arbitrary: s)
  case (Cons a as)
  have a: "a \<in> set (bss s)" using Cons.prems(3) by simp
  obtain b where b: "bss_heap s a = Some b" "deref s a = Some b"
    using bss_inv_deref [OF Cons.prems(1) a] by metis
  note u = wpa_bss_in_use_spec [OF Cons.prems(1) b(1)]
  have d: "distinct (bss s)" using Cons.prems(1) by (simp add: bss_inv_def)
  consider "in_use s a" | "\<not> in_use s a" "\<not> os_time_before (b_last_update b) t"
    | (old) "\<not> in_use s a" "os_time_before (b_last_update b) t" by blast
  then show ?case
  proof cases
    case old
    let ?s = "drop_bss s a"
    have e: "flush_by_age_loop t s (a # as) = flush_by_age_loop t ?s as"
      using old b u wpa_bss_remove_spec(1) [OF Cons.prems(1) a] by simp
    have sub: "set as \<subseteq> set (bss ?s)" "distinct as" using Cons.prems(2,3) d by auto
    have c: "age_out ?s t as = age_out s t as"
      by (rule age_out_cong) (use Cons.prems(2) in auto)
    from Cons.IH [OF wpa_bss_remove_spec(2) [OF Cons.prems(1) a] sub(2,1)]
    obtain s' where s': "flush_by_age_loop t ?s as = Some s'" "bss_inv s'" "frame_of s' = frame_of s"
      "eloop s' = eloop ?s" "wpa_s_ptr s' = wpa_s_ptr ?s"
      "bss s' = filter (\<lambda>x. x \<notin> set (age_out s t as)) (remove1 a (bss s))"
      "\<forall>x \<in> set (bss s'). bss_heap s' x = bss_heap ?s x"
      unfolding frame_drop drop_bss_sel(1) c by blast
    have "bss s' = filter (\<lambda>x. x \<notin> set (age_out s t (a # as))) (bss s)"
      unfolding s'(6) filter_remove1 [OF d] using old b by simp
    moreover have "a \<notin> set (bss s')" using s'(6) d by simp
    ultimately show ?thesis
      using e s' by (intro exI [of _ s']) (auto simp: drop_bss_def)
  qed (use Cons b u in auto)
qed simp

lemma register_timer_sel [simp]:
  "bss (register_timer ok gt x y h d u s) = bss s" "bss_heap (register_timer ok gt x y h d u s) = bss_heap s"
  "current_bss (register_timer ok gt x y h d u s) = current_bss s"
  "bss_inv (register_timer ok gt x y h d u s) = bss_inv s"
  by (simp_all add: register_timer_def bss_inv_def)

lemma age_out_first_kept:
  "a \<in> set as \<Longrightarrow> \<not> in_use s a \<Longrightarrow> a \<notin> set (age_out s t as) \<Longrightarrow>
     \<exists>x \<in> set as. \<not> in_use s x \<and> \<not> os_time_before (b_last_update (the (bss_heap s x))) t"
  by (induction as) (auto split: if_splits)

text \<open>
  The periodic expiry run. \<open>wpa_bss_timeout\<close> removes only entries that are not in use and older
  than \<open>bss_expiration_age\<close> seconds, leaves every other entry as it was, keeps the table consistent and
  \<open>current_bss\<close> valid, and registers itself again ten seconds later behind all timeouts that are due
  before. If no entry outside use is young enough to stop the run, every unused entry is removed.
\<close>

lemma wpa_bss_timeout_expires:
  fixes now :: os_time
  assumes "bss_inv s" "time_ok now2"
  defines "t \<equiv> now\<lparr>t_sec := wrap64 (t_sec now - c_bss_expiration_age (conf s))\<rparr>"
  shows "\<exists>s' gone. wpa_bss_timeout now True (Some now2) s = Some s' \<and> bss_inv s' \<and>
    bss s' = filter (\<lambda>a. a \<notin> set gone) (bss s) \<and>
    list_all (\<lambda>a. \<not> in_use s a \<and> os_time_before (b_last_update (the (bss_heap s a))) t) gone \<and>
    list_all (\<lambda>a. bss_heap s' a = bss_heap s a) (bss s') \<and> current_bss s' = current_bss s \<and>
    (list_all (\<lambda>a. in_use s a \<or> os_time_before (b_last_update (the (bss_heap s a))) t) (bss s) \<longrightarrow>
       list_all (in_use s) (bss s')) \<and>
    eloop_is_timeout_registered H_wpa_bss_timeout (wpa_s_ptr s) 0 (eloop s')"
proof -
  let ?gone = "age_out s t (bss s)"
  have d: "distinct (bss s)" using assms by (simp add: bss_inv_def)
  have "\<exists>s1. wpa_bss_flush_by_age now s (c_bss_expiration_age (conf s)) = Some s1 \<and> bss_inv s1 \<and>
    frame_of s1 = frame_of s \<and> eloop s1 = eloop s \<and> wpa_s_ptr s1 = wpa_s_ptr s \<and>
    bss s1 = filter (\<lambda>a. a \<notin> set ?gone) (bss s) \<and> (\<forall>a \<in> set (bss s1). bss_heap s1 a = bss_heap s a)"
    using flush_by_age_loop_spec [OF assms(1) d subset_refl, of t] assms(1)
    by (auto simp: wpa_bss_flush_by_age_def t_def)
  then obtain s1 where s1: "wpa_bss_flush_by_age now s (c_bss_expiration_age (conf s)) = Some s1"
    "bss_inv s1" "frame_of s1 = frame_of s" "eloop s1 = eloop s" "wpa_s_ptr s1 = wpa_s_ptr s"
    "bss s1 = filter (\<lambda>a. a \<notin> set ?gone) (bss s)" "\<forall>a \<in> set (bss s1). bss_heap s1 a = bss_heap s a"
    by blast
  let ?s' = "register_timer True (Some now2) WPA_BSS_EXPIRATION_PERIOD 0 H_wpa_bss_timeout (wpa_s_ptr s) 0 s1"
  have e: "wpa_bss_timeout now True (Some now2) s = Some ?s'"
    using s1(1,5) by (simp add: wpa_bss_timeout_def)
  have "0 \<le> t_sec now2" "t_sec now2 + 10 < 2 ^ 63" using assms(2) by (simp_all add: time_ok_def)
  then have "wrap64 (t_sec now2 + uint (10 :: u32)) = t_sec now2 + 10"
    by (subst wrap64_nonneg) simp_all
  then have "eloop_is_timeout_registered H_wpa_bss_timeout (wpa_s_ptr s) 0 (eloop ?s')"
    by (simp add: register_timer_def eloop_register_timeout_def eloop_is_timeout_registered_def
        list_ex_iff tq.set_ins Let_def)
  moreover have "list_all (\<lambda>a. in_use s a \<or> os_time_before (b_last_update (the (bss_heap s a))) t) (bss s) \<longrightarrow>
       list_all (in_use s) (bss ?s')"
    using s1(6) age_out_first_kept [of _ "bss s" s t] by (auto simp: list_all_iff)
  moreover have "list_all (\<lambda>a. \<not> in_use s a \<and> os_time_before (b_last_update (the (bss_heap s a))) t) ?gone"
    using age_out_old by (auto simp: list_all_iff)
  ultimately show ?thesis
    using e s1 by (intro exI [of _ ?s'] exI [of _ ?gone]) (simp add: frame_of_def list_all_iff)
qed

section \<open>Examples\<close>

definition zero_conf :: wpa_config where
  "zero_conf = \<lparr>c_ssid = [], c_ap_scan = 1, c_bss_max_count = 200, c_bss_expiration_age = 180,
     c_bss_expiration_scan_count = 2, c_home_realm = None, c_home_username = None,
     c_home_password = None, c_home_imsi = None, c_home_milenage = None,
     c_home_ca_cert = None, c_pssid = []\<rparr>"

definition zero_state :: wpa_supplicant where
  "zero_state = \<lparr>wpa_s_ptr = 1, conf = zero_conf, own_addr = replicate 6 0, bss_heap = Map.empty, bss = [],
     bss_id = [], num_bss = 0, bss_update_idx = 0, bss_next_id = 0, current_bss = None,
     cur_bssid = replicate 6 0, pending_bssid = replicate 6 0, bssid_filter = None, assoc_freq = 0,
     disconnected = False, reassociate = False, scan_req = 0, scan_res_handler = None,
     fetch_anqp_in_progress = False, network_select = False, auto_select = False, gas = None, arb = None,
     eloop = eloop_init, note_log = [], messages = [], tx_log = []\<rparr>"

definition demo_res :: wpa_scan_res where
  "demo_res = \<lparr>r_flags = 0, r_bssid = [2, 0, 0, 0, 0, 7], r_freq = 2412, r_beacon_int = 100, r_caps = 1,
     r_qual = 0, r_noise = 0, r_level = -40, r_tsf = 5, r_age = 1500, r_ie_len = 4, r_beacon_ie_len = 0,
     r_ies = [0, 2, 72, 105]\<rparr>"

text \<open>A table with one entry, at address 100.\<close>

definition one_state :: wpa_supplicant where
  "one_state = zero_state\<lparr>bss_heap := [100 \<mapsto> zero_bss\<lparr>b_bssid := [2, 0, 0, 0, 0, 9]\<rparr>],
     bss := [100], bss_id := [100], num_bss := 1\<rparr>"

lemma demo_wf:
  "bss_inv zero_state" "keys_unique zero_state" "res_wf demo_res" "storable demo_res [72, 105]"
  "filter_admits zero_state (r_bssid demo_res)" "bss_heap zero_state a = None"
  "realloc_ok zero_state demo_res (Some a)" "num_bss zero_state < c_bss_max_count (conf zero_state)"
  "alloc_ok zero_state (Some a)" "bss_inv one_state"
  by (simp_all add: bss_inv_def zero_state_def zero_conf_def conf_wf_def keys_unique_def res_wf_def
      demo_res_def storable_def res_ssid_def P2P_WILDCARD_SSID_def lit_def filter_admits_def
      realloc_ok_def alloc_ok_def one_state_def bss_wf_def zero_bss_def)

lemma wpa_bss_update_scan_res_inv_witness:
  "\<exists>s'. wpa_bss_update_scan_res (Some 5) True True None \<lparr>t_sec = 9, t_usec = 0\<rparr> zero_state demo_res = Some s' \<and>
     bss_inv s' \<and> num_bss s' \<le> 200"
  using wpa_bss_update_scan_res_inv [OF demo_wf(1,3,9), of None] by (simp add: realloc_ok_def zero_state_def zero_conf_def)

lemma wpa_bss_update_scan_res_stored_witness:
  "\<exists>s' p b. wpa_bss_update_scan_res (Some 5) True True (Some 6) \<lparr>t_sec = 9, t_usec = 0\<rparr> zero_state demo_res
       = Some s' \<and>
     wpa_bss_get s' [2, 0, 0, 0, 0, 7] [72, 105] 2 = Some (Some p) \<and> bss_heap s' p = Some b \<and> b_level b = -40"
  using wpa_bss_update_scan_res_stored [OF demo_wf(1-6,7,8), where now = "\<lparr>t_sec = 9, t_usec = 0\<rparr>"
      and ?a0.0 = 5 and ?a1.0 = 6 and ?ok1.0 = True and ?ok2.0 = True]
  by (force simp: reflects_def demo_res_def numeral_2_eq_2)

lemma wpa_bss_update_end_expires_witness:
  "\<exists>s'. wpa_bss_update_end one_state None True = Some s' \<and> bss_inv s' \<and>
     bss s' = filter (\<lambda>a. \<not> expires one_state None a) [100] \<and> \<not> expires one_state None 100"
proof -
  have "info_wf None" by (simp add: info_wf_def)
  moreover have "\<not> expires one_state None 100"
    by (simp add: expires_def aged_def one_state_def zero_state_def zero_conf_def zero_bss_def)
  moreover have "bss one_state = [100]" by (simp add: one_state_def)
  ultimately show ?thesis
    using wpa_bss_update_end_expires [OF demo_wf(10), of None] by auto
qed

lemma victim_first:
  assumes "bss s = us @ a # vs" "list_all (known s) us" "\<not> known s a"
  shows "victim s = a"
proof -
  have "find (\<lambda>a. \<not> known s a) us = None" using assms(2) by (auto simp: find_None_iff list_all_iff)
  then have "find (\<lambda>a. \<not> known s a) (us @ a # vs) = Some a"
    using assms(3) by (induction us) (auto split: if_splits)
  then show ?thesis using assms(1) by (simp add: victim_def)
qed

text \<open>
  C31. Eviction does not look at use. Take any consistent table that is full, and let the oldest entry whose SSID is not
  configured be the one \<open>current_bss\<close> points to (a station that is connected through a network block without SSID, or
  whose block was removed, has such an entry). A scan result of a new access point then frees this entry, although
  \<open>wpa_bss_in_use\<close> holds for it; the other entries stay and the new one is appended, and \<open>current_bss\<close> keeps the address
  of the freed entry.
\<close>

theorem wpa_bss_add_evicts_current:
  assumes "bss_inv s" "res_wf r" "storable r ssid" "target s r ssid = None" "bss_heap s p = None"
    and full: "c_bss_max_count (conf s) \<le> num_bss s"
    and oldest: "bss s = us @ a # vs" "list_all (known s) us" "\<not> known s a" "current_bss s = Some a"
  shows "wpa_bss_in_use s a (the (bss_heap s a)) = Some True \<and>
    (\<exists>s'. wpa_bss_update_scan_res (Some p) ok1 ok2 realloc now s r = Some s' \<and>
       bss_heap s' a = None \<and> current_bss s' = Some a \<and> bss s' = us @ vs @ [p])"
proof
  have d: "distinct (bss s)" "set (bss s) = dom (bss_heap s)" using assms(1) by (auto simp: bss_inv_def)
  then obtain b where b: "bss_heap s a = Some b" using oldest(1) by (metis domD in_set_conv_decomp)
  show "wpa_bss_in_use s a (the (bss_heap s a)) = Some True"
    using wpa_bss_in_use_spec [OF assms(1) b] oldest(4) b by (simp add: in_use_def)
  obtain m where m: "length ssid \<le> length m"
    "wpa_bss_update_scan_res (Some p) ok1 ok2 realloc now s r = wpa_bss_add (Some p) now s m (length ssid) r"
    using scan_res_cases(2) [OF assms(1-3), of "Some p" ok1 ok2 realloc now] assms(4) by auto
  have l: "length ssid \<le> 32" using assms(3) by (simp add: storable_def)
  obtain s1 e where s1: "wpa_bss_add (Some p) now s m (length ssid) r = wpa_bss_remove_oldest s1" "bss_inv s1"
    "bss s1 = bss s @ [p]" "bss_heap s1 = (bss_heap s)(p \<mapsto> e)" "conf s1 = conf s" "current_bss s1 = current_bss s"
    using wpa_bss_add_spec [OF assms(1,2) l m(1), of p now] assms(5) full by auto
  have k: "known s1 x = known s x" if "x \<in> set (bss s)" for x
    using that d(2) assms(5) s1(4,5) by (auto simp: known_def wpa_bss_known_def)
  have v: "victim s1 = a"
    by (rule victim_first [of s1 us a "vs @ [p]"]) (use s1(3) oldest k in \<open>auto simp: list_all_iff\<close>)
  have "a \<notin> set us" using d(1) oldest(1) by simp
  then have "bss (drop_bss s1 a) = us @ vs @ [p]" using s1(3) oldest(1) by (simp add: remove1_append)
  moreover have "wpa_bss_remove_oldest s1 = Some (drop_bss s1 a)"
    using wpa_bss_remove_oldest_spec [OF s1(2)] s1(3) v by simp
  ultimately show "\<exists>s'. wpa_bss_update_scan_res (Some p) ok1 ok2 realloc now s r = Some s' \<and>
       bss_heap s' a = None \<and> current_bss s' = Some a \<and> bss s' = us @ vs @ [p]"
    using m(2) s1(1,6) oldest(4) by (simp add: drop_bss_def)
qed

text \<open>A full table of one entry, which the station is connected to; no network is configured with an SSID.\<close>

definition full_state :: wpa_supplicant where
  "full_state = one_state\<lparr>conf := zero_conf\<lparr>c_bss_max_count := 1\<rparr>, current_bss := Some 100\<rparr>"

lemma wpa_bss_add_evicts_current_witness:
  "\<exists>s'. wpa_bss_update_scan_res (Some 5) True True None \<lparr>t_sec = 9, t_usec = 0\<rparr> full_state demo_res = Some s' \<and>
     bss s' = [5] \<and> current_bss s' = Some 100 \<and> bss_heap s' 100 = None"
proof -
  have inv: "bss_inv full_state" "target full_state demo_res [72, 105] = None" "bss_heap full_state 5 = None"
    "c_bss_max_count (conf full_state) \<le> num_bss full_state" "bss full_state = [] @ 100 # []" "list_all (known full_state) []"
    "\<not> known full_state 100" "current_bss full_state = Some 100"
    by (simp_all add: full_state_def bss_inv_def zero_state_def zero_conf_def conf_wf_def one_state_def bss_wf_def zero_bss_def
        target_def has_key_def demo_res_def known_def wpa_bss_known_def)
  show ?thesis
    using wpa_bss_add_evicts_current [OF inv(1) demo_wf(3,4) inv(2-8), of True True None "\<lparr>t_sec = 9, t_usec = 0\<rparr>"] by auto
qed

end
