(* ===== verification/Gas_Query.thy ===== *)
theory Gas_Query
  imports Gas Bss
begin

text \<open>
  The GAS query layer, src/wpa_supplicant/gas_query.c: queries to access points that wait for an initial
  response, then possibly for a sequence of comeback responses whose fragments are reassembled.

  A pending query is an object of \<open>gas_heap\<close>; the list \<open>gas_pending\<close> and the contexts of its two timeouts
  hold its address. The response callback is the parameter \<open>cbf\<close>: the callers pass one of the two
  functions named by \<open>gas_cb\<close>, and the theory of Interworking instantiates it. A query is taken off the
  list before its callback runs and freed after it, as in the code.

  \<open>offchannel_send_action\<close> hands frames to the driver; its verdict is an argument and the frames it
  accepted are appended to \<open>tx_log\<close>. The off-channel bookkeeping (offchannel.c) is not part of the state.
  The outcomes of the allocations and of the clock are collected in \<open>gas_env\<close>.
\<close>

section \<open>Operations\<close>

type_synonym cb_fun =
  "gas_cb \<Rightarrow> bytes \<Rightarrow> u8 \<Rightarrow> gas_query_result \<Rightarrow> wpabuf option \<Rightarrow> wpabuf option \<Rightarrow> u16 \<Rightarrow>
     wpa_supplicant \<Rightarrow> wpa_supplicant option"

record gas_env =
  ge_alloc_adv :: bool
  ge_resize :: bool
  ge_alloc_req :: bool
  ge_tx :: int
  ge_timer_ok :: bool
  ge_time :: "os_time option"

abbreviation (input) GAS_QUERY_TIMEOUT_PERIOD :: u32 where "GAS_QUERY_TIMEOUT_PERIOD \<equiv> 5"

definition gas_query_init :: "ptr option \<Rightarrow> gas_query option" where
  "gas_query_init alloc = (case alloc of
     None \<Rightarrow> None
   | Some a \<Rightarrow> Some \<lparr>gas_ptr = a, gas_pending = [], gas_heap = Map.empty\<rparr>)"

definition get_query :: "wpa_supplicant \<Rightarrow> ptr \<Rightarrow> gas_query_pending option" where
  "get_query wpa_s q = do { g \<leftarrow> gas wpa_s; gas_heap g q }"

definition set_query :: "ptr \<Rightarrow> gas_query_pending option \<Rightarrow> wpa_supplicant \<Rightarrow> wpa_supplicant" where
  "set_query q v wpa_s =
     wpa_s\<lparr>gas := map_option (\<lambda>g. g\<lparr>gas_heap := (gas_heap g)(q := v)\<rparr>) (gas wpa_s)\<rparr>"

definition gas_query_done ::
  "cb_fun \<Rightarrow> wpa_supplicant \<Rightarrow> ptr \<Rightarrow> gas_query_result \<Rightarrow> wpa_supplicant option" where
  "gas_query_done cbf wpa_s q result = do {
     g \<leftarrow> gas wpa_s;
     query \<leftarrow> gas_heap g q;
     let wpa_s = cancel_timer H_gas_query_tx_comeback_timeout (gas_ptr g) q wpa_s;
     let wpa_s = cancel_timer H_gas_query_timeout (gas_ptr g) q wpa_s;
     if q \<notin> set (gas_pending g) then None
     else do {
       let wpa_s = wpa_s\<lparr>gas := Some (g\<lparr>gas_pending := remove1 q (gas_pending g)\<rparr>)\<rparr>;
       wpa_s \<leftarrow> cbf (q_cb query) (q_addr query) (q_dialog_token query) result
                  (q_adv_proto query) (q_resp query) (q_status_code query) wpa_s;
       _ \<leftarrow> get_query wpa_s q;
       Some (set_query q None wpa_s)
     }
   }"

fun deinit_loop :: "cb_fun \<Rightarrow> wpa_supplicant \<Rightarrow> ptr list \<Rightarrow> wpa_supplicant option" where
  "deinit_loop cbf wpa_s [] = Some wpa_s"
| "deinit_loop cbf wpa_s (q # qs) = do {
     wpa_s \<leftarrow> gas_query_done cbf wpa_s q GAS_QUERY_DELETED_AT_DEINIT;
     deinit_loop cbf wpa_s qs }"

definition gas_query_deinit :: "cb_fun \<Rightarrow> wpa_supplicant \<Rightarrow> wpa_supplicant option" where
  "gas_query_deinit cbf wpa_s = (case gas wpa_s of
     None \<Rightarrow> Some wpa_s
   | Some g \<Rightarrow> do {
       wpa_s \<leftarrow> deinit_loop cbf wpa_s (gas_pending g);
       Some (wpa_s\<lparr>gas := None\<rparr>) })"

fun pending_find :: "gas_query \<Rightarrow> bytes \<Rightarrow> u8 \<Rightarrow> ptr list \<Rightarrow> ptr option option" where
  "pending_find g addr dialog_token [] = Some None"
| "pending_find g addr dialog_token (q # qs) = do {
     query \<leftarrow> gas_heap g q;
     e \<leftarrow> memeq (q_addr query) addr ETH_ALEN;
     if e \<and> q_dialog_token query = dialog_token then Some (Some q)
     else pending_find g addr dialog_token qs }"

definition gas_query_get_pending :: "gas_query \<Rightarrow> bytes \<Rightarrow> u8 \<Rightarrow> ptr option option" where
  "gas_query_get_pending g addr dialog_token = pending_find g addr dialog_token (gas_pending g)"

definition gas_query_append ::
  "bool \<Rightarrow> gas_query_pending \<Rightarrow> bytes \<Rightarrow> (int \<times> gas_query_pending) option" where
  "gas_query_append ok query data =
     (let (res, resp) = wpabuf_resize ok (q_resp query) (length data) in
      if res < 0 then Some (-1, query\<lparr>q_resp := resp\<rparr>)
      else do {
        buf \<leftarrow> resp;
        buf \<leftarrow> wpabuf_put_data buf (Some data);
        Some (0, query\<lparr>q_resp := Some buf\<rparr>) })"

definition gas_query_tx ::
  "int \<Rightarrow> wpa_supplicant \<Rightarrow> ptr \<Rightarrow> wpabuf \<Rightarrow> (int \<times> wpa_supplicant) option" where
  "gas_query_tx res wpa_s q req = do {
     query \<leftarrow> get_query wpa_s q;
     frame \<leftarrow> rd_bytes (wpabuf_head req) 0 (wpabuf_len req);
     if res = 0
     then Some (res, set_query q (Some (query\<lparr>q_offchannel_tx_started := True\<rparr>))
                  (wpa_s\<lparr>tx_log := tx_log wpa_s @ [(q_freq query, q_addr query, frame)]\<rparr>))
     else Some (res, wpa_s) }"

definition gas_query_tx_comeback_req ::
  "cb_fun \<Rightarrow> gas_env \<Rightarrow> wpa_supplicant \<Rightarrow> ptr \<Rightarrow> wpa_supplicant option" where
  "gas_query_tx_comeback_req cbf env wpa_s q = do {
     query \<leftarrow> get_query wpa_s q;
     req \<leftarrow> gas_build_comeback_req (ge_alloc_req env) (q_dialog_token query);
     (case req of
        None \<Rightarrow> gas_query_done cbf wpa_s q GAS_QUERY_INTERNAL_ERROR
      | Some buf \<Rightarrow> do {
          (res, wpa_s) \<leftarrow> gas_query_tx (ge_tx env) wpa_s q buf;
          if res < 0 then gas_query_done cbf wpa_s q GAS_QUERY_INTERNAL_ERROR
          else Some wpa_s })
   }"

definition gas_query_tx_comeback_timeout ::
  "cb_fun \<Rightarrow> gas_env \<Rightarrow> wpa_supplicant \<Rightarrow> ptr \<Rightarrow> wpa_supplicant option" where
  "gas_query_tx_comeback_timeout cbf env wpa_s q = gas_query_tx_comeback_req cbf env wpa_s q"

definition gas_query_tx_comeback_req_delay ::
  "gas_env \<Rightarrow> wpa_supplicant \<Rightarrow> ptr \<Rightarrow> u16 \<Rightarrow> wpa_supplicant option" where
  "gas_query_tx_comeback_req_delay env wpa_s q comeback_delay = do {
     g \<leftarrow> gas wpa_s;
     let secs = (ucast comeback_delay * 1024) div (1000000 :: u32);
     let usecs = ucast comeback_delay * 1024 - secs * 1000000;
     let wpa_s = cancel_timer H_gas_query_tx_comeback_timeout (gas_ptr g) q wpa_s;
     Some (register_timer (ge_timer_ok env) (ge_time env) secs usecs H_gas_query_tx_comeback_timeout
             (gas_ptr g) q wpa_s) }"

text \<open>
  \<open>data\<close> is the frame body; \<open>adv\<close> and \<open>pos\<close> are the offsets of the Advertisement Protocol element and of
  the Query Response, \<open>len\<close> is the length of the latter.
\<close>

definition gas_query_rx_initial ::
  "cb_fun \<Rightarrow> gas_env \<Rightarrow> wpa_supplicant \<Rightarrow> ptr \<Rightarrow> bytes \<Rightarrow> nat \<Rightarrow> nat \<Rightarrow> nat \<Rightarrow> u16 \<Rightarrow>
     wpa_supplicant option" where
  "gas_query_rx_initial cbf env wpa_s q data adv pos len comeback_delay = do {
     query \<leftarrow> get_query wpa_s q;
     l \<leftarrow> rd data (adv + 1);
     d \<leftarrow> rd_bytes data adv (2 + unat l);
     a \<leftarrow> wpabuf_alloc_copy (ge_alloc_adv env) d;
     let query = query\<lparr>q_adv_proto := a\<rparr>;
     let wpa_s = set_query q (Some query) wpa_s;
     if a = None then gas_query_done cbf wpa_s q GAS_QUERY_INTERNAL_ERROR
     else if comeback_delay \<noteq> 0
     then gas_query_tx_comeback_req_delay env
            (set_query q (Some (query\<lparr>q_wait_comeback := True\<rparr>)) wpa_s) q comeback_delay
     else do {
       d \<leftarrow> rd_bytes data pos len;
       (res, query) \<leftarrow> gas_query_append (ge_resize env) query d;
       let wpa_s = set_query q (Some query) wpa_s;
       if res < 0 then gas_query_done cbf wpa_s q GAS_QUERY_INTERNAL_ERROR
       else gas_query_done cbf wpa_s q GAS_QUERY_SUCCESS
     }
   }"

definition gas_query_rx_comeback ::
  "cb_fun \<Rightarrow> gas_env \<Rightarrow> wpa_supplicant \<Rightarrow> ptr \<Rightarrow> bytes \<Rightarrow> nat \<Rightarrow> nat \<Rightarrow> nat \<Rightarrow> u8 \<Rightarrow> bool \<Rightarrow> u16 \<Rightarrow>
     wpa_supplicant option" where
  "gas_query_rx_comeback cbf env wpa_s q data adv pos len frag_id more_frags comeback_delay = do {
     query \<leftarrow> get_query wpa_s q;
     a \<leftarrow> q_adv_proto query;
     l \<leftarrow> rd data (adv + 1);
     same \<leftarrow> (if 2 + unat l \<noteq> wpabuf_len a then Some False
             else memeq (drop adv data) (wpabuf_head a) (wpabuf_len a));
     if \<not> same then gas_query_done cbf wpa_s q GAS_QUERY_PEER_ERROR
     else if comeback_delay \<noteq> 0 then
       (if frag_id \<noteq> 0 then gas_query_done cbf wpa_s q GAS_QUERY_PEER_ERROR
        else gas_query_tx_comeback_req_delay env wpa_s q comeback_delay)
     else if frag_id \<noteq> q_next_frag_id query then gas_query_done cbf wpa_s q GAS_QUERY_PEER_ERROR
     else do {
       let query = query\<lparr>q_next_frag_id := q_next_frag_id query + 1\<rparr>;
       d \<leftarrow> rd_bytes data pos len;
       (res, query) \<leftarrow> gas_query_append (ge_resize env) query d;
       let wpa_s = set_query q (Some query) wpa_s;
       if res < 0 then gas_query_done cbf wpa_s q GAS_QUERY_INTERNAL_ERROR
       else if more_frags then gas_query_tx_comeback_req cbf env wpa_s q
       else gas_query_done cbf wpa_s q GAS_QUERY_SUCCESS
     }
   }"

text \<open>
  The part of \<open>gas_query_rx\<close> behind the status code: \<open>pos\<close> is the offset behind it. Frames that are cut
  off are ignored.
\<close>

definition gas_query_rx_body ::
  "cb_fun \<Rightarrow> gas_env \<Rightarrow> wpa_supplicant \<Rightarrow> ptr \<Rightarrow> bytes \<Rightarrow> nat \<Rightarrow> u8 \<Rightarrow> nat \<Rightarrow> u8 \<Rightarrow> bool \<Rightarrow>
     (int \<times> wpa_supplicant) option" where
  "gas_query_rx_body cbf env wpa_s q data len action pos frag_id more_frags =
     (if len < pos + 2 then Some (0, wpa_s)
      else do {
        comeback_delay \<leftarrow> rd_le16 data pos;
        let pos = pos + 2;
        if len < pos + 2 then Some (0, wpa_s)
        else do {
          l \<leftarrow> rd data (pos + 1);
          if len < pos + 2 + unat l then Some (0, wpa_s)
          else do {
            e \<leftarrow> rd data pos;
            if e \<noteq> WLAN_EID_ADV_PROTO then Some (0, wpa_s)
            else do {
              let adv = pos;
              let pos = pos + 2 + unat l;
              if len < pos + 2 then Some (0, wpa_s)
              else do {
                resp_len \<leftarrow> rd_le16 data pos;
                let pos = pos + 2;
                if len < pos + unat resp_len then Some (0, wpa_s)
                else do {
                  wpa_s \<leftarrow> (if action = WLAN_PA_GAS_COMEBACK_RESP
                            then gas_query_rx_comeback cbf env wpa_s q data adv pos (unat resp_len)
                                   frag_id more_frags comeback_delay
                            else gas_query_rx_initial cbf env wpa_s q data adv pos (unat resp_len)
                                   comeback_delay);
                  Some (0, wpa_s)
                }
              }
            }
          }
        }
      })"

definition gas_query_rx ::
  "cb_fun \<Rightarrow> gas_env \<Rightarrow> wpa_supplicant \<Rightarrow> bytes \<Rightarrow> bytes \<Rightarrow> nat \<Rightarrow> (int \<times> wpa_supplicant) option" where
  "gas_query_rx cbf env wpa_s sa data len = (case gas wpa_s of
     None \<Rightarrow> Some (-1, wpa_s)
   | Some g \<Rightarrow>
     if len < 4 then Some (-1, wpa_s)
     else do {
       action \<leftarrow> rd data 0;
       dialog_token \<leftarrow> rd data 1;
       if action \<noteq> WLAN_PA_GAS_INITIAL_RESP \<and> action \<noteq> WLAN_PA_GAS_COMEBACK_RESP then Some (-1, wpa_s)
       else do {
         qo \<leftarrow> gas_query_get_pending g sa dialog_token;
         (case qo of
            None \<Rightarrow> Some (-1, wpa_s)
          | Some q \<Rightarrow> do {
              query \<leftarrow> get_query wpa_s q;
              if q_wait_comeback query \<and> action = WLAN_PA_GAS_INITIAL_RESP then Some (0, wpa_s)
              else if \<not> q_wait_comeback query \<and> action = WLAN_PA_GAS_COMEBACK_RESP then Some (0, wpa_s)
              else do {
                status \<leftarrow> rd_le16 data 2;
                let wpa_s = set_query q (Some (query\<lparr>q_status_code := status\<rparr>)) wpa_s;
                if status \<noteq> 0 then do {
                  wpa_s \<leftarrow> gas_query_done cbf wpa_s q GAS_QUERY_FAILURE;
                  Some (0, wpa_s)
                }
                else if action = WLAN_PA_GAS_COMEBACK_RESP then
                  (if len < 4 + 1 then Some (0, wpa_s)
                   else do {
                     x \<leftarrow> rd data 4;
                     gas_query_rx_body cbf env wpa_s q data len action 5 (x AND 0x7f) (x AND 0x80 \<noteq> 0)
                   })
                else gas_query_rx_body cbf env wpa_s q data len action 4 0 False
              }
            })
       }
     })"

definition gas_query_timeout :: "cb_fun \<Rightarrow> wpa_supplicant \<Rightarrow> ptr \<Rightarrow> wpa_supplicant option" where
  "gas_query_timeout cbf wpa_s q = gas_query_done cbf wpa_s q GAS_QUERY_TIMEOUT"

definition gas_query_dialog_token_available :: "gas_query \<Rightarrow> bytes \<Rightarrow> u8 \<Rightarrow> bool option" where
  "gas_query_dialog_token_available g dst dialog_token = do {
     r \<leftarrow> pending_find g dst dialog_token (gas_pending g);
     Some (r = None) }"

text \<open>The search for a free token, with \<open>n\<close> candidates left from \<open>i\<close> on.\<close>

fun find_token :: "gas_query \<Rightarrow> bytes \<Rightarrow> nat \<Rightarrow> nat \<Rightarrow> nat option" where
  "find_token g dst i 0 = Some i"
| "find_token g dst i (Suc n) = do {
     ok \<leftarrow> gas_query_dialog_token_available g dst (word_of_nat i);
     if ok then Some i else find_token g dst (i + 1) n }"

definition zero_query :: gas_query_pending where
  "zero_query = \<lparr>q_addr = replicate 6 0, q_dialog_token = 0, q_next_frag_id = 0, q_wait_comeback = False,
     q_offchannel_tx_started = False, q_freq = 0, q_status_code = 0, q_adv_proto = None, q_resp = None,
     q_cb = CB_anqp_resp_cb\<rparr>"

definition gas_query_req ::
  "ptr option \<Rightarrow> gas_env \<Rightarrow> wpa_supplicant \<Rightarrow> bytes \<Rightarrow> int \<Rightarrow> wpabuf \<Rightarrow> gas_cb \<Rightarrow>
     (int \<times> wpa_supplicant) option" where
  "gas_query_req alloc env wpa_s dst freq req cb =
     (if wpabuf_len req < 3 then Some (-1, wpa_s)
      else do {
        g \<leftarrow> gas wpa_s;
        dialog_token \<leftarrow> find_token g dst 0 256;
        if dialog_token = 256 then Some (-1, wpa_s)
        else (case alloc of
          None \<Rightarrow> Some (-1, wpa_s)
        | Some q \<Rightarrow> do {
            addr \<leftarrow> rd_bytes dst 0 ETH_ALEN;
            let query = zero_query\<lparr>q_addr := addr, q_dialog_token := word_of_nat dialog_token,
                          q_freq := freq, q_cb := cb\<rparr>;
            let wpa_s = wpa_s\<lparr>gas := Some (g\<lparr>gas_pending := q # gas_pending g,
                                        gas_heap := (gas_heap g)(q \<mapsto> query)\<rparr>)\<rparr>;
            req \<leftarrow> wpabuf_store req 2 [word_of_nat dialog_token];
            (res, wpa_s) \<leftarrow> gas_query_tx (ge_tx env) wpa_s q req;
            if res < 0 then Some (-1, set_query q None wpa_s)
            else Some (int dialog_token,
              register_timer (ge_timer_ok env) (ge_time env) GAS_QUERY_TIMEOUT_PERIOD 0 H_gas_query_timeout
                (gas_ptr g) q wpa_s)
          })
      })"

definition gas_query_cancel ::
  "cb_fun \<Rightarrow> wpa_supplicant \<Rightarrow> bytes \<Rightarrow> u8 \<Rightarrow> wpa_supplicant option" where
  "gas_query_cancel cbf wpa_s dst dialog_token = do {
     g \<leftarrow> gas wpa_s;
     qo \<leftarrow> gas_query_get_pending g dst dialog_token;
     (case qo of None \<Rightarrow> Some wpa_s | Some q \<Rightarrow> gas_query_done cbf wpa_s q GAS_QUERY_CANCELLED) }"


section \<open>Invariant\<close>

definition buf_ok :: "wpabuf option \<Rightarrow> bool" where
  "buf_ok b \<longleftrightarrow> (case b of None \<Rightarrow> True | Some x \<Rightarrow> wpabuf_inv x)"

definition query_wf :: "gas_query_pending \<Rightarrow> bool" where
  "query_wf v \<longleftrightarrow> length (q_addr v) = 6 \<and> buf_ok (q_adv_proto v) \<and> buf_ok (q_resp v) \<and>
     (q_wait_comeback v \<longrightarrow> q_adv_proto v \<noteq> None)"

definition key_of :: "gas_query \<Rightarrow> ptr \<Rightarrow> bytes \<times> u8" where
  "key_of g q = (q_addr (the (gas_heap g q)), q_dialog_token (the (gas_heap g q)))"

text \<open>
  \<open>gas_inv D s\<close>: the queries on the pending list and those in \<open>D\<close>, which are off the list but not yet
  freed, are exactly the live ones; no two pending queries share the peer address and dialog token; a
  query that waits for comeback responses has stored an Advertisement Protocol element.
\<close>

definition gas_inv :: "ptr set \<Rightarrow> wpa_supplicant \<Rightarrow> bool" where
  "gas_inv D s \<longleftrightarrow> (case gas s of
     None \<Rightarrow> D = {}
   | Some g \<Rightarrow> distinct (gas_pending g) \<and> set (gas_pending g) \<inter> D = {} \<and>
       set (gas_pending g) \<union> D = dom (gas_heap g) \<and>
       (\<forall>q v. gas_heap g q = Some v \<longrightarrow> query_wf v) \<and> inj_on (key_of g) (set (gas_pending g)))"

lemma gas_timer_sel [simp]:
  "gas (cancel_timer h d u s) = gas s" "gas (register_timer ok gt x y h d u s) = gas s"
  "gas_inv D (cancel_timer h d u s) = gas_inv D s"
  "gas_inv D (register_timer ok gt x y h d u s) = gas_inv D s"
  "get_query (cancel_timer h d u s) q = get_query s q"
  by (simp_all add: cancel_timer_def register_timer_def gas_inv_def get_query_def)

lemma gas_tx_sel [simp]:
  "gas_inv D (s\<lparr>tx_log := l\<rparr>) = gas_inv D s" "get_query (s\<lparr>tx_log := l\<rparr>) q = get_query s q"
  by (simp_all add: gas_inv_def get_query_def)

lemma set_query_sel [simp]:
  "get_query (set_query q v s) q' = (if gas s = None then None else if q' = q then v else get_query s q')"
  "gas (set_query q v s) = map_option (\<lambda>g. g\<lparr>gas_heap := (gas_heap g)(q := v)\<rparr>) (gas s)"
  by (auto simp: get_query_def set_query_def split: option.split)

lemma get_query_gas: "get_query s q = Some v \<Longrightarrow> gas s \<noteq> None"
  by (auto simp: get_query_def split: Option.bind_splits)

lemma gas_inv_query: "gas_inv D s \<Longrightarrow> get_query s q = Some v \<Longrightarrow> query_wf v"
  by (auto simp: gas_inv_def get_query_def split: option.splits Option.bind_splits)

lemma gas_inv_set:
  assumes "gas_inv D s" "get_query s q = Some v" "query_wf v'" "q_addr v' = q_addr v"
    "q_dialog_token v' = q_dialog_token v"
  shows "gas_inv D (set_query q (Some v') s)"
proof -
  obtain g where g: "gas s = Some g" "gas_heap g q = Some v"
    using assms(2) by (auto simp: get_query_def split: Option.bind_splits)
  let ?g = "g\<lparr>gas_heap := (gas_heap g)(q \<mapsto> v')\<rparr>"
  have "key_of ?g = key_of g" using g assms(4,5) by (auto simp: key_of_def fun_eq_iff)
  then show ?thesis
    using assms(1,3) g by (auto simp: gas_inv_def)
qed

lemma pending_find_spec:
  assumes "\<forall>q \<in> set qs. \<exists>v. gas_heap g q = Some v \<and> query_wf v" "length addr = 6"
  shows "pending_find g addr tok qs = Some (find (\<lambda>q. key_of g q = (addr, tok)) qs)"
  using assms(1)
proof (induction qs)
  case (Cons q qs)
  then obtain v where v: "gas_heap g q = Some v" "length (q_addr v) = 6" by (auto simp: query_wf_def)
  then show ?case
    using Cons assms(2) by (auto simp: memeq_Some ETH_ALEN_def key_of_def)
qed simp

lemma gas_inv_pending:
  assumes "gas_inv D s" "gas s = Some g" "q \<in> set (gas_pending g)"
  obtains v where "gas_heap g q = Some v" "query_wf v" "get_query s q = Some v"
proof -
  have "q \<in> dom (gas_heap g)" using assms by (auto simp: gas_inv_def)
  then obtain v where "gas_heap g q = Some v" by blast
  with assms show ?thesis by (intro that [of v]) (auto simp: gas_inv_def get_query_def)
qed

lemma gas_query_get_pending_spec:
  assumes "gas_inv D s" "gas s = Some g" "length addr = 6"
  shows "gas_query_get_pending g addr tok =
    Some (find (\<lambda>q. key_of g q = (addr, tok)) (gas_pending g))"
  unfolding gas_query_get_pending_def
  by (rule pending_find_spec) (use assms gas_inv_pending in \<open>metis\<close>)+

lemma gas_query_append_spec:
  assumes "query_wf v"
  shows "succeeds (gas_query_append ok v d) (\<lambda>(r, v'). query_wf v' \<and> q_addr v' = q_addr v \<and>
    q_dialog_token v' = q_dialog_token v \<and> q_cb v' = q_cb v \<and> q_adv_proto v' = q_adv_proto v \<and>
    q_wait_comeback v' = q_wait_comeback v \<and> q_status_code v' = q_status_code v \<and>
    q_next_frag_id v' = q_next_frag_id v \<and> (r = 0 \<or> r = -1) \<and>
    (r = 0 \<longrightarrow> (\<exists>b. q_resp v' = Some b \<and>
       wpabuf_data b = (case q_resp v of None \<Rightarrow> [] | Some b0 \<Rightarrow> wpabuf_data b0) @ d)) \<and> (ok \<longrightarrow> r = 0))"
proof -
  obtain res resp where r: "wpabuf_resize ok (q_resp v) (length d) = (res, resp)" by fastforce
  have i: "\<forall>b. q_resp v = Some b \<longrightarrow> wpabuf_inv b" using assms by (auto simp: query_wf_def buf_ok_def)
  consider "res = 0" | "res = -1" "resp = q_resp v" "\<not> ok"
    using r by (auto simp: wpabuf_resize_def wpabuf_alloc_def Let_def split: option.splits if_splits)
  then show ?thesis
  proof cases
    case 1
    then obtain b where b: "resp = Some b" "wpabuf_inv b" "length d \<le> wpabuf_tailroom b"
      "wpabuf_data b = (case q_resp v of None \<Rightarrow> [] | Some b0 \<Rightarrow> wpabuf_data b0)"
      using wpabuf_resize_spec [of ok "q_resp v" "length d" resp] r i by blast
    obtain b' where "wpabuf_put_data b (Some d) = Some b'" "wpabuf_inv b'" "wpabuf_data b' = wpabuf_data b @ d"
      using wpabuf_put_data_fits [OF b(2,3)] by blast
    then show ?thesis
      using 1 r b assms by (simp add: gas_query_append_def succeeds_simps query_wf_def buf_ok_def)
  next
    case 2
    then show ?thesis
      using r assms by (simp add: gas_query_append_def succeeds_simps query_wf_def)
  qed
qed

section \<open>The contract of the response callback\<close>

text \<open>
  Ending a query: first its timeouts are cancelled and it is taken off the list, after the callback it is freed.
\<close>

definition unlinked :: "wpa_supplicant \<Rightarrow> gas_query \<Rightarrow> ptr \<Rightarrow> wpa_supplicant" where
  "unlinked s g q = (cancel_timer H_gas_query_timeout (gas_ptr g) q
     (cancel_timer H_gas_query_tx_comeback_timeout (gas_ptr g) q s))\<lparr>gas := Some (g\<lparr>gas_pending := remove1 q (gas_pending g)\<rparr>)\<rparr>"

lemma gas_inv_unlinked:
  assumes "gas_inv {} s" "gas s = Some g" "gas_heap g q = Some v"
  shows "gas_inv {q} (unlinked s g q)" "q \<in> set (gas_pending g)" "get_query (unlinked s g q) = get_query s"
proof -
  have p: "q \<in> set (gas_pending g)" "distinct (gas_pending g)" "set (gas_pending g) = dom (gas_heap g)"
    using assms by (auto simp: gas_inv_def)
  have k: "key_of (g\<lparr>gas_pending := l\<rparr>) = key_of g" for l by (simp add: key_of_def fun_eq_iff)
  show "gas_inv {q} (unlinked s g q)"
    using assms p by (auto simp: gas_inv_def unlinked_def k inj_on_def)
  show "q \<in> set (gas_pending g)" using p(1) .
  show "get_query (unlinked s g q) = get_query s" using assms(2) by (simp add: get_query_def unlinked_def fun_eq_iff)
qed

lemma gas_inv_freed:
  assumes "gas_inv {q} s" "get_query s q = Some v"
  shows "gas_inv {} (set_query q None s)"
proof -
  obtain g where g: "gas s = Some g" using assms(2) by (auto simp: get_query_def split: Option.bind_splits)
  have "inj_on (key_of (g\<lparr>gas_heap := (gas_heap g)(q := None)\<rparr>)) (set (gas_pending g))"
    using assms(1) g by (auto simp: gas_inv_def inj_on_def key_of_def split: if_splits)
  then show ?thesis using assms(1) g by (auto simp: gas_inv_def split: if_splits)
qed

lemma gas_query_done_eq:
  assumes "gas_inv {} s" "gas s = Some g" "gas_heap g q = Some v"
    "cbf (q_cb v) (q_addr v) (q_dialog_token v) result (q_adv_proto v) (q_resp v) (q_status_code v) (unlinked s g q) = Some s'"
    "get_query s' q = Some v'"
  shows "gas_query_done cbf s q result = Some (set_query q None s')"
  using assms gas_inv_unlinked(2) [OF assms(1-3)] by (simp add: gas_query_done_def Let_def unlinked_def)

text \<open>
  What the query layer needs from its client: when the client is ready for a response from \<open>dst\<close>, the
  callback does not fault, keeps the query layer's invariant (it may start new queries), and does not
  touch queries that are off the list. A successful query hands over both buffers. \<open>ready\<close> does not
  depend on the query layer, the timers or the transmit log.
\<close>

locale gas_client =
  fixes cbf :: cb_fun
    and ready :: "wpa_supplicant \<Rightarrow> bytes \<Rightarrow> bool"
  assumes cb_total: "\<lbrakk>ready s dst; gas_inv D s; D \<noteq> {}; length dst = 6; buf_ok adv; buf_ok resp;
      result = GAS_QUERY_SUCCESS \<longrightarrow> adv \<noteq> None \<and> resp \<noteq> None\<rbrakk> \<Longrightarrow>
      succeeds (cbf c dst tok result adv resp status s)
        (\<lambda>s'. gas_inv D s' \<and> (\<forall>q \<in> D. get_query s' q = get_query s q))"
    and ready_frame: "ready (s\<lparr>gas := g\<rparr>) dst = ready s dst"
      "ready (s\<lparr>eloop := e\<rparr>) dst = ready s dst" "ready (s\<lparr>tx_log := l\<rparr>) dst = ready s dst"
begin

lemma ready_sel [simp]:
  "ready (set_query q v s) dst = ready s dst" "ready (cancel_timer h d u s) dst = ready s dst"
  "ready (register_timer ok gt x y h d u s) dst = ready s dst"
  by (simp_all add: set_query_def cancel_timer_def register_timer_def ready_frame)

lemma done_total:
  assumes inv: "gas_inv {} s" and q: "get_query s q = Some v" and rdy: "ready s (q_addr v)"
    and ok: "result = GAS_QUERY_SUCCESS \<longrightarrow> q_adv_proto v \<noteq> None \<and> q_resp v \<noteq> None"
  shows "succeeds (gas_query_done cbf s q result) (gas_inv {})"
proof -
  obtain g where g: "gas s = Some g" "gas_heap g q = Some v"
    using q by (auto simp: get_query_def split: Option.bind_splits)
  have wf: "query_wf v" using gas_inv_query [OF inv q] .
  note u = gas_inv_unlinked [OF inv g]
  have "ready (unlinked s g q) (q_addr v)" using rdy by (simp add: unlinked_def ready_frame)
  then have "succeeds (cbf (q_cb v) (q_addr v) (q_dialog_token v) result (q_adv_proto v) (q_resp v)
      (q_status_code v) (unlinked s g q)) (\<lambda>s'. gas_inv {q} s' \<and> (\<forall>x \<in> {q}. get_query s' x = get_query (unlinked s g q) x))"
    using cb_total [OF _ u(1)] wf ok by (auto simp: query_wf_def)
  then obtain s' where s': "cbf (q_cb v) (q_addr v) (q_dialog_token v) result (q_adv_proto v) (q_resp v)
      (q_status_code v) (unlinked s g q) = Some s'" "gas_inv {q} s'" "get_query s' q = Some v"
    using q u(3) by (auto simp: succeeds_def)
  show ?thesis
    using gas_query_done_eq [where cbf = cbf, OF inv g s'(1,3)] gas_inv_freed [OF s'(2,3)] by (simp add: succeeds_simps)
qed

lemma tx_comeback_req_total:
  assumes "gas_inv {} s" "get_query s q = Some v" "ready s (q_addr v)"
  shows "succeeds (gas_query_tx_comeback_req cbf env s q) (gas_inv {})"
proof -
  note d = done_total [OF assms, of GAS_QUERY_INTERNAL_ERROR]
  let ?v = "v\<lparr>q_offchannel_tx_started := True\<rparr>"
  let ?s = "\<lambda>f. set_query q (Some ?v) (s\<lparr>tx_log := tx_log s @ [(q_freq v, q_addr v, f)]\<rparr>)"
  have g0: "gas s \<noteq> None" using get_query_gas [OF assms(2)] .
  have "gas_inv {} (s\<lparr>tx_log := l\<rparr>)" "get_query (s\<lparr>tx_log := l\<rparr>) q = Some v" for l
    using assms by (simp_all add: gas_inv_def get_query_def)
  then have i: "gas_inv {} (?s f)" for f
    using gas_inv_query [OF assms(1,2)] by (intro gas_inv_set) (auto simp: query_wf_def)
  show ?thesis
  proof (cases "ge_alloc_req env")
    case False
    then have "gas_build_comeback_req (ge_alloc_req env) (q_dialog_token v) = Some None"
      by (simp add: gas_build_comeback_req_def gas_build_req_def wpabuf_alloc_def)
    then show ?thesis
      using d assms(2) by (simp add: gas_query_tx_comeback_req_def succeeds_simps)
  next
    case True
    then obtain b where b: "gas_build_comeback_req (ge_alloc_req env) (q_dialog_token v) = Some (Some b)"
      "wpabuf_inv b"
      using gas_build_req_data [of 12 "q_dialog_token v" 0] by (auto simp: gas_build_comeback_req_def)
    have r: "rd_bytes (wpabuf_head b) 0 (wpabuf_len b) = Some (wpabuf_data b)"
      using b(2) by (simp add: rd_bytes_def wpabuf_inv_def wpabuf_len_def wpabuf_data_def)
    show ?thesis
      using b r d i assms(1,2) by (simp add: gas_query_tx_comeback_req_def gas_query_tx_def succeeds_simps)
  qed
qed

lemma rx_initial_total:
  assumes "gas_inv {} s" "get_query s q = Some v" "ready s (q_addr v)"
    and "adv + 1 < length data" "adv + 2 + unat (data ! (adv + 1)) \<le> length data" "pos + len \<le> length data"
    and "\<not> q_wait_comeback v"
  shows "succeeds (gas_query_rx_initial cbf env s q data adv pos len delay) (gas_inv {})"
proof -
  let ?d = "take (2 + unat (data ! (adv + 1))) (drop adv data)"
  have g0: "gas s \<noteq> None" using get_query_gas [OF assms(2)] .
  obtain a where a: "wpabuf_alloc_copy (ge_alloc_adv env) ?d = Some a" "buf_ok a"
    using wpabuf_alloc_copy_data [of ?d]
    by (cases "ge_alloc_adv env") (auto simp: wpabuf_alloc_copy_def wpabuf_alloc_def buf_ok_def)
  have wf: "query_wf v" using gas_inv_query [OF assms(1,2)] .
  have e: "succeeds (gas_query_done cbf (set_query q (Some v') s) q result) (gas_inv {})"
    if "query_wf v'" "q_addr v' = q_addr v" "q_dialog_token v' = q_dialog_token v"
      "result = GAS_QUERY_SUCCESS \<longrightarrow> q_adv_proto v' \<noteq> None \<and> q_resp v' \<noteq> None" for v' result
    by (rule done_total [OF gas_inv_set [OF assms(1,2) that(1-3)]]) (use that g0 assms(3) in auto)
  show ?thesis
  proof (cases a)
    case None
    have "query_wf (v\<lparr>q_adv_proto := None\<rparr>)" using wf assms(7) by (simp add: query_wf_def buf_ok_def)
    from e [OF this] show ?thesis
      using None a(1) assms(2,4,5) by (simp add: gas_query_rx_initial_def succeeds_simps Let_def)
  next
    case (Some b)
    let ?v = "v\<lparr>q_adv_proto := Some b\<rparr>"
    have w1: "query_wf ?v" "query_wf (?v\<lparr>q_wait_comeback := True\<rparr>)"
      using wf a(2) Some by (simp_all add: query_wf_def)
    show ?thesis
    proof (cases "delay = 0")
      case False
      have "gas_inv {} (set_query q (Some ?v) s)" by (rule gas_inv_set [OF assms(1,2) w1(1)]) simp_all
      then have "gas_inv {} (set_query q (Some (?v\<lparr>q_wait_comeback := True\<rparr>)) (set_query q (Some ?v) s))"
        by (rule gas_inv_set [where v = ?v]) (use w1(2) g0 in auto)
      then show ?thesis
        using False Some a(1) assms(2,4,5) g0
        by (auto simp: gas_query_rx_initial_def succeeds_simps Let_def gas_query_tx_comeback_req_delay_def)
    next
      case True
      let ?r = "take len (drop pos data)"
      from gas_query_append_spec [OF w1(1), of "ge_resize env" ?r] obtain res v' where v':
        "gas_query_append (ge_resize env) ?v ?r = Some (res, v')" "query_wf v'" "q_addr v' = q_addr v"
        "q_dialog_token v' = q_dialog_token v" "q_adv_proto v' = Some b" "res = 0 \<or> res = -1"
        "res = 0 \<longrightarrow> q_resp v' \<noteq> None"
        by (auto simp: succeeds_def)
      have s2: "set_query q (Some v') (set_query q (Some ?v) s) = set_query q (Some v') s"
        by (simp add: set_query_def option.map_comp o_def)
      show ?thesis
        using True Some a(1) assms(2,4,5,6) v' e [OF v'(2-4)]
        by (auto simp: gas_query_rx_initial_def succeeds_simps Let_def s2)
    qed
  qed
qed

lemma rx_comeback_total:
  assumes "gas_inv {} s" "get_query s q = Some v" "ready s (q_addr v)" "q_wait_comeback v"
    and "adv + 1 < length data" "adv + 2 + unat (data ! (adv + 1)) \<le> length data" "pos + len \<le> length data"
  shows "succeeds (gas_query_rx_comeback cbf env s q data adv pos len frag m delay) (gas_inv {})"
proof -
  have g0: "gas s \<noteq> None" using get_query_gas [OF assms(2)] .
  have wf: "query_wf v" using gas_inv_query [OF assms(1,2)] .
  then obtain b where b: "q_adv_proto v = Some b" "wpabuf_inv b"
    using assms(4) by (auto simp: query_wf_def buf_ok_def)
  have l: "wpabuf_len b \<le> length (wpabuf_head b)"
    using b(2) by (simp add: wpabuf_inv_def wpabuf_len_def)
  have m: "succeeds (memeq (drop adv data) (wpabuf_head b) (wpabuf_len b)) (\<lambda>_. True)"
    if "2 + unat (data ! (adv + 1)) = wpabuf_len b"
    using that l assms(6) by (simp add: memeq_def succeeds_simps)
  let ?v = "v\<lparr>q_next_frag_id := q_next_frag_id v + 1\<rparr>"
  let ?r = "take len (drop pos data)"
  have w1: "query_wf ?v" using wf by (simp add: query_wf_def)
  from gas_query_append_spec [OF w1(1), of "ge_resize env" ?r] obtain res v' where v':
    "gas_query_append (ge_resize env) ?v ?r = Some (res, v')" "query_wf v'" "q_addr v' = q_addr v"
    "q_dialog_token v' = q_dialog_token v" "q_adv_proto v' = Some b" "res = 0 \<or> res = -1"
    "res = 0 \<longrightarrow> q_resp v' \<noteq> None"
    using b(1) by (auto simp: succeeds_def)
  let ?s = "set_query q (Some v') s"
  have s': "gas_inv {} ?s" "get_query ?s q = Some v'" "ready ?s (q_addr v')"
    using gas_inv_set [OF assms(1,2) v'(2-4)] g0 assms(3) v'(3) by simp_all
  note fin = done_total [OF assms(1-3)] done_total [OF s'] tx_comeback_req_total [OF s', of env]
  have body: "succeeds (if \<not> same then gas_query_done cbf s q GAS_QUERY_PEER_ERROR
     else if delay \<noteq> 0 then
       (if frag \<noteq> 0 then gas_query_done cbf s q GAS_QUERY_PEER_ERROR
        else gas_query_tx_comeback_req_delay env s q delay)
     else if frag \<noteq> q_next_frag_id v then gas_query_done cbf s q GAS_QUERY_PEER_ERROR
     else do {
       let query = ?v;
       d \<leftarrow> rd_bytes data pos len;
       (res, query) \<leftarrow> gas_query_append (ge_resize env) query d;
       let wpa_s = set_query q (Some query) s;
       if res < 0 then gas_query_done cbf wpa_s q GAS_QUERY_INTERNAL_ERROR
       else if m then gas_query_tx_comeback_req cbf env wpa_s q
       else gas_query_done cbf wpa_s q GAS_QUERY_SUCCESS
     }) (gas_inv {})" for same
    using fin v' g0 assms(1,7)
    by (auto simp: succeeds_simps Let_def gas_query_tx_comeback_req_delay_def)
  show ?thesis
  proof (cases "2 + unat (data ! (adv + 1)) = wpabuf_len b")
    case True
    then obtain same where "memeq (drop adv data) (wpabuf_head b) (wpabuf_len b) = Some same"
      using m by (auto simp: succeeds_def)
    then show ?thesis
      using True body [of same] assms(2,5) b(1)
      unfolding gas_query_rx_comeback_def by (simp only: succeeds_simps bind.simps if_False simp_thms)
  next
    case False
    then show ?thesis
      using body [of False] assms(2,5) b(1)
      unfolding gas_query_rx_comeback_def by (simp only: succeeds_simps bind.simps if_True simp_thms)
  qed
qed

lemma rx_body_total:
  assumes "gas_inv {} s" "get_query s q = Some v" "ready s (q_addr v)" "len \<le> length data"
    and "q_wait_comeback v \<longleftrightarrow> action = WLAN_PA_GAS_COMEBACK_RESP"
  shows "succeeds (gas_query_rx_body cbf env s q data len action pos frag m) (\<lambda>(r, s'). gas_inv {} s')"
proof -
  have i: "succeeds (gas_query_rx_initial cbf env s q data a p n delay) (gas_inv {})"
    if "a + 1 < length data" "a + 2 + unat (data ! (a + 1)) \<le> length data" "p + n \<le> length data"
      "action \<noteq> WLAN_PA_GAS_COMEBACK_RESP" for a p n delay
    using rx_initial_total [OF assms(1-3) that(1-3)] that(4) assms(5) by simp
  have c: "succeeds (gas_query_rx_comeback cbf env s q data a p n frag m delay) (gas_inv {})"
    if "a + 1 < length data" "a + 2 + unat (data ! (a + 1)) \<le> length data" "p + n \<le> length data"
      "action = WLAN_PA_GAS_COMEBACK_RESP" for a p n delay
    using rx_comeback_total [OF assms(1-3) _ that(1-3)] that(4) assms(5) by simp
  show ?thesis
    using assms(1,4)
    by (auto simp: gas_query_rx_body_def succeeds_simps Let_def intro!: i c)
qed

lemma rx_total:
  assumes "gas_inv {} s" "length sa = 6" "ready s sa" "len \<le> length data"
  shows "succeeds (gas_query_rx cbf env s sa data len) (\<lambda>(r, s'). gas_inv {} s')"
proof (cases "gas s")
  case None
  then show ?thesis using assms by (simp add: gas_query_rx_def succeeds_simps)
next
  case (Some g)
  have find: "gas_query_get_pending g sa tok = Some (find (\<lambda>q. key_of g q = (sa, tok)) (gas_pending g))" for tok
    using gas_query_get_pending_spec [OF assms(1) Some assms(2)] .
  have main: "succeeds (do {
        query \<leftarrow> get_query s q;
        if q_wait_comeback query \<and> action = WLAN_PA_GAS_INITIAL_RESP then Some (0, s)
        else if \<not> q_wait_comeback query \<and> action = WLAN_PA_GAS_COMEBACK_RESP then Some (0, s)
        else do {
          status \<leftarrow> rd_le16 data 2;
          let wpa_s = set_query q (Some (query\<lparr>q_status_code := status\<rparr>)) s;
          if status \<noteq> 0 then do { wpa_s \<leftarrow> gas_query_done cbf wpa_s q GAS_QUERY_FAILURE; Some (0, wpa_s) }
          else if action = WLAN_PA_GAS_COMEBACK_RESP then
            (if len < 4 + 1 then Some (0, wpa_s)
             else do {
               x \<leftarrow> rd data 4;
               gas_query_rx_body cbf env wpa_s q data len action 5 (x AND 0x7f) (x AND 0x80 \<noteq> 0) })
          else gas_query_rx_body cbf env wpa_s q data len action 4 0 False
        } }) (\<lambda>(r, s'). gas_inv {} s')"
    if q: "q \<in> set (gas_pending g)" "key_of g q = (sa, tok)" and l: "4 \<le> len"
      and act: "action = WLAN_PA_GAS_INITIAL_RESP \<or> action = WLAN_PA_GAS_COMEBACK_RESP" for q tok action
  proof -
    obtain v where v: "gas_heap g q = Some v" "get_query s q = Some v" "query_wf v"
      using gas_inv_pending [OF assms(1) Some q(1)] by metis
    have a: "q_addr v = sa" using q(2) v(1) by (simp add: key_of_def)
    have st: "gas_inv {} (set_query q (Some (v\<lparr>q_status_code := c\<rparr>)) s)"
      "get_query (set_query q (Some (v\<lparr>q_status_code := c\<rparr>)) s) q = Some (v\<lparr>q_status_code := c\<rparr>)"
      "ready (set_query q (Some (v\<lparr>q_status_code := c\<rparr>)) s) (q_addr (v\<lparr>q_status_code := c\<rparr>))" for c
      using gas_inv_set [OF assms(1) v(2), of "v\<lparr>q_status_code := c\<rparr>"] v(3) assms(3) a Some
      by (simp_all add: query_wf_def)
    have d: "succeeds (gas_query_done cbf (set_query q (Some (v\<lparr>q_status_code := c\<rparr>)) s) q GAS_QUERY_FAILURE)
        (gas_inv {})" for c
      by (rule done_total [OF st]) simp
    have bo: "succeeds (gas_query_rx_body cbf env (set_query q (Some (v\<lparr>q_status_code := c\<rparr>)) s) q data len
        action p f m) (\<lambda>(r, s'). gas_inv {} s')"
      if "q_wait_comeback v \<longleftrightarrow> action = WLAN_PA_GAS_COMEBACK_RESP" for c p f m
      by (rule rx_body_total [OF st assms(4)]) (use that in simp)
    show ?thesis
      using v(2) act l assms(1,4) d bo st(1) by (auto simp: succeeds_simps Let_def)
  qed
  show ?thesis
  proof (cases "len < 4")
    case True
    then show ?thesis using Some assms by (simp add: gas_query_rx_def succeeds_simps)
  next
    case False
    let ?tok = "data ! 1"
    have r: "rd data 0 = Some (data ! 0)" "rd data 1 = Some ?tok" using False assms(4) by (auto simp: rd_def)
    show ?thesis
    proof (cases "find (\<lambda>q. key_of g q = (sa, ?tok)) (gas_pending g)")
      case None
      then show ?thesis
        using Some False r find assms(1) by (simp add: gas_query_rx_def succeeds_simps)
    next
      case (Some q)
      then have "q \<in> set (gas_pending g)" "key_of g q = (sa, ?tok)" by (auto simp: find_Some_iff)
      from main [OF this, of "data ! 0"] show ?thesis
        using \<open>gas s = Some g\<close> Some False r find assms(1)
        by (simp only: gas_query_rx_def option.case bind.simps if_False if_True simp_thms split: if_split)
          (auto simp: succeeds_simps)
    qed
  qed
qed

end


section \<open>Delivery of responses\<close>

text \<open>A round in which every allocation succeeds and the driver accepts the frame.\<close>

definition env_ok :: "gas_env \<Rightarrow> bool" where
  "env_ok env \<longleftrightarrow> ge_alloc_adv env \<and> ge_resize env \<and> ge_alloc_req env \<and> ge_tx env = 0"

definition initial_frame :: "u8 \<Rightarrow> u16 \<Rightarrow> wpabuf \<Rightarrow> bytes" where
  "initial_frame tok delay p =
     drop 1 (wpabuf_data (the (the (gas_anqp_build_initial_resp_buf True tok 0 delay (Some p)))))"

definition comeback_frame :: "u8 \<Rightarrow> u8 \<Rightarrow> bool \<Rightarrow> wpabuf \<Rightarrow> bytes" where
  "comeback_frame tok frag m p =
     drop 1 (wpabuf_data (the (the (gas_anqp_build_comeback_resp_buf True tok 0 frag m 0 (Some p)))))"

lemma initial_frame_eq:
  assumes "wpabuf_inv p"
  shows "initial_frame tok delay p = [11, tok, 0, 0] @ put_le16 delay @ [108, 2, 0x7f, 0] @
     put_le16 (word_of_nat (wpabuf_len p)) @ wpabuf_data p"
proof -
  obtain b1 b2 b3 where "gas_anqp_open 0x7f (gas_build_resp True 11 tok 0 0 False delay (4 + wpabuf_len p))
        = Some (Some b1)" "wpabuf_put_buf b1 p = Some b2" "gas_anqp_set_len b2 = Some b3"
      "wpabuf_data b3 = resp_hdr 11 tok 0 0 False delay @ [108, 2, 0x7f, 0] @
        put_le16 (word_of_nat (wpabuf_len p)) @ wpabuf_data p"
    using gas_anqp_resp_frame [of 11 p tok 0 0 False delay] assms by auto
  then show ?thesis
    by (simp add: initial_frame_def gas_anqp_build_initial_resp_buf_def gas_anqp_build_initial_resp_def
        gas_build_initial_resp_def resp_hdr_def put_le16_def)
qed

lemma comeback_frame_eq:
  assumes "wpabuf_inv p"
  shows "comeback_frame tok frag m p = [13, tok, 0, 0, frag OR (if m then 0x80 else 0), 0, 0, 108, 2, 0x7f, 0] @
     put_le16 (word_of_nat (wpabuf_len p)) @ wpabuf_data p"
proof -
  obtain b1 b2 b3 where "gas_anqp_open 0x7f (gas_build_resp True 13 tok 0 frag m 0 (4 + wpabuf_len p))
        = Some (Some b1)" "wpabuf_put_buf b1 p = Some b2" "gas_anqp_set_len b2 = Some b3"
      "wpabuf_data b3 = resp_hdr 13 tok 0 frag m 0 @ [108, 2, 0x7f, 0] @
        put_le16 (word_of_nat (wpabuf_len p)) @ wpabuf_data p"
    using gas_anqp_resp_frame [of 13 p tok 0 frag m 0] assms by auto
  then show ?thesis
    by (simp add: comeback_frame_def gas_anqp_build_comeback_resp_buf_def gas_anqp_build_comeback_resp_def
        gas_build_comeback_resp_def resp_hdr_def put_le16_def)
qed

lemma find_unique:
  "inj_on f (set xs) \<Longrightarrow> x \<in> set xs \<Longrightarrow> find (\<lambda>y. f y = f x) xs = Some x"
  by (induction xs) (auto simp: inj_on_def)

lemma get_pending_unique:
  assumes "gas_inv D s" "gas s = Some g" "q \<in> set (gas_pending g)" "gas_heap g q = Some v"
  shows "gas_query_get_pending g (q_addr v) (q_dialog_token v) = Some (Some q)"
proof -
  have "length (q_addr v) = 6" "inj_on (key_of g) (set (gas_pending g))"
    using assms by (auto simp: gas_inv_def query_wf_def)
  then show ?thesis
    using gas_query_get_pending_spec [OF assms(1,2)] find_unique [OF _ assms(3), of "key_of g"] assms(4)
    by (simp add: key_of_def)
qed

lemma get_le16_put: "get_le16 (put_le16 v ! 0) (put_le16 v ! 1) = v"
  by (simp add: put_le16_def get_put_le16)

lemma put_le16_split: "\<exists>a b. put_le16 v = [a, b] \<and> get_le16 a b = v"
  by (simp add: put_le16_def get_put_le16)

lemma get_le16_zero: "get_le16 0 0 = 0"
  by (simp add: get_le16_def)

lemma unat_of_len: "n < 65536 \<Longrightarrow> unat (word_of_nat n :: u16) = n"
  by (simp add: unsigned_of_nat take_bit_nat_eq_self)

definition resp_bytes :: "gas_query_pending \<Rightarrow> bytes" where
  "resp_bytes v = (case q_resp v of None \<Rightarrow> [] | Some b \<Rightarrow> wpabuf_data b)"

lemma append_ok:
  assumes "query_wf v"
  shows "\<exists>v'. gas_query_append True v d = Some (0, v') \<and> query_wf v' \<and> q_addr v' = q_addr v \<and>
    q_dialog_token v' = q_dialog_token v \<and> q_cb v' = q_cb v \<and> q_adv_proto v' = q_adv_proto v \<and>
    q_wait_comeback v' = q_wait_comeback v \<and> q_next_frag_id v' = q_next_frag_id v \<and>
    q_resp v' \<noteq> None \<and> resp_bytes v' = resp_bytes v @ d"
  using gas_query_append_spec [OF assms, of True d]
  by (auto simp: succeeds_def resp_bytes_def)

lemma append_status: "gas_query_append ok v d = Some (x, v') \<Longrightarrow> q_status_code v' = q_status_code v"
  by (auto simp: gas_query_append_def Let_def split: if_splits prod.splits option.splits bind_splits)

lemma rx_initial_completes:
  assumes "gas_inv {} s" "gas s = Some g" "q \<in> set (gas_pending g)" "gas_heap g q = Some v"
    and "\<not> q_wait_comeback v" "q_resp v = None" "env_ok env" "wpabuf_inv p" "wpabuf_len p < 65536"
  shows "\<exists>v1 a r. gas_query_rx cbf env s (q_addr v) (initial_frame (q_dialog_token v) 0 p)
        (length (initial_frame (q_dialog_token v) 0 p)) =
      map_option (Pair 0) (gas_query_done cbf (set_query q (Some v1) s) q GAS_QUERY_SUCCESS) \<and>
    gas_inv {} (set_query q (Some v1) s) \<and> q_cb v1 = q_cb v \<and> q_addr v1 = q_addr v \<and>
    q_dialog_token v1 = q_dialog_token v \<and> q_status_code v1 = 0 \<and>
    q_adv_proto v1 = Some a \<and> wpabuf_data a = [108, 2, 0x7f, 0] \<and>
    q_resp v1 = Some r \<and> wpabuf_data r = wpabuf_data p"
proof -
  let ?f = "initial_frame (q_dialog_token v) 0 p"
  obtain l0 l1 where l: "put_le16 (word_of_nat (wpabuf_len p)) = [l0, l1]"
    "unat (get_le16 l0 l1) = wpabuf_len p"
    using put_le16_split [of "word_of_nat (wpabuf_len p)"] unat_of_len [OF assms(9)] by metis
  have f: "?f = [11, q_dialog_token v, 0, 0, 0, 0, 108, 2, 0x7f, 0, l0, l1] @ wpabuf_data p"
    using initial_frame_eq [OF assms(8)] l by (simp add: put_le16_def)
  have len: "length (wpabuf_data p) = wpabuf_len p" by (rule length_wpabuf_data [OF assms(8)])
  have q: "get_query s q = Some v" using assms by (simp add: get_query_def)
  have wf: "query_wf v" using gas_inv_query [OF assms(1) q] .
  let ?v0 = "v\<lparr>q_status_code := 0\<rparr>"
  let ?s0 = "set_query q (Some ?v0) s"
  have s0: "gas_inv {} ?s0" by (rule gas_inv_set [OF assms(1) q]) (use wf in \<open>simp_all add: query_wf_def\<close>)
  have q0: "get_query ?s0 q = Some ?v0" using assms(2) by simp
  obtain a where a: "wpabuf_alloc_copy True [108, 2, 0x7f, 0] = Some (Some a)" "wpabuf_inv a"
    "wpabuf_data a = [108, 2, 0x7f, 0]"
    using wpabuf_alloc_copy_data by blast
  let ?v1 = "?v0\<lparr>q_adv_proto := Some a\<rparr>"
  have w1: "query_wf ?v1" using wf a(2) by (simp add: query_wf_def buf_ok_def)
  obtain v2 where v2: "gas_query_append True ?v1 (wpabuf_data p) = Some (0, v2)" "query_wf v2"
    "q_addr v2 = q_addr v" "q_dialog_token v2 = q_dialog_token v" "q_cb v2 = q_cb v"
    "q_adv_proto v2 = Some a" "q_resp v2 \<noteq> None" "resp_bytes v2 = wpabuf_data p"
    using append_ok [OF w1, of "wpabuf_data p"] assms(6) by (auto simp: resp_bytes_def)
  let ?s1 = "set_query q (Some v2) (set_query q (Some ?v1) ?s0)"
  have s1: "?s1 = set_query q (Some v2) s" "?s1 = set_query q (Some v2) ?s0"
    by (simp_all add: set_query_def option.map_comp o_def)
  have inv1: "gas_inv {} ?s1" unfolding s1(2) by (rule gas_inv_set [OF s0 q0 v2(2)]) (use v2 in simp_all)
  have e: "ge_alloc_adv env" "ge_resize env" using assms(7) by (simp_all add: env_ok_def)
  have ini: "gas_query_rx_initial cbf env ?s0 q ?f 6 12 (wpabuf_len p) 0 =
      gas_query_done cbf ?s1 q GAS_QUERY_SUCCESS"
    using q0 a(1) e v2(1) len by (simp add: gas_query_rx_initial_def f rd_def rd_bytes_def)
  have "gas_query_rx cbf env s (q_addr v) ?f (length ?f) =
      map_option (Pair 0) (gas_query_rx_initial cbf env ?s0 q ?f 6 12 (wpabuf_len p) 0)"
    using assms(2,5) get_pending_unique [OF assms(1-4)] q l(2) len
    by (simp add: gas_query_rx_def gas_query_rx_body_def f rd_def rd_le16_def get_le16_zero
        map_conv_bind_option o_def)
  then show ?thesis
    using ini inv1 v2 a append_status [OF v2(1)] unfolding s1(1)
    by (intro exI [of _ v2] exI [of _ a] exI [of _ "the (q_resp v2)"]) (auto simp: resp_bytes_def split: option.splits)
qed

lemma get_query_freed: "get_query (set_query q None s) p = (if p = q then None else get_query s p)"
  by (cases "gas s") (simp_all add: get_query_def set_query_def)

lemma unlinked_timers:
  "\<not> eloop_is_timeout_registered H_gas_query_timeout (gas_ptr g) q (eloop (unlinked s g q))"
  "\<not> eloop_is_timeout_registered H_gas_query_tx_comeback_timeout (gas_ptr g) q (eloop (unlinked s g q))"
proof -
  obtain n1 e1 where e1: "eloop_cancel_timeout H_gas_query_tx_comeback_timeout (gas_ptr g) q (eloop s) = (n1, e1)" by fastforce
  obtain n2 e2 where e2: "eloop_cancel_timeout H_gas_query_timeout (gas_ptr g) q e1 = (n2, e2)" by fastforce
  have e: "eloop (unlinked s g q) = e2" using e1 e2 by (simp add: unlinked_def cancel_timer_def)
  note f1 = eloop_cancel_timeout_exact [OF e1] and f2 = eloop_cancel_timeout_exact [OF e2]
  show "\<not> eloop_is_timeout_registered H_gas_query_timeout (gas_ptr g) q (eloop (unlinked s g q))" using e f2 by simp
  show "\<not> eloop_is_timeout_registered H_gas_query_tx_comeback_timeout (gas_ptr g) q (eloop (unlinked s g q))"
  proof -
    have "set (el_timeout e2) \<subseteq> set (el_timeout e1)" using f2 by simp
    moreover have "\<not> eloop_is_timeout_registered H_gas_query_tx_comeback_timeout (gas_ptr g) q e1" using f1 by simp
    ultimately show ?thesis unfolding e eloop_is_timeout_registered_def list_ex_iff by (meson subsetD)
  qed
qed

lemma done_calls_once:
  assumes "gas_inv {} s" "gas s = Some g" "gas_heap g q = Some v"
  shows "gas_query_done cbf s q result = do {
     s' \<leftarrow> cbf (q_cb v) (q_addr v) (q_dialog_token v) result (q_adv_proto v) (q_resp v) (q_status_code v) (unlinked s g q);
     _ \<leftarrow> get_query s' q;
     Some (set_query q None s') }"
  using assms gas_inv_unlinked(2) [OF assms] by (simp add: gas_query_done_def Let_def unlinked_def)

text \<open>
  C18. An initial response is delivered once and its query is freed. For every requester \<open>cbf\<close>, handling the response
  frame that \<open>gas_anqp_build_initial_resp_buf\<close> builds for a pending query, without comeback delay, is exactly one call
  of the callback, with \<open>GAS_QUERY_SUCCESS\<close>, the Advertisement Protocol element of the frame and the payload that was put
  into the frame, followed by freeing the query. When the callback runs, the query is off the list of pending queries and
  its two timers are cancelled, so that neither a second response nor a timeout can reach it.
\<close>

theorem gas_query_rx_initial_delivers:
  assumes "gas_inv {} s" "gas s = Some g" "q \<in> set (gas_pending g)" "gas_heap g q = Some v"
    and "\<not> q_wait_comeback v" "q_resp v = None" "env_ok env" "wpabuf_inv p" "wpabuf_len p < 65536"
    and rx_def: "rx = gas_query_rx cbf env s (q_addr v) (initial_frame (q_dialog_token v) 0 p) (length (initial_frame (q_dialog_token v) 0 p))"
  shows "\<exists>u g' a r. rx = do {
         s' \<leftarrow> cbf (q_cb v) (q_addr v) (q_dialog_token v) GAS_QUERY_SUCCESS (Some a) (Some r) 0 u;
         _ \<leftarrow> get_query s' q;
         Some (0, set_query q None s') } \<and>
    wpabuf_data a = [108, 2, 0x7f, 0] \<and> wpabuf_data r = wpabuf_data p \<and>
    gas u = Some g' \<and> gas_pending g' = remove1 q (gas_pending g) \<and>
    \<not> eloop_is_timeout_registered H_gas_query_timeout (gas_ptr g) q (eloop u) \<and>
    \<not> eloop_is_timeout_registered H_gas_query_tx_comeback_timeout (gas_ptr g) q (eloop u) \<and>
    (\<forall>x s'. rx = Some (x, s') \<longrightarrow> get_query s' q = None)"
proof -
  obtain v1 a r where v1: "rx = map_option (Pair 0) (gas_query_done cbf (set_query q (Some v1) s) q GAS_QUERY_SUCCESS)"
    "gas_inv {} (set_query q (Some v1) s)" "q_cb v1 = q_cb v" "q_addr v1 = q_addr v" "q_dialog_token v1 = q_dialog_token v"
    "q_status_code v1 = 0" "q_adv_proto v1 = Some a" "wpabuf_data a = [108, 2, 0x7f, 0]" "q_resp v1 = Some r"
    "wpabuf_data r = wpabuf_data p"
    using rx_initial_completes [OF assms(1-9), of cbf] unfolding rx_def by blast
  let ?g = "g\<lparr>gas_heap := (gas_heap g)(q \<mapsto> v1)\<rparr>" and ?s = "set_query q (Some v1) s"
  have g: "gas ?s = Some ?g" "gas_heap ?g q = Some v1" using assms(2) by (simp_all add: set_query_def)
  have rx: "rx = do {
      s' \<leftarrow> cbf (q_cb v) (q_addr v) (q_dialog_token v) GAS_QUERY_SUCCESS (Some a) (Some r) 0 (unlinked ?s ?g q);
      _ \<leftarrow> get_query s' q;
      Some (0, set_query q None s') }"
    unfolding v1(1) done_calls_once [OF v1(2) g] v1(3-7,9) by (simp add: map_conv_bind_option o_def)
  then have "\<forall>x s'. rx = Some (x, s') \<longrightarrow> get_query s' q = None"
    by (auto simp: bind_eq_Some_conv get_query_freed)
  moreover have "gas (unlinked ?s ?g q) = Some (?g\<lparr>gas_pending := remove1 q (gas_pending g)\<rparr>)" by (simp add: unlinked_def)
  ultimately show ?thesis
    using rx v1(8,10) unlinked_timers [of ?g q ?s]
    by (intro exI [of _ "unlinked ?s ?g q"] exI [of _ "?g\<lparr>gas_pending := remove1 q (gas_pending g)\<rparr>"] exI [of _ a] exI [of _ r]) simp
qed


section \<open>Reassembly of fragments\<close>

definition waiting :: "wpa_supplicant \<Rightarrow> ptr \<Rightarrow> bytes \<Rightarrow> u8 \<Rightarrow> u8 \<Rightarrow> bytes \<Rightarrow> bool" where
  "waiting s q sa tok i acc \<longleftrightarrow> gas_inv {} s \<and> (\<exists>g v a. gas s = Some g \<and> q \<in> set (gas_pending g) \<and>
     gas_heap g q = Some v \<and> q_addr v = sa \<and> q_dialog_token v = tok \<and> q_wait_comeback v \<and>
     q_adv_proto v = Some a \<and> wpabuf_data a = [108, 2, 0x7f, 0] \<and> q_next_frag_id v = i \<and>
     resp_bytes v = acc \<and> (acc \<noteq> [] \<longrightarrow> q_resp v \<noteq> None))"

lemma frag_bits:
  assumes "i < (128 :: u8)"
  shows "(i OR (if m then 0x80 else 0)) AND 0x7f = i" "((i OR (if m then 0x80 else 0)) AND 0x80 \<noteq> 0) = m"
proof -
  have m7: "(0x7f :: u8) = mask 7" by (simp add: mask_eq_exp_minus_1)
  have "unat (take_bit 7 i) = unat i"
    using assms by (simp add: unsigned_take_bit_eq take_bit_nat_eq_self word_less_nat_alt)
  then have i: "i AND mask 7 = i" by (metis take_bit_eq_mask unsigned_word_eqI)
  then show "(i OR (if m then 0x80 else 0)) AND 0x7f = i"
    unfolding m7 by (simp add: bit.conj_disj_distrib2 mask_eq_exp_minus_1)
  have "i AND 0x80 = (i AND mask 7) AND 0x80" using i by simp
  also have "\<dots> = 0" by (simp add: and.assoc mask_eq_exp_minus_1)
  finally show "((i OR (if m then 0x80 else 0)) AND 0x80 \<noteq> 0) = m"
    by (simp add: bit.conj_disj_distrib2)
qed

lemma comeback_step:
  fixes m :: bool
  assumes w: "waiting s q sa tok i acc" and env: "env_ok env" and p: "wpabuf_inv p" "wpabuf_len p < 65536"
    and i: "i < 128"
  defines "f \<equiv> comeback_frame tok i m p"
  shows "\<exists>s1 v1. gas_query_rx cbf env s sa f (length f) = map_option (Pair 0)
        (if m then gas_query_tx_comeback_req cbf env s1 q else gas_query_done cbf s1 q GAS_QUERY_SUCCESS) \<and>
      waiting s1 q sa tok (i + 1) (acc @ wpabuf_data p) \<and> get_query s1 q = Some v1 \<and> q_resp v1 \<noteq> None"
proof -
  obtain g v a where g: "gas_inv {} s" "gas s = Some g" "q \<in> set (gas_pending g)" "gas_heap g q = Some v"
    and v: "q_addr v = sa" "q_dialog_token v = tok" "q_wait_comeback v" "q_adv_proto v = Some a"
    "wpabuf_data a = [108, 2, 0x7f, 0]" "q_next_frag_id v = i" "resp_bytes v = acc"
    using w unfolding waiting_def by blast
  obtain l0 l1 where l: "put_le16 (word_of_nat (wpabuf_len p)) = [l0, l1]"
    "unat (get_le16 l0 l1) = wpabuf_len p"
    using put_le16_split [of "word_of_nat (wpabuf_len p)"] unat_of_len [OF p(2)] by metis
  define fo where "fo = i OR (if m then 0x80 else 0)"
  have f: "f = [13, tok, 0, 0, fo, 0, 0, 108, 2, 0x7f, 0, l0, l1] @ wpabuf_data p"
    using comeback_frame_eq [OF p(1)] l by (simp add: f_def fo_def)
  have fb: "fo AND 0x7f = i" "(fo AND 0x80 \<noteq> 0) = m"
    unfolding fo_def by (rule frag_bits [OF i])+
  have len: "length (wpabuf_data p) = wpabuf_len p" by (rule length_wpabuf_data [OF p(1)])
  have q: "get_query s q = Some v" using g by (simp add: get_query_def)
  have wf: "query_wf v" using gas_inv_query [OF g(1) q] .
  then have a: "wpabuf_inv a" using v(4) by (simp add: query_wf_def buf_ok_def)
  have u: "wb_used a = 4" using length_wpabuf_data [OF a] v(5) by (simp add: wpabuf_len_def)
  have al: "wpabuf_len a = 4" "take 4 (wpabuf_head a) = [108, 2, 0x7f, 0]" "4 \<le> length (wpabuf_head a)"
    using u v(5) a by (simp_all add: wpabuf_data_def wpabuf_len_def wpabuf_inv_def)
  let ?v0 = "v\<lparr>q_status_code := 0\<rparr>"
  let ?s0 = "set_query q (Some ?v0) s"
  let ?v1 = "?v0\<lparr>q_next_frag_id := i + 1\<rparr>"
  have s0: "gas_inv {} ?s0" by (rule gas_inv_set [OF g(1) q]) (use wf in \<open>simp_all add: query_wf_def\<close>)
  have q0: "get_query ?s0 q = Some ?v0" using g(2) by simp
  have w1: "query_wf ?v1" using wf by (simp add: query_wf_def)
  obtain v2 where v2: "gas_query_append True ?v1 (wpabuf_data p) = Some (0, v2)" "query_wf v2"
    "q_addr v2 = sa" "q_dialog_token v2 = tok" "q_adv_proto v2 = Some a" "q_wait_comeback v2"
    "q_next_frag_id v2 = i + 1" "q_resp v2 \<noteq> None" "resp_bytes v2 = acc @ wpabuf_data p"
    using append_ok [OF w1, of "wpabuf_data p"] v by (auto simp: resp_bytes_def)
  let ?s1 = "set_query q (Some v2) ?s0"
  have inv1: "gas_inv {} ?s1" by (rule gas_inv_set [OF s0 q0 v2(2)]) (use v2 v in simp_all)
  have A: "waiting ?s1 q sa tok (i + 1) (acc @ wpabuf_data p)"
    unfolding waiting_def using inv1 g v2 v(5) by simp
  have B: "gas_query_rx_comeback cbf env ?s0 q f 7 13 (wpabuf_len p) i m 0 =
      (if m then gas_query_tx_comeback_req cbf env ?s1 q else gas_query_done cbf ?s1 q GAS_QUERY_SUCCESS)"
    using q0 v al env v2(1) len
    by (simp add: gas_query_rx_comeback_def f rd_def rd_bytes_def memeq_def env_ok_def)
  have C: "gas_query_rx cbf env s sa f (length f) =
      map_option (Pair 0) (gas_query_rx_comeback cbf env ?s0 q f 7 13 (wpabuf_len p) i m 0)"
    using g(2) v(1-3) get_pending_unique [OF g] q l(2) len fb
    by (simp add: gas_query_rx_def gas_query_rx_body_def f rd_def rd_le16_def get_le16_zero
        map_conv_bind_option o_def)
  have "get_query ?s1 q = Some v2" using g(2) by simp
  then show ?thesis using A v2(8) unfolding C B by (intro exI conjI) (rule refl)
qed

lemma tx_comeback_req_waiting:
  assumes w: "waiting s q sa tok i acc" and env: "env_ok env"
  shows "\<exists>s'. gas_query_tx_comeback_req cbf env s q = Some s' \<and> waiting s' q sa tok i acc"
proof -
  obtain g v a where g: "gas_inv {} s" "gas s = Some g" "q \<in> set (gas_pending g)" "gas_heap g q = Some v"
    and v: "q_addr v = sa" "q_dialog_token v = tok" "q_wait_comeback v" "q_adv_proto v = Some a"
    "wpabuf_data a = [108, 2, 0x7f, 0]" "q_next_frag_id v = i" "resp_bytes v = acc"
    "acc \<noteq> [] \<longrightarrow> q_resp v \<noteq> None"
    using w unfolding waiting_def by blast
  have q: "get_query s q = Some v" using g by (simp add: get_query_def)
  obtain b where b: "gas_build_comeback_req True (q_dialog_token v) = Some (Some b)" "wpabuf_inv b"
    using gas_build_req_data [of 12 "q_dialog_token v" 0] by (auto simp: gas_build_comeback_req_def)
  let ?v = "v\<lparr>q_offchannel_tx_started := True\<rparr>"
  let ?s = "set_query q (Some ?v) (s\<lparr>tx_log := tx_log s @ [(q_freq v, q_addr v, wpabuf_data b)]\<rparr>)"
  have "rd_bytes (wpabuf_head b) 0 (wpabuf_len b) = Some (wpabuf_data b)"
    using b(2) by (simp add: rd_bytes_def wpabuf_inv_def wpabuf_len_def wpabuf_data_def)
  then have "gas_query_tx_comeback_req cbf env s q = Some ?s"
    using q b(1) env by (simp add: gas_query_tx_comeback_req_def gas_query_tx_def env_ok_def)
  moreover have "gas_inv {} ?s"
    by (rule gas_inv_set [where v = v])
      (use g q gas_inv_query [OF g(1) q] in \<open>simp_all add: query_wf_def\<close>)
  ultimately show ?thesis
    unfolding waiting_def using g v by (auto simp: resp_bytes_def)
qed

text \<open>The frames are handed to \<open>gas_query_rx\<close> one after the other.\<close>

fun rx_frames :: "cb_fun \<Rightarrow> gas_env \<Rightarrow> wpa_supplicant \<Rightarrow> bytes \<Rightarrow> bytes list \<Rightarrow> wpa_supplicant option" where
  "rx_frames cbf env s sa [] = Some s"
| "rx_frames cbf env s sa (f # fs) = do {
     (r, s') \<leftarrow> gas_query_rx cbf env s sa f (length f);
     rx_frames cbf env s' sa fs }"

fun fragments :: "u8 \<Rightarrow> u8 \<Rightarrow> wpabuf list \<Rightarrow> bytes list" where
  "fragments tok i [] = []"
| "fragments tok i (p # ps) = comeback_frame tok i (ps \<noteq> []) p # fragments tok (i + 1) ps"

lemma rx_fragments:
  assumes "waiting s q sa tok i acc" "env_ok env" "ps \<noteq> []" "unat i + length ps \<le> 128"
    and "list_all (\<lambda>p. wpabuf_inv p \<and> wpabuf_len p < 65536) ps"
  shows "\<exists>s1 v1. rx_frames cbf env s sa (fragments tok i ps) = gas_query_done cbf s1 q GAS_QUERY_SUCCESS \<and>
    gas_inv {} s1 \<and> get_query s1 q = Some v1 \<and> q_resp v1 \<noteq> None \<and>
    resp_bytes v1 = acc @ concat (map wpabuf_data ps)"
  using assms
proof (induction ps arbitrary: s i acc)
  case (Cons p ps)
  have i: "i < 128" using Cons.prems(4) by (simp add: word_less_nat_alt)
  have p: "wpabuf_inv p" "wpabuf_len p < 65536" using Cons.prems(5) by simp_all
  obtain s1 v1 where s1: "gas_query_rx cbf env s sa (comeback_frame tok i (ps \<noteq> []) p)
        (length (comeback_frame tok i (ps \<noteq> []) p)) = map_option (Pair 0)
        (if ps \<noteq> [] then gas_query_tx_comeback_req cbf env s1 q else gas_query_done cbf s1 q GAS_QUERY_SUCCESS)"
    "waiting s1 q sa tok (i + 1) (acc @ wpabuf_data p)" "get_query s1 q = Some v1" "q_resp v1 \<noteq> None"
    using comeback_step [OF Cons.prems(1,2) p i, of cbf "ps \<noteq> []"] by blast
  show ?case
  proof (cases "ps = []")
    case True
    have "resp_bytes v1 = acc @ wpabuf_data p" "gas_inv {} s1"
      using s1(2,3) by (auto simp: waiting_def get_query_def)
    then show ?thesis
      using True s1 by (intro exI [of _ s1] exI [of _ v1])
        (auto simp: map_conv_bind_option o_def split: Option.bind_splits)
  next
    case False
    obtain s2 where s2: "gas_query_tx_comeback_req cbf env s1 q = Some s2"
      "waiting s2 q sa tok (i + 1) (acc @ wpabuf_data p)"
      using tx_comeback_req_waiting [OF s1(2) Cons.prems(2)] by blast
    have "unat (i + 1) = unat i + 1"
      using i by (simp add: unat_word_ariths word_less_nat_alt)
    then have "unat (i + 1) + length ps \<le> 128" using Cons.prems(4) by simp
    from Cons.IH [OF s2(2) Cons.prems(2) False this] show ?thesis
      using Cons.prems(5) s1(1) s2(1) False by (simp add: add.commute)
  qed
qed simp

text \<open>
  C12. Fragmented responses are reassembled. Up to 128 comeback response frames, built with
  consecutive fragment identifiers and the "more fragments" bit on all but the last, complete a waiting
  query with \<open>GAS_QUERY_SUCCESS\<close> and the concatenation of their payloads, in order.
\<close>

theorem gas_query_rx_reassembles:
  assumes "waiting s q sa tok 0 []" "env_ok env" "ps \<noteq> []" "length ps \<le> 128"
    and "list_all (\<lambda>p. wpabuf_inv p \<and> wpabuf_len p < 65536) ps"
  shows "\<exists>s1 v1 r. rx_frames cbf env s sa (fragments tok 0 ps) = gas_query_done cbf s1 q GAS_QUERY_SUCCESS \<and>
    gas_inv {} s1 \<and> get_query s1 q = Some v1 \<and> q_resp v1 = Some r \<and>
    wpabuf_data r = concat (map wpabuf_data ps)"
  using rx_fragments [OF assms(1-3) _ assms(5), of cbf] assms(4)
  by (fastforce simp: resp_bytes_def)


section \<open>Requests\<close>

definition token_used :: "gas_query \<Rightarrow> bytes \<Rightarrow> u8 \<Rightarrow> bool" where
  "token_used g dst tok = list_ex (\<lambda>p. key_of g p = (dst, tok)) (gas_pending g)"

lemma token_available_spec:
  assumes "gas_inv D s" "gas s = Some g" "length dst = 6"
  shows "gas_query_dialog_token_available g dst tok = Some (\<not> token_used g dst tok)"
  using gas_query_get_pending_spec [OF assms, of tok]
  by (auto simp: gas_query_dialog_token_available_def gas_query_get_pending_def token_used_def
      find_None_iff list_ex_iff)

lemma find_token_spec:
  assumes "\<And>tok. gas_query_dialog_token_available g dst tok = Some (\<not> token_used g dst tok)"
  shows "\<exists>k. find_token g dst i n = Some k \<and> i \<le> k \<and> k \<le> i + n \<and>
    (k < i + n \<longrightarrow> \<not> token_used g dst (word_of_nat k)) \<and>
    (\<forall>j. i \<le> j \<longrightarrow> j < k \<longrightarrow> token_used g dst (word_of_nat j))"
proof (induction n arbitrary: i)
  case (Suc n)
  show ?case
  proof (cases "token_used g dst (word_of_nat i)")
    case True
    obtain k where k: "find_token g dst (i + 1) n = Some k" "i + 1 \<le> k" "k \<le> i + 1 + n"
      "k < i + 1 + n \<longrightarrow> \<not> token_used g dst (word_of_nat k)"
      "\<forall>j. i + 1 \<le> j \<longrightarrow> j < k \<longrightarrow> token_used g dst (word_of_nat j)"
      using Suc.IH [of "i + 1"] by blast
    have "token_used g dst (word_of_nat j)" if "i \<le> j" "j < k" for j
      using that True k(5) by (cases "j = i") auto
    then show ?thesis using True k assms by (intro exI [of _ k]) auto
  next
    case False
    then show ?thesis using assms by (intro exI [of _ i]) auto
  qed
qed simp

lemma find_token_full:
  assumes "gas_inv D s" "gas s = Some g" "length dst = 6"
  obtains k where "find_token g dst 0 256 = Some k" "k \<le> 256"
    "k < 256 \<Longrightarrow> \<not> token_used g dst (word_of_nat k)" "k = 256 \<Longrightarrow> token_used g dst tok"
proof -
  obtain k where k: "find_token g dst 0 256 = Some k" "k \<le> 256"
    "k < 256 \<longrightarrow> \<not> token_used g dst (word_of_nat k)"
    "\<forall>j. j < k \<longrightarrow> token_used g dst (word_of_nat j)"
    using find_token_spec [OF token_available_spec [OF assms], of 0 256] by auto
  have "token_used g dst tok" if "k = 256"
    using k(4) [rule_format, of "unat tok"] that unsigned_less [where ?'a = nat, of tok] by simp
  then show ?thesis using k by (intro that [of k]) auto
qed

lemma gas_inv_add:
  assumes "gas_inv D s" "gas s = Some g" "gas_heap g q = None" "query_wf v"
    and "\<not> token_used g (q_addr v) (q_dialog_token v)"
  shows "gas_inv D (s\<lparr>gas := Some (g\<lparr>gas_pending := q # gas_pending g, gas_heap := (gas_heap g)(q \<mapsto> v)\<rparr>)\<rparr>)"
proof -
  let ?g = "g\<lparr>gas_pending := q # gas_pending g, gas_heap := (gas_heap g)(q \<mapsto> v)\<rparr>"
  have p: "distinct (gas_pending g)" "set (gas_pending g) \<inter> D = {}" "set (gas_pending g) \<union> D = dom (gas_heap g)"
    "inj_on (key_of g) (set (gas_pending g))" "\<forall>q v. gas_heap g q = Some v \<longrightarrow> query_wf v"
    using assms(1,2) by (auto simp: gas_inv_def)
  have nq: "q \<notin> set (gas_pending g)" "q \<notin> D" using p(3) assms(3) by auto
  have k: "key_of ?g x = key_of g x" if "x \<in> set (gas_pending g)" for x
    using that nq by (auto simp: key_of_def)
  have kq: "key_of ?g q = (q_addr v, q_dialog_token v)" by (simp add: key_of_def)
  have "inj_on (key_of ?g) (set (q # gas_pending g))"
    using p(4) k kq nq assms(5) by (auto simp: inj_on_def token_used_def list_ex_iff)
  then show ?thesis using p assms(2,4) nq by (auto simp: gas_inv_def)
qed

lemma store_token:
  assumes "wpabuf_inv req" "3 \<le> wpabuf_len req"
  obtains b where "wpabuf_store req 2 [tok] = Some b" "wpabuf_inv b" "wpabuf_data b = (wpabuf_data req)[2 := tok]"
    "rd_bytes (wpabuf_head b) 0 (wpabuf_len b) = Some (wpabuf_data b)"
proof -
  obtain b where b: "wpabuf_store req 2 [tok] = Some b" "wpabuf_inv b"
    "wpabuf_data b = take 2 (wpabuf_data req) @ [tok] @ drop 3 (wpabuf_data req)"
    using wpabuf_store_spec [OF assms(1), of 2 "[tok]"] assms(2) by auto
  have "2 < length (wpabuf_data req)" using assms length_wpabuf_data [OF assms(1)] by simp
  then have "wpabuf_data b = (wpabuf_data req)[2 := tok]" using b(3) by (simp add: upd_conv_take_nth_drop)
  moreover have "rd_bytes (wpabuf_head b) 0 (wpabuf_len b) = Some (wpabuf_data b)"
    using b(2) by (simp add: rd_bytes_def wpabuf_inv_def wpabuf_len_def wpabuf_data_def)
  ultimately show ?thesis using b that by blast
qed

text \<open>\<open>gas_frame s s'\<close>: from \<open>s\<close> to \<open>s'\<close> only the query layer, the event loop and the sent frames have changed.\<close>

definition gas_frame :: "wpa_supplicant \<Rightarrow> wpa_supplicant \<Rightarrow> bool" where
  "gas_frame s s' \<longleftrightarrow> s' = s\<lparr>gas := gas s', eloop := eloop s', tx_log := tx_log s'\<rparr>"

lemma gas_query_req_spec:
  assumes "gas_inv D s" "gas s = Some g" "length dst = 6" "wpabuf_inv req" "3 \<le> wpabuf_len req"
    and "gas_heap g q = None" "ge_tx env = 0"
  shows "\<exists>r s'. gas_query_req (Some q) env s dst freq req cb = Some (r, s') \<and> gas_inv D s' \<and> gas_frame s s' \<and>
    (\<forall>x. x \<noteq> q \<longrightarrow> get_query s' x = get_query s x) \<and>
    (if \<forall>tok. token_used g dst tok then r = -1 \<and> s' = s
     else 0 \<le> r \<and> r < 256 \<and> \<not> token_used g dst (word_of_int r) \<and>
       (\<exists>g' v. gas s' = Some g' \<and> gas_pending g' = q # gas_pending g \<and> gas_heap g' q = Some v \<and>
          key_of g' q = (dst, word_of_int r) \<and> q_cb v = cb \<and> \<not> q_wait_comeback v \<and> q_resp v = None) \<and>
       tx_log s' = tx_log s @ [(freq, dst, (wpabuf_data req)[2 := word_of_int r])])"
proof (cases "\<forall>tok. token_used g dst tok")
  case True
  then obtain k where "find_token g dst 0 256 = Some k" "k = 256"
    using find_token_full [OF assms(1-3)] by (metis nat_less_le)
  then show ?thesis using True assms by (simp add: gas_query_req_def gas_frame_def)
next
  case False
  then obtain tok where tok: "\<not> token_used g dst tok" by blast
  obtain k where k: "find_token g dst 0 256 = Some k" "k \<le> 256" "k < 256 \<longrightarrow> \<not> token_used g dst (word_of_nat k)"
    "k = 256 \<longrightarrow> token_used g dst tok"
    using find_token_full [OF assms(1-3), of tok] by metis
  then have k256: "k < 256" using tok by (cases "k = 256") auto
  let ?v = "zero_query\<lparr>q_addr := dst, q_dialog_token := word_of_nat k, q_freq := freq, q_cb := cb\<rparr>"
  let ?s = "s\<lparr>gas := Some (g\<lparr>gas_pending := q # gas_pending g, gas_heap := (gas_heap g)(q \<mapsto> ?v)\<rparr>)\<rparr>"
  have wf: "query_wf ?v" using assms(3) by (simp add: query_wf_def zero_query_def buf_ok_def)
  have inv: "gas_inv D ?s"
    by (rule gas_inv_add [OF assms(1,2,6) wf]) (use k(3) k256 in simp)
  obtain b where b: "wpabuf_store req 2 [word_of_nat k] = Some b"
    "wpabuf_data b = (wpabuf_data req)[2 := word_of_nat k]"
    "rd_bytes (wpabuf_head b) 0 (wpabuf_len b) = Some (wpabuf_data b)"
    using store_token [OF assms(4,5)] by metis
  let ?s1 = "set_query q (Some (?v\<lparr>q_offchannel_tx_started := True\<rparr>))
    (?s\<lparr>tx_log := tx_log s @ [(freq, dst, wpabuf_data b)]\<rparr>)"
  let ?s2 = "register_timer (ge_timer_ok env) (ge_time env) 5 0 H_gas_query_timeout (gas_ptr g) q ?s1"
  have e: "gas_query_req (Some q) env s dst freq req cb = Some (int k, ?s2)"
    using assms k(1) k256 b
    by (simp add: gas_query_req_def gas_query_tx_def get_query_def rd_bytes_def ETH_ALEN_def Let_def)
  have "gas_inv D ?s1"
    by (rule gas_inv_set [where v = ?v]) (use inv wf in \<open>simp_all add: query_wf_def get_query_def\<close>)
  then have "gas_inv D ?s2" by simp
  moreover have "gas_frame s ?s2" by (simp add: gas_frame_def register_timer_def set_query_def)
  moreover have "\<forall>x. x \<noteq> q \<longrightarrow> get_query ?s2 x = get_query s x" using assms(2) by (simp add: get_query_def)
  moreover have "tx_log ?s2 = tx_log s @ [(freq, dst, (wpabuf_data req)[2 := word_of_nat k])]"
    by (simp add: register_timer_def set_query_def b(2))
  ultimately show ?thesis
    using e False k(3) k256
    by (intro exI [of _ "int k"] exI [of _ ?s2]) (simp add: key_of_def zero_query_def)
qed

text \<open>
  Starting a query. \<open>gas_query_req\<close> fails with -1, without any effect, exactly when all 256 dialog
  tokens are in use for the destination; otherwise it queues a query under a token that no other
  pending query to the destination has, returns the token, and the frame given to the driver is the
  request with its dialog token field set. The query layer's invariant holds afterwards.
\<close>

lemma gas_query_req_starts:
  assumes "gas_inv {} s" "gas s = Some g" "length dst = 6" "wpabuf_inv req" "3 \<le> wpabuf_len req"
    and "gas_heap g q = None" "ge_tx env = 0"
  shows "\<exists>r s'. gas_query_req (Some q) env s dst freq req cb = Some (r, s') \<and> gas_inv {} s' \<and>
    (if \<forall>tok. token_used g dst tok then r = -1 \<and> s' = s
     else 0 \<le> r \<and> r < 256 \<and> \<not> token_used g dst (word_of_int r) \<and>
       (\<exists>g' v. gas s' = Some g' \<and> gas_pending g' = q # gas_pending g \<and> gas_heap g' q = Some v \<and>
          key_of g' q = (dst, word_of_int r) \<and> q_cb v = cb \<and> \<not> q_wait_comeback v \<and> q_resp v = None) \<and>
       tx_log s' = tx_log s @ [(freq, dst, (wpabuf_data req)[2 := word_of_int r])])"
proof -
  obtain r s' where "gas_query_req (Some q) env s dst freq req cb = Some (r, s')" "gas_inv {} s'"
    "if \<forall>tok. token_used g dst tok then r = -1 \<and> s' = s
     else 0 \<le> r \<and> r < 256 \<and> \<not> token_used g dst (word_of_int r) \<and>
       (\<exists>g' v. gas s' = Some g' \<and> gas_pending g' = q # gas_pending g \<and> gas_heap g' q = Some v \<and>
          key_of g' q = (dst, word_of_int r) \<and> q_cb v = cb \<and> \<not> q_wait_comeback v \<and> q_resp v = None) \<and>
       tx_log s' = tx_log s @ [(freq, dst, (wpabuf_data req)[2 := word_of_int r])]"
    using gas_query_req_spec [OF assms, of freq cb] by blast
  then show ?thesis by blast
qed

text \<open>
  C37. A failed transmission leaves a freed query on the list. When the driver rejects the request
  frame, \<open>gas_query_req\<close> frees the query without taking it off the pending list: the next GAS response
  received, from any station, makes \<open>gas_query_rx\<close> read the freed object.
\<close>

theorem gas_query_req_failed_tx_dangles:
  assumes "gas_inv {} s" "gas s = Some g" "length dst = 6" "wpabuf_inv req" "3 \<le> wpabuf_len req"
    and "gas_heap g q = None" "ge_tx env < 0" "\<not> token_used g dst tok"
  shows "\<exists>s'. gas_query_req (Some q) env s dst freq req cb = Some (-1, s') \<and>
    (\<forall>cbf env' sa tok' rest. gas_query_rx cbf env' s' sa (11 # tok' # rest) (2 + length rest) = None \<or>
       length rest < 2)"
proof -
  obtain k where k: "find_token g dst 0 256 = Some k" "k \<le> 256" "k = 256 \<longrightarrow> token_used g dst tok"
    using find_token_full [OF assms(1-3), of tok] by metis
  then have k256: "k \<noteq> 256" using assms(8) by auto
  let ?v = "zero_query\<lparr>q_addr := dst, q_dialog_token := word_of_nat k, q_freq := freq, q_cb := cb\<rparr>"
  let ?g = "g\<lparr>gas_pending := q # gas_pending g, gas_heap := (gas_heap g)(q \<mapsto> ?v)\<rparr>"
  obtain b where b: "wpabuf_store req 2 [word_of_nat k] = Some b"
    "rd_bytes (wpabuf_head b) 0 (wpabuf_len b) = Some (wpabuf_data b)"
    using store_token [OF assms(4,5)] by metis
  let ?s' = "set_query q None (s\<lparr>gas := Some ?g\<rparr>)"
  have "gas_query_req (Some q) env s dst freq req cb = Some (-1, ?s')"
    using assms k(1) k256 b
    by (simp add: gas_query_req_def gas_query_tx_def get_query_def rd_bytes_def ETH_ALEN_def Let_def)
  moreover have "gas_query_rx cbf env' ?s' sa (11 # tok' # rest) (2 + length rest) = None"
    if "2 \<le> length rest" for cbf env' sa tok' rest
    using that by (simp add: gas_query_rx_def rd_def gas_query_get_pending_def)
  ultimately show ?thesis by (meson not_less)
qed


section \<open>Examples\<close>

definition small_buf :: "bytes \<Rightarrow> wpabuf" where
  "small_buf d = \<lparr>wb_size = length d, wb_used = length d, ext_data = None, inline_data = d\<rparr>"

lemma small_buf [simp]:
  "wpabuf_inv (small_buf d)" "wpabuf_data (small_buf d) = d" "wpabuf_len (small_buf d) = length d"
  by (simp_all add: small_buf_def wpabuf_inv_def wpabuf_data_def wpabuf_len_def wpabuf_head_def)

definition gq_state :: "gas_query_pending \<Rightarrow> wpa_supplicant" where
  "gq_state v = zero_state\<lparr>gas := Some \<lparr>gas_ptr = 50, gas_pending = [60], gas_heap = [60 \<mapsto> v]\<rparr>\<rparr>"

definition first_query :: gas_query_pending where
  "first_query = zero_query\<lparr>q_addr := [2, 0, 0, 0, 0, 7], q_dialog_token := 3\<rparr>"

definition waiting_query :: gas_query_pending where
  "waiting_query = first_query\<lparr>q_wait_comeback := True, q_adv_proto := Some (small_buf [108, 2, 0x7f, 0])\<rparr>"

definition good_env :: gas_env where
  "good_env = \<lparr>ge_alloc_adv = True, ge_resize = True, ge_alloc_req = True, ge_tx = 0, ge_timer_ok = True,
     ge_time = Some \<lparr>t_sec = 1, t_usec = 0\<rparr>\<rparr>"

definition quiet_cb :: cb_fun where
  "quiet_cb c dst tok result adv resp status s = Some s"

lemma gq_state_inv: "query_wf v \<Longrightarrow> gas_inv {} (gq_state v)"
  by (auto simp: gas_inv_def gq_state_def split: if_splits)

lemma query_examples: "query_wf first_query" "query_wf waiting_query" "env_ok good_env"
  by (simp_all add: query_wf_def first_query_def waiting_query_def zero_query_def buf_ok_def env_ok_def
      good_env_def)

lemma gas_query_rx_initial_delivers_witness:
  "\<exists>u a r. gas_query_rx quiet_cb good_env (gq_state first_query) [2, 0, 0, 0, 0, 7]
        (initial_frame 3 0 (small_buf [0xaa, 0xbb])) (length (initial_frame 3 0 (small_buf [0xaa, 0xbb]))) =
      do { s' \<leftarrow> quiet_cb (q_cb first_query) [2, 0, 0, 0, 0, 7] 3 GAS_QUERY_SUCCESS (Some a) (Some r) 0 u;
           _ \<leftarrow> get_query s' 60; Some (0, set_query 60 None s') } \<and>
     wpabuf_data r = [0xaa, 0xbb]"
proof -
  have "gas (gq_state first_query) = Some \<lparr>gas_ptr = 50, gas_pending = [60], gas_heap = [60 \<mapsto> first_query]\<rparr>"
    by (simp add: gq_state_def)
  note rx = gas_query_rx_initial_delivers [OF gq_state_inv [OF query_examples(1)] this, of 60 first_query good_env
      "small_buf [0xaa, 0xbb]" _ quiet_cb]
  have "q_addr first_query = [2, 0, 0, 0, 0, 7]" "q_dialog_token first_query = 3" "\<not> q_wait_comeback first_query"
    "q_resp first_query = None" by (simp_all add: first_query_def zero_query_def)
  then show ?thesis using rx query_examples(3) by auto
qed

lemma gas_query_rx_reassembles_witness:
  "\<exists>s1 v1 r. rx_frames quiet_cb good_env (gq_state waiting_query) [2, 0, 0, 0, 0, 7]
       (fragments 3 0 [small_buf [1, 2], small_buf [3], small_buf [4, 5]]) =
         gas_query_done quiet_cb s1 60 GAS_QUERY_SUCCESS \<and>
     get_query s1 60 = Some v1 \<and> q_resp v1 = Some r \<and> wpabuf_data r = [1, 2, 3, 4, 5]"
proof -
  have "waiting (gq_state waiting_query) 60 [2, 0, 0, 0, 0, 7] 3 0 []"
    using gq_state_inv [OF query_examples(2)]
    by (simp add: waiting_def) (simp add: gq_state_def waiting_query_def first_query_def zero_query_def resp_bytes_def)
  from gas_query_rx_reassembles [OF this query_examples(3),
      of "[small_buf [1, 2], small_buf [3], small_buf [4, 5]]" quiet_cb]
  show ?thesis by auto
qed

lemma gas_query_req_failed_tx_dangles_witness:
  "\<exists>s'. gas_query_req (Some 70) (good_env\<lparr>ge_tx := -1\<rparr>) (gq_state first_query) [2, 0, 0, 0, 0, 8] 2412
      (small_buf [4, 10, 0]) CB_anqp_resp_cb = Some (-1, s') \<and>
    gas_query_rx quiet_cb good_env s' [2, 0, 0, 0, 0, 7] [11, 3, 0, 0] 4 = None"
proof -
  let ?g = "\<lparr>gas_ptr = 50, gas_pending = [60], gas_heap = [60 \<mapsto> first_query]\<rparr>"
  have g: "gas (gq_state first_query) = Some ?g" by (simp add: gq_state_def)
  have u: "\<not> token_used ?g [2, 0, 0, 0, 0, 8] 0"
    by (simp add: token_used_def key_of_def first_query_def)
  have "\<exists>s'. gas_query_req (Some 70) (good_env\<lparr>ge_tx := -1\<rparr>) (gq_state first_query) [2, 0, 0, 0, 0, 8] 2412
      (small_buf [4, 10, 0]) CB_anqp_resp_cb = Some (-1, s') \<and>
    (\<forall>cbf env' sa tok' rest. gas_query_rx cbf env' s' sa (11 # tok' # rest) (2 + length rest) = None \<or>
       length rest < 2)"
    by (rule gas_query_req_failed_tx_dangles [OF gq_state_inv [OF query_examples(1)] g _ _ _ _ _ u])
      (simp_all add: good_env_def)
  then obtain s' where s': "gas_query_req (Some 70) (good_env\<lparr>ge_tx := -1\<rparr>) (gq_state first_query)
      [2, 0, 0, 0, 0, 8] 2412 (small_buf [4, 10, 0]) CB_anqp_resp_cb = Some (-1, s')"
    "\<forall>cbf env' sa tok' rest. gas_query_rx cbf env' s' sa (11 # tok' # rest) (2 + length rest) = None \<or>
       length rest < 2" by blast
  have "gas_query_rx quiet_cb good_env s' [2, 0, 0, 0, 0, 7] [11, 3, 0, 0] (2 + length [0, 0 :: u8]) = None"
    using s'(2) [rule_format, of quiet_cb good_env "[2, 0, 0, 0, 0, 7]" 3 "[0, 0]"] by simp
  then show ?thesis using s'(1) by (auto simp: numeral_eq_Suc)
qed

end
