(* ===== verification/Eap_Methods.thy ===== *)
theory Eap_Methods
  imports Prelude
begin

text \<open>
  The registry of EAP peer methods (src/src/eap_peer/eap_methods.c), a list in registration order. Methods are
  named in configuration files and numbered in packets; the registry translates both ways. The invariant
  \<open>registry_ok\<close> is what \<open>eap_peer_method_register\<close> maintains: no two methods share a number or a name.

  The list lives in a static variable of the C file; here it is an argument.
\<close>

section \<open>Methods\<close>

record eap_method =
  em_vendor :: int
  em_method :: u8
  em_name :: bytes

abbreviation (input) EAP_VENDOR_IETF :: int where "EAP_VENDOR_IETF \<equiv> 0"
abbreviation (input) EAP_TYPE_NONE :: u8 where "EAP_TYPE_NONE \<equiv> 0"
abbreviation (input) EAP_TYPE_GTC :: u8 where "EAP_TYPE_GTC \<equiv> 6"
abbreviation (input) EAP_TYPE_LEAP :: u8 where "EAP_TYPE_LEAP \<equiv> 17"
abbreviation (input) EAP_TYPE_TTLS :: u8 where "EAP_TYPE_TTLS \<equiv> 21"
abbreviation (input) EAP_TYPE_PEAP :: u8 where "EAP_TYPE_PEAP \<equiv> 25"
abbreviation (input) EAP_TYPE_MSCHAPV2 :: u8 where "EAP_TYPE_MSCHAPV2 \<equiv> 26"
abbreviation (input) EAP_TYPE_EXPANDED :: u8 where "EAP_TYPE_EXPANDED \<equiv> 254"

definition eap_peer_get_eap_method :: "eap_method list \<Rightarrow> int \<Rightarrow> u8 \<Rightarrow> eap_method option" where
  "eap_peer_get_eap_method methods vendor method =
     find (\<lambda>m. em_vendor m = vendor \<and> em_method m = method) methods"

definition eap_peer_get_type :: "eap_method list \<Rightarrow> bytes \<Rightarrow> int \<times> u8" where
  "eap_peer_get_type methods name = (case find (\<lambda>m. em_name m = name) methods of
     Some m \<Rightarrow> (em_vendor m, em_method m)
   | None \<Rightarrow> (EAP_VENDOR_IETF, EAP_TYPE_NONE))"

definition eap_get_name :: "eap_method list \<Rightarrow> int \<Rightarrow> u8 \<Rightarrow> bytes option" where
  "eap_get_name methods vendor type =
     (if vendor = EAP_VENDOR_IETF \<and> type = EAP_TYPE_EXPANDED then Some (lit ''expanded'')
      else map_option em_name (find (\<lambda>m. em_vendor m = vendor \<and> em_method m = type) methods))"

text \<open>
  The loop of \<open>eap_get_names\<close>: \<open>first\<close> tells whether \<open>m == eap_methods\<close>. \<open>os_snprintf\<close> has stored what fits
  when the loop stops; the returned position counts only complete names.
\<close>

fun names_loop :: "bool \<Rightarrow> bytes \<Rightarrow> nat \<Rightarrow> nat \<Rightarrow> eap_method list \<Rightarrow> (nat \<times> bytes) option" where
  "names_loop first buf pos buflen [] = Some (pos, buf)"
| "names_loop first buf pos buflen (m # ms) = do {
     let t = (if first then [] else [32]) @ em_name m;
     buf \<leftarrow> snprintf_at buf pos (buflen - pos) t;
     if buflen - pos \<le> length t then Some (pos, buf)
     else names_loop False buf (pos + length t) buflen ms }"

definition eap_get_names :: "eap_method list \<Rightarrow> bytes \<Rightarrow> nat \<Rightarrow> (nat \<times> bytes) option" where
  "eap_get_names methods buf buflen =
     (if buflen = 0 then Some (0, buf)
      else do {
        (pos, buf) \<leftarrow> names_loop True buf 0 buflen methods;
        buf \<leftarrow> wr_bytes buf (buflen - 1) [0];
        Some (pos, buf) })"

text \<open>\<open>al i\<close> is the outcome of the \<open>i\<close>-th string allocation.\<close>

definition eap_get_names_as_string_array ::
  "bool \<Rightarrow> (nat \<Rightarrow> bool) \<Rightarrow> eap_method list \<Rightarrow> (bytes list \<times> nat) option" where
  "eap_get_names_as_string_array al_arr al methods =
     (if \<not> al_arr then None
      else if list_all al [0..<length methods] then Some (map em_name methods, length methods)
      else None)"

definition eap_peer_get_methods :: "eap_method list \<Rightarrow> eap_method list \<times> nat" where
  "eap_peer_get_methods methods = (methods, length methods)"

definition eap_peer_method_alloc :: "bool \<Rightarrow> int \<Rightarrow> u8 \<Rightarrow> bytes \<Rightarrow> eap_method option" where
  "eap_peer_method_alloc al vendor method name =
     (if al then Some \<lparr>em_vendor = vendor, em_method = method, em_name = name\<rparr> else None)"

text \<open>\<open>version\<close> is the interface version the method was allocated with.\<close>

definition eap_peer_method_register :: "int \<Rightarrow> eap_method option \<Rightarrow> eap_method list \<Rightarrow> int \<times> eap_method list" where
  "eap_peer_method_register version method methods = (case method of
     None \<Rightarrow> (-1, methods)
   | Some m \<Rightarrow>
       if version \<noteq> 1 then (-1, methods)
       else if list_ex (\<lambda>x. (em_vendor x = em_vendor m \<and> em_method x = em_method m) \<or> em_name x = em_name m) methods
       then (-2, methods)
       else (0, methods @ [m]))"

definition eap_peer_unregister_methods :: "eap_method list \<Rightarrow> eap_method list" where
  "eap_peer_unregister_methods methods = []"

section \<open>The registry is a two-way dictionary\<close>

definition registry_ok :: "eap_method list \<Rightarrow> bool" where
  "registry_ok ms \<longleftrightarrow> distinct (map (\<lambda>m. (em_vendor m, em_method m)) ms) \<and> distinct (map em_name ms)"

lemma find_distinct:
  "distinct (map f ms) \<Longrightarrow> m \<in> set ms \<Longrightarrow> find (\<lambda>x. f x = f m) ms = Some m"
  by (induction ms) auto

lemma get_type_registered:
  assumes "registry_ok ms" "m \<in> set ms"
  shows "eap_peer_get_type ms (em_name m) = (em_vendor m, em_method m)"
  using find_distinct [of em_name ms m] assms by (simp add: eap_peer_get_type_def registry_ok_def)

lemma get_name_registered:
  assumes "registry_ok ms" "m \<in> set ms" "em_vendor m \<noteq> 0 \<or> em_method m \<noteq> EAP_TYPE_EXPANDED"
  shows "eap_get_name ms (em_vendor m) (em_method m) = Some (em_name m)"
  using find_distinct [of "\<lambda>m. (em_vendor m, em_method m)" ms m] assms
  by (auto simp: eap_get_name_def registry_ok_def)

lemma register_ok:
  assumes "registry_ok ms" "eap_peer_method_register v m ms = (r, ms')"
  shows "registry_ok ms'" "r = 0 \<longleftrightarrow> (\<exists>x. m = Some x \<and> ms' = ms @ [x])"
  using assms
  by (auto simp: eap_peer_method_register_def registry_ok_def list_ex_iff split: option.splits if_splits)
     (metis+)

text \<open>
  The EAP method registry stays a two-way dictionary. Registering keeps the registry free of duplicate
  numbers and names; a method that was accepted is found under its number and under its name, and the
  methods registered before are still found.
\<close>

lemma eap_registry_dictionary:
  assumes "registry_ok ms" "eap_peer_method_register v (Some m) ms = (0, ms')" "x = m \<or> x \<in> set ms"
    "em_vendor x \<noteq> 0 \<or> em_method x \<noteq> EAP_TYPE_EXPANDED"
  shows "registry_ok ms' \<and> eap_peer_get_type ms' (em_name x) = (em_vendor x, em_method x) \<and>
    eap_get_name ms' (em_vendor x) (em_method x) = Some (em_name x) \<and>
    eap_peer_get_eap_method ms' (em_vendor x) (em_method x) = Some x"
proof -
  have r: "registry_ok ms'" "ms' = ms @ [m]" using register_ok [OF assms(1,2)] by auto
  have i: "x \<in> set ms'" using r(2) assms(3) by auto
  have "eap_peer_get_eap_method ms' (em_vendor x) (em_method x) = Some x"
    using find_distinct [of "\<lambda>m. (em_vendor m, em_method m)" ms' x] r(1) i
    by (simp add: eap_peer_get_eap_method_def registry_ok_def)
  then show ?thesis using r(1) get_type_registered [OF r(1) i] get_name_registered [OF r(1) i assms(4)] by simp
qed

section \<open>Listing the names\<close>

lemma names_loop_total:
  "pos < buflen \<Longrightarrow> buflen \<le> length buf \<Longrightarrow>
   \<exists>p b. names_loop first buf pos buflen ms = Some (p, b) \<and> p < buflen \<and> length b = length buf"
proof (induction ms arbitrary: first buf pos)
  case (Cons m ms)
  let ?t = "(if first then [] else [32]) @ em_name m"
  obtain b where b: "snprintf_at buf pos (buflen - pos) ?t = Some b" "length b = length buf"
    using snprintf_at_Some [of pos "buflen - pos" buf ?t] Cons.prems by auto
  show ?case
  proof (cases "buflen - pos \<le> length ?t")
    case True
    then show ?thesis using b Cons.prems by (simp add: Let_def)
  next
    case False
    then have "pos + length ?t < buflen" "buflen \<le> length b" using b(2) Cons.prems by auto
    from Cons.IH [OF this, of False] show ?thesis using b False by (simp add: Let_def)
  qed
qed simp

text \<open>\<open>eap_get_names\<close> stays in its buffer, leaves a terminated string, and returns less than the buffer's length.\<close>

lemma eap_get_names_total:
  assumes "buflen \<le> length buf"
  shows "\<exists>p b. eap_get_names ms buf buflen = Some (p, b) \<and> length b = length buf \<and>
    (0 < buflen \<longrightarrow> p < buflen \<and> b ! (buflen - 1) = 0)"
proof (cases "buflen = 0")
  case False
  obtain p b where b: "names_loop True buf 0 buflen ms = Some (p, b)" "p < buflen" "length b = length buf"
    using names_loop_total [of 0 buflen buf True ms] False assms by auto
  have "wr_bytes b (buflen - 1) [0] = Some (take (buflen - 1) b @ [0] @ drop buflen b)"
    using b(3) False assms by (simp add: wr_bytes_def)
  then show ?thesis using b False assms by (auto simp: eap_get_names_def nth_append min_def)
qed (simp add: eap_get_names_def)

end
