(* ===== verification/Nai_Realm.thy ===== *)
theory Nai_Realm
  imports Gas_Query Eap_Methods
begin

text \<open>
  Credential matching of src/wpa_supplicant/interworking.c: the NAI Realm list (parser, matching against the
  home realm, choice of an EAP method) and the 3GPP Cellular Network list. The list of EAP methods
  built in (src/src/eap_peer/eap_methods.c) is an argument, as registration happens at start-up.

  \<open>plmn_id_match\<close> and \<open>interworking_credentials_available_3gpp\<close> are modelled with \<open>INTERWORKING_3GPP\<close> defined, that is, for a
  build with EAP-SIM, EAP-AKA or EAP-AKA'; in the build of wpa_supplicant/.config the second returns 0 at once.

  Parsers work on the octets of an ANQP element with an offset and an end; \<open>Some None\<close> is a rejected
  element (NULL), \<open>None\<close> a read outside the octets. Outcomes of the allocations are arguments: one for the
  array, and per realm index one for the realm string and one for the array of EAP methods.
\<close>

section \<open>Structures\<close>

record nai_realm_eap =
  e_method :: u8
  e_inner_method :: u8
  e_inner_non_eap :: u8
  e_cred_type :: u8
  e_tunneled_cred_type :: u8

record nai_realm =
  nr_encoding :: u8
  nr_realm :: "bytes option"
  nr_eap_count :: u8
  nr_eap :: "nai_realm_eap list option"

definition zero_eap :: nai_realm_eap where
  "zero_eap = \<lparr>e_method = 0, e_inner_method = 0, e_inner_non_eap = 0, e_cred_type = 0,
     e_tunneled_cred_type = 0\<rparr>"

definition zero_realm :: nai_realm where
  "zero_realm = \<lparr>nr_encoding = 0, nr_realm = None, nr_eap_count = 0, nr_eap = None\<rparr>"

abbreviation (input) NON_EAP_INNER_AUTH :: u8 where "NON_EAP_INNER_AUTH \<equiv> 2"
abbreviation (input) INNER_AUTH_EAP_METHOD :: u8 where "INNER_AUTH_EAP_METHOD \<equiv> 3"
abbreviation (input) AUTH_CRED_TYPE :: u8 where "AUTH_CRED_TYPE \<equiv> 5"
abbreviation (input) AUTH_TUNNELED_CRED_TYPE :: u8 where "AUTH_TUNNELED_CRED_TYPE \<equiv> 6"

section \<open>Parsing the NAI Realm list\<close>

definition set_param :: "u8 \<Rightarrow> bytes \<Rightarrow> nai_realm_eap \<Rightarrow> nai_realm_eap" where
  "set_param i value e =
     (case value of
        [] \<Rightarrow> e
      | x # _ \<Rightarrow>
          if i = NON_EAP_INNER_AUTH then e\<lparr>e_inner_non_eap := x\<rparr>
          else if i = INNER_AUTH_EAP_METHOD then e\<lparr>e_inner_method := x\<rparr>
          else if i = AUTH_CRED_TYPE then e\<lparr>e_cred_type := x\<rparr>
          else if i = AUTH_TUNNELED_CRED_TYPE then e\<lparr>e_tunneled_cred_type := x\<rparr>
          else e)"

text \<open>The loop over the authentication parameters; \<open>n\<close> are left. The result tells whether all were there.\<close>

fun parse_auth :: "nat \<Rightarrow> nai_realm_eap \<Rightarrow> bytes \<Rightarrow> nat \<Rightarrow> nat \<Rightarrow> (bool \<times> nai_realm_eap) option" where
  "parse_auth 0 e mem pos fin = Some (True, e)"
| "parse_auth (Suc n) e mem pos fin =
     (if fin < pos + 2 then Some (False, e)
      else do {
        l \<leftarrow> rd mem (pos + 1);
        if fin < pos + 2 + unat l then Some (False, e)
        else do {
          i \<leftarrow> rd mem pos;
          value \<leftarrow> rd_bytes mem (pos + 2) (unat l);
          parse_auth n (set_param i value e) mem (pos + 2 + unat l) fin
        }
      })"

definition nai_realm_parse_eap ::
  "nai_realm_eap \<Rightarrow> bytes \<Rightarrow> nat \<Rightarrow> nat \<Rightarrow> (nat option \<times> nai_realm_eap) option" where
  "nai_realm_parse_eap e mem pos fin =
     (if fin < pos + 3 then Some (None, e)
      else do {
        elen \<leftarrow> rd mem pos;
        let pos = pos + 1;
        if fin < pos + unat elen \<or> elen < 2 then Some (None, e)
        else do {
          let e_end = pos + unat elen;
          method \<leftarrow> rd mem pos;
          auth_count \<leftarrow> rd mem (pos + 1);
          (ok, e) \<leftarrow> parse_auth (unat auth_count) (e\<lparr>e_method := method\<rparr>) mem (pos + 2) fin;
          Some (if ok then Some e_end else None, e)
        }
      })"

fun parse_eaps :: "nat \<Rightarrow> bytes \<Rightarrow> nat \<Rightarrow> nat \<Rightarrow> nai_realm_eap list option option" where
  "parse_eaps 0 mem pos fin = Some (Some [])"
| "parse_eaps (Suc n) mem pos fin = do {
     (p, e) \<leftarrow> nai_realm_parse_eap zero_eap mem pos fin;
     (case p of
        None \<Rightarrow> Some None
      | Some pos' \<Rightarrow> do {
          es \<leftarrow> parse_eaps n mem pos' fin;
          Some (map_option ((#) e) es) }) }"

definition nai_realm_parse_realm ::
  "bool \<Rightarrow> bool \<Rightarrow> bytes \<Rightarrow> nat \<Rightarrow> nat \<Rightarrow> (nat \<times> nai_realm) option option" where
  "nai_realm_parse_realm al_realm al_eap mem pos fin =
     (if fin - pos < 4 then Some None
      else do {
        len \<leftarrow> rd_le16 mem pos;
        let pos = pos + 2;
        if fin < pos + unat len \<or> len < 3 then Some None
        else do {
          let f_end = pos + unat len;
          encoding \<leftarrow> rd mem pos;
          realm_len \<leftarrow> rd mem (pos + 1);
          let pos = pos + 2;
          if f_end < pos + unat realm_len then Some None
          else if \<not> al_realm then Some None
          else do {
            realm \<leftarrow> rd_bytes mem pos (unat realm_len);
            let pos = pos + unat realm_len;
            if f_end < pos + 1 then Some None
            else do {
              eap_count \<leftarrow> rd mem pos;
              let pos = pos + 1;
              if f_end < pos + unat eap_count * 3 then Some None
              else if \<not> al_eap then Some None
              else do {
                es \<leftarrow> parse_eaps (unat eap_count) mem pos f_end;
                Some (map_option (\<lambda>l. (f_end, \<lparr>nr_encoding = encoding, nr_realm = Some realm,
                        nr_eap_count = eap_count, nr_eap = Some l\<rparr>)) es)
              }
            }
          }
        }
      })"

fun parse_realms ::
  "(nat \<Rightarrow> bool) \<Rightarrow> (nat \<Rightarrow> bool) \<Rightarrow> nat \<Rightarrow> nat \<Rightarrow> bytes \<Rightarrow> nat \<Rightarrow> nat \<Rightarrow> nai_realm list option option" where
  "parse_realms al_realm al_eap i 0 mem pos fin = Some (Some [])"
| "parse_realms al_realm al_eap i (Suc n) mem pos fin = do {
     r \<leftarrow> nai_realm_parse_realm (al_realm i) (al_eap i) mem pos fin;
     (case r of
        None \<Rightarrow> Some None
      | Some (pos', realm) \<Rightarrow> do {
          rs \<leftarrow> parse_realms al_realm al_eap (i + 1) n mem pos' fin;
          Some (map_option ((#) realm) rs) }) }"

definition nai_realm_parse ::
  "bool \<Rightarrow> (nat \<Rightarrow> bool) \<Rightarrow> (nat \<Rightarrow> bool) \<Rightarrow> wpabuf option \<Rightarrow> nai_realm list option option" where
  "nai_realm_parse al_arr al_realm al_eap anqp = (case anqp of
     None \<Rightarrow> Some None
   | Some buf \<Rightarrow>
       if wpabuf_len buf < 2 then Some None
       else do {
         let fin = wpabuf_len buf;
         num \<leftarrow> rd_le16 (wpabuf_head buf) 0;
         if fin - 2 < unat num * 5 then Some None
         else if \<not> al_arr then Some None
         else parse_realms al_realm al_eap 0 (unat num) (wpabuf_head buf) 2 fin
       })"

section \<open>Matching\<close>

abbreviation (input) SEMI :: u8 where "SEMI \<equiv> 59"

function realm_match_loop :: "bytes \<Rightarrow> bytes \<Rightarrow> bool" where
  "realm_match_loop pos home_realm =
     (if pos = [] then False
      else
        let tok = takeWhile (\<lambda>c. c \<noteq> SEMI) pos; rest = dropWhile (\<lambda>c. c \<noteq> SEMI) pos in
        if strcaseeq tok home_realm then True
        else if rest = [] then False
        else realm_match_loop (tl rest) home_realm)"
  by pat_completeness auto
termination
proof (relation "measure (\<lambda>(p, h). length p)", goal_cases)
  case (2 pos home tok rest)
  then have "length rest \<le> length pos" "rest \<noteq> []" by (metis length_dropWhile_le)+
  then have "length (tl rest) < length pos" by (cases rest) auto
  then show ?case by simp
qed simp

declare realm_match_loop.simps [simp del]

definition nai_realm_match :: "bool \<Rightarrow> nai_realm \<Rightarrow> bytes option \<Rightarrow> bool" where
  "nai_realm_match al_dup realm home_realm =
     (case (nr_realm realm, home_realm) of
        (Some r, Some h) \<Rightarrow>
          if SEMI \<notin> set (c_str r) then strcaseeq (c_str r) h
          else if \<not> al_dup then False
          else realm_match_loop (c_str r) h
      | _ \<Rightarrow> False)"

definition nai_realm_cred_username :: "eap_method list \<Rightarrow> nai_realm_eap \<Rightarrow> bool" where
  "nai_realm_cred_username methods eap =
     (if eap_get_name methods EAP_VENDOR_IETF (e_method eap) = None then False
      else if e_method eap \<noteq> EAP_TYPE_TTLS \<and> e_method eap \<noteq> EAP_TYPE_PEAP then False
      else if e_method eap = EAP_TYPE_PEAP \<and>
              eap_get_name methods EAP_VENDOR_IETF (e_inner_method eap) = None then False
      else if e_method eap = EAP_TYPE_TTLS \<and> e_inner_method eap = 0 \<and> e_inner_non_eap eap = 0 then False
      else if e_method eap = EAP_TYPE_TTLS \<and> e_inner_method eap \<noteq> 0 \<and>
              eap_get_name methods EAP_VENDOR_IETF (e_inner_method eap) = None then False
      else if e_method eap = EAP_TYPE_TTLS \<and> e_inner_non_eap eap \<noteq> 0 \<and>
              e_inner_non_eap eap \<noteq> 1 \<and> e_inner_non_eap eap \<noteq> 2 \<and> e_inner_non_eap eap \<noteq> 3 \<and>
              e_inner_non_eap eap \<noteq> 4 then False
      else if e_inner_method eap \<noteq> 0 \<and> e_inner_method eap \<noteq> EAP_TYPE_GTC \<and>
              e_inner_method eap \<noteq> EAP_TYPE_MSCHAPV2 then False
      else True)"

definition set_string :: "bytes option \<Rightarrow> bool" where
  "set_string s \<longleftrightarrow> (case s of None \<Rightarrow> False | Some x \<Rightarrow> c_str x \<noteq> [])"

definition nai_realm_find_eap ::
  "eap_method list \<Rightarrow> wpa_config \<Rightarrow> nai_realm \<Rightarrow> nai_realm_eap option option" where
  "nai_realm_find_eap methods c realm =
     (if \<not> set_string (c_home_username c) \<or> \<not> set_string (c_home_password c) then Some None
      else if nr_eap_count realm = 0 then Some None
      else do {
        es \<leftarrow> nr_eap realm;
        if length es < unat (nr_eap_count realm) then None
        else Some (find (nai_realm_cred_username methods) (take (unat (nr_eap_count realm)) es)) })"

section \<open>3GPP Cellular Network information\<close>

abbreviation (input) DASH :: u8 where "DASH \<equiv> 45"

text \<open>The loop over the PLMNs of one list: \<open>pos\<close> is not advanced.\<close>

fun plmn_list_loop :: "nat \<Rightarrow> bytes \<Rightarrow> bytes \<Rightarrow> nat \<Rightarrow> nat \<Rightarrow> bool option" where
  "plmn_list_loop 0 plmn mem pos fin = Some False"
| "plmn_list_loop (Suc n) plmn mem pos fin =
     (if fin < pos + 3 then Some False
      else do {
        e \<leftarrow> memeq (drop pos mem) plmn 3;
        if e then Some True else plmn_list_loop n plmn mem pos fin })"

function plmn_ie_loop :: "bytes \<Rightarrow> bytes \<Rightarrow> nat \<Rightarrow> nat \<Rightarrow> bool option" where
  "plmn_ie_loop plmn mem pos fin =
     (if pos + 2 \<le> fin then do {
        iei \<leftarrow> rd mem pos;
        l \<leftarrow> rd mem (pos + 1);
        let len = unat (l AND 0x7f);
        if fin < pos + 2 + len then Some False
        else do {
          m \<leftarrow> (if iei = 0 \<and> 0 < len then do {
                  num \<leftarrow> rd mem (pos + 2);
                  plmn_list_loop (unat num) plmn mem (pos + 3) fin }
                else Some False);
          if m then Some True else plmn_ie_loop plmn mem (pos + 2 + len) fin
        }
      } else Some False)"
  by pat_completeness auto
termination by (relation "measure (\<lambda>(pl, m, p, e). e - p)") auto

declare plmn_ie_loop.simps [simp del]

definition plmn_of :: "bytes \<Rightarrow> nat \<Rightarrow> bytes option" where
  "plmn_of imsi sep = do {
     c0 \<leftarrow> rds imsi 0; c1 \<leftarrow> rds imsi 1; c2 \<leftarrow> rds imsi 2; c3 \<leftarrow> rds imsi 3; c4 \<leftarrow> rds imsi 4;
     hi \<leftarrow> (if sep = 6 then do { c5 \<leftarrow> rds imsi 5; Some (push_bit 4 (c5 - 48)) } else Some 0xf0);
     Some [(c0 - 48) OR push_bit 4 (c1 - 48), (c2 - 48) OR hi, (c3 - 48) OR push_bit 4 (c4 - 48)] }"

definition plmn_id_match :: "wpabuf option \<Rightarrow> bytes \<Rightarrow> bool option" where
  "plmn_id_match anqp imsi =
     (let sep = length (takeWhile (\<lambda>c. c \<noteq> DASH) imsi) in
      if DASH \<notin> set imsi \<or> (sep \<noteq> 5 \<and> sep \<noteq> 6) then Some False
      else do {
        plmn \<leftarrow> plmn_of imsi sep;
        (case anqp of
           None \<Rightarrow> Some False
         | Some buf \<Rightarrow>
             if wpabuf_len buf < 2 then Some False
             else do {
               v \<leftarrow> rd (wpabuf_head buf) 0;
               if v \<noteq> 0 then Some False
               else do {
                 udhl \<leftarrow> rd (wpabuf_head buf) 1;
                 if wpabuf_len buf < 2 + unat udhl then Some False
                 else plmn_ie_loop plmn (wpabuf_head buf) 2 (2 + unat udhl)
               }
             })
      })"

section \<open>Availability of credentials\<close>

fun realm_loop ::
  "eap_method list \<Rightarrow> wpa_config \<Rightarrow> (nat \<Rightarrow> bool) \<Rightarrow> nat \<Rightarrow> nai_realm list \<Rightarrow> nai_realm_eap option option" where
  "realm_loop methods c al_dup i [] = Some None"
| "realm_loop methods c al_dup i (r # rs) =
     (if \<not> nai_realm_match (al_dup i) r (c_home_realm c) then realm_loop methods c al_dup (i + 1) rs
      else do {
        e \<leftarrow> nai_realm_find_eap methods c r;
        (case e of Some x \<Rightarrow> Some (Some x) | None \<Rightarrow> realm_loop methods c al_dup (i + 1) rs) })"

record cred_env =
  cr_methods :: "eap_method list"
  cr_arr :: bool
  cr_realm :: "nat \<Rightarrow> bool"
  cr_eap :: "nat \<Rightarrow> bool"
  cr_dup :: "nat \<Rightarrow> bool"

definition interworking_credentials_available_3gpp :: "wpa_config \<Rightarrow> wpa_bss \<Rightarrow> bool option" where
  "interworking_credentials_available_3gpp c b =
     (if anqp_3gpp b = None then Some False
      else if \<not> set_string (c_home_imsi c) \<or> \<not> set_string (c_home_milenage c) then Some False
      else plmn_id_match (anqp_3gpp b) (c_str (the (c_home_imsi c))))"

definition interworking_credentials_available_realm ::
  "cred_env \<Rightarrow> wpa_config \<Rightarrow> wpa_bss \<Rightarrow> bool option" where
  "interworking_credentials_available_realm ce c b =
     (if anqp_nai_realm b = None then Some False
      else if c_home_realm c = None then Some False
      else do {
        r \<leftarrow> nai_realm_parse (cr_arr ce) (cr_realm ce) (cr_eap ce) (anqp_nai_realm b);
        (case r of
           None \<Rightarrow> Some False
         | Some realms \<Rightarrow> do {
             e \<leftarrow> realm_loop (cr_methods ce) c (cr_dup ce) 0 realms;
             Some (e \<noteq> None) })
      })"

definition interworking_credentials_available :: "cred_env \<Rightarrow> wpa_config \<Rightarrow> wpa_bss \<Rightarrow> bool option" where
  "interworking_credentials_available ce c b = do {
     r \<leftarrow> interworking_credentials_available_realm ce c b;
     if r then Some True else interworking_credentials_available_3gpp c b }"


section \<open>The parsers are memory safe\<close>

lemma parse_auth_total:
  "fin \<le> length mem \<Longrightarrow> \<exists>r. parse_auth n e mem pos fin = Some r"
proof (induction n arbitrary: e pos)
  case (Suc n)
  have "fin < pos + 2 \<or> pos + 1 < length mem" using Suc.prems by auto
  then show ?case
    using Suc by (auto simp: rd_def rd_bytes_def)
qed auto

lemma parse_eap_total:
  assumes "fin \<le> length mem"
  shows "succeeds (nai_realm_parse_eap e mem pos fin) (\<lambda>(p, e). \<forall>x. p = Some x \<longrightarrow> pos < x \<and> x \<le> fin)"
proof -
  have "\<exists>r. parse_auth n e' mem pos' fin = Some r" for n e' pos'
    using parse_auth_total [OF assms] .
  then have a: "succeeds (parse_auth n e' mem pos' fin) (\<lambda>_. True)" for n e' pos'
    by (simp add: succeeds_def)
  show ?thesis
    using assms
    by (auto simp: nai_realm_parse_eap_def succeeds_simps Let_def word_less_nat_alt
        intro!: succeeds_mono [OF a] split: prod.split)
qed

lemma parse_eaps_total:
  "fin \<le> length mem \<Longrightarrow>
     succeeds (parse_eaps n mem pos fin) (\<lambda>es. \<forall>l. es = Some l \<longrightarrow> length l = n)"
proof (induction n arbitrary: pos)
  case (Suc n)
  from parse_eap_total [OF Suc.prems, of zero_eap pos]
  obtain p e where "nai_realm_parse_eap zero_eap mem pos fin = Some (p, e)"
    by (auto simp: succeeds_def)
  then show ?case
    using Suc.IH [OF Suc.prems]
    by (cases p) (auto simp: succeeds_simps intro!: succeeds_mono [OF Suc.IH [OF Suc.prems]])
qed (simp add: succeeds_simps)

definition realm_wf :: "nai_realm \<Rightarrow> bool" where
  "realm_wf r \<longleftrightarrow> nr_realm r \<noteq> None \<and> (\<exists>es. nr_eap r = Some es \<and> length es = unat (nr_eap_count r))"

lemma parse_realm_total:
  assumes "fin \<le> length mem"
  shows "succeeds (nai_realm_parse_realm a1 a2 mem pos fin)
    (\<lambda>r. \<forall>p x. r = Some (p, x) \<longrightarrow> p \<le> fin \<and> realm_wf x)"
proof -
  have e: "succeeds (parse_eaps n mem p f) (\<lambda>es. succeeds (Some (map_option (\<lambda>l. (f,
      \<lparr>nr_encoding = c, nr_realm = Some rl, nr_eap_count = k, nr_eap = Some l\<rparr>)) es))
      (\<lambda>r. \<forall>p x. r = Some (p, x) \<longrightarrow> p \<le> fin \<and> realm_wf x))"
    if "f \<le> fin" "n = unat k" for n p f c rl k
    using parse_eaps_total [of f mem n p] that assms
    by (auto simp: succeeds_simps realm_wf_def intro: succeeds_mono)
  show ?thesis
    using assms
    by (auto simp: nai_realm_parse_realm_def succeeds_bind succeeds_if succeeds_rd succeeds_rd_le16
        succeeds_rd_bytes Let_def succeeds_Some [where x = None] intro!: e)
qed

lemma parse_realms_total:
  "fin \<le> length mem \<Longrightarrow>
     succeeds (parse_realms f1 f2 i n mem pos fin)
       (\<lambda>rs. \<forall>l. rs = Some l \<longrightarrow> length l = n \<and> list_all realm_wf l)"
proof (induction n arbitrary: i pos)
  case (Suc n)
  from parse_realm_total [OF Suc.prems, of "f1 i" "f2 i" pos]
  obtain r where r: "nai_realm_parse_realm (f1 i) (f2 i) mem pos fin = Some r"
    "\<forall>p x. r = Some (p, x) \<longrightarrow> realm_wf x"
    by (auto simp: succeeds_def)
  then show ?case
    using Suc.IH [OF Suc.prems]
    by (cases r) (auto simp: succeeds_simps intro!: succeeds_mono [OF Suc.IH [OF Suc.prems]])
qed (simp add: succeeds_simps)

lemma nai_realm_parse_total:
  assumes "buf_ok anqp"
  shows "succeeds (nai_realm_parse al f1 f2 anqp) (\<lambda>r. case r of
      None \<Rightarrow> True
    | Some rs \<Rightarrow> list_all realm_wf rs \<and> (\<exists>b. anqp = Some b \<and>
        length rs = unat (get_le16 (wpabuf_data b ! 0) (wpabuf_data b ! 1)) \<and>
        5 * length rs + 2 \<le> wpabuf_len b))"
proof (cases anqp)
  case None
  then show ?thesis by (simp add: nai_realm_parse_def succeeds_simps)
next
  case (Some b)
  then have i: "wpabuf_inv b" using assms by (simp add: buf_ok_def)
  then have l: "wpabuf_len b \<le> length (wpabuf_head b)" by (simp add: wpabuf_inv_def wpabuf_len_def)
  have d: "wpabuf_data b ! k = wpabuf_head b ! k" if "k < wpabuf_len b" for k
    using that by (simp add: wpabuf_data_def wpabuf_len_def)
  note p = parse_realms_total [OF l, of f1 f2 0 _ 2]
  show ?thesis
    using Some l d
    by (auto simp: nai_realm_parse_def succeeds_simps Let_def intro!: succeeds_mono [OF p] split: option.split)
qed

text \<open>
  The NAI Realm parser never reads outside the ANQP element, for every content and every outcome of
  the allocations; a list it accepts has one well-formed record per announced realm, each with as many
  EAP methods as its count says.
\<close>

lemma nai_realm_parse_safe:
  assumes "buf_ok anqp"
  shows "succeeds (nai_realm_parse al f1 f2 anqp) (\<lambda>r. case r of
      None \<Rightarrow> True
    | Some rs \<Rightarrow> list_all realm_wf rs \<and> (\<exists>b. anqp = Some b \<and>
        length rs = unat (get_le16 (wpabuf_data b ! 0) (wpabuf_data b ! 1)) \<and>
        5 * length rs + 2 \<le> wpabuf_len b))"
  using assms by (rule nai_realm_parse_total)

section \<open>Matching against the home realm\<close>

text \<open>\<open>is_token s t\<close>: \<open>t\<close> is a maximal segment of \<open>s\<close> without semicolons.\<close>

definition is_token :: "bytes \<Rightarrow> bytes \<Rightarrow> bool" where
  "is_token s t \<longleftrightarrow> SEMI \<notin> set t \<and>
     (\<exists>a b. s = a @ t @ b \<and> (a = [] \<or> last a = SEMI) \<and> (b = [] \<or> hd b = SEMI))"

lemma is_token_no_semi: "SEMI \<notin> set s \<Longrightarrow> is_token s t \<longleftrightarrow> t = s"
proof
  assume n: "SEMI \<notin> set s" and "is_token s t"
  then obtain a b where s: "s = a @ t @ b" "a = [] \<or> last a = SEMI" "b = [] \<or> hd b = SEMI"
    by (auto simp: is_token_def)
  have "a = []" using s n by (metis Un_iff last_in_set set_append)
  moreover have "b = []" using s n by (metis Un_iff hd_in_set set_append)
  ultimately show "t = s" using s by simp
next
  assume "SEMI \<notin> set s" "t = s"
  then show "is_token s t" unfolding is_token_def by (intro conjI exI [of _ "[]"]) auto
qed

lemma first_split_unique:
  "x \<notin> set a \<Longrightarrow> x \<notin> set b \<Longrightarrow> a @ x # c = b @ x # d \<Longrightarrow> a = b \<and> c = d"
proof (induction a arbitrary: b)
  case Nil
  then show ?case by (cases b) auto
next
  case (Cons y a)
  then show ?case by (cases b) auto
qed

lemma is_token_cons:
  assumes "SEMI \<notin> set u"
  shows "is_token (u @ SEMI # v) t \<longleftrightarrow> t = u \<or> is_token v t"
proof
  assume "is_token (u @ SEMI # v) t"
  then obtain a b where t: "SEMI \<notin> set t" and s: "u @ SEMI # v = a @ t @ b"
    and a: "a = [] \<or> last a = SEMI" and b: "b = [] \<or> hd b = SEMI"
    by (auto simp: is_token_def)
  show "t = u \<or> is_token v t"
  proof (cases "a = []")
    case True
    then have e: "u @ SEMI # v = t @ b" using s by simp
    then have "b \<noteq> []" using t by (metis append_Nil2 in_set_conv_decomp)
    then obtain b' where "b = SEMI # b'" using b by (cases b) auto
    then show ?thesis
      using e first_split_unique [OF assms t, of v b'] by simp
  next
    case False
    then obtain a' where a': "a = a' @ [SEMI]" using a by (metis append_butlast_last_id)
    have e: "u @ SEMI # v = a' @ SEMI # (t @ b)" using s a' by simp
    from e assms obtain c where c: "v = c @ t @ b" "c = [] \<or> last c = SEMI"
    proof (cases "SEMI \<in> set a'")
      case False
      then have "v = t @ b" using e first_split_unique [OF assms, of a'] by blast
      then show ?thesis using that [of "[]"] by simp
    next
      case True
      then obtain x y where x: "a' = x @ SEMI # y" "SEMI \<notin> set x" by (metis split_list_first)
      then have "u @ SEMI # v = x @ SEMI # (y @ SEMI # t @ b)" using e by simp
      then have "v = y @ SEMI # t @ b" using first_split_unique [OF assms x(2)] by blast
      then show ?thesis using that [of "y @ [SEMI]"] by simp
    qed
    then show ?thesis using t b by (auto simp: is_token_def)
  qed
next
  assume "t = u \<or> is_token v t"
  then show "is_token (u @ SEMI # v) t"
  proof
    assume "t = u"
    then show ?thesis
      using assms unfolding is_token_def by (intro conjI exI [of _ "[]"] exI [of _ "SEMI # v"]) auto
  next
    assume "is_token v t"
    then obtain a b where v: "SEMI \<notin> set t" "v = a @ t @ b" "a = [] \<or> last a = SEMI" "b = [] \<or> hd b = SEMI"
      by (auto simp: is_token_def)
    then have "u @ SEMI # v = (u @ SEMI # a) @ t @ b" "last (u @ SEMI # a) = SEMI" by auto
    then show ?thesis using v unfolding is_token_def by blast
  qed
qed

lemma realm_match_loop_spec:
  "h \<noteq> [] \<Longrightarrow> realm_match_loop s h \<longleftrightarrow> (\<exists>t. is_token s t \<and> strcaseeq t h)"
proof (induction s h rule: realm_match_loop.induct)
  case (1 s h)
  let ?t = "takeWhile (\<lambda>c. c \<noteq> SEMI) s" and ?r = "dropWhile (\<lambda>c. c \<noteq> SEMI) s"
  have n: "SEMI \<notin> set ?t" by (auto dest: set_takeWhileD)
  show ?case
  proof (cases "?r = []")
    case True
    then have ns: "SEMI \<notin> set s" by auto
    then have ts: "?t = s" by (auto simp: takeWhile_eq_all_conv)
    have "\<not> strcaseeq [] h" using 1(2) by (simp add: strcaseeq_def)
    then show ?thesis
      unfolding is_token_no_semi [OF ns]
      by (subst realm_match_loop.simps) (auto simp: ts True Let_def)
  next
    case False
    then have s: "s = ?t @ SEMI # tl ?r"
      by (metis (mono_tags, lifting) hd_dropWhile list.collapse takeWhile_dropWhile_id)
    have sne: "s \<noteq> []" using False by auto
    have e: "realm_match_loop s h \<longleftrightarrow> strcaseeq ?t h \<or> realm_match_loop (tl ?r) h"
      using False by (subst realm_match_loop.simps) (auto simp: Let_def)
    have IH: "realm_match_loop (tl ?r) h \<longleftrightarrow> (\<exists>t. is_token (tl ?r) t \<and> strcaseeq t h)" if "\<not> strcaseeq ?t h"
      using 1(1) [OF sne refl refl that False 1(2)] .
    have "is_token s t \<longleftrightarrow> t = ?t \<or> is_token (tl ?r) t" for t
      by (subst s) (rule is_token_cons [OF n])
    then have "(\<exists>t. is_token s t \<and> strcaseeq t h) \<longleftrightarrow>
        strcaseeq ?t h \<or> (\<exists>t. is_token (tl ?r) t \<and> strcaseeq t h)"
      by (simp only:) blast
    then show ?thesis using e IH by (cases "strcaseeq ?t h") simp_all
  qed
qed

text \<open>
  C39. Realm matching. A realm of the list matches a non-empty home realm exactly when one of the
  names in its semicolon-separated string equals the home realm, ignoring the case of ASCII letters.
\<close>

theorem nai_realm_match_tokens:
  assumes "nr_realm r = Some s" "h \<noteq> []"
  shows "nai_realm_match True r (Some h) \<longleftrightarrow> (\<exists>t. is_token (c_str s) t \<and> strcaseeq t h)"
  using assms realm_match_loop_spec [OF assms(2)]
  by (auto simp: nai_realm_match_def is_token_no_semi)

lemma nai_realm_match_tokens_witness:
  "nai_realm_match True (zero_realm\<lparr>nr_realm := Some (lit ''a.com;B.org'')\<rparr>) (Some (lit ''b.ORG''))"
proof -
  have "is_token (c_str (lit ''a.com;B.org'')) (lit ''B.org'')"
    unfolding is_token_def
    by (intro conjI exI [of _ "lit ''a.com;''"] exI [of _ "[]"]) (simp_all add: lit_def c_str_def)
  moreover have "strcaseeq (lit ''B.org'') (lit ''b.ORG'')"
    by (simp add: lit_def strcaseeq_def tolower8_def)
  moreover have "lit ''b.ORG'' \<noteq> []" by (simp add: lit_def)
  ultimately show ?thesis
    using nai_realm_match_tokens [of "zero_realm\<lparr>nr_realm := Some (lit ''a.com;B.org'')\<rparr>"] by auto
qed


section \<open>Round trip of the NAI Realm list\<close>

text \<open>
  The encoding an access point uses: a realm is its encoding octet, its name and its EAP methods; a
  method is its number and its authentication parameters (identifier, value).
\<close>

type_synonym eap_spec = "u8 \<times> (u8 \<times> bytes) list"
type_synonym realm_spec = "u8 \<times> bytes \<times> eap_spec list"

definition len8 :: "'a list \<Rightarrow> u8" where
  "len8 xs = word_of_nat (length xs)"

definition enc_param :: "u8 \<times> bytes \<Rightarrow> bytes" where
  "enc_param p = fst p # len8 (snd p) # snd p"

definition enc_eap :: "eap_spec \<Rightarrow> bytes" where
  "enc_eap m = (let body = fst m # len8 (snd m) # concat (map enc_param (snd m)) in len8 body # body)"

definition enc_realm :: "realm_spec \<Rightarrow> bytes" where
  "enc_realm r = (let (e, name, ms) = r;
     body = e # len8 name # name @ len8 ms # concat (map enc_eap ms)
   in put_le16 (word_of_nat (length body)) @ body)"

definition enc_realms :: "realm_spec list \<Rightarrow> bytes" where
  "enc_realms rs = put_le16 (word_of_nat (length rs)) @ concat (map enc_realm rs)"

definition eap_value :: "eap_spec \<Rightarrow> nai_realm_eap" where
  "eap_value m = foldl (\<lambda>e (i, v). set_param i v e) (zero_eap\<lparr>e_method := fst m\<rparr>) (snd m)"

definition realm_value :: "realm_spec \<Rightarrow> nai_realm" where
  "realm_value r = (let (e, name, ms) = r in
     \<lparr>nr_encoding = e, nr_realm = Some name, nr_eap_count = len8 ms, nr_eap = Some (map eap_value ms)\<rparr>)"

definition eap_fits :: "eap_spec \<Rightarrow> bool" where
  "eap_fits m \<longleftrightarrow> length (snd m) < 256 \<and> list_all (\<lambda>p. length (snd p) < 256) (snd m) \<and>
     length (enc_eap m) \<le> 256"

definition realm_fits :: "realm_spec \<Rightarrow> bool" where
  "realm_fits r \<longleftrightarrow> length (fst (snd r)) < 256 \<and> length (snd (snd r)) < 256 \<and>
     list_all eap_fits (snd (snd r)) \<and> length (enc_realm r) < 65538"

lemma unat_len8: "length xs < 256 \<Longrightarrow> unat (len8 xs) = length xs"
  by (simp add: len8_def unsigned_of_nat take_bit_nat_eq_self)

lemma rd_app: "rd (pre @ x # post) (length pre) = Some x" "rd (pre @ x # y # post) (Suc (length pre)) = Some y"
  by (simp_all add: rd_def nth_append)

lemma rd_bytes_app: "rd_bytes (pre @ d @ post) (length pre) (length d) = Some d"
  by (simp add: rd_bytes_def)

lemma parse_auth_enc:
  assumes "list_all (\<lambda>p. length (snd p) < 256) ps"
    "length pre + length (concat (map enc_param ps)) \<le> fin"
  shows "parse_auth (length ps) e (pre @ concat (map enc_param ps) @ post) (length pre) fin =
    Some (True, foldl (\<lambda>e (i, v). set_param i v e) e ps)"
  using assms
proof (induction ps arbitrary: pre e)
  case (Cons p ps)
  let ?m = "pre @ concat (map enc_param (p # ps)) @ post"
  have l: "unat (len8 (snd p)) = length (snd p)" using Cons.prems(1) by (simp add: unat_len8)
  have m: "?m = pre @ fst p # len8 (snd p) # (snd p @ concat (map enc_param ps) @ post)"
    by (simp add: enc_param_def)
  have m2: "?m = (pre @ [fst p, len8 (snd p)]) @ snd p @ (concat (map enc_param ps) @ post)"
    by (simp add: enc_param_def)
  have m3: "?m = (pre @ enc_param p) @ concat (map enc_param ps) @ post" by simp
  have r: "rd ?m (length pre) = Some (fst p)" "rd ?m (Suc (length pre)) = Some (len8 (snd p))"
    unfolding m by (rule rd_app)+
  have rb: "rd_bytes ?m (Suc (Suc (length pre))) (length (snd p)) = Some (snd p)"
    using rd_bytes_app [of "pre @ [fst p, len8 (snd p)]" "snd p"] unfolding m2 by simp
  have le: "length (enc_param p) = length (snd p) + 2" by (simp add: enc_param_def)
  have "parse_auth (length (p # ps)) e ?m (length pre) fin =
      parse_auth (length ps) (set_param (fst p) (snd p) e) ?m (length (pre @ enc_param p)) fin"
    using Cons.prems(2) r rb by (simp add: l le)
  also have "\<dots> = Some (True, foldl (\<lambda>e (i, v). set_param i v e) (set_param (fst p) (snd p) e) ps)"
    unfolding m3 by (rule Cons.IH) (use Cons.prems in simp_all)
  finally show ?case by (cases p) simp
qed simp

lemma parse_eap_enc:
  assumes "eap_fits m" "length pre + length (enc_eap m) \<le> fin"
  shows "nai_realm_parse_eap zero_eap (pre @ enc_eap m @ post) (length pre) fin =
    Some (Some (length pre + length (enc_eap m)), eap_value m)"
proof -
  let ?ps = "concat (map enc_param (snd m))"
  define body where "body = fst m # len8 (snd m) # ?ps"
  have e: "enc_eap m = len8 body # body" by (simp add: enc_eap_def body_def Let_def)
  have lb: "length body < 256" "2 \<le> length body" using assms(1) e by (simp_all add: eap_fits_def body_def)
  then have l: "unat (len8 body) = length body" by (simp add: unat_len8)
  let ?m = "pre @ enc_eap m @ post"
  have m1: "?m = pre @ len8 body # fst m # (len8 (snd m) # ?ps @ post)" by (simp add: e body_def)
  have m2: "?m = (pre @ [len8 body]) @ fst m # len8 (snd m) # (?ps @ post)" by (simp add: e body_def)
  have m3: "?m = (pre @ [len8 body, fst m, len8 (snd m)]) @ ?ps @ post" by (simp add: e body_def)
  have r: "rd ?m (length pre) = Some (len8 body)" "rd ?m (Suc (length pre)) = Some (fst m)"
    unfolding m1 by (rule rd_app)+
  have r3: "rd ?m (Suc (Suc (length pre))) = Some (len8 (snd m))"
    using rd_app(2) [of "pre @ [len8 body]" "fst m" "len8 (snd m)" "?ps @ post"] unfolding m2 by simp
  have c: "unat (len8 (snd m)) = length (snd m)" using assms(1) by (simp add: eap_fits_def unat_len8)
  have "parse_auth (length (snd m)) (zero_eap\<lparr>e_method := fst m\<rparr>) ?m
      (length (pre @ [len8 body, fst m, len8 (snd m)])) fin = Some (True, eap_value m)"
    unfolding m3 eap_value_def
    by (rule parse_auth_enc) (use assms e in \<open>simp_all add: eap_fits_def body_def\<close>)
  then show ?thesis
    using r r3 c l lb assms(2) e
    by (simp add: nai_realm_parse_eap_def Let_def word_less_nat_alt numeral_3_eq_3)
qed

lemma parse_eaps_enc:
  assumes "list_all eap_fits ms" "length pre + length (concat (map enc_eap ms)) \<le> fin"
  shows "parse_eaps (length ms) (pre @ concat (map enc_eap ms) @ post) (length pre) fin =
    Some (Some (map eap_value ms))"
  using assms
proof (induction ms arbitrary: pre)
  case (Cons m ms)
  have "nai_realm_parse_eap zero_eap (pre @ enc_eap m @ (concat (map enc_eap ms) @ post)) (length pre) fin =
    Some (Some (length pre + length (enc_eap m)), eap_value m)"
    by (rule parse_eap_enc) (use Cons.prems in simp_all)
  moreover have "parse_eaps (length ms) ((pre @ enc_eap m) @ concat (map enc_eap ms) @ post)
      (length (pre @ enc_eap m)) fin = Some (Some (map eap_value ms))"
    by (rule Cons.IH) (use Cons.prems in simp_all)
  ultimately show ?case by simp
qed simp

lemma eap_min: "3 \<le> length (enc_eap m)"
  by (simp add: enc_eap_def Let_def)

lemma eaps_min: "3 * length ms \<le> length (concat (map enc_eap ms))"
  by (induction ms) (use eap_min in \<open>auto simp: add_mono\<close>)

lemma rd_le16_app: "rd_le16 (pre @ put_le16 v @ post) (length pre) = Some v"
  by (simp add: rd_le16_def put_le16_def rd_def nth_append get_put_le16)

lemma parse_realm_enc:
  assumes "realm_fits r" "length pre + length (enc_realm r) \<le> fin"
  shows "nai_realm_parse_realm True True (pre @ enc_realm r @ post) (length pre) fin =
    Some (Some (length pre + length (enc_realm r), realm_value r))"
proof -
  obtain en nm ms where r: "r = (en, nm, ms)" by (cases r)
  let ?es = "concat (map enc_eap ms)"
  define body where "body = en # len8 nm # nm @ len8 ms # ?es"
  have e: "enc_realm r = put_le16 (word_of_nat (length body)) @ body" by (simp add: enc_realm_def r body_def)
  have f: "length nm < 256" "length ms < 256" "list_all eap_fits ms" "length body < 65536"
    using assms(1) e by (simp_all add: realm_fits_def r)
  have lb: "length body = 3 + length nm + length ?es" by (simp add: body_def)
  have u: "unat (word_of_nat (length body) :: u16) = length body" using f(4) by (rule unat_of_len)
  let ?m = "pre @ enc_realm r @ post"
  have r0: "rd_le16 ?m (length pre) = Some (word_of_nat (length body))"
    using rd_le16_app [of pre _ "body @ post"] by (simp add: e)
  let ?p2 = "pre @ put_le16 (word_of_nat (length body))"
  have m2: "?m = ?p2 @ en # len8 nm # (nm @ len8 ms # ?es @ post)" by (simp add: e body_def)
  have r2: "rd ?m (length pre + 2) = Some en" "rd ?m (length pre + 2 + 1) = Some (len8 nm)"
    using rd_app [of ?p2 en] unfolding m2 by simp_all
  have m3: "?m = (?p2 @ [en, len8 nm]) @ nm @ (len8 ms # ?es @ post)" by (simp add: e body_def)
  have r3: "rd_bytes ?m (length pre + 2 + 2) (length nm) = Some nm"
    using rd_bytes_app [of "?p2 @ [en, len8 nm]" nm "len8 ms # ?es @ post"] unfolding m3 by (simp only: length_append length_put list.size add_0_right add.assoc add_Suc_right add_Suc numeral_2_eq_2)
  have m4: "?m = (?p2 @ [en, len8 nm] @ nm) @ len8 ms # (?es @ post)" by (simp add: e body_def)
  have r4: "rd ?m (length pre + 2 + 2 + length nm) = Some (len8 ms)"
    using rd_app(1) [of "?p2 @ [en, len8 nm] @ nm" "len8 ms" "?es @ post"] unfolding m4 by simp
  let ?p5 = "?p2 @ [en, len8 nm] @ nm @ [len8 ms]"
  have m5: "?m = ?p5 @ ?es @ post" by (simp add: e body_def)
  have le: "length ?p5 = length pre + 2 + 2 + length nm + 1" by simp
  have r5: "parse_eaps (length ms) ?m (length pre + 2 + 2 + length nm + 1) (length pre + 2 + length body) =
      Some (Some (map eap_value ms))"
    using parse_eaps_enc [OF f(3), of ?p5 "length pre + 2 + length body" post] lb unfolding m5 le by simp
  have n: "unat (len8 nm) = length nm" "unat (len8 ms) = length ms" using f by (simp_all add: unat_len8)
  have fin: "length pre + 2 + length body \<le> fin" "length (enc_realm r) = 2 + length body"
    using assms(2) e by simp_all
  have c: "\<not> fin - length pre < 4" "\<not> (fin < length pre + 2 + length body)"
    "\<not> (length pre + 2 + length body < length pre + 2 + 2 + length nm)"
    "\<not> (length pre + 2 + length body < length pre + 2 + 2 + length nm + 1)"
    "\<not> (length pre + 2 + length body < length pre + 2 + 2 + length nm + 1 + length ms * 3)"
    using fin lb eaps_min [of ms] by linarith+
  have pl: "length pre + length (enc_realm r) = length pre + 2 + length body" using fin(2) by simp
  have w3: "\<not> (word_of_nat (length body) :: u16) < 3" using u lb by (simp add: word_less_nat_alt)
  have v: "realm_value r = \<lparr>nr_encoding = en, nr_realm = Some nm, nr_eap_count = len8 ms,
      nr_eap = Some (map eap_value ms)\<rparr>"
    by (simp add: realm_value_def r)
  show ?thesis
    unfolding nai_realm_parse_realm_def Let_def
    by (simp only: r0 r2 r3 r4 r5 n u c w3 bind.simps option.map if_False if_True simp_thms v pl)
qed

lemma parse_realms_enc:
  assumes "list_all realm_fits rs" "length pre + length (concat (map enc_realm rs)) \<le> fin"
  shows "parse_realms (\<lambda>_. True) (\<lambda>_. True) i (length rs) (pre @ concat (map enc_realm rs) @ post) (length pre) fin =
    Some (Some (map realm_value rs))"
  using assms
proof (induction rs arbitrary: pre i)
  case (Cons r rs)
  have "nai_realm_parse_realm True True (pre @ enc_realm r @ (concat (map enc_realm rs) @ post)) (length pre) fin =
    Some (Some (length pre + length (enc_realm r), realm_value r))"
    by (rule parse_realm_enc) (use Cons.prems in simp_all)
  moreover have "parse_realms (\<lambda>_. True) (\<lambda>_. True) (i + 1) (length rs)
      ((pre @ enc_realm r) @ concat (map enc_realm rs) @ post) (length (pre @ enc_realm r)) fin =
      Some (Some (map realm_value rs))"
    by (rule Cons.IH) (use Cons.prems in simp_all)
  ultimately show ?case by simp
qed simp

lemma realm_min: "5 \<le> length (enc_realm r)"
  by (simp add: enc_realm_def Let_def split: prod.split)

lemma realms_min: "5 * length rs \<le> length (concat (map enc_realm rs))"
  by (induction rs) (use realm_min in \<open>auto simp: add_mono\<close>)

text \<open>
  C38. The parser inverts the encoding. Every list of realms that fits the length fields, encoded as
  IEEE 802.11u lays it out, is parsed to exactly the realms, EAP methods and authentication parameters
  it was made of.
\<close>

theorem nai_realm_parse_encoded:
  assumes "list_all realm_fits rs" "length rs < 65536" "wpabuf_inv b" "wpabuf_data b = enc_realms rs"
  shows "nai_realm_parse True (\<lambda>_. True) (\<lambda>_. True) (Some b) = Some (Some (map realm_value rs))"
proof -
  let ?c = "concat (map enc_realm rs)"
  have len: "wpabuf_len b = 2 + length ?c"
    using length_wpabuf_data [OF assms(3)] assms(4) by (simp add: enc_realms_def)
  have h: "wpabuf_head b = put_le16 (word_of_nat (length rs)) @ ?c @ drop (wpabuf_len b) (wpabuf_head b)"
    using assms(4) append_take_drop_id [of "wpabuf_len b" "wpabuf_head b"]
    by (simp add: enc_realms_def wpabuf_data_def wpabuf_len_def)
  define post where "post = drop (wpabuf_len b) (wpabuf_head b)"
  have h': "wpabuf_head b = put_le16 (word_of_nat (length rs)) @ ?c @ post" using h by (simp add: post_def)
  have r: "rd_le16 (wpabuf_head b) 0 = Some (word_of_nat (length rs))"
    unfolding h' using rd_le16_put by simp
  have "parse_realms (\<lambda>_. True) (\<lambda>_. True) 0 (length rs) (wpabuf_head b) 2 (wpabuf_len b) =
      Some (Some (map realm_value rs))"
    using parse_realms_enc [OF assms(1), of "put_le16 (word_of_nat (length rs))" "wpabuf_len b" 0 post] len
    unfolding h' by simp
  then show ?thesis
    using r len realms_min [of rs] unat_of_len [OF assms(2)] by (simp add: nai_realm_parse_def)
qed

definition demo_realms :: "realm_spec list" where
  "demo_realms = [(0, lit ''home.net'', [(21, [(2, [4]), (5, [7])])])]"

lemma nai_realm_parse_encoded_witness:
  "nai_realm_parse True (\<lambda>_. True) (\<lambda>_. True) (Some (small_buf (enc_realms demo_realms))) =
     Some (Some [\<lparr>nr_encoding = 0, nr_realm = Some (lit ''home.net''), nr_eap_count = 1,
       nr_eap = Some [\<lparr>e_method = 21, e_inner_method = 0, e_inner_non_eap = 4, e_cred_type = 7,
         e_tunneled_cred_type = 0\<rparr>]\<rparr>])"
proof -
  have "list_all realm_fits demo_realms" "length demo_realms < 65536"
    by (simp_all add: demo_realms_def realm_fits_def eap_fits_def enc_realm_def enc_eap_def enc_param_def lit_def Let_def)
  from nai_realm_parse_encoded [OF this, of "small_buf (enc_realms demo_realms)"] show ?thesis
    by (simp add: demo_realms_def realm_value_def eap_value_def set_param_def zero_eap_def len8_def)
qed

section \<open>The 3GPP list\<close>

lemma plmn_list_loop_total:
  "fin \<le> length mem \<Longrightarrow> length plmn = 3 \<Longrightarrow> \<exists>r. plmn_list_loop n plmn mem pos fin = Some r"
  by (induction n) (auto simp: memeq_def rd_bytes_def)

lemma plmn_ie_loop_total:
  "fin \<le> length mem \<Longrightarrow> length plmn = 3 \<Longrightarrow> succeeds (plmn_ie_loop plmn mem pos fin) (\<lambda>_. True)"
proof (induction plmn mem pos fin rule: plmn_ie_loop.induct)
  case (1 plmn mem pos fin)
  have p: "succeeds (plmn_list_loop n plmn mem q fin) (\<lambda>_. True)" for n q
    using plmn_list_loop_total [OF 1(2,3)] by (auto simp: succeeds_def)
  show ?case
  proof (cases "pos + 2 \<le> fin")
    case True
    let ?l = "unat (mem ! (pos + 1) AND 0x7f)"
    have r: "rd mem pos = Some (mem ! pos)" "rd mem (pos + 1) = Some (mem ! (pos + 1))"
      using True 1(2) by (simp_all add: rd_def)
    let ?body = "if mem ! pos = 0 \<and> 0 < ?l then do {
        num \<leftarrow> rd mem (pos + 2); plmn_list_loop (unat num) plmn mem (pos + 3) fin } else Some False"
    have step: "plmn_ie_loop plmn mem pos fin = (if fin < pos + 2 + ?l then Some False
        else do { m \<leftarrow> ?body; if m then Some True else plmn_ie_loop plmn mem (pos + 2 + ?l) fin })"
      by (subst plmn_ie_loop.simps) (use True r in \<open>simp only: if_True bind.simps Let_def\<close>)
    show ?thesis
    proof (cases "fin < pos + 2 + ?l")
      case True
      then show ?thesis by (simp add: step succeeds_simps)
    next
      case False
      have "\<exists>m. ?body = Some m"
        using False plmn_list_loop_total [OF 1(2,3)] 1(2) by (auto simp: rd_def)
      then obtain m where m: "?body = Some m" ..
      have "succeeds (plmn_ie_loop plmn mem (pos + 2 + ?l) fin) (\<lambda>_. True)" if "\<not> m"
        by (rule 1(1) [OF True r refl False m that 1(2,3)])
      then show ?thesis
        unfolding step using False by (cases m) (simp_all only: m if_False if_True bind.simps succeeds_simps simp_thms)
    qed
  next
    case False
    then show ?thesis by (subst plmn_ie_loop.simps) (simp add: succeeds_simps)
  qed
qed

lemma takeWhile_shorter: "\<exists>x \<in> set xs. \<not> P x \<Longrightarrow> length (takeWhile P xs) < length xs"
  by (induction xs) auto

lemma plmn_id_match_total:
  assumes "buf_ok anqp"
  shows "succeeds (plmn_id_match anqp imsi) (\<lambda>_. True)"
proof -
  let ?sep = "length (takeWhile (\<lambda>c. c \<noteq> DASH) imsi)"
  have l: "?sep < length imsi" if "DASH \<in> set imsi"
    by (rule takeWhile_shorter) (use that in auto)
  have p: "succeeds (plmn_of imsi ?sep) (\<lambda>pl. length pl = 3)" if "DASH \<in> set imsi" "?sep = 5 \<or> ?sep = 6"
    using l [OF that(1)] that(2)
    by (auto simp: plmn_of_def rds_def succeeds_simps nth_append)
  have i: "succeeds (plmn_ie_loop pl (wpabuf_head b) 2 (2 + n)) (\<lambda>_. True)"
    if "anqp = Some b" "2 + n \<le> wpabuf_len b" "length pl = 3" for pl b n
    by (rule plmn_ie_loop_total)
      (use that assms in \<open>auto simp: buf_ok_def wpabuf_inv_def wpabuf_len_def\<close>)
  have h: "wpabuf_len b \<le> length (wpabuf_head b)" if "anqp = Some b" for b
    using that assms by (simp add: buf_ok_def wpabuf_inv_def wpabuf_len_def)
  show ?thesis
  proof (cases "DASH \<notin> set imsi \<or> (?sep \<noteq> 5 \<and> ?sep \<noteq> 6)")
    case True
    then show ?thesis by (auto simp: plmn_id_match_def Let_def succeeds_simps)
  next
    case False
    then obtain pl where pl: "plmn_of imsi ?sep = Some pl" "length pl = 3"
      using p by (auto simp: succeeds_def)
    then show ?thesis
      using False i h
      by (cases anqp) (auto simp: plmn_id_match_def Let_def succeeds_simps)
  qed
qed

text \<open>
  Only the first PLMN of a list is compared. The loop over a PLMN list does not advance, so a network
  that lists the home PLMN (here 26201, of the subscriber 26201-0123456789) second is not recognised,
  although the same network with the two PLMNs exchanged is.
\<close>

lemma plmn_id_match_only_first:
  "plmn_id_match (Some (small_buf [0, 9, 0, 7, 2, 0x13, 0xf0, 0x20, 0x62, 0xf2, 0x10])) (lit ''26201-0123456789'') =
     Some False \<and>
   plmn_id_match (Some (small_buf [0, 9, 0, 7, 2, 0x62, 0xf2, 0x10, 0x13, 0xf0, 0x20])) (lit ''26201-0123456789'') =
     Some True"
  by code_simp

section \<open>Availability of credentials never faults\<close>

lemma find_eap_total: "realm_wf r \<Longrightarrow> \<exists>e. nai_realm_find_eap ms c r = Some e"
  by (auto simp: nai_realm_find_eap_def realm_wf_def)

lemma realm_loop_total: "list_all realm_wf rs \<Longrightarrow> \<exists>e. realm_loop ms c f i rs = Some e"
proof (induction rs arbitrary: i)
  case (Cons r rs)
  then obtain e where "nai_realm_find_eap ms c r = Some e" using find_eap_total [of r ms c] by auto
  then show ?case using Cons by (cases e) auto
qed simp

definition anqp_ok :: "wpa_bss \<Rightarrow> bool" where
  "anqp_ok b \<longleftrightarrow> buf_ok (anqp_nai_realm b) \<and> buf_ok (anqp_3gpp b) \<and> buf_ok (anqp_roaming_consortium b)"

lemma credentials_total:
  assumes "anqp_ok b"
  shows "\<exists>r. interworking_credentials_available ce c b = Some r"
proof -
  obtain rs where "nai_realm_parse (cr_arr ce) (cr_realm ce) (cr_eap ce) (anqp_nai_realm b) = Some rs"
    "\<forall>l. rs = Some l \<longrightarrow> list_all realm_wf l"
    using nai_realm_parse_total [of "anqp_nai_realm b" "cr_arr ce" "cr_realm ce" "cr_eap ce"] assms
    by (auto simp: anqp_ok_def elim!: succeedsE split: option.splits)
  then have a: "\<exists>r. interworking_credentials_available_realm ce c b = Some r"
    using realm_loop_total [of "the rs" "cr_methods ce" c "cr_dup ce" 0]
    by (cases rs) (auto simp: interworking_credentials_available_realm_def)
  have "\<exists>r. interworking_credentials_available_3gpp c b = Some r"
    using plmn_id_match_total [of "anqp_3gpp b" "c_str (the (c_home_imsi c))"] assms
    by (auto simp: interworking_credentials_available_3gpp_def anqp_ok_def succeeds_def)
  with a show ?thesis by (auto simp: interworking_credentials_available_def)
qed

end
