(* ===== verification/Arbiter.thy ===== *)
theory Arbiter
  imports Bss
begin

text \<open>
  The roaming arbiter (src/wpa_supplicant/arbiter/util.c, filter.c and the selection part of arbiter.c).
  Interworking hands it a list of candidate networks; a chain of filters thins the list out and the
  candidate that is left is the network to join.

  Candidates are allocated objects on a linked list, freed by the filters while they walk the list, so the
  list holds addresses and the objects live in a heap of their own; looking at a freed candidate faults.
  The value of \<open>os_random ()\<close> is an argument. \<open>arbiter_message\<close> writes to a log file and to the control
  interface; the model appends the text to the interface's message log. \<open>local_message\<close> does not check that \<open>fopen\<close>
  returned a file before it prints to it; the model takes it that /tmp/arbiter_msg.log can be opened.
\<close>

section \<open>Interworking elements\<close>

definition EXTENDED_CAPABILITIES_IE_ID :: u8 where
  "EXTENDED_CAPABILITIES_IE_ID = 127"

definition INTERWORKING_IE_ID :: u8 where
  "INTERWORKING_IE_ID = 107"

definition ie_enable_interworking :: "wpa_bss \<Rightarrow> bool option" where
  "ie_enable_interworking b = do {
     p \<leftarrow> wpa_bss_get_ie b EXTENDED_CAPABILITIES_IE_ID;
     (case p of
        None \<Rightarrow> Some False
      | Some pos \<Rightarrow> do {
          len \<leftarrow> rd (b_ies b) (pos + 1);
          if len < 4 then Some False
          else do { x \<leftarrow> rd (b_ies b) (pos + 2 + 3); Some (x AND 0x80 \<noteq> 0) } }) }"

definition ie_interworking_internet :: "wpa_bss \<Rightarrow> bool option" where
  "ie_interworking_internet b = do {
     p \<leftarrow> wpa_bss_get_ie b INTERWORKING_IE_ID;
     (case p of
        None \<Rightarrow> Some False
      | Some pos \<Rightarrow> do {
          len \<leftarrow> rd (b_ies b) (pos + 1);
          if len < 1 then Some False
          else do { x \<leftarrow> rd (b_ies b) (pos + 2); Some (x AND 0x10 \<noteq> 0) } }) }"

definition is_free_public :: "wpa_bss \<Rightarrow> bool option" where
  "is_free_public b = do {
     p \<leftarrow> wpa_bss_get_ie b INTERWORKING_IE_ID;
     (case p of
        None \<Rightarrow> Some False
      | Some pos \<Rightarrow> do {
          len \<leftarrow> rd (b_ies b) (pos + 1);
          if len < 1 then Some False
          else do { x \<leftarrow> rd (b_ies b) (pos + 2); Some (x AND 0x0f = 3) } }) }"

section \<open>Candidates\<close>

record candidates =
  cd_list :: "ptr list"
  cd_heap :: "ptr \<Rightarrow> ptr option"

definition no_candidates :: candidates where
  "no_candidates = \<lparr>cd_list = [], cd_heap = (\<lambda>_. None)\<rparr>"

definition arbiter_message :: "bytes \<Rightarrow> wpa_supplicant \<Rightarrow> wpa_supplicant" where
  "arbiter_message content s = s\<lparr>messages := messages s @ [content]\<rparr>"

text \<open>\<open>%s\<close> applied to the SSID array: without a NUL in the array the read runs out of it.\<close>

definition ssid_str :: "wpa_bss \<Rightarrow> bytes option" where
  "ssid_str b = (if 0 \<in> set (b_ssid b) then Some (c_str (b_ssid b)) else None)"

fun display_loop :: "wpa_supplicant \<Rightarrow> candidates \<Rightarrow> ptr list \<Rightarrow> wpa_supplicant option" where
  "display_loop s c [] = Some s"
| "display_loop s c (p # ps) = do {
     a \<leftarrow> cd_heap c p;
     b \<leftarrow> bss_heap s a;
     t \<leftarrow> ssid_str b;
     display_loop (arbiter_message (take 127 (lit ''AP - '' @ t)) s) c ps }"

definition display_candidates :: "wpa_supplicant \<Rightarrow> candidates \<Rightarrow> wpa_supplicant option" where
  "display_candidates s c =
     (let s = (if cd_list c = [] then arbiter_message (lit ''No network Left!'') s else s)
      in display_loop s c (cd_list c))"

definition build_candidate :: "ptr option \<Rightarrow> ptr \<Rightarrow> candidates \<Rightarrow> ptr option \<times> candidates" where
  "build_candidate al b c = (case al of
     None \<Rightarrow> (None, c)
   | Some q \<Rightarrow> (Some q, c\<lparr>cd_heap := (cd_heap c)(q \<mapsto> b)\<rparr>))"

definition add_candidate :: "ptr option \<Rightarrow> candidates \<Rightarrow> candidates option" where
  "add_candidate q c = do { p \<leftarrow> q; _ \<leftarrow> cd_heap c p; Some (c\<lparr>cd_list := cd_list c @ [p]\<rparr>) }"

section \<open>Filters\<close>

text \<open>
  The loop shared by the two filters that look at the candidates: a candidate that fails the test is
  remembered and removed when the walk has moved on, since the walk still needs its link.
\<close>

definition drop_waiting :: "ptr option \<Rightarrow> candidates \<Rightarrow> candidates" where
  "drop_waiting wait_to_delete c = (case wait_to_delete of
     None \<Rightarrow> c
   | Some w \<Rightarrow> c\<lparr>cd_list := remove1 w (cd_list c), cd_heap := (cd_heap c)(w := None)\<rparr>)"

fun filter_loop ::
  "(wpa_bss \<Rightarrow> bool option) \<Rightarrow> (ptr \<Rightarrow> wpa_bss option) \<Rightarrow> ptr option \<Rightarrow> candidates \<Rightarrow> ptr list \<Rightarrow> candidates option" where
  "filter_loop keep heap wait_to_delete c [] = Some (drop_waiting wait_to_delete c)"
| "filter_loop keep heap wait_to_delete c (item # rest) = do {
     let c = drop_waiting wait_to_delete c;
     a \<leftarrow> cd_heap c item;
     b \<leftarrow> heap a;
     k \<leftarrow> keep b;
     filter_loop keep heap (if k then None else Some item) c rest }"

definition access_internet_filter :: "wpa_supplicant \<Rightarrow> candidates \<Rightarrow> (wpa_supplicant \<times> candidates) option" where
  "access_internet_filter s c = do {
     let s = arbiter_message (lit ''Accessing Internet Filter starts working...'') s;
     c \<leftarrow> filter_loop ie_interworking_internet (bss_heap s) None c (cd_list c);
     Some (s, c) }"

definition free_public_filter :: "wpa_supplicant \<Rightarrow> candidates \<Rightarrow> (wpa_supplicant \<times> candidates) option" where
  "free_public_filter s c = do {
     let s = arbiter_message (lit ''Free-Public Filter starts working...'') s;
     c \<leftarrow> filter_loop is_free_public (bss_heap s) None c (cd_list c);
     Some (s, c) }"

definition consortium_filter :: "wpa_supplicant \<Rightarrow> candidates \<Rightarrow> (wpa_supplicant \<times> candidates) option" where
  "consortium_filter s c = Some (s, c)"

fun random_loop ::
  "nat \<Rightarrow> nat \<Rightarrow> ptr option \<Rightarrow> (ptr \<Rightarrow> ptr option) \<Rightarrow> ptr list \<Rightarrow> (ptr option \<times> (ptr \<Rightarrow> ptr option)) option" where
  "random_loop decide i ret heap [] = Some (ret, heap)"
| "random_loop decide i ret heap (p # ps) = do {
     _ \<leftarrow> heap p;
     if i = decide then random_loop decide (i + 1) (Some p) heap ps
     else random_loop decide (i + 1) ret (heap(p := None)) ps }"

definition random_filter :: "nat \<Rightarrow> wpa_supplicant \<Rightarrow> candidates \<Rightarrow> (wpa_supplicant \<times> candidates) option" where
  "random_filter rnd s c =
     (let num = length (cd_list c) in
      if num = 0 then None
      else do {
        let decide = rnd mod num;
        let s = arbiter_message (lit ''Random Filter starts working...'') s;
        (ret, heap) \<leftarrow> random_loop decide 0 None (cd_heap c) (cd_list c);
        c \<leftarrow> add_candidate ret \<lparr>cd_list = [], cd_heap = heap\<rparr>;
        Some (s, c) })"

definition run_filter ::
  "arbiter_filter \<Rightarrow> nat \<Rightarrow> wpa_supplicant \<Rightarrow> candidates \<Rightarrow> (wpa_supplicant \<times> candidates) option" where
  "run_filter f rnd s c = (case f of
     Free_public_filter \<Rightarrow> free_public_filter s c
   | Access_internet_filter \<Rightarrow> access_internet_filter s c
   | Random_filter \<Rightarrow> random_filter rnd s c
   | Consortium_filter \<Rightarrow> consortium_filter s c)"

section \<open>The arbiter\<close>

definition arbiter_init :: "bool \<Rightarrow> arbiter option" where
  "arbiter_init al = (if \<not> al then None
     else Some \<lparr>arb_state = ARBITER_IDLE,
            arb_filters = [Free_public_filter, Access_internet_filter, Random_filter],
            arb_set_auto = False\<rparr>)"

fun select_loop ::
  "(nat \<Rightarrow> nat) \<Rightarrow> nat \<Rightarrow> arbiter_filter list \<Rightarrow> wpa_supplicant \<Rightarrow> candidates \<Rightarrow>
     (wpa_supplicant \<times> candidates) option" where
  "select_loop rnd i [] s c = Some (s, c)"
| "select_loop rnd i (f # fs) s c = do {
     (s, c) \<leftarrow> run_filter f (rnd i) s c;
     let s = arbiter_message (lit ''After this filter, candidates left are:'') s;
     s \<leftarrow> display_candidates s c;
     if cd_list c = [] then Some (s, c) else select_loop rnd (i + 1) fs s c }"

text \<open>
  \<open>rnd i\<close> is the value of \<open>os_random ()\<close> when the filter with index \<open>i\<close> runs. The result is the selected
  BSS, the state, and what is left of the candidates: the last candidate is freed but stays on the
  caller's list, which is dead by then.
\<close>

definition arbiter_select ::
  "(nat \<Rightarrow> nat) \<Rightarrow> wpa_supplicant \<Rightarrow> candidates \<Rightarrow> (ptr option \<times> wpa_supplicant \<times> candidates) option" where
  "arbiter_select rnd s c = do {
     a \<leftarrow> arb s;
     let s = s\<lparr>arb := Some (a\<lparr>arb_state := ARBITER_DECIDING\<rparr>)\<rparr>;
     let s = arbiter_message (lit ''All information retrieved, start selecting process.'') s;
     let s = arbiter_message (lit ''All interworking networks available are:'') s;
     s \<leftarrow> display_candidates s c;
     (s, c) \<leftarrow> select_loop rnd 0 (arb_filters a) s c;
     let s = s\<lparr>arb := Some (a\<lparr>arb_state := ARBITER_IDLE\<rparr>)\<rparr>;
     (case cd_list c of
        [] \<Rightarrow> Some (None, arbiter_message (lit ''No network can be selected after all filters!'') s, c)
      | p # _ \<Rightarrow> do {
          ans \<leftarrow> cd_heap c p;
          Some (Some ans, s, c\<lparr>cd_heap := (cd_heap c)(p := None)\<rparr>) }) }"

section \<open>What the elements say\<close>

text \<open>The first octet of the first Interworking element, when there is one.\<close>

definition iw_octet :: "wpa_bss \<Rightarrow> u8 option" where
  "iw_octet b = (case find (\<lambda>e. fst e = INTERWORKING_IE_ID) (elems (take (b_ie_len b) (b_ies b))) of
     None \<Rightarrow> None
   | Some e \<Rightarrow> (case snd e of [] \<Rightarrow> None | x # _ \<Rightarrow> Some x))"

definition free_public :: "wpa_bss \<Rightarrow> bool" where
  "free_public b = (case iw_octet b of None \<Rightarrow> False | Some x \<Rightarrow> x AND 0x0f = 3)"

definition internet :: "wpa_bss \<Rightarrow> bool" where
  "internet b = (case iw_octet b of None \<Rightarrow> False | Some x \<Rightarrow> x AND 0x10 \<noteq> 0)"

text \<open>Both tests of the Interworking element read its length and first octet in the same way.\<close>

lemma iw_octet_read:
  assumes "bss_wf b"
  shows "(do { p \<leftarrow> wpa_bss_get_ie b INTERWORKING_IE_ID;
      (case p of
         None \<Rightarrow> Some False
       | Some pos \<Rightarrow> do {
           len \<leftarrow> rd (b_ies b) (pos + 1);
           if len < 1 then Some False
           else do { x \<leftarrow> rd (b_ies b) (pos + 2); Some (f x) } }) }) =
    Some (case iw_octet b of None \<Rightarrow> False | Some x \<Rightarrow> f x)"
proof -
  have w: "bss_ie.wf b" "b_ie_len b \<le> length (b_ies b)" using assms by (simp_all add: bss_wf_def bss_ie.wf_def)
  obtain r where r: "wpa_bss_get_ie b INTERWORKING_IE_ID = Some r"
    "map_option (element_at (b_ies b)) r = find (\<lambda>e. fst e = INTERWORKING_IE_ID) (elems (take (b_ie_len b) (b_ies b)))"
    "\<forall>p. r = Some p \<longrightarrow> complete_at (b_ies b) p (b_ie_len b)"
    using bss_ie.get_ie_first [OF w(1)] unfolding bss_ie.elements_def by blast
  show ?thesis
  proof (cases r)
    case None
    then have "iw_octet b = None" using r(2) by (simp add: iw_octet_def)
    then show ?thesis using r(1) None by simp
  next
    case (Some pos)
    have c: "complete_at (b_ies b) pos (b_ie_len b)" using r(3) Some by simp
    define l where "l = b_ies b ! (pos + 1)"
    have b: "pos + 1 < length (b_ies b)" "pos + 2 + unat l \<le> length (b_ies b)"
      using c w(2) by (auto simp: complete_at_def l_def)
    have e: "iw_octet b = (case take (unat l) (drop (pos + 2) (b_ies b)) of [] \<Rightarrow> None | x # _ \<Rightarrow> Some x)"
      using r(2) [symmetric] Some by (simp add: iw_octet_def element_at_def l_def)
    show ?thesis
    proof (cases "l < 1")
      case True
      then have "unat l = 0" by (simp add: word_less_nat_alt)
      then show ?thesis using True r(1) Some b e by (simp add: rd_def l_def)
    next
      case False
      then have p: "0 < unat l" by (simp add: word_less_nat_alt)
      then have "take (unat l) (drop (pos + 2) (b_ies b)) = b_ies b ! (pos + 2) # take (unat l - 1) (drop (pos + 3) (b_ies b))"
        using b by (cases "unat l") (simp_all add: Cons_nth_drop_Suc [symmetric] numeral_3_eq_3)
      then show ?thesis using False p r(1) Some b e by (simp add: rd_def l_def)
    qed
  qed
qed

lemma ie_interworking_internet_spec: "bss_wf b \<Longrightarrow> ie_interworking_internet b = Some (internet b)"
  unfolding ie_interworking_internet_def internet_def by (rule iw_octet_read)

lemma is_free_public_spec: "bss_wf b \<Longrightarrow> is_free_public b = Some (free_public b)"
  unfolding is_free_public_def free_public_def by (rule iw_octet_read)

section \<open>The filter loop\<close>

text \<open>
  \<open>cand_ok\<close>: the candidates on the list are distinct live objects that refer to live BSS entries, and no
  other candidate object is allocated.
\<close>

definition cand_bss :: "wpa_supplicant \<Rightarrow> candidates \<Rightarrow> ptr \<Rightarrow> wpa_bss" where
  "cand_bss s c p = the (bss_heap s (the (cd_heap c p)))"

definition live :: "(ptr \<Rightarrow> wpa_bss option) \<Rightarrow> (ptr \<Rightarrow> ptr option) \<Rightarrow> ptr \<Rightarrow> bool" where
  "live h ch p = (case ch p of None \<Rightarrow> False | Some a \<Rightarrow> (case h a of None \<Rightarrow> False | Some b \<Rightarrow> bss_wf b))"

definition cand_ok :: "wpa_supplicant \<Rightarrow> candidates \<Rightarrow> bool" where
  "cand_ok s c \<longleftrightarrow> distinct (cd_list c) \<and> list_all (live (bss_heap s) (cd_heap c)) (cd_list c) \<and>
     dom (cd_heap c) \<subseteq> set (cd_list c)"

lemma liveE:
  assumes "live h ch p"
  obtains a b where "ch p = Some a" "h a = Some b" "bss_wf b"
  using assms by (auto simp: live_def split: option.splits)

lemma live_cong: "ch p = ch' p \<Longrightarrow> live h ch p = live h ch' p"
  by (simp add: live_def)

text \<open>What a filter promises: its test never faults on a BSS entry and decides a fixed predicate.\<close>

locale candidate_filter =
  fixes test :: "wpa_bss \<Rightarrow> bool option"
    and sat :: "wpa_bss \<Rightarrow> bool"
  assumes test_spec: "bss_wf b \<Longrightarrow> test b = Some (sat b)"
begin

definition passes :: "(ptr \<Rightarrow> wpa_bss option) \<Rightarrow> (ptr \<Rightarrow> ptr option) \<Rightarrow> ptr \<Rightarrow> bool" where
  "passes h ch p = sat (the (h (the (ch p))))"

lemma loop_filters:
  assumes "distinct (cd_list c)" "list_all (live h (cd_heap c)) ps"
    "cd_list c = pre @ (case w of None \<Rightarrow> [] | Some x \<Rightarrow> [x]) @ ps"
  shows "filter_loop test h w c ps = Some \<lparr>cd_list = pre @ filter (passes h (cd_heap c)) ps,
    cd_heap = (\<lambda>q. if Some q = w \<or> (q \<in> set ps \<and> \<not> passes h (cd_heap c) q) then None else cd_heap c q)\<rparr>"
  using assms
proof (induction ps arbitrary: pre w c)
  case Nil
  have "w = Some x \<Longrightarrow> remove1 x (cd_list c) = pre" for x
    using Nil by (auto simp: remove1_append)
  then show ?case using Nil(3) by (cases w) (simp_all add: drop_waiting_def fun_upd_def eq_commute)
next
  case (Cons p ps)
  let ?c = "drop_waiting w c"
  from Cons.prems(2) obtain a b where ab: "cd_heap c p = Some a" "h a = Some b" "bss_wf b"
    by (auto elim: liveE)
  have np: "w \<noteq> Some p" "\<forall>x. w = Some x \<longrightarrow> x \<notin> set ps" "p \<notin> set ps" "\<forall>x. w = Some x \<longrightarrow> x \<notin> set pre"
    using Cons.prems(1,3) by (cases w; simp)+
  have l: "cd_list ?c = pre @ p # ps" using Cons.prems(3) np(4) by (cases w) (simp_all add: drop_waiting_def remove1_append)
  have hp: "cd_heap ?c q = (if Some q = w then None else cd_heap c q)" for q
    by (cases w) (auto simp: drop_waiting_def)
  have same: "cd_heap ?c q = cd_heap c q" if "q \<in> set (p # ps)" for q using that np hp by auto
  have d: "distinct (cd_list ?c)" using Cons.prems(1,3) l by (cases w) simp_all
  have lv: "list_all (live h (cd_heap ?c)) ps"
    using Cons.prems(2) same by (simp add: list_all_iff live_def)
  have ps: "passes h (cd_heap ?c) q = passes h (cd_heap c) q" if "q \<in> set (p # ps)" for q
    using same [OF that] by (simp add: passes_def)
  then have f: "filter (passes h (cd_heap ?c)) ps = filter (passes h (cd_heap c)) ps"
    by (intro filter_cong) auto
  have k: "passes h (cd_heap c) p = sat b" using ab by (simp add: passes_def)
  have heap: "(\<lambda>q. if Some q = (if sat b then None else Some p) \<or> (q \<in> set ps \<and> \<not> passes h (cd_heap ?c) q) then None else cd_heap ?c q) =
      (\<lambda>q. if Some q = w \<or> (q \<in> set (p # ps) \<and> \<not> passes h (cd_heap c) q) then None else cd_heap c q)"
  proof
    fix q
    show "(if Some q = (if sat b then None else Some p) \<or> (q \<in> set ps \<and> \<not> passes h (cd_heap ?c) q) then None else cd_heap ?c q) =
      (if Some q = w \<or> (q \<in> set (p # ps) \<and> \<not> passes h (cd_heap c) q) then None else cd_heap c q)"
      using ps [of q] k np by (cases "q = p"; cases "q \<in> set ps") (auto simp: hp)
  qed
  have step: "filter_loop test h w c (p # ps) = filter_loop test h (if sat b then None else Some p) ?c ps"
    using ab np(1) by (simp add: test_spec hp Let_def)
  show ?case
  proof (cases "sat b")
    case True
    then have "filter_loop test h w c (p # ps) = filter_loop test h None ?c ps" using step by simp
    also have "\<dots> = Some \<lparr>cd_list = (pre @ [p]) @ filter (passes h (cd_heap ?c)) ps,
        cd_heap = (\<lambda>q. if Some q = (if sat b then None else Some p) \<or> (q \<in> set ps \<and> \<not> passes h (cd_heap ?c) q) then None else cd_heap ?c q)\<rparr>"
      using Cons.IH [of ?c "pre @ [p]" None] d lv l True by simp
    finally show ?thesis unfolding f heap using True k by (simp del: filter_loop.simps)
  next
    case False
    then have "filter_loop test h w c (p # ps) = filter_loop test h (Some p) ?c ps" using step by simp
    also have "\<dots> = Some \<lparr>cd_list = pre @ filter (passes h (cd_heap ?c)) ps,
        cd_heap = (\<lambda>q. if Some q = (if sat b then None else Some p) \<or> (q \<in> set ps \<and> \<not> passes h (cd_heap ?c) q) then None else cd_heap ?c q)\<rparr>"
      using Cons.IH [of ?c pre "Some p"] d lv l False by simp
    finally show ?thesis unfolding f heap using False k by (simp del: filter_loop.simps)
  qed
qed

lemma filters:
  assumes "cand_ok s c"
  shows "\<exists>c'. filter_loop test (bss_heap s) None c (cd_list c) = Some c' \<and>
    cd_list c' = filter (sat \<circ> cand_bss s c) (cd_list c) \<and>
    (\<forall>p \<in> set (cd_list c'). cd_heap c' p = cd_heap c p) \<and> cand_ok s c'"
proof -
  let ?h = "bss_heap s" and ?l = "cd_list c"
  have o: "distinct ?l" "list_all (live ?h (cd_heap c)) ?l" "dom (cd_heap c) \<subseteq> set ?l"
    using assms by (simp_all add: cand_ok_def)
  have e: "passes ?h (cd_heap c) = sat \<circ> cand_bss s c" by (simp add: fun_eq_iff passes_def cand_bss_def)
  let ?c = "\<lparr>cd_list = filter (sat \<circ> cand_bss s c) ?l,
    cd_heap = (\<lambda>q. if Some q = None \<or> (q \<in> set ?l \<and> \<not> (sat \<circ> cand_bss s c) q) then None else cd_heap c q)\<rparr>"
  have "filter_loop test ?h None c ?l = Some ?c"
    using loop_filters [OF o(1,2), of "[]" None] by (simp add: e)
  moreover have "\<forall>p \<in> set (cd_list ?c). cd_heap ?c p = cd_heap c p" by simp
  moreover have "cand_ok s ?c"
    using o by (auto simp: cand_ok_def list_all_iff live_def split: if_splits, blast)
  ultimately show ?thesis by fastforce
qed

end

interpretation fp: candidate_filter is_free_public free_public
  by unfold_locales (rule is_free_public_spec)

interpretation ai: candidate_filter ie_interworking_internet internet
  by unfold_locales (rule ie_interworking_internet_spec)

section \<open>Selection as an operation on lists of BSS entries\<close>

text \<open>
  The abstract arbiter works on the list of BSS entries itself: filters keep the entries that satisfy
  their predicate, the random filter keeps one.
\<close>

definition abs_cands :: "candidates \<Rightarrow> ptr list" where
  "abs_cands c = map (\<lambda>p. the (cd_heap c p)) (cd_list c)"

fun abs_filter :: "(ptr \<Rightarrow> wpa_bss option) \<Rightarrow> arbiter_filter \<Rightarrow> nat \<Rightarrow> ptr list \<Rightarrow> ptr list" where
  "abs_filter h Free_public_filter rnd l = filter (\<lambda>a. free_public (the (h a))) l"
| "abs_filter h Access_internet_filter rnd l = filter (\<lambda>a. internet (the (h a))) l"
| "abs_filter h Random_filter rnd l = (if l = [] then [] else [l ! (rnd mod length l)])"
| "abs_filter h Consortium_filter rnd l = l"

fun abs_select :: "(ptr \<Rightarrow> wpa_bss option) \<Rightarrow> (nat \<Rightarrow> nat) \<Rightarrow> nat \<Rightarrow> arbiter_filter list \<Rightarrow> ptr list \<Rightarrow> ptr list" where
  "abs_select h rnd i [] l = l"
| "abs_select h rnd i (f # fs) l =
     (let l = abs_filter h f (rnd i) l in if l = [] then [] else abs_select h rnd (i + 1) fs l)"

text \<open>\<open>says s s'\<close>: the states differ only in the messages given out.\<close>

definition says :: "wpa_supplicant \<Rightarrow> wpa_supplicant \<Rightarrow> bool" where
  "says s s' \<longleftrightarrow> s'\<lparr>messages := []\<rparr> = s\<lparr>messages := []\<rparr>"

lemma says_refl [simp]: "says s s"
  by (simp add: says_def)

lemma says_trans [trans]: "says s s' \<Longrightarrow> says s' s'' \<Longrightarrow> says s s''"
  by (simp add: says_def)

lemma says_message [simp]: "says s (arbiter_message m s') = says s s'"
  by (simp add: says_def arbiter_message_def)

lemma arbiter_message_sel [simp]:
  "bss_heap (arbiter_message m s) = bss_heap s" "arb (arbiter_message m s) = arb s"
  by (simp_all add: arbiter_message_def)

lemma says_sel:
  assumes "says s s'"
  shows "bss_heap s' = bss_heap s" "arb s' = arb s"
  using arg_cong [OF assms [unfolded says_def], of bss_heap] arg_cong [OF assms [unfolded says_def], of arb]
  by simp_all

lemma cand_ok_says: "says s s' \<Longrightarrow> cand_ok s' c = cand_ok s c"
  by (simp add: cand_ok_def says_sel)

definition printable :: "wpa_supplicant \<Rightarrow> candidates \<Rightarrow> bool" where
  "printable s c \<longleftrightarrow> list_all (\<lambda>p. 0 \<in> set (b_ssid (cand_bss s c p))) (cd_list c)"

lemma printable_says: "says s s' \<Longrightarrow> printable s' c = printable s c"
  by (simp add: printable_def cand_bss_def says_sel)

lemma display_loop_says:
  "list_all (live (bss_heap s) (cd_heap c)) ps \<Longrightarrow>
   list_all (\<lambda>p. 0 \<in> set (b_ssid (cand_bss s c p))) ps \<Longrightarrow>
   \<exists>s'. display_loop s c ps = Some s' \<and> says s s'"
proof (induction ps arbitrary: s)
  case (Cons p ps)
  from Cons.prems(1) obtain a b where ab: "cd_heap c p = Some a" "bss_heap s a = Some b" by (auto elim: liveE)
  then have t: "ssid_str b = Some (c_str (b_ssid b))"
    using Cons.prems(2) by (simp add: ssid_str_def cand_bss_def)
  let ?s = "arbiter_message (take 127 (lit ''AP - '' @ c_str (b_ssid b))) s"
  obtain s' where "display_loop ?s c ps = Some s'" "says ?s s'"
    using Cons.IH [of ?s] Cons.prems by (auto simp: cand_bss_def)
  then show ?case using ab t says_trans [of s ?s s'] by (simp add: says_message)
qed simp

lemma display_says:
  assumes "cand_ok s c" "printable s c"
  shows "\<exists>s'. display_candidates s c = Some s' \<and> says s s'"
proof -
  define s1 where "s1 = (if cd_list c = [] then arbiter_message (lit ''No network Left!'') s else s)"
  have s: "says s s1" by (simp add: s1_def)
  have "bss_heap s1 = bss_heap s" using says_sel(1) [OF s] .
  then obtain s' where "display_loop s1 c (cd_list c) = Some s'" "says s1 s'"
    using display_loop_says [of s1 c "cd_list c"] assms
    by (auto simp: cand_ok_def printable_def cand_bss_def)
  then show ?thesis using says_trans [OF s] by (auto simp: display_candidates_def s1_def [symmetric])
qed

lemma random_loop_append:
  "random_loop d i r h (xs @ ys) = do { (r, h) \<leftarrow> random_loop d i r h xs; random_loop d (i + length xs) r h ys }"
  by (induction xs arbitrary: i r h) (auto split: option.split simp: option.case_eq_if)

lemma random_loop_skip:
  "distinct ps \<Longrightarrow> set ps \<subseteq> dom h \<Longrightarrow> d < i \<or> i + length ps \<le> d \<Longrightarrow>
     random_loop d i r h ps = Some (r, \<lambda>q. if q \<in> set ps then None else h q)"
proof (induction ps arbitrary: i h)
  case (Cons p ps)
  have "random_loop d i r h (p # ps) = random_loop d (i + 1) r (h(p := None)) ps"
    using Cons.prems by (auto simp: dom_def)
  also have "\<dots> = Some (r, \<lambda>q. if q \<in> set ps then None else (h(p := None)) q)"
    by (rule Cons.IH) (use Cons.prems in \<open>auto simp: dom_def\<close>)
  finally show ?case by (simp add: fun_eq_iff)
qed simp

lemma random_filter_picks:
  assumes "cand_ok s c" "cd_list c \<noteq> []"
  shows "\<exists>s'. random_filter rnd s c = Some (s', \<lparr>cd_list = [cd_list c ! (rnd mod length (cd_list c))],
      cd_heap = cd_heap c |` {cd_list c ! (rnd mod length (cd_list c))}\<rparr>) \<and> says s s'"
proof -
  let ?l = "cd_list c" and ?h = "cd_heap c"
  define d where "d = rnd mod length ?l"
  have d: "d < length ?l" using assms(2) by (simp add: d_def)
  then have l: "?l = take d ?l @ ?l ! d # drop (Suc d) ?l" by (simp add: id_take_nth_drop)
  have o: "distinct ?l" "set ?l \<subseteq> dom ?h" "dom ?h \<subseteq> set ?l"
    using assms(1) by (auto simp: cand_ok_def list_all_iff live_def split: option.splits)
  have dd: "?l ! d \<notin> set (take d ?l)" "?l ! d \<notin> set (drop (Suc d) ?l)" "distinct (take d ?l)" "distinct (drop (Suc d) ?l)"
    "set (take d ?l) \<inter> set (drop (Suc d) ?l) = {}"
    using o(1) [unfolded distinct_append [of "take d ?l" "?l ! d # drop (Suc d) ?l", folded l]] by auto
  let ?h1 = "\<lambda>q. if q \<in> set (take d ?l) then None else ?h q"
  have sl: "set ?l = insert (?l ! d) (set (take d ?l) \<union> set (drop (Suc d) ?l))"
    using arg_cong [OF l, of set] by auto
  have 1: "random_loop d 0 None ?h (take d ?l) = Some (None, ?h1)"
    by (rule random_loop_skip) (use dd(3) d o(2) sl in auto)
  have 2: "random_loop d (d + 1) (Some (?l ! d)) ?h1 (drop (Suc d) ?l) =
      Some (Some (?l ! d), \<lambda>q. if q \<in> set (drop (Suc d) ?l) then None else ?h1 q)"
    by (rule random_loop_skip) (use dd(4,5) o(2) sl in \<open>auto simp: dom_def\<close>)
  have hd: "\<exists>a. ?h (?l ! d) = Some a" using o(2) d nth_mem by blast
  then have in1: "\<exists>a. ?h1 (?l ! d) = Some a" using dd(1) by simp
  have "random_loop d 0 None ?h ?l = Some (Some (?l ! d), \<lambda>q. if q \<in> set (drop (Suc d) ?l) then None else ?h1 q)"
    by (subst l, subst random_loop_append, subst 1) (use 2 in1 d in \<open>auto simp: min_def\<close>)
  moreover have "(\<lambda>q. if q \<in> set (drop (Suc d) ?l) then None else ?h1 q) = ?h |` {?l ! d}"
  proof
    fix q
    have "q \<notin> set ?l \<Longrightarrow> ?h q = None" using o(3) by (auto simp: dom_def)
    then show "(if q \<in> set (drop (Suc d) ?l) then None else ?h1 q) = (?h |` {?l ! d}) q"
      using dd(1,2) sl by (cases "q = ?l ! d") (auto simp: restrict_map_def)
  qed
  moreover have "\<exists>a. (?h |` {?l ! d}) (?l ! d) = Some a" using hd by simp
  ultimately show ?thesis
    using assms(2) by (auto simp: random_filter_def Let_def add_candidate_def d_def [symmetric])
qed

text \<open>One filter implements its abstract counterpart, keeps the candidates consistent and only says something.\<close>

definition filtered :: "wpa_supplicant \<Rightarrow> candidates \<Rightarrow> wpa_supplicant \<Rightarrow> candidates \<Rightarrow> bool" where
  "filtered s c s' c' \<longleftrightarrow> says s s' \<and> cand_ok s' c' \<and> printable s' c'"

lemma printable_sub:
  assumes "printable s c" "set (cd_list c') \<subseteq> set (cd_list c)" "\<forall>p \<in> set (cd_list c'). cd_heap c' p = cd_heap c p"
  shows "printable s c'"
  using assms by (auto simp: printable_def list_all_iff cand_bss_def)

lemma filter_step:
  assumes "cand_ok s c" "printable s c" "cd_list c' = filter (P \<circ> cand_bss s c) (cd_list c)"
    "\<forall>p \<in> set (cd_list c'). cd_heap c' p = cd_heap c p" "cand_ok s c'"
  shows "filtered s c (arbiter_message m s) c'"
    "abs_cands c' = filter (\<lambda>a. P (the (bss_heap s a))) (abs_cands c)"
proof -
  have "printable s c'" by (rule printable_sub [OF assms(2)]) (use assms(3,4) in auto)
  then show "filtered s c (arbiter_message m s) c'"
    using assms(5) cand_ok_says [of s "arbiter_message m s"] printable_says [of s "arbiter_message m s"]
    by (simp add: filtered_def)
  have "abs_cands c' = map (\<lambda>p. the (cd_heap c p)) (filter (P \<circ> cand_bss s c) (cd_list c))"
    using assms(3,4) by (simp add: abs_cands_def)
  then show "abs_cands c' = filter (\<lambda>a. P (the (bss_heap s a))) (abs_cands c)"
    by (simp add: abs_cands_def filter_map comp_def cand_bss_def)
qed

lemma run_filter_refines:
  assumes "cand_ok s c" "printable s c" "f = Random_filter \<longrightarrow> cd_list c \<noteq> []"
  shows "\<exists>s' c'. run_filter f rnd s c = Some (s', c') \<and> filtered s c s' c' \<and>
    abs_cands c' = abs_filter (bss_heap s) f rnd (abs_cands c)"
proof (cases f)
  case Free_public_filter
  obtain c' where "filter_loop is_free_public (bss_heap s) None c (cd_list c) = Some c'"
    "cd_list c' = filter (free_public \<circ> cand_bss s c) (cd_list c)"
    "\<forall>p \<in> set (cd_list c'). cd_heap c' p = cd_heap c p" "cand_ok s c'"
    using fp.filters [OF assms(1)] by blast
  then show ?thesis using filter_step [OF assms(1,2)] Free_public_filter
    by (simp add: run_filter_def free_public_filter_def Let_def)
next
  case Access_internet_filter
  obtain c' where "filter_loop ie_interworking_internet (bss_heap s) None c (cd_list c) = Some c'"
    "cd_list c' = filter (internet \<circ> cand_bss s c) (cd_list c)"
    "\<forall>p \<in> set (cd_list c'). cd_heap c' p = cd_heap c p" "cand_ok s c'"
    using ai.filters [OF assms(1)] by blast
  then show ?thesis using filter_step [OF assms(1,2)] Access_internet_filter
    by (simp add: run_filter_def access_internet_filter_def Let_def)
next
  case Random_filter
  let ?l = "cd_list c"
  let ?p = "?l ! (rnd mod length ?l)"
  let ?c = "\<lparr>cd_list = [?p], cd_heap = cd_heap c |` {?p}\<rparr>"
  have ne: "?l \<noteq> []" using assms(3) Random_filter by simp
  then have p: "?p \<in> set ?l" by simp
  obtain s' where s': "random_filter rnd s c = Some (s', ?c)" "says s s'"
    using random_filter_picks [OF assms(1) ne] by blast
  have "printable s ?c" by (rule printable_sub [OF assms(2)]) (use p in auto)
  moreover have "cand_ok s ?c"
    using assms(1) p by (auto simp: cand_ok_def list_all_iff live_def split: option.splits)
  moreover have "abs_cands ?c = abs_filter (bss_heap s) f rnd (abs_cands c)"
    using ne Random_filter by (simp add: abs_cands_def)
  ultimately show ?thesis
    using s' cand_ok_says [OF s'(2)] printable_says [OF s'(2)] Random_filter by (simp add: run_filter_def filtered_def)
next
  case Consortium_filter
  then show ?thesis using assms by (simp add: run_filter_def consortium_filter_def filtered_def)
qed

lemma abs_cands_Nil: "abs_cands c = [] \<longleftrightarrow> cd_list c = []"
  by (simp add: abs_cands_def)

lemma select_loop_refines:
  assumes "cand_ok s c" "printable s c" "fs \<noteq> [] \<and> hd fs = Random_filter \<longrightarrow> cd_list c \<noteq> []"
  shows "\<exists>s' c'. select_loop rnd i fs s c = Some (s', c') \<and> filtered s c s' c' \<and>
    abs_cands c' = abs_select (bss_heap s) rnd i fs (abs_cands c)"
  using assms
proof (induction fs arbitrary: s c i)
  case (Cons f fs)
  obtain s1 c1 where 1: "run_filter f (rnd i) s c = Some (s1, c1)" "filtered s c s1 c1"
    "abs_cands c1 = abs_filter (bss_heap s) f (rnd i) (abs_cands c)"
    using run_filter_refines [OF Cons.prems(1,2), of f "rnd i"] Cons.prems(3) by auto
  define s2 where "s2 = arbiter_message (lit ''After this filter, candidates left are:'') s1"
  have s12: "says s1 s2" by (simp add: s2_def)
  have "cand_ok s2 c1" "printable s2 c1"
    using 1(2) s12 by (simp_all add: filtered_def cand_ok_says printable_says)
  then obtain s3 where 3: "display_candidates s2 c1 = Some s3" "says s2 s3" using display_says by blast
  have s03: "says s s3" using 1(2) s12 3(2) says_trans unfolding filtered_def by blast
  have o3: "cand_ok s3 c1" "printable s3 c1"
    using \<open>cand_ok s2 c1\<close> \<open>printable s2 c1\<close> 3(2) by (simp_all add: cand_ok_says printable_says)
  have step: "select_loop rnd i (f # fs) s c = (if cd_list c1 = [] then Some (s3, c1) else select_loop rnd (i + 1) fs s3 c1)"
    using 1(1) 3(1) by (simp add: s2_def [symmetric] Let_def)
  show ?case
  proof (cases "cd_list c1 = []")
    case True
    then show ?thesis using step s03 o3 1(3) abs_cands_Nil [of c1] by (simp add: filtered_def Let_def)
  next
    case False
    then obtain s4 c4 where 4: "select_loop rnd (i + 1) fs s3 c1 = Some (s4, c4)" "filtered s3 c1 s4 c4"
      "abs_cands c4 = abs_select (bss_heap s3) rnd (i + 1) fs (abs_cands c1)"
      using Cons.IH [OF o3, of "i + 1"] by auto
    have "filtered s c s4 c4" using 4(2) says_trans [OF s03] by (simp add: filtered_def)
    then show ?thesis
      using False 4 step 1(3) abs_cands_Nil [of c1] says_sel [OF s03] by (simp add: Let_def)
  qed
qed (simp add: filtered_def)

lemma messages_arb_commute: "s\<lparr>messages := m, arb := x\<rparr> = s\<lparr>arb := x, messages := m\<rparr>"
  by (cases s) simp

lemma arbiter_select_spec:
  assumes "cand_ok s c" "printable s c" "arb s = Some a"
    "arb_filters a \<noteq> [] \<and> hd (arb_filters a) = Random_filter \<longrightarrow> cd_list c \<noteq> []"
  shows "\<exists>s' c'. arbiter_select rnd s c =
      Some (case abs_select (bss_heap s) rnd 0 (arb_filters a) (abs_cands c) of [] \<Rightarrow> None | x # _ \<Rightarrow> Some x, s', c') \<and>
    says (s\<lparr>arb := Some (a\<lparr>arb_state := ARBITER_IDLE\<rparr>)\<rparr>) s' \<and>
    (length (abs_select (bss_heap s) rnd 0 (arb_filters a) (abs_cands c)) \<le> 1 \<longrightarrow> dom (cd_heap c') = {})"
proof -
  define s0 where "s0 = s\<lparr>arb := Some (a\<lparr>arb_state := ARBITER_DECIDING\<rparr>)\<rparr>"
  define s1 where "s1 = arbiter_message (lit ''All interworking networks available are:'')
    (arbiter_message (lit ''All information retrieved, start selecting process.'') s0)"
  have h0: "bss_heap s1 = bss_heap s" and s01: "says s0 s1" by (simp_all add: s1_def s0_def)
  then have o1: "cand_ok s1 c" "printable s1 c"
    using assms(1,2) by (simp_all add: cand_ok_def printable_def cand_bss_def)
  then obtain s2 where 2: "display_candidates s1 c = Some s2" "says s1 s2" using display_says by blast
  have o2: "cand_ok s2 c" "printable s2 c" using o1 2(2) by (simp_all add: cand_ok_says printable_says)
  obtain s3 c3 where 3: "select_loop rnd 0 (arb_filters a) s2 c = Some (s3, c3)" "filtered s2 c s3 c3"
    "abs_cands c3 = abs_select (bss_heap s2) rnd 0 (arb_filters a) (abs_cands c)"
    using select_loop_refines [OF o2 assms(4)] by blast
  have h2: "bss_heap s2 = bss_heap s" using says_sel(1) [OF 2(2)] h0 by simp
  have s03: "says s0 s3" using s01 2(2) 3(2) says_trans unfolding filtered_def by blast
  define s4 where "s4 = s3\<lparr>arb := Some (a\<lparr>arb_state := ARBITER_IDLE\<rparr>)\<rparr>"
  have "s3\<lparr>messages := [], arb := Some (a\<lparr>arb_state := ARBITER_IDLE\<rparr>)\<rparr> =
      s0\<lparr>messages := [], arb := Some (a\<lparr>arb_state := ARBITER_IDLE\<rparr>)\<rparr>"
    using s03 by (simp add: says_def)
  then have s4: "says (s\<lparr>arb := Some (a\<lparr>arb_state := ARBITER_IDLE\<rparr>)\<rparr>) s4"
    by (simp add: says_def s4_def s0_def messages_arb_commute)
  have step: "arbiter_select rnd s c = (case cd_list c3 of
      [] \<Rightarrow> Some (None, arbiter_message (lit ''No network can be selected after all filters!'') s4, c3)
    | p # _ \<Rightarrow> do { ans \<leftarrow> cd_heap c3 p; Some (Some ans, s4, c3\<lparr>cd_heap := (cd_heap c3)(p := None)\<rparr>) })"
    unfolding s4_def using assms(3) 2(1) 3(1)
    by (simp add: arbiter_select_def Let_def s0_def [symmetric] s1_def [symmetric])
  have ok: "cand_ok s3 c3" using 3(2) by (simp add: filtered_def)
  show ?thesis
  proof (cases "cd_list c3")
    case Nil
    then have "abs_cands c3 = []" "dom (cd_heap c3) = {}" using ok by (simp_all add: abs_cands_def cand_ok_def)
    then show ?thesis using step Nil s4 3(3) h2 by simp
  next
    case (Cons p ps)
    then obtain x where x: "cd_heap c3 p = Some x" using ok by (auto simp: cand_ok_def elim: liveE)
    have "abs_cands c3 = x # map (\<lambda>q. the (cd_heap c3 q)) ps" using Cons x by (simp add: abs_cands_def)
    moreover have "ps = [] \<longrightarrow> (cd_heap c3)(p := None) = (\<lambda>_. None)"
      using ok Cons by (auto simp: cand_ok_def dom_def fun_eq_iff)
    ultimately show ?thesis using step Cons x s4 3(3) h2 by simp
  qed
qed

text \<open>
  C15. The arbiter implements the abstract selection. For every chain of filters, every set of consistent
  candidates and every sequence of random numbers, the walk over the linked list with its deferred
  deletions never touches a freed candidate, and it selects the BSS that filtering the list of BSS
  entries selects. Apart from messages only the arbiter's state changes, and it ends as idle. (A chain
  must not start with the random filter when there are no candidates: it divides by their number.)
\<close>

theorem arbiter_select_refines:
  assumes "cand_ok s c" "printable s c" "arb s = Some a"
    "arb_filters a \<noteq> [] \<and> hd (arb_filters a) = Random_filter \<longrightarrow> cd_list c \<noteq> []"
  shows "\<exists>s' c'. arbiter_select rnd s c =
      Some (case abs_select (bss_heap s) rnd 0 (arb_filters a) (abs_cands c) of [] \<Rightarrow> None | x # _ \<Rightarrow> Some x, s', c') \<and>
    says (s\<lparr>arb := Some (a\<lparr>arb_state := ARBITER_IDLE\<rparr>)\<rparr>) s'"
  using arbiter_select_spec [OF assms] by blast

text \<open>
  C19. With the filters that \<open>arbiter_init\<close> installs, the arbiter selects a network exactly when some
  candidate is a free public network with Internet access, the selected one is such a candidate, chosen
  by the random number, and all candidate objects are freed.
\<close>

theorem arbiter_select_eligible:
  assumes "cand_ok s c" "printable s c" "arb s = Some a" "arb_filters a = arb_filters (the (arbiter_init True))"
  shows "let el = filter (\<lambda>x. free_public (the (bss_heap s x)) \<and> internet (the (bss_heap s x))) (abs_cands c)
    in \<exists>s' c'. arbiter_select rnd s c = Some (if el = [] then None else Some (el ! (rnd 2 mod length el)), s', c') \<and>
      dom (cd_heap c') = {}"
proof -
  have f: "arb_filters a = [Free_public_filter, Access_internet_filter, Random_filter]"
    using assms(4) by (simp add: arbiter_init_def)
  define el where "el = filter (\<lambda>x. free_public (the (bss_heap s x)) \<and> internet (the (bss_heap s x))) (abs_cands c)"
  have e: "filter (\<lambda>x. internet (the (bss_heap s x))) (filter (\<lambda>x. free_public (the (bss_heap s x))) (abs_cands c)) = el"
    by (simp add: el_def conj_commute)
  have "abs_select (bss_heap s) rnd 0 (arb_filters a) (abs_cands c) =
      (if el = [] then [] else [el ! (rnd 2 mod length el)])"
    using e by (auto simp: f Let_def numeral_2_eq_2 filter_empty_conv)
  then show ?thesis
    using arbiter_select_spec [OF assms(1-3), of rnd] f
    unfolding Let_def el_def [symmetric] by auto
qed

section \<open>Examples\<close>

text \<open>
  Two networks: the one at address 100 is a free public network without Internet access, the one at
  address 101 has it. The candidates for them are at 200 and 201.
\<close>

definition two_networks :: wpa_supplicant where
  "two_networks = zero_state\<lparr>arb := arbiter_init True,
     bss_heap := [100 \<mapsto> zero_bss\<lparr>b_ies := [107, 1, 0x03], b_ie_len := 3\<rparr>,
                  101 \<mapsto> zero_bss\<lparr>b_ies := [107, 1, 0x13], b_ie_len := 3\<rparr>]\<rparr>"

definition two_candidates :: candidates where
  "two_candidates = \<lparr>cd_list = [200, 201], cd_heap = [200 \<mapsto> 100, 201 \<mapsto> 101]\<rparr>"

lemma two_ok:
  "cand_ok two_networks two_candidates" "printable two_networks two_candidates"
  "arb two_networks = Some (the (arbiter_init True))"
  "abs_cands two_candidates = [100, 101]"
  by (auto simp: cand_ok_def printable_def cand_bss_def live_def two_networks_def two_candidates_def abs_cands_def
      bss_wf_def zero_bss_def arbiter_init_def split: if_splits)

lemma two_tests:
  "free_public (the (bss_heap two_networks 100))" "\<not> internet (the (bss_heap two_networks 100))"
  "free_public (the (bss_heap two_networks 101))" "internet (the (bss_heap two_networks 101))"
  by (simp_all add: free_public_def internet_def iw_octet_def INTERWORKING_IE_ID_def two_networks_def)

lemma arbiter_select_eligible_witness:
  "\<exists>s' c'. arbiter_select (\<lambda>_. 7) two_networks two_candidates = Some (Some 101, s', c') \<and> dom (cd_heap c') = {}"
  using arbiter_select_eligible [OF two_ok(1-3) refl, of "\<lambda>_. 7"] two_ok(4) two_tests by simp

lemma arbiter_select_refines_witness:
  "\<exists>s' c'. arbiter_select (\<lambda>_. 7) two_networks two_candidates = Some (Some 101, s', c') \<and>
     says (two_networks\<lparr>arb := arbiter_init True\<rparr>) s'"
  using arbiter_select_refines [OF two_ok(1-3), of "\<lambda>_. 7"] two_ok(4) two_tests
  by (simp add: arbiter_init_def)

text \<open>
  An SSID of 32 octets has no terminating NUL in its array. Printing the candidates with \<open>%s\<close> then
  reads past the array: the selection faults although the network is a legal candidate.
\<close>

lemma arbiter_select_ssid_overread:
  "arbiter_select rnd
     (two_networks\<lparr>bss_heap := [100 \<mapsto> zero_bss\<lparr>b_ssid := replicate 32 65, b_ssid_len := 32\<rparr>]\<rparr>)
     \<lparr>cd_list = [200], cd_heap = [200 \<mapsto> 100]\<rparr> = None"
  by (simp add: arbiter_select_def two_networks_def arbiter_init_def Let_def display_candidates_def
      arbiter_message_def ssid_str_def)

end
