(* ===== verification/Config_Values.thy ===== *)
theory Config_Values
  imports Common_Util
begin

text \<open>
  The text forms of configuration values used by src/wpa_supplicant/config.c: quoted and hexadecimal strings,
  decimal numbers, and lists of words. The parsers and the writers of the network variables in
  \<open>Config\<close> are built from these. A value of a configuration line is a C string, the list of its octets.
\<close>

section \<open>Strings\<close>

abbreviation (input) QUOTE :: u8 where "QUOTE \<equiv> 34"
abbreviation (input) SPACE :: u8 where "SPACE \<equiv> 32"
abbreviation (input) TAB :: u8 where "TAB \<equiv> 9"

text \<open>\<open>os_strrchr\<close>: the index of the last occurrence.\<close>

fun strrchr :: "bytes \<Rightarrow> u8 \<Rightarrow> nat option" where
  "strrchr [] c = None"
| "strrchr (x # xs) c = (case strrchr xs c of
     Some i \<Rightarrow> Some (i + 1)
   | None \<Rightarrow> if x = c then Some 0 else None)"

text \<open>
  \<open>wpa_config_parse_string\<close> returns the string (\<open>None\<close> for NULL) and what it stores in \<open>*len\<close>, if anything:
  for a quoted string the length is stored before the allocation.
\<close>

definition wpa_config_parse_string :: "bool \<Rightarrow> bytes \<Rightarrow> (bytes option \<times> nat option) option" where
  "wpa_config_parse_string al v = do {
     c \<leftarrow> rds v 0;
     if c = QUOTE then
       let v = tl v in
       (case strrchr v QUOTE of
          None \<Rightarrow> Some (None, None)
        | Some pos \<Rightarrow> do {
            d \<leftarrow> rds v (pos + 1);
            if d \<noteq> 0 then Some (None, None)
            else if \<not> al then Some (None, Some pos)
            else do { str \<leftarrow> rd_bytes v 0 pos; Some (Some str, Some pos) } })
     else
       let hlen = length v; tlen = hlen div 2 in
       if odd hlen then Some (None, None)
       else if \<not> al then Some (None, None)
       else do {
         (r, str) \<leftarrow> hexstr2bin v (replicate tlen 0) tlen;
         if r \<noteq> 0 then Some (None, None) else Some (Some str, Some tlen) } }"

definition is_hex :: "bytes \<Rightarrow> nat \<Rightarrow> bool option" where
  "is_hex data len = do { d \<leftarrow> rd_bytes data 0 len; Some (list_ex (\<lambda>c. c < 32 \<or> 127 \<le> c) d) }"

definition wpa_config_write_string_ascii :: "bool \<Rightarrow> bytes \<Rightarrow> nat \<Rightarrow> bytes option option" where
  "wpa_config_write_string_ascii al value len =
     (if \<not> al then Some None
      else do { d \<leftarrow> rd_bytes value 0 len; Some (Some (c_str ([QUOTE] @ d @ [QUOTE]))) })"

definition wpa_config_write_string_hex :: "bool \<Rightarrow> bytes \<Rightarrow> nat \<Rightarrow> bytes option option" where
  "wpa_config_write_string_hex al value len =
     (if \<not> al then Some None
      else do {
        d \<leftarrow> rd_bytes value 0 len;
        (r, buf) \<leftarrow> wpa_snprintf_hex (replicate (2 * len + 1) 0) (2 * len + 1) d len;
        Some (Some (c_str buf)) })"

definition wpa_config_write_string :: "bool \<Rightarrow> bytes option \<Rightarrow> nat \<Rightarrow> bytes option option" where
  "wpa_config_write_string al value len = (case value of
     None \<Rightarrow> Some None
   | Some v \<Rightarrow> do {
       h \<leftarrow> is_hex v len;
       if h then wpa_config_write_string_hex al v len else wpa_config_write_string_ascii al v len })"

section \<open>Numbers\<close>

text \<open>
  \<open>atoi\<close> of the C library: leading white space, an optional sign, digits. A value outside the range of
  \<open>int\<close> is undefined behaviour, a fault here.
\<close>

definition is_digit :: "u8 \<Rightarrow> bool" where
  "is_digit c = (48 \<le> c \<and> c \<le> 57)"

definition digits_val :: "bytes \<Rightarrow> int" where
  "digits_val ds = foldl (\<lambda>a d. 10 * a + (uint d - 48)) 0 ds"

definition atoi :: "bytes \<Rightarrow> int option" where
  "atoi s =
     (let s = dropWhile (\<lambda>c. c = 32 \<or> (9 \<le> c \<and> c \<le> 13)) s;
          neg = (s \<noteq> [] \<and> hd s = 45);
          s = (if s \<noteq> [] \<and> (hd s = 45 \<or> hd s = 43) then tl s else s);
          v = digits_val (takeWhile is_digit s);
          v = (if neg then - v else v)
      in if - (2 ^ 31) \<le> v \<and> v < 2 ^ 31 then Some v else None)"

fun dec :: "nat \<Rightarrow> bytes" where
  "dec n = (if n < 10 then [word_of_nat (48 + n)] else dec (n div 10) @ [word_of_nat (48 + n mod 10)])"

declare dec.simps [simp del]

definition fmt_d :: "int \<Rightarrow> bytes" where
  "fmt_d n = (if n < 0 then 45 # dec (nat (- n)) else dec (nat n))"

definition fmt_u :: "int \<Rightarrow> bytes" where
  "fmt_u n = dec (nat (n mod 2 ^ 32))"

section \<open>Lists of words\<close>

definition is_sep :: "u8 \<Rightarrow> bool" where
  "is_sep c = (c = SPACE \<or> c = TAB)"

text \<open>The loop that cuts a value into words at spaces and tabs.\<close>

function tokens :: "bytes \<Rightarrow> bytes list" where
  "tokens s =
     (let start = dropWhile is_sep s in
      if start = [] then []
      else
        let word = takeWhile (\<lambda>c. \<not> is_sep c) start;
            rest = dropWhile (\<lambda>c. \<not> is_sep c) start
        in word # (if rest = [] then [] else tokens (tl rest)))"
  by pat_completeness auto
termination
proof (relation "measure length", goal_cases)
  case (2 s start word rest)
  have "length rest \<le> length start" "length start \<le> length s"
    using 2 by (simp_all add: length_dropWhile_le)
  then show ?case using 2(5) by (cases rest) simp_all
qed simp

declare tokens.simps [simp del]

text \<open>
  Appending words to a buffer of \<open>room\<close> octets, separated by spaces. When a word does not fit,
  \<open>os_snprintf\<close> has stored what fits before the terminator and the function returns.
\<close>

fun put_words :: "nat \<Rightarrow> bytes \<Rightarrow> bytes list \<Rightarrow> bytes" where
  "put_words room buf [] = buf"
| "put_words room buf (w # ws) =
     (let t = (if buf = [] then [] else [SPACE]) @ w in
      if room - length buf \<le> length t then buf @ take (room - length buf - 1) t
      else put_words room (buf @ t) ws)"

section \<open>Properties of strings\<close>

lemma strrchr_last: "strrchr (xs @ [c]) c = Some (length xs)"
  by (induction xs) simp_all

lemma strrchr_bound: "strrchr xs c = Some i \<Longrightarrow> i < length xs \<and> xs ! i = c \<and> c \<notin> set (drop (i + 1) xs)"
proof (induction xs arbitrary: i)
  case (Cons x xs)
  show ?case
  proof (cases "strrchr xs c")
    case None
    have "c \<notin> set xs" using None by (induction xs) (auto split: option.splits if_splits)
    then show ?thesis using Cons.prems None by (auto split: if_splits)
  qed (use Cons in auto)
qed simp

lemma hexstr2bin_loop_total:
  "i \<le> len \<Longrightarrow> len \<le> length buf \<Longrightarrow> 2 * i \<le> length hex \<Longrightarrow>
   \<exists>r out. hexstr2bin_loop i len hex buf = Some (r, out) \<and> length out = length buf \<and> (r = 0 \<or> r = -1)"
proof (induction i len hex buf rule: hexstr2bin_loop.induct)
  case (1 i len hex buf)
  show ?case
  proof (cases "i < len")
    case True
    obtain a where a: "hex2byte hex (2 * i) = Some a" using hex2byte_total [of "2 * i" hex] 1(4) by auto
    show ?thesis
    proof (cases "a < 0")
      case True
      then show ?thesis using a \<open>i < len\<close> by (subst hexstr2bin_loop.simps) simp
    next
      case False
      then have "2 * (i + 1) \<le> length hex" using hex2byte_nonneg_bound [OF a] by simp
      moreover obtain b where b: "wr_bytes buf i [word_of_int a] = Some b" "length b = length buf"
        using True 1(3) by (simp add: wr_bytes_def)
      ultimately show ?thesis
        using 1(1) [OF True a False b(1)] True 1(3) a False b
        by (subst hexstr2bin_loop.simps) simp
    qed
  next
    case False
    then show ?thesis by (subst hexstr2bin_loop.simps) simp
  qed
qed

lemma hexstr2bin_total:
  "len \<le> length buf \<Longrightarrow> \<exists>r out. hexstr2bin hex buf len = Some (r, out) \<and> length out = length buf \<and> (r = 0 \<or> r = -1)"
  unfolding hexstr2bin_def by (rule hexstr2bin_loop_total) simp_all

text \<open>Parsing a string never leaves the value, and what it accepts has the length it reports.\<close>

lemma parse_string_total:
  "\<exists>r n. wpa_config_parse_string al v = Some (r, n) \<and> (\<forall>s. r = Some s \<longrightarrow> n = Some (length s) \<and> length s \<le> length v)"
proof (cases "v \<noteq> [] \<and> hd v = QUOTE")
  case True
  then obtain w where v: "v = QUOTE # w" by (cases v) auto
  show ?thesis
  proof (cases "strrchr w QUOTE")
    case None
    then show ?thesis using v by (simp add: wpa_config_parse_string_def rds_def rd_def)
  next
    case (Some i)
    then have "i + 1 \<le> length w" "i + 0 \<le> length w" using strrchr_bound [of w QUOTE i] by simp_all
    then show ?thesis
      using v Some by (simp add: wpa_config_parse_string_def rds_cases rd_bytes_def)
  qed
next
  case False
  have c: "\<exists>c. rds v 0 = Some c \<and> c \<noteq> QUOTE" using False by (cases v) (auto simp: rds_def rd_def)
  obtain r out where h: "hexstr2bin v (replicate (length v div 2) 0) (length v div 2) = Some (r, out)"
    "length out = length v div 2"
    using hexstr2bin_total [of "length v div 2" "replicate (length v div 2) 0" v] by auto
  show ?thesis using c h by (auto simp: wpa_config_parse_string_def Let_def)
qed

lemma parse_string_quoted:
  "0 \<notin> set s \<Longrightarrow> wpa_config_parse_string True (QUOTE # s @ [QUOTE]) = Some (Some s, Some (length s))"
  by (simp add: wpa_config_parse_string_def strrchr_last rds_def rd_def rd_bytes_def nth_append)

lemma unat_hex_digit: "n < 16 \<Longrightarrow> unat (hex_digit u n) = (if n < 10 then 48 + n else if u then 55 + n else 87 + n)"
  by (simp add: hex_digit_def unsigned_of_nat take_bit_nat_eq_self del: of_nat_add)

lemma hex_text_no_quote: "hex_text u s \<noteq> QUOTE # t"
proof (cases s)
  case (Cons b bs)
  have "unat b div 16 < 16" using unsigned_less [where ?'a = nat, of b] by simp
  then have "hex_digit u (unat b div 16) \<noteq> QUOTE"
    using unat_hex_digit [of "unat b div 16" u] by (auto simp: word_unat_eq_iff)
  then show ?thesis using Cons by (simp add: hex_text_def fmt02x_def)
qed (simp add: hex_text_def)

lemma parse_string_hex: "wpa_config_parse_string True (hex_text u s) = Some (Some s, Some (length s))"
proof -
  obtain out where "hexstr2bin (hex_text u s) (replicate (length s) 0) (length s) = Some (0, out)"
    "length out = length s" "take (length s) out = s"
    using hexstr2bin_hex_text [of s "replicate (length s) 0" u] by auto
  moreover have "\<exists>c. rds (hex_text u s) 0 = Some c \<and> c \<noteq> QUOTE"
    using hex_text_no_quote [of u s] by (cases "hex_text u s") (auto simp: rds_def rd_def)
  ultimately show ?thesis by (auto simp: wpa_config_parse_string_def Let_def)
qed

lemma write_string_eq:
  assumes "len \<le> length v"
  shows "wpa_config_write_string True (Some v) len =
    Some (Some (if list_ex (\<lambda>c. c < 32 \<or> 127 \<le> c) (take len v) then hex_text False (take len v)
                else QUOTE # take len v @ [QUOTE]))"
proof (cases "list_ex (\<lambda>c. c < 32 \<or> 127 \<le> c) (take len v)")
  case True
  let ?d = "take len v"
  have "?d \<noteq> []" using True by (auto simp del: take_eq_Nil)
  moreover obtain b where "wpa_snprintf_hex_gen (replicate (2 * len + 1) 0) (2 * len + 1) ?d (length ?d) False =
      Some (2 * length ?d, b)" "?d \<noteq> [] \<longrightarrow> c_str b = hex_text False ?d"
    by (rule wpa_snprintf_hex_gen_fits [of ?d "2 * len + 1" "replicate (2 * len + 1) 0" False]) (use assms in simp_all)
  ultimately show ?thesis
    using True assms
    by (simp add: wpa_config_write_string_def is_hex_def rd_bytes_def wpa_config_write_string_hex_def wpa_snprintf_hex_def)
next
  case False
  then have "0 \<notin> set (take len v)" by (auto simp: list_ex_iff)
  then have "0 \<notin> set ([QUOTE] @ take len v @ [QUOTE])" by simp
  then show ?thesis
    using False assms c_str_id [of "[QUOTE] @ take len v @ [QUOTE]"]
    by (simp add: wpa_config_write_string_def is_hex_def rd_bytes_def wpa_config_write_string_ascii_def)
qed

lemma write_string_no_alloc:
  "len \<le> length v \<Longrightarrow> wpa_config_write_string False (Some v) len = Some None"
  by (simp add: wpa_config_write_string_def is_hex_def rd_bytes_def wpa_config_write_string_hex_def
      wpa_config_write_string_ascii_def)

text \<open>The text of a string is not the word \<open>NULL\<close>, and reading it back gives the string.\<close>

lemma write_parse_string:
  assumes "len \<le> length v" "wpa_config_write_string True (Some v) len = Some (Some t)"
  shows "wpa_config_parse_string True t = Some (Some (take len v), Some len)" "t \<noteq> lit ''NULL''" "0 \<notin> set t"
proof -
  let ?d = "take len v"
  have l: "length ?d = len" using assms(1) by simp
  have t: "t = (if list_ex (\<lambda>c. c < 32 \<or> 127 \<le> c) ?d then hex_text False ?d else QUOTE # ?d @ [QUOTE])"
    using write_string_eq [OF assms(1)] assms(2) by simp
  have z: "\<not> list_ex (\<lambda>c. c < 32 \<or> 127 \<le> c) ?d \<Longrightarrow> 0 \<notin> set ?d" by (auto simp: list_ex_iff)
  show "wpa_config_parse_string True t = Some (Some ?d, Some len)"
    using parse_string_hex [of False ?d] parse_string_quoted [of ?d] z t l by (auto split: if_splits)
  show "0 \<notin> set t" using t z hex_text_nonzero [of False ?d] by (auto split: if_splits)
  show "t \<noteq> lit ''NULL''"
  proof
    assume n: "t = lit ''NULL''"
    then have h: "hex_text False ?d = lit ''NULL''" using t by (auto simp: lit_def split: if_splits)
    then obtain b bs where "?d = b # bs" by (cases ?d) (auto simp: hex_text_def lit_def)
    moreover have "unat b div 16 < 16" using unsigned_less [where ?'a = nat, of b] by simp
    ultimately show False
      using h unat_hex_digit [of "unat b div 16" False]
      by (auto simp: hex_text_def fmt02x_def lit_def word_unat_eq_iff split: if_splits)
  qed
qed

section \<open>Properties of numbers\<close>

lemma digit_word: "m < 10 \<Longrightarrow> uint (word_of_nat (48 + m) :: u8) = 48 + int m"
  by (simp add: unsigned_of_nat take_bit_nat_eq_self uint_nat del: of_nat_add)

lemma is_digit_word: "m < 10 \<Longrightarrow> is_digit (word_of_nat (48 + m))"
  by (simp add: is_digit_def word_le_nat_alt unsigned_of_nat take_bit_nat_eq_self del: of_nat_add)

lemma digits_val_snoc: "digits_val (xs @ [d]) = 10 * digits_val xs + (uint d - 48)"
  by (simp add: digits_val_def)

lemma digits_val_dec: "digits_val (dec n) = int n"
proof (induction n rule: dec.induct)
  case (1 n)
  show ?case
  proof (cases "n < 10")
    case True
    then show ?thesis using digit_word [of n] by (subst dec.simps) (simp add: digits_val_def del: of_nat_add)
  next
    case False
    then have "digits_val (dec n) = 10 * int (n div 10) + int (n mod 10)"
      using 1 digit_word [of "n mod 10"] by (subst dec.simps) (simp add: digits_val_snoc del: of_nat_add)
    also have "\<dots> = int n" by presburger
    finally show ?thesis .
  qed
qed

lemma dec_digits: "list_all is_digit (dec n)"
proof (induction n rule: dec.induct)
  case (1 n)
  then show ?case
    using is_digit_word [of n] is_digit_word [of "n mod 10"] by (subst dec.simps) (simp del: of_nat_add)
qed

lemma dec_ne: "dec n \<noteq> []"
  by (subst dec.simps) simp

lemma digit_class: "is_digit c \<Longrightarrow> c \<noteq> 32 \<and> \<not> (9 \<le> c \<and> c \<le> 13) \<and> c \<noteq> 45 \<and> c \<noteq> 43 \<and> c \<noteq> 0 \<and> c \<noteq> TAB"
  by (auto simp: is_digit_def word_le_nat_alt)

lemma takeWhile_dec:
  assumes "rest = [] \<or> \<not> is_digit (hd rest)"
  shows "takeWhile is_digit (dec n @ rest) = dec n"
proof -
  have "takeWhile is_digit (dec n @ rest) = dec n @ takeWhile is_digit rest"
    by (rule takeWhile_append2) (use dec_digits [of n] in \<open>auto simp: list_all_iff\<close>)
  then show ?thesis using assms by (cases rest) auto
qed

text \<open>A printed number is read back, also in front of other text.\<close>

lemma atoi_dec:
  assumes "int n < 2 ^ 31" "rest = [] \<or> \<not> is_digit (hd rest)"
  shows "atoi (dec n @ rest) = Some (int n)"
proof -
  obtain c cs where c: "dec n = c # cs" "is_digit c"
    using dec_ne [of n] dec_digits [of n] by (cases "dec n") auto
  have d: "dropWhile (\<lambda>c. c = 32 \<or> (9 \<le> c \<and> c \<le> 13)) (dec n @ rest) = dec n @ rest"
    "hd (dec n @ rest) \<noteq> 45" "hd (dec n @ rest) \<noteq> 43"
    using c digit_class [OF c(2)] by auto
  show ?thesis
    using assms d takeWhile_dec [OF assms(2), of n] digits_val_dec [of n] dec_ne [of n]
    by (simp add: atoi_def Let_def)
qed

lemma atoi_fmt_d:
  assumes "- (2 ^ 31) \<le> n" "n < 2 ^ 31"
  shows "atoi (fmt_d n) = Some n"
proof (cases "n < 0")
  case True
  have "takeWhile is_digit (dec (nat (- n)) @ []) = dec (nat (- n))" by (rule takeWhile_dec) simp
  then have "digits_val (takeWhile is_digit (dec (nat (- n)))) = - n"
    using True digits_val_dec [of "nat (- n)"] by (simp del: takeWhile_eq_all_conv)
  then show ?thesis using True assms by (simp add: fmt_d_def atoi_def Let_def)
next
  case False
  then show ?thesis using atoi_dec [of "nat n" "[]"] assms by (simp add: fmt_d_def)
qed

lemma fmt_d_chars: "c \<in> set (fmt_d n) \<Longrightarrow> c \<noteq> 0 \<and> c \<noteq> QUOTE"
  using dec_digits [of "nat n"] dec_digits [of "nat (- n)"]
  by (auto simp: fmt_d_def list_all_iff is_digit_def word_le_nat_alt split: if_splits)

lemma length_dec: "n < 10 ^ k \<Longrightarrow> 0 < k \<Longrightarrow> length (dec n) \<le> k"
proof (induction k arbitrary: n)
  case (Suc k)
  show ?case
  proof (cases "n < 10")
    case True
    then show ?thesis by (subst dec.simps) simp
  next
    case False
    then have "k \<noteq> 0" using Suc.prems by (cases k) auto
    moreover have "n div 10 < 10 ^ k" using Suc.prems by (simp add: less_mult_imp_div_less mult.commute)
    ultimately have "k \<noteq> 0" "n div 10 < 10 ^ k" by simp_all
    then have "length (dec (n div 10)) \<le> k" using Suc.IH [of "n div 10"] by simp
    then show ?thesis using False by (subst dec.simps) simp
  qed
qed simp

lemma dec_pos: "0 < n \<Longrightarrow> digits_val (dec n) \<noteq> 0"
  by (simp add: digits_val_dec)

section \<open>Properties of word lists\<close>

definition joined :: "bytes list \<Rightarrow> bytes" where
  "joined ws = (case ws of [] \<Rightarrow> [] | w # ws \<Rightarrow> w @ concat (map ((#) SPACE) ws))"

definition is_word :: "bytes \<Rightarrow> bool" where
  "is_word w \<longleftrightarrow> w \<noteq> [] \<and> list_all (\<lambda>c. \<not> is_sep c) w"

lemma put_words_append:
  "buf \<noteq> [] \<Longrightarrow> length (buf @ concat (map ((#) SPACE) ws)) < room \<Longrightarrow>
     put_words room buf ws = buf @ concat (map ((#) SPACE) ws)"
proof (induction ws arbitrary: buf)
  case (Cons w ws)
  then show ?case using Cons.IH [of "buf @ SPACE # w"] by (simp add: Let_def)
qed simp

lemma put_words_joined:
  assumes "list_all is_word ws" "length (joined ws) < room"
  shows "put_words room [] ws = joined ws"
proof (cases ws)
  case (Cons w ws')
  have "put_words room [] ws = put_words room w ws'"
    using assms Cons by (simp add: Let_def joined_def)
  also have "\<dots> = w @ concat (map ((#) SPACE) ws')"
    by (rule put_words_append) (use assms Cons in \<open>auto simp: joined_def is_word_def\<close>)
  finally show ?thesis using Cons by (simp add: joined_def)
qed (simp add: joined_def)

lemma tokens_words:
  "is_word w \<Longrightarrow> list_all is_word ws \<Longrightarrow> tokens (w @ concat (map ((#) SPACE) ws)) = w # ws"
proof (induction ws arbitrary: w)
  case Nil
  then obtain c cs where w: "w = c # cs" "\<not> is_sep c" by (cases w) (auto simp: is_word_def)
  have "takeWhile (\<lambda>c. \<not> is_sep c) w = w" "dropWhile (\<lambda>c. \<not> is_sep c) w = []"
    using Nil by (auto simp: is_word_def list_all_iff takeWhile_eq_all_conv dropWhile_eq_Nil_conv)
  then show ?case using w by (subst tokens.simps) (simp add: Let_def)
next
  case (Cons v ws)
  let ?r = "SPACE # v @ concat (map ((#) SPACE) ws)"
  obtain c cs where w: "w = c # cs" "\<not> is_sep c" using Cons.prems by (cases w) (auto simp: is_word_def)
  have s: "is_sep SPACE" by (simp add: is_sep_def)
  have a: "\<forall>x \<in> set w. \<not> is_sep x" using Cons.prems by (simp add: is_word_def list_all_iff)
  have t: "takeWhile (\<lambda>c. \<not> is_sep c) (w @ ?r) = w" "dropWhile (\<lambda>c. \<not> is_sep c) (w @ ?r) = ?r"
    using a s by (simp_all add: takeWhile_append2 dropWhile_append2)
  have "tokens (w @ ?r) = w # tokens (tl ?r)"
    using w(2) t unfolding w(1) by (subst tokens.simps) (simp add: Let_def)
  then show ?case using Cons by simp
qed

lemma tokens_joined: "list_all is_word ws \<Longrightarrow> tokens (joined ws) = ws"
proof (cases ws)
  case Nil
  then show ?thesis by (simp add: joined_def tokens.simps)
qed (simp add: joined_def tokens_words)

end
