(* ===== verification/Config.thy ===== *)
theory Config
  imports Config_Values Eap_Methods Supplicant_State
begin

text \<open>
  Network configuration (src/wpa_supplicant/config.c): the table of network variables with their parsers and
  writers, \<open>wpa_config_set\<close> and \<open>wpa_config_get\<close> on top of it, the list of networks and the priority
  lists.

  The build modelled is the one of src/wpa_supplicant/.config: EAPOL support, no WPS, no IEEE 802.11r and no
  IEEE 802.11w. Outcomes of allocations are an argument \<open>al\<close>; where one call allocates several times it is
  indexed by the number of the allocation. The list of EAP methods is an argument.
\<close>

section \<open>Parsers and writers of the variables\<close>

abbreviation (input) PMK_LEN :: nat where "PMK_LEN \<equiv> 32"
abbreviation (input) MAX_WEP_KEY_LEN :: nat where "MAX_WEP_KEY_LEN \<equiv> 16"
abbreviation (input) MAX_SSID_LEN :: nat where "MAX_SSID_LEN \<equiv> 32"
abbreviation (input) EAP_CONFIG_FLAGS_PASSWORD_NTHASH :: u32 where "EAP_CONFIG_FLAGS_PASSWORD_NTHASH \<equiv> 1"

text \<open>
  The fields that \<open>OFFSET\<close> reaches. \<open>param1\<close> of a string variable is the offset of the pointer and \<open>param2\<close>,
  if not NULL, that of the length; \<open>has_len\<close> tells whether there is one.
\<close>

definition str_field :: "string \<Rightarrow> wpa_ssid \<Rightarrow> bytes option" where
  "str_field f n = (if f = ''ssid'' then n_ssid n else n_str n f)"

definition len_field :: "string \<Rightarrow> wpa_ssid \<Rightarrow> nat" where
  "len_field f n = (if f = ''ssid'' then n_ssid_len n else n_str_len n f)"

definition set_str_field :: "string \<Rightarrow> bool \<Rightarrow> bytes option \<Rightarrow> nat \<Rightarrow> wpa_ssid \<Rightarrow> wpa_ssid" where
  "set_str_field f has_len v len n =
     (if f = ''ssid'' then n\<lparr>n_ssid := v, n_ssid_len := (if has_len then len else n_ssid_len n)\<rparr>
      else n\<lparr>n_str := (n_str n)(f := v), n_str_len := (if has_len then (n_str_len n)(f := len) else n_str_len n)\<rparr>)"

definition wpa_config_parse_str ::
  "bool \<Rightarrow> string \<Rightarrow> bool \<Rightarrow> nat \<Rightarrow> nat \<Rightarrow> wpa_ssid \<Rightarrow> bytes \<Rightarrow> (int \<times> wpa_ssid) option" where
  "wpa_config_parse_str al f has_len param3 param4 n value =
     (if value = lit ''NULL'' then Some (0, set_str_field f has_len None 0 n)
      else do {
        (tmp, _) \<leftarrow> wpa_config_parse_string al value;
        (case tmp of
           None \<Rightarrow> Some (-1, n)
         | Some s \<Rightarrow>
             if param3 \<noteq> 0 \<and> length s < param3 then Some (-1, n)
             else if param4 \<noteq> 0 \<and> param4 < length s then Some (-1, n)
             else Some (0, set_str_field f has_len (Some s) (length s) n)) })"

definition wpa_config_write_str :: "bool \<Rightarrow> string \<Rightarrow> bool \<Rightarrow> wpa_ssid \<Rightarrow> bytes option option" where
  "wpa_config_write_str al f has_len n = (case str_field f n of
     None \<Rightarrow> Some None
   | Some s \<Rightarrow>
       let len = (if has_len then len_field f n else length (c_str s))
       in wpa_config_write_string al (Some (s @ [0])) len)"

definition wpa_config_parse_int :: "string \<Rightarrow> int \<Rightarrow> int \<Rightarrow> wpa_ssid \<Rightarrow> bytes \<Rightarrow> (int \<times> wpa_ssid) option" where
  "wpa_config_parse_int f param3 param4 n value = do {
     v \<leftarrow> atoi value;
     if param3 \<noteq> 0 \<and> v < param3 then Some (-1, n\<lparr>n_int := (n_int n)(f := param3)\<rparr>)
     else if param4 \<noteq> 0 \<and> param4 < v then Some (-1, n\<lparr>n_int := (n_int n)(f := param4)\<rparr>)
     else Some (0, n\<lparr>n_int := (n_int n)(f := v)\<rparr>) }"

definition wpa_config_write_int :: "bool \<Rightarrow> string \<Rightarrow> wpa_ssid \<Rightarrow> bytes option option" where
  "wpa_config_write_int al f n =
     (if \<not> al \<or> 20 \<le> length (fmt_d (n_int n f)) then Some None else Some (Some (fmt_d (n_int n f))))"

definition wpa_config_parse_bssid :: "wpa_ssid \<Rightarrow> bytes \<Rightarrow> (int \<times> wpa_ssid) option" where
  "wpa_config_parse_bssid n value =
     (if value = [] \<or> value = [QUOTE, QUOTE] \<or> value = lit ''any'' then Some (0, n\<lparr>n_bssid_set := False\<rparr>)
      else do {
        (r, b) \<leftarrow> hwaddr_aton value (n_bssid n);
        if r \<noteq> 0 then Some (-1, n\<lparr>n_bssid := b\<rparr>)
        else Some (0, n\<lparr>n_bssid := b, n_bssid_set := True\<rparr>) })"

definition wpa_config_write_bssid :: "bool \<Rightarrow> wpa_ssid \<Rightarrow> bytes option option" where
  "wpa_config_write_bssid al n =
     (if \<not> n_bssid_set n then Some None
      else if \<not> al then Some None
      else if 20 \<le> length (mac2str (n_bssid n)) then Some None
      else Some (Some (mac2str (n_bssid n))))"

definition wpa_config_parse_psk :: "bool \<Rightarrow> wpa_ssid \<Rightarrow> bytes \<Rightarrow> (int \<times> wpa_ssid) option" where
  "wpa_config_parse_psk al n value = do {
     c \<leftarrow> rds value 0;
     if c = QUOTE then
       let value = tl value;
           len = (case strrchr value QUOTE of Some pos \<Rightarrow> pos | None \<Rightarrow> length value)
       in if len < 8 \<or> 63 < len then Some (-1, n)
          else do {
            v \<leftarrow> rd_bytes value 0 len;
            if n_passphrase n = Some v then Some (0, n)
            else if \<not> al then Some (-1, n\<lparr>n_psk_set := False, n_passphrase := None\<rparr>)
            else Some (0, n\<lparr>n_psk_set := False, n_passphrase := Some v\<rparr>) }
     else do {
       (r, psk) \<leftarrow> hexstr2bin value (n_psk n) PMK_LEN;
       if r \<noteq> 0 then Some (-1, n\<lparr>n_psk := psk\<rparr>)
       else do {
         e \<leftarrow> rds value (PMK_LEN * 2);
         if e \<noteq> 0 then Some (-1, n\<lparr>n_psk := psk\<rparr>)
         else Some (0, n\<lparr>n_psk := psk, n_passphrase := None, n_psk_set := True\<rparr>) } } }"

definition wpa_config_write_psk :: "bool \<Rightarrow> wpa_ssid \<Rightarrow> bytes option option" where
  "wpa_config_write_psk al n = (case n_passphrase n of
     Some p \<Rightarrow> wpa_config_write_string_ascii al (p @ [0]) (length p)
   | None \<Rightarrow> if n_psk_set n then wpa_config_write_string_hex al (n_psk n) PMK_LEN else Some None)"

subsection \<open>Sets of options\<close>

text \<open>
  Each of these parsers runs through the words of the value and collects flags; \<open>word\<close> translates one word.
  An unknown word is counted as an error.
\<close>

fun flags_loop :: "(bytes \<Rightarrow> u32 option) \<Rightarrow> u32 \<Rightarrow> nat \<Rightarrow> bytes list \<Rightarrow> u32 \<times> nat" where
  "flags_loop word val errors [] = (val, errors)"
| "flags_loop word val errors (w # ws) = (case word w of
     Some f \<Rightarrow> flags_loop word (val OR f) errors ws
   | None \<Rightarrow> flags_loop word val (errors + 1) ws)"

definition parse_flags :: "bool \<Rightarrow> (bytes \<Rightarrow> u32 option) \<Rightarrow> (u32 \<Rightarrow> wpa_ssid \<Rightarrow> wpa_ssid) \<Rightarrow> wpa_ssid \<Rightarrow> bytes \<Rightarrow> int \<times> wpa_ssid" where
  "parse_flags al word upd n value =
     (if \<not> al then (-1, n)
      else let (val, errors) = flags_loop word 0 0 (tokens value);
               errors = (if val = 0 then errors + 1 else errors)
           in (if errors \<noteq> 0 then -1 else 0, upd val n))"

text \<open>The words a writer prints, in its order, with their flags.\<close>

definition flag_words :: "(u32 \<times> bytes) list \<Rightarrow> u32 \<Rightarrow> bytes list" where
  "flag_words tab val = map snd (filter (\<lambda>e. val AND fst e \<noteq> 0) tab)"

definition proto_word :: "bytes \<Rightarrow> u32 option" where
  "proto_word w = (if w = lit ''WPA'' then Some 1
     else if w = lit ''RSN'' \<or> w = lit ''WPA2'' then Some 2 else None)"

definition wpa_config_parse_proto :: "bool \<Rightarrow> wpa_ssid \<Rightarrow> bytes \<Rightarrow> int \<times> wpa_ssid" where
  "wpa_config_parse_proto al = parse_flags al proto_word (\<lambda>val n. n\<lparr>n_proto := val\<rparr>)"

definition proto_tab :: "(u32 \<times> bytes) list" where
  "proto_tab = [(1, lit ''WPA''), (2, lit ''RSN'')]"

definition wpa_config_write_proto :: "bool \<Rightarrow> wpa_ssid \<Rightarrow> bytes option" where
  "wpa_config_write_proto al n = (if al then Some (put_words 10 [] (flag_words proto_tab (n_proto n))) else None)"

definition key_mgmt_word :: "bytes \<Rightarrow> u32 option" where
  "key_mgmt_word w = (if w = lit ''WPA-PSK'' then Some 2
     else if w = lit ''WPA-EAP'' then Some 1
     else if w = lit ''IEEE8021X'' then Some 8
     else if w = lit ''NONE'' then Some 4
     else if w = lit ''WPA-NONE'' then Some 16 else None)"

definition wpa_config_parse_key_mgmt :: "bool \<Rightarrow> wpa_ssid \<Rightarrow> bytes \<Rightarrow> int \<times> wpa_ssid" where
  "wpa_config_parse_key_mgmt al = parse_flags al key_mgmt_word (\<lambda>val n. n\<lparr>n_key_mgmt := val\<rparr>)"

definition key_mgmt_tab :: "(u32 \<times> bytes) list" where
  "key_mgmt_tab = [(2, lit ''WPA-PSK''), (1, lit ''WPA-EAP''), (8, lit ''IEEE8021X''), (4, lit ''NONE''),
     (16, lit ''WPA-NONE'')]"

definition wpa_config_write_key_mgmt :: "bool \<Rightarrow> wpa_ssid \<Rightarrow> bytes option" where
  "wpa_config_write_key_mgmt al n =
     (if al then Some (put_words 50 [] (flag_words key_mgmt_tab (n_key_mgmt n))) else None)"

definition cipher_word :: "bytes \<Rightarrow> u32 option" where
  "cipher_word w = (if w = lit ''CCMP'' then Some 16
     else if w = lit ''TKIP'' then Some 8
     else if w = lit ''WEP104'' then Some 4
     else if w = lit ''WEP40'' then Some 2
     else if w = lit ''NONE'' then Some 1 else None)"

fun cipher_loop :: "u32 \<Rightarrow> bytes list \<Rightarrow> u32 option" where
  "cipher_loop val [] = Some val"
| "cipher_loop val (w # ws) = (case cipher_word w of None \<Rightarrow> None | Some f \<Rightarrow> cipher_loop (val OR f) ws)"

text \<open>\<open>None\<close> is the return value \<open>-1\<close>.\<close>

definition wpa_config_parse_cipher :: "bool \<Rightarrow> bytes \<Rightarrow> u32 option" where
  "wpa_config_parse_cipher al value =
     (if \<not> al then None
      else case cipher_loop 0 (tokens value) of
        None \<Rightarrow> None
      | Some val \<Rightarrow> if val = 0 then None else Some val)"

definition cipher_tab :: "(u32 \<times> bytes) list" where
  "cipher_tab = [(16, lit ''CCMP''), (8, lit ''TKIP''), (4, lit ''WEP104''), (2, lit ''WEP40''), (1, lit ''NONE'')]"

definition wpa_config_write_cipher :: "bool \<Rightarrow> u32 \<Rightarrow> bytes option" where
  "wpa_config_write_cipher al cipher = (if al then Some (put_words 50 [] (flag_words cipher_tab cipher)) else None)"

definition wpa_config_parse_pairwise :: "bool \<Rightarrow> wpa_ssid \<Rightarrow> bytes \<Rightarrow> int \<times> wpa_ssid" where
  "wpa_config_parse_pairwise al n value = (case wpa_config_parse_cipher al value of
     None \<Rightarrow> (-1, n)
   | Some val \<Rightarrow> if val AND NOT (16 OR 8 OR 1) \<noteq> 0 then (-1, n) else (0, n\<lparr>n_pairwise_cipher := val\<rparr>))"

definition wpa_config_write_pairwise :: "bool \<Rightarrow> wpa_ssid \<Rightarrow> bytes option" where
  "wpa_config_write_pairwise al n = wpa_config_write_cipher al (n_pairwise_cipher n)"

definition wpa_config_parse_group :: "bool \<Rightarrow> wpa_ssid \<Rightarrow> bytes \<Rightarrow> int \<times> wpa_ssid" where
  "wpa_config_parse_group al n value = (case wpa_config_parse_cipher al value of
     None \<Rightarrow> (-1, n)
   | Some val \<Rightarrow> if val AND NOT (16 OR 8 OR 4 OR 2) \<noteq> 0 then (-1, n) else (0, n\<lparr>n_group_cipher := val\<rparr>))"

definition wpa_config_write_group :: "bool \<Rightarrow> wpa_ssid \<Rightarrow> bytes option" where
  "wpa_config_write_group al n = wpa_config_write_cipher al (n_group_cipher n)"

definition auth_alg_word :: "bytes \<Rightarrow> u32 option" where
  "auth_alg_word w = (if w = lit ''OPEN'' then Some 1
     else if w = lit ''SHARED'' then Some 2
     else if w = lit ''LEAP'' then Some 4 else None)"

definition wpa_config_parse_auth_alg :: "bool \<Rightarrow> wpa_ssid \<Rightarrow> bytes \<Rightarrow> int \<times> wpa_ssid" where
  "wpa_config_parse_auth_alg al = parse_flags al auth_alg_word (\<lambda>val n. n\<lparr>n_auth_alg := val\<rparr>)"

definition auth_alg_tab :: "(u32 \<times> bytes) list" where
  "auth_alg_tab = [(1, lit ''OPEN''), (2, lit ''SHARED''), (4, lit ''LEAP'')]"

definition wpa_config_write_auth_alg :: "bool \<Rightarrow> wpa_ssid \<Rightarrow> bytes option" where
  "wpa_config_write_auth_alg al n =
     (if al then Some (put_words 30 [] (flag_words auth_alg_tab (n_auth_alg n))) else None)"

subsection \<open>Frequency lists\<close>

text \<open>
  The array of frequencies ends with a zero; the model keeps the frequencies before it. \<open>used\<close> and \<open>len\<close>
  are the variables of the code, \<open>k\<close> counts the allocations.
\<close>

function freqs_loop :: "(nat \<Rightarrow> bool) \<Rightarrow> nat \<Rightarrow> nat \<Rightarrow> nat \<Rightarrow> int list \<Rightarrow> bytes \<Rightarrow> int list option option" where
  "freqs_loop al k used len acc pos =
     (let pos = dropWhile (\<lambda>c. c = SPACE) pos in
      if used = len \<and> \<not> al k then Some None
      else let (k, len) = (if used = len then (k + 1, 2 * len) else (k, len)) in
      (case atoi pos of
         None \<Rightarrow> None
       | Some v \<Rightarrow>
           if v = 0 then Some (Some acc)
           else let rest = dropWhile (\<lambda>c. c \<noteq> SPACE) (tl pos) in
                if rest = [] then Some (Some (acc @ [v]))
                else freqs_loop al k (used + 1) len (acc @ [v]) rest))"
  by pat_completeness auto
termination
proof (relation "measure (\<lambda>(al, k, used, len, acc, pos). length pos)", goal_cases)
  case (2 al k used len acc pos pos' x k' len' v rest)
  have "length pos' \<le> length pos" using 2(1) by (simp add: length_dropWhile_le)
  moreover have "length rest \<le> length (tl pos')" unfolding 2(7) by (rule length_dropWhile_le)
  moreover have "rest = []" if "pos' = []" unfolding 2(7) using that by simp
  then have "pos' \<noteq> []" using 2(8) by blast
  ultimately show ?case by (cases pos') simp_all
qed simp

declare freqs_loop.simps [simp del]

definition wpa_config_parse_freqs :: "(nat \<Rightarrow> bool) \<Rightarrow> bytes \<Rightarrow> int list option option" where
  "wpa_config_parse_freqs al value = (if \<not> al 0 then Some None else freqs_loop al 1 0 10 [] value)"

definition wpa_config_parse_scan_freq :: "(nat \<Rightarrow> bool) \<Rightarrow> wpa_ssid \<Rightarrow> bytes \<Rightarrow> (int \<times> wpa_ssid) option" where
  "wpa_config_parse_scan_freq al n value = do {
     f \<leftarrow> wpa_config_parse_freqs al value;
     (case f of None \<Rightarrow> Some (-1, n) | Some l \<Rightarrow> Some (0, n\<lparr>n_scan_freq := Some l\<rparr>)) }"

definition wpa_config_parse_freq_list :: "(nat \<Rightarrow> bool) \<Rightarrow> wpa_ssid \<Rightarrow> bytes \<Rightarrow> (int \<times> wpa_ssid) option" where
  "wpa_config_parse_freq_list al n value = do {
     f \<leftarrow> wpa_config_parse_freqs al value;
     (case f of None \<Rightarrow> Some (-1, n) | Some l \<Rightarrow> Some (0, n\<lparr>n_freq_list := Some l\<rparr>)) }"

definition wpa_config_write_freqs :: "bool \<Rightarrow> int list option \<Rightarrow> bytes option" where
  "wpa_config_write_freqs al freqs = (case freqs of
     None \<Rightarrow> None
   | Some l \<Rightarrow> if al then Some (put_words (10 * length l + 1) [] (map fmt_u l)) else None)"

definition wpa_config_write_scan_freq :: "bool \<Rightarrow> wpa_ssid \<Rightarrow> bytes option" where
  "wpa_config_write_scan_freq al n = wpa_config_write_freqs al (n_scan_freq n)"

definition wpa_config_write_freq_list :: "bool \<Rightarrow> wpa_ssid \<Rightarrow> bytes option" where
  "wpa_config_write_freq_list al n = wpa_config_write_freqs al (n_freq_list n)"

subsection \<open>EAP methods, password, WEP keys\<close>

text \<open>
  The array of methods ends with the pair (IETF, NONE); the model keeps what is stored before that. An
  unknown method is stored as such a pair too, and the value is installed although an error is reported.
\<close>

fun eap_loop ::
  "(nat \<Rightarrow> bool) \<Rightarrow> eap_method list \<Rightarrow> nat \<Rightarrow> nat \<Rightarrow> (int \<times> u8) list \<Rightarrow> wpa_ssid \<Rightarrow> bytes list \<Rightarrow>
     ((int \<times> u8) list \<times> nat) option \<times> wpa_ssid" where
  "eap_loop al ms k errors methods n [] = (if al k then Some (methods, errors) else None, n)"
| "eap_loop al ms k errors methods n (w # ws) =
     (if \<not> al k then (None, n)
      else let m = eap_peer_get_type ms w in
        if m = (EAP_VENDOR_IETF, EAP_TYPE_NONE) then eap_loop al ms (k + 1) (errors + 1) (methods @ [m]) n ws
        else if m = (EAP_VENDOR_IETF, EAP_TYPE_LEAP)
        then eap_loop al ms (k + 1) errors (methods @ [m]) (n\<lparr>n_leap := n_leap n + 1\<rparr>) ws
        else eap_loop al ms (k + 1) errors (methods @ [m]) (n\<lparr>n_non_leap := n_non_leap n + 1\<rparr>) ws)"

definition wpa_config_parse_eap :: "(nat \<Rightarrow> bool) \<Rightarrow> eap_method list \<Rightarrow> wpa_ssid \<Rightarrow> bytes \<Rightarrow> int \<times> wpa_ssid" where
  "wpa_config_parse_eap al ms n value =
     (if \<not> al 0 then (-1, n)
      else case eap_loop al ms 1 0 [] n (tokens value) of
        (None, n) \<Rightarrow> (-1, n)
      | (Some (methods, errors), n) \<Rightarrow> (if errors \<noteq> 0 then -1 else 0, n\<lparr>n_eap_methods := Some methods\<rparr>))"

definition wpa_config_write_eap :: "bool \<Rightarrow> eap_method list \<Rightarrow> wpa_ssid \<Rightarrow> bytes option" where
  "wpa_config_write_eap al ms n = (case n_eap_methods n of
     None \<Rightarrow> None
   | Some methods \<Rightarrow>
       if \<not> al then None
       else Some (put_words 100 []
         (List.map_filter (\<lambda>(v, m). eap_get_name ms v m)
           (takeWhile (\<lambda>m. m \<noteq> (EAP_VENDOR_IETF, EAP_TYPE_NONE)) methods))))"

definition wpa_config_parse_password :: "bool \<Rightarrow> wpa_ssid \<Rightarrow> bytes \<Rightarrow> (int \<times> wpa_ssid) option" where
  "wpa_config_parse_password al n value =
     (if value = lit ''NULL'' then Some (0, n\<lparr>n_password := None, n_password_len := 0\<rparr>)
      else if take 5 value \<noteq> lit ''hash:'' then do {
        (tmp, _) \<leftarrow> wpa_config_parse_string al value;
        (case tmp of
           None \<Rightarrow> Some (-1, n)
         | Some s \<Rightarrow> Some (0, n\<lparr>n_password := Some s, n_password_len := length s,
             n_eap_flags := n_eap_flags n AND NOT EAP_CONFIG_FLAGS_PASSWORD_NTHASH\<rparr>)) }
      else if length (drop 5 value) \<noteq> 2 * 16 then Some (-1, n)
      else if \<not> al then Some (-1, n)
      else do {
        (r, hash) \<leftarrow> hexstr2bin (drop 5 value) (replicate 16 0) 16;
        if r \<noteq> 0 then Some (-1, n)
        else Some (0, n\<lparr>n_password := Some hash, n_password_len := 16,
               n_eap_flags := n_eap_flags n OR EAP_CONFIG_FLAGS_PASSWORD_NTHASH\<rparr>) })"

text \<open>
  A plain password is stored with a terminating NUL, a hash is an array of 16 octets.
\<close>

definition wpa_config_write_password :: "bool \<Rightarrow> wpa_ssid \<Rightarrow> bytes option option" where
  "wpa_config_write_password al n = (case n_password n of
     None \<Rightarrow> Some None
   | Some p \<Rightarrow>
       if n_eap_flags n AND EAP_CONFIG_FLAGS_PASSWORD_NTHASH = 0
       then wpa_config_write_string al (Some (p @ [0])) (n_password_len n)
       else if \<not> al then Some None
       else do {
         d \<leftarrow> rd_bytes p 0 16;
         (r, buf) \<leftarrow> wpa_snprintf_hex (replicate 33 0) 33 d 16;
         Some (Some (lit ''hash:'' @ c_str buf)) })"

text \<open>\<open>wpa_config_parse_string\<close> stores the length in \<open>wep_key_len[idx]\<close> itself, also when the key is then refused.\<close>

definition wpa_config_parse_wep_key :: "bool \<Rightarrow> nat \<Rightarrow> wpa_ssid \<Rightarrow> bytes \<Rightarrow> (int \<times> wpa_ssid) option" where
  "wpa_config_parse_wep_key al idx n value = do {
     (buf, len) \<leftarrow> wpa_config_parse_string al value;
     let n = (case len of None \<Rightarrow> n | Some l \<Rightarrow> n\<lparr>n_wep_key_len := (n_wep_key_len n)[idx := l]\<rparr>);
     (case buf of
        None \<Rightarrow> Some (-1, n)
      | Some b \<Rightarrow>
          if MAX_WEP_KEY_LEN < length b then Some (-1, n)
          else do {
            key \<leftarrow> wr_bytes (n_wep_key n ! idx) 0 b;
            Some (0, n\<lparr>n_wep_key := (n_wep_key n)[idx := key]\<rparr>) }) }"

definition wpa_config_write_wep_key :: "bool \<Rightarrow> nat \<Rightarrow> wpa_ssid \<Rightarrow> bytes option option" where
  "wpa_config_write_wep_key al idx n =
     (if n_wep_key_len n ! idx = 0 then Some None
      else wpa_config_write_string al (Some (n_wep_key n ! idx)) (n_wep_key_len n ! idx))"

section \<open>The table of network variables\<close>

datatype parser =
    Parse_str bool nat nat
  | Parse_int int int
  | Parse_bssid | Parse_psk | Parse_proto | Parse_key_mgmt | Parse_pairwise | Parse_group | Parse_auth_alg | Parse_scan_freq | Parse_freq_list | Parse_eap | Parse_password
  | Parse_wep_key nat

record parse_data =
  pd_name :: string
  pd_parser :: parser
  pd_key_data :: bool

abbreviation (input) STR_f :: "string \<Rightarrow> parse_data" where
  "STR_f f \<equiv> \<lparr>pd_name = f, pd_parser = Parse_str False 0 0, pd_key_data = False\<rparr>"

abbreviation (input) STR_KEY_f :: "string \<Rightarrow> parse_data" where
  "STR_KEY_f f \<equiv> \<lparr>pd_name = f, pd_parser = Parse_str False 0 0, pd_key_data = True\<rparr>"

abbreviation (input) STR_LEN_f :: "string \<Rightarrow> parse_data" where
  "STR_LEN_f f \<equiv> \<lparr>pd_name = f, pd_parser = Parse_str True 0 0, pd_key_data = False\<rparr>"

abbreviation (input) INT_f :: "string \<Rightarrow> parse_data" where
  "INT_f f \<equiv> \<lparr>pd_name = f, pd_parser = Parse_int 0 0, pd_key_data = False\<rparr>"

abbreviation (input) INT_RANGE_f :: "string \<Rightarrow> int \<Rightarrow> int \<Rightarrow> parse_data" where
  "INT_RANGE_f f lo hi \<equiv> \<lparr>pd_name = f, pd_parser = Parse_int lo hi, pd_key_data = False\<rparr>"

abbreviation (input) FUNC_f :: "string \<Rightarrow> parser \<Rightarrow> parse_data" where
  "FUNC_f f p \<equiv> \<lparr>pd_name = f, pd_parser = p, pd_key_data = False\<rparr>"

abbreviation (input) FUNC_KEY_f :: "string \<Rightarrow> parser \<Rightarrow> parse_data" where
  "FUNC_KEY_f f p \<equiv> \<lparr>pd_name = f, pd_parser = p, pd_key_data = True\<rparr>"

definition ssid_fields :: "parse_data list" where
  "ssid_fields =
    [\<lparr>pd_name = ''ssid'', pd_parser = Parse_str True 0 MAX_SSID_LEN, pd_key_data = False\<rparr>,
     INT_RANGE_f ''scan_ssid'' 0 1, FUNC_f ''bssid'' Parse_bssid, FUNC_KEY_f ''psk'' Parse_psk, FUNC_f ''proto'' Parse_proto,
     FUNC_f ''key_mgmt'' Parse_key_mgmt, FUNC_f ''pairwise'' Parse_pairwise, FUNC_f ''group'' Parse_group,
     FUNC_f ''auth_alg'' Parse_auth_alg, FUNC_f ''scan_freq'' Parse_scan_freq, FUNC_f ''freq_list'' Parse_freq_list,
     FUNC_f ''eap'' Parse_eap, STR_LEN_f ''identity'', STR_LEN_f ''anonymous_identity'', FUNC_KEY_f ''password'' Parse_password,
     STR_f ''ca_cert'', STR_f ''ca_path'', STR_f ''client_cert'', STR_f ''private_key'',
     STR_KEY_f ''private_key_passwd'', STR_f ''dh_file'', STR_f ''subject_match'', STR_f ''altsubject_match'',
     STR_f ''ca_cert2'', STR_f ''ca_path2'', STR_f ''client_cert2'', STR_f ''private_key2'',
     STR_KEY_f ''private_key2_passwd'', STR_f ''dh_file2'', STR_f ''subject_match2'', STR_f ''altsubject_match2'',
     STR_f ''phase1'', STR_f ''phase2'', STR_f ''pcsc'', STR_KEY_f ''pin'', STR_f ''engine_id'', STR_f ''key_id'',
     STR_f ''cert_id'', STR_f ''ca_cert_id'', STR_KEY_f ''pin2'', STR_f ''engine2_id'', STR_f ''key2_id'',
     STR_f ''cert2_id'', STR_f ''ca_cert2_id'', INT_f ''engine'', INT_f ''engine2'', INT_f ''eapol_flags'',
     FUNC_KEY_f ''wep_key0'' (Parse_wep_key 0), FUNC_KEY_f ''wep_key1'' (Parse_wep_key 1), FUNC_KEY_f ''wep_key2'' (Parse_wep_key 2),
     FUNC_KEY_f ''wep_key3'' (Parse_wep_key 3), INT_f ''wep_tx_keyidx'', INT_f ''priority'', INT_f ''eap_workaround'',
     STR_f ''pac_file'', INT_f ''fragment_size'', INT_RANGE_f ''mode'' 0 4, INT_RANGE_f ''proactive_key_caching'' 0 1,
     INT_RANGE_f ''disabled'' 0 2, STR_f ''id_str'', INT_RANGE_f ''peerkey'' 0 1, INT_RANGE_f ''mixed_cell'' 0 1,
     INT_RANGE_f ''frequency'' 0 10000, INT_f ''wpa_ptk_rekey'', STR_f ''bgscan'']"

definition run_parser ::
  "(nat \<Rightarrow> bool) \<Rightarrow> eap_method list \<Rightarrow> parse_data \<Rightarrow> wpa_ssid \<Rightarrow> bytes \<Rightarrow> (int \<times> wpa_ssid) option" where
  "run_parser al ms d n value = (case pd_parser d of
     Parse_str has_len lo hi \<Rightarrow> wpa_config_parse_str (al 0) (pd_name d) has_len lo hi n value
   | Parse_int lo hi \<Rightarrow> wpa_config_parse_int (pd_name d) lo hi n value
   | Parse_bssid \<Rightarrow> wpa_config_parse_bssid n value
   | Parse_psk \<Rightarrow> wpa_config_parse_psk (al 0) n value
   | Parse_proto \<Rightarrow> Some (wpa_config_parse_proto (al 0) n value)
   | Parse_key_mgmt \<Rightarrow> Some (wpa_config_parse_key_mgmt (al 0) n value)
   | Parse_pairwise \<Rightarrow> Some (wpa_config_parse_pairwise (al 0) n value)
   | Parse_group \<Rightarrow> Some (wpa_config_parse_group (al 0) n value)
   | Parse_auth_alg \<Rightarrow> Some (wpa_config_parse_auth_alg (al 0) n value)
   | Parse_scan_freq \<Rightarrow> wpa_config_parse_scan_freq al n value
   | Parse_freq_list \<Rightarrow> wpa_config_parse_freq_list al n value
   | Parse_eap \<Rightarrow> Some (wpa_config_parse_eap al ms n value)
   | Parse_password \<Rightarrow> wpa_config_parse_password (al 0) n value
   | Parse_wep_key i \<Rightarrow> wpa_config_parse_wep_key (al 0) i n value)"

definition run_writer :: "bool \<Rightarrow> eap_method list \<Rightarrow> parse_data \<Rightarrow> wpa_ssid \<Rightarrow> bytes option option" where
  "run_writer al ms d n = (case pd_parser d of
     Parse_str has_len lo hi \<Rightarrow> wpa_config_write_str al (pd_name d) has_len n
   | Parse_int lo hi \<Rightarrow> wpa_config_write_int al (pd_name d) n
   | Parse_bssid \<Rightarrow> wpa_config_write_bssid al n
   | Parse_psk \<Rightarrow> wpa_config_write_psk al n
   | Parse_proto \<Rightarrow> Some (wpa_config_write_proto al n)
   | Parse_key_mgmt \<Rightarrow> Some (wpa_config_write_key_mgmt al n)
   | Parse_pairwise \<Rightarrow> Some (wpa_config_write_pairwise al n)
   | Parse_group \<Rightarrow> Some (wpa_config_write_group al n)
   | Parse_auth_alg \<Rightarrow> Some (wpa_config_write_auth_alg al n)
   | Parse_scan_freq \<Rightarrow> Some (wpa_config_write_scan_freq al n)
   | Parse_freq_list \<Rightarrow> Some (wpa_config_write_freq_list al n)
   | Parse_eap \<Rightarrow> Some (wpa_config_write_eap al ms n)
   | Parse_password \<Rightarrow> wpa_config_write_password al n
   | Parse_wep_key i \<Rightarrow> wpa_config_write_wep_key al i n)"

definition find_field :: "string \<Rightarrow> parse_data option" where
  "find_field var = find (\<lambda>d. pd_name d = var) ssid_fields"

definition wpa_config_set ::
  "(nat \<Rightarrow> bool) \<Rightarrow> eap_method list \<Rightarrow> wpa_ssid \<Rightarrow> string \<Rightarrow> bytes option \<Rightarrow> (int \<times> wpa_ssid) option" where
  "wpa_config_set al ms n var value = (case value of
     None \<Rightarrow> Some (-1, n)
   | Some v \<Rightarrow> (case find_field var of
       None \<Rightarrow> Some (-1, n)
     | Some d \<Rightarrow> do {
         (r, n) \<leftarrow> run_parser al ms d n v;
         Some (if r \<noteq> 0 then -1 else 0, n) }))"

definition wpa_config_set_quoted ::
  "(nat \<Rightarrow> bool) \<Rightarrow> eap_method list \<Rightarrow> wpa_ssid \<Rightarrow> string \<Rightarrow> bytes \<Rightarrow> (int \<times> wpa_ssid) option" where
  "wpa_config_set_quoted al ms n var value =
     (if \<not> al 0 then Some (-1, n)
      else wpa_config_set (\<lambda>k. al (k + 1)) ms n var (Some ([QUOTE] @ value @ [QUOTE])))"

definition wpa_config_get :: "bool \<Rightarrow> eap_method list \<Rightarrow> wpa_ssid \<Rightarrow> string \<Rightarrow> bytes option option" where
  "wpa_config_get al ms n var = (case find_field var of
     None \<Rightarrow> Some None
   | Some d \<Rightarrow> run_writer al ms d n)"

definition wpa_config_get_no_key :: "bool \<Rightarrow> bool \<Rightarrow> eap_method list \<Rightarrow> wpa_ssid \<Rightarrow> string \<Rightarrow> bytes option option" where
  "wpa_config_get_no_key al al_star ms n var = (case find_field var of
     None \<Rightarrow> Some None
   | Some d \<Rightarrow> do {
       res \<leftarrow> run_writer al ms d n;
       if pd_key_data d then
         (case res of
            None \<Rightarrow> Some None
          | Some t \<Rightarrow> if t \<noteq> [] then Some (if al_star then Some (lit ''*'') else None) else Some None)
       else Some res })"

text \<open>
  \<open>wpa_config_get_all\<close>: keys and values of all variables that have one. When the copy of a name cannot be
  allocated, the error path frees pointers into the middle of the first key, if there is one: a fault.
\<close>

fun get_all_loop ::
  "(nat \<Rightarrow> bool) \<Rightarrow> (nat \<Rightarrow> bool) \<Rightarrow> nat \<Rightarrow> eap_method list \<Rightarrow> wpa_ssid \<Rightarrow> bool \<Rightarrow> parse_data list \<Rightarrow>
     (string \<times> bytes) list \<Rightarrow> (string \<times> bytes) list option option" where
  "get_all_loop al al_key i ms n get_keys [] props = Some (Some props)"
| "get_all_loop al al_key i ms n get_keys (d # ds) props =
     (if pd_key_data d \<and> \<not> get_keys then get_all_loop al al_key (i + 1) ms n get_keys ds props
      else do {
        value \<leftarrow> run_writer (al i) ms d n;
        (case value of
           None \<Rightarrow> get_all_loop al al_key (i + 1) ms n get_keys ds props
         | Some t \<Rightarrow>
             if t = [] then get_all_loop al al_key (i + 1) ms n get_keys ds props
             else if \<not> al_key i then (if props = [] then Some None else None)
             else get_all_loop al al_key (i + 1) ms n get_keys ds (props @ [(pd_name d, t)])) })"

definition wpa_config_get_all ::
  "bool \<Rightarrow> (nat \<Rightarrow> bool) \<Rightarrow> (nat \<Rightarrow> bool) \<Rightarrow> eap_method list \<Rightarrow> wpa_ssid \<Rightarrow> bool \<Rightarrow> (string \<times> bytes) list option option" where
  "wpa_config_get_all al_arr al al_key ms n get_keys =
     (if \<not> al_arr then Some None
      else get_all_loop al al_key 0 ms n (get_keys \<and> n_export_keys n) ssid_fields [])"

section \<open>Writing and reading back\<close>

text \<open>
  \<open>shape_ok\<close>: the fixed arrays have their sizes. \<open>field_ok\<close>: the value of one variable is within the limits
  the code accepts (and, for lists, short enough for the writer's buffer).
\<close>

definition shape_ok :: "wpa_ssid \<Rightarrow> bool" where
  "shape_ok n \<longleftrightarrow> length (n_bssid n) = 6 \<and> length (n_psk n) = PMK_LEN \<and> length (n_wep_key n) = 4 \<and>
     list_all (\<lambda>k. length k = MAX_WEP_KEY_LEN) (n_wep_key n) \<and> length (n_wep_key_len n) = 4"

definition flag_mask :: "(u32 \<times> bytes) list \<Rightarrow> u32" where
  "flag_mask tab = foldr (\<lambda>e a. fst e OR a) tab 0"

definition method_ok :: "eap_method list \<Rightarrow> int \<times> u8 \<Rightarrow> bool" where
  "method_ok ms p \<longleftrightarrow> p \<noteq> (0, 0) \<and> p \<noteq> (0, EAP_TYPE_EXPANDED) \<and>
     list_ex (\<lambda>m. (em_vendor m, em_method m) = p \<and> is_word (em_name m)) ms"

definition method_name :: "eap_method list \<Rightarrow> int \<times> u8 \<Rightarrow> bytes" where
  "method_name ms p = the (eap_get_name ms (fst p) (snd p))"

definition freqs_ok :: "int list option \<Rightarrow> bool" where
  "freqs_ok f \<longleftrightarrow> (case f of None \<Rightarrow> True | Some l \<Rightarrow> list_all (\<lambda>x. 0 < x \<and> x < 10 ^ 9) l)"

definition field_ok :: "eap_method list \<Rightarrow> parse_data \<Rightarrow> wpa_ssid \<Rightarrow> bool" where
  "field_ok ms d n = (case pd_parser d of
     Parse_str has_len lo hi \<Rightarrow> (case str_field (pd_name d) n of
         None \<Rightarrow> True
       | Some s \<Rightarrow> (if has_len then len_field (pd_name d) n = length s else 0 \<notin> set s) \<and>
           lo \<le> length s \<and> (hi \<noteq> 0 \<longrightarrow> length s \<le> hi))
   | Parse_int lo hi \<Rightarrow> let v = n_int n (pd_name d) in
       - (2 ^ 31) \<le> v \<and> v < 2 ^ 31 \<and> (lo \<noteq> 0 \<longrightarrow> lo \<le> v) \<and> (hi \<noteq> 0 \<longrightarrow> v \<le> hi)
   | Parse_bssid \<Rightarrow> True
   | Parse_psk \<Rightarrow> (case n_passphrase n of
         None \<Rightarrow> True | Some p \<Rightarrow> 8 \<le> length p \<and> length p \<le> 63 \<and> 0 \<notin> set p)
   | Parse_proto \<Rightarrow> n_proto n AND flag_mask proto_tab = n_proto n
   | Parse_key_mgmt \<Rightarrow> n_key_mgmt n AND flag_mask key_mgmt_tab = n_key_mgmt n
   | Parse_pairwise \<Rightarrow> n_pairwise_cipher n AND (16 OR 8 OR 1) = n_pairwise_cipher n
   | Parse_group \<Rightarrow> n_group_cipher n AND (16 OR 8 OR 4 OR 2) = n_group_cipher n
   | Parse_auth_alg \<Rightarrow> n_auth_alg n AND flag_mask auth_alg_tab = n_auth_alg n
   | Parse_scan_freq \<Rightarrow> freqs_ok (n_scan_freq n)
   | Parse_freq_list \<Rightarrow> freqs_ok (n_freq_list n)
   | Parse_eap \<Rightarrow> registry_ok ms \<and> (case n_eap_methods n of None \<Rightarrow> True | Some l \<Rightarrow>
       list_all (method_ok ms) l \<and> length (joined (map (method_name ms) l)) < 100)
   | Parse_password \<Rightarrow> (case n_password n of None \<Rightarrow> True | Some p \<Rightarrow>
       n_password_len n = length p \<and> (n_eap_flags n AND 1 \<noteq> 0 \<longrightarrow> length p = 16))
   | Parse_wep_key i \<Rightarrow> i < 4 \<and> n_wep_key_len n ! i \<le> MAX_WEP_KEY_LEN)"

definition restores :: "eap_method list \<Rightarrow> parse_data \<Rightarrow> wpa_ssid \<Rightarrow> bytes \<Rightarrow> bool" where
  "restores ms d m t \<longleftrightarrow> (\<exists>m'. run_parser (\<lambda>_. True) ms d m t = Some (0, m') \<and> run_writer True ms d m' = Some (Some t))"

lemma restoresI:
  "run_parser (\<lambda>_. True) ms d m t = Some (0, m') \<Longrightarrow> run_writer True ms d m' = Some (Some t) \<Longrightarrow> restores ms d m t"
  by (auto simp: restores_def)

lemma c_str_snoc [simp]: "0 \<notin> set s \<Longrightarrow> c_str (s @ [0]) = s"
  by (simp add: c_str_def) (subst takeWhile_append2, auto)

lemma restores_str:
  assumes "pd_parser d = Parse_str has_len lo hi" "field_ok ms d n" "run_writer True ms d n = Some (Some t)"
  shows "restores ms d m t"
proof -
  obtain s where s: "str_field (pd_name d) n = Some s"
    using assms(1,3) by (auto simp: run_writer_def wpa_config_write_str_def split: option.splits)
  have ok: "if has_len then len_field (pd_name d) n = length s else 0 \<notin> set s" "lo \<le> length s" "hi \<noteq> 0 \<longrightarrow> length s \<le> hi"
    using assms(1,2) s by (simp_all add: field_ok_def)
  have w: "wpa_config_write_string True (Some (s @ [0])) (length s) = Some (Some t)"
    using assms(1,3) s ok(1) c_str_id [of s] by (auto simp: run_writer_def wpa_config_write_str_def Let_def split: if_splits)
  note p = write_parse_string [OF _ w]
  let ?m = "set_str_field (pd_name d) has_len (Some s) (length s) m"
  have "run_parser (\<lambda>_. True) ms d m t = Some (0, ?m)"
    using assms(1) p ok(2,3) by (auto simp: run_parser_def wpa_config_parse_str_def)
  moreover have "run_writer True ms d ?m = Some (Some t)"
    using assms(1) w ok(1) c_str_id [of s]
    by (auto simp: run_writer_def wpa_config_write_str_def set_str_field_def str_field_def len_field_def Let_def)
  ultimately show ?thesis by (rule restoresI)
qed

lemma restores_int:
  assumes "pd_parser d = Parse_int lo hi" "field_ok ms d n" "run_writer True ms d n = Some (Some t)"
  shows "restores ms d m t"
proof -
  let ?v = "n_int n (pd_name d)"
  have t: "t = fmt_d ?v" "length t < 20"
    using assms(1,3) by (auto simp: run_writer_def wpa_config_write_int_def split: if_splits)
  have a: "atoi t = Some ?v" unfolding t(1) by (rule atoi_fmt_d) (use assms(1,2) in \<open>simp_all add: field_ok_def Let_def\<close>)
  let ?m = "m\<lparr>n_int := (n_int m)(pd_name d := ?v)\<rparr>"
  have "run_parser (\<lambda>_. True) ms d m t = Some (0, ?m)"
    using assms(1,2) a by (auto simp: run_parser_def wpa_config_parse_int_def field_ok_def Let_def)
  moreover have "run_writer True ms d ?m = Some (Some t)"
    using assms(1) t by (simp add: run_writer_def wpa_config_write_int_def)
  ultimately show ?thesis by (rule restoresI)
qed

lemma restores_bssid:
  assumes "pd_parser d = Parse_bssid" "shape_ok n" "shape_ok m" "run_writer True ms d n = Some (Some t)"
  shows "restores ms d m t"
proof -
  have t: "t = mac2str (n_bssid n)" "length t < 20"
    using assms(1,4) by (auto simp: run_writer_def wpa_config_write_bssid_def split: if_splits)
  have l: "length t = 17" by (simp add: t(1) mac2str_def)
  have "hwaddr_aton t (n_bssid m) = Some (0, n_bssid n)"
    using hwaddr_aton_spec [of "n_bssid n" "n_bssid m"] assms(2,3) by (simp add: shape_ok_def t(1))
  then have "run_parser (\<lambda>_. True) ms d m t = Some (0, m\<lparr>n_bssid := n_bssid n, n_bssid_set := True\<rparr>)"
    using assms(1) l by (auto simp: run_parser_def wpa_config_parse_bssid_def lit_def)
  then show ?thesis
    by (rule restoresI) (use assms(1) t in \<open>simp add: run_writer_def wpa_config_write_bssid_def\<close>)
qed

lemma rds_0_hex: "\<exists>c. rds (hex_text u s) 0 = Some c \<and> c \<noteq> QUOTE"
  using hex_text_no_quote [of u s] by (cases "hex_text u s") (auto simp: rds_def rd_def)

lemma write_hex_eq:
  assumes "len \<le> length v" "0 < len"
  shows "wpa_config_write_string_hex True v len = Some (Some (hex_text False (take len v)))"
proof -
  let ?d = "take len v"
  obtain b where "wpa_snprintf_hex_gen (replicate (2 * len + 1) 0) (2 * len + 1) ?d (length ?d) False =
      Some (2 * length ?d, b)" "?d \<noteq> [] \<longrightarrow> c_str b = hex_text False ?d"
    by (rule wpa_snprintf_hex_gen_fits [of ?d "2 * len + 1" "replicate (2 * len + 1) 0" False]) (use assms in simp_all)
  then show ?thesis
    using assms by (auto simp: wpa_config_write_string_hex_def rd_bytes_def wpa_snprintf_hex_def)
qed

lemma restores_psk:
  assumes "pd_parser d = Parse_psk" "field_ok ms d n" "shape_ok n" "shape_ok m" "run_writer True ms d n = Some (Some t)"
  shows "restores ms d m t"
proof (cases "n_passphrase n")
  case (Some p)
  have ok: "8 \<le> length p" "length p \<le> 63" "0 \<notin> set p" using assms(1,2) Some by (simp_all add: field_ok_def)
  have w: "wpa_config_write_string_ascii True (p @ [0]) (length p) = Some (Some (QUOTE # p @ [QUOTE]))"
    using c_str_id [of "[QUOTE] @ p @ [QUOTE]"] ok(3) by (simp add: wpa_config_write_string_ascii_def rd_bytes_def)
  then have t: "t = QUOTE # p @ [QUOTE]" using assms(1,5) Some by (simp add: run_writer_def wpa_config_write_psk_def)
  let ?m = "if n_passphrase m = Some p then m else m\<lparr>n_psk_set := False, n_passphrase := Some p\<rparr>"
  have "run_parser (\<lambda>_. True) ms d m t = Some (0, ?m)"
    using assms(1) ok by (simp add: run_parser_def wpa_config_parse_psk_def t rds_def rd_def strrchr_last rd_bytes_def Let_def)
  moreover have "run_writer True ms d ?m = Some (Some t)"
    using assms(1) w t by (simp add: run_writer_def wpa_config_write_psk_def)
  ultimately show ?thesis by (rule restoresI)
next
  case None
  have l: "length (n_psk n) = 32" "length (n_psk m) = 32" using assms(3,4) by (simp_all add: shape_ok_def)
  have w: "wpa_config_write_string_hex True (n_psk n) 32 = Some (Some (hex_text False (n_psk n)))"
    using write_hex_eq [of 32 "n_psk n"] l by simp
  then have t: "t = hex_text False (n_psk n)"
    using assms(1,5) None by (simp add: run_writer_def wpa_config_write_psk_def split: if_splits)
  obtain out where "hexstr2bin t (n_psk m) 32 = Some (0, out)" "out = n_psk n"
    using hexstr2bin_hex_text [of "n_psk n" "n_psk m" False] l t by auto
  moreover have "rds t 64 = Some 0" using rds_end [of t] l by (simp add: t)
  ultimately have "run_parser (\<lambda>_. True) ms d m t = Some (0, m\<lparr>n_psk := n_psk n, n_passphrase := None, n_psk_set := True\<rparr>)"
    using assms(1) rds_0_hex [of False "n_psk n"] unfolding t by (auto simp: run_parser_def wpa_config_parse_psk_def)
  then show ?thesis
    by (rule restoresI) (use assms(1) w t in \<open>simp add: run_writer_def wpa_config_write_psk_def\<close>)
qed

subsection \<open>Flags\<close>

lemma single_bit_and: "(val :: u32) AND push_bit k 1 = (if val AND push_bit k 1 \<noteq> 0 then push_bit k 1 else 0)"
proof (cases "bit val k")
  case True
  have "val AND push_bit k 1 = push_bit k 1"
    by (rule bit_word_eqI) (use True in \<open>auto simp: bit_simps\<close>)
  then show ?thesis by simp
next
  case False
  then show ?thesis by (simp add: bit_iff_and_push_bit_not_eq_0)
qed

text \<open>\<open>tab_ok\<close>: the entries of a writer's table are single bits with words that the parser translates back.\<close>

definition tab_ok :: "(bytes \<Rightarrow> u32 option) \<Rightarrow> (u32 \<times> bytes) list \<Rightarrow> bool" where
  "tab_ok word tab \<longleftrightarrow> (\<forall>e \<in> set tab. (\<exists>k. fst e = push_bit k 1) \<and> is_word (snd e) \<and> word (snd e) = Some (fst e))"

lemma flags_loop_words:
  "tab_ok word tab \<Longrightarrow> flags_loop word acc e (flag_words tab val) = (acc OR (val AND flag_mask tab), e)"
proof (induction tab arbitrary: acc)
  case (Cons x tab)
  have ok: "tab_ok word tab" "word (snd x) = Some (fst x)" using Cons.prems by (auto simp: tab_ok_def)
  obtain k where k: "fst x = push_bit k 1" using Cons.prems by (auto simp: tab_ok_def)
  have b: "val AND fst x = (if val AND fst x \<noteq> 0 then fst x else 0)" unfolding k by (rule single_bit_and)
  have "val AND flag_mask (x # tab) = (val AND fst x) OR (val AND flag_mask tab)"
    by (simp add: flag_mask_def bit.conj_disj_distrib)
  then have m: "val AND flag_mask (x # tab) = (if val AND fst x \<noteq> 0 then fst x else 0) OR (val AND flag_mask tab)"
    using b by simp
  show ?case
    unfolding m using Cons.IH [OF ok(1)] ok(2) by (auto simp: flag_words_def or.assoc)
qed (simp add: flag_words_def flag_mask_def)

lemma flag_words_ok: "tab_ok word tab \<Longrightarrow> list_all is_word (flag_words tab val)"
  by (auto simp: flag_words_def list_all_iff tab_ok_def)

lemma flag_words_length:
  "length (concat (map ((#) SPACE) (flag_words tab val))) \<le> length (concat (map ((#) SPACE) (map snd tab)))"
  by (induction tab) (auto simp: flag_words_def)

lemma joined_le: "length (joined ws) \<le> length (concat (map ((#) SPACE) ws))"
  by (cases ws) (simp_all add: joined_def)

text \<open>The room of the writer's buffer is enough for all words together.\<close>

lemma put_flags:
  assumes "tab_ok word tab" "length (concat (map ((#) SPACE) (map snd tab))) < room"
  shows "put_words room [] (flag_words tab val) = joined (flag_words tab val)"
  by (rule put_words_joined [OF flag_words_ok [OF assms(1)]])
     (use assms(2) flag_words_length [of tab val] joined_le [of "flag_words tab val"] in linarith)

lemma parse_flags_words:
  assumes "tab_ok word tab" "val AND flag_mask tab = val" "joined (flag_words tab val) \<noteq> []"
  shows "parse_flags True word upd m (joined (flag_words tab val)) = (0, upd val m)"
proof -
  have "val \<noteq> 0" using assms(3) by (auto simp: flag_words_def joined_def)
  then show ?thesis
    using flags_loop_words [OF assms(1), of 0 0 val] tokens_joined [OF flag_words_ok [OF assms(1)], of val] assms(2)
    by (simp add: parse_flags_def)
qed

lemma cipher_loop_words:
  "tab_ok cipher_word tab \<Longrightarrow> cipher_loop acc (flag_words tab val) = Some (acc OR (val AND flag_mask tab))"
proof -
  assume ok: "tab_ok cipher_word tab"
  have "list_all (\<lambda>w. cipher_word w \<noteq> None) ws \<Longrightarrow> cipher_loop acc ws = Some (fst (flags_loop cipher_word acc e ws))" for acc e ws
    by (induction ws arbitrary: acc) auto
  moreover have "list_all (\<lambda>w. cipher_word w \<noteq> None) (flag_words tab val)"
    using ok by (auto simp: flag_words_def list_all_iff tab_ok_def)
  ultimately have "cipher_loop acc (flag_words tab val) = Some (fst (flags_loop cipher_word acc 0 (flag_words tab val)))"
    by blast
  then show ?thesis using flags_loop_words [OF ok, of acc 0 val] by simp
qed

lemma parse_cipher_words:
  assumes "tab_ok cipher_word cipher_tab" "val AND flag_mask cipher_tab = val" "joined (flag_words cipher_tab val) \<noteq> []"
  shows "wpa_config_parse_cipher True (joined (flag_words cipher_tab val)) = Some val"
proof -
  have "val \<noteq> 0" using assms(3) by (auto simp: flag_words_def joined_def)
  then show ?thesis
    using cipher_loop_words [OF assms(1), of 0 val] tokens_joined [OF flag_words_ok [OF assms(1)], of val] assms(2)
    by (simp add: wpa_config_parse_cipher_def)
qed

lemma bit_flags: "\<exists>k. 2 ^ k = (1::u32)" "\<exists>k. 2 ^ k = (2::u32)" "\<exists>k. 2 ^ k = (4::u32)"
  "\<exists>k. 2 ^ k = (8::u32)" "\<exists>k. 2 ^ k = (16::u32)"
  using exI [of "\<lambda>k. 2 ^ k = (1::u32)" 0] exI [of "\<lambda>k. 2 ^ k = (2::u32)" 1] exI [of "\<lambda>k. 2 ^ k = (4::u32)" 2]
    exI [of "\<lambda>k. 2 ^ k = (8::u32)" 3] exI [of "\<lambda>k. 2 ^ k = (16::u32)" 4] by simp_all

lemma tabs_ok:
  "tab_ok proto_word proto_tab" "tab_ok key_mgmt_word key_mgmt_tab" "tab_ok cipher_word cipher_tab"
  "tab_ok auth_alg_word auth_alg_tab"
  by (simp_all add: tab_ok_def proto_tab_def key_mgmt_tab_def cipher_tab_def auth_alg_tab_def bit_flags
      proto_word_def key_mgmt_word_def cipher_word_def auth_alg_word_def lit_def is_word_def is_sep_def)

lemma tabs_room:
  "length (concat (map ((#) SPACE) (map snd proto_tab))) < 10"
  "length (concat (map ((#) SPACE) (map snd key_mgmt_tab))) < 50"
  "length (concat (map ((#) SPACE) (map snd cipher_tab))) < 50"
  "length (concat (map ((#) SPACE) (map snd auth_alg_tab))) < 30"
  by (simp_all add: proto_tab_def key_mgmt_tab_def cipher_tab_def auth_alg_tab_def lit_def)

lemmas flag_rules = put_flags [OF tabs_ok(1) tabs_room(1)] put_flags [OF tabs_ok(2) tabs_room(2)]
  put_flags [OF tabs_ok(3) tabs_room(3)] put_flags [OF tabs_ok(4) tabs_room(4)]

lemma restores_flags:
  assumes "pd_parser d = Parse_proto \<or> pd_parser d = Parse_key_mgmt \<or> pd_parser d = Parse_auth_alg"
    "field_ok ms d n" "run_writer True ms d n = Some (Some t)" "t \<noteq> []"
  shows "restores ms d m t"
  using assms parse_flags_words [OF tabs_ok(1), of "n_proto n"] parse_flags_words [OF tabs_ok(2), of "n_key_mgmt n"]
    parse_flags_words [OF tabs_ok(4), of "n_auth_alg n"]
  by (auto simp: restores_def run_parser_def run_writer_def field_ok_def flag_rules wpa_config_parse_proto_def
      wpa_config_write_proto_def wpa_config_parse_key_mgmt_def wpa_config_write_key_mgmt_def
      wpa_config_parse_auth_alg_def wpa_config_write_auth_alg_def)

lemma sub_mask:
  assumes "(val :: u32) AND a = val" "a AND b = a"
  shows "val AND b = val"
  using assms by (metis and.assoc)

lemma restores_cipher:
  assumes "pd_parser d = Parse_pairwise \<or> pd_parser d = Parse_group"
    "field_ok ms d n" "run_writer True ms d n = Some (Some t)" "t \<noteq> []"
  shows "restores ms d m t"
proof -
  have mask: "flag_mask cipher_tab = 31" by (simp add: flag_mask_def cipher_tab_def)
  have sub: "val AND flag_mask cipher_tab = val" "val AND NOT a = 0"
    if "val AND a = val" "a AND 31 = a" for val a :: u32
  proof -
    show "val AND flag_mask cipher_tab = val" using sub_mask [OF that] mask by simp
    show "val AND NOT a = 0" using that(1) by (metis and.assoc bit.conj_cancel_right bit.conj_zero_right)
  qed
  show ?thesis
  proof (cases "pd_parser d = Parse_pairwise")
    case True
    then have v: "n_pairwise_cipher n AND (16 OR 8 OR 1) = n_pairwise_cipher n" using assms(2) by (simp add: field_ok_def)
    have t: "t = joined (flag_words cipher_tab (n_pairwise_cipher n))"
      using assms(3) True by (simp add: run_writer_def wpa_config_write_pairwise_def wpa_config_write_cipher_def flag_rules)
    then have "wpa_config_parse_cipher True t = Some (n_pairwise_cipher n)"
      using parse_cipher_words [OF tabs_ok(3) sub(1) [OF v]] assms(4) by simp
    then show ?thesis
      using True t sub(2) [OF v] v
      by (auto simp: restores_def run_parser_def run_writer_def wpa_config_parse_pairwise_def
          wpa_config_write_pairwise_def wpa_config_write_cipher_def flag_rules)
  next
    case False
    then have g: "pd_parser d = Parse_group" using assms(1) by simp
    then have v: "n_group_cipher n AND (16 OR 8 OR 4 OR 2) = n_group_cipher n" using assms(2) by (simp add: field_ok_def)
    have t: "t = joined (flag_words cipher_tab (n_group_cipher n))"
      using assms(3) g by (simp add: run_writer_def wpa_config_write_group_def wpa_config_write_cipher_def flag_rules)
    then have "wpa_config_parse_cipher True t = Some (n_group_cipher n)"
      using parse_cipher_words [OF tabs_ok(3) sub(1) [OF v]] assms(4) by simp
    then show ?thesis
      using g t sub(2) [OF v] v
      by (auto simp: restores_def run_parser_def run_writer_def wpa_config_parse_group_def
          wpa_config_write_group_def wpa_config_write_cipher_def flag_rules)
  qed
qed

subsection \<open>Lists, passwords and keys\<close>

lemma fmt_u_dec: "0 < x \<Longrightarrow> x < 10 ^ 9 \<Longrightarrow> fmt_u x = dec (nat x)"
  by (simp add: fmt_u_def)

lemma freqs_loop_words:
  assumes "list_all (\<lambda>x. 0 < x \<and> x < 10 ^ 9) (x # xs)"
  shows "freqs_loop (\<lambda>_. True) k used len acc (dec (nat x) @ concat (map (\<lambda>y. SPACE # dec (nat y)) xs)) =
    Some (Some (acc @ x # xs))"
  using assms
proof (induction xs arbitrary: x k used len acc)
  case Nil
  let ?p = "dec (nat x)"
  obtain c cs where c: "?p = c # cs" "is_digit c" "list_all is_digit cs"
    using dec_ne [of "nat x"] dec_digits [of "nat x"] by (cases ?p) auto
  have d: "dropWhile (\<lambda>c. c = SPACE) ?p = ?p" "dropWhile (\<lambda>c. c \<noteq> SPACE) (tl ?p) = []"
    using c digit_class by (auto simp: dropWhile_eq_Nil_conv list_all_iff)
  have a: "atoi ?p = Some x" using atoi_dec [of "nat x" "[]"] Nil by simp
  show ?case using d a Nil by (subst freqs_loop.simps) (simp add: Let_def)
next
  case (Cons y ys)
  let ?r = "SPACE # dec (nat y) @ concat (map (\<lambda>y. SPACE # dec (nat y)) ys)"
  let ?p = "dec (nat x) @ ?r"
  obtain c cs where c: "dec (nat x) = c # cs" "is_digit c" "list_all is_digit cs"
    using dec_ne [of "nat x"] dec_digits [of "nat x"] by (cases "dec (nat x)") auto
  have d1: "dropWhile (\<lambda>c. c = SPACE) ?p = ?p" using c digit_class by auto
  have "dropWhile (\<lambda>c. c \<noteq> SPACE) (cs @ ?r) = dropWhile (\<lambda>c. c \<noteq> SPACE) ?r"
    by (rule dropWhile_append2) (use c(3) digit_class in \<open>auto simp: list_all_iff\<close>)
  then have d2: "dropWhile (\<lambda>c. c \<noteq> SPACE) (tl ?p) = ?r" using c(1) by simp
  have a: "atoi ?p = Some x" using atoi_dec [of "nat x" ?r] Cons.prems by (simp add: is_digit_def)
  obtain k' len' where kl: "(if used = len then (k + 1, 2 * len) else (k, len)) = (k', len')" by fastforce
  have "freqs_loop (\<lambda>_. True) k used len acc ?p = freqs_loop (\<lambda>_. True) k' (used + 1) len' (acc @ [x]) ?r"
    using d1 d2 a Cons.prems kl by (subst freqs_loop.simps) (simp add: Let_def)
  also have "\<dots> = freqs_loop (\<lambda>_. True) k' (used + 1) len' (acc @ [x]) (tl ?r)"
    by (subst (1 2) freqs_loop.simps) simp
  also have "\<dots> = Some (Some ((acc @ [x]) @ y # ys))"
    using Cons.IH [of y k' "used + 1" len' "acc @ [x]"] Cons.prems by simp
  finally show ?case by simp
qed

lemma freq_word: "0 < x \<Longrightarrow> x < 10 ^ 9 \<Longrightarrow> is_word (fmt_u x) \<and> length (fmt_u x) \<le> 9"
proof -
  assume x: "0 < x" "x < 10 ^ 9"
  have "list_all (\<lambda>c. \<not> is_sep c) (dec (nat x))"
    using dec_digits [of "nat x"] digit_class by (auto simp: list_all_iff is_sep_def)
  then show ?thesis
    using x length_dec [of "nat x" 9] dec_ne [of "nat x"] by (simp add: fmt_u_dec is_word_def)
qed

lemma write_freqs_eq:
  assumes "list_all (\<lambda>x. 0 < x \<and> x < 10 ^ 9) l"
  shows "wpa_config_write_freqs True (Some l) = Some (joined (map fmt_u l))"
proof -
  have "length (concat (map ((#) SPACE) (map fmt_u l))) \<le> 10 * length l"
    using assms
  proof (induction l)
    case (Cons x l)
    then show ?case using freq_word [of x] by simp
  qed simp
  then have "length (joined (map fmt_u l)) < 10 * length l + 1" using joined_le [of "map fmt_u l"] by linarith
  moreover have "list_all is_word (map fmt_u l)" using assms freq_word by (auto simp: list_all_iff)
  ultimately show ?thesis using put_words_joined by (simp add: wpa_config_write_freqs_def)
qed

lemma parse_freqs_written:
  assumes "list_all (\<lambda>x. 0 < x \<and> x < 10 ^ 9) l" "l \<noteq> []"
  shows "wpa_config_parse_freqs (\<lambda>_. True) (joined (map fmt_u l)) = Some (Some l)"
proof -
  obtain x xs where l: "l = x # xs" using assms(2) by (cases l) auto
  have m: "concat (map ((#) SPACE) (map fmt_u xs)) = concat (map (\<lambda>y. SPACE # dec (nat y)) xs)"
    using assms(1) unfolding l by (induction xs) (auto simp: fmt_u_dec)
  have "joined (map fmt_u l) = dec (nat x) @ concat (map (\<lambda>y. SPACE # dec (nat y)) xs)"
    using assms(1) m by (simp add: l joined_def fmt_u_dec)
  then show ?thesis
    using freqs_loop_words [of x xs 1 0 10 "[]"] assms(1) by (simp add: wpa_config_parse_freqs_def l)
qed

lemma restores_freqs:
  assumes "pd_parser d = Parse_scan_freq \<or> pd_parser d = Parse_freq_list" "field_ok ms d n"
    "run_writer True ms d n = Some (Some t)" "t \<noteq> []"
  shows "restores ms d m t"
proof -
  have *: "\<exists>l. f = Some l \<and> list_all (\<lambda>x. 0 < x \<and> x < 10 ^ 9) l \<and> t = joined (map fmt_u l) \<and>
      wpa_config_parse_freqs (\<lambda>_. True) t = Some (Some l) \<and> wpa_config_write_freqs True (Some l) = Some t"
    if f: "freqs_ok f" "wpa_config_write_freqs True f = Some t" for f
  proof -
    obtain l where l: "f = Some l" using f(2) by (cases f) (auto simp: wpa_config_write_freqs_def)
    then have o: "list_all (\<lambda>x. 0 < x \<and> x < 10 ^ 9) l" using f(1) by (simp add: freqs_ok_def)
    have t: "t = joined (map fmt_u l)" using write_freqs_eq [OF o] f(2) l by simp
    then have "l \<noteq> []" using assms(4) by (auto simp: joined_def)
    then show ?thesis using l o t parse_freqs_written [OF o] write_freqs_eq [OF o] by simp
  qed
  show ?thesis
    using assms *[of "n_scan_freq n"] *[of "n_freq_list n"]
    by (auto simp: restores_def run_parser_def run_writer_def field_ok_def wpa_config_parse_scan_freq_def
        wpa_config_write_scan_freq_def wpa_config_parse_freq_list_def wpa_config_write_freq_list_def)
qed

lemma method_ok_names:
  assumes "registry_ok ms" "method_ok ms p"
  shows "eap_get_name ms (fst p) (snd p) = Some (method_name ms p)" "is_word (method_name ms p)"
    "eap_peer_get_type ms (method_name ms p) = p"
proof -
  obtain m where m: "m \<in> set ms" "(em_vendor m, em_method m) = p" "is_word (em_name m)"
    using assms(2) by (auto simp: method_ok_def list_ex_iff)
  have "em_vendor m \<noteq> 0 \<or> em_method m \<noteq> EAP_TYPE_EXPANDED" using m(2) assms(2) by (auto simp: method_ok_def)
  then have "eap_get_name ms (fst p) (snd p) = Some (em_name m)"
    using get_name_registered [OF assms(1) m(1)] m(2) by auto
  then show "eap_get_name ms (fst p) (snd p) = Some (method_name ms p)" "is_word (method_name ms p)"
    "eap_peer_get_type ms (method_name ms p) = p"
    using m get_type_registered [OF assms(1) m(1)] by (simp_all add: method_name_def)
qed

lemma eap_loop_names:
  assumes "registry_ok ms" "list_all (method_ok ms) l"
  shows "\<exists>n'. eap_loop (\<lambda>_. True) ms k e acc n (map (method_name ms) l) = (Some (acc @ l, e), n')"
  using assms(2)
proof (induction l arbitrary: k acc n)
  case (Cons p l)
  have p: "eap_peer_get_type ms (method_name ms p) = p" "p \<noteq> (0, 0)"
    using method_ok_names [OF assms(1), of p] Cons.prems by (auto simp: method_ok_def)
  show ?case
    using p Cons.IH [of "k + 1" "acc @ [p]"] Cons.prems by (auto simp: Let_def)
qed simp

lemma write_eap_eq:
  assumes "registry_ok ms" "list_all (method_ok ms) l" "length (joined (map (method_name ms) l)) < 100"
    "n_eap_methods n = Some l"
  shows "wpa_config_write_eap True ms n = Some (joined (map (method_name ms) l))"
proof -
  have "takeWhile (\<lambda>m. m \<noteq> (EAP_VENDOR_IETF, EAP_TYPE_NONE)) l = l"
    using assms(2) by (auto simp: takeWhile_eq_all_conv list_all_iff method_ok_def)
  moreover have "List.map_filter (\<lambda>(v, m). eap_get_name ms v m) l = map (method_name ms) l"
    using assms(2) method_ok_names(1) [OF assms(1)] by (induction l) (auto simp: List.map_filter_simps split_beta)
  moreover have "list_all is_word (map (method_name ms) l)"
    using assms(2) method_ok_names(2) [OF assms(1)] by (auto simp: list_all_iff)
  ultimately show ?thesis
    using put_words_joined [of "map (method_name ms) l" 100] assms(3,4) by (simp add: wpa_config_write_eap_def del: takeWhile_eq_all_conv)
qed

lemma restores_eap:
  assumes "pd_parser d = Parse_eap" "field_ok ms d n" "run_writer True ms d n = Some (Some t)"
  shows "restores ms d m t"
proof -
  obtain l where l: "n_eap_methods n = Some l" using assms(1,3)
    by (cases "n_eap_methods n") (auto simp: run_writer_def wpa_config_write_eap_def)
  have ok: "registry_ok ms" "list_all (method_ok ms) l" "length (joined (map (method_name ms) l)) < 100"
    using assms(1,2) l by (simp_all add: field_ok_def)
  have t: "t = joined (map (method_name ms) l)"
    using write_eap_eq [OF ok l] assms(1,3) by (simp add: run_writer_def)
  have "list_all is_word (map (method_name ms) l)"
    using ok(2) method_ok_names(2) [OF ok(1)] by (auto simp: list_all_iff)
  then have tk: "tokens t = map (method_name ms) l" unfolding t by (rule tokens_joined)
  obtain m' where m': "eap_loop (\<lambda>_. True) ms 1 0 [] m (tokens t) = (Some (l, 0), m')"
    using eap_loop_names [OF ok(1,2), of 1 0 "[]" m] tk by auto
  have "run_parser (\<lambda>_. True) ms d m t = Some (0, m'\<lparr>n_eap_methods := Some l\<rparr>)"
    using assms(1) m' by (simp add: run_parser_def wpa_config_parse_eap_def)
  then show ?thesis
    by (rule restoresI) (use assms(1) write_eap_eq [OF ok, of "m'\<lparr>n_eap_methods := Some l\<rparr>"] t in
      \<open>simp add: run_writer_def\<close>)
qed

lemma not_hash_text:
  assumes "len \<le> length v" "wpa_config_write_string True (Some v) len = Some (Some t)"
  shows "take 5 t \<noteq> lit ''hash:''"
proof
  assume h: "take 5 t = lit ''hash:''"
  then have t0: "t \<noteq> []" "hd t = 104" by (auto simp: lit_def) (cases t; simp)
  let ?d = "take len v"
  have "t = (if list_ex (\<lambda>c. c < 32 \<or> 127 \<le> c) ?d then hex_text False ?d else QUOTE # ?d @ [QUOTE])"
    using write_string_eq [OF assms(1)] assms(2) by simp
  then have x: "t = hex_text False ?d" using t0(2) by (auto split: if_splits)
  then obtain b bs where "?d = b # bs" using t0(1) by (cases ?d) (auto simp: hex_text_def)
  moreover have "unat b div 16 < 16" using unsigned_less [where ?'a = nat, of b] by simp
  ultimately show False
    using x t0 unat_hex_digit [of "unat b div 16" False]
    by (auto simp: hex_text_def fmt02x_def word_unat_eq_iff split: if_splits)
qed

lemma flag0: "((x :: u32) AND NOT 1) AND 1 = 0" "((x :: u32) OR 1) AND 1 = 1"
  by (rule bit_word_eqI; auto simp: bit_simps)+

lemma write_password_plain:
  "n_password n = Some p \<Longrightarrow> n_eap_flags n = f AND NOT 1 \<Longrightarrow>
     wpa_config_write_password al n = wpa_config_write_string al (Some (p @ [0])) (n_password_len n)"
  by (simp only: wpa_config_write_password_def flag0 option.case if_True simp_thms)

lemma restores_password:
  assumes "pd_parser d = Parse_password" "field_ok ms d n" "run_writer True ms d n = Some (Some t)"
  shows "restores ms d m t"
proof -
  obtain p where p: "n_password n = Some p" using assms(1,3)
    by (cases "n_password n") (auto simp: run_writer_def wpa_config_write_password_def)
  have len: "n_password_len n = length p" using assms(1,2) p by (simp add: field_ok_def)
  show ?thesis
  proof (cases "n_eap_flags n AND 1 = 0")
    case True
    then have w: "wpa_config_write_string True (Some (p @ [0])) (length p) = Some (Some t)"
      using assms(1,3) p len by (simp add: run_writer_def wpa_config_write_password_def)
    note r = write_parse_string [OF _ w] not_hash_text [OF _ w]
    let ?m = "m\<lparr>n_password := Some p, n_password_len := length p, n_eap_flags := n_eap_flags m AND NOT 1\<rparr>"
    have "run_parser (\<lambda>_. True) ms d m t = Some (0, ?m)"
      using assms(1) r by (simp add: run_parser_def wpa_config_parse_password_def)
    then show ?thesis
      by (rule restoresI) (use assms(1) w write_password_plain [of ?m p "n_eap_flags m"] in \<open>simp add: run_writer_def\<close>)
  next
    case False
    then have l: "length p = 16" using assms(1,2) p by (simp add: field_ok_def)
    obtain b where "wpa_snprintf_hex_gen (replicate 33 0) 33 p (length p) False = Some (2 * length p, b)"
      "p \<noteq> [] \<longrightarrow> c_str b = hex_text False p"
      by (rule wpa_snprintf_hex_gen_fits [of p 33 "replicate 33 0" False]) (use l in simp_all)
    then have b: "wpa_snprintf_hex (replicate 33 0) 33 p 16 = Some (32, b)" "c_str b = hex_text False p"
      using l by (auto simp: wpa_snprintf_hex_def)
    have t: "t = lit ''hash:'' @ hex_text False p"
      using assms(1,3) p False b l by (simp add: run_writer_def wpa_config_write_password_def rd_bytes_def)
    obtain out where "hexstr2bin (hex_text False p) (replicate 16 0) 16 = Some (0, out)" "out = p"
      using hexstr2bin_hex_text [of p "replicate 16 0" False] l by auto
    then have "run_parser (\<lambda>_. True) ms d m t =
        Some (0, m\<lparr>n_password := Some p, n_password_len := 16, n_eap_flags := n_eap_flags m OR 1\<rparr>)"
      using assms(1) l by (simp add: run_parser_def wpa_config_parse_password_def t lit_def)
    moreover have "(n_eap_flags m OR 1) AND 1 \<noteq> 0" unfolding flag0(2) by simp
    then have "run_writer True ms d (m\<lparr>n_password := Some p, n_password_len := 16, n_eap_flags := n_eap_flags m OR 1\<rparr>) = Some (Some t)"
      using assms(1) b t l by (simp add: run_writer_def wpa_config_write_password_def rd_bytes_def del: and_one_eq)
    ultimately show ?thesis by (rule restoresI)
  qed
qed

lemma restores_wep:
  assumes "pd_parser d = Parse_wep_key i" "field_ok ms d n" "shape_ok n" "shape_ok m"
    "run_writer True ms d n = Some (Some t)"
  shows "restores ms d m t"
proof -
  let ?k = "n_wep_key n ! i" and ?len = "n_wep_key_len n ! i"
  have i: "i < 4" "?len \<le> 16" "length ?k = 16" "length (n_wep_key m ! i) = 16"
    using assms(1-4) by (auto simp: field_ok_def shape_ok_def list_all_iff)
  have w: "?len \<noteq> 0" "wpa_config_write_string True (Some ?k) ?len = Some (Some t)"
    using assms(1,5) by (auto simp: run_writer_def wpa_config_write_wep_key_def split: if_splits)
  let ?d = "take ?len ?k"
  note p = write_parse_string(1) [OF _ w(2)]
  let ?nk = "?d @ drop ?len (n_wep_key m ! i)"
  let ?m = "m\<lparr>n_wep_key_len := (n_wep_key_len m)[i := ?len], n_wep_key := (n_wep_key m)[i := ?nk]\<rparr>"
  have "run_parser (\<lambda>_. True) ms d m t = Some (0, ?m)"
    using assms(1) p i by (simp add: run_parser_def wpa_config_parse_wep_key_def wr_bytes_def Let_def)
  moreover have "run_writer True ms d ?m = Some (Some t)"
  proof -
    have tk: "take ?len ?nk = ?d" using i by simp
    have l: "?len \<le> length ?k" "?len \<le> length ?nk" using i by simp_all
    have "wpa_config_write_string True (Some ?nk) ?len = wpa_config_write_string True (Some ?k) ?len"
      unfolding write_string_eq [OF l(1)] write_string_eq [OF l(2)] tk ..
    then show ?thesis
      using assms(1,4) w i by (simp add: run_writer_def wpa_config_write_wep_key_def shape_ok_def)
  qed
  ultimately show ?thesis by (rule restoresI)
qed

text \<open>
  C14. Writing a network variable and reading it back restores it. What \<open>wpa_config_get\<close> returns for a
  variable of a valid network, \<open>wpa_config_set\<close> accepts it on any other network, and afterwards that network
  returns the same text. This covers all variables of the table: strings of arbitrary octets, numbers, MAC
  addresses, keys and pass phrases, sets of protocols and ciphers, frequency lists, EAP methods, password
  hashes and WEP keys.
\<close>

theorem wpa_config_get_set:
  assumes "find_field var = Some d" "field_ok ms d n" "shape_ok n" "shape_ok m"
    "wpa_config_get True ms n var = Some (Some t)" "t \<noteq> []"
  shows "\<exists>m'. wpa_config_set (\<lambda>_. True) ms m var (Some t) = Some (0, m') \<and>
    wpa_config_get True ms m' var = Some (Some t)"
proof -
  have w: "run_writer True ms d n = Some (Some t)" using assms(1,5) by (simp add: wpa_config_get_def)
  have "restores ms d m t"
  proof (cases "pd_parser d")
    case (Parse_str has_len lo hi)
    then show ?thesis by (intro restores_str [OF _ assms(2) w]) simp
  next
    case (Parse_int lo hi)
    then show ?thesis by (intro restores_int [OF _ assms(2) w]) simp
  next
    case Parse_bssid
    then show ?thesis by (intro restores_bssid [OF _ assms(3,4) w]) simp
  next
    case Parse_psk
    then show ?thesis by (intro restores_psk [OF _ assms(2,3,4) w]) simp
  next
    case Parse_proto
    then show ?thesis by (intro restores_flags [OF _ assms(2) w assms(6)]) simp
  next
    case Parse_key_mgmt
    then show ?thesis by (intro restores_flags [OF _ assms(2) w assms(6)]) simp
  next
    case Parse_pairwise
    then show ?thesis by (intro restores_cipher [OF _ assms(2) w assms(6)]) simp
  next
    case Parse_group
    then show ?thesis by (intro restores_cipher [OF _ assms(2) w assms(6)]) simp
  next
    case Parse_auth_alg
    then show ?thesis by (intro restores_flags [OF _ assms(2) w assms(6)]) simp
  next
    case Parse_scan_freq
    then show ?thesis by (intro restores_freqs [OF _ assms(2) w assms(6)]) simp
  next
    case Parse_freq_list
    then show ?thesis by (intro restores_freqs [OF _ assms(2) w assms(6)]) simp
  next
    case Parse_eap
    then show ?thesis by (intro restores_eap [OF _ assms(2) w]) simp
  next
    case Parse_password
    then show ?thesis by (intro restores_password [OF _ assms(2) w]) simp
  next
    case (Parse_wep_key i)
    then show ?thesis by (intro restores_wep [OF _ assms(2,3,4) w]) simp
  qed
  then show ?thesis using assms(1) by (auto simp: restores_def wpa_config_set_def wpa_config_get_def)
qed

text \<open>A network block as \<open>os_zalloc\<close> returns it.\<close>

definition zero_ssid :: wpa_ssid where
  "zero_ssid = \<lparr>n_id = 0, n_ssid = None, n_ssid_len = 0, n_str = (\<lambda>_. None), n_str_len = (\<lambda>_. 0), n_int = (\<lambda>_. 0),
     n_bssid = replicate 6 0, n_bssid_set = False, n_psk = replicate 32 0, n_psk_set = False, n_passphrase = None,
     n_pairwise_cipher = 0, n_group_cipher = 0, n_key_mgmt = 0, n_proto = 0, n_auth_alg = 0, n_scan_freq = None,
     n_freq_list = None, n_eap_methods = None, n_leap = 0, n_non_leap = 0, n_password = None, n_password_len = 0,
     n_eap_flags = 0, n_wep_key = replicate 4 (replicate 16 0), n_wep_key_len = replicate 4 0, n_temporary = False,
     n_export_keys = False\<rparr>"

lemma shape_ok_zero [simp]: "shape_ok zero_ssid"
  by (simp add: shape_ok_def zero_ssid_def list_all_iff)

definition ex_secret :: wpa_ssid where
  "ex_secret = zero_ssid\<lparr>n_ssid := Some [1, 2, 3], n_ssid_len := 3\<rparr>"

lemma wpa_config_get_set_witness:
  "\<exists>m'. wpa_config_set (\<lambda>_. True) [] zero_ssid ''ssid'' (Some (lit ''010203'')) = Some (0, m') \<and>
     wpa_config_get True [] m' ''ssid'' = Some (Some (lit ''010203''))"
proof -
  obtain d where d: "find_field ''ssid'' = Some d" "pd_name d = ''ssid''" "pd_parser d = Parse_str True 0 32"
    by (simp add: find_field_def ssid_fields_def)
  have "field_ok [] d ex_secret" using d by (simp add: field_ok_def ex_secret_def str_field_def len_field_def)
  moreover have "shape_ok ex_secret" by (simp add: shape_ok_def ex_secret_def zero_ssid_def list_all_iff)
  moreover have "wpa_config_get True [] ex_secret ''ssid'' = Some (Some (lit ''010203''))" by code_simp
  moreover have "lit ''010203'' \<noteq> []" by code_simp
  ultimately show ?thesis using wpa_config_get_set [OF d(1) _ _ shape_ok_zero] by blast
qed

section \<open>Safety of the parsers\<close>

definition numeric :: "parser \<Rightarrow> bool" where
  "numeric p = (case p of Parse_int lo hi \<Rightarrow> True | Parse_scan_freq \<Rightarrow> True | Parse_freq_list \<Rightarrow> True | _ \<Rightarrow> False)"

lemma shape_ok_upd [simp]:
  "shape_ok (set_str_field f h v l n) = shape_ok n" "shape_ok (n\<lparr>n_bssid_set := bs\<rparr>) = shape_ok n"
  "shape_ok (n\<lparr>n_psk_set := bs, n_passphrase := pp\<rparr>) = shape_ok n"
  "shape_ok (n\<lparr>n_proto := w\<rparr>) = shape_ok n" "shape_ok (n\<lparr>n_key_mgmt := w\<rparr>) = shape_ok n"
  "shape_ok (n\<lparr>n_auth_alg := w\<rparr>) = shape_ok n" "shape_ok (n\<lparr>n_pairwise_cipher := w\<rparr>) = shape_ok n"
  "shape_ok (n\<lparr>n_group_cipher := w\<rparr>) = shape_ok n" "shape_ok (n\<lparr>n_leap := i\<rparr>) = shape_ok n"
  "shape_ok (n\<lparr>n_non_leap := i\<rparr>) = shape_ok n" "shape_ok (n\<lparr>n_eap_methods := em\<rparr>) = shape_ok n"
  "shape_ok (n\<lparr>n_password := pw, n_password_len := k\<rparr>) = shape_ok n"
  "shape_ok (n\<lparr>n_password := pw, n_password_len := k, n_eap_flags := w\<rparr>) = shape_ok n"
  by (simp_all add: shape_ok_def set_str_field_def)

lemma eap_loop_shape: "eap_loop al ms k e acc n ws = (r, n') \<Longrightarrow> shape_ok n' = shape_ok n"
  by (induction ws arbitrary: k e acc n) (auto simp: Let_def split: if_splits)

definition safe :: "(int \<times> wpa_ssid) option \<Rightarrow> bool" where
  "safe r \<longleftrightarrow> succeeds r (\<lambda>(r, n). (r = 0 \<or> r = -1) \<and> shape_ok n)"

lemma safe_Some [simp]: "safe (Some (r, n)) \<longleftrightarrow> (r = 0 \<or> r = -1) \<and> shape_ok n"
  by (simp add: safe_def succeeds_def)

lemma parse_str_safe: "shape_ok n \<Longrightarrow> safe (wpa_config_parse_str al f h lo hi n v)"
  using parse_string_total [of al v] by (auto simp: wpa_config_parse_str_def split: option.split)

lemma parse_bssid_safe:
  assumes "shape_ok n"
  shows "safe (wpa_config_parse_bssid n v)"
proof -
  obtain r b where "hwaddr_aton v (n_bssid n) = Some (r, b)" "r = 0 \<or> r = -1" "length b = 6"
    using hwaddr_aton_spec [of "n_bssid n" "n_bssid n" v] assms by (auto simp: shape_ok_def)
  then show ?thesis using assms by (auto simp: wpa_config_parse_bssid_def shape_ok_def)
qed

lemma hexstr2bin_room: "hexstr2bin_loop i len hex buf = Some (0, out) \<Longrightarrow> i \<le> len \<Longrightarrow> 2 * i \<le> length hex \<Longrightarrow> 2 * len \<le> length hex"
proof (induction i len hex buf rule: hexstr2bin_loop.induct)
  case (1 i len hex buf)
  show ?case
  proof (cases "i < len")
    case True
    have "hexstr2bin_loop i len hex buf = Some (0, out)" by (rule 1(2))
    then obtain a b where a: "hex2byte hex (2 * i) = Some a" "\<not> a < 0" "wr_bytes buf i [word_of_int a] = Some b"
      "hexstr2bin_loop (i + 1) len hex b = Some (0, out)"
      using True by (subst (asm) hexstr2bin_loop.simps) (auto split: bind_splits if_splits)
    show ?thesis
      using 1(1) [OF True a(1-3) a(4)] True hex2byte_nonneg_bound [OF a(1)] a(2) by simp
  next
    case False
    then show ?thesis using 1(3,4) by simp
  qed
qed

lemma parse_psk_safe:
  assumes "shape_ok n"
  shows "safe (wpa_config_parse_psk al n v)"
proof (cases "v \<noteq> [] \<and> hd v = QUOTE")
  case True
  then obtain w where v: "v = QUOTE # w" by (cases v) auto
  define len where "len = (case strrchr w QUOTE of Some pos \<Rightarrow> pos | None \<Rightarrow> length w)"
  have "len \<le> length w" using strrchr_bound [of w QUOTE] by (auto simp: len_def split: option.split intro: less_imp_le)
  then show ?thesis
    using assms v by (simp add: wpa_config_parse_psk_def rds_def rd_def Let_def len_def [symmetric] rd_bytes_def)
next
  case False
  have c: "\<exists>c. rds v 0 = Some c \<and> c \<noteq> QUOTE" using False by (cases v) (auto simp: rds_def rd_def)
  have l: "length (n_psk n) = 32" using assms by (simp add: shape_ok_def)
  obtain r out where h: "hexstr2bin v (n_psk n) 32 = Some (r, out)" "length out = 32" "r = 0 \<or> r = -1"
    using hexstr2bin_total [of 32 "n_psk n" v] l by auto
  have "64 \<le> length v" if "r = 0"
    using hexstr2bin_room [of 0 32 v "n_psk n" out] h(1) that by (simp add: hexstr2bin_def)
  then have "r = 0 \<longrightarrow> (\<exists>e. rds v 64 = Some e)" by (auto simp: rds_cases)
  then show ?thesis using c h assms by (auto simp: wpa_config_parse_psk_def shape_ok_def)
qed

lemma parse_flags_safe:
  "shape_ok n \<Longrightarrow> (\<And>w. shape_ok (upd w n)) \<Longrightarrow> safe (Some (parse_flags al word upd n v))"
  by (simp add: parse_flags_def split: prod.split)

lemma parse_password_safe:
  assumes "shape_ok n"
  shows "safe (wpa_config_parse_password al n v)"
proof -
  obtain r out where "hexstr2bin (drop 5 v) (replicate 16 0) 16 = Some (r, out)"
    using hexstr2bin_total [of 16 "replicate 16 0" "drop 5 v"] by auto
  then show ?thesis
    using assms parse_string_total [of al v]
    by (auto simp: wpa_config_parse_password_def split: option.split)
qed

lemma list_all_update: "list_all P xs \<Longrightarrow> P v \<Longrightarrow> list_all P (xs[i := v])"
  using set_update_subset_insert [of xs i v] by (auto simp: list_all_iff)

lemma parse_wep_safe:
  assumes "shape_ok n" "i < 4"
  shows "safe (wpa_config_parse_wep_key al i n v)"
proof -
  obtain r l where p: "wpa_config_parse_string al v = Some (r, l)" using parse_string_total [of al v] by auto
  let ?n = "case l of None \<Rightarrow> n | Some l \<Rightarrow> n\<lparr>n_wep_key_len := (n_wep_key_len n)[i := l]\<rparr>"
  have n: "shape_ok ?n" "n_wep_key ?n = n_wep_key n" using assms by (auto simp: shape_ok_def split: option.split)
  have k: "length (n_wep_key n ! i) = 16" using assms by (simp add: shape_ok_def list_all_iff)
  show ?thesis
  proof (cases r)
    case None
    then show ?thesis using p n(1) by (simp add: wpa_config_parse_wep_key_def Let_def)
  next
    case (Some b)
    have u: "shape_ok (?n\<lparr>n_wep_key := (n_wep_key n)[i := key]\<rparr>)" if "length key = 16" for key
      using n(1) that list_all_update [of "\<lambda>k. length k = 16" "n_wep_key n" key i] n(2) by (simp add: shape_ok_def)
    show ?thesis
    proof (cases "16 < length b")
      case True
      then show ?thesis using p n(1) Some by (simp add: wpa_config_parse_wep_key_def Let_def)
    next
      case False
      then obtain key where "wr_bytes (n_wep_key n ! i) 0 b = Some key" "length key = 16"
        using k by (simp add: wr_bytes_def)
      then show ?thesis using p n(2) Some False u by (simp add: wpa_config_parse_wep_key_def Let_def)
    qed
  qed
qed

lemma wep_index: "d \<in> set ssid_fields \<Longrightarrow> pd_parser d = Parse_wep_key i \<Longrightarrow> i < 4"
  by (auto simp: ssid_fields_def)

lemma config_set_total:
  assumes "shape_ok n" "find_field var = Some d" "\<not> numeric (pd_parser d)"
  shows "succeeds (wpa_config_set al ms n var value) (\<lambda>(r, n'). (r = 0 \<or> r = -1) \<and> shape_ok n')"
proof -
  have d: "d \<in> set ssid_fields" using assms(2) by (auto simp: find_field_def find_Some_iff)
  have "safe (run_parser al ms d n v)" for v
    using assms(1,3) parse_str_safe parse_bssid_safe parse_psk_safe parse_password_safe
      parse_wep_safe [OF _ wep_index [OF d]] eap_loop_shape
    by (auto simp: run_parser_def numeric_def wpa_config_parse_proto_def wpa_config_parse_key_mgmt_def
        wpa_config_parse_auth_alg_def wpa_config_parse_pairwise_def wpa_config_parse_group_def
        wpa_config_parse_eap_def intro!: parse_flags_safe split: parser.splits option.splits prod.splits)
  then have s: "\<exists>r n'. run_parser al ms d n v = Some (r, n') \<and> (r = 0 \<or> r = -1) \<and> shape_ok n'" for v
    by (force simp: safe_def succeeds_def)
  show ?thesis
  proof (cases "value")
    case None
    then show ?thesis using assms(1) by (simp add: wpa_config_set_def succeeds_simps)
  next
    case (Some v)
    obtain r n' where "run_parser al ms d n v = Some (r, n')" "r = 0 \<or> r = -1" "shape_ok n'" using s by blast
    then show ?thesis using Some assms(2) by (simp add: wpa_config_set_def succeeds_simps)
  qed
qed

text \<open>
  No text makes the parser of a string, address, key, set or method variable leave its buffers: for every
  variable of the table except the numeric ones (where \<open>atoi\<close> of a number beyond the range of \<open>int\<close> is
  undefined), every text and every outcome of the allocations, \<open>wpa_config_set\<close> returns 0 or -1 and the fixed
  arrays keep their sizes.
\<close>

lemma wpa_config_set_safe:
  assumes "shape_ok n" "find_field var = Some d" "\<not> numeric (pd_parser d)"
  shows "succeeds (wpa_config_set al ms n var value) (\<lambda>(r, n'). (r = 0 \<or> r = -1) \<and> shape_ok n')"
  by (rule config_set_total [OF assms])

text \<open>
  C34. A refused WEP key damages the network: for every text of more than 16 characters \<open>wpa_config_set\<close> reports
  an error, but the length is already stored, so that writing the variable afterwards reads past the end of the
  key array.
\<close>

theorem refused_wep_key_overread:
  assumes "shape_ok n" "0 \<notin> set s" "16 < length s"
  shows "\<exists>n'. wpa_config_set (\<lambda>_. True) ms n ''wep_key3'' (Some (QUOTE # s @ [QUOTE])) = Some (-1, n') \<and>
    wpa_config_get True ms n' ''wep_key3'' = None"
proof -
  obtain d where d: "find_field ''wep_key3'' = Some d" "pd_parser d = Parse_wep_key 3"
    by (simp add: find_field_def ssid_fields_def)
  let ?n = "n\<lparr>n_wep_key_len := (n_wep_key_len n)[3 := length s]\<rparr>"
  have "length (n_wep_key n ! 3) = 16" "length (n_wep_key_len n) = 4" using assms(1) by (simp_all add: shape_ok_def list_all_iff)
  then have "wpa_config_write_wep_key True 3 ?n = None"
    using assms(3) by (auto simp: wpa_config_write_wep_key_def wpa_config_write_string_def is_hex_def rd_bytes_def)
  then show ?thesis
    using d assms parse_string_quoted [OF assms(2)]
    by (simp add: wpa_config_set_def run_parser_def wpa_config_parse_wep_key_def Let_def wpa_config_get_def run_writer_def)
qed

lemma refused_wep_key_overread_witness:
  "\<exists>n'. wpa_config_set (\<lambda>_. True) [] zero_ssid ''wep_key3'' (Some (QUOTE # replicate 17 65 @ [QUOTE])) = Some (-1, n') \<and>
     wpa_config_get True [] n' ''wep_key3'' = None"
  by (rule refused_wep_key_overread) simp_all

text \<open>
  The minimum 0 of a ranged number is never enforced, because a bound of 0 means \<open>no bound\<close>: every negative
  number of the C type is accepted for every variable declared with the range from 0.
\<close>

lemma int_range_zero_unchecked:
  assumes "v \<le> 0" "- (2 ^ 31) \<le> v"
  shows "\<forall>var \<in> {''scan_ssid'', ''mode'', ''proactive_key_caching'', ''disabled'', ''peerkey'', ''mixed_cell'', ''frequency''}.
    wpa_config_set al ms n var (Some (fmt_d v)) = Some (0, n\<lparr>n_int := (n_int n)(var := v)\<rparr>)"
proof -
  have a: "atoi (fmt_d v) = Some v" by (rule atoi_fmt_d) (use assms in simp_all)
  show ?thesis
    using a assms(1) by (simp add: wpa_config_set_def find_field_def ssid_fields_def run_parser_def wpa_config_parse_int_def)
qed

end
