(* ===== verification/Config_Networks.thy ===== *)
theory Config_Networks
  imports Config
begin

text \<open>
  The list of networks and the priority lists of src/wpa_supplicant/config.c: adding, finding and removing
  networks, default values, and the grouping of networks by priority that network selection walks through.

  A network is identified by its id, which stands for the pointer to its \<open>struct wpa_ssid\<close>; a priority list
  (the chain of \<open>pnext\<close> pointers that starts at an element of \<open>pssid\<close>) is the list of the ids on it. Reading
  the priority of a network that is not in the configuration is a use after free and faults.
\<close>

section \<open>Operations\<close>

definition net_priority :: "wpa_ssid \<Rightarrow> int" where
  "net_priority n = n_int n ''priority''"

definition wpa_config_get_network :: "wpa_config \<Rightarrow> int \<Rightarrow> wpa_ssid option" where
  "wpa_config_get_network c i = find (\<lambda>n. i = n_id n) (c_ssid c)"

text \<open>The priority of the first network of a priority list.\<close>

fun group_priority :: "wpa_config \<Rightarrow> int list \<Rightarrow> int option" where
  "group_priority c [] = None"
| "group_priority c (i # g) = map_option net_priority (wpa_config_get_network c i)"

fun join_group :: "wpa_config \<Rightarrow> wpa_ssid \<Rightarrow> int list list \<Rightarrow> int list list option option" where
  "join_group c n [] = Some None"
| "join_group c n (g # gs) = do {
     p \<leftarrow> group_priority c g;
     if p = net_priority n then Some (Some ((g @ [n_id n]) # gs))
     else do { r \<leftarrow> join_group c n gs; Some (map_option ((#) g) r) } }"

fun insert_group :: "wpa_config \<Rightarrow> wpa_ssid \<Rightarrow> int list list \<Rightarrow> int list list option" where
  "insert_group c n [] = Some [[n_id n]]"
| "insert_group c n (g # gs) = do {
     p \<leftarrow> group_priority c g;
     if p < net_priority n then Some ([n_id n] # g # gs)
     else do { r \<leftarrow> insert_group c n gs; Some (g # r) } }"

definition wpa_config_add_prio_network :: "bool \<Rightarrow> wpa_config \<Rightarrow> wpa_ssid \<Rightarrow> (int \<times> wpa_config) option" where
  "wpa_config_add_prio_network al c n = do {
     j \<leftarrow> join_group c n (c_pssid c);
     (case j of
        Some gs \<Rightarrow> Some (0, c\<lparr>c_pssid := gs\<rparr>)
      | None \<Rightarrow>
          if \<not> al then Some (-1, c)
          else do { gs \<leftarrow> insert_group c n (c_pssid c); Some (0, c\<lparr>c_pssid := gs\<rparr>) }) }"

fun prio_loop :: "(nat \<Rightarrow> bool) \<Rightarrow> nat \<Rightarrow> int \<Rightarrow> wpa_config \<Rightarrow> wpa_ssid list \<Rightarrow> (int \<times> wpa_config) option" where
  "prio_loop al k ret c [] = Some (ret, c)"
| "prio_loop al k ret c (n # ns) = do {
     (r, c) \<leftarrow> wpa_config_add_prio_network (al k) c n;
     prio_loop al (k + 1) (if r < 0 then -1 else ret) c ns }"

definition wpa_config_update_prio_list :: "(nat \<Rightarrow> bool) \<Rightarrow> wpa_config \<Rightarrow> (int \<times> wpa_config) option" where
  "wpa_config_update_prio_list al c = prio_loop al 0 0 (c\<lparr>c_pssid := []\<rparr>) (c_ssid c)"

text \<open>The largest id in use, \<open>-1\<close> if there is none.\<close>

fun max_id :: "int \<Rightarrow> wpa_ssid list \<Rightarrow> int" where
  "max_id i [] = i"
| "max_id i (n # ns) = max_id (if i < n_id n then n_id n else i) ns"

text \<open>\<open>id++\<close> at the largest \<open>int\<close> overflows: a fault. The result is the new network.\<close>

definition wpa_config_add_network :: "bool \<Rightarrow> (nat \<Rightarrow> bool) \<Rightarrow> wpa_config \<Rightarrow> (wpa_ssid option \<times> wpa_config) option" where
  "wpa_config_add_network al als c =
     (let i = max_id (-1) (c_ssid c) in
      if 2 ^ 31 \<le> i + 1 then None
      else if \<not> al then Some (None, c)
      else let n = zero_ssid\<lparr>n_id := i + 1\<rparr> in do {
        (_, c) \<leftarrow> wpa_config_update_prio_list als (c\<lparr>c_ssid := c_ssid c @ [n]\<rparr>);
        Some (Some n, c) })"

fun unlink_network :: "int \<Rightarrow> wpa_ssid list \<Rightarrow> wpa_ssid list option" where
  "unlink_network i [] = None"
| "unlink_network i (n # ns) = (if i = n_id n then Some ns else map_option ((#) n) (unlink_network i ns))"

definition wpa_config_remove_network :: "(nat \<Rightarrow> bool) \<Rightarrow> wpa_config \<Rightarrow> int \<Rightarrow> (int \<times> wpa_config) option" where
  "wpa_config_remove_network als c i = (case unlink_network i (c_ssid c) of
     None \<Rightarrow> Some (-1, c)
   | Some ns \<Rightarrow> do {
       (_, c) \<leftarrow> wpa_config_update_prio_list als (c\<lparr>c_ssid := ns\<rparr>);
       Some (0, c) })"

definition wpa_config_set_network_defaults :: "wpa_ssid \<Rightarrow> wpa_ssid" where
  "wpa_config_set_network_defaults n = n\<lparr>n_proto := 1 OR 2, n_pairwise_cipher := 16 OR 8,
     n_group_cipher := 16 OR 8 OR 4 OR 2, n_key_mgmt := 2 OR 1,
     n_int := (n_int n)(''eapol_flags'' := 3, ''eap_workaround'' := -1, ''fragment_size'' := 1398)\<rparr>"

text \<open>
  \<open>wpa_config_update_psk\<close>: the key derivation of src/src/crypto, given pass phrase, SSID and number of
  iterations, is an argument. It must not be called without pass phrase or SSID.
\<close>

definition wpa_config_update_psk :: "(bytes \<Rightarrow> bytes \<Rightarrow> nat \<Rightarrow> nat \<Rightarrow> bytes) \<Rightarrow> wpa_ssid \<Rightarrow> wpa_ssid option" where
  "wpa_config_update_psk pbkdf2_sha1 n = do {
     p \<leftarrow> n_passphrase n;
     s \<leftarrow> n_ssid n;
     d \<leftarrow> rd_bytes s 0 (n_ssid_len n);
     Some (n\<lparr>n_psk := pbkdf2_sha1 p d 4096 PMK_LEN, n_psk_set := True\<rparr>) }"

section \<open>The priority lists\<close>

text \<open>
  The reference: one list per priority in use, highest priority first, each with the networks of that priority
  in the order of the configuration.
\<close>

definition ids_of_prio :: "wpa_ssid list \<Rightarrow> int \<Rightarrow> int list" where
  "ids_of_prio ns p = map n_id (filter (\<lambda>n. net_priority n = p) ns)"

definition prio_groups :: "wpa_ssid list \<Rightarrow> int list list" where
  "prio_groups ns = map (ids_of_prio ns) (rev (sorted_list_of_set (net_priority ` set ns)))"

lemma find_id:
  assumes "distinct (map n_id ns)" "n \<in> set ns"
  shows "find (\<lambda>m. n_id n = n_id m) ns = Some n"
  using assms by (induction ns) (auto simp: image_iff)

lemma group_priority_ids:
  assumes "distinct (map n_id (c_ssid c))" "set seen \<subseteq> set (c_ssid c)" "p \<in> net_priority ` set seen"
  shows "group_priority c (ids_of_prio seen p) = Some p"
proof -
  obtain n ns where f: "filter (\<lambda>n. net_priority n = p) seen = n # ns"
    using assms(3) by (cases "filter (\<lambda>n. net_priority n = p) seen") (auto simp: filter_empty_conv)
  then have "n \<in> set (filter (\<lambda>n. net_priority n = p) seen)" by simp
  then have "n \<in> set (c_ssid c)" "net_priority n = p" using assms(2) by auto
  then show ?thesis using f assms(1) by (simp add: ids_of_prio_def wpa_config_get_network_def find_id)
qed

lemma ids_of_prio_snoc:
  "ids_of_prio (seen @ [n]) p = (if p = net_priority n then ids_of_prio seen p @ [n_id n] else ids_of_prio seen p)"
  by (simp add: ids_of_prio_def)

lemma ids_of_prio_none: "p \<notin> net_priority ` set seen \<Longrightarrow> ids_of_prio seen p = []"
  by (force simp: ids_of_prio_def filter_empty_conv)

lemma join_group_found:
  assumes "\<forall>p \<in> set ps. group_priority c (ids_of_prio seen p) = Some p" "distinct ps" "net_priority n \<in> set ps"
  shows "join_group c n (map (ids_of_prio seen) ps) = Some (Some (map (ids_of_prio (seen @ [n])) ps))"
  using assms
proof (induction ps)
  case (Cons p ps)
  have "map (ids_of_prio (seen @ [n])) ps = map (ids_of_prio seen) ps" if "p = net_priority n"
    using Cons.prems(2) that by (auto simp: ids_of_prio_snoc)
  then show ?case using Cons by (auto simp: ids_of_prio_snoc)
qed simp

lemma join_group_none:
  assumes "\<forall>p \<in> set ps. group_priority c (ids_of_prio seen p) = Some p" "net_priority n \<notin> set ps"
  shows "join_group c n (map (ids_of_prio seen) ps) = Some None"
  using assms by (induction ps) auto

lemma insert_group_place:
  assumes "\<forall>p \<in> set ps. group_priority c (ids_of_prio seen p) = Some p" "net_priority n \<notin> net_priority ` set seen"
    "sorted_wrt (>) ps" "set ps = net_priority ` set seen \<inter> R"
  shows "\<exists>qs. insert_group c n (map (ids_of_prio seen) ps) = Some (map (ids_of_prio (seen @ [n])) qs) \<and>
    sorted_wrt (>) qs \<and> set qs = insert (net_priority n) (set ps)"
  using assms
proof (induction ps arbitrary: R)
  case Nil
  have "ids_of_prio seen (net_priority n) = []" using Nil.prems(2) by (rule ids_of_prio_none)
  then show ?case by (intro exI [of _ "[net_priority n]"]) (simp add: ids_of_prio_snoc)
next
  case (Cons p ps)
  have neq: "p \<noteq> net_priority n" "net_priority n \<notin> set ps" using Cons.prems(2,4) by auto
  have e: "ids_of_prio seen (net_priority n) = []" using Cons.prems(2) by (rule ids_of_prio_none)
  have keep: "map (ids_of_prio (seen @ [n])) ps = map (ids_of_prio seen) ps" using neq(2) by (auto simp: ids_of_prio_snoc)
  show ?case
  proof (cases "p < net_priority n")
    case True
    then show ?thesis
      using Cons.prems(1,3) keep neq e
      by (intro exI [of _ "net_priority n # p # ps"]) (auto simp: ids_of_prio_snoc)
  next
    case False
    have "p \<notin> set ps" using Cons.prems(3) by auto
    then have "set ps = net_priority ` set seen \<inter> (R - {p})" using Cons.prems(4) by auto
    then obtain qs where q: "insert_group c n (map (ids_of_prio seen) ps) = Some (map (ids_of_prio (seen @ [n])) qs)"
        "sorted_wrt (>) qs" "set qs = insert (net_priority n) (set ps)"
      using Cons.IH [of "R - {p}"] Cons.prems by auto
    then show ?thesis
      using Cons.prems(1,3) False neq(1) by (intro exI [of _ "p # qs"]) (auto simp: ids_of_prio_snoc)
  qed
qed

text \<open>What holds of the priority lists after the networks \<open>seen\<close> have been added.\<close>

definition groups_for :: "wpa_ssid list \<Rightarrow> int list list \<Rightarrow> bool" where
  "groups_for seen gs \<longleftrightarrow>
     (\<exists>ps. sorted_wrt (>) ps \<and> set ps = net_priority ` set seen \<and> gs = map (ids_of_prio seen) ps)"

lemma groups_for_eq:
  assumes "groups_for ns gs"
  shows "gs = prio_groups ns"
proof -
  obtain ps where ps: "sorted_wrt (>) ps" "set ps = net_priority ` set ns" "gs = map (ids_of_prio ns) ps"
    using assms by (auto simp: groups_for_def)
  have "sorted_wrt (<) (rev ps)" using ps(1) by (simp add: sorted_wrt_rev)
  then have "sorted_list_of_set (set (rev ps)) = rev ps"
    by (intro sorted_list_of_set.idem_if_sorted_distinct) (auto simp: strict_sorted_iff)
  then show ?thesis using ps(2,3) by (simp add: prio_groups_def)
qed

lemma add_prio_network_groups:
  assumes "distinct (map n_id (c_ssid c))" "set seen \<subseteq> set (c_ssid c)" "groups_for seen (c_pssid c)"
  shows "\<exists>gs. wpa_config_add_prio_network True c n = Some (0, c\<lparr>c_pssid := gs\<rparr>) \<and> groups_for (seen @ [n]) gs"
proof -
  obtain ps where ps: "sorted_wrt (>) ps" "set ps = net_priority ` set seen" "c_pssid c = map (ids_of_prio seen) ps"
    using assms(3) by (auto simp: groups_for_def)
  have g: "\<forall>p \<in> set ps. group_priority c (ids_of_prio seen p) = Some p"
    using group_priority_ids [OF assms(1,2)] ps(2) by simp
  have d: "distinct ps" using ps(1) by (induction ps) auto
  show ?thesis
  proof (cases "net_priority n \<in> set ps")
    case True
    then have "wpa_config_add_prio_network True c n = Some (0, c\<lparr>c_pssid := map (ids_of_prio (seen @ [n])) ps\<rparr>)"
      using join_group_found [OF g d] ps(3) by (simp add: wpa_config_add_prio_network_def)
    moreover have "groups_for (seen @ [n]) (map (ids_of_prio (seen @ [n])) ps)"
      unfolding groups_for_def using ps True by (intro exI [of _ ps]) auto
    ultimately show ?thesis by blast
  next
    case False
    then obtain qs where "insert_group c n (c_pssid c) = Some (map (ids_of_prio (seen @ [n])) qs)"
        "sorted_wrt (>) qs" "set qs = insert (net_priority n) (set ps)"
      using insert_group_place [OF g _ ps(1), of n UNIV] ps(2,3) by auto
    moreover from this have "groups_for (seen @ [n]) (map (ids_of_prio (seen @ [n])) qs)"
      unfolding groups_for_def using ps(2) by (intro exI [of _ qs]) auto
    ultimately show ?thesis
      using join_group_none [OF g False] ps(3) by (auto simp: wpa_config_add_prio_network_def)
  qed
qed

lemma prio_loop_groups:
  assumes "distinct (map n_id (c_ssid c))" "c_ssid c = seen @ ns" "groups_for seen (c_pssid c)" "\<And>i. al i"
  shows "\<exists>gs. prio_loop al k 0 c ns = Some (0, c\<lparr>c_pssid := gs\<rparr>) \<and> groups_for (seen @ ns) gs"
  using assms(1,2,3)
proof (induction ns arbitrary: c seen k)
  case Nil
  then show ?case by (intro exI [of _ "c_pssid c"]) simp
next
  case (Cons n ns)
  obtain gs where g: "wpa_config_add_prio_network True c n = Some (0, c\<lparr>c_pssid := gs\<rparr>)" "groups_for (seen @ [n]) gs"
    using add_prio_network_groups [OF Cons.prems(1) _ Cons.prems(3)] Cons.prems(2) by auto
  show ?case
    using Cons.IH [of "c\<lparr>c_pssid := gs\<rparr>" "seen @ [n]" "k + 1"] Cons.prems(1,2) g assms(4) by simp
qed

lemma update_prio_list_eq:
  assumes "distinct (map n_id (c_ssid c))"
  shows "wpa_config_update_prio_list (\<lambda>_. True) c = Some (0, c\<lparr>c_pssid := prio_groups (c_ssid c)\<rparr>)"
proof -
  have "groups_for [] (c_pssid (c\<lparr>c_pssid := []\<rparr>))" by (simp add: groups_for_def)
  then obtain gs where "prio_loop (\<lambda>_. True) 0 0 (c\<lparr>c_pssid := []\<rparr>) (c_ssid c) = Some (0, c\<lparr>c_pssid := gs\<rparr>)"
      "groups_for (c_ssid c) gs"
    using prio_loop_groups [of "c\<lparr>c_pssid := []\<rparr>" "[]" "c_ssid c" "\<lambda>_. True" 0] assms by auto
  then show ?thesis using groups_for_eq by (auto simp: wpa_config_update_prio_list_def)
qed


text \<open>
  C35. Rebuilding the priority lists gives exactly the reference grouping: one list for each priority in use,
  highest priority first, each with the networks of that priority in the order of the configuration. So
  network selection, which walks the lists from the front, considers higher priorities first.
\<close>

theorem wpa_config_update_prio_list_groups:
  assumes "distinct (map n_id (c_ssid c))"
  shows "wpa_config_update_prio_list (\<lambda>_. True) c =
    Some (0, c\<lparr>c_pssid := map (\<lambda>p. map n_id (filter (\<lambda>n. n_int n ''priority'' = p) (c_ssid c)))
      (rev (sorted_list_of_set ((\<lambda>n. n_int n ''priority'') ` set (c_ssid c))))\<rparr>)"
  using update_prio_list_eq [OF assms] by (simp add: prio_groups_def ids_of_prio_def [abs_def] net_priority_def [abs_def])

definition empty_conf :: wpa_config where
  "empty_conf = \<lparr>c_ssid = [], c_ap_scan = 1, c_bss_max_count = 200, c_bss_expiration_age = 180,
     c_bss_expiration_scan_count = 2, c_home_realm = None, c_home_username = None, c_home_password = None,
     c_home_imsi = None, c_home_milenage = None, c_home_ca_cert = None, c_pssid = []\<rparr>"

definition ex_net :: "int \<Rightarrow> int \<Rightarrow> wpa_ssid" where
  "ex_net i p = zero_ssid\<lparr>n_id := i, n_int := (\<lambda>_. 0)(''priority'' := p)\<rparr>"

lemma ex_net_simps [simp]: "n_id (ex_net i p) = i" "n_int (ex_net i p) ''priority'' = p"
  by (simp_all add: ex_net_def)

lemma wpa_config_update_prio_list_groups_witness:
  "map_option (\<lambda>(r, c). (r, c_pssid c))
     (wpa_config_update_prio_list (\<lambda>_. True) (empty_conf\<lparr>c_ssid := [ex_net 0 1, ex_net 1 5, ex_net 2 1]\<rparr>)) =
   Some (0, [[1], [0, 2]])"
  using wpa_config_update_prio_list_groups [of "empty_conf\<lparr>c_ssid := [ex_net 0 1, ex_net 1 5, ex_net 2 1]\<rparr>"]
  by (simp add: sorted_list_of_set_insert insert_Diff_if)

section \<open>Adding and removing networks\<close>

text \<open>
  The invariant: ids are unique and not negative, and the priority lists hold only networks of the
  configuration and are not empty.
\<close>

definition good_groups :: "wpa_config \<Rightarrow> int list list \<Rightarrow> bool" where
  "good_groups c gs \<longleftrightarrow> (\<forall>g \<in> set gs. g \<noteq> [] \<and> set g \<subseteq> n_id ` set (c_ssid c))"

definition networks_ok :: "wpa_config \<Rightarrow> bool" where
  "networks_ok c \<longleftrightarrow> distinct (map n_id (c_ssid c)) \<and> (\<forall>n \<in> set (c_ssid c). 0 \<le> n_id n) \<and> good_groups c (c_pssid c)"

lemma group_priority_total: "g \<noteq> [] \<Longrightarrow> set g \<subseteq> n_id ` set (c_ssid c) \<Longrightarrow> \<exists>p. group_priority c g = Some p"
proof (cases g)
  case (Cons i g')
  moreover assume "set g \<subseteq> n_id ` set (c_ssid c)"
  ultimately have "find (\<lambda>n. i = n_id n) (c_ssid c) \<noteq> None" by (auto simp: find_None_iff)
  then show ?thesis using Cons by (auto simp: wpa_config_get_network_def)
qed simp

lemma good_groups_Cons [simp]:
  "good_groups c (g # gs) \<longleftrightarrow> g \<noteq> [] \<and> set g \<subseteq> n_id ` set (c_ssid c) \<and> good_groups c gs" "good_groups c []"
  by (auto simp: good_groups_def)

lemma join_group_total:
  assumes "good_groups c gs" "n \<in> set (c_ssid c)"
  shows "\<exists>r. join_group c n gs = Some r \<and> (\<forall>gs'. r = Some gs' \<longrightarrow> good_groups c gs')"
  using assms
proof (induction gs)
  case (Cons g gs)
  obtain p where "group_priority c g = Some p" using group_priority_total [of g c] Cons.prems(1) by auto
  moreover obtain r where "join_group c n gs = Some r" "\<forall>gs'. r = Some gs' \<longrightarrow> good_groups c gs'"
    using Cons by auto
  ultimately show ?case using Cons.prems by auto
qed simp

lemma insert_group_total:
  assumes "good_groups c gs" "n \<in> set (c_ssid c)"
  shows "\<exists>gs'. insert_group c n gs = Some gs' \<and> good_groups c gs'"
  using assms
proof (induction gs)
  case (Cons g gs)
  obtain p where "group_priority c g = Some p" using group_priority_total [of g c] Cons.prems(1) by auto
  then show ?case using Cons by auto
qed simp

lemma add_prio_network_total:
  assumes "good_groups c (c_pssid c)" "n \<in> set (c_ssid c)"
  shows "\<exists>r gs. wpa_config_add_prio_network al c n = Some (r, c\<lparr>c_pssid := gs\<rparr>) \<and> good_groups c gs"
proof -
  obtain j where j: "join_group c n (c_pssid c) = Some j" "\<forall>gs'. j = Some gs' \<longrightarrow> good_groups c gs'"
    using join_group_total [OF assms] by blast
  obtain gs where "insert_group c n (c_pssid c) = Some gs" "good_groups c gs" using insert_group_total [OF assms] by blast
  moreover have "c\<lparr>c_pssid := c_pssid c\<rparr> = c" by simp
  ultimately show ?thesis using j assms(1) by (cases j) (auto simp: wpa_config_add_prio_network_def intro: exI [of _ "c_pssid c"])
qed

lemma good_groups_upd [simp]: "good_groups (c\<lparr>c_pssid := gs\<rparr>) = good_groups c"
  by (rule ext) (simp add: good_groups_def)

lemma prio_loop_total:
  assumes "good_groups c (c_pssid c)" "set ns \<subseteq> set (c_ssid c)"
  shows "\<exists>r gs. prio_loop al k ret c ns = Some (r, c\<lparr>c_pssid := gs\<rparr>) \<and> good_groups c gs"
  using assms
proof (induction ns arbitrary: c k ret)
  case Nil
  then show ?case by (intro exI [of _ ret] exI [of _ "c_pssid c"]) simp
next
  case (Cons n ns)
  obtain r gs where g: "wpa_config_add_prio_network (al k) c n = Some (r, c\<lparr>c_pssid := gs\<rparr>)" "good_groups c gs"
    using add_prio_network_total [OF Cons.prems(1), of n "al k"] Cons.prems(2) by auto
  obtain r' gs' where "prio_loop al (k + 1) (if r < 0 then -1 else ret) (c\<lparr>c_pssid := gs\<rparr>) ns = Some (r', c\<lparr>c_pssid := gs'\<rparr>)"
      "good_groups c gs'"
    using Cons.IH [of "c\<lparr>c_pssid := gs\<rparr>" "k + 1" "if r < 0 then -1 else ret"] Cons.prems(2) g(2) by auto
  then show ?case using g(1) by (intro exI [of _ r'] exI [of _ gs']) simp
qed

lemma update_prio_list_total:
  "\<exists>r gs. wpa_config_update_prio_list al c = Some (r, c\<lparr>c_pssid := gs\<rparr>) \<and> good_groups c gs"
  using prio_loop_total [of "c\<lparr>c_pssid := []\<rparr>" "c_ssid c" al 0 0] by (simp add: wpa_config_update_prio_list_def)

lemma max_id_bound: "i \<le> max_id i ns \<and> (\<forall>n \<in> set ns. n_id n \<le> max_id i ns)"
proof (induction ns arbitrary: i)
  case (Cons n ns)
  show ?case using Cons [of "n_id n"] Cons [of i] by auto
qed simp

lemma unlink_None: "unlink_network i ns = None \<longleftrightarrow> find (\<lambda>n. i = n_id n) ns = None"
  by (induction ns) auto

lemma find_filter_id: "find (\<lambda>n. k = n_id n) (filter (\<lambda>n. n_id n \<noteq> i) ns) = (if k = i then None else find (\<lambda>n. k = n_id n) ns)"
  by (induction ns) auto

lemma find_snoc: "find P (xs @ [x]) = (case find P xs of Some y \<Rightarrow> Some y | None \<Rightarrow> if P x then Some x else None)"
  by (induction xs) auto

lemma unlink_distinct:
  "distinct (map n_id ns) \<Longrightarrow> unlink_network i ns = Some ns' \<Longrightarrow> ns' = filter (\<lambda>n. n_id n \<noteq> i) ns"
proof (induction ns arbitrary: ns')
  case (Cons n ns)
  have "filter (\<lambda>m. n_id m \<noteq> i) ns = ns" if "i = n_id n" using Cons.prems(1) that image_eqI [of _ n_id] by (fastforce simp: filter_id_conv)
  then show ?case using Cons by (auto split: if_splits)
qed simp

lemma add_network_spec:
  assumes "networks_ok c" "max_id (-1) (c_ssid c) < 2 ^ 31 - 1"
  shows "succeeds (wpa_config_add_network True als c) (\<lambda>(n, c'). networks_ok c' \<and>
      (\<exists>i. wpa_config_get_network c i = None \<and> n = Some (zero_ssid\<lparr>n_id := i\<rparr>) \<and>
        wpa_config_get_network c' = (wpa_config_get_network c)(i := n)))"
proof -
  have ids: "distinct (map n_id (c_ssid c))" and pos: "\<forall>n \<in> set (c_ssid c). 0 \<le> n_id n"
    using assms(1) by (simp_all add: networks_ok_def)
  let ?i = "max_id (-1) (c_ssid c) + 1"
  let ?n = "zero_ssid\<lparr>n_id := ?i\<rparr>"
  let ?c = "c\<lparr>c_ssid := c_ssid c @ [?n]\<rparr>"
  have b: "0 \<le> ?i" "\<forall>n \<in> set (c_ssid c). n_id n < ?i"
    using max_id_bound [of "-1" "c_ssid c"] by auto
  obtain r gs where u: "wpa_config_update_prio_list als ?c = Some (r, ?c\<lparr>c_pssid := gs\<rparr>)" "good_groups ?c gs"
    using update_prio_list_total [of als ?c] by blast
  have "wpa_config_get_network c ?i = None" using b(2) by (auto simp: wpa_config_get_network_def find_None_iff)
  moreover have "wpa_config_get_network (?c\<lparr>c_pssid := gs\<rparr>) = (wpa_config_get_network c)(?i := Some ?n)"
  proof
    fix k
    show "wpa_config_get_network (?c\<lparr>c_pssid := gs\<rparr>) k = ((wpa_config_get_network c)(?i := Some ?n)) k"
      using b(2) find_None_iff [of "\<lambda>n. k = n_id n" "c_ssid c"]
      by (auto simp: wpa_config_get_network_def find_snoc split: option.split)
  qed
  moreover have "networks_ok (?c\<lparr>c_pssid := gs\<rparr>)"
    using ids pos b u(2) by (fastforce simp: networks_ok_def good_groups_def)
  ultimately show ?thesis
    using u(1) assms(2) by (auto simp: wpa_config_add_network_def succeeds_simps Let_def)
qed

lemma remove_network_spec:
  assumes "networks_ok c"
  shows "succeeds (wpa_config_remove_network als c j) (\<lambda>(r, c'). networks_ok c' \<and>
      (r = 0 \<longleftrightarrow> wpa_config_get_network c j \<noteq> None) \<and>
      wpa_config_get_network c' = (wpa_config_get_network c)(j := None))"
proof (cases "unlink_network j (c_ssid c)")
  case None
  then show ?thesis
    using assms unlink_None [of j "c_ssid c"]
    by (auto simp: wpa_config_remove_network_def succeeds_simps wpa_config_get_network_def fun_eq_iff)
next
  case (Some ns)
  have ns: "ns = filter (\<lambda>n. n_id n \<noteq> j) (c_ssid c)" using unlink_distinct [OF _ Some] assms by (simp add: networks_ok_def)
  obtain r gs where u: "wpa_config_update_prio_list als (c\<lparr>c_ssid := ns\<rparr>) = Some (r, c\<lparr>c_ssid := ns, c_pssid := gs\<rparr>)"
      "good_groups (c\<lparr>c_ssid := ns\<rparr>) gs"
    using update_prio_list_total [of als "c\<lparr>c_ssid := ns\<rparr>"] by auto
  have "networks_ok (c\<lparr>c_ssid := ns, c_pssid := gs\<rparr>)"
    using assms u(2) by (auto simp: networks_ok_def good_groups_def ns distinct_map_filter)
  moreover have "wpa_config_get_network (c\<lparr>c_ssid := ns, c_pssid := gs\<rparr>) = (wpa_config_get_network c)(j := None)"
    by (rule ext) (simp add: wpa_config_get_network_def ns find_filter_id)
  moreover have "wpa_config_get_network c j \<noteq> None" using Some unlink_None [of j "c_ssid c"] by (auto simp: wpa_config_get_network_def)
  ultimately show ?thesis using Some u(1) by (auto simp: wpa_config_remove_network_def succeeds_simps)
qed

text \<open>
  C36. The configuration is a dictionary of networks. Adding a network gives an empty block under a fresh id and
  leaves every other lookup as it was; removing one makes exactly that id unknown, and reports an error if
  there is none. Whatever allocation fails while the priority lists are rebuilt, they never refer to a removed
  network.
\<close>

theorem wpa_config_networks_dictionary:
  assumes "networks_ok c" "max_id (-1) (c_ssid c) < 2 ^ 31 - 1"
  shows "succeeds (wpa_config_add_network True als c) (\<lambda>(n, c'). networks_ok c' \<and>
      (\<exists>i. wpa_config_get_network c i = None \<and> n = Some (zero_ssid\<lparr>n_id := i\<rparr>) \<and>
        wpa_config_get_network c' = (wpa_config_get_network c)(i := n))) \<and>
    succeeds (wpa_config_remove_network als c j) (\<lambda>(r, c'). networks_ok c' \<and>
      (r = 0 \<longleftrightarrow> wpa_config_get_network c j \<noteq> None) \<and>
      wpa_config_get_network c' = (wpa_config_get_network c)(j := None))"
  by (rule conjI [OF add_network_spec [OF assms] remove_network_spec [OF assms(1)]])

lemma wpa_config_networks_dictionary_witness:
  "succeeds (wpa_config_add_network True (\<lambda>_. False) (empty_conf\<lparr>c_ssid := [ex_net 0 1, ex_net 7 5]\<rparr>))
     (\<lambda>(n, c'). networks_ok c' \<and> map_option n_id n \<noteq> Some 7 \<and> wpa_config_get_network c' 7 = Some (ex_net 7 5))"
proof -
  let ?c = "empty_conf\<lparr>c_ssid := [ex_net 0 1, ex_net 7 5]\<rparr>"
  have "networks_ok ?c" by (simp add: networks_ok_def empty_conf_def)
  then have "succeeds (wpa_config_add_network True (\<lambda>_. False) ?c) (\<lambda>(n, c'). networks_ok c' \<and>
      (\<exists>i. wpa_config_get_network ?c i = None \<and> n = Some (zero_ssid\<lparr>n_id := i\<rparr>) \<and>
        wpa_config_get_network c' = (wpa_config_get_network ?c)(i := n)))"
    using wpa_config_networks_dictionary [of ?c "\<lambda>_. False" 0] by (simp add: empty_conf_def)
  then show ?thesis
  proof (rule succeeds_mono)
    fix x
    assume "case x of (n, c') \<Rightarrow> networks_ok c' \<and> (\<exists>i. wpa_config_get_network ?c i = None \<and>
      n = Some (zero_ssid\<lparr>n_id := i\<rparr>) \<and> wpa_config_get_network c' = (wpa_config_get_network ?c)(i := n))"
    then obtain n c' i where *: "x = (n, c')" "networks_ok c'" "wpa_config_get_network ?c i = None"
      "n = Some (zero_ssid\<lparr>n_id := i\<rparr>)" "wpa_config_get_network c' = (wpa_config_get_network ?c)(i := n)" by blast
    then have "i \<noteq> 7" by (auto simp: wpa_config_get_network_def)
    moreover from this have "wpa_config_get_network c' 7 = Some (ex_net 7 5)"
      unfolding *(5) by (simp add: wpa_config_get_network_def)
    ultimately show "case x of (n, c') \<Rightarrow> networks_ok c' \<and> map_option n_id n \<noteq> Some 7 \<and>
        wpa_config_get_network c' 7 = Some (ex_net 7 5)" using * by simp
  qed
qed

end
