(* ===== verification/Anqp.thy ===== *)
theory Anqp
  imports Common_Util Arbiter Nai_Realm
begin

text \<open>
  ANQP over GAS: the requests and the handling of responses of src/wpa_supplicant/interworking.c and
  src/wpa_supplicant/hs20_supplicant.c.

  A response is a sequence of elements, each with a 16-bit identifier and a 16-bit length; the contents are
  copied into the entry of the BSS table that belongs to the responder. The outcomes of the allocations are
  arguments; the copies of one response are numbered. Messages given out with \<open>wpa_msg\<close> go to the log
  \<open>messages\<close>.
\<close>

section \<open>Requests\<close>

abbreviation (input) ANQP_QUERY_LIST :: u16 where "ANQP_QUERY_LIST \<equiv> 256"
abbreviation (input) ANQP_CAPABILITY_LIST :: u16 where "ANQP_CAPABILITY_LIST \<equiv> 257"
abbreviation (input) ANQP_VENUE_NAME :: u16 where "ANQP_VENUE_NAME \<equiv> 258"
abbreviation (input) ANQP_NETWORK_AUTH_TYPE :: u16 where "ANQP_NETWORK_AUTH_TYPE \<equiv> 260"
abbreviation (input) ANQP_ROAMING_CONSORTIUM :: u16 where "ANQP_ROAMING_CONSORTIUM \<equiv> 261"
abbreviation (input) ANQP_IP_ADDR_TYPE_AVAILABILITY :: u16 where "ANQP_IP_ADDR_TYPE_AVAILABILITY \<equiv> 262"
abbreviation (input) ANQP_NAI_REALM :: u16 where "ANQP_NAI_REALM \<equiv> 263"
abbreviation (input) ANQP_3GPP_CELLULAR_NETWORK :: u16 where "ANQP_3GPP_CELLULAR_NETWORK \<equiv> 264"
abbreviation (input) ANQP_DOMAIN_NAME :: u16 where "ANQP_DOMAIN_NAME \<equiv> 268"
abbreviation (input) ANQP_VENDOR_SPECIFIC :: u16 where "ANQP_VENDOR_SPECIFIC \<equiv> 56797"
abbreviation (input) OUI_WFA :: u32 where "OUI_WFA \<equiv> 0x506f9a"
abbreviation (input) HS20_IE_VENDOR_TYPE :: u32 where "HS20_IE_VENDOR_TYPE \<equiv> 0x506f9a10"
abbreviation (input) HS20_INDICATION_OUI_TYPE :: u8 where "HS20_INDICATION_OUI_TYPE \<equiv> 16"
abbreviation (input) HS20_ANQP_OUI_TYPE :: u8 where "HS20_ANQP_OUI_TYPE \<equiv> 17"
abbreviation (input) HS20_STYPE_QUERY_LIST :: u8 where "HS20_STYPE_QUERY_LIST \<equiv> 1"
abbreviation (input) HS20_STYPE_CAPABILITY_LIST :: u8 where "HS20_STYPE_CAPABILITY_LIST \<equiv> 2"
abbreviation (input) HS20_STYPE_OPERATOR_FRIENDLY_NAME :: u8 where "HS20_STYPE_OPERATOR_FRIENDLY_NAME \<equiv> 3"
abbreviation (input) HS20_STYPE_WAN_METRICS :: u8 where "HS20_STYPE_WAN_METRICS \<equiv> 4"
abbreviation (input) HS20_STYPE_CONNECTION_CAPABILITY :: u8 where "HS20_STYPE_CONNECTION_CAPABILITY \<equiv> 5"
abbreviation (input) HS20_STYPE_NAI_HOME_REALM_QUERY :: u8 where "HS20_STYPE_NAI_HOME_REALM_QUERY \<equiv> 6"

fun put_ids :: "wpabuf \<Rightarrow> u16 list \<Rightarrow> wpabuf option" where
  "put_ids buf [] = Some buf"
| "put_ids buf (i # is) = do { buf \<leftarrow> wpabuf_put_le16 buf i; put_ids buf is }"

definition anqp_build_req :: "bool \<Rightarrow> u16 list \<Rightarrow> wpabuf option \<Rightarrow> wpabuf option option" where
  "anqp_build_req al info_ids extra = do {
     r \<leftarrow> gas_anqp_build_initial_req al 0
            (4 + 2 * length info_ids + (case extra of Some e \<Rightarrow> wpabuf_len e | None \<Rightarrow> 0));
     (case r of
        None \<Rightarrow> Some None
      | Some buf \<Rightarrow> do {
          (len_pos, buf) \<leftarrow> gas_anqp_add_element buf ANQP_QUERY_LIST;
          buf \<leftarrow> put_ids buf info_ids;
          buf \<leftarrow> gas_anqp_set_element_len buf len_pos;
          buf \<leftarrow> (case extra of Some e \<Rightarrow> wpabuf_put_buf buf e | None \<Rightarrow> Some buf);
          buf \<leftarrow> gas_anqp_set_len buf;
          Some (Some buf) }) }"

text \<open>The Hotspot 2.0 part of a query, in a buffer of 100 octets.\<close>

definition hs20_extra :: "bool \<Rightarrow> wpabuf option option" where
  "hs20_extra al = (case wpabuf_alloc al 100 of
     None \<Rightarrow> Some None
   | Some extra \<Rightarrow> do {
       (len_pos, extra) \<leftarrow> gas_anqp_add_element extra ANQP_VENDOR_SPECIFIC;
       extra \<leftarrow> wpabuf_put_be24 extra OUI_WFA;
       extra \<leftarrow> wpabuf_put_u8 extra HS20_ANQP_OUI_TYPE;
       extra \<leftarrow> wpabuf_put_u8 extra HS20_STYPE_QUERY_LIST;
       extra \<leftarrow> wpabuf_put_u8 extra HS20_STYPE_CAPABILITY_LIST;
       extra \<leftarrow> wpabuf_put_u8 extra HS20_STYPE_OPERATOR_FRIENDLY_NAME;
       extra \<leftarrow> wpabuf_put_u8 extra HS20_STYPE_WAN_METRICS;
       extra \<leftarrow> wpabuf_put_u8 extra HS20_STYPE_CONNECTION_CAPABILITY;
       extra \<leftarrow> gas_anqp_set_element_len extra len_pos;
       Some (Some extra) })"

text \<open>
  The outcomes of what sending a request allocates, and of the GAS layer. \<open>ae_query\<close> is the allocator of
  pending queries; it sees which addresses are in use.
\<close>

record anqp_env =
  ae_gas :: gas_env
  ae_query :: "(ptr \<Rightarrow> gas_query_pending option) \<Rightarrow> ptr option"
  ae_extra :: bool
  ae_req :: bool

definition alloc_query :: "anqp_env \<Rightarrow> wpa_supplicant \<Rightarrow> ptr option" where
  "alloc_query env s = (case gas s of None \<Rightarrow> None | Some g \<Rightarrow> ae_query env (gas_heap g))"

definition info_ids :: "u16 list" where
  "info_ids = [ANQP_VENUE_NAME, ANQP_NETWORK_AUTH_TYPE, ANQP_ROAMING_CONSORTIUM, ANQP_IP_ADDR_TYPE_AVAILABILITY,
     ANQP_NAI_REALM, ANQP_3GPP_CELLULAR_NETWORK, ANQP_DOMAIN_NAME]"

definition send_query ::
  "anqp_env \<Rightarrow> wpa_supplicant \<Rightarrow> bytes \<Rightarrow> int \<Rightarrow> wpabuf option \<Rightarrow> gas_cb \<Rightarrow> (int \<times> wpa_supplicant) option" where
  "send_query env s dst freq buf cb = (case buf of
     None \<Rightarrow> Some (-1, s)
   | Some b \<Rightarrow> do {
       (res, s) \<leftarrow> gas_query_req (alloc_query env s) (ae_gas env) s dst freq b cb;
       Some (if res < 0 then -1 else 0, s) })"

definition interworking_anqp_send_req ::
  "anqp_env \<Rightarrow> wpa_supplicant \<Rightarrow> wpa_bss \<Rightarrow> (int \<times> wpa_supplicant) option" where
  "interworking_anqp_send_req env s b = do {
     v \<leftarrow> wpa_bss_get_vendor_ie b HS20_IE_VENDOR_TYPE;
     extra \<leftarrow> (if v \<noteq> None then hs20_extra (ae_extra env) else Some None);
     if v \<noteq> None \<and> extra = None then Some (-1, s)
     else do {
       buf \<leftarrow> anqp_build_req (ae_req env) info_ids extra;
       send_query env s (b_bssid b) (b_freq b) buf CB_interworking_anqp_resp_cb } }"

text \<open>The channel of a peer: that of its BSS entry, if there is one, or the current one.\<close>

definition peer_freq :: "wpa_supplicant \<Rightarrow> bytes \<Rightarrow> int option" where
  "peer_freq s dst = do {
     p \<leftarrow> wpa_bss_get_bssid s dst;
     (case p of None \<Rightarrow> Some (assoc_freq s) | Some a \<Rightarrow> do { b \<leftarrow> deref s a; Some (b_freq b) }) }"

definition anqp_send_req ::
  "anqp_env \<Rightarrow> wpa_supplicant \<Rightarrow> bytes \<Rightarrow> u16 list \<Rightarrow> (int \<times> wpa_supplicant) option" where
  "anqp_send_req env s dst ids = do {
     freq \<leftarrow> peer_freq s dst;
     if freq \<le> 0 then Some (-1, s)
     else do {
       buf \<leftarrow> anqp_build_req (ae_req env) ids None;
       send_query env s dst freq buf CB_anqp_resp_cb } }"

subsection \<open>hs20\_supplicant.c\<close>

definition wpas_hs20_add_indication :: "wpabuf \<Rightarrow> wpabuf option" where
  "wpas_hs20_add_indication buf = do {
     buf \<leftarrow> wpabuf_put_u8 buf 221;
     buf \<leftarrow> wpabuf_put_u8 buf 5;
     buf \<leftarrow> wpabuf_put_be24 buf OUI_WFA;
     buf \<leftarrow> wpabuf_put_u8 buf HS20_INDICATION_OUI_TYPE;
     wpabuf_put_u8 buf 0 }"

text \<open>The loop over the bits of \<open>stypes\<close>, with \<open>n\<close> bits left from \<open>i\<close> on.\<close>

fun put_stypes :: "u32 \<Rightarrow> nat \<Rightarrow> nat \<Rightarrow> wpabuf \<Rightarrow> wpabuf option" where
  "put_stypes stypes i 0 buf = Some buf"
| "put_stypes stypes i (Suc n) buf = do {
     buf \<leftarrow> (if bit stypes i then wpabuf_put_u8 buf (word_of_nat i) else Some buf);
     put_stypes stypes (i + 1) n buf }"

definition hs20_build_anqp_req :: "bool \<Rightarrow> u32 \<Rightarrow> bytes option \<Rightarrow> nat \<Rightarrow> wpabuf option option" where
  "hs20_build_anqp_req al stypes payload payload_len = do {
     r \<leftarrow> gas_anqp_build_initial_req al 0 (100 + payload_len);
     (case r of
        None \<Rightarrow> Some None
      | Some buf \<Rightarrow> do {
          (len_pos, buf) \<leftarrow> gas_anqp_add_element buf ANQP_VENDOR_SPECIFIC;
          buf \<leftarrow> wpabuf_put_be24 buf OUI_WFA;
          buf \<leftarrow> wpabuf_put_u8 buf HS20_ANQP_OUI_TYPE;
          buf \<leftarrow> (if stypes = push_bit (unat HS20_STYPE_NAI_HOME_REALM_QUERY) 1 then do {
                    buf \<leftarrow> wpabuf_put_u8 buf HS20_STYPE_NAI_HOME_REALM_QUERY;
                    (case payload of
                       None \<Rightarrow> Some buf
                     | Some p \<Rightarrow> do { d \<leftarrow> rd_bytes p 0 payload_len; wpabuf_put_data buf (Some d) }) }
                  else do {
                    buf \<leftarrow> wpabuf_put_u8 buf HS20_STYPE_QUERY_LIST;
                    put_stypes stypes 0 32 buf });
          buf \<leftarrow> gas_anqp_set_element_len buf len_pos;
          buf \<leftarrow> gas_anqp_set_len buf;
          Some (Some buf) }) }"

definition hs20_anqp_send_req ::
  "anqp_env \<Rightarrow> wpa_supplicant \<Rightarrow> bytes \<Rightarrow> u32 \<Rightarrow> bytes option \<Rightarrow> nat \<Rightarrow> (int \<times> wpa_supplicant) option" where
  "hs20_anqp_send_req env s dst stypes payload payload_len = do {
     freq \<leftarrow> peer_freq s dst;
     if freq \<le> 0 then Some (-1, s)
     else do {
       buf \<leftarrow> hs20_build_anqp_req (ae_req env) stypes payload payload_len;
       send_query env s dst freq buf CB_anqp_resp_cb } }"

section \<open>Responses\<close>

definition wpa_msg :: "bytes \<Rightarrow> wpa_supplicant \<Rightarrow> wpa_supplicant" where
  "wpa_msg m s = s\<lparr>messages := messages s @ [m]\<rparr>"

text \<open>\<open>MAC2STR\<close> of six octets.\<close>

definition macstr :: "bytes \<Rightarrow> bytes option" where
  "macstr a = map_option mac2str (rd_bytes a 0 6)"

text \<open>One case of the switches: report the element and, if the BSS is known, replace the stored copy.\<close>

definition rx_report :: "string \<Rightarrow> wpa_supplicant \<Rightarrow> bytes \<Rightarrow> string \<Rightarrow> wpa_supplicant option" where
  "rx_report pre s sa what = do {
     m \<leftarrow> macstr sa;
     Some (wpa_msg (lit pre @ m @ lit what) s) }"

definition rx_store ::
  "bool \<Rightarrow> wpa_supplicant \<Rightarrow> ptr option \<Rightarrow> bytes \<Rightarrow> (wpabuf option \<Rightarrow> wpa_bss \<Rightarrow> wpa_bss) \<Rightarrow> wpa_supplicant option" where
  "rx_store al s p d upd = (case p of
     None \<Rightarrow> Some s
   | Some a \<Rightarrow> do {
       b \<leftarrow> deref s a;
       buf \<leftarrow> wpabuf_alloc_copy al d;
       Some (s\<lparr>bss_heap := (bss_heap s)(a \<mapsto> upd buf b)\<rparr>) })"

definition hs20_parse_rx_hs20_anqp_resp ::
  "bool \<Rightarrow> wpa_supplicant \<Rightarrow> bytes \<Rightarrow> bytes \<Rightarrow> wpa_supplicant option" where
  "hs20_parse_rx_hs20_anqp_resp al s sa d = do {
     p \<leftarrow> wpa_bss_get_bssid s sa;
     if length d < 1 then Some s
     else do {
       subtype \<leftarrow> rd d 0;
       let d = drop 1 d;
       if subtype = HS20_STYPE_CAPABILITY_LIST then rx_report ''RX-HS20-ANQP '' s sa '' HS Capability List''
       else if subtype = HS20_STYPE_OPERATOR_FRIENDLY_NAME then do {
         s \<leftarrow> rx_report ''RX-HS20-ANQP '' s sa '' Operator Friendly Name'';
         rx_store al s p d (\<lambda>v b. b\<lparr>hs20_operator_friendly_name := v\<rparr>) }
       else if subtype = HS20_STYPE_WAN_METRICS then do {
         s \<leftarrow> rx_report ''RX-HS20-ANQP '' s sa '' WAN Metrics'';
         rx_store al s p d (\<lambda>v b. b\<lparr>hs20_wan_metrics := v\<rparr>) }
       else if subtype = HS20_STYPE_CONNECTION_CAPABILITY then do {
         s \<leftarrow> rx_report ''RX-HS20-ANQP '' s sa '' Connection Capability'';
         rx_store al s p d (\<lambda>v b. b\<lparr>hs20_connection_capability := v\<rparr>) }
       else Some s } }"

definition interworking_parse_rx_anqp_resp ::
  "bool \<Rightarrow> wpa_supplicant \<Rightarrow> bytes \<Rightarrow> u16 \<Rightarrow> bytes \<Rightarrow> wpa_supplicant option" where
  "interworking_parse_rx_anqp_resp al s sa info_id d = do {
     p \<leftarrow> wpa_bss_get_bssid s sa;
     if info_id = ANQP_CAPABILITY_LIST then rx_report ''RX-ANQP '' s sa '' ANQP Capability list''
     else if info_id = ANQP_VENUE_NAME then do {
       s \<leftarrow> rx_report ''RX-ANQP '' s sa '' Venue Name'';
       rx_store al s p d (\<lambda>v b. b\<lparr>anqp_venue_name := v\<rparr>) }
     else if info_id = ANQP_NETWORK_AUTH_TYPE then do {
       s \<leftarrow> rx_report ''RX-ANQP '' s sa '' Network Authentication Type information'';
       rx_store al s p d (\<lambda>v b. b\<lparr>anqp_network_auth_type := v\<rparr>) }
     else if info_id = ANQP_ROAMING_CONSORTIUM then do {
       s \<leftarrow> rx_report ''RX-ANQP '' s sa '' Roaming Consortium list'';
       rx_store al s p d (\<lambda>v b. b\<lparr>anqp_roaming_consortium := v\<rparr>) }
     else if info_id = ANQP_IP_ADDR_TYPE_AVAILABILITY then do {
       s \<leftarrow> rx_report ''RX-ANQP '' s sa '' IP Address Type Availability information'';
       rx_store al s p d (\<lambda>v b. b\<lparr>anqp_ip_addr_type_availability := v\<rparr>) }
     else if info_id = ANQP_NAI_REALM then do {
       s \<leftarrow> rx_report ''RX-ANQP '' s sa '' NAI Realm list'';
       rx_store al s p d (\<lambda>v b. b\<lparr>anqp_nai_realm := v\<rparr>) }
     else if info_id = ANQP_3GPP_CELLULAR_NETWORK then do {
       s \<leftarrow> rx_report ''RX-ANQP '' s sa '' 3GPP Cellular Network information'';
       rx_store al s p d (\<lambda>v b. b\<lparr>anqp_3gpp := v\<rparr>) }
     else if info_id = ANQP_DOMAIN_NAME then do {
       s \<leftarrow> rx_report ''RX-ANQP '' s sa '' Domain Name list'';
       rx_store al s p d (\<lambda>v b. b\<lparr>anqp_domain_name := v\<rparr>) }
     else if info_id = ANQP_VENDOR_SPECIFIC then
       (if length d < 3 then Some s
        else do {
          oui \<leftarrow> rd_be24 d 0;
          if oui \<noteq> OUI_WFA then Some s
          else if length d < 4 then Some s
          else do {
            type \<leftarrow> rd d 3;
            if type = HS20_ANQP_OUI_TYPE then hs20_parse_rx_hs20_anqp_resp al s sa (drop 4 d) else Some s } })
     else Some s }"

text \<open>The loop over the elements of a response in \<open>mem\<close>, from \<open>pos\<close> to \<open>fin\<close>.\<close>

function rx_elements ::
  "(nat \<Rightarrow> bool) \<Rightarrow> nat \<Rightarrow> wpa_supplicant \<Rightarrow> bytes \<Rightarrow> bytes \<Rightarrow> nat \<Rightarrow> nat \<Rightarrow> wpa_supplicant option" where
  "rx_elements al k s sa mem pos fin =
     (if \<not> pos < fin then Some s
      else if fin < pos + 4 then Some s
      else do {
        info_id \<leftarrow> rd_le16 mem pos;
        slen \<leftarrow> rd_le16 mem (pos + 2);
        if fin < pos + 4 + unat slen then Some s
        else do {
          d \<leftarrow> rd_bytes mem (pos + 4) (unat slen);
          s \<leftarrow> interworking_parse_rx_anqp_resp (al k) s sa info_id d;
          rx_elements al (k + 1) s sa mem (pos + 4 + unat slen) fin } })"
  by pat_completeness auto
termination by (relation "measure (\<lambda>(al, k, s, sa, mem, pos, fin). fin - pos)") auto

declare rx_elements.simps [simp del]

text \<open>The last part dereferences the BSS entry without asking whether there is one.\<close>

definition anqp_resp_cb ::
  "(nat \<Rightarrow> bool) \<Rightarrow> wpa_supplicant \<Rightarrow> bytes \<Rightarrow> gas_query_result \<Rightarrow> wpabuf option \<Rightarrow> wpabuf option \<Rightarrow> wpa_supplicant option" where
  "anqp_resp_cb al s dst result adv_proto resp =
     (if result \<noteq> GAS_QUERY_SUCCESS then Some s
      else do {
        a \<leftarrow> adv_proto;
        ok \<leftarrow> (if wpabuf_len a < 4 then Some False
               else do {
                 e \<leftarrow> rd (wpabuf_head a) 0; l \<leftarrow> rd (wpabuf_head a) 1; i \<leftarrow> rd (wpabuf_head a) 3;
                 Some (e = WLAN_EID_ADV_PROTO \<and> 2 \<le> l \<and> i = ACCESS_NETWORK_QUERY_PROTOCOL) });
        if \<not> ok then Some s
        else do {
          r \<leftarrow> resp;
          s \<leftarrow> rx_elements al 0 s dst (wpabuf_head r) 0 (wpabuf_len r);
          p \<leftarrow> wpa_bss_get_bssid s dst;
          a \<leftarrow> p;
          b \<leftarrow> deref s a;
          let s = s\<lparr>bss_heap := (bss_heap s)(a \<mapsto> b\<lparr>b_fetched := True\<rparr>)\<rparr>;
          t \<leftarrow> ssid_str b;
          m \<leftarrow> macstr (b_bssid b);
          Some (arbiter_message (take 255 (lit ''ANQP Information Received for '' @ t @ lit ''('' @ m @ lit '')'')) s) } })"

section \<open>Layout of the requests\<close>

lemma put_ids_as_data: "put_ids b is = wb.put_all b (map put_le16 is)"
  by (induction "is" arbitrary: b) (auto simp: wpabuf_put_as_data)

lemma set_element_len_data:
  assumes "wpabuf_inv b" "wpabuf_data b = pre @ u @ body" "length u = 2" "len_pos = length pre"
  shows "\<exists>b'. gas_anqp_set_element_len b len_pos = Some b' \<and> wpabuf_inv b' \<and>
    wpabuf_data b' = pre @ put_le16 (word_of_nat (length body)) @ body \<and> wpabuf_tailroom b' = wpabuf_tailroom b"
proof -
  let ?l = "put_le16 (word_of_nat (wpabuf_len b - len_pos - 2))"
  have len: "wpabuf_len b = length pre + 2 + length body"
    using length_wpabuf_data [OF assms(1)] assms(2,3) by simp
  have "len_pos + length ?l \<le> wpabuf_len b" using len assms(4) by simp
  from wpabuf_store_spec [OF assms(1) this] obtain b' where
    b': "wpabuf_store b len_pos ?l = Some b'" "wpabuf_inv b'" "wpabuf_tailroom b' = wpabuf_tailroom b"
      "wpabuf_data b' = take len_pos (wpabuf_data b) @ ?l @ drop (len_pos + length ?l) (wpabuf_data b)"
    by blast
  have "wpabuf_data b' = pre @ put_le16 (word_of_nat (length body)) @ body"
    using b'(4) assms(2-4) len by simp
  then show ?thesis using b' by (simp add: gas_anqp_set_element_len_def)
qed

lemma add_element_data:
  assumes "wpabuf_inv b" "4 \<le> wpabuf_tailroom b"
  shows "\<exists>b' u. gas_anqp_add_element b i = Some (wpabuf_len b + 2, b') \<and> wpabuf_inv b' \<and> length u = 2 \<and>
    wpabuf_data b' = wpabuf_data b @ put_le16 i @ u \<and> wpabuf_tailroom b' = wpabuf_tailroom b - 4"
proof -
  obtain b1 where b1: "wpabuf_put_data b (Some (put_le16 i)) = Some b1" "wpabuf_inv b1"
      "wpabuf_data b1 = wpabuf_data b @ put_le16 i" "wpabuf_tailroom b1 = wpabuf_tailroom b - 2"
    using wb.put_fits [of b "put_le16 i"] assms by auto
  then have "2 \<le> wpabuf_tailroom b1" using assms(2) by simp
  from wpabuf_put_spec [OF b1(2) this] obtain b2 u where
    "wpabuf_put b1 2 = Some (wpabuf_len b1, b2)" "wpabuf_inv b2" "length u = 2" "wpabuf_data b2 = wpabuf_data b1 @ u"
    "wpabuf_tailroom b2 = wpabuf_tailroom b1 - 2" by blast
  moreover have "wpabuf_len b1 = wpabuf_len b + 2"
    using length_wpabuf_data [OF b1(2)] length_wpabuf_data [OF assms(1)] b1(3) by simp
  ultimately show ?thesis
    using b1 by (intro exI [of _ b2] exI [of _ u]) (simp add: gas_anqp_add_element_def wpabuf_put_as_data)
qed

text \<open>One complete element with the content put in by \<open>fill\<close>.\<close>

lemma element_data:
  assumes "wpabuf_inv b" "4 + length body \<le> wpabuf_tailroom b"
    "\<And>b1. wpabuf_inv b1 \<Longrightarrow> length body \<le> wpabuf_tailroom b1 \<Longrightarrow>
      \<exists>b2. fill b1 = Some b2 \<and> wpabuf_inv b2 \<and> wpabuf_data b2 = wpabuf_data b1 @ body \<and>
        wpabuf_tailroom b2 = wpabuf_tailroom b1 - length body"
  shows "\<exists>l b1 b2 b3. gas_anqp_add_element b i = Some (l, b1) \<and> fill b1 = Some b2 \<and>
    gas_anqp_set_element_len b2 l = Some b3 \<and> wpabuf_inv b3 \<and>
    wpabuf_data b3 = wpabuf_data b @ put_le16 i @ put_le16 (word_of_nat (length body)) @ body \<and>
    wpabuf_tailroom b3 = wpabuf_tailroom b - (4 + length body)"
proof -
  obtain b1 u where b1: "gas_anqp_add_element b i = Some (wpabuf_len b + 2, b1)" "wpabuf_inv b1" "length u = 2"
      "wpabuf_data b1 = wpabuf_data b @ put_le16 i @ u" "wpabuf_tailroom b1 = wpabuf_tailroom b - 4"
    using add_element_data [OF assms(1)] assms(2) by (metis add_leD1)
  obtain b2 where b2: "fill b1 = Some b2" "wpabuf_inv b2" "wpabuf_data b2 = wpabuf_data b1 @ body"
      "wpabuf_tailroom b2 = wpabuf_tailroom b1 - length body"
    using assms(3) [OF b1(2)] b1(5) assms(2) by (metis le_diff_conv2 add_leD1 add.commute)
  have d: "wpabuf_data b2 = (wpabuf_data b @ put_le16 i) @ u @ body" using b2(3) b1(4) by simp
  have "wpabuf_len b + 2 = length (wpabuf_data b @ put_le16 i)" using length_wpabuf_data [OF assms(1)] by simp
  from set_element_len_data [OF b2(2) d b1(3) this] show ?thesis using b1 b2 by auto
qed

lemma initial_req_data:
  "\<exists>b u. gas_anqp_build_initial_req True 0 sz = Some (Some b) \<and> wpabuf_inv b \<and> length u = 2 \<and>
    wpabuf_data b = [4, 10, 0, 108, 2, 0, 0] @ u \<and> sz + 95 = wpabuf_tailroom b"
proof -
  obtain b0 where b0: "gas_build_req True 10 0 (4 + sz) = Some (Some b0)" "wpabuf_inv b0"
      "wpabuf_data b0 = [4, 10, 0]" "wpabuf_tailroom b0 = 97 + (4 + sz)"
    using gas_build_req_data by blast
  from gas_anqp_open_data [OF b0(2), of 0] show ?thesis
    using b0 by (auto simp: gas_anqp_build_initial_req_def gas_build_initial_req_def)
qed

lemma anqp_build_req_data:
  fixes ids :: "u16 list"
  assumes "case extra of None \<Rightarrow> True | Some e \<Rightarrow> wpabuf_inv e"
  defines "x \<equiv> (case extra of None \<Rightarrow> [] | Some e \<Rightarrow> wpabuf_data e)"
  defines "q \<equiv> put_le16 256 @ put_le16 (word_of_nat (2 * length ids)) @ concat (map put_le16 ids) @ x"
  shows "\<exists>b. anqp_build_req True ids extra = Some (Some b) \<and> wpabuf_inv b \<and>
    wpabuf_data b = [4, 10, 0, 108, 2, 0, 0] @ put_le16 (word_of_nat (length q)) @ q"
proof -
  let ?sz = "4 + 2 * length ids + (case extra of Some e \<Rightarrow> wpabuf_len e | None \<Rightarrow> 0)"
  have x: "length x = (case extra of Some e \<Rightarrow> wpabuf_len e | None \<Rightarrow> 0)"
    using assms(1) by (auto simp: x_def length_wpabuf_data split: option.splits)
  obtain b u where b: "gas_anqp_build_initial_req True 0 ?sz = Some (Some b)" "wpabuf_inv b" "length u = 2"
      "wpabuf_data b = [4, 10, 0, 108, 2, 0, 0] @ u" "?sz + 95 = wpabuf_tailroom b"
    using initial_req_data by metis
  have s: "sum_list (map length (map put_le16 ids)) = 2 * length ids" by (induction ids) simp_all
  have c: "length (concat (map put_le16 ids)) = 2 * length ids" by (induction ids) simp_all
  have fill: "\<exists>b2. put_ids b1 ids = Some b2 \<and> wpabuf_inv b2 \<and> wpabuf_data b2 = wpabuf_data b1 @ concat (map put_le16 ids) \<and>
      wpabuf_tailroom b2 = wpabuf_tailroom b1 - length (concat (map put_le16 ids))"
    if "wpabuf_inv b1" "length (concat (map put_le16 ids)) \<le> wpabuf_tailroom b1" for b1
    using wb.put_all_fits [of b1 "map put_le16 ids", unfolded s] that by (simp add: put_ids_as_data c)
  have "4 + length (concat (map put_le16 ids)) \<le> wpabuf_tailroom b" using b(5) by (simp add: c)
  from element_data [OF b(2) this, of "\<lambda>b. put_ids b ids" 256, OF fill] obtain l b1 b2 b3 where
    e: "gas_anqp_add_element b 256 = Some (l, b1)" "put_ids b1 ids = Some b2" "gas_anqp_set_element_len b2 l = Some b3"
      "wpabuf_inv b3" "wpabuf_data b3 = wpabuf_data b @ put_le16 256 @ put_le16 (word_of_nat (2 * length ids)) @ concat (map put_le16 ids)"
      "wpabuf_tailroom b3 = wpabuf_tailroom b - (4 + 2 * length ids)" by (auto simp: c)
  have "length x \<le> wpabuf_tailroom b3" using e(6) b(5) x by simp
  then obtain b4 where b4: "wpabuf_put_data b3 (Some x) = Some b4" "wpabuf_inv b4" "wpabuf_data b4 = wpabuf_data b3 @ x"
    using wb.put_fits [OF e(4)] by blast
  obtain b4' where b4': "(case extra of Some e \<Rightarrow> wpabuf_put_buf b3 e | None \<Rightarrow> Some b3) = Some b4'" "wpabuf_inv b4'"
      "wpabuf_data b4' = wpabuf_data b3 @ x"
    using b4 e(4) assms(1) wpabuf_put_buf_as_data by (cases extra) (auto simp: x_def)
  have "wpabuf_data b4' = [4, 10, 0, 108, 2, 0, 0] @ u @ q" using b4'(3) e(5) b(4) by (simp add: q_def)
  then obtain b5 where "gas_anqp_set_len b4' = Some b5" "wpabuf_inv b5"
      "wpabuf_data b5 = [4, 10, 0, 108, 2, 0, 0] @ put_le16 (word_of_nat (length q)) @ q"
    using gas_anqp_set_len_data [OF b4'(2) _ b(3), of "[4, 10, 0, 108, 2, 0, 0]" q 10] by auto
  then show ?thesis using b(1) e(1-3) b4'(1) by (simp add: anqp_build_req_def)
qed

section \<open>Handling of responses\<close>

text \<open>
  \<open>core\<close> blanks what responses may change of a BSS entry. \<open>rx_frame s s'\<close>: from \<open>s\<close> to \<open>s'\<close> only messages and
  those parts have changed, all stored buffers are still well formed and no entry is unmarked as fetched.
\<close>

definition core :: "wpa_bss \<Rightarrow> wpa_bss" where
  "core b = b\<lparr>b_fetched := False, anqp_venue_name := None, anqp_network_auth_type := None, anqp_roaming_consortium := None,
     anqp_ip_addr_type_availability := None, anqp_nai_realm := None, anqp_3gpp := None, anqp_domain_name := None,
     hs20_operator_friendly_name := None, hs20_wan_metrics := None, hs20_connection_capability := None\<rparr>"

definition heap_ok :: "wpa_supplicant \<Rightarrow> bool" where
  "heap_ok s \<longleftrightarrow> (\<forall>a b. bss_heap s a = Some b \<longrightarrow> anqp_ok b)"

definition rx_frame :: "wpa_supplicant \<Rightarrow> wpa_supplicant \<Rightarrow> bool" where
  "rx_frame s s' \<longleftrightarrow> s' = s\<lparr>bss_heap := bss_heap s', messages := messages s'\<rparr> \<and>
     (\<forall>a. map_option core (bss_heap s' a) = map_option core (bss_heap s a)) \<and> (heap_ok s \<longrightarrow> heap_ok s') \<and>
     (\<forall>a b b'. bss_heap s a = Some b \<longrightarrow> bss_heap s' a = Some b' \<longrightarrow> b_fetched b \<longrightarrow> b_fetched b')"

lemma core_fields:
  assumes "core b = core b'"
  shows "b_bssid b = b_bssid b'" "b_ssid b = b_ssid b'" "b_ies b = b_ies b'" "b_ie_len b = b_ie_len b'"
    "b_flags b = b_flags b'" "b_caps b = b_caps b'" "b_freq b = b_freq b'" "b_ssid_len b = b_ssid_len b'"
    "b_beacon_ie_len b = b_beacon_ie_len b'" "bss_wf b = bss_wf b'"
  using arg_cong [OF assms, of b_bssid] arg_cong [OF assms, of b_ssid] arg_cong [OF assms, of b_ies]
    arg_cong [OF assms, of b_ie_len] arg_cong [OF assms, of b_flags] arg_cong [OF assms, of b_caps]
    arg_cong [OF assms, of b_freq] arg_cong [OF assms, of b_ssid_len] arg_cong [OF assms, of b_beacon_ie_len]
  by (simp_all add: core_def bss_wf_def)

lemma core_upd [simp]:
  "core (b\<lparr>b_fetched := f\<rparr>) = core b" "core (b\<lparr>anqp_venue_name := v\<rparr>) = core b"
  "core (b\<lparr>anqp_network_auth_type := v\<rparr>) = core b" "core (b\<lparr>anqp_roaming_consortium := v\<rparr>) = core b"
  "core (b\<lparr>anqp_ip_addr_type_availability := v\<rparr>) = core b" "core (b\<lparr>anqp_nai_realm := v\<rparr>) = core b"
  "core (b\<lparr>anqp_3gpp := v\<rparr>) = core b" "core (b\<lparr>anqp_domain_name := v\<rparr>) = core b"
  "core (b\<lparr>hs20_operator_friendly_name := v\<rparr>) = core b" "core (b\<lparr>hs20_wan_metrics := v\<rparr>) = core b"
  "core (b\<lparr>hs20_connection_capability := v\<rparr>) = core b"
  by (simp_all add: core_def)

lemma rx_frame_refl [simp]: "rx_frame s s"
  by (simp add: rx_frame_def)

lemma rx_frame_sel:
  assumes "rx_frame s s'"
  shows "bss s' = bss s" "gas s' = gas s" "conf s' = conf s" "arb s' = arb s" "eloop s' = eloop s"
    "bssid_filter s' = bssid_filter s" "fetch_anqp_in_progress s' = fetch_anqp_in_progress s"
    "network_select s' = network_select s" "auto_select s' = auto_select s" "tx_log s' = tx_log s"
    "wpa_s_ptr s' = wpa_s_ptr s"
proof -
  have e: "s' = s\<lparr>bss_heap := bss_heap s', messages := messages s'\<rparr>" using assms by (simp add: rx_frame_def)
  show "bss s' = bss s" "gas s' = gas s" "conf s' = conf s" "arb s' = arb s" "eloop s' = eloop s"
    "bssid_filter s' = bssid_filter s" "fetch_anqp_in_progress s' = fetch_anqp_in_progress s"
    "network_select s' = network_select s" "auto_select s' = auto_select s" "tx_log s' = tx_log s"
    "wpa_s_ptr s' = wpa_s_ptr s"
    by (subst e, simp)+
qed

lemma rx_frame_bss:
  assumes "rx_frame s s'"
  shows "bss_heap s' a = None \<longleftrightarrow> bss_heap s a = None"
    and "bss_heap s' a = Some b' \<Longrightarrow> \<exists>b. bss_heap s a = Some b \<and> core b = core b'"
    and "bss_heap s a = Some b \<Longrightarrow> \<exists>b'. bss_heap s' a = Some b' \<and> core b' = core b"
proof -
  have e: "map_option core (bss_heap s' a) = map_option core (bss_heap s a)" using assms by (simp add: rx_frame_def)
  show "bss_heap s' a = None \<longleftrightarrow> bss_heap s a = None" using e by (metis map_option_is_None)
  show "bss_heap s' a = Some b' \<Longrightarrow> \<exists>b. bss_heap s a = Some b \<and> core b = core b'"
    using e by (cases "bss_heap s a") auto
  show "bss_heap s a = Some b \<Longrightarrow> \<exists>b'. bss_heap s' a = Some b' \<and> core b' = core b"
    using e by (cases "bss_heap s' a") auto
qed

lemma rx_frame_trans [trans]:
  assumes "rx_frame s s1" "rx_frame s1 s2"
  shows "rx_frame s s2"
proof -
  have "s2 = s1\<lparr>bss_heap := bss_heap s2, messages := messages s2\<rparr>" using assms(2) by (simp add: rx_frame_def)
  moreover have "s1 = s\<lparr>bss_heap := bss_heap s1, messages := messages s1\<rparr>" using assms(1) by (simp add: rx_frame_def)
  ultimately have "s2 = s\<lparr>bss_heap := bss_heap s1, messages := messages s1, bss_heap := bss_heap s2, messages := messages s2\<rparr>"
    by simp
  moreover have "b_fetched b2" if h: "bss_heap s a = Some b" "bss_heap s2 a = Some b2" "b_fetched b" for a b b2
  proof -
    obtain b1 where "bss_heap s1 a = Some b1" using rx_frame_bss(3) [OF assms(1) h(1)] by blast
    then show ?thesis using assms h unfolding rx_frame_def by blast
  qed
  ultimately show ?thesis using assms by (simp add: rx_frame_def)
qed

text \<open>
  \<open>quiet s s'\<close>: the BSS table, the configuration and the arbiter are the same, up to what has been fetched and
  the flags of the entries.
\<close>

definition static :: "wpa_bss \<Rightarrow> wpa_bss" where
  "static b = (core b)\<lparr>b_flags := 0\<rparr>"

definition quiet :: "wpa_supplicant \<Rightarrow> wpa_supplicant \<Rightarrow> bool" where
  "quiet s s' \<longleftrightarrow> (\<forall>a. map_option static (bss_heap s' a) = map_option static (bss_heap s a)) \<and> (heap_ok s \<longrightarrow> heap_ok s') \<and>
     bss s' = bss s \<and> bss_id s' = bss_id s \<and> num_bss s' = num_bss s \<and> cur_bssid s' = cur_bssid s \<and>
     pending_bssid s' = pending_bssid s \<and> bssid_filter s' = bssid_filter s \<and> conf s' = conf s \<and> arb s' = arb s"

lemma quiet_refl [simp]: "quiet s s"
  by (simp add: quiet_def)

lemma quiet_trans [trans]: "quiet s s1 \<Longrightarrow> quiet s1 s2 \<Longrightarrow> quiet s s2"
  by (simp add: quiet_def)

lemma static_fields:
  assumes "static b = static b'"
  shows "b_bssid b = b_bssid b'" "b_ssid b = b_ssid b'" "b_ies b = b_ies b'" "b_ie_len b = b_ie_len b'"
    "b_caps b = b_caps b'" "bss_wf b = bss_wf b'"
  using arg_cong [OF assms, of b_bssid] arg_cong [OF assms, of b_ssid] arg_cong [OF assms, of b_ies]
    arg_cong [OF assms, of b_ie_len] arg_cong [OF assms, of b_caps] arg_cong [OF assms, of b_ssid_len]
    arg_cong [OF assms, of b_beacon_ie_len]
  by (simp_all add: static_def core_def bss_wf_def)

lemma static_core: "core b = core b' \<Longrightarrow> static b = static b'"
  by (simp add: static_def)

lemma static_flags [simp]: "static (b\<lparr>b_flags := f\<rparr>) = static b"
  by (simp add: static_def core_def)

lemma rx_quiet:
  assumes "rx_frame s s'"
  shows "quiet s s'"
proof -
  have e: "s' = s\<lparr>bss_heap := bss_heap s', messages := messages s'\<rparr>" using assms by (simp add: rx_frame_def)
  have "bss_id s' = bss_id s" "num_bss s' = num_bss s" "cur_bssid s' = cur_bssid s" "pending_bssid s' = pending_bssid s"
    by (subst e, simp)+
  moreover have "map_option static (bss_heap s' a) = map_option static (bss_heap s a)" for a
  proof (cases "bss_heap s a")
    case None
    then show ?thesis using rx_frame_bss(1) [OF assms, of a] by simp
  next
    case (Some b)
    then obtain b' where "bss_heap s' a = Some b'" "core b' = core b" using rx_frame_bss(3) [OF assms Some] by blast
    then show ?thesis using Some static_core [of b' b] by simp
  qed
  moreover have "heap_ok s \<longrightarrow> heap_ok s'" using assms by (simp add: rx_frame_def)
  ultimately show ?thesis unfolding quiet_def using rx_frame_sel(1,3,4,6) [OF assms] by blast
qed

lemma quiet_bss:
  assumes "quiet s s'"
  shows "bss_heap s' a = None \<longleftrightarrow> bss_heap s a = None"
    and "bss_heap s' a = Some b' \<Longrightarrow> \<exists>b. bss_heap s a = Some b \<and> static b = static b'"
    and "bss_heap s a = Some b \<Longrightarrow> \<exists>b'. bss_heap s' a = Some b' \<and> static b' = static b"
proof -
  have e: "map_option static (bss_heap s' a) = map_option static (bss_heap s a)" using assms by (simp add: quiet_def)
  show "bss_heap s' a = None \<longleftrightarrow> bss_heap s a = None" using e by (metis map_option_is_None)
  show "bss_heap s' a = Some b' \<Longrightarrow> \<exists>b. bss_heap s a = Some b \<and> static b = static b'"
    using e by (cases "bss_heap s a") auto
  show "bss_heap s a = Some b \<Longrightarrow> \<exists>b'. bss_heap s' a = Some b' \<and> static b' = static b"
    using e by (cases "bss_heap s' a") auto
qed

lemma quiet_inv:
  assumes "quiet s s'" "bss_inv s"
  shows "bss_inv s'"
proof -
  have d: "dom (bss_heap s') = dom (bss_heap s)" using quiet_bss(1) [OF assms(1)] by (auto simp: dom_def)
  have "bss_wf b'" if h: "bss_heap s' a = Some b'" for a b'
  proof -
    obtain b where "bss_heap s a = Some b" "static b = static b'" using quiet_bss(2) [OF assms(1) h] by blast
    then show ?thesis using assms(2) static_fields(6) [of b b'] by (auto simp: bss_inv_def)
  qed
  then show ?thesis using assms d by (simp add: bss_inv_def quiet_def)
qed

lemma quiet_get:
  assumes "quiet s s'" "bss_inv s" "length sa = 6"
  shows "wpa_bss_get_bssid s' sa = wpa_bss_get_bssid s sa"
proof -
  have "b_bssid (the (bss_heap s' a)) = b_bssid (the (bss_heap s a))" if a: "a \<in> set (bss s)" for a
  proof -
    obtain b where b: "bss_heap s a = Some b" using bss_inv_deref [OF assms(2) a] by blast
    then obtain b' where "bss_heap s' a = Some b'" "static b' = static b" using quiet_bss(3) [OF assms(1)] by blast
    then show ?thesis using b static_fields(1) [of b' b] by simp
  qed
  then have "find (\<lambda>a. b_bssid (the (bss_heap s' a)) = sa) (rev (bss s)) = find (\<lambda>a. b_bssid (the (bss_heap s a)) = sa) (rev (bss s))"
    by (intro find_cong) auto
  then show ?thesis
    using wpa_bss_get_bssid_spec [OF quiet_inv [OF assms(1,2)] assms(3)] wpa_bss_get_bssid_spec [OF assms(2,3)]
      assms(1) by (simp add: filter_admits_def quiet_def)
qed

lemmas rx_frame_inv = quiet_inv [OF rx_quiet]
lemmas rx_frame_get = quiet_get [OF rx_quiet]

lemma get_bssid_known:
  assumes "bss_inv s" "length sa = 6" "wpa_bss_get_bssid s sa = Some (Some a)"
  obtains b where "bss_heap s a = Some b" "b_bssid b = sa" "a \<in> set (bss s)" "bss_wf b"
proof -
  have "find (\<lambda>a. b_bssid (the (bss_heap s a)) = sa) (rev (bss s)) = Some a"
    using wpa_bss_get_bssid_spec [OF assms(1,2)] assms(3) by (auto split: if_splits)
  then have a: "a \<in> set (bss s)" "b_bssid (the (bss_heap s a)) = sa" by (auto simp: find_Some_iff set_conv_nth rev_nth)
  with bss_inv_deref [OF assms(1) a(1)] show ?thesis by (metis option.sel that)
qed

text \<open>The contents of the ANQP element with identifier \<open>i\<close> that is stored for a BSS.\<close>

definition anqp_get :: "u16 \<Rightarrow> wpa_bss \<Rightarrow> wpabuf option" where
  "anqp_get i b = (if i = 258 then anqp_venue_name b else if i = 260 then anqp_network_auth_type b
     else if i = 261 then anqp_roaming_consortium b else if i = 262 then anqp_ip_addr_type_availability b
     else if i = 263 then anqp_nai_realm b else if i = 264 then anqp_3gpp b
     else if i = 268 then anqp_domain_name b else None)"

definition anqp_data :: "u16 \<Rightarrow> wpa_bss \<Rightarrow> bytes option" where
  "anqp_data i b = map_option wpabuf_data (anqp_get i b)"

text \<open>What handling one element does, with \<open>p\<close> the entry of the responder.\<close>

definition rx_step :: "bool \<Rightarrow> ptr option \<Rightarrow> u16 \<Rightarrow> bytes \<Rightarrow> wpa_supplicant \<Rightarrow> wpa_supplicant \<Rightarrow> bool" where
  "rx_step al p i d s s' \<longleftrightarrow> rx_frame s s' \<and>
     (\<forall>a b. p = Some a \<longrightarrow> bss_heap s a = Some b \<longrightarrow> (\<exists>b'. bss_heap s' = (bss_heap s)(a \<mapsto> b') \<and>
       (al \<longrightarrow> (\<forall>j \<in> set info_ids. anqp_data j b' = (if i = j then Some d else anqp_data j b)))))"

lemma rx_report_Some:
  "length sa = 6 \<Longrightarrow> \<exists>m. rx_report pre s sa w = Some (s\<lparr>messages := messages s @ [m]\<rparr>)"
  by (intro exI [of _ "lit pre @ mac2str sa @ lit w"]) (simp add: rx_report_def macstr_def rd_bytes_def wpa_msg_def)

lemma rx_frame_msg [simp]: "rx_frame s (s\<lparr>messages := m\<rparr>)"
  by (simp add: rx_frame_def heap_ok_def)

lemma rx_same_step:
  assumes "i \<notin> set info_ids" "rx_frame s s'" "bss_heap s' = bss_heap s"
  shows "rx_step al p i d s s'"
  unfolding rx_step_def
proof (intro conjI allI impI)
  fix a b
  assume "bss_heap s a = Some b"
  then show "\<exists>b'. bss_heap s' = (bss_heap s)(a \<mapsto> b') \<and>
      (al \<longrightarrow> (\<forall>j \<in> set info_ids. anqp_data j b' = (if i = j then Some d else anqp_data j b)))"
    using assms(1,3) by (intro exI [of _ b]) (auto simp: fun_upd_idem)
qed (rule assms(2))

lemma rx_report_step:
  assumes "length sa = 6" "i \<notin> set info_ids"
  shows "\<exists>s'. rx_report pre s sa w = Some s' \<and> rx_step al p i d s s'"
  using rx_report_Some [OF assms(1), of pre s w] rx_same_step [OF assms(2)] by fastforce

lemma alloc_copy_cases:
  obtains v where "wpabuf_alloc_copy al d = Some v" "buf_ok v" "al \<longrightarrow> map_option wpabuf_data v = Some d"
proof (cases al)
  case True
  then show ?thesis using wpabuf_alloc_copy_data [of d] that by (auto simp: buf_ok_def)
next
  case False
  then show ?thesis using that [of None] by (simp add: wpabuf_alloc_copy_def wpabuf_alloc_def buf_ok_def)
qed

text \<open>A case of the switch that stores the element: \<open>upd\<close> writes one field.\<close>

lemma rx_store_step:
  assumes "length sa = 6" "\<And>a. p = Some a \<Longrightarrow> bss_heap s a \<noteq> None"
    and upd: "\<And>v b. core (upd v b) = core b \<and> b_fetched (upd v b) = b_fetched b" "\<And>v b. buf_ok v \<Longrightarrow> anqp_ok b \<Longrightarrow> anqp_ok (upd v b)"
      "\<And>v b j. j \<in> set info_ids \<Longrightarrow> anqp_get j (upd v b) = (if i = j then v else anqp_get j b)"
  shows "\<exists>s'. (rx_report pre s sa w \<bind> (\<lambda>s. rx_store al s p d upd)) = Some s' \<and> rx_step al p i d s s'"
proof -
  obtain m where m: "rx_report pre s sa w = Some (s\<lparr>messages := messages s @ [m]\<rparr>)" using rx_report_Some [OF assms(1)] by blast
  let ?s = "s\<lparr>messages := messages s @ [m]\<rparr>"
  show ?thesis
  proof (cases p)
    case None
    then show ?thesis using m by (simp add: rx_store_def rx_step_def)
  next
    case (Some a)
    then obtain b where b: "bss_heap s a = Some b" using assms(2) by blast
    obtain v where v: "wpabuf_alloc_copy al d = Some v" "buf_ok v" "al \<longrightarrow> map_option wpabuf_data v = Some d"
      by (rule alloc_copy_cases [of al d])
    let ?s' = "?s\<lparr>bss_heap := (bss_heap s)(a \<mapsto> upd v b)\<rparr>"
    have "rx_frame s ?s'"
      using b upd(1) upd(2) [OF v(2)] by (auto simp: rx_frame_def heap_ok_def)
    moreover have "al \<longrightarrow> (\<forall>j \<in> set info_ids. anqp_data j (upd v b) = (if i = j then Some d else anqp_data j b))"
      using v(3) upd(3) by (simp add: anqp_data_def)
    ultimately have "rx_step al p i d s ?s'" using b Some by (auto simp: rx_step_def)
    then show ?thesis using m v(1) b Some by (simp add: rx_store_def deref_def)
  qed
qed

lemma known_alive:
  assumes "bss_inv s" "length sa = 6" "wpa_bss_get_bssid s sa = Some (Some a)"
  shows "bss_heap s a \<noteq> None"
  by (rule get_bssid_known [OF assms]) simp

lemma hs20_store_step:
  assumes "bss_inv s" "length sa = 6" "wpa_bss_get_bssid s sa = Some p" "i \<notin> set info_ids"
    "\<And>v b. core (upd v b) = core b \<and> b_fetched (upd v b) = b_fetched b" "\<And>v b. anqp_ok (upd v b) = anqp_ok b" "\<And>v b j. anqp_get j (upd v b) = anqp_get j b"
  shows "\<exists>s'. (rx_report pre s sa w \<bind> (\<lambda>s. rx_store al s p d' upd)) = Some s' \<and> rx_step al p i d s s'"
proof -
  have e: "(if i = j then Some d' else anqp_data j b) = (if i = j then Some d else anqp_data j b)"
    if "j \<in> set info_ids" for j b using assms(4) that by auto
  have "rx_step al p i d' s s' = rx_step al p i d s s'" for s' unfolding rx_step_def by (simp add: e)
  moreover have "\<exists>s'. (rx_report pre s sa w \<bind> (\<lambda>s. rx_store al s p d' upd)) = Some s' \<and> rx_step al p i d' s s'"
  proof (rule rx_store_step [OF assms(2) _ assms(5)])
    show "bss_heap s a \<noteq> None" if "p = Some a" for a using known_alive [OF assms(1,2)] assms(3) that by blast
    show "anqp_ok (upd v b)" if "anqp_ok b" for v b using assms(6) that by simp
    show "anqp_get j (upd v b) = (if i = j then v else anqp_get j b)" if "j \<in> set info_ids" for v b j
      using assms(4,7) that by auto
  qed
  ultimately show ?thesis by simp
qed

lemma hs20_parse_step:
  assumes "bss_inv s" "length sa = 6" "wpa_bss_get_bssid s sa = Some p" "i \<notin> set info_ids"
  shows "\<exists>s'. hs20_parse_rx_hs20_anqp_resp al s sa d = Some s' \<and> rx_step al p i e s s'"
proof (cases d)
  case Nil
  then show ?thesis using assms rx_same_step by (auto simp: hs20_parse_rx_hs20_anqp_resp_def)
next
  case (Cons t d')
  note st = hs20_store_step [OF assms, of _ "''RX-HS20-ANQP ''" _ al d' e]
  have r: "\<exists>s'. rx_report ''RX-HS20-ANQP '' s sa '' HS Capability List'' = Some s' \<and> rx_step al p i e s s'"
    by (rule rx_report_step [OF assms(2,4)])
  have n: "\<exists>s'. (rx_report ''RX-HS20-ANQP '' s sa '' Operator Friendly Name'' \<bind>
      (\<lambda>s. rx_store al s p d' (\<lambda>v b. b\<lparr>hs20_operator_friendly_name := v\<rparr>))) = Some s' \<and> rx_step al p i e s s'"
    by (rule st) (simp_all add: anqp_ok_def anqp_get_def)
  have m: "\<exists>s'. (rx_report ''RX-HS20-ANQP '' s sa '' WAN Metrics'' \<bind>
      (\<lambda>s. rx_store al s p d' (\<lambda>v b. b\<lparr>hs20_wan_metrics := v\<rparr>))) = Some s' \<and> rx_step al p i e s s'"
    by (rule st) (simp_all add: anqp_ok_def anqp_get_def)
  have c: "\<exists>s'. (rx_report ''RX-HS20-ANQP '' s sa '' Connection Capability'' \<bind>
      (\<lambda>s. rx_store al s p d' (\<lambda>v b. b\<lparr>hs20_connection_capability := v\<rparr>))) = Some s' \<and> rx_step al p i e s s'"
    by (rule st) (simp_all add: anqp_ok_def anqp_get_def)
  have eq: "hs20_parse_rx_hs20_anqp_resp al s sa d =
      (if t = 2 then rx_report ''RX-HS20-ANQP '' s sa '' HS Capability List''
       else if t = 3 then rx_report ''RX-HS20-ANQP '' s sa '' Operator Friendly Name'' \<bind>
         (\<lambda>s. rx_store al s p d' (\<lambda>v b. b\<lparr>hs20_operator_friendly_name := v\<rparr>))
       else if t = 4 then rx_report ''RX-HS20-ANQP '' s sa '' WAN Metrics'' \<bind>
         (\<lambda>s. rx_store al s p d' (\<lambda>v b. b\<lparr>hs20_wan_metrics := v\<rparr>))
       else if t = 5 then rx_report ''RX-HS20-ANQP '' s sa '' Connection Capability'' \<bind>
         (\<lambda>s. rx_store al s p d' (\<lambda>v b. b\<lparr>hs20_connection_capability := v\<rparr>))
       else Some s)"
    using assms(3) by (simp add: Cons hs20_parse_rx_hs20_anqp_resp_def rd_def)
  consider "t = 2" | "t = 3" | "t = 4" | "t = 5" | "t \<notin> {2, 3, 4, 5}" by blast
  then show ?thesis
  proof cases
    case 1 then show ?thesis unfolding eq using r by simp
  next
    case 2 then show ?thesis unfolding eq using n by simp
  next
    case 3 then show ?thesis unfolding eq using m by simp
  next
    case 4 then show ?thesis unfolding eq using c by simp
  next
    case 5 then show ?thesis unfolding eq using rx_same_step [OF assms(4) rx_frame_refl refl] by simp
  qed
qed

lemma parse_rx_stored:
  assumes "bss_inv s" "length sa = 6" "wpa_bss_get_bssid s sa = Some p" "i \<in> set info_ids"
  shows "\<exists>s'. interworking_parse_rx_anqp_resp al s sa i d = Some s' \<and> rx_step al p i d s s'"
proof -
  have st: "\<exists>s'. (rx_report pre s sa w \<bind> (\<lambda>s. rx_store al s p d upd)) = Some s' \<and> rx_step al p i d s s'"
    if "\<And>v b. core (upd v b) = core b \<and> b_fetched (upd v b) = b_fetched b" "\<And>v b. buf_ok v \<Longrightarrow> anqp_ok b \<Longrightarrow> anqp_ok (upd v b)"
      "\<And>v b j. j \<in> set info_ids \<Longrightarrow> anqp_get j (upd v b) = (if i = j then v else anqp_get j b)" for pre w upd
    by (rule rx_store_step [OF assms(2) _ that]) (use known_alive [OF assms(1,2)] assms(3) in auto)
  have "i = 258 \<or> i = 260 \<or> i = 261 \<or> i = 262 \<or> i = 263 \<or> i = 264 \<or> i = 268"
    using assms(4) by (auto simp: info_ids_def)
  then have "\<exists>w upd. interworking_parse_rx_anqp_resp al s sa i d = (rx_report ''RX-ANQP '' s sa w \<bind> (\<lambda>s. rx_store al s p d upd)) \<and>
    (\<forall>v b. core (upd v b) = core b \<and> b_fetched (upd v b) = b_fetched b) \<and> (\<forall>v b. buf_ok v \<longrightarrow> anqp_ok b \<longrightarrow> anqp_ok (upd v b)) \<and>
    (\<forall>v b. \<forall>j \<in> set info_ids. anqp_get j (upd v b) = (if i = j then v else anqp_get j b))"
  proof (elim disjE)
    show ?thesis if "i = 258"
      by (rule exI [of _ "'' Venue Name''"], rule exI [of _ "\<lambda>v b. b\<lparr>anqp_venue_name := v\<rparr>"])
        (simp add: that interworking_parse_rx_anqp_resp_def assms(3) anqp_ok_def anqp_get_def info_ids_def)
    show ?thesis if "i = 260"
      by (rule exI [of _ "'' Network Authentication Type information''"], rule exI [of _ "\<lambda>v b. b\<lparr>anqp_network_auth_type := v\<rparr>"])
        (simp add: that interworking_parse_rx_anqp_resp_def assms(3) anqp_ok_def anqp_get_def info_ids_def)
    show ?thesis if "i = 261"
      by (rule exI [of _ "'' Roaming Consortium list''"], rule exI [of _ "\<lambda>v b. b\<lparr>anqp_roaming_consortium := v\<rparr>"])
        (simp add: that interworking_parse_rx_anqp_resp_def assms(3) anqp_ok_def anqp_get_def info_ids_def)
    show ?thesis if "i = 262"
      by (rule exI [of _ "'' IP Address Type Availability information''"], rule exI [of _ "\<lambda>v b. b\<lparr>anqp_ip_addr_type_availability := v\<rparr>"])
        (simp add: that interworking_parse_rx_anqp_resp_def assms(3) anqp_ok_def anqp_get_def info_ids_def)
    show ?thesis if "i = 263"
      by (rule exI [of _ "'' NAI Realm list''"], rule exI [of _ "\<lambda>v b. b\<lparr>anqp_nai_realm := v\<rparr>"])
        (simp add: that interworking_parse_rx_anqp_resp_def assms(3) anqp_ok_def anqp_get_def info_ids_def)
    show ?thesis if "i = 264"
      by (rule exI [of _ "'' 3GPP Cellular Network information''"], rule exI [of _ "\<lambda>v b. b\<lparr>anqp_3gpp := v\<rparr>"])
        (simp add: that interworking_parse_rx_anqp_resp_def assms(3) anqp_ok_def anqp_get_def info_ids_def)
    show ?thesis if "i = 268"
      by (rule exI [of _ "'' Domain Name list''"], rule exI [of _ "\<lambda>v b. b\<lparr>anqp_domain_name := v\<rparr>"])
        (simp add: that interworking_parse_rx_anqp_resp_def assms(3) anqp_ok_def anqp_get_def info_ids_def)
  qed
  then show ?thesis using st by metis
qed

lemma parse_rx_step:
  assumes "bss_inv s" "length sa = 6" "wpa_bss_get_bssid s sa = Some p"
  shows "\<exists>s'. interworking_parse_rx_anqp_resp al s sa i d = Some s' \<and> rx_step al p i d s s'"
proof (cases "i \<in> set info_ids")
  case True
  then show ?thesis by (rule parse_rx_stored [OF assms])
next
  case False
  have neq: "i \<noteq> 258" "i \<noteq> 260" "i \<noteq> 261" "i \<noteq> 262" "i \<noteq> 263" "i \<noteq> 264" "i \<noteq> 268" using False by (auto simp: info_ids_def)
  have skip: "rx_step al p i d s s" by (rule rx_same_step [OF False rx_frame_refl refl])
  have cap: "\<exists>s'. rx_report ''RX-ANQP '' s sa '' ANQP Capability list'' = Some s' \<and> rx_step al p i d s s'"
    by (rule rx_report_step [OF assms(2) False])
  have hs: "\<exists>s'. hs20_parse_rx_hs20_anqp_resp al s sa (drop 4 d) = Some s' \<and> rx_step al p i d s s'"
    by (rule hs20_parse_step [OF assms False])
  consider "i = 257" | "i = 56797" | "i \<noteq> 257" "i \<noteq> 56797" by blast
  then show ?thesis
  proof cases
    case 1 then show ?thesis using cap assms(3) by (simp add: interworking_parse_rx_anqp_resp_def)
  next
    case 2
    then show ?thesis
      using skip hs assms(3) neq by (simp add: interworking_parse_rx_anqp_resp_def rd_be24_def rd_def)
  next
    case 3 then show ?thesis using skip assms(3) neq by (simp add: interworking_parse_rx_anqp_resp_def)
  qed
qed

text \<open>Whatever octets the response has, its handling stays within them and only updates the responder's entry.\<close>

lemma rx_elements_total:
  assumes "bss_inv s" "length sa = 6" "fin \<le> length mem"
  shows "\<exists>s'. rx_elements al k s sa mem pos fin = Some s' \<and> rx_frame s s'"
  using assms(1)
proof (induction "fin - pos" arbitrary: k s pos rule: less_induct)
  case less
  obtain p where p: "wpa_bss_get_bssid s sa = Some p" using wpa_bss_get_bssid_spec [OF less.prems assms(2)] by blast
  show ?case
  proof (cases "pos + 4 \<le> fin")
    case False
    then show ?thesis by (subst rx_elements.simps) simp
  next
    case True
    then obtain i l where il: "rd_le16 mem pos = Some i" "rd_le16 mem (pos + 2) = Some l"
      using assms(3) by (auto simp: rd_le16_def rd_def)
    show ?thesis
    proof (cases "pos + 4 + unat l \<le> fin")
      case False
      then show ?thesis using il by (subst rx_elements.simps) simp
    next
      case True
      let ?d = "take (unat l) (drop (pos + 4) mem)"
      have d: "rd_bytes mem (pos + 4) (unat l) = Some ?d" using True assms(3) by (simp add: rd_bytes_def)
      obtain s1 where s1: "interworking_parse_rx_anqp_resp (al k) s sa i ?d = Some s1" "rx_frame s s1"
        using parse_rx_step [OF less.prems assms(2) p, of "al k" i ?d] by (auto simp: rx_step_def)
      have "fin - (pos + 4 + unat l) < fin - pos" using True by linarith
      then obtain s2 where "rx_elements al (k + 1) s1 sa mem (pos + 4 + unat l) fin = Some s2" "rx_frame s1 s2"
        using less.hyps [OF _ rx_frame_inv [OF s1(2) less.prems]] by blast
      then show ?thesis using il d s1 True rx_frame_trans [OF s1(2)] by (subst rx_elements.simps) auto
    qed
  qed
qed

definition enc_anqp :: "u16 \<times> bytes \<Rightarrow> bytes" where
  "enc_anqp e = put_le16 (fst e) @ put_le16 (word_of_nat (length (snd e))) @ snd e"

lemma rx_elements_encoded:
  assumes "bss_inv s" "length sa = 6" "wpa_bss_get_bssid s sa = Some (Some a)" "bss_heap s a = Some b"
    "list_all (\<lambda>e. length (snd e) < 65536) es" "mem = pre @ concat (map enc_anqp es) @ rest"
  shows "\<exists>s' b'. rx_elements (\<lambda>_. True) k s sa mem (length pre) (length pre + length (concat (map enc_anqp es))) = Some s' \<and>
    rx_frame s s' \<and> bss_heap s' = (bss_heap s)(a \<mapsto> b') \<and>
    (\<forall>j \<in> set info_ids. anqp_data j b' = (case map_of (rev es) j of Some d \<Rightarrow> Some d | None \<Rightarrow> anqp_data j b))"
  using assms(1,3-)
proof (induction es arbitrary: s b pre k)
  case Nil
  then show ?case by (intro exI [of _ s] exI [of _ b]) (simp add: rx_elements.simps fun_upd_idem)
next
  case (Cons e es)
  obtain i d where e: "e = (i, d)" by fastforce
  have l: "unat (word_of_nat (length d) :: u16) = length d"
    using Cons.prems(4) e by (simp add: unsigned_of_nat take_bit_nat_eq_self)
  have enc: "enc_anqp e = put_le16 i @ put_le16 (word_of_nat (length d)) @ d" by (simp add: e enc_anqp_def)
  let ?pre = "pre @ enc_anqp e"
  have pre: "length ?pre = length pre + 4 + length d" by (simp add: enc)
  have m1: "rd_le16 mem (length pre) = Some i"
    using rd_le16_app [of pre i "put_le16 (word_of_nat (length d)) @ d @ concat (map enc_anqp es) @ rest"]
    by (simp add: Cons.prems(5) enc)
  have "rd_le16 mem (length (pre @ put_le16 i)) = Some (word_of_nat (length d))"
    using rd_le16_app [of "pre @ put_le16 i" "word_of_nat (length d)" "d @ concat (map enc_anqp es) @ rest"]
    by (simp add: Cons.prems(5) enc)
  then have m2: "rd_le16 mem (length pre + 2) = Some (word_of_nat (length d))" by simp
  have "take (length d) (drop (length (pre @ put_le16 i @ put_le16 (word_of_nat (length d)))) mem) = d"
    by (simp add: Cons.prems(5) enc)
  then have m3: "rd_bytes mem (length pre + 4) (length d) = Some d"
    by (simp add: rd_bytes_def Cons.prems(5) enc)
  obtain s1 where s1: "interworking_parse_rx_anqp_resp True s sa i d = Some s1" "rx_step True (Some a) i d s s1"
    using parse_rx_step [OF Cons.prems(1) assms(2) Cons.prems(2)] by blast
  then obtain b1 where b1: "bss_heap s1 = (bss_heap s)(a \<mapsto> b1)" "rx_frame s s1"
      "\<forall>j \<in> set info_ids. anqp_data j b1 = (if i = j then Some d else anqp_data j b)"
    using Cons.prems(3) by (auto simp: rx_step_def)
  have inv1: "bss_inv s1" "wpa_bss_get_bssid s1 sa = Some (Some a)" "bss_heap s1 a = Some b1"
    using rx_frame_inv [OF b1(2) Cons.prems(1)] rx_frame_get [OF b1(2) Cons.prems(1) assms(2)] Cons.prems(2) b1(1) by simp_all
  have es: "list_all (\<lambda>e. length (snd e) < 65536) es" and mem: "mem = ?pre @ concat (map enc_anqp es) @ rest"
    using Cons.prems(4,5) by simp_all
  obtain s2 b2 where s2: "rx_elements (\<lambda>_. True) (k + 1) s1 sa mem (length ?pre)
        (length ?pre + length (concat (map enc_anqp es))) = Some s2" "rx_frame s1 s2"
      "bss_heap s2 = (bss_heap s1)(a \<mapsto> b2)"
      "\<forall>j \<in> set info_ids. anqp_data j b2 = (case map_of (rev es) j of Some d \<Rightarrow> Some d | None \<Rightarrow> anqp_data j b1)"
    using Cons.IH [OF inv1 es mem] by blast
  let ?fin = "length pre + length (concat (map enc_anqp (e # es)))"
  have fin: "?fin = length ?pre + length (concat (map enc_anqp es))" by simp
  have "rx_elements (\<lambda>_. True) k s sa mem (length pre) ?fin = Some s2"
    using m1 m2 m3 l s1(1) s2(1) pre unfolding fin by (subst rx_elements.simps) (simp add: add.assoc)
  moreover have "bss_heap s2 = (bss_heap s)(a \<mapsto> b2)" using s2(3) b1(1) by simp
  moreover have "\<forall>j \<in> set info_ids. anqp_data j b2 = (case map_of (rev (e # es)) j of Some d \<Rightarrow> Some d | None \<Rightarrow> anqp_data j b)"
    using s2(4) b1(3) by (auto simp: e map_add_def split: option.split)
  ultimately show ?case using rx_frame_trans [OF b1(2) s2(2)] by blast
qed

text \<open>\<open>adv_ok\<close>: the Advertisement Protocol element announces ANQP.\<close>

definition adv_ok :: "wpabuf \<Rightarrow> bool" where
  "adv_ok a \<longleftrightarrow> wpabuf_inv a \<and> 4 \<le> wpabuf_len a \<and> wpabuf_data a ! 0 = 108 \<and> 2 \<le> wpabuf_data a ! 1 \<and> wpabuf_data a ! 3 = 0"

lemma anqp_resp_cb_total:
  assumes "bss_inv s" "length dst = 6" "wpa_bss_get_bssid s dst = Some (Some a)" "bss_heap s a = Some b"
    "0 \<in> set (b_ssid b)" "buf_ok adv" "buf_ok resp" "result = GAS_QUERY_SUCCESS \<longrightarrow> adv \<noteq> None \<and> resp \<noteq> None"
  shows "\<exists>s'. anqp_resp_cb al s dst result adv resp = Some s' \<and> rx_frame s s'"
proof (cases "result = GAS_QUERY_SUCCESS")
  case False
  then show ?thesis by (simp add: anqp_resp_cb_def)
next
  case True
  then obtain x r where x: "adv = Some x" "wpabuf_inv x" "resp = Some r" "wpabuf_inv r"
    using assms(6-8) by (auto simp: buf_ok_def)
  obtain s1 where s1: "rx_elements al 0 s dst (wpabuf_head r) 0 (wpabuf_len r) = Some s1" "rx_frame s s1"
    using rx_elements_total [OF assms(1,2), of "wpabuf_len r" "wpabuf_head r" al 0 0] x(4)
    by (auto simp: wpabuf_inv_def wpabuf_len_def)
  have inv1: "bss_inv s1" "wpa_bss_get_bssid s1 dst = Some (Some a)"
    using rx_frame_inv [OF s1(2) assms(1)] rx_frame_get [OF s1(2) assms(1,2)] assms(3) by simp_all
  obtain b1 where b1: "bss_heap s1 a = Some b1" "core b1 = core b" using rx_frame_bss(3) [OF s1(2) assms(4)] by blast
  have wf: "length (b_bssid b1) = 6" using inv1(1) b1(1) by (auto simp: bss_inv_def bss_wf_def)
  let ?s = "s1\<lparr>bss_heap := (bss_heap s1)(a \<mapsto> b1\<lparr>b_fetched := True\<rparr>)\<rparr>"
  have f: "rx_frame s1 (arbiter_message m ?s)" for m
    using b1(1) by (auto simp: rx_frame_def arbiter_message_def heap_ok_def anqp_ok_def)
  have t: "\<exists>t. ssid_str b1 = Some t" using core_fields(2) [OF b1(2)] assms(5) by (simp add: ssid_str_def)
  show ?thesis
    using True x s1(1) inv1(2) b1(1) t wf rx_frame_trans [OF s1(2) f] rd_head_data [OF x(2)]
    by (auto simp: anqp_resp_cb_def deref_def Let_def macstr_def rd_bytes_def)
qed

text \<open>
  C16. A response is stored in the entry of its sender. When a GAS query for ANQP ends successfully with any
  sequence of elements, then afterwards, for each of the seven elements that the supplicant asks for, the
  entry holds the contents of the last element with that identifier, or what it held before if there was none;
  the entry is marked as fetched, and no other entry changes.
\<close>

theorem anqp_resp_cb_stores:
  assumes "bss_inv s" "length dst = 6" "wpa_bss_get_bssid s dst = Some (Some a)" "bss_heap s a = Some b"
    "0 \<in> set (b_ssid b)" "adv_ok adv" "wpabuf_inv resp" "wpabuf_data resp = concat (map enc_anqp es)"
    "list_all (\<lambda>e. length (snd e) < 65536) es"
  shows "\<exists>s' b'. anqp_resp_cb (\<lambda>_. True) s dst GAS_QUERY_SUCCESS (Some adv) (Some resp) = Some s' \<and> bss_inv s' \<and>
    bss_heap s' = (bss_heap s)(a \<mapsto> b') \<and> b_fetched b' \<and>
    (\<forall>i \<in> set info_ids. anqp_data i b' = (case map_of (rev es) i of Some d \<Rightarrow> Some d | None \<Rightarrow> anqp_data i b))"
proof -
  let ?mem = "wpabuf_head resp"
  have l: "wpabuf_len resp = length (concat (map enc_anqp es))" using length_wpabuf_data [OF assms(7)] assms(8) by simp
  have "?mem = take (wpabuf_len resp) ?mem @ drop (wpabuf_len resp) ?mem" by simp
  then have m: "?mem = [] @ concat (map enc_anqp es) @ drop (wpabuf_len resp) ?mem"
    unfolding wpabuf_len_def assms(8) [symmetric] wpabuf_data_def by simp
  obtain s1 b1 where s1: "rx_elements (\<lambda>_. True) 0 s dst ?mem 0 (wpabuf_len resp) = Some s1" "rx_frame s s1"
      "bss_heap s1 = (bss_heap s)(a \<mapsto> b1)"
      "\<forall>j \<in> set info_ids. anqp_data j b1 = (case map_of (rev es) j of Some d \<Rightarrow> Some d | None \<Rightarrow> anqp_data j b)"
    using rx_elements_encoded [OF assms(1-4,9) m, of 0] l by auto
  have inv1: "bss_inv s1" "wpa_bss_get_bssid s1 dst = Some (Some a)"
    using rx_frame_inv [OF s1(2) assms(1)] rx_frame_get [OF s1(2) assms(1,2)] assms(3) by simp_all
  have c: "core b1 = core b" using s1(2,3) assms(4) by (auto simp: rx_frame_def dest: spec [of _ a])
  let ?b = "b1\<lparr>b_fetched := True\<rparr>"
  let ?s = "s1\<lparr>bss_heap := (bss_heap s)(a \<mapsto> ?b)\<rparr>"
  have wf: "length (b_bssid b1) = 6" using inv1(1) s1(3) by (auto simp: bss_inv_def bss_wf_def split: if_splits)
  have t: "ssid_str b1 = Some (c_str (b_ssid b1))" using core_fields(2) [OF c] assms(5) by (simp add: ssid_str_def)
  obtain msg where r: "anqp_resp_cb (\<lambda>_. True) s dst GAS_QUERY_SUCCESS (Some adv) (Some resp) = Some (arbiter_message msg ?s)"
    using s1(1,3) inv1(2) t wf assms(6) rd_head_data [of adv]
    by (auto simp: anqp_resp_cb_def deref_def Let_def macstr_def rd_bytes_def adv_ok_def)
  have "rx_frame s1 (arbiter_message msg ?s)"
    using s1(3) by (auto simp: rx_frame_def arbiter_message_def heap_ok_def anqp_ok_def)
  then have "bss_inv (arbiter_message msg ?s)" using inv1(1) by (rule rx_frame_inv)
  moreover have "anqp_data i ?b = anqp_data i b1" for i by (simp add: anqp_data_def anqp_get_def)
  ultimately show ?thesis using r s1(4) by (intro exI [of _ "arbiter_message msg ?s"] exI [of _ ?b]) simp
qed

definition ex_state :: wpa_supplicant where
  "ex_state = zero_state\<lparr>bss := [100], bss_id := [100], num_bss := 1, bss_heap := [100 \<mapsto> zero_bss]\<rparr>"

lemma ex_state_facts:
  "bss_inv ex_state" "wpa_bss_get_bssid ex_state (replicate 6 0) = Some (Some 100)" "bss_heap ex_state 100 = Some zero_bss"
  "0 \<in> set (b_ssid zero_bss)" "anqp_data 263 zero_bss = None"
proof -
  show "bss_inv ex_state" by (simp add: ex_state_def bss_inv_def bss_wf_def zero_bss_def zero_state_def zero_conf_def conf_wf_def)
  show "wpa_bss_get_bssid ex_state (replicate 6 0) = Some (Some 100)" by code_simp
qed (simp_all add: ex_state_def zero_bss_def anqp_data_def anqp_get_def)

lemma anqp_resp_cb_stores_witness:
  "\<exists>adv resp s' b'. anqp_resp_cb (\<lambda>_. True) ex_state (replicate 6 0) GAS_QUERY_SUCCESS (Some adv) (Some resp) = Some s' \<and>
     wpabuf_data resp = [7, 1, 2, 0, 0, 0] \<and> bss_heap s' 100 = Some b' \<and> anqp_data 263 b' = Some [0, 0]"
proof -
  obtain adv where adv: "wpabuf_inv adv" "wpabuf_data adv = [108, 2, 0, 0]" using wpabuf_alloc_copy_data by blast
  obtain resp where r: "wpabuf_inv resp" "wpabuf_data resp = concat (map enc_anqp [(263, [0, 0])])"
    using wpabuf_alloc_copy_data by blast
  have "adv_ok adv" using adv length_wpabuf_data [OF adv(1)] by (simp add: adv_ok_def)
  moreover have "(263::u16) \<in> set info_ids" by (simp add: info_ids_def)
  moreover have "concat (map enc_anqp [(263, [0, 0])]) = [7, 1, 2, 0, 0, 0]" by (simp add: enc_anqp_def put_le16_def)
  ultimately show ?thesis
    using anqp_resp_cb_stores [OF ex_state_facts(1) _ ex_state_facts(2-4) _ r, of adv] r(2) by fastforce
qed

text \<open>
  C32. The response of an access point that is not in the BSS table crashes the supplicant: whenever a query
  ends successfully and no entry belongs to the responder any more (entries can expire while a query is
  pending), a null pointer is dereferenced.
\<close>

theorem anqp_resp_cb_unknown_bss:
  assumes "bss_inv s" "length dst = 6" "wpa_bss_get_bssid s dst = Some None" "adv_ok adv" "wpabuf_inv resp"
  shows "anqp_resp_cb al s dst GAS_QUERY_SUCCESS (Some adv) (Some resp) = None"
proof -
  obtain s1 where s1: "rx_elements al 0 s dst (wpabuf_head resp) 0 (wpabuf_len resp) = Some s1" "rx_frame s s1"
    using rx_elements_total [OF assms(1,2), of "wpabuf_len resp" "wpabuf_head resp" al 0 0] assms(5)
    by (auto simp: wpabuf_inv_def wpabuf_len_def)
  then have "wpa_bss_get_bssid s1 dst = Some None" using rx_frame_get [OF s1(2) assms(1,2)] assms(3) by simp
  then show ?thesis
    using s1(1) assms(4) rd_head_data [of adv] by (auto simp: anqp_resp_cb_def adv_ok_def)
qed

lemma anqp_resp_cb_unknown_bss_witness:
  "\<exists>adv resp. anqp_resp_cb (\<lambda>_. True) ex_state [1, 2, 3, 4, 5, 6] GAS_QUERY_SUCCESS (Some adv) (Some resp) = None"
proof -
  obtain adv where adv: "wpabuf_inv adv" "wpabuf_data adv = [108, 2, 0, 0]" using wpabuf_alloc_copy_data by blast
  have "adv_ok adv" using adv length_wpabuf_data [OF adv(1)] by (simp add: adv_ok_def)
  moreover have "wpa_bss_get_bssid ex_state [1, 2, 3, 4, 5, 6] = Some None" by code_simp
  moreover have "length [1, 2, 3, 4, 5, 6 :: u8] = 6" by simp
  ultimately show ?thesis using anqp_resp_cb_unknown_bss [OF ex_state_facts(1) _ _ _ adv(1)] by blast
qed

end
