(* ===== verification/Interworking.thy ===== *)
theory Interworking
  imports Anqp Config_Networks
begin

text \<open>
  Network selection of src/wpa_supplicant/interworking.c: fetching ANQP information from one access point after
  the other, collecting the networks with matching credentials, letting the arbiter select one and configuring
  a network block for it.

  All choices made outside the program (allocations, driver, clock, random numbers) are fields of \<open>iw_env\<close>. An
  allocator sees which addresses are in use. \<open>iw_cb\<close> is the response callback of the GAS layer with both
  functions that the code installs. As in \<open>Nai_Realm\<close>, the 3GPP branch (\<open>INTERWORKING_3GPP\<close>) is modelled although
  the build of wpa_supplicant/.config leaves it out: \<open>interworking_connect_3gpp\<close> returns -1 there.
\<close>

section \<open>Scan requests\<close>

definition wpa_supplicant_req_scan ::
  "bool \<Rightarrow> os_time option \<Rightarrow> u32 \<Rightarrow> u32 \<Rightarrow> wpa_supplicant \<Rightarrow> wpa_supplicant" where
  "wpa_supplicant_req_scan timer_ok now sec usec s =
     (if eloop_is_timeout_registered H_wpa_supplicant_scan (wpa_s_ptr s) 0 (eloop s) \<and> c_ap_scan (conf s) = 1 \<and>
         list_ex (\<lambda>n. n_int n ''disabled'' = 0 \<and> n_int n ''scan_ssid'' \<noteq> 0) (c_ssid (conf s))
      then s
      else register_timer timer_ok now sec usec H_wpa_supplicant_scan (wpa_s_ptr s) 0
             (cancel_timer H_wpa_supplicant_scan (wpa_s_ptr s) 0 s))"

section \<open>Connecting\<close>

text \<open>
  \<open>cn_set v\<close> are the outcomes of the allocations while the variable \<open>v\<close> is set.
\<close>

record conn_env =
  cn_cred :: cred_env
  cn_net :: bool
  cn_prio :: "nat \<Rightarrow> bool"
  cn_prio2 :: "nat \<Rightarrow> bool"
  cn_ssid :: bool
  cn_set :: "string \<Rightarrow> nat \<Rightarrow> bool"
  cn_timer_ok :: bool
  cn_time :: "os_time option"

definition put_network :: "wpa_ssid \<Rightarrow> wpa_config \<Rightarrow> wpa_config" where
  "put_network n c = c\<lparr>c_ssid := map (\<lambda>m. if n_id m = n_id n then n else m) (c_ssid c)\<rparr>"

text \<open>A sequence of settings that stops at the first failure.\<close>

type_synonym setting = "wpa_ssid \<Rightarrow> (int \<times> wpa_ssid) option"

fun run_settings :: "setting list \<Rightarrow> wpa_ssid \<Rightarrow> (bool \<times> wpa_ssid) option" where
  "run_settings [] n = Some (True, n)"
| "run_settings (f # fs) n = do {
     (r, n) \<leftarrow> f n;
     if r < 0 then Some (False, n) else run_settings fs n }"

definition set_var :: "conn_env \<Rightarrow> string \<Rightarrow> bytes option \<Rightarrow> setting" where
  "set_var ce var value n = wpa_config_set (cn_set ce var) (cr_methods (cn_cred ce)) n var value"

definition set_quoted :: "conn_env \<Rightarrow> string \<Rightarrow> bytes \<Rightarrow> setting" where
  "set_quoted ce var value n = wpa_config_set_quoted (cn_set ce var) (cr_methods (cn_cred ce)) n var value"

text \<open>A variable of the home provider that is set only if it is not empty.\<close>

definition set_home :: "conn_env \<Rightarrow> string \<Rightarrow> bytes option \<Rightarrow> setting list" where
  "set_home ce var value = (if set_string value then [set_quoted ce var (c_str (the value))] else [])"

text \<open>\<open>set_root_nai\<close>: the identity of a subscriber, from an IMSI with a dash behind the network code.\<close>

definition root_nai :: "bytes \<Rightarrow> u8 \<Rightarrow> bytes option" where
  "root_nai imsi pre =
     (let plmn_len = length (takeWhile (\<lambda>c. c \<noteq> DASH) imsi) in
      if 16 < length imsi \<or> DASH \<notin> set imsi \<or> (plmn_len \<noteq> 5 \<and> plmn_len \<noteq> 6) then None
      else Some ([pre] @ take plmn_len imsi @ drop (plmn_len + 1) imsi @ lit ''@wlan.mnc'' @
        (if plmn_len = 5 then [48, imsi ! 3, imsi ! 4] else [imsi ! 3, imsi ! 4, imsi ! 5]) @
        lit ''.mcc'' @ [imsi ! 0, imsi ! 1, imsi ! 2] @ lit ''.3gppnetwork.org''))"

definition set_root_nai :: "conn_env \<Rightarrow> bytes option \<Rightarrow> u8 \<Rightarrow> setting" where
  "set_root_nai ce imsi pre n = (case imsi of
     None \<Rightarrow> Some (-1, n)
   | Some i \<Rightarrow> (case root_nai (c_str i) pre of
       None \<Rightarrow> Some (-1, n)
     | Some nai \<Rightarrow> set_quoted ce ''identity'' nai n))"

definition settings_3gpp :: "conn_env \<Rightarrow> wpa_config \<Rightarrow> setting list" where
  "settings_3gpp ce c =
     [set_var ce ''eap'' (Some (lit ''SIM'')), set_root_nai ce (c_home_imsi c) 49] @
     (if set_string (c_home_milenage c) then [set_quoted ce ''password'' (c_str (the (c_home_milenage c)))]
      else [set_quoted ce ''pcsc'' []]) @
     set_home ce ''password'' (c_home_password c)"

text \<open>
  The inner authentication. \<open>%s\<close> with the null pointer that \<open>eap_get_name\<close> returns for an unknown method is a
  fault. MSCHAP is configured as CHAP.
\<close>

definition set_phase2 :: "conn_env \<Rightarrow> string \<Rightarrow> u8 \<Rightarrow> setting" where
  "set_phase2 ce auth method n = do {
     name \<leftarrow> eap_get_name (cr_methods (cn_cred ce)) EAP_VENDOR_IETF method;
     set_var ce ''phase2'' (Some (take 99 ([QUOTE] @ lit auth @ name @ [QUOTE]))) n }"

definition phase2_settings :: "conn_env \<Rightarrow> nai_realm_eap \<Rightarrow> setting list" where
  "phase2_settings ce e =
     (if e_method e = EAP_TYPE_TTLS then
        (if e_inner_method e \<noteq> 0 then [set_phase2 ce ''autheap='' (e_inner_method e)]
         else if e_inner_non_eap e = 1 then [set_var ce ''phase2'' (Some ([QUOTE] @ lit ''auth=PAP'' @ [QUOTE]))]
         else if e_inner_non_eap e = 2 then [set_var ce ''phase2'' (Some ([QUOTE] @ lit ''auth=CHAP'' @ [QUOTE]))]
         else if e_inner_non_eap e = 3 then [set_var ce ''phase2'' (Some ([QUOTE] @ lit ''auth=CHAP'' @ [QUOTE]))]
         else if e_inner_non_eap e = 4 then [set_var ce ''phase2'' (Some ([QUOTE] @ lit ''auth=MSCHAPV2'' @ [QUOTE]))]
         else [])
      else if e_method e = EAP_TYPE_PEAP then [set_phase2 ce ''auth='' (e_inner_method e)]
      else [])"

definition settings_realm :: "conn_env \<Rightarrow> wpa_config \<Rightarrow> nai_realm_eap \<Rightarrow> setting list" where
  "settings_realm ce c e =
     [set_var ce ''eap'' (eap_get_name (cr_methods (cn_cred ce)) EAP_VENDOR_IETF (e_method e))] @
     set_home ce ''identity'' (c_home_username c) @
     set_home ce ''password'' (c_home_password c) @
     phase2_settings ce e @
     set_home ce ''ca_cert'' (c_home_ca_cert c)"

text \<open>
  The common part of the two ways to connect: add a temporary network with the SSID of the BSS, apply the
  settings, and start a scan; when a setting fails the network is removed again.
\<close>

definition connect_network ::
  "conn_env \<Rightarrow> wpa_supplicant \<Rightarrow> bytes \<Rightarrow> nat \<Rightarrow> nat \<Rightarrow> setting list \<Rightarrow> (int \<times> wpa_supplicant) option" where
  "connect_network ce s ies pos len settings = do {
     (net, c) \<leftarrow> wpa_config_add_network (cn_net ce) (cn_prio ce) (conf s);
     let s = s\<lparr>conf := c\<rparr>;
     (case net of
        None \<Rightarrow> Some (-1, s)
      | Some n \<Rightarrow> do {
          let s = notify (Network_added (n_id n)) s;
          let n = (wpa_config_set_network_defaults n)\<lparr>n_temporary := True\<rparr>;
          (ok, n) \<leftarrow> (if \<not> cn_ssid ce then Some (False, n)
                     else do {
                       d \<leftarrow> rd_bytes ies (pos + 2) len;
                       run_settings settings (n\<lparr>n_ssid := Some d, n_ssid_len := len\<rparr>) });
          if ok then Some (0, wpa_supplicant_req_scan (cn_timer_ok ce) (cn_time ce) 0 0
                 (s\<lparr>conf := put_network n (conf s), disconnected := False, reassociate := True\<rparr>))
          else do {
            let s = notify (Network_removed (n_id n)) s;
            (_, c) \<leftarrow> wpa_config_remove_network (cn_prio2 ce) (put_network n (conf s)) (n_id n);
            Some (-1, s\<lparr>conf := c\<rparr>) } }) }"

definition interworking_connect_3gpp ::
  "conn_env \<Rightarrow> wpa_supplicant \<Rightarrow> wpa_bss \<Rightarrow> (int \<times> wpa_supplicant) option" where
  "interworking_connect_3gpp ce s b = do {
     ie \<leftarrow> wpa_bss_get_ie b 0;
     (case ie of
        None \<Rightarrow> Some (-1, s)
      | Some pos \<Rightarrow> do {
          len \<leftarrow> rd (b_ies b) (pos + 1);
          connect_network ce s (b_ies b) pos (unat len) (settings_3gpp ce (conf s)) }) }"

definition interworking_connect ::
  "conn_env \<Rightarrow> wpa_supplicant \<Rightarrow> ptr option \<Rightarrow> (int \<times> wpa_supplicant) option" where
  "interworking_connect ce s p = (case p of
     None \<Rightarrow> Some (-1, s)
   | Some a \<Rightarrow> do {
       b \<leftarrow> deref s a;
       ie \<leftarrow> wpa_bss_get_ie b 0;
       (case ie of
          None \<Rightarrow> Some (-1, s)
        | Some pos \<Rightarrow> do {
            len \<leftarrow> rd (b_ies b) (pos + 1);
            if len = 0 then Some (-1, s)
            else do {
              realm \<leftarrow> nai_realm_parse (cr_arr (cn_cred ce)) (cr_realm (cn_cred ce)) (cr_eap (cn_cred ce)) (anqp_nai_realm b);
              eap \<leftarrow> realm_loop (cr_methods (cn_cred ce)) (conf s) (cr_dup (cn_cred ce)) 0
                       (case realm of None \<Rightarrow> [] | Some rs \<Rightarrow> rs);
              (case eap of
                 None \<Rightarrow> do {
                   (r, s) \<leftarrow> interworking_connect_3gpp ce s b;
                   Some (if r = 0 then 0 else -1, s) }
               | Some e \<Rightarrow>
                   connect_network ce s (b_ies b) pos (unat len) (settings_realm ce (conf s) e)) } }) })"

section \<open>Selection\<close>

record iw_env =
  iw_anqp :: anqp_env
  iw_copy :: "nat \<Rightarrow> bool"
  iw_cred :: "ptr \<Rightarrow> cred_env"
  iw_cand :: "(ptr \<Rightarrow> ptr option) \<Rightarrow> ptr option"
  iw_rnd :: "nat \<Rightarrow> nat"
  iw_conn :: conn_env

text \<open>A candidate that is built but not wanted, because the selection is not automatic, is leaked.\<close>

fun collect_loop ::
  "iw_env \<Rightarrow> wpa_supplicant \<Rightarrow> candidates \<Rightarrow> nat \<Rightarrow> ptr list \<Rightarrow> (wpa_supplicant \<times> candidates \<times> nat) option" where
  "collect_loop env s c count [] = Some (s, c, count)"
| "collect_loop env s c count (a # as) = do {
     b \<leftarrow> deref s a;
     ok \<leftarrow> interworking_credentials_available (iw_cred env a) (conf s) b;
     if \<not> ok then collect_loop env s c count as
     else do {
       m \<leftarrow> macstr (b_bssid b);
       let s = wpa_msg (lit ''INTERWORKING-AP '' @ m) s;
       let (q, c) = build_candidate (iw_cand env (cd_heap c)) a c;
       c \<leftarrow> (if q \<noteq> None \<and> auto_select s then add_candidate q c else Some c);
       collect_loop env s c (count + 1) as } }"

definition interworking_select_network :: "iw_env \<Rightarrow> wpa_supplicant \<Rightarrow> wpa_supplicant option" where
  "interworking_select_network env s = do {
     let s = s\<lparr>network_select := False\<rparr>;
     (s, c, count) \<leftarrow> collect_loop env s no_candidates 0 (bss s);
     let s = (if count = 0
              then wpa_msg (lit ''INTERWORKING-NO-MATCH No network with matching credentials found'') s else s);
     (selected, s, c) \<leftarrow> arbiter_select (iw_rnd env) s c;
     (case selected of
        None \<Rightarrow> Some s
      | Some a \<Rightarrow> do { (_, s) \<leftarrow> interworking_connect (iw_conn env) s (Some a); Some s }) }"

section \<open>Fetching\<close>

abbreviation (input) WPA_BSS_ANQP_FETCH_TRIED :: u32 where "WPA_BSS_ANQP_FETCH_TRIED \<equiv> 64"
abbreviation (input) WLAN_EID_EXT_CAPAB :: u8 where "WLAN_EID_EXT_CAPAB \<equiv> 127"

text \<open>Whether an access point supports Interworking.\<close>

definition supports_interworking :: "wpa_bss \<Rightarrow> bool option" where
  "supports_interworking b =
     (if b_caps b AND IEEE80211_CAP_ESS = 0 then Some False
      else do {
        ie \<leftarrow> wpa_bss_get_ie b WLAN_EID_EXT_CAPAB;
        (case ie of
           None \<Rightarrow> Some False
         | Some pos \<Rightarrow> do {
             len \<leftarrow> rd (b_ies b) (pos + 1);
             if len < 4 then Some False
             else do { x \<leftarrow> rd (b_ies b) (pos + 5); Some (x AND 0x80 \<noteq> 0) } }) })"

fun fetch_loop :: "iw_env \<Rightarrow> wpa_supplicant \<Rightarrow> ptr list \<Rightarrow> (bool \<times> wpa_supplicant) option" where
  "fetch_loop env s [] = Some (False, s)"
| "fetch_loop env s (a # as) = do {
     b \<leftarrow> deref s a;
     ok \<leftarrow> supports_interworking b;
     if \<not> ok then fetch_loop env s as
     else if b_fetched b then fetch_loop env s as
     else if b_flags b AND WPA_BSS_ANQP_FETCH_TRIED \<noteq> 0 then fetch_loop env s as
     else do {
       let b = b\<lparr>b_flags := b_flags b OR WPA_BSS_ANQP_FETCH_TRIED\<rparr>;
       m \<leftarrow> macstr (b_bssid b);
       let s = wpa_msg (lit ''Starting ANQP fetch for '' @ m) (s\<lparr>bss_heap := (bss_heap s)(a \<mapsto> b)\<rparr>);
       (_, s) \<leftarrow> interworking_anqp_send_req (iw_anqp env) s b;
       Some (True, s) } }"

definition interworking_next_anqp_fetch :: "iw_env \<Rightarrow> wpa_supplicant \<Rightarrow> wpa_supplicant option" where
  "interworking_next_anqp_fetch env s =
     (if \<not> fetch_anqp_in_progress s then Some s
      else do {
        (found, s) \<leftarrow> fetch_loop env s (bss s);
        if found then Some s
        else do {
          let s = (wpa_msg (lit ''ANQP fetch completed'') s)\<lparr>fetch_anqp_in_progress := False\<rparr>;
          if network_select s then interworking_select_network env s else Some s } })"

fun untry_loop :: "wpa_supplicant \<Rightarrow> ptr list \<Rightarrow> wpa_supplicant option" where
  "untry_loop s [] = Some s"
| "untry_loop s (a # as) = do {
     b \<leftarrow> deref s a;
     untry_loop (s\<lparr>bss_heap := (bss_heap s)(a \<mapsto> b\<lparr>b_flags := b_flags b AND NOT WPA_BSS_ANQP_FETCH_TRIED\<rparr>)\<rparr>) as }"

definition interworking_start_fetch_anqp :: "iw_env \<Rightarrow> wpa_supplicant \<Rightarrow> wpa_supplicant option" where
  "interworking_start_fetch_anqp env s = do {
     s \<leftarrow> untry_loop s (bss s);
     interworking_next_anqp_fetch env (s\<lparr>fetch_anqp_in_progress := True\<rparr>) }"

definition interworking_fetch_anqp :: "iw_env \<Rightarrow> wpa_supplicant \<Rightarrow> (int \<times> wpa_supplicant) option" where
  "interworking_fetch_anqp env s =
     (if fetch_anqp_in_progress s \<or> network_select s then Some (0, s)
      else do {
        s \<leftarrow> interworking_start_fetch_anqp env (s\<lparr>network_select := False\<rparr>);
        Some (0, s) })"

definition interworking_stop_fetch_anqp :: "wpa_supplicant \<Rightarrow> wpa_supplicant" where
  "interworking_stop_fetch_anqp s =
     (if \<not> fetch_anqp_in_progress s then s else s\<lparr>fetch_anqp_in_progress := False\<rparr>)"

definition interworking_scan_res_handler :: "iw_env \<Rightarrow> wpa_supplicant \<Rightarrow> wpa_supplicant option" where
  "interworking_scan_res_handler env s = interworking_start_fetch_anqp env s"

definition interworking_select :: "bool \<Rightarrow> os_time option \<Rightarrow> wpa_supplicant \<Rightarrow> int \<Rightarrow> int \<times> wpa_supplicant" where
  "interworking_select timer_ok now s auto =
     (let s = interworking_stop_fetch_anqp s;
          s = s\<lparr>network_select := True, auto_select := auto \<noteq> 0\<rparr>;
          s = arbiter_message (lit ''Interworking Select Start. Scanning for ANQP Information...'') s;
          s = s\<lparr>scan_res_handler := Some Interworking_scan_res_handler, scan_req := 2\<rparr>
      in (0, wpa_supplicant_req_scan timer_ok now 0 0 s))"

section \<open>The response callback\<close>

definition interworking_anqp_resp_cb ::
  "iw_env \<Rightarrow> wpa_supplicant \<Rightarrow> bytes \<Rightarrow> gas_query_result \<Rightarrow> wpabuf option \<Rightarrow> wpabuf option \<Rightarrow> wpa_supplicant option" where
  "interworking_anqp_resp_cb env s dst result adv_proto resp = do {
     s \<leftarrow> anqp_resp_cb (iw_copy env) s dst result adv_proto resp;
     interworking_next_anqp_fetch env s }"

definition iw_cb :: "iw_env \<Rightarrow> cb_fun" where
  "iw_cb env cb dst token result adv_proto resp status s = (case cb of
     CB_anqp_resp_cb \<Rightarrow> anqp_resp_cb (iw_copy env) s dst result adv_proto resp
   | CB_interworking_anqp_resp_cb \<Rightarrow> interworking_anqp_resp_cb env s dst result adv_proto resp)"

section \<open>Sending a request\<close>

definition capable :: "wpa_bss \<Rightarrow> bool" where
  "capable b \<longleftrightarrow> supports_interworking b = Some True"

lemma get_ie_bounds:
  assumes "bss_wf b"
  obtains r where "wpa_bss_get_ie b i = Some r"
    "\<And>pos. r = Some pos \<Longrightarrow> pos + 1 < length (b_ies b) \<and> pos + 2 + unat (b_ies b ! (pos + 1)) \<le> length (b_ies b)"
proof -
  have w: "bss_ie.wf b" "b_ie_len b \<le> length (b_ies b)" using assms by (simp_all add: bss_wf_def bss_ie.wf_def)
  then obtain r where "wpa_bss_get_ie b i = Some r" "\<forall>p. r = Some p \<longrightarrow> complete_at (b_ies b) p (b_ie_len b)"
    using bss_ie.get_ie_first [OF w(1), of i] by blast
  then show ?thesis using w(2) by (intro that) (auto simp: complete_at_def)
qed

lemma supports_interworking_spec:
  assumes "bss_wf b"
  shows "supports_interworking b = Some (capable b)"
proof -
  obtain r where r: "wpa_bss_get_ie b 127 = Some r"
    "\<And>pos. r = Some pos \<Longrightarrow> pos + 1 < length (b_ies b) \<and> pos + 2 + unat (b_ies b ! (pos + 1)) \<le> length (b_ies b)"
    using get_ie_bounds [OF assms] by blast
  have "\<exists>x. supports_interworking b = Some x"
  proof (cases r)
    case None
    then show ?thesis using r(1) by (auto simp: supports_interworking_def)
  next
    case (Some pos)
    have "4 \<le> unat (b_ies b ! (pos + 1))" if "\<not> b_ies b ! (pos + 1) < 4" using that by (simp add: word_less_nat_alt)
    then show ?thesis using r(1) r(2) [OF Some] Some by (auto simp: supports_interworking_def rd_def)
  qed
  then show ?thesis by (auto simp: capable_def)
qed

lemma capable_static: "static b = static b' \<Longrightarrow> capable b = capable b'"
  unfolding capable_def supports_interworking_def wpa_bss_get_ie_def by (simp only: static_fields [of b b'])

lemma hs20_extra_Some: "\<exists>e. hs20_extra al = Some e \<and> (\<forall>x. e = Some x \<longrightarrow> wpabuf_inv x) \<and> (al \<longrightarrow> e \<noteq> None)"
proof (cases al)
  case False
  then show ?thesis by (simp add: hs20_extra_def wpabuf_alloc_def)
next
  case True
  obtain b where b: "wpabuf_alloc True 100 = Some b" by (simp add: wpabuf_alloc_def)
  let ?ds = "[put_be24 OUI_WFA, [17], [1], [2], [3], [4], [5]] :: bytes list"
  have p: "wpabuf_inv b" "wpabuf_tailroom b = 100" using wpabuf_alloc_props [OF b] by simp_all
  have fill: "\<exists>b2. wb.put_all b1 ?ds = Some b2 \<and> wpabuf_inv b2 \<and> wpabuf_data b2 = wpabuf_data b1 @ concat ?ds \<and>
      wpabuf_tailroom b2 = wpabuf_tailroom b1 - length (concat ?ds)"
    if "wpabuf_inv b1" "length (concat ?ds) \<le> wpabuf_tailroom b1" for b1
    using wb.put_all_fits [of b1 ?ds] that by simp
  have len: "4 + length (concat ?ds) \<le> wpabuf_tailroom b" using p(2) by simp
  from element_data [OF p(1) len, of "\<lambda>b. wb.put_all b ?ds" ANQP_VENDOR_SPECIFIC, OF fill] obtain l b1 b2 b3 where
    e: "gas_anqp_add_element b ANQP_VENDOR_SPECIFIC = Some (l, b1)" "wb.put_all b1 ?ds = Some b2"
      "gas_anqp_set_element_len b2 l = Some b3" "wpabuf_inv b3" by blast
  then show ?thesis
    using True b by (auto simp: hs20_extra_def wpabuf_put_as_data split: bind_splits)
qed

lemma anqp_build_req_Some:
  assumes "\<forall>x. extra = Some x \<longrightarrow> wpabuf_inv x"
  shows "\<exists>r. anqp_build_req al ids extra = Some r \<and> (\<forall>b. r = Some b \<longrightarrow> wpabuf_inv b \<and> 3 \<le> wpabuf_len b) \<and> (al \<longrightarrow> r \<noteq> None)"
proof (cases al)
  case False
  then show ?thesis
    by (simp add: anqp_build_req_def gas_anqp_build_initial_req_def gas_build_initial_req_def gas_build_req_def
        gas_anqp_open_def wpabuf_alloc_def)
next
  case True
  have "case extra of None \<Rightarrow> True | Some e \<Rightarrow> wpabuf_inv e" using assms by (simp split: option.split)
  from anqp_build_req_data [OF this] obtain b where
    "anqp_build_req True ids extra = Some (Some b)" "wpabuf_inv b" "7 \<le> length (wpabuf_data b)" by fastforce
  then show ?thesis using True length_wpabuf_data [of b] by auto
qed

text \<open>
  \<open>fresh_env\<close>: the allocator of queries returns unused addresses and the driver accepts frames. \<open>live_env\<close>:
  nothing that sending a request needs fails, and there is memory for at least 257 queries.
\<close>

definition fresh_env :: "anqp_env \<Rightarrow> bool" where
  "fresh_env env \<longleftrightarrow> ge_tx (ae_gas env) = 0 \<and> (\<forall>h q. ae_query env h = Some q \<longrightarrow> h q = None)"

definition live_env :: "anqp_env \<Rightarrow> bool" where
  "live_env env \<longleftrightarrow> fresh_env env \<and> ae_req env \<and> ae_extra env \<and> (\<forall>h. card (dom h) \<le> 256 \<longrightarrow> ae_query env h \<noteq> None)"

text \<open>
  What sending a request does to the query layer: it keeps its invariant and the other queries, and in the end
  there may be one more query, to \<open>dst\<close> with the callback \<open>cb\<close>.
\<close>

definition queries_added :: "bytes \<Rightarrow> gas_cb \<Rightarrow> wpa_supplicant \<Rightarrow> wpa_supplicant \<Rightarrow> bool" where
  "queries_added dst cb s s' \<longleftrightarrow>
     (\<forall>q v. get_query s q = Some v \<longrightarrow> get_query s' q = Some v) \<and>
     (\<forall>q v. get_query s' q = Some v \<longrightarrow> get_query s q = Some v \<or> q_addr v = dst \<and> q_cb v = cb)"

definition pending_list :: "wpa_supplicant \<Rightarrow> ptr list" where
  "pending_list s = (case gas s of None \<Rightarrow> [] | Some g \<Rightarrow> gas_pending g)"

lemma token_free:
  assumes "length (gas_pending g) < 256"
  shows "\<exists>tok. \<not> token_used g dst tok"
proof (rule ccontr)
  assume "\<not> (\<exists>tok. \<not> token_used g dst tok)"
  then have "\<forall>tok. \<exists>p \<in> set (gas_pending g). key_of g p = (dst, tok)" by (simp add: token_used_def list_ex_iff)
  then have "\<forall>tok :: u8. \<exists>p \<in> set (gas_pending g). snd (key_of g p) = tok" by (metis snd_conv)
  then have "(UNIV :: u8 set) \<subseteq> (\<lambda>p. snd (key_of g p)) ` set (gas_pending g)" by (metis image_eqI subsetI)
  then have "card (UNIV :: u8 set) \<le> card ((\<lambda>p. snd (key_of g p)) ` set (gas_pending g))" by (intro card_mono) auto
  also have "\<dots> \<le> card (set (gas_pending g))" by (rule card_image_le) simp
  also have "\<dots> \<le> length (gas_pending g)" by (rule card_length)
  finally show False using assms by (simp add: card_word)
qed

lemma send_query_spec:
  assumes "gas_inv D s" "gas s \<noteq> None" "length dst = 6" "\<forall>b. buf = Some b \<longrightarrow> wpabuf_inv b \<and> 3 \<le> wpabuf_len b"
    "fresh_env env"
  shows "\<exists>r s'. send_query env s dst freq buf cb = Some (r, s') \<and> gas_inv D s' \<and> gas_frame s s' \<and> queries_added dst cb s s' \<and>
    length (pending_list s') \<le> Suc (length (pending_list s)) \<and>
    (live_env env \<and> card D \<le> 1 \<and> buf \<noteq> None \<and> length (pending_list s) < 256 \<longrightarrow>
      (\<exists>q v. get_query s' q = Some v \<and> q \<in> set (pending_list s') \<and> q_addr v = dst \<and> q_cb v = cb))"
proof (cases buf)
  case None
  then show ?thesis using assms(1) by (simp add: send_query_def gas_frame_def queries_added_def)
next
  case (Some b)
  obtain g where g: "gas s = Some g" using assms(2) by blast
  have b: "wpabuf_inv b" "3 \<le> wpabuf_len b" using assms(4) Some by simp_all
  show ?thesis
  proof (cases "ae_query env (gas_heap g)")
    case None
    obtain k where "find_token g dst 0 256 = Some k" using find_token_full [OF assms(1) g assms(3)] by blast
    then have "send_query env s dst freq buf cb = Some (-1, s)"
      using None Some g b(2) by (simp add: send_query_def gas_query_req_def alloc_query_def)
    moreover have "\<not> (live_env env \<and> card D \<le> 1 \<and> length (pending_list s) < 256)"
    proof
      assume l: "live_env env \<and> card D \<le> 1 \<and> length (pending_list s) < 256"
      have "dom (gas_heap g) = set (gas_pending g) \<union> D" using assms(1) g by (simp add: gas_inv_def)
      then have "card (dom (gas_heap g)) \<le> length (gas_pending g) + card D"
        using card_Un_le [of "set (gas_pending g)" D] card_length [of "gas_pending g"] by simp
      then have "card (dom (gas_heap g)) \<le> 256" using l g by (simp add: pending_list_def)
      then have "ae_query env (gas_heap g) \<noteq> None" using l by (simp add: live_env_def)
      then show False using None by simp
    qed
    ultimately show ?thesis using assms(1) by (auto simp: gas_frame_def queries_added_def)
  next
    case (Some q)
    then have "gas_heap g q = None" "ge_tx (ae_gas env) = 0" using assms(5) by (simp_all add: fresh_env_def)
    from gas_query_req_spec [OF assms(1) g assms(3) b this, of freq cb] obtain r s' where
      r: "gas_query_req (Some q) (ae_gas env) s dst freq b cb = Some (r, s')" "gas_inv D s'" "gas_frame s s'"
        "\<forall>x. x \<noteq> q \<longrightarrow> get_query s' x = get_query s x"
        "if \<forall>tok. token_used g dst tok then r = -1 \<and> s' = s
         else 0 \<le> r \<and> r < 256 \<and> \<not> token_used g dst (word_of_int r) \<and>
           (\<exists>g' v. gas s' = Some g' \<and> gas_pending g' = q # gas_pending g \<and> gas_heap g' q = Some v \<and>
              key_of g' q = (dst, word_of_int r) \<and> q_cb v = cb \<and> \<not> q_wait_comeback v \<and> q_resp v = None) \<and>
           tx_log s' = tx_log s @ [(freq, dst, (wpabuf_data b)[2 := word_of_int r])]"
      by blast
    have e: "send_query env s dst freq buf cb = Some (if r < 0 then -1 else 0, s')"
      using r(1) \<open>buf = Some b\<close> Some g by (simp add: send_query_def alloc_query_def)
    have gq: "get_query s q = None" using \<open>gas_heap g q = None\<close> g by (simp add: get_query_def)
    show ?thesis
    proof (cases "\<forall>tok. token_used g dst tok")
      case True
      then have "s' = s" using r(5) by simp
      moreover have "\<not> length (pending_list s) < 256" using True token_free [of g dst] g by (auto simp: pending_list_def)
      ultimately show ?thesis using e r(2,3) by (simp add: queries_added_def)
    next
      case False
      then obtain g' v where v: "gas s' = Some g'" "gas_pending g' = q # gas_pending g" "gas_heap g' q = Some v"
          "key_of g' q = (dst, word_of_int r)" "q_cb v = cb"
        using r(5) [unfolded if_not_P [OF False]] by blast
      have q: "get_query s' q = Some v" "q_addr v = dst" using v by (simp_all add: get_query_def key_of_def)
      have "queries_added dst cb s s'"
        unfolding queries_added_def
      proof (intro conjI allI impI)
        show "get_query s' x = Some y" if "get_query s x = Some y" for x y using r(4) that gq by (cases "x = q") simp_all
        show "get_query s x = Some y \<or> q_addr y = dst \<and> q_cb y = cb" if "get_query s' x = Some y" for x y
          using r(4) that q v(5) by (cases "x = q") simp_all
      qed
      moreover have "pending_list s' = q # pending_list s" using v(1,2) g by (simp add: pending_list_def)
      ultimately show ?thesis using e r(2,3) q v(5) by (intro exI [of _ "if r < 0 then -1 else 0"] exI [of _ s']) auto
    qed
  qed
qed

definition sent :: "anqp_env \<Rightarrow> ptr set \<Rightarrow> bytes \<Rightarrow> wpa_supplicant \<Rightarrow> wpa_supplicant \<Rightarrow> bool" where
  "sent env D dst s s' \<longleftrightarrow> gas_inv D s' \<and> gas_frame s s' \<and> queries_added dst CB_interworking_anqp_resp_cb s s' \<and>
     length (pending_list s') \<le> Suc (length (pending_list s)) \<and>
     (live_env env \<and> card D \<le> 1 \<and> length (pending_list s) < 256 \<longrightarrow>
       (\<exists>q v. get_query s' q = Some v \<and> q \<in> set (pending_list s') \<and> q_addr v = dst \<and> q_cb v = CB_interworking_anqp_resp_cb))"

lemma send_req_spec:
  assumes "gas_inv D s" "gas s \<noteq> None" "bss_wf b" "fresh_env env"
  shows "\<exists>r s'. interworking_anqp_send_req env s b = Some (r, s') \<and> sent env D (b_bssid b) s s'"
proof -
  have w: "b_ie_len b \<le> length (b_ies b)" "length (b_bssid b) = 6" using assms(3) by (simp_all add: bss_wf_def)
  obtain v where v: "wpa_bss_get_vendor_ie b HS20_IE_VENDOR_TYPE = Some v" using wpa_bss_get_ie_facts(2) [OF w(1)] by blast
  obtain x where x: "(if v \<noteq> None then hs20_extra (ae_extra env) else Some None) = Some x"
      "\<forall>y. x = Some y \<longrightarrow> wpabuf_inv y" "ae_extra env \<and> v \<noteq> None \<longrightarrow> x \<noteq> None"
    using hs20_extra_Some [of "ae_extra env"] by (cases v) auto
  show ?thesis
  proof (cases "v \<noteq> None \<and> x = None")
    case True
    then have "interworking_anqp_send_req env s b = Some (-1, s)" using v x(1) by (simp add: interworking_anqp_send_req_def)
    moreover have "\<not> live_env env" using True x(3) by (auto simp: live_env_def)
    ultimately show ?thesis using assms(1) by (simp add: sent_def gas_frame_def queries_added_def)
  next
    case False
    obtain buf where buf: "anqp_build_req (ae_req env) info_ids x = Some buf"
        "\<forall>y. buf = Some y \<longrightarrow> wpabuf_inv y \<and> 3 \<le> wpabuf_len y" "ae_req env \<longrightarrow> buf \<noteq> None"
      using anqp_build_req_Some [OF x(2)] by blast
    have e: "interworking_anqp_send_req env s b = send_query env s (b_bssid b) (b_freq b) buf CB_interworking_anqp_resp_cb"
      using v x(1) buf(1) False by (auto simp: interworking_anqp_send_req_def)
    have "live_env env \<Longrightarrow> buf \<noteq> None" using buf(3) by (simp add: live_env_def)
    then show ?thesis
      unfolding e using send_query_spec [OF assms(1,2) w(2) buf(2) assms(4), of "b_freq b" CB_interworking_anqp_resp_cb]
      by (fastforce simp: sent_def)
  qed
qed

lemma gas_frame_sel:
  assumes "gas_frame s s'"
  shows "bss_heap s' = bss_heap s" "quiet s s'" "fetch_anqp_in_progress s' = fetch_anqp_in_progress s"
    "network_select s' = network_select s" "bss s' = bss s"
proof -
  have e: "s' = s\<lparr>gas := gas s', eloop := eloop s', tx_log := tx_log s'\<rparr>" using assms by (simp add: gas_frame_def)
  show "bss_heap s' = bss_heap s" "fetch_anqp_in_progress s' = fetch_anqp_in_progress s"
    "network_select s' = network_select s" "bss s' = bss s"
    by (subst e, simp)+
  show "quiet s s'" by (subst e) (simp add: quiet_def heap_ok_def)
qed

section \<open>The fetch loop\<close>

definition untried :: "wpa_bss \<Rightarrow> bool" where
  "untried b \<longleftrightarrow> capable b \<and> \<not> b_fetched b \<and> b_flags b AND WPA_BSS_ANQP_FETCH_TRIED = 0"

text \<open>The state in which the request for the entry \<open>a\<close> is sent.\<close>

definition marked :: "wpa_supplicant \<Rightarrow> ptr \<Rightarrow> wpa_supplicant \<Rightarrow> bool" where
  "marked s a s1 \<longleftrightarrow> (\<exists>b m. bss_heap s a = Some b \<and>
     s1 = s\<lparr>bss_heap := (bss_heap s)(a \<mapsto> b\<lparr>b_flags := b_flags b OR WPA_BSS_ANQP_FETCH_TRIED\<rparr>), messages := m\<rparr>)"

lemma fetch_loop_spec:
  assumes "gas_inv D s" "gas s \<noteq> None" "bss_inv s" "fresh_env (iw_anqp env)" "set as \<subseteq> set (bss s)"
  shows "case find (\<lambda>a. untried (the (bss_heap s a))) as of
      None \<Rightarrow> fetch_loop env s as = Some (False, s)
    | Some a \<Rightarrow> \<exists>s1 s'. fetch_loop env s as = Some (True, s') \<and> marked s a s1 \<and>
        sent (iw_anqp env) D (b_bssid (the (bss_heap s a))) s1 s'"
  using assms(5)
proof (induction as)
  case (Cons a as)
  obtain b where b: "bss_heap s a = Some b" "deref s a = Some b" "bss_wf b"
    using bss_inv_deref [OF assms(3)] Cons.prems by (metis list.set_intros(1) subsetD)
  have sup: "supports_interworking b = Some (capable b)" using supports_interworking_spec [OF b(3)] .
  show ?case
  proof (cases "untried b")
    case False
    then have e: "fetch_loop env s (a # as) = fetch_loop env s as" using b(2) sup by (auto simp: untried_def)
    have f: "find (\<lambda>a. untried (the (bss_heap s a))) (a # as) = find (\<lambda>a. untried (the (bss_heap s a))) as"
      using b(1) False by simp
    show ?thesis unfolding e f using Cons by (simp del: fetch_loop.simps)
  next
    case True
    let ?b = "b\<lparr>b_flags := b_flags b OR WPA_BSS_ANQP_FETCH_TRIED\<rparr>"
    let ?m = "lit ''Starting ANQP fetch for '' @ mac2str (b_bssid b)"
    let ?s1 = "wpa_msg ?m (s\<lparr>bss_heap := (bss_heap s)(a \<mapsto> ?b)\<rparr>)"
    have g: "gas_inv D ?s1" "gas ?s1 \<noteq> None" using assms(1,2) by (simp_all add: gas_inv_def wpa_msg_def)
    have wf: "bss_wf ?b" using b(3) by (simp add: bss_wf_def)
    obtain r s' where s': "interworking_anqp_send_req (iw_anqp env) ?s1 ?b = Some (r, s')" "sent (iw_anqp env) D (b_bssid ?b) ?s1 s'"
      using send_req_spec [OF g wf assms(4)] by blast
    have "macstr (b_bssid b) = Some (mac2str (b_bssid b))" using b(3) by (simp add: macstr_def rd_bytes_def bss_wf_def)
    then have "fetch_loop env s (a # as) = Some (True, s')"
      using True b(2) sup s'(1) by (simp add: untried_def Let_def)
    moreover have "marked s a ?s1" using b(1) by (auto simp: marked_def wpa_msg_def)
    ultimately show ?thesis using True b(1) s'(2) by auto
  qed
qed simp

definition fetch_todo :: "wpa_supplicant \<Rightarrow> nat" where
  "fetch_todo s = length (filter (\<lambda>a. untried (the (bss_heap s a))) (bss s))"

lemma filter_less:
  assumes "\<And>x. x \<in> set xs \<Longrightarrow> Q x \<Longrightarrow> P x" "a \<in> set xs" "P a" "\<not> Q a"
  shows "length (filter Q xs) < length (filter P xs)"
proof -
  have "filter Q xs = filter Q (filter P xs)" using assms(1) by (auto intro: filter_cong)
  moreover have "a \<in> set (filter P xs)" using assms(2,3) by simp
  ultimately show ?thesis using length_filter_less [of a "filter P xs" Q] assms(4) by simp
qed

lemma flag_set: "(x :: u32) OR 64 AND 64 \<noteq> 0"
proof -
  have "bit (x OR 64 AND 64) 6" by (simp add: bit_simps bit_numeral_rec)
  then show ?thesis by (metis bit_0_eq bot_apply bot_bool_def)
qed

lemma marked_props:
  assumes "marked s a s1" "a \<in> set (bss s)" "untried (the (bss_heap s a))"
  shows "quiet s s1" "gas s1 = gas s" "fetch_anqp_in_progress s1 = fetch_anqp_in_progress s" "network_select s1 = network_select s"
    "fetch_todo s1 < fetch_todo s" "get_query s1 = get_query s" "pending_list s1 = pending_list s"
proof -
  obtain b m where b: "bss_heap s a = Some b"
      "s1 = s\<lparr>bss_heap := (bss_heap s)(a \<mapsto> b\<lparr>b_flags := b_flags b OR WPA_BSS_ANQP_FETCH_TRIED\<rparr>), messages := m\<rparr>"
    using assms(1) by (auto simp: marked_def)
  show "quiet s s1" using b by (auto simp: quiet_def heap_ok_def anqp_ok_def)
  show "gas s1 = gas s" "fetch_anqp_in_progress s1 = fetch_anqp_in_progress s" "network_select s1 = network_select s"
    "get_query s1 = get_query s" "pending_list s1 = pending_list s"
    using b by (simp_all add: get_query_def fun_eq_iff pending_list_def)
  have "\<not> untried (the (bss_heap s1 a))" using b flag_set by (simp add: untried_def)
  then show "fetch_todo s1 < fetch_todo s"
    unfolding fetch_todo_def using b assms(2,3)
    by (simp, intro filter_less [where a = a]) auto
qed

section \<open>Selecting and connecting never fault\<close>

lemma set_var_total:
  assumes "find_field var = Some d" "\<not> numeric (pd_parser d)" "shape_ok n"
  shows "\<exists>r n'. set_var ce var value n = Some (r, n') \<and> shape_ok n'"
  using config_set_total [OF assms(3,1,2), of "cn_set ce var" "cr_methods (cn_cred ce)" "value"]
  by (auto simp: set_var_def succeeds_def)

lemma set_quoted_total:
  assumes "find_field var = Some d" "\<not> numeric (pd_parser d)" "shape_ok n"
  shows "\<exists>r n'. set_quoted ce var value n = Some (r, n') \<and> shape_ok n'"
  using config_set_total [OF assms(3,1,2), of "\<lambda>k. cn_set ce var (k + 1)" "cr_methods (cn_cred ce)"
      "Some ([QUOTE] @ value @ [QUOTE])"] assms(3)
  by (auto simp: set_quoted_def wpa_config_set_quoted_def succeeds_def)

definition good_setting :: "setting \<Rightarrow> bool" where
  "good_setting f \<longleftrightarrow> (\<forall>n. shape_ok n \<longrightarrow> (\<exists>r n'. f n = Some (r, n') \<and> shape_ok n'))"

lemma connect_fields:
  assumes "var \<in> {''eap'', ''identity'', ''password'', ''pcsc'', ''phase2'', ''ca_cert''}"
  shows "\<exists>d. find_field var = Some d \<and> \<not> numeric (pd_parser d)"
  using assms by (elim insertE emptyE) (simp_all add: find_field_def ssid_fields_def numeric_def)

lemma good_settings:
  assumes "var \<in> {''eap'', ''identity'', ''password'', ''pcsc'', ''phase2'', ''ca_cert''}"
  shows "good_setting (set_var ce var value)" "good_setting (set_quoted ce var t)"
  using connect_fields [OF assms] set_var_total set_quoted_total by (auto simp: good_setting_def)

lemma good_set_home: "var \<in> {''eap'', ''identity'', ''password'', ''pcsc'', ''phase2'', ''ca_cert''} \<Longrightarrow>
    list_all good_setting (set_home ce var value)"
  using good_settings(2) by (simp add: set_home_def)

lemma run_settings_total:
  "list_all good_setting fs \<Longrightarrow> shape_ok n \<Longrightarrow> \<exists>ok n'. run_settings fs n = Some (ok, n') \<and> shape_ok n'"
proof (induction fs arbitrary: n)
  case (Cons f fs)
  obtain r n' where "f n = Some (r, n')" "shape_ok n'" using Cons.prems by (auto simp: good_setting_def)
  then show ?case using Cons by (cases "r < 0") auto
qed auto

lemma good_root_nai: "good_setting (set_root_nai ce imsi pre)"
  unfolding good_setting_def
proof (intro allI impI)
  fix n assume n: "shape_ok n"
  have "\<exists>r n'. set_quoted ce ''identity'' x n = Some (r, n') \<and> shape_ok n'" for x
    using good_settings(2) [of "''identity''" ce x] n by (simp add: good_setting_def)
  then show "\<exists>r n'. set_root_nai ce imsi pre n = Some (r, n') \<and> shape_ok n'"
    using n by (simp add: set_root_nai_def split: option.split)
qed

lemma good_3gpp: "list_all good_setting (settings_3gpp ce c)"
  using good_settings good_root_nai good_set_home by (simp add: settings_3gpp_def)

lemma good_phase2:
  assumes "eap_get_name (cr_methods (cn_cred ce)) EAP_VENDOR_IETF m \<noteq> None"
  shows "good_setting (set_phase2 ce auth m)"
  using assms good_settings(1) [of "''phase2''" ce] by (auto simp: good_setting_def set_phase2_def)

lemma good_realm:
  assumes "nai_realm_cred_username (cr_methods (cn_cred ce)) e"
  shows "list_all good_setting (settings_realm ce c e)"
proof -
  have "list_all good_setting (phase2_settings ce e)"
    using assms good_phase2 good_settings(1) [of "''phase2''" ce]
    by (auto simp: phase2_settings_def nai_realm_cred_username_def split: if_splits)
  then show ?thesis using good_settings(1) [of "''eap''" ce] good_set_home by (simp add: settings_realm_def)
qed

lemma realm_loop_cred: "realm_loop ms c f i rs = Some (Some e) \<Longrightarrow> nai_realm_cred_username ms e"
proof (induction rs arbitrary: i)
  case (Cons r rs)
  show ?case
  proof (cases "nai_realm_match (f i) r (c_home_realm c)")
    case True
    obtain x where x: "nai_realm_find_eap ms c r = Some x" using Cons.prems True by (cases "nai_realm_find_eap ms c r") auto
    show ?thesis
    proof (cases x)
      case None
      then show ?thesis using Cons x True by auto
    next
      case (Some y)
      then have "y = e" using Cons.prems x True by auto
      then show ?thesis
        using x Some by (auto simp: nai_realm_find_eap_def find_Some_iff split: if_splits Option.bind_splits)
    qed
  next
    case False
    then show ?thesis using Cons by auto
  qed
qed simp

lemma update_prio_conf: "wpa_config_update_prio_list al c = Some (r, c') \<Longrightarrow> c_ssid c' = c_ssid c"
  using update_prio_list_total [of al c] by auto

lemma remove_network_total: "\<exists>r c'. wpa_config_remove_network als c i = Some (r, c')"
proof (cases "unlink_network i (c_ssid c)")
  case (Some ns)
  then show ?thesis
    using update_prio_list_total [of als "c\<lparr>c_ssid := ns\<rparr>"] by (auto simp: wpa_config_remove_network_def)
qed (simp add: wpa_config_remove_network_def)

text \<open>Selection touches neither the query layer nor the progress of the fetch.\<close>

definition kept :: "wpa_supplicant \<Rightarrow> wpa_supplicant \<Rightarrow> bool" where
  "kept s s' \<longleftrightarrow> gas s' = gas s \<and> fetch_anqp_in_progress s' = fetch_anqp_in_progress s"

lemma kept_refl [simp]: "kept s s"
  by (simp add: kept_def)

lemma kept_req_scan [simp]: "kept s (wpa_supplicant_req_scan x y z w s') = kept s s'"
  by (simp add: kept_def wpa_supplicant_req_scan_def register_timer_def cancel_timer_def)

lemma connect_network_total:
  assumes "max_id (-1) (c_ssid (conf s)) < 2 ^ 31 - 1" "pos + 2 + len \<le> length ies" "list_all good_setting fs"
  shows "\<exists>r s'. connect_network ce s ies pos len fs = Some (r, s') \<and> kept s s'"
proof (cases "cn_net ce")
  case False
  then show ?thesis using assms(1) by (simp add: connect_network_def wpa_config_add_network_def Let_def kept_def)
next
  case True
  let ?n = "zero_ssid\<lparr>n_id := max_id (-1) (c_ssid (conf s)) + 1\<rparr>"
  obtain c where c: "wpa_config_add_network True (cn_prio ce) (conf s) = Some (Some ?n, c)"
    using assms(1) update_prio_list_total [of "cn_prio ce" "(conf s)\<lparr>c_ssid := c_ssid (conf s) @ [?n]\<rparr>"]
    by (auto simp: wpa_config_add_network_def Let_def)
  let ?n1 = "(wpa_config_set_network_defaults ?n)\<lparr>n_temporary := True\<rparr>"
  have shape: "shape_ok (?n1\<lparr>n_ssid := x, n_ssid_len := y\<rparr>)" for x y
    using shape_ok_zero by (simp add: shape_ok_def wpa_config_set_network_defaults_def)
  obtain ok n where n: "(if \<not> cn_ssid ce then Some (False, ?n1)
      else do { d \<leftarrow> rd_bytes ies (pos + 2) len; run_settings fs (?n1\<lparr>n_ssid := Some d, n_ssid_len := len\<rparr>) }) = Some (ok, n)"
    using run_settings_total [OF assms(3) shape, of len "Some (take len (drop (pos + 2) ies))"] assms(2)
    by (cases "cn_ssid ce") (auto simp: rd_bytes_def)
  show ?thesis
  proof (cases ok)
    case ok: True
    then show ?thesis using c n True by (simp add: connect_network_def Let_def) (simp add: kept_def notify_def)
  next
    case False
    obtain r c' where "wpa_config_remove_network (cn_prio2 ce) (put_network n c) (n_id n) = Some (r, c')"
      using remove_network_total by blast
    then show ?thesis using c n False True by (simp add: connect_network_def Let_def kept_def notify_def)
  qed
qed

lemma interworking_connect_total:
  assumes "bss_heap s a = Some b" "bss_wf b" "anqp_ok b" "max_id (-1) (c_ssid (conf s)) < 2 ^ 31 - 1"
  shows "\<exists>r s'. interworking_connect ce s (Some a) = Some (r, s') \<and> kept s s'"
proof -
  obtain ie where ie: "wpa_bss_get_ie b 0 = Some ie"
      "\<And>pos. ie = Some pos \<Longrightarrow> pos + 1 < length (b_ies b) \<and> pos + 2 + unat (b_ies b ! (pos + 1)) \<le> length (b_ies b)"
    using get_ie_bounds [OF assms(2)] by blast
  show ?thesis
  proof (cases ie)
    case None
    then show ?thesis using ie(1) assms(1) by (simp add: interworking_connect_def deref_def kept_def)
  next
    case (Some pos)
    define len where "len = b_ies b ! (pos + 1)"
    have l: "rd (b_ies b) (pos + 1) = Some len" "pos + 2 + unat len \<le> length (b_ies b)"
      using ie(2) [OF Some] by (simp_all add: rd_def len_def)
    obtain rs where rs: "nai_realm_parse (cr_arr (cn_cred ce)) (cr_realm (cn_cred ce)) (cr_eap (cn_cred ce)) (anqp_nai_realm b) = Some rs"
        "\<forall>l. rs = Some l \<longrightarrow> list_all realm_wf l"
      using nai_realm_parse_total [of "anqp_nai_realm b" "cr_arr (cn_cred ce)" "cr_realm (cn_cred ce)" "cr_eap (cn_cred ce)"] assms(3)
      by (auto simp: anqp_ok_def elim!: succeedsE split: option.splits)
    then have "list_all realm_wf (case rs of None \<Rightarrow> [] | Some rs \<Rightarrow> rs)" by (simp split: option.split)
    then obtain e where e: "realm_loop (cr_methods (cn_cred ce)) (conf s) (cr_dup (cn_cred ce)) 0
        (case rs of None \<Rightarrow> [] | Some rs \<Rightarrow> rs) = Some e"
      using realm_loop_total by blast
    obtain r3 s3 where c3: "connect_network ce s (b_ies b) pos (unat len) (settings_3gpp ce (conf s)) = Some (r3, s3)" "kept s s3"
      using connect_network_total [OF assms(4) l(2) good_3gpp] by blast
    then have c3': "interworking_connect_3gpp ce s b = Some (r3, s3)"
      using ie(1) Some l(1) by (simp add: interworking_connect_3gpp_def)
    show ?thesis
    proof (cases e)
      case None
      then show ?thesis using ie(1) Some l(1) rs(1) e c3(2) c3' assms(1) by (simp add: interworking_connect_def deref_def)
    next
      case (Some x)
      have "nai_realm_cred_username (cr_methods (cn_cred ce)) x" using realm_loop_cred e Some by blast
      then obtain r4 s4 where "connect_network ce s (b_ies b) pos (unat len) (settings_realm ce (conf s) x) = Some (r4, s4)" "kept s s4"
        using connect_network_total [OF assms(4) l(2) good_realm] by blast
      then show ?thesis using ie(1) \<open>ie = Some pos\<close> l(1) rs(1) e Some assms(1) by (simp add: interworking_connect_def deref_def)
    qed
  qed
qed

text \<open>
  \<open>iw_ok\<close>: what selection relies on. Every entry of the BSS table has a terminated SSID and passes the BSSID
  filter, there is an arbiter whose first filter is not the random one, and network ids are not exhausted.
\<close>

definition iw_ok :: "wpa_supplicant \<Rightarrow> bool" where
  "iw_ok s \<longleftrightarrow> bss_inv s \<and> heap_ok s \<and>
     (\<forall>a b. bss_heap s a = Some b \<longrightarrow> 0 \<in> set (b_ssid b) \<and> filter_admits s (b_bssid b)) \<and>
     max_id (-1) (c_ssid (conf s)) < 2 ^ 31 - 1 \<and>
     (\<exists>a. arb s = Some a \<and> (arb_filters a = [] \<or> hd (arb_filters a) \<noteq> Random_filter))"

lemma iw_ok_quiet:
  assumes "quiet s s'" "iw_ok s"
  shows "iw_ok s'"
proof -
  have "0 \<in> set (b_ssid b') \<and> filter_admits s' (b_bssid b')" if h: "bss_heap s' a = Some b'" for a b'
  proof -
    obtain b where "bss_heap s a = Some b" "static b = static b'" using quiet_bss(2) [OF assms(1) h] by blast
    moreover from this have "0 \<in> set (b_ssid b) \<and> filter_admits s (b_bssid b)" using assms(2) unfolding iw_ok_def by blast
    moreover have "filter_admits s' = filter_admits s" using assms(1) by (simp add: fun_eq_iff filter_admits_def quiet_def)
    ultimately show ?thesis using static_fields(1,2) [of b b'] by simp
  qed
  then show ?thesis using assms quiet_inv [OF assms(1)] by (simp add: iw_ok_def quiet_def)
qed

text \<open>The candidates while they are collected: those on the list are all there are, if selection is automatic.\<close>

definition collected :: "wpa_supplicant \<Rightarrow> candidates \<Rightarrow> bool" where
  "collected s c \<longleftrightarrow> (if auto_select s then cand_ok s c else cd_list c = [])"

lemma says_fields:
  assumes "says s s'"
  shows "gas s' = gas s" "conf s' = conf s" "auto_select s' = auto_select s" "bss s' = bss s"
    "fetch_anqp_in_progress s' = fetch_anqp_in_progress s"
  using arg_cong [OF assms [unfolded says_def], of fetch_anqp_in_progress] arg_cong [OF assms [unfolded says_def], of gas] arg_cong [OF assms [unfolded says_def], of conf]
    arg_cong [OF assms [unfolded says_def], of auto_select] arg_cong [OF assms [unfolded says_def], of bss] by simp_all

lemma says_wpa_msg [simp]: "says s (wpa_msg m s') = says s s'"
  by (simp add: says_def wpa_msg_def)

lemma wpa_msg_sel [simp]:
  "auto_select (wpa_msg m s) = auto_select s" "bss_heap (wpa_msg m s) = bss_heap s" "gas (wpa_msg m s) = gas s"
  "bss (wpa_msg m s) = bss s" "network_select (wpa_msg m s) = network_select s"
  by (simp_all add: wpa_msg_def)

lemma collected_msg [simp]: "collected (wpa_msg m s) c = collected s c" "cand_ok (wpa_msg m s) c = cand_ok s c"
  by (simp_all add: collected_def wpa_msg_def cand_ok_def)

lemma collect_add:
  assumes "cand_ok s c" "cd_heap c q = None" "bss_heap s a = Some b" "bss_wf b"
  shows "cand_ok s (c\<lparr>cd_heap := (cd_heap c)(q \<mapsto> a), cd_list := cd_list c @ [q]\<rparr>)"
proof -
  have q: "q \<notin> set (cd_list c)" using assms(1,2) by (auto simp: cand_ok_def list_all_iff live_def)
  then have "list_all (live (bss_heap s) ((cd_heap c)(q \<mapsto> a))) (cd_list c)"
    using assms(1) by (auto simp: cand_ok_def list_all_iff live_def)
  then show ?thesis using assms q by (auto simp: cand_ok_def live_def)
qed

lemma collect_loop_total:
  assumes "bss_inv s" "heap_ok s" "\<And>h q. iw_cand env h = Some q \<Longrightarrow> h q = None" "set as \<subseteq> set (bss s)" "collected s c"
  shows "\<exists>s' c' k. collect_loop env s c n as = Some (s', c', k) \<and> says s s' \<and> collected s' c'"
  using assms(1,2,4,5)
proof (induction as arbitrary: s c n)
  case (Cons a as)
  obtain b where b: "bss_heap s a = Some b" "deref s a = Some b" "bss_wf b"
    using bss_inv_deref [OF Cons.prems(1)] Cons.prems(3) by (metis list.set_intros(1) subsetD)
  obtain ok where ok: "interworking_credentials_available (iw_cred env a) (conf s) b = Some ok"
    using credentials_total [of b "iw_cred env a" "conf s"] Cons.prems(2) b(1) by (auto simp: heap_ok_def)
  show ?case
  proof (cases ok)
    case False
    then show ?thesis using Cons.IH [OF Cons.prems(1,2) _ Cons.prems(4)] Cons.prems(3) b(2) ok by simp
  next
    case True
    have m: "macstr (b_bssid b) = Some (mac2str (b_bssid b))" using b(3) by (simp add: macstr_def rd_bytes_def bss_wf_def)
    let ?s = "wpa_msg (lit ''INTERWORKING-AP '' @ mac2str (b_bssid b)) s"
    have s: "bss_inv ?s" "heap_ok ?s" "set as \<subseteq> set (bss ?s)"
      using Cons.prems(1-3) by (simp_all add: wpa_msg_def bss_inv_def heap_ok_def)
    obtain q c1 where q: "build_candidate (iw_cand env (cd_heap c)) a c = (q, c1)" by fastforce
    have "\<exists>c2. (if q \<noteq> None \<and> auto_select s then add_candidate q c1 else Some c1) = Some c2 \<and> collected ?s c2"
    proof (cases "iw_cand env (cd_heap c)")
      case None
      then show ?thesis using q Cons.prems(4) by (simp add: build_candidate_def)
    next
      case (Some x)
      then have x: "cd_heap c x = None" using assms(3) by blast
      have e: "q = Some x" "c1 = c\<lparr>cd_heap := (cd_heap c)(x \<mapsto> a)\<rparr>" using q Some by (auto simp: build_candidate_def)
      show ?thesis
      proof (cases "auto_select s")
        case True
        then have "cand_ok s (c\<lparr>cd_heap := (cd_heap c)(x \<mapsto> a), cd_list := cd_list c @ [x]\<rparr>)"
          using collect_add [OF _ x b(1,3)] Cons.prems(4) by (simp add: collected_def)
        then show ?thesis using True e by (simp add: add_candidate_def) (simp add: collected_def)
      next
        case False
        then show ?thesis using e Cons.prems(4) by (simp add: collected_def)
      qed
    qed
    then obtain c2 where c2: "(if q \<noteq> None \<and> auto_select s then add_candidate q c1 else Some c1) = Some c2" "collected ?s c2" by blast
    obtain s' c' k where r: "collect_loop env ?s c2 (n + 1) as = Some (s', c', k)" "says ?s s'" "collected s' c'"
      using Cons.IH [OF s c2(2), of "n + 1"] by blast
    have "auto_select ?s = auto_select s" by (simp add: wpa_msg_def)
    then have "collect_loop env s c n (a # as) = Some (s', c', k)"
      using True b(2) ok m q c2(1) r(1) by (simp add: Let_def)
    moreover have "says s s'" using r(2) by (simp add: says_def wpa_msg_def)
    ultimately show ?thesis using r(3) by blast
  qed
qed simp

lemma display_empty: "cd_list c = [] \<Longrightarrow> \<exists>s'. display_candidates s c = Some s' \<and> says s s'"
  by (simp add: display_candidates_def)

lemma select_loop_empty:
  assumes "cd_list c = []" "fs = [] \<or> hd fs \<noteq> Random_filter"
  shows "\<exists>s' c'. select_loop rnd i fs s c = Some (s', c') \<and> says s s' \<and> cd_list c' = []"
proof (cases fs)
  case (Cons g gs)
  have "\<exists>s1. run_filter g (rnd i) s c = Some (s1, c) \<and> says s s1"
    using assms Cons by (cases g) (simp_all add: run_filter_def free_public_filter_def access_internet_filter_def
        consortium_filter_def drop_waiting_def)
  then obtain s1 where s1: "run_filter g (rnd i) s c = Some (s1, c)" "says s s1" by blast
  obtain s2 where "display_candidates (arbiter_message (lit ''After this filter, candidates left are:'') s1) c = Some s2"
      "says (arbiter_message (lit ''After this filter, candidates left are:'') s1) s2"
    using display_empty [OF assms(1)] by blast
  moreover have "says s s2" using s1(2) calculation(2) by (simp add: says_def arbiter_message_def)
  ultimately show ?thesis using Cons s1(1) assms(1) by (simp add: Let_def)
qed (simp add: assms(1))

lemma arbiter_select_empty:
  assumes "cd_list c = []" "arb s = Some a" "arb_filters a = [] \<or> hd (arb_filters a) \<noteq> Random_filter"
  shows "\<exists>s' c'. arbiter_select rnd s c = Some (None, s', c') \<and> kept s s'"
proof -
  let ?s = "s\<lparr>arb := Some (a\<lparr>arb_state := ARBITER_DECIDING\<rparr>)\<rparr>"
  let ?s1 = "arbiter_message (lit ''All interworking networks available are:'')
    (arbiter_message (lit ''All information retrieved, start selecting process.'') ?s)"
  obtain s2 where s2: "display_candidates ?s1 c = Some s2" "says ?s1 s2" using display_empty [OF assms(1)] by blast
  obtain s3 c3 where s3: "select_loop rnd 0 (arb_filters a) s2 c = Some (s3, c3)" "says s2 s3" "cd_list c3 = []"
    using select_loop_empty [OF assms(1,3)] by blast
  have "kept s s3"
    using says_fields(1,5) [OF s3(2)] says_fields(1,5) [OF s2(2)] by (simp add: kept_def arbiter_message_def)
  then show ?thesis
    using assms(2) s2(1) s3(1,3) by (simp add: arbiter_select_def Let_def) (simp add: kept_def arbiter_message_def)
qed

lemma abs_select_subset: "set (abs_select h rnd i fs l) \<subseteq> set l"
proof (induction fs arbitrary: i l)
  case (Cons f fs)
  have "set (abs_filter h f (rnd i) l) \<subseteq> set l" by (cases f) auto
  then show ?case using Cons [of "i + 1" "abs_filter h f (rnd i) l"] by (auto simp: Let_def)
qed simp

lemma arbiter_select_total:
  assumes "collected s c" "iw_ok s"
  shows "\<exists>x s' c'. arbiter_select rnd s c = Some (x, s', c') \<and> kept s s' \<and>
    (\<forall>a. x = Some a \<longrightarrow> bss_heap s' = bss_heap s \<and> conf s' = conf s \<and> bss_heap s a \<noteq> None)"
proof -
  obtain a where a: "arb s = Some a" "arb_filters a = [] \<or> hd (arb_filters a) \<noteq> Random_filter"
    using assms(2) by (auto simp: iw_ok_def)
  show ?thesis
  proof (cases "auto_select s")
    case False
    then have "cd_list c = []" using assms(1) by (simp add: collected_def)
    then show ?thesis using arbiter_select_empty [OF _ a, of c rnd] by auto
  next
    case True
    then have ok: "cand_ok s c" using assms(1) by (simp add: collected_def)
    have "0 \<in> set (b_ssid (cand_bss s c p))" if p: "p \<in> set (cd_list c)" for p
    proof -
      have "live (bss_heap s) (cd_heap c) p" using ok p by (simp add: cand_ok_def list_all_iff)
      then obtain x b where "cd_heap c p = Some x" "bss_heap s x = Some b" by (rule liveE)
      then show ?thesis using assms(2) by (simp add: cand_bss_def iw_ok_def)
    qed
    then have "printable s c" by (simp add: printable_def list_all_iff)
    from arbiter_select_spec [OF ok this a(1), of rnd] obtain s' c' where
      r: "arbiter_select rnd s c =
        Some (case abs_select (bss_heap s) rnd 0 (arb_filters a) (abs_cands c) of [] \<Rightarrow> None | x # _ \<Rightarrow> Some x, s', c')"
        "says (s\<lparr>arb := Some (a\<lparr>arb_state := ARBITER_IDLE\<rparr>)\<rparr>) s'"
      using a(2) by auto
    have live: "bss_heap s x \<noteq> None" if x: "x \<in> set (abs_cands c)" for x
    proof -
      obtain p where p: "p \<in> set (cd_list c)" "x = the (cd_heap c p)" using x by (auto simp: abs_cands_def)
      then have "live (bss_heap s) (cd_heap c) p" using ok by (simp add: cand_ok_def list_all_iff)
      then show ?thesis using p(2) by (auto elim: liveE)
    qed
    have "bss_heap s x \<noteq> None" if "abs_select (bss_heap s) rnd 0 (arb_filters a) (abs_cands c) = x # xs" for x xs
      using live abs_select_subset [of "bss_heap s" rnd 0 "arb_filters a" "abs_cands c"] that by auto
    then show ?thesis
      using r(1) says_fields(1,2,5) [OF r(2)] says_sel(1) [OF r(2)] by (auto simp: kept_def split: list.splits)
  qed
qed

lemma select_network_total:
  assumes "iw_ok s" "\<And>h q. iw_cand env h = Some q \<Longrightarrow> h q = None"
  shows "\<exists>s'. interworking_select_network env s = Some s' \<and> kept s s'"
proof -
  let ?s = "s\<lparr>network_select := False\<rparr>"
  have q: "quiet s ?s" by (simp add: quiet_def heap_ok_def)
  have ok: "iw_ok ?s" using iw_ok_quiet [OF q assms(1)] .
  have "collected ?s no_candidates" by (simp add: collected_def cand_ok_def no_candidates_def)
  then obtain s1 c k where c: "collect_loop env ?s no_candidates 0 (bss ?s) = Some (s1, c, k)" "says ?s s1" "collected s1 c"
    using collect_loop_total [of ?s env "bss ?s" no_candidates 0] ok assms(2) by (auto simp: iw_ok_def)
  let ?s2 = "if k = 0 then wpa_msg (lit ''INTERWORKING-NO-MATCH No network with matching credentials found'') s1 else s1"
  have s2: "says ?s ?s2" using c(2) by simp
  have "quiet ?s ?s2"
  proof -
    have "?s2\<lparr>messages := []\<rparr> = ?s\<lparr>messages := []\<rparr>" using s2 by (simp add: says_def)
    then have "quiet (?s\<lparr>messages := []\<rparr>) (?s2\<lparr>messages := []\<rparr>)" by simp
    then show ?thesis by (simp add: quiet_def heap_ok_def split del: if_split)
  qed
  then have ok2: "iw_ok ?s2" using ok iw_ok_quiet by blast
  have "collected ?s2 c" using c(3) by simp
  from arbiter_select_total [OF this ok2, of "iw_rnd env"] obtain x s3 c3 where
    r: "arbiter_select (iw_rnd env) ?s2 c = Some (x, s3, c3)" "kept ?s2 s3"
      "\<forall>a. x = Some a \<longrightarrow> bss_heap s3 = bss_heap ?s2 \<and> conf s3 = conf ?s2 \<and> bss_heap ?s2 a \<noteq> None" by blast
  have g: "kept s s3" using r(2) says_fields(1,5) [OF s2] by (simp add: kept_def)
  show ?thesis
  proof (cases x)
    case None
    then show ?thesis using c(1) r(1) g by (simp add: interworking_select_network_def Let_def)
  next
    case (Some a)
    then obtain b where b: "bss_heap s3 a = Some b" "bss_wf b" "anqp_ok b"
      using r(3) ok2 by (auto simp: iw_ok_def bss_inv_def heap_ok_def)
    have "max_id (-1) (c_ssid (conf s3)) < 2 ^ 31 - 1" using r(3) Some ok2 by (simp add: iw_ok_def)
    from interworking_connect_total [OF b this, of "iw_conn env"] show ?thesis
      using c(1) r(1) g Some by (auto simp: interworking_select_network_def Let_def kept_def)
  qed
qed

section \<open>The next fetch\<close>

definition iw_env_ok :: "iw_env \<Rightarrow> bool" where
  "iw_env_ok env \<longleftrightarrow> fresh_env (iw_anqp env) \<and> (\<forall>h q. iw_cand env h = Some q \<longrightarrow> h q = None)"

definition has_bss :: "wpa_supplicant \<Rightarrow> bytes \<Rightarrow> bool" where
  "has_bss s dst \<longleftrightarrow> (\<exists>a b. bss_heap s a = Some b \<and> b_bssid b = dst)"

text \<open>
  How the query layer evolves while a fetch goes on: queries that were there stay, new ones are of the fetch and
  go to known access points, and with a live environment there is at least one.
\<close>

definition fetch_goes_on :: "iw_env \<Rightarrow> ptr set \<Rightarrow> wpa_supplicant \<Rightarrow> wpa_supplicant \<Rightarrow> bool" where
  "fetch_goes_on env D s s' \<longleftrightarrow> quiet s s' \<and> fetch_todo s' < fetch_todo s \<and>
     length (pending_list s') \<le> Suc (length (pending_list s)) \<and>
     (\<forall>q v. get_query s' q = Some v \<longrightarrow> get_query s q = Some v \<or> has_bss s (q_addr v)) \<and>
     (live_env (iw_anqp env) \<and> card D \<le> 1 \<and> length (pending_list s) < 256 \<longrightarrow>
       (\<exists>q v. get_query s' q = Some v \<and> q \<in> set (pending_list s') \<and> has_bss s (q_addr v) \<and> q_cb v = CB_interworking_anqp_resp_cb))"

lemma gas_eq:
  assumes "gas s' = gas s"
  shows "gas_inv D s' = gas_inv D s" "get_query s' = get_query s"
  using assms by (simp_all add: gas_inv_def get_query_def fun_eq_iff)

lemma next_fetch_spec:
  assumes "iw_ok s" "iw_env_ok env" "gas_inv D s" "gas s \<noteq> None" "fetch_anqp_in_progress s"
  shows "\<exists>s'. interworking_next_anqp_fetch env s = Some s' \<and> gas_inv D s' \<and>
    (\<forall>q v. get_query s q = Some v \<longrightarrow> get_query s' q = Some v) \<and>
    (fetch_anqp_in_progress s' \<longrightarrow> fetch_goes_on env D s s')"
proof -
  have inv: "bss_inv s" "fresh_env (iw_anqp env)" using assms(1,2) by (simp_all add: iw_ok_def iw_env_ok_def)
  note spec = fetch_loop_spec [OF assms(3,4) inv, of "bss s"]
  show ?thesis
  proof (cases "find (\<lambda>a. untried (the (bss_heap s a))) (bss s)")
    case None
    let ?s = "(wpa_msg (lit ''ANQP fetch completed'') s)\<lparr>fetch_anqp_in_progress := False\<rparr>"
    have "quiet s ?s" by (simp add: quiet_def heap_ok_def wpa_msg_def)
    then have ok: "iw_ok ?s" using assms(1) iw_ok_quiet by blast
    have f: "fetch_loop env s (bss s) = Some (False, s)" using spec None by simp
    show ?thesis
    proof (cases "network_select s")
      case False
      then have "interworking_next_anqp_fetch env s = Some ?s"
        using assms(5) f by (simp add: interworking_next_anqp_fetch_def Let_def)
      then show ?thesis using assms(3) gas_eq [of ?s s] by simp
    next
      case True
      obtain s' where s': "interworking_select_network env ?s = Some s'" "kept ?s s'"
        using select_network_total [OF ok, of env] assms(2) by (auto simp: iw_env_ok_def)
      then have e: "interworking_next_anqp_fetch env s = Some s'"
        using True assms(5) f by (simp add: interworking_next_anqp_fetch_def Let_def)
      then show ?thesis using assms(3) gas_eq [of s' s] s'(2) by (simp add: kept_def)
    qed
  next
    case (Some a)
    then have a: "a \<in> set (bss s)" "untried (the (bss_heap s a))" by (auto simp: find_Some_iff)
    obtain s1 s' where r: "fetch_loop env s (bss s) = Some (True, s')" "marked s a s1"
        "sent (iw_anqp env) D (b_bssid (the (bss_heap s a))) s1 s'"
      using spec Some by auto
    note m = marked_props [OF r(2) a]
    have e: "interworking_next_anqp_fetch env s = Some s'" using assms(5) r(1) by (simp add: interworking_next_anqp_fetch_def)
    obtain b where b: "bss_heap s a = Some b" using bss_inv_deref [OF inv(1) a(1)] by blast
    have k: "has_bss s (b_bssid b)" using b by (auto simp: has_bss_def)
    have st: "gas_inv D s'" "gas_frame s1 s'" "queries_added (b_bssid b) CB_interworking_anqp_resp_cb s s'"
        "length (pending_list s') \<le> Suc (length (pending_list s))"
        "live_env (iw_anqp env) \<and> card D \<le> 1 \<and> length (pending_list s) < 256 \<longrightarrow>
          (\<exists>q v. get_query s' q = Some v \<and> q \<in> set (pending_list s') \<and> q_addr v = b_bssid b \<and> q_cb v = CB_interworking_anqp_resp_cb)"
      using r(3) m(6,7) b by (simp_all add: sent_def queries_added_def)
    note g = gas_frame_sel [OF st(2)]
    have "fetch_todo s' = fetch_todo s1" using g(1,5) by (simp add: fetch_todo_def)
    moreover have "\<forall>q v. get_query s' q = Some v \<longrightarrow> get_query s q = Some v \<or> has_bss s (q_addr v)"
      using st(3) k unfolding queries_added_def by metis
    moreover have "live_env (iw_anqp env) \<and> card D \<le> 1 \<and> length (pending_list s) < 256 \<longrightarrow>
        (\<exists>q v. get_query s' q = Some v \<and> q \<in> set (pending_list s') \<and> has_bss s (q_addr v) \<and> q_cb v = CB_interworking_anqp_resp_cb)"
      using st(5) k by metis
    ultimately have "fetch_goes_on env D s s'"
      using quiet_trans [OF m(1) g(2)] m(5) st(4) unfolding fetch_goes_on_def by simp
    moreover have "\<forall>q v. get_query s q = Some v \<longrightarrow> get_query s' q = Some v" using st(3) by (simp add: queries_added_def)
    ultimately show ?thesis using e st(1) by blast
  qed
qed

end
