(* ===== verification/Anqp_Fetch.thy ===== *)
theory Anqp_Fetch
  imports Interworking
begin

text \<open>
  The query layer and Interworking together: the response callback of interworking.c meets the contract of the
  GAS layer, and a fetch of ANQP information from all access points comes to an end.
\<close>

section \<open>The callback meets the contract of the query layer\<close>

lemma length_filter_mono: "(\<And>x. x \<in> set xs \<Longrightarrow> Q x \<Longrightarrow> P x) \<Longrightarrow> length (filter Q xs) \<le> length (filter P xs)"
  by (induction xs) auto

lemma fetch_todo_rx:
  assumes "rx_frame s s1" "bss_inv s"
  shows "fetch_todo s1 \<le> fetch_todo s"
proof -
  have "untried (the (bss_heap s a))" if a: "a \<in> set (bss s)" "untried (the (bss_heap s1 a))" for a
  proof -
    obtain b where b: "bss_heap s a = Some b" using bss_inv_deref [OF assms(2) a(1)] by blast
    obtain b1 where b1: "bss_heap s1 a = Some b1" "core b1 = core b" using rx_frame_bss(3) [OF assms(1) b] by blast
    have "b_fetched b \<Longrightarrow> b_fetched b1" using assms(1) b b1(1) unfolding rx_frame_def by blast
    moreover have "capable b1 = capable b" using capable_static [OF static_core [OF b1(2)]] .
    ultimately show ?thesis using a(2) b b1 core_fields(5) [OF b1(2)] by (auto simp: untried_def)
  qed
  then show ?thesis unfolding fetch_todo_def rx_frame_sel(1) [OF assms(1)] by (rule length_filter_mono)
qed

lemma has_bss_get:
  assumes "iw_ok s" "has_bss s dst" "length dst = 6"
  obtains a b where "wpa_bss_get_bssid s dst = Some (Some a)" "bss_heap s a = Some b" "0 \<in> set (b_ssid b)"
proof -
  have inv: "bss_inv s" using assms(1) by (simp add: iw_ok_def)
  obtain a0 b0 where a0: "bss_heap s a0 = Some b0" "b_bssid b0 = dst" using assms(2) by (auto simp: has_bss_def)
  then have "a0 \<in> set (bss s)" using inv by (auto simp: bss_inv_def)
  then have "find (\<lambda>a. b_bssid (the (bss_heap s a)) = dst) (rev (bss s)) \<noteq> None" using a0 by (auto simp: find_None_iff)
  moreover have "filter_admits s dst" using assms(1) a0 unfolding iw_ok_def by blast
  ultimately obtain a where a: "wpa_bss_get_bssid s dst = Some (Some a)" using wpa_bss_get_bssid_spec [OF inv assms(3)] by auto
  then obtain b where "bss_heap s a = Some b" using known_alive [OF inv assms(3)] by blast
  then show ?thesis using a assms(1) that unfolding iw_ok_def by blast
qed

lemma has_bss_quiet:
  assumes "quiet s s'"
  shows "has_bss s' dst = has_bss s dst"
proof
  assume "has_bss s' dst"
  then obtain a b' where b': "bss_heap s' a = Some b'" "b_bssid b' = dst" by (auto simp: has_bss_def)
  then obtain b where "bss_heap s a = Some b" "static b = static b'" using quiet_bss(2) [OF assms] by blast
  then show "has_bss s dst" using b' static_fields(1) [of b b'] by (auto simp: has_bss_def)
next
  assume "has_bss s dst"
  then obtain a b where b: "bss_heap s a = Some b" "b_bssid b = dst" by (auto simp: has_bss_def)
  then obtain b' where "bss_heap s' a = Some b'" "static b' = static b" using quiet_bss(3) [OF assms] by blast
  then show "has_bss s' dst" using b static_fields(1) [of b' b] by (auto simp: has_bss_def)
qed

text \<open>What the answer to a query outside the fetch leaves of a fetch in progress.\<close>

definition fetch_behind :: "wpa_supplicant \<Rightarrow> wpa_supplicant \<Rightarrow> bool" where
  "fetch_behind s s' \<longleftrightarrow> quiet s s' \<and> fetch_todo s' \<le> fetch_todo s"

lemma iw_cb_spec:
  assumes "iw_env_ok env" "iw_ok s" "has_bss s dst" "length dst = 6" "gas_inv D s" "gas s \<noteq> None" "buf_ok adv" "buf_ok resp"
    "result = GAS_QUERY_SUCCESS \<longrightarrow> adv \<noteq> None \<and> resp \<noteq> None"
  shows "\<exists>s'. iw_cb env cb dst tok result adv resp st s = Some s' \<and> gas_inv D s' \<and>
    (\<forall>q v. get_query s q = Some v \<longrightarrow> get_query s' q = Some v) \<and>
    (fetch_anqp_in_progress s' \<longrightarrow>
      (if cb = CB_interworking_anqp_resp_cb then fetch_goes_on env D s s' else gas s' = gas s \<and> fetch_behind s s'))"
proof -
  obtain a b where "wpa_bss_get_bssid s dst = Some (Some a)" "bss_heap s a = Some b" "0 \<in> set (b_ssid b)"
    using has_bss_get [OF assms(2-4)] .
  then obtain s1 where s1: "anqp_resp_cb (iw_copy env) s dst result adv resp = Some s1" "rx_frame s s1"
    using anqp_resp_cb_total [OF _ assms(4) _ _ _ assms(7-9)] assms(2) by (metis iw_ok_def)
  note sel = rx_frame_sel [OF s1(2)] and q1 = rx_quiet [OF s1(2)]
  have g1: "gas_inv D s1" "get_query s1 = get_query s" "gas s1 \<noteq> None" "pending_list s1 = pending_list s"
    using gas_eq [OF sel(2)] assms(5,6) sel(2) by (simp_all add: pending_list_def)
  show ?thesis
  proof (cases cb)
    case CB_anqp_resp_cb
    then show ?thesis
      using s1(1) g1 sel(2,7) q1 fetch_todo_rx [OF s1(2)] assms(2) by (simp add: iw_cb_def fetch_behind_def iw_ok_def)
  next
    case CB_interworking_anqp_resp_cb
    then have e: "iw_cb env cb dst tok result adv resp st s = interworking_next_anqp_fetch env s1"
      using s1(1) by (simp add: iw_cb_def interworking_anqp_resp_cb_def)
    show ?thesis
    proof (cases "fetch_anqp_in_progress s1")
      case False
      then show ?thesis unfolding e using g1 by (simp add: interworking_next_anqp_fetch_def)
    next
      case True
      obtain s' where s': "interworking_next_anqp_fetch env s1 = Some s'" "gas_inv D s'"
          "\<forall>q v. get_query s1 q = Some v \<longrightarrow> get_query s' q = Some v"
          "fetch_anqp_in_progress s' \<longrightarrow> fetch_goes_on env D s1 s'"
        using next_fetch_spec [OF iw_ok_quiet [OF q1 assms(2)] assms(1) g1(1,3) True] by blast
      have "fetch_todo s1 \<le> fetch_todo s" using fetch_todo_rx [OF s1(2)] assms(2) by (simp add: iw_ok_def)
      then have "fetch_goes_on env D s1 s' \<Longrightarrow> fetch_goes_on env D s s'"
        using quiet_trans [OF q1] has_bss_quiet [OF q1] g1(2,4) unfolding fetch_goes_on_def by auto
      then show ?thesis unfolding e using s' g1(2) CB_interworking_anqp_resp_cb by auto
    qed
  qed
qed

definition iw_ready :: "iw_env \<Rightarrow> wpa_supplicant \<Rightarrow> bytes \<Rightarrow> bool" where
  "iw_ready env s dst \<longleftrightarrow> iw_env_ok env \<and> iw_ok s \<and> has_bss s dst"

interpretation iw: gas_client "iw_cb env" "iw_ready env" for env
proof
  show "succeeds (iw_cb env c dst tok result adv resp status s)
      (\<lambda>s'. gas_inv D s' \<and> (\<forall>q \<in> D. get_query s' q = get_query s q))"
    if h: "iw_ready env s dst" "gas_inv D s" "D \<noteq> {}" "length dst = 6" "buf_ok adv" "buf_ok resp"
      "result = GAS_QUERY_SUCCESS \<longrightarrow> adv \<noteq> None \<and> resp \<noteq> None"
    for s dst D adv resp result c tok status
  proof -
    have g: "gas s \<noteq> None" using h(2,3) by (auto simp: gas_inv_def)
    obtain s' where s': "iw_cb env c dst tok result adv resp status s = Some s'" "gas_inv D s'"
        "\<forall>q v. get_query s q = Some v \<longrightarrow> get_query s' q = Some v"
      using iw_cb_spec [OF _ _ _ h(4,2) g h(5-7)] h(1) by (metis iw_ready_def)
    have "get_query s' q = get_query s q" if q: "q \<in> D" for q
    proof -
      obtain v where "get_query s q = Some v" using h(2) g q by (force simp: gas_inv_def get_query_def)
      then show ?thesis using s'(3) by simp
    qed
    then show ?thesis using s'(1,2) by (simp add: succeeds_simps)
  qed
  show "iw_ready env (s\<lparr>gas := g\<rparr>) dst = iw_ready env s dst" "iw_ready env (s\<lparr>eloop := e\<rparr>) dst = iw_ready env s dst"
      "iw_ready env (s\<lparr>tx_log := l\<rparr>) dst = iw_ready env s dst" for s dst g e l
    by (simp_all add: iw_ready_def iw_ok_def has_bss_def bss_inv_def heap_ok_def filter_admits_def)
qed

text \<open>
  C10. A GAS frame from a known access point is processed without fault, whatever its octets: from the reassembly of the
  query over the ANQP elements, the check of credentials and the selection by the arbiter to the configuration of a
  network, the processing stays within its buffers and keeps the query layer consistent. The conditions are these. The
  sender has an entry in the table. The SSID of every entry is shorter than its array, that is, the array holds a NUL (a
  32-octet SSID fills it, and the code that prints it reads on: \<open>arbiter_select_ssid_overread\<close>). Every entry passes the
  BSSID filter and its buffers are valid. The driver accepts the requests that follow (a refusal leaves a freed query
  on the list, as the property on failed transmissions shows). The first filter of the arbiter is not the random one,
  and network ids are not exhausted. Allocations return unused memory, and may fail.
\<close>

theorem gas_rx_safe:
  assumes alloc: "\<forall>h q. ae_query (iw_anqp env) h = Some q \<longrightarrow> h q = None" "\<forall>h q. iw_cand env h = Some q \<longrightarrow> h q = None"
    and driver: "ge_tx (ae_gas (iw_anqp env)) = 0"
    and table: "bss_inv s" "heap_ok s" "\<forall>a b. bss_heap s a = Some b \<longrightarrow> 0 \<in> set (b_ssid b) \<and> filter_admits s (b_bssid b)"
    and conf: "max_id (-1) (c_ssid (conf s)) < 2 ^ 31 - 1"
      "\<exists>a. arb s = Some a \<and> (arb_filters a = [] \<or> hd (arb_filters a) \<noteq> Random_filter)"
    and frame: "gas_inv {} s" "has_bss s sa" "length sa = 6" "len \<le> length data"
  shows "succeeds (gas_query_rx (iw_cb env) genv s sa data len) (\<lambda>(r, s'). gas_inv {} s')"
proof (rule iw.rx_total)
  show "iw_ready env s sa"
    using alloc driver table conf frame(2) by (simp add: iw_ready_def iw_env_ok_def fresh_env_def iw_ok_def)
qed (use frame in simp_all)

section \<open>The fetch comes to an end\<close>







lemma unlinked_sel [simp]:
  "iw_ok (unlinked s g q) = iw_ok s" "has_bss (unlinked s g q) = has_bss s" "fetch_todo (unlinked s g q) = fetch_todo s"
  "quiet (unlinked s g q) s' = quiet s s'" "pending_list (unlinked s g q) = remove1 q (gas_pending g)"
  "gas (unlinked s g q) \<noteq> None"
  by (simp_all add: unlinked_def cancel_timer_def iw_ok_def has_bss_def bss_inv_def heap_ok_def filter_admits_def
      fetch_todo_def quiet_def pending_list_def fun_eq_iff)

lemma freed_sel [simp]:
  "has_bss (set_query q x s) = has_bss s" "fetch_todo (set_query q x s) = fetch_todo s" "iw_ok (set_query q x s) = iw_ok s"
  "fetch_anqp_in_progress (set_query q x s) = fetch_anqp_in_progress s" "pending_list (set_query q x s) = pending_list s"
  by (simp_all add: set_query_def iw_ok_def has_bss_def bss_inv_def heap_ok_def filter_admits_def
      fetch_todo_def pending_list_def fun_eq_iff split: option.split)





subsection \<open>Starting a fetch\<close>

definition untry :: "wpa_bss \<Rightarrow> wpa_bss" where
  "untry b = b\<lparr>b_flags := b_flags b AND NOT WPA_BSS_ANQP_FETCH_TRIED\<rparr>"

lemma untry_loop_eq:
  "set as \<subseteq> dom (bss_heap s) \<Longrightarrow>
    untry_loop s as = Some (s\<lparr>bss_heap := \<lambda>a. if a \<in> set as then map_option untry (bss_heap s a) else bss_heap s a\<rparr>)"
proof (induction as arbitrary: s)
  case (Cons a as)
  then obtain b where b: "bss_heap s a = Some b" by auto
  let ?s = "s\<lparr>bss_heap := (bss_heap s)(a \<mapsto> untry b)\<rparr>"
  have d: "set as \<subseteq> dom (bss_heap ?s)" using Cons.prems by auto
  have "untry (untry b) = untry b" by (simp add: untry_def and.assoc)
  moreover have "untry_loop s (a # as) = untry_loop ?s as" using b by (simp add: deref_def untry_def)
  moreover have "(\<lambda>x. if x \<in> set as then map_option untry (bss_heap ?s x) else bss_heap ?s x) =
      (\<lambda>x. if x \<in> set (a # as) then map_option untry (bss_heap s x) else bss_heap s x)"
    using b calculation(1) by (simp add: fun_eq_iff)
  ultimately show ?case using Cons.IH [OF d] by (simp del: untry_loop.simps)
qed simp

text \<open>The state in which a fetch looks for its first access point.\<close>

definition started :: "wpa_supplicant \<Rightarrow> wpa_supplicant" where
  "started s = s\<lparr>bss_heap := \<lambda>a. if a \<in> set (bss s) then map_option untry (bss_heap s a) else bss_heap s a,
     fetch_anqp_in_progress := True\<rparr>"

lemma start_fetch_eq:
  assumes "bss_inv s"
  shows "interworking_start_fetch_anqp env s = interworking_next_anqp_fetch env (started s)"
  using untry_loop_eq [of "bss s" s] assms by (simp add: interworking_start_fetch_anqp_def started_def bss_inv_def)

lemma started_sel [simp]:
  "gas (started s) = gas s" "bss (started s) = bss s" "fetch_anqp_in_progress (started s)"
  "network_select (started s) = network_select s"
  by (simp_all add: started_def)

lemma started_quiet: "quiet s (started s)"
proof -
  have "map_option static (bss_heap (started s) a) = map_option static (bss_heap s a)" for a
    by (cases "bss_heap s a") (simp_all add: started_def untry_def static_def core_def)
  moreover have "heap_ok s \<longrightarrow> heap_ok (started s)"
    by (auto simp: heap_ok_def started_def untry_def anqp_ok_def split: if_splits)
  ultimately show ?thesis by (simp add: quiet_def started_def)
qed


text \<open>Without memory for a request the loop stops at the first access point to ask, with nothing sent.\<close>

lemma send_req_no_memory:
  assumes "bss_wf b" "\<not> ae_req env"
  shows "interworking_anqp_send_req env s b = Some (-1, s)"
proof -
  have w: "b_ie_len b \<le> length (b_ies b)" using assms(1) by (simp add: bss_wf_def)
  obtain v where v: "wpa_bss_get_vendor_ie b HS20_IE_VENDOR_TYPE = Some v" using wpa_bss_get_ie_facts(2) [OF w] by blast
  obtain x where x: "(if v \<noteq> None then hs20_extra (ae_extra env) else Some None) = Some x"
    using hs20_extra_Some [of "ae_extra env"] by (cases v) auto
  have "anqp_build_req False ids y = Some None" for ids y
    by (simp add: anqp_build_req_def gas_anqp_build_initial_req_def gas_build_initial_req_def gas_build_req_def
        gas_anqp_open_def wpabuf_alloc_def)
  then show ?thesis using v x assms(2) by (auto simp: interworking_anqp_send_req_def send_query_def)
qed

lemma stalled_loop:
  assumes "bss_inv s" "\<not> ae_req (iw_anqp env)" "set as \<subseteq> set (bss s)" "\<exists>a \<in> set as. untried (the (bss_heap s a))"
  shows "\<exists>s'. fetch_loop env s as = Some (True, s') \<and> gas s' = gas s \<and> fetch_anqp_in_progress s' = fetch_anqp_in_progress s"
  using assms(3,4)
proof (induction as)
  case (Cons a as)
  obtain b where b: "bss_heap s a = Some b" "deref s a = Some b" "bss_wf b"
    using bss_inv_deref [OF assms(1)] Cons.prems(1) by (metis list.set_intros(1) subsetD)
  show ?case
  proof (cases "untried b")
    case True
    let ?b = "b\<lparr>b_flags := b_flags b OR WPA_BSS_ANQP_FETCH_TRIED\<rparr>"
    have m: "macstr (b_bssid b) = Some (mac2str (b_bssid b))" "bss_wf ?b"
      using b(3) by (simp_all add: macstr_def rd_bytes_def bss_wf_def)
    then show ?thesis
      using True b(2) supports_interworking_spec [OF b(3)] send_req_no_memory [OF m(2) assms(2)]
      by (simp add: untried_def Let_def)
        (simp add: wpa_msg_def)
  next
    case False
    then have "fetch_loop env s (a # as) = fetch_loop env s as"
      using b(2) supports_interworking_spec [OF b(3)] by (auto simp: untried_def)
    moreover have "\<exists>a \<in> set as. untried (the (bss_heap s a))" using False Cons.prems(2) b(1) by auto
    ultimately show ?thesis using Cons by (simp del: fetch_loop.simps)
  qed
qed simp


text \<open>
  Without memory for the request to an access point, the fetch of an idle station is in progress with no query pending.
\<close>

lemma anqp_fetch_no_memory:
  assumes "iw_ok s" "\<not> fetch_anqp_in_progress s" "\<not> network_select s" "\<not> ae_req (iw_anqp env)"
    "a \<in> set (bss s)" "bss_heap s a = Some b" "capable b" "\<not> b_fetched b"
  shows "\<exists>s'. interworking_fetch_anqp env s = Some (0, s') \<and> fetch_anqp_in_progress s' \<and> gas s' = gas s"
proof -
  let ?s = "started s"
  have inv: "bss_inv s" "bss_inv ?s" using assms(1) quiet_inv [OF started_quiet] by (auto simp: iw_ok_def)
  have "capable (untry b)" using assms(7) capable_static [of "untry b" b] by (simp add: untry_def static_def core_def)
  then have "untried (the (bss_heap ?s a))" using assms(5,6,8) by (simp add: started_def untried_def untry_def and.assoc)
  then have "\<exists>s'. fetch_loop env ?s (bss ?s) = Some (True, s') \<and> gas s' = gas ?s \<and>
      fetch_anqp_in_progress s' = fetch_anqp_in_progress ?s"
    using stalled_loop [OF inv(2) assms(4), of "bss ?s"] assms(5) by auto
  then obtain s' where s': "fetch_loop env ?s (bss ?s) = Some (True, s')" "gas s' = gas s" "fetch_anqp_in_progress s'" by auto
  have e: "s\<lparr>network_select := False\<rparr> = s" using assms(3) by simp
  have "interworking_fetch_anqp env s = Some (0, s')"
    using assms(2,3) start_fetch_eq [OF inv(1), of env] s'(1)
    by (simp add: interworking_fetch_anqp_def interworking_next_anqp_fetch_def e)
  then show ?thesis using s'(2,3) by blast
qed

lemma rx_nothing_pending:
  assumes "gas s = Some g" "gas_pending g = []" "len \<le> length data"
  shows "gas_query_rx cbf genv s sa data len = Some (-1, s)"
  using assms by (auto simp: gas_query_rx_def gas_query_get_pending_def rd_def)

text \<open>
  The events that can act on a fetch: a command to fetch, a GAS frame of any content, and the end of a pending query (by
  its timeout or any other cause). Memory may be available again in each of them.
\<close>

inductive fetch_event :: "wpa_supplicant \<Rightarrow> wpa_supplicant \<Rightarrow> bool" where
  command: "interworking_fetch_anqp env s = Some (r, s') \<Longrightarrow> fetch_event s s'"
| frame: "len \<le> length data \<Longrightarrow> gas_query_rx (iw_cb env) genv s sa data len = Some (r, s') \<Longrightarrow> fetch_event s s'"
| query_end: "gas s = Some g \<Longrightarrow> q \<in> set (gas_pending g) \<Longrightarrow> gas_query_done (iw_cb env) s q result = Some s' \<Longrightarrow>
    fetch_event s s'"

lemma stalled_event:
  assumes "fetch_event s s'" "fetch_anqp_in_progress s" "gas s = Some g" "gas_pending g = []"
  shows "s' = s"
  using assms(1)
proof cases
  case (command env r)
  then show ?thesis using assms(2) by (simp add: interworking_fetch_anqp_def)
next
  case (frame len data env genv sa r)
  then show ?thesis using rx_nothing_pending [OF assms(3,4) frame(1)] by simp
next
  case (query_end h q env result)
  then show ?thesis using assms(3,4) by simp
qed

lemma stalled_events:
  assumes "fetch_event\<^sup>*\<^sup>* s s'" "fetch_anqp_in_progress s" "gas s = Some g" "gas_pending g = []"
  shows "s' = s"
  using assms(1) by (induction rule: rtranclp_induct) (use stalled_event assms in auto)

text \<open>
  C33. A request that cannot be sent stalls the fetch. When no query is pending and there is no memory for the request to
  an access point that is to be asked, the command to fetch reports success and leaves the fetch in progress with no query
  pending. From then on nothing that drives a fetch changes the state, although memory may be there again: further
  commands report success and do nothing, received GAS frames find no query, and no query can end. The state is left
  when \<open>interworking_stop_fetch_anqp\<close> is called, which \<open>interworking_select\<close> does before the scan that starts a new fetch.
\<close>

theorem anqp_fetch_stalls:
  assumes "iw_ok s" "\<not> fetch_anqp_in_progress s" "\<not> network_select s" "\<not> ae_req (iw_anqp env)"
    "a \<in> set (bss s)" "bss_heap s a = Some b" "capable b" "\<not> b_fetched b" "gas s = Some g" "gas_pending g = []"
  shows "\<exists>s'. interworking_fetch_anqp env s = Some (0, s') \<and> fetch_anqp_in_progress s' \<and>
    (\<forall>env'. interworking_fetch_anqp env' s' = Some (0, s')) \<and>
    (\<forall>s''. fetch_event\<^sup>*\<^sup>* s' s'' \<longrightarrow> s'' = s') \<and>
    \<not> fetch_anqp_in_progress (interworking_stop_fetch_anqp s')"
proof -
  obtain s' where s': "interworking_fetch_anqp env s = Some (0, s')" "fetch_anqp_in_progress s'" "gas s' = Some g"
    using anqp_fetch_no_memory [OF assms(1-8)] assms(9) by auto
  then have "\<forall>s''. fetch_event\<^sup>*\<^sup>* s' s'' \<longrightarrow> s'' = s'" using stalled_events assms(10) by blast
  then show ?thesis using s' by (simp add: interworking_fetch_anqp_def interworking_stop_fetch_anqp_def)
qed

section \<open>Examples\<close>

text \<open>An allocator that returns the first free address of a small arena.\<close>

definition arena :: "ptr list" where
  "arena = map word_of_nat [0..<257]"

definition first_free :: "(ptr \<Rightarrow> 'a option) \<Rightarrow> ptr option" where
  "first_free h = find (\<lambda>p. h p = None) arena"

lemma first_free_fresh: "first_free h = Some p \<Longrightarrow> h p = None"
  by (auto simp: first_free_def find_Some_iff)

lemma arena_bound: "(n :: nat) < 257 \<Longrightarrow> n < 2 ^ LENGTH(64)"
  by simp

lemma first_free_live:
  fixes h :: "ptr \<Rightarrow> 'a option"
  assumes "card (dom h) \<le> 256"
  shows "first_free h \<noteq> None"
proof
  assume "first_free h = None"
  then have "set arena \<subseteq> dom h" by (auto simp: first_free_def find_None_iff)
  then have "card (set arena) \<le> card (dom h)" by (intro card_mono) auto
  moreover have "inj_on (word_of_nat :: nat \<Rightarrow> ptr) {0..<257}" 
    by (rule inj_onI) (metis atLeastLessThan_iff arena_bound of_nat_inverse)
  then have "card (set arena) = 257" by (simp add: arena_def card_image)
  ultimately show False using assms by simp
qed

definition ex_env :: "bool \<Rightarrow> iw_env" where
  "ex_env memory = \<lparr>
     iw_anqp = \<lparr>ae_gas = good_env, ae_query = first_free, ae_extra = True, ae_req = memory\<rparr>,
     iw_copy = \<lambda>_. True,
     iw_cred = \<lambda>_. \<lparr>cr_methods = [], cr_arr = True, cr_realm = \<lambda>_. True, cr_eap = \<lambda>_. True, cr_dup = \<lambda>_. True\<rparr>,
     iw_cand = first_free,
     iw_rnd = \<lambda>_. 0,
     iw_conn = \<lparr>
       cn_cred = \<lparr>cr_methods = [], cr_arr = True, cr_realm = \<lambda>_. True, cr_eap = \<lambda>_. True, cr_dup = \<lambda>_. True\<rparr>,
       cn_net = True, cn_prio = \<lambda>_. True, cn_prio2 = \<lambda>_. True, cn_ssid = True, cn_set = \<lambda>_ _. True,
       cn_timer_ok = True, cn_time = None\<rparr>\<rparr>"

lemma ex_env_ok: "iw_env_ok (ex_env m)" "live_env (iw_anqp (ex_env True))" "\<not> ae_req (iw_anqp (ex_env False))"
  using first_free_fresh [where 'a = ptr] first_free_fresh [where 'a = gas_query_pending] first_free_live [where 'a = gas_query_pending]
  by (simp_all add: iw_env_ok_def live_env_def fresh_env_def ex_env_def good_env_def)

text \<open>One access point that supports Interworking (bit 31 of the extended capabilities).\<close>

definition iw_bss :: wpa_bss where
  "iw_bss = zero_bss\<lparr>b_caps := 1, b_ies := [127, 4, 0, 0, 0, 128], b_ie_len := 6, b_freq := 2412\<rparr>"

definition iw_state :: wpa_supplicant where
  "iw_state = ex_state\<lparr>bss_heap := [100 \<mapsto> iw_bss], arb := arbiter_init True,
     gas := Some \<lparr>gas_ptr = 1, gas_pending = [], gas_heap = Map.empty\<rparr>\<rparr>"

lemma iw_state_sel [simp]:
  "bss_heap iw_state = [100 \<mapsto> iw_bss]" "bss iw_state = [100]" "\<not> fetch_anqp_in_progress iw_state" "\<not> network_select iw_state"
  "gas iw_state = Some \<lparr>gas_ptr = 1, gas_pending = [], gas_heap = Map.empty\<rparr>"
  by (simp_all add: iw_state_def ex_state_def zero_state_def)

lemma iw_state_ok: "iw_ok iw_state" "has_bss iw_state (replicate 6 0)" "gas_inv {} iw_state"
proof -
  have "bss_inv iw_state"
    by (simp add: iw_state_def ex_state_def bss_inv_def bss_wf_def zero_bss_def zero_state_def zero_conf_def conf_wf_def iw_bss_def)
  then show "iw_ok iw_state"
    by (simp add: iw_ok_def heap_ok_def anqp_ok_def buf_ok_def iw_bss_def zero_bss_def filter_admits_def)
      (simp add: iw_state_def ex_state_def zero_state_def zero_conf_def arbiter_init_def)
qed (simp_all add: has_bss_def iw_bss_def zero_bss_def gas_inv_def)

lemma iw_bss_capable: "capable iw_bss" "\<not> b_fetched iw_bss"
proof -
  show "capable iw_bss" unfolding capable_def by code_simp
qed (simp add: iw_bss_def zero_bss_def)

lemma gas_rx_safe_witness:
  "succeeds (gas_query_rx (iw_cb (ex_env True)) good_env iw_state (replicate 6 0) [11, 7, 0, 0, 0, 0] 6) (\<lambda>(r, s'). gas_inv {} s')"
proof -
  have e: "\<forall>h q. ae_query (iw_anqp (ex_env True)) h = Some q \<longrightarrow> h q = None" "\<forall>h q. iw_cand (ex_env True) h = Some q \<longrightarrow> h q = None"
    "ge_tx (ae_gas (iw_anqp (ex_env True))) = 0"
    using ex_env_ok(1) [of True] by (simp_all add: iw_env_ok_def fresh_env_def)
  have s: "bss_inv iw_state" "heap_ok iw_state"
    "\<forall>a b. bss_heap iw_state a = Some b \<longrightarrow> 0 \<in> set (b_ssid b) \<and> filter_admits iw_state (b_bssid b)"
    "max_id (-1) (c_ssid (conf iw_state)) < 2 ^ 31 - 1"
    "\<exists>a. arb iw_state = Some a \<and> (arb_filters a = [] \<or> hd (arb_filters a) \<noteq> Random_filter)"
    using iw_state_ok(1) unfolding iw_ok_def by blast+
  show ?thesis using gas_rx_safe [OF e s iw_state_ok(3,2), of 6 "[11, 7, 0, 0, 0, 0]"] by simp
qed


lemma anqp_fetch_stalls_witness:
  "\<exists>s'. interworking_fetch_anqp (ex_env False) iw_state = Some (0, s') \<and> fetch_anqp_in_progress s' \<and>
     interworking_fetch_anqp (ex_env True) s' = Some (0, s') \<and> {s''. fetch_event\<^sup>*\<^sup>* s' s''} = {s'}"
proof -
  obtain s' where "interworking_fetch_anqp (ex_env False) iw_state = Some (0, s')" "fetch_anqp_in_progress s'"
    "interworking_fetch_anqp (ex_env True) s' = Some (0, s')" "\<forall>s''. fetch_event\<^sup>*\<^sup>* s' s'' \<longrightarrow> s'' = s'"
    using anqp_fetch_stalls [OF iw_state_ok(1) _ _ ex_env_ok(3) _ _ iw_bss_capable, of 100] by auto
  then show ?thesis by blast
qed

end
