(* ===== verification/Crypto.thy ===== *)
theory Crypto
  imports Common_Util
begin

text \<open>
  The cryptographic constructions of src/src/crypto that the key handshake uses: HMAC over a vector
  (\<open>hmac_sha1_vector\<close>, \<open>hmac_md5_vector\<close>), the PRF of IEEE 802.11i (\<open>sha1_prf\<close>) and AES key wrap
  (\<open>aes_wrap\<close>, \<open>aes_unwrap\<close>). The build links OpenSSL, so the primitives below them (SHA-1, MD5, RC4 and
  the AES block operation) are not code of the repository: they are arguments of the definitions. A hash or a
  cipher context that fails is the value \<open>None\<close>.
\<close>

section \<open>Comparing octets\<close>

text \<open>\<open>os_memcmp (a, b, n) < 0\<close> for two objects of \<open>n\<close> octets.\<close>

fun memlt :: "bytes \<Rightarrow> bytes \<Rightarrow> bool" where
  "memlt (x # xs) (y # ys) = (x < y \<or> x = y \<and> memlt xs ys)"
| "memlt _ _ = False"

lemma memlt_be_val: "length a = length b \<Longrightarrow> memlt a b = (be_val a < be_val b)"
proof (induction a b rule: list_induct2)
  case (Cons x xs y ys)
  have b: "be_val xs < 256 ^ length ys" "be_val ys < 256 ^ length ys"
    using be_val_bound [of xs] be_val_bound [of ys] Cons.hyps by simp_all
  have "unat x * 256 ^ length ys + be_val xs < unat y * 256 ^ length ys + be_val ys"
    if "unat x < unat y"
  proof -
    have "(unat x + 1) * 256 ^ length ys \<le> unat y * 256 ^ length ys" using that by (intro mult_le_mono1) simp
    then show ?thesis using b(1) by simp
  qed
  moreover have "unat y * 256 ^ length ys + be_val ys < unat x * 256 ^ length ys + be_val xs"
    if "unat y < unat x"
  proof -
    have "(unat y + 1) * 256 ^ length ys \<le> unat x * 256 ^ length ys" using that by (intro mult_le_mono1) simp
    then show ?thesis using b(2) by simp
  qed
  ultimately show ?case
    using Cons by (cases "unat x" "unat y" rule: linorder_cases) (auto simp: word_less_nat_alt word_unat_eq_iff)
qed simp

lemma be_val_inj: "length a = length b \<Longrightarrow> be_val a = be_val b \<Longrightarrow> a = b"
proof (induction a b rule: list_induct2)
  case (Cons x xs y ys)
  have b: "be_val xs < 256 ^ length ys" "be_val ys < 256 ^ length ys"
    using be_val_bound [of xs] be_val_bound [of ys] Cons.hyps by simp_all
  have e: "unat x * 256 ^ length ys + be_val xs = unat y * 256 ^ length ys + be_val ys" using Cons by simp
  have "(unat x * 256 ^ length ys + be_val xs) div 256 ^ length ys = unat x"
    "(unat y * 256 ^ length ys + be_val ys) div 256 ^ length ys = unat y" using b by simp_all
  then have "unat x = unat y" using e by simp
  then show ?case using e Cons by (simp add: word_unat_eq_iff)
qed simp

lemma memlt_total: "length a = length b \<Longrightarrow> memlt a b \<or> a = b \<or> memlt b a"
  using memlt_be_val [of a b] memlt_be_val [of b a] be_val_inj [of a b] by fastforce

lemma memlt_asym: "length a = length b \<Longrightarrow> memlt a b \<Longrightarrow> \<not> memlt b a"
  using memlt_be_val [of a b] memlt_be_val [of b a] by simp

section \<open>HMAC and the PRF\<close>

type_synonym hash = "bytes list \<Rightarrow> bytes option"

definition hmac_pad :: "bytes \<Rightarrow> u8 \<Rightarrow> bytes" where
  "hmac_pad key c = map (\<lambda>x. x XOR c) (key @ replicate (64 - length key) 0)"

definition hmac_vector :: "hash \<Rightarrow> bytes \<Rightarrow> bytes list \<Rightarrow> bytes option" where
  "hmac_vector h key elems =
     (if 5 < length elems then None
      else do {
        key \<leftarrow> (if 64 < length key then h [key] else Some key);
        mac \<leftarrow> h (hmac_pad key 0x36 # elems);
        h [hmac_pad key 0x5c, mac] })"

definition hmac_sha1_vector :: "hash \<Rightarrow> bytes \<Rightarrow> bytes list \<Rightarrow> bytes option" where
  "hmac_sha1_vector sha1 key elems = hmac_vector sha1 key elems"

definition hmac_sha1 :: "hash \<Rightarrow> bytes \<Rightarrow> bytes \<Rightarrow> bytes option" where
  "hmac_sha1 sha1 key data = hmac_sha1_vector sha1 key [data]"

definition hmac_md5_vector :: "hash \<Rightarrow> bytes \<Rightarrow> bytes list \<Rightarrow> bytes option" where
  "hmac_md5_vector md5 key elems = hmac_vector md5 key elems"

definition hmac_md5 :: "hash \<Rightarrow> bytes \<Rightarrow> bytes \<Rightarrow> bytes option" where
  "hmac_md5 md5 key data = hmac_md5_vector md5 key [data]"

text \<open>
  The loop of \<open>sha1_prf\<close> with \<open>left\<close> octets to produce. The result is the return value and the octets that were
  written: a hash that fails leaves the rest of the buffer as it was.
\<close>

function prf_loop :: "hash \<Rightarrow> bytes \<Rightarrow> bytes \<Rightarrow> bytes \<Rightarrow> u8 \<Rightarrow> nat \<Rightarrow> int \<times> bytes" where
  "prf_loop sha1 key label data counter left =
     (if left = 0 then (0, [])
      else case hmac_sha1_vector sha1 key [label @ [0], data, [counter]] of
        None \<Rightarrow> (-1, [])
      | Some hash \<Rightarrow>
          if 20 \<le> left
          then let (r, out) = prf_loop sha1 key label data (counter + 1) (left - 20) in (r, hash @ out)
          else (0, take left hash))"
  by pat_completeness auto
termination by (relation "measure (\<lambda>(sha1, key, label, data, counter, left). left)") auto

declare prf_loop.simps [simp del]

definition sha1_prf :: "hash \<Rightarrow> bytes \<Rightarrow> bytes \<Rightarrow> bytes \<Rightarrow> nat \<Rightarrow> int \<times> bytes" where
  "sha1_prf sha1 key label data buf_len = prf_loop sha1 key label data 0 buf_len"

definition hash_ok :: "hash \<Rightarrow> nat \<Rightarrow> bool" where
  "hash_ok h n \<longleftrightarrow> (\<forall>xs d. h xs = Some d \<longrightarrow> length d = n)"

lemma length_hmac: "hash_ok h n \<Longrightarrow> hmac_vector h key elems = Some d \<Longrightarrow> length d = n"
  by (auto simp: hmac_vector_def hash_ok_def split: if_splits bind_splits)

lemma length_prf_loop:
  assumes "hash_ok sha1 20" "prf_loop sha1 key label data c left = (r, out)"
  shows "length out \<le> left \<and> (r = 0 \<longrightarrow> length out = left)"
  using assms
proof (induction sha1 key label data c left arbitrary: r out rule: prf_loop.induct)
  case (1 sha1 key label data c left)
  note e = "1.prems"(2) [unfolded prf_loop.simps [of sha1 key label data c left]]
  show ?case
  proof (cases "hmac_sha1_vector sha1 key [label @ [0], data, [c]]")
    case None
    then show ?thesis using e by (auto split: if_splits)
  next
    case (Some h)
    then have h: "length h = 20" using length_hmac [OF "1.prems"(1)] by (simp add: hmac_sha1_vector_def)
    show ?thesis
    proof (cases "left \<noteq> 0 \<and> 20 \<le> left")
      case True
      obtain r' out' where o: "prf_loop sha1 key label data (c + 1) (left - 20) = (r', out')" by fastforce
      then have "length out' \<le> left - 20 \<and> (r' = 0 \<longrightarrow> length out' = left - 20)"
        using "1.IH" [OF _ Some _ "1.prems"(1)] True by simp
      then show ?thesis using e Some True o h by auto
    next
      case False
      then show ?thesis using e Some h by (auto split: if_splits)
    qed
  qed
qed

lemma length_sha1_prf:
  "hash_ok sha1 20 \<Longrightarrow> sha1_prf sha1 key label data n = (r, out) \<Longrightarrow> length out \<le> n \<and> (r = 0 \<longrightarrow> length out = n)"
  unfolding sha1_prf_def by (rule length_prf_loop)

section \<open>AES key wrap\<close>

type_synonym block_fun = "bytes \<Rightarrow> bytes \<Rightarrow> bytes"

text \<open>
  One iteration of the inner loops. The registers are the eight octets \<open>a\<close> and the array \<open>r\<close> of \<open>n\<close> blocks of
  eight octets; \<open>i\<close> counts from one. The counter is reduced to an octet, as the assignment to \<open>u8\<close> does.
\<close>

definition block_at :: "bytes \<Rightarrow> nat \<Rightarrow> bytes" where
  "block_at r i = take 8 (drop (8 * (i - 1)) r)"

definition put_block :: "bytes \<Rightarrow> nat \<Rightarrow> bytes \<Rightarrow> bytes" where
  "put_block r i d = take (8 * (i - 1)) r @ d @ drop (8 * i) r"

definition mix :: "nat \<Rightarrow> nat \<Rightarrow> nat \<Rightarrow> bytes \<Rightarrow> bytes" where
  "mix n j i a = a[7 := a ! 7 XOR word_of_nat (n * j + i)]"

definition wrap_step :: "block_fun \<Rightarrow> bytes \<Rightarrow> nat \<Rightarrow> bytes \<times> bytes \<Rightarrow> nat \<times> nat \<Rightarrow> bytes \<times> bytes" where
  "wrap_step enc kek n ar ji = (case (ar, ji) of ((a, r), (j, i)) \<Rightarrow>
     let b = enc kek (a @ block_at r i) in (mix n j i (take 8 b), put_block r i (drop 8 b)))"

definition unwrap_step :: "block_fun \<Rightarrow> bytes \<Rightarrow> nat \<Rightarrow> bytes \<times> bytes \<Rightarrow> nat \<times> nat \<Rightarrow> bytes \<times> bytes" where
  "unwrap_step dec kek n ar ji = (case (ar, ji) of ((a, r), (j, i)) \<Rightarrow>
     let b = dec kek (mix n j i a @ block_at r i) in (take 8 b, put_block r i (drop 8 b)))"

definition wrap_order :: "nat \<Rightarrow> (nat \<times> nat) list" where
  "wrap_order n = concat (map (\<lambda>j. map (Pair j) [1..<n + 1]) [0..<6])"

definition unwrap_order :: "nat \<Rightarrow> (nat \<times> nat) list" where
  "unwrap_order n = concat (map (\<lambda>j. map (Pair j) (rev [1..<n + 1])) (rev [0..<6]))"

text \<open>The wrapped key is eight octets longer than the key; \<open>ok\<close> says whether the AES context could be set up.\<close>

definition aes_wrap :: "block_fun \<Rightarrow> bool \<Rightarrow> bytes \<Rightarrow> nat \<Rightarrow> bytes \<Rightarrow> (int \<times> bytes) option" where
  "aes_wrap enc ok kek n plain = do {
     r \<leftarrow> rd_bytes plain 0 (8 * n);
     let a = replicate 8 0xa6;
     if \<not> ok then Some (-1, a @ r)
     else let (a, r) = foldl (wrap_step enc kek n) (a, r) (wrap_order n) in Some (0, a @ r) }"

definition aes_unwrap :: "block_fun \<Rightarrow> bool \<Rightarrow> bytes \<Rightarrow> nat \<Rightarrow> bytes \<Rightarrow> (int \<times> bytes) option" where
  "aes_unwrap dec ok kek n cipher = do {
     a \<leftarrow> rd_bytes cipher 0 8;
     r \<leftarrow> rd_bytes cipher 8 (8 * n);
     if \<not> ok then Some (-1, r)
     else let (a, r) = foldl (unwrap_step dec kek n) (a, r) (unwrap_order n)
          in Some (if a = replicate 8 0xa6 then 0 else -1, r) }"

definition aes_ok :: "block_fun \<Rightarrow> block_fun \<Rightarrow> bool" where
  "aes_ok enc dec \<longleftrightarrow> (\<forall>k b. length b = 16 \<longrightarrow> length (enc k b) = 16 \<and> length (dec k b) = 16 \<and> dec k (enc k b) = b)"

lemma unwrap_order_rev: "unwrap_order n = rev (wrap_order n)"
  by (simp add: wrap_order_def unwrap_order_def rev_concat rev_map o_def)

lemma mix_mix: "length a = 8 \<Longrightarrow> mix n j i (mix n j i a) = a"
  by (simp add: mix_def xor.assoc)

lemma length_mix [simp]: "length (mix n j i a) = length a"
  by (simp add: mix_def)

lemma block_put:
  assumes "1 \<le> i" "i \<le> n" "length r = 8 * n" "length d = 8"
  shows "length (put_block r i d) = 8 * n" "block_at (put_block r i d) i = d"
    "put_block (put_block r i d) i (block_at r i) = r"
proof -
  have i: "8 * i = 8 * (i - 1) + 8" "8 * i \<le> length r" using assms by auto
  then show "length (put_block r i d) = 8 * n" "block_at (put_block r i d) i = d"
    using assms by (simp_all add: put_block_def block_at_def min_def)
  have "drop (8 * i) (take (8 * (i - 1)) r @ d @ drop (8 * i) r) = drop (8 * i) r"
    using i assms(4) by simp
  moreover have "take (8 * (i - 1)) r @ take 8 (drop (8 * (i - 1)) r) @ drop (8 * i) r = r"
    using i(1) by (metis append_take_drop_id drop_drop add.commute)
  ultimately show "put_block (put_block r i d) i (block_at r i) = r"
    using i by (simp add: put_block_def block_at_def min_def)
qed

lemma length_block: "1 \<le> i \<Longrightarrow> i \<le> n \<Longrightarrow> length r = 8 * n \<Longrightarrow> length (block_at r i) = 8"
  by (simp add: block_at_def)

definition regs_ok :: "nat \<Rightarrow> bytes \<times> bytes \<Rightarrow> bool" where
  "regs_ok n ar \<longleftrightarrow> length (fst ar) = 8 \<and> length (snd ar) = 8 * n"

lemma unwrap_wrap_step:
  assumes "aes_ok enc dec" "regs_ok n ar" "ji \<in> set (wrap_order n)"
  shows "regs_ok n (wrap_step enc k n ar ji)" "unwrap_step dec k n (wrap_step enc k n ar ji) ji = ar"
proof -
  obtain a r j i where e: "ar = (a, r)" "ji = (j, i)" by (cases ar; cases ji) auto
  have i: "1 \<le> i" "i \<le> n" using assms(3) e by (auto simp: wrap_order_def)
  have l: "length a = 8" "length r = 8 * n" using assms(2) e by (simp_all add: regs_ok_def)
  let ?b = "enc k (a @ block_at r i)"
  have b: "length ?b = 16" "dec k ?b = a @ block_at r i"
    using assms(1) l length_block [OF i l(2)] by (simp_all add: aes_ok_def)
  note bp = block_put [OF i l(2), of "drop 8 ?b"]
  show "regs_ok n (wrap_step enc k n ar ji)"
    using b(1) bp by (simp add: e regs_ok_def wrap_step_def Let_def)
  show "unwrap_step dec k n (wrap_step enc k n ar ji) ji = ar"
    using b bp l by (simp add: e wrap_step_def unwrap_step_def Let_def mix_mix)
qed

lemma unwrap_wrap_fold:
  assumes "aes_ok enc dec" "regs_ok n ar" "set js \<subseteq> set (wrap_order n)"
  shows "regs_ok n (foldl (wrap_step enc k n) ar js) \<and>
    foldl (unwrap_step dec k n) (foldl (wrap_step enc k n) ar js) (rev js) = ar"
  using assms(2,3)
proof (induction js arbitrary: ar)
  case (Cons ji js)
  note s = unwrap_wrap_step [OF assms(1) Cons.prems(1), of ji k]
  have "ji \<in> set (wrap_order n)" using Cons.prems(2) by simp
  then show ?case using Cons.IH [OF s(1)] s(2) Cons.prems(2) by simp
qed simp

text \<open>
  Unwrapping inverts wrapping. Given that AES decryption inverts encryption, a wrapped key of any number of
  blocks is accepted, whatever follows it in memory, and gives back the key.
\<close>

lemma aes_unwrap_wrap:
  assumes "aes_ok enc dec" "length plain = 8 * n"
  shows "\<exists>c. aes_wrap enc True kek n plain = Some (0, c) \<and> length c = 8 * n + 8 \<and>
    aes_unwrap dec True kek n (c @ rest) = Some (0, plain)"
proof -
  let ?ar = "(replicate 8 0xa6, plain) :: bytes \<times> bytes"
  have ok: "regs_ok n ?ar" using assms(2) by (simp add: regs_ok_def)
  obtain a r where f: "foldl (wrap_step enc kek n) ?ar (wrap_order n) = (a, r)" by fastforce
  then have "length a = 8" "length r = 8 * n" "foldl (unwrap_step dec kek n) (a, r) (unwrap_order n) = ?ar"
    using unwrap_wrap_fold [OF assms(1) ok, of "wrap_order n" kek] by (simp_all add: regs_ok_def unwrap_order_rev)
  then show ?thesis using f assms(2) by (simp add: aes_wrap_def aes_unwrap_def rd_bytes_def Let_def)
qed

lemma unwrap_step_regs:
  assumes "\<forall>k b. length b = 16 \<longrightarrow> length (dec k b) = 16" "regs_ok n ar" "ji \<in> set (wrap_order n)"
  shows "regs_ok n (unwrap_step dec k n ar ji)"
proof -
  obtain a r j i where e: "ar = (a, r)" "ji = (j, i)" by (cases ar; cases ji) auto
  have i: "1 \<le> i" "i \<le> n" using assms(3) e by (auto simp: wrap_order_def)
  have l: "length a = 8" "length r = 8 * n" using assms(2) e by (simp_all add: regs_ok_def)
  let ?b = "dec k (mix n j i a @ block_at r i)"
  have b: "length ?b = 16" using assms(1) l length_block [OF i l(2)] by simp
  then show ?thesis
    using block_put(1) [OF i l(2), of "drop 8 ?b"] by (simp add: e regs_ok_def unwrap_step_def Let_def)
qed

lemma aes_unwrap_total:
  assumes "\<forall>k b. length b = 16 \<longrightarrow> length (dec k b) = 16" "8 + 8 * n \<le> length c"
  shows "succeeds (aes_unwrap dec ok k n c) (\<lambda>(r, p). length p = 8 * n)"
proof -
  have f: "regs_ok n (foldl (unwrap_step dec k n) ar js)" if "regs_ok n ar" "set js \<subseteq> set (wrap_order n)" for ar js
    using that
  proof (induction js arbitrary: ar)
    case (Cons ji js)
    then show ?case using unwrap_step_regs [OF assms(1) Cons.prems(1), of ji k] by simp
  qed simp
  have "regs_ok n (foldl (unwrap_step dec k n) (take 8 c, take (8 * n) (drop 8 c)) (unwrap_order n))"
    by (rule f) (use assms(2) in \<open>auto simp: regs_ok_def unwrap_order_rev\<close>)
  then show ?thesis
    using assms(2) by (auto simp: aes_unwrap_def succeeds_simps Let_def regs_ok_def split_def)
qed

end
