(* ===== verification/Wpa_Common.thy ===== *)
theory Wpa_Common
  imports Crypto
begin

text \<open>
  WPA and RSN information elements and key derivation: src/src/common/wpa_common.c (without the parts for
  IEEE 802.11r, which the build leaves out) and src/src/rsn_supp/wpa_ie.c. Element buffers are byte lists with
  offsets; the fields of parse results that are pointers into the parsed buffer are offsets. Management frame
  protection (CONFIG_IEEE80211W) is not built.
\<close>

section \<open>Constants\<close>

abbreviation (input) WPA_CIPHER_NONE :: u32 where "WPA_CIPHER_NONE \<equiv> 1"
abbreviation (input) WPA_CIPHER_WEP40 :: u32 where "WPA_CIPHER_WEP40 \<equiv> 2"
abbreviation (input) WPA_CIPHER_WEP104 :: u32 where "WPA_CIPHER_WEP104 \<equiv> 4"
abbreviation (input) WPA_CIPHER_TKIP :: u32 where "WPA_CIPHER_TKIP \<equiv> 8"
abbreviation (input) WPA_CIPHER_CCMP :: u32 where "WPA_CIPHER_CCMP \<equiv> 16"
abbreviation (input) WPA_KEY_MGMT_IEEE8021X :: u32 where "WPA_KEY_MGMT_IEEE8021X \<equiv> 1"
abbreviation (input) WPA_KEY_MGMT_PSK :: u32 where "WPA_KEY_MGMT_PSK \<equiv> 2"
abbreviation (input) WPA_KEY_MGMT_NONE :: u32 where "WPA_KEY_MGMT_NONE \<equiv> 4"
abbreviation (input) WPA_KEY_MGMT_IEEE8021X_NO_WPA :: u32 where "WPA_KEY_MGMT_IEEE8021X_NO_WPA \<equiv> 8"
abbreviation (input) WPA_KEY_MGMT_WPA_NONE :: u32 where "WPA_KEY_MGMT_WPA_NONE \<equiv> 16"
abbreviation (input) WPA_KEY_MGMT_FT_IEEE8021X :: u32 where "WPA_KEY_MGMT_FT_IEEE8021X \<equiv> 32"
abbreviation (input) WPA_KEY_MGMT_FT_PSK :: u32 where "WPA_KEY_MGMT_FT_PSK \<equiv> 64"
abbreviation (input) WPA_KEY_MGMT_IEEE8021X_SHA256 :: u32 where "WPA_KEY_MGMT_IEEE8021X_SHA256 \<equiv> 128"
abbreviation (input) WPA_KEY_MGMT_PSK_SHA256 :: u32 where "WPA_KEY_MGMT_PSK_SHA256 \<equiv> 256"
abbreviation (input) WPA_PROTO_WPA :: u32 where "WPA_PROTO_WPA \<equiv> 1"
abbreviation (input) WPA_PROTO_RSN :: u32 where "WPA_PROTO_RSN \<equiv> 2"
abbreviation (input) WPA_OUI_TYPE :: u32 where "WPA_OUI_TYPE \<equiv> 0x0050f201"
abbreviation (input) PMKID_LEN :: nat where "PMKID_LEN \<equiv> 16"
abbreviation (input) EID_RSN :: u8 where "EID_RSN \<equiv> 48"
abbreviation (input) EID_VENDOR_SPECIFIC :: u8 where "EID_VENDOR_SPECIFIC \<equiv> 221"

definition wpa_key_mgmt_wpa_ieee8021x :: "u32 \<Rightarrow> bool" where
  "wpa_key_mgmt_wpa_ieee8021x akm \<longleftrightarrow>
     akm AND (WPA_KEY_MGMT_IEEE8021X OR WPA_KEY_MGMT_FT_IEEE8021X OR WPA_KEY_MGMT_IEEE8021X_SHA256) \<noteq> 0"

definition wpa_key_mgmt_wpa_psk :: "u32 \<Rightarrow> bool" where
  "wpa_key_mgmt_wpa_psk akm \<longleftrightarrow>
     akm AND (WPA_KEY_MGMT_PSK OR WPA_KEY_MGMT_FT_PSK OR WPA_KEY_MGMT_PSK_SHA256) \<noteq> 0"

definition wpa_key_mgmt_ft :: "u32 \<Rightarrow> bool" where
  "wpa_key_mgmt_ft akm \<longleftrightarrow> akm AND (WPA_KEY_MGMT_FT_PSK OR WPA_KEY_MGMT_FT_IEEE8021X) \<noteq> 0"

definition wpa_key_mgmt_sha256 :: "u32 \<Rightarrow> bool" where
  "wpa_key_mgmt_sha256 akm \<longleftrightarrow> akm AND (WPA_KEY_MGMT_PSK_SHA256 OR WPA_KEY_MGMT_IEEE8021X_SHA256) \<noteq> 0"

section \<open>Keys\<close>

text \<open>The two hashes of the build, as one argument.\<close>

record hashes =
  sha1_vector :: hash
  md5_vector :: hash

definition wpa_eapol_key_mic :: "hashes \<Rightarrow> bytes \<Rightarrow> u16 \<Rightarrow> bytes \<Rightarrow> bytes option" where
  "wpa_eapol_key_mic hs key ver buf =
     (if ver = 1 then hmac_md5 (md5_vector hs) key buf
      else if ver = 2 then map_option (take 16) (hmac_sha1 (sha1_vector hs) key buf)
      else None)"

definition wpa_pmk_to_ptk ::
  "hashes \<Rightarrow> bytes \<Rightarrow> bytes \<Rightarrow> bytes \<Rightarrow> bytes \<Rightarrow> bytes \<Rightarrow> bytes \<Rightarrow> nat \<Rightarrow> int \<times> bytes" where
  "wpa_pmk_to_ptk hs pmk label addr1 addr2 nonce1 nonce2 ptk_len =
     (let data = (if memlt addr1 addr2 then addr1 @ addr2 else addr2 @ addr1) @
                 (if memlt nonce1 nonce2 then nonce1 @ nonce2 else nonce2 @ nonce1)
      in sha1_prf (sha1_vector hs) pmk label data ptk_len)"

definition rsn_pmkid :: "hashes \<Rightarrow> bytes \<Rightarrow> bytes \<Rightarrow> bytes \<Rightarrow> bytes option" where
  "rsn_pmkid hs pmk aa spa =
     map_option (take PMKID_LEN) (hmac_sha1_vector (sha1_vector hs) pmk [lit ''PMK Name'', aa, spa])"

text \<open>Both ends derive the same key: the order of the addresses and of the nonces does not matter.\<close>

lemma pmk_to_ptk_sym:
  assumes "length a1 = length a2" "length n1 = length n2"
  shows "wpa_pmk_to_ptk hs pmk label a1 a2 n1 n2 len = wpa_pmk_to_ptk hs pmk label a2 a1 n2 n1 len"
  using memlt_total [OF assms(1)] memlt_total [OF assms(2)] memlt_asym [OF assms(1)] memlt_asym [OF assms(2)]
    memlt_asym [OF assms(1) [symmetric]] memlt_asym [OF assms(2) [symmetric]]
  by (auto simp: wpa_pmk_to_ptk_def)

section \<open>Names\<close>

definition wpa_cipher_txt :: "u32 \<Rightarrow> bytes" where
  "wpa_cipher_txt cipher =
     (if cipher = WPA_CIPHER_NONE then lit ''NONE''
      else if cipher = WPA_CIPHER_WEP40 then lit ''WEP-40''
      else if cipher = WPA_CIPHER_WEP104 then lit ''WEP-104''
      else if cipher = WPA_CIPHER_TKIP then lit ''TKIP''
      else if cipher = WPA_CIPHER_CCMP then lit ''CCMP''
      else if cipher = WPA_CIPHER_CCMP OR WPA_CIPHER_TKIP then lit ''CCMP+TKIP''
      else lit ''UNKNOWN'')"

definition wpa_key_mgmt_txt :: "u32 \<Rightarrow> u32 \<Rightarrow> bytes" where
  "wpa_key_mgmt_txt key_mgmt proto =
     (if key_mgmt = WPA_KEY_MGMT_IEEE8021X then
        (if proto = WPA_PROTO_RSN OR WPA_PROTO_WPA then lit ''WPA2+WPA/IEEE 802.1X/EAP''
         else if proto = WPA_PROTO_RSN then lit ''WPA2/IEEE 802.1X/EAP'' else lit ''WPA/IEEE 802.1X/EAP'')
      else if key_mgmt = WPA_KEY_MGMT_PSK then
        (if proto = WPA_PROTO_RSN OR WPA_PROTO_WPA then lit ''WPA2-PSK+WPA-PSK''
         else if proto = WPA_PROTO_RSN then lit ''WPA2-PSK'' else lit ''WPA-PSK'')
      else if key_mgmt = WPA_KEY_MGMT_NONE then lit ''NONE''
      else if key_mgmt = WPA_KEY_MGMT_IEEE8021X_NO_WPA then lit ''IEEE 802.1X (no WPA)''
      else lit ''UNKNOWN'')"

section \<open>Parsing WPA and RSN elements\<close>

record wpa_ie_data =
  ied_proto :: u32
  ied_pairwise_cipher :: u32
  ied_group_cipher :: u32
  ied_key_mgmt :: u32
  ied_capabilities :: u16
  ied_num_pmkid :: nat
  ied_pmkid :: "nat option"
  ied_mgmt_group_cipher :: u32

definition rsn_selector_to_bitfield :: "u32 \<Rightarrow> u32" where
  "rsn_selector_to_bitfield s =
     (if s = 0x000fac00 then WPA_CIPHER_NONE
      else if s = 0x000fac01 then WPA_CIPHER_WEP40
      else if s = 0x000fac02 then WPA_CIPHER_TKIP
      else if s = 0x000fac04 then WPA_CIPHER_CCMP
      else if s = 0x000fac05 then WPA_CIPHER_WEP104
      else 0)"

definition rsn_key_mgmt_to_bitfield :: "u32 \<Rightarrow> u32" where
  "rsn_key_mgmt_to_bitfield s =
     (if s = 0x000fac01 then WPA_KEY_MGMT_IEEE8021X
      else if s = 0x000fac02 then WPA_KEY_MGMT_PSK
      else 0)"

definition wpa_selector_to_bitfield :: "u32 \<Rightarrow> u32" where
  "wpa_selector_to_bitfield s =
     (if s = 0x0050f200 then WPA_CIPHER_NONE
      else if s = 0x0050f201 then WPA_CIPHER_WEP40
      else if s = 0x0050f202 then WPA_CIPHER_TKIP
      else if s = 0x0050f204 then WPA_CIPHER_CCMP
      else if s = 0x0050f205 then WPA_CIPHER_WEP104
      else 0)"

definition wpa_key_mgmt_to_bitfield :: "u32 \<Rightarrow> u32" where
  "wpa_key_mgmt_to_bitfield s =
     (if s = 0x0050f201 then WPA_KEY_MGMT_IEEE8021X
      else if s = 0x0050f202 then WPA_KEY_MGMT_PSK
      else if s = 0x0050f200 then WPA_KEY_MGMT_WPA_NONE
      else 0)"

fun or_suites :: "(u32 \<Rightarrow> u32) \<Rightarrow> bytes \<Rightarrow> nat \<Rightarrow> nat \<Rightarrow> u32 \<Rightarrow> u32 option" where
  "or_suites f mem pos 0 acc = Some acc"
| "or_suites f mem pos (Suc n) acc = do {
     s \<leftarrow> rd_be32 mem pos;
     or_suites f mem (pos + 4) n (acc OR f s) }"

text \<open>
  A list of suites with its count: the return code so far (\<open>err\<close> if the count does not fit, \<open>err - 1\<close> if only one
  octet is left), the new value of the field, if it is assigned, and the next offset.
\<close>

definition suite_list :: "(u32 \<Rightarrow> u32) \<Rightarrow> int \<Rightarrow> bytes \<Rightarrow> nat \<Rightarrow> nat \<Rightarrow> (int \<times> u32 option \<times> nat) option" where
  "suite_list f err mem pos len =
     (if pos + 2 \<le> len then do {
        count \<leftarrow> rd_le16 mem pos;
        if count = 0 \<or> len - (pos + 2) < unat count * 4 then Some (err, Some 0, pos + 2)
        else do {
          v \<leftarrow> or_suites f mem (pos + 2) (unat count) 0;
          Some (0, Some v, pos + 2 + 4 * unat count) } }
      else if pos + 1 = len then Some (err - 1, None, pos)
      else Some (0, None, pos))"

text \<open>The part that both parsers share: group suite, pairwise suites and key management suites.\<close>

definition parse_suites ::
  "(u32 \<Rightarrow> u32) \<Rightarrow> (u32 \<Rightarrow> u32) \<Rightarrow> bytes \<Rightarrow> nat \<Rightarrow> nat \<Rightarrow> wpa_ie_data \<Rightarrow> (int \<times> wpa_ie_data \<times> nat) option" where
  "parse_suites sel akm mem pos len d =
     (if pos < len \<and> len < pos + 4 then Some (-3, d, pos)
      else do {
        (d, pos) \<leftarrow> (if pos + 4 \<le> len
          then do { s \<leftarrow> rd_be32 mem pos; Some (d\<lparr>ied_group_cipher := sel s\<rparr>, pos + 4) }
          else Some (d, pos));
        (r, v, pos) \<leftarrow> suite_list sel (-4) mem pos len;
        let d = (case v of None \<Rightarrow> d | Some v \<Rightarrow> d\<lparr>ied_pairwise_cipher := v\<rparr>);
        if r < 0 then Some (r, d, pos)
        else do {
          (r, v, pos) \<leftarrow> suite_list akm (-6) mem pos len;
          let d = (case v of None \<Rightarrow> d | Some v \<Rightarrow> d\<lparr>ied_key_mgmt := v\<rparr>);
          if r < 0 then Some (r, d, pos)
          else do {
            (d, pos) \<leftarrow> (if pos + 2 \<le> len
              then do { c \<leftarrow> rd_le16 mem pos; Some (d\<lparr>ied_capabilities := c\<rparr>, pos + 2) }
              else Some (d, pos));
            Some (0, d, pos) } } })"

definition ie_defaults :: "u32 \<Rightarrow> u32 \<Rightarrow> wpa_ie_data" where
  "ie_defaults proto cipher = \<lparr>ied_proto = proto, ied_pairwise_cipher = cipher, ied_group_cipher = cipher,
     ied_key_mgmt = WPA_KEY_MGMT_IEEE8021X, ied_capabilities = 0, ied_num_pmkid = 0, ied_pmkid = None,
     ied_mgmt_group_cipher = 0\<rparr>"

definition wpa_parse_wpa_ie_rsn :: "bytes \<Rightarrow> nat \<Rightarrow> (int \<times> wpa_ie_data) option" where
  "wpa_parse_wpa_ie_rsn mem len =
     (let d = ie_defaults WPA_PROTO_RSN WPA_CIPHER_CCMP in
      if len < 4 then Some (-1, d)
      else do {
        e \<leftarrow> rd mem 0; l \<leftarrow> rd mem 1; v \<leftarrow> rd_le16 mem 2;
        if e \<noteq> EID_RSN \<or> unat l \<noteq> len - 2 \<or> v \<noteq> 1 then Some (-2, d)
        else do {
          (r, d, pos) \<leftarrow> parse_suites rsn_selector_to_bitfield rsn_key_mgmt_to_bitfield mem 4 len d;
          if r < 0 then Some (r, d)
          else if len < pos + 2 then Some (0, d)
          else do {
            n \<leftarrow> rd_le16 mem pos;
            if len - (pos + 2) < unat n * PMKID_LEN then Some (-9, d\<lparr>ied_num_pmkid := 0\<rparr>)
            else Some (0, d\<lparr>ied_num_pmkid := unat n, ied_pmkid := Some (pos + 2)\<rparr>) } } })"

definition wpa_parse_wpa_ie_wpa :: "bytes \<Rightarrow> nat \<Rightarrow> (int \<times> wpa_ie_data) option" where
  "wpa_parse_wpa_ie_wpa mem len =
     (let d = ie_defaults WPA_PROTO_WPA WPA_CIPHER_TKIP in
      if len < 8 then Some (-1, d)
      else do {
        e \<leftarrow> rd mem 0; l \<leftarrow> rd mem 1; oui \<leftarrow> rd_be32 mem 2; v \<leftarrow> rd_le16 mem 6;
        if e \<noteq> EID_VENDOR_SPECIFIC \<or> unat l \<noteq> len - 2 \<or> oui \<noteq> WPA_OUI_TYPE \<or> v \<noteq> 1 then Some (-2, d)
        else do {
          (r, d, pos) \<leftarrow> parse_suites wpa_selector_to_bitfield wpa_key_mgmt_to_bitfield mem 8 len d;
          Some (r, d) } })"

definition wpa_parse_wpa_ie :: "bytes \<Rightarrow> nat \<Rightarrow> (int \<times> wpa_ie_data) option" where
  "wpa_parse_wpa_ie mem len =
     (if 1 \<le> len then do {
        e \<leftarrow> rd mem 0;
        if e = EID_RSN then wpa_parse_wpa_ie_rsn mem len else wpa_parse_wpa_ie_wpa mem len }
      else wpa_parse_wpa_ie_wpa mem len)"

text \<open>\<open>None\<close> is the null pointer.\<close>

definition wpa_compare_rsn_ie :: "bytes option \<Rightarrow> bytes option \<Rightarrow> int" where
  "wpa_compare_rsn_ie ie1 ie2 = (case (ie1, ie2) of (Some a, Some b) \<Rightarrow> if a = b then 0 else -1 | _ \<Rightarrow> -1)"

section \<open>Generating WPA and RSN elements\<close>

definition wpa_group_suite :: "u32 \<Rightarrow> u32 option" where
  "wpa_group_suite c =
     (if c = WPA_CIPHER_CCMP then Some 0x0050f204 else if c = WPA_CIPHER_TKIP then Some 0x0050f202
      else if c = WPA_CIPHER_WEP104 then Some 0x0050f205 else if c = WPA_CIPHER_WEP40 then Some 0x0050f201 else None)"

definition wpa_pairwise_suite :: "u32 \<Rightarrow> u32 option" where
  "wpa_pairwise_suite c =
     (if c = WPA_CIPHER_CCMP then Some 0x0050f204 else if c = WPA_CIPHER_TKIP then Some 0x0050f202
      else if c = WPA_CIPHER_NONE then Some 0x0050f200 else None)"

definition wpa_akm_suite :: "u32 \<Rightarrow> u32 option" where
  "wpa_akm_suite k =
     (if k = WPA_KEY_MGMT_IEEE8021X then Some 0x0050f201 else if k = WPA_KEY_MGMT_PSK then Some 0x0050f202
      else if k = WPA_KEY_MGMT_WPA_NONE then Some 0x0050f200 else None)"

definition rsn_group_suite :: "u32 \<Rightarrow> u32 option" where
  "rsn_group_suite c =
     (if c = WPA_CIPHER_CCMP then Some 0x000fac04 else if c = WPA_CIPHER_TKIP then Some 0x000fac02
      else if c = WPA_CIPHER_WEP104 then Some 0x000fac05 else if c = WPA_CIPHER_WEP40 then Some 0x000fac01 else None)"

definition rsn_pairwise_suite :: "u32 \<Rightarrow> u32 option" where
  "rsn_pairwise_suite c =
     (if c = WPA_CIPHER_CCMP then Some 0x000fac04 else if c = WPA_CIPHER_TKIP then Some 0x000fac02
      else if c = WPA_CIPHER_NONE then Some 0x000fac00 else None)"

definition rsn_akm_suite :: "u32 \<Rightarrow> u32 option" where
  "rsn_akm_suite k =
     (if k = WPA_KEY_MGMT_IEEE8021X then Some 0x000fac01 else if k = WPA_KEY_MGMT_PSK then Some 0x000fac02 else None)"

text \<open>
  The three suites from offset \<open>pos\<close>, each list of one suite with its count. An unsupported suite ends the
  function with -1; what was written before stays in the buffer.
\<close>

definition put_suites ::
  "u32 option \<Rightarrow> u32 option \<Rightarrow> u32 option \<Rightarrow> bytes \<Rightarrow> nat \<Rightarrow> (bool \<times> bytes) option" where
  "put_suites gs ps ks buf pos = (case gs of
     None \<Rightarrow> Some (False, buf)
   | Some g \<Rightarrow> do {
       buf \<leftarrow> wr_bytes buf pos (put_be32 g);
       buf \<leftarrow> wr_bytes buf (pos + 4) [1, 0];
       (case ps of
          None \<Rightarrow> Some (False, buf)
        | Some p \<Rightarrow> do {
            buf \<leftarrow> wr_bytes buf (pos + 6) (put_be32 p);
            buf \<leftarrow> wr_bytes buf (pos + 10) [1, 0];
            (case ks of
               None \<Rightarrow> Some (False, buf)
             | Some k \<Rightarrow> do {
                 buf \<leftarrow> wr_bytes buf (pos + 12) (put_be32 k);
                 Some (True, buf) }) }) })"

definition wpa_gen_wpa_ie_wpa :: "bytes \<Rightarrow> nat \<Rightarrow> u32 \<Rightarrow> u32 \<Rightarrow> u32 \<Rightarrow> (int \<times> bytes) option" where
  "wpa_gen_wpa_ie_wpa buf len pairwise_cipher group_cipher key_mgmt =
     (if len < 24 then Some (-1, buf)
      else do {
        buf \<leftarrow> wr_bytes buf 0 [EID_VENDOR_SPECIFIC];
        buf \<leftarrow> wr_bytes buf 2 (put_be32 WPA_OUI_TYPE);
        buf \<leftarrow> wr_bytes buf 6 (put_le16 1);
        (ok, buf) \<leftarrow> put_suites (wpa_group_suite group_cipher) (wpa_pairwise_suite pairwise_cipher)
                      (wpa_akm_suite key_mgmt) buf 8;
        if \<not> ok then Some (-1, buf)
        else do { buf \<leftarrow> wr_bytes buf 1 [22]; Some (24, buf) } })"

text \<open>\<open>pmkid\<close> is the identifier of the current PMKSA entry, if there is one.\<close>

definition wpa_gen_wpa_ie_rsn ::
  "bytes \<Rightarrow> nat \<Rightarrow> u32 \<Rightarrow> u32 \<Rightarrow> u32 \<Rightarrow> bytes option \<Rightarrow> (int \<times> bytes) option" where
  "wpa_gen_wpa_ie_rsn buf len pairwise_cipher group_cipher key_mgmt pmkid =
     (if len < 22 + (if pmkid \<noteq> None then 2 + PMKID_LEN else 0) then Some (-1, buf)
      else do {
        buf \<leftarrow> wr_bytes buf 0 [EID_RSN];
        buf \<leftarrow> wr_bytes buf 2 (put_le16 1);
        (ok, buf) \<leftarrow> put_suites (rsn_group_suite group_cipher) (rsn_pairwise_suite pairwise_cipher)
                      (rsn_akm_suite key_mgmt) buf 4;
        if \<not> ok then Some (-1, buf)
        else do {
          buf \<leftarrow> wr_bytes buf 20 (put_le16 0);
          (case pmkid of
             None \<Rightarrow> do { buf \<leftarrow> wr_bytes buf 1 [20]; Some (22, buf) }
           | Some p \<Rightarrow> do {
               buf \<leftarrow> wr_bytes buf 22 [1, 0];
               d \<leftarrow> rd_bytes p 0 PMKID_LEN;
               buf \<leftarrow> wr_bytes buf 24 d;
               buf \<leftarrow> wr_bytes buf 1 [38];
               Some (40, buf) }) } })"

definition wpa_gen_wpa_ie :: "u32 \<Rightarrow> bytes \<Rightarrow> nat \<Rightarrow> u32 \<Rightarrow> u32 \<Rightarrow> u32 \<Rightarrow> bytes option \<Rightarrow> (int \<times> bytes) option" where
  "wpa_gen_wpa_ie proto buf len pairwise_cipher group_cipher key_mgmt pmkid =
     (if proto = WPA_PROTO_RSN then wpa_gen_wpa_ie_rsn buf len pairwise_cipher group_cipher key_mgmt pmkid
      else wpa_gen_wpa_ie_wpa buf len pairwise_cipher group_cipher key_mgmt)"

section \<open>The parsers never read outside the element\<close>

lemma succeeds_rd_be32 [succeeds_simps]:
  "succeeds (rd_be32 buf i) P = (i + 3 < length buf \<and> P (get_be32 (buf ! i) (buf ! (i + 1)) (buf ! (i + 2)) (buf ! (i + 3))))"
  by (auto simp: rd_be32_def succeeds_simps)

lemma or_suites_total: "pos + 4 * n \<le> length mem \<Longrightarrow> \<exists>v. or_suites f mem pos n acc = Some v"
  by (induction n arbitrary: pos acc) (simp_all add: rd_be32_Some)

lemma succeeds_or_suites: "pos + 4 * n \<le> length mem \<Longrightarrow> (\<And>v. P v) \<Longrightarrow> succeeds (or_suites f mem pos n acc) P"
  using or_suites_total [of pos n mem f acc] by (auto simp: succeeds_def)

lemma suite_list_total:
  assumes "len \<le> length mem" "err < 0"
  shows "succeeds (suite_list f err mem pos len) (\<lambda>(r, v, pos'). pos \<le> pos' \<and> (0 \<le> r \<longrightarrow> pos \<le> len \<longrightarrow> pos' \<le> len))"
  using assms unfolding suite_list_def
  by (auto simp: succeeds_simps not_less intro!: succeeds_or_suites)

lemma parse_suites_total:
  assumes "len \<le> length mem"
  shows "succeeds (parse_suites sel akm mem pos len d)
    (\<lambda>(r, d', pos'). pos \<le> pos' \<and> ied_num_pmkid d' = ied_num_pmkid d \<and> ied_pmkid d' = ied_pmkid d \<and> ied_proto d' = ied_proto d)"
proof -
  have l: "succeeds (suite_list f err mem p len) P"
    if "err < 0" "\<And>r v pos'. p \<le> pos' \<Longrightarrow> P (r, v, pos')" for f err p P
    using succeeds_mono [OF suite_list_total [OF assms that(1), of f p]] that(2) by force
  show ?thesis
    using assms unfolding parse_suites_def
    by (auto simp: succeeds_simps Let_def intro!: l split: option.splits)
qed

text \<open>
  Parsing a WPA or RSN element of any content stays within the element, and a PMKID list that it reports is
  inside the element.
\<close>

lemma parse_wpa_ie_total:
  assumes "len \<le> length mem"
  shows "succeeds (wpa_parse_wpa_ie mem len)
    (\<lambda>(r, d). case ied_pmkid d of None \<Rightarrow> ied_num_pmkid d = 0 | Some p \<Rightarrow> p + 16 * ied_num_pmkid d \<le> len)"
proof -
  have p: "succeeds (parse_suites sel akm mem pos len d) P"
    if "\<And>r d' pos'. pos \<le> pos' \<Longrightarrow> ied_num_pmkid d' = ied_num_pmkid d \<Longrightarrow> ied_pmkid d' = ied_pmkid d \<Longrightarrow> P (r, d', pos')"
    for sel akm pos d P
    using succeeds_mono [OF parse_suites_total [OF assms, of sel akm pos d]] that by force
  have "succeeds (wpa_parse_wpa_ie_rsn mem len)
      (\<lambda>(r, d). case ied_pmkid d of None \<Rightarrow> ied_num_pmkid d = 0 | Some p \<Rightarrow> p + 16 * ied_num_pmkid d \<le> len)"
    using assms unfolding wpa_parse_wpa_ie_rsn_def
    by (auto simp: succeeds_simps Let_def ie_defaults_def not_less intro!: p)
  moreover have "succeeds (wpa_parse_wpa_ie_wpa mem len)
      (\<lambda>(r, d). case ied_pmkid d of None \<Rightarrow> ied_num_pmkid d = 0 | Some p \<Rightarrow> p + 16 * ied_num_pmkid d \<le> len)"
    using assms unfolding wpa_parse_wpa_ie_wpa_def
    by (auto simp: succeeds_simps Let_def ie_defaults_def intro!: p)
  ultimately show ?thesis using assms unfolding wpa_parse_wpa_ie_def by (auto simp: succeeds_simps)
qed

section \<open>Generated elements are parsed back\<close>

lemma wr_bytes_seq:
  "n = pos + length d \<Longrightarrow> wr_bytes buf pos d \<bind> (\<lambda>b. wr_bytes b n e \<bind> k) = wr_bytes buf pos (d @ e) \<bind> k"
  by (cases "pos + length d + length e \<le> length buf") (auto simp: wr_bytes_def ac_simps)

lemma put_suites_Some:
  "put_suites (Some g) (Some p) (Some k) buf pos =
    wr_bytes buf pos (put_be32 g @ [1, 0] @ put_be32 p @ [1, 0] @ put_be32 k) \<bind> (\<lambda>b. Some (True, b))"
  by (simp add: put_suites_def wr_bytes_seq)

text \<open>What the generators write, when the suites are supported.\<close>

definition suite_bytes :: "u32 \<Rightarrow> u32 \<Rightarrow> u32 \<Rightarrow> bytes" where
  "suite_bytes g p k = put_be32 g @ [1, 0] @ put_be32 p @ [1, 0] @ put_be32 k"

lemma length_suite_bytes [simp]: "length (suite_bytes g p k) = 16"
  by (simp add: suite_bytes_def)

lemma put_suites_ok:
  "put_suites gs ps ks buf pos = Some (True, b) \<Longrightarrow> (\<exists>g. gs = Some g) \<and> (\<exists>p. ps = Some p) \<and> (\<exists>k. ks = Some k)"
  by (auto simp: put_suites_def split: option.splits bind_splits)

lemma gen_wpa_ok:
  assumes "wpa_gen_wpa_ie_wpa buf len pc gc km = Some (r, buf')" "0 \<le> r"
  shows "\<exists>g p k. wpa_group_suite gc = Some g \<and> wpa_pairwise_suite pc = Some p \<and> wpa_akm_suite km = Some k \<and> 24 \<le> len"
  using assms by (auto simp: wpa_gen_wpa_ie_wpa_def dest!: put_suites_ok split: if_splits bind_splits)

lemma gen_rsn_ok:
  assumes "wpa_gen_wpa_ie_rsn buf len pc gc km pmkid = Some (r, buf')" "0 \<le> r"
  shows "\<exists>g p k. rsn_group_suite gc = Some g \<and> rsn_pairwise_suite pc = Some p \<and> rsn_akm_suite km = Some k \<and>
    (case pmkid of None \<Rightarrow> 22 \<le> len | Some i \<Rightarrow> 40 \<le> len)"
  using assms by (auto simp: wpa_gen_wpa_ie_rsn_def dest!: put_suites_ok split: if_splits bind_splits option.splits)

lemma two_octets: "2 \<le> length buf \<Longrightarrow> \<exists>x y zs. buf = x # y # zs"
  by (cases buf; cases "tl buf") auto

lemma gen_wpa_bytes:
  assumes "wpa_group_suite gc = Some g" "wpa_pairwise_suite pc = Some p" "wpa_akm_suite km = Some k"
    "24 \<le> len" "len \<le> length buf"
  shows "wpa_gen_wpa_ie_wpa buf len pc gc km =
    Some (24, [221, 22] @ put_be32 WPA_OUI_TYPE @ put_le16 1 @ suite_bytes g p k @ drop 24 buf)"
proof -
  obtain x y zs where b: "buf = x # y # zs" "22 \<le> length zs" using two_octets [of buf] assms(4,5) by auto
  then show ?thesis
    using assms by (simp add: wpa_gen_wpa_ie_wpa_def put_suites_Some wr_bytes_seq)
      (simp add: wr_bytes_def suite_bytes_def)
qed

lemma gen_rsn_bytes:
  assumes "rsn_group_suite gc = Some g" "rsn_pairwise_suite pc = Some p" "rsn_akm_suite km = Some k"
    "len \<le> length buf" "case pmkid of None \<Rightarrow> 22 \<le> len | Some i \<Rightarrow> 40 \<le> len \<and> length i = 16"
  shows "wpa_gen_wpa_ie_rsn buf len pc gc km pmkid = Some (case pmkid of
      None \<Rightarrow> (22, [48, 20] @ put_le16 1 @ suite_bytes g p k @ put_le16 0 @ drop 22 buf)
    | Some i \<Rightarrow> (40, [48, 38] @ put_le16 1 @ suite_bytes g p k @ put_le16 0 @ [1, 0] @ i @ drop 40 buf))"
proof -
  obtain x y zs where b: "buf = x # y # zs" "20 \<le> length zs"
    using two_octets [of buf] assms(4,5) by (auto split: option.splits)
  show ?thesis
  proof (cases pmkid)
    case None
    then show ?thesis
      using assms b by (simp add: wpa_gen_wpa_ie_rsn_def put_suites_Some wr_bytes_seq)
        (simp add: wr_bytes_def suite_bytes_def)
  next
    case (Some i)
    then have "38 \<le> length zs" using assms b by simp
    then show ?thesis
      using assms b Some by (simp add: wpa_gen_wpa_ie_rsn_def put_suites_Some wr_bytes_seq rd_bytes_def)
        (simp add: wr_bytes_def suite_bytes_def)
  qed
qed

lemma rd_be32_app: "rd_be32 (xs @ put_be32 v @ ys) (length xs) = Some v"
proof -
  have "put_be32 v = [ucast (drop_bit 24 v AND 0xff), ucast (drop_bit 16 v AND 0xff), ucast (drop_bit 8 v AND 0xff), ucast (v AND 0xff)]"
    by (simp add: put_be32_def)
  then show ?thesis by (simp add: rd_be32_def rd_def nth_append get_put_be32)
qed

lemma suite_list_one:
  assumes "mem = xs @ [1, 0] @ put_be32 v @ ys" "length xs + 6 \<le> len"
  shows "suite_list f err mem (length xs) len = Some (0, Some (f v), length xs + 6)"
proof -
  have "rd_le16 mem (length xs) = Some 1" using assms(1) by (simp add: rd_le16_def rd_def nth_append get_le16_def)
  moreover have "rd_be32 mem (length xs + 2) = Some v" using rd_be32_app [of "xs @ [1, 0]" v ys] assms(1) by simp
  ultimately show ?thesis using assms(2) by (simp add: suite_list_def)
qed

lemma parse_suites_written:
  assumes "mem = xs @ suite_bytes g p k @ ys" "length xs + 16 \<le> len"
  shows "parse_suites sel akm mem (length xs) len d =
    (let d = d\<lparr>ied_group_cipher := sel g, ied_pairwise_cipher := sel p, ied_key_mgmt := akm k\<rparr> in
     if length xs + 18 \<le> len
     then do { c \<leftarrow> rd_le16 mem (length xs + 16); Some (0, d\<lparr>ied_capabilities := c\<rparr>, length xs + 18) }
     else Some (0, d, length xs + 16))"
proof -
  have "rd_be32 mem (length xs) = Some g" using rd_be32_app [of xs g] assms(1) by (simp add: suite_bytes_def)
  moreover have "suite_list sel (-4) mem (length xs + 4) len = Some (0, Some (sel p), length xs + 10)"
    using suite_list_one [of mem "xs @ put_be32 g" p "[1, 0] @ put_be32 k @ ys"] assms by (simp add: suite_bytes_def)
  moreover have "suite_list akm (-6) mem (length xs + 10) len = Some (0, Some (akm k), length xs + 16)"
    using suite_list_one [of mem "xs @ put_be32 g @ [1, 0] @ put_be32 p" k ys] assms by (simp add: suite_bytes_def)
  ultimately show ?thesis using assms(2) by (simp add: parse_suites_def Let_def add.commute)
qed

lemma suites_inverse:
  "rsn_group_suite gc = Some g \<Longrightarrow> rsn_selector_to_bitfield g = gc" "rsn_pairwise_suite pc = Some p \<Longrightarrow> rsn_selector_to_bitfield p = pc"
  "rsn_akm_suite km = Some k \<Longrightarrow> rsn_key_mgmt_to_bitfield k = km"
  "wpa_group_suite gc = Some g \<Longrightarrow> wpa_selector_to_bitfield g = gc" "wpa_pairwise_suite pc = Some p \<Longrightarrow> wpa_selector_to_bitfield p = pc"
  "wpa_akm_suite km = Some k \<Longrightarrow> wpa_key_mgmt_to_bitfield k = km"
  by (auto simp: rsn_group_suite_def rsn_pairwise_suite_def rsn_akm_suite_def wpa_group_suite_def wpa_pairwise_suite_def
      wpa_akm_suite_def rsn_selector_to_bitfield_def rsn_key_mgmt_to_bitfield_def wpa_selector_to_bitfield_def
      wpa_key_mgmt_to_bitfield_def split: if_splits)

lemma parse_rsn_written:
  assumes "mem = [48, of_nat (n - 2)] @ put_le16 1 @ suite_bytes g p k @ put_le16 0 @ ys" "n = 22 \<or> n = 40 \<and> take 2 ys = [1, 0]"
  shows "\<exists>d. wpa_parse_wpa_ie mem n = Some (0, d) \<and> ied_proto d = WPA_PROTO_RSN \<and>
    ied_pairwise_cipher d = rsn_selector_to_bitfield p \<and> ied_group_cipher d = rsn_selector_to_bitfield g \<and>
    ied_key_mgmt d = rsn_key_mgmt_to_bitfield k \<and>
    (ied_num_pmkid d, ied_pmkid d) = (if n = 22 then (0, None) else (1, Some 24))"
proof -
  have h: "rd mem 0 = Some 48" "rd mem 1 = Some (of_nat (n - 2))" "rd_le16 mem 2 = Some 1"
    using assms(1) by (simp_all add: rd_def rd_le16_def put_le16_def get_le16_def)
  have "rd_le16 mem 20 = Some 0"
    using assms(1) by (simp add: rd_def rd_le16_def put_le16_def get_le16_def nth_append)
  then have s: "parse_suites sel akm mem 4 n d = Some (0, d\<lparr>ied_group_cipher := sel g, ied_pairwise_cipher := sel p,
      ied_key_mgmt := akm k, ied_capabilities := 0\<rparr>, 22)" for sel akm d
    using parse_suites_written [of mem "[48, of_nat (n - 2)] @ put_le16 1" g p k "put_le16 0 @ ys" n sel akm d] assms by auto
  have "rd_le16 mem 22 = Some 1" if "n = 40"
  proof -
    obtain zs where "ys = 1 # 0 # zs" using assms(2) \<open>n = 40\<close> by (cases ys; cases "tl ys") auto
    then show ?thesis using assms(1) by (simp add: rd_def rd_le16_def put_le16_def get_le16_def nth_append)
  qed
  then show ?thesis
    using h s assms(2) by (auto simp: wpa_parse_wpa_ie_def wpa_parse_wpa_ie_rsn_def ie_defaults_def)
qed

lemma parse_wpa_written:
  assumes "mem = [221, 22] @ put_be32 WPA_OUI_TYPE @ put_le16 1 @ suite_bytes g p k @ ys"
  shows "\<exists>d. wpa_parse_wpa_ie mem 24 = Some (0, d) \<and> ied_proto d = WPA_PROTO_WPA \<and>
    ied_pairwise_cipher d = wpa_selector_to_bitfield p \<and> ied_group_cipher d = wpa_selector_to_bitfield g \<and>
    ied_key_mgmt d = wpa_key_mgmt_to_bitfield k"
proof -
  have h: "rd mem 0 = Some 221" "rd mem 1 = Some 22" "rd_be32 mem 2 = Some WPA_OUI_TYPE"
    using assms rd_be32_app [of "[221, 22]" WPA_OUI_TYPE] by (simp_all add: rd_def numeral_2_eq_2)
  have v: "rd_le16 mem 6 = Some 1" using assms by (simp add: rd_def rd_le16_def put_le16_def get_le16_def nth_append)
  have s: "parse_suites sel akm mem 8 24 d = Some (0, d\<lparr>ied_group_cipher := sel g, ied_pairwise_cipher := sel p,
      ied_key_mgmt := akm k\<rparr>, 24)" for sel akm d
    using parse_suites_written [of mem "[221, 22] @ put_be32 WPA_OUI_TYPE @ put_le16 1" g p k ys 24 sel akm d] assms
    by (simp add: Let_def)
  show ?thesis using h v s by (simp add: wpa_parse_wpa_ie_def wpa_parse_wpa_ie_wpa_def ie_defaults_def)
qed

text \<open>
  C27. The element that the supplicant generates for the association says what is configured: parsing it gives back
  the protocol, the ciphers and the key management, and the PMKID of the current PMKSA entry if there is one.
\<close>

theorem wpa_gen_parse_ie:
  assumes "wpa_gen_wpa_ie proto buf len pc gc km pmkid = Some (r, buf')" "0 \<le> r" "len \<le> length buf"
    "\<forall>i. pmkid = Some i \<longrightarrow> length i = 16"
  shows "\<exists>d. wpa_parse_wpa_ie buf' (nat r) = Some (0, d) \<and>
    ied_proto d = (if proto = WPA_PROTO_RSN then WPA_PROTO_RSN else WPA_PROTO_WPA) \<and>
    ied_pairwise_cipher d = pc \<and> ied_group_cipher d = gc \<and> ied_key_mgmt d = km \<and>
    (proto = WPA_PROTO_RSN \<longrightarrow> (case pmkid of
       None \<Rightarrow> ied_num_pmkid d = 0
     | Some i \<Rightarrow> ied_num_pmkid d = 1 \<and> (\<exists>p. ied_pmkid d = Some p \<and> rd_bytes buf' p 16 = Some i)))"
proof (cases "proto = WPA_PROTO_RSN")
  case True
  have e: "wpa_gen_wpa_ie_rsn buf len pc gc km pmkid = Some (r, buf')" using assms(1) True by (simp add: wpa_gen_wpa_ie_def)
  then obtain g p k where s: "rsn_group_suite gc = Some g" "rsn_pairwise_suite pc = Some p" "rsn_akm_suite km = Some k"
      "case pmkid of None \<Rightarrow> 22 \<le> len | Some i \<Rightarrow> 40 \<le> len \<and> length i = 16"
    using gen_rsn_ok [OF e assms(2)] assms(4) by (auto split: option.splits)
  note b = gen_rsn_bytes [OF s(1-3) assms(3) s(4)]
  show ?thesis
  proof (cases pmkid)
    case None
    then have "buf' = [48, 20] @ put_le16 1 @ suite_bytes g p k @ put_le16 0 @ drop 22 buf" "r = 22" using b e by simp_all
    then show ?thesis
      using parse_rsn_written [of buf' 22 g p k "drop 22 buf"] True None suites_inverse(1-3) s(1-3) by auto
  next
    case (Some i)
    then have r: "buf' = [48, 38] @ put_le16 1 @ suite_bytes g p k @ put_le16 0 @ [1, 0] @ i @ drop 40 buf" "r = 40"
      using b e by simp_all
    then have "rd_bytes buf' 24 16 = Some i" using s(4) Some by (simp add: rd_bytes_def)
    then show ?thesis
      using parse_rsn_written [of buf' 40 g p k "[1, 0] @ i @ drop 40 buf"] r True Some suites_inverse(1-3) s(1-3) by auto
  qed
next
  case False
  have e: "wpa_gen_wpa_ie_wpa buf len pc gc km = Some (r, buf')" using assms(1) False by (simp add: wpa_gen_wpa_ie_def)
  then obtain g p k where s: "wpa_group_suite gc = Some g" "wpa_pairwise_suite pc = Some p" "wpa_akm_suite km = Some k" "24 \<le> len"
    using gen_wpa_ok [OF e assms(2)] by blast
  then show ?thesis
    using gen_wpa_bytes [OF s assms(3)] e False parse_wpa_written [of buf' g p k "drop 24 buf"] suites_inverse(4-6) by auto
qed

lemma wpa_gen_parse_ie_witness:
  "\<exists>buf' d. wpa_gen_wpa_ie WPA_PROTO_RSN (replicate 30 0) 30 16 8 2 None = Some (22, buf') \<and>
     wpa_parse_wpa_ie buf' 22 = Some (0, d) \<and> ied_pairwise_cipher d = 16 \<and> ied_group_cipher d = 8 \<and> ied_key_mgmt d = 2"
proof -
  have e: "wpa_gen_wpa_ie WPA_PROTO_RSN (replicate 30 0) 30 16 8 2 None =
      Some (22, [48, 20] @ put_le16 1 @ suite_bytes 0x000fac02 0x000fac04 0x000fac02 @ put_le16 0 @ replicate 8 0)"
    using gen_rsn_bytes [of 8 "0x000fac02" 16 "0x000fac04" 2 "0x000fac02" 30 "replicate 30 0" None]
    by (simp add: wpa_gen_wpa_ie_def rsn_group_suite_def rsn_pairwise_suite_def rsn_akm_suite_def)
  from wpa_gen_parse_ie [OF e] show ?thesis using e by auto
qed

end
