(* ===== verification/Key_Data.thy ===== *)
theory Key_Data
  imports Wpa_Common
begin

text \<open>
  The Key Data field of EAPOL-Key frames: \<open>wpa_parse_generic\<close> and \<open>wpa_supplicant_parse_ies\<close> of
  src/src/rsn_supp/wpa_ie.c. The parse result holds, for each kind of element, the offset and the length of the
  last one found; in the source these are two fields, a pointer and a length.
\<close>

section \<open>Operations\<close>

record eapol_ies =
  ei_wpa_ie :: "(nat \<times> nat) option"
  ei_rsn_ie :: "(nat \<times> nat) option"
  ei_pmkid :: "nat option"
  ei_gtk :: "(nat \<times> nat) option"
  ei_mac_addr :: "(nat \<times> nat) option"
  ei_smk :: "(nat \<times> nat) option"
  ei_nonce :: "(nat \<times> nat) option"
  ei_lifetime :: "(nat \<times> nat) option"
  ei_error :: "(nat \<times> nat) option"
  ei_mdie :: "(nat \<times> nat) option"
  ei_ftie :: "(nat \<times> nat) option"
  ei_reassoc_deadline :: "nat option"
  ei_key_lifetime :: "nat option"
  ei_lnkid :: "(nat \<times> nat) option"
  ei_ext_capab :: "(nat \<times> nat) option"
  ei_supp_rates :: "(nat \<times> nat) option"
  ei_ext_supp_rates :: "(nat \<times> nat) option"

definition no_ies :: eapol_ies where
  "no_ies = \<lparr>ei_wpa_ie = None, ei_rsn_ie = None, ei_pmkid = None, ei_gtk = None, ei_mac_addr = None, ei_smk = None,
     ei_nonce = None, ei_lifetime = None, ei_error = None, ei_mdie = None, ei_ftie = None,
     ei_reassoc_deadline = None, ei_key_lifetime = None, ei_lnkid = None, ei_ext_capab = None,
     ei_supp_rates = None, ei_ext_supp_rates = None\<rparr>"

abbreviation (input) RSN_KEY_DATA_GROUPKEY :: u32 where "RSN_KEY_DATA_GROUPKEY \<equiv> 0x000fac01"
abbreviation (input) RSN_KEY_DATA_MAC_ADDR :: u32 where "RSN_KEY_DATA_MAC_ADDR \<equiv> 0x000fac03"
abbreviation (input) RSN_KEY_DATA_PMKID :: u32 where "RSN_KEY_DATA_PMKID \<equiv> 0x000fac04"
abbreviation (input) RSN_KEY_DATA_SMK :: u32 where "RSN_KEY_DATA_SMK \<equiv> 0x000fac05"
abbreviation (input) RSN_KEY_DATA_NONCE :: u32 where "RSN_KEY_DATA_NONCE \<equiv> 0x000fac06"
abbreviation (input) RSN_KEY_DATA_LIFETIME :: u32 where "RSN_KEY_DATA_LIFETIME \<equiv> 0x000fac07"
abbreviation (input) RSN_KEY_DATA_ERROR :: u32 where "RSN_KEY_DATA_ERROR \<equiv> 0x000fac08"

definition wpa_parse_generic :: "bytes \<Rightarrow> nat \<Rightarrow> nat \<Rightarrow> eapol_ies \<Rightarrow> (int \<times> eapol_ies) option" where
  "wpa_parse_generic mem pos fin ie = do {
     l \<leftarrow> rd mem (pos + 1);
     if l = 0 then Some (1, ie)
     else do {
       wpa \<leftarrow> (if 6 \<le> l then do {
           s \<leftarrow> rd_be32 mem (pos + 2); v0 \<leftarrow> rd mem (pos + 6); v1 \<leftarrow> rd mem (pos + 7);
           Some (s = WPA_OUI_TYPE \<and> v0 = 1 \<and> v1 = 0) } else Some False);
       if wpa then Some (0, ie\<lparr>ei_wpa_ie := Some (pos, unat l + 2)\<rparr>)
       else do {
         pmkid \<leftarrow> (if pos + 5 < fin \<and> 20 \<le> l then do {
             s \<leftarrow> rd_be32 mem (pos + 2); Some (s = RSN_KEY_DATA_PMKID) } else Some False);
         if pmkid then Some (0, ie\<lparr>ei_pmkid := Some (pos + 6)\<rparr>)
         else if \<not> 6 < l then Some (0, ie)
         else do {
           s \<leftarrow> rd_be32 mem (pos + 2);
           let kde = Some (pos + 6, unat l - 4);
           Some (0,
             if s = RSN_KEY_DATA_GROUPKEY then ie\<lparr>ei_gtk := kde\<rparr>
             else if s = RSN_KEY_DATA_MAC_ADDR then ie\<lparr>ei_mac_addr := kde\<rparr>
             else if s = RSN_KEY_DATA_SMK then ie\<lparr>ei_smk := kde\<rparr>
             else if s = RSN_KEY_DATA_NONCE then ie\<lparr>ei_nonce := kde\<rparr>
             else if s = RSN_KEY_DATA_LIFETIME then ie\<lparr>ei_lifetime := kde\<rparr>
             else if s = RSN_KEY_DATA_ERROR then ie\<lparr>ei_error := kde\<rparr>
             else ie) } } } }"

text \<open>One element that is not vendor specific.\<close>

definition put_element :: "bytes \<Rightarrow> nat \<Rightarrow> u8 \<Rightarrow> u8 \<Rightarrow> eapol_ies \<Rightarrow> eapol_ies option" where
  "put_element mem pos i l ie =
     (let here = Some (pos, unat l + 2) in
      if i = EID_RSN then Some (ie\<lparr>ei_rsn_ie := here\<rparr>)
      else if i = 54 then Some (ie\<lparr>ei_mdie := here\<rparr>)
      else if i = 55 then Some (ie\<lparr>ei_ftie := here\<rparr>)
      else if i = 56 \<and> 5 \<le> l then do {
        t \<leftarrow> rd mem (pos + 2);
        Some (if t = 1 then ie\<lparr>ei_reassoc_deadline := Some pos\<rparr>
              else if t = 2 then ie\<lparr>ei_key_lifetime := Some pos\<rparr> else ie) }
      else if i = 101 then Some (if 18 \<le> l then ie\<lparr>ei_lnkid := here\<rparr> else ie)
      else if i = 127 then Some (ie\<lparr>ei_ext_capab := here\<rparr>)
      else if i = 1 then Some (ie\<lparr>ei_supp_rates := here\<rparr>)
      else if i = 50 then Some (ie\<lparr>ei_ext_supp_rates := here\<rparr>)
      else Some ie)"

function parse_ies_loop :: "bytes \<Rightarrow> nat \<Rightarrow> nat \<Rightarrow> eapol_ies \<Rightarrow> (int \<times> eapol_ies) option" where
  "parse_ies_loop mem pos fin ie =
     (if \<not> pos + 1 < fin then Some (0, ie)
      else do {
        i \<leftarrow> rd mem pos;
        l \<leftarrow> rd mem (pos + 1);
        if i = 0xdd \<and> (pos + 1 = fin \<or> l = 0) then Some (0, ie)
        else if fin < pos + 2 + unat l then Some (-1, ie)
        else if i = EID_VENDOR_SPECIFIC then do {
          (ret, ie) \<leftarrow> wpa_parse_generic mem pos fin ie;
          if ret < 0 then Some (ret, ie)
          else if 0 < ret then Some (0, ie)
          else parse_ies_loop mem (pos + 2 + unat l) fin ie }
        else do {
          ie \<leftarrow> put_element mem pos i l ie;
          parse_ies_loop mem (pos + 2 + unat l) fin ie } })"
  by pat_completeness auto
termination by (relation "measure (\<lambda>(mem, pos, fin, ie). fin - pos)") auto

declare parse_ies_loop.simps [simp del]

definition wpa_supplicant_parse_ies :: "bytes \<Rightarrow> nat \<Rightarrow> nat \<Rightarrow> (int \<times> eapol_ies) option" where
  "wpa_supplicant_parse_ies mem buf len = parse_ies_loop mem buf (buf + len) no_ies"

section \<open>Every element found is inside the key data\<close>

definition inside :: "nat \<Rightarrow> (nat \<times> nat) option \<Rightarrow> bool" where
  "inside fin e \<longleftrightarrow> (case e of None \<Rightarrow> True | Some (p, l) \<Rightarrow> p + l \<le> fin)"

definition ies_ok :: "nat \<Rightarrow> eapol_ies \<Rightarrow> bool" where
  "ies_ok fin ie \<longleftrightarrow> inside fin (ei_wpa_ie ie) \<and> inside fin (ei_rsn_ie ie) \<and> inside fin (ei_gtk ie) \<and>
     (\<forall>p. ei_pmkid ie = Some p \<longrightarrow> p + 16 \<le> fin) \<and> (\<forall>p l. ei_gtk ie = Some (p, l) \<longrightarrow> 2 < l \<and> l < 256)"

lemma parse_generic_total:
  assumes "fin \<le> length mem" "pos + 2 + unat (mem ! (pos + 1)) \<le> fin" "ies_ok fin ie"
  shows "succeeds (wpa_parse_generic mem pos fin ie) (\<lambda>(r, ie'). ies_ok fin ie')"
proof -
  let ?l = "mem ! (pos + 1)"
  have l: "6 \<le> unat ?l" if "6 \<le> ?l" using that by (simp add: word_le_nat_alt)
  have l20: "20 \<le> unat ?l" if "20 \<le> ?l" using that by (simp add: word_le_nat_alt)
  have l6: "6 < unat ?l" if "6 < ?l" using that by (simp add: word_less_nat_alt)
  have b: "unat ?l < 256" using unsigned_less [where ?'a = nat, of ?l] by simp
  show ?thesis
    using assms l l20 l6 b unfolding wpa_parse_generic_def
    by (auto simp: succeeds_simps Let_def ies_ok_def inside_def)
qed

lemma put_element_total:
  assumes "fin \<le> length mem" "pos + 2 + unat l \<le> fin" "ies_ok fin ie"
  shows "\<exists>ie'. put_element mem pos i l ie = Some ie' \<and> ies_ok fin ie'"
proof -
  have "pos + 2 < length mem" if "5 \<le> l" using that assms(1,2) by (simp add: word_le_nat_alt)
  then show ?thesis using assms by (auto simp: put_element_def Let_def ies_ok_def inside_def rd_def)
qed

lemma parse_ies_loop_total:
  assumes "fin \<le> length mem" "ies_ok fin ie"
  shows "succeeds (parse_ies_loop mem pos fin ie) (\<lambda>(r, ie'). ies_ok fin ie')"
  using assms
proof (induction mem pos fin ie rule: parse_ies_loop.induct)
  case (1 mem pos fin ie)
  let ?i = "mem ! pos" and ?l = "mem ! (pos + 1)"
  show ?case
  proof (cases "pos + 1 < fin \<and> \<not> (?i = 0xdd \<and> (pos + 1 = fin \<or> ?l = 0)) \<and> pos + 2 + unat ?l \<le> fin")
    case False
    then show ?thesis
      using "1.prems" by (subst parse_ies_loop.simps) (auto simp: succeeds_simps rd_def not_less)
  next
    case True
    then have r: "rd mem pos = Some ?i" "rd mem (pos + 1) = Some ?l" using "1.prems"(1) by (simp_all add: rd_def)
    show ?thesis
    proof (cases "?i = 221")
      case v: True
      obtain ret ie' where g: "wpa_parse_generic mem pos fin ie = Some (ret, ie')" "ies_ok fin ie'"
        using parse_generic_total [OF "1.prems"(1) _ "1.prems"(2), of pos] True by (auto simp: succeeds_def)
      then show ?thesis
        using True v r "1.IH"(1) [OF _ r _ _ v g(1)] "1.prems"(1)
        by (subst parse_ies_loop.simps) (auto simp: succeeds_simps)
    next
      case v: False
      obtain ie' where g: "put_element mem pos ?i ?l ie = Some ie'" "ies_ok fin ie'"
        using put_element_total [OF "1.prems"(1) _ "1.prems"(2)] True by blast
      then show ?thesis
        using True v r "1.IH"(2) [OF _ r _ _ v g(1)] "1.prems"(1)
        by (subst parse_ies_loop.simps) (auto simp: succeeds_simps)
    qed
  qed
qed

lemma parse_ies_total:
  assumes "buf + len \<le> length mem"
  obtains r ie where "wpa_supplicant_parse_ies mem buf len = Some (r, ie)" "ies_ok (buf + len) ie"
proof -
  have "ies_ok (buf + len) no_ies" by (simp add: ies_ok_def no_ies_def inside_def)
  from parse_ies_loop_total [OF assms this, of buf] show ?thesis
    using that by (auto simp: succeeds_def wpa_supplicant_parse_ies_def)
qed

section \<open>Reading well-formed key data\<close>

lemma parse_rsn_step:
  assumes "mem = xs @ [48, l] @ d @ ys" "length d = unat l" "length xs + 2 + unat l \<le> fin"
  shows "parse_ies_loop mem (length xs) fin ie =
    parse_ies_loop mem (length xs + 2 + unat l) fin (ie\<lparr>ei_rsn_ie := Some (length xs, unat l + 2)\<rparr>)"
proof -
  have "rd mem (length xs) = Some 48" "rd mem (length xs + 1) = Some l" using assms(1) by (simp_all add: rd_def nth_append)
  then show ?thesis using assms(3) by (subst parse_ies_loop.simps) (simp add: put_element_def)
qed

lemma parse_gtk_step:
  assumes "mem = xs @ [0xdd, l] @ put_be32 RSN_KEY_DATA_GROUPKEY @ d @ ys" "length d + 4 = unat l" "2 < length d"
    "length xs + 2 + unat l \<le> fin"
  shows "parse_ies_loop mem (length xs) fin ie =
    parse_ies_loop mem (length xs + 2 + unat l) fin (ie\<lparr>ei_gtk := Some (length xs + 6, unat l - 4)\<rparr>)"
proof -
  have r: "rd mem (length xs) = Some 0xdd" "rd mem (length xs + 1) = Some l" using assms(1) by (simp_all add: rd_def nth_append)
  have s: "rd_be32 mem (length xs + 2) = Some RSN_KEY_DATA_GROUPKEY"
    using rd_be32_app [of "xs @ [0xdd, l]" RSN_KEY_DATA_GROUPKEY "d @ ys"] assms(1) by simp
  have m: "length xs + 7 < length mem" using assms(1,3) by simp
  have l: "6 < l" "l \<noteq> 0" "6 \<le> l" using assms(2,3) by (auto simp: word_less_nat_alt word_le_nat_alt)
  have "wpa_parse_generic mem (length xs) fin ie = Some (0, ie\<lparr>ei_gtk := Some (length xs + 6, unat l - 4)\<rparr>)"
    using r s m l by (simp add: wpa_parse_generic_def rd_def)
  then show ?thesis using r l assms(4) by (subst parse_ies_loop.simps) simp
qed

text \<open>What may follow the last element: nothing, or padding that starts with 0xdd 0x00.\<close>

lemma parse_ies_end:
  assumes "length xs = pos" "fin = pos \<or> mem = xs @ [0xdd, 0] @ ys"
  shows "parse_ies_loop mem pos fin ie = Some (0, ie)"
  using assms by (subst parse_ies_loop.simps) (auto simp: rd_def nth_append)

end
