(* ===== verification/Rsn_State.thy ===== *)
theory Rsn_State
  imports Key_Data Eloop
begin

text \<open>
  The state of the WPA state machine: \<open>struct wpa_sm\<close> of src/src/rsn_supp/wpa_i.h with the structures it
  points to (PMKSA cache entries of pmksa_cache.h, pre-authentication candidates of preauth.c, PeerKey peers of
  peerkey.h), without the fields of IEEE 802.11r, which the build leaves out.

  Byte arrays are lists of their size. \<open>struct wpa_ptk\<close> is packed and copied as a whole, so it is a list of 64
  octets: KCK 0-15, KEK 16-31, TK1 32-47, Tx MIC key 48-55, Rx MIC key 56-63. PMKSA entries are reached through
  the cache's list and through \<open>cur_pmksa\<close>, so they live in a heap; reading an address that is not in it is a use
  after free and faults. The \<open>next\<close> pointers of the cache are the order of the list of addresses.

  The callbacks of \<open>struct wpa_sm_ctx\<close> and the notifications of the EAPOL state machine leave this component:
  they are appended to a log in the order of the calls. What they return, like the results of the allocator, the
  clock, the random number generator and the cryptographic primitives, is a field of the record \<open>rsn_env\<close>, which
  describes the environment while one event is handled.
\<close>

section \<open>Structures\<close>

abbreviation (input) PMK_LEN :: nat where "PMK_LEN \<equiv> 32"
abbreviation (input) WPA_NONCE_LEN :: nat where "WPA_NONCE_LEN \<equiv> 32"
abbreviation (input) WPA_REPLAY_COUNTER_LEN :: nat where "WPA_REPLAY_COUNTER_LEN \<equiv> 8"
abbreviation (input) NULL :: ptr where "NULL \<equiv> 0"

datatype wpa_states =
  WPA_DISCONNECTED | WPA_INTERFACE_DISABLED | WPA_INACTIVE | WPA_SCANNING | WPA_AUTHENTICATING
| WPA_ASSOCIATING | WPA_ASSOCIATED | WPA_4WAY_HANDSHAKE | WPA_GROUP_HANDSHAKE | WPA_COMPLETED

datatype wpa_alg = WPA_ALG_NONE | WPA_ALG_WEP | WPA_ALG_TKIP | WPA_ALG_CCMP | WPA_ALG_IGTK | WPA_ALG_PMK

record rsn_pmksa_cache_entry =
  pe_pmkid :: bytes
  pe_pmk :: bytes
  pe_pmk_len :: nat
  pe_expiration :: int
  pe_akmp :: u32
  pe_aa :: bytes
  pe_reauth_time :: int
  pe_network_ctx :: ptr
  pe_opportunistic :: bool

record rsn_pmksa_candidate =
  cn_bssid :: bytes
  cn_priority :: int

record wpa_peerkey =
  pk_initiator :: bool
  pk_addr :: bytes
  pk_replay_counter :: bytes
  pk_replay_counter_set :: bool

text \<open>Timeout handlers of the component.\<close>

datatype rsn_handler =
  H_pmksa_cache_expire | H_pmksa_cache_reauth | H_wpa_sm_start_preauth | H_wpa_sm_rekey_ptk | H_rsn_preauth_timeout

text \<open>Calls that leave the component.\<close>

datatype rsn_event =
  Set_state wpa_states
| Deauthenticate int
| Disassociate int
| Set_key wpa_alg "bytes option" int int bytes bytes
| Ether_send bytes u16 bytes
| Cancel_auth_timeout
| Add_pmkid bytes bytes
| Remove_pmkid bytes bytes
| Mlme_setprotection bytes int int
| Set_rekey_offload bytes bytes bytes
| Notify_tx_eapol_key
| Notify_cached
| Notify_portValid bool
| Notify_eap_success bool
| Notify_lower_layer_success bool
| Request_reauth
| Preauth_start bytes
| Preauth_rx bytes bytes
| L2_send bytes u16 bytes

record wpa_sm =
  sm_self :: ptr
  sm_pmk :: bytes
  sm_pmk_len :: nat
  sm_ptk :: bytes
  sm_tptk :: bytes
  sm_ptk_set :: bool
  sm_tptk_set :: bool
  sm_snonce :: bytes
  sm_anonce :: bytes
  sm_renew_snonce :: bool
  sm_rx_replay_counter :: bytes
  sm_rx_replay_counter_set :: bool
  sm_request_counter :: bytes
  sm_eapol :: bool
  sm_pmksa_self :: ptr
  sm_pmksa :: "ptr list"
  sm_pmksa_count :: int
  sm_heap :: "ptr \<rightharpoonup> rsn_pmksa_cache_entry"
  sm_cur_pmksa :: "ptr option"
  sm_pmksa_candidates :: "rsn_pmksa_candidate list"
  sm_l2_preauth :: bool
  sm_l2_preauth_br :: bool
  sm_preauth_bssid :: bytes
  sm_preauth_eapol :: bool
  sm_fast_reauth :: bool
  sm_network_ctx :: ptr
  sm_peerkey_enabled :: bool
  sm_allowed_pairwise_cipher :: u32
  sm_proactive_key_caching :: bool
  sm_eap_workaround :: bool
  sm_eap_conf_ctx :: ptr
  sm_ssid :: bytes
  sm_ssid_len :: nat
  sm_wpa_ptk_rekey :: int
  sm_own_addr :: bytes
  sm_bridge_ifname :: bool
  sm_bssid :: bytes
  dot11RSNAConfigPMKLifetime :: u32
  dot11RSNAConfigPMKReauthThreshold :: u32
  dot11RSNAConfigSATimeout :: u32
  dot11RSNA4WayHandshakeFailures :: u32
  sm_proto :: u32
  sm_pairwise_cipher :: u32
  sm_group_cipher :: u32
  sm_key_mgmt :: u32
  sm_rsn_enabled :: bool
  sm_mfp :: u32
  sm_assoc_wpa_ie :: "bytes option"
  sm_ap_wpa_ie :: "bytes option"
  sm_ap_rsn_ie :: "bytes option"
  sm_peerkey :: "wpa_peerkey list"
  sm_eloop :: "rsn_handler eloop_data"
  sm_log :: "rsn_event list"

section \<open>Environment\<close>

text \<open>
  \<open>ev_now\<close> is what \<open>os_get_time\<close> returns; \<open>ev_timer\<close>, \<open>ev_entry\<close>, \<open>ev_tmp\<close>, \<open>ev_eapol\<close>, \<open>ev_buf\<close>, \<open>ev_ctx\<close> are the
  results of the allocation sites (a timeout, a PMKSA entry, the copy of a frame, a reply, the AES unwrap buffer,
  an EAPOL context or candidate); the others are the results of the callbacks and library functions they name.
  \<open>ev_beacon_ie\<close> is the pair of AP elements after \<open>get_beacon_ie\<close>, which stores them with
  \<open>wpa_sm_set_ap_wpa_ie\<close> and \<open>wpa_sm_set_ap_rsn_ie\<close>.
\<close>

record rsn_env =
  ev_now :: os_time
  ev_timer :: bool
  ev_entry :: "ptr option"
  ev_tmp :: bool
  ev_eapol :: bool
  ev_buf :: bool
  ev_ctx :: bool
  ev_l2 :: bool
  ev_l2_br :: bool
  ev_eapol_sm :: bool
  ev_bssid :: "bytes option"
  ev_network_ctx :: ptr
  ev_state :: wpa_states
  ev_set_key :: "wpa_alg \<Rightarrow> bytes option \<Rightarrow> int \<Rightarrow> bool"
  ev_get_key :: "nat \<Rightarrow> bytes option"
  ev_random :: "bytes option"
  ev_beacon_ie :: "bytes option \<times> bytes option"
  ev_eapol_version :: u8
  ev_hashes :: hashes
  ev_rc4_skip :: "bytes \<Rightarrow> nat \<Rightarrow> bytes \<Rightarrow> bytes option"
  ev_aes_decrypt :: block_fun
  ev_aes_init :: bool

section \<open>Logging, timeouts and pointers\<close>

definition emit :: "rsn_event \<Rightarrow> wpa_sm \<Rightarrow> wpa_sm" where
  "emit e sm = sm\<lparr>sm_log := sm_log sm @ [e]\<rparr>"

definition cancel_timer :: "rsn_handler \<Rightarrow> ptr \<Rightarrow> wpa_sm \<Rightarrow> wpa_sm" where
  "cancel_timer h p sm = sm\<lparr>sm_eloop := snd (eloop_cancel_timeout h p NULL (sm_eloop sm))\<rparr>"

definition register_timer :: "rsn_env \<Rightarrow> u32 \<Rightarrow> rsn_handler \<Rightarrow> ptr \<Rightarrow> wpa_sm \<Rightarrow> wpa_sm" where
  "register_timer env secs h p sm =
     sm\<lparr>sm_eloop := snd (eloop_register_timeout (ev_timer env) (Some (ev_now env)) secs 0 h p NULL (sm_eloop sm))\<rparr>"

text \<open>Conversion of a \<open>long\<close> to an \<open>int\<close>.\<close>

definition wrap32 :: "int \<Rightarrow> int" where
  "wrap32 i = (i + 2 ^ 31) mod 2 ^ 32 - 2 ^ 31"

definition is_zero_ether_addr :: "bytes \<Rightarrow> bool" where
  "is_zero_ether_addr a = (a = replicate 6 0)"

section \<open>Initial state\<close>

definition sm_zero :: wpa_sm where
  "sm_zero = \<lparr>sm_self = NULL, sm_pmk = replicate 32 0, sm_pmk_len = 0, sm_ptk = replicate 64 0,
     sm_tptk = replicate 64 0, sm_ptk_set = False, sm_tptk_set = False, sm_snonce = replicate 32 0,
     sm_anonce = replicate 32 0, sm_renew_snonce = False, sm_rx_replay_counter = replicate 8 0,
     sm_rx_replay_counter_set = False, sm_request_counter = replicate 8 0, sm_eapol = False,
     sm_pmksa_self = NULL, sm_pmksa = [], sm_pmksa_count = 0, sm_heap = Map.empty, sm_cur_pmksa = None,
     sm_pmksa_candidates = [], sm_l2_preauth = False, sm_l2_preauth_br = False, sm_preauth_bssid = replicate 6 0,
     sm_preauth_eapol = False, sm_fast_reauth = False, sm_network_ctx = NULL, sm_peerkey_enabled = False,
     sm_allowed_pairwise_cipher = 0, sm_proactive_key_caching = False, sm_eap_workaround = False,
     sm_eap_conf_ctx = NULL, sm_ssid = replicate 32 0, sm_ssid_len = 0, sm_wpa_ptk_rekey = 0,
     sm_own_addr = replicate 6 0, sm_bridge_ifname = False, sm_bssid = replicate 6 0,
     dot11RSNAConfigPMKLifetime = 0, dot11RSNAConfigPMKReauthThreshold = 0, dot11RSNAConfigSATimeout = 0,
     dot11RSNA4WayHandshakeFailures = 0, sm_proto = 0, sm_pairwise_cipher = 0, sm_group_cipher = 0,
     sm_key_mgmt = 0, sm_rsn_enabled = False, sm_mfp = 0, sm_assoc_wpa_ie = None, sm_ap_wpa_ie = None,
     sm_ap_rsn_ie = None, sm_peerkey = [], sm_eloop = eloop_init, sm_log = []\<rparr>"

text \<open>
  \<open>self\<close> and \<open>pmksa\<close> are the results of the two allocations, of the state machine and, in \<open>pmksa_cache_init\<close>, of the
  cache; \<open>None\<close> is a null pointer.
\<close>

definition wpa_sm_init :: "ptr option \<Rightarrow> ptr option \<Rightarrow> wpa_sm option" where
  "wpa_sm_init self pmksa = (case self of
     None \<Rightarrow> None
   | Some self \<Rightarrow>
       let sm = sm_zero\<lparr>sm_self := self, sm_renew_snonce := True, dot11RSNAConfigPMKLifetime := 43200,
                  dot11RSNAConfigPMKReauthThreshold := 70, dot11RSNAConfigSATimeout := 60\<rparr>
       in (case pmksa of None \<Rightarrow> None | Some pmksa \<Rightarrow> Some (sm\<lparr>sm_pmksa_self := pmksa\<rparr>)))"

section \<open>What a step may change\<close>

text \<open>
  \<open>log_ext P\<close>: only events that satisfy \<open>P\<close> were logged. \<open>sm_frame\<close> forgets the fields that the PMKSA cache and the
  event loop own, so that equal frames say that everything else is unchanged.
\<close>

definition log_ext :: "(rsn_event \<Rightarrow> bool) \<Rightarrow> wpa_sm \<Rightarrow> wpa_sm \<Rightarrow> bool" where
  "log_ext P sm sm' \<longleftrightarrow> (\<exists>l. sm_log sm' = sm_log sm @ l \<and> list_all P l)"

lemma log_ext_refl [simp]: "log_ext P sm sm"
  by (simp add: log_ext_def)

lemma log_ext_trans: "log_ext P a b \<Longrightarrow> log_ext P b c \<Longrightarrow> log_ext P a c"
  by (auto simp: log_ext_def)

lemma log_ext_same: "sm_log sm' = sm_log sm \<Longrightarrow> log_ext P sm sm'"
  by (simp add: log_ext_def)

lemma log_ext_mono: "log_ext P a b \<Longrightarrow> (\<And>e. P e \<Longrightarrow> Q e) \<Longrightarrow> log_ext Q a b"
  by (auto simp: log_ext_def list_all_iff)

lemma log_ext_emit: "P e \<Longrightarrow> log_ext P sm (emit e sm)"
  by (simp add: log_ext_def emit_def)

definition sm_frame :: "wpa_sm \<Rightarrow> wpa_sm" where
  "sm_frame sm = sm\<lparr>sm_pmk := [], sm_pmksa := [], sm_pmksa_count := 0, sm_heap := Map.empty,
     sm_cur_pmksa := None, sm_eloop := eloop_init, sm_log := []\<rparr>"

lemma sm_frame_simps [simp]:
  "sm_frame (sm\<lparr>sm_pmk := a\<rparr>) = sm_frame sm" "sm_frame (sm\<lparr>sm_pmksa := b\<rparr>) = sm_frame sm"
  "sm_frame (sm\<lparr>sm_pmksa_count := c\<rparr>) = sm_frame sm" "sm_frame (sm\<lparr>sm_heap := d\<rparr>) = sm_frame sm"
  "sm_frame (sm\<lparr>sm_cur_pmksa := e\<rparr>) = sm_frame sm" "sm_frame (sm\<lparr>sm_eloop := f\<rparr>) = sm_frame sm"
  "sm_frame (sm\<lparr>sm_log := l\<rparr>) = sm_frame sm" "sm_frame (emit ev sm) = sm_frame sm"
  "sm_frame (cancel_timer h q sm) = sm_frame sm" "sm_frame (register_timer env secs h q sm) = sm_frame sm"
  by (simp_all add: sm_frame_def emit_def cancel_timer_def register_timer_def)

lemma emit_simps [simp]:
  "sm_pmk (emit ev sm) = sm_pmk sm" "sm_pmk_len (emit ev sm) = sm_pmk_len sm"
  "sm_pmksa (emit ev sm) = sm_pmksa sm" "sm_pmksa_count (emit ev sm) = sm_pmksa_count sm"
  "sm_heap (emit ev sm) = sm_heap sm" "sm_cur_pmksa (emit ev sm) = sm_cur_pmksa sm"
  "sm_log (emit ev sm) = sm_log sm @ [ev]" "sm_bssid (emit ev sm) = sm_bssid sm"
  "sm_eloop (emit ev sm) = sm_eloop sm" "sm_ptk (emit ev sm) = sm_ptk sm" "sm_ptk_set (emit ev sm) = sm_ptk_set sm"
  "sm_tptk (emit ev sm) = sm_tptk sm" "sm_tptk_set (emit ev sm) = sm_tptk_set sm"
  by (simp_all add: emit_def)

lemma timer_simps [simp]:
  "sm_pmk (cancel_timer h q sm) = sm_pmk sm" "sm_pmk_len (cancel_timer h q sm) = sm_pmk_len sm"
  "sm_pmksa (cancel_timer h q sm) = sm_pmksa sm" "sm_pmksa_count (cancel_timer h q sm) = sm_pmksa_count sm"
  "sm_heap (cancel_timer h q sm) = sm_heap sm" "sm_cur_pmksa (cancel_timer h q sm) = sm_cur_pmksa sm"
  "sm_log (cancel_timer h q sm) = sm_log sm" "sm_bssid (cancel_timer h q sm) = sm_bssid sm"
  "sm_pmk (register_timer env secs h q sm) = sm_pmk sm" "sm_pmk_len (register_timer env secs h q sm) = sm_pmk_len sm"
  "sm_pmksa (register_timer env secs h q sm) = sm_pmksa sm"
  "sm_pmksa_count (register_timer env secs h q sm) = sm_pmksa_count sm"
  "sm_heap (register_timer env secs h q sm) = sm_heap sm"
  "sm_cur_pmksa (register_timer env secs h q sm) = sm_cur_pmksa sm"
  "sm_log (register_timer env secs h q sm) = sm_log sm" "sm_bssid (register_timer env secs h q sm) = sm_bssid sm"
  by (simp_all add: cancel_timer_def register_timer_def)

end
