(* ===== verification/Pmksa_Cache.thy ===== *)
theory Pmksa_Cache
  imports Rsn_State
begin

text \<open>
  The PMKSA cache of src/src/rsn_supp/pmksa_cache.c and its callback \<open>wpa_sm_pmksa_free_cb\<close> of wpa.c. The cache is
  the list \<open>sm_pmksa\<close> of addresses of entries in the heap of the state machine. The address of a new entry, or the
  failure to allocate one, is the field \<open>ev_entry\<close> of the environment. The invariant \<open>pmksa_ok\<close> says that the list
  holds exactly the live entries, that the counter is its length and never above the maximum, that no two entries
  are for the same authenticator and that the current entry is one of them.
\<close>

section \<open>Operations\<close>

definition pmksa_cache_max_entries :: int where
  "pmksa_cache_max_entries = 32"

definition wpa_sm_pmksa_free_cb :: "ptr \<Rightarrow> bool \<Rightarrow> wpa_sm \<Rightarrow> wpa_sm option" where
  "wpa_sm_pmksa_free_cb entry replace sm = do {
     e \<leftarrow> sm_heap sm entry;
     same \<leftarrow> (if sm_cur_pmksa sm = Some entry then Some True
              else if sm_pmk_len sm = pe_pmk_len e then do {
                a \<leftarrow> rd_bytes (sm_pmk sm) 0 (sm_pmk_len sm);
                b \<leftarrow> rd_bytes (pe_pmk e) 0 (sm_pmk_len sm);
                Some (a = b) }
              else Some False);
     if \<not> same then Some sm
     else
       let sm = sm\<lparr>sm_cur_pmksa := None\<rparr> in
       if replace then Some sm
       else Some (emit (Deauthenticate 1) (sm\<lparr>sm_pmk := replicate PMK_LEN 0\<rparr>)) }"

definition pmksa_cache_free_entry :: "ptr \<Rightarrow> bool \<Rightarrow> wpa_sm \<Rightarrow> wpa_sm option" where
  "pmksa_cache_free_entry entry replace sm = do {
     e \<leftarrow> sm_heap sm entry;
     let sm = emit (Remove_pmkid (pe_aa e) (pe_pmkid e)) sm;
     let sm = sm\<lparr>sm_pmksa_count := sm_pmksa_count sm - 1\<rparr>;
     sm \<leftarrow> wpa_sm_pmksa_free_cb entry replace sm;
     Some (sm\<lparr>sm_heap := (sm_heap sm)(entry := None)\<rparr>) }"

text \<open>\<open>None\<close> for \<open>aa\<close> or \<open>pmkid\<close> is the null pointer, which matches any value.\<close>

fun get_loop :: "(ptr \<rightharpoonup> rsn_pmksa_cache_entry) \<Rightarrow> bytes option \<Rightarrow> bytes option \<Rightarrow> ptr list \<Rightarrow> ptr option option" where
  "get_loop heap aa pmkid [] = Some None"
| "get_loop heap aa pmkid (entry # rest) = do {
     e \<leftarrow> heap entry;
     if (aa = None \<or> aa = Some (pe_aa e)) \<and> (pmkid = None \<or> pmkid = Some (pe_pmkid e)) then Some (Some entry)
     else get_loop heap aa pmkid rest }"

definition pmksa_cache_get :: "bytes option \<Rightarrow> bytes option \<Rightarrow> wpa_sm \<Rightarrow> ptr option option" where
  "pmksa_cache_get aa pmkid sm = get_loop (sm_heap sm) aa pmkid (sm_pmksa sm)"

text \<open>
  The difference of two times is stored in an \<open>int\<close>. The time left for reauthentication is computed from the first
  entry of the list, not from the entry that was looked up.
\<close>

definition secs_left :: "int \<Rightarrow> int \<Rightarrow> int" where
  "secs_left t now = (let sec = wrap32 (t - now) in if sec < 0 then 0 else sec)"

definition pmksa_cache_set_expiration :: "rsn_env \<Rightarrow> wpa_sm \<Rightarrow> wpa_sm option" where
  "pmksa_cache_set_expiration env sm =
     (let sm = cancel_timer H_pmksa_cache_expire (sm_pmksa_self sm) sm;
          sm = cancel_timer H_pmksa_cache_reauth (sm_pmksa_self sm) sm
      in case sm_pmksa sm of
           [] \<Rightarrow> Some sm
         | first # _ \<Rightarrow> do {
             f \<leftarrow> sm_heap sm first;
             let sec = secs_left (pe_expiration f) (t_sec (ev_now env));
             let sm = register_timer env (word_of_int (sec + 1)) H_pmksa_cache_expire (sm_pmksa_self sm) sm;
             entry \<leftarrow> (case sm_cur_pmksa sm of
                Some c \<Rightarrow> Some (Some c)
              | None \<Rightarrow> pmksa_cache_get (Some (sm_bssid sm)) None sm);
             if entry = None then Some sm
             else
               let sec = secs_left (pe_reauth_time f) (t_sec (ev_now env))
               in Some (register_timer env (word_of_int sec) H_pmksa_cache_reauth (sm_pmksa_self sm) sm) })"

fun expire_loop :: "int \<Rightarrow> ptr list \<Rightarrow> wpa_sm \<Rightarrow> wpa_sm option" where
  "expire_loop now [] sm = Some sm"
| "expire_loop now (entry # rest) sm = do {
     e \<leftarrow> sm_heap sm entry;
     if \<not> pe_expiration e \<le> now then Some sm
     else do {
       sm \<leftarrow> pmksa_cache_free_entry entry False (sm\<lparr>sm_pmksa := rest\<rparr>);
       expire_loop now rest sm } }"

definition pmksa_cache_expire :: "rsn_env \<Rightarrow> wpa_sm \<Rightarrow> wpa_sm option" where
  "pmksa_cache_expire env sm = do {
     sm \<leftarrow> expire_loop (t_sec (ev_now env)) (sm_pmksa sm) sm;
     pmksa_cache_set_expiration env sm }"

definition pmksa_cache_reauth :: "wpa_sm \<Rightarrow> wpa_sm" where
  "pmksa_cache_reauth sm = emit Request_reauth (sm\<lparr>sm_cur_pmksa := None\<rparr>)"

fun flush_loop :: "ptr \<Rightarrow> ptr list \<Rightarrow> int \<Rightarrow> wpa_sm \<Rightarrow> (int \<times> wpa_sm) option" where
  "flush_loop network_ctx [] removed sm = Some (removed, sm)"
| "flush_loop network_ctx (entry # rest) removed sm = do {
     e \<leftarrow> sm_heap sm entry;
     if pe_network_ctx e = network_ctx \<or> network_ctx = NULL then do {
       sm \<leftarrow> pmksa_cache_free_entry entry False (sm\<lparr>sm_pmksa := remove1 entry (sm_pmksa sm)\<rparr>);
       flush_loop network_ctx rest (removed + 1) sm }
     else flush_loop network_ctx rest removed sm }"

definition pmksa_cache_flush :: "rsn_env \<Rightarrow> ptr \<Rightarrow> wpa_sm \<Rightarrow> wpa_sm option" where
  "pmksa_cache_flush env network_ctx sm = do {
     (removed, sm) \<leftarrow> flush_loop network_ctx (sm_pmksa sm) 0 sm;
     if removed \<noteq> 0 then pmksa_cache_set_expiration env sm else Some sm }"

text \<open>
  Adding an entry. \<open>find_aa\<close> is the loop that looks for an old entry of the same authenticator, \<open>replace_entry\<close> the
  body of its first branch without the reuse of an equal entry, \<open>make_room\<close> the eviction of the oldest entry and
  \<open>insert_pos\<close> the search for the place of the new one.
\<close>

fun find_aa :: "(ptr \<rightharpoonup> rsn_pmksa_cache_entry) \<Rightarrow> bytes \<Rightarrow> ptr list \<Rightarrow> ptr option option" where
  "find_aa heap aa [] = Some None"
| "find_aa heap aa (pos # rest) = do {
     e \<leftarrow> heap pos;
     if aa = pe_aa e then Some (Some pos) else find_aa heap aa rest }"

definition same_key :: "rsn_pmksa_cache_entry \<Rightarrow> rsn_pmksa_cache_entry \<Rightarrow> bytes \<Rightarrow> nat \<Rightarrow> bool option" where
  "same_key p entry pmk pmk_len =
     (if pe_pmk_len p = pmk_len then do {
        a \<leftarrow> rd_bytes (pe_pmk p) 0 pmk_len;
        b \<leftarrow> rd_bytes pmk 0 pmk_len;
        Some (a = b \<and> pe_pmkid p = pe_pmkid entry) }
      else Some False)"

definition replace_entry :: "rsn_env \<Rightarrow> ptr \<Rightarrow> ptr \<Rightarrow> wpa_sm \<Rightarrow> wpa_sm option" where
  "replace_entry env pos network_ctx sm = do {
     let sm = sm\<lparr>sm_pmksa := remove1 pos (sm_pmksa sm)\<rparr>;
     let sm = (if sm_cur_pmksa sm = Some pos then sm\<lparr>sm_cur_pmksa := None\<rparr> else sm);
     sm \<leftarrow> pmksa_cache_free_entry pos True sm;
     pmksa_cache_flush env network_ctx sm }"

definition make_room :: "wpa_sm \<Rightarrow> wpa_sm option" where
  "make_room sm = (case sm_pmksa sm of
     [] \<Rightarrow> Some sm
   | pos # rest \<Rightarrow>
       if pmksa_cache_max_entries \<le> sm_pmksa_count sm
       then pmksa_cache_free_entry pos False (sm\<lparr>sm_pmksa := rest\<rparr>)
       else Some sm)"

fun insert_pos :: "(ptr \<rightharpoonup> rsn_pmksa_cache_entry) \<Rightarrow> int \<Rightarrow> ptr list \<Rightarrow> nat option" where
  "insert_pos heap t [] = Some 0"
| "insert_pos heap t (pos # rest) = do {
     e \<leftarrow> heap pos;
     if t < pe_expiration e then Some 0
     else do { n \<leftarrow> insert_pos heap t rest; Some (n + 1) } }"

definition insert_entry :: "rsn_env \<Rightarrow> ptr \<Rightarrow> rsn_pmksa_cache_entry \<Rightarrow> wpa_sm \<Rightarrow> wpa_sm option" where
  "insert_entry env new entry sm = do {
     n \<leftarrow> insert_pos (sm_heap sm) (pe_expiration entry) (sm_pmksa sm);
     let sm = sm\<lparr>sm_pmksa := take n (sm_pmksa sm) @ new # drop n (sm_pmksa sm)\<rparr>;
     sm \<leftarrow> (if n = 0 then pmksa_cache_set_expiration env sm else Some sm);
     let sm = sm\<lparr>sm_pmksa_count := sm_pmksa_count sm + 1\<rparr>;
     Some (emit (Add_pmkid (pe_aa entry) (pe_pmkid entry)) sm) }"

definition new_entry ::
  "rsn_env \<Rightarrow> bytes \<Rightarrow> nat \<Rightarrow> bytes \<Rightarrow> bytes \<Rightarrow> ptr \<Rightarrow> u32 \<Rightarrow> wpa_sm \<Rightarrow> rsn_pmksa_cache_entry option" where
  "new_entry env pmk pmk_len aa spa network_ctx akmp sm = do {
     d \<leftarrow> rd_bytes pmk 0 pmk_len;
     pmkid \<leftarrow> rsn_pmkid (ev_hashes env) d aa spa;
     let now = t_sec (ev_now env);
     Some \<lparr>pe_pmkid = pmkid, pe_pmk = d @ replicate (PMK_LEN - pmk_len) 0, pe_pmk_len = pmk_len,
           pe_expiration = now + uint (dot11RSNAConfigPMKLifetime sm), pe_akmp = akmp, pe_aa = aa,
           pe_reauth_time =
             now + uint (dot11RSNAConfigPMKLifetime sm * dot11RSNAConfigPMKReauthThreshold sm div 100),
           pe_network_ctx = network_ctx, pe_opportunistic = False\<rparr> }"

definition pmksa_cache_add ::
  "rsn_env \<Rightarrow> bytes \<Rightarrow> nat \<Rightarrow> bytes \<Rightarrow> bytes \<Rightarrow> ptr \<Rightarrow> u32 \<Rightarrow> wpa_sm \<Rightarrow> (ptr option \<times> wpa_sm) option" where
  "pmksa_cache_add env pmk pmk_len aa spa network_ctx akmp sm =
     (if PMK_LEN < pmk_len then Some (None, sm)
      else case ev_entry env of
        None \<Rightarrow> Some (None, sm)
      | Some new \<Rightarrow> do {
          entry \<leftarrow> new_entry env pmk pmk_len aa spa network_ctx akmp sm;
          let sm = sm\<lparr>sm_heap := (sm_heap sm)(new \<mapsto> entry)\<rparr>;
          old \<leftarrow> find_aa (sm_heap sm) aa (sm_pmksa sm);
          reuse \<leftarrow> (case old of
             None \<Rightarrow> Some False
           | Some pos \<Rightarrow> do { p \<leftarrow> sm_heap sm pos; same_key p entry pmk pmk_len });
          if reuse then Some (old, sm\<lparr>sm_heap := (sm_heap sm)(new := None)\<rparr>)
          else do {
            sm \<leftarrow> (case old of None \<Rightarrow> Some sm | Some pos \<Rightarrow> replace_entry env pos network_ctx sm);
            sm \<leftarrow> make_room sm;
            sm \<leftarrow> insert_entry env new entry sm;
            Some (Some new, sm) } })"

text \<open>The old entry is read again after the new one was added.\<close>

definition pmksa_cache_clone_entry :: "rsn_env \<Rightarrow> ptr \<Rightarrow> bytes \<Rightarrow> wpa_sm \<Rightarrow> (ptr option \<times> wpa_sm) option" where
  "pmksa_cache_clone_entry env old aa sm = do {
     o1 \<leftarrow> sm_heap sm old;
     (new, sm) \<leftarrow> pmksa_cache_add env (pe_pmk o1) (pe_pmk_len o1) aa (sm_own_addr sm) (pe_network_ctx o1)
                   (pe_akmp o1) sm;
     case new of
       None \<Rightarrow> Some (None, sm)
     | Some n \<Rightarrow> do {
         o2 \<leftarrow> sm_heap sm old;
         e \<leftarrow> sm_heap sm n;
         let e = e\<lparr>pe_expiration := pe_expiration o2, pe_opportunistic := True\<rparr>;
         Some (Some n, sm\<lparr>sm_heap := (sm_heap sm)(n \<mapsto> e)\<rparr>) } }"

fun find_ctx :: "(ptr \<rightharpoonup> rsn_pmksa_cache_entry) \<Rightarrow> ptr \<Rightarrow> ptr list \<Rightarrow> ptr option option" where
  "find_ctx heap network_ctx [] = Some None"
| "find_ctx heap network_ctx (entry # rest) = do {
     e \<leftarrow> heap entry;
     if pe_network_ctx e = network_ctx then Some (Some entry) else find_ctx heap network_ctx rest }"

definition pmksa_cache_get_opportunistic ::
  "rsn_env \<Rightarrow> ptr \<Rightarrow> bytes \<Rightarrow> wpa_sm \<Rightarrow> (ptr option \<times> wpa_sm) option" where
  "pmksa_cache_get_opportunistic env network_ctx aa sm =
     (if network_ctx = NULL then Some (None, sm)
      else do {
        entry \<leftarrow> find_ctx (sm_heap sm) network_ctx (sm_pmksa sm);
        case entry of None \<Rightarrow> Some (None, sm) | Some e \<Rightarrow> pmksa_cache_clone_entry env e aa sm })"

definition pmksa_cache_get_current :: "wpa_sm \<Rightarrow> ptr option" where
  "pmksa_cache_get_current sm = sm_cur_pmksa sm"

definition pmksa_cache_clear_current :: "wpa_sm \<Rightarrow> wpa_sm" where
  "pmksa_cache_clear_current sm = sm\<lparr>sm_cur_pmksa := None\<rparr>"

definition pmksa_cache_set_current ::
  "rsn_env \<Rightarrow> bytes option \<Rightarrow> bytes option \<Rightarrow> ptr \<Rightarrow> bool \<Rightarrow> wpa_sm \<Rightarrow> (int \<times> wpa_sm) option" where
  "pmksa_cache_set_current env pmkid bssid network_ctx try_opportunistic sm = do {
     let sm = sm\<lparr>sm_cur_pmksa := None\<rparr>;
     cur \<leftarrow> (if pmkid \<noteq> None then pmksa_cache_get None pmkid sm else Some None);
     cur \<leftarrow> (if cur = None \<and> bssid \<noteq> None then pmksa_cache_get bssid None sm else Some cur);
     (cur, sm) \<leftarrow> (case bssid of
        Some b \<Rightarrow> if cur = None \<and> try_opportunistic then pmksa_cache_get_opportunistic env network_ctx b sm
                  else Some (cur, sm)
      | None \<Rightarrow> Some (cur, sm));
     let sm = sm\<lparr>sm_cur_pmksa := cur\<rparr>;
     Some (if cur = None then -1 else 0, sm) }"

definition pmksa_cache_deinit :: "rsn_env \<Rightarrow> wpa_sm \<Rightarrow> wpa_sm option" where
  "pmksa_cache_deinit env sm = do {
     let sm = sm\<lparr>sm_heap := (\<lambda>p. if p \<in> set (sm_pmksa sm) then None else sm_heap sm p), sm_pmksa := []\<rparr>;
     pmksa_cache_set_expiration env sm }"

section \<open>Invariant\<close>

definition entry_ok :: "rsn_pmksa_cache_entry \<Rightarrow> bool" where
  "entry_ok e \<longleftrightarrow> length (pe_pmkid e) = 16 \<and> length (pe_pmk e) = 32 \<and> pe_pmk_len e \<le> 32 \<and> length (pe_aa e) = 6"

text \<open>\<open>X\<close> are entries that are allocated and not linked: the new entry while it is being added.\<close>

definition cache_inv :: "ptr list \<Rightarrow> wpa_sm \<Rightarrow> bool" where
  "cache_inv X sm \<longleftrightarrow>
     distinct (X @ sm_pmksa sm) \<and> dom (sm_heap sm) = set (X @ sm_pmksa sm) \<and>
     sm_pmksa_count sm = int (length (sm_pmksa sm)) \<and> length (sm_pmksa sm) \<le> 32 \<and>
     (\<forall>p e. sm_heap sm p = Some e \<longrightarrow> entry_ok e) \<and>
     inj_on (\<lambda>p. pe_aa (the (sm_heap sm p))) (set (sm_pmksa sm)) \<and>
     (\<forall>c. sm_cur_pmksa sm = Some c \<longrightarrow> c \<in> set (sm_pmksa sm)) \<and>
     length (sm_pmk sm) = 32 \<and> sm_pmk_len sm \<le> 32"

definition pmksa_ok :: "wpa_sm \<Rightarrow> bool" where
  "pmksa_ok sm \<longleftrightarrow> cache_inv [] sm"

definition pmksa_event :: "rsn_event \<Rightarrow> bool" where
  "pmksa_event e \<longleftrightarrow> (case e of Deauthenticate _ \<Rightarrow> True | Add_pmkid _ _ \<Rightarrow> True | Remove_pmkid _ _ \<Rightarrow> True | _ \<Rightarrow> False)"

text \<open>What an operation of the cache does to the rest of the state machine.\<close>

definition pmksa_step :: "wpa_sm \<Rightarrow> wpa_sm \<Rightarrow> bool" where
  "pmksa_step sm sm' \<longleftrightarrow> sm_frame sm' = sm_frame sm \<and> log_ext pmksa_event sm sm' \<and>
     (sm_pmk sm' = sm_pmk sm \<or> sm_pmk sm' = replicate 32 0)"

lemma pmksa_step_refl [simp]: "pmksa_step sm sm"
  by (simp add: pmksa_step_def)

lemma pmksa_step_trans [trans]: "pmksa_step a b \<Longrightarrow> pmksa_step b c \<Longrightarrow> pmksa_step a c"
  by (auto simp: pmksa_step_def intro: log_ext_trans)

text \<open>The cache as a list of entries.\<close>

definition entries :: "wpa_sm \<Rightarrow> rsn_pmksa_cache_entry list" where
  "entries sm = map (\<lambda>p. the (sm_heap sm p)) (sm_pmksa sm)"

lemma cache_inv_heap:
  assumes "cache_inv X sm" "p \<in> set (X @ sm_pmksa sm)"
  obtains e where "sm_heap sm p = Some e" "entry_ok e"
  using assms unfolding cache_inv_def by (metis domD)

lemma pmksa_ok_heap: "pmksa_ok sm \<Longrightarrow> p \<in> set (sm_pmksa sm) \<Longrightarrow> sm_heap sm p = Some (the (sm_heap sm p))"
  by (auto simp: pmksa_ok_def elim: cache_inv_heap [of "[]" sm p])

section \<open>Each operation keeps the invariant\<close>

lemma free_cb_spec:
  assumes "sm_heap sm p = Some e" "entry_ok e" "length (sm_pmk sm) = 32" "sm_pmk_len sm \<le> 32"
  obtains c k l where "wpa_sm_pmksa_free_cb p r sm = Some (sm\<lparr>sm_cur_pmksa := c, sm_pmk := k, sm_log := sm_log sm @ l\<rparr>)"
    "c = None \<or> c = sm_cur_pmksa sm \<and> c \<noteq> Some p" "k = sm_pmk sm \<or> k = replicate 32 0" "list_all pmksa_event l"
proof -
  let ?m = "if sm_cur_pmksa sm = Some p then Some True
      else if sm_pmk_len sm = pe_pmk_len e then do {
        a \<leftarrow> rd_bytes (sm_pmk sm) 0 (sm_pmk_len sm); b \<leftarrow> rd_bytes (pe_pmk e) 0 (sm_pmk_len sm); Some (a = b) }
      else Some False"
  have "\<exists>b. ?m = Some b \<and> (\<not> b \<longrightarrow> sm_cur_pmksa sm \<noteq> Some p)"
    using assms(2-4) by (simp add: rd_bytes_def entry_ok_def) blast
  then obtain b where b: "?m = Some b" "\<not> b \<Longrightarrow> sm_cur_pmksa sm \<noteq> Some p" by blast
  consider "\<not> b" | "b" "r" | "b" "\<not> r" by blast
  then show thesis
  proof cases
    case 1
    then show ?thesis
      using b(2) assms(1) that [where c = "sm_cur_pmksa sm" and k = "sm_pmk sm" and l = "[]"]
      unfolding wpa_sm_pmksa_free_cb_def by (simp only: assms(1) bind.simps b(1)) simp
  next
    case 2
    then show ?thesis
      using that [where c = None and k = "sm_pmk sm" and l = "[]"]
      unfolding wpa_sm_pmksa_free_cb_def by (simp only: assms(1) bind.simps b(1)) simp
  next
    case 3
    then show ?thesis
      using that [where c = None and k = "replicate 32 0" and l = "[Deauthenticate 1]"]
      unfolding wpa_sm_pmksa_free_cb_def
      by (simp only: assms(1) bind.simps b(1)) (simp add: emit_def pmksa_event_def)
  qed
qed

lemma free_entry_spec:
  assumes "cache_inv X sm" "sm_pmksa sm = xs @ p # ys"
  shows "succeeds (pmksa_cache_free_entry p r (sm\<lparr>sm_pmksa := xs @ ys\<rparr>)) (\<lambda>sm'.
    cache_inv X sm' \<and> pmksa_step sm sm' \<and> sm_pmksa sm' = xs @ ys \<and> sm_heap sm' = (sm_heap sm)(p := None))"
proof -
  obtain e where e: "sm_heap sm p = Some e" "entry_ok e" using cache_inv_heap [OF assms(1), of p] assms(2) by auto
  have i: "distinct (X @ xs @ p # ys)" "dom (sm_heap sm) = set (X @ xs @ p # ys)"
    "sm_pmksa_count sm = int (length (xs @ p # ys))" "length (xs @ p # ys) \<le> 32"
    "\<forall>p e. sm_heap sm p = Some e \<longrightarrow> entry_ok e" "inj_on (\<lambda>p. pe_aa (the (sm_heap sm p))) (set (xs @ p # ys))"
    "\<forall>c. sm_cur_pmksa sm = Some c \<longrightarrow> c \<in> set (xs @ p # ys)" "length (sm_pmk sm) = 32" "sm_pmk_len sm \<le> 32"
    using assms(1) [unfolded cache_inv_def assms(2)] by blast+
  let ?sm = "sm\<lparr>sm_pmksa := xs @ ys, sm_log := sm_log sm @ [Remove_pmkid (pe_aa e) (pe_pmkid e)],
    sm_pmksa_count := sm_pmksa_count sm - 1\<rparr>"
  obtain c k l where f: "wpa_sm_pmksa_free_cb p r ?sm = Some (?sm\<lparr>sm_cur_pmksa := c, sm_pmk := k, sm_log := sm_log ?sm @ l\<rparr>)"
    "c = None \<or> c = sm_cur_pmksa sm \<and> c \<noteq> Some p" "k = sm_pmk sm \<or> k = replicate 32 0" "list_all pmksa_event l"
    using free_cb_spec [of ?sm p e r thesis] e i(8,9) by simp
  let ?h = "(sm_heap sm)(p := None)"
  have inj: "inj_on (\<lambda>q. pe_aa (the (?h q))) (set (xs @ ys))" using i(1,6) by (auto simp: inj_on_def)
  have d: "dom ?h = set (X @ xs @ ys)" using i(1,2) by auto
  have ok: "\<forall>q e. ?h q = Some e \<longrightarrow> entry_ok e" using i(5) by simp
  have c: "\<forall>q. c = Some q \<longrightarrow> q \<in> set (xs @ ys)" using i(7) f(2) by (cases c) (simp, metis Un_iff insert_iff list.simps(15) set_append option.inject option.distinct(1))
  let ?sm' = "?sm\<lparr>sm_cur_pmksa := c, sm_pmk := k, sm_log := sm_log ?sm @ l, sm_heap := ?h\<rparr>"
  have "cache_inv X ?sm'"
    unfolding cache_inv_def using inj d ok c i(1,3,4,8,9) f(3) by (auto simp del: fun_upd_apply)
  moreover have "pmksa_step sm ?sm'" using f(3,4) by (auto simp: pmksa_step_def log_ext_def pmksa_event_def)
  moreover have "pmksa_cache_free_entry p r (sm\<lparr>sm_pmksa := xs @ ys\<rparr>) = Some ?sm'"
    using f(1) e(1) by (simp add: pmksa_cache_free_entry_def emit_def)
  ultimately show ?thesis by (simp add: succeeds_def del: fun_upd_apply)
qed

definition matches :: "bytes option \<Rightarrow> bytes option \<Rightarrow> rsn_pmksa_cache_entry \<Rightarrow> bool" where
  "matches aa pmkid e \<longleftrightarrow> (aa = None \<or> aa = Some (pe_aa e)) \<and> (pmkid = None \<or> pmkid = Some (pe_pmkid e))"

lemma get_loop_total:
  assumes "set ps \<subseteq> dom heap"
  shows "get_loop heap aa pmkid ps = Some (List.find (\<lambda>p. matches aa pmkid (the (heap p))) ps)"
  using assms
proof (induction ps)
  case (Cons p ps)
  then obtain e where "heap p = Some e" by auto
  then show ?case using Cons by (simp add: matches_def)
qed simp

lemma pmksa_cache_get_spec:
  "cache_inv X sm \<Longrightarrow>
     pmksa_cache_get aa pmkid sm = Some (List.find (\<lambda>p. matches aa pmkid (the (sm_heap sm p))) (sm_pmksa sm))"
  using get_loop_total [of "sm_pmksa sm" "sm_heap sm"] by (simp add: pmksa_cache_get_def cache_inv_def)

lemma timer_eloop: "\<exists>el. cancel_timer h q sm = sm\<lparr>sm_eloop := el\<rparr>" "\<exists>el. register_timer env n h q sm = sm\<lparr>sm_eloop := el\<rparr>"
  by (auto simp: cancel_timer_def register_timer_def)

lemma set_expiration_spec:
  assumes "set (sm_pmksa sm) \<subseteq> dom (sm_heap sm)"
  shows "\<exists>el. pmksa_cache_set_expiration env sm = Some (sm\<lparr>sm_eloop := el\<rparr>)"
proof -
  let ?q = "sm_pmksa_self sm"
  obtain el1 where 1: "cancel_timer H_pmksa_cache_expire ?q sm = sm\<lparr>sm_eloop := el1\<rparr>" using timer_eloop(1) by blast
  obtain el2 where 2: "cancel_timer H_pmksa_cache_reauth ?q (sm\<lparr>sm_eloop := el1\<rparr>) = sm\<lparr>sm_eloop := el2\<rparr>"
    using timer_eloop(1) [of H_pmksa_cache_reauth ?q "sm\<lparr>sm_eloop := el1\<rparr>"] by auto
  show ?thesis
  proof (cases "sm_pmksa sm")
    case Nil
    then show ?thesis by (auto simp: pmksa_cache_set_expiration_def 1 2)
  next
    case (Cons p ps)
    then obtain f where f: "sm_heap sm p = Some f" using assms by auto
    have r: "\<exists>el. register_timer env n h ?q (sm\<lparr>sm_eloop := el'\<rparr>) = sm\<lparr>sm_eloop := el\<rparr>" for n h el'
      using timer_eloop(2) [of env n h ?q "sm\<lparr>sm_eloop := el'\<rparr>"] by auto
    let ?n = "word_of_int (secs_left (pe_expiration f) (t_sec (ev_now env))) + 1"
    obtain el3 where 3: "register_timer env ?n H_pmksa_cache_expire ?q (sm\<lparr>sm_eloop := el2\<rparr>) = sm\<lparr>sm_eloop := el3\<rparr>"
      using r by blast
    have g: "\<exists>r. pmksa_cache_get (Some (sm_bssid sm)) None (sm\<lparr>sm_eloop := el3\<rparr>) = Some r"
      using get_loop_total [OF assms] by (simp add: pmksa_cache_get_def)
    show ?thesis
      using g r Cons f by (cases "sm_cur_pmksa sm") (auto simp: pmksa_cache_set_expiration_def Let_def 1 2 3)
  qed
qed

lemma cache_inv_eloop [simp]: "cache_inv X (sm\<lparr>sm_eloop := el\<rparr>) = cache_inv X sm"
  by (simp add: cache_inv_def)

lemma pmksa_step_eloop: "pmksa_step sm (sm\<lparr>sm_eloop := el\<rparr>)"
  by (simp add: pmksa_step_def log_ext_same)

definition kept :: "ptr \<Rightarrow> rsn_pmksa_cache_entry \<Rightarrow> bool" where
  "kept network_ctx e \<longleftrightarrow> pe_network_ctx e \<noteq> network_ctx \<and> network_ctx \<noteq> NULL"

definition drop_heap :: "ptr set \<Rightarrow> (ptr \<rightharpoonup> 'e) \<Rightarrow> (ptr \<rightharpoonup> 'e)" where
  "drop_heap D h = (\<lambda>p. if p \<in> D then None else h p)"

lemma pmksa_flush_loop_spec:
  assumes "cache_inv X sm" "sm_pmksa sm = xs @ ps"
  shows "succeeds (flush_loop c ps n sm) (\<lambda>(n', sm'). cache_inv X sm' \<and> pmksa_step sm sm' \<and>
    sm_pmksa sm' = xs @ filter (\<lambda>p. kept c (the (sm_heap sm p))) ps \<and>
    sm_heap sm' = drop_heap {p \<in> set ps. \<not> kept c (the (sm_heap sm p))} (sm_heap sm))"
  using assms
proof (induction ps arbitrary: xs n sm)
  case Nil
  then show ?case by (simp add: succeeds_simps drop_heap_def)
next
  case (Cons p ps)
  obtain e where e: "sm_heap sm p = Some e" using cache_inv_heap [OF Cons.prems(1), of p] Cons.prems(2) by auto
  have d: "p \<notin> set xs" "p \<notin> set ps" using Cons.prems by (auto simp: cache_inv_def)
  show ?case
  proof (cases "kept c e")
    case True
    have "{q \<in> set (p # ps). \<not> kept c (the (sm_heap sm q))} = {q \<in> set ps. \<not> kept c (the (sm_heap sm q))}"
      using True e by auto
    then show ?thesis
      using Cons.IH [OF Cons.prems(1), of "xs @ [p]" n] Cons.prems(2) e True by (simp add: kept_def)
  next
    case False
    from free_entry_spec [OF Cons.prems, of False] obtain sm1 where
      f: "pmksa_cache_free_entry p False (sm\<lparr>sm_pmksa := xs @ ps\<rparr>) = Some sm1" "cache_inv X sm1" "pmksa_step sm sm1"
        "sm_pmksa sm1 = xs @ ps" "sm_heap sm1 = (sm_heap sm)(p := None)"
      by (auto simp: succeeds_def)
    have k: "q \<in> set ps \<Longrightarrow> sm_heap sm1 q = sm_heap sm q" for q using d f(5) by auto
    have 1: "filter (\<lambda>q. kept c (the (sm_heap sm1 q))) ps = filter (\<lambda>q. kept c (the (sm_heap sm q))) ps"
      using k by (auto intro: filter_cong)
    have 2: "drop_heap {q \<in> set ps. \<not> kept c (the (sm_heap sm1 q))} (sm_heap sm1) =
      drop_heap {q \<in> set (p # ps). \<not> kept c (the (sm_heap sm q))} (sm_heap sm)"
      using k f(5) e False by (auto simp: drop_heap_def fun_eq_iff)
    show ?thesis
      using Cons.IH [OF f(2,4), of "n + 1"] f(1) Cons.prems(2) e False d(1) pmksa_step_trans [OF f(3)]
      by (auto simp: kept_def [of c e] remove1_append 1 2 elim!: succeeds_mono)
  qed
qed

lemma flush_spec:
  assumes "cache_inv X sm"
  shows "succeeds (pmksa_cache_flush env c sm) (\<lambda>sm'. cache_inv X sm' \<and> pmksa_step sm sm' \<and>
    sm_pmksa sm' = filter (\<lambda>p. kept c (the (sm_heap sm p))) (sm_pmksa sm) \<and>
    sm_heap sm' = drop_heap {p \<in> set (sm_pmksa sm). \<not> kept c (the (sm_heap sm p))} (sm_heap sm))"
proof -
  from pmksa_flush_loop_spec [OF assms, of "[]" "sm_pmksa sm" c 0] obtain n sm1 where
    f: "flush_loop c (sm_pmksa sm) 0 sm = Some (n, sm1)" "cache_inv X sm1" "pmksa_step sm sm1"
      "sm_pmksa sm1 = filter (\<lambda>p. kept c (the (sm_heap sm p))) (sm_pmksa sm)"
      "sm_heap sm1 = drop_heap {p \<in> set (sm_pmksa sm). \<not> kept c (the (sm_heap sm p))} (sm_heap sm)"
    by (auto simp: succeeds_def)
  obtain el where "pmksa_cache_set_expiration env sm1 = Some (sm1\<lparr>sm_eloop := el\<rparr>)"
    using set_expiration_spec [of sm1 env] f(2) by (auto simp: cache_inv_def)
  then show ?thesis
    using f pmksa_step_trans [OF f(3) pmksa_step_eloop [of sm1 el]]
    by (auto simp: pmksa_cache_flush_def succeeds_simps)
qed

section \<open>The cache as an abstract list\<close>

text \<open>
  The reference: a list of entries, ordered by expiration when they are added. \<open>ref_add\<close> keeps an equal entry;
  an entry of the same authenticator with another key goes, together with all entries of the network; a full cache
  loses its first entry; the new entry is placed behind those that do not expire later.
\<close>

definition ref_insert :: "rsn_pmksa_cache_entry \<Rightarrow> rsn_pmksa_cache_entry list \<Rightarrow> rsn_pmksa_cache_entry list" where
  "ref_insert e es = takeWhile (\<lambda>x. pe_expiration x \<le> pe_expiration e) es @
     e # dropWhile (\<lambda>x. pe_expiration x \<le> pe_expiration e) es"

definition ref_evict :: "rsn_pmksa_cache_entry list \<Rightarrow> rsn_pmksa_cache_entry list" where
  "ref_evict es = (if 32 \<le> length es then tl es else es)"

definition ref_reuse :: "rsn_pmksa_cache_entry \<Rightarrow> rsn_pmksa_cache_entry \<Rightarrow> bool" where
  "ref_reuse e x \<longleftrightarrow> pe_pmk_len x = pe_pmk_len e \<and>
     take (pe_pmk_len e) (pe_pmk x) = take (pe_pmk_len e) (pe_pmk e) \<and> pe_pmkid x = pe_pmkid e"

definition ref_add :: "rsn_pmksa_cache_entry \<Rightarrow> rsn_pmksa_cache_entry list \<Rightarrow> rsn_pmksa_cache_entry list" where
  "ref_add e es = (case List.find (\<lambda>x. pe_aa x = pe_aa e) es of
     None \<Rightarrow> ref_insert e (ref_evict es)
   | Some x \<Rightarrow>
       if ref_reuse e x then es
       else ref_insert e (ref_evict (filter (\<lambda>y. pe_aa y \<noteq> pe_aa e \<and> kept (pe_network_ctx e) y) es)))"

lemma find_aa_total:
  assumes "set ps \<subseteq> dom heap"
  shows "find_aa heap aa ps = Some (List.find (\<lambda>p. pe_aa (the (heap p)) = aa) ps)"
  using assms
proof (induction ps)
  case (Cons p ps)
  then obtain e where "heap p = Some e" by auto
  then show ?case using Cons by auto
qed simp

lemma find_ctx_total:
  assumes "set ps \<subseteq> dom heap"
  shows "find_ctx heap c ps = Some (List.find (\<lambda>p. pe_network_ctx (the (heap p)) = c) ps)"
  using assms
proof (induction ps)
  case (Cons p ps)
  then obtain e where "heap p = Some e" by auto
  then show ?case using Cons by auto
qed simp

lemma insert_pos_total:
  assumes "set ps \<subseteq> dom heap"
  shows "insert_pos heap t ps = Some (length (takeWhile (\<lambda>p. pe_expiration (the (heap p)) \<le> t) ps))"
  using assms
proof (induction ps)
  case (Cons p ps)
  then obtain e where "heap p = Some e" by auto
  then show ?case using Cons by auto
qed simp

lemma new_entry_spec:
  assumes "hash_ok (sha1_vector (ev_hashes env)) 20" "length aa = 6" "pmk_len \<le> 32"
    "new_entry env pmk pmk_len aa spa ctx akmp sm = Some e"
  shows "entry_ok e" "pe_aa e = aa" "pe_network_ctx e = ctx" "pe_pmk_len e = pmk_len"
    "take pmk_len (pe_pmk e) = take pmk_len pmk" "\<not> pe_opportunistic e" "pmk_len \<le> length pmk" "pe_akmp e = akmp"
    "rsn_pmkid (ev_hashes env) (take pmk_len pmk) aa spa = Some (pe_pmkid e)"
proof -
  have "length d = 16" if "rsn_pmkid (ev_hashes env) k aa spa = Some d" for k d
    using that assms(1) by (auto simp: rsn_pmkid_def hmac_sha1_vector_def dest: length_hmac)
  then show "entry_ok e" "pe_aa e = aa" "pe_network_ctx e = ctx" "pe_pmk_len e = pmk_len"
    "take pmk_len (pe_pmk e) = take pmk_len pmk" "\<not> pe_opportunistic e" "pmk_len \<le> length pmk" "pe_akmp e = akmp"
    "rsn_pmkid (ev_hashes env) (take pmk_len pmk) aa spa = Some (pe_pmkid e)"
    using assms(2-4) by (auto simp: new_entry_def entry_ok_def rd_bytes_def Let_def split: bind_splits if_splits)
qed

lemma make_room_spec:
  assumes "cache_inv X sm"
  shows "succeeds (make_room sm) (\<lambda>sm'. cache_inv X sm' \<and> pmksa_step sm sm' \<and>
    sm_pmksa sm' = (if 32 \<le> length (sm_pmksa sm) then tl (sm_pmksa sm) else sm_pmksa sm) \<and>
    sm_heap sm' = (if 32 \<le> length (sm_pmksa sm) then (sm_heap sm)(hd (sm_pmksa sm) := None) else sm_heap sm))"
proof (cases "sm_pmksa sm")
  case Nil
  then show ?thesis using assms by (simp add: make_room_def succeeds_simps)
next
  case (Cons p ps)
  have n: "sm_pmksa_count sm = int (length (p # ps))" using assms Cons by (simp add: cache_inv_def)
  show ?thesis
  proof (cases "32 \<le> length (sm_pmksa sm)")
    case True
    then have "pmksa_cache_max_entries \<le> sm_pmksa_count sm" using n Cons by (simp add: pmksa_cache_max_entries_def)
    then show ?thesis
      using free_entry_spec [OF assms, of "[]" p ps False] Cons True
      by (auto simp: make_room_def simp del: fun_upd_apply elim!: succeeds_mono)
  next
    case False
    then have "\<not> pmksa_cache_max_entries \<le> sm_pmksa_count sm" using n Cons by (simp add: pmksa_cache_max_entries_def)
    then show ?thesis using assms Cons False by (simp add: make_room_def succeeds_simps)
  qed
qed

lemma insert_while:
  "set (takeWhile P xs @ x # dropWhile P xs) = insert x (set xs)"
  "length (takeWhile P xs @ x # dropWhile P xs) = Suc (length xs)"
  "distinct (takeWhile P xs @ x # dropWhile P xs) \<longleftrightarrow> x \<notin> set xs \<and> distinct xs"
proof -
  obtain a b where ab: "takeWhile P xs = a" "dropWhile P xs = b" "xs = a @ b" by (metis takeWhile_dropWhile_id)
  show "set (takeWhile P xs @ x # dropWhile P xs) = insert x (set xs)"
    "length (takeWhile P xs @ x # dropWhile P xs) = Suc (length xs)"
    "distinct (takeWhile P xs @ x # dropWhile P xs) \<longleftrightarrow> x \<notin> set xs \<and> distinct xs"
    unfolding ab(1,2) by (auto simp: ab(3))
qed

lemma insert_entry_spec:
  assumes "cache_inv [new] sm" "sm_heap sm new = Some e" "length (sm_pmksa sm) < 32" "pe_aa e \<notin> pe_aa ` set (entries sm)"
  shows "succeeds (insert_entry env new e sm) (\<lambda>sm'. cache_inv [] sm' \<and> pmksa_step sm sm' \<and>
    sm_heap sm' = sm_heap sm \<and> entries sm' = ref_insert e (entries sm) \<and> new \<in> set (sm_pmksa sm'))"
proof -
  let ?P = "\<lambda>p. pe_expiration (the (sm_heap sm p)) \<le> pe_expiration e"
  define l where "l = takeWhile ?P (sm_pmksa sm) @ new # dropWhile ?P (sm_pmksa sm)"
  let ?n = "length (takeWhile ?P (sm_pmksa sm))"
  have sub: "set (sm_pmksa sm) \<subseteq> dom (sm_heap sm)" using assms(1) by (auto simp: cache_inv_def)
  have n: "insert_pos (sm_heap sm) (pe_expiration e) (sm_pmksa sm) = Some ?n" using insert_pos_total [OF sub] .
  have l: "take ?n (sm_pmksa sm) @ new # drop ?n (sm_pmksa sm) = l"
    unfolding l_def by (metis takeWhile_eq_take dropWhile_eq_drop)
  have s: "set l = insert new (set (sm_pmksa sm))" "length l = Suc (length (sm_pmksa sm))" "distinct l"
    using insert_while [of ?P "sm_pmksa sm" new] assms(1) unfolding l_def cache_inv_def by simp_all
  have inj: "inj_on (\<lambda>p. pe_aa (the (sm_heap sm p))) (set l)"
    unfolding s(1) using assms(1,2,4) by (auto simp: cache_inv_def entries_def)
  have ent: "map (\<lambda>p. the (sm_heap sm p)) l = ref_insert e (entries sm)"
    using assms(2) by (simp add: l_def ref_insert_def entries_def takeWhile_map dropWhile_map o_def)
  have "set (sm_pmksa (sm\<lparr>sm_pmksa := l\<rparr>)) \<subseteq> dom (sm_heap (sm\<lparr>sm_pmksa := l\<rparr>))" using s(1) sub assms(2) by auto
  from set_expiration_spec [OF this, of env] obtain el where
    "(if ?n = 0 then pmksa_cache_set_expiration env (sm\<lparr>sm_pmksa := l\<rparr>) else Some (sm\<lparr>sm_pmksa := l\<rparr>)) =
      Some (sm\<lparr>sm_pmksa := l, sm_eloop := el\<rparr>)"
    by (cases "?n = 0") (auto intro: that [of "sm_eloop sm"])
  then have r: "insert_entry env new e sm = Some (emit (Add_pmkid (pe_aa e) (pe_pmkid e))
      (sm\<lparr>sm_pmksa := l, sm_eloop := el, sm_pmksa_count := sm_pmksa_count sm + 1\<rparr>))"
    unfolding insert_entry_def n l by (simp only: bind.simps Let_def l) simp
  show ?thesis
    using assms(1,2,3) s inj ent
    by (simp add: r succeeds_simps cache_inv_def pmksa_step_def log_ext_def pmksa_event_def entries_def)
qed

lemma replace_spec:
  assumes "cache_inv X sm" "pos \<in> set (sm_pmksa sm)"
  shows "succeeds (replace_entry env pos c sm) (\<lambda>sm'. cache_inv X sm' \<and> pmksa_step sm sm' \<and>
    sm_pmksa sm' = filter (\<lambda>p. p \<noteq> pos \<and> kept c (the (sm_heap sm p))) (sm_pmksa sm) \<and>
    sm_heap sm' = drop_heap {p \<in> set (sm_pmksa sm). p = pos \<or> \<not> kept c (the (sm_heap sm p))} (sm_heap sm))"
proof -
  define sm1 where "sm1 = (if sm_cur_pmksa sm = Some pos then sm\<lparr>sm_cur_pmksa := None\<rparr> else sm)"
  have 1: "cache_inv X sm1" "pmksa_step sm sm1" "sm_pmksa sm1 = sm_pmksa sm" "sm_heap sm1 = sm_heap sm"
    using assms(1) by (auto simp: sm1_def cache_inv_def pmksa_step_def log_ext_same)
  obtain xs ys where l: "sm_pmksa sm = xs @ pos # ys" "pos \<notin> set xs" using assms(2) by (meson split_list_first)
  have d: "pos \<notin> set ys" using assms(1) l by (simp add: cache_inv_def)
  from free_entry_spec [OF 1(1) 1(3) [unfolded l(1)], of True] obtain sm2 where
    f: "pmksa_cache_free_entry pos True (sm1\<lparr>sm_pmksa := xs @ ys\<rparr>) = Some sm2" "cache_inv X sm2" "pmksa_step sm1 sm2"
      "sm_pmksa sm2 = xs @ ys" "sm_heap sm2 = (sm_heap sm)(pos := None)"
    by (auto simp: succeeds_def 1(4))
  from flush_spec [OF f(2), of env c] obtain sm3 where
    g: "pmksa_cache_flush env c sm2 = Some sm3" "cache_inv X sm3" "pmksa_step sm2 sm3"
      "sm_pmksa sm3 = filter (\<lambda>p. kept c (the (sm_heap sm2 p))) (sm_pmksa sm2)"
      "sm_heap sm3 = drop_heap {p \<in> set (sm_pmksa sm2). \<not> kept c (the (sm_heap sm2 p))} (sm_heap sm2)"
    by (auto simp: succeeds_def)
  have k: "q \<in> set (xs @ ys) \<Longrightarrow> sm_heap sm2 q = sm_heap sm q \<and> q \<noteq> pos" for q using d l(2) f(5) by auto
  have "replace_entry env pos c sm = Some sm3"
  proof -
    have e: "sm\<lparr>sm_cur_pmksa := None, sm_pmksa := xs @ ys\<rparr> = sm\<lparr>sm_pmksa := xs @ ys, sm_cur_pmksa := None\<rparr>" by simp
    show ?thesis
      using f(1) g(1) l by (simp add: replace_entry_def sm1_def remove1_append Let_def e split: if_splits)
  qed
  moreover have "sm_pmksa sm3 = filter (\<lambda>p. p \<noteq> pos \<and> kept c (the (sm_heap sm p))) (sm_pmksa sm)"
    unfolding g(4) f(4) l(1) using k by (simp cong: filter_cong)
  moreover have "sm_heap sm3 = drop_heap {p \<in> set (sm_pmksa sm). p = pos \<or> \<not> kept c (the (sm_heap sm p))} (sm_heap sm)"
    unfolding g(5) f(4) l(1) using k f(5) by (auto simp: drop_heap_def fun_eq_iff)
  ultimately show ?thesis
    using g(2) pmksa_step_trans [OF 1(2) pmksa_step_trans [OF f(3) g(3)]] by (simp add: succeeds_def)
qed

definition hashes_ok :: "hashes \<Rightarrow> bool" where
  "hashes_ok hs \<longleftrightarrow> hash_ok (sha1_vector hs) 20 \<and> hash_ok (md5_vector hs) 16 \<and>
     (\<forall>xs. sha1_vector hs xs \<noteq> None) \<and> (\<forall>xs. md5_vector hs xs \<noteq> None)"

lemma hmac_total:
  assumes "\<forall>xs. h xs \<noteq> None" "length elems \<le> 5"
  shows "\<exists>d. hmac_vector h key elems = Some d"
proof -
  obtain g where "\<And>xs. h xs = Some (g xs)" using that [of "\<lambda>xs. the (h xs)"] assms(1) by simp
  then show ?thesis using assms(2) by (simp add: hmac_vector_def)
qed

lemma new_entry_total:
  assumes "hashes_ok (ev_hashes env)" "pmk_len \<le> length pmk"
  obtains e where "new_entry env pmk pmk_len aa spa ctx akmp sm = Some e"
proof -
  obtain d where "hmac_vector (sha1_vector (ev_hashes env)) (take pmk_len pmk) [lit ''PMK Name'', aa, spa] = Some d"
    using hmac_total [of "sha1_vector (ev_hashes env)" "[lit ''PMK Name'', aa, spa]" "take pmk_len pmk"] assms(1)
    by (auto simp: hashes_ok_def)
  then show ?thesis
    using that assms(2) by (simp add: new_entry_def rd_bytes_def rsn_pmkid_def hmac_sha1_vector_def Let_def)
qed

lemma find_map: "List.find P (map f xs) = map_option f (List.find (\<lambda>x. P (f x)) xs)"
  by (induction xs) auto

text \<open>The outcome of an addition: the state \<open>sm'\<close> and the entry at \<open>p\<close>, which is the new one or an equal old one.\<close>

definition add_result :: "wpa_sm \<Rightarrow> ptr \<Rightarrow> rsn_pmksa_cache_entry \<Rightarrow> ptr \<Rightarrow> wpa_sm \<Rightarrow> bool" where
  "add_result sm new e p sm' \<longleftrightarrow> pmksa_ok sm' \<and> pmksa_step sm sm' \<and> entries sm' = ref_add e (entries sm) \<and>
     p \<in> set (sm_pmksa sm') \<and> (\<exists>x. sm_heap sm' p = Some x \<and> pe_aa x = pe_aa e \<and> ref_reuse e x) \<and>
     (\<forall>q y. sm_heap sm' q = Some y \<longrightarrow> sm_heap sm q = Some y \<or> q = new \<and> y = e)"

text \<open>The part of an addition after the old entry of the authenticator, if there was one, has been dealt with.\<close>

definition add_tail :: "rsn_env \<Rightarrow> ptr \<Rightarrow> rsn_pmksa_cache_entry \<Rightarrow> wpa_sm \<Rightarrow> (ptr option \<times> wpa_sm) option" where
  "add_tail env new e sm = do { sm \<leftarrow> make_room sm; sm \<leftarrow> insert_entry env new e sm; Some (Some new, sm) }"

lemma add_tail_spec:
  assumes "cache_inv [new] sm1" "sm_heap sm1 new = Some e" "pe_aa e \<notin> pe_aa ` set (entries sm1)" "pmksa_step sm sm1"
    "ref_insert e (ref_evict (entries sm1)) = ref_add e (entries sm)"
    "\<forall>q y. sm_heap sm1 q = Some y \<longrightarrow> sm_heap sm q = Some y \<or> q = new \<and> y = e"
  shows "\<exists>sm'. add_tail env new e sm1 = Some (Some new, sm') \<and> add_result sm new e new sm'"
proof -
  from make_room_spec [OF assms(1)] obtain sm2 where
    m: "make_room sm1 = Some sm2" "cache_inv [new] sm2" "pmksa_step sm1 sm2"
      "sm_pmksa sm2 = (if 32 \<le> length (sm_pmksa sm1) then tl (sm_pmksa sm1) else sm_pmksa sm1)"
      "sm_heap sm2 = (if 32 \<le> length (sm_pmksa sm1) then (sm_heap sm1)(hd (sm_pmksa sm1) := None) else sm_heap sm1)"
    by (auto simp: succeeds_def simp del: fun_upd_apply)
  have d: "distinct (new # sm_pmksa sm1)" "length (sm_pmksa sm1) \<le> 32" using assms(1) by (simp_all add: cache_inv_def)
  have h: "q \<in> insert new (set (sm_pmksa sm2)) \<Longrightarrow> sm_heap sm2 q = sm_heap sm1 q" for q
    using d m(4,5) by (cases "sm_pmksa sm1") (auto split: if_splits)
  have ent: "entries sm2 = ref_evict (entries sm1)"
    unfolding entries_def ref_evict_def using h m(4) by (auto simp: map_tl [symmetric])
  have l: "length (sm_pmksa sm2) < 32" using d(2) m(4) by (auto split: if_splits)
  have "set (entries sm2) \<subseteq> set (entries sm1)" unfolding ent ref_evict_def by (cases "entries sm1") auto
  then have a: "pe_aa e \<notin> pe_aa ` set (entries sm2)" using assms(3) by blast
  have n: "sm_heap sm2 new = Some e" using h assms(2) by simp
  have sub: "sm_heap sm2 q = Some x \<Longrightarrow> sm_heap sm1 q = Some x" for q x using m(5) by (auto split: if_splits)
  from insert_entry_spec [OF m(2) n l a, of env] obtain sm3 where
    i: "insert_entry env new e sm2 = Some sm3" "cache_inv [] sm3" "pmksa_step sm2 sm3" "sm_heap sm3 = sm_heap sm2"
      "entries sm3 = ref_insert e (entries sm2)" "new \<in> set (sm_pmksa sm3)"
    by (auto simp: succeeds_def)
  have "add_result sm new e new sm3"
    unfolding add_result_def pmksa_ok_def i(4,5) ent assms(5)
    using i(2,6) pmksa_step_trans [OF assms(4) pmksa_step_trans [OF m(3) i(3)]] n sub assms(6)
    by (auto simp: ref_reuse_def)
  then show ?thesis using m(1) i(1) by (simp add: add_tail_def)
qed

lemma add_start:
  assumes "pmksa_ok sm" "entry_ok e" "new \<notin> dom (sm_heap sm)" "sm0 = sm\<lparr>sm_heap := (sm_heap sm)(new \<mapsto> e)\<rparr>"
  shows "cache_inv [new] sm0" "pmksa_step sm sm0" "sm_pmksa sm0 = sm_pmksa sm" "sm_heap sm0 new = Some e"
    "new \<notin> set (sm_pmksa sm)" "\<And>q. q \<in> set (sm_pmksa sm) \<Longrightarrow> sm_heap sm0 q = sm_heap sm q"
    "entries sm0 = entries sm" "set (sm_pmksa sm) \<subseteq> dom (sm_heap sm0)"
proof -
  show nl: "new \<notin> set (sm_pmksa sm)" using assms(1,3) by (auto simp: pmksa_ok_def cache_inv_def)
  then show same: "sm_heap sm0 q = sm_heap sm q" if "q \<in> set (sm_pmksa sm)" for q using that by (auto simp: assms(4))
  show l: "sm_pmksa sm0 = sm_pmksa sm" "sm_heap sm0 new = Some e" by (simp_all add: assms(4))
  have "inj_on (\<lambda>p. pe_aa (the (sm_heap sm0 p))) (set (sm_pmksa sm))"
    using assms(1) same by (simp add: pmksa_ok_def cache_inv_def cong: inj_on_cong)
  then show inv: "cache_inv [new] sm0" "pmksa_step sm sm0"
    using assms(1,2) nl unfolding assms(4) pmksa_ok_def cache_inv_def by (simp_all add: pmksa_step_def log_ext_same)
  show "entries sm0 = entries sm" unfolding entries_def l(1) using same by simp
  show "set (sm_pmksa sm) \<subseteq> dom (sm_heap sm0)" using inv l by (auto simp: cache_inv_def)
qed

text \<open>The three cases of an addition: no entry of the authenticator, an equal one, one with another key.\<close>

lemma add_fresh:
  assumes "pmksa_ok sm" "entry_ok e" "new \<notin> dom (sm_heap sm)" "sm0 = sm\<lparr>sm_heap := (sm_heap sm)(new \<mapsto> e)\<rparr>"
    "List.find (\<lambda>x. pe_aa x = pe_aa e) (entries sm) = None"
  shows "\<exists>sm'. add_tail env new e sm0 = Some (Some new, sm') \<and> add_result sm new e new sm'"
proof (rule add_tail_spec)
  note st = add_start [OF assms(1-4)]
  show "cache_inv [new] sm0" "sm_heap sm0 new = Some e" "pmksa_step sm sm0" by (fact st)+
  show "pe_aa e \<notin> pe_aa ` set (entries sm0)" unfolding st(7) using find_NoneD [OF assms(5)] by auto
  show "ref_insert e (ref_evict (entries sm0)) = ref_add e (entries sm)" using assms(5) by (simp add: ref_add_def st(7))
  show "\<forall>q y. sm_heap sm0 q = Some y \<longrightarrow> sm_heap sm q = Some y \<or> q = new \<and> y = e" by (simp add: assms(4))
qed

lemma add_replace:
  assumes "pmksa_ok sm" "entry_ok e" "new \<notin> dom (sm_heap sm)" "sm0 = sm\<lparr>sm_heap := (sm_heap sm)(new \<mapsto> e)\<rparr>"
    "pos \<in> set (sm_pmksa sm)" "sm_heap sm pos = Some x" "pe_aa x = pe_aa e" "\<not> ref_reuse e x"
    "List.find (\<lambda>x. pe_aa x = pe_aa e) (entries sm) = Some x"
  shows "\<exists>sm1 sm'. replace_entry env pos (pe_network_ctx e) sm0 = Some sm1 \<and>
    add_tail env new e sm1 = Some (Some new, sm') \<and> add_result sm new e new sm'"
proof -
  note st = add_start [OF assms(1-4)]
  let ?ctx = "pe_network_ctx e"
  from replace_spec [OF st(1), of pos env ?ctx] assms(5) st(3) obtain sm1 where
    r: "replace_entry env pos ?ctx sm0 = Some sm1" "cache_inv [new] sm1" "pmksa_step sm0 sm1"
      "sm_pmksa sm1 = filter (\<lambda>p. p \<noteq> pos \<and> kept ?ctx (the (sm_heap sm0 p))) (sm_pmksa sm)"
      "sm_heap sm1 = drop_heap {p \<in> set (sm_pmksa sm). p = pos \<or> \<not> kept ?ctx (the (sm_heap sm0 p))} (sm_heap sm0)"
    by (auto simp: succeeds_def)
  have hs: "q \<in> set (sm_pmksa sm1) \<Longrightarrow> sm_heap sm1 q = sm_heap sm0 q" for q using r(4,5) by (auto simp: drop_heap_def)
  have "inj_on (\<lambda>p. pe_aa (the (sm_heap sm p))) (set (sm_pmksa sm))" using assms(1) by (simp add: pmksa_ok_def cache_inv_def)
  then have aa: "q \<in> set (sm_pmksa sm) \<Longrightarrow> (q \<noteq> pos) = (pe_aa (the (sm_heap sm0 q)) \<noteq> pe_aa e)" for q
    using assms(5-7) st(6) by (metis inj_onD option.sel)
  have "entries sm1 = map (\<lambda>p. the (sm_heap sm0 p)) (sm_pmksa sm1)" unfolding entries_def using hs by simp
  also have "\<dots> = filter (\<lambda>y. pe_aa y \<noteq> pe_aa e \<and> kept ?ctx y) (entries sm0)"
    unfolding entries_def filter_map st(3) r(4) using aa by (simp add: o_def cong: filter_cong)
  finally have ent: "entries sm1 = filter (\<lambda>y. pe_aa y \<noteq> pe_aa e \<and> kept ?ctx y) (entries sm)" by (simp add: st(7))
  have "\<exists>sm'. add_tail env new e sm1 = Some (Some new, sm') \<and> add_result sm new e new sm'"
  proof (rule add_tail_spec)
    show "cache_inv [new] sm1" "pmksa_step sm sm1" using r(2,3) st(2) pmksa_step_trans by blast+
    show "sm_heap sm1 new = Some e" using r(5) st(4,5) by (simp add: drop_heap_def)
    show "pe_aa e \<notin> pe_aa ` set (entries sm1)" using ent by auto
    show "ref_insert e (ref_evict (entries sm1)) = ref_add e (entries sm)"
      using ent assms(8,9) by (simp add: ref_add_def)
    show "\<forall>q y. sm_heap sm1 q = Some y \<longrightarrow> sm_heap sm q = Some y \<or> q = new \<and> y = e"
      using r(5) by (auto simp: assms(4) drop_heap_def split: if_splits)
  qed
  then show ?thesis using r(1) by blast
qed

lemma add_spec:
  assumes "pmksa_ok sm" "hashes_ok (ev_hashes env)" "length aa = 6" "pmk_len \<le> 32" "pmk_len \<le> length pmk"
    "ev_entry env = Some new" "new \<notin> dom (sm_heap sm)"
  shows "\<exists>e p sm'. new_entry env pmk pmk_len aa spa ctx akmp sm = Some e \<and> entry_ok e \<and> pe_aa e = aa \<and>
    pmksa_cache_add env pmk pmk_len aa spa ctx akmp sm = Some (Some p, sm') \<and> add_result sm new e p sm'"
proof -
  obtain e where e: "new_entry env pmk pmk_len aa spa ctx akmp sm = Some e" using new_entry_total assms(2,5) by blast
  have h: "hash_ok (sha1_vector (ev_hashes env)) 20" using assms(2) by (simp add: hashes_ok_def)
  note ne = new_entry_spec [OF h assms(3,4) e]
  define sm0 where "sm0 = sm\<lparr>sm_heap := (sm_heap sm)(new \<mapsto> e)\<rparr>"
  note st = add_start [OF assms(1) ne(1) assms(7) sm0_def]
  let ?old = "List.find (\<lambda>p. pe_aa (the (sm_heap sm0 p)) = aa) (sm_pmksa sm)"
  have fe: "List.find (\<lambda>x. pe_aa x = pe_aa e) (entries sm) = map_option (\<lambda>p. the (sm_heap sm0 p)) ?old"
    unfolding st(7) [symmetric] by (simp add: entries_def find_map st(3) ne(2))
  have c: "(32 < pmk_len) = False" using assms(4) by simp
  have add: "pmksa_cache_add env pmk pmk_len aa spa ctx akmp sm = do {
      reuse \<leftarrow> (case ?old of None \<Rightarrow> Some False
        | Some pos \<Rightarrow> do { p \<leftarrow> sm_heap sm0 pos; same_key p e pmk pmk_len });
      if reuse then Some (?old, sm0\<lparr>sm_heap := (sm_heap sm0)(new := None)\<rparr>)
      else do {
        sm \<leftarrow> (case ?old of None \<Rightarrow> Some sm0 | Some pos \<Rightarrow> replace_entry env pos ctx sm0);
        add_tail env new e sm } }"
    unfolding pmksa_cache_add_def Let_def add_tail_def
    by (simp only: c if_False assms(6) option.case e bind.simps sm0_def [symmetric] st(3) find_aa_total [OF st(8)])
  have "\<exists>p sm'. pmksa_cache_add env pmk pmk_len aa spa ctx akmp sm = Some (Some p, sm') \<and> add_result sm new e p sm'"
  proof (cases ?old)
    case None
    then show ?thesis using add_fresh [OF assms(1) ne(1) assms(7) sm0_def, of env] add fe by auto
  next
    case (Some pos)
    have pos: "pos \<in> set (sm_pmksa sm)" "pe_aa (the (sm_heap sm0 pos)) = aa" using find_SomeD [OF Some] by auto
    obtain x where x0: "sm_heap sm0 pos = Some x" "entry_ok x"
      by (rule cache_inv_heap [OF st(1), of pos]) (use pos(1) st(3) in auto)
    have x: "sm_heap sm0 pos = Some x" "entry_ok x" "pe_aa x = pe_aa e" "sm_heap sm pos = Some x"
      using x0 pos st(6) [OF pos(1)] ne(2) by auto
    have fx: "List.find (\<lambda>x. pe_aa x = pe_aa e) (entries sm) = Some x" using fe Some x(1) by simp
    have sk: "same_key x e pmk pmk_len = Some (ref_reuse e x)"
      using x(2) ne(4,5) assms(4,5) by (auto simp: same_key_def rd_bytes_def ref_reuse_def entry_ok_def)
    show ?thesis
    proof (cases "ref_reuse e x")
      case True
      have h0: "(sm_heap sm0)(new := None) = sm_heap sm" using assms(7) by (auto simp: sm0_def fun_eq_iff domIff)
      have "sm0\<lparr>sm_heap := (sm_heap sm0)(new := None)\<rparr> = sm" unfolding h0 by (simp add: sm0_def)
      moreover have "add_result sm new e pos sm" using assms(1) fx True pos(1) x(3,4) by (simp add: add_result_def ref_add_def)
      ultimately show ?thesis using add Some x(1) sk True by simp
    next
      case False
      then show ?thesis
        using add_replace [OF assms(1) ne(1) assms(7) sm0_def pos(1) x(4,3) False fx, of env] add Some x(1) sk ne(3) by auto
    qed
  qed
  then show ?thesis using e ne(1,2) by blast
qed

definition entry_fresh :: "rsn_env \<Rightarrow> wpa_sm \<Rightarrow> bool" where
  "entry_fresh env sm \<longleftrightarrow> (\<forall>new. ev_entry env = Some new \<longrightarrow> new \<notin> dom (sm_heap sm))"

lemma add_total:
  assumes "pmksa_ok sm" "hashes_ok (ev_hashes env)" "length aa = 6" "pmk_len \<le> length pmk" "entry_fresh env sm"
  shows "succeeds (pmksa_cache_add env pmk pmk_len aa spa ctx akmp sm) (\<lambda>(r, sm'). pmksa_ok sm' \<and> pmksa_step sm sm' \<and>
    (\<forall>p. r = Some p \<longrightarrow> p \<in> set (sm_pmksa sm') \<and> (\<exists>x. sm_heap sm' p = Some x \<and> pe_aa x = aa)))"
proof (cases "32 < pmk_len \<or> ev_entry env = None")
  case True
  then show ?thesis using assms(1) by (auto simp: pmksa_cache_add_def succeeds_simps split: option.split)
next
  case False
  then obtain new where "ev_entry env = Some new" "pmk_len \<le> 32" "new \<notin> dom (sm_heap sm)"
    using assms(5) by (auto simp: entry_fresh_def)
  from add_spec [OF assms(1-3) this(2) assms(4) this(1,3), of spa ctx akmp] show ?thesis
    by (auto simp: succeeds_def add_result_def)
qed

section \<open>Opportunistic key caching\<close>

text \<open>
  Cloning an entry reads it again after the addition. It is safe exactly when the addition does not drop it;
  otherwise the read is a use after free.
\<close>

lemma clone_spec:
  assumes "pmksa_ok sm" "hashes_ok (ev_hashes env)" "length aa = 6" "ev_entry env = Some new" "new \<notin> dom (sm_heap sm)"
    "old \<in> set (sm_pmksa sm)" "sm_heap sm old = Some d"
  shows "\<exists>e sm1 p. new_entry env (pe_pmk d) (pe_pmk_len d) aa (sm_own_addr sm) (pe_network_ctx d) (pe_akmp d) sm = Some e \<and>
    add_result sm new e p sm1 \<and>
    pmksa_cache_clone_entry env old aa sm =
      (if old \<in> set (sm_pmksa sm1)
       then Some (Some p, sm1\<lparr>sm_heap := (sm_heap sm1)(p \<mapsto> (the (sm_heap sm1 p))
              \<lparr>pe_expiration := pe_expiration d, pe_opportunistic := True\<rparr>)\<rparr>)
       else None)"
proof -
  have d: "pe_pmk_len d \<le> 32" "pe_pmk_len d \<le> length (pe_pmk d)"
    using assms(1,7) by (auto simp: pmksa_ok_def cache_inv_def entry_ok_def)
  obtain e p sm1 where a: "new_entry env (pe_pmk d) (pe_pmk_len d) aa (sm_own_addr sm) (pe_network_ctx d) (pe_akmp d) sm = Some e"
    "pmksa_cache_add env (pe_pmk d) (pe_pmk_len d) aa (sm_own_addr sm) (pe_network_ctx d) (pe_akmp d) sm = Some (Some p, sm1)"
    "add_result sm new e p sm1"
    using add_spec [OF assms(1-3) d assms(4,5)] by blast
  have dm: "dom (sm_heap sm1) = set (sm_pmksa sm1)"
    using a(3) by (auto simp: add_result_def pmksa_ok_def cache_inv_def)
  have o: "sm_heap sm1 old = (if old \<in> set (sm_pmksa sm1) then Some d else None)"
  proof (cases "old \<in> set (sm_pmksa sm1)")
    case True
    then obtain y where "sm_heap sm1 old = Some y" using dm by blast
    moreover have "old \<noteq> new" using assms(5,7) by auto
    ultimately show ?thesis using a(3) assms(7) True unfolding add_result_def by (metis option.inject)
  next
    case False
    then show ?thesis using dm by auto
  qed
  obtain x where "sm_heap sm1 p = Some x" using a(3) by (auto simp: add_result_def)
  then have "pmksa_cache_clone_entry env old aa sm =
      (if old \<in> set (sm_pmksa sm1)
       then Some (Some p, sm1\<lparr>sm_heap := (sm_heap sm1)(p \<mapsto> (the (sm_heap sm1 p))
              \<lparr>pe_expiration := pe_expiration d, pe_opportunistic := True\<rparr>)\<rparr>)
       else None)"
    using a(2) assms(7) o by (simp add: pmksa_cache_clone_entry_def)
  then show ?thesis using a(1,3) by blast
qed

text \<open>When no entry exists for the authenticator and the cache is not full, nothing is dropped.\<close>

definition room :: "bytes \<Rightarrow> wpa_sm \<Rightarrow> bool" where
  "room aa sm \<longleftrightarrow> length (sm_pmksa sm) < 32 \<and> aa \<notin> pe_aa ` set (entries sm)"

lemma find_None: "\<forall>x\<in>set xs. \<not> P x \<Longrightarrow> List.find P xs = None"
  by (induction xs) auto

lemma clone_step:
  assumes "pmksa_ok sm" "p \<in> set (sm_pmksa sm)" "sm_heap sm p = Some x"
  shows "pmksa_ok (sm\<lparr>sm_heap := (sm_heap sm)(p \<mapsto> x\<lparr>pe_expiration := t, pe_opportunistic := b\<rparr>)\<rparr>)"
    "pmksa_step sm (sm\<lparr>sm_heap := h\<rparr>)"
proof -
  let ?h = "(sm_heap sm)(p \<mapsto> x\<lparr>pe_expiration := t, pe_opportunistic := b\<rparr>)"
  have "(\<lambda>q. pe_aa (the (?h q))) = (\<lambda>q. pe_aa (the (sm_heap sm q)))" using assms(3) by auto
  then show "pmksa_ok (sm\<lparr>sm_heap := ?h\<rparr>)"
    using assms unfolding pmksa_ok_def cache_inv_def by (auto simp: entry_ok_def)
  show "pmksa_step sm (sm\<lparr>sm_heap := h\<rparr>)" by (simp add: pmksa_step_def log_ext_same)
qed

lemma clone_total:
  assumes "pmksa_ok sm" "hashes_ok (ev_hashes env)" "length aa = 6" "entry_fresh env sm" "old \<in> set (sm_pmksa sm)" "room aa sm"
  shows "succeeds (pmksa_cache_clone_entry env old aa sm) (\<lambda>(r, sm'). pmksa_ok sm' \<and> pmksa_step sm sm' \<and>
    (\<forall>p. r = Some p \<longrightarrow> (\<exists>x. sm_heap sm' p = Some x \<and> pe_aa x = aa \<and> pe_opportunistic x \<and> p \<in> set (sm_pmksa sm'))))"
proof -
  obtain d where d: "sm_heap sm old = Some d" "entry_ok d"
    using assms(1,5) cache_inv_heap [of "[]" sm old] by (auto simp: pmksa_ok_def)
  show ?thesis
  proof (cases "ev_entry env")
    case None
    then show ?thesis using assms(1) d by (simp add: pmksa_cache_clone_entry_def pmksa_cache_add_def succeeds_simps)
  next
    case (Some new)
    then have n: "new \<notin> dom (sm_heap sm)" using assms(4) by (simp add: entry_fresh_def)
    from clone_spec [OF assms(1-3) Some n assms(5) d(1)] obtain e sm1 p where
      c: "new_entry env (pe_pmk d) (pe_pmk_len d) aa (sm_own_addr sm) (pe_network_ctx d) (pe_akmp d) sm = Some e"
        "add_result sm new e p sm1"
        "pmksa_cache_clone_entry env old aa sm = (if old \<in> set (sm_pmksa sm1)
          then Some (Some p, sm1\<lparr>sm_heap := (sm_heap sm1)(p \<mapsto> (the (sm_heap sm1 p))
              \<lparr>pe_expiration := pe_expiration d, pe_opportunistic := True\<rparr>)\<rparr>) else None)"
      by blast
    have aa: "pe_aa e = aa" using c(1) by (auto simp: new_entry_def Let_def split: bind_splits)
    have aa': "pe_aa e \<notin> pe_aa ` set (entries sm)" "length (entries sm) < 32"
      using assms(6) aa by (auto simp: room_def entries_def)
    then have "List.find (\<lambda>x. pe_aa x = pe_aa e) (entries sm) = None" by (intro find_None) (metis image_eqI)
    then have "entries sm1 = ref_insert e (entries sm)"
      using c(2) aa'(2) by (simp add: add_result_def ref_add_def ref_evict_def)
    then have "set (entries sm1) = insert e (set (entries sm))" unfolding ref_insert_def by (metis insert_while(1))
    moreover have din: "d \<in> set (entries sm)" using assms(5) d(1) by (force simp: entries_def)
    ultimately have "d \<in> set (entries sm1)" by blast
    then obtain q where q: "q \<in> set (sm_pmksa sm1)" "the (sm_heap sm1 q) = d" by (auto simp: entries_def)
    have ok1: "pmksa_ok sm1" "pmksa_step sm sm1" using c(2) by (simp_all add: add_result_def)
    have h1: "sm_heap sm1 q = Some d" using pmksa_ok_heap [OF ok1(1) q(1)] q(2) by simp
    have "sm_heap sm q = Some d \<or> q = new \<and> d = e" using c(2) h1 by (simp add: add_result_def)
    then have hq: "sm_heap sm q = Some d" using aa'(1) din by (metis image_eqI)
    have dm: "dom (sm_heap sm) = set (sm_pmksa sm)" "inj_on (\<lambda>p. pe_aa (the (sm_heap sm p))) (set (sm_pmksa sm))"
      using assms(1) by (simp_all add: pmksa_ok_def cache_inv_def)
    have "q = old" using inj_onD [OF dm(2), of q old] hq d(1) dm(1) assms(5) by auto
    obtain x where x: "sm_heap sm1 p = Some x" "pe_aa x = aa" "p \<in> set (sm_pmksa sm1)"
      using c(2) aa by (auto simp: add_result_def)
    show ?thesis
      using c(3) q(1) \<open>q = old\<close> x clone_step [OF ok1(1) x(3,1)] pmksa_step_trans [OF ok1(2)] by (simp add: succeeds_simps)
  qed
qed

lemma opportunistic_total:
  assumes "pmksa_ok sm" "hashes_ok (ev_hashes env)" "length aa = 6" "entry_fresh env sm" "room aa sm"
  shows "succeeds (pmksa_cache_get_opportunistic env ctx aa sm) (\<lambda>(r, sm'). pmksa_ok sm' \<and> pmksa_step sm sm' \<and>
    (\<forall>p. r = Some p \<longrightarrow> (\<exists>x. sm_heap sm' p = Some x \<and> pe_aa x = aa \<and> pe_opportunistic x \<and> p \<in> set (sm_pmksa sm'))))"
proof -
  have f: "find_ctx (sm_heap sm) ctx (sm_pmksa sm) =
      Some (List.find (\<lambda>p. pe_network_ctx (the (sm_heap sm p)) = ctx) (sm_pmksa sm))"
    using assms(1) by (intro find_ctx_total) (auto simp: pmksa_ok_def cache_inv_def)
  show ?thesis
    using assms(1) clone_total [OF assms(1-4) _ assms(5)]
    by (auto simp: pmksa_cache_get_opportunistic_def f succeeds_simps dest: find_SomeD split: option.split)
qed

lemma expire_loop_spec:
  assumes "cache_inv [] sm" "sm_pmksa sm = ps"
  shows "succeeds (expire_loop now ps sm) (\<lambda>sm'. cache_inv [] sm' \<and> pmksa_step sm sm' \<and>
    entries sm' = dropWhile (\<lambda>e. pe_expiration e \<le> now) (entries sm))"
  using assms
proof (induction ps arbitrary: sm)
  case Nil
  then show ?case by (simp add: succeeds_simps entries_def)
next
  case (Cons p ps)
  obtain e where e: "sm_heap sm p = Some e" using cache_inv_heap [OF Cons.prems(1), of p] Cons.prems(2) by auto
  show ?case
  proof (cases "pe_expiration e \<le> now")
    case False
    then show ?thesis using Cons.prems e by (simp add: succeeds_simps entries_def)
  next
    case True
    from free_entry_spec [OF Cons.prems(1), of "[]" p ps False] Cons.prems(2) obtain sm1 where
      f: "pmksa_cache_free_entry p False (sm\<lparr>sm_pmksa := ps\<rparr>) = Some sm1" "cache_inv [] sm1" "pmksa_step sm sm1"
        "sm_pmksa sm1 = ps" "sm_heap sm1 = (sm_heap sm)(p := None)"
      by (auto simp: succeeds_def)
    have "p \<notin> set ps" using Cons.prems by (simp add: cache_inv_def)
    then have "entries sm1 = tl (entries sm)" "entries sm = e # tl (entries sm)"
      using f(4,5) Cons.prems(2) e by (auto simp: entries_def)
    then have "dropWhile (\<lambda>e. pe_expiration e \<le> now) (entries sm) = dropWhile (\<lambda>e. pe_expiration e \<le> now) (entries sm1)"
      using True by (metis dropWhile.simps(2))
    then show ?thesis
      using Cons.IH [OF f(2,4)] e True f(1) pmksa_step_trans [OF f(3)] by (auto elim!: succeeds_mono)
  qed
qed

lemma expire_spec:
  assumes "pmksa_ok sm"
  shows "succeeds (pmksa_cache_expire env sm) (\<lambda>sm'. pmksa_ok sm' \<and> pmksa_step sm sm' \<and>
    entries sm' = dropWhile (\<lambda>e. pe_expiration e \<le> t_sec (ev_now env)) (entries sm))"
proof -
  from expire_loop_spec [OF assms [unfolded pmksa_ok_def] refl, of "t_sec (ev_now env)"] obtain sm1 where
    f: "expire_loop (t_sec (ev_now env)) (sm_pmksa sm) sm = Some sm1" "cache_inv [] sm1" "pmksa_step sm sm1"
      "entries sm1 = dropWhile (\<lambda>e. pe_expiration e \<le> t_sec (ev_now env)) (entries sm)"
    by (auto simp: succeeds_def)
  obtain el where "pmksa_cache_set_expiration env sm1 = Some (sm1\<lparr>sm_eloop := el\<rparr>)"
    using set_expiration_spec [of sm1 env] f(2) by (auto simp: cache_inv_def)
  moreover have "entries (sm1\<lparr>sm_eloop := el\<rparr>) = entries sm1" by (simp add: entries_def)
  ultimately show ?thesis
    using f pmksa_step_trans [OF f(3) pmksa_step_eloop [of sm1 el]]
    by (simp add: pmksa_cache_expire_def succeeds_simps pmksa_ok_def)
qed

lemma set_current_total:
  assumes "pmksa_ok sm" "hashes_ok (ev_hashes env)" "entry_fresh env sm"
    "\<And>b. bssid = Some b \<Longrightarrow> length b = 6 \<and> (try_opp \<longrightarrow> room b sm)"
  shows "succeeds (pmksa_cache_set_current env pmkid bssid ctx try_opp sm) (\<lambda>(r, sm'). pmksa_ok sm' \<and>
    sm_frame sm' = sm_frame sm \<and> (r = 0 \<longleftrightarrow> sm_cur_pmksa sm' \<noteq> None))"
proof -
  define sm0 where "sm0 = sm\<lparr>sm_cur_pmksa := None\<rparr>"
  have 0: "pmksa_ok sm0" "entry_fresh env sm0" "room b sm0 = room b sm" "sm_frame sm0 = sm_frame sm" for b
    using assms(1,3) by (auto simp: sm0_def pmksa_ok_def cache_inv_def entry_fresh_def room_def entries_def)
  have g: "\<exists>r. pmksa_cache_get a k sm0 = Some r \<and> (\<forall>p. r = Some p \<longrightarrow> p \<in> set (sm_pmksa sm0))" for a k
    using pmksa_cache_get_spec [of "[]" sm0 a k] 0(1) by (auto simp: pmksa_ok_def dest: find_SomeD)
  define c1 where "c1 = (if pmkid \<noteq> None then pmksa_cache_get None pmkid sm0 else Some None)"
  obtain r1 where r1: "c1 = Some r1" "\<forall>p. r1 = Some p \<longrightarrow> p \<in> set (sm_pmksa sm0)" 
    using that [of None] that g [of None pmkid] by (cases "pmkid = None") (auto simp: c1_def)
  define c2 where "c2 = (if r1 = None \<and> bssid \<noteq> None then pmksa_cache_get bssid None sm0 else Some r1)"
  obtain r2 where r2: "c2 = Some r2" "\<forall>p. r2 = Some p \<longrightarrow> p \<in> set (sm_pmksa sm0)" 
    using that [of r1] that g [of bssid None] r1(2) by (cases "r1 = None \<and> bssid \<noteq> None") (auto simp: c2_def)
  define c3 where "c3 = (case bssid of
      Some b \<Rightarrow> if r2 = None \<and> try_opp then pmksa_cache_get_opportunistic env ctx b sm0 else Some (r2, sm0)
    | None \<Rightarrow> Some (r2, sm0))"
  obtain r3 sm3 where r3: "c3 = Some (r3, sm3)" "pmksa_ok sm3" "\<forall>p. r3 = Some p \<longrightarrow> p \<in> set (sm_pmksa sm3)"
    "sm_frame sm3 = sm_frame sm"
  proof (cases "\<exists>b. bssid = Some b \<and> r2 = None \<and> try_opp")
    case True
    then obtain b where "bssid = Some b" "r2 = None" "try_opp" by blast
    then show thesis
      using opportunistic_total [OF 0(1) assms(2) _ 0(2), of b ctx] assms(4) 0(3,4) that
      by (auto simp: c3_def succeeds_def pmksa_step_def)
  next
    case False
    then show thesis using that [of r2 sm0] 0(1,4) r2(2) by (auto simp: c3_def split: option.split)
  qed
  have "pmksa_cache_set_current env pmkid bssid ctx try_opp sm =
      Some (if r3 = None then -1 else 0, sm3\<lparr>sm_cur_pmksa := r3\<rparr>)"
    unfolding pmksa_cache_set_current_def Let_def sm0_def [symmetric]
    by (simp only: c1_def [symmetric] r1(1) bind.simps c2_def [symmetric] r2(1) c3_def [symmetric] r3(1) prod.case)
  then show ?thesis using r3(2-4) by (auto simp: succeeds_simps pmksa_ok_def cache_inv_def)
qed

section \<open>Properties\<close>

lemma find_entry_unique: "p \<in> set ps \<Longrightarrow> P p \<Longrightarrow> \<forall>q\<in>set ps. P q \<longrightarrow> q = p \<Longrightarrow> List.find P ps = Some p"
  by (metis find_NoneD find_SomeD option.exhaust)

lemma set_tl: "set (tl xs) \<subseteq> set xs"
  by (cases xs) auto

lemma get_aa:
  assumes "pmksa_ok sm" "p \<in> set (sm_pmksa sm)" "sm_heap sm p = Some x"
  shows "pmksa_cache_get (Some (pe_aa x)) None sm = Some (Some p)"
    "pmksa_cache_get (Some (pe_aa x)) (Some (pe_pmkid x)) sm = Some (Some p)"
proof -
  have inv: "cache_inv [] sm" "inj_on (\<lambda>p. pe_aa (the (sm_heap sm p))) (set (sm_pmksa sm))"
    using assms(1) by (simp_all add: pmksa_ok_def cache_inv_def)
  have u: "\<forall>q\<in>set (sm_pmksa sm). matches (Some (pe_aa x)) k (the (sm_heap sm q)) \<longrightarrow> q = p" for k
    using inj_onD [OF inv(2), of _ p] assms(2,3) by (simp add: matches_def)
  show "pmksa_cache_get (Some (pe_aa x)) None sm = Some (Some p)"
    "pmksa_cache_get (Some (pe_aa x)) (Some (pe_pmkid x)) sm = Some (Some p)"
    unfolding pmksa_cache_get_spec [OF inv(1)]
    using find_entry_unique [OF assms(2) _ u [of None]] find_entry_unique [OF assms(2) _ u [of "Some (pe_pmkid x)"]] assms(3)
    by (simp_all add: matches_def)
qed

text \<open>
  C8. Adding to the PMKSA cache refines the reference list: for every consistent cache and every key of at most 32
  octets the addition does not fault, the entries afterwards are exactly \<open>ref_add\<close> of the new entry, the cache is
  consistent and has at most 32 entries, and the lookup by the authenticator address finds the returned entry, which
  holds the given key and its PMKID.
\<close>

theorem pmksa_cache_add_refines:
  assumes "pmksa_ok sm" "hashes_ok (ev_hashes env)" "length aa = 6" "pmk_len \<le> 32" "pmk_len \<le> length pmk"
    "ev_entry env = Some new" "new \<notin> dom (sm_heap sm)"
  shows "\<exists>e p x sm'. new_entry env pmk pmk_len aa spa ctx akmp sm = Some e \<and>
    pmksa_cache_add env pmk pmk_len aa spa ctx akmp sm = Some (Some p, sm') \<and>
    entries sm' = ref_add e (entries sm) \<and> pmksa_ok sm' \<and> length (entries sm') \<le> 32 \<and>
    pmksa_cache_get (Some aa) None sm' = Some (Some p) \<and> sm_heap sm' p = Some x \<and>
    take pmk_len (pe_pmk x) = take pmk_len pmk \<and> pe_pmk_len x = pmk_len \<and>
    rsn_pmkid (ev_hashes env) (take pmk_len pmk) aa spa = Some (pe_pmkid x)"
proof -
  from add_spec [OF assms, of spa ctx akmp] obtain e p sm' where
    a: "new_entry env pmk pmk_len aa spa ctx akmp sm = Some e" "entry_ok e" "pe_aa e = aa"
      "pmksa_cache_add env pmk pmk_len aa spa ctx akmp sm = Some (Some p, sm')" "add_result sm new e p sm'" by blast
  then obtain x where x: "pmksa_ok sm'" "p \<in> set (sm_pmksa sm')" "sm_heap sm' p = Some x" "pe_aa x = aa" "ref_reuse e x"
    by (auto simp: add_result_def)
  have h: "hash_ok (sha1_vector (ev_hashes env)) 20" using assms(2) by (simp add: hashes_ok_def)
  note ne = new_entry_spec [OF h assms(3,4) a(1)]
  have "pmksa_cache_get (Some aa) None sm' = Some (Some p)" using get_aa(1) [OF x(1-3)] x(4) by simp
  moreover have "length (entries sm') \<le> 32" using x(1) by (simp add: pmksa_ok_def cache_inv_def entries_def)
  ultimately show ?thesis using a(1,4,5) x ne(4,5,9) by (auto simp: ref_reuse_def add_result_def)
qed

text \<open>
  C25. Operations on a consistent cache. Adding, flushing the entries of a network or all of them, expiring, starting a
  reauthentication, and selecting or clearing the current entry do not fault and leave the cache consistent; the return
  code of the selection says whether there is a current entry. Selecting opportunistically (\<open>try_opp\<close>) is excluded when
  the cache is full or already holds an entry of the authenticator (\<open>room\<close>): there the clone that is added replaces or
  evicts an entry that is still used, and the lookup does fault (the next property).
\<close>

theorem pmksa_cache_ops_safe:
  assumes "pmksa_ok sm" "hashes_ok (ev_hashes env)" "entry_fresh env sm" "length aa = 6" "pmk_len \<le> length pmk"
    "try_opp \<longrightarrow> room aa sm"
  shows "succeeds (pmksa_cache_add env pmk pmk_len aa spa ctx akmp sm) (\<lambda>(r, sm'). pmksa_ok sm') \<and>
    succeeds (pmksa_cache_flush env ctx sm) pmksa_ok \<and>
    succeeds (pmksa_cache_expire env sm) pmksa_ok \<and>
    pmksa_ok (pmksa_cache_reauth sm) \<and> pmksa_ok (pmksa_cache_clear_current sm) \<and>
    succeeds (pmksa_cache_set_current env pmkid (Some aa) ctx try_opp sm) (\<lambda>(r, sm'). pmksa_ok sm' \<and>
      (r = 0 \<longleftrightarrow> pmksa_cache_get_current sm' \<noteq> None))"
proof (intro conjI)
  show "succeeds (pmksa_cache_add env pmk pmk_len aa spa ctx akmp sm) (\<lambda>(r, sm'). pmksa_ok sm')"
    using add_total [OF assms(1,2,4,5,3)] by (rule succeeds_mono) auto
  show "succeeds (pmksa_cache_flush env ctx sm) pmksa_ok"
    using flush_spec [of "[]" sm env ctx] assms(1) by (auto simp: pmksa_ok_def elim!: succeeds_mono)
  show "succeeds (pmksa_cache_expire env sm) pmksa_ok" using expire_spec [OF assms(1)] by (rule succeeds_mono) simp
  show "pmksa_ok (pmksa_cache_reauth sm)" "pmksa_ok (pmksa_cache_clear_current sm)"
    using assms(1) by (simp_all add: pmksa_cache_reauth_def pmksa_cache_clear_current_def pmksa_ok_def cache_inv_def)
  show "succeeds (pmksa_cache_set_current env pmkid (Some aa) ctx try_opp sm) (\<lambda>(r, sm'). pmksa_ok sm' \<and>
      (r = 0 \<longleftrightarrow> pmksa_cache_get_current sm' \<noteq> None))"
    using set_current_total [OF assms(1-3), of "Some aa" try_opp pmkid ctx] assms(4,6)
    by (auto simp: pmksa_cache_get_current_def elim!: succeeds_mono)
qed

lemma entries_inj:
  assumes "pmksa_ok sm" "x \<in> set (entries sm)" "y \<in> set (entries sm)" "pe_aa x = pe_aa y"
  shows "x = y"
proof -
  obtain p q where "p \<in> set (sm_pmksa sm)" "q \<in> set (sm_pmksa sm)" "x = the (sm_heap sm p)" "y = the (sm_heap sm q)"
    using assms(2,3) by (auto simp: entries_def)
  moreover have "inj_on (\<lambda>p. pe_aa (the (sm_heap sm p))) (set (sm_pmksa sm))"
    using assms(1) by (simp add: pmksa_ok_def cache_inv_def)
  ultimately show ?thesis using assms(4) by (metis inj_onD)
qed

lemma opportunistic_fault:
  assumes "pmksa_ok sm" "hashes_ok (ev_hashes env)" "length aa = 6" "ev_entry env = Some new" "new \<notin> dom (sm_heap sm)"
    "ctx \<noteq> NULL" "List.find (\<lambda>d. pe_network_ctx d = ctx) (entries sm) = Some d" "y \<in> set (entries sm)" "pe_aa y = aa"
    "pe_pmk_len y \<noteq> pe_pmk_len d \<or> take (pe_pmk_len d) (pe_pmk y) \<noteq> take (pe_pmk_len d) (pe_pmk d)"
  shows "pmksa_cache_get_opportunistic env ctx aa sm = None"
proof -
  have dm: "set (sm_pmksa sm) \<subseteq> dom (sm_heap sm)" using assms(1) by (auto simp: pmksa_ok_def cache_inv_def)
  from assms(7) obtain old where o: "List.find (\<lambda>p. pe_network_ctx (the (sm_heap sm p)) = ctx) (sm_pmksa sm) = Some old"
    "the (sm_heap sm old) = d" by (auto simp: entries_def find_map)
  then have old: "old \<in> set (sm_pmksa sm)" "pe_network_ctx d = ctx" by (auto dest: find_SomeD)
  have hd: "sm_heap sm old = Some d" using pmksa_ok_heap [OF assms(1) old(1)] o(2) by simp
  from clone_spec [OF assms(1-5) old(1) hd] obtain e sm1 p where
    c: "new_entry env (pe_pmk d) (pe_pmk_len d) aa (sm_own_addr sm) (pe_network_ctx d) (pe_akmp d) sm = Some e"
      "add_result sm new e p sm1"
      "pmksa_cache_clone_entry env old aa sm = (if old \<in> set (sm_pmksa sm1)
        then Some (Some p, sm1\<lparr>sm_heap := (sm_heap sm1)(p \<mapsto> (the (sm_heap sm1 p))
            \<lparr>pe_expiration := pe_expiration d, pe_opportunistic := True\<rparr>)\<rparr>) else None)"
    by blast
  have ok: "entry_ok d" using assms(1) hd by (auto simp: pmksa_ok_def cache_inv_def)
  have h: "hash_ok (sha1_vector (ev_hashes env)) 20" using assms(2) by (simp add: hashes_ok_def)
  have dl: "pe_pmk_len d \<le> 32" using ok by (simp add: entry_ok_def)
  note ne = new_entry_spec [OF h assms(3) dl c(1)]
  have "\<exists>x. List.find (\<lambda>x. pe_aa x = pe_aa e) (entries sm) = Some x \<and> x = y"
    using assms(1,8,9) ne(2) find_NoneD [of "\<lambda>x. pe_aa x = pe_aa e" "entries sm"]
      find_SomeD [of "\<lambda>x. pe_aa x = pe_aa e" "entries sm"] entries_inj [OF assms(1)] by (metis option.exhaust)
  moreover have "\<not> ref_reuse e y" using assms(10) ne(4,5) by (auto simp: ref_reuse_def)
  ultimately have ent: "entries sm1 = ref_insert e (ref_evict (filter (\<lambda>z. pe_aa z \<noteq> pe_aa e \<and> kept ctx z) (entries sm)))"
    using c(2) ne(3) old(2) by (auto simp: add_result_def ref_add_def)
  have "old \<notin> set (sm_pmksa sm1)"
  proof
    assume "old \<in> set (sm_pmksa sm1)"
    then have "sm_heap sm1 old \<noteq> None" using c(2) pmksa_ok_heap [of sm1 old] by (auto simp: add_result_def)
    then have "sm_heap sm1 old = Some d" using c(2) hd assms(5) unfolding add_result_def by fastforce
    then have "d \<in> set (entries sm1)" using \<open>old \<in> set (sm_pmksa sm1)\<close> by (force simp: entries_def)
    then have "d = e \<or> kept ctx d"
      unfolding ent ref_insert_def insert_while(1) ref_evict_def
      by (auto dest: subsetD [OF set_tl] split: if_splits)
    then have "d = e" using old(2) by (simp add: kept_def)
    then have "d = y" using entries_inj [OF assms(1)] ne(2) assms(8,9) old(1) hd by (force simp: entries_def)
    then show False using assms(10) by simp
  qed
  then show ?thesis using c(3) o(1) assms(6) by (simp add: pmksa_cache_get_opportunistic_def find_ctx_total [OF dm])
qed

text \<open>
  C26. Opportunistic key caching can read a freed entry. If the cache already has an entry of the access point with a
  key that differs from the one of the first entry of the network, cloning the latter replaces the former, which
  flushes all entries of the network, the cloned one included; its expiration is read afterwards.
\<close>

theorem pmksa_cache_get_opportunistic_use_after_free:
  assumes "pmksa_ok sm" "hashes_ok (ev_hashes env)" "length aa = 6" "ev_entry env = Some new" "new \<notin> dom (sm_heap sm)"
    "ctx \<noteq> NULL" "List.find (\<lambda>d. pe_network_ctx d = ctx) (entries sm) = Some d" "y \<in> set (entries sm)" "pe_aa y = aa"
    "pe_pmk_len y \<noteq> pe_pmk_len d \<or> take (pe_pmk_len d) (pe_pmk y) \<noteq> take (pe_pmk_len d) (pe_pmk d)"
  shows "pmksa_cache_get_opportunistic env ctx aa sm = None"
  using assms by (rule opportunistic_fault)

section \<open>Witnesses\<close>

text \<open>An environment with constant hashes and a cache with two entries of one network.\<close>

definition demo_env :: rsn_env where
  "demo_env = \<lparr>ev_now = \<lparr>t_sec = 1000, t_usec = 0\<rparr>, ev_timer = True, ev_entry = Some 9, ev_tmp = True, ev_eapol = True,
     ev_buf = True, ev_ctx = True, ev_l2 = True, ev_l2_br = True, ev_eapol_sm = True, ev_bssid = None,
     ev_network_ctx = 7, ev_state = WPA_ASSOCIATED, ev_set_key = (\<lambda>a b c. True), ev_get_key = (\<lambda>n. None),
     ev_random = Some (replicate 32 5), ev_beacon_ie = (None, None), ev_eapol_version = 1,
     ev_hashes = \<lparr>sha1_vector = (\<lambda>xs. Some (replicate 20 1)), md5_vector = (\<lambda>xs. Some (replicate 16 1))\<rparr>,
     ev_rc4_skip = (\<lambda>k n d. Some d), ev_aes_decrypt = (\<lambda>k b. b), ev_aes_init = True\<rparr>"

definition demo_entry :: "u8 \<Rightarrow> rsn_pmksa_cache_entry" where
  "demo_entry n = \<lparr>pe_pmkid = replicate 16 n, pe_pmk = replicate 32 n, pe_pmk_len = 32, pe_expiration = 2000,
     pe_akmp = 1, pe_aa = replicate 6 n, pe_reauth_time = 1500, pe_network_ctx = 7, pe_opportunistic = False\<rparr>"

definition demo_cache :: wpa_sm where
  "demo_cache = sm_zero\<lparr>sm_pmksa := [1, 2], sm_pmksa_count := 2, sm_heap := [1 \<mapsto> demo_entry 1, 2 \<mapsto> demo_entry 2]\<rparr>"

lemma demo_env_hashes: "hashes_ok (ev_hashes demo_env)"
  by (simp add: demo_env_def hashes_ok_def hash_ok_def)

lemma demo_cache_ok: "pmksa_ok demo_cache" "dom (sm_heap demo_cache) = {1, 2}" "entries demo_cache = [demo_entry 1, demo_entry 2]"
proof -
  show d: "dom (sm_heap demo_cache) = {1, 2}" by (auto simp: demo_cache_def)
  show "entries demo_cache = [demo_entry 1, demo_entry 2]" by (simp add: demo_cache_def entries_def)
  have "\<forall>p e. sm_heap demo_cache p = Some e \<longrightarrow> entry_ok e"
    by (simp add: demo_cache_def entry_ok_def demo_entry_def)
  then show "pmksa_ok demo_cache"
    unfolding pmksa_ok_def cache_inv_def using d by (simp add: demo_cache_def sm_zero_def demo_entry_def)
qed

lemma pmksa_cache_add_refines_witness:
  "\<exists>e p x sm'. pmksa_cache_add demo_env (replicate 32 3) 32 (replicate 6 3) (replicate 6 0) 7 1 demo_cache = Some (Some p, sm') \<and>
     entries sm' = ref_add e (entries demo_cache) \<and> pmksa_cache_get (Some (replicate 6 3)) None sm' = Some (Some p) \<and>
     sm_heap sm' p = Some x \<and> pe_pmk_len x = 32"
  using pmksa_cache_add_refines [OF demo_cache_ok(1) demo_env_hashes, of "replicate 6 3" 32 "replicate 32 3" 9 "replicate 6 0" 7 1]
  by (auto simp: demo_cache_ok(2) demo_env_def)

lemma pmksa_cache_ops_safe_witness:
  "succeeds (pmksa_cache_flush demo_env 7 demo_cache) pmksa_ok \<and> succeeds (pmksa_cache_expire demo_env demo_cache) pmksa_ok"
  using pmksa_cache_ops_safe [OF demo_cache_ok(1) demo_env_hashes, of "replicate 6 3" 0 "[]" True "[]" 7 1 None]
  by (simp add: entry_fresh_def demo_cache_ok(2,3) room_def) (simp add: demo_env_def demo_cache_def demo_entry_def)

lemma pmksa_cache_get_opportunistic_use_after_free_witness:
  "pmksa_cache_get_opportunistic demo_env 7 (replicate 6 2) demo_cache = None"
  using pmksa_cache_get_opportunistic_use_after_free [OF demo_cache_ok(1) demo_env_hashes, of "replicate 6 2" 9 7 "demo_entry 1" "demo_entry 2"]
  by (simp add: demo_cache_ok(2,3)) (simp add: demo_env_def demo_entry_def)

end
