(* ===== verification/Wpa_Sm.thy ===== *)
theory Wpa_Sm
  imports Pmksa_Cache
begin

text \<open>
  The WPA state machine of src/src/rsn_supp/wpa.c: the construction of EAPOL-Key frames, the 4-Way Handshake, the
  Group Key Handshake, the verification and decryption of received frames and their dispatch. The parts for
  IEEE 802.11r, IEEE 802.11w and TDLS are not modelled (the first two are not built); the three entry points of
  peerkey.c are arguments.

  A received frame is the copy \<open>tmp\<close> that \<open>wpa_sm_rx_eapol\<close> makes: the four octets of \<open>struct ieee802_1x_hdr\<close>, then
  \<open>struct wpa_eapol_key\<close> (95 octets), then the key data at offset 99.
\<close>

section \<open>Frame layout\<close>

abbreviation (input) AT_TYPE :: nat where "AT_TYPE \<equiv> 4"
abbreviation (input) AT_KEY_INFO :: nat where "AT_KEY_INFO \<equiv> 5"
abbreviation (input) AT_KEY_LENGTH :: nat where "AT_KEY_LENGTH \<equiv> 7"
abbreviation (input) AT_REPLAY :: nat where "AT_REPLAY \<equiv> 9"
abbreviation (input) AT_NONCE :: nat where "AT_NONCE \<equiv> 17"
abbreviation (input) AT_IV :: nat where "AT_IV \<equiv> 49"
abbreviation (input) AT_RSC :: nat where "AT_RSC \<equiv> 65"
abbreviation (input) AT_MIC :: nat where "AT_MIC \<equiv> 81"
abbreviation (input) AT_DATA_LENGTH :: nat where "AT_DATA_LENGTH \<equiv> 97"
abbreviation (input) AT_DATA :: nat where "AT_DATA \<equiv> 99"
abbreviation (input) SIZEOF_EAPOL_KEY :: nat where "SIZEOF_EAPOL_KEY \<equiv> 95"

abbreviation (input) WPA_KEY_INFO_KEY_TYPE :: u16 where "WPA_KEY_INFO_KEY_TYPE \<equiv> 0x0008"
abbreviation (input) WPA_KEY_INFO_KEY_INDEX_MASK :: u16 where "WPA_KEY_INFO_KEY_INDEX_MASK \<equiv> 0x0030"
abbreviation (input) WPA_KEY_INFO_INSTALL :: u16 where "WPA_KEY_INFO_INSTALL \<equiv> 0x0040"
abbreviation (input) WPA_KEY_INFO_TXRX :: u16 where "WPA_KEY_INFO_TXRX \<equiv> 0x0040"
abbreviation (input) WPA_KEY_INFO_ACK :: u16 where "WPA_KEY_INFO_ACK \<equiv> 0x0080"
abbreviation (input) WPA_KEY_INFO_MIC :: u16 where "WPA_KEY_INFO_MIC \<equiv> 0x0100"
abbreviation (input) WPA_KEY_INFO_SECURE :: u16 where "WPA_KEY_INFO_SECURE \<equiv> 0x0200"
abbreviation (input) WPA_KEY_INFO_ERROR :: u16 where "WPA_KEY_INFO_ERROR \<equiv> 0x0400"
abbreviation (input) WPA_KEY_INFO_REQUEST :: u16 where "WPA_KEY_INFO_REQUEST \<equiv> 0x0800"
abbreviation (input) WPA_KEY_INFO_ENCR_KEY_DATA :: u16 where "WPA_KEY_INFO_ENCR_KEY_DATA \<equiv> 0x1000"
abbreviation (input) WPA_KEY_INFO_SMK_MESSAGE :: u16 where "WPA_KEY_INFO_SMK_MESSAGE \<equiv> 0x2000"
abbreviation (input) WPA_KEY_INFO_TYPE_HMAC_MD5_RC4 :: u16 where "WPA_KEY_INFO_TYPE_HMAC_MD5_RC4 \<equiv> 1"
abbreviation (input) WPA_KEY_INFO_TYPE_HMAC_SHA1_AES :: u16 where "WPA_KEY_INFO_TYPE_HMAC_SHA1_AES \<equiv> 2"
abbreviation (input) WPA_KEY_INFO_TYPE_AES_128_CMAC :: u16 where "WPA_KEY_INFO_TYPE_AES_128_CMAC \<equiv> 3"
abbreviation (input) ETH_P_EAPOL :: u16 where "ETH_P_EAPOL \<equiv> 0x888e"
abbreviation (input) WLAN_REASON_UNSPECIFIED :: int where "WLAN_REASON_UNSPECIFIED \<equiv> 1"
abbreviation (input) WLAN_REASON_IE_IN_4WAY_DIFFERS :: int where "WLAN_REASON_IE_IN_4WAY_DIFFERS \<equiv> 17"

text \<open>Parts of a PTK.\<close>

definition kck :: "bytes \<Rightarrow> bytes" where "kck ptk = take 16 ptk"
definition kek :: "bytes \<Rightarrow> bytes" where "kek ptk = take 16 (drop 16 ptk)"

section \<open>Sending EAPOL-Key frames\<close>

text \<open>
  \<open>wpa_alloc_eapol\<close> of src/wpa_supplicant/wpas_glue.c, behind the callback \<open>alloc_eapol\<close>: the length is passed as a
  16-bit number. \<open>None\<close> is a failed allocation.
\<close>

definition wpa_alloc_eapol :: "rsn_env \<Rightarrow> u8 \<Rightarrow> nat \<Rightarrow> bytes option" where
  "wpa_alloc_eapol env ty len =
     (if ev_eapol env
      then let n = (word_of_nat len :: u16)
           in Some ([ev_eapol_version env, ty] @ put_be16 n @ replicate (unat n) 0)
      else None)"

text \<open>\<open>mic\<close> says whether the MIC is to be filled in.\<close>

definition wpa_eapol_key_send ::
  "rsn_env \<Rightarrow> bytes \<Rightarrow> u16 \<Rightarrow> bytes \<Rightarrow> u16 \<Rightarrow> bytes \<Rightarrow> bool \<Rightarrow> wpa_sm \<Rightarrow> wpa_sm option" where
  "wpa_eapol_key_send env key ver dest proto msg mic sm =
     (let (dest, sm) =
        (if is_zero_ether_addr dest \<and> is_zero_ether_addr (sm_bssid sm)
         then case ev_bssid env of None \<Rightarrow> (dest, sm) | Some b \<Rightarrow> (b, sm\<lparr>sm_bssid := b\<rparr>)
         else (dest, sm))
      in if mic then
           (case wpa_eapol_key_mic (ev_hashes env) key ver msg of
              None \<Rightarrow> Some sm
            | Some m \<Rightarrow> do {
                msg \<leftarrow> wr_bytes msg AT_MIC m;
                Some (emit Notify_tx_eapol_key (emit (Ether_send dest proto msg) sm)) })
         else Some (emit Notify_tx_eapol_key (emit (Ether_send dest proto msg) sm)))"

definition reply_type :: "wpa_sm \<Rightarrow> u8" where
  "reply_type sm = (if sm_proto sm = WPA_PROTO_RSN then 2 else 254)"

text \<open>
  A reply: the type, the key information, the key length (zero for RSN, otherwise copied from the frame answered),
  the replay counter of that frame, the length of the key data and the key data.
\<close>

definition fill_reply :: "bytes \<Rightarrow> u16 \<Rightarrow> bytes \<Rightarrow> bytes \<Rightarrow> wpa_sm \<Rightarrow> bytes option" where
  "fill_reply rbuf key_info frame kde sm = do {
     rbuf \<leftarrow> wr_bytes rbuf AT_TYPE [reply_type sm];
     rbuf \<leftarrow> wr_bytes rbuf AT_KEY_INFO (put_be16 key_info);
     kl \<leftarrow> (if sm_proto sm = WPA_PROTO_RSN then Some (put_be16 0) else rd_bytes frame AT_KEY_LENGTH 2);
     rbuf \<leftarrow> wr_bytes rbuf AT_KEY_LENGTH kl;
     rc \<leftarrow> rd_bytes frame AT_REPLAY WPA_REPLAY_COUNTER_LEN;
     rbuf \<leftarrow> wr_bytes rbuf AT_REPLAY rc;
     rbuf \<leftarrow> wr_bytes rbuf AT_DATA_LENGTH (put_be16 (word_of_nat (length kde)));
     wr_bytes rbuf AT_DATA kde }"

definition wpa_sm_key_request :: "rsn_env \<Rightarrow> bool \<Rightarrow> bool \<Rightarrow> wpa_sm \<Rightarrow> wpa_sm option" where
  "wpa_sm_key_request env error pairwise_key sm =
     (let ver = (if wpa_key_mgmt_ft (sm_key_mgmt sm) \<or> wpa_key_mgmt_sha256 (sm_key_mgmt sm)
                 then WPA_KEY_INFO_TYPE_AES_128_CMAC
                 else if sm_pairwise_cipher sm = WPA_CIPHER_CCMP then WPA_KEY_INFO_TYPE_HMAC_SHA1_AES
                 else WPA_KEY_INFO_TYPE_HMAC_MD5_RC4)
      in case ev_bssid env of
           None \<Rightarrow> Some sm
         | Some bssid \<Rightarrow>
             (case wpa_alloc_eapol env 3 SIZEOF_EAPOL_KEY of
                None \<Rightarrow> Some sm
              | Some rbuf \<Rightarrow> do {
                  rbuf \<leftarrow> wr_bytes rbuf AT_TYPE [reply_type sm];
                  let key_info = WPA_KEY_INFO_REQUEST OR ver OR (if sm_ptk_set sm then WPA_KEY_INFO_MIC else 0)
                    OR (if error then WPA_KEY_INFO_ERROR else 0)
                    OR (if pairwise_key then WPA_KEY_INFO_KEY_TYPE else 0);
                  rbuf \<leftarrow> wr_bytes rbuf AT_KEY_INFO (put_be16 key_info);
                  rbuf \<leftarrow> wr_bytes rbuf AT_KEY_LENGTH (put_be16 0);
                  rbuf \<leftarrow> wr_bytes rbuf AT_REPLAY (sm_request_counter sm);
                  c \<leftarrow> inc_byte_array (sm_request_counter sm) WPA_REPLAY_COUNTER_LEN;
                  let sm = sm\<lparr>sm_request_counter := c\<rparr>;
                  rbuf \<leftarrow> wr_bytes rbuf AT_DATA_LENGTH (put_be16 0);
                  wpa_eapol_key_send env (kck (sm_ptk sm)) ver bssid ETH_P_EAPOL rbuf
                    (key_info AND WPA_KEY_INFO_MIC \<noteq> 0) sm }))"

text \<open>\<open>wpa_sm_set_pmk_from_pmksa\<close>: the PMK of the current entry, or zeros.\<close>

definition wpa_sm_set_pmk_from_pmksa :: "wpa_sm \<Rightarrow> wpa_sm option" where
  "wpa_sm_set_pmk_from_pmksa sm = (case sm_cur_pmksa sm of
     None \<Rightarrow> Some (sm\<lparr>sm_pmk_len := PMK_LEN, sm_pmk := replicate PMK_LEN 0\<rparr>)
   | Some c \<Rightarrow> do {
       e \<leftarrow> sm_heap sm c;
       d \<leftarrow> rd_bytes (pe_pmk e) 0 (pe_pmk_len e);
       pmk \<leftarrow> wr_bytes (sm_pmk sm) 0 d;
       Some (sm\<lparr>sm_pmk_len := pe_pmk_len e, sm_pmk := pmk\<rparr>) })"

text \<open>
  Finding the PMK for message 1/4. \<open>pmk_from_eapol\<close> is the branch that asks the EAPOL state machines; its results
  are whether the function returns -1 at once, and the flag \<open>abort_cached\<close>.
\<close>

definition pmk_from_eapol ::
  "rsn_env \<Rightarrow> bytes \<Rightarrow> bytes option \<Rightarrow> bool \<Rightarrow> wpa_sm \<Rightarrow> (bool \<times> bool \<times> wpa_sm) option" where
  "pmk_from_eapol env src_addr pmkid abort_cached sm =
     (case (case ev_get_key env PMK_LEN of Some k \<Rightarrow> Some (PMK_LEN, k)
            | None \<Rightarrow> map_option (Pair 16) (ev_get_key env 16)) of
        Some (pmk_len, k) \<Rightarrow> do {
          pmk \<leftarrow> wr_bytes (sm_pmk sm) 0 k;
          let sm = sm\<lparr>sm_pmk := pmk, sm_pmk_len := pmk_len\<rparr>;
          sm \<leftarrow> (if sm_proto sm = WPA_PROTO_RSN \<and> \<not> wpa_key_mgmt_ft (sm_key_mgmt sm)
                 then map_option snd (pmksa_cache_add env (sm_pmk sm) pmk_len src_addr (sm_own_addr sm)
                                       (sm_network_ctx sm) (sm_key_mgmt sm) sm)
                 else Some sm);
          found \<leftarrow> (if sm_cur_pmksa sm = None \<and> pmkid \<noteq> None then pmksa_cache_get (Some src_addr) pmkid sm
                    else Some None);
          Some (False, abort_cached \<and> found = None, sm) }
      | None \<Rightarrow>
          if sm_cur_pmksa sm \<noteq> None then Some (False, True, sm\<lparr>sm_cur_pmksa := None\<rparr>)
          else Some (\<not> abort_cached, abort_cached, sm))"

definition wpa_supplicant_get_pmk ::
  "rsn_env \<Rightarrow> bytes \<Rightarrow> bytes option \<Rightarrow> wpa_sm \<Rightarrow> (int \<times> wpa_sm) option" where
  "wpa_supplicant_get_pmk env src_addr pmkid sm = do {
     (abort_cached, sm) \<leftarrow> (if pmkid \<noteq> None \<and> sm_cur_pmksa sm = None then do {
         c \<leftarrow> pmksa_cache_get (Some src_addr) pmkid sm;
         Some (c = None, sm\<lparr>sm_cur_pmksa := c\<rparr>) }
       else Some (False, sm));
     matched \<leftarrow> (case (pmkid, sm_cur_pmksa sm) of
         (Some k, Some c) \<Rightarrow> do { e \<leftarrow> sm_heap sm c; Some (k = pe_pmkid e) }
       | _ \<Rightarrow> Some False);
     (failed, abort_cached, sm) \<leftarrow>
       (if matched then do {
          sm \<leftarrow> wpa_sm_set_pmk_from_pmksa sm;
          Some (False, abort_cached, emit Notify_cached sm) }
        else if wpa_key_mgmt_wpa_ieee8021x (sm_key_mgmt sm) \<and> sm_eapol sm
        then pmk_from_eapol env src_addr pmkid abort_cached sm
        else Some (False, abort_cached, sm));
     if failed then Some (-1, sm)
     else if abort_cached \<and> wpa_key_mgmt_wpa_ieee8021x (sm_key_mgmt sm) \<and> \<not> wpa_key_mgmt_ft (sm_key_mgmt sm)
     then (case wpa_alloc_eapol env 1 0 of
             Some buf \<Rightarrow> Some (-2, emit (Ether_send (sm_bssid sm) ETH_P_EAPOL buf) sm)
           | None \<Rightarrow> Some (-1, sm))
     else Some (0, sm) }"

definition wpa_supplicant_send_2_of_4 ::
  "rsn_env \<Rightarrow> bytes \<Rightarrow> bytes \<Rightarrow> u16 \<Rightarrow> bytes \<Rightarrow> bytes option \<Rightarrow> bytes \<Rightarrow> wpa_sm \<Rightarrow> (int \<times> wpa_sm) option" where
  "wpa_supplicant_send_2_of_4 env dst frame ver nonce wpa_ie ptk sm = (case wpa_ie of
     None \<Rightarrow> Some (-1, sm)
   | Some wpa_ie \<Rightarrow>
       (case wpa_alloc_eapol env 3 (SIZEOF_EAPOL_KEY + length wpa_ie) of
          None \<Rightarrow> Some (-1, sm)
        | Some rbuf \<Rightarrow> do {
            rbuf \<leftarrow> fill_reply rbuf (ver OR WPA_KEY_INFO_KEY_TYPE OR WPA_KEY_INFO_MIC) frame wpa_ie sm;
            rbuf \<leftarrow> wr_bytes rbuf AT_NONCE nonce;
            sm \<leftarrow> wpa_eapol_key_send env (kck ptk) ver dst ETH_P_EAPOL rbuf True sm;
            Some (0, sm) }))"

definition wpa_supplicant_send_4_of_4 ::
  "rsn_env \<Rightarrow> bytes \<Rightarrow> bytes \<Rightarrow> u16 \<Rightarrow> u16 \<Rightarrow> bytes \<Rightarrow> bytes \<Rightarrow> wpa_sm \<Rightarrow> (int \<times> wpa_sm) option" where
  "wpa_supplicant_send_4_of_4 env dst frame ver key_info kde ptk sm =
     (case wpa_alloc_eapol env 3 (SIZEOF_EAPOL_KEY + length kde) of
        None \<Rightarrow> Some (-1, sm)
      | Some rbuf \<Rightarrow> do {
          let key_info = (key_info AND WPA_KEY_INFO_SECURE) OR (ver OR WPA_KEY_INFO_KEY_TYPE OR WPA_KEY_INFO_MIC);
          rbuf \<leftarrow> fill_reply rbuf key_info frame kde sm;
          sm \<leftarrow> wpa_eapol_key_send env (kck ptk) ver dst ETH_P_EAPOL rbuf True sm;
          Some (0, sm) })"

definition wpa_supplicant_send_2_of_2 :: "rsn_env \<Rightarrow> bytes \<Rightarrow> u16 \<Rightarrow> u16 \<Rightarrow> wpa_sm \<Rightarrow> (int \<times> wpa_sm) option" where
  "wpa_supplicant_send_2_of_2 env frame ver key_info sm =
     (case wpa_alloc_eapol env 3 SIZEOF_EAPOL_KEY of
        None \<Rightarrow> Some (-1, sm)
      | Some rbuf \<Rightarrow> do {
          let key_info = (key_info AND WPA_KEY_INFO_KEY_INDEX_MASK) OR (ver OR WPA_KEY_INFO_MIC OR WPA_KEY_INFO_SECURE);
          rbuf \<leftarrow> fill_reply rbuf key_info frame [] sm;
          sm \<leftarrow> wpa_eapol_key_send env (kck (sm_ptk sm)) ver (sm_bssid sm) ETH_P_EAPOL rbuf True sm;
          Some (0, sm) })"

section \<open>Message 1 of the 4-Way Handshake\<close>

text \<open>The derived octets are written over the PTK; with CCMP these are the first 48.\<close>

definition wpa_derive_ptk :: "rsn_env \<Rightarrow> bytes \<Rightarrow> bytes \<Rightarrow> wpa_sm \<Rightarrow> bytes option" where
  "wpa_derive_ptk env frame ptk sm = do {
     nonce \<leftarrow> rd_bytes frame AT_NONCE WPA_NONCE_LEN;
     pmk \<leftarrow> rd_bytes (sm_pmk sm) 0 (sm_pmk_len sm);
     let ptk_len = (if sm_pairwise_cipher sm = WPA_CIPHER_CCMP then 48 else 64);
     wr_bytes ptk 0 (snd (wpa_pmk_to_ptk (ev_hashes env) pmk (lit ''Pairwise key expansion'') (sm_own_addr sm)
       (sm_bssid sm) (sm_snonce sm) nonce ptk_len)) }"

text \<open>The supplicant exchanges the two Michael MIC keys.\<close>

definition swap_mic_keys :: "bytes \<Rightarrow> bytes" where
  "swap_mic_keys ptk = take 48 ptk @ take 8 (drop 56 ptk) @ take 8 (drop 48 ptk)"

definition failed :: "wpa_sm \<Rightarrow> wpa_sm" where
  "failed sm = emit (Deauthenticate WLAN_REASON_UNSPECIFIED) sm"

definition reply_1_of_4 :: "rsn_env \<Rightarrow> bytes \<Rightarrow> u16 \<Rightarrow> wpa_sm \<Rightarrow> wpa_sm option" where
  "reply_1_of_4 env frame ver sm = do {
     ptk \<leftarrow> wpa_derive_ptk env frame (sm_tptk sm) sm;
     let sm = sm\<lparr>sm_tptk := swap_mic_keys ptk, sm_tptk_set := True\<rparr>;
     (res, sm) \<leftarrow> wpa_supplicant_send_2_of_4 env (sm_bssid sm) frame ver (sm_snonce sm) (sm_assoc_wpa_ie sm)
                   (sm_tptk sm) sm;
     if res \<noteq> 0 then Some (failed sm)
     else do {
       nonce \<leftarrow> rd_bytes frame AT_NONCE WPA_NONCE_LEN;
       Some (sm\<lparr>sm_anonce := nonce\<rparr>) } }"

definition wpa_supplicant_process_1_of_4 :: "rsn_env \<Rightarrow> bytes \<Rightarrow> bytes \<Rightarrow> u16 \<Rightarrow> wpa_sm \<Rightarrow> wpa_sm option" where
  "wpa_supplicant_process_1_of_4 env src_addr frame ver sm =
     (if ev_network_ctx env = NULL then Some sm
      else do {
        let sm = emit (Set_state WPA_4WAY_HANDSHAKE) sm;
        pmkid \<leftarrow> (if sm_proto sm = WPA_PROTO_RSN then do {
            len \<leftarrow> rd_be16 frame AT_DATA_LENGTH;
            (r, ie) \<leftarrow> wpa_supplicant_parse_ies frame AT_DATA (unat len);
            (case ei_pmkid ie of None \<Rightarrow> Some None | Some p \<Rightarrow> map_option Some (rd_bytes frame p PMKID_LEN)) }
          else Some None);
        (res, sm) \<leftarrow> wpa_supplicant_get_pmk env src_addr pmkid sm;
        if res = -2 then Some sm
        else if res \<noteq> 0 then Some (failed sm)
        else if sm_renew_snonce sm then
          (case ev_random env of
             None \<Rightarrow> Some (failed sm)
           | Some n \<Rightarrow> reply_1_of_4 env frame ver (sm\<lparr>sm_snonce := n, sm_renew_snonce := False\<rparr>))
        else reply_1_of_4 env frame ver sm })"

section \<open>Installing keys\<close>

definition wpa_supplicant_key_neg_complete :: "rsn_env \<Rightarrow> bytes \<Rightarrow> bool \<Rightarrow> wpa_sm \<Rightarrow> wpa_sm option" where
  "wpa_supplicant_key_neg_complete env addr secure sm =
     (let sm = emit (Set_state WPA_COMPLETED) (emit Cancel_auth_timeout sm);
          sm = (if secure then
                  let sm = emit (Notify_portValid True) (emit (Mlme_setprotection addr 3 1) sm);
                      sm = (if wpa_key_mgmt_wpa_psk (sm_key_mgmt sm) then emit (Notify_eap_success True) sm else sm)
                  in register_timer env 1 H_wpa_sm_start_preauth (sm_self sm) sm
                else sm)
      in case sm_cur_pmksa sm of
           None \<Rightarrow> Some sm
         | Some c \<Rightarrow> do {
             e \<leftarrow> sm_heap sm c;
             Some (if pe_opportunistic e
                   then sm\<lparr>sm_heap := (sm_heap sm)(c \<mapsto> e\<lparr>pe_opportunistic := False\<rparr>)\<rparr> else sm) })"

definition wpa_sm_rekey_ptk :: "rsn_env \<Rightarrow> wpa_sm \<Rightarrow> wpa_sm option" where
  "wpa_sm_rekey_ptk env sm = wpa_sm_key_request env False True sm"

definition wpa_supplicant_install_ptk :: "rsn_env \<Rightarrow> bytes \<Rightarrow> wpa_sm \<Rightarrow> (int \<times> wpa_sm) option" where
  "wpa_supplicant_install_ptk env frame sm =
     (if sm_pairwise_cipher sm = WPA_CIPHER_NONE then Some (0, sm)
      else if sm_pairwise_cipher sm \<noteq> WPA_CIPHER_CCMP \<and> sm_pairwise_cipher sm \<noteq> WPA_CIPHER_TKIP then Some (-1, sm)
      else do {
        let (alg, keylen) = (if sm_pairwise_cipher sm = WPA_CIPHER_CCMP then (WPA_ALG_CCMP, 16) else (WPA_ALG_TKIP, 32));
        rsc \<leftarrow> (if sm_proto sm = WPA_PROTO_RSN then Some (replicate 6 0) else rd_bytes frame AT_RSC 6);
        key \<leftarrow> rd_bytes (sm_ptk sm) 32 keylen;
        let sm = emit (Set_key alg (Some (sm_bssid sm)) 0 1 rsc key) sm;
        if \<not> ev_set_key env alg (Some (sm_bssid sm)) 0 then Some (-1, sm)
        else if sm_wpa_ptk_rekey sm \<noteq> 0
        then Some (0, register_timer env (word_of_int (sm_wpa_ptk_rekey sm)) H_wpa_sm_rekey_ptk (sm_self sm)
                        (cancel_timer H_wpa_sm_rekey_ptk (sm_self sm) sm))
        else Some (0, sm) })"

text \<open>The result, if it is not -1, is the length of the receive sequence counter and the algorithm.\<close>

definition wpa_supplicant_check_group_cipher :: "u32 \<Rightarrow> int \<Rightarrow> int \<Rightarrow> (nat \<times> wpa_alg) option" where
  "wpa_supplicant_check_group_cipher group_cipher keylen maxkeylen =
     (if group_cipher = WPA_CIPHER_CCMP then
        (if keylen \<noteq> 16 \<or> maxkeylen < 16 then None else Some (6, WPA_ALG_CCMP))
      else if group_cipher = WPA_CIPHER_TKIP then
        (if keylen \<noteq> 32 \<or> maxkeylen < 32 then None else Some (6, WPA_ALG_TKIP))
      else if group_cipher = WPA_CIPHER_WEP104 then
        (if keylen \<noteq> 13 \<or> maxkeylen < 13 then None else Some (0, WPA_ALG_WEP))
      else if group_cipher = WPA_CIPHER_WEP40 then
        (if keylen \<noteq> 5 \<or> maxkeylen < 5 then None else Some (0, WPA_ALG_WEP))
      else None)"

record wpa_gtk_data =
  gd_alg :: wpa_alg
  gd_tx :: int
  gd_key_rsc_len :: nat
  gd_keyidx :: int
  gd_gtk :: bytes
  gd_gtk_len :: nat

definition no_gtk_data :: wpa_gtk_data where
  "no_gtk_data = \<lparr>gd_alg = WPA_ALG_NONE, gd_tx = 0, gd_key_rsc_len = 0, gd_keyidx = 0, gd_gtk = replicate 32 0,
     gd_gtk_len = 0\<rparr>"

definition wpa_supplicant_install_gtk :: "rsn_env \<Rightarrow> wpa_gtk_data \<Rightarrow> bytes \<Rightarrow> wpa_sm \<Rightarrow> (int \<times> wpa_sm) option" where
  "wpa_supplicant_install_gtk env gd frame sm = do {
     rsc \<leftarrow> rd_bytes frame AT_RSC (gd_key_rsc_len gd);
     gtk \<leftarrow> (if sm_group_cipher sm = WPA_CIPHER_TKIP then do {
         a \<leftarrow> rd_bytes (gd_gtk gd) 0 16; b \<leftarrow> rd_bytes (gd_gtk gd) 24 8; c \<leftarrow> rd_bytes (gd_gtk gd) 16 8;
         Some (a @ b @ c) }
       else Some (gd_gtk gd));
     key \<leftarrow> rd_bytes gtk 0 (gd_gtk_len gd);
     let (addr, tx) = (if sm_pairwise_cipher sm = WPA_CIPHER_NONE then (None, 1)
                       else (Some (replicate 6 0xff), gd_tx gd));
     let sm = emit (Set_key (gd_alg gd) addr (gd_keyidx gd) tx rsc key) sm;
     Some (if ev_set_key env (gd_alg gd) addr (gd_keyidx gd) then 0 else -1, sm) }"

definition wpa_supplicant_gtk_tx_bit_workaround :: "wpa_sm \<Rightarrow> bool \<Rightarrow> int" where
  "wpa_supplicant_gtk_tx_bit_workaround sm tx =
     (if tx \<and> sm_pairwise_cipher sm \<noteq> WPA_CIPHER_NONE then 0 else if tx then 1 else 0)"

text \<open>\<open>gtk\<close> and \<open>gtk_len\<close> are the offset in the frame and the length of the GTK KDE.\<close>

definition wpa_supplicant_pairwise_gtk ::
  "rsn_env \<Rightarrow> bytes \<Rightarrow> nat \<Rightarrow> nat \<Rightarrow> u16 \<Rightarrow> wpa_sm \<Rightarrow> (int \<times> wpa_sm) option" where
  "wpa_supplicant_pairwise_gtk env frame gtk gtk_len key_info sm =
     (if gtk_len < 2 \<or> 32 < gtk_len - 2 then Some (-1, sm)
      else do {
        b \<leftarrow> rd frame gtk;
        d \<leftarrow> rd_bytes frame (gtk + 2) (gtk_len - 2);
        let gd = no_gtk_data\<lparr>gd_keyidx := uint (b AND 3),
                   gd_tx := wpa_supplicant_gtk_tx_bit_workaround sm (b AND 4 \<noteq> 0),
                   gd_gtk := d @ replicate (32 - (gtk_len - 2)) 0, gd_gtk_len := gtk_len - 2\<rparr>;
        (case wpa_supplicant_check_group_cipher (sm_group_cipher sm) (int (gtk_len - 2)) (int (gtk_len - 2)) of
           None \<Rightarrow> Some (-1, sm)
         | Some (rsclen, alg) \<Rightarrow> do {
             (r, sm) \<leftarrow> wpa_supplicant_install_gtk env (gd\<lparr>gd_key_rsc_len := rsclen, gd_alg := alg\<rparr>) frame sm;
             if r \<noteq> 0 then Some (-1, sm)
             else do {
               sm \<leftarrow> wpa_supplicant_key_neg_complete env (sm_bssid sm) (key_info AND WPA_KEY_INFO_SECURE \<noteq> 0) sm;
               Some (0, sm) } }) })"

section \<open>Message 3 of the 4-Way Handshake\<close>

definition wpa_report_ie_mismatch :: "wpa_sm \<Rightarrow> wpa_sm" where
  "wpa_report_ie_mismatch sm = emit (Disassociate WLAN_REASON_IE_IN_4WAY_DIFFERS) sm"

definition ie_bytes :: "bytes \<Rightarrow> (nat \<times> nat) option \<Rightarrow> bytes option option" where
  "ie_bytes frame ie = (case ie of None \<Rightarrow> Some None | Some (p, l) \<Rightarrow> map_option Some (rd_bytes frame p l))"

definition wpa_supplicant_validate_ie :: "rsn_env \<Rightarrow> bytes \<Rightarrow> eapol_ies \<Rightarrow> wpa_sm \<Rightarrow> (int \<times> wpa_sm) option" where
  "wpa_supplicant_validate_ie env frame ie sm = do {
     let sm = (if sm_ap_wpa_ie sm = None \<and> sm_ap_rsn_ie sm = None
               then sm\<lparr>sm_ap_wpa_ie := fst (ev_beacon_ie env), sm_ap_rsn_ie := snd (ev_beacon_ie env)\<rparr> else sm);
     wpa \<leftarrow> ie_bytes frame (ei_wpa_ie ie);
     rsn \<leftarrow> ie_bytes frame (ei_rsn_ie ie);
     if wpa = None \<and> rsn = None \<and> (sm_ap_wpa_ie sm \<noteq> None \<or> sm_ap_rsn_ie sm \<noteq> None)
     then Some (-1, wpa_report_ie_mismatch sm)
     else if wpa \<noteq> None \<and> sm_ap_wpa_ie sm \<noteq> None \<and> wpa \<noteq> sm_ap_wpa_ie sm \<or>
             rsn \<noteq> None \<and> sm_ap_rsn_ie sm \<noteq> None \<and> wpa_compare_rsn_ie (sm_ap_rsn_ie sm) rsn \<noteq> 0
     then Some (-1, wpa_report_ie_mismatch sm)
     else if sm_proto sm = WPA_PROTO_WPA \<and> rsn \<noteq> None \<and> sm_ap_rsn_ie sm = None \<and> sm_rsn_enabled sm
     then Some (-1, wpa_report_ie_mismatch sm)
     else Some (0, sm) }"

text \<open>The checks of message 3/4 before it is answered: the return value says whether they all pass.\<close>

definition check_3_of_4 :: "rsn_env \<Rightarrow> bytes \<Rightarrow> eapol_ies \<Rightarrow> wpa_sm \<Rightarrow> (bool \<times> wpa_sm) option" where
  "check_3_of_4 env frame ie sm = do {
     key_info \<leftarrow> rd_be16 frame AT_KEY_INFO;
     if ei_gtk ie \<noteq> None \<and> key_info AND WPA_KEY_INFO_ENCR_KEY_DATA = 0 then Some (False, sm)
     else do {
       (r, sm) \<leftarrow> wpa_supplicant_validate_ie env frame ie sm;
       if r < 0 then Some (False, sm)
       else do {
         nonce \<leftarrow> rd_bytes frame AT_NONCE WPA_NONCE_LEN;
         if sm_anonce sm \<noteq> nonce then Some (False, sm)
         else do {
           keylen \<leftarrow> rd_be16 frame AT_KEY_LENGTH;
           Some (\<not> (sm_pairwise_cipher sm = WPA_CIPHER_CCMP \<and> keylen \<noteq> 16 \<or>
                    sm_pairwise_cipher sm = WPA_CIPHER_TKIP \<and> keylen \<noteq> 32), sm) } } } }"

definition wpa_supplicant_process_3_of_4 :: "rsn_env \<Rightarrow> bytes \<Rightarrow> u16 \<Rightarrow> wpa_sm \<Rightarrow> wpa_sm option" where
  "wpa_supplicant_process_3_of_4 env frame ver sm = do {
     let sm = emit (Set_state WPA_4WAY_HANDSHAKE) sm;
     key_info \<leftarrow> rd_be16 frame AT_KEY_INFO;
     len \<leftarrow> rd_be16 frame AT_DATA_LENGTH;
     (r, ie) \<leftarrow> wpa_supplicant_parse_ies frame AT_DATA (unat len);
     (ok, sm) \<leftarrow> check_3_of_4 env frame ie sm;
     if \<not> ok then Some (failed sm)
     else do {
       (r, sm) \<leftarrow> wpa_supplicant_send_4_of_4 env (sm_bssid sm) frame ver key_info [] (sm_ptk sm) sm;
       if r \<noteq> 0 then Some (failed sm)
       else do {
         let sm = sm\<lparr>sm_renew_snonce := True\<rparr>;
         (r, sm) \<leftarrow> (if key_info AND WPA_KEY_INFO_INSTALL \<noteq> 0 then wpa_supplicant_install_ptk env frame sm
                     else Some (0, sm));
         if r \<noteq> 0 then Some (failed sm)
         else do {
           let sm = (if key_info AND WPA_KEY_INFO_SECURE \<noteq> 0
                     then emit (Notify_portValid True) (emit (Mlme_setprotection (sm_bssid sm) 1 1) sm) else sm);
           let sm = emit (Set_state WPA_GROUP_HANDSHAKE) sm;
           (r, sm) \<leftarrow> (case ei_gtk ie of
              None \<Rightarrow> Some (0, sm)
            | Some (gtk, gtk_len) \<Rightarrow> wpa_supplicant_pairwise_gtk env frame gtk gtk_len key_info sm);
           if r < 0 then Some (failed sm)
           else Some (emit (Set_rekey_offload (kek (sm_ptk sm)) (kck (sm_ptk sm)) (sm_rx_replay_counter sm)) sm) } } } }"

section \<open>Group Key Handshake\<close>

definition wpa_supplicant_process_1_of_2_rsn ::
  "bytes \<Rightarrow> nat \<Rightarrow> u16 \<Rightarrow> wpa_sm \<Rightarrow> wpa_gtk_data \<Rightarrow> (int \<times> wpa_gtk_data) option" where
  "wpa_supplicant_process_1_of_2_rsn frame keydatalen key_info sm gd = do {
     (r, ie) \<leftarrow> wpa_supplicant_parse_ies frame AT_DATA keydatalen;
     (case ei_gtk ie of
        None \<Rightarrow> Some (-1, gd)
      | Some (gtk, gtk_len) \<Rightarrow>
          if key_info AND WPA_KEY_INFO_ENCR_KEY_DATA = 0 then Some (-1, gd)
          else
            let gd = gd\<lparr>gd_gtk_len := gtk_len - 2\<rparr> in
            (case wpa_supplicant_check_group_cipher (sm_group_cipher sm) (int (gtk_len - 2)) (int (gtk_len - 2)) of
               None \<Rightarrow> Some (-1, gd)
             | Some (rsclen, alg) \<Rightarrow> do {
                 b \<leftarrow> rd frame gtk;
                 let gd = gd\<lparr>gd_key_rsc_len := rsclen, gd_alg := alg, gd_keyidx := uint (b AND 3),
                            gd_tx := wpa_supplicant_gtk_tx_bit_workaround sm (b AND 4 \<noteq> 0)\<rparr>;
                 if 32 < gtk_len - 2 then Some (-1, gd)
                 else do {
                   d \<leftarrow> rd_bytes frame (gtk + 2) (gtk_len - 2);
                   g \<leftarrow> wr_bytes (gd_gtk gd) 0 d;
                   Some (0, gd\<lparr>gd_gtk := g\<rparr>) } })) }"

text \<open>The decryption of the group key for WPA: -1, or the array after it.\<close>

definition decrypt_gtk_wpa :: "rsn_env \<Rightarrow> bytes \<Rightarrow> nat \<Rightarrow> nat \<Rightarrow> u16 \<Rightarrow> wpa_sm \<Rightarrow> bytes \<Rightarrow> (int \<times> bytes) option" where
  "decrypt_gtk_wpa env frame keydatalen maxkeylen ver sm gtk =
     (if ver = WPA_KEY_INFO_TYPE_HMAC_MD5_RC4 then do {
        iv \<leftarrow> rd_bytes frame AT_IV 16;
        if 32 < keydatalen then Some (-1, gtk)
        else do {
          d \<leftarrow> rd_bytes frame AT_DATA keydatalen;
          gtk \<leftarrow> wr_bytes gtk 0 d;
          (case ev_rc4_skip env (iv @ kek (sm_ptk sm)) 256 d of
             None \<Rightarrow> Some (-1, gtk)
           | Some p \<Rightarrow> do { gtk \<leftarrow> wr_bytes gtk 0 p; Some (0, gtk) }) } }
      else if ver = WPA_KEY_INFO_TYPE_HMAC_SHA1_AES then
        (if keydatalen mod 8 \<noteq> 0 then Some (-1, gtk)
         else if 32 < maxkeylen then Some (-1, gtk)
         else do {
           (r, p) \<leftarrow> aes_unwrap (ev_aes_decrypt env) (ev_aes_init env) (kek (sm_ptk sm)) (maxkeylen div 8)
                      (drop AT_DATA frame);
           gtk \<leftarrow> wr_bytes gtk 0 p;
           Some (if r \<noteq> 0 then -1 else 0, gtk) })
      else Some (-1, gtk))"

definition wpa_supplicant_process_1_of_2_wpa ::
  "rsn_env \<Rightarrow> bytes \<Rightarrow> nat \<Rightarrow> u16 \<Rightarrow> nat \<Rightarrow> u16 \<Rightarrow> wpa_sm \<Rightarrow> wpa_gtk_data \<Rightarrow> (int \<times> wpa_gtk_data) option" where
  "wpa_supplicant_process_1_of_2_wpa env frame keydatalen key_info extra_len ver sm gd = do {
     kl \<leftarrow> rd_be16 frame AT_KEY_LENGTH;
     let gd = gd\<lparr>gd_gtk_len := unat kl\<rparr>;
     if extra_len < keydatalen then Some (-1, gd)
     else if ver = WPA_KEY_INFO_TYPE_HMAC_SHA1_AES \<and> keydatalen < 8 then Some (-1, gd)
     else
       let maxkeylen = (if ver = WPA_KEY_INFO_TYPE_HMAC_SHA1_AES then keydatalen - 8 else keydatalen) in
       (case wpa_supplicant_check_group_cipher (sm_group_cipher sm) (uint kl) (int maxkeylen) of
          None \<Rightarrow> Some (-1, gd)
        | Some (rsclen, alg) \<Rightarrow> do {
            let gd = gd\<lparr>gd_key_rsc_len := rsclen, gd_alg := alg,
                       gd_keyidx := uint (drop_bit 4 (key_info AND WPA_KEY_INFO_KEY_INDEX_MASK))\<rparr>;
            (r, g) \<leftarrow> decrypt_gtk_wpa env frame keydatalen maxkeylen ver sm (gd_gtk gd);
            let gd = gd\<lparr>gd_gtk := g\<rparr>;
            if r < 0 then Some (-1, gd)
            else Some (0, gd\<lparr>gd_tx := wpa_supplicant_gtk_tx_bit_workaround sm (key_info AND WPA_KEY_INFO_TXRX \<noteq> 0)\<rparr>) }) }"

definition wpa_supplicant_process_1_of_2 :: "rsn_env \<Rightarrow> bytes \<Rightarrow> nat \<Rightarrow> u16 \<Rightarrow> wpa_sm \<Rightarrow> wpa_sm option" where
  "wpa_supplicant_process_1_of_2 env frame extra_len ver sm = do {
     let rekey = (ev_state env = WPA_COMPLETED);
     key_info \<leftarrow> rd_be16 frame AT_KEY_INFO;
     keydatalen \<leftarrow> rd_be16 frame AT_DATA_LENGTH;
     (ret, gd) \<leftarrow> (if sm_proto sm = WPA_PROTO_RSN
        then wpa_supplicant_process_1_of_2_rsn frame (unat keydatalen) key_info sm no_gtk_data
        else wpa_supplicant_process_1_of_2_wpa env frame (unat keydatalen) key_info extra_len ver sm no_gtk_data);
     let sm = emit (Set_state WPA_GROUP_HANDSHAKE) sm;
     if ret \<noteq> 0 then Some (failed sm)
     else do {
       (r, sm) \<leftarrow> wpa_supplicant_install_gtk env gd frame sm;
       if r \<noteq> 0 then Some (failed sm)
       else do {
         (r, sm) \<leftarrow> wpa_supplicant_send_2_of_2 env frame ver key_info sm;
         if r \<noteq> 0 then Some (failed sm)
         else if rekey then
           let sm = emit (Set_state WPA_COMPLETED) (emit Cancel_auth_timeout sm)
           in Some (emit (Set_rekey_offload (kek (sm_ptk sm)) (kck (sm_ptk sm)) (sm_rx_replay_counter sm)) sm)
         else wpa_supplicant_key_neg_complete env (sm_bssid sm) (key_info AND WPA_KEY_INFO_SECURE \<noteq> 0) sm } } }"

section \<open>Receiving EAPOL-Key frames\<close>

text \<open>
  One comparison of the MIC: the field is cleared, the MIC of the first \<open>len\<close> octets is computed into it (a failure
  leaves the zeros) and compared with the received value.
\<close>

definition check_mic :: "rsn_env \<Rightarrow> bytes \<Rightarrow> bytes \<Rightarrow> u16 \<Rightarrow> nat \<Rightarrow> bytes \<Rightarrow> (bool \<times> bytes) option" where
  "check_mic env ptk mic ver len frame = do {
     frame \<leftarrow> wr_bytes frame AT_MIC (replicate 16 0);
     d \<leftarrow> rd_bytes frame 0 len;
     let m = (case wpa_eapol_key_mic (ev_hashes env) (kck ptk) ver d of None \<Rightarrow> replicate 16 0 | Some m \<Rightarrow> m);
     frame \<leftarrow> wr_bytes frame AT_MIC m;
     Some (mic = m, frame) }"

definition wpa_supplicant_verify_eapol_key_mic ::
  "rsn_env \<Rightarrow> bytes \<Rightarrow> u16 \<Rightarrow> nat \<Rightarrow> wpa_sm \<Rightarrow> (int \<times> bytes \<times> wpa_sm) option" where
  "wpa_supplicant_verify_eapol_key_mic env frame ver len sm = do {
     mic \<leftarrow> rd_bytes frame AT_MIC 16;
     (ok, frame, sm) \<leftarrow> (if sm_tptk_set sm then do {
         (ok, frame) \<leftarrow> check_mic env (sm_tptk sm) mic ver len frame;
         Some (ok, frame,
               if ok then sm\<lparr>sm_tptk_set := False, sm_ptk_set := True, sm_ptk := sm_tptk sm\<rparr> else sm) }
       else Some (False, frame, sm));
     (ok, frame) \<leftarrow> (if \<not> ok \<and> sm_ptk_set sm then check_mic env (sm_ptk sm) mic ver len frame
                     else Some (ok, frame));
     if \<not> ok then Some (-1, frame, sm)
     else do {
       rc \<leftarrow> rd_bytes frame AT_REPLAY WPA_REPLAY_COUNTER_LEN;
       Some (0, frame, sm\<lparr>sm_rx_replay_counter := rc, sm_rx_replay_counter_set := True\<rparr>) } }"

text \<open>The length is reduced by eight in 16 bits, so it wraps around for empty key data.\<close>

definition wpa_supplicant_decrypt_key_data :: "rsn_env \<Rightarrow> bytes \<Rightarrow> u16 \<Rightarrow> wpa_sm \<Rightarrow> (int \<times> bytes) option" where
  "wpa_supplicant_decrypt_key_data env frame ver sm = do {
     keydatalen \<leftarrow> rd_be16 frame AT_DATA_LENGTH;
     if \<not> sm_ptk_set sm then Some (-1, frame)
     else if ver = WPA_KEY_INFO_TYPE_HMAC_MD5_RC4 then do {
       iv \<leftarrow> rd_bytes frame AT_IV 16;
       d \<leftarrow> rd_bytes frame AT_DATA (unat keydatalen);
       (case ev_rc4_skip env (iv @ kek (sm_ptk sm)) 256 d of
          None \<Rightarrow> Some (-1, frame)
        | Some p \<Rightarrow> do { frame \<leftarrow> wr_bytes frame AT_DATA p; Some (0, frame) }) }
     else if ver = WPA_KEY_INFO_TYPE_HMAC_SHA1_AES \<or> ver = WPA_KEY_INFO_TYPE_AES_128_CMAC then
       (if unat keydatalen mod 8 \<noteq> 0 then Some (-1, frame)
        else
          let keydatalen = keydatalen - 8 in
          if \<not> ev_buf env then Some (-1, frame)
          else do {
            (r, buf) \<leftarrow> aes_unwrap (ev_aes_decrypt env) (ev_aes_init env) (kek (sm_ptk sm)) (unat keydatalen div 8)
                          (drop AT_DATA frame);
            if r \<noteq> 0 then Some (-1, frame)
            else do {
              frame \<leftarrow> wr_bytes frame AT_DATA buf;
              frame \<leftarrow> wr_bytes frame AT_DATA_LENGTH (put_be16 keydatalen);
              Some (0, frame) } })
     else Some (-1, frame) }"

definition wpa_sm_aborted_cached :: "wpa_sm \<Rightarrow> wpa_sm" where
  "wpa_sm_aborted_cached sm = (if sm_cur_pmksa sm \<noteq> None then sm\<lparr>sm_cur_pmksa := None\<rparr> else sm)"

text \<open>
  The entry points of peerkey.c: \<open>peerkey_verify_eapol_key_mic\<close>, \<open>peerkey_rx_eapol_4way\<close> and \<open>peerkey_rx_eapol_smk\<close>.
\<close>

record peerkey_ops =
  op_verify_mic :: "wpa_peerkey \<Rightarrow> bytes \<Rightarrow> u16 \<Rightarrow> nat \<Rightarrow> wpa_sm \<Rightarrow> (int \<times> bytes \<times> wpa_sm) option"
  op_rx_4way :: "wpa_peerkey \<Rightarrow> bytes \<Rightarrow> u16 \<Rightarrow> u16 \<Rightarrow> wpa_sm \<Rightarrow> wpa_sm option"
  op_rx_smk :: "bytes \<Rightarrow> bytes \<Rightarrow> nat \<Rightarrow> u16 \<Rightarrow> u16 \<Rightarrow> wpa_sm \<Rightarrow> wpa_sm option"

text \<open>The replay checks: \<open>False\<close> drops the frame.\<close>

definition check_replay :: "bytes \<Rightarrow> u16 \<Rightarrow> wpa_peerkey option \<Rightarrow> wpa_sm \<Rightarrow> bool option" where
  "check_replay frame key_info peerkey sm = do {
     rc \<leftarrow> rd_bytes frame AT_REPLAY WPA_REPLAY_COUNTER_LEN;
     (case peerkey of
        None \<Rightarrow> Some (\<not> (sm_rx_replay_counter_set sm \<and> \<not> memlt (sm_rx_replay_counter sm) rc))
      | Some p \<Rightarrow> do {
          ok \<leftarrow> (if key_info AND WPA_KEY_INFO_SMK_MESSAGE = 0 then
                   (if \<not> pk_initiator p \<and> pk_replay_counter_set p \<and> \<not> memlt (pk_replay_counter p) rc then Some False
                    else if pk_initiator p then do {
                      c \<leftarrow> inc_byte_array rc WPA_REPLAY_COUNTER_LEN;
                      Some (c = pk_replay_counter p) }
                    else Some True)
                 else Some True);
          Some (ok \<and> \<not> (pk_initiator p \<and> key_info AND WPA_KEY_INFO_ACK \<noteq> 0)) }) }"

text \<open>The dispatch of a frame that has passed all checks.\<close>

definition dispatch_key ::
  "rsn_env \<Rightarrow> peerkey_ops \<Rightarrow> wpa_peerkey option \<Rightarrow> bytes \<Rightarrow> bytes \<Rightarrow> nat \<Rightarrow> u16 \<Rightarrow> u16 \<Rightarrow> wpa_sm \<Rightarrow> (int \<times> wpa_sm) option" where
  "dispatch_key env ops peerkey src_addr frame extra_len key_info ver sm =
     (if key_info AND WPA_KEY_INFO_KEY_TYPE \<noteq> 0 then
        (if key_info AND WPA_KEY_INFO_KEY_INDEX_MASK \<noteq> 0 then Some (-1, sm)
         else map_option (Pair 1)
           (case peerkey of
              Some p \<Rightarrow> op_rx_4way ops p frame key_info ver sm
            | None \<Rightarrow>
                if key_info AND WPA_KEY_INFO_MIC \<noteq> 0 then wpa_supplicant_process_3_of_4 env frame ver sm
                else wpa_supplicant_process_1_of_4 env src_addr frame ver sm))
      else if key_info AND WPA_KEY_INFO_SMK_MESSAGE \<noteq> 0
      then map_option (Pair 1) (op_rx_smk ops src_addr frame extra_len key_info ver sm)
      else if key_info AND WPA_KEY_INFO_MIC \<noteq> 0
      then map_option (Pair 1) (wpa_supplicant_process_1_of_2 env frame extra_len ver sm)
      else Some (1, sm))"

text \<open>
  From the verification of the MIC on: \<open>data_len\<close> is the length of the frame according to its header.
\<close>

definition accept_key ::
  "rsn_env \<Rightarrow> peerkey_ops \<Rightarrow> wpa_peerkey option \<Rightarrow> bytes \<Rightarrow> bytes \<Rightarrow> nat \<Rightarrow> u16 \<Rightarrow> u16 \<Rightarrow> wpa_sm \<Rightarrow> (int \<times> wpa_sm) option" where
  "accept_key env ops peerkey src_addr frame data_len key_info ver sm = do {
     (r, frame, sm) \<leftarrow> (if key_info AND WPA_KEY_INFO_MIC = 0 then Some (0, frame, sm)
        else case peerkey of
          None \<Rightarrow> wpa_supplicant_verify_eapol_key_mic env frame ver data_len sm
        | Some p \<Rightarrow> op_verify_mic ops p frame ver data_len sm);
     if r \<noteq> 0 then Some (-1, sm)
     else do {
       kdl \<leftarrow> rd_be16 frame AT_DATA_LENGTH;
       if data_len - 4 - SIZEOF_EAPOL_KEY < unat kdl then Some (-1, sm)
       else do {
         (r, frame) \<leftarrow> (if sm_proto sm = WPA_PROTO_RSN \<and> key_info AND WPA_KEY_INFO_ENCR_KEY_DATA \<noteq> 0
                        then wpa_supplicant_decrypt_key_data env frame ver sm else Some (0, frame));
         if r \<noteq> 0 then Some (-1, sm)
         else do {
           kdl \<leftarrow> rd_be16 frame AT_DATA_LENGTH;
           dispatch_key env ops peerkey src_addr frame (unat kdl) key_info ver sm } } } }"

definition version_ok :: "u16 \<Rightarrow> u16 \<Rightarrow> wpa_sm \<Rightarrow> bool" where
  "version_ok key_info ver sm \<longleftrightarrow>
     (ver = WPA_KEY_INFO_TYPE_HMAC_MD5_RC4 \<or> ver = WPA_KEY_INFO_TYPE_HMAC_SHA1_AES) \<and>
     \<not> (sm_pairwise_cipher sm = WPA_CIPHER_CCMP \<and> ver \<noteq> WPA_KEY_INFO_TYPE_HMAC_SHA1_AES \<and>
        \<not> (sm_group_cipher sm \<noteq> WPA_CIPHER_CCMP \<and> key_info AND WPA_KEY_INFO_KEY_TYPE = 0))"

definition wpa_sm_rx_eapol ::
  "rsn_env \<Rightarrow> peerkey_ops \<Rightarrow> bytes \<Rightarrow> bytes \<Rightarrow> wpa_sm \<Rightarrow> (int \<times> wpa_sm) option" where
  "wpa_sm_rx_eapol env ops src_addr buf sm =
     (if length buf < 4 + SIZEOF_EAPOL_KEY then Some (0, sm)
      else if \<not> ev_tmp env then Some (-1, sm)
      else do {
        ty \<leftarrow> rd buf 1;
        plen \<leftarrow> rd_be16 buf 2;
        kt \<leftarrow> rd buf AT_TYPE;
        if ty \<noteq> 3 then Some (0, sm)
        else if length buf - 4 < unat plen \<or> unat plen < SIZEOF_EAPOL_KEY then Some (0, sm)
        else if kt \<noteq> 254 \<and> kt \<noteq> 2 then Some (0, sm)
        else do {
          let sm = emit (Notify_lower_layer_success False) sm;
          key_info \<leftarrow> rd_be16 buf AT_KEY_INFO;
          let ver = key_info AND 7;
          if \<not> version_ok key_info ver sm then Some (-1, sm)
          else do {
            let peerkey = List.find (\<lambda>p. pk_addr p = src_addr) (sm_peerkey sm);
            fresh \<leftarrow> check_replay buf key_info peerkey sm;
            if \<not> fresh then Some (-1, sm)
            else if key_info AND (WPA_KEY_INFO_ACK OR WPA_KEY_INFO_SMK_MESSAGE) = 0 \<and>
                    (case peerkey of None \<Rightarrow> True | Some p \<Rightarrow> \<not> pk_initiator p) then Some (-1, sm)
            else if key_info AND WPA_KEY_INFO_REQUEST \<noteq> 0 then Some (-1, sm)
            else accept_key env ops peerkey src_addr buf (unat plen + 4) key_info ver sm } } })"

section \<open>Associations and parameters\<close>

text \<open>
  \<open>rsn_preauth_deinit\<close> is the one of preauth.c; the notification of the TDLS code is not modelled.
\<close>

definition rsn_preauth_deinit :: "wpa_sm \<Rightarrow> wpa_sm" where
  "rsn_preauth_deinit sm =
     (if \<not> sm_preauth_eapol sm then sm
      else (cancel_timer H_rsn_preauth_timeout (sm_self sm) sm)
        \<lparr>sm_preauth_eapol := False, sm_preauth_bssid := replicate 6 0, sm_l2_preauth := False, sm_l2_preauth_br := False\<rparr>)"

definition wpa_sm_notify_assoc :: "bytes \<Rightarrow> wpa_sm \<Rightarrow> wpa_sm" where
  "wpa_sm_notify_assoc bssid sm =
     (let sm = sm\<lparr>sm_bssid := bssid, sm_rx_replay_counter := replicate 8 0, sm_rx_replay_counter_set := False,
                 sm_renew_snonce := True\<rparr>;
          sm = (if sm_preauth_bssid sm = bssid then rsn_preauth_deinit sm else sm)
      in sm\<lparr>sm_ptk_set := False, sm_tptk_set := False\<rparr>)"

definition wpa_sm_notify_disassoc :: "rsn_env \<Rightarrow> wpa_sm \<Rightarrow> wpa_sm" where
  "wpa_sm_notify_disassoc env sm =
     (let sm = rsn_preauth_deinit sm
      in if ev_state env = WPA_4WAY_HANDSHAKE
         then sm\<lparr>dot11RSNA4WayHandshakeFailures := dot11RSNA4WayHandshakeFailures sm + 1\<rparr> else sm)"

definition wpa_sm_set_pmk :: "bytes \<Rightarrow> nat \<Rightarrow> wpa_sm \<Rightarrow> wpa_sm option" where
  "wpa_sm_set_pmk pmk pmk_len sm = do {
     d \<leftarrow> rd_bytes pmk 0 pmk_len;
     p \<leftarrow> wr_bytes (sm_pmk sm) 0 d;
     Some (sm\<lparr>sm_pmk_len := pmk_len, sm_pmk := p\<rparr>) }"

definition wpa_sm_set_fast_reauth :: "bool \<Rightarrow> wpa_sm \<Rightarrow> wpa_sm" where
  "wpa_sm_set_fast_reauth fast_reauth sm = sm\<lparr>sm_fast_reauth := fast_reauth\<rparr>"

record rsn_supp_config =
  rc_network_ctx :: ptr
  rc_peerkey_enabled :: bool
  rc_allowed_pairwise_cipher :: u32
  rc_proactive_key_caching :: bool
  rc_eap_workaround :: bool
  rc_eap_conf_ctx :: ptr
  rc_ssid :: "bytes option"
  rc_wpa_ptk_rekey :: int

definition wpa_sm_set_config :: "rsn_supp_config option \<Rightarrow> wpa_sm \<Rightarrow> wpa_sm option" where
  "wpa_sm_set_config config sm = (case config of
     Some c \<Rightarrow> do {
       let sm = sm\<lparr>sm_network_ctx := rc_network_ctx c, sm_peerkey_enabled := rc_peerkey_enabled c,
                  sm_allowed_pairwise_cipher := rc_allowed_pairwise_cipher c,
                  sm_proactive_key_caching := rc_proactive_key_caching c,
                  sm_eap_workaround := rc_eap_workaround c, sm_eap_conf_ctx := rc_eap_conf_ctx c\<rparr>;
       sm \<leftarrow> (case rc_ssid c of
          Some s \<Rightarrow> do { d \<leftarrow> wr_bytes (sm_ssid sm) 0 s; Some (sm\<lparr>sm_ssid := d, sm_ssid_len := length s\<rparr>) }
        | None \<Rightarrow> Some (sm\<lparr>sm_ssid_len := 0\<rparr>));
       Some (sm\<lparr>sm_wpa_ptk_rekey := rc_wpa_ptk_rekey c\<rparr>) }
   | None \<Rightarrow> Some (sm\<lparr>sm_network_ctx := NULL, sm_peerkey_enabled := False, sm_allowed_pairwise_cipher := 0,
       sm_proactive_key_caching := False, sm_eap_workaround := False, sm_eap_conf_ctx := NULL, sm_ssid_len := 0,
       sm_wpa_ptk_rekey := 0\<rparr>))"

definition wpa_sm_set_own_addr :: "bytes \<Rightarrow> wpa_sm \<Rightarrow> wpa_sm" where
  "wpa_sm_set_own_addr addr sm = sm\<lparr>sm_own_addr := addr\<rparr>"

definition wpa_sm_set_eapol :: "bool \<Rightarrow> wpa_sm \<Rightarrow> wpa_sm" where
  "wpa_sm_set_eapol eapol sm = sm\<lparr>sm_eapol := eapol\<rparr>"

datatype wpa_sm_conf_params =
  RSNA_PMK_LIFETIME | RSNA_PMK_REAUTH_THRESHOLD | RSNA_SA_TIMEOUT | WPA_PARAM_PROTO | WPA_PARAM_PAIRWISE
| WPA_PARAM_GROUP | WPA_PARAM_KEY_MGMT | WPA_PARAM_MGMT_GROUP | WPA_PARAM_RSN_ENABLED | WPA_PARAM_MFP

definition wpa_sm_set_param :: "wpa_sm_conf_params \<Rightarrow> u32 \<Rightarrow> wpa_sm \<Rightarrow> int \<times> wpa_sm" where
  "wpa_sm_set_param param value sm = (case param of
     RSNA_PMK_LIFETIME \<Rightarrow> if 0 < value then (0, sm\<lparr>dot11RSNAConfigPMKLifetime := value\<rparr>) else (-1, sm)
   | RSNA_PMK_REAUTH_THRESHOLD \<Rightarrow>
       if 0 < value \<and> value \<le> 100 then (0, sm\<lparr>dot11RSNAConfigPMKReauthThreshold := value\<rparr>) else (-1, sm)
   | RSNA_SA_TIMEOUT \<Rightarrow> if 0 < value then (0, sm\<lparr>dot11RSNAConfigSATimeout := value\<rparr>) else (-1, sm)
   | WPA_PARAM_PROTO \<Rightarrow> (0, sm\<lparr>sm_proto := value\<rparr>)
   | WPA_PARAM_PAIRWISE \<Rightarrow> (0, sm\<lparr>sm_pairwise_cipher := value\<rparr>)
   | WPA_PARAM_GROUP \<Rightarrow> (0, sm\<lparr>sm_group_cipher := value\<rparr>)
   | WPA_PARAM_KEY_MGMT \<Rightarrow> (0, sm\<lparr>sm_key_mgmt := value\<rparr>)
   | WPA_PARAM_MGMT_GROUP \<Rightarrow> (0, sm)
   | WPA_PARAM_RSN_ENABLED \<Rightarrow> (0, sm\<lparr>sm_rsn_enabled := (value \<noteq> 0)\<rparr>)
   | WPA_PARAM_MFP \<Rightarrow> (0, sm\<lparr>sm_mfp := value\<rparr>))"

definition wpa_sm_get_param :: "wpa_sm_conf_params \<Rightarrow> wpa_sm \<Rightarrow> u32" where
  "wpa_sm_get_param param sm = (case param of
     RSNA_PMK_LIFETIME \<Rightarrow> dot11RSNAConfigPMKLifetime sm
   | RSNA_PMK_REAUTH_THRESHOLD \<Rightarrow> dot11RSNAConfigPMKReauthThreshold sm
   | RSNA_SA_TIMEOUT \<Rightarrow> dot11RSNAConfigSATimeout sm
   | WPA_PARAM_PROTO \<Rightarrow> sm_proto sm
   | WPA_PARAM_PAIRWISE \<Rightarrow> sm_pairwise_cipher sm
   | WPA_PARAM_GROUP \<Rightarrow> sm_group_cipher sm
   | WPA_PARAM_KEY_MGMT \<Rightarrow> sm_key_mgmt sm
   | WPA_PARAM_RSN_ENABLED \<Rightarrow> (if sm_rsn_enabled sm then 1 else 0)
   | _ \<Rightarrow> 0)"

text \<open>
  Own and AP elements. \<open>None\<close> or an empty element clears; \<open>ok\<close> is the result of the allocation. When it fails the
  old element has been freed, the pointer is null and the old length remains; the length is not read without the
  pointer.
\<close>

definition wpa_sm_set_assoc_wpa_ie_default :: "bool \<Rightarrow> bytes \<Rightarrow> nat \<Rightarrow> wpa_sm \<Rightarrow> (int \<times> bytes \<times> nat \<times> wpa_sm) option" where
  "wpa_sm_set_assoc_wpa_ie_default ok wpa_ie wpa_ie_len sm = do {
     pmkid \<leftarrow> (case sm_cur_pmksa sm of None \<Rightarrow> Some None | Some c \<Rightarrow> map_option (Some \<circ> pe_pmkid) (sm_heap sm c));
     (res, wpa_ie) \<leftarrow> wpa_gen_wpa_ie (sm_proto sm) wpa_ie wpa_ie_len (sm_pairwise_cipher sm) (sm_group_cipher sm)
                       (sm_key_mgmt sm) pmkid;
     if res < 0 then Some (-1, wpa_ie, wpa_ie_len, sm)
     else if sm_assoc_wpa_ie sm \<noteq> None then Some (0, wpa_ie, nat res, sm)
     else if \<not> ok then Some (-1, wpa_ie, nat res, sm)
     else do {
       d \<leftarrow> rd_bytes wpa_ie 0 (nat res);
       Some (0, wpa_ie, nat res, sm\<lparr>sm_assoc_wpa_ie := Some d\<rparr>) } }"

definition stored_ie :: "bool \<Rightarrow> bytes option \<Rightarrow> int \<times> bytes option" where
  "stored_ie ok ie = (if ie = None \<or> ie = Some [] then (0, None) else if ok then (0, ie) else (-1, None))"

definition wpa_sm_set_assoc_wpa_ie :: "bool \<Rightarrow> bytes option \<Rightarrow> wpa_sm \<Rightarrow> int \<times> wpa_sm" where
  "wpa_sm_set_assoc_wpa_ie ok ie sm = (let (r, d) = stored_ie ok ie in (r, sm\<lparr>sm_assoc_wpa_ie := d\<rparr>))"

definition wpa_sm_set_ap_wpa_ie :: "bool \<Rightarrow> bytes option \<Rightarrow> wpa_sm \<Rightarrow> int \<times> wpa_sm" where
  "wpa_sm_set_ap_wpa_ie ok ie sm = (let (r, d) = stored_ie ok ie in (r, sm\<lparr>sm_ap_wpa_ie := d\<rparr>))"

definition wpa_sm_set_ap_rsn_ie :: "bool \<Rightarrow> bytes option \<Rightarrow> wpa_sm \<Rightarrow> int \<times> wpa_sm" where
  "wpa_sm_set_ap_rsn_ie ok ie sm = (let (r, d) = stored_ie ok ie in (r, sm\<lparr>sm_ap_rsn_ie := d\<rparr>))"

definition wpa_sm_parse_own_wpa_ie :: "wpa_sm \<Rightarrow> (int \<times> wpa_ie_data option) option" where
  "wpa_sm_parse_own_wpa_ie sm = (case sm_assoc_wpa_ie sm of
     None \<Rightarrow> Some (-1, None)
   | Some ie \<Rightarrow> do {
       (r, d) \<leftarrow> wpa_parse_wpa_ie ie (length ie);
       Some (if r \<noteq> 0 then -2 else 0, Some d) })"

definition wpa_sm_drop_sa :: "wpa_sm \<Rightarrow> wpa_sm" where
  "wpa_sm_drop_sa sm = sm\<lparr>sm_ptk_set := False, sm_tptk_set := False, sm_pmk := replicate PMK_LEN 0,
     sm_ptk := replicate 64 0, sm_tptk := replicate 64 0\<rparr>"

definition wpa_sm_has_ptk :: "wpa_sm \<Rightarrow> bool" where
  "wpa_sm_has_ptk sm = sm_ptk_set sm"

definition wpa_sm_update_replay_ctr :: "bytes \<Rightarrow> wpa_sm \<Rightarrow> wpa_sm" where
  "wpa_sm_update_replay_ctr replay_ctr sm = sm\<lparr>sm_rx_replay_counter := replay_ctr\<rparr>"

definition wpa_sm_pmksa_cache_flush :: "rsn_env \<Rightarrow> ptr \<Rightarrow> wpa_sm \<Rightarrow> wpa_sm option" where
  "wpa_sm_pmksa_cache_flush env network_ctx sm = pmksa_cache_flush env network_ctx sm"

definition wpa_sm_deinit :: "rsn_env \<Rightarrow> wpa_sm \<Rightarrow> wpa_sm option" where
  "wpa_sm_deinit env sm = do {
     sm \<leftarrow> pmksa_cache_deinit env sm;
     Some (cancel_timer H_wpa_sm_rekey_ptk (sm_self sm) (cancel_timer H_wpa_sm_start_preauth (sm_self sm) sm)) }"

end
