(* ===== verification/Wpa_Sm_Safe.thy ===== *)
theory Wpa_Sm_Safe
  imports Wpa_Sm
begin

text \<open>
  Memory safety and authenticity of the key handshake. \<open>sm_ok\<close> is the invariant of the state machine: a consistent
  PMKSA cache, arrays of their sizes and no PeerKey peers. \<open>step P\<close> describes what handling a frame may do outside the cache: the PTK
  in use and the replay counter are unchanged and only events in \<open>P\<close> are logged.
\<close>

section \<open>Invariant and environment\<close>

definition sm_ok :: "wpa_sm \<Rightarrow> bool" where
  "sm_ok sm \<longleftrightarrow> pmksa_ok sm \<and> length (sm_ptk sm) = 64 \<and> length (sm_tptk sm) = 64 \<and> length (sm_snonce sm) = 32 \<and>
     length (sm_anonce sm) = 32 \<and> length (sm_rx_replay_counter sm) = 8 \<and> length (sm_request_counter sm) = 8 \<and>
     length (sm_own_addr sm) = 6 \<and> length (sm_bssid sm) = 6 \<and> sm_peerkey sm = [] \<and>
     (\<forall>ie. sm_assoc_wpa_ie sm = Some ie \<longrightarrow> length ie < 65000)"

text \<open>
  What the functions outside the component promise: digests and keys of the right size, an address of six octets, a
  stream cipher that keeps the length, and an allocator that returns unused memory.
\<close>

definition env_ok :: "rsn_env \<Rightarrow> bool" where
  "env_ok env \<longleftrightarrow> hashes_ok (ev_hashes env) \<and> (\<forall>b. ev_bssid env = Some b \<longrightarrow> length b = 6) \<and>
     (\<forall>n k. ev_get_key env n = Some k \<longrightarrow> length k = n) \<and> (\<forall>n. ev_random env = Some n \<longrightarrow> length n = 32) \<and>
     (\<forall>k n d p. ev_rc4_skip env k n d = Some p \<longrightarrow> length p = length d) \<and>
     (\<forall>k b. length b = 16 \<longrightarrow> length (ev_aes_decrypt env k b) = 16)"

definition is_set_key :: "rsn_event \<Rightarrow> bool" where
  "is_set_key e \<longleftrightarrow> (case e of Set_key _ _ _ _ _ _ \<Rightarrow> True | _ \<Rightarrow> False)"

definition keys_of :: "wpa_sm \<Rightarrow> bytes \<times> bool \<times> bytes \<times> bool" where
  "keys_of sm = (sm_ptk sm, sm_ptk_set sm, sm_rx_replay_counter sm, sm_rx_replay_counter_set sm)"

definition step :: "(rsn_event \<Rightarrow> bool) \<Rightarrow> wpa_sm \<Rightarrow> wpa_sm \<Rightarrow> bool" where
  "step P sm sm' \<longleftrightarrow> sm_ok sm' \<and> keys_of sm' = keys_of sm \<and> log_ext P sm sm'"

definition weak :: "(rsn_event \<Rightarrow> bool) \<Rightarrow> bool" where
  "weak P \<longleftrightarrow> (\<forall>e. \<not> is_set_key e \<longrightarrow> P e)"

lemma pmksa_ok_upd [simp]:
  "pmksa_ok (sm\<lparr>sm_bssid := x0\<rparr>) = pmksa_ok sm" "pmksa_ok (sm\<lparr>sm_ptk := x1\<rparr>) = pmksa_ok sm"
  "pmksa_ok (sm\<lparr>sm_tptk := x2\<rparr>) = pmksa_ok sm" "pmksa_ok (sm\<lparr>sm_ptk_set := x3\<rparr>) = pmksa_ok sm"
  "pmksa_ok (sm\<lparr>sm_tptk_set := x4\<rparr>) = pmksa_ok sm" "pmksa_ok (sm\<lparr>sm_snonce := x5\<rparr>) = pmksa_ok sm"
  "pmksa_ok (sm\<lparr>sm_anonce := x6\<rparr>) = pmksa_ok sm" "pmksa_ok (sm\<lparr>sm_renew_snonce := x7\<rparr>) = pmksa_ok sm"
  "pmksa_ok (sm\<lparr>sm_rx_replay_counter := x8\<rparr>) = pmksa_ok sm" "pmksa_ok (sm\<lparr>sm_rx_replay_counter_set := x9\<rparr>) = pmksa_ok sm"
  "pmksa_ok (sm\<lparr>sm_request_counter := x10\<rparr>) = pmksa_ok sm" "pmksa_ok (sm\<lparr>sm_ap_wpa_ie := x11\<rparr>) = pmksa_ok sm"
  "pmksa_ok (sm\<lparr>sm_ap_rsn_ie := x12\<rparr>) = pmksa_ok sm" "pmksa_ok (sm\<lparr>sm_eloop := x13\<rparr>) = pmksa_ok sm"
  "pmksa_ok (sm\<lparr>sm_log := x14\<rparr>) = pmksa_ok sm"
  by (simp_all add: pmksa_ok_def cache_inv_def)

lemma sm_ok_upd:
  "sm_ok sm \<Longrightarrow> length n = 32 \<Longrightarrow> sm_ok (sm\<lparr>sm_anonce := n\<rparr>)"
  "sm_ok sm \<Longrightarrow> length n = 32 \<Longrightarrow> sm_ok (sm\<lparr>sm_snonce := n\<rparr>)"
  "sm_ok sm \<Longrightarrow> length ptk = 64 \<Longrightarrow> sm_ok (sm\<lparr>sm_tptk := ptk\<rparr>)"
  "sm_ok (sm\<lparr>sm_tptk_set := b\<rparr>) = sm_ok sm" "sm_ok (sm\<lparr>sm_renew_snonce := b\<rparr>) = sm_ok sm"
  "sm_ok (sm\<lparr>sm_ap_wpa_ie := ie\<rparr>) = sm_ok sm" "sm_ok (sm\<lparr>sm_ap_rsn_ie := ie\<rparr>) = sm_ok sm"
  by (auto simp: sm_ok_def)

lemma keys_of_upd [simp]:
  "keys_of (sm\<lparr>sm_anonce := n\<rparr>) = keys_of sm" "keys_of (sm\<lparr>sm_snonce := n\<rparr>) = keys_of sm"
  "keys_of (sm\<lparr>sm_tptk := ptk\<rparr>) = keys_of sm" "keys_of (sm\<lparr>sm_tptk_set := b\<rparr>) = keys_of sm"
  "keys_of (sm\<lparr>sm_renew_snonce := b\<rparr>) = keys_of sm" "keys_of (sm\<lparr>sm_ap_wpa_ie := ie\<rparr>) = keys_of sm"
  "keys_of (sm\<lparr>sm_ap_rsn_ie := ie\<rparr>) = keys_of sm"
  by (simp_all add: keys_of_def)

lemma log_ext_upd [simp]:
  "log_ext P a (sm\<lparr>sm_anonce := n\<rparr>) = log_ext P a sm" "log_ext P a (sm\<lparr>sm_snonce := n\<rparr>) = log_ext P a sm"
  "log_ext P a (sm\<lparr>sm_tptk := ptk\<rparr>) = log_ext P a sm" "log_ext P a (sm\<lparr>sm_tptk_set := b\<rparr>) = log_ext P a sm"
  "log_ext P a (sm\<lparr>sm_renew_snonce := b\<rparr>) = log_ext P a sm" "log_ext P a (sm\<lparr>sm_ap_wpa_ie := ie\<rparr>) = log_ext P a sm"
  "log_ext P a (sm\<lparr>sm_ap_rsn_ie := ie\<rparr>) = log_ext P a sm"
  by (simp_all add: log_ext_def)

lemma step_refl: "sm_ok sm \<Longrightarrow> step P sm sm"
  by (simp add: step_def)

lemma step_trans [trans]: "step P a b \<Longrightarrow> step P b c \<Longrightarrow> step P a c"
  by (auto simp: step_def intro: log_ext_trans)

lemma sm_ok_emit [simp]: "sm_ok (emit e sm) = sm_ok sm"
  by (simp add: sm_ok_def pmksa_ok_def cache_inv_def emit_def)

lemma keys_of_emit [simp]: "keys_of (emit e sm) = keys_of sm"
  by (simp add: keys_of_def emit_def)

lemma step_emit: "sm_ok sm \<Longrightarrow> P e \<Longrightarrow> step P sm (emit e sm)"
  by (simp add: step_def log_ext_emit)

lemma step_failed: "sm_ok sm \<Longrightarrow> weak P \<Longrightarrow> step P sm (failed sm)"
  by (simp add: failed_def step_emit weak_def is_set_key_def)

lemma step_emit_trans: "step P a sm \<Longrightarrow> P e \<Longrightarrow> step P a (emit e sm)"
  by (meson step_emit step_trans step_def)

lemma step_failed_trans: "step P a sm \<Longrightarrow> weak P \<Longrightarrow> step P a (failed sm)"
  by (simp add: failed_def step_emit_trans weak_def is_set_key_def)

lemma sm_ok_timer [simp]:
  "sm_ok (cancel_timer h q sm) = sm_ok sm" "sm_ok (register_timer env n h q sm) = sm_ok sm"
  "keys_of (cancel_timer h q sm) = keys_of sm" "keys_of (register_timer env n h q sm) = keys_of sm"
  by (simp_all add: sm_ok_def pmksa_ok_def cache_inv_def cancel_timer_def register_timer_def keys_of_def)

lemma step_timer: "step P a sm \<Longrightarrow> step P a (register_timer env n h q sm)" "step P a sm \<Longrightarrow> step P a (cancel_timer h q sm)"
  by (auto simp: step_def log_ext_def)

lemma sm_frame_sel:
    "sm_ptk (sm_frame a) = sm_ptk a" "sm_tptk (sm_frame a) = sm_tptk a" "sm_ptk_set (sm_frame a) = sm_ptk_set a"
    "sm_tptk_set (sm_frame a) = sm_tptk_set a" "sm_snonce (sm_frame a) = sm_snonce a"
    "sm_anonce (sm_frame a) = sm_anonce a" "sm_renew_snonce (sm_frame a) = sm_renew_snonce a"
    "sm_rx_replay_counter (sm_frame a) = sm_rx_replay_counter a"
    "sm_rx_replay_counter_set (sm_frame a) = sm_rx_replay_counter_set a"
    "sm_request_counter (sm_frame a) = sm_request_counter a" "sm_own_addr (sm_frame a) = sm_own_addr a"
    "sm_bssid (sm_frame a) = sm_bssid a" "sm_assoc_wpa_ie (sm_frame a) = sm_assoc_wpa_ie a"
    "sm_proto (sm_frame a) = sm_proto a" "sm_key_mgmt (sm_frame a) = sm_key_mgmt a"
    "sm_peerkey (sm_frame a) = sm_peerkey a" "sm_pairwise_cipher (sm_frame a) = sm_pairwise_cipher a" "sm_pmk_len (sm_frame a) = sm_pmk_len a"
  by (simp_all add: sm_frame_def)

lemma sm_frameD:
  assumes "sm_frame a = sm_frame b"
  shows "sm_ptk a = sm_ptk b" "sm_tptk a = sm_tptk b" "sm_ptk_set a = sm_ptk_set b" "sm_tptk_set a = sm_tptk_set b"
    "sm_snonce a = sm_snonce b" "sm_anonce a = sm_anonce b" "sm_renew_snonce a = sm_renew_snonce b"
    "sm_rx_replay_counter a = sm_rx_replay_counter b" "sm_rx_replay_counter_set a = sm_rx_replay_counter_set b"
    "sm_request_counter a = sm_request_counter b" "sm_own_addr a = sm_own_addr b" "sm_bssid a = sm_bssid b"
    "sm_assoc_wpa_ie a = sm_assoc_wpa_ie b" "sm_proto a = sm_proto b" "sm_key_mgmt a = sm_key_mgmt b"
    "sm_peerkey a = sm_peerkey b" "sm_pairwise_cipher a = sm_pairwise_cipher b" "sm_pmk_len a = sm_pmk_len b"
  by (metis assms sm_frame_sel)+

lemma sm_ok_frame: "sm_ok sm \<Longrightarrow> sm_frame sm' = sm_frame sm \<Longrightarrow> pmksa_ok sm' \<Longrightarrow> sm_ok sm'"
  by (simp add: sm_ok_def sm_frameD [of sm' sm])

lemma pmksa_step_step:
  assumes "sm_ok sm" "pmksa_step sm sm'" "pmksa_ok sm'" "weak P"
  shows "step P sm sm'"
proof -
  have "P e" if "pmksa_event e" for e using that assms(4) by (auto simp: pmksa_event_def weak_def is_set_key_def split: rsn_event.splits)
  then show ?thesis
    using assms(1-3) sm_ok_frame [of sm sm'] sm_frameD [of sm' sm]
    by (auto simp: step_def pmksa_step_def keys_of_def intro: log_ext_mono)
qed

section \<open>Sending\<close>

lemma succeeds_rd_be16 [succeeds_simps]:
  "succeeds (rd_be16 buf i) P = (i + 1 < length buf \<and> P (get_be16 (buf ! i) (buf ! (i + 1))))"
  by (auto simp: rd_be16_def succeeds_simps)

lemma succeeds_wr_bytes [succeeds_simps]:
  "succeeds (wr_bytes buf i d) P = (i + length d \<le> length buf \<and> P (take i buf @ d @ drop (i + length d) buf))"
  by (auto simp: succeeds_def wr_bytes_def)

lemma succeeds_map_option [succeeds_simps]: "succeeds (map_option f m) P = succeeds m (\<lambda>x. P (f x))"
  by (auto simp: succeeds_def)

lemma succeeds_case_option:
  "(m = None \<Longrightarrow> succeeds a P) \<Longrightarrow> (\<And>x. m = Some x \<Longrightarrow> succeeds (f x) P) \<Longrightarrow>
     succeeds (case m of None \<Rightarrow> a | Some x \<Rightarrow> f x) P"
  by (cases m) auto

lemma succeeds_bindI: "succeeds m Q \<Longrightarrow> (\<And>x. Q x \<Longrightarrow> succeeds (f x) P) \<Longrightarrow> succeeds (m \<bind> f) P"
  by (auto simp: succeeds_bind elim: succeeds_mono)

text \<open>Sequencing steps: after a call that returns a number and the state, and after a check that may fail.\<close>

lemma step_cont: "succeeds m (\<lambda>(r, sm'). step P b sm') \<Longrightarrow> step P a b \<Longrightarrow> succeeds m (\<lambda>(r, sm'). step P a sm')"
  by (auto elim!: succeeds_mono intro: step_trans)

lemma step_bindI:
  "succeeds m (\<lambda>(r, sm'). step P a sm') \<Longrightarrow> (\<And>r sm'. step P a sm' \<Longrightarrow> succeeds (f r sm') Q) \<Longrightarrow>
     succeeds (m \<bind> (\<lambda>(r, sm'). f r sm')) Q"
  by (auto simp: succeeds_bind elim!: succeeds_mono)

lemma step_orI:
  "step P a sm \<Longrightarrow> weak P \<Longrightarrow> succeeds m (step P a) \<Longrightarrow> succeeds (if c then Some (failed sm) else m) (step P a)"
  by (simp add: succeeds_if succeeds_Some step_failed_trans)

lemma length_alloc_eapol: "wpa_alloc_eapol env ty n = Some b \<Longrightarrow> n < 65536 \<Longrightarrow> length b = 4 + n"
  by (auto simp: wpa_alloc_eapol_def Let_def unat_of_nat split: if_splits)

lemma length_mic: "hashes_ok hs \<Longrightarrow> wpa_eapol_key_mic hs key ver msg = Some m \<Longrightarrow> length m = 16"
  by (auto simp: wpa_eapol_key_mic_def hashes_ok_def hmac_md5_def hmac_md5_vector_def hmac_sha1_def hmac_sha1_vector_def
      dest!: length_hmac split: if_splits)

lemma wr_len: "length buf = n \<Longrightarrow> i + length d \<le> n \<Longrightarrow> succeeds (wr_bytes buf i d) (\<lambda>b. length b = n)"
  by (simp add: succeeds_wr_bytes)

lemma rd_len: "i + n \<le> length buf \<Longrightarrow> succeeds (rd_bytes buf i n) (\<lambda>d. length d = n)"
  by (simp add: succeeds_rd_bytes)

lemma fill_reply_total:
  assumes "length rbuf = 99 + length kde" "99 \<le> length frame"
  shows "succeeds (fill_reply rbuf ki frame kde sm) (\<lambda>b. length b = 99 + length kde)"
proof -
  have k: "succeeds (if sm_proto sm = WPA_PROTO_RSN then Some (put_be16 0) else rd_bytes frame AT_KEY_LENGTH 2) (\<lambda>d. length d = 2)"
    using assms(2) by (simp add: succeeds_simps)
  note wr = wr_len [where n = "99 + length kde"]
  show ?thesis
    unfolding fill_reply_def
    by (rule succeeds_bindI [OF wr] succeeds_bindI [OF k] succeeds_bindI [OF rd_len] wr assms | assumption | use assms(2) in simp)+
qed

lemma key_send_total:
  assumes "sm_ok sm" "env_ok env" "97 \<le> length msg" "weak P"
  shows "succeeds (wpa_eapol_key_send env key ver dest proto msg mic sm) (step P sm)"
proof -
  define r where "r = (if is_zero_ether_addr dest \<and> is_zero_ether_addr (sm_bssid sm)
         then case ev_bssid env of None \<Rightarrow> (dest, sm) | Some b \<Rightarrow> (b, sm\<lparr>sm_bssid := b\<rparr>) else (dest, sm))"
  obtain d sm1 where d: "r = (d, sm1)" by fastforce
  have ok: "step P sm sm1"
    using assms(1,2) d unfolding r_def
    by (auto simp: step_def env_ok_def sm_ok_def keys_of_def log_ext_def split: if_splits option.splits)
  have ev: "P (Ether_send x y z)" "P Notify_tx_eapol_key" for x y z using assms(4) by (auto simp: weak_def is_set_key_def)
  have "length m = 16" if "wpa_eapol_key_mic (ev_hashes env) key ver msg = Some m" for m
    using length_mic that assms(2) by (auto simp: env_ok_def)
  then show ?thesis
    unfolding wpa_eapol_key_send_def r_def [symmetric] d
    using ok assms(3) ev by (auto simp: succeeds_simps Let_def intro!: step_emit_trans succeeds_case_option)
qed

lemma send_4_of_4_total:
  assumes "sm_ok sm" "env_ok env" "99 \<le> length frame" "weak P" "length kde < 65000"
  shows "succeeds (wpa_supplicant_send_4_of_4 env dst frame ver ki kde ptk sm) (\<lambda>(r, sm'). step P sm sm')"
  unfolding wpa_supplicant_send_4_of_4_def Let_def
proof (rule succeeds_case_option, goal_cases)
  case 1
  then show ?case using assms(1) by (simp add: succeeds_simps step_refl)
next
  case (2 rbuf)
  then have "length rbuf = 99 + length kde" using length_alloc_eapol assms(5) by force
  from fill_reply_total [OF this assms(3)] show ?case
    unfolding succeeds_bind
    by (rule succeeds_mono) (use key_send_total [OF assms(1,2) _ assms(4)] in \<open>auto simp: succeeds_simps elim!: succeeds_mono\<close>)
qed

lemma send_2_of_4_total:
  assumes "sm_ok sm" "env_ok env" "99 \<le> length frame" "weak P" "\<And>ie. wpa_ie = Some ie \<Longrightarrow> length ie < 65000" "length nonce = 32"
  shows "succeeds (wpa_supplicant_send_2_of_4 env dst frame ver nonce wpa_ie ptk sm) (\<lambda>(r, sm'). step P sm sm')"
proof (cases "\<exists>ie rbuf. wpa_ie = Some ie \<and> wpa_alloc_eapol env 3 (95 + length ie) = Some rbuf")
  case False
  then show ?thesis
    using assms(1) by (auto simp: wpa_supplicant_send_2_of_4_def succeeds_simps step_refl split: option.split)
next
  case True
  then obtain ie rbuf where i: "wpa_ie = Some ie" "wpa_alloc_eapol env 3 (95 + length ie) = Some rbuf" by blast
  then have l: "length rbuf = 99 + length ie" using length_alloc_eapol assms(5) by force
  have s: "succeeds (wpa_eapol_key_send env key ver dst 0x888e b True sm) (step P sm)" if "97 \<le> length b" for key b
    by (rule key_send_total [OF assms(1,2) that assms(4)])
  show ?thesis
    unfolding wpa_supplicant_send_2_of_4_def i option.case succeeds_bind
    by (rule succeeds_mono [OF fill_reply_total [OF l assms(3)]])
      (use s assms(6) in \<open>auto simp: succeeds_simps elim!: succeeds_mono\<close>)
qed

lemma send_2_of_2_total:
  assumes "sm_ok sm" "env_ok env" "99 \<le> length frame" "weak P"
  shows "succeeds (wpa_supplicant_send_2_of_2 env frame ver ki sm) (\<lambda>(r, sm'). step P sm sm')"
  unfolding wpa_supplicant_send_2_of_2_def Let_def
proof (rule succeeds_case_option, goal_cases)
  case 1
  then show ?case using assms(1) by (simp add: succeeds_simps step_refl)
next
  case (2 rbuf)
  then have "length rbuf = 99 + length ([] :: bytes)" using length_alloc_eapol by force
  from fill_reply_total [OF this assms(3)] show ?case
    unfolding succeeds_bind
    by (rule succeeds_mono) (use key_send_total [OF assms(1,2) _ assms(4)] in \<open>auto simp: succeeds_simps elim!: succeeds_mono\<close>)
qed

section \<open>Message 1 of the 4-Way Handshake\<close>

text \<open>Changing the PMK or the current entry does not affect the cache.\<close>

lemma sm_ok_pmk: "sm_ok sm \<Longrightarrow> length k = 32 \<Longrightarrow> n \<le> 32 \<Longrightarrow> sm_ok (sm\<lparr>sm_pmk_len := n, sm_pmk := k\<rparr>)"
  by (simp add: sm_ok_def pmksa_ok_def cache_inv_def)

lemma sm_ok_cur: "sm_ok sm \<Longrightarrow> (\<And>p. c = Some p \<Longrightarrow> p \<in> set (sm_pmksa sm)) \<Longrightarrow> sm_ok (sm\<lparr>sm_cur_pmksa := c\<rparr>)"
  by (simp add: sm_ok_def pmksa_ok_def cache_inv_def)

lemma sm_ok_heap: "sm_ok sm \<Longrightarrow> sm_cur_pmksa sm = Some c \<Longrightarrow> \<exists>e. sm_heap sm c = Some e \<and> entry_ok e"
  unfolding sm_ok_def pmksa_ok_def cache_inv_def by (metis append_Nil domD)

lemma sm_ok_get:
  assumes "sm_ok sm"
  shows "\<exists>r. pmksa_cache_get aa k sm = Some r \<and> (\<forall>p. r = Some p \<longrightarrow> p \<in> set (sm_pmksa sm))"
  using pmksa_cache_get_spec [of "[]" sm aa k] assms by (auto simp: sm_ok_def pmksa_ok_def dest: find_SomeD)

lemma set_pmk_from_pmksa_total:
  assumes "sm_ok sm"
  shows "succeeds (wpa_sm_set_pmk_from_pmksa sm) (step P sm)"
proof (cases "sm_cur_pmksa sm")
  case None
  then show ?thesis
    using sm_ok_pmk [OF assms] by (simp add: wpa_sm_set_pmk_from_pmksa_def succeeds_simps step_def keys_of_def log_ext_def)
next
  case (Some c)
  then obtain e where e: "sm_heap sm c = Some e" "entry_ok e" using sm_ok_heap assms by blast
  have "length (sm_pmk sm) = 32" using assms by (simp add: sm_ok_def pmksa_ok_def cache_inv_def)
  then show ?thesis
    using Some e sm_ok_pmk [OF assms]
    by (auto simp: wpa_sm_set_pmk_from_pmksa_def succeeds_simps step_def keys_of_def log_ext_def entry_ok_def)
qed

lemma pmk_from_eapol_total:
  assumes "sm_ok sm" "env_ok env" "entry_fresh env sm" "length src = 6" "weak P"
  shows "succeeds (pmk_from_eapol env src pmkid ab sm) (\<lambda>(f, ab', sm'). step P sm sm')"
proof (cases "case ev_get_key env 32 of Some k \<Rightarrow> Some (32 :: nat, k) | None \<Rightarrow> map_option (Pair (16 :: nat)) (ev_get_key env 16)")
  case None
  then show ?thesis
    using assms(1) sm_ok_cur [OF assms(1), of None]
    by (auto simp: pmk_from_eapol_def succeeds_simps step_def keys_of_def log_ext_def)
next
  case (Some a)
  then obtain n k where a: "a = (n, k)" "length k = n" "n \<le> 32"
    using assms(2) by (auto simp: env_ok_def split: option.splits)
  have l: "length (sm_pmk sm) = 32" using assms(1) by (simp add: sm_ok_def pmksa_ok_def cache_inv_def)
  define sm1 where "sm1 = sm\<lparr>sm_pmk := k @ drop n (sm_pmk sm), sm_pmk_len := n\<rparr>"
  have sm1: "step P sm sm1" "entry_fresh env sm1" "sm_pmksa sm1 = sm_pmksa sm" "sm_pmk sm1 = k @ drop n (sm_pmk sm)"
    "sm_proto sm1 = sm_proto sm" "sm_own_addr sm1 = sm_own_addr sm"
    using assms(1,3) a l by (auto simp: sm1_def step_def keys_of_def log_ext_def entry_fresh_def sm_ok_def pmksa_ok_def cache_inv_def)
  have ok1: "sm_ok sm1" using sm1(1) by (simp add: step_def)
  have n: "n \<le> length (k @ drop n (sm_pmk sm))" using a by simp
  have add: "succeeds (pmksa_cache_add env (k @ drop n (sm_pmk sm)) n src spa ctx akm sm1) (\<lambda>(r, sm'). step P sm sm')" for spa ctx akm
  proof -
    have "pmksa_ok sm1" "hashes_ok (ev_hashes env)" using ok1 assms(2) by (simp_all add: sm_ok_def env_ok_def)
    from add_total [OF this assms(4) n sm1(2), of spa ctx akm] show ?thesis
      by (rule succeeds_mono) (use pmksa_step_step [OF ok1 _ _ assms(5)] step_trans [OF sm1(1)] in auto)
  qed
  have get: "succeeds (if sm_cur_pmksa sm' = None \<and> pmkid \<noteq> None then pmksa_cache_get (Some src) pmkid sm' else Some None)
    (\<lambda>found. step P sm sm')" if "step P sm sm'" for sm'
    using that sm_ok_get [of sm' "Some src" pmkid] by (auto simp: step_def succeeds_def)
  have a2: "succeeds (if sm_proto sm1 = WPA_PROTO_RSN \<and> \<not> wpa_key_mgmt_ft (sm_key_mgmt sm1)
      then map_option snd (pmksa_cache_add env (sm_pmk sm1) n src (sm_own_addr sm1) (sm_network_ctx sm1) (sm_key_mgmt sm1) sm1)
      else Some sm1) (step P sm)"
    using sm1(1,4) add by (simp add: succeeds_simps split_def)
  have w: "succeeds (wr_bytes (sm_pmk sm) 0 k) (\<lambda>pmk. sm\<lparr>sm_pmk := pmk, sm_pmk_len := n\<rparr> = sm1)"
    using l a(2,3) by (simp add: succeeds_wr_bytes sm1_def)
  show ?thesis
    unfolding pmk_from_eapol_def Some a(1) option.case prod.case Let_def
  proof (rule succeeds_bindI [OF w], simp only:, rule succeeds_bindI [OF a2], rule succeeds_bindI [OF get], assumption)
  qed (simp add: succeeds_Some)
qed

lemma entry_fresh_upd [simp]:
  "entry_fresh env (emit e sm) = entry_fresh env sm" "entry_fresh env (sm\<lparr>sm_cur_pmksa := c\<rparr>) = entry_fresh env sm"
  by (simp_all add: entry_fresh_def)

lemma get_pmk_total:
  assumes "sm_ok sm" "env_ok env" "entry_fresh env sm" "length src = 6" "weak P"
  shows "succeeds (wpa_supplicant_get_pmk env src pmkid sm) (\<lambda>(r, sm'). step P sm sm')"
proof -
  have ev: "P Notify_cached" "P (Ether_send x y z)" for x y z using assms(5) by (auto simp: weak_def is_set_key_def)
  have 1: "succeeds (if pmkid \<noteq> None \<and> sm_cur_pmksa sm = None then do {
      c \<leftarrow> pmksa_cache_get (Some src) pmkid sm;
      Some (c = None, sm\<lparr>sm_cur_pmksa := c\<rparr>) } else Some (False, sm)) (\<lambda>(ab, sm1). step P sm sm1 \<and> entry_fresh env sm1)"
  proof -
    obtain c where c: "pmksa_cache_get (Some src) pmkid sm = Some c" "\<And>p. c = Some p \<Longrightarrow> p \<in> set (sm_pmksa sm)"
      using sm_ok_get [OF assms(1)] by blast
    then show ?thesis
      using assms(1,3) sm_ok_cur [OF assms(1) c(2)]
      by (simp add: succeeds_simps step_refl) (simp add: step_def keys_of_def log_ext_def)
  qed
  have 2: "succeeds (case (pmkid, sm_cur_pmksa sm1) of (Some k, Some c) \<Rightarrow> do { e \<leftarrow> sm_heap sm1 c; Some (k = pe_pmkid e) }
      | _ \<Rightarrow> Some False) (\<lambda>_. True)" if "step P sm sm1" for sm1
    using sm_ok_heap [of sm1] that by (auto simp: step_def succeeds_simps split: option.split)
  have 3: "succeeds (if matched then do {
          sm \<leftarrow> wpa_sm_set_pmk_from_pmksa sm1;
          Some (False, ab, emit Notify_cached sm) }
        else if wpa_key_mgmt_wpa_ieee8021x (sm_key_mgmt sm1) \<and> sm_eapol sm1
        then pmk_from_eapol env src pmkid ab sm1
        else Some (False, ab, sm1)) (\<lambda>(f, ab', sm'). step P sm sm')"
    if "step P sm sm1" "entry_fresh env sm1" for sm1 matched ab
  proof -
    have ok: "sm_ok sm1" using that(1) by (simp add: step_def)
    show ?thesis
      using set_pmk_from_pmksa_total [OF ok, of P] pmk_from_eapol_total [OF ok assms(2) that(2) assms(4,5), of pmkid ab] that(1) ev(1)
      by (auto simp: succeeds_simps elim!: succeeds_mono intro: step_trans step_emit_trans)
  qed
  show ?thesis
    unfolding wpa_supplicant_get_pmk_def
  proof (rule succeeds_bindI [OF 1], elim case_prodE conjE, hypsubst, unfold prod.case,
      rule succeeds_bindI [OF 2 [unfolded prod.case]], assumption, rule succeeds_bindI [OF 3], assumption, assumption)
    fix x :: "bool \<times> bool \<times> wpa_sm"
    assume "case x of (f, ab', sm') \<Rightarrow> step P sm sm'"
    then show "succeeds (case x of (fl, abort_cached, sm) \<Rightarrow> if fl then Some (-1, sm)
       else if abort_cached \<and> wpa_key_mgmt_wpa_ieee8021x (sm_key_mgmt sm) \<and> \<not> wpa_key_mgmt_ft (sm_key_mgmt sm)
       then (case wpa_alloc_eapol env 1 0 of
             Some buf \<Rightarrow> Some (-2, emit (Ether_send (sm_bssid sm) ETH_P_EAPOL buf) sm)
           | None \<Rightarrow> Some (-1, sm))
       else Some (0, sm)) (\<lambda>(r, sm'). step P sm sm')"
      by (auto simp: succeeds_simps split: option.split intro!: step_emit_trans ev(2))
  qed
qed

lemma derive_ptk_total:
  assumes "sm_ok sm" "env_ok env" "99 \<le> length frame" "length ptk = 64"
  shows "succeeds (wpa_derive_ptk env frame ptk sm) (\<lambda>p. length p = 64)"
proof -
  have ptk: "length (snd (wpa_pmk_to_ptk (ev_hashes env) pmk l a1 a2 n1 n2 n)) \<le> n" for pmk l a1 a2 n1 n2 n
    using length_sha1_prf [of "sha1_vector (ev_hashes env)"] assms(2)
    by (simp add: env_ok_def hashes_ok_def wpa_pmk_to_ptk_def Let_def) (metis prod.exhaust_sel)
  have "length (snd (wpa_pmk_to_ptk (ev_hashes env) pmk l a1 a2 n1 n2 (if c then 48 else 64))) \<le> 64" for pmk l a1 a2 n1 n2 c
    by (rule order_trans [OF ptk]) simp
  moreover have "sm_pmk_len sm \<le> length (sm_pmk sm)" using assms(1) by (simp add: sm_ok_def pmksa_ok_def cache_inv_def)
  ultimately show ?thesis
    using assms(3,4) unfolding wpa_derive_ptk_def Let_def
    by (intro succeeds_bindI [OF rd_len] wr_len) auto
qed

lemma reply_1_of_4_total:
  assumes "sm_ok sm" "env_ok env" "99 \<le> length frame" "weak P"
  shows "succeeds (reply_1_of_4 env frame ver sm) (step P sm)"
proof -
  have l: "length (sm_tptk sm) = 64" using assms(1) by (simp add: sm_ok_def)
  show ?thesis
    unfolding reply_1_of_4_def Let_def
  proof (rule succeeds_bindI [OF derive_ptk_total [OF assms(1-3) l]])
    fix p :: bytes
    assume p: "length p = 64"
    let ?sm = "sm\<lparr>sm_tptk := swap_mic_keys p, sm_tptk_set := True\<rparr>"
    have s: "step P sm ?sm"
      using assms(1) p by (simp add: step_def sm_ok_upd swap_mic_keys_def)
    then have ok: "sm_ok ?sm" by (simp add: step_def)
    have "succeeds (wpa_supplicant_send_2_of_4 env (sm_bssid ?sm) frame ver (sm_snonce ?sm) (sm_assoc_wpa_ie ?sm)
      (sm_tptk ?sm) ?sm) (\<lambda>(r, sm'). step P ?sm sm')"
      by (rule send_2_of_4_total [OF ok assms(2-4)]) (use assms(1) in \<open>auto simp: sm_ok_def\<close>)
    then show "succeeds (wpa_supplicant_send_2_of_4 env (sm_bssid ?sm) frame ver (sm_snonce ?sm) (sm_assoc_wpa_ie ?sm)
      (sm_tptk ?sm) ?sm \<bind> (\<lambda>(res, sm). if res \<noteq> 0 then Some (failed sm)
       else rd_bytes frame 17 32 \<bind> (\<lambda>nonce. Some (sm\<lparr>sm_anonce := nonce\<rparr>)))) (step P sm)"
    proof (rule succeeds_bindI, clarify)
      fix r sm'
      assume "step P ?sm sm'"
      then have s': "step P sm sm'" using s step_trans by blast
      then have "step P sm (sm'\<lparr>sm_anonce := take 32 (drop 17 frame)\<rparr>)"
        using assms(3) by (simp add: step_def sm_ok_upd)
      then show "succeeds (if r \<noteq> 0 then Some (failed sm') else rd_bytes frame 17 32 \<bind> (\<lambda>nonce. Some (sm'\<lparr>sm_anonce := nonce\<rparr>))) (step P sm)"
        using s' assms(3,4) by (simp add: succeeds_simps step_failed_trans)
    qed
  qed
qed

lemma process_1_of_4_total:
  assumes "sm_ok sm" "env_ok env" "entry_fresh env sm" "length src = 6" "weak P" "99 + kdl \<le> length frame"
    "rd_be16 frame 97 = Some k" "unat k = kdl"
  shows "succeeds (wpa_supplicant_process_1_of_4 env src frame ver sm) (step P sm)"
proof (cases "ev_network_ctx env = NULL")
  case True
  then show ?thesis using assms(1) by (simp add: wpa_supplicant_process_1_of_4_def succeeds_simps step_refl)
next
  case False
  let ?sm = "emit (Set_state WPA_4WAY_HANDSHAKE) sm"
  have s: "step P sm ?sm" "sm_ok ?sm" using assms(1,5) by (auto simp: weak_def is_set_key_def intro: step_emit)
  have fl: "99 \<le> length frame" using assms(6) by simp
  obtain r ie where ie: "wpa_supplicant_parse_ies frame 99 kdl = Some (r, ie)" "ies_ok (99 + kdl) ie"
    using parse_ies_total [OF assms(6)] by blast
  then have 1: "succeeds (if sm_proto ?sm = WPA_PROTO_RSN then do {
            len \<leftarrow> rd_be16 frame AT_DATA_LENGTH;
            (r, ie) \<leftarrow> wpa_supplicant_parse_ies frame AT_DATA (unat len);
            (case ei_pmkid ie of None \<Rightarrow> Some None | Some p \<Rightarrow> map_option Some (rd_bytes frame p PMKID_LEN)) }
          else Some None) (\<lambda>_. True)"
    using assms(6-8) by (auto simp: ies_ok_def succeeds_simps split: option.split)
  have 2: "succeeds (wpa_supplicant_get_pmk env src pmkid ?sm) (\<lambda>(r, sm'). step P sm sm')" for pmkid
    using get_pmk_total [OF s(2) assms(2) _ assms(4,5), of pmkid] assms(3) s(1)
    by (auto elim!: succeeds_mono intro: step_trans)
  have 3: "succeeds (reply_1_of_4 env frame ver sm2) (step P sm)" if "step P sm sm2" for sm2
  proof -
    have "sm_ok sm2" using that by (simp add: step_def)
    then show ?thesis by (rule succeeds_mono [OF reply_1_of_4_total [OF _ assms(2) fl assms(5)]]) (rule step_trans [OF that])
  qed
  have 4: "step P sm (sm2\<lparr>sm_snonce := n, sm_renew_snonce := False\<rparr>)" if "step P sm sm2" "ev_random env = Some n" for sm2 n
    using that assms(2) by (simp add: step_def sm_ok_upd env_ok_def)
  show ?thesis
    unfolding wpa_supplicant_process_1_of_4_def Let_def if_not_P [OF False]
    by (rule succeeds_bindI [OF 1], rule succeeds_bindI [OF 2])
      (use 3 4 assms(5) in \<open>auto simp: succeeds_simps step_failed_trans split: option.split\<close>)
qed

section \<open>Installing keys\<close>

text \<open>
  The keys that may be given to the driver: a key for an individual address is the temporal key of the PTK, the others
  are group keys.
\<close>

definition key_event :: "bytes \<Rightarrow> rsn_event \<Rightarrow> bool" where
  "key_event ptk e \<longleftrightarrow> (case e of
     Set_key alg addr idx tx rsc key \<Rightarrow>
       addr = None \<or> addr = Some (replicate 6 0xff) \<or>
       idx = 0 \<and> tx = 1 \<and> (alg = WPA_ALG_CCMP \<and> key = take 16 (drop 32 ptk) \<or> alg = WPA_ALG_TKIP \<and> key = take 32 (drop 32 ptk))
   | _ \<Rightarrow> True)"

lemma weak_key_event: "weak (key_event ptk)"
  by (simp add: weak_def key_event_def is_set_key_def split: rsn_event.split)

lemma step_sm_ok: "step P a b \<Longrightarrow> sm_ok b"
  by (simp add: step_def)

lemma step_ptk: "step P a b \<Longrightarrow> sm_ptk b = sm_ptk a"
  by (simp add: step_def keys_of_def)

lemma key_neg_complete_total:
  assumes "sm_ok sm" "weak P"
  shows "succeeds (wpa_supplicant_key_neg_complete env addr secure sm) (step P sm)"
proof -
  define sm1 where "sm1 = (let sm = emit (Set_state WPA_COMPLETED) (emit Cancel_auth_timeout sm) in
    if secure then
                  let sm = emit (Notify_portValid True) (emit (Mlme_setprotection addr 3 1) sm);
                      sm = (if wpa_key_mgmt_wpa_psk (sm_key_mgmt sm) then emit (Notify_eap_success True) sm else sm)
                  in register_timer env 1 H_wpa_sm_start_preauth (sm_self sm) sm
                else sm)"
  have s: "step P sm sm1"
    using assms unfolding sm1_def Let_def
    by (auto intro!: step_emit_trans step_emit step_timer simp: weak_def is_set_key_def)
  then have ok: "sm_ok sm1" by (rule step_sm_ok)
  have upd: "step P sm (sm1\<lparr>sm_heap := (sm_heap sm1)(c \<mapsto> e\<lparr>pe_opportunistic := False\<rparr>)\<rparr>)"
    if "sm_heap sm1 c = Some e" "sm_cur_pmksa sm1 = Some c" for c e
  proof -
    let ?h = "(sm_heap sm1)(c \<mapsto> e\<lparr>pe_opportunistic := False\<rparr>)"
    have inv: "cache_inv [] sm1" using ok by (simp add: sm_ok_def pmksa_ok_def)
    have "(\<lambda>p. pe_aa (the (?h p))) = (\<lambda>p. pe_aa (the (sm_heap sm1 p)))" using that(1) by (auto simp: fun_eq_iff)
    moreover have "dom ?h = dom (sm_heap sm1)" using that(1) by auto
    moreover have "entry_ok x" if "?h p = Some x" for p x
      using that inv \<open>sm_heap sm1 c = Some e\<close> by (auto simp: cache_inv_def entry_ok_def split: if_splits)
    ultimately have "pmksa_ok (sm1\<lparr>sm_heap := ?h\<rparr>)" using inv unfolding pmksa_ok_def cache_inv_def by (simp del: fun_upd_apply)
    then show ?thesis using s ok by (simp add: step_def sm_ok_def keys_of_def log_ext_def del: fun_upd_apply)
  qed
  have "wpa_supplicant_key_neg_complete env addr secure sm = (case sm_cur_pmksa sm1 of
           None \<Rightarrow> Some sm1
         | Some c \<Rightarrow> do {
             e \<leftarrow> sm_heap sm1 c;
             Some (if pe_opportunistic e
                   then sm1\<lparr>sm_heap := (sm_heap sm1)(c \<mapsto> e\<lparr>pe_opportunistic := False\<rparr>)\<rparr> else sm1) })"
    by (simp only: wpa_supplicant_key_neg_complete_def sm1_def Let_def)
  then show ?thesis
    using s upd sm_ok_heap [OF ok]
    by (cases "sm_cur_pmksa sm1") (auto simp: succeeds_simps simp del: fun_upd_apply)
qed

lemma install_ptk_total:
  assumes "sm_ok sm" "99 \<le> length frame"
  shows "succeeds (wpa_supplicant_install_ptk env frame sm) (\<lambda>(r, sm'). step (key_event (sm_ptk sm)) sm sm')"
proof -
  have l: "length (sm_ptk sm) = 64" using assms(1) by (simp add: sm_ok_def)
  have e: "step (key_event (sm_ptk sm)) sm (emit (Set_key WPA_ALG_CCMP (Some (sm_bssid sm)) 0 1 r (take 16 (drop 32 (sm_ptk sm)))) sm)"
    "step (key_event (sm_ptk sm)) sm (emit (Set_key WPA_ALG_TKIP (Some (sm_bssid sm)) 0 1 r (take 32 (drop 32 (sm_ptk sm)))) sm)" for r
    using assms(1) by (auto intro!: step_emit simp: key_event_def)
  show ?thesis
    using assms l e step_refl [OF assms(1)] unfolding wpa_supplicant_install_ptk_def Let_def
    by (auto simp: succeeds_simps intro!: step_timer)
qed

definition gtk_ok :: "wpa_gtk_data \<Rightarrow> bool" where
  "gtk_ok gd \<longleftrightarrow> gd_key_rsc_len gd \<le> 8 \<and> length (gd_gtk gd) = 32 \<and> gd_gtk_len gd \<le> 32"

lemma check_group_cipherD:
  "wpa_supplicant_check_group_cipher c n m = Some (rsclen, alg) \<Longrightarrow> rsclen \<le> 8 \<and> n \<le> 32 \<and> n \<le> m"
  by (auto simp: wpa_supplicant_check_group_cipher_def split: if_splits)

lemma install_gtk_total:
  assumes "sm_ok sm" "99 \<le> length frame" "gtk_ok gd"
  shows "succeeds (wpa_supplicant_install_gtk env gd frame sm) (\<lambda>(r, sm'). step (key_event ptk) sm sm')"
  using assms unfolding wpa_supplicant_install_gtk_def gtk_ok_def
  by (auto simp: succeeds_simps Let_def key_event_def intro!: step_emit)

lemma pairwise_gtk_total:
  assumes "sm_ok sm" "99 \<le> length frame" "gtk + n \<le> length frame"
  shows "succeeds (wpa_supplicant_pairwise_gtk env frame gtk n ki sm) (\<lambda>(r, sm'). step (key_event ptk) sm sm')"
proof -
  have i: "succeeds (do { (r, sm) \<leftarrow> wpa_supplicant_install_gtk env gd frame sm;
             if r \<noteq> 0 then Some (-1, sm)
             else do {
               sm \<leftarrow> wpa_supplicant_key_neg_complete env (sm_bssid sm) (ki AND WPA_KEY_INFO_SECURE \<noteq> 0) sm;
               Some (0, sm) } }) (\<lambda>(r :: int, sm'). step (key_event ptk) sm sm')" if "gtk_ok gd" for gd
  proof (rule succeeds_bindI [OF install_gtk_total [OF assms(1,2) that, where ptk = ptk]], elim case_prodE, hypsubst, unfold prod.case)
    fix r sm1
    assume s: "step (key_event ptk) sm sm1"
    from succeeds_mono [OF key_neg_complete_total [OF step_sm_ok [OF s] weak_key_event] step_trans [OF s]] s
    show "succeeds (if r \<noteq> 0 then Some (-1, sm1) else do {
       sm \<leftarrow> wpa_supplicant_key_neg_complete env (sm_bssid sm1) (ki AND WPA_KEY_INFO_SECURE \<noteq> 0) sm1;
       Some (0, sm) }) (\<lambda>(r :: int, sm'). step (key_event ptk) sm sm')"
      by (simp add: succeeds_simps)
  qed
  show ?thesis
    using assms step_refl [OF assms(1)] unfolding wpa_supplicant_pairwise_gtk_def Let_def
    by (auto simp: succeeds_simps no_gtk_data_def gtk_ok_def dest!: check_group_cipherD split: option.split
        intro!: i [unfolded succeeds_bind])
qed

section \<open>Message 3 and the Group Key Handshake\<close>

lemma validate_ie_total:
  assumes "sm_ok sm" "ies_ok fin ie" "fin \<le> length frame" "weak P"
  shows "succeeds (wpa_supplicant_validate_ie env frame ie sm) (\<lambda>(r, sm'). step P sm sm')"
proof -
  define sm1 where "sm1 = (if sm_ap_wpa_ie sm = None \<and> sm_ap_rsn_ie sm = None
               then sm\<lparr>sm_ap_wpa_ie := fst (ev_beacon_ie env), sm_ap_rsn_ie := snd (ev_beacon_ie env)\<rparr> else sm)"
  have s: "step P sm sm1" using assms(1) by (auto simp: sm1_def step_def sm_ok_upd)
  have b: "succeeds (ie_bytes frame e) (\<lambda>_. True)" if "inside fin e" for e
    using that assms(3) by (auto simp: ie_bytes_def inside_def succeeds_simps split: option.split)
  have w: "inside fin (ei_wpa_ie ie)" and r: "inside fin (ei_rsn_ie ie)" using assms(2) by (simp_all add: ies_ok_def)
  have m: "step P sm (wpa_report_ie_mismatch sm1)"
    using s assms(4) by (auto simp: wpa_report_ie_mismatch_def weak_def is_set_key_def intro: step_emit_trans)
  show ?thesis
    unfolding wpa_supplicant_validate_ie_def Let_def sm1_def [symmetric]
    by (rule succeeds_bindI [OF b [OF w]], rule succeeds_bindI [OF b [OF r]]) (use s m in \<open>auto simp: succeeds_simps\<close>)
qed

lemma check_3_of_4_total:
  assumes "sm_ok sm" "ies_ok fin ie" "fin \<le> length frame" "99 \<le> length frame" "weak P"
  shows "succeeds (check_3_of_4 env frame ie sm) (\<lambda>(r, sm'). step P sm sm')"
  unfolding check_3_of_4_def
  using assms(1,4) validate_ie_total [OF assms(1-3,5), of env]
  by (auto simp: succeeds_simps step_refl elim!: succeeds_mono)

lemma process_3_of_4_total:
  assumes "sm_ok sm" "env_ok env" "99 + unat k \<le> length frame" "rd_be16 frame 97 = Some k"
  shows "succeeds (wpa_supplicant_process_3_of_4 env frame ver sm) (step (key_event (sm_ptk sm)) sm)"
proof -
  let ?P = "key_event (sm_ptk sm)"
  note w = weak_key_event [of "sm_ptk sm"]
  have fl: "99 \<le> length frame" using assms(3) by simp
  obtain r ie where ie: "wpa_supplicant_parse_ies frame 99 (unat k) = Some (r, ie)" "ies_ok (99 + unat k) ie"
    using parse_ies_total [OF assms(3)] by blast
  have ki: "succeeds (rd_be16 frame 5) (\<lambda>_. True)" using fl by (simp add: succeeds_simps)
  let ?sm = "emit (Set_state WPA_4WAY_HANDSHAKE) sm"
  have s: "step ?P sm ?sm" using assms(1) by (auto intro!: step_emit simp: key_event_def)
  have 1: "succeeds (check_3_of_4 env frame ie ?sm) (\<lambda>(ok, sm'). step ?P sm sm')"
    by (rule step_cont [OF check_3_of_4_total [OF step_sm_ok [OF s] ie(2) assms(3) fl w] s])
  have 2: "succeeds (wpa_supplicant_send_4_of_4 env dst frame ver ki [] ptk sm1) (\<lambda>(ok, sm'). step ?P sm sm')"
    if "step ?P sm sm1" for sm1 dst ki ptk
    by (rule step_cont [OF send_4_of_4_total [OF step_sm_ok [OF that] assms(2) fl w] that]) simp
  have 3: "succeeds (if c then wpa_supplicant_install_ptk env frame (sm1\<lparr>sm_renew_snonce := True\<rparr>)
      else Some (0, sm1\<lparr>sm_renew_snonce := True\<rparr>)) (\<lambda>(ok, sm'). step ?P sm sm')" if "step ?P sm sm1" for sm1 c
  proof -
    have s1: "step ?P sm (sm1\<lparr>sm_renew_snonce := True\<rparr>)" using that by (simp add: step_def sm_ok_upd)
    show ?thesis
      using s1 step_cont [OF install_ptk_total [OF step_sm_ok [OF s1] fl, of env, unfolded step_ptk [OF s1]] s1]
      by (simp add: succeeds_simps)
  qed
  have 4: "step ?P sm (emit (Set_state WPA_GROUP_HANDSHAKE) (if c
      then emit (Notify_portValid True) (emit (Mlme_setprotection a 1 1) sm1) else sm1))" if "step ?P sm sm1" for sm1 c a
    using that by (auto intro!: step_emit_trans simp: key_event_def)
  have 5: "succeeds (case ei_gtk ie of None \<Rightarrow> Some (0, sm1)
        | Some (gtk, gtk_len) \<Rightarrow> wpa_supplicant_pairwise_gtk env frame gtk gtk_len ki sm1) (\<lambda>(ok, sm'). step ?P sm sm')"
    if "step ?P sm sm1" for sm1 ki
  proof (rule succeeds_case_option)
    show "succeeds (Some (0, sm1)) (\<lambda>(ok :: int, sm'). step ?P sm sm')" using that by (simp add: succeeds_simps)
  next
    fix x
    assume "ei_gtk ie = Some x"
    then have "fst x + snd x \<le> length frame" using ie(2) assms(3) by (cases x) (auto simp: ies_ok_def inside_def)
    from step_cont [OF pairwise_gtk_total [OF step_sm_ok [OF that] fl this] that]
    show "succeeds (case x of (gtk, gtk_len) \<Rightarrow> wpa_supplicant_pairwise_gtk env frame gtk gtk_len ki sm1) (\<lambda>(ok, sm'). step ?P sm sm')"
      by (cases x) simp
  qed
  show ?thesis
    unfolding wpa_supplicant_process_3_of_4_def Let_def assms(4) bind.simps ie(1) prod.case
    by (rule succeeds_bindI [OF ki], rule step_bindI [OF 1], rule step_orI [OF _ w], assumption, rule step_bindI [OF 2], assumption,
        rule step_orI [OF _ w], assumption, rule step_bindI [OF 3], assumption, rule step_orI [OF _ w], assumption,
        rule step_bindI [OF 5 [OF 4]], assumption, rule step_orI [OF _ w], assumption)
      (auto simp: succeeds_Some key_event_def intro!: step_emit_trans)
qed

lemma process_1_of_2_rsn_total:
  assumes "99 + kdl \<le> length frame" "gtk_ok gd"
  shows "succeeds (wpa_supplicant_process_1_of_2_rsn frame kdl ki sm gd) (\<lambda>(r, gd'). r = 0 \<longrightarrow> gtk_ok gd')"
proof -
  obtain r ie where ie: "wpa_supplicant_parse_ies frame 99 kdl = Some (r, ie)" "ies_ok (99 + kdl) ie"
    using parse_ies_total [OF assms(1)] by blast
  have g: "p + l \<le> length frame \<and> 2 < l" if "ei_gtk ie = Some (p, l)" for p l
    using that ie(2) assms(1) by (auto simp: ies_ok_def inside_def)
  show ?thesis
    using assms(2) unfolding wpa_supplicant_process_1_of_2_rsn_def ie(1) bind.simps prod.case
    by (auto simp: succeeds_simps Let_def gtk_ok_def dest!: check_group_cipherD g split: option.split prod.split)
qed

lemma decrypt_gtk_wpa_total:
  assumes "env_ok env" "99 + kdl \<le> length frame" "length gtk = 32" "ver = 2 \<longrightarrow> maxlen + 8 = kdl"
  shows "succeeds (decrypt_gtk_wpa env frame kdl maxlen ver sm gtk) (\<lambda>(r, gtk'). length gtk' = 32)"
proof -
  have rc4: "length p = length d" if "ev_rc4_skip env x n d = Some p" for x n d p using that assms(1) by (auto simp: env_ok_def)
  have u: "succeeds (aes_unwrap (ev_aes_decrypt env) (ev_aes_init env) k (maxlen div 8) (drop 99 frame)) (\<lambda>(r, p). length p = 8 * (maxlen div 8))"
    if "ver = 2" for k
    by (rule aes_unwrap_total) (use that assms in \<open>auto simp: env_ok_def\<close>)
  show ?thesis
  proof (cases "ver = 2")
    case True
    have "succeeds (do { (r, p) \<leftarrow> aes_unwrap (ev_aes_decrypt env) (ev_aes_init env) (kek (sm_ptk sm)) (maxlen div 8) (drop 99 frame);
       gtk \<leftarrow> wr_bytes gtk 0 p; Some (if r \<noteq> 0 then -1 else 0 :: int, gtk) }) (\<lambda>(r, gtk'). length gtk' = 32)" if "maxlen \<le> 32"
      by (rule succeeds_bindI [OF u [OF True]]) (use that assms(3) in \<open>auto simp: succeeds_simps\<close>)
    then show ?thesis using True assms(3) by (simp add: decrypt_gtk_wpa_def succeeds_if succeeds_Some not_less)
  next
    case False
    then show ?thesis
      using assms(2,3) unfolding decrypt_gtk_wpa_def by (auto simp: succeeds_simps dest!: rc4 split: option.split)
  qed
qed

lemma process_1_of_2_wpa_total:
  assumes "env_ok env" "99 + kdl \<le> length frame" "length (gd_gtk gd) = 32"
  shows "succeeds (wpa_supplicant_process_1_of_2_wpa env frame kdl ki xl ver sm gd) (\<lambda>(r, gd'). r = 0 \<longrightarrow> gtk_ok gd')"
proof -
  define ml where "ml = (if ver = WPA_KEY_INFO_TYPE_HMAC_SHA1_AES then kdl - 8 else kdl)"
  obtain kl where kl: "rd_be16 frame 7 = Some kl" using assms(2) by (auto simp: rd_be16_def rd_def)
  note d = wpa_supplicant_process_1_of_2_wpa_def Let_def ml_def [symmetric] kl bind.simps
  show ?thesis
  proof (cases "xl < kdl \<or> ver = 2 \<and> kdl < 8 \<or>
      wpa_supplicant_check_group_cipher (sm_group_cipher sm) (uint kl) (int ml) = None")
    case True
    then show ?thesis unfolding d by (auto simp: succeeds_if succeeds_Some)
  next
    case False
    then obtain a b where ok: "\<not> xl < kdl" "\<not> (ver = 2 \<and> kdl < 8)"
      "wpa_supplicant_check_group_cipher (sm_group_cipher sm) (uint kl) (int ml) = Some (a, b)" by auto
    have "ver = 2 \<longrightarrow> ml + 8 = kdl" using ok(2) by (auto simp: ml_def)
    from decrypt_gtk_wpa_total [OF assms this, of sm] obtain r g where
      g: "decrypt_gtk_wpa env frame kdl ml ver sm (gd_gtk gd) = Some (r, g)" "length g = 32" by (auto simp: succeeds_def)
    have "a \<le> 8" "int (unat kl) \<le> 32" using check_group_cipherD [OF ok(3)] by simp_all
    then have "a \<le> 8" "unat kl \<le> 32" by linarith+
    then show ?thesis
      unfolding d if_not_P [OF ok(1)] if_not_P [OF ok(2)] ok(3) option.case prod.case
      using g by (simp add: succeeds_if succeeds_Some gtk_ok_def)
  qed
qed

lemma process_1_of_2_total:
  assumes "sm_ok sm" "env_ok env" "99 + unat k \<le> length frame" "rd_be16 frame 97 = Some k"
  shows "succeeds (wpa_supplicant_process_1_of_2 env frame xl ver sm) (step (key_event (sm_ptk sm)) sm)"
proof -
  let ?P = "key_event (sm_ptk sm)"
  note w = weak_key_event [of "sm_ptk sm"]
  have fl: "99 \<le> length frame" using assms(3) by simp
  have ki: "succeeds (rd_be16 frame 5) (\<lambda>_. True)" using fl by (simp add: succeeds_simps)
  have no: "gtk_ok no_gtk_data" "length (gd_gtk no_gtk_data) = 32" by (simp_all add: gtk_ok_def no_gtk_data_def)
  have 1: "succeeds (if sm_proto sm = WPA_PROTO_RSN
        then wpa_supplicant_process_1_of_2_rsn frame (unat k) ki sm no_gtk_data
        else wpa_supplicant_process_1_of_2_wpa env frame (unat k) ki xl ver sm no_gtk_data) (\<lambda>(r, gd'). r = 0 \<longrightarrow> gtk_ok gd')" for ki
    by (simp add: succeeds_if process_1_of_2_rsn_total [OF assms(3) no(1)] process_1_of_2_wpa_total [OF assms(2,3) no(2)])
  let ?sm = "emit (Set_state WPA_GROUP_HANDSHAKE) sm"
  have s: "step ?P sm ?sm" using assms(1) by (auto intro!: step_emit simp: key_event_def)
  have 2: "succeeds (wpa_supplicant_install_gtk env gd frame ?sm) (\<lambda>(r, sm'). step ?P sm sm')" if "gtk_ok gd" for gd
    by (rule step_cont [OF install_gtk_total [OF step_sm_ok [OF s] fl that] s])
  have 3: "succeeds (wpa_supplicant_send_2_of_2 env frame ver ki sm1) (\<lambda>(r, sm'). step ?P sm sm')" if "step ?P sm sm1" for ki sm1
    by (rule step_cont [OF send_2_of_2_total [OF step_sm_ok [OF that] assms(2) fl w] that])
  have 4: "succeeds (if c then Some (emit (Set_rekey_offload k1 k2 k3) (emit (Set_state WPA_COMPLETED) (emit Cancel_auth_timeout sm1)))
       else wpa_supplicant_key_neg_complete env a b sm1) (step ?P sm)" if "step ?P sm sm1" for c k1 k2 k3 a b sm1
    using that succeeds_mono [OF key_neg_complete_total [OF step_sm_ok [OF that] w] step_trans [OF that]]
    by (auto simp: succeeds_simps key_event_def intro!: step_emit_trans)
  show ?thesis
    unfolding wpa_supplicant_process_1_of_2_def Let_def assms(4) bind.simps
    by (rule succeeds_bindI [OF ki], rule succeeds_bindI [OF 1], elim case_prodE, hypsubst, unfold prod.case)
      (cases, auto simp: succeeds_if succeeds_Some step_failed_trans [OF s w] intro!: step_bindI [OF 2] step_bindI [OF 3] step_orI [OF _ w] 4)
qed

end
