(* ===== verification/Wpa_Sm_Rx.thy ===== *)
theory Wpa_Sm_Rx
  imports Wpa_Sm_Safe
begin

text \<open>
  Receiving EAPOL-Key frames: no frame makes the state machine read or write outside its buffers (but for one case,
  which is stated as well), and only a frame with a valid MIC and a fresh replay counter changes the keys in use.
\<close>

section \<open>Verifying the MIC\<close>

definition clear_mic :: "bytes \<Rightarrow> bytes" where
  "clear_mic frame = take 81 frame @ replicate 16 0 @ drop 97 frame"

text \<open>The MIC of the frame is the one that \<open>ptk\<close> gives.\<close>

definition mic_valid :: "rsn_env \<Rightarrow> bytes \<Rightarrow> u16 \<Rightarrow> nat \<Rightarrow> bytes \<Rightarrow> bool" where
  "mic_valid env ptk ver len frame \<longleftrightarrow>
     wpa_eapol_key_mic (ev_hashes env) (kck ptk) ver (take len (clear_mic frame)) = Some (take 16 (drop 81 frame))"

definition with_mic :: "bytes \<Rightarrow> bytes \<Rightarrow> bool" where
  "with_mic frame f \<longleftrightarrow> (\<exists>m. length m = 16 \<and> f = take 81 frame @ m @ drop 97 frame)"

text \<open>The PTKs that a frame may be protected with: the one in use and the one of a handshake that is not complete.\<close>

definition candidate_ptk :: "wpa_sm \<Rightarrow> bytes \<Rightarrow> bool" where
  "candidate_ptk sm ptk \<longleftrightarrow> sm_tptk_set sm \<and> ptk = sm_tptk sm \<or> sm_ptk_set sm \<and> ptk = sm_ptk sm"

text \<open>The state after a MIC has been verified with \<open>ptk\<close>.\<close>

definition verified_with :: "bytes \<Rightarrow> bytes \<Rightarrow> wpa_sm \<Rightarrow> wpa_sm \<Rightarrow> bool" where
  "verified_with ptk rc sm sm' \<longleftrightarrow> (\<exists>b. sm' = (if b then sm\<lparr>sm_tptk_set := False, sm_ptk_set := True, sm_ptk := ptk\<rparr> else sm)
     \<lparr>sm_rx_replay_counter := rc, sm_rx_replay_counter_set := True\<rparr> \<and> (\<not> b \<longrightarrow> sm_ptk sm = ptk \<and> sm_ptk_set sm))"

lemma verified_withI:
  "verified_with ptk rc sm (sm\<lparr>sm_tptk_set := False, sm_ptk_set := True, sm_ptk := ptk, sm_rx_replay_counter := rc, sm_rx_replay_counter_set := True\<rparr>)"
  "sm_ptk_set sm \<Longrightarrow> verified_with (sm_ptk sm) rc sm (sm\<lparr>sm_rx_replay_counter := rc, sm_rx_replay_counter_set := True\<rparr>)"
  by (auto simp: verified_with_def intro: exI [where x = True] exI [where x = False])

lemma with_mic_frame:
  assumes "with_mic frame f" "99 \<le> length frame"
  shows "length f = length frame" "clear_mic f = clear_mic frame" "97 \<le> length f" "rd_be16 f 97 = rd_be16 frame 97"
    "take 8 (drop 9 f) = take 8 (drop 9 frame)"
proof -
  obtain m where m: "length m = 16" "f = take 81 frame @ m @ drop 97 frame" using assms(1) by (auto simp: with_mic_def)
  show "length f = length frame" "97 \<le> length f" "clear_mic f = clear_mic frame" using m assms(2) by (simp_all add: clear_mic_def)
  have "f ! i = frame ! i" if "97 \<le> i" "i < length frame" for i using that m assms(2) by (auto simp: nth_append)
  then show "rd_be16 f 97 = rd_be16 frame 97" using m assms(2) by (simp add: rd_be16_def rd_def)
  show "take 8 (drop 9 f) = take 8 (drop 9 frame)" using m assms(2) by (simp add: take_drop min_def)
qed

lemma with_mic_trans:
  assumes "with_mic frame f" "with_mic f g" "99 \<le> length frame"
  shows "with_mic frame g"
  using assms by (auto simp: with_mic_def)

lemma mic_total:
  assumes "hashes_ok hs" "ver = 1 \<or> ver = 2"
  shows "\<exists>m. wpa_eapol_key_mic hs key ver d = Some m"
  using assms hmac_total [of "md5_vector hs" "[d]" key] hmac_total [of "sha1_vector hs" "[d]" key]
  by (auto simp: wpa_eapol_key_mic_def hashes_ok_def hmac_md5_def hmac_md5_vector_def hmac_sha1_def hmac_sha1_vector_def)

lemma check_mic_spec:
  assumes "hashes_ok (ev_hashes env)" "ver = 1 \<or> ver = 2" "97 \<le> length frame" "len \<le> length frame"
  shows "succeeds (check_mic env ptk mic ver len frame) (\<lambda>(ok, f).
    with_mic frame f \<and> (ok \<longleftrightarrow> wpa_eapol_key_mic (ev_hashes env) (kck ptk) ver (take len (clear_mic frame)) = Some mic))"
proof -
  obtain m where m: "wpa_eapol_key_mic (ev_hashes env) (kck ptk) ver (take len (clear_mic frame)) = Some m"
    using mic_total [OF assms(1,2)] by blast
  have l: "length m = 16" by (rule length_mic [OF assms(1) m])
  have w: "wr_bytes frame 81 (replicate 16 0) = Some (clear_mic frame)" using assms(3) by (simp add: wr_bytes_def clear_mic_def)
  have c: "length (clear_mic frame) = length frame" using assms(3) by (simp add: clear_mic_def)
  have f: "wr_bytes (clear_mic frame) 81 m = Some (take 81 frame @ m @ drop 97 frame)"
    using l assms(3) by (simp add: wr_bytes_def clear_mic_def)
  show ?thesis
    unfolding check_mic_def w bind.simps Let_def
    using c f l m assms(4) by (auto simp: succeeds_def rd_bytes_def with_mic_def)
qed

lemma verify_mic_spec:
  assumes "hashes_ok (ev_hashes env)" "ver = 1 \<or> ver = 2" "99 \<le> length frame" "len \<le> length frame"
  shows "succeeds (wpa_supplicant_verify_eapol_key_mic env frame ver len sm) (\<lambda>(r, f, sm'). with_mic frame f \<and>
    (if r = 0 then \<exists>ptk. candidate_ptk sm ptk \<and> mic_valid env ptk ver len frame \<and>
        verified_with ptk (take 8 (drop 9 frame)) sm sm'
     else sm' = sm))"
proof -
  let ?mic = "take 16 (drop 81 frame)"
  have self: "with_mic frame frame"
    using append_take_drop_id [of 81 frame] append_take_drop_id [of 16 "drop 81 frame"] assms(3)
    by (auto simp: with_mic_def intro!: exI [where x = ?mic])
  have 1: "succeeds (check_mic env ptk ?mic ver len f) (\<lambda>(ok, f'). with_mic frame f' \<and> (ok \<longleftrightarrow> mic_valid env ptk ver len frame))"
    if "with_mic frame f" for ptk f
    by (rule succeeds_mono [OF check_mic_spec [OF assms(1,2)]])
      (use with_mic_frame [OF that assms(3)] with_mic_trans [OF that _ assms(3)] assms(4) in \<open>auto simp: mic_valid_def\<close>)
  have 2: "succeeds (if sm_tptk_set sm then do {
         (ok, frame) \<leftarrow> check_mic env (sm_tptk sm) ?mic ver len frame;
         Some (ok, frame,
               if ok then sm\<lparr>sm_tptk_set := False, sm_ptk_set := True, sm_ptk := sm_tptk sm\<rparr> else sm) }
       else Some (False, frame, sm)) (\<lambda>(ok, f, sm1). with_mic frame f \<and>
         (if ok then sm_tptk_set sm \<and> mic_valid env (sm_tptk sm) ver len frame \<and>
            sm1 = sm\<lparr>sm_tptk_set := False, sm_ptk_set := True, sm_ptk := sm_tptk sm\<rparr> else sm1 = sm))"
    using self 1 [OF self, of "sm_tptk sm"] by (auto simp: succeeds_simps elim!: succeeds_mono)
  have 3: "succeeds (if \<not> ok \<and> sm_ptk_set sm1 then check_mic env (sm_ptk sm1) ?mic ver len f else Some (ok, f))
      (\<lambda>(ok', f'). with_mic frame f' \<and> (ok' \<longleftrightarrow> ok \<or> sm_ptk_set sm1 \<and> mic_valid env (sm_ptk sm1) ver len frame))"
    if "with_mic frame f" for f ok sm1
    using that 1 [OF that, of "sm_ptk sm1"] by (auto simp: succeeds_simps elim!: succeeds_mono)
  have mic: "rd_bytes frame 81 16 = Some ?mic" using assms(3) by (simp add: rd_bytes_def)
  show ?thesis
    unfolding wpa_supplicant_verify_eapol_key_mic_def mic bind.simps
  proof (rule succeeds_bindI [OF 2], elim case_prodE conjE, (hypsubst)+, unfold prod.case, rule succeeds_bindI [OF 3], assumption,
      elim case_prodE conjE, (hypsubst)+, unfold prod.case)
    fix ok f sm1 f'
    assume a: "if ok then sm_tptk_set sm \<and> mic_valid env (sm_tptk sm) ver len frame \<and>
            sm1 = sm\<lparr>sm_tptk_set := False, sm_ptk_set := True, sm_ptk := sm_tptk sm\<rparr> else sm1 = sm"
      "with_mic frame f'"
    note f' = with_mic_frame [OF a(2) assms(3)]
    show "succeeds (if \<not> (ok \<or> sm_ptk_set sm1 \<and> mic_valid env (sm_ptk sm1) ver len frame) then Some (-1 :: int, f', sm1) else do {
       rc \<leftarrow> rd_bytes f' 9 8; Some (0, f', sm1\<lparr>sm_rx_replay_counter := rc, sm_rx_replay_counter_set := True\<rparr>) })
      (\<lambda>(r, f, sm'). with_mic frame f \<and> (if r = 0 then \<exists>ptk. candidate_ptk sm ptk \<and> mic_valid env ptk ver len frame \<and>
        verified_with ptk (take 8 (drop 9 frame)) sm sm'
       else sm' = sm))"
      using a f' verified_withI by (cases ok) (auto simp: succeeds_simps candidate_ptk_def)
  qed
qed

section \<open>Decryption and dispatch\<close>

lemma decrypt_key_data_total:
  assumes "env_ok env" "rd_be16 frame 97 = Some k" "99 + unat k \<le> length frame" "k \<noteq> 0"
  shows "succeeds (wpa_supplicant_decrypt_key_data env frame ver sm) (\<lambda>(r, f). r = 0 \<longrightarrow>
    (\<exists>k'. rd_be16 f 97 = Some k' \<and> 99 + unat k' \<le> length f))"
proof -
  have fl: "99 \<le> length frame" using assms(3) by simp
  have rc4: "length p = length d" if "ev_rc4_skip env x n d = Some p" for x n d p using that assms(1) by (auto simp: env_ok_def)
  have w: "rd_be16 (take 99 frame @ p @ d) 97 = Some k" for p d
    using assms(2) fl by (simp add: rd_be16_def rd_def nth_append)
  have aes: "succeeds (aes_unwrap (ev_aes_decrypt env) (ev_aes_init env) x (unat (k - 8) div 8) (drop 99 frame) \<bind>
      (\<lambda>(r, buf). if r \<noteq> 0 then Some (-1 :: int, frame) else do {
         frame \<leftarrow> wr_bytes frame 99 buf; frame \<leftarrow> wr_bytes frame 97 (put_be16 (k - 8)); Some (0, frame) }))
      (\<lambda>(r, f). r = 0 \<longrightarrow> (\<exists>k'. rd_be16 f 97 = Some k' \<and> 99 + unat k' \<le> length f))" if "unat k mod 8 = 0" for x
  proof -
    have "8 \<le> unat k" using that assms(4) by (metis dvd_imp_le gr0I mod_0_imp_dvd unat_eq_0)
    then have u: "unat (k - 8) = unat k - 8" by (simp add: unat_sub word_le_nat_alt)
    have d: "8 * ((unat k - 8) div 8) = unat k - 8" using that \<open>8 \<le> unat k\<close> by (metis dvd_mult_div_cancel le_mod_geq mod_0_imp_dvd)
    have l: "8 + 8 * ((unat k - 8) div 8) \<le> length (drop 99 frame)" using assms(3) d \<open>8 \<le> unat k\<close> by simp
    have put: "rd_be16 (take 97 g @ put_be16 (k - 8) @ h) 97 = Some (k - 8)" if "97 \<le> length g" for g h
      using that by (simp add: rd_be16_def rd_def nth_append put_be16_def get_put_be16 [unfolded put_be16_def])
    have dec: "\<forall>k b. length b = 16 \<longrightarrow> length (ev_aes_decrypt env k b) = 16" using assms(1) by (simp add: env_ok_def)
    show ?thesis
      unfolding u
      by (rule succeeds_bindI [OF aes_unwrap_total [OF dec l]])
        (use assms(3) d put u in \<open>auto simp: succeeds_simps\<close>)
  qed
  have rcw: "succeeds (wr_bytes frame 99 p \<bind> (\<lambda>frame. Some (0 :: int, frame))) (\<lambda>(r, f). r = 0 \<longrightarrow>
      (\<exists>k'. rd_be16 f 97 = Some k' \<and> 99 + unat k' \<le> length f))"
    if "ev_rc4_skip env x n d = Some p" "length d = unat k" for x n d p
    using w assms(3) rc4 [OF that(1)] that(2) by (auto simp: succeeds_simps)
  show ?thesis
    unfolding wpa_supplicant_decrypt_key_data_def assms(2) bind.simps Let_def
    using aes [OF _] w assms(2,3) fl
    by (auto simp: succeeds_if succeeds_Some split: option.split intro!: rcw succeeds_bindI [OF rd_len])
qed

lemma dispatch_total:
  assumes "sm_ok sm" "env_ok env" "entry_fresh env sm" "length src = 6" "rd_be16 frame 97 = Some k" "99 + unat k \<le> length frame"
    "ki AND 0x2000 = 0"
  shows "succeeds (dispatch_key env ops None src frame xl ki ver sm) (\<lambda>(r, sm'). step (key_event (sm_ptk sm)) sm sm' \<and>
    (ki AND 0x100 = 0 \<longrightarrow> step (\<lambda>e. \<not> is_set_key e) sm sm'))"
proof -
  have w: "weak (\<lambda>e. \<not> is_set_key e)" by (simp add: weak_def)
  have m: "step (key_event ptk) sm sm'" if "step (\<lambda>e. \<not> is_set_key e) sm sm'" for ptk sm'
    using that weak_key_event [of ptk] by (auto simp: step_def weak_def intro: log_ext_mono)
  note p1 = process_1_of_4_total [OF assms(1-4) w assms(6,5) refl, of ver]
  note p3 = process_3_of_4_total [OF assms(1,2,6,5), of ver]
  note g = process_1_of_2_total [OF assms(1,2,6,5), of xl ver]
  show ?thesis
    using p1 p3 g assms(7) step_refl [OF assms(1)] m
    by (auto simp: dispatch_key_def succeeds_simps elim!: succeeds_mono)
qed

section \<open>Handling a frame\<close>

text \<open>What a frame may do: nothing to the keys, or, if its MIC is valid, make the PTK of that MIC the one in use.\<close>

definition quiet :: "wpa_sm \<Rightarrow> wpa_sm \<Rightarrow> bool" where
  "quiet sm sm' \<longleftrightarrow> keys_of sm' = keys_of sm \<and> log_ext (\<lambda>e. \<not> is_set_key e) sm sm'"

definition authenticated :: "rsn_env \<Rightarrow> bytes \<Rightarrow> u16 \<Rightarrow> nat \<Rightarrow> wpa_sm \<Rightarrow> wpa_sm \<Rightarrow> bool" where
  "authenticated env frame ver len sm sm' \<longleftrightarrow> (\<exists>ptk. candidate_ptk sm ptk \<and> mic_valid env ptk ver len frame \<and>
     keys_of sm' = (ptk, True, take 8 (drop 9 frame), True) \<and> log_ext (key_event ptk) sm sm')"

lemma verified_withD:
  assumes "verified_with ptk rc sm sm'"
  shows "keys_of sm' = (ptk, True, rc, True)" "sm_log sm' = sm_log sm" "sm_proto sm' = sm_proto sm" "sm_heap sm' = sm_heap sm"
    "sm_ok sm \<Longrightarrow> length ptk = 64 \<Longrightarrow> length rc = 8 \<Longrightarrow> sm_ok sm'"
  using assms by (auto simp: verified_with_def keys_of_def sm_ok_def split: if_splits)

lemma with_mic_refl: "99 \<le> length frame \<Longrightarrow> with_mic frame frame"
  using append_take_drop_id [of 81 frame] append_take_drop_id [of 16 "drop 81 frame"]
  by (auto simp: with_mic_def intro!: exI [where x = "take 16 (drop 81 frame)"])

text \<open>From the check of the key data length on, for any postcondition \<open>Q\<close>.\<close>

lemma decrypt_dispatch_total:
  assumes "sm_ok sm" "env_ok env" "entry_fresh env sm" "length src = 6" "99 \<le> len" "len \<le> length f"
    "ki AND 0x2000 = 0" "ki AND 0x1000 = 0 \<or> rd_be16 f 97 \<noteq> Some 0" "Q (-1, sm)"
    "\<And>r sm'. step (key_event (sm_ptk sm)) sm sm' \<Longrightarrow> ki AND 0x100 = 0 \<longrightarrow> step (\<lambda>e. \<not> is_set_key e) sm sm' \<Longrightarrow> Q (r, sm')"
  shows "succeeds (do {
       kdl \<leftarrow> rd_be16 f AT_DATA_LENGTH;
       if len - 4 - SIZEOF_EAPOL_KEY < unat kdl then Some (-1, sm)
       else do {
         (r, frame) \<leftarrow> (if sm_proto sm = WPA_PROTO_RSN \<and> ki AND WPA_KEY_INFO_ENCR_KEY_DATA \<noteq> 0
                        then wpa_supplicant_decrypt_key_data env f ver sm else Some (0, f));
         if r \<noteq> 0 then Some (-1, sm)
         else do {
           kdl \<leftarrow> rd_be16 frame AT_DATA_LENGTH;
           dispatch_key env ops None src frame (unat kdl) ki ver sm } } }) Q"
proof -
  obtain k where k: "rd_be16 f 97 = Some k" using assms(5,6) by (auto simp: rd_be16_def rd_def)
  show ?thesis
  proof (cases "len - 4 - 95 < unat k")
    case True
    then show ?thesis using assms(9) k by (simp add: succeeds_Some)
  next
    case False
    then have kl: "99 + unat k \<le> length f" using assms(5,6) by simp
    have "k \<noteq> 0" if "ki AND 0x1000 \<noteq> 0" using that assms(8) k by auto
    then have 1: "succeeds (if sm_proto sm = WPA_PROTO_RSN \<and> ki AND WPA_KEY_INFO_ENCR_KEY_DATA \<noteq> 0
                        then wpa_supplicant_decrypt_key_data env f ver sm else Some (0, f))
          (\<lambda>(r, f). r = 0 \<longrightarrow> (\<exists>k'. rd_be16 f 97 = Some k' \<and> 99 + unat k' \<le> length f))"
      using decrypt_key_data_total [OF assms(2) k kl] k kl by (simp add: succeeds_if succeeds_Some)
    show ?thesis
      unfolding k bind.simps if_not_P [OF False]
    proof (rule succeeds_bindI [OF 1], elim case_prodE, hypsubst, unfold prod.case)
      fix r f'
      assume a: "r = 0 \<longrightarrow> (\<exists>k'. rd_be16 f' 97 = Some k' \<and> 99 + unat k' \<le> length f')"
      show "succeeds (if r \<noteq> 0 then Some (-1, sm) else rd_be16 f' 97 \<bind>
            (\<lambda>kdl. dispatch_key env ops None src f' (unat kdl) ki ver sm)) Q"
      proof (cases "r = 0")
        case True
        then obtain k' where k': "rd_be16 f' 97 = Some k'" "99 + unat k' \<le> length f'" using a by blast
        show ?thesis
          using True k'(1) assms(10) succeeds_mono [OF dispatch_total [OF assms(1-4) k' assms(7), of ops "unat k'" ver]]
          by (auto simp: split_def)
      qed (use assms(9) in \<open>simp add: succeeds_Some\<close>)
    qed
  qed
qed

lemma accept_total:
  assumes "sm_ok sm" "env_ok env" "entry_fresh env sm" "length src = 6" "ver = 1 \<or> ver = 2" "99 \<le> len" "len \<le> length frame"
    "ki AND 0x2000 = 0" "ki AND 0x1000 = 0 \<or> rd_be16 frame 97 \<noteq> Some 0"
  shows "succeeds (accept_key env ops None src frame len ki ver sm) (\<lambda>(r, sm'). sm_ok sm' \<and>
    (quiet sm sm' \<or> ki AND 0x100 \<noteq> 0 \<and> authenticated env frame ver len sm sm'))"
proof -
  have fl: "99 \<le> length frame" using assms(6,7) by simp
  have hs: "hashes_ok (ev_hashes env)" using assms(2) by (simp add: env_ok_def)
  define good where "good = (\<lambda>(r :: int, sm'). sm_ok sm' \<and> (quiet sm sm' \<or> ki AND 0x100 \<noteq> 0 \<and> authenticated env frame ver len sm sm'))"
  show ?thesis
    unfolding good_def [symmetric]
  proof (cases "ki AND 0x100 = 0")
    case True
    from decrypt_dispatch_total [OF assms(1-4,6-9), of good]
    show "succeeds (accept_key env ops None src frame len ki ver sm) good"
      using True assms(1) by (auto simp: accept_key_def good_def quiet_def step_def)
  next
    case False
    show "succeeds (accept_key env ops None src frame len ki ver sm) good"
      unfolding accept_key_def if_not_P [OF False] option.case
    proof (rule succeeds_bindI [OF verify_mic_spec [OF hs assms(5) fl assms(7)]], elim case_prodE conjE, (hypsubst)+, unfold prod.case,
        rule succeeds_if [THEN iffD2], intro conjI impI)
      fix r :: int and f sm1
      assume "if r = 0 then \<exists>ptk. candidate_ptk sm ptk \<and> mic_valid env ptk ver len frame \<and>
        verified_with ptk (take 8 (drop 9 frame)) sm sm1 else sm1 = sm" "r \<noteq> 0"
      then show "succeeds (Some (-1, sm1)) good" using assms(1) by (simp add: good_def quiet_def succeeds_Some)
    next
      fix r :: int and f sm1
      assume f: "with_mic frame f" and r: "if r = 0 then \<exists>ptk. candidate_ptk sm ptk \<and> mic_valid env ptk ver len frame \<and>
        verified_with ptk (take 8 (drop 9 frame)) sm sm1 else sm1 = sm" "\<not> r \<noteq> 0"
      then obtain ptk where p: "candidate_ptk sm ptk" "mic_valid env ptk ver len frame"
        "verified_with ptk (take 8 (drop 9 frame)) sm sm1" by auto
      note vd = verified_withD [OF p(3)] and wf = with_mic_frame [OF f fl]
      have "length ptk = 64" using p(1) assms(1) by (auto simp: candidate_ptk_def sm_ok_def)
      then have ok: "sm_ok sm1" using vd(5) assms(1) fl by simp
      have g: "good (r, sm')" if "step (key_event (sm_ptk sm1)) sm1 sm'" for r sm'
        using that p(1,2) vd(1,2) False by (auto simp: good_def step_def authenticated_def keys_of_def log_ext_def)
      show "succeeds (do {
       kdl \<leftarrow> rd_be16 f AT_DATA_LENGTH;
       if len - 4 - SIZEOF_EAPOL_KEY < unat kdl then Some (-1, sm1)
       else do {
         (r, frame) \<leftarrow> (if sm_proto sm1 = WPA_PROTO_RSN \<and> ki AND WPA_KEY_INFO_ENCR_KEY_DATA \<noteq> 0
                        then wpa_supplicant_decrypt_key_data env f ver sm1 else Some (0, f));
         if r \<noteq> 0 then Some (-1, sm1)
         else do {
           kdl \<leftarrow> rd_be16 frame AT_DATA_LENGTH;
           dispatch_key env ops None src frame (unat kdl) ki ver sm1 } } }) good"
        by (rule decrypt_dispatch_total)
          (use ok assms wf vd(4) g step_refl [OF ok] in \<open>auto simp: entry_fresh_def\<close>)
    qed
  qed
qed

text \<open>Fields of a received frame.\<close>

definition frame_key_info :: "bytes \<Rightarrow> u16" where "frame_key_info buf = get_be16 (buf ! 5) (buf ! 6)"
definition frame_data_len :: "bytes \<Rightarrow> u16" where "frame_data_len buf = get_be16 (buf ! 97) (buf ! 98)"
definition frame_len :: "bytes \<Rightarrow> nat" where "frame_len buf = unat (get_be16 (buf ! 2) (buf ! 3)) + 4"
definition frame_replay :: "bytes \<Rightarrow> bytes" where "frame_replay buf = take 8 (drop 9 buf)"

lemma frame_reads:
  assumes "99 \<le> length buf"
  shows "rd_be16 buf 5 = Some (frame_key_info buf)" "rd_be16 buf 97 = Some (frame_data_len buf)"
    "rd_be16 buf 2 = Some (get_be16 (buf ! 2) (buf ! 3))" "rd_bytes buf 9 8 = Some (frame_replay buf)"
    "rd buf 1 = Some (buf ! 1)" "rd buf 4 = Some (buf ! 4)"
  using assms by (simp_all add: rd_be16_def rd_def rd_bytes_def frame_key_info_def frame_data_len_def frame_replay_def)

lemma emit_framed:
  assumes "\<not> is_set_key e"
  shows "quiet (emit e sm) sm' \<Longrightarrow> quiet sm sm'" "authenticated env f v n (emit e sm) sm' \<Longrightarrow> authenticated env f v n sm sm'"
proof -
  have l: "log_ext P sm sm'" if "log_ext P (emit e sm) sm'" "P e" for P using that log_ext_emit log_ext_trans by blast
  show "quiet (emit e sm) sm' \<Longrightarrow> quiet sm sm'" using l assms by (simp add: quiet_def)
  have "key_event ptk e" for ptk using assms by (simp add: key_event_def is_set_key_def split: rsn_event.splits)
  then show "authenticated env f v n (emit e sm) sm' \<Longrightarrow> authenticated env f v n sm sm'"
    using l by (auto simp: authenticated_def candidate_ptk_def)
qed

lemma rx_eapol_total:
  assumes "sm_ok sm" "env_ok env" "entry_fresh env sm" "length src = 6"
    "frame_key_info buf AND 0x2000 = 0" "frame_key_info buf AND 0x1000 = 0 \<or> frame_data_len buf \<noteq> 0"
  shows "succeeds (wpa_sm_rx_eapol env ops src buf sm) (\<lambda>(r, sm'). sm_ok sm' \<and> (quiet sm sm' \<or>
    frame_key_info buf AND 0x100 \<noteq> 0 \<and> authenticated env buf (frame_key_info buf AND 7) (frame_len buf) sm sm' \<and>
    (sm_rx_replay_counter_set sm \<longrightarrow> memlt (sm_rx_replay_counter sm) (frame_replay buf))))"
proof (cases "length buf < 99")
  case True
  then show ?thesis using assms(1) by (simp add: wpa_sm_rx_eapol_def succeeds_Some quiet_def)
next
  case False
  then have fl: "99 \<le> length buf" by simp
  define Q where "Q = (\<lambda>(r :: int, sm'). sm_ok sm' \<and> (quiet sm sm' \<or>
    frame_key_info buf AND 0x100 \<noteq> 0 \<and> authenticated env buf (frame_key_info buf AND 7) (frame_len buf) sm sm' \<and>
    (sm_rx_replay_counter_set sm \<longrightarrow> memlt (sm_rx_replay_counter sm) (frame_replay buf))))"
  let ?e = "Notify_lower_layer_success False" and ?ki = "frame_key_info buf"
  let ?sm = "emit ?e sm"
  have e: "\<not> is_set_key ?e" by (simp add: is_set_key_def)
  have q: "Q (r, sm)" "Q (r, ?sm)" for r using assms(1) log_ext_emit [of _ ?e sm] e by (auto simp: Q_def quiet_def)
  have a: "succeeds (accept_key env ops None src buf (frame_len buf) ?ki (?ki AND 7) ?sm) Q"
    if "?ki AND 7 = 1 \<or> ?ki AND 7 = 2" "99 \<le> frame_len buf" "frame_len buf \<le> length buf"
      "sm_rx_replay_counter_set sm \<longrightarrow> memlt (sm_rx_replay_counter sm) (frame_replay buf)"
  proof (rule succeeds_mono [OF accept_total [where sm = ?sm, OF _ assms(2) _ assms(4) that(1-3) assms(5)]])
    show "sm_ok ?sm" "entry_fresh env ?sm" using assms(1,3) by simp_all
    show "?ki AND 0x1000 = 0 \<or> rd_be16 buf 97 \<noteq> Some 0" using assms(6) frame_reads(2) [OF fl] by simp
  qed (use emit_framed [OF e] that(4) in \<open>auto simp: Q_def\<close>)
  note r = frame_reads [OF fl]
  have p: "List.find (\<lambda>p. pk_addr p = src) (sm_peerkey ?sm) = None" using assms(1) by (simp add: emit_def sm_ok_def)
  have c: "sm_rx_replay_counter_set ?sm = sm_rx_replay_counter_set sm" "sm_rx_replay_counter ?sm = sm_rx_replay_counter sm"
    by (simp_all add: emit_def)
  show ?thesis
    unfolding Q_def [symmetric] wpa_sm_rx_eapol_def r bind.simps Let_def p check_replay_def option.case
    using a q False c by (auto simp: succeeds_if succeeds_Some version_ok_def frame_len_def)
qed

end
