(* ===== verification/Wpa_Reach.thy ===== *)
theory Wpa_Reach
  imports Wpa_Sm_Rx
begin

text \<open>
  The states that the WPA state machine can reach. \<open>sm_step\<close> has a rule for each operation that the rest of
  wpa_supplicant calls, with the sizes that the callers guarantee as premises; frames of the SMK Handshake, which
  peerkey.c handles, are left out. Every reachable state satisfies \<open>sm_ok\<close>, and in a reachable state the handling of a
  frame returns and changes the keys only if the frame is authentic and fresh.
\<close>

section \<open>Steps\<close>

text \<open>What has to hold of the environment for an operation that may allocate an entry.\<close>

definition env_for :: "rsn_env \<Rightarrow> wpa_sm \<Rightarrow> bool" where
  "env_for env sm \<longleftrightarrow> env_ok env \<and> entry_fresh env sm"

text \<open>
  Frames whose handling is described: no SMK message, and no encrypted key data of length zero
  (\<open>wpa_sm_rx_eapol_underflow\<close> below says what happens to those).
\<close>

definition regular_frame :: "bytes \<Rightarrow> bool" where
  "regular_frame buf \<longleftrightarrow> frame_key_info buf AND WPA_KEY_INFO_SMK_MESSAGE = 0 \<and>
     (frame_key_info buf AND WPA_KEY_INFO_ENCR_KEY_DATA = 0 \<or> frame_data_len buf \<noteq> 0)"

inductive sm_step :: "wpa_sm \<Rightarrow> wpa_sm \<Rightarrow> bool" where
  rx: "env_for env sm \<Longrightarrow> length src = 6 \<Longrightarrow> regular_frame buf \<Longrightarrow> wpa_sm_rx_eapol env ops src buf sm = Some (r, sm') \<Longrightarrow> sm_step sm sm'"
| assoc: "length bssid = 6 \<Longrightarrow> sm_step sm (wpa_sm_notify_assoc bssid sm)"
| disassoc: "sm_step sm (wpa_sm_notify_disassoc env sm)"
| set_pmk: "pmk_len \<le> 32 \<Longrightarrow> wpa_sm_set_pmk pmk pmk_len sm = Some sm' \<Longrightarrow> sm_step sm sm'"
| set_pmk_from_pmksa: "wpa_sm_set_pmk_from_pmksa sm = Some sm' \<Longrightarrow> sm_step sm sm'"
| set_fast_reauth: "sm_step sm (wpa_sm_set_fast_reauth b sm)"
| set_config: "wpa_sm_set_config config sm = Some sm' \<Longrightarrow> sm_step sm sm'"
| set_own_addr: "length addr = 6 \<Longrightarrow> sm_step sm (wpa_sm_set_own_addr addr sm)"
| set_eapol: "sm_step sm (wpa_sm_set_eapol b sm)"
| set_param: "sm_step sm (snd (wpa_sm_set_param param v sm))"
| set_assoc_ie: "\<forall>d. ie = Some d \<longrightarrow> length d < 65000 \<Longrightarrow> sm_step sm (snd (wpa_sm_set_assoc_wpa_ie ok ie sm))"
| set_assoc_ie_default: "length buf < 65000 \<Longrightarrow> wpa_sm_set_assoc_wpa_ie_default ok buf n sm = Some (r, buf', n', sm') \<Longrightarrow> sm_step sm sm'"
| set_ap_wpa_ie: "sm_step sm (snd (wpa_sm_set_ap_wpa_ie ok ie sm))"
| set_ap_rsn_ie: "sm_step sm (snd (wpa_sm_set_ap_rsn_ie ok ie sm))"
| drop_sa: "sm_step sm (wpa_sm_drop_sa sm)"
| update_replay_ctr: "length c = 8 \<Longrightarrow> sm_step sm (wpa_sm_update_replay_ctr c sm)"
| key_request: "env_ok env \<Longrightarrow> wpa_sm_key_request env err pw sm = Some sm' \<Longrightarrow> sm_step sm sm'"
| aborted_cached: "sm_step sm (wpa_sm_aborted_cached sm)"
| cache_add: "env_for env sm \<Longrightarrow> length aa = 6 \<Longrightarrow> pmk_len \<le> length pmk \<Longrightarrow>
    pmksa_cache_add env pmk pmk_len aa spa ctx akmp sm = Some (p, sm') \<Longrightarrow> sm_step sm sm'"
| cache_flush: "wpa_sm_pmksa_cache_flush env ctx sm = Some sm' \<Longrightarrow> sm_step sm sm'"
| cache_expire: "pmksa_cache_expire env sm = Some sm' \<Longrightarrow> sm_step sm sm'"
| cache_reauth: "sm_step sm (pmksa_cache_reauth sm)"
| cache_current: "env_for env sm \<Longrightarrow> length aa = 6 \<Longrightarrow> try_opp \<longrightarrow> room aa sm \<Longrightarrow>
    pmksa_cache_set_current env pmkid (Some aa) ctx try_opp sm = Some (r, sm') \<Longrightarrow> sm_step sm sm'"
| cache_clear_current: "sm_step sm (pmksa_cache_clear_current sm)"

inductive sm_reach :: "wpa_sm \<Rightarrow> bool" where
  init: "wpa_sm_init self cache = Some sm \<Longrightarrow> sm_reach sm"
| next_step: "sm_reach sm \<Longrightarrow> sm_step sm sm' \<Longrightarrow> sm_reach sm'"

section \<open>The invariant\<close>

lemma sm_ok_simple [simp]:
  "sm_ok (sm\<lparr>sm_eapol := b\<rparr>) = sm_ok sm" "sm_ok (sm\<lparr>sm_fast_reauth := b\<rparr>) = sm_ok sm"
  "sm_ok (sm\<lparr>sm_proto := v\<rparr>) = sm_ok sm" "sm_ok (sm\<lparr>sm_pairwise_cipher := v\<rparr>) = sm_ok sm"
  "sm_ok (sm\<lparr>sm_group_cipher := v\<rparr>) = sm_ok sm" "sm_ok (sm\<lparr>sm_key_mgmt := v\<rparr>) = sm_ok sm"
  "sm_ok (sm\<lparr>sm_rsn_enabled := b\<rparr>) = sm_ok sm" "sm_ok (sm\<lparr>sm_mfp := v\<rparr>) = sm_ok sm"
  "sm_ok (sm\<lparr>dot11RSNAConfigPMKLifetime := v\<rparr>) = sm_ok sm" "sm_ok (sm\<lparr>dot11RSNAConfigPMKReauthThreshold := v\<rparr>) = sm_ok sm"
  "sm_ok (sm\<lparr>dot11RSNAConfigSATimeout := v\<rparr>) = sm_ok sm" "sm_ok (sm\<lparr>dot11RSNA4WayHandshakeFailures := v\<rparr>) = sm_ok sm"
  "sm_ok (sm\<lparr>sm_preauth_eapol := b\<rparr>) = sm_ok sm" "sm_ok (sm\<lparr>sm_preauth_bssid := d\<rparr>) = sm_ok sm"
  "sm_ok (sm\<lparr>sm_l2_preauth := b\<rparr>) = sm_ok sm" "sm_ok (sm\<lparr>sm_l2_preauth_br := b\<rparr>) = sm_ok sm"
  "sm_ok (sm\<lparr>sm_network_ctx := p\<rparr>) = sm_ok sm" "sm_ok (sm\<lparr>sm_peerkey_enabled := b\<rparr>) = sm_ok sm"
  "sm_ok (sm\<lparr>sm_allowed_pairwise_cipher := v\<rparr>) = sm_ok sm" "sm_ok (sm\<lparr>sm_proactive_key_caching := b\<rparr>) = sm_ok sm"
  "sm_ok (sm\<lparr>sm_eap_workaround := b\<rparr>) = sm_ok sm" "sm_ok (sm\<lparr>sm_eap_conf_ctx := p\<rparr>) = sm_ok sm"
  "sm_ok (sm\<lparr>sm_ssid := d\<rparr>) = sm_ok sm" "sm_ok (sm\<lparr>sm_ssid_len := n\<rparr>) = sm_ok sm" "sm_ok (sm\<lparr>sm_wpa_ptk_rekey := i\<rparr>) = sm_ok sm"
  "sm_ok (sm\<lparr>sm_ptk_set := b\<rparr>) = sm_ok sm" "sm_ok (sm\<lparr>sm_rx_replay_counter_set := b\<rparr>) = sm_ok sm"
  by (simp_all add: sm_ok_def pmksa_ok_def cache_inv_def)

lemma sm_ok_sized:
  "sm_ok sm \<Longrightarrow> length d = 6 \<Longrightarrow> sm_ok (sm\<lparr>sm_bssid := d\<rparr>)" "sm_ok sm \<Longrightarrow> length d = 6 \<Longrightarrow> sm_ok (sm\<lparr>sm_own_addr := d\<rparr>)"
  "sm_ok sm \<Longrightarrow> length c = 8 \<Longrightarrow> sm_ok (sm\<lparr>sm_rx_replay_counter := c\<rparr>)" "sm_ok sm \<Longrightarrow> length c = 8 \<Longrightarrow> sm_ok (sm\<lparr>sm_request_counter := c\<rparr>)"
  "sm_ok sm \<Longrightarrow> length k = 64 \<Longrightarrow> sm_ok (sm\<lparr>sm_ptk := k\<rparr>)" "sm_ok sm \<Longrightarrow> length k = 32 \<Longrightarrow> sm_ok (sm\<lparr>sm_pmk := k\<rparr>)"
  "sm_ok sm \<Longrightarrow> \<forall>d. ie = Some d \<longrightarrow> length d < 65000 \<Longrightarrow> sm_ok (sm\<lparr>sm_assoc_wpa_ie := ie\<rparr>)"
  by (simp_all add: sm_ok_def pmksa_ok_def cache_inv_def)

lemma sm_ok_preauth_deinit: "sm_ok sm \<Longrightarrow> sm_ok (rsn_preauth_deinit sm)"
  by (simp add: rsn_preauth_deinit_def)

lemma key_request_total:
  assumes "sm_ok sm" "env_ok env"
  shows "succeeds (wpa_sm_key_request env err pw sm) sm_ok"
proof -
  have l: "length (sm_request_counter sm) = 8" using assms(1) by (simp add: sm_ok_def)
  obtain c where c: "inc_byte_array (sm_request_counter sm) 8 = Some c" "length c = 8"
    using inc_byte_array_at_spec [of 8 "sm_request_counter sm"] l by (auto simp: inc_byte_array_def)
  have s: "succeeds (wpa_eapol_key_send env key ver dest proto msg mic (sm\<lparr>sm_request_counter := c\<rparr>)) sm_ok" if "length msg = 99" for key ver dest proto msg mic
  proof (rule succeeds_mono [OF key_send_total [where P = "\<lambda>_. True"]])
    show "sm_ok (sm\<lparr>sm_request_counter := c\<rparr>)" using assms(1) c(2) by (simp add: sm_ok_sized)
  qed (use assms(2) that in \<open>auto simp: weak_def step_sm_ok\<close>)
  have a: "length b = 99" if "wpa_alloc_eapol env 3 95 = Some b" for b using length_alloc_eapol [OF that] by simp
  show ?thesis
    unfolding wpa_sm_key_request_def Let_def c(1)
    using assms(1) l
    by (auto intro!: succeeds_case_option s succeeds_bindI [OF wr_len [where n = 99]] simp: succeeds_Some c a dest!: a)
qed

text \<open>Each operation keeps the invariant.\<close>

lemma sm_ok_init: "wpa_sm_init self cache = Some sm \<Longrightarrow> sm_ok sm"
  by (auto simp: wpa_sm_init_def sm_zero_def sm_ok_def pmksa_ok_def cache_inv_def Let_def split: option.splits)

lemma pmksa_step_ok: "sm_ok sm \<Longrightarrow> pmksa_ok sm' \<Longrightarrow> pmksa_step sm sm' \<Longrightarrow> sm_ok sm'"
  by (auto simp: pmksa_step_def intro: sm_ok_frame)

lemma succeedsD: "succeeds m P \<Longrightarrow> m = Some x \<Longrightarrow> P x"
  by (simp add: succeeds_def)

lemma set_config_ok: "sm_ok sm \<Longrightarrow> wpa_sm_set_config config sm = Some sm' \<Longrightarrow> sm_ok sm'"
  by (auto simp: wpa_sm_set_config_def Let_def split: option.splits bind_splits)

lemma set_param_ok: "sm_ok sm \<Longrightarrow> sm_ok (snd (wpa_sm_set_param param v sm))"
  by (cases param) (auto simp: wpa_sm_set_param_def)

lemma set_pmk_ok: "sm_ok sm \<Longrightarrow> n \<le> 32 \<Longrightarrow> wpa_sm_set_pmk pmk n sm = Some sm' \<Longrightarrow> sm_ok sm'"
proof -
  assume a: "sm_ok sm" "n \<le> 32" "wpa_sm_set_pmk pmk n sm = Some sm'"
  have l: "length (sm_pmk sm) = 32" using a(1) by (simp add: sm_ok_def pmksa_ok_def cache_inv_def)
  obtain d p where "wr_bytes (sm_pmk sm) 0 d = Some p" "sm' = sm\<lparr>sm_pmk_len := n, sm_pmk := p\<rparr>"
    using a(3) by (auto simp: wpa_sm_set_pmk_def split: bind_splits)
  moreover from this l have "length p = 32" by (auto simp: wr_bytes_def split: if_splits)
  ultimately show "sm_ok sm'" using sm_ok_pmk [OF a(1) _ a(2)] by simp
qed

lemma wr_bytes_length: "wr_bytes b i d = Some b' \<Longrightarrow> length b' = length b"
  by (auto simp: wr_bytes_def split: if_splits)

lemma gen_wpa_ie_length: "wpa_gen_wpa_ie p buf n pw g km pmkid = Some (res, b) \<Longrightarrow> length b = length buf"
  by (auto simp: wpa_gen_wpa_ie_def wpa_gen_wpa_ie_rsn_def wpa_gen_wpa_ie_wpa_def put_suites_def dest!: wr_bytes_length
      split: if_splits bind_splits option.splits)

lemma set_assoc_ie_default_ok:
  assumes "sm_ok sm" "length buf < 65000" "wpa_sm_set_assoc_wpa_ie_default ok buf n sm = Some (r, buf', n', sm')"
  shows "sm_ok sm'"
proof -
  have "length d < 65000" if "wpa_gen_wpa_ie p buf n pw g km pmkid = Some (res, b)" "rd_bytes b 0 k = Some d" for p pw g km pmkid res b k d
    using gen_wpa_ie_length [OF that(1)] that(2) assms(2) by (auto simp: rd_bytes_def split: if_splits)
  then show ?thesis
    using assms(1,3) by (auto simp: wpa_sm_set_assoc_wpa_ie_default_def sm_ok_sized split: bind_splits if_splits)
qed

lemma sm_step_ok: "sm_step sm sm' \<Longrightarrow> sm_ok sm \<Longrightarrow> sm_ok sm'"
proof (induction rule: sm_step.induct)
  case (rx env sm src buf ops r sm')
  then show ?case using rx_eapol_total [of sm env src buf ops] by (auto simp: env_for_def regular_frame_def dest: succeedsD)
next
  case (assoc bssid sm)
  then show ?case by (simp add: wpa_sm_notify_assoc_def Let_def sm_ok_sized sm_ok_preauth_deinit sm_ok_upd)
next
  case (disassoc sm env)
  then show ?case by (simp add: wpa_sm_notify_disassoc_def Let_def sm_ok_preauth_deinit)
next
  case (set_pmk n pmk sm sm')
  then show ?case using set_pmk_ok by blast
next
  case (set_pmk_from_pmksa sm sm')
  then show ?case using set_pmk_from_pmksa_total [where P = "\<lambda>_. True"] step_sm_ok by (blast dest: succeedsD)
next
  case (set_config config sm sm')
  then show ?case using set_config_ok by blast
next
  case (set_assoc_ie ie sm ok)
  then show ?case by (auto simp: wpa_sm_set_assoc_wpa_ie_def stored_ie_def sm_ok_sized)
next
  case (set_assoc_ie_default buf ok n sm r buf' n' sm')
  then show ?case using set_assoc_ie_default_ok by blast
next
  case (key_request env sm err pw sm')
  then show ?case using key_request_total by (blast dest: succeedsD)
next
  case (cache_add env sm aa pmk_len pmk spa ctx akmp p sm')
  then have "pmksa_ok sm" "hashes_ok (ev_hashes env)" "entry_fresh env sm" by (simp_all add: env_for_def env_ok_def sm_ok_def)
  from succeedsD [OF add_total [OF this(1,2) cache_add.hyps(2,3) this(3)] cache_add.hyps(4)] show ?case
    using pmksa_step_ok [OF cache_add.prems] by simp
next
  case (cache_flush env ctx sm sm')
  then have "cache_inv [] sm" by (simp add: sm_ok_def pmksa_ok_def)
  from succeedsD [OF flush_spec [OF this] cache_flush.hyps [unfolded wpa_sm_pmksa_cache_flush_def]] show ?case
    using pmksa_step_ok [OF cache_flush.prems] by (simp add: pmksa_ok_def)
next
  case (cache_expire env sm sm')
  then have "pmksa_ok sm" by (simp add: sm_ok_def)
  from succeedsD [OF expire_spec [OF this] cache_expire.hyps] show ?case using pmksa_step_ok [OF cache_expire.prems] by simp
next
  case (cache_current env sm aa try_opp pmkid ctx r sm')
  then have o: "pmksa_ok sm" "hashes_ok (ev_hashes env)" "entry_fresh env sm" by (simp_all add: env_for_def env_ok_def sm_ok_def)
  have "length b = 6 \<and> (try_opp \<longrightarrow> room b sm)" if "Some aa = Some b" for b using that cache_current.hyps by simp
  from succeedsD [OF set_current_total [OF o this] cache_current.hyps(4)] show ?case
    using sm_ok_frame [OF cache_current.prems] by simp
qed (auto simp: wpa_sm_set_fast_reauth_def wpa_sm_set_own_addr_def wpa_sm_set_eapol_def set_param_ok wpa_sm_set_ap_wpa_ie_def
    wpa_sm_set_ap_rsn_ie_def stored_ie_def wpa_sm_drop_sa_def wpa_sm_update_replay_ctr_def wpa_sm_aborted_cached_def
    pmksa_cache_reauth_def pmksa_cache_clear_current_def sm_ok_sized sm_ok_upd Let_def intro!: sm_ok_cur)

lemma reach_ok: "sm_reach sm \<Longrightarrow> sm_ok sm"
  by (induction rule: sm_reach.induct) (auto intro: sm_ok_init sm_step_ok)

section \<open>Properties\<close>

text \<open>
  C7. The state machine handles every regular EAPOL-Key frame, whatever its contents, without reading or writing outside
  its buffers or using freed memory, in every state it can reach; the state after it is reachable and keeps the
  invariant of the state machine and of the PMKSA cache.
\<close>

theorem wpa_sm_rx_eapol_safe:
  assumes "sm_reach sm" "env_for env sm" "length src = 6" "regular_frame buf"
  shows "\<exists>r sm'. wpa_sm_rx_eapol env ops src buf sm = Some (r, sm') \<and> sm_reach sm' \<and> sm_ok sm' \<and> pmksa_ok sm'"
proof -
  obtain r sm' where r: "wpa_sm_rx_eapol env ops src buf sm = Some (r, sm')" "sm_ok sm'"
    using rx_eapol_total [OF reach_ok [OF assms(1)] _ _ assms(3), of env buf ops] assms(2,4)
    by (auto simp: env_for_def regular_frame_def succeeds_def)
  moreover have "sm_reach sm'" using sm_reach.next_step [OF assms(1) sm_step.rx [OF assms(2-4) r(1)]] .
  ultimately show ?thesis by (simp add: sm_ok_def)
qed

text \<open>
  C1. Only authentic and fresh frames change keys. If handling a frame changes the PTK in use, the flag that says it is
  set or the replay counter, or gives any key to the driver, then the frame has the MIC flag, its MIC is the one that
  the PTK in use or the PTK of the running handshake gives, its replay counter is greater than the last one
  accepted, that PTK is the one in use afterwards, and a key given to the driver for an individual address is the
  temporal key of that PTK.
\<close>

theorem wpa_sm_rx_eapol_authentic:
  assumes "sm_reach sm" "env_for env sm" "length src = 6" "regular_frame buf" "wpa_sm_rx_eapol env ops src buf sm = Some (r, sm')"
  shows "keys_of sm' = keys_of sm \<and> log_ext (\<lambda>e. \<not> is_set_key e) sm sm' \<or>
    frame_key_info buf AND WPA_KEY_INFO_MIC \<noteq> 0 \<and>
    (sm_rx_replay_counter_set sm \<longrightarrow> be_val (sm_rx_replay_counter sm) < be_val (frame_replay buf)) \<and>
    (\<exists>ptk. candidate_ptk sm ptk \<and> mic_valid env ptk (frame_key_info buf AND 7) (frame_len buf) buf \<and>
       keys_of sm' = (ptk, True, frame_replay buf, True) \<and> log_ext (key_event ptk) sm sm')"
proof -
  note ok = reach_ok [OF assms(1)]
  have t: "sm_ok sm' \<and> (quiet sm sm' \<or>
    frame_key_info buf AND 0x100 \<noteq> 0 \<and> authenticated env buf (frame_key_info buf AND 7) (frame_len buf) sm sm' \<and>
    (sm_rx_replay_counter_set sm \<longrightarrow> memlt (sm_rx_replay_counter sm) (frame_replay buf)))"
    using succeedsD [OF rx_eapol_total [OF ok _ _ assms(3)] assms(5)] assms(2,4) by (auto simp: env_for_def regular_frame_def)
  show ?thesis
  proof (cases "quiet sm sm'")
    case True
    then show ?thesis by (simp add: quiet_def)
  next
    case False
    then obtain ptk where p: "candidate_ptk sm ptk" "mic_valid env ptk (frame_key_info buf AND 7) (frame_len buf) buf"
      "keys_of sm' = (ptk, True, frame_replay buf, True)" "log_ext (key_event ptk) sm sm'"
      using t by (auto simp: authenticated_def frame_replay_def)
    have "length (sm_rx_replay_counter sm) = 8" "length (frame_replay buf) = 8"
      using ok t p(3) by (auto simp: sm_ok_def keys_of_def)
    then show ?thesis using False t p memlt_be_val [of "sm_rx_replay_counter sm" "frame_replay buf"] by auto
  qed
qed

end
