(* ===== verification/Wpa_Handshake.thy ===== *)
theory Wpa_Handshake
  imports Wpa_Reach
begin

text \<open>
  What happens to particular frames: encrypted key data of length zero, and the messages that an authenticator sends
  in a 4-Way Handshake.
\<close>

section \<open>Encrypted key data of length zero\<close>

lemma aes_unwrap_short: "length c < 8 + 8 * n \<Longrightarrow> aes_unwrap dec ok k n c = None"
  by (auto simp: aes_unwrap_def rd_bytes_def)

text \<open>The fields of a frame that pass all checks of \<open>wpa_sm_rx_eapol\<close> before the MIC.\<close>

definition well_formed :: "bytes \<Rightarrow> u16 \<Rightarrow> wpa_sm \<Rightarrow> bool" where
  "well_formed buf ki sm \<longleftrightarrow> 99 \<le> length buf \<and> buf ! 1 = 3 \<and> 99 \<le> frame_len buf \<and> frame_len buf \<le> length buf \<and>
     (buf ! 4 = 2 \<or> buf ! 4 = 254) \<and> frame_key_info buf = ki \<and> version_ok ki (ki AND 7) sm \<and>
     ki AND WPA_KEY_INFO_ACK \<noteq> 0 \<and> ki AND WPA_KEY_INFO_REQUEST = 0 \<and> ki AND WPA_KEY_INFO_SMK_MESSAGE = 0 \<and>
     (sm_rx_replay_counter_set sm \<longrightarrow> memlt (sm_rx_replay_counter sm) (frame_replay buf))"

lemma rx_well_formed:
  assumes "well_formed buf ki sm" "sm_peerkey sm = []" "ev_tmp env"
  shows "wpa_sm_rx_eapol env ops src buf sm =
    accept_key env ops None src buf (frame_len buf) ki (ki AND 7) (emit (Notify_lower_layer_success False) sm)"
proof -
  let ?sm = "emit (Notify_lower_layer_success False) sm"
  have fl: "99 \<le> length buf" using assms(1) by (simp add: well_formed_def)
  note r = frame_reads [OF fl]
  have p: "List.find (\<lambda>p. pk_addr p = src) (sm_peerkey ?sm) = None" using assms(2) by (simp add: emit_def)
  have c: "sm_rx_replay_counter_set ?sm = sm_rx_replay_counter_set sm" "sm_rx_replay_counter ?sm = sm_rx_replay_counter sm"
    "version_ok k v ?sm = version_ok k v sm" for k v
    by (simp_all add: emit_def version_ok_def)
  have a: "ki AND (0x80 OR 0x2000) \<noteq> 0"
    using assms(1) by (metis (no_types, lifting) and.assoc and_zero_eq bit.conj_disj_distrib or.right_neutral well_formed_def)
  show ?thesis
    unfolding wpa_sm_rx_eapol_def r bind.simps Let_def p check_replay_def option.case c
    using assms(1,3) a by (auto simp: well_formed_def frame_len_def)
qed

text \<open>
  C23. Encrypted key data of length zero. Once a PTK is set, a fresh frame that claims to carry AES-wrapped key data
  of length zero makes the state machine read 65536 octets from a copy of the frame that is shorter: the length is
  reduced by eight in 16 bits. The frame needs no MIC.
\<close>

theorem wpa_sm_rx_eapol_underflow:
  assumes "sm_reach sm" "sm_ptk_set sm" "sm_proto sm = WPA_PROTO_RSN" "ev_tmp env" "ev_buf env"
    "well_formed buf ki sm" "ki AND 7 = WPA_KEY_INFO_TYPE_HMAC_SHA1_AES" "ki AND WPA_KEY_INFO_ENCR_KEY_DATA \<noteq> 0"
    "ki AND WPA_KEY_INFO_MIC = 0" "frame_data_len buf = 0" "length buf < 99 + 65536"
  shows "wpa_sm_rx_eapol env ops src buf sm = None"
proof -
  have "sm_peerkey sm = []" using reach_ok [OF assms(1)] by (simp add: sm_ok_def)
  note rx = rx_well_formed [OF assms(6) this assms(4)]
  have fl: "99 \<le> length buf" using assms(6) by (simp add: well_formed_def)
  let ?sm = "emit (Notify_lower_layer_success False) sm"
  have "aes_unwrap d ok k (unat (0 - 8 :: u16) div 8) (drop 99 buf) = None" for d ok k
    using assms(11) by (intro aes_unwrap_short) simp
  then have "wpa_supplicant_decrypt_key_data env buf (ki AND 7) ?sm = None"
    using assms(2,5,7,10) frame_reads(2) [OF fl] by (simp add: wpa_supplicant_decrypt_key_data_def)
  moreover have "sm_proto ?sm = WPA_PROTO_RSN" using assms(3) by (simp add: emit_def)
  ultimately show ?thesis
    unfolding rx accept_key_def using assms(8-10) frame_reads(2) [OF fl] by simp
qed

section \<open>Frames of the authenticator\<close>

text \<open>An EAPOL-Key frame of RSN; the key IV and the key identifier are zero.\<close>

definition key_frame :: "u8 \<Rightarrow> u16 \<Rightarrow> u16 \<Rightarrow> bytes \<Rightarrow> bytes \<Rightarrow> bytes \<Rightarrow> bytes \<Rightarrow> bytes \<Rightarrow> bytes" where
  "key_frame v ki kl rc nonce rsc mic data =
     [v, 3] @ put_be16 (word_of_nat (95 + length data)) @ [2] @ put_be16 ki @ put_be16 kl @ rc @ nonce @ replicate 16 0 @ rsc @
     replicate 8 0 @ mic @ put_be16 (word_of_nat (length data)) @ data"

definition sized :: "bytes \<Rightarrow> bytes \<Rightarrow> bytes \<Rightarrow> bytes \<Rightarrow> bytes \<Rightarrow> bool" where
  "sized rc nonce rsc mic data \<longleftrightarrow> length rc = 8 \<and> length nonce = 32 \<and> length rsc = 8 \<and> length mic = 16 \<and> length data < 65000"

lemma key_frame_fields:
  assumes "sized rc nonce rsc mic data" "f = key_frame v ki kl rc nonce rsc mic data"
  shows "length f = 99 + length data" "f ! 1 = 3" "f ! 4 = 2" "frame_key_info f = ki" "frame_len f = 99 + length data"
    "frame_data_len f = word_of_nat (length data)" "frame_replay f = rc" "take 32 (drop 17 f) = nonce" "take 8 (drop 65 f) = rsc"
    "take 16 (drop 81 f) = mic" "drop 99 f = data" "get_be16 (f ! 7) (f ! 8) = kl"
    "clear_mic f = key_frame v ki kl rc nonce rsc (replicate 16 0) data"
proof -
  note l = assms(1) [unfolded sized_def]
  note d = assms(2) key_frame_def put_be16_def get_put_be16
  show "length f = 99 + length data" using l by (simp add: d)
  show "f ! 1 = 3" "f ! 4 = 2" "frame_key_info f = ki" "get_be16 (f ! 7) (f ! 8) = kl"
    by (simp_all add: d frame_key_info_def)
  show "frame_len f = 99 + length data" using l by (simp add: d frame_len_def unat_of_nat del: of_nat_add)
  show "frame_data_len f = word_of_nat (length data)" using l by (simp add: d frame_data_len_def nth_append)
  show "frame_replay f = rc" "take 32 (drop 17 f) = nonce" "take 8 (drop 65 f) = rsc" "take 16 (drop 81 f) = mic" "drop 99 f = data"
    using l by (simp_all add: d frame_replay_def)
  show "clear_mic f = key_frame v ki kl rc nonce rsc (replicate 16 0) data"
    using l by (simp add: d clear_mic_def)
qed

lemma key_frame_writes:
  assumes "sized rc nonce rsc mic data"
  shows "length n = 32 \<Longrightarrow> wr_bytes (key_frame v ki kl rc nonce rsc mic data) 17 n = Some (key_frame v ki kl rc n rsc mic data)"
    "length m = 16 \<Longrightarrow> wr_bytes (key_frame v ki kl rc nonce rsc mic data) 81 m = Some (key_frame v ki kl rc nonce rsc m data)"
  using assms by (simp_all add: sized_def wr_bytes_def key_frame_def)

lemma fill_reply_exact:
  assumes "sm_proto sm = WPA_PROTO_RSN" "99 \<le> length frame" "length kde < 65000" "wpa_alloc_eapol env 3 (95 + length kde) = Some rbuf"
  shows "fill_reply rbuf ki frame kde sm =
    Some (key_frame (ev_eapol_version env) ki 0 (frame_replay frame) (replicate 32 0) (replicate 8 0) (replicate 16 0) kde)"
proof -
  have u: "unat (word_of_nat (95 + length kde) :: u16) = 95 + length kde"
    using assms(3) by (simp add: unat_of_nat del: of_nat_add)
  have b: "rbuf = [ev_eapol_version env, 3] @ put_be16 (word_of_nat (95 + length kde)) @ replicate (95 + length kde) 0"
    using assms(4) u by (auto simp: wpa_alloc_eapol_def Let_def split: if_splits)
  have l: "length (frame_replay frame) = 8" using assms(2) by (simp add: frame_replay_def)
  have r: "rd_bytes frame 9 8 = Some (frame_replay frame)" using frame_reads [OF assms(2)] by simp
  have rep: "replicate (95 + length kde) (0 :: u8) = replicate 93 0 @ replicate 2 0 @ replicate (length kde) 0"
    unfolding replicate_add [symmetric] by (rule arg_cong [where f = "\<lambda>n. replicate n 0"]) simp
  have 1: "wr_bytes rbuf 4 ([2] @ put_be16 ki @ put_be16 0 @ frame_replay frame) =
      Some ([ev_eapol_version env, 3] @ put_be16 (word_of_nat (95 + length kde)) @ [2] @ put_be16 ki @ put_be16 0 @ frame_replay frame @
        replicate 80 0 @ replicate 2 0 @ replicate (length kde) 0)"
    using l by (simp add: wr_bytes_def b rep)
  have 2: "wr_bytes (pre @ replicate 2 0 @ replicate (length kde) 0) 97 (put_be16 w @ kde) = Some (pre @ put_be16 w @ kde)"
    if "length pre = 97" for pre and w :: u16
    using that by (simp add: wr_bytes_def)
  have s: "wr_bytes buf pos d \<bind> (\<lambda>b. wr_bytes b n e) = wr_bytes buf pos (d @ e)" if "n = pos + length d" for buf pos d n e
    using wr_bytes_seq [OF that, where k = Some] by simp
  have "fill_reply rbuf ki frame kde sm = wr_bytes rbuf 4 ([2] @ put_be16 ki @ put_be16 0 @ frame_replay frame) \<bind>
      (\<lambda>b. wr_bytes b 97 (put_be16 (word_of_nat (length kde)) @ kde))"
    unfolding fill_reply_def r if_P [OF assms(1)] bind.simps using assms(1) by (simp add: wr_bytes_seq s reply_type_def)
  also have "\<dots> = Some (key_frame (ev_eapol_version env) ki 0 (frame_replay frame) (replicate 32 0) (replicate 8 0) (replicate 16 0) kde)"
    unfolding 1 bind.simps
    using l 2 [of "[ev_eapol_version env, 3] @ put_be16 (word_of_nat (95 + length kde)) @ [2] @ put_be16 ki @ put_be16 0 @
      frame_replay frame @ replicate 80 0" "word_of_nat (length kde)"]
    by (simp add: key_frame_def replicate_add [symmetric])
  finally show ?thesis .
qed

text \<open>A frame with the MIC that \<open>ptk\<close> gives it.\<close>

definition sealed :: "hashes \<Rightarrow> bytes \<Rightarrow> u8 \<Rightarrow> u16 \<Rightarrow> u16 \<Rightarrow> bytes \<Rightarrow> bytes \<Rightarrow> bytes \<Rightarrow> bytes \<Rightarrow> bytes" where
  "sealed hs ptk v ki kl rc nonce rsc data =
     key_frame v ki kl rc nonce rsc
       (the (wpa_eapol_key_mic hs (kck ptk) 2 (key_frame v ki kl rc nonce rsc (replicate 16 0) data))) data"

lemma sealed_mic:
  assumes "hashes_ok hs" "sized rc nonce rsc (replicate 16 0) data"
  obtains m where "sealed hs ptk v ki kl rc nonce rsc data = key_frame v ki kl rc nonce rsc m data"
    "wpa_eapol_key_mic hs (kck ptk) 2 (key_frame v ki kl rc nonce rsc (replicate 16 0) data) = Some m"
    "sized rc nonce rsc m data"
proof -
  obtain m where m: "wpa_eapol_key_mic hs (kck ptk) 2 (key_frame v ki kl rc nonce rsc (replicate 16 0) data) = Some m"
    using mic_total [OF assms(1)] by blast
  moreover have "length m = 16" by (rule length_mic [OF assms(1) m])
  ultimately show ?thesis using that [of m] assms(2) by (simp add: sealed_def sized_def)
qed

lemma sealed_valid:
  assumes "hashes_ok (ev_hashes env)" "sized rc nonce rsc (replicate 16 0) data"
  shows "mic_valid env ptk 2 (99 + length data) (sealed (ev_hashes env) ptk v ki kl rc nonce rsc data)"
proof -
  obtain m where m: "sealed (ev_hashes env) ptk v ki kl rc nonce rsc data = key_frame v ki kl rc nonce rsc m data"
    "wpa_eapol_key_mic (ev_hashes env) (kck ptk) 2 (key_frame v ki kl rc nonce rsc (replicate 16 0) data) = Some m"
    "sized rc nonce rsc m data"
    by (rule sealed_mic [OF assms])
  note k = key_frame_fields [OF m(3) refl, of v ki kl] key_frame_fields(1) [OF assms(2) refl, of v ki kl]
  show ?thesis unfolding mic_valid_def m(1) k using m(2) k by simp
qed

lemma key_send_exact:
  assumes "hashes_ok (ev_hashes env)" "sized rc nonce rsc (replicate 16 0) data" "\<not> is_zero_ether_addr dest"
  shows "wpa_eapol_key_send env (kck ptk) 2 dest proto (key_frame v ki kl rc nonce rsc (replicate 16 0) data) True sm =
    Some (emit Notify_tx_eapol_key (emit (Ether_send dest proto (sealed (ev_hashes env) ptk v ki kl rc nonce rsc data)) sm))"
proof -
  obtain m where m: "sealed (ev_hashes env) ptk v ki kl rc nonce rsc data = key_frame v ki kl rc nonce rsc m data"
    "wpa_eapol_key_mic (ev_hashes env) (kck ptk) 2 (key_frame v ki kl rc nonce rsc (replicate 16 0) data) = Some m"
    "sized rc nonce rsc m data"
    by (rule sealed_mic [OF assms(1,2)])
  have "length m = 16" using m(3) by (simp add: sized_def)
  then show ?thesis
    using m assms(3) key_frame_writes(2) [OF assms(2)] by (simp add: wpa_eapol_key_send_def)
qed

section \<open>The 4-Way Handshake\<close>

text \<open>
  The supplicant is associated with WPA2-Personal and CCMP, knows the RSN element of the AP from the beacon, and its
  allocations and driver calls succeed.
\<close>

definition supp_env :: "rsn_env \<Rightarrow> bool" where
  "supp_env env \<longleftrightarrow> env_ok env \<and> ev_tmp env \<and> ev_eapol env \<and> ev_buf env \<and> ev_aes_init env \<and> ev_network_ctx env \<noteq> NULL \<and>
     (\<forall>a b c. ev_set_key env a b c)"

definition supp_sm :: "bytes \<Rightarrow> wpa_sm \<Rightarrow> bool" where
  "supp_sm rsn sm \<longleftrightarrow> sm_proto sm = WPA_PROTO_RSN \<and> sm_key_mgmt sm = WPA_KEY_MGMT_PSK \<and>
     sm_pairwise_cipher sm = WPA_CIPHER_CCMP \<and> sm_group_cipher sm = WPA_CIPHER_CCMP \<and> sm_cur_pmksa sm = None \<and>
     sm_wpa_ptk_rekey sm = 0 \<and> \<not> is_zero_ether_addr (sm_bssid sm) \<and> sm_ap_wpa_ie sm = None \<and> sm_ap_rsn_ie sm = Some rsn"

lemma alloc_eapol: "ev_eapol env \<Longrightarrow> \<exists>b. wpa_alloc_eapol env t n = Some b"
  by (simp add: wpa_alloc_eapol_def Let_def)

lemma send_2_exact:
  assumes "env_ok env" "ev_eapol env" "sm_proto sm = WPA_PROTO_RSN" "\<not> is_zero_ether_addr dst" "99 \<le> length frame"
    "length ie < 65000" "length nonce = 32"
  shows "wpa_supplicant_send_2_of_4 env dst frame 2 nonce (Some ie) ptk sm = Some (0, emit Notify_tx_eapol_key
    (emit (Ether_send dst ETH_P_EAPOL (sealed (ev_hashes env) ptk (ev_eapol_version env) 0x10a 0 (frame_replay frame) nonce
       (replicate 8 0) ie)) sm))"
proof -
  obtain b where b: "wpa_alloc_eapol env 3 (95 + length ie) = Some b" using alloc_eapol [OF assms(2)] by blast
  have l: "length (frame_replay frame) = 8" using assms(5) by (simp add: frame_replay_def)
  have z: "sized (frame_replay frame) n (replicate 8 0) (replicate 16 0) ie" if "length n = 32" for n
    using that l assms(6) by (simp add: sized_def)
  have hs: "hashes_ok (ev_hashes env)" using assms(1) by (simp add: env_ok_def)
  show ?thesis
    unfolding wpa_supplicant_send_2_of_4_def option.case b fill_reply_exact [OF assms(3,5,6) b] bind.simps
      key_frame_writes(1) [OF z [of "replicate 32 0", simplified] assms(7)]
    using key_send_exact [OF hs z [OF assms(7)] assms(4)] by simp
qed

lemma send_4_exact:
  assumes "env_ok env" "ev_eapol env" "sm_proto sm = WPA_PROTO_RSN" "\<not> is_zero_ether_addr dst" "99 \<le> length frame"
  shows "wpa_supplicant_send_4_of_4 env dst frame 2 0x13ca [] ptk sm = Some (0, emit Notify_tx_eapol_key
    (emit (Ether_send dst ETH_P_EAPOL (sealed (ev_hashes env) ptk (ev_eapol_version env) 0x30a 0 (frame_replay frame) (replicate 32 0)
       (replicate 8 0) [])) sm))"
proof -
  obtain b where b: "wpa_alloc_eapol env 3 (95 + length ([] :: bytes)) = Some b" using alloc_eapol [OF assms(2)] by blast
  have z: "sized (frame_replay frame) (replicate 32 0) (replicate 8 0) (replicate 16 0) []"
    using assms(5) by (simp add: sized_def frame_replay_def)
  have hs: "hashes_ok (ev_hashes env)" using assms(1) by (simp add: env_ok_def)
  show ?thesis
    unfolding wpa_supplicant_send_4_of_4_def b option.case Let_def fill_reply_exact [OF assms(3,5) _ b, simplified] bind.simps
    using key_send_exact [OF hs z assms(4)] by simp
qed

text \<open>The PTK that the authenticator derives from the PMK, the two addresses and the two nonces.\<close>

definition derived_ptk :: "hashes \<Rightarrow> bytes \<Rightarrow> bytes \<Rightarrow> bytes \<Rightarrow> bytes \<Rightarrow> bytes \<Rightarrow> bytes" where
  "derived_ptk hs pmk aa spa anonce snonce =
     snd (wpa_pmk_to_ptk hs pmk (lit ''Pairwise key expansion'') aa spa anonce snonce 48)"

lemma prf_ok: "\<forall>xs. sha1 xs \<noteq> None \<Longrightarrow> fst (prf_loop sha1 key label data c left) = 0"
proof (induction sha1 key label data c left rule: prf_loop.induct)
  case (1 sha1 key label data c left)
  obtain h where h: "hmac_sha1_vector sha1 key [label @ [0], data, [c]] = Some h"
    using hmac_total [OF "1.prems"] by (force simp: hmac_sha1_vector_def)
  show ?case using "1.IH" [OF _ h _ "1.prems"] by (subst prf_loop.simps) (simp add: h split_def Let_def)
qed

lemma length_derived_ptk:
  assumes "hashes_ok hs"
  shows "length (derived_ptk hs pmk aa spa an sn) = 48"
proof -
  have h: "hash_ok (sha1_vector hs) 20" "\<forall>xs. sha1_vector hs xs \<noteq> None" using assms by (simp_all add: hashes_ok_def)
  show ?thesis
    using length_prf_loop [OF h(1) surjective_pairing] prf_ok [OF h(2)]
    by (simp add: derived_ptk_def wpa_pmk_to_ptk_def sha1_prf_def Let_def)
qed

lemma derive_ptk_exact:
  assumes "sm_ok sm" "hashes_ok (ev_hashes env)" "sm_pairwise_cipher sm = WPA_CIPHER_CCMP" "length anonce = 32"
    "rd_bytes frame 17 32 = Some anonce"
  shows "wpa_derive_ptk env frame (sm_tptk sm) sm =
    Some (derived_ptk (ev_hashes env) (take (sm_pmk_len sm) (sm_pmk sm)) (sm_bssid sm) (sm_own_addr sm) anonce (sm_snonce sm) @
      drop 48 (sm_tptk sm))"
proof -
  have l: "length (sm_own_addr sm) = length (sm_bssid sm)" "length (sm_snonce sm) = length anonce" "length (sm_tptk sm) = 64"
    "sm_pmk_len sm \<le> length (sm_pmk sm)"
    using assms(1,4) by (simp_all add: sm_ok_def pmksa_ok_def cache_inv_def)
  let ?d = "derived_ptk (ev_hashes env) (take (sm_pmk_len sm) (sm_pmk sm)) (sm_bssid sm) (sm_own_addr sm) anonce (sm_snonce sm)"
  have e: "snd (wpa_pmk_to_ptk (ev_hashes env) (take (sm_pmk_len sm) (sm_pmk sm)) (lit ''Pairwise key expansion'') (sm_own_addr sm)
      (sm_bssid sm) (sm_snonce sm) anonce 48) = ?d"
    unfolding derived_ptk_def using pmk_to_ptk_sym [OF l(1,2)] by simp
  have "wr_bytes (sm_tptk sm) 0 ?d = Some (?d @ drop 48 (sm_tptk sm))"
    using length_derived_ptk [OF assms(2)] l(3) by (simp add: wr_bytes_def)
  then show ?thesis
    using e assms(3,5) l(4) by (simp add: wpa_derive_ptk_def rd_bytes_def)
qed

lemma sealed_kck: "kck p = kck q \<Longrightarrow> sealed hs p = sealed hs q"
  by (simp add: sealed_def fun_eq_iff)

lemma reply_1_exact:
  assumes "sm_ok sm" "env_ok env" "ev_eapol env" "sm_proto sm = WPA_PROTO_RSN" "sm_pairwise_cipher sm = WPA_CIPHER_CCMP"
    "\<not> is_zero_ether_addr (sm_bssid sm)" "sm_assoc_wpa_ie sm = Some ie" "99 \<le> length frame" "take 32 (drop 17 frame) = anonce"
    "ptk = derived_ptk (ev_hashes env) (take (sm_pmk_len sm) (sm_pmk sm)) (sm_bssid sm) (sm_own_addr sm) anonce (sm_snonce sm)"
  shows "\<exists>tptk. take 48 tptk = ptk \<and> length tptk = 64 \<and> reply_1_of_4 env frame 2 sm = Some ((emit Notify_tx_eapol_key
    (emit (Ether_send (sm_bssid sm) ETH_P_EAPOL (sealed (ev_hashes env) ptk (ev_eapol_version env) 0x10a 0 (frame_replay frame)
       (sm_snonce sm) (replicate 8 0) ie)) (sm\<lparr>sm_tptk := tptk, sm_tptk_set := True\<rparr>)))\<lparr>sm_anonce := anonce\<rparr>)"
proof -
  have hs: "hashes_ok (ev_hashes env)" using assms(2) by (simp add: env_ok_def)
  have r: "rd_bytes frame 17 32 = Some anonce" "length anonce = 32" using assms(8,9) by (auto simp: rd_bytes_def)
  have l: "length (sm_snonce sm) = 32" "length ie < 65000" using assms(1,7) by (simp_all add: sm_ok_def)
  have p: "length ptk = 48" unfolding assms(10) by (rule length_derived_ptk [OF hs])
  define tptk where "tptk = swap_mic_keys (ptk @ drop 48 (sm_tptk sm))"
  have t: "take 48 tptk = ptk" "length tptk = 64" using p assms(1) by (simp_all add: tptk_def swap_mic_keys_def sm_ok_def)
  have "take 16 tptk = take 16 (take 48 tptk)" by simp
  then have k: "kck tptk = kck ptk" by (simp add: kck_def t)
  let ?sm = "sm\<lparr>sm_tptk := tptk, sm_tptk_set := True\<rparr>"
  have s: "wpa_supplicant_send_2_of_4 env (sm_bssid sm) frame 2 (sm_snonce sm) (Some ie) tptk ?sm = Some (0, emit Notify_tx_eapol_key
    (emit (Ether_send (sm_bssid sm) ETH_P_EAPOL (sealed (ev_hashes env) ptk (ev_eapol_version env) 0x10a 0 (frame_replay frame)
       (sm_snonce sm) (replicate 8 0) ie)) ?sm))"
    unfolding sealed_kck [OF k, symmetric]
    by (rule send_2_exact [OF assms(2,3) _ assms(6,8) l(2,1)]) (use assms(4) in simp)
  have d: "wpa_derive_ptk env frame (sm_tptk sm) sm = Some (ptk @ drop 48 (sm_tptk sm))"
    unfolding assms(10) by (rule derive_ptk_exact [OF assms(1) hs assms(5) r(2,1)])
  have sel: "sm_bssid ?sm = sm_bssid sm" "sm_snonce ?sm = sm_snonce sm" "sm_assoc_wpa_ie ?sm = Some ie" "sm_tptk ?sm = tptk"
    using assms(7) by simp_all
  have "reply_1_of_4 env frame 2 sm = Some ((emit Notify_tx_eapol_key
    (emit (Ether_send (sm_bssid sm) ETH_P_EAPOL (sealed (ev_hashes env) ptk (ev_eapol_version env) 0x10a 0 (frame_replay frame)
       (sm_snonce sm) (replicate 8 0) ie)) ?sm))\<lparr>sm_anonce := anonce\<rparr>)"
    unfolding reply_1_of_4_def d bind.simps Let_def tptk_def [symmetric] sel s prod.case r(1) by simp
  then show ?thesis using t by blast
qed

lemma get_pmk_psk:
  assumes "sm_key_mgmt sm = WPA_KEY_MGMT_PSK" "sm_cur_pmksa sm = None"
  shows "wpa_supplicant_get_pmk env src None sm = Some (0, sm)"
  using assms by (simp add: wpa_supplicant_get_pmk_def wpa_key_mgmt_wpa_ieee8021x_def)

lemma parse_empty: "wpa_supplicant_parse_ies mem buf 0 = Some (0, no_ies)"
  by (simp add: wpa_supplicant_parse_ies_def parse_ies_loop.simps)

text \<open>The state after message 1 has been answered with \<open>m2\<close>.\<close>

definition answered :: "bytes \<Rightarrow> bytes \<Rightarrow> bytes \<Rightarrow> bytes \<Rightarrow> wpa_sm \<Rightarrow> wpa_sm \<Rightarrow> bool" where
  "answered rsn ptk anonce m2 sm sm1 \<longleftrightarrow> sm_ok sm1 \<and> supp_sm rsn sm1 \<and> sm_tptk_set sm1 \<and> take 48 (sm_tptk sm1) = ptk \<and> sm_anonce sm1 = anonce \<and>
     sm_bssid sm1 = sm_bssid sm \<and> keys_of sm1 = keys_of sm \<and>
     sm_log sm1 = sm_log sm @ [Notify_lower_layer_success False, Set_state WPA_4WAY_HANDSHAKE, Ether_send (sm_bssid sm) ETH_P_EAPOL m2,
       Notify_tx_eapol_key]"

lemma rx_message_1:
  assumes "supp_env env" "supp_sm rsn sm" "sm_ok sm" "sm_assoc_wpa_ie sm = Some ie" "sized rc anonce rsc mic []"
    "if sm_renew_snonce sm then ev_random env = Some sn else sn = sm_snonce sm"
    "sm_rx_replay_counter_set sm \<longrightarrow> memlt (sm_rx_replay_counter sm) rc"
    "ptk = derived_ptk (ev_hashes env) (take (sm_pmk_len sm) (sm_pmk sm)) (sm_bssid sm) (sm_own_addr sm) anonce sn"
  shows "\<exists>sm1. wpa_sm_rx_eapol env ops src (key_frame v 0x8a 16 rc anonce rsc mic []) sm = Some (1, sm1) \<and>
    answered rsn ptk anonce (sealed (ev_hashes env) ptk (ev_eapol_version env) 0x10a 0 rc sn (replicate 8 0) ie) sm sm1"
proof -
  define m1 where "m1 = key_frame v 0x8a 16 rc anonce rsc mic []"
  note f = key_frame_fields [OF assms(5) m1_def]
  have fl: "99 \<le> length m1" using f by simp
  have w: "well_formed m1 0x8a sm"
    using f assms(2,7) by (simp add: well_formed_def version_ok_def supp_sm_def)
  let ?sm0 = "emit (Set_state WPA_4WAY_HANDSHAKE) (emit (Notify_lower_layer_success False) sm)"
  define sm2 where "sm2 = (if sm_renew_snonce sm then ?sm0\<lparr>sm_snonce := sn, sm_renew_snonce := False\<rparr> else ?sm0)"
  have ok: "sm_ok sm2" using assms(1,3,6) by (auto simp: sm2_def sm_ok_upd supp_env_def env_ok_def split: if_splits)
  have e: "sm_snonce sm2 = sn" "sm_bssid sm2 = sm_bssid sm" "sm_own_addr sm2 = sm_own_addr sm" "sm_pmk sm2 = sm_pmk sm"
    "sm_pmk_len sm2 = sm_pmk_len sm" "sm_assoc_wpa_ie sm2 = sm_assoc_wpa_ie sm" "supp_sm rsn sm2" "keys_of sm2 = keys_of sm"
    "sm_log sm2 = sm_log sm @ [Notify_lower_layer_success False, Set_state WPA_4WAY_HANDSHAKE]"
    using assms(2,6) by (auto simp: sm2_def emit_def supp_sm_def keys_of_def)
  have c2: "sm_proto sm2 = WPA_PROTO_RSN" "sm_pairwise_cipher sm2 = WPA_CIPHER_CCMP" "\<not> is_zero_ether_addr (sm_bssid sm2)"
    using e(7) by (simp_all add: supp_sm_def)
  have ev: "env_ok env" "ev_eapol env" using assms(1) by (simp_all add: supp_env_def)
  have p2: "ptk = derived_ptk (ev_hashes env) (take (sm_pmk_len sm2) (sm_pmk sm2)) (sm_bssid sm2) (sm_own_addr sm2) anonce (sm_snonce sm2)"
    unfolding e by (rule assms(8))
  obtain tptk where t: "take 48 tptk = ptk" "length tptk = 64" "reply_1_of_4 env m1 2 sm2 = Some ((emit Notify_tx_eapol_key
    (emit (Ether_send (sm_bssid sm) ETH_P_EAPOL (sealed (ev_hashes env) ptk (ev_eapol_version env) 0x10a 0 rc sn (replicate 8 0) ie))
      (sm2\<lparr>sm_tptk := tptk, sm_tptk_set := True\<rparr>)))\<lparr>sm_anonce := anonce\<rparr>)"
    using reply_1_exact [OF ok ev c2 e(6) [unfolded assms(4)] fl f(8) p2] unfolding e f(7) by blast
  define sm1 where "sm1 = (emit Notify_tx_eapol_key
    (emit (Ether_send (sm_bssid sm) ETH_P_EAPOL (sealed (ev_hashes env) ptk (ev_eapol_version env) 0x10a 0 rc sn (replicate 8 0) ie))
      (sm2\<lparr>sm_tptk := tptk, sm_tptk_set := True\<rparr>)))\<lparr>sm_anonce := anonce\<rparr>"
  have "wpa_supplicant_process_1_of_4 env src m1 2 (emit (Notify_lower_layer_success False) sm) = Some sm1"
  proof -
    have c: "sm_key_mgmt ?sm0 = WPA_KEY_MGMT_PSK" "sm_cur_pmksa ?sm0 = None" "sm_proto ?sm0 = WPA_PROTO_RSN"
      "sm_renew_snonce ?sm0 = sm_renew_snonce sm" using assms(2) by (simp_all add: emit_def supp_sm_def)
    have n: "ev_network_ctx env \<noteq> NULL" using assms(1) by (simp add: supp_env_def)
    have k: "rd_be16 m1 97 = Some 0" using frame_reads(2) [OF fl] f by simp
    have "wpa_supplicant_process_1_of_4 env src m1 2 (emit (Notify_lower_layer_success False) sm) = reply_1_of_4 env m1 2 sm2"
      unfolding wpa_supplicant_process_1_of_4_def if_not_P [OF n] Let_def k bind.simps if_P [OF c(3)] unat_0 parse_empty prod.case
      using get_pmk_psk [OF c(1,2), of env src] assms(6) c(4) by (simp add: no_ies_def sm2_def)
    then show ?thesis using t(3) by (simp only: sm1_def)
  qed
  then have "accept_key env ops None src m1 (frame_len m1) 0x8a 2 (emit (Notify_lower_layer_success False) sm) = Some (1, sm1)"
    using frame_reads(2) [OF fl] f(5,6) by (simp add: accept_key_def dispatch_key_def)
  then have "wpa_sm_rx_eapol env ops src m1 sm = Some (1, sm1)"
    using rx_well_formed [OF w] assms(1,3) by (simp add: supp_env_def sm_ok_def)
  moreover have "answered rsn ptk anonce (sealed (ev_hashes env) ptk (ev_eapol_version env) 0x10a 0 rc sn (replicate 8 0) ie) sm sm1"
  proof -
    have "length anonce = 32" using assms(5) by (simp add: sized_def)
    then have "sm_ok sm1" using ok t(2) by (simp add: sm1_def sm_ok_upd)
    then show ?thesis using e t(1) by (simp add: sm1_def answered_def supp_sm_def emit_def keys_of_def)
  qed
  ultimately show ?thesis unfolding m1_def by blast
qed

subsection \<open>Message 3\<close>

lemma check_mic_valid:
  assumes "mic_valid env p ver (length f) f" "99 \<le> length f" "hashes_ok (ev_hashes env)"
  shows "check_mic env p (take 16 (drop 81 f)) ver (length f) f = Some (True, f)"
proof -
  let ?m = "take 16 (drop 81 f)"
  have w: "wr_bytes f 81 (replicate 16 0) = Some (clear_mic f)" using assms(2) by (simp add: wr_bytes_def clear_mic_def)
  have r: "rd_bytes (clear_mic f) 0 (length f) = Some (take (length f) (clear_mic f))"
    using assms(2) by (simp add: rd_bytes_def clear_mic_def)
  have m: "wpa_eapol_key_mic (ev_hashes env) (kck p) ver (take (length f) (clear_mic f)) = Some ?m"
    using assms(1) by (simp add: mic_valid_def)
  have "take 81 f @ ?m @ drop 97 f = f" using append_take_drop_id [of 81 f] append_take_drop_id [of 16 "drop 81 f"] by simp
  then have "wr_bytes (clear_mic f) 81 ?m = Some f" using assms(2) by (simp add: wr_bytes_def clear_mic_def)
  then show ?thesis unfolding check_mic_def w r m bind.simps Let_def option.case by simp
qed

lemma mic_valid_kck: "kck p = kck q \<Longrightarrow> mic_valid env p = mic_valid env q"
  by (simp add: mic_valid_def fun_eq_iff)

text \<open>The PTK that message 3 is checked with: the one of the running handshake, or else the one in use.\<close>

definition active_ptk :: "wpa_sm \<Rightarrow> bytes \<Rightarrow> bool" where
  "active_ptk sm ptk \<longleftrightarrow> length ptk = 48 \<and>
     (sm_tptk_set sm \<and> take 48 (sm_tptk sm) = ptk \<or> \<not> sm_tptk_set sm \<and> sm_ptk_set sm \<and> take 48 (sm_ptk sm) = ptk)"

definition verified :: "bytes \<Rightarrow> wpa_sm \<Rightarrow> wpa_sm" where
  "verified rc sm = (if sm_tptk_set sm then sm\<lparr>sm_tptk_set := False, sm_ptk_set := True, sm_ptk := sm_tptk sm\<rparr> else sm)
     \<lparr>sm_rx_replay_counter := rc, sm_rx_replay_counter_set := True\<rparr>"

lemma kck_take: "take 48 p = ptk \<Longrightarrow> kck p = kck ptk \<and> kek p = kek ptk \<and> take 16 (drop 32 p) = take 16 (drop 32 ptk)"
  by (auto simp: kck_def kek_def drop_take min_def)

lemma verify_exact:
  assumes "active_ptk sm ptk" "mic_valid env ptk 2 (length f) f" "99 \<le> length f" "hashes_ok (ev_hashes env)"
  shows "wpa_supplicant_verify_eapol_key_mic env f 2 (length f) sm = Some (0, f, verified (frame_replay f) sm)"
proof -
  have m: "rd_bytes f 81 16 = Some (take 16 (drop 81 f))" "rd_bytes f 9 8 = Some (frame_replay f)"
    using assms(3) by (simp_all add: rd_bytes_def frame_replay_def)
  have c: "check_mic env p (take 16 (drop 81 f)) 2 (length f) f = Some (True, f)" if "take 48 p = ptk" for p
    by (rule check_mic_valid [OF _ assms(3,4)]) (use assms(2) mic_valid_kck kck_take [OF that] in metis)
  show ?thesis
    unfolding wpa_supplicant_verify_eapol_key_mic_def m bind.simps
    using assms(1) c by (auto simp: active_ptk_def verified_def m)
qed

lemma verified_simps:
  assumes "active_ptk sm ptk"
  shows "sm_ptk_set (verified rc sm)" "take 48 (sm_ptk (verified rc sm)) = ptk" "\<not> sm_tptk_set (verified rc sm)"
    "sm_rx_replay_counter (verified rc sm) = rc" "sm_rx_replay_counter_set (verified rc sm)" "sm_log (verified rc sm) = sm_log sm"
    "sm_bssid (verified rc sm) = sm_bssid sm" "sm_anonce (verified rc sm) = sm_anonce sm" "supp_sm rsn (verified rc sm) = supp_sm rsn sm"
  using assms by (auto simp: verified_def active_ptk_def supp_sm_def)

text \<open>Decryption replaces the key data by the plain text and its length.\<close>

definition decrypted :: "bytes \<Rightarrow> nat \<Rightarrow> bytes \<Rightarrow> bytes" where
  "decrypted f n plain = take 97 f @ put_be16 (word_of_nat (8 * n)) @ plain @ drop (99 + 8 * n) f"

lemma decrypt_exact:
  assumes "sm_ptk_set sm" "kek (sm_ptk sm) = k" "ev_buf env" "aes_unwrap (ev_aes_decrypt env) (ev_aes_init env) k n (drop 99 f) = Some (0, plain)"
    "length plain = 8 * n" "length f = 107 + 8 * n" "rd_be16 f 97 = Some (word_of_nat (8 * n + 8))" "8 * n < 65000"
  shows "wpa_supplicant_decrypt_key_data env f 2 sm = Some (0, decrypted f n plain)"
proof -
  have u: "unat (word_of_nat (8 * n + 8) :: u16) = 8 * n + 8" using assms(8) by (simp add: unat_of_nat del: of_nat_add of_nat_mult)
  have v: "(word_of_nat (8 * n + 8) :: u16) - 8 = word_of_nat (8 * n)" by simp
  have w: "unat (word_of_nat (8 * n) :: u16) div 8 = n" using assms(8) by (simp add: unat_of_nat del: of_nat_mult)
  have 1: "wr_bytes f 99 plain = Some (take 99 f @ plain @ drop (99 + 8 * n) f)" using assms(5,6) by (simp add: wr_bytes_def)
  have 2: "wr_bytes (take 99 f @ plain @ drop (99 + 8 * n) f) 97 (put_be16 (word_of_nat (8 * n))) = Some (decrypted f n plain)"
    using assms(6) by (simp add: wr_bytes_def decrypted_def)
  show ?thesis
    unfolding wpa_supplicant_decrypt_key_data_def assms(7) bind.simps Let_def u v w assms(2,4) prod.case 1 2
    using assms(1,3) by simp
qed

lemma decrypted_fields:
  assumes "length f = 107 + 8 * n" "length plain = 8 * n" "8 * n < 65000"
  shows "length (decrypted f n plain) = length f" "rd_be16 (decrypted f n plain) 97 = Some (word_of_nat (8 * n))"
    "i + k \<le> 97 \<Longrightarrow> rd_bytes (decrypted f n plain) i k = rd_bytes f i k" "i + 2 \<le> 97 \<Longrightarrow> rd_be16 (decrypted f n plain) i = rd_be16 f i"
    "frame_replay (decrypted f n plain) = frame_replay f"
    "decrypted f n plain = take 99 (decrypted f n plain) @ plain @ drop (99 + 8 * n) f"
proof -
  show l: "length (decrypted f n plain) = length f" using assms by (simp add: decrypted_def)
  show "rd_be16 (decrypted f n plain) 97 = Some (word_of_nat (8 * n))"
    using assms(1) by (simp add: rd_be16_def rd_def decrypted_def nth_append put_be16_def get_put_be16)
  show "rd_bytes (decrypted f n plain) i k = rd_bytes f i k" if "i + k \<le> 97" for i k
    using that assms(1,2) by (simp add: rd_bytes_def l) (simp add: decrypted_def take_drop min_def)
  show "rd_be16 (decrypted f n plain) i = rd_be16 f i" if "i + 2 \<le> 97" for i
    using that assms(1,2) by (simp add: rd_be16_def rd_def l) (simp add: decrypted_def nth_append)
  show "frame_replay (decrypted f n plain) = frame_replay f"
    using assms(1) by (simp add: frame_replay_def decrypted_def take_drop min_def)
  show "decrypted f n plain = take 99 (decrypted f n plain) @ plain @ drop (99 + 8 * n) f"
    using assms(1) by (simp add: decrypted_def)
qed

text \<open>The key data of message 3: the RSN element, the GTK and padding.\<close>

definition rsn_element :: "bytes \<Rightarrow> bool" where
  "rsn_element rsn \<longleftrightarrow> (\<exists>l d. rsn = 48 # l # d \<and> length d = unat l)"

definition gtk_kde :: "u8 \<Rightarrow> bytes \<Rightarrow> bytes" where
  "gtk_kde kid gtk = [0xdd, 22] @ put_be32 RSN_KEY_DATA_GROUPKEY @ [kid, 0] @ gtk"

definition padding :: "bytes \<Rightarrow> bool" where
  "padding p \<longleftrightarrow> p = [] \<or> (\<exists>k. p = 0xdd # replicate k 0)"

definition key_data :: "bytes \<Rightarrow> u8 \<Rightarrow> bytes \<Rightarrow> bytes \<Rightarrow> bytes" where
  "key_data rsn kid gtk pad = rsn @ gtk_kde kid gtk @ pad"

lemma parse_padding:
  assumes "mem = xs @ pad @ ys" "padding pad" "fin = length xs + length pad"
  shows "parse_ies_loop mem (length xs) fin ie = Some (0, ie)"
proof (cases "length pad \<le> 1")
  case True
  then show ?thesis using assms(3) by (subst parse_ies_loop.simps) auto
next
  case False
  then obtain k where k: "pad = 0xdd # 0 # replicate k 0"
    using assms(2) unfolding padding_def by (metis One_nat_def length_Cons length_replicate list.size(3) not0_implies_Suc order_refl replicate_Suc zero_le)
  then show ?thesis using assms(1) by (intro parse_ies_end) auto
qed

lemma parse_key_data:
  assumes "mem = xs @ key_data rsn kid gtk pad @ ys" "length xs = 99" "rsn_element rsn" "length gtk = 16" "padding pad"
  shows "wpa_supplicant_parse_ies mem 99 (length (key_data rsn kid gtk pad)) =
    Some (0, no_ies\<lparr>ei_rsn_ie := Some (99, length rsn), ei_gtk := Some (105 + length rsn, 18)\<rparr>)"
proof -
  obtain l d where r: "rsn = 48 # l # d" "length d = unat l" using assms(3) by (auto simp: rsn_element_def)
  let ?fin = "99 + length (key_data rsn kid gtk pad)"
  have m1: "mem = xs @ [48, l] @ d @ (gtk_kde kid gtk @ pad @ ys)" using assms(1) r by (simp add: key_data_def)
  have 1: "parse_ies_loop mem 99 ?fin ie = parse_ies_loop mem (99 + length rsn) ?fin (ie\<lparr>ei_rsn_ie := Some (99, length rsn)\<rparr>)" for ie
    using parse_rsn_step [OF m1 r(2), of ?fin ie] assms(2) r by (simp add: key_data_def)
  have m2: "mem = (xs @ rsn) @ [0xdd, 22] @ put_be32 RSN_KEY_DATA_GROUPKEY @ ([kid, 0] @ gtk) @ (pad @ ys)"
    using assms(1) by (simp add: key_data_def gtk_kde_def)
  have 2: "parse_ies_loop mem (99 + length rsn) ?fin ie =
      parse_ies_loop mem (99 + length rsn + 24) ?fin (ie\<lparr>ei_gtk := Some (105 + length rsn, 18)\<rparr>)" for ie
  proof -
    have g: "length ([kid, 0] @ gtk) + 4 = unat (22 :: u8)" "2 < length ([kid, 0] @ gtk)"
      "length (xs @ rsn) + 2 + unat (22 :: u8) \<le> ?fin"
      using assms(2,4) by (simp_all add: key_data_def gtk_kde_def)
    have u: "unat (22 :: u8) = 22" by simp
    show ?thesis using parse_gtk_step [OF m2 g, of ie, unfolded u] assms(2) by (simp add: add.commute add.left_commute)
  qed
  have m3: "mem = (xs @ rsn @ gtk_kde kid gtk) @ pad @ ys" using assms(1) by (simp add: key_data_def)
  have 3: "parse_ies_loop mem (99 + length rsn + 24) ?fin ie = Some (0, ie)" for ie
    using parse_padding [OF m3 assms(5), of ?fin ie] assms(2,4) by (simp add: key_data_def gtk_kde_def ac_simps)
  show ?thesis unfolding wpa_supplicant_parse_ies_def 1 2 3 by simp
qed

text \<open>What is logged while message 3 is handled: message 4 is sent, the temporal key and the GTK go to the driver.\<close>

definition log_3 :: "hashes \<Rightarrow> u8 \<Rightarrow> bytes \<Rightarrow> bytes \<Rightarrow> bytes \<Rightarrow> bytes \<Rightarrow> u8 \<Rightarrow> bytes \<Rightarrow> rsn_event list" where
  "log_3 hs v bssid ptk rc rsc kid gtk =
     [Set_state WPA_4WAY_HANDSHAKE,
      Ether_send bssid ETH_P_EAPOL (sealed hs ptk v 0x30a 0 rc (replicate 32 0) (replicate 8 0) []), Notify_tx_eapol_key,
      Set_key WPA_ALG_CCMP (Some bssid) 0 1 (replicate 6 0) (take 16 (drop 32 ptk)),
      Mlme_setprotection bssid 1 1, Notify_portValid True, Set_state WPA_GROUP_HANDSHAKE,
      Set_key WPA_ALG_CCMP (Some (replicate 6 0xff)) (uint (kid AND 3)) 0 (take 6 rsc) gtk,
      Cancel_auth_timeout, Set_state WPA_COMPLETED, Mlme_setprotection bssid 3 1, Notify_portValid True, Notify_eap_success True,
      Set_rekey_offload (kek ptk) (kck ptk) rc]"

lemma check_3_exact:
  assumes "supp_sm rsn sm" "rd_be16 f 5 = Some 0x13ca" "rd_be16 f 7 = Some 16" "rd_bytes f 17 32 = Some (sm_anonce sm)"
    "rd_bytes f 99 (length rsn) = Some rsn"
  shows "check_3_of_4 env f (no_ies\<lparr>ei_rsn_ie := Some (99, length rsn), ei_gtk := g\<rparr>) sm = Some (True, sm)"
proof -
  have v: "wpa_supplicant_validate_ie env f (no_ies\<lparr>ei_rsn_ie := Some (99, length rsn), ei_gtk := g\<rparr>) sm = Some (0, sm)"
    using assms(1,5) by (simp add: wpa_supplicant_validate_ie_def ie_bytes_def no_ies_def supp_sm_def wpa_compare_rsn_ie_def)
  show ?thesis
    unfolding check_3_of_4_def assms(2) bind.simps v using assms(1,3,4) by (simp add: supp_sm_def)
qed

lemma pairwise_gtk_exact:
  assumes "supp_sm rsn sm" "supp_env env" "rd f p = Some kid" "rd_bytes f (p + 2) 16 = Some gtk" "rd_bytes f 65 6 = Some rsc"
    "ki AND WPA_KEY_INFO_SECURE \<noteq> 0"
  shows "\<exists>sm'. wpa_supplicant_pairwise_gtk env f p 18 ki sm = Some (0, sm') \<and> sm_log sm' = sm_log sm @
    [Set_key WPA_ALG_CCMP (Some (replicate 6 0xff)) (uint (kid AND 3)) 0 rsc gtk, Cancel_auth_timeout, Set_state WPA_COMPLETED,
     Mlme_setprotection (sm_bssid sm) 3 1, Notify_portValid True, Notify_eap_success True] \<and>
    (\<exists>el l. sm' = sm\<lparr>sm_log := l, sm_eloop := el\<rparr>)"
proof -
  have c: "wpa_supplicant_check_group_cipher WPA_CIPHER_CCMP 16 16 = Some (6, WPA_ALG_CCMP)"
    by (simp add: wpa_supplicant_check_group_cipher_def)
  have l: "length gtk = 16" using assms(4) by (auto simp: rd_bytes_def split: if_splits)
  have g: "sm_group_cipher sm = WPA_CIPHER_CCMP" "sm_pairwise_cipher sm = WPA_CIPHER_CCMP" "sm_key_mgmt sm = WPA_KEY_MGMT_PSK"
    "sm_cur_pmksa sm = None" using assms(1) by (simp_all add: supp_sm_def)
  let ?gd = "no_gtk_data\<lparr>gd_keyidx := uint (kid AND 3), gd_tx := wpa_supplicant_gtk_tx_bit_workaround sm (kid AND 4 \<noteq> 0),
      gd_gtk := gtk @ replicate 16 0, gd_gtk_len := 16, gd_key_rsc_len := 6, gd_alg := WPA_ALG_CCMP\<rparr>"
  let ?e = "Set_key WPA_ALG_CCMP (Some (replicate 6 0xff)) (uint (kid AND 3)) 0 rsc gtk"
  have i: "wpa_supplicant_install_gtk env ?gd f sm = Some (0, emit ?e sm)"
    using g assms(2,5) l by (simp add: wpa_supplicant_install_gtk_def wpa_supplicant_gtk_tx_bit_workaround_def rd_bytes_def supp_env_def)
  have n: "wpa_supplicant_key_neg_complete env b True (emit ?e sm) = Some (register_timer env 1 H_wpa_sm_start_preauth (sm_self sm)
     (emit (Notify_eap_success True) (emit (Notify_portValid True) (emit (Mlme_setprotection b 3 1)
       (emit (Set_state WPA_COMPLETED) (emit Cancel_auth_timeout (emit ?e sm)))))))" for b
    using g by (simp add: wpa_supplicant_key_neg_complete_def Let_def wpa_key_mgmt_wpa_psk_def emit_def register_timer_def)
  have "wpa_supplicant_pairwise_gtk env f p 18 ki sm = Some (0, register_timer env 1 H_wpa_sm_start_preauth (sm_self sm)
     (emit (Notify_eap_success True) (emit (Notify_portValid True) (emit (Mlme_setprotection (sm_bssid sm) 3 1)
       (emit (Set_state WPA_COMPLETED) (emit Cancel_auth_timeout (emit ?e sm)))))))"
    using assms(3,4,6) c g(1) i n by (simp add: wpa_supplicant_pairwise_gtk_def)
  then show ?thesis by (auto simp: emit_def register_timer_def)
qed

lemma process_3_exact:
  assumes "supp_sm rsn sm" "supp_env env" "99 \<le> length f" "take 48 (sm_ptk sm) = ptk" "length (sm_ptk sm) = 64"
    "sm_rx_replay_counter sm = frame_replay f" "rd_be16 f 5 = Some 0x13ca" "rd_be16 f 7 = Some 16"
    "rd_bytes f 17 32 = Some (sm_anonce sm)" "rd_bytes f 65 6 = Some (take 6 rsc)" "rd_be16 f 97 = Some (word_of_nat (length (key_data rsn kid gtk pad)))"
    "f = take 99 f @ key_data rsn kid gtk pad @ ys" "length (key_data rsn kid gtk pad) < 65000" "rsn_element rsn" "length gtk = 16" "padding pad"
  shows "\<exists>el. wpa_supplicant_process_3_of_4 env f 2 sm = Some (sm\<lparr>sm_renew_snonce := True, sm_eloop := el,
    sm_log := sm_log sm @ log_3 (ev_hashes env) (ev_eapol_version env) (sm_bssid sm) ptk (frame_replay f) rsc kid gtk\<rparr>)"
proof -
  let ?ie = "no_ies\<lparr>ei_rsn_ie := Some (99, length rsn), ei_gtk := Some (105 + length rsn, 18)\<rparr>"
  have u: "unat (word_of_nat (length (key_data rsn kid gtk pad)) :: u16) = length (key_data rsn kid gtk pad)"
    using assms(13) by (simp add: unat_of_nat)
  have ie: "wpa_supplicant_parse_ies f 99 (length (key_data rsn kid gtk pad)) = Some (0, ?ie)"
    by (rule parse_key_data [OF assms(12) _ assms(14-16)]) (use assms(3) in simp)
  let ?s0 = "emit (Set_state WPA_4WAY_HANDSHAKE) sm"
  obtain pre where pre: "f = pre @ rsn @ (0xdd # 22 # put_be32 RSN_KEY_DATA_GROUPKEY @ kid # 0 # gtk @ pad @ ys)" "length pre = 99"
    using assms(3,12) that [where pre = "take 99 f"] by (simp add: key_data_def gtk_kde_def)
  have a: "rd_bytes f 99 (length rsn) = Some rsn" "rd f (105 + length rsn) = Some kid" "rd_bytes f (105 + length rsn + 2) 16 = Some gtk"
    unfolding pre(1) using pre(2) assms(15) by (simp_all add: rd_bytes_def rd_def put_be32_def nth_append)
  have s0: "supp_sm rsn ?s0" using assms(1) by (simp add: supp_sm_def emit_def)
  have c: "check_3_of_4 env f ?ie ?s0 = Some (True, ?s0)"
    by (rule check_3_exact [OF s0 assms(7,8) _ a(1)]) (use assms(9) in \<open>simp add: emit_def\<close>)
  have k: "kck (sm_ptk sm) = kck ptk" "kek (sm_ptk sm) = kek ptk" "take 16 (drop 32 (sm_ptk sm)) = take 16 (drop 32 ptk)"
    using kck_take [OF assms(4)] by simp_all
  define s1 where "s1 = emit Notify_tx_eapol_key (emit (Ether_send (sm_bssid sm) ETH_P_EAPOL (sealed (ev_hashes env) ptk
     (ev_eapol_version env) 0x30a 0 (frame_replay f) (replicate 32 0) (replicate 8 0) [])) ?s0)"
  have m4: "wpa_supplicant_send_4_of_4 env (sm_bssid ?s0) f 2 0x13ca [] (sm_ptk ?s0) ?s0 = Some (0, s1)"
    unfolding s1_def sealed_kck [OF k(1), symmetric] emit_simps
    by (rule send_4_exact [OF _ _ _ _ assms(3)]) (use assms(1,2) in \<open>simp_all add: supp_env_def supp_sm_def emit_def\<close>)
  let ?s2 = "s1\<lparr>sm_renew_snonce := True\<rparr>"
  let ?tk = "Set_key WPA_ALG_CCMP (Some (sm_bssid sm)) 0 1 (replicate 6 0) (take 16 (drop 32 ptk))"
  have e2: "sm_pairwise_cipher ?s2 = WPA_CIPHER_CCMP" "sm_proto ?s2 = WPA_PROTO_RSN" "sm_ptk ?s2 = sm_ptk sm" "sm_bssid ?s2 = sm_bssid sm"
    "sm_wpa_ptk_rekey ?s2 = 0" using assms(1) by (simp_all add: s1_def emit_def supp_sm_def)
  have ptk: "wpa_supplicant_install_ptk env f ?s2 = Some (0, emit ?tk ?s2)"
    unfolding wpa_supplicant_install_ptk_def e2 using assms(2,5) k(3) e2
    by (simp add: rd_bytes_def supp_env_def) (simp add: emit_def)
  define s3 where "s3 = emit (Set_state WPA_GROUP_HANDSHAKE) (emit (Notify_portValid True)
     (emit (Mlme_setprotection (sm_bssid sm) 1 1) (emit ?tk ?s2)))"
  have s3: "supp_sm rsn s3" "sm_bssid s3 = sm_bssid sm" using assms(1) by (simp_all add: s3_def s1_def emit_def supp_sm_def)
  obtain s4 where g: "wpa_supplicant_pairwise_gtk env f (105 + length rsn) 18 0x13ca s3 = Some (0, s4)"
    "sm_log s4 = sm_log s3 @ [Set_key WPA_ALG_CCMP (Some (replicate 6 0xff)) (uint (kid AND 3)) 0 (take 6 rsc) gtk, Cancel_auth_timeout,
       Set_state WPA_COMPLETED, Mlme_setprotection (sm_bssid sm) 3 1, Notify_portValid True, Notify_eap_success True]"
    "\<exists>el l. s4 = s3\<lparr>sm_log := l, sm_eloop := el\<rparr>"
    using pairwise_gtk_exact [OF s3(1) assms(2) a(2,3) assms(10), where ki = "0x13ca"] s3(2) by auto
  have "wpa_supplicant_process_3_of_4 env f 2 sm =
      Some (emit (Set_rekey_offload (kek (sm_ptk s4)) (kck (sm_ptk s4)) (sm_rx_replay_counter s4)) s4)"
  proof -
    have "emit (Set_state WPA_GROUP_HANDSHAKE) (emit (Notify_portValid True) (emit (Mlme_setprotection (sm_bssid (emit ?tk ?s2)) 1 1) (emit ?tk ?s2))) = s3"
      by (simp add: s3_def s1_def)
    then show ?thesis
      unfolding wpa_supplicant_process_3_of_4_def Let_def assms(7,11) bind.simps u ie prod.case c m4 using ptk g(1) by (simp add: no_ies_def)
  qed
  moreover obtain el l where "s4 = s3\<lparr>sm_log := l, sm_eloop := el\<rparr>" using g(3) by blast
  ultimately show ?thesis
    using g(2) k(1,2) assms(6) by (intro exI [where x = el]) (simp add: s3_def s1_def emit_def log_3_def)
qed

text \<open>The state after message 3: the PTK is in use, and the same message with a greater replay counter would be accepted.\<close>

definition completed :: "bytes \<Rightarrow> bytes \<Rightarrow> bytes \<Rightarrow> rsn_event list \<Rightarrow> wpa_sm \<Rightarrow> wpa_sm \<Rightarrow> bool" where
  "completed rsn ptk rc evs sm sm' \<longleftrightarrow> sm_ok sm' \<and> supp_sm rsn sm' \<and> active_ptk sm' ptk \<and> sm_ptk_set sm' \<and> take 48 (sm_ptk sm') = ptk \<and>
     sm_rx_replay_counter_set sm' \<and> sm_rx_replay_counter sm' = rc \<and> sm_anonce sm' = sm_anonce sm \<and> sm_bssid sm' = sm_bssid sm \<and>
     sm_log sm' = sm_log sm @ evs"

text \<open>Message 3 of the authenticator, for plain key data \<open>plain\<close> of \<open>n\<close> blocks.\<close>

definition message_3 :: "block_fun \<Rightarrow> hashes \<Rightarrow> bytes \<Rightarrow> u8 \<Rightarrow> bytes \<Rightarrow> bytes \<Rightarrow> bytes \<Rightarrow> nat \<Rightarrow> bytes \<Rightarrow> bytes" where
  "message_3 enc hs ptk v rc anonce rsc n plain =
     sealed hs ptk v 0x13ca 16 rc anonce rsc (snd (the (aes_wrap enc True (kek ptk) n plain)))"

lemma process_decrypted:
  assumes "supp_env env" "supp_sm rsn sm" "take 48 (sm_ptk sm) = ptk" "length (sm_ptk sm) = 64" "sm_rx_replay_counter sm = rc"
    "f = key_frame v 0x13ca 16 rc (sm_anonce sm) rsc m c" "sized rc (sm_anonce sm) rsc m c" "length c = 8 * n + 8"
    "rsn_element rsn" "length gtk = 16" "padding pad" "length (key_data rsn kid gtk pad) = 8 * n" "8 * n < 65000"
  shows "\<exists>el. wpa_supplicant_process_3_of_4 env (decrypted f n (key_data rsn kid gtk pad)) 2 sm = Some (sm\<lparr>sm_renew_snonce := True,
    sm_eloop := el, sm_log := sm_log sm @ log_3 (ev_hashes env) (ev_eapol_version env) (sm_bssid sm) ptk rc rsc kid gtk\<rparr>)"
proof -
  let ?plain = "key_data rsn kid gtk pad"
  note k = key_frame_fields [OF assms(7,6)]
  have fl: "length f = 107 + 8 * n" "99 \<le> length f" using k(1) assms(8) by simp_all
  note d = decrypted_fields [OF fl(1) assms(12,13)]
  have r7: "rd_be16 f 7 = Some 16" using k(12) fl(2) by (simp add: rd_be16_def rd_def)
  have r17: "rd_bytes f 17 32 = Some (sm_anonce sm)" using k(8) fl(2) by (simp add: rd_bytes_def)
  have "take 6 (drop 65 f) = take 6 (take 8 (drop 65 f))" by simp
  then have r65: "rd_bytes f 65 6 = Some (take 6 rsc)" using k(9) fl(2) by (simp add: rd_bytes_def)
  have rc: "frame_replay (decrypted f n ?plain) = rc" using d(5) k(7) by simp
  show ?thesis
    unfolding rc [symmetric]
  proof (rule process_3_exact [OF assms(2,1) _ assms(3,4) _ _ _ _ _ _ _ _ assms(9-11)])
    show "99 \<le> length (decrypted f n ?plain)" using d(1) fl by simp
    show "sm_rx_replay_counter sm = frame_replay (decrypted f n ?plain)" using assms(5) rc by simp
    show "rd_be16 (decrypted f n ?plain) 5 = Some 0x13ca" using d(4) [of 5] frame_reads(1) [OF fl(2)] k(4) by simp
    show "rd_be16 (decrypted f n ?plain) 7 = Some 16" using d(4) [of 7] r7 by simp
    show "rd_bytes (decrypted f n ?plain) 17 32 = Some (sm_anonce sm)" using d(3) [of 17 32] r17 by simp
    show "rd_bytes (decrypted f n ?plain) 65 6 = Some (take 6 rsc)" using d(3) [of 65 6] r65 by simp
    show "rd_be16 (decrypted f n ?plain) 97 = Some (word_of_nat (length ?plain))" using d(2) assms(12) by simp
    show "decrypted f n ?plain = take 99 (decrypted f n ?plain) @ ?plain @ drop (99 + 8 * n) f" by (rule d(6))
    show "length ?plain < 65000" using assms(12,13) by simp
  qed
qed

lemma accept_3_exact:
  assumes "wpa_supplicant_verify_eapol_key_mic env f 2 (frame_len f) sm = Some (0, f, s1)" "rd_be16 f 97 = Some k"
    "\<not> frame_len f - 4 - 95 < unat k" "sm_proto s1 = WPA_PROTO_RSN" "wpa_supplicant_decrypt_key_data env f 2 s1 = Some (0, g)"
    "rd_be16 g 97 = Some k'" "wpa_supplicant_process_3_of_4 env g 2 s1 = Some s2"
  shows "accept_key env ops None src f (frame_len f) 0x13ca 2 sm = Some (1, s2)"
  unfolding accept_key_def option.case assms(1) using assms(2-7) by (simp add: dispatch_key_def)

lemma rx_message_3:
  assumes "supp_env env" "supp_sm rsn sm" "sm_ok sm" "active_ptk sm ptk" "aes_ok enc (ev_aes_decrypt env)"
    "length rc = 8" "length rsc = 8" "rsn_element rsn" "length gtk = 16" "padding pad"
    "length (key_data rsn kid gtk pad) = 8 * n" "8 * n < 64000"
    "sm_rx_replay_counter_set sm \<longrightarrow> memlt (sm_rx_replay_counter sm) rc"
  shows "\<exists>sm'. wpa_sm_rx_eapol env ops src
      (message_3 enc (ev_hashes env) ptk v rc (sm_anonce sm) rsc n (key_data rsn kid gtk pad)) sm = Some (1, sm') \<and>
    completed rsn ptk rc (Notify_lower_layer_success False #
      log_3 (ev_hashes env) (ev_eapol_version env) (sm_bssid sm) ptk rc rsc kid gtk) sm sm'"
proof -
  let ?plain = "key_data rsn kid gtk pad"
  have hs: "hashes_ok (ev_hashes env)" and ev: "ev_tmp env" "ev_buf env" "ev_aes_init env" using assms(1) by (simp_all add: supp_env_def env_ok_def)
  obtain c where c: "aes_wrap enc True (kek ptk) n ?plain = Some (0, c)" "length c = 8 * n + 8"
    "aes_unwrap (ev_aes_decrypt env) True (kek ptk) n c = Some (0, ?plain)"
    using aes_unwrap_wrap [OF assms(5,11), where kek = "kek ptk" and rest = "[]"] by auto
  have al: "length (sm_anonce sm) = 32" using assms(3) by (simp add: sm_ok_def)
  have sz: "sized rc (sm_anonce sm) rsc (replicate 16 0) c" using assms(6,7,12) c(2) al by (simp add: sized_def)
  define f where "f = sealed (ev_hashes env) ptk v 0x13ca 16 rc (sm_anonce sm) rsc c"
  obtain m where m: "f = key_frame v 0x13ca 16 rc (sm_anonce sm) rsc m c" "sized rc (sm_anonce sm) rsc m c"
    using sealed_mic [OF hs sz, where ptk = ptk and v = v and ki = "0x13ca" and kl = 16] by (metis f_def)
  note k = key_frame_fields [OF m(2,1)]
  have fl: "length f = 107 + 8 * n" "99 \<le> length f" using k(1) c(2) by simp_all
  let ?s = "emit (Notify_lower_layer_success False) sm"
  have w: "well_formed f 0x13ca sm"
    using k assms(2,13) by (simp add: well_formed_def version_ok_def supp_sm_def)
  have act: "active_ptk ?s ptk" using assms(4) by (simp add: active_ptk_def)
  define s1 where "s1 = verified rc ?s"
  note v = verified_simps [OF act, where rc = rc, folded s1_def]
  have e: "sm_bssid ?s = sm_bssid sm" "sm_anonce ?s = sm_anonce sm" "supp_sm rsn ?s" using assms(2) by (simp_all add: emit_def supp_sm_def)
  have sup: "supp_sm rsn s1" using v(9) e(3) by simp
  have ver: "wpa_supplicant_verify_eapol_key_mic env f 2 (frame_len f) ?s = Some (0, f, s1)"
    unfolding s1_def k(5) using verify_exact [OF act _ fl(2) hs] sealed_valid [OF hs sz, of ptk v "0x13ca" 16] k(1,7)
    by (simp add: f_def [symmetric])
  have "length (sm_tptk ?s) = 64" "sm_ok ?s" using assms(3) by (simp_all add: sm_ok_def [of sm])
  then have s1: "sm_ok s1" using assms(6) by (simp add: s1_def verified_def sm_ok_sized sm_ok_upd)
  then have l1: "length (sm_ptk s1) = 64" by (simp add: sm_ok_def)
  have n8: "8 * n < 65000" using assms(12) by simp
  have dec: "wpa_supplicant_decrypt_key_data env f 2 s1 = Some (0, decrypted f n ?plain)"
  proof (rule decrypt_exact [OF v(1) _ ev(2) _ assms(11) fl(1) _ n8])
    show "kek (sm_ptk s1) = kek ptk" using kck_take [OF v(2)] by simp
    show "aes_unwrap (ev_aes_decrypt env) (ev_aes_init env) (kek ptk) n (drop 99 f) = Some (0, ?plain)"
      using c(3) ev(3) k(11) by simp
    show "rd_be16 f 97 = Some (word_of_nat (8 * n + 8))" using frame_reads(2) [OF fl(2)] k(6) c(2) by simp
  qed
  have e1: "sm_anonce s1 = sm_anonce sm" "sm_bssid s1 = sm_bssid sm" using v(7,8) e by simp_all
  obtain el where p: "wpa_supplicant_process_3_of_4 env (decrypted f n ?plain) 2 s1 = Some (s1\<lparr>sm_renew_snonce := True, sm_eloop := el,
     sm_log := sm_log s1 @ log_3 (ev_hashes env) (ev_eapol_version env) (sm_bssid sm) ptk rc rsc kid gtk\<rparr>)"
    using process_decrypted [OF assms(1) sup v(2) l1 v(4), unfolded e1, OF m c(2) assms(8-11) n8] by blast
  define s2 where "s2 = s1\<lparr>sm_renew_snonce := True, sm_eloop := el,
     sm_log := sm_log s1 @ log_3 (ev_hashes env) (ev_eapol_version env) (sm_bssid sm) ptk rc rsc kid gtk\<rparr>"
  have "accept_key env ops None src f (frame_len f) 0x13ca 2 ?s = Some (1, s2)"
  proof (rule accept_3_exact [OF ver _ _ _ dec])
    show "rd_be16 f 97 = Some (word_of_nat (8 * n + 8))" using frame_reads(2) [OF fl(2)] k(6) c(2) by simp
    show "\<not> frame_len f - 4 - 95 < unat (word_of_nat (8 * n + 8) :: u16)"
      using assms(12) k(5) c(2) by (simp add: unat_of_nat del: of_nat_add of_nat_mult)
    show "sm_proto s1 = WPA_PROTO_RSN" using sup by (simp add: supp_sm_def)
    show "rd_be16 (decrypted f n ?plain) 97 = Some (word_of_nat (8 * n))" by (rule decrypted_fields(2) [OF fl(1) assms(11) n8])
    show "wpa_supplicant_process_3_of_4 env (decrypted f n ?plain) 2 s1 = Some s2" unfolding s2_def by (rule p)
  qed
  then have "wpa_sm_rx_eapol env ops src f sm = Some (1, s2)"
    using rx_well_formed [OF w _ ev(1)] assms(3) by (simp add: sm_ok_def)
  moreover have "message_3 enc (ev_hashes env) ptk v rc (sm_anonce sm) rsc n ?plain = f" by (simp add: message_3_def f_def c(1))
  moreover have "completed rsn ptk rc (Notify_lower_layer_success False #
      log_3 (ev_hashes env) (ev_eapol_version env) (sm_bssid sm) ptk rc rsc kid gtk) sm s2"
  proof -
    have "sm_ok s2" using s1 by (simp add: s2_def sm_ok_def)
    moreover have "supp_sm rsn s2" using sup by (simp add: s2_def supp_sm_def)
    moreover have "active_ptk s2 ptk" using v act by (simp add: s2_def active_ptk_def)
    ultimately show ?thesis using v e by (simp add: completed_def s2_def)
  qed
  ultimately show ?thesis by simp
qed

section \<open>A concrete run\<close>

definition demo_ops :: peerkey_ops where
  "demo_ops = \<lparr>op_verify_mic = (\<lambda>p f ver n sm. Some (-1, f, sm)), op_rx_4way = (\<lambda>p f ki ver sm. Some sm),
     op_rx_smk = (\<lambda>src f n ki ver sm. Some sm)\<rparr>"

definition hs_env :: rsn_env where
  "hs_env = demo_env\<lparr>ev_entry := None\<rparr>"

definition demo_rsn :: bytes where
  "demo_rsn = [48, 2, 1, 0]"

definition demo_sm :: wpa_sm where
  "demo_sm = wpa_sm_notify_assoc (replicate 6 1) ((snd (wpa_sm_set_ap_rsn_ie True (Some demo_rsn)
     (snd (wpa_sm_set_assoc_wpa_ie True (Some demo_rsn) (snd (wpa_sm_set_param WPA_PARAM_KEY_MGMT 2
       (snd (wpa_sm_set_param WPA_PARAM_GROUP 16 (snd (wpa_sm_set_param WPA_PARAM_PAIRWISE 16
         (snd (wpa_sm_set_param WPA_PARAM_PROTO 2 (the (wpa_sm_init (Some 1) (Some 2)))))))))))))))
     \<lparr>sm_pmk_len := 32, sm_pmk := replicate 32 7\<rparr>)"

abbreviation demo_message_1 :: bytes where
  "demo_message_1 \<equiv> key_frame 2 0x8a 16 (replicate 7 0 @ [1]) (replicate 32 8) (replicate 8 0) (replicate 16 0) []"

abbreviation demo_key_data :: bytes where
  "demo_key_data \<equiv> key_data demo_rsn 1 (replicate 16 9) (0xdd # replicate 3 0)"

definition demo_ptk :: bytes where
  "demo_ptk = derived_ptk (ev_hashes hs_env) (replicate 32 7) (replicate 6 1) (replicate 6 0) (replicate 32 8) (replicate 32 5)"

abbreviation demo_message_3 :: "u8 \<Rightarrow> bytes" where
  "demo_message_3 c \<equiv> message_3 (\<lambda>k b. b) (ev_hashes hs_env) demo_ptk 2 (replicate 7 0 @ [c]) (replicate 32 8) (replicate 8 0) 4 demo_key_data"

lemma hs_env_ok: "supp_env hs_env" "env_for hs_env sm" "ev_random hs_env = Some (replicate 32 5)" "aes_ok (\<lambda>k b. b) (ev_aes_decrypt hs_env)"
  using demo_env_hashes
  by (simp_all add: supp_env_def env_ok_def env_for_def hs_env_def demo_env_def entry_fresh_def hashes_ok_def aes_ok_def)

lemma demo_sm_reach: "sm_reach demo_sm"
proof -
  define s0 where "s0 = the (wpa_sm_init (Some 1) (Some 2))"
  define s1 where "s1 = snd (wpa_sm_set_ap_rsn_ie True (Some demo_rsn)
     (snd (wpa_sm_set_assoc_wpa_ie True (Some demo_rsn) (snd (wpa_sm_set_param WPA_PARAM_KEY_MGMT 2
       (snd (wpa_sm_set_param WPA_PARAM_GROUP 16 (snd (wpa_sm_set_param WPA_PARAM_PAIRWISE 16
         (snd (wpa_sm_set_param WPA_PARAM_PROTO 2 s0)))))))))))"
  have "sm_reach s0" by (rule sm_reach.init [of "Some 1" "Some 2"]) (simp add: s0_def wpa_sm_init_def Let_def)
  then have r: "sm_reach s1"
    unfolding s1_def by (intro sm_reach.next_step [OF _ sm_step.set_param] sm_reach.next_step [OF _ sm_step.set_assoc_ie]
        sm_reach.next_step [OF _ sm_step.set_ap_rsn_ie]) (auto simp: demo_rsn_def)
  have "length (sm_pmk s1) = 32" using reach_ok [OF r] by (simp add: sm_ok_def pmksa_ok_def cache_inv_def)
  then have "wpa_sm_set_pmk (replicate 32 7) 32 s1 = Some (s1\<lparr>sm_pmk_len := 32, sm_pmk := replicate 32 7\<rparr>)"
    by (simp add: wpa_sm_set_pmk_def rd_bytes_def wr_bytes_def)
  from sm_reach.next_step [OF sm_reach.next_step [OF r sm_step.set_pmk [OF _ this]] sm_step.assoc [of "replicate 6 1"]]
  show ?thesis by (simp add: demo_sm_def s1_def s0_def)
qed

lemma demo_sm_fields: "supp_sm demo_rsn demo_sm" "sm_assoc_wpa_ie demo_sm = Some demo_rsn" "sm_renew_snonce demo_sm"
  "\<not> sm_rx_replay_counter_set demo_sm" "sm_bssid demo_sm = replicate 6 1" "sm_own_addr demo_sm = replicate 6 0"
  "take (sm_pmk_len demo_sm) (sm_pmk demo_sm) = replicate 32 7"
  by (simp_all add: supp_sm_def demo_sm_def demo_rsn_def wpa_sm_notify_assoc_def wpa_sm_set_ap_rsn_ie_def wpa_sm_set_assoc_wpa_ie_def
      stored_ie_def wpa_sm_set_param_def wpa_sm_init_def sm_zero_def Let_def is_zero_ether_addr_def rsn_preauth_deinit_def)

lemma demo_sizes: "rsn_element demo_rsn" "padding (0xdd # replicate 3 0)" "length demo_key_data = 8 * 4"
  by (auto simp: rsn_element_def demo_rsn_def padding_def key_data_def gtk_kde_def)

lemma demo_regular: "regular_frame demo_message_1" "regular_frame (demo_message_3 c)"
proof -
  have z: "sized (replicate 7 0 @ [1]) (replicate 32 8) (replicate 8 0) (replicate 16 0) []" by (simp add: sized_def)
  show "regular_frame demo_message_1" using key_frame_fields(4) [OF z refl] by (simp add: regular_frame_def)
  obtain d where d: "aes_wrap (\<lambda>k b. b) True (kek demo_ptk) 4 demo_key_data = Some (0, d)" "length d = 40"
    using aes_unwrap_wrap [OF hs_env_ok(4) demo_sizes(3), of "kek demo_ptk"] by auto
  have z3: "sized (replicate 7 0 @ [c]) (replicate 32 8) (replicate 8 0) (replicate 16 0) d" using d(2) by (simp add: sized_def)
  have hs: "hashes_ok (ev_hashes hs_env)" using hs_env_ok(1) by (simp add: supp_env_def env_ok_def)
  obtain m where "demo_message_3 c = key_frame 2 0x13ca 16 (replicate 7 0 @ [c]) (replicate 32 8) (replicate 8 0) m d"
    "sized (replicate 7 0 @ [c]) (replicate 32 8) (replicate 8 0) m d"
    using sealed_mic [OF hs z3, where ptk = demo_ptk and v = 2 and ki = "0x13ca" and kl = 16] d(1) by (auto simp: message_3_def)
  then show "regular_frame (demo_message_3 c)" using key_frame_fields(4,6) d(2) by (simp add: regular_frame_def)
qed

lemma demo_run:
  obtains sm1 sm2 where "wpa_sm_rx_eapol hs_env demo_ops (replicate 6 1) demo_message_1 demo_sm = Some (1, sm1)"
    "wpa_sm_rx_eapol hs_env demo_ops (replicate 6 1) (demo_message_3 2) sm1 = Some (1, sm2)" "sm_reach sm1" "sm_reach sm2"
    "active_ptk sm1 demo_ptk" "sm_ok sm1" "supp_sm demo_rsn sm1" "sm_anonce sm1 = replicate 32 8" "sm_bssid sm1 = replicate 6 1"
    "\<not> sm_rx_replay_counter_set sm1"
    "completed demo_rsn demo_ptk (replicate 7 0 @ [2]) (Notify_lower_layer_success False #
      log_3 (ev_hashes hs_env) 1 (replicate 6 1) demo_ptk (replicate 7 0 @ [2]) (replicate 8 0) 1 (replicate 16 9)) sm1 sm2"
proof -
  have z: "sized (replicate 7 0 @ [1]) (replicate 32 8) (replicate 8 0) (replicate 16 0) []" by (simp add: sized_def)
  have hs: "hashes_ok (ev_hashes hs_env)" using hs_env_ok(1) by (simp add: supp_env_def env_ok_def)
  have l: "length demo_ptk = 48" using length_derived_ptk [OF hs] by (simp add: demo_ptk_def)
  obtain m2 sm1 where 1: "wpa_sm_rx_eapol hs_env demo_ops (replicate 6 1) demo_message_1 demo_sm = Some (1, sm1)"
    "answered demo_rsn demo_ptk (replicate 32 8) m2 demo_sm sm1"
    using rx_message_1 [OF hs_env_ok(1) demo_sm_fields(1) reach_ok [OF demo_sm_reach] demo_sm_fields(2) z _ _ refl,
        of "replicate 32 5" demo_ops "replicate 6 1" 2] demo_sm_fields hs_env_ok(3)
    by (auto simp: demo_ptk_def)
  have a: "sm_ok sm1" "supp_sm demo_rsn sm1" "sm_anonce sm1 = replicate 32 8" "sm_bssid sm1 = replicate 6 1"
    "\<not> sm_rx_replay_counter_set sm1" "active_ptk sm1 demo_ptk"
    using 1(2) l demo_sm_fields(4,5) by (auto simp: answered_def keys_of_def active_ptk_def)
  have r1: "sm_reach sm1" using sm_reach.next_step [OF demo_sm_reach sm_step.rx [OF hs_env_ok(2) _ demo_regular(1) 1(1)]] by simp
  have v: "ev_eapol_version hs_env = 1" by (simp add: hs_env_def demo_env_def)
  obtain sm2 where 2: "wpa_sm_rx_eapol hs_env demo_ops (replicate 6 1) (demo_message_3 2) sm1 = Some (1, sm2)"
    "completed demo_rsn demo_ptk (replicate 7 0 @ [2]) (Notify_lower_layer_success False #
      log_3 (ev_hashes hs_env) 1 (replicate 6 1) demo_ptk (replicate 7 0 @ [2]) (replicate 8 0) 1 (replicate 16 9)) sm1 sm2"
    using rx_message_3 [OF hs_env_ok(1) a(2,1,6) hs_env_ok(4) _ _ demo_sizes(1) _ demo_sizes(2,3), of "replicate 7 0 @ [2]"
        "replicate 8 0" demo_ops "replicate 6 1" 2] a(3-5) v by auto
  have "sm_reach sm2" using sm_reach.next_step [OF r1 sm_step.rx [OF hs_env_ok(2) _ demo_regular(2) 2(1)]] by simp
  then show ?thesis using that 1(1) 2 r1 a by blast
qed

section \<open>Properties\<close>

text \<open>
  C6. A 4-Way Handshake with an honest authenticator completes and both ends use the same keys. The supplicant answers
  message 1 with message 2, which carries its nonce and its element and has the MIC of the PTK that the authenticator
  derives. It answers message 3, whose key data is wrapped with the KEK of that PTK, with message 4, and installs the
  temporal key of the PTK and then the GTK of the authenticator; the state becomes completed and the port valid.
\<close>

theorem four_way_handshake_completes:
  assumes "sm_ok sm" "supp_sm rsn sm" "sm_assoc_wpa_ie sm = Some ie" "sm_renew_snonce sm" "\<not> sm_rx_replay_counter_set sm"
    "supp_env env" "ev_random env = Some snonce" "supp_env env3" "ev_hashes env3 = ev_hashes env" "aes_ok enc (ev_aes_decrypt env3)"
    "length rc1 = 8" "length rc3 = 8" "length anonce = 32" "length rsc = 8" "rsn_element rsn" "length gtk = 16" "padding pad"
    "length (key_data rsn kid gtk pad) = 8 * n" "8 * n < 64000"
    "ptk = derived_ptk (ev_hashes env) (take (sm_pmk_len sm) (sm_pmk sm)) (sm_bssid sm) (sm_own_addr sm) anonce snonce"
  shows "\<exists>sm1 m2 sm2.
    wpa_sm_rx_eapol env ops src (key_frame v 0x8a 16 rc1 anonce (replicate 8 0) (replicate 16 0) []) sm = Some (1, sm1) \<and>
    sm_log sm1 = sm_log sm @ [Notify_lower_layer_success False, Set_state WPA_4WAY_HANDSHAKE, Ether_send (sm_bssid sm) ETH_P_EAPOL m2,
      Notify_tx_eapol_key] \<and>
    take 32 (drop 17 m2) = snonce \<and> drop 99 m2 = ie \<and> mic_valid env ptk 2 (length m2) m2 \<and>
    wpa_sm_rx_eapol env3 ops src (message_3 enc (ev_hashes env) ptk v rc3 anonce rsc n (key_data rsn kid gtk pad)) sm1 = Some (1, sm2) \<and>
    sm_ptk_set sm2 \<and> take 48 (sm_ptk sm2) = ptk \<and> sm_rx_replay_counter sm2 = rc3 \<and>
    sm_log sm2 = sm_log sm1 @ Notify_lower_layer_success False #
      log_3 (ev_hashes env) (ev_eapol_version env3) (sm_bssid sm) ptk rc3 rsc kid gtk"
proof -
  have hs: "hashes_ok (ev_hashes env)" and sn: "length snonce = 32" using assms(6,7) by (simp_all add: supp_env_def env_ok_def)
  have z: "sized rc1 anonce (replicate 8 0) (replicate 16 0) []" using assms(11,13) by (simp add: sized_def)
  let ?m2 = "sealed (ev_hashes env) ptk (ev_eapol_version env) 0x10a 0 rc1 snonce (replicate 8 0) ie"
  obtain sm1 where 1: "wpa_sm_rx_eapol env ops src (key_frame v 0x8a 16 rc1 anonce (replicate 8 0) (replicate 16 0) []) sm = Some (1, sm1)"
    "answered rsn ptk anonce ?m2 sm sm1"
    using rx_message_1 [OF assms(6,2,1,3) z _ _ assms(20), of ops src v] assms(4,5,7) by auto
  have a: "sm_ok sm1" "supp_sm rsn sm1" "sm_anonce sm1 = anonce" "sm_bssid sm1 = sm_bssid sm" "\<not> sm_rx_replay_counter_set sm1"
    "active_ptk sm1 ptk"
    using 1(2) assms(5,20) length_derived_ptk [OF hs] by (auto simp: answered_def keys_of_def active_ptk_def)
  obtain sm2 where 2: "wpa_sm_rx_eapol env3 ops src (message_3 enc (ev_hashes env) ptk v rc3 anonce rsc n (key_data rsn kid gtk pad)) sm1 =
      Some (1, sm2)"
    "completed rsn ptk rc3 (Notify_lower_layer_success False #
      log_3 (ev_hashes env) (ev_eapol_version env3) (sm_bssid sm) ptk rc3 rsc kid gtk) sm1 sm2"
    using rx_message_3 [OF assms(8) a(2,1,6) assms(10,12,14-19), of ops src v] a(3-5) assms(9) by auto
  have l: "length ie < 65000" using assms(1,3) by (simp add: sm_ok_def)
  then have z2: "sized rc1 snonce (replicate 8 0) (replicate 16 0) ie" using assms(11) sn by (simp add: sized_def)
  obtain m where m: "?m2 = key_frame (ev_eapol_version env) 0x10a 0 rc1 snonce (replicate 8 0) m ie" "sized rc1 snonce (replicate 8 0) m ie"
    by (rule sealed_mic [OF hs z2])
  note k = key_frame_fields [OF m(2,1)]
  have "mic_valid env ptk 2 (length ?m2) ?m2" using sealed_valid [OF hs z2] k(1) by simp
  then show ?thesis using 1 2 k(8,11) by (auto simp: answered_def completed_def)
qed

text \<open>
  C24. A retransmitted message 3 installs the same key again. After a handshake has completed, message 3 with a
  greater replay counter is accepted, and the temporal key that is in use is given to the driver a second time,
  with a receive sequence counter of zero. Nothing records that the PTK has been installed.
\<close>

theorem retransmitted_message_3_reinstalls:
  assumes "sm_ok sm" "supp_sm rsn sm" "active_ptk sm ptk" "supp_env env" "aes_ok enc (ev_aes_decrypt env)"
    "length rc = 8" "length rc' = 8" "length rsc = 8" "rsn_element rsn" "length gtk = 16" "padding pad"
    "length (key_data rsn kid gtk pad) = 8 * n" "8 * n < 64000"
    "sm_rx_replay_counter_set sm \<longrightarrow> memlt (sm_rx_replay_counter sm) rc" "be_val rc < be_val rc'"
  shows "\<exists>sm1 sm2.
    wpa_sm_rx_eapol env ops src (message_3 enc (ev_hashes env) ptk v rc (sm_anonce sm) rsc n (key_data rsn kid gtk pad)) sm = Some (1, sm1) \<and>
    wpa_sm_rx_eapol env ops src (message_3 enc (ev_hashes env) ptk v rc' (sm_anonce sm) rsc n (key_data rsn kid gtk pad)) sm1 = Some (1, sm2) \<and>
    sm_ptk_set sm1 \<and> take 48 (sm_ptk sm1) = ptk \<and> take 48 (sm_ptk sm2) = ptk \<and>
    filter is_set_key (drop (length (sm_log sm)) (sm_log sm2)) =
      (let tk = Set_key WPA_ALG_CCMP (Some (sm_bssid sm)) 0 1 (replicate 6 0) (take 16 (drop 32 ptk));
           gk = Set_key WPA_ALG_CCMP (Some (replicate 6 0xff)) (uint (kid AND 3)) 0 (take 6 rsc) gtk
       in [tk, gk, tk, gk])"
proof -
  obtain sm1 where 1: "wpa_sm_rx_eapol env ops src (message_3 enc (ev_hashes env) ptk v rc (sm_anonce sm) rsc n (key_data rsn kid gtk pad)) sm =
      Some (1, sm1)" "completed rsn ptk rc (Notify_lower_layer_success False #
      log_3 (ev_hashes env) (ev_eapol_version env) (sm_bssid sm) ptk rc rsc kid gtk) sm sm1"
    using rx_message_3 [OF assms(4,2,1,3,5,6,8-14), of ops src v] by blast
  have a: "sm_ok sm1" "supp_sm rsn sm1" "active_ptk sm1 ptk" "sm_anonce sm1 = sm_anonce sm" "sm_bssid sm1 = sm_bssid sm"
    "sm_rx_replay_counter sm1 = rc"
    using 1(2) by (auto simp: completed_def active_ptk_def)
  have m: "sm_rx_replay_counter_set sm1 \<longrightarrow> memlt (sm_rx_replay_counter sm1) rc'" using assms(6,7,15) a(6) memlt_be_val [of rc rc'] by simp
  obtain sm2 where 2: "wpa_sm_rx_eapol env ops src (message_3 enc (ev_hashes env) ptk v rc' (sm_anonce sm) rsc n (key_data rsn kid gtk pad)) sm1 =
      Some (1, sm2)" "completed rsn ptk rc' (Notify_lower_layer_success False #
      log_3 (ev_hashes env) (ev_eapol_version env) (sm_bssid sm) ptk rc' rsc kid gtk) sm1 sm2"
    using rx_message_3 [OF assms(4) a(2,1,3) assms(5,7-13) m, of ops src v] a(4,5) by auto
  have "filter is_set_key (drop (length (sm_log sm)) (sm_log sm2)) =
      (let tk = Set_key WPA_ALG_CCMP (Some (sm_bssid sm)) 0 1 (replicate 6 0) (take 16 (drop 32 ptk));
           gk = Set_key WPA_ALG_CCMP (Some (replicate 6 0xff)) (uint (kid AND 3)) 0 (take 6 rsc) gtk
       in [tk, gk, tk, gk])"
    using 1(2) 2(2) by (simp add: completed_def log_3_def is_set_key_def Let_def)
  then show ?thesis using 1 2 by (auto simp: completed_def)
qed

section \<open>Witnesses\<close>

lemma wpa_sm_rx_eapol_underflow_witness:
  "\<exists>sm. sm_reach sm \<and> sm_ptk_set sm \<and>
     wpa_sm_rx_eapol hs_env demo_ops (replicate 6 1) (key_frame 2 0x108a 16 (replicate 7 0 @ [3]) (replicate 32 0) (replicate 8 0)
       (replicate 16 0) []) sm = None"
proof -
  let ?f = "key_frame 2 0x108a 16 (replicate 7 0 @ [3]) (replicate 32 0) (replicate 8 0) (replicate 16 0) []"
  obtain sm1 sm2 where r: "sm_reach sm2" "completed demo_rsn demo_ptk (replicate 7 0 @ [2]) (Notify_lower_layer_success False #
      log_3 (ev_hashes hs_env) 1 (replicate 6 1) demo_ptk (replicate 7 0 @ [2]) (replicate 8 0) 1 (replicate 16 9)) sm1 sm2"
    by (rule demo_run)
  have z: "sized (replicate 7 0 @ [3]) (replicate 32 0) (replicate 8 0) (replicate 16 0) []" by (simp add: sized_def)
  note k = key_frame_fields [OF z refl, of 2 "0x108a" 16]
  have s: "sm_ptk_set sm2" "sm_proto sm2 = 2" "sm_pairwise_cipher sm2 = 16" "sm_rx_replay_counter sm2 = replicate 7 0 @ [2]"
    using r(2) by (simp_all add: completed_def supp_sm_def)
  have "memlt (replicate 7 0 @ [2]) (replicate 7 0 @ [3 :: u8])" by (simp add: memlt_be_val be_val_append)
  then have w: "well_formed ?f 0x108a sm2"
    unfolding well_formed_def version_ok_def s k by simp
  have "ev_tmp hs_env" "ev_buf hs_env" by (simp_all add: hs_env_def demo_env_def)
  from wpa_sm_rx_eapol_underflow [OF r(1) s(1,2) this w] show ?thesis using k r(1) s(1) by auto
qed

lemma wpa_sm_rx_eapol_safe_witness:
  "\<exists>r sm'. wpa_sm_rx_eapol hs_env demo_ops (replicate 6 1) demo_message_1 demo_sm = Some (r, sm') \<and> sm_reach sm' \<and> pmksa_ok sm'"
  using wpa_sm_rx_eapol_safe [OF demo_sm_reach hs_env_ok(2) _ demo_regular(1), of "replicate 6 1" demo_ops] by auto

lemma wpa_sm_rx_eapol_authentic_witness:
  "\<exists>sm sm' ptk. wpa_sm_rx_eapol hs_env demo_ops (replicate 6 1) (demo_message_3 2) sm = Some (1, sm') \<and> \<not> sm_rx_replay_counter_set sm \<and>
     candidate_ptk sm ptk \<and> keys_of sm' = (ptk, True, frame_replay (demo_message_3 2), True)"
proof -
  obtain sm1 sm2 where r: "wpa_sm_rx_eapol hs_env demo_ops (replicate 6 1) (demo_message_3 2) sm1 = Some (1, sm2)" "sm_reach sm1"
    "\<not> sm_rx_replay_counter_set sm1"
    "completed demo_rsn demo_ptk (replicate 7 0 @ [2]) (Notify_lower_layer_success False #
      log_3 (ev_hashes hs_env) 1 (replicate 6 1) demo_ptk (replicate 7 0 @ [2]) (replicate 8 0) 1 (replicate 16 9)) sm1 sm2"
    by (rule demo_run)
  have "keys_of sm2 \<noteq> keys_of sm1" using r(3,4) by (simp add: keys_of_def completed_def)
  with wpa_sm_rx_eapol_authentic [OF r(2) hs_env_ok(2) _ demo_regular(2) r(1)] show ?thesis
    using r(1,3) by (intro exI [where x = sm1] exI [where x = sm2]) auto
qed

lemma four_way_handshake_completes_witness:
  "\<exists>sm1 m2 sm2. wpa_sm_rx_eapol hs_env demo_ops (replicate 6 1) demo_message_1 demo_sm = Some (1, sm1) \<and>
     drop 99 m2 = demo_rsn \<and> mic_valid hs_env demo_ptk 2 (length m2) m2 \<and>
     wpa_sm_rx_eapol hs_env demo_ops (replicate 6 1) (demo_message_3 2) sm1 = Some (1, sm2) \<and> take 48 (sm_ptk sm2) = demo_ptk"
  using four_way_handshake_completes [OF reach_ok [OF demo_sm_reach] demo_sm_fields(1-4) hs_env_ok(1,3,1) refl hs_env_ok(4) _ _ _ _
      demo_sizes(1) _ demo_sizes(2,3), of "replicate 7 0 @ [1]" "replicate 7 0 @ [2]" "replicate 32 8" "replicate 8 0" demo_ptk demo_ops
      "replicate 6 1" 2] demo_sm_fields(5-7)
  by (auto simp: demo_ptk_def)

lemma retransmitted_message_3_reinstalls_witness:
  "\<exists>sm sm1 sm2. wpa_sm_rx_eapol hs_env demo_ops (replicate 6 1) (demo_message_3 2) sm = Some (1, sm1) \<and>
     wpa_sm_rx_eapol hs_env demo_ops (replicate 6 1) (demo_message_3 3) sm1 = Some (1, sm2) \<and>
     length (filter is_set_key (drop (length (sm_log sm)) (sm_log sm2))) = 4"
proof -
  obtain sm1 where r: "active_ptk sm1 demo_ptk" "sm_ok sm1" "supp_sm demo_rsn sm1" "sm_anonce sm1 = replicate 32 8"
    "\<not> sm_rx_replay_counter_set sm1"
    by (rule demo_run)
  obtain a b where "wpa_sm_rx_eapol hs_env demo_ops (replicate 6 1) (demo_message_3 2) sm1 = Some (1, a)"
    "wpa_sm_rx_eapol hs_env demo_ops (replicate 6 1) (demo_message_3 3) a = Some (1, b)"
    "length (filter is_set_key (drop (length (sm_log sm1)) (sm_log b))) = 4"
    using retransmitted_message_3_reinstalls [OF r(2,3,1) hs_env_ok(1,4) _ _ _ demo_sizes(1) _ demo_sizes(2,3), of "replicate 7 0 @ [2]"
        "replicate 7 0 @ [3]" "replicate 8 0" demo_ops "replicate 6 1" 2] r(4,5)
    by (auto simp: Let_def be_val_append)
  then show ?thesis by blast
qed

end
