(* ===== verification/Blacklist.thy ===== *)
theory Blacklist
  imports Supplicant_State
begin

text \<open>
  The list of access points that a connection attempt failed with (src/wpa_supplicant/blacklist.c): for each BSSID
  the number of failures. Network selection passes over access points whose count is above a limit.

  The contract is the locale \<open>failure_counter\<close>; it is interpreted on the linked list of the code, whose entries
  carry different BSSIDs.
\<close>

section \<open>Operations\<close>

record wpa_blacklist =
  bl_bssid :: bytes
  bl_count :: int

definition wpa_blacklist_get :: "wpa_blacklist list \<Rightarrow> bytes \<Rightarrow> wpa_blacklist option" where
  "wpa_blacklist_get bl bssid = find (\<lambda>e. bl_bssid e = bssid) bl"

text \<open>The counter of the first entry for a BSSID is replaced.\<close>

fun set_count :: "wpa_blacklist list \<Rightarrow> bytes \<Rightarrow> int \<Rightarrow> wpa_blacklist list" where
  "set_count [] bssid n = []"
| "set_count (e # es) bssid n = (if bl_bssid e = bssid then e\<lparr>bl_count := n\<rparr> # es else e # set_count es bssid n)"

text \<open>\<open>count++\<close> at the largest \<open>int\<close> overflows: a fault. \<open>al\<close> is the outcome of the allocation.\<close>

definition wpa_blacklist_add :: "bool \<Rightarrow> wpa_blacklist list \<Rightarrow> bytes \<Rightarrow> (int \<times> wpa_blacklist list) option" where
  "wpa_blacklist_add al bl bssid = (case wpa_blacklist_get bl bssid of
     Some e \<Rightarrow>
       if bl_count e = 2 ^ 31 - 1 then None else Some (bl_count e + 1, set_count bl bssid (bl_count e + 1))
   | None \<Rightarrow>
       if \<not> al then Some (-1, bl) else Some (1, \<lparr>bl_bssid = bssid, bl_count = 1\<rparr> # bl))"

fun wpa_blacklist_del :: "wpa_blacklist list \<Rightarrow> bytes \<Rightarrow> int \<times> wpa_blacklist list" where
  "wpa_blacklist_del [] bssid = (-1, [])"
| "wpa_blacklist_del (e # es) bssid =
     (if bl_bssid e = bssid then (0, es)
      else let (r, es) = wpa_blacklist_del es bssid in (r, e # es))"

definition wpa_blacklist_clear :: "wpa_blacklist list \<Rightarrow> wpa_blacklist list" where
  "wpa_blacklist_clear bl = []"

section \<open>The contract\<close>

text \<open>
  A counter of failures per access point. An operation that cannot get memory leaves the counters alone; \<open>limit\<close>
  is the largest count that can be kept.
\<close>

locale failure_counter =
  fixes valid :: "'s \<Rightarrow> bool"
    and count :: "'s \<Rightarrow> bytes \<Rightarrow> int"
    and limit :: int
    and add :: "bool \<Rightarrow> 's \<Rightarrow> bytes \<Rightarrow> (int \<times> 's) option"
    and del :: "'s \<Rightarrow> bytes \<Rightarrow> int \<times> 's"
    and clear :: "'s \<Rightarrow> 's"
  assumes add_law: "valid s \<Longrightarrow> count s b < limit \<Longrightarrow>
      \<exists>r s'. add al s b = Some (r, s') \<and> valid s' \<and>
        (if al \<or> count s b \<noteq> 0 then r = count s b + 1 \<and> count s' = (count s)(b := count s b + 1)
         else r = -1 \<and> s' = s)"
    and del_law: "valid s \<Longrightarrow> valid (snd (del s b)) \<and> count (snd (del s b)) = (count s)(b := 0) \<and>
      (fst (del s b) = 0 \<longleftrightarrow> count s b \<noteq> 0)"
    and clear_law: "valid (clear s) \<and> count (clear s) b = 0"
begin

fun failures :: "nat \<Rightarrow> 's \<Rightarrow> bytes \<Rightarrow> 's option" where
  "failures 0 s b = Some s"
| "failures (Suc n) s b = (case add True s b of None \<Rightarrow> None | Some (r, s) \<Rightarrow> failures n s b)"

lemma failures_count:
  assumes "valid s" "count s b + int n \<le> limit"
  shows "\<exists>s'. failures n s b = Some s' \<and> valid s' \<and> count s' = (count s)(b := count s b + int n)"
  using assms
proof (induction n arbitrary: s)
  case (Suc n)
  then obtain r s1 where "add True s b = Some (r, s1)" "valid s1" "count s1 = (count s)(b := count s b + 1)"
    using add_law [of s b True] by auto
  moreover from this have "count s1 b + int n \<le> limit" using Suc.prems by simp
  then obtain s' where "failures n s1 b = Some s'" "valid s'" "count s' = (count s1)(b := count s1 b + int n)"
    using Suc.IH calculation(2) by blast
  ultimately show ?case by (simp add: add.assoc fun_eq_iff)
qed simp

text \<open>Counting failures and then forgetting the access point restores the other counters.\<close>

lemma failures_del:
  assumes "valid s" "count s b + int n \<le> limit"
  shows "\<exists>s'. failures n s b = Some s' \<and> count (snd (del s' b)) = (count s)(b := 0)"
  using failures_count [OF assms] del_law [of _ b] by fastforce

end

section \<open>The linked list meets the contract\<close>

definition blacklist_ok :: "wpa_blacklist list \<Rightarrow> bool" where
  "blacklist_ok bl \<longleftrightarrow> distinct (map bl_bssid bl) \<and> list_all (\<lambda>e. 0 < bl_count e \<and> bl_count e < 2 ^ 31) bl"

definition blacklist_count :: "wpa_blacklist list \<Rightarrow> bytes \<Rightarrow> int" where
  "blacklist_count bl b = (case wpa_blacklist_get bl b of None \<Rightarrow> 0 | Some e \<Rightarrow> bl_count e)"

lemma blacklist_count_simps [simp]:
  "blacklist_count [] b = 0"
  "blacklist_count (e # es) b = (if bl_bssid e = b then bl_count e else blacklist_count es b)"
  by (simp_all add: blacklist_count_def wpa_blacklist_get_def)

lemma blacklist_count_absent: "b \<notin> bl_bssid ` set bl \<Longrightarrow> blacklist_count bl b = 0"
  by (induction bl) auto

lemma blacklist_count_pos: "blacklist_ok bl \<Longrightarrow> wpa_blacklist_get bl b = Some e \<Longrightarrow> 0 < bl_count e \<and> bl_count e < 2 ^ 31"
  by (auto simp: blacklist_ok_def wpa_blacklist_get_def find_Some_iff list_all_length)

lemma set_count_ok:
  assumes "blacklist_ok bl" "0 < n" "n < 2 ^ 31" "b \<in> bl_bssid ` set bl"
  shows "blacklist_ok (set_count bl b n) \<and> blacklist_count (set_count bl b n) = (blacklist_count bl)(b := n)"
proof -
  have m: "map bl_bssid (set_count bl b n) = map bl_bssid bl" by (induction bl) auto
  have "list_all (\<lambda>e. 0 < bl_count e \<and> bl_count e < 2 ^ 31) (set_count bl b n)"
    using assms(1-3) by (induction bl) (auto simp: blacklist_ok_def)
  moreover have "blacklist_count (set_count bl b n) = (blacklist_count bl)(b := n)"
    using assms(4) by (induction bl) (auto simp: fun_eq_iff)
  ultimately show ?thesis using assms(1) m by (simp add: blacklist_ok_def)
qed

lemma del_ok:
  assumes "blacklist_ok bl"
  shows "blacklist_ok (snd (wpa_blacklist_del bl b)) \<and>
    blacklist_count (snd (wpa_blacklist_del bl b)) = (blacklist_count bl)(b := 0) \<and>
    set (snd (wpa_blacklist_del bl b)) \<subseteq> set bl \<and>
    (fst (wpa_blacklist_del bl b) = 0 \<longleftrightarrow> blacklist_count bl b \<noteq> 0)"
  using assms
proof (induction bl)
  case (Cons e es)
  then have "blacklist_ok es" "bl_bssid e \<notin> bl_bssid ` set es" "0 < bl_count e" by (auto simp: blacklist_ok_def)
  with Cons show ?case
    by (cases "bl_bssid e = b")
      (auto simp: blacklist_ok_def fun_eq_iff blacklist_count_absent split: prod.splits)
qed (simp add: blacklist_ok_def fun_eq_iff)

interpretation bl: failure_counter blacklist_ok blacklist_count "2 ^ 31 - 1" wpa_blacklist_add wpa_blacklist_del
  wpa_blacklist_clear
proof unfold_locales
  fix s b al assume s: "blacklist_ok s" "blacklist_count s b < 2 ^ 31 - 1"
  show "\<exists>r s'. wpa_blacklist_add al s b = Some (r, s') \<and> blacklist_ok s' \<and>
      (if al \<or> blacklist_count s b \<noteq> 0
       then r = blacklist_count s b + 1 \<and> blacklist_count s' = (blacklist_count s)(b := blacklist_count s b + 1)
       else r = -1 \<and> s' = s)"
  proof (cases "wpa_blacklist_get s b")
    case None
    then have "b \<notin> bl_bssid ` set s" by (auto simp: wpa_blacklist_get_def find_None_iff)
    with None s show ?thesis
      by (auto simp: wpa_blacklist_add_def blacklist_count_def [of s b] blacklist_ok_def blacklist_count_absent fun_eq_iff)
  next
    case (Some e)
    then have "b \<in> bl_bssid ` set s" by (auto simp: wpa_blacklist_get_def find_Some_iff)
    moreover have "blacklist_count s b = bl_count e" using Some by (simp add: blacklist_count_def)
    ultimately show ?thesis using Some s set_count_ok [of s "bl_count e + 1" b] blacklist_count_pos [OF s(1) Some]
      by (simp add: wpa_blacklist_add_def)
  qed
next
  fix s b assume "blacklist_ok s"
  then show "blacklist_ok (snd (wpa_blacklist_del s b)) \<and>
      blacklist_count (snd (wpa_blacklist_del s b)) = (blacklist_count s)(b := 0) \<and>
      (fst (wpa_blacklist_del s b) = 0) = (blacklist_count s b \<noteq> 0)"
    using del_ok by blast
next
  fix s b show "blacklist_ok (wpa_blacklist_clear s) \<and> blacklist_count (wpa_blacklist_clear s) b = 0"
    by (simp add: wpa_blacklist_clear_def blacklist_ok_def)
qed

end
