(* ===== verification/Network_Select.thy ===== *)
theory Network_Select
  imports Interworking Rsn_State Blacklist
begin

text \<open>
  Selection of a network after a scan: src/wpa_supplicant/events.c, with the fetching and sorting of scan results of
  src/wpa_supplicant/scan.c.

  The networks of the configuration are grouped by priority (\<open>c_pssid\<close>, see \<open>Config_Networks\<close>). A group is tried on
  the scan results in their order, best first; a result is taken if one of the group's networks allows it: SSID,
  BSSID, the security that the result advertises, privacy, mode, frequency and rates have to fit, and the access
  point must not be blacklisted. If no group has a match the blacklist is cleared and the search repeated.

  \<open>selector\<close> has the fields of \<open>struct wpa_supplicant\<close> that selection adds to those of \<open>Supplicant_State\<close>. A network
  is named by its id, which stands for the pointer to its \<open>struct wpa_ssid\<close>; BSSIDs are arrays of six octets, so that
  \<open>os_memcmp\<close> with \<open>ETH_ALEN\<close> is comparison of the lists. The calls to \<open>wpa_supplicant_associate\<close>, to the driver and to
  the notification layer are recorded in a log.
\<close>

section \<open>State\<close>

datatype hostapd_hw_mode = HOSTAPD_MODE_IEEE80211B | HOSTAPD_MODE_IEEE80211G | HOSTAPD_MODE_IEEE80211A | NUM_HOSTAPD_MODES

record hostapd_hw_modes =
  hm_mode :: hostapd_hw_mode
  hm_channels :: "int list"
  hm_rates :: "int list"
  hm_mcs_set :: bytes
  hm_flags :: u32

datatype sel_event =
    Associate "ptr option" int
  | Notify_scanning bool
  | Notify_scan_results
  | Notify_scan_done bool
  | Notify_state wpa_states wpa_states
  | Notify_auth_changed
  | Set_operstate bool
  | Connected bytes "int option"
  | Preauth_candidate bytes
  | Req_sched_scan

record selector =
  sl_wpa :: wpa_supplicant
  sl_blacklist :: "wpa_blacklist list"
  sl_blacklist_cleared :: int
  sl_wpa_state :: wpa_states
  sl_current_ssid :: "int option"
  sl_new_connection :: bool
  sl_reassociated_connection :: bool
  sl_scanning :: bool
  sl_scan_interval :: u32
  sl_drv_flags :: u32
  sl_hw_modes :: "hostapd_hw_modes list option"
  sl_log :: "sel_event list"

definition sel_emit :: "sel_event \<Rightarrow> selector \<Rightarrow> selector" where
  "sel_emit e st = st\<lparr>sl_log := sl_log st @ [e]\<rparr>"

text \<open>The order of the states of the connection, which the code compares as integers.\<close>

definition wpa_state_num :: "wpa_states \<Rightarrow> nat" where
  "wpa_state_num s = (case s of WPA_DISCONNECTED \<Rightarrow> 0 | WPA_INTERFACE_DISABLED \<Rightarrow> 1 | WPA_INACTIVE \<Rightarrow> 2
     | WPA_SCANNING \<Rightarrow> 3 | WPA_AUTHENTICATING \<Rightarrow> 4 | WPA_ASSOCIATING \<Rightarrow> 5 | WPA_ASSOCIATED \<Rightarrow> 6
     | WPA_4WAY_HANDSHAKE \<Rightarrow> 7 | WPA_GROUP_HANDSHAKE \<Rightarrow> 8 | WPA_COMPLETED \<Rightarrow> 9)"

instantiation wpa_states :: linorder
begin

definition less_eq_wpa_states :: "wpa_states \<Rightarrow> wpa_states \<Rightarrow> bool" where
  "s \<le> t \<longleftrightarrow> wpa_state_num s \<le> wpa_state_num t"

definition less_wpa_states :: "wpa_states \<Rightarrow> wpa_states \<Rightarrow> bool" where
  "s < t \<longleftrightarrow> wpa_state_num s < wpa_state_num t"

instance
proof
  fix s t :: wpa_states
  show "s \<le> t \<Longrightarrow> t \<le> s \<Longrightarrow> s = t"
    by (cases s; cases t) (simp_all add: less_eq_wpa_states_def wpa_state_num_def)
qed (auto simp: less_eq_wpa_states_def less_wpa_states_def)

end

section \<open>Does a network allow an access point?\<close>

abbreviation (input) WPA_KEY_MGMT_WPS :: u32 where "WPA_KEY_MGMT_WPS \<equiv> 512"
abbreviation (input) IEEE80211_CAP_IBSS :: u16 where "IEEE80211_CAP_IBSS \<equiv> 2"
abbreviation (input) IEEE80211_CAP_PRIVACY :: u16 where "IEEE80211_CAP_PRIVACY \<equiv> 16"

definition wpa_key_mgmt_wpa :: "u32 \<Rightarrow> bool" where
  "wpa_key_mgmt_wpa akm \<longleftrightarrow> wpa_key_mgmt_wpa_ieee8021x akm \<or> wpa_key_mgmt_wpa_psk akm"

definition wpa_supplicant_match_privacy :: "wpa_scan_res \<Rightarrow> wpa_ssid \<Rightarrow> bool" where
  "wpa_supplicant_match_privacy r n =
     (if n_int n ''mixed_cell'' \<noteq> 0 then True
      else let privacy = list_ex (\<lambda>l. l \<noteq> 0) (n_wep_key_len n) \<or>
                 n_key_mgmt n AND WPA_KEY_MGMT_IEEE8021X_NO_WPA \<noteq> 0 \<and> n_int n ''eapol_flags'' AND 3 \<noteq> 0 \<or>
                 wpa_key_mgmt_wpa (n_key_mgmt n)
           in if r_caps r AND IEEE80211_CAP_PRIVACY \<noteq> 0 then privacy else \<not> privacy)"

text \<open>\<open>wep_key_len[wep_tx_keyidx]\<close>: an index outside the array of four is a fault.\<close>

definition wep_tx_key_len :: "wpa_ssid \<Rightarrow> nat option" where
  "wep_tx_key_len n = (let i = n_int n ''wep_tx_keyidx'' in
     if 0 \<le> i \<and> nat i < length (n_wep_key_len n) then Some (n_wep_key_len n ! nat i) else None)"

definition wep_allowed :: "wpa_ssid \<Rightarrow> bool option" where
  "wep_allowed n =
     (if wpa_key_mgmt_wpa (n_key_mgmt n) then Some False
      else do {
        k \<leftarrow> (if n_key_mgmt n AND WPA_KEY_MGMT_NONE \<noteq> 0 then do { l \<leftarrow> wep_tx_key_len n; Some (0 < l) } else Some False);
        Some (k \<or> n_key_mgmt n AND WPA_KEY_MGMT_IEEE8021X_NO_WPA \<noteq> 0) })"

text \<open>One element: is it accepted? It is at offset \<open>p\<close> of the scan result.\<close>

definition ie_accepted :: "bool \<Rightarrow> wpa_ssid \<Rightarrow> bytes \<Rightarrow> nat \<Rightarrow> bool option" where
  "ie_accepted wep_ok n mem p = do {
     l \<leftarrow> rd mem (p + 1);
     (r, ie) \<leftarrow> wpa_parse_wpa_ie (drop p mem) (2 + unat l);
     Some (r = 0 \<and>
       (wep_ok \<and> ied_group_cipher ie AND (WPA_CIPHER_WEP40 OR WPA_CIPHER_WEP104) \<noteq> 0 \<or>
        ied_proto ie AND n_proto n \<noteq> 0 \<and> ied_pairwise_cipher ie AND n_pairwise_cipher n \<noteq> 0 \<and>
        ied_group_cipher ie AND n_group_cipher n \<noteq> 0 \<and> ied_key_mgmt ie AND n_key_mgmt n \<noteq> 0)) }"

definition wpa_supplicant_ssid_bss_match :: "wpa_ssid \<Rightarrow> wpa_scan_res \<Rightarrow> bool option" where
  "wpa_supplicant_ssid_bss_match n r = do {
     wep_ok \<leftarrow> wep_allowed n;
     rsn_ie \<leftarrow> wpa_scan_get_ie r WLAN_EID_RSN;
     let rsn_ie = (if n_proto n AND WPA_PROTO_RSN \<noteq> 0 then rsn_ie else None);
     rsn \<leftarrow> (case rsn_ie of None \<Rightarrow> Some False | Some p \<Rightarrow> ie_accepted wep_ok n (r_ies r) p);
     if rsn then Some True
     else do {
       wpa_ie \<leftarrow> wpa_scan_get_vendor_ie r WPA_IE_VENDOR_TYPE;
       let wpa_ie = (if n_proto n AND WPA_PROTO_WPA \<noteq> 0 then wpa_ie else None);
       wpa \<leftarrow> (case wpa_ie of None \<Rightarrow> Some False | Some p \<Rightarrow> ie_accepted wep_ok n (r_ies r) p);
       if wpa then Some True
       else if n_proto n AND (WPA_PROTO_WPA OR WPA_PROTO_RSN) \<noteq> 0 \<and> wpa_key_mgmt_wpa (n_key_mgmt n) \<and>
            rsn_ie = None \<and> wpa_ie = None then Some False
       else Some (\<not> wpa_key_mgmt_wpa (n_key_mgmt n)) } }"

text \<open>The array of frequencies ends with a zero.\<close>

definition freq_allowed :: "int list option \<Rightarrow> int \<Rightarrow> bool" where
  "freq_allowed freqs freq = (case freqs of
     None \<Rightarrow> True
   | Some fs \<Rightarrow> freq \<in> set (takeWhile (\<lambda>f. f \<noteq> 0) fs))"

definition ht_supported :: "hostapd_hw_modes \<Rightarrow> bool option" where
  "ht_supported m = (if hm_flags m AND 1 = 0 then Some True else do { x \<leftarrow> rd (hm_mcs_set m) 0; Some (x = 0xff) })"

fun mode_for :: "int \<Rightarrow> hostapd_hw_modes option \<Rightarrow> hostapd_hw_modes list \<Rightarrow> hostapd_hw_modes option" where
  "mode_for freq mode [] = mode"
| "mode_for freq mode (m # ms) =
     (if freq \<in> set (hm_channels m)
      then mode_for freq (case mode of
             Some x \<Rightarrow> if hm_mode x = HOSTAPD_MODE_IEEE80211G then mode else Some m
           | None \<Rightarrow> Some m) ms
      else mode_for freq mode ms)"

text \<open>The loop over the rates of an element, for \<open>n\<close> octets from offset \<open>pos\<close> on.\<close>

fun rates_loop :: "hostapd_hw_modes \<Rightarrow> bytes \<Rightarrow> nat \<Rightarrow> nat \<Rightarrow> bool option" where
  "rates_loop m mem pos 0 = Some True"
| "rates_loop m mem pos (Suc n) = do {
     x \<leftarrow> rd mem pos;
     if x AND 0x80 \<noteq> 0 \<and> x AND 0x7f = 127 then do {
       ht \<leftarrow> ht_supported m;
       if \<not> ht then Some False else rates_loop m mem (pos + 1) n }
     else if x AND 0x80 = 0 then rates_loop m mem (pos + 1) n
     else if uint (x AND 0x7f) * 5 \<in> set (hm_rates m) then rates_loop m mem (pos + 1) n
     else Some False }"

definition rates_ok :: "hostapd_hw_modes \<Rightarrow> bytes \<Rightarrow> nat option \<Rightarrow> bool option" where
  "rates_ok m mem ie = (case ie of
     None \<Rightarrow> Some True
   | Some p \<Rightarrow> do { l \<leftarrow> rd mem (p + 1); rates_loop m mem (p + 2) (unat l) })"

definition rate_match :: "selector \<Rightarrow> wpa_scan_res \<Rightarrow> bool option" where
  "rate_match st r =
     (if r_freq r = 0 then Some True
      else case sl_hw_modes st of
        None \<Rightarrow> Some True
      | Some modes \<Rightarrow> (case mode_for (r_freq r) None modes of
          None \<Rightarrow> Some False
        | Some m \<Rightarrow> do {
            ie1 \<leftarrow> wpa_scan_get_ie r WLAN_EID_SUPP_RATES;
            ok \<leftarrow> rates_ok m (r_ies r) ie1;
            if \<not> ok then Some False
            else do {
              ie2 \<leftarrow> wpa_scan_get_ie r WLAN_EID_EXT_SUPP_RATES;
              rates_ok m (r_ies r) ie2 } }))"

definition wpa_supplicant_enabled_networks :: "wpa_config \<Rightarrow> nat" where
  "wpa_supplicant_enabled_networks c = length (filter (\<lambda>n. n_int n ''disabled'' = 0) (c_ssid c))"

text \<open>
  One round of the loop over the networks of a group: does network \<open>n\<close> match? The SSID of the result is at offset
  \<open>p\<close> with \<open>len\<close> octets, \<open>wpa\<close> tells whether the result has a WPA or RSN element.
\<close>

definition network_match :: "selector \<Rightarrow> wpa_scan_res \<Rightarrow> nat \<Rightarrow> nat \<Rightarrow> bool \<Rightarrow> wpa_ssid \<Rightarrow> bool option" where
  "network_match st r p len wpa n =
     (if n_int n ''disabled'' \<noteq> 0 then Some False
      else let check_ssid = (if n_bssid_set n \<and> n_ssid_len n = 0 \<and> r_bssid r = n_bssid n then False
                             else wpa \<or> n_ssid_len n \<noteq> 0) in do {
        ssid_ok \<leftarrow> (if \<not> check_ssid then Some True
                   else if len \<noteq> n_ssid_len n then Some False
                   else do { s \<leftarrow> n_ssid n; memeq (drop p (r_ies r)) s len });
        if \<not> ssid_ok then Some False
        else if n_bssid_set n \<and> r_bssid r \<noteq> n_bssid n then Some False
        else do {
          sec \<leftarrow> wpa_supplicant_ssid_bss_match n r;
          if \<not> sec then Some False
          else if \<not> wpa \<and> n_key_mgmt n AND WPA_KEY_MGMT_NONE = 0 \<and> n_key_mgmt n AND WPA_KEY_MGMT_WPS = 0 \<and>
               n_key_mgmt n AND WPA_KEY_MGMT_IEEE8021X_NO_WPA = 0 then Some False
          else if \<not> wpa_supplicant_match_privacy r n then Some False
          else if r_caps r AND IEEE80211_CAP_IBSS \<noteq> 0 then Some False
          else if \<not> freq_allowed (n_freq_list n) (r_freq r) then Some False
          else rate_match st r } })"

fun match_group :: "selector \<Rightarrow> wpa_scan_res \<Rightarrow> nat \<Rightarrow> nat \<Rightarrow> bool \<Rightarrow> int list \<Rightarrow> int option option" where
  "match_group st r p len wpa [] = Some None"
| "match_group st r p len wpa (i # g) = do {
     n \<leftarrow> wpa_config_get_network (conf (sl_wpa st)) i;
     m \<leftarrow> network_match st r p len wpa n;
     if m then Some (Some i) else match_group st r p len wpa g }"

text \<open>The length octet of an element, 0 without element.\<close>

definition ie_len_at :: "bytes \<Rightarrow> nat option \<Rightarrow> nat option" where
  "ie_len_at mem ie = (case ie of None \<Rightarrow> Some 0 | Some p \<Rightarrow> do { l \<leftarrow> rd mem (p + 1); Some (unat l) })"

definition wpa_scan_res_match :: "selector \<Rightarrow> wpa_scan_res \<Rightarrow> int list \<Rightarrow> int option option" where
  "wpa_scan_res_match st r grp = do {
     ie \<leftarrow> wpa_scan_get_ie r WLAN_EID_SSID;
     ssid_len \<leftarrow> ie_len_at (r_ies r) ie;
     wpa_ie \<leftarrow> wpa_scan_get_vendor_ie r WPA_IE_VENDOR_TYPE;
     wpa_ie_len \<leftarrow> ie_len_at (r_ies r) wpa_ie;
     rsn_ie \<leftarrow> wpa_scan_get_ie r WLAN_EID_RSN;
     rsn_ie_len \<leftarrow> ie_len_at (r_ies r) rsn_ie;
     let e = wpa_blacklist_get (sl_blacklist st) (r_bssid r);
     let limit = (if wpa_supplicant_enabled_networks (conf (sl_wpa st)) = 1 then 0 else 1);
     if (case e of None \<Rightarrow> False | Some e \<Rightarrow> limit < bl_count e) then Some None
     else (case ie of
       None \<Rightarrow> Some None
     | Some p \<Rightarrow>
         if ssid_len = 0 then Some None
         else match_group st r (p + 2) ssid_len (0 < wpa_ie_len \<or> 0 < rsn_ie_len) grp) }"

section \<open>Selection\<close>

text \<open>The result is the selected entry of the BSS table and \<open>*selected_ssid\<close>, whose old value is \<open>ssid\<close>.\<close>

fun wpa_supplicant_select_bss ::
  "selector \<Rightarrow> int option \<Rightarrow> wpa_scan_res list \<Rightarrow> int list \<Rightarrow> (ptr option \<times> int option) option" where
  "wpa_supplicant_select_bss st ssid [] grp = Some (None, ssid)"
| "wpa_supplicant_select_bss st ssid (r # rs) grp = do {
     m \<leftarrow> wpa_scan_res_match st r grp;
     (case m of
        None \<Rightarrow> wpa_supplicant_select_bss st None rs grp
      | Some i \<Rightarrow> do {
          ie \<leftarrow> wpa_scan_get_ie r WLAN_EID_SSID;
          len \<leftarrow> ie_len_at (r_ies r) ie;
          b \<leftarrow> wpa_bss_get (sl_wpa st) (r_bssid r)
                 (case ie of None \<Rightarrow> [] | Some p \<Rightarrow> drop (p + 2) (r_ies r)) len;
          Some (b, Some i) }) }"

fun select_group ::
  "selector \<Rightarrow> int option \<Rightarrow> wpa_scan_res list \<Rightarrow> int list list \<Rightarrow> (ptr option \<times> int option) option" where
  "select_group st ssid rs [] = Some (None, ssid)"
| "select_group st ssid rs (g # gs) = do {
     (sel, ssid) \<leftarrow> wpa_supplicant_select_bss st ssid rs g;
     if sel \<noteq> None then Some (sel, ssid) else select_group st ssid rs gs }"

function wpa_supplicant_pick_network ::
  "selector \<Rightarrow> int option \<Rightarrow> wpa_scan_res list \<Rightarrow> (ptr option \<times> int option \<times> selector) option" where
  "wpa_supplicant_pick_network st ssid rs =
     (case select_group st ssid rs (c_pssid (conf (sl_wpa st))) of
        None \<Rightarrow> None
      | Some (sel, ssid) \<Rightarrow>
          if sel \<noteq> None then Some (sel, ssid, st)
          else if sl_blacklist st \<noteq> [] then
            wpa_supplicant_pick_network
              (st\<lparr>sl_blacklist := wpa_blacklist_clear (sl_blacklist st),
                  sl_blacklist_cleared := sl_blacklist_cleared st + 1\<rparr>) ssid rs
          else Some (None, ssid, st))"
  by pat_completeness auto
termination
  by (relation "measure (\<lambda>(st, ssid, rs). length (sl_blacklist st))") (auto simp: wpa_blacklist_clear_def)

declare wpa_supplicant_pick_network.simps [simp del]

section \<open>What the functions compute\<close>

text \<open>The payload of the first element with an identifier or a vendor type.\<close>

definition res_elem :: "wpa_scan_res \<Rightarrow> u8 \<Rightarrow> bytes option" where
  "res_elem r i = map_option snd (find (\<lambda>e. fst e = i) (elems (take (r_ie_len r) (r_ies r))))"

definition res_vendor :: "wpa_scan_res \<Rightarrow> u32 \<Rightarrow> bytes option" where
  "res_vendor r v = map_option snd (find (is_vendor v) (elems (take (r_ie_len r) (r_ies r))))"

text \<open>\<open>q\<close> is the position of an element with identifier \<open>i\<close> and payload \<open>pl\<close>, or both are missing.\<close>

definition placed :: "bytes \<Rightarrow> nat option \<Rightarrow> u8 \<Rightarrow> bytes option \<Rightarrow> bool" where
  "placed mem q i pl \<longleftrightarrow> (case q of
     None \<Rightarrow> pl = None
   | Some p \<Rightarrow> (\<exists>d. pl = Some d \<and> p + 2 + length d \<le> length mem \<and> mem ! p = i \<and> unat (mem ! (p + 1)) = length d \<and>
       take (length d) (drop (p + 2) mem) = d))"

lemma placed_element:
  assumes "fin \<le> length mem" "\<forall>p. q = Some p \<longrightarrow> complete_at mem p fin" "map_option (element_at mem) q = e"
    "\<forall>x. e = Some x \<longrightarrow> fst x = i"
  shows "placed mem q i (map_option snd e)"
  using assms by (cases q) (auto simp: placed_def element_at_def complete_at_def min_def)

lemma get_ie_placed:
  assumes "res_wf r"
  shows "\<exists>q. wpa_scan_get_ie r i = Some q \<and> placed (r_ies r) q i (res_elem r i)"
proof -
  have wf: "scan_ie.wf r" "r_ie_len r \<le> length (r_ies r)" using assms by (simp_all add: scan_ie.wf_def res_wf_def)
  obtain q where q: "wpa_scan_get_ie r i = Some q" "\<forall>p. q = Some p \<longrightarrow> complete_at (r_ies r) p (r_ie_len r)"
    "map_option (element_at (r_ies r)) q = find (\<lambda>e. fst e = i) (elems (take (r_ie_len r) (r_ies r)))"
    using scan_ie.get_ie_first [OF wf(1), of i] unfolding scan_ie.elements_def by blast
  have "\<forall>x. find (\<lambda>e. fst e = i) (elems (take (r_ie_len r) (r_ies r))) = Some x \<longrightarrow> fst x = i"
    using find_SomeD by fast
  with placed_element [OF wf(2) q(2,3)] q(1) show ?thesis by (simp add: res_elem_def)
qed

lemma get_vendor_ie_placed:
  assumes "res_wf r"
  shows "\<exists>q. wpa_scan_get_vendor_ie r v = Some q \<and> placed (r_ies r) q 221 (res_vendor r v)"
proof -
  have wf: "scan_ie.wf r" "r_ie_len r \<le> length (r_ies r)" using assms by (simp_all add: scan_ie.wf_def res_wf_def)
  obtain q where q: "wpa_scan_get_vendor_ie r v = Some q" "\<forall>p. q = Some p \<longrightarrow> complete_at (r_ies r) p (r_ie_len r)"
    "map_option (element_at (r_ies r)) q = find (is_vendor v) (elems (take (r_ie_len r) (r_ies r)))"
    using scan_ie.get_vendor_ie_first [OF wf(1), of v] unfolding scan_ie.elements_def by blast
  have "\<forall>x. find (is_vendor v) (elems (take (r_ie_len r) (r_ies r))) = Some x \<longrightarrow> fst x = 221"
    using find_SomeD [of "is_vendor v"] unfolding is_vendor_def by fast
  with placed_element [OF wf(2) q(2,3)] q(1) show ?thesis by (simp add: res_vendor_def)
qed

lemma ie_len_placed: "placed mem q i pl \<Longrightarrow> ie_len_at mem q = Some (case pl of None \<Rightarrow> 0 | Some d \<Rightarrow> length d)"
  by (auto simp: placed_def ie_len_at_def rd_def split: option.splits)

subsection \<open>Parsing looks at the element only\<close>

lemma rd_take: "i < n \<Longrightarrow> rd (take n mem) i = rd mem i"
  by (simp add: rd_def)

lemma rd16_take: "i + 2 \<le> n \<Longrightarrow> rd_le16 (take n mem) i = rd_le16 mem i"
  by (simp add: rd_le16_def rd_take)

lemma rd32_take: "i + 4 \<le> n \<Longrightarrow> rd_be32 (take n mem) i = rd_be32 mem i"
  by (simp add: rd_be32_def rd_take)

lemma or_suites_take: "pos + 4 * k \<le> n \<Longrightarrow> or_suites f (take n mem) pos k acc = or_suites f mem pos k acc"
  by (induction k arbitrary: pos acc) (simp_all add: rd32_take)

lemma suite_list_take: "suite_list f err (take n mem) pos n = suite_list f err mem pos n"
  by (auto simp: suite_list_def rd16_take or_suites_take intro!: bind_option_cong)

lemma parse_suites_take: "parse_suites f g (take n mem) pos n d = parse_suites f g mem pos n d"
  by (auto simp: parse_suites_def suite_list_take rd16_take rd32_take Let_def intro!: bind_option_cong split: option.splits)

lemma parse_rsn_take: "wpa_parse_wpa_ie_rsn (take n mem) n = wpa_parse_wpa_ie_rsn mem n"
  by (simp add: wpa_parse_wpa_ie_rsn_def parse_suites_take rd_take rd16_take Let_def cong: if_cong)

lemma parse_wpa_take: "wpa_parse_wpa_ie_wpa (take n mem) n = wpa_parse_wpa_ie_wpa mem n"
  by (simp add: wpa_parse_wpa_ie_wpa_def parse_suites_take rd_take rd16_take rd32_take Let_def cong: if_cong)

lemma parse_ie_take: "wpa_parse_wpa_ie (take n mem) n = wpa_parse_wpa_ie mem n"
  by (simp add: wpa_parse_wpa_ie_def parse_rsn_take parse_wpa_take rd_take cong: if_cong)

lemma take_placed:
  assumes "placed mem (Some p) i (Some d)"
  shows "take (2 + length d) (drop p mem) = encode_elem (i, d)"
proof -
  have "drop p mem = mem ! p # drop (Suc p) mem" "drop (Suc p) mem = mem ! Suc p # drop (Suc (Suc p)) mem"
    using assms by (simp_all add: placed_def Cons_nth_drop_Suc [symmetric])
  then have "drop p mem = mem ! p # mem ! (p + 1) # drop (p + 2) mem" by simp
  moreover have u: "length d = unat (mem ! (p + 1))" using assms by (simp add: placed_def)
  have "mem ! (p + 1) = word_of_nat (length d)" unfolding u by simp
  ultimately show ?thesis using assms by (simp add: placed_def encode_elem_def)
qed

subsection \<open>Policies\<close>

text \<open>
  The security that an element advertises has something in common with what the network allows, in each of
  protocol, pairwise cipher, group cipher and key management.
\<close>

definition agrees :: "wpa_ssid \<Rightarrow> u8 \<times> bytes \<Rightarrow> bool" where
  "agrees n e \<longleftrightarrow> (\<exists>ie. wpa_parse_wpa_ie (encode_elem e) (2 + length (snd e)) = Some (0, ie) \<and>
     ied_proto ie AND n_proto n \<noteq> 0 \<and> ied_pairwise_cipher ie AND n_pairwise_cipher n \<noteq> 0 \<and>
     ied_group_cipher ie AND n_group_cipher n \<noteq> 0 \<and> ied_key_mgmt ie AND n_key_mgmt n \<noteq> 0)"

definition secure :: "wpa_ssid \<Rightarrow> wpa_scan_res \<Rightarrow> bool" where
  "secure n r \<longleftrightarrow> \<not> wpa_key_mgmt_wpa (n_key_mgmt n) \<or>
     n_proto n AND WPA_PROTO_RSN \<noteq> 0 \<and> (\<exists>d. res_elem r WLAN_EID_RSN = Some d \<and> agrees n (WLAN_EID_RSN, d)) \<or>
     n_proto n AND WPA_PROTO_WPA \<noteq> 0 \<and> (\<exists>d. res_vendor r WPA_IE_VENDOR_TYPE = Some d \<and> agrees n (WLAN_EID_VENDOR_SPECIFIC, d))"

definition has_wpa :: "wpa_scan_res \<Rightarrow> bool" where
  "has_wpa r \<longleftrightarrow> res_vendor r WPA_IE_VENDOR_TYPE \<notin> {None, Some []} \<or> res_elem r WLAN_EID_RSN \<notin> {None, Some []}"

text \<open>A network without SSID fits any access point if it names the BSSID or uses no WPA.\<close>

definition ssid_fits :: "wpa_ssid \<Rightarrow> wpa_scan_res \<Rightarrow> bool" where
  "ssid_fits n r \<longleftrightarrow>
     (if n_ssid_len n = 0 then n_bssid_set n \<and> r_bssid r = n_bssid n \<or> \<not> has_wpa r
      else res_elem r WLAN_EID_SSID = Some (take (n_ssid_len n) (the (n_ssid n))))"

definition rate_fits :: "hostapd_hw_modes \<Rightarrow> u8 \<Rightarrow> bool" where
  "rate_fits m x \<longleftrightarrow> x AND 0x80 = 0 \<or>
     (if x AND 0x7f = 127 then hm_flags m AND 1 = 0 \<or> hm_mcs_set m ! 0 = 0xff
      else uint (x AND 0x7f) * 5 \<in> set (hm_rates m))"

definition rates_fit :: "selector \<Rightarrow> wpa_scan_res \<Rightarrow> bool" where
  "rates_fit st r \<longleftrightarrow> r_freq r = 0 \<or> (case sl_hw_modes st of
     None \<Rightarrow> True
   | Some modes \<Rightarrow> (case mode_for (r_freq r) None modes of
       None \<Rightarrow> False
     | Some m \<Rightarrow> list_all (rate_fits m)
         (case_option [] id (res_elem r WLAN_EID_SUPP_RATES) @ case_option [] id (res_elem r WLAN_EID_EXT_SUPP_RATES))))"

definition allows :: "selector \<Rightarrow> wpa_ssid \<Rightarrow> wpa_scan_res \<Rightarrow> bool" where
  "allows st n r \<longleftrightarrow> n_int n ''disabled'' = 0 \<and> res_elem r WLAN_EID_SSID \<notin> {None, Some []} \<and> ssid_fits n r \<and>
     (n_bssid_set n \<longrightarrow> r_bssid r = n_bssid n) \<and> secure n r \<and>
     (has_wpa r \<or> n_key_mgmt n AND WPA_KEY_MGMT_NONE \<noteq> 0 \<or> n_key_mgmt n AND WPA_KEY_MGMT_WPS \<noteq> 0 \<or>
      n_key_mgmt n AND WPA_KEY_MGMT_IEEE8021X_NO_WPA \<noteq> 0) \<and>
     wpa_supplicant_match_privacy r n \<and> r_caps r AND IEEE80211_CAP_IBSS = 0 \<and>
     freq_allowed (n_freq_list n) (r_freq r) \<and> rates_fit st r"

text \<open>
  Networks for which the functions stay inside their arrays: in particular \<open>wep_tx_keyidx\<close> is an index of the
  array of keys.
\<close>

definition net_ok :: "wpa_ssid \<Rightarrow> bool" where
  "net_ok n \<longleftrightarrow> 0 \<le> n_int n ''wep_tx_keyidx'' \<and> n_int n ''wep_tx_keyidx'' < int (length (n_wep_key_len n)) \<and>
     (n_ssid_len n = 0 \<or> (\<exists>s. n_ssid n = Some s \<and> n_ssid_len n \<le> length s))"

lemma wep_allowed_total: "net_ok n \<Longrightarrow> \<exists>b. wep_allowed n = Some b \<and> (b \<longrightarrow> \<not> wpa_key_mgmt_wpa (n_key_mgmt n))"
  by (auto simp: wep_allowed_def wep_tx_key_len_def net_ok_def Let_def nat_less_iff)

lemma ie_accepted_spec:
  assumes "placed mem (Some p) i (Some d)"
  shows "\<exists>b. ie_accepted wep_ok n mem p = Some b \<and> (agrees n (i, d) \<longrightarrow> b) \<and> (b \<longrightarrow> wep_ok \<or> agrees n (i, d))"
proof -
  have l: "p + 1 < length mem" "unat (mem ! (p + 1)) = length d" "2 + length d \<le> length (drop p mem)"
    using assms by (auto simp: placed_def)
  have t: "wpa_parse_wpa_ie (drop p mem) (2 + length d) = wpa_parse_wpa_ie (encode_elem (i, d)) (2 + length d)"
    using parse_ie_take [of "2 + length d" "drop p mem"] take_placed [OF assms] by simp
  obtain r ie where "wpa_parse_wpa_ie (encode_elem (i, d)) (2 + length d) = Some (r, ie)"
    using parse_wpa_ie_total [OF l(3)] t by (auto simp: succeeds_def)
  with t l show ?thesis by (auto simp: ie_accepted_def agrees_def rd_def)
qed

lemma ssid_bss_match_spec:
  assumes "net_ok n" "res_wf r"
  shows "wpa_supplicant_ssid_bss_match n r = Some (secure n r)"
proof -
  obtain w where w: "wep_allowed n = Some w" "w \<longrightarrow> \<not> wpa_key_mgmt_wpa (n_key_mgmt n)"
    using wep_allowed_total [OF assms(1)] by blast
  obtain q where q: "wpa_scan_get_ie r 48 = Some q" "placed (r_ies r) q 48 (res_elem r 48)"
    using get_ie_placed [OF assms(2)] by blast
  obtain v where v: "wpa_scan_get_vendor_ie r WPA_IE_VENDOR_TYPE = Some v" "placed (r_ies r) v 221 (res_vendor r WPA_IE_VENDOR_TYPE)"
    using get_vendor_ie_placed [OF assms(2)] by blast
  have dec: "\<exists>b. (case (if c then x else None) of None \<Rightarrow> Some False | Some p \<Rightarrow> ie_accepted w n (r_ies r) p) = Some b \<and>
      (c \<and> (\<exists>d. pl = Some d \<and> agrees n (i, d)) \<longrightarrow> b) \<and> (b \<longrightarrow> w \<or> c \<and> (\<exists>d. pl = Some d \<and> agrees n (i, d)))"
    if "placed (r_ies r) x i pl" for c x i pl
    using that ie_accepted_spec [of "r_ies r" _ i _ w n] by (cases x; cases c; cases pl) (auto simp: placed_def)
  obtain b1 where b1: "(case (if n_proto n AND 2 \<noteq> 0 then q else None) of None \<Rightarrow> Some False | Some p \<Rightarrow> ie_accepted w n (r_ies r) p) = Some b1"
      "n_proto n AND 2 \<noteq> 0 \<and> (\<exists>d. res_elem r 48 = Some d \<and> agrees n (48, d)) \<longrightarrow> b1"
      "b1 \<longrightarrow> w \<or> n_proto n AND 2 \<noteq> 0 \<and> (\<exists>d. res_elem r 48 = Some d \<and> agrees n (48, d))"
    using dec [OF q(2)] by blast
  obtain b2 where b2: "(case (if n_proto n AND 1 \<noteq> 0 then v else None) of None \<Rightarrow> Some False | Some p \<Rightarrow> ie_accepted w n (r_ies r) p) = Some b2"
      "n_proto n AND 1 \<noteq> 0 \<and> (\<exists>d. res_vendor r WPA_IE_VENDOR_TYPE = Some d \<and> agrees n (221, d)) \<longrightarrow> b2"
      "b2 \<longrightarrow> w \<or> n_proto n AND 1 \<noteq> 0 \<and> (\<exists>d. res_vendor r WPA_IE_VENDOR_TYPE = Some d \<and> agrees n (221, d))"
    using dec [OF v(2)] by blast
  have "wpa_supplicant_ssid_bss_match n r = Some (b1 \<or> b2 \<or> \<not> wpa_key_mgmt_wpa (n_key_mgmt n))"
    unfolding wpa_supplicant_ssid_bss_match_def w(1) q(1) v(1) Let_def bind.simps b1(1) b2(1) by auto
  moreover have "(b1 \<or> b2 \<or> \<not> wpa_key_mgmt_wpa (n_key_mgmt n)) = secure n r"
    using w(2) b1(2,3) b2(2,3) unfolding secure_def by blast
  ultimately show ?thesis by simp
qed

lemma rates_loop_spec:
  assumes "pos + k \<le> length mem" "length (hm_mcs_set m) = 16"
  shows "rates_loop m mem pos k = Some (list_all (rate_fits m) (take k (drop pos mem)))"
  using assms
proof (induction k arbitrary: pos)
  case (Suc k)
  have "take (Suc k) (drop pos mem) = mem ! pos # take k (drop (Suc pos) mem)"
    using Suc.prems by (simp add: Cons_nth_drop_Suc [symmetric])
  then show ?case using Suc by (auto simp: rd_def ht_supported_def rate_fits_def)
qed simp

lemma rates_ok_spec:
  "placed mem q i pl \<Longrightarrow> length (hm_mcs_set m) = 16 \<Longrightarrow> rates_ok m mem q = Some (list_all (rate_fits m) (case_option [] id pl))"
  using rates_loop_spec [of _ _ mem m] by (cases q) (auto simp: placed_def rates_ok_def rd_def)

lemma mode_for_in: "mode_for freq mode ms = Some m \<Longrightarrow> mode = Some m \<or> m \<in> set ms"
proof (induction ms arbitrary: mode)
  case (Cons x ms)
  from Cons.IH [of mode] Cons.IH [of "Some x"] Cons.prems show ?case
    by (cases mode) (auto split: if_splits)
qed simp

definition modes_ok :: "selector \<Rightarrow> bool" where
  "modes_ok st \<longleftrightarrow> list_all (\<lambda>m. length (hm_mcs_set m) = 16) (case_option [] id (sl_hw_modes st))"

lemma rate_match_spec:
  assumes "res_wf r" "modes_ok st"
  shows "rate_match st r = Some (rates_fit st r)"
proof -
  obtain q1 where q1: "wpa_scan_get_ie r 1 = Some q1" "placed (r_ies r) q1 1 (res_elem r 1)"
    using get_ie_placed [OF assms(1)] by blast
  obtain q2 where q2: "wpa_scan_get_ie r 50 = Some q2" "placed (r_ies r) q2 50 (res_elem r 50)"
    using get_ie_placed [OF assms(1)] by blast
  have m: "length (hm_mcs_set m) = 16" if "sl_hw_modes st = Some ms" "mode_for (r_freq r) None ms = Some m" for m ms
    using mode_for_in [OF that(2)] assms(2) that(1) by (auto simp: modes_ok_def list_all_iff)
  show ?thesis
  proof (cases "sl_hw_modes st")
    case None
    then show ?thesis by (simp add: rate_match_def rates_fit_def)
  next
    case (Some ms)
    show ?thesis
    proof (cases "mode_for (r_freq r) None ms")
      case None
      with Some show ?thesis by (simp add: rate_match_def rates_fit_def)
    next
      case (Some m)
      with m \<open>sl_hw_modes st = Some ms\<close> have "length (hm_mcs_set m) = 16" by blast
      with Some \<open>sl_hw_modes st = Some ms\<close> show ?thesis
        by (simp add: rate_match_def rates_fit_def q1(1) q2(1) rates_ok_spec [OF q1(2)] rates_ok_spec [OF q2(2)])
    qed
  qed
qed

lemma network_match_spec:
  assumes "net_ok n" "res_wf r" "modes_ok st" "placed (r_ies r) (Some p) 0 (Some ssid)" "res_elem r 0 = Some ssid" "ssid \<noteq> []"
  shows "network_match st r (p + 2) (length ssid) (has_wpa r) n = Some (allows st n r)"
proof -
  have sec: "wpa_supplicant_ssid_bss_match n r = Some (secure n r)" by (rule ssid_bss_match_spec [OF assms(1,2)])
  have s: "(if \<not> (if n_bssid_set n \<and> n_ssid_len n = 0 \<and> r_bssid r = n_bssid n then False else has_wpa r \<or> n_ssid_len n \<noteq> 0)
       then Some True
       else if length ssid \<noteq> n_ssid_len n then Some False
       else do { s \<leftarrow> n_ssid n; memeq (drop (p + 2) (r_ies r)) s (length ssid) }) = Some (ssid_fits n r)"
    using assms(1,4-6) unfolding ssid_fits_def net_ok_def placed_def
    by (auto simp: memeq_Some)
  show ?thesis
    unfolding network_match_def Let_def s bind.simps sec rate_match_spec [OF assms(2,3)] allows_def
    using assms(5,6) by auto
qed

subsection \<open>Selection\<close>

definition blacklisted :: "selector \<Rightarrow> wpa_scan_res \<Rightarrow> bool" where
  "blacklisted st r \<longleftrightarrow> (if wpa_supplicant_enabled_networks (conf (sl_wpa st)) = 1 then 0 else 1) <
     blacklist_count (sl_blacklist st) (r_bssid r)"

definition nets :: "selector \<Rightarrow> wpa_ssid list" where
  "nets st = c_ssid (conf (sl_wpa st))"

definition net :: "selector \<Rightarrow> int \<Rightarrow> wpa_ssid" where
  "net st i = the (wpa_config_get_network (conf (sl_wpa st)) i)"

text \<open>The entry of the BSS table that belongs to a scan result.\<close>

definition entry_of :: "selector \<Rightarrow> ptr \<Rightarrow> wpa_scan_res \<Rightarrow> bool" where
  "entry_of st a r \<longleftrightarrow> a \<in> set (bss (sl_wpa st)) \<and>
     (\<exists>ssid. res_elem r WLAN_EID_SSID = Some ssid \<and> has_key (sl_wpa st) (r_bssid r) ssid a)"

definition in_table :: "selector \<Rightarrow> wpa_scan_res \<Rightarrow> bool" where
  "in_table st r \<longleftrightarrow> filter_admits (sl_wpa st) (r_bssid r) \<and>
     (\<exists>a ssid. entry_of st a r \<and> res_elem r WLAN_EID_SSID = Some ssid \<and> length ssid \<le> 32)"

definition sel_ok :: "selector \<Rightarrow> bool" where
  "sel_ok st \<longleftrightarrow> bss_inv (sl_wpa st) \<and> modes_ok st \<and> list_all net_ok (nets st) \<and> distinct (map n_id (nets st)) \<and>
     c_pssid (conf (sl_wpa st)) = prio_groups (nets st)"

definition good :: "selector \<Rightarrow> int \<Rightarrow> wpa_scan_res \<Rightarrow> bool" where
  "good st i r \<longleftrightarrow> \<not> blacklisted st r \<and> allows st (net st i) r"

lemma net_id: "sel_ok st \<Longrightarrow> n \<in> set (nets st) \<Longrightarrow> wpa_config_get_network (conf (sl_wpa st)) (n_id n) = Some n"
  by (simp add: sel_ok_def nets_def wpa_config_get_network_def find_id)

lemma match_group_spec:
  assumes "sel_ok st" "res_wf r" "placed (r_ies r) (Some p) 0 (Some ssid)" "res_elem r 0 = Some ssid" "ssid \<noteq> []"
    "set g \<subseteq> n_id ` set (nets st)"
  shows "match_group st r (p + 2) (length ssid) (has_wpa r) g = Some (find (\<lambda>i. allows st (net st i) r) g)"
  using assms(6)
proof (induction g)
  case (Cons i g)
  then obtain n where n: "n \<in> set (nets st)" "n_id n = i" by auto
  then have "wpa_config_get_network (conf (sl_wpa st)) i = Some n" using net_id [OF assms(1)] by blast
  moreover have "net_ok n" "modes_ok st" using n(1) assms(1) by (auto simp: sel_ok_def list_all_iff)
  ultimately show ?case
    using Cons network_match_spec [OF _ assms(2) _ assms(3,4,5), of n st] by (simp add: net_def)
qed simp

lemma scan_res_match_spec:
  assumes "sel_ok st" "res_wf r" "set g \<subseteq> n_id ` set (nets st)"
  shows "wpa_scan_res_match st r g = Some (find (\<lambda>i. good st i r) g)"
proof -
  obtain q where q: "wpa_scan_get_ie r 0 = Some q" "placed (r_ies r) q 0 (res_elem r 0)"
    using get_ie_placed [OF assms(2)] by blast
  obtain q1 where q1: "wpa_scan_get_ie r 48 = Some q1" "placed (r_ies r) q1 48 (res_elem r 48)"
    using get_ie_placed [OF assms(2)] by blast
  obtain v where v: "wpa_scan_get_vendor_ie r WPA_IE_VENDOR_TYPE = Some v" "placed (r_ies r) v 221 (res_vendor r WPA_IE_VENDOR_TYPE)"
    using get_vendor_ie_placed [OF assms(2)] by blast
  have w: "(0 < (case res_vendor r WPA_IE_VENDOR_TYPE of None \<Rightarrow> 0 | Some d \<Rightarrow> length d) \<or>
      0 < (case res_elem r 48 of None \<Rightarrow> 0 | Some d \<Rightarrow> length d)) = has_wpa r"
    by (auto simp: has_wpa_def split: option.split)
  have b: "(case wpa_blacklist_get (sl_blacklist st) (r_bssid r) of None \<Rightarrow> False
      | Some e \<Rightarrow> (if wpa_supplicant_enabled_networks (conf (sl_wpa st)) = 1 then 0 else 1) < bl_count e) = blacklisted st r"
    by (simp add: blacklisted_def blacklist_count_def split: option.split)
  have none: "find (\<lambda>i. good st i r) g = None" if "blacklisted st r \<or> res_elem r 0 \<in> {None, Some []}"
    using that by (auto simp: find_None_iff good_def allows_def)
  have eq: "wpa_scan_res_match st r g = (if blacklisted st r then Some None
     else (case q of None \<Rightarrow> Some None
       | Some p \<Rightarrow> if (case res_elem r 0 of None \<Rightarrow> 0 | Some d \<Rightarrow> length d) = 0 then Some None
           else match_group st r (p + 2) (case res_elem r 0 of None \<Rightarrow> 0 | Some d \<Rightarrow> length d) (has_wpa r) g))"
    unfolding wpa_scan_res_match_def q(1) q1(1) v(1) bind.simps ie_len_placed [OF q(2)] ie_len_placed [OF q1(2)]
      ie_len_placed [OF v(2)] Let_def b w ..
  show ?thesis
  proof (cases "blacklisted st r \<or> res_elem r 0 \<in> {None, Some []}")
    case True
    then show ?thesis unfolding eq none [OF True] by (auto split: option.split)
  next
    case False
    then obtain ssid p where p: "res_elem r 0 = Some ssid" "ssid \<noteq> []" "q = Some p"
      using q(2) by (auto simp: placed_def split: option.splits)
    then show ?thesis unfolding eq using False match_group_spec [OF assms(1,2) _ p(1,2) assms(3), of p] q(2)
      by (simp add: good_def [abs_def])
  qed
qed

definition no_match :: "selector \<Rightarrow> wpa_scan_res list \<Rightarrow> int list \<Rightarrow> bool" where
  "no_match st rs g \<longleftrightarrow> (\<forall>r \<in> set rs. \<forall>i \<in> set g. \<not> good st i r)"

definition first_match :: "selector \<Rightarrow> wpa_scan_res list \<Rightarrow> int list \<Rightarrow> ptr \<Rightarrow> int \<Rightarrow> bool" where
  "first_match st rs g a i \<longleftrightarrow> i \<in> set g \<and> (\<exists>rs1 r rs2. rs = rs1 @ r # rs2 \<and> no_match st rs1 g \<and> good st i r \<and> entry_of st a r)"

text \<open>Every scan result that a network allows is in the BSS table.\<close>

definition results_ok :: "selector \<Rightarrow> wpa_scan_res list \<Rightarrow> bool" where
  "results_ok st rs \<longleftrightarrow> list_all (\<lambda>r. res_wf r \<and> (list_ex (\<lambda>n. allows st n r) (nets st) \<longrightarrow> in_table st r)) rs"

lemma bss_of_result:
  assumes "sel_ok st" "res_wf r" "in_table st r" "res_elem r 0 \<noteq> Some []"
  shows "\<exists>q len a. wpa_scan_get_ie r 0 = Some q \<and> ie_len_at (r_ies r) q = Some len \<and> entry_of st a r \<and>
    wpa_bss_get (sl_wpa st) (r_bssid r) (case q of None \<Rightarrow> [] | Some p \<Rightarrow> drop (p + 2) (r_ies r)) len = Some (Some a)"
proof -
  obtain q where q: "wpa_scan_get_ie r 0 = Some q" "placed (r_ies r) q 0 (res_elem r 0)"
    using get_ie_placed [OF assms(2)] by blast
  obtain a ssid where a: "entry_of st a r" "res_elem r 0 = Some ssid" "length ssid \<le> 32" "filter_admits (sl_wpa st) (r_bssid r)"
    using assms(3) by (auto simp: in_table_def)
  obtain p where p: "q = Some p" "length ssid \<le> length (drop (p + 2) (r_ies r))" "take (length ssid) (drop (p + 2) (r_ies r)) = ssid"
    using q(2) a(2) by (auto simp: placed_def split: option.splits)
  have "wpa_bss_get (sl_wpa st) (r_bssid r) (drop (p + 2) (r_ies r)) (length ssid) =
      Some (find (has_key (sl_wpa st) (r_bssid r) ssid) (bss (sl_wpa st)))"
    using wpa_bss_get_key [of "sl_wpa st" "r_bssid r" "length ssid" "drop (p + 2) (r_ies r)"] assms(1,2) a(3,4) p(2,3)
    by (simp add: sel_ok_def res_wf_def)
  moreover obtain b where b: "find (has_key (sl_wpa st) (r_bssid r) ssid) (bss (sl_wpa st)) = Some b"
    using a(1,2) by (cases "find (has_key (sl_wpa st) (r_bssid r) ssid) (bss (sl_wpa st))") (auto simp: entry_of_def find_None_iff)
  moreover have "entry_of st b r" using find_SomeD [OF b] a(2) by (simp add: entry_of_def)
  ultimately show ?thesis using q(1) ie_len_placed [OF q(2)] p(1) a(2) by auto
qed

lemma select_bss_spec:
  assumes "sel_ok st" "results_ok st rs" "set g \<subseteq> n_id ` set (nets st)"
  shows "\<exists>sel x. wpa_supplicant_select_bss st ssid rs g = Some (sel, x) \<and>
    (case sel of None \<Rightarrow> no_match st rs g | Some a \<Rightarrow> \<exists>i. x = Some i \<and> first_match st rs g a i)"
  using assms(2)
proof (induction rs arbitrary: ssid)
  case (Cons r rs)
  then have r: "res_wf r" "list_ex (\<lambda>n. allows st n r) (nets st) \<longrightarrow> in_table st r" "results_ok st rs"
    by (simp_all add: results_ok_def)
  note m = scan_res_match_spec [OF assms(1) r(1) assms(3)]
  show ?case
  proof (cases "find (\<lambda>i. good st i r) g")
    case None
    then have n: "\<forall>i\<in>set g. \<not> good st i r" by (auto simp: find_None_iff)
    obtain sel x where IH: "wpa_supplicant_select_bss st None rs g = Some (sel, x)"
      "case sel of None \<Rightarrow> no_match st rs g | Some a \<Rightarrow> \<exists>i. x = Some i \<and> first_match st rs g a i"
      using Cons.IH [OF r(3)] by blast
    have "first_match st (r # rs) g a i" if "first_match st rs g a i" for a i
    proof -
      from that obtain rs1 r' rs2 where "rs = rs1 @ r' # rs2" "no_match st rs1 g" "good st i r'" "entry_of st a r'" "i \<in> set g"
        by (auto simp: first_match_def)
      then have "r # rs = (r # rs1) @ r' # rs2" "no_match st (r # rs1) g" using n by (auto simp: no_match_def)
      then show ?thesis unfolding first_match_def using \<open>good st i r'\<close> \<open>entry_of st a r'\<close> \<open>i \<in> set g\<close> by blast
    qed
    then show ?thesis using IH n m None by (auto simp: no_match_def split: option.splits)
  next
    case (Some i)
    then have i: "i \<in> set g" "good st i r" using find_SomeD by fast+
    then obtain n where n: "n \<in> set (nets st)" "n_id n = i" using assms(3) by auto
    then have "allows st n r" using i(2) net_id [OF assms(1) n(1)] by (simp add: good_def net_def)
    then have t: "in_table st r" "res_elem r 0 \<noteq> Some []" using r(2) n(1) by (auto simp: list_ex_iff allows_def)
    obtain q len a where "wpa_scan_get_ie r 0 = Some q" "ie_len_at (r_ies r) q = Some len" "entry_of st a r"
      "wpa_bss_get (sl_wpa st) (r_bssid r) (case q of None \<Rightarrow> [] | Some p \<Rightarrow> drop (p + 2) (r_ies r)) len = Some (Some a)"
      using bss_of_result [OF assms(1) r(1) t] by blast
    moreover from this have "first_match st (r # rs) g a i"
      using i unfolding first_match_def no_match_def by (intro conjI exI [of _ "[]"]) auto
    ultimately show ?thesis using m Some by simp
  qed
qed (simp add: no_match_def)

lemma select_group_spec:
  assumes "sel_ok st" "results_ok st rs" "\<forall>g \<in> set gs. set g \<subseteq> n_id ` set (nets st)"
  shows "\<exists>sel x. select_group st ssid rs gs = Some (sel, x) \<and>
    (case sel of None \<Rightarrow> \<forall>g \<in> set gs. no_match st rs g
     | Some a \<Rightarrow> \<exists>i g gs1 gs2. x = Some i \<and> gs = gs1 @ g # gs2 \<and> first_match st rs g a i \<and> (\<forall>g' \<in> set gs1. no_match st rs g'))"
  using assms(3)
proof (induction gs arbitrary: ssid)
  case (Cons g gs)
  obtain sel x where s: "wpa_supplicant_select_bss st ssid rs g = Some (sel, x)"
    "case sel of None \<Rightarrow> no_match st rs g | Some a \<Rightarrow> \<exists>i. x = Some i \<and> first_match st rs g a i"
    using select_bss_spec [OF assms(1,2)] Cons.prems by (meson list.set_intros(1))
  show ?case
  proof (cases sel)
    case None
    obtain sel' x' where IH: "select_group st x rs gs = Some (sel', x')"
      "case sel' of None \<Rightarrow> \<forall>g \<in> set gs. no_match st rs g
       | Some a \<Rightarrow> \<exists>i g gs1 gs2. x' = Some i \<and> gs = gs1 @ g # gs2 \<and> first_match st rs g a i \<and> (\<forall>g' \<in> set gs1. no_match st rs g')"
      using Cons by (meson list.set_intros(2))
    have n: "no_match st rs g" using s(2) None by simp
    have "\<exists>i h gs1 gs2. x' = Some i \<and> g # gs = gs1 @ h # gs2 \<and> first_match st rs h a i \<and> (\<forall>g' \<in> set gs1. no_match st rs g')"
      if "sel' = Some a" for a
    proof -
      from that IH(2) obtain i h gs1 gs2 where "x' = Some i" "gs = gs1 @ h # gs2" "first_match st rs h a i" "\<forall>g' \<in> set gs1. no_match st rs g'"
        by auto
      with n show ?thesis by (intro exI [of _ i] exI [of _ h] exI [of _ "g # gs1"] exI [of _ gs2]) simp
    qed
    then show ?thesis using None s(1) IH n by (cases sel') auto
  next
    case (Some a)
    then obtain i where "x = Some i" "first_match st rs g a i" using s(2) by auto
    then have "\<exists>i h gs1 gs2. x = Some i \<and> g # gs = gs1 @ h # gs2 \<and> first_match st rs h a i \<and> (\<forall>g' \<in> set gs1. no_match st rs g')"
      by (intro exI [of _ i] exI [of _ g] exI [of _ "[]"] exI [of _ gs]) simp
    then show ?thesis using s(1) Some by simp
  qed
qed simp

definition cleared :: "selector \<Rightarrow> selector" where
  "cleared st = st\<lparr>sl_blacklist := [], sl_blacklist_cleared := sl_blacklist_cleared st + 1\<rparr>"

lemma cleared_sel [simp]:
  "sl_wpa (cleared st) = sl_wpa st" "sl_blacklist (cleared st) = []" "sl_hw_modes (cleared st) = sl_hw_modes st"
  by (simp_all add: cleared_def)

lemma cleared_same [simp]:
  "nets (cleared st) = nets st" "net (cleared st) = net st" "allows (cleared st) = allows st"
  "entry_of (cleared st) = entry_of st" "sel_ok (cleared st) = sel_ok st" "results_ok (cleared st) = results_ok st"
  "\<not> blacklisted (cleared st) r"
  by (simp_all add: nets_def net_def allows_def fun_eq_iff rates_fit_def entry_of_def sel_ok_def modes_ok_def
      results_ok_def in_table_def blacklisted_def)

text \<open>The search ends, at the latest after the blacklist was cleared.\<close>

definition picked :: "selector \<Rightarrow> wpa_scan_res list \<Rightarrow> ptr option \<Rightarrow> int option \<Rightarrow> bool" where
  "picked st rs sel x \<longleftrightarrow> (case sel of None \<Rightarrow> \<forall>g \<in> set (prio_groups (nets st)). no_match st rs g
     | Some a \<Rightarrow> \<exists>i g gs1 gs2. x = Some i \<and> prio_groups (nets st) = gs1 @ g # gs2 \<and> first_match st rs g a i \<and>
         (\<forall>g' \<in> set gs1. no_match st rs g'))"

lemma prio_groups_ids: "g \<in> set (prio_groups ns) \<Longrightarrow> set g \<subseteq> n_id ` set ns"
  by (auto simp: prio_groups_def ids_of_prio_def)

lemma select_prio_spec:
  "sel_ok st \<Longrightarrow> results_ok st rs \<Longrightarrow>
     \<exists>sel x. select_group st ssid rs (c_pssid (conf (sl_wpa st))) = Some (sel, x) \<and> picked st rs sel x"
  using select_group_spec [of st rs "prio_groups (nets st)" ssid] prio_groups_ids [of _ "nets st"]
  by (auto simp: picked_def sel_ok_def)

lemma pick_network_spec:
  assumes "sel_ok st" "results_ok st rs"
  shows "\<exists>sel x st'. wpa_supplicant_pick_network st ssid rs = Some (sel, x, st') \<and> picked st' rs sel x \<and>
    (st' = st \<or> sl_blacklist st \<noteq> [] \<and> st' = cleared st \<and> (\<forall>g \<in> set (prio_groups (nets st)). no_match st rs g)) \<and>
    (sel = None \<longrightarrow> sl_blacklist st' = [])"
proof -
  obtain sel x where s: "select_group st ssid rs (c_pssid (conf (sl_wpa st))) = Some (sel, x)" "picked st rs sel x"
    using select_prio_spec [OF assms] by blast
  obtain sel' x' where s': "select_group (cleared st) x rs (c_pssid (conf (sl_wpa st))) = Some (sel', x')" "picked (cleared st) rs sel' x'"
    using select_prio_spec [of "cleared st" rs x] assms by auto
  have c: "st\<lparr>sl_blacklist := wpa_blacklist_clear (sl_blacklist st), sl_blacklist_cleared := sl_blacklist_cleared st + 1\<rparr> = cleared st"
    by (simp add: cleared_def wpa_blacklist_clear_def)
  have again: "wpa_supplicant_pick_network (cleared st) x rs = Some (sel', x', cleared st)"
    using s'(1) by (subst wpa_supplicant_pick_network.simps) simp
  show ?thesis
  proof (cases "sel = None \<and> sl_blacklist st \<noteq> []")
    case True
    then have "wpa_supplicant_pick_network st ssid rs = Some (sel', x', cleared st)"
      using s(1) c again by (subst wpa_supplicant_pick_network.simps) simp
    then show ?thesis using s'(2) s(2) True by (auto simp: picked_def)
  next
    case False
    then have "wpa_supplicant_pick_network st ssid rs = Some (sel, x, st)"
      using s(1) by (subst wpa_supplicant_pick_network.simps) auto
    then show ?thesis using s(2) False by auto
  qed
qed

subsection \<open>Priorities\<close>

lemma no_match_prio:
  assumes "sel_ok st"
  shows "no_match st rs (ids_of_prio (nets st) p) \<longleftrightarrow>
    (\<forall>r \<in> set rs. \<forall>n \<in> set (nets st). net_priority n = p \<longrightarrow> allows st n r \<longrightarrow> blacklisted st r)"
  using net_id [OF assms] by (auto simp: no_match_def ids_of_prio_def good_def net_def)

lemma no_match_all:
  assumes "sel_ok st"
  shows "(\<forall>g \<in> set (prio_groups (nets st)). no_match st rs g) \<longleftrightarrow>
    list_all (\<lambda>n. list_all (\<lambda>r. allows st n r \<longrightarrow> blacklisted st r) rs) (nets st)"
  using no_match_prio [OF assms] by (auto simp: prio_groups_def list_all_iff)

definition best_match :: "selector \<Rightarrow> wpa_scan_res list \<Rightarrow> ptr \<Rightarrow> wpa_ssid \<Rightarrow> wpa_scan_res \<Rightarrow> bool" where
  "best_match st rs a n r \<longleftrightarrow> n \<in> set (nets st) \<and> allows st n r \<and> \<not> blacklisted st r \<and> entry_of st a r \<and>
     (\<exists>rs1 rs2. rs = rs1 @ r # rs2 \<and>
       list_all (\<lambda>m. list_all (\<lambda>q. allows st m q \<and> \<not> blacklisted st q \<longrightarrow> net_priority m \<le> net_priority n) rs \<and>
                     list_all (\<lambda>q. allows st m q \<and> \<not> blacklisted st q \<longrightarrow> net_priority m < net_priority n) rs1) (nets st))"

lemma rev_sorted_split:
  assumes "rev (sorted_list_of_set S) = ps1 @ p # ps2" "finite S" "q \<in> S" "q \<notin> set ps1"
  shows "q \<le> (p :: int)"
proof -
  have e: "sorted_list_of_set S = rev ps2 @ p # rev ps1" using assms(1) by (simp add: rev_eq_append_conv)
  have "sorted (rev ps2 @ p # rev ps1)" unfolding e [symmetric] by simp
  moreover have "q \<in> set (rev ps2 @ p # rev ps1)" unfolding e [symmetric] using assms(2,3) by simp
  ultimately show ?thesis using assms(4) by (auto simp: sorted_append)
qed

lemma picked_best:
  assumes "sel_ok st" "picked st rs (Some a) x"
  shows "\<exists>n r. x = Some (n_id n) \<and> best_match st rs a n r"
proof -
  obtain i g gs1 gs2 where g: "x = Some i" "prio_groups (nets st) = gs1 @ g # gs2" "first_match st rs g a i"
    "\<forall>g' \<in> set gs1. no_match st rs g'"
    using assms(2) by (auto simp: picked_def)
  let ?S = "net_priority ` set (nets st)"
  obtain ps1 p ps2 where ps: "rev (sorted_list_of_set ?S) = ps1 @ p # ps2" "gs1 = map (ids_of_prio (nets st)) ps1"
    "g = ids_of_prio (nets st) p"
    using g(2) unfolding prio_groups_def by (auto simp: map_eq_append_conv)
  obtain rs1 r rs2 where r: "rs = rs1 @ r # rs2" "no_match st rs1 g" "good st i r" "entry_of st a r" "i \<in> set g"
    using g(3) by (auto simp: first_match_def)
  obtain n where n: "n \<in> set (nets st)" "n_id n = i" "net_priority n = p"
    using r(5) ps(3) by (auto simp: ids_of_prio_def)
  have "allows st n r" "\<not> blacklisted st r" using r(3) net_id [OF assms(1) n(1)] n(2) by (auto simp: good_def net_def)
  moreover have le: "net_priority m \<le> p" if "m \<in> set (nets st)" "allows st m q" "\<not> blacklisted st q" "q \<in> set rs" for m q
  proof (rule rev_sorted_split [OF ps(1)])
    show "net_priority m \<notin> set ps1" using g(4) ps(2) no_match_prio [OF assms(1)] that by auto
  qed (use that in auto)
  moreover have "net_priority m \<noteq> p" if "m \<in> set (nets st)" "allows st m q" "\<not> blacklisted st q" "q \<in> set rs1" for m q
    using r(2) ps(3) no_match_prio [OF assms(1)] that by auto
  ultimately have "best_match st rs a n r"
    unfolding best_match_def list_all_iff n(3) using n(1) r(1,4)
    by (intro conjI exI [of _ rs1] exI [of _ rs2]) (auto simp: order_le_less)
  then show ?thesis using g(1) n(2) by blast
qed

lemma pick_network_best:
  assumes "sel_ok st" "results_ok st rs"
  shows "\<exists>sel x st'. wpa_supplicant_pick_network st None rs = Some (sel, x, st') \<and>
    (st' = st \<or> sl_blacklist st \<noteq> [] \<and> st' = cleared st \<and>
       list_all (\<lambda>n. list_all (\<lambda>r. allows st n r \<longrightarrow> blacklisted st r) rs) (nets st)) \<and>
    (case sel of
       None \<Rightarrow> list_all (\<lambda>n. list_all (\<lambda>r. \<not> allows st n r) rs) (nets st)
     | Some a \<Rightarrow> \<exists>n r. x = Some (n_id n) \<and> best_match st' rs a n r)"
proof -
  obtain sel x st' where s: "wpa_supplicant_pick_network st None rs = Some (sel, x, st')" "picked st' rs sel x"
    "st' = st \<or> sl_blacklist st \<noteq> [] \<and> st' = cleared st \<and> (\<forall>g \<in> set (prio_groups (nets st)). no_match st rs g)"
    "sel = None \<longrightarrow> sl_blacklist st' = []"
    using pick_network_spec [OF assms] by blast
  have ok: "sel_ok st'" "nets st' = nets st" "allows st' = allows st" using s(3) assms(1) by auto
  have "list_all (\<lambda>n. list_all (\<lambda>r. \<not> allows st n r) rs) (nets st)" if "sel = None"
  proof -
    have "\<not> blacklisted st' r" for r using s(4) that by (simp add: blacklisted_def)
    then show ?thesis using no_match_all [OF ok(1), of rs] s(2) that ok(2,3) by (simp add: picked_def)
  qed
  moreover have "\<exists>n r. x = Some (n_id n) \<and> best_match st' rs a n r" if "sel = Some a" for a
    using picked_best [OF ok(1)] s(2) that by blast
  ultimately show ?thesis using s(1,3) no_match_all [OF assms(1)] by (auto split: option.split)
qed

text \<open>
  C4. Selection is complete and takes the best network. The configuration is consistent (\<open>sel_ok\<close>: valid WEP key indices,
  distinct networks, priority groups up to date), the elements of the scan results are complete, and every result that
  a network allows passes the BSSID filter and has its entry in the BSS table (\<open>results_ok\<close>, which taking over the
  results of a scan establishes as long as the table has room). The last condition is needed: a result without an
  entry ends the search, also when a later one matches (\<open>wpa_supplicant_pick_network_hidden\<close>). Then the search over the
  priority groups and scan results ends without fault. It selects nothing exactly when no enabled network of the configuration allows any of the access points found; the
  blacklist does not change that, because it is cleared before the search gives up. Otherwise it returns the entry
  of the BSS table for an access point that the reported network allows (SSID, BSSID, a common protocol, pairwise
  cipher, group cipher and key management, privacy, frequency and rates), no network of a higher priority allows an
  access point that is not blacklisted, and among the networks of that priority none allows an earlier scan result.
\<close>

theorem wpa_supplicant_pick_network_best:
  assumes "sel_ok st" "results_ok st rs"
  shows "\<exists>sel x st'. wpa_supplicant_pick_network st None rs = Some (sel, x, st') \<and>
    (st' = st \<or> sl_blacklist st \<noteq> [] \<and> st' = cleared st \<and>
       list_all (\<lambda>n. list_all (\<lambda>r. allows st n r \<longrightarrow> blacklisted st r) rs) (nets st)) \<and>
    (case sel of
       None \<Rightarrow> list_all (\<lambda>n. list_all (\<lambda>r. \<not> allows st n r) rs) (nets st)
     | Some a \<Rightarrow> \<exists>n r. x = Some (n_id n) \<and> best_match st' rs a n r)"
  using assms by (rule pick_network_best)

section \<open>Two ways to go wrong\<close>

text \<open>
  C22. The index of the default WEP key is not checked. \<open>wpa_config_set\<close> accepts every number for \<open>wep_tx_keyidx\<close>; with
  one that is not an index of the four keys, matching a network without WPA against any scan result reads
  outside the array of key lengths.
\<close>

theorem wep_tx_keyidx_overread:
  assumes "- (2 ^ 31) \<le> v" "v < 2 ^ 31" "v < 0 \<or> 4 \<le> v" "length (n_wep_key_len n) = 4"
    "n_key_mgmt n AND WPA_KEY_MGMT_NONE \<noteq> 0" "\<not> wpa_key_mgmt_wpa (n_key_mgmt n)"
  shows "\<exists>n'. wpa_config_set al ms n ''wep_tx_keyidx'' (Some (fmt_d v)) = Some (0, n') \<and>
    wpa_supplicant_ssid_bss_match n' r = None"
proof -
  have "atoi (fmt_d v) = Some v" by (rule atoi_fmt_d) (use assms in simp_all)
  then have "wpa_config_set al ms n ''wep_tx_keyidx'' (Some (fmt_d v)) = Some (0, n\<lparr>n_int := (n_int n)(''wep_tx_keyidx'' := v)\<rparr>)"
    by (simp add: wpa_config_set_def find_field_def ssid_fields_def run_parser_def wpa_config_parse_int_def)
  then show ?thesis
    using assms(3-6) by (auto simp: wpa_supplicant_ssid_bss_match_def wep_allowed_def wep_tx_key_len_def Let_def)
qed

lemma bss_get_oversize:
  assumes "bss_inv s" "length bssid = 6" "32 < len"
  shows "wpa_bss_get s bssid ssid len = Some None"
proof -
  have "same_bss bssid ssid len b = Some False" if "bss_heap s a = Some b" for a b
  proof -
    have "bss_wf b" using that assms(1) unfolding bss_inv_def by blast
    then have "length (b_bssid b) = 6" "b_ssid_len b \<noteq> len" using assms(3) by (auto simp: bss_wf_def)
    then show ?thesis using assms(2) by (simp add: same_bss_def memeq_Some ETH_ALEN_def)
  qed
  then have "bss_find (same_bss bssid ssid len) s (bss s) = Some (find (\<lambda>_. False) (bss s))"
    by (intro bss_find_spec) (use bss_inv_deref [OF assms(1)] in metis)
  then show ?thesis using assms by (simp add: wpa_bss_get_def filter_match_spec find_None_iff)
qed

text \<open>
  An access point can hide all others. A scan result that a network allows but that is not in the BSS table (its
  SSID is longer than 32 octets, so that it was not stored) ends the search of its priority group: with networks of one
  priority nothing is selected, whatever the other access points are.
\<close>

lemma wpa_supplicant_pick_network_hidden:
  assumes "sel_ok st" "res_wf r" "n \<in> set (nets st)" "allows st n r" "res_elem r WLAN_EID_SSID = Some ssid" "32 < length ssid"
    "list_all (\<lambda>m. net_priority m = net_priority n) (nets st)" "sl_blacklist st = []"
  shows "\<exists>x. wpa_supplicant_pick_network st None (r # rs) = Some (None, x, st)"
proof -
  have "net_priority ` set (nets st) = {net_priority n}" using assms(3,7) unfolding list_all_iff by blast
  then have g: "c_pssid (conf (sl_wpa st)) = [ids_of_prio (nets st) (net_priority n)]"
    using assms(1) by (simp add: sel_ok_def prio_groups_def)
  let ?g = "ids_of_prio (nets st) (net_priority n)"
  have m: "wpa_scan_res_match st r ?g = Some (find (\<lambda>i. good st i r) ?g)"
    by (rule scan_res_match_spec [OF assms(1,2)]) (auto simp: ids_of_prio_def)
  have "good st (n_id n) r"
    using assms(4,8) net_id [OF assms(1,3)] by (simp add: good_def net_def blacklisted_def)
  moreover have "n_id n \<in> set ?g" using assms(3) by (auto simp: ids_of_prio_def)
  ultimately obtain i where i: "find (\<lambda>i. good st i r) ?g = Some i"
    by (cases "find (\<lambda>i. good st i r) ?g") (auto simp: find_None_iff)
  obtain q where q: "wpa_scan_get_ie r 0 = Some q" "placed (r_ies r) q 0 (res_elem r 0)"
    using get_ie_placed [OF assms(2)] by blast
  have "wpa_bss_get (sl_wpa st) (r_bssid r) d (length ssid) = Some None" for d
    using bss_get_oversize [OF _ _ assms(6)] assms(1,2) by (simp add: sel_ok_def res_wf_def)
  then have "wpa_supplicant_select_bss st None (r # rs) ?g = Some (None, Some i)"
    using m i q(1) ie_len_placed [OF q(2)] assms(5) by simp
  then show ?thesis using g assms(8) by (subst wpa_supplicant_pick_network.simps) simp
qed

section \<open>Examples\<close>

text \<open>An open network and one access point for it, which is in the table.\<close>

definition open_net :: wpa_ssid where
  "open_net = zero_ssid\<lparr>n_ssid := Some [72, 105], n_ssid_len := 2, n_key_mgmt := 4\<rparr>"

definition sel_state :: "wpa_ssid \<Rightarrow> selector" where
  "sel_state n = \<lparr>sl_wpa = zero_state\<lparr>conf := zero_conf\<lparr>c_ssid := [n], c_pssid := [[n_id n]]\<rparr>,
       bss_heap := [100 \<mapsto> zero_bss\<lparr>b_bssid := [2, 0, 0, 0, 0, 7], b_ssid := [72, 105] @ replicate 30 0, b_ssid_len := 2\<rparr>],
       bss := [100], bss_id := [100], num_bss := 1\<rparr>,
     sl_blacklist = [], sl_blacklist_cleared = 0, sl_wpa_state = WPA_SCANNING, sl_current_ssid = None,
     sl_new_connection = True, sl_reassociated_connection = False, sl_scanning = False, sl_scan_interval = 5,
     sl_drv_flags = 0, sl_hw_modes = None, sl_log = []\<rparr>"

lemma sel_state_sel:
  "sl_wpa_state (sel_state n) = WPA_SCANNING" "sl_blacklist (sel_state n) = []" "sl_hw_modes (sel_state n) = None"
  "nets (sel_state n) = [n]" "bss (sl_wpa (sel_state n)) = [100]" "bssid_filter (sl_wpa (sel_state n)) = None"
  by (simp_all add: sel_state_def nets_def zero_state_def)

lemma sel_state_ok:
  assumes "net_ok n" "case n_ssid n of None \<Rightarrow> True | Some s \<Rightarrow> n_ssid_len n \<le> length s"
  shows "sel_ok (sel_state n)"
proof -
  have "bss_inv (sl_wpa (sel_state n))"
    using assms(2) by (simp add: sel_state_def bss_inv_def zero_state_def zero_conf_def conf_wf_def bss_wf_def zero_bss_def)
  then show ?thesis using assms(1)
    by (simp add: sel_ok_def sel_state_sel modes_ok_def prio_groups_def ids_of_prio_def) (simp add: sel_state_def)
qed

lemma open_net_ok: "net_ok open_net" "sel_ok (sel_state open_net)"
proof -
  show n: "net_ok open_net" by (simp add: net_ok_def open_net_def zero_ssid_def)
  show "sel_ok (sel_state open_net)" by (rule sel_state_ok [OF n]) (simp add: open_net_def)
qed

lemma demo_res_elems:
  "res_elem demo_res 0 = Some [72, 105]" "res_elem demo_res 48 = None" "res_vendor demo_res v = None"
  by (simp_all add: res_elem_def res_vendor_def demo_res_def is_vendor_def)

lemma open_net_allows: "allows (sel_state n) open_net demo_res"
  by (simp add: allows_def demo_res_elems ssid_fits_def has_wpa_def secure_def open_net_def zero_ssid_def
      wpa_key_mgmt_wpa_def wpa_key_mgmt_wpa_ieee8021x_def wpa_key_mgmt_wpa_psk_def wpa_supplicant_match_privacy_def
      freq_allowed_def rates_fit_def sel_state_sel list_ex_iff) (simp add: demo_res_def)

lemma demo_results_ok: "results_ok (sel_state open_net) [demo_res]"
proof -
  have "entry_of (sel_state open_net) 100 demo_res"
    by (simp add: entry_of_def demo_res_elems) (simp add: sel_state_def zero_state_def has_key_def ssid_of_def demo_res_def zero_bss_def)
  then have "in_table (sel_state open_net) demo_res"
    using demo_res_elems(1) by (auto simp: in_table_def filter_admits_def sel_state_sel)
  then show ?thesis using demo_wf(3) by (simp add: results_ok_def)
qed

lemma wpa_supplicant_pick_network_best_witness:
  "\<exists>st' a n. wpa_supplicant_pick_network (sel_state open_net) None [demo_res] = Some (Some a, Some (n_id n), st') \<and>
     best_match st' [demo_res] a n demo_res"
proof -
  obtain sel x st' where s: "wpa_supplicant_pick_network (sel_state open_net) None [demo_res] = Some (sel, x, st')"
    "case sel of None \<Rightarrow> list_all (\<lambda>n. list_all (\<lambda>r. \<not> allows (sel_state open_net) n r) [demo_res]) (nets (sel_state open_net))
     | Some a \<Rightarrow> \<exists>n r. x = Some (n_id n) \<and> best_match st' [demo_res] a n r"
    using wpa_supplicant_pick_network_best [OF open_net_ok(2) demo_results_ok] by blast
  moreover have "sel \<noteq> None" using s(2) open_net_allows by (cases sel) (simp_all add: sel_state_sel)
  moreover have "r = demo_res" if "best_match st' [demo_res] a n r" for a n r
    using that by (auto simp: best_match_def Cons_eq_append_conv)
  ultimately show ?thesis by fastforce
qed

lemma wep_tx_keyidx_overread_witness:
  "\<exists>n'. wpa_config_set (\<lambda>_. True) [] open_net ''wep_tx_keyidx'' (Some (fmt_d (-1))) = Some (0, n') \<and>
    wpa_supplicant_ssid_bss_match n' demo_res = None"
  by (rule wep_tx_keyidx_overread) (simp_all add: open_net_def zero_ssid_def wpa_key_mgmt_wpa_def
      wpa_key_mgmt_wpa_ieee8021x_def wpa_key_mgmt_wpa_psk_def)

text \<open>A network for any open access point, and one with an SSID of 40 octets.\<close>

definition any_net :: wpa_ssid where
  "any_net = zero_ssid\<lparr>n_key_mgmt := 4\<rparr>"

definition long_res :: wpa_scan_res where
  "long_res = demo_res\<lparr>r_ie_len := 42, r_ies := [0, 40] @ replicate 40 65\<rparr>"

end
