(* ===== verification/Scan_Event.thy ===== *)
theory Scan_Event
  imports Network_Select Anqp_Fetch "HOL-Library.Multiset"
begin

text \<open>
  What happens when a scan is complete: src/wpa_supplicant/scan.c gets the results from the driver, drops those that
  the BSSID filter excludes, sorts them and enters them into the BSS table; src/wpa_supplicant/events.c then selects a
  network (\<open>Network_Select\<close>), decides whether to leave the current access point for it, and starts the association or
  schedules another scan.

  \<open>wpa_supplicant_event_scan_results\<close> is the handler of one interface (\<open>_wpa_supplicant_event_scan_results\<close>). Left out
  are the loop that hands the results to other interfaces of the same radio, and the calls of
  \<open>random_add_randomness\<close>, which mix the first ten results into the entropy pool and touch no state of the selection.

  \<open>qsort\<close> of the C library is an argument. All that is asked of it is that its result is a permutation of its input,
  because the comparison of the code is not an order (\<open>wpa_scan_result_compar_cyclic\<close>).
\<close>

section \<open>Scan results\<close>

definition snr_pair :: "wpa_scan_res \<Rightarrow> wpa_scan_res \<Rightarrow> int \<times> int" where
  "snr_pair wa wb =
     (if r_flags wa AND r_flags wb AND 8 \<noteq> 0 \<and> (r_flags wa OR r_flags wb) AND 2 = 0
      then let a = r_level wa - r_noise wa; b = r_level wb - r_noise wb
           in (if a < 30 then a else 30, if b < 30 then b else 30)
      else (r_level wa, r_level wb))"

definition is_wpa :: "wpa_scan_res \<Rightarrow> bool option" where
  "is_wpa r = do {
     v \<leftarrow> wpa_scan_get_vendor_ie r WPA_IE_VENDOR_TYPE;
     if v \<noteq> None then Some True else do { q \<leftarrow> wpa_scan_get_ie r WLAN_EID_RSN; Some (q \<noteq> None) } }"

text \<open>A positive result says that \<open>wb\<close> is better.\<close>

definition wpa_scan_result_compar :: "wpa_scan_res \<Rightarrow> wpa_scan_res \<Rightarrow> int option" where
  "wpa_scan_result_compar wa wb = do {
     wpa_a \<leftarrow> is_wpa wa;
     wpa_b \<leftarrow> is_wpa wb;
     let priv_a = r_caps wa AND IEEE80211_CAP_PRIVACY \<noteq> 0;
     let priv_b = r_caps wb AND IEEE80211_CAP_PRIVACY \<noteq> 0;
     if wpa_b \<and> \<not> wpa_a then Some 1
     else if \<not> wpa_b \<and> wpa_a then Some (-1)
     else if \<not> priv_a \<and> priv_b then Some 1
     else if priv_a \<and> \<not> priv_b then Some (-1)
     else do {
       let (snr_a, snr_b) = snr_pair wa wb;
       let by_snr = (if snr_b = snr_a then r_qual wb - r_qual wa else snr_b - snr_a);
       if snr_a \<noteq> 0 \<and> snr_b \<noteq> 0 \<and> \<bar>snr_b - snr_a\<bar> < 5 \<or> r_qual wa \<noteq> 0 \<and> r_qual wb \<noteq> 0 \<and> \<bar>r_qual wb - r_qual wa\<bar> < 10
       then do {
         maxrate_a \<leftarrow> wpa_scan_get_max_rate wa;
         maxrate_b \<leftarrow> wpa_scan_get_max_rate wb;
         if maxrate_a \<noteq> maxrate_b then Some (maxrate_b - maxrate_a)
         else if (4000 < r_freq wa) \<noteq> (4000 < r_freq wb) then Some (if 4000 < r_freq wa then -1 else 1)
         else Some by_snr }
       else Some by_snr } }"

fun filter_scan_res :: "wpa_supplicant \<Rightarrow> wpa_scan_res list \<Rightarrow> wpa_scan_res list option" where
  "filter_scan_res s [] = Some []"
| "filter_scan_res s (r # rs) = do {
     m \<leftarrow> wpa_supplicant_filter_bssid_match s (r_bssid r);
     rs \<leftarrow> filter_scan_res s rs;
     Some (if m then r # rs else rs) }"

type_synonym qsort = "(wpa_scan_res \<Rightarrow> wpa_scan_res \<Rightarrow> int option) \<Rightarrow> wpa_scan_res list \<Rightarrow> wpa_scan_res list option"

text \<open>
  What the surroundings provide: the results of the driver, the sorting function, the allocator (given the heap, an
  address that is not in use), memory for the comparison of elements, the time, what was scanned, and for the steps
  after the selection whether the timer could be set, whether a scheduled scan could be started and whether the WPA
  state machine looks for preauthentication candidates.
\<close>

record scan_env =
  se_results :: "wpa_scan_res list option"
  se_qsort :: qsort
  se_alloc :: "(ptr \<Rightarrow> wpa_bss option) \<Rightarrow> ptr option"
  se_cmp :: bool
  se_now :: os_time
  se_info :: "scan_info option"
  se_timer :: bool
  se_sched :: bool
  se_preauth :: bool
  se_iw :: iw_env

fun update_loop :: "scan_env \<Rightarrow> wpa_supplicant \<Rightarrow> wpa_scan_res list \<Rightarrow> wpa_supplicant option" where
  "update_loop env s [] = Some s"
| "update_loop env s (r # rs) = do {
     s \<leftarrow> wpa_bss_update_scan_res (se_alloc env (bss_heap s)) (se_cmp env) (se_cmp env) (se_alloc env (bss_heap s)) (se_now env) s r;
     update_loop env s rs }"

definition wpa_supplicant_get_scan_results ::
  "scan_env \<Rightarrow> bool \<Rightarrow> wpa_supplicant \<Rightarrow> (wpa_scan_res list option \<times> wpa_supplicant) option" where
  "wpa_supplicant_get_scan_results env new_scan s = (case se_results env of
     None \<Rightarrow> Some (None, s)
   | Some rs \<Rightarrow> do {
       rs \<leftarrow> filter_scan_res s rs;
       rs \<leftarrow> se_qsort env wpa_scan_result_compar rs;
       s \<leftarrow> update_loop env (wpa_bss_update_start s) rs;
       s \<leftarrow> wpa_bss_update_end s (se_info env) new_scan;
       Some (Some rs, s) })"

section \<open>Roaming and connecting\<close>

definition wpas_driver_bss_selection :: "selector \<Rightarrow> bool" where
  "wpas_driver_bss_selection st \<longleftrightarrow> c_ap_scan (conf (sl_wpa st)) = 2 \<or> sl_drv_flags st AND 0x00040000 \<noteq> 0"

fun find_current :: "selector \<Rightarrow> wpa_ssid \<Rightarrow> wpa_scan_res list \<Rightarrow> wpa_scan_res option option" where
  "find_current st n [] = Some None"
| "find_current st n (r # rs) =
     (if r_bssid r \<noteq> cur_bssid (sl_wpa st) then find_current st n rs
      else do {
        ie \<leftarrow> wpa_scan_get_ie r WLAN_EID_SSID;
        (case ie of
           None \<Rightarrow> find_current st n rs
         | Some p \<Rightarrow> do {
             l \<leftarrow> rd (r_ies r) (p + 1);
             same \<leftarrow> (if unat l \<noteq> n_ssid_len n then Some False
                     else memeq (drop (p + 2) (r_ies r)) (case n_ssid n of None \<Rightarrow> [] | Some s \<Rightarrow> s) (unat l));
             if same then Some (Some r) else find_current st n rs }) })"

definition min_diff :: "int \<Rightarrow> int" where
  "min_diff level = (if level < 0 then
     (if level < -85 then 1 else if level < -80 then 2 else if level < -75 then 3 else if level < -70 then 4 else 5)
     else 2)"

definition wpa_supplicant_need_to_roam :: "selector \<Rightarrow> ptr \<Rightarrow> int option \<Rightarrow> wpa_scan_res list \<Rightarrow> bool option" where
  "wpa_supplicant_need_to_roam st selected ssid rs =
     (if reassociate (sl_wpa st) \<or> sl_wpa_state st < WPA_ASSOCIATED then Some True
      else case sl_current_ssid st of
        None \<Rightarrow> Some True
      | Some i \<Rightarrow>
          if ssid \<noteq> Some i then Some True
          else if wpas_driver_bss_selection st then Some False
          else do {
            n \<leftarrow> wpa_config_get_network (conf (sl_wpa st)) i;
            cur \<leftarrow> find_current st n rs;
            (case cur of
               None \<Rightarrow> Some True
             | Some c \<Rightarrow> do {
                 b \<leftarrow> deref (sl_wpa st) selected;
                 if n_bssid_set n \<and> b_bssid b = n_bssid n then Some True
                 else Some (\<not> \<bar>r_level c - b_level b\<bar> < min_diff (r_level c)) }) })"

definition wpa_supplicant_notify_scanning :: "bool \<Rightarrow> selector \<Rightarrow> selector" where
  "wpa_supplicant_notify_scanning scanning st =
     (if sl_scanning st \<noteq> scanning then sel_emit (Notify_scanning scanning) (st\<lparr>sl_scanning := scanning\<rparr>) else st)"

definition wpa_supplicant_set_state :: "wpa_states \<Rightarrow> selector \<Rightarrow> selector" where
  "wpa_supplicant_set_state state st =
     (let old = sl_wpa_state st;
          st = (if state \<noteq> WPA_SCANNING then wpa_supplicant_notify_scanning False st else st);
          st = (if state = WPA_COMPLETED \<and> sl_new_connection st
                then sel_emit (Set_operstate True)
                       ((sel_emit (Connected (cur_bssid (sl_wpa st)) (sl_current_ssid st)) st)
                          \<lparr>sl_new_connection := False, sl_reassociated_connection := True\<rparr>)
                else if state \<in> {WPA_DISCONNECTED, WPA_ASSOCIATING, WPA_ASSOCIATED}
                then sel_emit (Set_operstate False) (st\<lparr>sl_new_connection := True\<rparr>)
                else st);
          st = st\<lparr>sl_wpa_state := state\<rparr>
      in if state = old then st
         else let st = sel_emit (Notify_state state old) st
              in if state = WPA_COMPLETED \<or> old = WPA_COMPLETED then sel_emit Notify_auth_changed st else st)"

definition wpa_supplicant_req_new_scan :: "scan_env \<Rightarrow> u32 \<Rightarrow> selector \<Rightarrow> selector" where
  "wpa_supplicant_req_new_scan env sec st =
     (if wpa_supplicant_enabled_networks (conf (sl_wpa st)) = 0 then wpa_supplicant_set_state WPA_INACTIVE st
      else st\<lparr>sl_wpa := wpa_supplicant_req_scan (se_timer env) (Some (se_now env)) sec 0 (sl_wpa st)\<rparr>)"

definition wpa_supplicant_connect :: "ptr \<Rightarrow> int \<Rightarrow> selector \<Rightarrow> selector option" where
  "wpa_supplicant_connect selected ssid st = do {
     b \<leftarrow> deref (sl_wpa st) selected;
     Some (if reassociate (sl_wpa st) \<or>
              b_bssid b \<noteq> cur_bssid (sl_wpa st) \<and>
              (sl_wpa_state st \<noteq> WPA_ASSOCIATING \<and> sl_wpa_state st \<noteq> WPA_AUTHENTICATING \<or>
               b_bssid b \<noteq> pending_bssid (sl_wpa st))
           then sel_emit (Associate (Some selected) ssid) st else st) }"

fun new_network_in :: "wpa_config \<Rightarrow> int list \<Rightarrow> int option option" where
  "new_network_in c [] = Some None"
| "new_network_in c (i # g) = do {
     n \<leftarrow> wpa_config_get_network c i;
     if n_int n ''disabled'' = 0 \<and> (n_int n ''mode'' = 1 \<or> n_int n ''mode'' = 2) then Some (Some i)
     else new_network_in c g }"

fun new_network_loop :: "wpa_config \<Rightarrow> int list list \<Rightarrow> int option option" where
  "new_network_loop c [] = Some None"
| "new_network_loop c (g # gs) = do {
     r \<leftarrow> new_network_in c g;
     if r \<noteq> None then Some r else new_network_loop c gs }"

definition wpa_supplicant_pick_new_network :: "wpa_config \<Rightarrow> int option option" where
  "wpa_supplicant_pick_new_network c = new_network_loop c (c_pssid c)"

fun preauth_loop :: "selector \<Rightarrow> ptr list \<Rightarrow> selector option" where
  "preauth_loop st [] = Some st"
| "preauth_loop st (a # as) = do {
     b \<leftarrow> deref (sl_wpa st) a;
     ssid \<leftarrow> wpa_bss_get_ie b WLAN_EID_SSID;
     if ssid = None then preauth_loop st as
     else do {
       rsn \<leftarrow> wpa_bss_get_ie b WLAN_EID_RSN;
       preauth_loop (if rsn = None then st else sel_emit (Preauth_candidate (b_bssid b)) st) as } }"

definition wpa_supplicant_rsn_preauth_scan_results :: "scan_env \<Rightarrow> selector \<Rightarrow> selector option" where
  "wpa_supplicant_rsn_preauth_scan_results env st =
     (if \<not> se_preauth env then Some st else preauth_loop st (bss (sl_wpa st)))"

text \<open>The part after the results were taken over. The first component of the result is the return value.\<close>

definition choose_network :: "scan_env \<Rightarrow> wpa_scan_res list \<Rightarrow> selector \<Rightarrow> (int \<times> selector) option" where
  "choose_network env rs st = do {
     (sel, ssid, st) \<leftarrow> wpa_supplicant_pick_network st None rs;
     (case sel of
        Some selected \<Rightarrow> do {
          roam \<leftarrow> wpa_supplicant_need_to_roam st selected ssid rs;
          i \<leftarrow> ssid;
          st \<leftarrow> (if roam then wpa_supplicant_connect selected i st else Some st);
          st \<leftarrow> wpa_supplicant_rsn_preauth_scan_results env st;
          Some (0, st) }
      | None \<Rightarrow> do {
          new \<leftarrow> wpa_supplicant_pick_new_network (conf (sl_wpa st));
          (case new of
             Some i \<Rightarrow> do {
               st \<leftarrow> wpa_supplicant_rsn_preauth_scan_results env (sel_emit (Associate None i) st);
               Some (0, st) }
           | None \<Rightarrow>
               let st = sel_emit Req_sched_scan st
               in Some (0, if se_sched env then st else wpa_supplicant_req_new_scan env (sl_scan_interval st) st)) }) }"

definition wpa_supplicant_event_scan_results :: "scan_env \<Rightarrow> selector \<Rightarrow> (int \<times> selector) option" where
  "wpa_supplicant_event_scan_results env st = do {
     let st = wpa_supplicant_notify_scanning False st;
     (res, s) \<leftarrow> wpa_supplicant_get_scan_results env True (sl_wpa st);
     let st = st\<lparr>sl_wpa := s\<rparr>;
     (case res of
        None \<Rightarrow> Some (-1, if c_ap_scan (conf s) = 2 then st else wpa_supplicant_req_new_scan env 1 st)
      | Some rs \<Rightarrow>
          if scan_res_handler s \<noteq> None then do {
            s \<leftarrow> interworking_scan_res_handler (se_iw env) (s\<lparr>scan_res_handler := None\<rparr>);
            Some (0, st\<lparr>sl_wpa := s\<rparr>) }
          else let st = sel_emit (Notify_scan_done True) (sel_emit Notify_scan_results st) in
            if c_ap_scan (conf s) = 2 then Some (0, st)
            else if disconnected s then Some (0, wpa_supplicant_set_state WPA_DISCONNECTED st)
            else choose_network env rs st) }"

section \<open>Taking over the results\<close>

lemma filter_scan_res_spec:
  assumes "bss_inv s" "list_all res_wf rs"
  shows "filter_scan_res s rs = Some (filter (\<lambda>r. filter_admits s (r_bssid r)) rs)"
  using assms(2) by (induction rs) (simp_all add: filter_match_spec [OF assms(1)] res_wf_def)

lemma max_rate_of_total:
  assumes "placed mem q i pl"
  shows "\<exists>v. max_rate_of mem q rate = Some v"
proof (cases q)
  case None
  then show ?thesis by (simp add: max_rate_of_def)
next
  case (Some p)
  then have "p + 2 + unat (mem ! (p + 1)) \<le> length mem" using assms by (auto simp: placed_def)
  then show ?thesis using Some max_rate_loop_spec [of "p + 2" "unat (mem ! (p + 1))" mem rate] by (simp add: max_rate_of_def rd_def)
qed

lemma scan_max_rate_total:
  assumes "res_wf r"
  shows "\<exists>c. wpa_scan_get_max_rate r = Some c"
proof -
  obtain q1 where q1: "wpa_scan_get_ie r WLAN_EID_SUPP_RATES = Some q1" "\<exists>v. max_rate_of (r_ies r) q1 0 = Some v"
    using get_ie_placed [OF assms, of WLAN_EID_SUPP_RATES] max_rate_of_total by blast
  obtain q2 where q2: "wpa_scan_get_ie r WLAN_EID_EXT_SUPP_RATES = Some q2" "\<forall>x. \<exists>v. max_rate_of (r_ies r) q2 x = Some v"
    using get_ie_placed [OF assms, of WLAN_EID_EXT_SUPP_RATES] max_rate_of_total by blast
  show ?thesis using q1 q2 by (auto simp: wpa_scan_get_max_rate_def)
qed

lemma is_wpa_total: "res_wf r \<Longrightarrow> \<exists>b. is_wpa r = Some b"
  using get_vendor_ie_placed [of r WPA_IE_VENDOR_TYPE] get_ie_placed [of r WLAN_EID_RSN] by (auto simp: is_wpa_def)

lemma compar_total:
  assumes "res_wf wa" "res_wf wb"
  shows "\<exists>c. wpa_scan_result_compar wa wb = Some c"
  using is_wpa_total [OF assms(1)] is_wpa_total [OF assms(2)] scan_max_rate_total [OF assms(1)] scan_max_rate_total [OF assms(2)]
  by (auto simp: wpa_scan_result_compar_def Let_def split: prod.split)

text \<open>What the processing of scan results leaves alone.\<close>

definition scan_frame :: "wpa_supplicant \<Rightarrow> _" where
  "scan_frame s = (conf s, cur_bssid s, pending_bssid s, current_bss s, reassociate s, disconnected s,
     scan_res_handler s, bssid_filter s, bss_update_idx s)"

lemma bss_remove_frame: "wpa_bss_remove s a = Some s' \<Longrightarrow> scan_frame s' = scan_frame s"
  by (auto simp: wpa_bss_remove_def scan_frame_def Let_def notify_def split: if_splits bind_splits)

lemma remove_unknown_frame: "remove_unknown_loop s as = Some (k, s') \<Longrightarrow> scan_frame s' = scan_frame s"
  by (induction as) (auto simp: bss_remove_frame split: if_splits bind_splits)

lemma remove_oldest_frame: "wpa_bss_remove_oldest s = Some s' \<Longrightarrow> scan_frame s' = scan_frame s"
  by (auto simp: wpa_bss_remove_oldest_def wpa_bss_remove_oldest_unknown_def
      dest!: bss_remove_frame remove_unknown_frame split: if_splits bind_splits list.splits)

lemma notify_changes_frame [simp]: "scan_frame (notify_bss_changes s c b) = scan_frame s"
  by (simp add: scan_frame_def notify_bss_changes_def note_if_def Let_def notify_def)

lemma notify_frame [simp]: "scan_frame (notify e s) = scan_frame s"
  by (simp add: scan_frame_def notify_def)

lemma added_frame: "scan_frame (s\<lparr>bss_next_id := i, bss_heap := h, bss := l, bss_id := k, num_bss := n\<rparr>) = scan_frame s"
  by (simp add: scan_frame_def)

lemma bss_add_frame:
  assumes "wpa_bss_add alloc now s ssid n r = Some s'"
  shows "scan_frame s' = scan_frame s"
proof (cases alloc)
  case None
  then show ?thesis using assms by (simp add: wpa_bss_add_def)
next
  case (Some a)
  show ?thesis
    using assms unfolding wpa_bss_add_def Some option.case Let_def bind_eq_Some_conv
    by (elim exE conjE) (auto simp: added_frame dest!: remove_oldest_frame split: if_splits)
qed

lemma bss_update_frame:
  assumes "wpa_bss_update ok1 ok2 realloc now s a r = Some s'"
  shows "scan_frame s' = scan_frame s"
proof -
  have "scan_frame (s\<lparr>bss_heap := h, bss := l\<rparr>) = scan_frame s" "scan_frame (s\<lparr>bss_heap := h, bss := l, bss_id := i\<rparr>) = scan_frame s" for h l i
    by (simp_all add: scan_frame_def)
  with assms show ?thesis
    unfolding wpa_bss_update_def Let_def bind_eq_Some_conv
    by (elim exE conjE) (auto simp: bind_eq_Some_conv split: if_splits option.splits)
qed

lemma update_scan_res_frame:
  "wpa_bss_update_scan_res alloc ok1 ok2 realloc now s r = Some s' \<Longrightarrow> scan_frame s' = scan_frame s"
  unfolding wpa_bss_update_scan_res_def bind_eq_Some_conv
  by (elim exE conjE) (auto simp: bind_eq_Some_conv dest: bss_add_frame bss_update_frame split: option.splits if_splits)

lemma update_end_frame: "update_end_loop info s as = Some s' \<Longrightarrow> scan_frame s' = scan_frame s"
proof (induction as arbitrary: s)
  case (Cons a as)
  have "scan_frame (s\<lparr>bss_heap := h\<rparr>) = scan_frame s" for h by (simp add: scan_frame_def)
  with Cons show ?case by (auto simp: Let_def dest!: Cons.IH bss_remove_frame split: if_splits bind_splits)
qed simp

text \<open>What is asked of the surroundings. The sorting function permutes the array if the comparison does not fault.\<close>

definition qsort_ok :: "qsort \<Rightarrow> bool" where
  "qsort_ok q \<longleftrightarrow> (\<forall>cmp rs. (\<forall>x \<in> set rs. \<forall>y \<in> set rs. cmp x y \<noteq> None) \<longrightarrow> (\<exists>rs'. q cmp rs = Some rs' \<and> mset rs' = mset rs))"

text \<open>Memory suffices for \<open>k\<close> entries of the table.\<close>

definition mem_ok :: "scan_env \<Rightarrow> nat \<Rightarrow> bool" where
  "mem_ok env k \<longleftrightarrow> (\<forall>h. card (dom h) \<le> k \<longrightarrow> se_alloc env h \<noteq> None)"

definition env_ok :: "scan_env \<Rightarrow> bool" where
  "env_ok env \<longleftrightarrow> qsort_ok (se_qsort env) \<and> info_wf (se_info env) \<and> (\<forall>h a. se_alloc env h = Some a \<longrightarrow> h a = None)"

lemma update_loop_inv:
  assumes "env_ok env" "bss_inv s" "list_all res_wf rs"
  shows "\<exists>s'. update_loop env s rs = Some s' \<and> bss_inv s' \<and> scan_frame s' = scan_frame s \<and>
    num_bss s' \<le> max (num_bss s) (c_bss_max_count (conf s))"
  using assms(2,3)
proof (induction rs arbitrary: s)
  case (Cons r rs)
  have wf: "res_wf r" using Cons.prems(2) by simp
  have al: "alloc_ok s (se_alloc env (bss_heap s))" "realloc_ok s r (se_alloc env (bss_heap s))"
    using assms(1) by (auto simp: env_ok_def alloc_ok_def realloc_ok_def split: option.split)
  obtain s1 where s1: "wpa_bss_update_scan_res (se_alloc env (bss_heap s)) (se_cmp env) (se_cmp env)
      (se_alloc env (bss_heap s)) (se_now env) s r = Some s1" "bss_inv s1"
      "num_bss s1 \<le> max (num_bss s) (c_bss_max_count (conf s))"
    using update_scan_res_inv [OF Cons.prems(1) wf al, of "se_cmp env" "se_cmp env" "se_now env"] by blast
  obtain s' where "update_loop env s1 rs = Some s'" "bss_inv s'" "scan_frame s' = scan_frame s1"
    "num_bss s' \<le> max (num_bss s1) (c_bss_max_count (conf s1))"
    using Cons.IH [OF s1(2)] Cons.prems(2) by auto
  moreover have "scan_frame s1 = scan_frame s" using s1(1) by (rule update_scan_res_frame)
  ultimately show ?case using s1(1,3) by (auto simp: scan_frame_def)
qed simp

lemma keys_unique_moved:
  assumes "keys_unique s" "bss s' = l @ [p]" "has_key s' bssid ssid p" "set l \<subseteq> set (bss s)"
    and "\<forall>a \<in> set l. bss_heap s' a = bss_heap s a \<and> \<not> has_key s bssid ssid a"
  shows "keys_unique s'"
proof -
  let ?k = "\<lambda>s a. (b_bssid (the (bss_heap s a)), ssid_of (the (bss_heap s a)))"
  have "inj_on (?k s') (set l)" using assms(1,4,5) by (auto simp: keys_unique_def inj_on_def)
  then show ?thesis
    using keys_unique_append [of "?k s'" l p] assms(2,3,5) by (auto simp: keys_unique_def has_key_def)
qed

text \<open>A scan result is represented if the entry for its key has the data of a result of this scan with the same key.\<close>

definition represented :: "wpa_supplicant \<Rightarrow> wpa_scan_res list \<Rightarrow> wpa_scan_res \<Rightarrow> bool" where
  "represented s rs r \<longleftrightarrow> (\<forall>ssid. storable r ssid \<longrightarrow> (\<exists>a b q. a \<in> set (bss s) \<and> bss_heap s a = Some b \<and> ssid_of b = ssid \<and>
     q \<in> set rs \<and> r_bssid q = r_bssid r \<and> storable q ssid \<and> reflects (bss_update_idx s) b q))"

lemma storable_unique: "storable r ssid \<Longrightarrow> storable r ssid' \<Longrightarrow> ssid' = ssid"
  by (simp add: storable_def)

lemma represented_mono: "represented s rs q \<Longrightarrow> set rs \<subseteq> set rs' \<Longrightarrow> represented s rs' q"
  unfolding represented_def by blast

lemma represented_step:
  assumes inv: "bss_inv s" "keys_unique s" "res_wf r" "filter_admits s (r_bssid r)"
    and mem: "bss_heap s a0 = None" "realloc_ok s r (Some a1)" "num_bss s < c_bss_max_count (conf s)"
  shows "\<exists>s'. wpa_bss_update_scan_res (Some a0) ok1 ok2 (Some a1) now s r = Some s' \<and> bss_inv s' \<and> keys_unique s' \<and>
    num_bss s' \<le> num_bss s + 1 \<and> represented s' (r # rs) r \<and> (\<forall>q. represented s rs q \<longrightarrow> represented s' (r # rs) q)"
proof (cases "\<exists>ssid. storable r ssid")
  case False
  then have "represented s (r # rs) r" by (simp add: represented_def)
  moreover have "\<forall>q. represented s rs q \<longrightarrow> represented s (r # rs) q" using represented_mono [OF _ set_subset_Cons] by blast
  ultimately show ?thesis
    unfolding scan_res_cases(1) [OF inv(1,3) False] using inv(1,2) by (intro exI [of _ s]) simp
next
  case True
  then obtain ssid where st: "storable r ssid" ..
  obtain s' l p b where s': "wpa_bss_update_scan_res (Some a0) ok1 ok2 (Some a1) now s r = Some s'"
    "bss_inv s'" "bss s' = l @ [p]" "bss_heap s' p = Some b" "ssid_of b = ssid"
    "reflects (bss_update_idx s) b r" "set l \<subseteq> set (bss s)"
    "\<forall>a \<in> set l. bss_heap s' a = bss_heap s a \<and> \<not> has_key s (r_bssid r) ssid a"
    "\<forall>a \<in> set (bss s). a \<notin> set l \<longrightarrow> has_key s (r_bssid r) ssid a"
    "bss_update_idx s' = bss_update_idx s" "num_bss s' \<le> num_bss s + 1"
    using update_scan_res_stored [OF inv(1-3) st inv(4) mem] by blast
  have key: "has_key s' (r_bssid r) ssid p" using s'(4-6) by (simp add: has_key_def reflects_def)
  have new: "represented s' (r # rs) q" if "r_bssid q = r_bssid r" "storable q ssid" for q
    unfolding represented_def
  proof (intro allI impI)
    fix x assume "storable q x"
    then have "x = ssid" using storable_unique [OF that(2)] by simp
    then show "\<exists>a b t. a \<in> set (bss s') \<and> bss_heap s' a = Some b \<and> ssid_of b = x \<and> t \<in> set (r # rs) \<and>
        r_bssid t = r_bssid q \<and> storable t x \<and> reflects (bss_update_idx s') b t"
      using that(1) s'(3-6,10) st by (intro exI [of _ p] exI [of _ b] exI [of _ r]) simp
  qed
  have old: "represented s' (r # rs) q" if q: "represented s rs q" for q
  proof (cases "storable q ssid \<and> r_bssid q = r_bssid r")
    case True
    then show ?thesis using new by simp
  next
    case False
    show ?thesis unfolding represented_def
    proof (intro allI impI)
      fix x assume x: "storable q x"
      then obtain a c t where a: "a \<in> set (bss s)" "bss_heap s a = Some c" "ssid_of c = x"
        "t \<in> set rs" "r_bssid t = r_bssid q" "storable t x" "reflects (bss_update_idx s) c t"
        using q by (auto simp: represented_def)
      have "\<not> has_key s (r_bssid r) ssid a" using a False x by (auto simp: has_key_def reflects_def)
      then have "a \<in> set l" using s'(9) a(1) by blast
      then show "\<exists>a b t. a \<in> set (bss s') \<and> bss_heap s' a = Some b \<and> ssid_of b = x \<and> t \<in> set (r # rs) \<and>
          r_bssid t = r_bssid q \<and> storable t x \<and> reflects (bss_update_idx s') b t"
        using a s'(3,8,10) by (intro exI [of _ a] exI [of _ c] exI [of _ t]) simp
    qed
  qed
  show ?thesis
    using s'(1,2,11) keys_unique_moved [OF inv(2) s'(3) key s'(7,8)] new [OF _ st] old by (intro exI [of _ s']) simp
qed

lemma update_loop_represented:
  assumes "env_ok env" "mem_ok env (c_bss_max_count (conf s))"
    and "bss_inv s" "keys_unique s" "list_all res_wf rs" "list_all (\<lambda>r. filter_admits s (r_bssid r)) rs"
    and "num_bss s + length rs \<le> c_bss_max_count (conf s)" "\<forall>q \<in> set qs. represented s qs q"
  shows "\<exists>s'. update_loop env s rs = Some s' \<and> bss_inv s' \<and> keys_unique s' \<and> scan_frame s' = scan_frame s \<and>
    (\<forall>q \<in> set rs \<union> set qs. represented s' (rev rs @ qs) q)"
  using assms(2-)
proof (induction rs arbitrary: s qs)
  case (Cons r rs)
  have "dom (bss_heap s) = set (bss s)" "num_bss s = card (set (bss s))"
    using Cons.prems(2) distinct_card [of "bss s"] by (simp_all add: bss_inv_def)
  then have "card (dom (bss_heap s)) \<le> c_bss_max_count (conf s)" using Cons.prems(6) by simp
  then obtain a0 where a0: "se_alloc env (bss_heap s) = Some a0" using Cons.prems(1) unfolding mem_ok_def by blast
  have al: "bss_heap s a0 = None" "realloc_ok s r (Some a0)" using a0 assms(1) by (auto simp: env_ok_def realloc_ok_def)
  have r: "res_wf r" "filter_admits s (r_bssid r)" "num_bss s < c_bss_max_count (conf s)" using Cons.prems by auto
  obtain s1 where s1: "wpa_bss_update_scan_res (Some a0) (se_cmp env) (se_cmp env) (Some a0) (se_now env) s r = Some s1"
    "bss_inv s1" "keys_unique s1" "num_bss s1 \<le> num_bss s + 1" "represented s1 (r # qs) r"
    "\<forall>q. represented s qs q \<longrightarrow> represented s1 (r # qs) q"
    using represented_step [OF Cons.prems(2,3) r(1,2) al r(3), of "se_cmp env" "se_cmp env" "se_now env" qs] by blast
  have fr: "scan_frame s1 = scan_frame s" using s1(1) by (rule update_scan_res_frame)
  then have eq: "conf s1 = conf s" "filter_admits s1 = filter_admits s"
    by (simp_all add: scan_frame_def filter_admits_def fun_eq_iff)
  have "\<exists>s'. update_loop env s1 rs = Some s' \<and> bss_inv s' \<and> keys_unique s' \<and> scan_frame s' = scan_frame s1 \<and>
    (\<forall>q \<in> set rs \<union> set (r # qs). represented s' (rev rs @ r # qs) q)"
    using Cons.prems s1 eq by (intro Cons.IH) auto
  then show ?case using a0 s1(1) fr by auto
qed simp

lemma represented_end:
  assumes "bss_inv s" "info_wf info" "0 < c_bss_expiration_scan_count (conf s)"
  shows "\<exists>s'. wpa_bss_update_end s info new_scan = Some s' \<and> bss_inv s' \<and> scan_frame s' = scan_frame s \<and>
    (\<forall>q. represented s rs q \<longrightarrow> represented s' rs q)"
proof (cases new_scan)
  case False
  then show ?thesis using assms by (simp add: wpa_bss_update_end_def)
next
  case True
  have d: "distinct (bss s)" using assms by (simp add: bss_inv_def)
  obtain s' where s': "update_end_loop info s (bss s) = Some s'" "bss_inv s'"
    "bss s' = filter (\<lambda>a. a \<notin> set (bss s) \<or> \<not> expires s info a) (bss s)"
    "\<forall>a \<in> set (bss s'). bss_heap s' a = Some (if a \<in> set (bss s) then aged s info a else the (bss_heap s a))"
    using update_end_loop_spec [OF assms(1) d subset_refl assms(2)] by blast
  have fr: "scan_frame s' = scan_frame s" using s'(1) by (rule update_end_frame)
  have keep: "a \<in> set (bss s')" "bss_heap s' a = Some b"
    if "a \<in> set (bss s)" "bss_heap s a = Some b" "reflects (bss_update_idx s) b q" for a b q
  proof -
    have "aged s info a = b" using that by (simp add: aged_def reflects_def Let_def)
    then show "a \<in> set (bss s')" "bss_heap s' a = Some b"
      using that assms(3) s'(3,4) by (auto simp: expires_def reflects_def)
  qed
  have "represented s' rs q" if q: "represented s rs q" for q
    unfolding represented_def
  proof (intro allI impI)
    fix x assume "storable q x"
    then obtain a b t where a: "a \<in> set (bss s)" "bss_heap s a = Some b" "ssid_of b = x" "t \<in> set rs"
      "r_bssid t = r_bssid q" "storable t x" "reflects (bss_update_idx s) b t"
      using q unfolding represented_def by blast
    then show "\<exists>a b t. a \<in> set (bss s') \<and> bss_heap s' a = Some b \<and> ssid_of b = x \<and> t \<in> set rs \<and>
        r_bssid t = r_bssid q \<and> storable t x \<and> reflects (bss_update_idx s') b t"
      using keep [OF a(1,2,7)] fr by (intro exI [of _ a] exI [of _ b] exI [of _ t]) (simp add: scan_frame_def)
  qed
  then show ?thesis using True s'(1,2) fr by (auto simp: wpa_bss_update_end_def)
qed

lemma get_scan_results_eq:
  assumes "env_ok env" "se_results env = Some rs" "bss_inv s" "list_all res_wf rs"
  shows "\<exists>rs'. mset rs' = mset (filter (\<lambda>r. filter_admits s (r_bssid r)) rs) \<and>
    wpa_supplicant_get_scan_results env new_scan s = do {
      s \<leftarrow> update_loop env (wpa_bss_update_start s) rs';
      s \<leftarrow> wpa_bss_update_end s (se_info env) new_scan;
      Some (Some rs', s) }"
proof -
  let ?rs = "filter (\<lambda>r. filter_admits s (r_bssid r)) rs"
  have "\<forall>x \<in> set ?rs. \<forall>y \<in> set ?rs. wpa_scan_result_compar x y \<noteq> None"
    using compar_total assms(4) by (fastforce simp: list_all_iff)
  then obtain rs' where "se_qsort env wpa_scan_result_compar ?rs = Some rs'" "mset rs' = mset ?rs"
    using assms(1) unfolding env_ok_def qsort_ok_def by blast
  then show ?thesis
    using assms(2) filter_scan_res_spec [OF assms(3,4)]
    by (intro exI [of _ rs']) (simp add: wpa_supplicant_get_scan_results_def)
qed

lemma update_start_sel:
  "bss_inv (wpa_bss_update_start s) = bss_inv s" "keys_unique (wpa_bss_update_start s) = keys_unique s"
  "num_bss (wpa_bss_update_start s) = num_bss s" "conf (wpa_bss_update_start s) = conf s"
  "filter_admits (wpa_bss_update_start s) = filter_admits s"
  "scan_frame (wpa_bss_update_start s) = scan_frame (s\<lparr>bss_update_idx := bss_update_idx s + 1\<rparr>)"
  by (simp_all add: wpa_bss_update_start_def bss_inv_def keys_unique_def filter_admits_def fun_eq_iff scan_frame_def)

lemma permuted_results:
  assumes "mset rs' = mset (filter P rs)" "list_all Q rs"
  shows "list_all Q rs'" "list_all P rs'" "length rs' \<le> length rs" "set rs' = set (filter P rs)"
proof -
  show e: "set rs' = set (filter P rs)" using assms(1) by (rule mset_eq_setD)
  then show "list_all Q rs'" "list_all P rs'" using assms(2) by (auto simp: list_all_iff)
  show "length rs' \<le> length rs" using mset_eq_length [OF assms(1)] length_filter_le [of P rs] by simp
qed

lemma get_scan_results_stored:
  assumes env: "env_ok env" "mem_ok env (c_bss_max_count (conf s))" "se_results env = Some rs"
    and inv: "bss_inv s" "keys_unique s" "list_all res_wf rs"
    and room: "num_bss s + length rs \<le> c_bss_max_count (conf s)" "0 < c_bss_expiration_scan_count (conf s)"
  shows "\<exists>rs' s'. wpa_supplicant_get_scan_results env new_scan s = Some (Some rs', s') \<and> bss_inv s' \<and>
    mset rs' = mset (filter (\<lambda>r. filter_admits s (r_bssid r)) rs) \<and> list_all (represented s' rs') rs' \<and>
    scan_frame s' = scan_frame (s\<lparr>bss_update_idx := bss_update_idx s + 1\<rparr>)"
proof -
  let ?s = "wpa_bss_update_start s"
  obtain rs' where rs': "mset rs' = mset (filter (\<lambda>r. filter_admits s (r_bssid r)) rs)"
    "wpa_supplicant_get_scan_results env new_scan s = do {
      s \<leftarrow> update_loop env ?s rs'; s \<leftarrow> wpa_bss_update_end s (se_info env) new_scan; Some (Some rs', s) }"
    using get_scan_results_eq [OF env(1,3) inv(1,3)] by blast
  note p = permuted_results [OF rs'(1) inv(3)]
  obtain s1 where s1: "update_loop env ?s rs' = Some s1" "bss_inv s1" "scan_frame s1 = scan_frame ?s"
    "\<forall>q \<in> set rs'. represented s1 (rev rs') q"
    using update_loop_represented [OF env(1), of ?s rs' "[]"] env(2) inv room(1) p by (auto simp: update_start_sel)
  have "0 < c_bss_expiration_scan_count (conf s1)" "info_wf (se_info env)"
    using s1(3) room(2) env(1) by (simp_all add: scan_frame_def wpa_bss_update_start_def env_ok_def)
  then obtain s' where s': "wpa_bss_update_end s1 (se_info env) new_scan = Some s'" "bss_inv s'" "scan_frame s' = scan_frame s1"
    "\<forall>q. represented s1 (rev rs') q \<longrightarrow> represented s' (rev rs') q"
    using represented_end [OF s1(2)] by blast
  have "list_all (represented s' rs') rs'"
    using s1(4) s'(4) represented_mono [of s' "rev rs'" _ rs'] by (simp add: list_all_iff)
  then show ?thesis using rs' s1(1,3) s' by (simp add: update_start_sel)
qed

text \<open>
  C5. After a scan the table has what was found. When memory and the table have room, taking over the results of the
  driver does not fault, for every content of the results and whatever order the sorting puts them in; the list that
  is passed on holds exactly the results that the BSSID filter admits, the table is consistent, and every one of them
  with an SSID the table can keep has an entry, also after the entries that were missing too often have expired, with
  the data of a result of this scan for the same BSSID and SSID.
\<close>

theorem wpa_supplicant_get_scan_results_stored:
  assumes "env_ok env" "mem_ok env (c_bss_max_count (conf s))" "se_results env = Some rs"
    and "bss_inv s" "keys_unique s" "list_all res_wf rs"
    and "num_bss s + length rs \<le> c_bss_max_count (conf s)" "0 < c_bss_expiration_scan_count (conf s)"
  shows "\<exists>rs' s'. wpa_supplicant_get_scan_results env new_scan s = Some (Some rs', s') \<and> bss_inv s' \<and>
    mset rs' = mset (filter (\<lambda>r. filter_admits s (r_bssid r)) rs) \<and> list_all (represented s' rs') rs'"
  using get_scan_results_stored [OF assms] by blast

section \<open>The comparison is not an order\<close>

text \<open>An open access point on the 2.4 GHz band: signal level and supported rates.\<close>

definition ap_seen :: "int \<Rightarrow> bytes \<Rightarrow> wpa_scan_res" where
  "ap_seen level rates = demo_res\<lparr>r_level := level, r_ie_len := 4 + length rates + 2,
     r_ies := [0, 2, 72, 105, 1, of_nat (length rates)] @ rates\<rparr>"

text \<open>
  C21. The comparison that scan results are sorted with is not transitive: of three open access points with levels of
  -60, -64 and -68 dBm, the rates prefer the second to the first and the third to the second because their levels are
  close, and the level prefers the first to the third. No order of the three agrees with the comparison, so which
  of them comes first, and thereby the access point that is selected, depends on the sorting algorithm.
\<close>

theorem wpa_scan_result_compar_cyclic:
  "let a = ap_seen (-60) [2]; b = ap_seen (-64) [4]; c = ap_seen (-68) [22] in
     wpa_scan_result_compar a b = Some 2 \<and> wpa_scan_result_compar b c = Some 18 \<and> wpa_scan_result_compar c a = Some 8 \<and>
     (\<nexists>rs. mset rs = mset [a, b, c] \<and> sorted_wrt (\<lambda>x y. the (wpa_scan_result_compar x y) \<le> 0) rs)"
proof -
  let ?a = "ap_seen (-60) [2]" and ?b = "ap_seen (-64) [4]" and ?c = "ap_seen (-68) [22]"
  have ab: "wpa_scan_result_compar ?a ?b = Some 2" and bc: "wpa_scan_result_compar ?b ?c = Some 18"
    and ca: "wpa_scan_result_compar ?c ?a = Some 8" by code_simp+
  have ne: "?a \<noteq> ?b" "?b \<noteq> ?c" "?c \<noteq> ?a" by (simp_all add: ap_seen_def demo_res_def)
  have False if rs: "mset rs = mset [?a, ?b, ?c]" "sorted_wrt (\<lambda>x y. the (wpa_scan_result_compar x y) \<le> 0) rs" for rs
  proof -
    have set: "set rs = {?a, ?b, ?c}" using mset_eq_setD [OF rs(1)] by simp
    then obtain x xs where x: "rs = x # xs" by (cases rs) auto
    then have "x \<in> {?a, ?b, ?c}" "{?a, ?b, ?c} - {x} \<subseteq> set xs" using set by auto
    moreover have "\<forall>y \<in> set xs. the (wpa_scan_result_compar x y) \<le> 0" using rs(2) x by simp
    ultimately show False using ab bc ca ne by fastforce
  qed
  then show ?thesis using ab bc ca unfolding Let_def by blast
qed

section \<open>Roaming\<close>





lemma find_split:
  "find P xs = Some x \<longleftrightarrow> (\<exists>us vs. xs = us @ x # vs \<and> (\<forall>u \<in> set us. \<not> P u) \<and> P x)"
proof
  assume "find P xs = Some x"
  then obtain vs where vs: "dropWhile (Not \<circ> P) xs = x # vs" by (auto simp: find_dropWhile split: list.splits)
  then have "P x" using hd_dropWhile [of "Not \<circ> P" xs] by simp
  moreover have "xs = takeWhile (Not \<circ> P) xs @ x # vs" using takeWhile_dropWhile_id [of "Not \<circ> P" xs] vs by simp
  moreover have "\<forall>u \<in> set (takeWhile (Not \<circ> P) xs). \<not> P u" by (auto dest: set_takeWhileD)
  ultimately show "\<exists>us vs. xs = us @ x # vs \<and> (\<forall>u \<in> set us. \<not> P u) \<and> P x" by blast
next
  have "find P (us @ x # vs) = Some x" if "\<forall>u \<in> set us. \<not> P u" "P x" for us vs using that by (induction us) simp_all
  then show "find P xs = Some x" if "\<exists>us vs. xs = us @ x # vs \<and> (\<forall>u \<in> set us. \<not> P u) \<and> P x" using that by blast
qed




section \<open>From the scan to the association\<close>

text \<open>The association requests in a log.\<close>

definition requests :: "sel_event list \<Rightarrow> (ptr option \<times> int) list" where
  "requests es = List.map_filter (\<lambda>e. case e of Associate a i \<Rightarrow> Some (a, i) | _ \<Rightarrow> None) es"

lemma requests_append [simp]: "requests (es @ fs) = requests es @ requests fs"
  by (simp add: requests_def map_filter_def)

lemma requests_simps [simp]:
  "requests [] = []" "requests (Associate a i # es) = (a, i) # requests es" "requests (Notify_scanning x # es) = requests es"
  "requests (Notify_scan_results # es) = requests es" "requests (Notify_scan_done x # es) = requests es"
  "requests (Preauth_candidate y # es) = requests es" "requests (Req_sched_scan # es) = requests es"
  "requests (Notify_state s t # es) = requests es" "requests (Notify_auth_changed # es) = requests es"
  by (simp_all add: requests_def map_filter_simps)

definition add_log :: "sel_event list \<Rightarrow> selector \<Rightarrow> selector" where
  "add_log es st = st\<lparr>sl_log := sl_log st @ es\<rparr>"

lemma emit_add_log: "sel_emit e st = add_log [e] st" "add_log es (add_log fs st) = add_log (fs @ es) st"
  by (simp_all add: sel_emit_def add_log_def)

lemma add_log_sel [simp]:
  "sl_wpa (add_log es st) = sl_wpa st" "sl_log (add_log es st) = sl_log st @ es" "nets (add_log es st) = nets st"
  "sl_scan_interval (add_log es st) = sl_scan_interval st" "sl_wpa_state (add_log es st) = sl_wpa_state st"
  by (simp_all add: add_log_def nets_def)

lemma allows_cong: "sl_hw_modes st' = sl_hw_modes st \<Longrightarrow> allows st' = allows st"
  by (simp add: allows_def rates_fit_def fun_eq_iff)

lemma best_match_log [simp]: "best_match (add_log es st) = best_match st"
  using allows_cong [of "add_log es st" st]
  by (simp add: best_match_def fun_eq_iff blacklisted_def entry_of_def) (simp add: add_log_def)

lemma preauth_loop_spec:
  assumes "bss_inv (sl_wpa st)" "set as \<subseteq> set (bss (sl_wpa st))"
  shows "\<exists>es. preauth_loop st as = Some (add_log es st) \<and> requests es = []"
  using assms
proof (induction as arbitrary: st)
  case Nil
  show ?case by (rule exI [of _ "[]"]) (simp add: add_log_def)
next
  case (Cons a as)
  have "a \<in> set (bss (sl_wpa st))" using Cons.prems(2) by simp
  then obtain b where b: "deref (sl_wpa st) a = Some b" "bss_wf b" by (rule bss_inv_deref [OF Cons.prems(1)])
  have wf: "bss_ie.wf b" using b(2) by (simp add: bss_ie.wf_def bss_wf_def)
  obtain q1 where q1: "wpa_bss_get_ie b WLAN_EID_SSID = Some q1" using bss_ie.get_ie_first [OF wf] by blast
  obtain q2 where q2: "wpa_bss_get_ie b WLAN_EID_RSN = Some q2" using bss_ie.get_ie_first [OF wf] by blast
  define fs where "fs = (if q1 = None \<or> q2 = None then [] else [Preauth_candidate (b_bssid b)])"
  have "preauth_loop st (a # as) = preauth_loop (add_log fs st) as"
    using b(1) q1 q2 by (simp add: fs_def emit_add_log) (simp add: add_log_def)
  moreover obtain es where "preauth_loop (add_log fs st) as = Some (add_log es (add_log fs st))" "requests es = []"
    using Cons.IH [of "add_log fs st"] Cons.prems by auto
  ultimately show ?case by (intro exI [of _ "fs @ es"]) (simp add: emit_add_log fs_def)
qed

lemma preauth_spec:
  assumes "bss_inv (sl_wpa st)"
  shows "\<exists>es. wpa_supplicant_rsn_preauth_scan_results env st = Some (add_log es st) \<and> requests es = []"
proof (cases "se_preauth env")
  case True
  then show ?thesis using preauth_loop_spec [OF assms subset_refl] by (simp add: wpa_supplicant_rsn_preauth_scan_results_def)
next
  case False
  then show ?thesis
    by (intro exI [of _ "[]"]) (simp add: wpa_supplicant_rsn_preauth_scan_results_def add_log_def)
qed

text \<open>A network that the station sets up itself (IBSS or AP), and what the search for one returns.\<close>

definition own_net :: "wpa_ssid \<Rightarrow> bool" where
  "own_net n \<longleftrightarrow> n_int n ''disabled'' = 0 \<and> n_int n ''mode'' \<in> {1, 2}"

definition own_pick :: "wpa_ssid list \<Rightarrow> int option \<Rightarrow> bool" where
  "own_pick ns x \<longleftrightarrow> (case x of None \<Rightarrow> list_all (\<lambda>n. \<not> own_net n) ns | Some i \<Rightarrow> list_ex (\<lambda>n. n_id n = i \<and> own_net n) ns)"

lemma find_append: "find P (xs @ ys) = (case find P xs of None \<Rightarrow> find P ys | Some x \<Rightarrow> Some x)"
  by (induction xs) simp_all

lemma new_network_spec:
  assumes "sel_ok st"
  shows "\<exists>x. wpa_supplicant_pick_new_network (conf (sl_wpa st)) = Some x \<and> own_pick (nets st) x"
proof -
  let ?c = "conf (sl_wpa st)" and ?P = "\<lambda>i. own_net (net st i)" and ?gs = "prio_groups (nets st)"
  have id: "net st (n_id n) = n" "wpa_config_get_network ?c (n_id n) = Some n" if "n \<in> set (nets st)" for n
    using net_id [OF assms that] by (simp_all add: net_def)
  have one: "new_network_in ?c g = Some (find ?P g)" if "set g \<subseteq> n_id ` set (nets st)" for g
    using that by (induction g) (auto simp: id own_net_def)
  have loop: "new_network_loop ?c gs = Some (find ?P (concat gs))" if "\<forall>g \<in> set gs. set g \<subseteq> n_id ` set (nets st)" for gs
    using that by (induction gs) (auto simp: one find_append split: option.split)
  have ids: "set (concat ?gs) = n_id ` set (nets st)"
    by (auto simp: prio_groups_def ids_of_prio_def)
  have r: "wpa_supplicant_pick_new_network ?c = Some (find ?P (concat ?gs))"
    using assms loop [of ?gs] prio_groups_ids [of _ "nets st"] unfolding wpa_supplicant_pick_new_network_def by (simp add: sel_ok_def)
  show ?thesis
  proof (cases "find ?P (concat ?gs)")
    case None
    then have "\<forall>i \<in> n_id ` set (nets st). \<not> ?P i" unfolding find_None_iff using ids by blast
    then show ?thesis using r None id by (auto simp: own_pick_def list_all_iff)
  next
    case (Some i)
    then obtain us vs where us: "concat ?gs = us @ i # vs" "?P i" unfolding find_split by blast
    moreover have "i \<in> set (us @ i # vs)" by simp
    ultimately have "i \<in> n_id ` set (nets st)" unfolding us(1) [symmetric] ids by blast
    then show ?thesis using r Some id us(2) by (auto simp: own_pick_def list_ex_iff)
  qed
qed

lemma set_state_log: "\<exists>es. sl_log (wpa_supplicant_set_state WPA_INACTIVE st) = sl_log st @ es \<and> requests es = []"
  by (simp add: wpa_supplicant_set_state_def wpa_supplicant_notify_scanning_def Let_def emit_add_log)

lemma req_new_scan_requests: "requests (sl_log (wpa_supplicant_req_new_scan env sec st)) = requests (sl_log st)"
proof -
  obtain es where "sl_log (wpa_supplicant_set_state WPA_INACTIVE st) = sl_log st @ es" "requests es = []"
    using set_state_log by blast
  then show ?thesis by (simp add: wpa_supplicant_req_new_scan_def)
qed

lemma connect_reassociate:
  assumes "reassociate (sl_wpa st)" "bss_inv (sl_wpa st)" "entry_of st a r"
  shows "wpa_supplicant_connect a i st = Some (add_log [Associate (Some a) i] st)"
proof -
  have "a \<in> set (bss (sl_wpa st))" using assms(3) by (simp add: entry_of_def)
  then obtain b where "deref (sl_wpa st) a = Some b" by (rule bss_inv_deref [OF assms(2)])
  then show ?thesis using assms(1) by (simp add: wpa_supplicant_connect_def emit_add_log)
qed

definition any_allowed :: "selector \<Rightarrow> wpa_scan_res list \<Rightarrow> bool" where
  "any_allowed st rs = list_ex (\<lambda>r. list_ex (\<lambda>n. allows st n r) (nets st)) rs"

text \<open>The networks and what they allow are the same in two states.\<close>

definition same_nets :: "selector \<Rightarrow> selector \<Rightarrow> bool" where
  "same_nets st st' \<longleftrightarrow> nets st' = nets st \<and> allows st' = allows st"

lemma same_nets_log [simp]: "same_nets st (add_log es st') = same_nets st st'"
  using allows_cong [of "add_log es st'" st'] by (simp add: same_nets_def add_log_def nets_def)

lemma choose_network_spec:
  assumes "sel_ok st" "results_ok st rs" "reassociate (sl_wpa st)"
  shows "\<exists>st'. choose_network env rs st = Some (0, st') \<and>
    (if any_allowed st rs
     then \<exists>a n r. same_nets st st' \<and> best_match st' rs a n r \<and> requests (sl_log st') = requests (sl_log st) @ [(Some a, n_id n)]
     else \<exists>x. own_pick (nets st) x \<and>
       requests (sl_log st') = requests (sl_log st) @ (case x of None \<Rightarrow> [] | Some i \<Rightarrow> [(None, i)]))"
proof -
  obtain sel x st1 where p: "wpa_supplicant_pick_network st None rs = Some (sel, x, st1)" "st1 = st \<or> st1 = cleared st"
    "case sel of None \<Rightarrow> list_all (\<lambda>n. list_all (\<lambda>r. \<not> allows st n r) rs) (nets st)
     | Some a \<Rightarrow> \<exists>n r. x = Some (n_id n) \<and> best_match st1 rs a n r"
    using pick_network_best [OF assms(1,2)] by blast
  have st1: "sl_wpa st1 = sl_wpa st" "sl_log st1 = sl_log st" "bss_inv (sl_wpa st1)" "nets st1 = nets st" "allows st1 = allows st"
    using p(2) assms(1) by (auto simp: sel_ok_def) (simp add: cleared_def)
  show ?thesis
  proof (cases sel)
    case (Some a)
    then obtain n r where n: "x = Some (n_id n)" "best_match st1 rs a n r" using p(3) by auto
    then have "entry_of st1 a r" "n \<in> set (nets st)" "allows st n r" "r \<in> set rs" using st1(4,5) by (auto simp: best_match_def)
    then have al: "any_allowed st rs" by (auto simp: any_allowed_def list_ex_iff)
    have c: "wpa_supplicant_connect a (n_id n) st1 = Some (add_log [Associate (Some a) (n_id n)] st1)"
      using connect_reassociate [OF _ st1(3) \<open>entry_of st1 a r\<close>] assms(3) st1(1) by simp
    obtain es where es: "wpa_supplicant_rsn_preauth_scan_results env (add_log [Associate (Some a) (n_id n)] st1) =
        Some (add_log es (add_log [Associate (Some a) (n_id n)] st1))" "requests es = []"
      using preauth_spec [of "add_log [Associate (Some a) (n_id n)] st1" env] st1(3) by auto
    have "choose_network env rs st = Some (0, add_log es (add_log [Associate (Some a) (n_id n)] st1))"
      using p(1) Some n(1) c es(1) assms(3) st1(1) by (simp add: choose_network_def wpa_supplicant_need_to_roam_def)
    moreover have "same_nets st st1" using st1(4,5) by (simp add: same_nets_def)
    ultimately show ?thesis using al n(2) es(2) st1(2) by auto
  next
    case None
    then have al: "\<not> any_allowed st rs" using p(3) by (auto simp: any_allowed_def list_ex_iff list_all_iff)
    obtain y where y: "wpa_supplicant_pick_new_network (conf (sl_wpa st)) = Some y" and own: "own_pick (nets st) y"
      using new_network_spec [OF assms(1)] by blast
    show ?thesis
    proof (cases y)
      case None2: None
      then show ?thesis using p(1) None y own al st1(1,2)
        by (intro exI conjI, simp_all add: choose_network_def Let_def, intro exI [of _ None])
          (simp add: req_new_scan_requests emit_add_log)
    next
      case (Some i)
      obtain es where "wpa_supplicant_rsn_preauth_scan_results env (add_log [Associate None i] st1) =
          Some (add_log es (add_log [Associate None i] st1))" "requests es = []"
        using preauth_spec [of "add_log [Associate None i] st1" env] st1(3) by auto
      then show ?thesis using p(1) None y own al st1(1,2) Some
        by (simp add: choose_network_def emit_add_log) (intro exI [of _ "Some i"], simp)
    qed
  qed
qed

lemma represented_in_table:
  assumes "represented (sl_wpa st) rs r" "storable r ssid" "filter_admits (sl_wpa st) (r_bssid r)"
  shows "in_table st r"
proof -
  obtain a b q where "a \<in> set (bss (sl_wpa st))" "bss_heap (sl_wpa st) a = Some b" "ssid_of b = ssid"
    "r_bssid q = r_bssid r" "reflects (bss_update_idx (sl_wpa st)) b q"
    using assms(1,2) unfolding represented_def by blast
  moreover have "res_elem r WLAN_EID_SSID = Some ssid" "length ssid \<le> 32"
    using assms(2) by (simp_all add: storable_def res_ssid_def res_elem_def)
  ultimately show ?thesis
    using assms(3) unfolding in_table_def entry_of_def by (auto simp: has_key_def reflects_def)
qed

definition usable :: "selector \<Rightarrow> wpa_scan_res \<Rightarrow> bool" where
  "usable st r \<longleftrightarrow> res_wf r \<and> (list_ex (\<lambda>n. allows st n r) (nets st) \<longrightarrow> (\<exists>ssid. storable r ssid))"

lemma results_ok_after_scan:
  assumes "sel_ok st" "list_all (usable st) rs" "list_all (\<lambda>r. filter_admits (sl_wpa st) (r_bssid r)) rs"
    and "bss_inv s" "list_all (represented s rs) rs" "scan_frame s = scan_frame ((sl_wpa st)\<lparr>bss_update_idx := k\<rparr>)"
    and st1: "sl_wpa st1 = s" "sl_hw_modes st1 = sl_hw_modes st"
  shows "sel_ok st1" "results_ok st1 rs" "any_allowed st1 rs = any_allowed st rs" "same_nets st1 = same_nets st"
proof -
  have c: "conf s = conf (sl_wpa st)" "bssid_filter s = bssid_filter (sl_wpa st)" using assms(6) by (simp_all add: scan_frame_def)
  then have n: "nets st1 = nets st" "allows st1 = allows st" using st1 allows_cong [of st1 st] by (simp_all add: nets_def)
  show "sel_ok st1" using assms(1,4) st1 n(1) c by (simp add: sel_ok_def modes_ok_def)
  show "any_allowed st1 rs = any_allowed st rs" "same_nets st1 = same_nets st"
    using n by (simp_all add: any_allowed_def same_nets_def fun_eq_iff)
  have "in_table st1 r" if "r \<in> set rs" "list_ex (\<lambda>m. allows st1 m r) (nets st1)" for r
  proof -
    have "usable st r" using assms(2) that(1) by (simp add: list_all_iff)
    then have "\<exists>ssid. storable r ssid" using that(2) n by (simp add: usable_def)
    then show ?thesis
      using represented_in_table [of st1 rs r] that(1) assms(3,5) st1(1) c(2) by (auto simp: list_all_iff filter_admits_def)
  qed
  then show "results_ok st1 rs" using assms(2) by (auto simp: results_ok_def list_all_iff usable_def)
qed

text \<open>
  C3. From the scan to the association. The station is to associate, takes part in the selection of the network
  (\<open>ap_scan\<close> is not 2), was not told to stay disconnected, and no other requester waits for the results. Allocations
  succeed and the table has room for the results (\<open>mem_ok\<close>, \<open>room\<close>); the configuration is consistent, which includes
  that \<open>wep_tx_keyidx\<close> of every network is an index of its keys (\<open>sel_ok\<close>; without it the matching faults, as the
  property on that index shows); the elements of each result are complete, and a result that a network allows carries
  an SSID of at most 32 octets (\<open>usable\<close>). Then the results are processed without fault. If an enabled network allows
  one of the access points that the filter admits, exactly one association is requested, with the entry of the table
  for the best of them (\<open>best_match\<close>). Otherwise no access point is associated: if an enabled IBSS or AP network is
  configured, one such network is set up (an association without access point), and if not, nothing is requested.
\<close>

theorem wpa_supplicant_event_scan_results_associates:
  assumes env: "env_ok env" "mem_ok env (c_bss_max_count (conf (sl_wpa st)))" "se_results env = Some rs"
    and inv: "sel_ok st" "keys_unique (sl_wpa st)" "list_all (usable st) rs"
    and room: "num_bss (sl_wpa st) + length rs \<le> c_bss_max_count (conf (sl_wpa st))"
      "0 < c_bss_expiration_scan_count (conf (sl_wpa st))"
    and mode: "reassociate (sl_wpa st)" "\<not> disconnected (sl_wpa st)" "scan_res_handler (sl_wpa st) = None"
      "c_ap_scan (conf (sl_wpa st)) \<noteq> 2"
  shows "\<exists>rs' st'. wpa_supplicant_event_scan_results env st = Some (0, st') \<and>
    mset rs' = mset (filter (\<lambda>r. filter_admits (sl_wpa st) (r_bssid r)) rs) \<and>
    (if any_allowed st rs'
     then \<exists>a n r. same_nets st st' \<and> best_match st' rs' a n r \<and> requests (sl_log st') = requests (sl_log st) @ [(Some a, n_id n)]
     else \<exists>x. own_pick (nets st) x \<and>
       requests (sl_log st') = requests (sl_log st) @ (case x of None \<Rightarrow> [] | Some i \<Rightarrow> [(None, i)]))"
proof -
  have wf: "list_all res_wf rs" "bss_inv (sl_wpa st)" using inv(1,3) by (auto simp: usable_def list_all_iff sel_ok_def)
  obtain rs' s where s: "wpa_supplicant_get_scan_results env True (sl_wpa st) = Some (Some rs', s)" "bss_inv s"
    "mset rs' = mset (filter (\<lambda>r. filter_admits (sl_wpa st) (r_bssid r)) rs)" "list_all (represented s rs') rs'"
    "scan_frame s = scan_frame ((sl_wpa st)\<lparr>bss_update_idx := bss_update_idx (sl_wpa st) + 1\<rparr>)"
    using get_scan_results_stored [OF env wf(2) inv(2) wf(1) room] by blast
  define st1 where "st1 = sel_emit (Notify_scan_done True) (sel_emit Notify_scan_results
    ((wpa_supplicant_notify_scanning False st)\<lparr>sl_wpa := s\<rparr>))"
  have st1: "sl_wpa st1 = s" "sl_hw_modes st1 = sl_hw_modes st" "requests (sl_log st1) = requests (sl_log st)"
    by (auto simp: st1_def wpa_supplicant_notify_scanning_def sel_emit_def)
  have c: "conf s = conf (sl_wpa st)" "reassociate s" "\<not> disconnected s" "scan_res_handler s = None" "c_ap_scan (conf s) \<noteq> 2"
    using s(5) mode by (simp_all add: scan_frame_def)
  have e: "wpa_supplicant_event_scan_results env st = choose_network env rs' st1"
    using s(1) c(3,4,5) by (simp add: wpa_supplicant_event_scan_results_def Let_def st1_def wpa_supplicant_notify_scanning_def sel_emit_def)
  note ok = results_ok_after_scan [OF inv(1) permuted_results(1,2) [OF s(3) inv(3)] s(2,4,5) st1(1,2)]
  have ns: "nets st1 = nets st" by (simp add: nets_def st1(1) c(1))
  obtain st' where "choose_network env rs' st1 = Some (0, st')"
    "if any_allowed st rs'
     then \<exists>a n r. same_nets st st' \<and> best_match st' rs' a n r \<and> requests (sl_log st') = requests (sl_log st) @ [(Some a, n_id n)]
     else \<exists>x. own_pick (nets st) x \<and>
       requests (sl_log st') = requests (sl_log st) @ (case x of None \<Rightarrow> [] | Some i \<Rightarrow> [(None, i)])"
    using choose_network_spec [OF ok(1,2), of env] c(2) unfolding st1(1,3) ok(3,4) ns by blast
  then show ?thesis using e s(3) by (intro exI [of _ rs'] exI [of _ st'] conjI) simp_all
qed

section \<open>Examples\<close>

text \<open>Insertion sort as sorting function, and the allocator of the earlier examples.\<close>

fun sort_in :: "(wpa_scan_res \<Rightarrow> wpa_scan_res \<Rightarrow> int option) \<Rightarrow> wpa_scan_res \<Rightarrow> wpa_scan_res list \<Rightarrow> wpa_scan_res list option" where
  "sort_in cmp r [] = Some [r]"
| "sort_in cmp r (q # qs) = do {
     c \<leftarrow> cmp r q;
     if c \<le> 0 then Some (r # q # qs) else do { qs \<leftarrow> sort_in cmp r qs; Some (q # qs) } }"

fun insertion_sort :: qsort where
  "insertion_sort cmp [] = Some []"
| "insertion_sort cmp (r # rs) = do { rs \<leftarrow> insertion_sort cmp rs; sort_in cmp r rs }"

lemma insertion_sort_ok: "qsort_ok insertion_sort"
proof -
  have i: "\<exists>qs. sort_in cmp r rs = Some qs \<and> mset qs = mset (r # rs)" if "\<forall>y \<in> set rs. cmp r y \<noteq> None"
    for cmp r and rs :: "wpa_scan_res list"
    using that by (induction rs) auto
  have "\<exists>rs'. insertion_sort cmp rs = Some rs' \<and> mset rs' = mset rs" if "\<forall>x \<in> set rs. \<forall>y \<in> set rs. cmp x y \<noteq> None" for cmp rs
    using that
  proof (induction rs)
    case (Cons r rs)
    then obtain qs where qs: "insertion_sort cmp rs = Some qs" "mset qs = mset rs" by auto
    then have "set qs = set rs" by (metis mset_eq_setD)
    then show ?case using i [of qs cmp r] Cons.prems qs by auto
  qed simp
  then show ?thesis by (simp add: qsort_ok_def)
qed

definition demo_env :: scan_env where
  "demo_env = \<lparr>se_results = Some [demo_res], se_qsort = insertion_sort, se_alloc = first_free, se_cmp = True,
     se_now = \<lparr>t_sec = 9, t_usec = 0\<rparr>, se_info = None, se_timer = True, se_sched = False, se_preauth = False,
     se_iw = ex_env True\<rparr>"

lemma demo_env_ok: "env_ok demo_env" "mem_ok demo_env 200" "se_results demo_env = Some [demo_res]"
  using insertion_sort_ok first_free_fresh [where 'a = wpa_bss] first_free_live [where 'a = wpa_bss]
  by (simp_all add: demo_env_def env_ok_def mem_ok_def info_wf_def)

lemma wpa_supplicant_get_scan_results_stored_witness:
  "\<exists>s'. wpa_supplicant_get_scan_results demo_env True zero_state = Some (Some [demo_res], s') \<and> represented s' [demo_res] demo_res"
proof -
  have c: "conf zero_state = zero_conf" "num_bss zero_state = 0" by (simp_all add: zero_state_def)
  have z: "c_bss_max_count zero_conf = 200" "c_bss_expiration_scan_count zero_conf = 2" by (simp_all add: zero_conf_def)
  obtain rs' s' where "wpa_supplicant_get_scan_results demo_env True zero_state = Some (Some rs', s')"
    "mset rs' = mset (filter (\<lambda>r. filter_admits zero_state (r_bssid r)) [demo_res])" "list_all (represented s' rs') rs'"
    using wpa_supplicant_get_scan_results_stored [of demo_env zero_state "[demo_res]" True] demo_env_ok demo_wf(1,2,3) c z by auto
  then show ?thesis using demo_wf(5) by (auto simp: mset_single_iff_right)
qed

definition ready :: selector where
  "ready = (sel_state open_net)\<lparr>sl_wpa := (sl_wpa (sel_state open_net))\<lparr>reassociate := True\<rparr>\<rparr>"

lemma ready_simps:
  "conf (sl_wpa ready) = zero_conf\<lparr>c_ssid := [open_net], c_pssid := [[n_id open_net]]\<rparr>" "num_bss (sl_wpa ready) = 1"
  "reassociate (sl_wpa ready)" "\<not> disconnected (sl_wpa ready)" "scan_res_handler (sl_wpa ready) = None"
  "nets ready = [open_net]" "requests (sl_log ready) = []" "filter_admits (sl_wpa ready) bssid"
  "keys_unique (sl_wpa ready)" "sl_hw_modes ready = None"
  by (simp_all add: ready_def sel_state_def zero_state_def nets_def filter_admits_def keys_unique_def)

lemma ready_ok: "sel_ok ready" "allows ready open_net demo_res"
proof -
  have "bss_inv (sl_wpa ready) = bss_inv (sl_wpa (sel_state open_net))" by (simp add: ready_def bss_inv_def)
  moreover have "nets ready = nets (sel_state open_net)" "conf (sl_wpa ready) = conf (sl_wpa (sel_state open_net))"
    "sl_hw_modes ready = sl_hw_modes (sel_state open_net)"
    by (simp_all add: ready_def nets_def)
  ultimately show "sel_ok ready" "allows ready open_net demo_res"
    using open_net_ok(2) allows_cong [of ready "sel_state open_net"] open_net_allows by (simp_all add: sel_ok_def modes_ok_def)
qed

lemma wpa_supplicant_event_scan_results_associates_witness:
  "\<exists>st' a. wpa_supplicant_event_scan_results demo_env ready = Some (0, st') \<and>
     requests (sl_log st') = [(Some a, n_id open_net)] \<and> best_match st' [demo_res] a open_net demo_res"
proof -
  have z: "c_bss_max_count zero_conf = 200" "c_bss_expiration_scan_count zero_conf = 2" "c_ap_scan zero_conf = 1"
    by (simp_all add: zero_conf_def)
  have u: "list_all (usable ready) [demo_res]" using demo_wf(3,4) by (auto simp: usable_def)
  obtain rs' st' where st': "wpa_supplicant_event_scan_results demo_env ready = Some (0, st')"
    "mset rs' = mset (filter (\<lambda>r. filter_admits (sl_wpa ready) (r_bssid r)) [demo_res])"
    "if any_allowed ready rs'
     then \<exists>a n r. same_nets ready st' \<and> best_match st' rs' a n r \<and> requests (sl_log st') = requests (sl_log ready) @ [(Some a, n_id n)]
     else \<exists>x. own_pick (nets ready) x \<and>
       requests (sl_log st') = requests (sl_log ready) @ (case x of None \<Rightarrow> [] | Some i \<Rightarrow> [(None, i)])"
    using wpa_supplicant_event_scan_results_associates [OF demo_env_ok(1) _ demo_env_ok(3) ready_ok(1) _ u] demo_env_ok(2)
    by (auto simp: ready_simps z)
  then have rs: "rs' = [demo_res]" by (simp add: ready_simps mset_single_iff_right)
  have "any_allowed ready rs'" using ready_ok(2) by (simp add: rs any_allowed_def ready_simps)
  then obtain a n r where b: "same_nets ready st'" "best_match st' [demo_res] a n r" "requests (sl_log st') = [(Some a, n_id n)]"
    using st'(3) unfolding rs by (auto simp: ready_simps)
  have "r = demo_res" "n = open_net"
    using b(1,2) by (auto simp: best_match_def same_nets_def ready_simps Cons_eq_append_conv)
  then show ?thesis using st'(1) b(2,3) by blast
qed



end
