(* ===== verification/Eap_Peer.thy ===== *)
theory Eap_Peer
  imports Wpabuf Eap_Methods
begin

text \<open>
  The EAP peer state machine of RFC 4137, src/src/eap_peer/eap.c, and the packet helpers of
  src/src/eap_common/eap_common.c.

  The state machine shares variables with the EAPOL state machines through a table of callbacks
  (\<open>struct eapol_callbacks\<close>); they are the record \<open>eapol_vars\<close>, a field of the state here. The authentication
  methods are arguments, as functions of the state: what \<open>init\<close>, \<open>process\<close> and the other functions of
  \<open>struct eap_method\<close> return, and the fields of the state machine that methods write (\<open>ignore\<close>, \<open>leap_done\<close>,
  \<open>peap_done\<close> and the pending requests of the configuration). A method may fault, keep any private data and decide
  anything. Allocator outcomes and the MD5 primitive are arguments too.

  A result \<open>None\<close> is a fault. Messages to the control interface are recorded in a log.
\<close>

section \<open>Packets\<close>

abbreviation (input) EAP_CODE_REQUEST :: u8 where "EAP_CODE_REQUEST \<equiv> 1"
abbreviation (input) EAP_CODE_RESPONSE :: u8 where "EAP_CODE_RESPONSE \<equiv> 2"
abbreviation (input) EAP_CODE_SUCCESS :: u8 where "EAP_CODE_SUCCESS \<equiv> 3"
abbreviation (input) EAP_CODE_FAILURE :: u8 where "EAP_CODE_FAILURE \<equiv> 4"
abbreviation (input) EAP_TYPE_IDENTITY :: u8 where "EAP_TYPE_IDENTITY \<equiv> 1"
abbreviation (input) EAP_TYPE_NOTIFICATION :: u8 where "EAP_TYPE_NOTIFICATION \<equiv> 2"
abbreviation (input) EAP_TYPE_NAK :: u8 where "EAP_TYPE_NAK \<equiv> 3"
abbreviation (input) EAP_TYPE_TLS :: u8 where "EAP_TYPE_TLS \<equiv> 13"

text \<open>The result of \<open>eap_hdr_validate\<close> is the offset of the payload and its length.\<close>

definition eap_hdr_validate :: "int \<Rightarrow> u8 \<Rightarrow> wpabuf \<Rightarrow> (nat \<times> nat) option option" where
  "eap_hdr_validate vendor eap_type msg =
     (if wpabuf_len msg < 4 then Some None
      else do {
        l \<leftarrow> rd_be16 (wpabuf_head msg) 2;
        let len = unat l;
        if len < 5 \<or> wpabuf_len msg < len then Some None
        else do {
          t \<leftarrow> rd (wpabuf_head msg) 4;
          if t = EAP_TYPE_EXPANDED then
            (if len < 12 then Some None
             else do {
               v \<leftarrow> rd_be24 (wpabuf_head msg) 5;
               m \<leftarrow> rd_be32 (wpabuf_head msg) 8;
               if uint v \<noteq> vendor \<or> m \<noteq> ucast eap_type then Some None
               else Some (Some (12, len - 12)) })
          else if vendor \<noteq> EAP_VENDOR_IETF \<or> t \<noteq> eap_type then Some None
          else Some (Some (5, len - 5)) } })"

definition eap_msg_alloc :: "bool \<Rightarrow> int \<Rightarrow> u8 \<Rightarrow> nat \<Rightarrow> u8 \<Rightarrow> u8 \<Rightarrow> wpabuf option option" where
  "eap_msg_alloc ok vendor type payload_len code identifier =
     (let len = 4 + (if vendor = EAP_VENDOR_IETF then 1 else 8) + payload_len
      in case wpabuf_alloc ok len of
           None \<Rightarrow> Some None
         | Some buf \<Rightarrow> do {
             (pos, buf) \<leftarrow> wpabuf_put buf 4;
             buf \<leftarrow> wpabuf_store buf pos ([code, identifier] @ put_be16 (of_nat len));
             buf \<leftarrow> (if vendor = EAP_VENDOR_IETF then wpabuf_put_u8 buf type
                    else do {
                      buf \<leftarrow> wpabuf_put_u8 buf EAP_TYPE_EXPANDED;
                      buf \<leftarrow> wpabuf_put_be24 buf (of_int vendor);
                      wpabuf_put_be32 buf (ucast type) });
             Some (Some buf) })"

definition eap_update_len :: "wpabuf \<Rightarrow> wpabuf option" where
  "eap_update_len msg =
     (if wpabuf_len msg < 4 then Some msg
      else wpabuf_store msg 2 (put_be16 (of_nat (wpabuf_len msg))))"

definition eap_get_id :: "wpabuf \<Rightarrow> u8 option" where
  "eap_get_id msg = (if wpabuf_len msg < 4 then Some 0 else rd (wpabuf_head msg) 1)"

definition eap_get_type :: "wpabuf \<Rightarrow> u8 option" where
  "eap_get_type msg = (if wpabuf_len msg < 5 then Some EAP_TYPE_NONE else rd (wpabuf_head msg) 4)"

section \<open>State\<close>

datatype EapDecision = DECISION_FAIL | DECISION_COND_SUCC | DECISION_UNCOND_SUCC

datatype EapMethodState = METHOD_NONE | METHOD_INIT | METHOD_CONT | METHOD_MAY_CONT | METHOD_DONE

datatype eap_state =
    EAP_INITIALIZE | EAP_DISABLED | EAP_IDLE | EAP_RECEIVED | EAP_GET_METHOD | EAP_METHOD | EAP_SEND_RESPONSE
  | EAP_DISCARD | EAP_IDENTITY | EAP_NOTIFICATION | EAP_RETRANSMIT | EAP_SUCCESS | EAP_FAILURE

datatype ctrl_req = REQ_IDENTITY | REQ_PASSWORD | REQ_NEW_PASSWORD | REQ_PIN | REQ_OTP "bytes option" | REQ_PASSPHRASE

datatype eapol_event =
    Eapol_send u8 bytes
  | Port_cb bool
  | Timer_tick
  | Step_timeout
  | Set_wep_key bool nat bytes
  | Eapol_done_cb
  | Aborted_cached
  | Eapol_cb bool
  | Eap_started
  | Eap_proposed int u32 bool
  | Eap_selected eap_method
  | Eap_notification bytes
  | Eap_success
  | Eap_failure
  | Eap_param_needed ctrl_req

record eap_peer_config =
  pc_identity :: "bytes option"
  pc_anonymous_identity :: "bytes option"
  pc_eap_methods :: "(int \<times> u32) list option"
  pc_pcsc :: bool
  pc_private_key2 :: bool
  pc_pending_identity :: nat
  pc_pending_password :: nat
  pc_pending_new_password :: nat
  pc_pending_pin :: nat
  pc_pending_passphrase :: nat
  pc_pending_otp :: "bytes option"

text \<open>What the callbacks reach in \<open>struct eapol_sm\<close>.\<close>

record eapol_vars =
  v_eapSuccess :: bool
  v_eapRestart :: bool
  v_eapFail :: bool
  v_eapResp :: bool
  v_eapNoResp :: bool
  v_eapReq :: bool
  v_portEnabled :: bool
  v_altAccept :: bool
  v_altReject :: bool
  v_idleWhile :: u32
  v_timer_tick_enabled :: bool
  v_eapReqData :: "wpabuf option"
  v_config :: "eap_peer_config option"
  v_log :: "eapol_event list"

record eap_method_ret =
  mr_ignore :: bool
  mr_methodState :: EapMethodState
  mr_decision :: EapDecision
  mr_allowNotifications :: bool

record 'p eap_sm =
  es_state :: eap_state
  es_selectedMethod :: u8
  es_methodState :: EapMethodState
  es_lastId :: int
  es_lastRespData :: "wpabuf option"
  es_decision :: EapDecision
  es_rxReq :: bool
  es_rxSuccess :: bool
  es_rxFailure :: bool
  es_reqId :: int
  es_reqMethod :: u8
  es_reqVendor :: int
  es_reqVendorMethod :: u32
  es_ignore :: bool
  es_ClientTimeout :: u32
  es_allowNotifications :: bool
  es_eapRespData :: "wpabuf option"
  es_eapKeyAvailable :: bool
  es_eapKeyData :: "bytes option"
  es_m :: "eap_method option"
  es_changed :: bool
  es_priv :: "'p option"
  es_fast_reauth :: bool
  es_rxResp :: bool
  es_leap_done :: bool
  es_peap_done :: bool
  es_req_md5 :: bytes
  es_last_md5 :: bytes
  es_workaround :: bool
  es_num_rounds :: int
  es_force_disabled :: bool
  es_prev_failure :: bool
  es_eapol :: eapol_vars

text \<open>The fields that methods write.\<close>

record method_fx =
  fx_ignore :: bool
  fx_leap_done :: bool
  fx_peap_done :: bool
  fx_config :: "eap_peer_config option"

record 'p eap_env =
  ee_methods :: "eap_method list"
  ee_has_reauth_data :: "eap_method \<Rightarrow> 'p eap_sm \<Rightarrow> bool"
  ee_deinit_for_reauth :: "eap_method \<Rightarrow> 'p eap_sm \<Rightarrow> 'p option"
  ee_init_for_reauth :: "eap_method \<Rightarrow> 'p eap_sm \<Rightarrow> 'p option \<times> method_fx"
  ee_init :: "eap_method \<Rightarrow> 'p eap_sm \<Rightarrow> 'p option \<times> method_fx"
  ee_process :: "eap_method \<Rightarrow> 'p eap_sm \<Rightarrow> eap_method_ret \<Rightarrow> ('p option \<times> method_fx \<times> eap_method_ret \<times> wpabuf option) option"
  ee_getKey :: "eap_method \<Rightarrow> 'p eap_sm \<Rightarrow> bytes option option"
  ee_get_identity :: "eap_method \<Rightarrow> 'p eap_sm \<Rightarrow> bytes option"
  ee_md5 :: "bytes \<Rightarrow> bytes"
  ee_alloc :: "'p eap_sm \<Rightarrow> bool"

definition set_fx :: "method_fx \<Rightarrow> 'p eap_sm \<Rightarrow> 'p eap_sm" where
  "set_fx fx sm = sm\<lparr>es_ignore := fx_ignore fx, es_leap_done := fx_leap_done fx, es_peap_done := fx_peap_done fx,
     es_eapol := (es_eapol sm)\<lparr>v_config := fx_config fx\<rparr>\<rparr>"

section \<open>The EAPOL callbacks\<close>

datatype eapol_bool_var = EAPOL_eapSuccess | EAPOL_eapRestart | EAPOL_eapFail | EAPOL_eapResp | EAPOL_eapNoResp
  | EAPOL_eapReq | EAPOL_portEnabled | EAPOL_altAccept | EAPOL_altReject

fun eapol_sm_get_bool :: "eapol_vars \<Rightarrow> eapol_bool_var \<Rightarrow> bool" where
  "eapol_sm_get_bool v EAPOL_eapSuccess = v_eapSuccess v"
| "eapol_sm_get_bool v EAPOL_eapRestart = v_eapRestart v"
| "eapol_sm_get_bool v EAPOL_eapFail = v_eapFail v"
| "eapol_sm_get_bool v EAPOL_eapResp = v_eapResp v"
| "eapol_sm_get_bool v EAPOL_eapNoResp = v_eapNoResp v"
| "eapol_sm_get_bool v EAPOL_eapReq = v_eapReq v"
| "eapol_sm_get_bool v EAPOL_portEnabled = v_portEnabled v"
| "eapol_sm_get_bool v EAPOL_altAccept = v_altAccept v"
| "eapol_sm_get_bool v EAPOL_altReject = v_altReject v"

fun eapol_sm_set_bool :: "eapol_bool_var \<Rightarrow> bool \<Rightarrow> eapol_vars \<Rightarrow> eapol_vars" where
  "eapol_sm_set_bool EAPOL_eapSuccess b v = v\<lparr>v_eapSuccess := b\<rparr>"
| "eapol_sm_set_bool EAPOL_eapRestart b v = v\<lparr>v_eapRestart := b\<rparr>"
| "eapol_sm_set_bool EAPOL_eapFail b v = v\<lparr>v_eapFail := b\<rparr>"
| "eapol_sm_set_bool EAPOL_eapResp b v = v\<lparr>v_eapResp := b\<rparr>"
| "eapol_sm_set_bool EAPOL_eapNoResp b v = v\<lparr>v_eapNoResp := b\<rparr>"
| "eapol_sm_set_bool EAPOL_eapReq b v = v\<lparr>v_eapReq := b\<rparr>"
| "eapol_sm_set_bool EAPOL_portEnabled b v = v\<lparr>v_portEnabled := b\<rparr>"
| "eapol_sm_set_bool EAPOL_altAccept b v = v\<lparr>v_altAccept := b\<rparr>"
| "eapol_sm_set_bool EAPOL_altReject b v = v\<lparr>v_altReject := b\<rparr>"

definition eapol_log :: "eapol_event \<Rightarrow> eapol_vars \<Rightarrow> eapol_vars" where
  "eapol_log e v = v\<lparr>v_log := v_log v @ [e]\<rparr>"

definition eapol_enable_timer_tick :: "eapol_vars \<Rightarrow> eapol_vars" where
  "eapol_enable_timer_tick v =
     (if v_timer_tick_enabled v then v else eapol_log Timer_tick (v\<lparr>v_timer_tick_enabled := True\<rparr>))"

definition eapol_sm_set_int :: "u32 \<Rightarrow> eapol_vars \<Rightarrow> eapol_vars" where
  "eapol_sm_set_int value v = eapol_enable_timer_tick (v\<lparr>v_idleWhile := value\<rparr>)"

definition eapol_get_bool :: "'p eap_sm \<Rightarrow> eapol_bool_var \<Rightarrow> bool" where
  "eapol_get_bool sm var = eapol_sm_get_bool (es_eapol sm) var"

definition eapol_set_bool :: "eapol_bool_var \<Rightarrow> bool \<Rightarrow> 'p eap_sm \<Rightarrow> 'p eap_sm" where
  "eapol_set_bool var value sm = sm\<lparr>es_eapol := eapol_sm_set_bool var value (es_eapol sm)\<rparr>"

definition eapol_set_int :: "u32 \<Rightarrow> 'p eap_sm \<Rightarrow> 'p eap_sm" where
  "eapol_set_int value sm = sm\<lparr>es_eapol := eapol_sm_set_int value (es_eapol sm)\<rparr>"

definition eap_log :: "eapol_event \<Rightarrow> 'p eap_sm \<Rightarrow> 'p eap_sm" where
  "eap_log e sm = sm\<lparr>es_eapol := eapol_log e (es_eapol sm)\<rparr>"

section \<open>Methods and configuration\<close>

text \<open>\<open>m->method == method\<close> compares the type of the packet, 32 bits for expanded types, with the registered type.\<close>

definition get_method :: "'p eap_env \<Rightarrow> int \<Rightarrow> u32 \<Rightarrow> eap_method option" where
  "get_method env vendor method =
     (if method < 256 then eap_peer_get_eap_method (ee_methods env) vendor (ucast method) else None)"

fun allowed_loop :: "(int \<times> u32) list \<Rightarrow> int \<Rightarrow> u32 \<Rightarrow> bool option" where
  "allowed_loop [] vendor method = None"
| "allowed_loop ((v, m) # ms) vendor method =
     (if v = EAP_VENDOR_IETF \<and> m = 0 then Some False
      else if v = vendor \<and> m = method then Some True
      else allowed_loop ms vendor method)"

definition eap_allowed_method :: "'p eap_sm \<Rightarrow> int \<Rightarrow> u32 \<Rightarrow> bool option" where
  "eap_allowed_method sm vendor method = (case v_config (es_eapol sm) of
     None \<Rightarrow> Some True
   | Some c \<Rightarrow> (case pc_eap_methods c of None \<Rightarrow> Some True | Some ms \<Rightarrow> allowed_loop ms vendor method))"

definition eap_sm_allowMethod :: "'p eap_env \<Rightarrow> 'p eap_sm \<Rightarrow> int \<Rightarrow> u32 \<Rightarrow> bool option" where
  "eap_sm_allowMethod env sm vendor method = do {
     a \<leftarrow> eap_allowed_method sm vendor method;
     Some (a \<and> get_method env vendor method \<noteq> None) }"

definition eap_deinit_prev_method :: "'p eap_sm \<Rightarrow> 'p eap_sm" where
  "eap_deinit_prev_method sm =
     (if es_m sm = None \<or> es_priv sm = None then sm else sm\<lparr>es_priv := None, es_m := None\<rparr>)"

text \<open>\<open>eap_sm_request\<close>: the request is counted in the configuration and sent to the control interface.\<close>

definition count_request :: "ctrl_req \<Rightarrow> eap_peer_config \<Rightarrow> (eap_peer_config \<times> ctrl_req) option" where
  "count_request r c = (case r of
     REQ_IDENTITY \<Rightarrow> Some (c\<lparr>pc_pending_identity := pc_pending_identity c + 1\<rparr>, r)
   | REQ_PASSWORD \<Rightarrow> Some (c\<lparr>pc_pending_password := pc_pending_password c + 1\<rparr>, r)
   | REQ_NEW_PASSWORD \<Rightarrow> Some (c\<lparr>pc_pending_new_password := pc_pending_new_password c + 1\<rparr>, r)
   | REQ_PIN \<Rightarrow> Some (c\<lparr>pc_pending_pin := pc_pending_pin c + 1\<rparr>, r)
   | REQ_PASSPHRASE \<Rightarrow> Some (c\<lparr>pc_pending_passphrase := pc_pending_passphrase c + 1\<rparr>, r)
   | REQ_OTP (Some msg) \<Rightarrow>
       let txt = [0x5b] @ msg @ [0x5d] in Some (c\<lparr>pc_pending_otp := Some txt\<rparr>, REQ_OTP (Some txt))
   | REQ_OTP None \<Rightarrow> (case pc_pending_otp c of None \<Rightarrow> None | Some txt \<Rightarrow> Some (c, REQ_OTP (Some txt))))"

definition eap_sm_request :: "bool \<Rightarrow> ctrl_req \<Rightarrow> 'p eap_sm \<Rightarrow> 'p eap_sm" where
  "eap_sm_request ok r sm = (case v_config (es_eapol sm) of
     None \<Rightarrow> sm
   | Some c \<Rightarrow>
       if \<not> ok \<and> (case r of REQ_OTP (Some m) \<Rightarrow> True | _ \<Rightarrow> False) then sm
       else (case count_request r c of
         None \<Rightarrow> sm
       | Some (c, r) \<Rightarrow> eap_log (Eap_param_needed r) (sm\<lparr>es_eapol := (es_eapol sm)\<lparr>v_config := Some c\<rparr>\<rparr>)))"

definition eap_sm_notify_ctrl_attached :: "'p eap_sm \<Rightarrow> 'p eap_sm" where
  "eap_sm_notify_ctrl_attached sm = (case v_config (es_eapol sm) of
     None \<Rightarrow> sm
   | Some c \<Rightarrow>
       let req = (\<lambda>b r sm. if b then eap_sm_request True r sm else sm);
           sm = req (pc_pending_identity c \<noteq> 0) REQ_IDENTITY sm;
           sm = req (pc_pending_password c \<noteq> 0) REQ_PASSWORD sm;
           sm = req (pc_pending_new_password c \<noteq> 0) REQ_NEW_PASSWORD sm;
           sm = req (pc_pending_otp c \<noteq> None) (REQ_OTP None) sm;
           sm = req (pc_pending_pin c \<noteq> 0) REQ_PIN sm
       in req (pc_pending_passphrase c \<noteq> 0) REQ_PASSPHRASE sm)"

definition eap_allowed_phase2_type :: "int \<Rightarrow> u8 \<Rightarrow> bool" where
  "eap_allowed_phase2_type vendor type \<longleftrightarrow>
     vendor = EAP_VENDOR_IETF \<and> type \<noteq> EAP_TYPE_PEAP \<and> type \<noteq> EAP_TYPE_TTLS \<and> type \<noteq> 43"

definition eap_get_phase2_type :: "eap_method list \<Rightarrow> bytes \<Rightarrow> u8 \<times> int" where
  "eap_get_phase2_type methods name =
     (case eap_peer_get_type methods name of (v, type) \<Rightarrow>
        if eap_allowed_phase2_type v type then (type, v) else (EAP_TYPE_NONE, EAP_VENDOR_IETF))"

definition eap_get_phase2_types :: "bool \<Rightarrow> eap_method list \<Rightarrow> eap_peer_config option \<Rightarrow> (int \<times> u8) list option" where
  "eap_get_phase2_types ok methods config =
     (if methods = [] \<or> \<not> ok then None
      else Some (map (\<lambda>m. (em_vendor m, em_method m)) (filter (\<lambda>m. eap_allowed_phase2_type (em_vendor m) (em_method m) \<and>
        \<not> (em_vendor m = EAP_VENDOR_IETF \<and> em_method m = EAP_TYPE_TLS \<and>
           (case config of None \<Rightarrow> False | Some c \<Rightarrow> \<not> pc_private_key2 c))) methods)))"

section \<open>Building responses\<close>

fun expanded_nak_loop :: "'p eap_sm \<Rightarrow> wpabuf \<Rightarrow> bool \<Rightarrow> eap_method list \<Rightarrow> (wpabuf \<times> bool) option" where
  "expanded_nak_loop sm resp found [] = Some (resp, found)"
| "expanded_nak_loop sm resp found (m # ms) =
     (if es_reqVendor sm = em_vendor m \<and> es_reqVendorMethod sm = ucast (em_method m) then expanded_nak_loop sm resp found ms
      else do {
        a \<leftarrow> eap_allowed_method sm (em_vendor m) (ucast (em_method m));
        if a then do {
          resp \<leftarrow> wpabuf_put_u8 resp EAP_TYPE_EXPANDED;
          resp \<leftarrow> wpabuf_put_be24 resp (of_int (em_vendor m));
          resp \<leftarrow> wpabuf_put_be32 resp (ucast (em_method m));
          expanded_nak_loop sm resp True ms }
        else expanded_nak_loop sm resp found ms })"

definition eap_sm_build_expanded_nak :: "'p eap_env \<Rightarrow> 'p eap_sm \<Rightarrow> u8 \<Rightarrow> eap_method list \<Rightarrow> nat \<Rightarrow> wpabuf option option" where
  "eap_sm_build_expanded_nak env sm ident methods count = do {
     resp \<leftarrow> eap_msg_alloc (ee_alloc env sm) EAP_VENDOR_IETF EAP_TYPE_EXPANDED (8 + 8 * (count + 1)) EAP_CODE_RESPONSE ident;
     (case resp of
        None \<Rightarrow> Some None
      | Some resp \<Rightarrow> do {
          resp \<leftarrow> wpabuf_put_be24 resp 0;
          resp \<leftarrow> wpabuf_put_be32 resp (ucast EAP_TYPE_NAK);
          (resp, found) \<leftarrow> expanded_nak_loop sm resp False methods;
          resp \<leftarrow> (if found then Some resp
                  else do {
                    resp \<leftarrow> wpabuf_put_u8 resp EAP_TYPE_EXPANDED;
                    resp \<leftarrow> wpabuf_put_be24 resp 0;
                    wpabuf_put_be32 resp (ucast EAP_TYPE_NONE) });
          resp \<leftarrow> eap_update_len resp;
          Some (Some resp) }) }"

fun nak_loop :: "'p eap_sm \<Rightarrow> wpabuf \<Rightarrow> bool \<Rightarrow> bool \<Rightarrow> eap_method list \<Rightarrow> (wpabuf \<times> bool) option" where
  "nak_loop sm resp found expanded_found [] = Some (resp, found)"
| "nak_loop sm resp found expanded_found (m # ms) =
     (if em_vendor m = EAP_VENDOR_IETF \<and> em_method m = es_reqMethod sm then nak_loop sm resp found expanded_found ms
      else do {
        a \<leftarrow> eap_allowed_method sm (em_vendor m) (ucast (em_method m));
        if \<not> a then nak_loop sm resp found expanded_found ms
        else if em_vendor m \<noteq> EAP_VENDOR_IETF then
          (if expanded_found then nak_loop sm resp found expanded_found ms
           else do { resp \<leftarrow> wpabuf_put_u8 resp EAP_TYPE_EXPANDED; nak_loop sm resp True True ms })
        else do { resp \<leftarrow> wpabuf_put_u8 resp (em_method m); nak_loop sm resp True expanded_found ms } })"

definition eap_sm_buildNak :: "'p eap_env \<Rightarrow> 'p eap_sm \<Rightarrow> u8 \<Rightarrow> wpabuf option option" where
  "eap_sm_buildNak env sm ident =
     (let (methods, count) = eap_peer_get_methods (ee_methods env)
      in if methods = [] then Some None
         else if es_reqMethod sm = EAP_TYPE_EXPANDED then eap_sm_build_expanded_nak env sm ident methods count
         else do {
           resp \<leftarrow> eap_msg_alloc (ee_alloc env sm) EAP_VENDOR_IETF EAP_TYPE_NAK (4 + 1 + count + 1) EAP_CODE_RESPONSE ident;
           (case resp of
              None \<Rightarrow> Some None
            | Some resp \<Rightarrow> do {
                (resp, found) \<leftarrow> nak_loop sm resp False False methods;
                resp \<leftarrow> (if found then Some resp else wpabuf_put_u8 resp EAP_TYPE_NONE);
                resp \<leftarrow> eap_update_len resp;
                Some (Some resp) }) })"

text \<open>Without smart card support a configuration with \<open>pcsc\<close> yields no identity.\<close>

definition eap_sm_buildIdentity :: "'p eap_env \<Rightarrow> 'p eap_sm \<Rightarrow> u8 \<Rightarrow> bool \<Rightarrow> (wpabuf option \<times> 'p eap_sm) option" where
  "eap_sm_buildIdentity env sm ident encrypted = (case v_config (es_eapol sm) of
     None \<Rightarrow> Some (None, sm)
   | Some config \<Rightarrow>
       let identity = (case Option.bind (es_m sm) (\<lambda>m. ee_get_identity env m sm) of
             Some i \<Rightarrow> Some i
           | None \<Rightarrow> if \<not> encrypted \<and> pc_anonymous_identity config \<noteq> None then pc_anonymous_identity config
                     else pc_identity config)
       in (case identity of
             None \<Rightarrow> if pc_pcsc config then Some (None, sm) else Some (None, eap_sm_request True REQ_IDENTITY sm)
           | Some i \<Rightarrow>
               if pc_pcsc config then Some (None, sm)
               else do {
                 resp \<leftarrow> eap_msg_alloc (ee_alloc env sm) EAP_VENDOR_IETF EAP_TYPE_IDENTITY (length i) EAP_CODE_RESPONSE ident;
                 (case resp of
                    None \<Rightarrow> Some (None, sm)
                  | Some resp \<Rightarrow> do { resp \<leftarrow> wpabuf_put_data resp (Some i); Some (Some resp, sm) }) }))"

definition isprint :: "u8 \<Rightarrow> bool" where
  "isprint c \<longleftrightarrow> 0x20 \<le> c \<and> c \<le> 0x7e"

definition eap_sm_processNotify :: "'p eap_env \<Rightarrow> 'p eap_sm \<Rightarrow> wpabuf option \<Rightarrow> 'p eap_sm option" where
  "eap_sm_processNotify env sm req = do {
     req \<leftarrow> req;
     p \<leftarrow> eap_hdr_validate EAP_VENDOR_IETF EAP_TYPE_NOTIFICATION req;
     (case p of
        None \<Rightarrow> Some sm
      | Some (pos, len) \<Rightarrow>
          if \<not> ee_alloc env sm then Some sm
          else do {
            d \<leftarrow> rd_bytes (wpabuf_head req) pos len;
            Some (eap_log (Eap_notification (map (\<lambda>c. if isprint c then c else 0x5f) d)) sm) }) }"

definition eap_sm_buildNotify :: "'p eap_env \<Rightarrow> 'p eap_sm \<Rightarrow> u8 \<Rightarrow> wpabuf option option" where
  "eap_sm_buildNotify env sm ident =
     eap_msg_alloc (ee_alloc env sm) EAP_VENDOR_IETF EAP_TYPE_NOTIFICATION 0 EAP_CODE_RESPONSE ident"

text \<open>The data of an identity request are only dumped: the header is read, and the length is at least 5.\<close>

definition eap_sm_processIdentity :: "'p eap_sm \<Rightarrow> wpabuf option \<Rightarrow> 'p eap_sm option" where
  "eap_sm_processIdentity sm req = do {
     req \<leftarrow> req;
     l \<leftarrow> rd_be16 (wpabuf_head req) 2;
     d \<leftarrow> (if unat l < 5 then None else rd_bytes (wpabuf_head req) 5 (unat l - 5));
     Some (eap_log Eap_started sm) }"

section \<open>Parsing requests\<close>

definition parse_code :: "'p eap_sm \<Rightarrow> bytes \<Rightarrow> nat \<Rightarrow> u8 \<Rightarrow> 'p eap_sm option" where
  "parse_code sm mem plen code =
     (if code = EAP_CODE_REQUEST then
        (if plen < 5 then Some sm
         else do {
           t \<leftarrow> rd mem 4;
           let sm = sm\<lparr>es_rxReq := True, es_reqMethod := t\<rparr>;
           if t = EAP_TYPE_EXPANDED then
             (if plen < 12 then Some sm
              else do {
                v \<leftarrow> rd_be24 mem 5;
                m \<leftarrow> rd_be32 mem 8;
                Some (sm\<lparr>es_reqVendor := uint v, es_reqVendorMethod := m\<rparr>) })
           else Some sm })
      else if code = EAP_CODE_RESPONSE then
        (if es_selectedMethod sm = EAP_TYPE_LEAP then
           (if plen < 5 then Some sm
            else do { t \<leftarrow> rd mem 4; Some (sm\<lparr>es_rxResp := True, es_reqMethod := t\<rparr>) })
         else Some sm)
      else if code = EAP_CODE_SUCCESS then Some (sm\<lparr>es_rxSuccess := True\<rparr>)
      else if code = EAP_CODE_FAILURE then Some (sm\<lparr>es_rxFailure := True\<rparr>)
      else Some sm)"

definition eap_sm_parseEapReq :: "'p eap_env \<Rightarrow> 'p eap_sm \<Rightarrow> wpabuf option \<Rightarrow> 'p eap_sm option" where
  "eap_sm_parseEapReq env sm req =
     (let sm = sm\<lparr>es_rxReq := False, es_rxResp := False, es_rxSuccess := False, es_rxFailure := False, es_reqId := 0,
        es_reqMethod := EAP_TYPE_NONE, es_reqVendor := EAP_VENDOR_IETF, es_reqVendorMethod := 0\<rparr>
      in case req of
           None \<Rightarrow> Some sm
         | Some req \<Rightarrow>
             if wpabuf_len req < 4 then Some sm
             else do {
               l \<leftarrow> rd_be16 (wpabuf_head req) 2;
               let plen = unat l;
               if wpabuf_len req < plen then Some sm
               else do {
                 ident \<leftarrow> rd (wpabuf_head req) 1;
                 md5 \<leftarrow> (if es_workaround sm then do { d \<leftarrow> rd_bytes (wpabuf_head req) 0 plen; Some (ee_md5 env d) }
                        else Some (es_req_md5 sm));
                 let sm = sm\<lparr>es_reqId := uint ident, es_req_md5 := md5\<rparr>;
                 code \<leftarrow> rd (wpabuf_head req) 0;
                 parse_code sm (wpabuf_head req) plen code } })"

section \<open>Entering a state\<close>

text \<open>\<open>SM_ENTRY\<close>: a global transition into the current state is not a change.\<close>

definition eap_entry :: "bool \<Rightarrow> eap_state \<Rightarrow> 'p eap_sm \<Rightarrow> 'p eap_sm" where
  "eap_entry glob s sm = sm\<lparr>es_changed := es_changed sm \<or> \<not> glob \<or> es_state sm \<noteq> s, es_state := s\<rparr>"

definition has_reauth :: "'p eap_env \<Rightarrow> 'p eap_sm \<Rightarrow> bool" where
  "has_reauth env sm \<longleftrightarrow> (case es_m sm of None \<Rightarrow> False | Some m \<Rightarrow> ee_has_reauth_data env m sm)"

definition sm_EAP_INITIALIZE :: "'p eap_env \<Rightarrow> bool \<Rightarrow> 'p eap_sm \<Rightarrow> 'p eap_sm option" where
  "sm_EAP_INITIALIZE env glob sm =
     (let sm = eap_entry glob EAP_INITIALIZE sm;
          sm = (if es_fast_reauth sm \<and> has_reauth env sm \<and> \<not> es_prev_failure sm
                then sm\<lparr>es_priv := ee_deinit_for_reauth env (the (es_m sm)) sm\<rparr>
                else eap_deinit_prev_method sm);
          sm = sm\<lparr>es_selectedMethod := EAP_TYPE_NONE, es_methodState := METHOD_NONE, es_allowNotifications := True,
                  es_decision := DECISION_FAIL, es_ClientTimeout := 60\<rparr>;
          sm = eapol_set_int (es_ClientTimeout sm) sm;
          sm = eapol_set_bool EAPOL_eapSuccess False sm;
          sm = eapol_set_bool EAPOL_eapFail False sm;
          sm = sm\<lparr>es_eapKeyData := None, es_eapKeyAvailable := False\<rparr>;
          sm = eapol_set_bool EAPOL_eapRestart False sm;
          sm = sm\<lparr>es_lastId := -1\<rparr>;
          sm = eapol_set_bool EAPOL_eapResp False sm;
          sm = eapol_set_bool EAPOL_eapNoResp False sm
      in Some (sm\<lparr>es_num_rounds := 0, es_prev_failure := False\<rparr>))"

definition sm_EAP_DISABLED :: "bool \<Rightarrow> 'p eap_sm \<Rightarrow> 'p eap_sm option" where
  "sm_EAP_DISABLED glob sm = Some ((eap_entry glob EAP_DISABLED sm)\<lparr>es_num_rounds := 0\<rparr>)"

definition sm_EAP_IDLE :: "'p eap_sm \<Rightarrow> 'p eap_sm option" where
  "sm_EAP_IDLE sm = Some (eap_entry False EAP_IDLE sm)"

definition sm_EAP_RECEIVED :: "'p eap_env \<Rightarrow> 'p eap_sm \<Rightarrow> 'p eap_sm option" where
  "sm_EAP_RECEIVED env sm = do {
     let sm = eap_entry False EAP_RECEIVED sm;
     sm \<leftarrow> eap_sm_parseEapReq env sm (v_eapReqData (es_eapol sm));
     Some (sm\<lparr>es_num_rounds := es_num_rounds sm + 1\<rparr>) }"

definition set_nak :: "'p eap_env \<Rightarrow> 'p eap_sm \<Rightarrow> 'p eap_sm option" where
  "set_nak env sm = do {
     resp \<leftarrow> eap_sm_buildNak env sm (of_int (es_reqId sm));
     Some (sm\<lparr>es_eapRespData := resp\<rparr>) }"

definition pending_pin :: "'p eap_sm \<Rightarrow> bool" where
  "pending_pin sm \<longleftrightarrow> (case v_config (es_eapol sm) of None \<Rightarrow> False
     | Some c \<Rightarrow> pc_pending_pin c \<noteq> 0 \<or> pc_pending_passphrase c \<noteq> 0)"

definition start_method :: "'p eap_env \<Rightarrow> eap_method \<Rightarrow> bool \<Rightarrow> 'p eap_sm \<Rightarrow> 'p eap_sm option" where
  "start_method env m reinit sm = do {
     let sm = sm\<lparr>es_m := Some m, es_ClientTimeout := 60\<rparr>;
     let (priv, fx) = (if reinit then ee_init_for_reauth env m sm else ee_init env m sm);
     let sm = (set_fx fx sm)\<lparr>es_priv := priv\<rparr>;
     if priv = None then do {
       let sm = sm\<lparr>es_m := None, es_methodState := METHOD_NONE, es_selectedMethod := EAP_TYPE_NONE\<rparr>;
       if es_reqMethod sm = EAP_TYPE_TLS \<and> pending_pin sm then Some sm else set_nak env sm }
     else Some (eap_log (Eap_selected m) (sm\<lparr>es_methodState := METHOD_INIT\<rparr>)) }"

definition select_method :: "'p eap_env \<Rightarrow> u32 \<Rightarrow> 'p eap_sm \<Rightarrow> 'p eap_sm option" where
  "select_method env method sm =
     (let reinit = (es_fast_reauth sm \<and> has_reauth env sm \<and>
             (case es_m sm of None \<Rightarrow> False | Some m \<Rightarrow> em_vendor m = es_reqVendor sm \<and> ucast (em_method m) = method));
          sm = (if reinit then sm else eap_deinit_prev_method sm);
          sm = sm\<lparr>es_selectedMethod := es_reqMethod sm\<rparr>
      in case (case es_m sm of Some m \<Rightarrow> Some m | None \<Rightarrow> get_method env (es_reqVendor sm) method) of
           None \<Rightarrow> set_nak env sm
         | Some m \<Rightarrow> start_method env m reinit sm)"

definition sm_EAP_GET_METHOD :: "'p eap_env \<Rightarrow> 'p eap_sm \<Rightarrow> 'p eap_sm option" where
  "sm_EAP_GET_METHOD env sm = do {
     let sm = eap_entry False EAP_GET_METHOD sm;
     let method = (if es_reqMethod sm = EAP_TYPE_EXPANDED then es_reqVendorMethod sm else ucast (es_reqMethod sm));
     allowed \<leftarrow> eap_sm_allowMethod env sm (es_reqVendor sm) method;
     let sm = eap_log (Eap_proposed (es_reqVendor sm) method allowed) sm;
     if allowed then select_method env method sm else set_nak env sm }"

definition sm_EAP_METHOD :: "'p eap_env \<Rightarrow> 'p eap_sm \<Rightarrow> 'p eap_sm option" where
  "sm_EAP_METHOD env sm = (let sm = eap_entry False EAP_METHOD sm in
     case es_m sm of
       None \<Rightarrow> Some sm
     | Some m \<Rightarrow> do {
         let ret = \<lparr>mr_ignore = es_ignore sm, mr_methodState = es_methodState sm, mr_decision = es_decision sm,
                    mr_allowNotifications = es_allowNotifications sm\<rparr>;
         let sm = sm\<lparr>es_eapRespData := None\<rparr>;
         (priv, fx, ret, resp) \<leftarrow> ee_process env m sm ret;
         let sm = (set_fx fx sm)\<lparr>es_priv := priv, es_eapRespData := resp, es_ignore := mr_ignore ret\<rparr>;
         if mr_ignore ret then Some sm
         else do {
           let sm = sm\<lparr>es_methodState := mr_methodState ret, es_decision := mr_decision ret,
                       es_allowNotifications := mr_allowNotifications ret\<rparr>;
           Some (case ee_getKey env m sm of None \<Rightarrow> sm | Some key \<Rightarrow> sm\<lparr>es_eapKeyData := key\<rparr>) } })"

definition sm_EAP_SEND_RESPONSE :: "'p eap_env \<Rightarrow> 'p eap_sm \<Rightarrow> 'p eap_sm option" where
  "sm_EAP_SEND_RESPONSE env sm = do {
     let sm = eap_entry False EAP_SEND_RESPONSE sm;
     sm \<leftarrow> (case es_eapRespData sm of
              None \<Rightarrow> Some (sm\<lparr>es_lastRespData := None\<rparr>)
            | Some resp \<Rightarrow> do {
                dup \<leftarrow> wpabuf_dup (ee_alloc env sm) resp;
                let sm = (if es_workaround sm then sm\<lparr>es_last_md5 := es_req_md5 sm\<rparr> else sm);
                Some (eapol_set_bool EAPOL_eapResp True (sm\<lparr>es_lastId := es_reqId sm, es_lastRespData := dup\<rparr>)) });
     Some (eapol_set_int (es_ClientTimeout sm) (eapol_set_bool EAPOL_eapReq False sm)) }"

definition sm_EAP_DISCARD :: "'p eap_sm \<Rightarrow> 'p eap_sm option" where
  "sm_EAP_DISCARD sm =
     Some (eapol_set_bool EAPOL_eapNoResp True (eapol_set_bool EAPOL_eapReq False (eap_entry False EAP_DISCARD sm)))"

definition sm_EAP_IDENTITY :: "'p eap_env \<Rightarrow> 'p eap_sm \<Rightarrow> 'p eap_sm option" where
  "sm_EAP_IDENTITY env sm = do {
     let sm = eap_entry False EAP_IDENTITY sm;
     sm \<leftarrow> eap_sm_processIdentity sm (v_eapReqData (es_eapol sm));
     (resp, sm) \<leftarrow> eap_sm_buildIdentity env sm (of_int (es_reqId sm)) False;
     Some (sm\<lparr>es_eapRespData := resp\<rparr>) }"

definition sm_EAP_NOTIFICATION :: "'p eap_env \<Rightarrow> 'p eap_sm \<Rightarrow> 'p eap_sm option" where
  "sm_EAP_NOTIFICATION env sm = do {
     let sm = eap_entry False EAP_NOTIFICATION sm;
     sm \<leftarrow> eap_sm_processNotify env sm (v_eapReqData (es_eapol sm));
     resp \<leftarrow> eap_sm_buildNotify env sm (of_int (es_reqId sm));
     Some (sm\<lparr>es_eapRespData := resp\<rparr>) }"

definition sm_EAP_RETRANSMIT :: "'p eap_env \<Rightarrow> 'p eap_sm \<Rightarrow> 'p eap_sm option" where
  "sm_EAP_RETRANSMIT env sm = do {
     let sm = eap_entry False EAP_RETRANSMIT sm;
     resp \<leftarrow> (case es_lastRespData sm of None \<Rightarrow> Some None | Some b \<Rightarrow> wpabuf_dup (ee_alloc env sm) b);
     Some (sm\<lparr>es_eapRespData := resp\<rparr>) }"

definition sm_EAP_SUCCESS :: "'p eap_sm \<Rightarrow> 'p eap_sm option" where
  "sm_EAP_SUCCESS sm =
     (let sm = eap_entry False EAP_SUCCESS sm;
          sm = (if es_eapKeyData sm \<noteq> None then sm\<lparr>es_eapKeyAvailable := True\<rparr> else sm);
          sm = eapol_set_bool EAPOL_eapSuccess True sm;
          sm = eapol_set_bool EAPOL_eapReq False sm;
          sm = eapol_set_bool EAPOL_eapNoResp True sm
      in Some (eap_log Eap_success sm))"

definition sm_EAP_FAILURE :: "bool \<Rightarrow> 'p eap_sm \<Rightarrow> 'p eap_sm option" where
  "sm_EAP_FAILURE glob sm =
     (let sm = eap_entry glob EAP_FAILURE sm;
          sm = eapol_set_bool EAPOL_eapFail True sm;
          sm = eapol_set_bool EAPOL_eapReq False sm;
          sm = eapol_set_bool EAPOL_eapNoResp True sm
      in Some ((eap_log Eap_failure sm)\<lparr>es_prev_failure := True\<rparr>))"

section \<open>Transitions\<close>

definition eap_success_workaround :: "'p eap_sm \<Rightarrow> int \<Rightarrow> int \<Rightarrow> bool" where
  "eap_success_workaround sm reqId lastId \<longleftrightarrow>
     es_workaround sm \<and> (reqId = (lastId + 1) mod 256 \<or> reqId = (lastId + 2) mod 256)"

definition eap_peer_sm_step_idle :: "'p eap_env \<Rightarrow> 'p eap_sm \<Rightarrow> 'p eap_sm option" where
  "eap_peer_sm_step_idle env sm =
     (if eapol_get_bool sm EAPOL_eapReq then sm_EAP_RECEIVED env sm
      else if eapol_get_bool sm EAPOL_altAccept \<and> es_decision sm \<noteq> DECISION_FAIL \<or>
              v_idleWhile (es_eapol sm) = 0 \<and> es_decision sm = DECISION_UNCOND_SUCC then sm_EAP_SUCCESS sm
      else if eapol_get_bool sm EAPOL_altReject \<or>
              v_idleWhile (es_eapol sm) = 0 \<and> es_decision sm \<noteq> DECISION_UNCOND_SUCC \<or>
              eapol_get_bool sm EAPOL_altAccept \<and> es_methodState sm \<noteq> METHOD_CONT \<and> es_decision sm = DECISION_FAIL
           then sm_EAP_FAILURE False sm
      else if es_selectedMethod sm = EAP_TYPE_LEAP \<and> es_leap_done sm \<and> es_decision sm \<noteq> DECISION_FAIL \<and>
              es_methodState sm = METHOD_DONE then sm_EAP_SUCCESS sm
      else if es_selectedMethod sm = EAP_TYPE_PEAP \<and> es_peap_done sm \<and> es_decision sm \<noteq> DECISION_FAIL \<and>
              es_methodState sm = METHOD_DONE then sm_EAP_SUCCESS sm
      else Some sm)"

definition eap_peer_req_is_duplicate :: "'p eap_sm \<Rightarrow> bool" where
  "eap_peer_req_is_duplicate sm \<longleftrightarrow> es_reqId sm = es_lastId sm \<and> es_rxReq sm \<and>
     \<not> (es_workaround sm \<and> take 16 (es_req_md5 sm) \<noteq> take 16 (es_last_md5 sm))"

definition id_matches :: "'p eap_sm \<Rightarrow> bool" where
  "id_matches sm \<longleftrightarrow> es_reqId sm = es_lastId sm \<or> eap_success_workaround sm (es_reqId sm) (es_lastId sm)"

definition eap_peer_sm_step_received :: "'p eap_env \<Rightarrow> 'p eap_sm \<Rightarrow> 'p eap_sm option" where
  "eap_peer_sm_step_received env sm =
     (let duplicate = eap_peer_req_is_duplicate sm in
      if es_rxSuccess sm \<and> es_decision sm \<noteq> DECISION_FAIL \<and> id_matches sm then sm_EAP_SUCCESS sm
      else if es_methodState sm \<noteq> METHOD_CONT \<and>
              (es_rxFailure sm \<and> es_decision sm \<noteq> DECISION_UNCOND_SUCC \<or>
               es_rxSuccess sm \<and> es_decision sm = DECISION_FAIL \<and>
               (es_selectedMethod sm \<noteq> EAP_TYPE_LEAP \<or> es_methodState sm \<noteq> METHOD_MAY_CONT)) \<and>
              id_matches sm then sm_EAP_FAILURE False sm
      else if es_rxReq sm \<and> duplicate then sm_EAP_RETRANSMIT env sm
      else if es_rxReq sm \<and> \<not> duplicate \<and> es_reqMethod sm = EAP_TYPE_NOTIFICATION \<and> es_allowNotifications sm
           then sm_EAP_NOTIFICATION env sm
      else if es_rxReq sm \<and> \<not> duplicate \<and> es_selectedMethod sm = EAP_TYPE_NONE \<and> es_reqMethod sm = EAP_TYPE_IDENTITY
           then sm_EAP_IDENTITY env sm
      else if es_rxReq sm \<and> \<not> duplicate \<and> es_selectedMethod sm = EAP_TYPE_NONE \<and>
              es_reqMethod sm \<noteq> EAP_TYPE_IDENTITY \<and> es_reqMethod sm \<noteq> EAP_TYPE_NOTIFICATION then sm_EAP_GET_METHOD env sm
      else if es_rxReq sm \<and> \<not> duplicate \<and> es_reqMethod sm = es_selectedMethod sm \<and> es_methodState sm \<noteq> METHOD_DONE
           then sm_EAP_METHOD env sm
      else if es_selectedMethod sm = EAP_TYPE_LEAP \<and> (es_rxSuccess sm \<or> es_rxResp sm) then sm_EAP_METHOD env sm
      else sm_EAP_DISCARD sm)"

definition eap_peer_sm_step_local :: "'p eap_env \<Rightarrow> 'p eap_sm \<Rightarrow> 'p eap_sm option" where
  "eap_peer_sm_step_local env sm = (case es_state sm of
     EAP_INITIALIZE \<Rightarrow> sm_EAP_IDLE sm
   | EAP_DISABLED \<Rightarrow>
       if eapol_get_bool sm EAPOL_portEnabled \<and> \<not> es_force_disabled sm then sm_EAP_INITIALIZE env False sm else Some sm
   | EAP_IDLE \<Rightarrow> eap_peer_sm_step_idle env sm
   | EAP_RECEIVED \<Rightarrow> eap_peer_sm_step_received env sm
   | EAP_GET_METHOD \<Rightarrow> if es_selectedMethod sm = es_reqMethod sm then sm_EAP_METHOD env sm else sm_EAP_SEND_RESPONSE env sm
   | EAP_METHOD \<Rightarrow> if es_ignore sm then sm_EAP_DISCARD sm else sm_EAP_SEND_RESPONSE env sm
   | EAP_SEND_RESPONSE \<Rightarrow> sm_EAP_IDLE sm
   | EAP_DISCARD \<Rightarrow> sm_EAP_IDLE sm
   | EAP_IDENTITY \<Rightarrow> sm_EAP_SEND_RESPONSE env sm
   | EAP_NOTIFICATION \<Rightarrow> sm_EAP_SEND_RESPONSE env sm
   | EAP_RETRANSMIT \<Rightarrow> sm_EAP_SEND_RESPONSE env sm
   | EAP_SUCCESS \<Rightarrow> Some sm
   | EAP_FAILURE \<Rightarrow> Some sm)"

abbreviation (input) EAP_MAX_AUTH_ROUNDS :: int where "EAP_MAX_AUTH_ROUNDS \<equiv> 50"

definition sm_EAP_Step :: "'p eap_env \<Rightarrow> 'p eap_sm \<Rightarrow> 'p eap_sm option" where
  "sm_EAP_Step env sm =
     (if eapol_get_bool sm EAPOL_eapRestart \<and> eapol_get_bool sm EAPOL_portEnabled then sm_EAP_INITIALIZE env True sm
      else if \<not> eapol_get_bool sm EAPOL_portEnabled \<or> es_force_disabled sm then sm_EAP_DISABLED True sm
      else if EAP_MAX_AUTH_ROUNDS < es_num_rounds sm then
        (if es_num_rounds sm = EAP_MAX_AUTH_ROUNDS + 1
         then sm_EAP_FAILURE True (sm\<lparr>es_num_rounds := es_num_rounds sm + 1\<rparr>) else Some sm)
      else eap_peer_sm_step_local env sm)"

section \<open>The loop ends\<close>

lemmas eapol_sel_defs = eapol_set_bool_def eapol_set_int_def eapol_sm_set_int_def eapol_enable_timer_tick_def
  eapol_log_def eap_log_def eap_entry_def eapol_get_bool_def

text \<open>The variables that decide which transition is taken next, apart from the state.\<close>

definition ctl :: "'p eap_sm \<Rightarrow> bool \<times> bool \<times> bool \<times> bool" where
  "ctl sm = (v_eapReq (es_eapol sm), v_eapRestart (es_eapol sm), v_portEnabled (es_eapol sm), es_force_disabled sm)"

lemma if_SomeE: "(if P then a else b) = Some x \<Longrightarrow> (a = Some x \<Longrightarrow> R) \<Longrightarrow> (b = Some x \<Longrightarrow> R) \<Longrightarrow> R"
  by (simp split: if_splits)

lemma ctl_simps [simp]:
  "ctl (eap_entry g s sm) = ctl sm" "ctl (eap_log e sm) = ctl sm" "ctl (eapol_set_int n sm) = ctl sm"
  "ctl (set_fx fx sm) = ctl sm" "ctl (eap_deinit_prev_method sm) = ctl sm" "ctl (eap_sm_request ok r sm) = ctl sm"
  by (auto simp: ctl_def eapol_sel_defs set_fx_def eap_deinit_prev_method_def eap_sm_request_def count_request_def
      split: option.splits ctrl_req.splits)

lemma state_simps [simp]:
  "es_state (eap_entry g s sm) = s" "es_state (eap_log e sm) = es_state sm" "es_state (eapol_set_int n sm) = es_state sm"
  "es_state (set_fx fx sm) = es_state sm" "es_state (eap_deinit_prev_method sm) = es_state sm"
  "es_state (eap_sm_request ok r sm) = es_state sm" "es_state (eapol_set_bool v b sm) = es_state sm"
  by (auto simp: eapol_sel_defs set_fx_def eap_deinit_prev_method_def eap_sm_request_def split: option.splits)

lemma set_nak_ctl: "set_nak env sm = Some sm' \<Longrightarrow> es_state sm' = es_state sm \<and> ctl sm' = ctl sm"
  by (auto simp: set_nak_def ctl_def split: bind_splits)

lemma parse_ctl: "eap_sm_parseEapReq env sm req = Some sm' \<Longrightarrow> es_state sm' = es_state sm \<and> ctl sm' = ctl sm"
  by (auto simp: eap_sm_parseEapReq_def parse_code_def ctl_def Let_def split: option.splits if_splits bind_splits)

lemma entry_ctl:
  "sm_EAP_RECEIVED env sm = Some sm' \<Longrightarrow> es_state sm' = EAP_RECEIVED \<and> ctl sm' = ctl sm"
  "sm_EAP_IDENTITY env sm = Some sm' \<Longrightarrow> es_state sm' = EAP_IDENTITY \<and> ctl sm' = ctl sm"
  "sm_EAP_NOTIFICATION env sm = Some sm' \<Longrightarrow> es_state sm' = EAP_NOTIFICATION \<and> ctl sm' = ctl sm"
  "sm_EAP_RETRANSMIT env sm = Some sm' \<Longrightarrow> es_state sm' = EAP_RETRANSMIT \<and> ctl sm' = ctl sm"
  subgoal by (auto simp: sm_EAP_RECEIVED_def ctl_def [of "_\<lparr>es_num_rounds := _\<rparr>"] Let_def dest!: parse_ctl split: bind_splits)
      (simp_all add: ctl_def eap_entry_def)
  subgoal by (auto simp: sm_EAP_IDENTITY_def eap_sm_processIdentity_def eap_sm_buildIdentity_def ctl_def eapol_sel_defs
        eap_sm_request_def count_request_def Let_def split: bind_splits option.splits if_splits)
  subgoal by (auto simp: sm_EAP_NOTIFICATION_def eap_sm_processNotify_def ctl_def eapol_sel_defs Let_def
        split: bind_splits option.splits if_splits)
  subgoal by (auto simp: sm_EAP_RETRANSMIT_def ctl_def eapol_sel_defs Let_def split: bind_splits)
  done

lemma ctl_upd [simp]:
  "ctl (sm\<lparr>es_priv := a\<rparr>) = ctl sm" "ctl (sm\<lparr>es_m := b\<rparr>) = ctl sm" "ctl (sm\<lparr>es_selectedMethod := c\<rparr>) = ctl sm"
  "ctl (sm\<lparr>es_methodState := d\<rparr>) = ctl sm" "ctl (sm\<lparr>es_ClientTimeout := e\<rparr>) = ctl sm"
  "ctl (sm\<lparr>es_eapRespData := f\<rparr>) = ctl sm" "ctl (sm\<lparr>es_ignore := g\<rparr>) = ctl sm" "ctl (sm\<lparr>es_decision := h\<rparr>) = ctl sm"
  "ctl (sm\<lparr>es_allowNotifications := i\<rparr>) = ctl sm" "ctl (sm\<lparr>es_eapKeyData := j\<rparr>) = ctl sm" "ctl (sm\<lparr>es_changed := k\<rparr>) = ctl sm"
  by (simp_all add: ctl_def)

lemma start_method_ctl:
  assumes "start_method env m reinit sm = Some sm'"
  shows "es_state sm' = es_state sm \<and> ctl sm' = ctl sm"
  using assms unfolding start_method_def Let_def
  by (auto simp: split_beta dest!: set_nak_ctl split: if_splits)

lemma select_method_ctl:
  assumes "select_method env method sm = Some sm'"
  shows "es_state sm' = es_state sm \<and> ctl sm' = ctl sm"
  using assms unfolding select_method_def Let_def by (auto dest!: set_nak_ctl start_method_ctl split: option.splits if_splits)

lemma get_method_ctl:
  assumes "sm_EAP_GET_METHOD env sm = Some sm'"
  shows "es_state sm' = EAP_GET_METHOD \<and> ctl sm' = ctl sm"
proof -
  obtain y m where "(if y then select_method env m (eap_log (Eap_proposed (es_reqVendor (eap_entry False EAP_GET_METHOD sm)) m y)
        (eap_entry False EAP_GET_METHOD sm))
      else set_nak env (eap_log (Eap_proposed (es_reqVendor (eap_entry False EAP_GET_METHOD sm)) m y)
        (eap_entry False EAP_GET_METHOD sm))) = Some sm'"
    using assms unfolding sm_EAP_GET_METHOD_def Let_def bind_eq_Some_conv by blast
  then show ?thesis by (cases y) (auto dest!: select_method_ctl set_nak_ctl)
qed

lemma method_ctl:
  assumes "sm_EAP_METHOD env sm = Some sm'"
  shows "es_state sm' = EAP_METHOD \<and> ctl sm' = ctl sm"
  using assms unfolding sm_EAP_METHOD_def Let_def
  by (auto simp: bind_eq_Some_conv split: if_splits option.splits)

lemma ctl_set [simp]:
  "ctl (eapol_set_bool EAPOL_eapReq b sm) = (b, snd (ctl sm))"
  "ctl (eapol_set_bool EAPOL_eapRestart b sm) = (fst (ctl sm), b, snd (snd (ctl sm)))"
  "ctl (eapol_set_bool EAPOL_eapResp b sm) = ctl sm" "ctl (eapol_set_bool EAPOL_eapNoResp b sm) = ctl sm"
  "ctl (eapol_set_bool EAPOL_eapSuccess b sm) = ctl sm" "ctl (eapol_set_bool EAPOL_eapFail b sm) = ctl sm"
  "ctl (sm\<lparr>es_lastId := l\<rparr>) = ctl sm" "ctl (sm\<lparr>es_lastRespData := d\<rparr>) = ctl sm" "ctl (sm\<lparr>es_last_md5 := h\<rparr>) = ctl sm"
  "ctl (sm\<lparr>es_num_rounds := r\<rparr>) = ctl sm" "ctl (sm\<lparr>es_prev_failure := f\<rparr>) = ctl sm" "ctl (sm\<lparr>es_eapKeyAvailable := k\<rparr>) = ctl sm"
  by (simp_all add: ctl_def eapol_set_bool_def)

lemma final_ctl:
  "sm_EAP_SEND_RESPONSE env sm = Some sm' \<Longrightarrow> es_state sm' = EAP_SEND_RESPONSE \<and> ctl sm' = (False, snd (ctl sm))"
  "sm_EAP_DISCARD sm = Some sm' \<Longrightarrow> es_state sm' = EAP_DISCARD \<and> ctl sm' = (False, snd (ctl sm))"
  "sm_EAP_SUCCESS sm = Some sm' \<Longrightarrow> es_state sm' = EAP_SUCCESS \<and> ctl sm' = (False, snd (ctl sm))"
  "sm_EAP_FAILURE g sm = Some sm' \<Longrightarrow> es_state sm' = EAP_FAILURE \<and> ctl sm' = (False, snd (ctl sm))"
  "sm_EAP_IDLE sm = Some sm' \<Longrightarrow> es_state sm' = EAP_IDLE \<and> ctl sm' = ctl sm"
  "sm_EAP_DISABLED g sm = Some sm' \<Longrightarrow> es_state sm' = EAP_DISABLED \<and> ctl sm' = ctl sm \<and>
     (g \<and> es_state sm = EAP_DISABLED \<and> \<not> es_changed sm \<longrightarrow> \<not> es_changed sm')"
  "sm_EAP_INITIALIZE env g sm = Some sm' \<Longrightarrow> es_state sm' = EAP_INITIALIZE \<and> ctl sm' = (fst (ctl sm), False, snd (snd (ctl sm)))"
  by (auto simp: sm_EAP_SEND_RESPONSE_def sm_EAP_DISCARD_def sm_EAP_SUCCESS_def sm_EAP_FAILURE_def sm_EAP_IDLE_def
      sm_EAP_DISABLED_def sm_EAP_INITIALIZE_def Let_def bind_eq_Some_conv split: option.splits if_splits)
    (simp add: eap_entry_def)

lemmas step_ctl = entry_ctl get_method_ctl method_ctl final_ctl

text \<open>How far the machine can still move: the number decreases with every change.\<close>

definition state_rank :: "bool \<Rightarrow> eap_state \<Rightarrow> nat" where
  "state_rank req s = (case s of EAP_DISABLED \<Rightarrow> 11 | EAP_INITIALIZE \<Rightarrow> 10 | EAP_SEND_RESPONSE \<Rightarrow> if req then 9 else 3
     | EAP_DISCARD \<Rightarrow> if req then 9 else 3 | EAP_IDLE \<Rightarrow> if req then 8 else 2 | EAP_RECEIVED \<Rightarrow> 7 | EAP_GET_METHOD \<Rightarrow> 6
     | EAP_METHOD \<Rightarrow> 5 | EAP_IDENTITY \<Rightarrow> 5 | EAP_NOTIFICATION \<Rightarrow> 5 | EAP_RETRANSMIT \<Rightarrow> 5 | EAP_SUCCESS \<Rightarrow> 1 | EAP_FAILURE \<Rightarrow> 0)"

definition eap_rank :: "'p eap_sm \<Rightarrow> nat" where
  "eap_rank sm = (let (req, restart, enabled, off) = ctl sm
     in (if restart \<and> enabled then 20 else 0) +
        (if \<not> enabled \<or> off then (if es_state sm = EAP_DISABLED then 0 else 1) else state_rank req (es_state sm)))"

lemma idle_next:
  "eap_peer_sm_step_idle env sm = Some sm' \<Longrightarrow>
     eapol_get_bool sm EAPOL_eapReq \<and> sm_EAP_RECEIVED env sm = Some sm' \<or> sm_EAP_SUCCESS sm = Some sm' \<or>
     sm_EAP_FAILURE False sm = Some sm' \<or> sm' = sm"
  unfolding eap_peer_sm_step_idle_def
  by (cases "eapol_get_bool sm EAPOL_eapReq", simp, simp only: if_False, (erule if_SomeE, simp)+, simp)

lemma received_next:
  "eap_peer_sm_step_received env sm = Some sm' \<Longrightarrow>
     sm_EAP_SUCCESS sm = Some sm' \<or> sm_EAP_FAILURE False sm = Some sm' \<or> sm_EAP_RETRANSMIT env sm = Some sm' \<or>
     sm_EAP_NOTIFICATION env sm = Some sm' \<or> sm_EAP_IDENTITY env sm = Some sm' \<or> sm_EAP_GET_METHOD env sm = Some sm' \<or>
     sm_EAP_METHOD env sm = Some sm' \<or> sm_EAP_DISCARD sm = Some sm'"
  unfolding eap_peer_sm_step_received_def Let_def by ((erule if_SomeE, simp)+, simp)

lemma local_rank:
  assumes "eap_peer_sm_step_local env (sm\<lparr>es_changed := False\<rparr>) = Some sm'" "es_changed sm'"
    and c: "ctl sm = (req, False, True, False)"
  shows "eap_rank sm' < eap_rank sm"
proof -
  let ?sm = "sm\<lparr>es_changed := False\<rparr>"
  have c': "ctl ?sm = (req, False, True, False)" using c by simp
  have ne: "?sm \<noteq> sm'" using assms(2) by auto
  have v: "eapol_get_bool ?sm EAPOL_eapReq = req" "eapol_get_bool ?sm EAPOL_portEnabled" "\<not> es_force_disabled sm"
    using c by (auto simp: ctl_def eapol_get_bool_def)
  have "snd (ctl sm') = (False, True, False) \<and> state_rank (fst (ctl sm')) (es_state sm') < state_rank req (es_state sm)"
  proof (cases "es_state sm")
    case EAP_IDLE
    then have "eap_peer_sm_step_idle env ?sm = Some sm'" using assms(1) by (simp add: eap_peer_sm_step_local_def)
    from idle_next [OF this] show ?thesis
      using ne v(1) EAP_IDLE c c' by (auto simp: state_rank_def dest!: step_ctl)
  next
    case EAP_RECEIVED
    then have "eap_peer_sm_step_received env ?sm = Some sm'" using assms(1) by (simp add: eap_peer_sm_step_local_def)
    from received_next [OF this] show ?thesis
      using EAP_RECEIVED c c' by (auto simp: state_rank_def dest!: step_ctl)
  qed (use assms(1,2) v c' in \<open>auto simp: eap_peer_sm_step_local_def state_rank_def dest!: step_ctl split: if_split_asm\<close>)
  then show ?thesis using c by (cases "ctl sm'") (simp add: eap_rank_def)
qed

lemma step_rank:
  assumes "sm_EAP_Step env (sm\<lparr>es_changed := False\<rparr>) = Some sm'" "es_changed sm'"
  shows "eap_rank sm' < eap_rank sm"
proof -
  let ?sm = "sm\<lparr>es_changed := False\<rparr>"
  obtain req restart enabled off where c: "ctl sm = (req, restart, enabled, off)" by (cases "ctl sm") auto
  have b: "v_eapRestart (es_eapol sm) = restart" "v_portEnabled (es_eapol sm) = enabled" "es_force_disabled sm = off"
    using c by (auto simp: ctl_def)
  have bound: "state_rank q s \<le> 11" for q s by (simp add: state_rank_def split: eap_state.split)
  consider (init) "restart \<and> enabled" | (off) "\<not> (restart \<and> enabled)" "\<not> enabled \<or> off"
    | (rounds) "\<not> restart" "enabled" "\<not> off" "50 < es_num_rounds sm" | (locals) "\<not> restart" "enabled" "\<not> off" "\<not> 50 < es_num_rounds sm"
    by blast
  then show ?thesis
  proof cases
    case init
    then have i: "sm_EAP_INITIALIZE env True ?sm = Some sm'" using assms(1) b by (simp add: sm_EAP_Step_def eapol_get_bool_def)
    note f = final_ctl(7) [OF i]
    have "eap_rank sm' \<le> 11" using f c bound [of req EAP_INITIALIZE] by (simp add: eap_rank_def)
    then show ?thesis using init c by (simp add: eap_rank_def)
  next
    case off
    then have i: "sm_EAP_DISABLED True ?sm = Some sm'" using assms(1) b by (auto simp: sm_EAP_Step_def eapol_get_bool_def)
    show ?thesis using final_ctl(6) [OF i] assms(2) off c by (auto simp: eap_rank_def)
  next
    case rounds
    then have i: "sm_EAP_FAILURE True (?sm\<lparr>es_num_rounds := es_num_rounds sm + 1\<rparr>) = Some sm'"
      using assms b by (auto simp: sm_EAP_Step_def eapol_get_bool_def split: if_splits)
    have "es_state sm \<noteq> EAP_FAILURE" using i assms(2) by (auto simp: sm_EAP_FAILURE_def eapol_sel_defs Let_def)
    then have "0 < state_rank req (es_state sm)" by (simp add: state_rank_def split: eap_state.split)
    moreover have "state_rank False EAP_FAILURE = 0" by (simp add: state_rank_def)
    ultimately show ?thesis using final_ctl(4) [OF i] rounds c by (simp add: eap_rank_def)
  next
    case locals
    then show ?thesis using local_rank [of env sm sm' req] assms b c by (auto simp: sm_EAP_Step_def eapol_get_bool_def)
  qed
qed

function eap_peer_sm_step :: "'p eap_env \<Rightarrow> 'p eap_sm \<Rightarrow> (bool \<times> 'p eap_sm) option" where
  "eap_peer_sm_step env sm = (case sm_EAP_Step env (sm\<lparr>es_changed := False\<rparr>) of
     None \<Rightarrow> None
   | Some sm' \<Rightarrow>
       if es_changed sm' then map_option (\<lambda>(res, sm''). (True, sm'')) (eap_peer_sm_step env sm')
       else Some (False, sm'))"
  by pat_completeness auto
termination
  by (relation "measure (\<lambda>(env, sm). eap_rank sm)") (simp_all add: step_rank)

declare eap_peer_sm_step.simps [simp del]

section \<open>The remaining interface\<close>

definition eap_sm_abort :: "'p eap_sm \<Rightarrow> 'p eap_sm" where
  "eap_sm_abort sm = eapol_set_bool EAPOL_eapSuccess False
     (sm\<lparr>es_lastRespData := None, es_eapRespData := None, es_eapKeyData := None\<rparr>)"

definition eap_peer_sm_deinit :: "'p eap_sm \<Rightarrow> 'p eap_sm" where
  "eap_peer_sm_deinit sm = eap_sm_abort (eap_deinit_prev_method sm)"

definition eap_key_available :: "'p eap_sm \<Rightarrow> bool" where
  "eap_key_available sm = es_eapKeyAvailable sm"

definition eap_notify_success :: "'p eap_sm \<Rightarrow> 'p eap_sm" where
  "eap_notify_success sm = sm\<lparr>es_decision := DECISION_COND_SUCC, es_state := EAP_SUCCESS\<rparr>"

definition eap_notify_lower_layer_success :: "'p eap_sm \<Rightarrow> 'p eap_sm" where
  "eap_notify_lower_layer_success sm =
     (if eapol_get_bool sm EAPOL_eapSuccess \<or> es_decision sm = DECISION_FAIL \<or>
         es_methodState sm \<noteq> METHOD_MAY_CONT \<and> es_methodState sm \<noteq> METHOD_DONE then sm
      else let sm = (if es_eapKeyData sm \<noteq> None then sm\<lparr>es_eapKeyAvailable := True\<rparr> else sm)
           in eap_log Eap_success (eapol_set_bool EAPOL_eapSuccess True sm))"

definition eap_get_eapKeyData :: "'p eap_sm \<Rightarrow> bytes option" where
  "eap_get_eapKeyData sm = es_eapKeyData sm"

definition eap_get_eapRespData :: "'p eap_sm \<Rightarrow> wpabuf option \<times> 'p eap_sm" where
  "eap_get_eapRespData sm = (es_eapRespData sm, sm\<lparr>es_eapRespData := None\<rparr>)"

definition eap_set_fast_reauth :: "bool \<Rightarrow> 'p eap_sm \<Rightarrow> 'p eap_sm" where
  "eap_set_fast_reauth enabled sm = sm\<lparr>es_fast_reauth := enabled\<rparr>"

definition eap_set_workaround :: "bool \<Rightarrow> 'p eap_sm \<Rightarrow> 'p eap_sm" where
  "eap_set_workaround workaround sm = sm\<lparr>es_workaround := workaround\<rparr>"

definition eap_set_force_disabled :: "bool \<Rightarrow> 'p eap_sm \<Rightarrow> 'p eap_sm" where
  "eap_set_force_disabled disabled sm = sm\<lparr>es_force_disabled := disabled\<rparr>"

definition eap_invalidate_cached_session :: "'p eap_sm \<Rightarrow> 'p eap_sm" where
  "eap_invalidate_cached_session sm = eap_deinit_prev_method sm"

definition zero_vars :: eapol_vars where
  "zero_vars = \<lparr>v_eapSuccess = False, v_eapRestart = False, v_eapFail = False, v_eapResp = False, v_eapNoResp = False,
     v_eapReq = False, v_portEnabled = False, v_altAccept = False, v_altReject = False, v_idleWhile = 0,
     v_timer_tick_enabled = False, v_eapReqData = None, v_config = None, v_log = []\<rparr>"

text \<open>\<open>os_zalloc\<close> leaves \<open>EAP_INITIALIZE\<close>, the first constant, as the state. \<open>tls\<close> is the outcome of \<open>tls_init\<close>.\<close>

definition eap_peer_sm_init :: "bool \<Rightarrow> bool \<Rightarrow> eapol_vars \<Rightarrow> 'p eap_sm option" where
  "eap_peer_sm_init alloc tls v = (if \<not> alloc \<or> \<not> tls then None
     else Some \<lparr>es_state = EAP_INITIALIZE, es_selectedMethod = 0, es_methodState = METHOD_NONE, es_lastId = 0,
       es_lastRespData = None, es_decision = DECISION_FAIL, es_rxReq = False, es_rxSuccess = False, es_rxFailure = False,
       es_reqId = 0, es_reqMethod = 0, es_reqVendor = 0, es_reqVendorMethod = 0, es_ignore = False, es_ClientTimeout = 60,
       es_allowNotifications = False, es_eapRespData = None, es_eapKeyAvailable = False, es_eapKeyData = None, es_m = None,
       es_changed = False, es_priv = None, es_fast_reauth = False, es_rxResp = False, es_leap_done = False,
       es_peap_done = False, es_req_md5 = replicate 16 0, es_last_md5 = replicate 16 0, es_workaround = False,
       es_num_rounds = 0, es_force_disabled = False, es_prev_failure = False, es_eapol = v\<rparr>)"

end
