(* ===== verification/Eap_Peer_Safe.thy ===== *)
theory Eap_Peer_Safe
  imports Eap_Peer
begin

text \<open>
  What the EAP peer state machine guarantees, whatever frames arrive and in whatever order the lower layer changes
  the shared variables: it never announces success that nobody decided in the session, its loop ends in one of the states
  where it waits, without a fault, and its negative acknowledgement offers exactly the methods that are allowed.
\<close>

section \<open>Success is decided in the session\<close>

text \<open>
  Who has decided in a session, which starts when the machine enters \<open>INITIALIZE\<close>: a method, by the value that the
  call made in state \<open>METHOD\<close> returned for a message that was not ignored, or the lower layer, which calls
  \<open>eap_notify_success\<close> when the key handshake of WPA-PSK or a cached PMK stands in for EAP. The history of decisions is
  not part of the program; it is recorded beside the state.
\<close>

datatype decider = By_method eap_method EapDecision | By_lower_layer

definition method_call :: "'p eap_env \<Rightarrow> 'p eap_sm \<Rightarrow> decider list" where
  "method_call env sm = (let sm = eap_entry False EAP_METHOD sm in
     case es_m sm of
       None \<Rightarrow> []
     | Some m \<Rightarrow>
         (case ee_process env m (sm\<lparr>es_eapRespData := None\<rparr>)
            \<lparr>mr_ignore = es_ignore sm, mr_methodState = es_methodState sm, mr_decision = es_decision sm,
             mr_allowNotifications = es_allowNotifications sm\<rparr> of
            None \<Rightarrow> []
          | Some (priv, fx, ret, resp) \<Rightarrow> if mr_ignore ret then [] else [By_method m (mr_decision ret)]))"

text \<open>What one iteration of the loop, from \<open>sm\<close> to \<open>sm'\<close>, adds to the history.\<close>

definition recorded :: "'p eap_env \<Rightarrow> 'p eap_sm \<Rightarrow> 'p eap_sm \<Rightarrow> decider list \<Rightarrow> decider list" where
  "recorded env sm sm' h =
     (if es_state sm' = EAP_INITIALIZE then []
      else if es_state sm' = EAP_METHOD \<and> es_changed sm' then h @ method_call env sm
      else h)"

definition verdict :: "decider list \<Rightarrow> EapDecision" where
  "verdict h = (if h = [] then DECISION_FAIL
     else case last h of By_method m d \<Rightarrow> d | By_lower_layer \<Rightarrow> DECISION_COND_SUCC)"

definition decision_inv :: "'p eap_sm \<Rightarrow> decider list \<Rightarrow> bool" where
  "decision_inv sm h \<longleftrightarrow> es_decision sm = verdict h \<and> (es_state sm = EAP_INITIALIZE \<longrightarrow> es_decision sm = DECISION_FAIL) \<and>
     (es_state sm = EAP_SUCCESS \<longrightarrow> es_decision sm \<noteq> DECISION_FAIL)"

lemma decision_simps [simp]:
  "es_decision (eap_entry g s sm) = es_decision sm" "es_decision (eap_log e sm) = es_decision sm"
  "es_decision (eapol_set_int n sm) = es_decision sm" "es_decision (set_fx fx sm) = es_decision sm"
  "es_decision (eap_deinit_prev_method sm) = es_decision sm" "es_decision (eap_sm_request ok r sm) = es_decision sm"
  "es_decision (eapol_set_bool v b sm) = es_decision sm"
  by (auto simp: eapol_sel_defs set_fx_def eap_deinit_prev_method_def eap_sm_request_def split: option.splits)

lemma changed_simps [simp]:
  "es_changed (eap_entry False s sm)" "es_changed (eap_log e sm) = es_changed sm"
  "es_changed (eapol_set_int n sm) = es_changed sm" "es_changed (set_fx fx sm) = es_changed sm"
  "es_changed (eap_deinit_prev_method sm) = es_changed sm" "es_changed (eap_sm_request ok r sm) = es_changed sm"
  "es_changed (eapol_set_bool v b sm) = es_changed sm"
  by (auto simp: eapol_sel_defs set_fx_def eap_deinit_prev_method_def eap_sm_request_def split: option.splits)

lemma set_nak_decision: "set_nak env sm = Some sm' \<Longrightarrow> es_decision sm' = es_decision sm \<and> es_changed sm' = es_changed sm"
  by (auto simp: set_nak_def split: bind_splits)

lemma parse_decision: "eap_sm_parseEapReq env sm req = Some sm' \<Longrightarrow> es_decision sm' = es_decision sm \<and> es_changed sm' = es_changed sm"
  by (auto simp: eap_sm_parseEapReq_def parse_code_def Let_def split: option.splits if_splits bind_splits)

lemma start_method_decision: "start_method env m reinit sm = Some sm' \<Longrightarrow> es_decision sm' = es_decision sm \<and> es_changed sm' = es_changed sm"
  unfolding start_method_def Let_def by (auto simp: split_beta dest!: set_nak_decision split: if_splits)

lemma select_method_decision: "select_method env method sm = Some sm' \<Longrightarrow> es_decision sm' = es_decision sm \<and> es_changed sm' = es_changed sm"
  unfolding select_method_def Let_def
  by (auto dest!: set_nak_decision start_method_decision split: option.splits if_splits)

lemma entry_decision:
  "sm_EAP_RECEIVED env sm = Some sm' \<Longrightarrow> es_decision sm' = es_decision sm \<and> es_changed sm'"
  "sm_EAP_IDENTITY env sm = Some sm' \<Longrightarrow> es_decision sm' = es_decision sm \<and> es_changed sm'"
  "sm_EAP_NOTIFICATION env sm = Some sm' \<Longrightarrow> es_decision sm' = es_decision sm \<and> es_changed sm'"
  "sm_EAP_RETRANSMIT env sm = Some sm' \<Longrightarrow> es_decision sm' = es_decision sm \<and> es_changed sm'"
  "sm_EAP_SEND_RESPONSE env sm = Some sm' \<Longrightarrow> es_decision sm' = es_decision sm \<and> es_changed sm'"
  "sm_EAP_DISCARD sm = Some sm' \<Longrightarrow> es_decision sm' = es_decision sm \<and> es_changed sm'"
  "sm_EAP_SUCCESS sm = Some sm' \<Longrightarrow> es_decision sm' = es_decision sm \<and> es_changed sm'"
  "sm_EAP_FAILURE g sm = Some sm' \<Longrightarrow> es_decision sm' = es_decision sm \<and> (\<not> g \<longrightarrow> es_changed sm')"
  "sm_EAP_IDLE sm = Some sm' \<Longrightarrow> es_decision sm' = es_decision sm \<and> es_changed sm'"
  "sm_EAP_DISABLED g sm = Some sm' \<Longrightarrow> es_decision sm' = es_decision sm \<and> (\<not> g \<longrightarrow> es_changed sm')"
  "sm_EAP_INITIALIZE env g sm = Some sm' \<Longrightarrow> es_decision sm' = DECISION_FAIL \<and> (\<not> g \<longrightarrow> es_changed sm')"
  subgoal by (auto simp: sm_EAP_RECEIVED_def Let_def dest!: parse_decision split: bind_splits)
  subgoal by (auto simp: sm_EAP_IDENTITY_def eap_sm_processIdentity_def eap_sm_buildIdentity_def Let_def
        split: bind_splits option.splits if_splits)
  subgoal by (auto simp: sm_EAP_NOTIFICATION_def eap_sm_processNotify_def Let_def split: bind_splits option.splits if_splits)
  by (auto simp: sm_EAP_RETRANSMIT_def sm_EAP_SEND_RESPONSE_def sm_EAP_DISCARD_def sm_EAP_SUCCESS_def sm_EAP_FAILURE_def
      sm_EAP_IDLE_def sm_EAP_DISABLED_def sm_EAP_INITIALIZE_def Let_def bind_eq_Some_conv split: option.splits if_splits)

lemma get_method_decision: "sm_EAP_GET_METHOD env sm = Some sm' \<Longrightarrow> es_decision sm' = es_decision sm \<and> es_changed sm'"
  unfolding sm_EAP_GET_METHOD_def Let_def bind_eq_Some_conv
  by (elim exE conjE if_SomeE) (auto dest!: select_method_decision set_nak_decision)

lemma method_decision:
  assumes "sm_EAP_METHOD env sm = Some sm'"
  shows "es_decision sm' = (if method_call env sm = [] then es_decision sm else verdict (method_call env sm)) \<and> es_changed sm'"
proof (cases "es_m (eap_entry False EAP_METHOD sm)")
  case None
  then show ?thesis using assms by (auto simp: sm_EAP_METHOD_def method_call_def)
next
  case (Some m)
  then obtain x where x: "ee_process env m ((eap_entry False EAP_METHOD sm)\<lparr>es_eapRespData := None\<rparr>)
      \<lparr>mr_ignore = es_ignore (eap_entry False EAP_METHOD sm), mr_methodState = es_methodState (eap_entry False EAP_METHOD sm),
        mr_decision = es_decision sm, mr_allowNotifications = es_allowNotifications (eap_entry False EAP_METHOD sm)\<rparr> = Some x"
    using assms unfolding sm_EAP_METHOD_def Let_def by (auto simp: bind_eq_Some_conv)
  obtain priv fx ret' resp where p: "x = (priv, fx, ret', resp)" by (cases x)
  have "method_call env sm = (if mr_ignore ret' then [] else [By_method m (mr_decision ret')])"
    using x p Some by (simp add: method_call_def)
  moreover have "es_decision sm' = (if mr_ignore ret' then es_decision sm else mr_decision ret') \<and> es_changed sm'"
    using assms x p Some unfolding sm_EAP_METHOD_def Let_def by (cases "mr_ignore ret'") (auto split: option.splits)
  ultimately show ?thesis by (simp add: verdict_def)
qed

lemmas step_decision = entry_decision get_method_decision method_decision

lemma verdict_append: "verdict (h @ h') = (if h' = [] then verdict h else verdict h')"
  by (simp add: verdict_def)

lemma keep_decision_inv:
  assumes "decision_inv sm h" "es_decision sm' = es_decision sm" "es_state sm' \<notin> {EAP_INITIALIZE, EAP_METHOD, EAP_SUCCESS}"
  shows "decision_inv sm' (recorded env sm sm' h)"
  using assms by (simp add: decision_inv_def recorded_def)

text \<open>Entering any state but \<open>SUCCESS\<close> keeps the invariant; \<open>SUCCESS\<close> is entered only with a favourable decision.\<close>

lemma enter_decision_inv:
  assumes "decision_inv sm h"
  shows "sm_EAP_RECEIVED env sm = Some sm' \<Longrightarrow> decision_inv sm' (recorded env sm sm' h)"
    "sm_EAP_IDENTITY env sm = Some sm' \<Longrightarrow> decision_inv sm' (recorded env sm sm' h)"
    "sm_EAP_NOTIFICATION env sm = Some sm' \<Longrightarrow> decision_inv sm' (recorded env sm sm' h)"
    "sm_EAP_RETRANSMIT env sm = Some sm' \<Longrightarrow> decision_inv sm' (recorded env sm sm' h)"
    "sm_EAP_SEND_RESPONSE env sm = Some sm' \<Longrightarrow> decision_inv sm' (recorded env sm sm' h)"
    "sm_EAP_DISCARD sm = Some sm' \<Longrightarrow> decision_inv sm' (recorded env sm sm' h)"
    "sm_EAP_FAILURE g sm = Some sm' \<Longrightarrow> decision_inv sm' (recorded env sm sm' h)"
    "sm_EAP_IDLE sm = Some sm' \<Longrightarrow> decision_inv sm' (recorded env sm sm' h)"
    "sm_EAP_DISABLED g sm = Some sm' \<Longrightarrow> decision_inv sm' (recorded env sm sm' h)"
    "sm_EAP_INITIALIZE env g sm = Some sm' \<Longrightarrow> decision_inv sm' (recorded env sm sm' h)"
    "sm_EAP_GET_METHOD env sm = Some sm' \<Longrightarrow> decision_inv sm' (recorded env sm sm' h)"
    "sm_EAP_METHOD env sm = Some sm' \<Longrightarrow> decision_inv sm' (recorded env sm sm' h)"
    "es_decision sm \<noteq> DECISION_FAIL \<Longrightarrow> sm_EAP_SUCCESS sm = Some sm' \<Longrightarrow> decision_inv sm' (recorded env sm sm' h)"
    "\<not> es_changed sm \<Longrightarrow> decision_inv sm (recorded env sm sm h)"
proof -
  have d: "es_decision sm = verdict h" "es_state sm = EAP_INITIALIZE \<Longrightarrow> verdict h = DECISION_FAIL"
    "es_state sm = EAP_SUCCESS \<Longrightarrow> verdict h \<noteq> DECISION_FAIL" using assms by (auto simp: decision_inv_def)
  show "decision_inv sm' (recorded env sm sm' h)" if m: "sm_EAP_METHOD env sm = Some sm'"
    using method_decision [OF m] method_ctl [OF m] d(1) by (simp add: decision_inv_def recorded_def verdict_append)
  show "decision_inv sm' (recorded env sm sm' h)" if i: "sm_EAP_INITIALIZE env g sm = Some sm'"
    using entry_decision(11) [OF i] final_ctl(7) [OF i] by (simp add: decision_inv_def recorded_def verdict_def)
  show "decision_inv sm' (recorded env sm sm' h)" if "es_decision sm \<noteq> DECISION_FAIL" and s: "sm_EAP_SUCCESS sm = Some sm'"
    using entry_decision(7) [OF s] final_ctl(3) [OF s] that(1) d(1) by (simp add: decision_inv_def recorded_def)
  show "decision_inv sm (recorded env sm sm h)" if "\<not> es_changed sm"
    using that d by (simp add: decision_inv_def recorded_def verdict_def [of "[]"])
qed (auto intro!: keep_decision_inv [OF assms] dest: step_decision step_ctl)

lemma idle_decision_inv:
  "decision_inv sm h \<Longrightarrow> \<not> es_changed sm \<Longrightarrow> eap_peer_sm_step_idle env sm = Some sm' \<Longrightarrow> decision_inv sm' (recorded env sm sm' h)"
  unfolding eap_peer_sm_step_idle_def by (auto intro: enter_decision_inv split: if_splits)

lemma received_other:
  assumes "\<not> (es_rxSuccess sm \<and> es_decision sm \<noteq> DECISION_FAIL \<and> id_matches sm)"
  shows "eap_peer_sm_step_received env sm = Some sm' \<Longrightarrow>
     sm_EAP_FAILURE False sm = Some sm' \<or> sm_EAP_RETRANSMIT env sm = Some sm' \<or>
     sm_EAP_NOTIFICATION env sm = Some sm' \<or> sm_EAP_IDENTITY env sm = Some sm' \<or> sm_EAP_GET_METHOD env sm = Some sm' \<or>
     sm_EAP_METHOD env sm = Some sm' \<or> sm_EAP_DISCARD sm = Some sm'"
  unfolding eap_peer_sm_step_received_def Let_def if_not_P [OF assms] by ((erule if_SomeE, simp)+, simp)

lemma received_decision_inv:
  assumes inv: "decision_inv sm h" and step: "eap_peer_sm_step_received env sm = Some sm'"
  shows "decision_inv sm' (recorded env sm sm' h)"
proof (cases "es_rxSuccess sm \<and> es_decision sm \<noteq> DECISION_FAIL \<and> id_matches sm")
  case True
  then have "sm_EAP_SUCCESS sm = Some sm'" using step by (simp add: eap_peer_sm_step_received_def)
  then show ?thesis using enter_decision_inv(13) [OF inv] True by blast
next
  case False
  note enter = enter_decision_inv(2-4,11,12) [OF inv, of env sm'] enter_decision_inv(6) [OF inv, of sm' env] enter_decision_inv(7) [OF inv, of False sm' env]
  note nxt = received_other [OF False step]
  show ?thesis using nxt enter by blast
qed

lemma local_decision_inv:
  assumes "decision_inv sm h" "\<not> es_changed sm" "eap_peer_sm_step_local env sm = Some sm'"
  shows "decision_inv sm' (recorded env sm sm' h)"
  using assms(3) enter_decision_inv [OF assms(1)] idle_decision_inv [OF assms(1,2)] received_decision_inv [OF assms(1)] assms(2)
  by (cases "es_state sm") (simp_all add: eap_peer_sm_step_local_def split: if_split_asm)

lemma Step_decision_inv:
  assumes "decision_inv sm h" "\<not> es_changed sm" "sm_EAP_Step env sm = Some sm'"
  shows "decision_inv sm' (recorded env sm sm' h)"
proof -
  let ?sm = "sm\<lparr>es_num_rounds := es_num_rounds sm + 1\<rparr>"
  have "decision_inv ?sm h" using assms(1) by (auto simp: decision_inv_def)
  then have "decision_inv sm' (recorded env sm sm' h)" if f: "sm_EAP_FAILURE True ?sm = Some sm'"
    using enter_decision_inv(7) [of ?sm h True sm' env] f final_ctl(4) [OF f] by (simp add: recorded_def)
  then show ?thesis
    using assms(2,3) enter_decision_inv [OF assms(1)] local_decision_inv [OF assms(1,2)]
    by (simp add: sm_EAP_Step_def split: if_split_asm)
qed

text \<open>
  The runs of the machine with the decisions of the current session: an iteration of the loop of \<open>eap_peer_sm_step\<close>, any
  change of the shared variables and any request from the lower layer, and every function of the interface.
\<close>

inductive eap_run :: "'p eap_env \<Rightarrow> 'p eap_sm \<Rightarrow> decider list \<Rightarrow> bool" for env where
  init: "eap_peer_sm_init alloc tls v = Some sm \<Longrightarrow> eap_run env sm []"
| iteration: "eap_run env sm h \<Longrightarrow> sm_EAP_Step env (sm\<lparr>es_changed := False\<rparr>) = Some sm' \<Longrightarrow>
    eap_run env sm' (recorded env (sm\<lparr>es_changed := False\<rparr>) sm' h)"
| lower: "eap_run env sm h \<Longrightarrow> eap_run env (sm\<lparr>es_eapol := v\<rparr>) h"
| notify_success: "eap_run env sm h \<Longrightarrow> eap_run env (eap_notify_success sm) (h @ [By_lower_layer])"
| lower_layer_success: "eap_run env sm h \<Longrightarrow> eap_run env (eap_notify_lower_layer_success sm) h"
| aborted: "eap_run env sm h \<Longrightarrow> eap_run env (eap_sm_abort sm) h"
| resp_data: "eap_run env sm h \<Longrightarrow> eap_run env (snd (eap_get_eapRespData sm)) h"
| fast_reauth: "eap_run env sm h \<Longrightarrow> eap_run env (eap_set_fast_reauth b sm) h"
| workaround: "eap_run env sm h \<Longrightarrow> eap_run env (eap_set_workaround b sm) h"
| force_disabled: "eap_run env sm h \<Longrightarrow> eap_run env (eap_set_force_disabled b sm) h"
| invalidate: "eap_run env sm h \<Longrightarrow> eap_run env (eap_invalidate_cached_session sm) h"
| ctrl_attached: "eap_run env sm h \<Longrightarrow> eap_run env (eap_sm_notify_ctrl_attached sm) h"

text \<open>Whole calls of \<open>eap_peer_sm_step\<close> are runs.\<close>

lemma eap_run_step: "eap_peer_sm_step env sm = Some (r, sm') \<Longrightarrow> eap_run env sm h \<Longrightarrow> \<exists>h'. eap_run env sm' h'"
proof (induction env sm arbitrary: r h rule: eap_peer_sm_step.induct)
  case (1 env sm)
  obtain sm1 where s: "sm_EAP_Step env (sm\<lparr>es_changed := False\<rparr>) = Some sm1"
    using "1.prems"(1) by (subst (asm) eap_peer_sm_step.simps) (auto split: option.splits)
  note i = eap_run.iteration [OF "1.prems"(2) s]
  show ?case
  proof (cases "es_changed sm1")
    case True
    then obtain r1 where "eap_peer_sm_step env sm1 = Some (r1, sm')"
      using "1.prems"(1) s by (subst (asm) eap_peer_sm_step.simps) auto
    then show ?thesis using "1.IH" [OF s True] i by blast
  next
    case False
    then show ?thesis using "1.prems"(1) s i by (subst (asm) eap_peer_sm_step.simps) auto
  qed
qed

lemma decision_inv_frame:
  "es_decision sm' = es_decision sm \<Longrightarrow> es_state sm' = es_state sm \<Longrightarrow> decision_inv sm h \<Longrightarrow> decision_inv sm' h"
  by (auto simp: decision_inv_def)

lemma ctrl_attached_frame:
  "es_decision (eap_sm_notify_ctrl_attached sm) = es_decision sm" "es_state (eap_sm_notify_ctrl_attached sm) = es_state sm"
  by (simp_all add: eap_sm_notify_ctrl_attached_def Let_def split: option.split)

lemma eap_run_decision_inv: "eap_run env sm h \<Longrightarrow> decision_inv sm h"
proof (induction rule: eap_run.induct)
  case (init alloc tls v sm)
  then show ?case by (auto simp: eap_peer_sm_init_def decision_inv_def verdict_def split: if_splits)
next
  case (iteration sm h sm')
  have "decision_inv (sm\<lparr>es_changed := False\<rparr>) h" using iteration.IH by (auto simp: decision_inv_def)
  then show ?case using Step_decision_inv iteration.hyps(2) by fastforce
next
  case (notify_success sm h)
  then show ?case by (simp add: decision_inv_def verdict_def eap_notify_success_def)
qed (auto elim!: decision_inv_frame [rotated 2] simp: eap_sm_abort_def eap_notify_lower_layer_success_def eap_get_eapRespData_def
    eap_set_fast_reauth_def eap_set_workaround_def eap_set_force_disabled_def eap_invalidate_cached_session_def
    ctrl_attached_frame Let_def)

text \<open>
  C2. Whatever packets are received, in particular EAP-Success packets, which anyone can send, and however the lower
  layer sets the variables it shares with the machine, the machine is in \<open>EAP_SUCCESS\<close> only if somebody decided so in
  the session that started with the last \<open>INITIALIZE\<close>: the last decision of the session is the one the machine holds, and
  it was returned by the call of a method in this session and is not \<open>DECISION_FAIL\<close>, or it was made by the lower layer
  with \<open>eap_notify_success\<close>.
\<close>

theorem eap_success_decided:
  assumes "eap_run env sm h" "es_state sm = EAP_SUCCESS"
  shows "\<exists>h' x. h = h' @ [x] \<and> (case x of By_method m d \<Rightarrow> d \<noteq> DECISION_FAIL \<and> es_decision sm = d
     | By_lower_layer \<Rightarrow> es_decision sm = DECISION_COND_SUCC)"
proof -
  have inv: "es_decision sm = verdict h" "es_decision sm \<noteq> DECISION_FAIL"
    using eap_run_decision_inv [OF assms(1)] assms(2) by (auto simp: decision_inv_def)
  then have "h \<noteq> []" by (auto simp: verdict_def)
  then show ?thesis using inv by (intro exI [of _ "butlast h"] exI [of _ "last h"]) (auto simp: verdict_def split: decider.splits)
qed

definition md5_method :: eap_method where
  "md5_method = \<lparr>em_vendor = 0, em_method = 4, em_name = lit ''MD5''\<rparr>"

definition no_fx :: method_fx where
  "no_fx = \<lparr>fx_ignore = False, fx_leap_done = False, fx_peap_done = False, fx_config = None\<rparr>"

definition demo_buf :: "bytes \<Rightarrow> wpabuf" where
  "demo_buf d = \<lparr>wb_size = length d, wb_used = length d, ext_data = None, inline_data = d\<rparr>"

definition demo_env :: "unit eap_env" where
  "demo_env = \<lparr>ee_methods = [md5_method], ee_has_reauth_data = \<lambda>_ _. False, ee_deinit_for_reauth = \<lambda>_ _. None,
     ee_init_for_reauth = \<lambda>_ _. (None, no_fx), ee_init = \<lambda>_ _. (Some (), no_fx),
     ee_process = \<lambda>_ _ _. Some (Some (), no_fx, \<lparr>mr_ignore = False, mr_methodState = METHOD_DONE,
       mr_decision = DECISION_UNCOND_SUCC, mr_allowNotifications = True\<rparr>, Some (demo_buf [2, 7, 0, 5, 4])),
     ee_getKey = \<lambda>_ _. None, ee_get_identity = \<lambda>_ _. None, ee_md5 = \<lambda>_. [], ee_alloc = \<lambda>_. True\<rparr>"

definition demo_vars :: "bytes \<Rightarrow> eapol_vars" where
  "demo_vars d = zero_vars\<lparr>v_portEnabled := True, v_eapReq := True, v_eapReqData := Some (demo_buf d), v_idleWhile := 60\<rparr>"

definition demo_start :: "unit eap_sm" where
  "demo_start = the (eap_peer_sm_init True True (demo_vars [1, 7, 0, 5, 4]))"

definition demo_mid :: "unit eap_sm" where
  "demo_mid = snd (the (eap_peer_sm_step demo_env demo_start))"

definition demo_end :: "unit eap_sm" where
  "demo_end = snd (the (eap_peer_sm_step demo_env (demo_mid\<lparr>es_eapol := demo_vars [3, 7, 0, 4]\<rparr>)))"

lemma eap_demo_run: "\<exists>h. eap_run demo_env demo_end h"
proof -
  have "eap_peer_sm_init True True (demo_vars [1, 7, 0, 5, 4]) = Some demo_start"
    by (simp add: demo_start_def eap_peer_sm_init_def)
  then have 1: "eap_run demo_env demo_start []" by (rule eap_run.init)
  have "eap_peer_sm_step demo_env demo_start \<noteq> None" by code_simp
  then have "eap_peer_sm_step demo_env demo_start = Some (fst (the (eap_peer_sm_step demo_env demo_start)), demo_mid)"
    by (auto simp: demo_mid_def)
  then obtain h where "eap_run demo_env demo_mid h" using eap_run_step [OF _ 1] by blast
  then have 2: "eap_run demo_env (demo_mid\<lparr>es_eapol := demo_vars [3, 7, 0, 4]\<rparr>) h" by (rule eap_run.lower)
  have "eap_peer_sm_step demo_env (demo_mid\<lparr>es_eapol := demo_vars [3, 7, 0, 4]\<rparr>) \<noteq> None" by code_simp
  then have "eap_peer_sm_step demo_env (demo_mid\<lparr>es_eapol := demo_vars [3, 7, 0, 4]\<rparr>) =
      Some (fst (the (eap_peer_sm_step demo_env (demo_mid\<lparr>es_eapol := demo_vars [3, 7, 0, 4]\<rparr>))), demo_end)"
    by (auto simp: demo_end_def)
  then show ?thesis using eap_run_step [OF _ 2] by blast
qed

theorem eap_success_decided_witness:
  "\<exists>h' m. eap_run demo_env demo_end (h' @ [By_method m DECISION_UNCOND_SUCC]) \<and> es_decision demo_end = DECISION_UNCOND_SUCC"
proof -
  obtain h where h: "eap_run demo_env demo_end h" using eap_demo_run by blast
  have s: "es_state demo_end = EAP_SUCCESS" "es_decision demo_end = DECISION_UNCOND_SUCC" by code_simp+
  then obtain h' x where "h = h' @ [x]" "case x of By_method m d \<Rightarrow> d \<noteq> DECISION_FAIL \<and> es_decision demo_end = d
      | By_lower_layer \<Rightarrow> es_decision demo_end = DECISION_COND_SUCC"
    using eap_success_decided [OF h s(1)] by blast
  then show ?thesis using h s(2) by (cases x) auto
qed

section \<open>Packets that are built\<close>

definition buf_ok :: "wpabuf option \<Rightarrow> bool" where
  "buf_ok b \<longleftrightarrow> (case b of None \<Rightarrow> True | Some b \<Rightarrow> wpabuf_inv b)"

text \<open>The array of allowed methods ends with the pair of \<open>EAP_VENDOR_IETF\<close> and \<open>EAP_TYPE_NONE\<close>.\<close>

definition config_ok :: "eap_peer_config option \<Rightarrow> bool" where
  "config_ok c \<longleftrightarrow> (case c of None \<Rightarrow> True
     | Some c \<Rightarrow> (case pc_eap_methods c of None \<Rightarrow> True | Some ms \<Rightarrow> (EAP_VENDOR_IETF, 0) \<in> set ms))"

lemma allowed_loop_total: "(EAP_VENDOR_IETF, 0) \<in> set ms \<Longrightarrow> allowed_loop ms v m \<noteq> None"
  by (induction ms v m rule: allowed_loop.induct) auto

lemma allowed_total: "config_ok (v_config (es_eapol sm)) \<Longrightarrow> \<exists>a. eap_allowed_method sm v m = Some a"
  using allowed_loop_total by (auto simp: config_ok_def eap_allowed_method_def split: option.splits)

lemma put_succeeds:
  "wpabuf_inv b \<Longrightarrow> length d \<le> wpabuf_tailroom b \<Longrightarrow>
     (\<And>b'. wpabuf_inv b' \<Longrightarrow> wpabuf_data b' = wpabuf_data b @ d \<Longrightarrow> wpabuf_tailroom b' = wpabuf_tailroom b - length d \<Longrightarrow> P b') \<Longrightarrow>
     succeeds (wpabuf_put_data b (Some d)) P"
  using wb.put_fits [of b d] by (auto simp: succeeds_def)

lemma eap_msg_alloc_spec:
  "succeeds (eap_msg_alloc ok EAP_VENDOR_IETF type n code ident) (\<lambda>r. case r of None \<Rightarrow> \<not> ok
     | Some b \<Rightarrow> ok \<and> wpabuf_inv b \<and> wpabuf_tailroom b = n \<and>
         wpabuf_data b = [code, ident] @ put_be16 (of_nat (5 + n)) @ [type])"
proof (cases "wpabuf_alloc ok (5 + n)")
  case None
  then show ?thesis by (simp add: eap_msg_alloc_def Let_def wpabuf_alloc_def succeeds_simps split: if_splits)
next
  case (Some b)
  then have b: "wpabuf_inv b" "wpabuf_data b = []" "wpabuf_tailroom b = 5 + n" ok using wpabuf_alloc_props by blast+
  obtain b1 u where b1: "wpabuf_put b 4 = Some (wpabuf_len b, b1)" "wpabuf_inv b1" "length u = 4" "wpabuf_data b1 = u"
    "wpabuf_tailroom b1 = 1 + n" using wpabuf_put_spec [of b 4] b by auto
  have l: "wpabuf_len b = 0" "wpabuf_len b1 = 4" using b b1 length_wpabuf_data by fastforce+
  let ?h = "[code, ident] @ put_be16 (of_nat (5 + n))"
  obtain b2 where b2: "wpabuf_store b1 0 ?h = Some b2" "wpabuf_inv b2" "wpabuf_data b2 = ?h" "wpabuf_tailroom b2 = 1 + n"
    using wpabuf_store_spec [of b1 0 ?h] b1 l by auto
  show ?thesis using Some b1(1) l b2(1) b
    by (simp add: eap_msg_alloc_def Let_def succeeds_simps wpabuf_put_as_data) (rule put_succeeds, use b2 in auto)
qed

lemma eap_update_len_spec:
  assumes "wpabuf_inv b" "wpabuf_data b = [c, i] @ l @ d" "length l = 2"
  shows "succeeds (eap_update_len b) (\<lambda>b'. wpabuf_inv b' \<and> wpabuf_data b' = [c, i] @ put_be16 (of_nat (4 + length d)) @ d)"
proof -
  have len: "wpabuf_len b = 4 + length d" using length_wpabuf_data [OF assms(1)] assms(2,3) by simp
  let ?l = "put_be16 (of_nat (4 + length d))"
  obtain b' where "wpabuf_store b 2 ?l = Some b'" "wpabuf_inv b'"
    "wpabuf_data b' = take 2 (wpabuf_data b) @ ?l @ drop (2 + length ?l) (wpabuf_data b)"
    using wpabuf_store_spec [of b 2 ?l] assms len by auto
  then show ?thesis using assms(2,3) len
    by (auto simp: eap_update_len_def succeeds_def numeral_2_eq_2 dest!: length_Suc_conv [THEN iffD1] length_0_conv [THEN iffD1])
qed

text \<open>The types a legacy Nak offers: those of the allowed methods other than the requested one.\<close>

definition offers :: "'p eap_sm \<Rightarrow> eap_method \<Rightarrow> bool" where
  "offers sm m \<longleftrightarrow> \<not> (em_vendor m = EAP_VENDOR_IETF \<and> em_method m = es_reqMethod sm) \<and>
     eap_allowed_method sm (em_vendor m) (ucast (em_method m)) = Some True"

definition nak_type :: "eap_method \<Rightarrow> u8" where
  "nak_type m = (if em_vendor m = EAP_VENDOR_IETF then em_method m else EAP_TYPE_EXPANDED)"

lemma nak_loop_Cons:
  assumes "config_ok (v_config (es_eapol sm))"
  shows "nak_loop sm b found e (m # ms) = (if offers sm m \<and> (em_vendor m = 0 \<or> \<not> e)
     then wpabuf_put_data b (Some [nak_type m]) \<bind> (\<lambda>b. nak_loop sm b True (e \<or> em_vendor m \<noteq> 0) ms)
     else nak_loop sm b found e ms)"
proof -
  obtain a where "eap_allowed_method sm (em_vendor m) (ucast (em_method m)) = Some a" using allowed_total assms by blast
  then show ?thesis by (auto simp: offers_def nak_type_def wpabuf_put_as_data)
qed

lemma nak_loop_spec:
  assumes "config_ok (v_config (es_eapol sm))"
  shows "wpabuf_inv b \<Longrightarrow> length ms \<le> wpabuf_tailroom b \<Longrightarrow> (e \<Longrightarrow> EAP_TYPE_EXPANDED \<in> set ts) \<Longrightarrow>
     found = (ts \<noteq> []) \<Longrightarrow> wpabuf_data b = hdr @ ts \<Longrightarrow> set ts = nak_type ` {m \<in> seen. offers sm m} \<Longrightarrow>
   succeeds (nak_loop sm b found e ms) (\<lambda>(b', found'). wpabuf_inv b' \<and> wpabuf_tailroom b \<le> wpabuf_tailroom b' + length ms \<and>
     (\<exists>ts'. wpabuf_data b' = hdr @ ts' \<and> found' = (ts' \<noteq> []) \<and> set ts' = nak_type ` {m \<in> seen \<union> set ms. offers sm m}))"
proof (induction ms arbitrary: b found e ts seen)
  case Nil
  then show ?case by (simp add: succeeds_simps)
next
  case (Cons m ms)
  show ?case
  proof (cases "offers sm m \<and> (em_vendor m = 0 \<or> \<not> e)")
    case True
    have s: "nak_type ` {x \<in> insert m seen. offers sm x} = set (ts @ [nak_type m])" using Cons.prems(6) True by auto
    have "succeeds (wpabuf_put_data b (Some [nak_type m]) \<bind> (\<lambda>b. nak_loop sm b True (e \<or> em_vendor m \<noteq> 0) ms))
      (\<lambda>(b', found'). wpabuf_inv b' \<and> wpabuf_tailroom b \<le> wpabuf_tailroom b' + length (m # ms) \<and>
        (\<exists>ts'. wpabuf_data b' = hdr @ ts' \<and> found' = (ts' \<noteq> []) \<and> set ts' = nak_type ` {x \<in> insert m seen \<union> set ms. offers sm x}))"
      unfolding succeeds_bind
      by (rule put_succeeds [OF Cons.prems(1)], use Cons.prems(2) in simp,
          rule succeeds_mono [OF Cons.IH [where ts = "ts @ [nak_type m]" and seen = "insert m seen"]])
        (use Cons.prems s True in \<open>auto simp: nak_type_def\<close>)
    then show ?thesis using True by (simp add: nak_loop_Cons [OF assms] del: nak_loop.simps(2))
  next
    case False
    have s: "set ts = nak_type ` {x \<in> insert m seen. offers sm x}"
      using Cons.prems(3,6) False by (auto simp: nak_type_def)
    have "succeeds (nak_loop sm b found e ms) (\<lambda>(b', found'). wpabuf_inv b' \<and> wpabuf_tailroom b \<le> wpabuf_tailroom b' + length (m # ms) \<and>
        (\<exists>ts'. wpabuf_data b' = hdr @ ts' \<and> found' = (ts' \<noteq> []) \<and> set ts' = nak_type ` {x \<in> insert m seen \<union> set ms. offers sm x}))"
      by (rule succeeds_mono [OF Cons.IH [OF Cons.prems(1) _ Cons.prems(3-5) s]]) (use Cons.prems(2) in auto)
    then show ?thesis unfolding nak_loop_Cons [OF assms] if_not_P [OF False] by simp
  qed
qed

lemma legacy_nak_spec:
  assumes "config_ok (v_config (es_eapol sm))" "ee_methods env \<noteq> []" "es_reqMethod sm \<noteq> EAP_TYPE_EXPANDED"
  shows "succeeds (eap_sm_buildNak env sm ident) (\<lambda>r. case r of None \<Rightarrow> \<not> ee_alloc env sm
     | Some b \<Rightarrow> wpabuf_inv b \<and> (\<exists>ts. wpabuf_data b = [EAP_CODE_RESPONSE, ident] @ put_be16 (of_nat (5 + length ts)) @ [EAP_TYPE_NAK] @ ts \<and>
         set ts = (let offered = nak_type ` {m \<in> set (ee_methods env). offers sm m} in if offered = {} then {EAP_TYPE_NONE} else offered)))"
proof -
  let ?n = "4 + 1 + length (ee_methods env) + 1" and ?hdr = "\<lambda>l. [EAP_CODE_RESPONSE, ident] @ l @ [EAP_TYPE_NAK]"
  obtain r where r: "eap_msg_alloc (ee_alloc env sm) EAP_VENDOR_IETF EAP_TYPE_NAK ?n EAP_CODE_RESPONSE ident = Some r"
    "case r of None \<Rightarrow> \<not> ee_alloc env sm | Some b \<Rightarrow> ee_alloc env sm \<and> wpabuf_inv b \<and> wpabuf_tailroom b = ?n \<and>
       wpabuf_data b = ?hdr (put_be16 (of_nat (5 + ?n)))"
    using eap_msg_alloc_spec [of "ee_alloc env sm" EAP_TYPE_NAK ?n EAP_CODE_RESPONSE ident] unfolding succeeds_def by auto
  show ?thesis
  proof (cases r)
    case None
    then show ?thesis using r assms(2,3) by (simp add: eap_sm_buildNak_def eap_peer_get_methods_def succeeds_simps)
  next
    case (Some b)
    let ?h = "?hdr (put_be16 (of_nat (5 + ?n)))"
    have b: "wpabuf_inv b" "wpabuf_tailroom b = ?n" "wpabuf_data b = ?h" using r(2) Some by auto
    have "succeeds (nak_loop sm b False False (ee_methods env)) (\<lambda>(b', found'). wpabuf_inv b' \<and>
        wpabuf_tailroom b \<le> wpabuf_tailroom b' + length (ee_methods env) \<and>
        (\<exists>ts'. wpabuf_data b' = ?h @ ts' \<and> found' = (ts' \<noteq> []) \<and> set ts' = nak_type ` {m \<in> {} \<union> set (ee_methods env). offers sm m}))"
      by (rule nak_loop_spec [OF assms(1) b(1), where ts = "[]"]) (use b in auto)
    then obtain b1 found ts where l: "nak_loop sm b False False (ee_methods env) = Some (b1, found)" "wpabuf_inv b1"
      "6 \<le> wpabuf_tailroom b1" "wpabuf_data b1 = ?h @ ts" "found = (ts \<noteq> [])" "set ts = nak_type ` {m \<in> set (ee_methods env). offers sm m}"
      using b(2) unfolding succeeds_def by auto
    obtain b2 ts' where b2: "(if found then Some b1 else wpabuf_put_u8 b1 EAP_TYPE_NONE) = Some b2" "wpabuf_inv b2"
      "wpabuf_data b2 = ?h @ ts'" "ts' = (if ts = [] then [EAP_TYPE_NONE] else ts)"
      using wb.put_fits [OF l(2), of "[EAP_TYPE_NONE]"] l by (cases found) (auto simp: wpabuf_put_as_data)
    have "succeeds (eap_update_len b2) (\<lambda>b'. wpabuf_inv b' \<and> wpabuf_data b' =
        [EAP_CODE_RESPONSE, ident] @ put_be16 (of_nat (4 + length (EAP_TYPE_NAK # ts'))) @ (EAP_TYPE_NAK # ts'))"
      by (rule eap_update_len_spec [OF b2(2), where l = "put_be16 (of_nat (5 + ?n))"]) (use b2(3) in simp_all)
    then obtain b3 where b3: "eap_update_len b2 = Some b3" "wpabuf_inv b3"
      "wpabuf_data b3 = [EAP_CODE_RESPONSE, ident] @ put_be16 (of_nat (5 + length ts')) @ [EAP_TYPE_NAK] @ ts'"
      unfolding succeeds_def by auto
    have "eap_sm_buildNak env sm ident = Some (Some b3)"
      using r(1) Some l(1) b2(1) b3(1) assms(2,3) by (simp add: eap_sm_buildNak_def eap_peer_get_methods_def)
    moreover have "set ts' = (let offered = nak_type ` {m \<in> set (ee_methods env). offers sm m}
        in if offered = {} then {EAP_TYPE_NONE} else offered)"
      unfolding l(6) [symmetric] b2(4) by (simp add: Let_def)
    ultimately show ?thesis using b3(2,3) by (auto simp: succeeds_def)
  qed
qed

text \<open>
  C40. A request for a method that is not allowed is answered by a negative acknowledgement of RFC 3748: for every
  configuration and every set of registered methods the buffer that was allocated is large enough, its length field is
  the length of the packet, and the types offered are exactly those of the allowed methods other than the requested
  one, vendor methods together as the expanded type, or the type 0 when there is none.
\<close>

theorem eap_sm_buildNak_offers:
  assumes "config_ok (v_config (es_eapol sm))" "ee_methods env \<noteq> []" "es_reqMethod sm \<noteq> EAP_TYPE_EXPANDED" "ee_alloc env sm"
  shows "\<exists>b ts. eap_sm_buildNak env sm ident = Some (Some b) \<and>
     wpabuf_data b = [EAP_CODE_RESPONSE, ident] @ put_be16 (of_nat (5 + length ts)) @ [EAP_TYPE_NAK] @ ts \<and>
     set ts = (let offered = nak_type ` {m \<in> set (ee_methods env). offers sm m} in if offered = {} then {EAP_TYPE_NONE} else offered)"
  using legacy_nak_spec [OF assms(1-3), of ident] assms(4) unfolding succeeds_def by (auto split: option.splits)

theorem eap_sm_buildNak_offers_witness:
  "\<exists>b ts. eap_sm_buildNak demo_env (demo_start\<lparr>es_reqMethod := 13\<rparr>) 7 = Some (Some b) \<and>
     wpabuf_data b = [2, 7] @ put_be16 (of_nat (5 + length ts)) @ [3] @ ts \<and>
     set ts = (let offered = nak_type ` {m \<in> set (ee_methods demo_env). offers (demo_start\<lparr>es_reqMethod := 13\<rparr>) m}
               in if offered = {} then {0} else offered)"
  by (rule eap_sm_buildNak_offers)
    (simp_all add: config_ok_def demo_env_def demo_start_def eap_peer_sm_init_def demo_vars_def zero_vars_def)

section \<open>Responses never overflow their buffers\<close>

lemma update_len_safe: "wpabuf_inv b \<Longrightarrow> succeeds (eap_update_len b) wpabuf_inv"
  using wpabuf_store_spec [of b 2 "put_be16 (of_nat (wpabuf_len b))"] by (auto simp: eap_update_len_def succeeds_def)

lemma put_expanded_safe:
  assumes "wpabuf_inv b" "8 \<le> wpabuf_tailroom b" "\<And>b'. wpabuf_inv b' \<Longrightarrow> wpabuf_tailroom b' = wpabuf_tailroom b - 8 \<Longrightarrow> succeeds (f b') P"
  shows "succeeds (wpabuf_put_u8 b t \<bind> (\<lambda>b. wpabuf_put_be24 b v \<bind> (\<lambda>b. wpabuf_put_be32 b m \<bind> f))) P"
  using assms by (auto simp: wpabuf_put_as_data succeeds_bind intro!: put_succeeds)

lemma expanded_nak_loop_safe:
  assumes "config_ok (v_config (es_eapol sm))"
  shows "wpabuf_inv b \<Longrightarrow> 8 * length ms + 8 \<le> wpabuf_tailroom b \<Longrightarrow>
    succeeds (expanded_nak_loop sm b found ms) (\<lambda>(b', found'). wpabuf_inv b' \<and> 8 \<le> wpabuf_tailroom b')"
proof (induction ms arbitrary: b found)
  case Nil
  then show ?case by (simp add: succeeds_simps)
next
  case (Cons m ms)
  obtain a where "eap_allowed_method sm (em_vendor m) (ucast (em_method m)) = Some a" using allowed_total assms by blast
  then show ?case using Cons by (auto intro!: put_expanded_safe)
qed

lemma eap_sm_buildNak_safe:
  assumes "config_ok (v_config (es_eapol sm))"
  shows "succeeds (eap_sm_buildNak env sm ident) buf_ok"
proof (cases "ee_methods env = [] \<or> es_reqMethod sm \<noteq> EAP_TYPE_EXPANDED")
  case True
  then show ?thesis using legacy_nak_spec [OF assms, of env ident]
    by (cases "ee_methods env = []") (auto simp: eap_sm_buildNak_def eap_peer_get_methods_def succeeds_simps buf_ok_def
        elim!: succeeds_mono split: option.splits)
next
  case False
  have "succeeds (eap_sm_build_expanded_nak env sm ident (ee_methods env) (length (ee_methods env))) buf_ok"
    unfolding eap_sm_build_expanded_nak_def succeeds_bind
  proof (rule succeeds_mono [OF eap_msg_alloc_spec], goal_cases)
    case (1 r)
    then show ?case
      by (auto simp: succeeds_simps buf_ok_def wpabuf_put_as_data split: option.splits
          intro!: put_succeeds succeeds_mono [OF expanded_nak_loop_safe [OF assms]] succeeds_mono [OF update_len_safe])
  qed
  then show ?thesis using False by (simp add: eap_sm_buildNak_def eap_peer_get_methods_def)
qed

section \<open>The machine never faults\<close>

definition eap_data_ok :: "'p eap_sm \<Rightarrow> bool" where
  "eap_data_ok sm \<longleftrightarrow> config_ok (v_config (es_eapol sm)) \<and> buf_ok (v_eapReqData (es_eapol sm)) \<and>
     buf_ok (es_lastRespData sm) \<and> buf_ok (es_eapRespData sm)"

text \<open>A request that was accepted has a type field inside the packet.\<close>

definition req_ok :: "'p eap_sm \<Rightarrow> bool" where
  "req_ok sm \<longleftrightarrow> (case v_eapReqData (es_eapol sm) of None \<Rightarrow> False
     | Some b \<Rightarrow> wpabuf_inv b \<and> 4 \<le> wpabuf_len b \<and>
         (let plen = unat (get_be16 (wpabuf_head b ! 2) (wpabuf_head b ! 3)) in 5 \<le> plen \<and> plen \<le> wpabuf_len b))"

definition eap_inv :: "'p eap_sm \<Rightarrow> bool" where
  "eap_inv sm \<longleftrightarrow> eap_data_ok sm \<and> (es_state sm = EAP_RECEIVED \<and> es_rxReq sm \<longrightarrow> req_ok sm) \<and>
     (es_num_rounds sm \<le> 51 \<or> es_state sm = EAP_SUCCESS \<or> es_state sm = EAP_FAILURE)"

text \<open>What the machine relies on in the methods: they return, with a valid response and configuration.\<close>

definition methods_ok :: "'p eap_env \<Rightarrow> bool" where
  "methods_ok env \<longleftrightarrow>
     (\<forall>m sm ret. eap_data_ok sm \<longrightarrow> succeeds (ee_process env m sm ret) (\<lambda>(priv, fx, ret', resp). config_ok (fx_config fx) \<and> buf_ok resp)) \<and>
     (\<forall>m sm. eap_data_ok sm \<longrightarrow> config_ok (fx_config (snd (ee_init env m sm))) \<and> config_ok (fx_config (snd (ee_init_for_reauth env m sm))))"

lemma count_request_config: "count_request r c = Some (c', r') \<Longrightarrow> pc_eap_methods c' = pc_eap_methods c"
  by (auto simp: count_request_def Let_def split: ctrl_req.splits option.splits)

lemma request_config_ok:
  "config_ok (v_config (es_eapol sm)) \<Longrightarrow> config_ok (v_config (es_eapol (eap_sm_request ok r sm)))"
  by (auto simp: eap_sm_request_def eap_log_def eapol_log_def config_ok_def dest!: count_request_config split: option.splits)

lemma data_ok_simps [simp]:
  "eap_data_ok (eap_entry g s sm) = eap_data_ok sm" "eap_data_ok (eap_log e sm) = eap_data_ok sm"
  "eap_data_ok (eapol_set_int n sm) = eap_data_ok sm" "eap_data_ok (eap_deinit_prev_method sm) = eap_data_ok sm"
  "eap_data_ok (eapol_set_bool v b sm) = eap_data_ok sm"
  by (cases v; auto simp: eap_data_ok_def eapol_sel_defs eap_deinit_prev_method_def)+

lemma data_ok_request: "eap_data_ok sm \<Longrightarrow> eap_data_ok (eap_sm_request ok r sm)"
  using request_config_ok [of sm ok r] by (auto simp: eap_data_ok_def eap_sm_request_def eap_log_def eapol_log_def split: option.splits)

lemma data_ok_set_fx: "eap_data_ok sm \<Longrightarrow> config_ok (fx_config fx) \<Longrightarrow> eap_data_ok (set_fx fx sm)"
  by (simp add: eap_data_ok_def set_fx_def)

lemma data_ok_upd [simp]:
  "eap_data_ok (sm\<lparr>es_priv := a\<rparr>) = eap_data_ok sm" "eap_data_ok (sm\<lparr>es_m := b\<rparr>) = eap_data_ok sm"
  "eap_data_ok (sm\<lparr>es_selectedMethod := c\<rparr>) = eap_data_ok sm" "eap_data_ok (sm\<lparr>es_methodState := d\<rparr>) = eap_data_ok sm"
  "eap_data_ok (sm\<lparr>es_ClientTimeout := e\<rparr>) = eap_data_ok sm" "eap_data_ok (sm\<lparr>es_ignore := g\<rparr>) = eap_data_ok sm"
  "eap_data_ok (sm\<lparr>es_decision := h\<rparr>) = eap_data_ok sm" "eap_data_ok (sm\<lparr>es_allowNotifications := i\<rparr>) = eap_data_ok sm"
  "eap_data_ok (sm\<lparr>es_eapKeyData := j\<rparr>) = eap_data_ok sm" "eap_data_ok (sm\<lparr>es_changed := k\<rparr>) = eap_data_ok sm"
  "eap_data_ok (sm\<lparr>es_num_rounds := l\<rparr>) = eap_data_ok sm" "eap_data_ok (sm\<lparr>es_lastId := m\<rparr>) = eap_data_ok sm"
  "eap_data_ok (sm\<lparr>es_last_md5 := n\<rparr>) = eap_data_ok sm" "eap_data_ok (sm\<lparr>es_prev_failure := o'\<rparr>) = eap_data_ok sm"
  "eap_data_ok (sm\<lparr>es_eapKeyAvailable := p\<rparr>) = eap_data_ok sm"
  by (simp_all add: eap_data_ok_def)

lemma data_ok_resp: "eap_data_ok sm \<Longrightarrow> buf_ok r \<Longrightarrow> eap_data_ok (sm\<lparr>es_eapRespData := r\<rparr>)"
  by (simp add: eap_data_ok_def)

lemma data_ok_last: "eap_data_ok sm \<Longrightarrow> buf_ok r \<Longrightarrow> eap_data_ok (sm\<lparr>es_lastRespData := r\<rparr>)"
  by (simp add: eap_data_ok_def)

lemma rounds_simps [simp]:
  "es_num_rounds (eap_entry g s sm) = es_num_rounds sm" "es_num_rounds (eap_log e sm) = es_num_rounds sm"
  "es_num_rounds (eapol_set_int n sm) = es_num_rounds sm" "es_num_rounds (set_fx fx sm) = es_num_rounds sm"
  "es_num_rounds (eap_deinit_prev_method sm) = es_num_rounds sm" "es_num_rounds (eap_sm_request ok r sm) = es_num_rounds sm"
  "es_num_rounds (eapol_set_bool v b sm) = es_num_rounds sm"
  by (auto simp: eapol_sel_defs set_fx_def eap_deinit_prev_method_def eap_sm_request_def split: option.splits)

text \<open>The computation returns a state with valid data and the same number of rounds as \<open>sm\<close>.\<close>

definition safe :: "'p eap_sm \<Rightarrow> 'p eap_sm option \<Rightarrow> bool" where
  "safe sm m \<longleftrightarrow> succeeds m (\<lambda>sm'. eap_data_ok sm' \<and> es_num_rounds sm' = es_num_rounds sm)"

lemma eap_safe_Some [simp]: "safe sm (Some sm') \<longleftrightarrow> eap_data_ok sm' \<and> es_num_rounds sm' = es_num_rounds sm"
  by (simp add: safe_def succeeds_simps)

lemma set_nak_safe:
  assumes "eap_data_ok sm" "es_num_rounds sm = es_num_rounds sm0"
  shows "safe sm0 (set_nak env sm)"
proof -
  have "config_ok (v_config (es_eapol sm))" using assms(1) by (simp add: eap_data_ok_def)
  then show ?thesis using assms
    by (auto simp: set_nak_def safe_def succeeds_simps intro!: succeeds_mono [OF eap_sm_buildNak_safe] data_ok_resp)
qed

lemma start_method_safe:
  assumes "methods_ok env" "eap_data_ok sm" "es_num_rounds sm = es_num_rounds sm0"
  shows "safe sm0 (start_method env m reinit sm)"
proof -
  let ?sm = "sm\<lparr>es_m := Some m, es_ClientTimeout := 60\<rparr>"
  obtain priv fx where i: "(if reinit then ee_init_for_reauth env m ?sm else ee_init env m ?sm) = (priv, fx)"
    by (cases "if reinit then ee_init_for_reauth env m ?sm else ee_init env m ?sm")
  have "eap_data_ok ?sm" using assms(2) by simp
  then have "config_ok (fx_config fx)" using assms(1) i unfolding methods_ok_def by (metis snd_conv)
  then have "eap_data_ok (set_fx fx ?sm)" using assms(2) by (simp add: data_ok_set_fx)
  then show ?thesis using assms(3) i by (auto simp: start_method_def Let_def intro!: set_nak_safe)
qed

lemma get_method_safe:
  assumes "methods_ok env" "eap_data_ok sm"
  shows "safe sm (sm_EAP_GET_METHOD env sm)"
proof -
  let ?e = "eap_entry False EAP_GET_METHOD sm"
  define mt where "mt = (if es_reqMethod ?e = EAP_TYPE_EXPANDED then es_reqVendorMethod ?e else ucast (es_reqMethod ?e))"
  have "config_ok (v_config (es_eapol ?e))" using assms(2) by (simp add: eap_data_ok_def eap_entry_def)
  then obtain a0 where "eap_allowed_method ?e (es_reqVendor ?e) mt = Some a0" using allowed_total by blast
  then obtain a where "eap_sm_allowMethod env ?e (es_reqVendor ?e) mt = Some a" by (simp add: eap_sm_allowMethod_def)
  moreover have "safe sm (select_method env mt (eap_log ev ?e))" "safe sm (set_nak env (eap_log ev ?e))" for ev
    using assms by (auto simp: select_method_def Let_def intro!: set_nak_safe start_method_safe split: option.split)
  ultimately show ?thesis by (simp add: sm_EAP_GET_METHOD_def mt_def Let_def)
qed

lemma method_safe:
  assumes "methods_ok env" "eap_data_ok sm"
  shows "safe sm (sm_EAP_METHOD env sm)"
proof (cases "es_m (eap_entry False EAP_METHOD sm)")
  case None
  then show ?thesis using assms by (simp add: sm_EAP_METHOD_def)
next
  case (Some m)
  let ?sm = "(eap_entry False EAP_METHOD sm)\<lparr>es_eapRespData := None\<rparr>"
  have ok: "eap_data_ok ?sm" using assms(2) by (auto intro!: data_ok_resp simp: buf_ok_def)
  have p: "succeeds (ee_process env m ?sm ret) (\<lambda>(priv, fx, ret', resp). config_ok (fx_config fx) \<and> buf_ok resp)" for ret
    using assms(1) ok by (simp add: methods_ok_def)
  have "succeeds (sm_EAP_METHOD env sm) (\<lambda>sm'. eap_data_ok sm' \<and> es_num_rounds sm' = es_num_rounds sm)"
    unfolding sm_EAP_METHOD_def Let_def Some option.case succeeds_bind
    by (rule succeeds_mono [OF p]) (use ok in \<open>auto simp: succeeds_simps data_ok_set_fx data_ok_resp split: option.split\<close>)
  then show ?thesis by (simp add: safe_def)
qed

lemma dup_safe: "wpabuf_inv b \<Longrightarrow> succeeds (wpabuf_dup ok b) buf_ok"
  using wpabuf_alloc_copy_data [of "wpabuf_data b"]
  by (cases ok) (auto simp: wpabuf_dup_def succeeds_def buf_ok_def wpabuf_alloc_copy_def wpabuf_alloc_def
      wpabuf_put_buf_as_data length_wpabuf_data)

lemma validate_safe:
  assumes "wpabuf_inv b"
  shows "succeeds (eap_hdr_validate v t b) (\<lambda>r. case r of None \<Rightarrow> True | Some (pos, len) \<Rightarrow> pos + len \<le> length (wpabuf_head b))"
  using assms unfolding eap_hdr_validate_def wpabuf_inv_def wpabuf_len_def
  by (auto simp: succeeds_simps rd_be16_def rd_be24_def rd_be32_def Let_def)

lemma parse_safe:
  assumes "eap_data_ok sm"
  shows "succeeds (eap_sm_parseEapReq env sm (v_eapReqData (es_eapol sm))) (\<lambda>sm'. eap_data_ok sm' \<and>
     es_num_rounds sm' = es_num_rounds sm \<and> (es_rxReq sm' \<longrightarrow> req_ok sm'))"
proof (cases "v_eapReqData (es_eapol sm)")
  case None
  then show ?thesis using assms by (simp add: eap_sm_parseEapReq_def succeeds_simps eap_data_ok_def)
next
  case (Some b)
  then have b: "wpabuf_inv b" using assms by (simp add: eap_data_ok_def buf_ok_def)
  then have l: "wpabuf_len b \<le> length (wpabuf_head b)" by (simp add: wpabuf_inv_def wpabuf_len_def)
  show ?thesis using Some b l assms
    by (auto simp: eap_sm_parseEapReq_def parse_code_def succeeds_simps rd_be16_def rd_be24_def rd_be32_def Let_def
        eap_data_ok_def req_ok_def)
qed

lemma msg_alloc_safe: "succeeds (eap_msg_alloc ok EAP_VENDOR_IETF type n code ident) (\<lambda>r. buf_ok r \<and> (\<forall>b. r = Some b \<longrightarrow> wpabuf_tailroom b = n))"
  by (rule succeeds_mono [OF eap_msg_alloc_spec]) (auto simp: buf_ok_def split: option.splits)

lemma identity_safe:
  assumes "eap_data_ok sm" "req_ok sm"
  shows "safe sm (sm_EAP_IDENTITY env sm)"
proof -
  obtain b where b: "v_eapReqData (es_eapol (eap_entry False EAP_IDENTITY sm)) = Some b" "wpabuf_inv b"
    "5 \<le> unat (get_be16 (wpabuf_head b ! 2) (wpabuf_head b ! 3))" "unat (get_be16 (wpabuf_head b ! 2) (wpabuf_head b ! 3)) \<le> wpabuf_len b"
    using assms(2) by (auto simp: req_ok_def eap_entry_def Let_def split: option.splits)
  have l: "wpabuf_len b \<le> length (wpabuf_head b)" using b(2) by (simp add: wpabuf_inv_def wpabuf_len_def)
  have p: "eap_sm_processIdentity (eap_entry False EAP_IDENTITY sm) (Some b) = Some (eap_log Eap_started (eap_entry False EAP_IDENTITY sm))"
    using b l by (simp add: eap_sm_processIdentity_def fault_simps)
  have q: "succeeds (eap_sm_buildIdentity env sm' i False) (\<lambda>(r, sm''). buf_ok r \<and> eap_data_ok sm'' \<and> es_num_rounds sm'' = es_num_rounds sm)"
    if "eap_data_ok sm'" "es_num_rounds sm' = es_num_rounds sm" for sm' i
    using that by (auto simp: eap_sm_buildIdentity_def succeeds_simps Let_def buf_ok_def data_ok_request
        intro!: succeeds_mono [OF msg_alloc_safe] put_succeeds split: option.split)
  show ?thesis using b(1) p assms(1)
    by (auto simp: sm_EAP_IDENTITY_def safe_def succeeds_simps Let_def intro!: succeeds_mono [OF q] data_ok_resp)
qed

lemma notification_safe:
  assumes "eap_data_ok sm" "req_ok sm"
  shows "safe sm (sm_EAP_NOTIFICATION env sm)"
proof -
  obtain b where b: "v_eapReqData (es_eapol (eap_entry False EAP_NOTIFICATION sm)) = Some b" "wpabuf_inv b"
    using assms(2) by (auto simp: req_ok_def eap_entry_def Let_def split: option.splits)
  have q: "succeeds (eap_sm_processNotify env sm' (Some b)) (\<lambda>sm''. eap_data_ok sm'' \<and> es_num_rounds sm'' = es_num_rounds sm)"
    if "eap_data_ok sm'" "es_num_rounds sm' = es_num_rounds sm" for sm'
    using that by (auto simp: eap_sm_processNotify_def succeeds_simps intro!: succeeds_mono [OF validate_safe [OF b(2)]] split: option.splits)
  show ?thesis using b(1) assms(1)
    by (auto simp: sm_EAP_NOTIFICATION_def eap_sm_buildNotify_def safe_def succeeds_simps Let_def
        intro!: succeeds_mono [OF q] succeeds_mono [OF msg_alloc_safe] data_ok_resp)
qed

lemma entry_safe:
  assumes "eap_data_ok sm"
  shows "safe sm (sm_EAP_IDLE sm)" "safe sm (sm_EAP_DISCARD sm)" "safe sm (sm_EAP_SUCCESS sm)" "safe sm (sm_EAP_FAILURE g sm)"
    "safe sm (sm_EAP_SEND_RESPONSE env sm)" "safe sm (sm_EAP_RETRANSMIT env sm)"
    "safe (sm\<lparr>es_num_rounds := 0\<rparr>) (sm_EAP_INITIALIZE env g sm)" "safe (sm\<lparr>es_num_rounds := 0\<rparr>) (sm_EAP_DISABLED g sm)"
proof -
  have d: "es_eapRespData (eap_entry b s sm) = es_eapRespData sm" "es_lastRespData (eap_entry b s sm) = es_lastRespData sm" for b s
    by (simp_all add: eap_entry_def)
  have r: "\<And>b. es_eapRespData sm = Some b \<Longrightarrow> wpabuf_inv b" "\<And>b. es_lastRespData sm = Some b \<Longrightarrow> wpabuf_inv b"
    using assms by (auto simp: eap_data_ok_def buf_ok_def)
  show "safe sm (sm_EAP_SEND_RESPONSE env sm)" using assms r
    by (auto simp: sm_EAP_SEND_RESPONSE_def safe_def succeeds_simps d Let_def buf_ok_def split: option.split
        intro!: succeeds_mono [OF dup_safe] data_ok_last)
  show "safe sm (sm_EAP_RETRANSMIT env sm)" using assms r
    by (auto simp: sm_EAP_RETRANSMIT_def safe_def succeeds_simps d Let_def buf_ok_def split: option.split
        intro!: succeeds_mono [OF dup_safe] data_ok_resp)
qed (use assms in \<open>simp_all add: sm_EAP_IDLE_def sm_EAP_DISCARD_def sm_EAP_SUCCESS_def sm_EAP_FAILURE_def
    sm_EAP_INITIALIZE_def sm_EAP_DISABLED_def Let_def\<close>)

lemma received_safe:
  assumes "eap_data_ok sm"
  shows "succeeds (sm_EAP_RECEIVED env sm) (\<lambda>sm'. eap_data_ok sm' \<and> es_num_rounds sm' = es_num_rounds sm + 1 \<and> (es_rxReq sm' \<longrightarrow> req_ok sm'))"
  using parse_safe [of "eap_entry False EAP_RECEIVED sm" env] assms
  by (auto simp: sm_EAP_RECEIVED_def succeeds_simps Let_def req_ok_def elim!: succeeds_mono)

lemma safe_inv:
  assumes "safe sm m" "\<And>sm'. m = Some sm' \<Longrightarrow> es_state sm' \<noteq> EAP_RECEIVED"
    "es_num_rounds sm \<le> 51 \<or> (\<forall>sm'. m = Some sm' \<longrightarrow> es_state sm' = EAP_SUCCESS \<or> es_state sm' = EAP_FAILURE)"
  shows "succeeds m eap_inv"
  using assms by (auto simp: safe_def succeeds_def eap_inv_def)

lemma enter_inv:
  assumes ok: "methods_ok env" "eap_data_ok sm" and n: "es_num_rounds sm \<le> 50"
  shows "succeeds (sm_EAP_IDLE sm) eap_inv" "succeeds (sm_EAP_DISCARD sm) eap_inv" "succeeds (sm_EAP_SUCCESS sm) eap_inv"
    "succeeds (sm_EAP_FAILURE g sm) eap_inv" "succeeds (sm_EAP_SEND_RESPONSE env sm) eap_inv"
    "succeeds (sm_EAP_RETRANSMIT env sm) eap_inv" "succeeds (sm_EAP_GET_METHOD env sm) eap_inv"
    "succeeds (sm_EAP_METHOD env sm) eap_inv" "succeeds (sm_EAP_RECEIVED env sm) eap_inv"
    "req_ok sm \<Longrightarrow> succeeds (sm_EAP_IDENTITY env sm) eap_inv" "req_ok sm \<Longrightarrow> succeeds (sm_EAP_NOTIFICATION env sm) eap_inv"
  using n by (auto intro!: safe_inv [of sm] entry_safe get_method_safe method_safe identity_safe notification_safe ok
      succeeds_mono [OF received_safe [OF ok(2)]] simp: eap_inv_def dest: step_ctl)

lemma enter_global_inv:
  assumes "eap_data_ok sm"
  shows "succeeds (sm_EAP_INITIALIZE env g sm) eap_inv" "succeeds (sm_EAP_DISABLED g sm) eap_inv" "succeeds (sm_EAP_FAILURE g sm) eap_inv"
  using assms by (auto intro!: safe_inv [of "sm\<lparr>es_num_rounds := 0\<rparr>"] safe_inv [of sm "sm_EAP_FAILURE g sm"] entry_safe dest: step_ctl)

lemma local_inv:
  assumes "methods_ok env" "eap_inv sm" "es_num_rounds sm \<le> 50"
  shows "succeeds (eap_peer_sm_step_local env sm) eap_inv"
proof -
  have d: "eap_data_ok sm" and r: "es_state sm = EAP_RECEIVED \<Longrightarrow> es_rxReq sm \<Longrightarrow> req_ok sm" using assms(2) by (auto simp: eap_inv_def)
  note enter = enter_inv [OF assms(1) d assms(3)] enter_global_inv [OF d]
  have "succeeds (eap_peer_sm_step_idle env sm) eap_inv"
    using enter assms(2) by (simp add: eap_peer_sm_step_idle_def succeeds_simps)
  moreover have "succeeds (eap_peer_sm_step_received env sm) eap_inv" if "es_state sm = EAP_RECEIVED"
    using enter r [OF that] by (simp add: eap_peer_sm_step_received_def Let_def succeeds_simps)
  ultimately show ?thesis
    using enter assms(2) by (cases "es_state sm") (simp_all add: eap_peer_sm_step_local_def succeeds_simps)
qed

lemma eap_inv_changed [simp]: "eap_inv (sm\<lparr>es_changed := b\<rparr>) = eap_inv sm"
  by (simp add: eap_inv_def req_ok_def)

lemma Step_inv:
  assumes "methods_ok env" "eap_inv sm"
  shows "succeeds (sm_EAP_Step env sm) eap_inv"
proof -
  have "eap_data_ok sm" using assms(2) by (simp add: eap_inv_def)
  then show ?thesis using local_inv [OF assms] enter_global_inv [of sm] assms(2)
      enter_global_inv(3) [of "sm\<lparr>es_num_rounds := 52\<rparr>" True]
    by (simp add: sm_EAP_Step_def succeeds_simps)
qed

text \<open>The states in which the machine waits. In \<open>IDLE\<close> no request is pending.\<close>

definition eap_waiting :: "'p eap_sm \<Rightarrow> bool" where
  "eap_waiting sm \<longleftrightarrow> es_state sm \<in> {EAP_INITIALIZE, EAP_DISABLED, EAP_SUCCESS, EAP_FAILURE} \<or>
     es_state sm = EAP_IDLE \<and> \<not> v_eapReq (es_eapol sm)"

lemma Step_waiting:
  assumes "eap_inv sm" and s: "sm_EAP_Step env (sm\<lparr>es_changed := False\<rparr>) = Some sm'" and "\<not> es_changed sm'"
  shows "eap_waiting sm'"
proof -
  let ?sm = "sm\<lparr>es_changed := False\<rparr>"
  have idle: "eap_peer_sm_step_idle env ?sm = Some sm' \<Longrightarrow> sm' = ?sm \<and> \<not> v_eapReq (es_eapol sm)"
    using assms(3) unfolding eap_peer_sm_step_idle_def
    by (auto simp: eapol_get_bool_def dest: step_decision split: if_splits)
  have "eap_peer_sm_step_received env ?sm \<noteq> Some sm'"
    using assms(3) received_next [of env ?sm sm'] by (auto dest: step_decision)
  then have loc: "eap_peer_sm_step_local env ?sm = Some sm' \<Longrightarrow> eap_waiting sm'"
    using assms(3) idle by (cases "es_state sm")
      (auto simp: eap_peer_sm_step_local_def eap_waiting_def dest: step_decision step_ctl split: if_splits)
  show ?thesis using s assms(1) loc
    by (auto simp: sm_EAP_Step_def eap_inv_def eap_waiting_def dest: step_ctl split: if_split_asm)
qed

lemma eap_peer_sm_step_total:
  "methods_ok env \<Longrightarrow> eap_inv sm \<Longrightarrow> succeeds (eap_peer_sm_step env sm) (\<lambda>(r, sm'). eap_inv sm' \<and> eap_waiting sm')"
proof (induction env sm rule: eap_peer_sm_step.induct)
  case (1 env sm)
  obtain sm1 where s: "sm_EAP_Step env (sm\<lparr>es_changed := False\<rparr>) = Some sm1" "eap_inv sm1"
    using Step_inv [of env "sm\<lparr>es_changed := False\<rparr>"] "1.prems" by (auto simp: succeeds_def)
  show ?case
  proof (cases "es_changed sm1")
    case True
    then show ?thesis using "1.IH" [OF s(1) True "1.prems"(1) s(2)] s(1)
      by (subst eap_peer_sm_step.simps) (auto simp: succeeds_def)
  next
    case False
    then show ?thesis using s Step_waiting [OF "1.prems"(2) s(1) False]
      by (subst eap_peer_sm_step.simps) (simp add: succeeds_simps)
  qed
qed

text \<open>
  C9. \<open>eap_peer_sm_step\<close> returns for every state and every request, however it was truncated or forged, as long as the
  methods return: no access outside a buffer, no overflow of a response, no null pointer, no endless loop. It leaves the
  machine in a state where it waits, and in \<open>IDLE\<close> with no request left to be processed, with the invariant that makes
  the next call safe.
\<close>

theorem eap_peer_sm_step_returns:
  assumes "methods_ok env" "eap_inv sm"
  shows "\<exists>r sm'. eap_peer_sm_step env sm = Some (r, sm') \<and> eap_inv sm' \<and> eap_waiting sm'"
  using eap_peer_sm_step_total [OF assms] by (auto simp: succeeds_def)

theorem eap_peer_sm_step_returns_witness:
  "\<exists>r sm'. eap_peer_sm_step demo_env demo_start = Some (r, sm') \<and> eap_inv sm' \<and> eap_waiting sm'"
proof (rule eap_peer_sm_step_returns)
  show "methods_ok demo_env"
    by (simp add: methods_ok_def demo_env_def succeeds_simps no_fx_def config_ok_def buf_ok_def wpabuf_inv_def demo_buf_def wpabuf_head_def)
  show "eap_inv demo_start"
    by (simp add: eap_inv_def eap_data_ok_def demo_start_def eap_peer_sm_init_def demo_vars_def zero_vars_def config_ok_def buf_ok_def
        wpabuf_inv_def demo_buf_def wpabuf_head_def)
qed

end
