(* ===== verification/Spec2Isabelle.thy ===== *)
theory Spec2Isabelle
  imports Common_Util Gas Bss Nai_Realm Arbiter Config_Networks Anqp_Fetch Wpa_Handshake Scan_Event Eap_Peer_Safe
begin

text \<open>
  A verification development for a Hotspot 2.0 roaming demonstrator built on wpa_supplicant, the IEEE 802.11
  station daemon. All paths below are relative to src/.

  \<^bold>\<open>The program.\<close> The daemon is single-threaded: an event loop (src/utils/eloop.c) calls handlers for driver events,
  timers and control commands. The driver delivers scan results; scan.c filters and sorts them and bss.c keeps a
  table of access points. events.c matches the table with the configured networks (config.c), in the order of their
  priorities and past the blacklist (blacklist.c), and associates. In a Hotspot 2.0 environment there may be no
  configured network: interworking.c then asks the access points for ANQP information through the GAS query layer
  (gas_query.c, with the frame builders of src/common/gas.c), matches the NAI realms and cellular networks with the
  user's credentials, hands the candidates to the roaming arbiter (arbiter/), which thins them out with its filters, and
  configures a network block for the one that is left. After association the EAP peer (src/eap_peer/eap.c)
  authenticates the station and the WPA state machine (src/rsn_supp/wpa.c) runs the 4-Way Handshake, with the master
  keys kept in the PMKSA cache (src/rsn_supp/pmksa_cache.c).

  \<^bold>\<open>Build.\<close> The model follows wpa_supplicant/.config: the nl80211, hostap and wired drivers, IEEE 802.1X with the methods
  MD5, MSCHAPv2, TLS, PEAP, TTLS, GTC, OTP and LEAP, the control and D-Bus interfaces, PeerKey, Interworking, Hotspot
  2.0, TDLS, the arbiter; no WPS, no access point, no P2P, no IEEE 802.11r and 802.11w, no background scanning, no
  PC/SC. Code under other options is not modelled, with one exception: the matching of 3GPP cellular networks in
  interworking.c (\<open>INTERWORKING_3GPP\<close>) is compiled only with EAP-SIM or EAP-AKA, and is modelled as if it were compiled,
  because the roaming path calls it; this only adds branches that the theorems have to cover. The cryptographic library of the build is OpenSSL.

  \<^bold>\<open>Conventions.\<close> A C function that can fault returns an \<open>option\<close>: \<open>None\<close> stands for an access outside an object or to a
  freed one, a null pointer, a division by zero or \<open>abort\<close>; \<open>Some v\<close> is a return. An inner \<open>option\<close> is a pointer that may be
  null. Data of packets keep their width as words, sizes and offsets are \<open>nat\<close>, C integers that the source does
  arithmetic on are \<open>int\<close> or words where they can wrap. Structures are records; where the code links, shares or frees
  objects there is an explicit heap (BSS entries, pending queries, candidates, PMKSA entries). Outcomes of allocations,
  the clock, random numbers, driver answers and cryptographic primitives are arguments; what the program asks of the
  driver, the control interface and D-Bus is appended to a log. \<open>succeeds m P\<close> states that a computation returns with a
  result that satisfies \<open>P\<close>, and memory safety is always stated in that form or as \<open>\<noteq> None\<close>.

  \<^bold>\<open>The theories\<close>, in the order in which they build on each other:

  \<^item> \<open>Prelude\<close>: checked byte access, byte order, C strings, the rules for \<open>succeeds\<close>. \<open>Common_Util\<close>: src/utils/common.c.
  \<^item> \<open>Wpabuf\<close>: src/utils/wpabuf.c; the locale \<open>byte_buffer\<close> is the contract of an append-only buffer, interpreted as \<open>wb\<close>.
  \<^item> \<open>Eloop\<close>: src/utils/eloop.c; timers are an \<open>ordered_queue\<close> (interpretation \<open>tq\<close>). A timeout never runs early, due
    timeouts run in the order of their deadlines, and the loop is safe and keeps its queue ordered with handlers that
    make any calls of its interface (\<open>client_app\<close>).
  \<^item> \<open>Supplicant_State\<close>: the fields of \<open>struct wpa_supplicant\<close> that the components share. \<open>Ie_Walk\<close>: walks over information
    elements in bss.c and scan.c, two interpretations of the locale \<open>ie_container\<close>.
  \<^item> \<open>Bss\<close>: bss.c. The table stays well formed under every operation, a scan result is found again after it was stored, old
    entries expire, entries in use are spared except when a new entry evicts one (\<open>wpa_bss_add_evicts_current\<close>).
  \<^item> \<open>Gas\<close>: src/common/gas.c. \<open>Gas_Query\<close>: gas_query.c; requesters meet the locale \<open>gas_client\<close>. Responses are delivered once,
    fragments are put together in order.
  \<^item> \<open>Eap_Methods\<close>: src/eap_peer/eap_methods.c. \<open>Nai_Realm\<close>: the realm and PLMN parts of interworking.c; the parser inverts
    the encoding of IEEE 802.11u.
  \<^item> \<open>Arbiter\<close>: arbiter/; the linked list of candidates refines filtering of lists, with the filters as interpretations
    \<open>fp\<close> and \<open>ai\<close> of the locale \<open>candidate_filter\<close>.
  \<^item> \<open>Config_Values\<close>, \<open>Config\<close>, \<open>Config_Networks\<close>: config.c. Writing and reading a variable is a round trip, the priority
    lists are the reference grouping.
  \<^item> \<open>Anqp\<close>, \<open>Interworking\<close>, \<open>Anqp_Fetch\<close>: the rest of interworking.c and hs20_supplicant.c. The response callback interprets
    \<open>gas_client\<close> (\<open>iw\<close>); the composition of query layer, parsers, selection and configuration does not fault on a frame of a
    known access point, as long as the SSIDs of the table are terminated and the driver accepts requests, and a fetch over
    all access points ends if its requests can be sent (\<open>fetch_run\<close> with a decreasing measure).
  \<^item> \<open>Crypto\<close>: HMAC, the PRF and AES key wrap of src/crypto. \<open>Wpa_Common\<close>, \<open>Key_Data\<close>: WPA and RSN elements
    (src/common/wpa_common.c, src/rsn_supp/wpa_ie.c), parsing inverts generation.
  \<^item> \<open>Rsn_State\<close>, \<open>Pmksa_Cache\<close>: the state of the WPA state machine and its cache, which refines a map with expiry.
  \<^item> \<open>Wpa_Sm\<close>: src/rsn_supp/wpa.c. \<open>Wpa_Sm_Safe\<close> and \<open>Wpa_Sm_Rx\<close> prove safety and authenticity of single operations,
    \<open>Wpa_Reach\<close> lifts them to all reachable states (\<open>sm_reach\<close>), \<open>Wpa_Handshake\<close> runs a complete handshake and shows what an
    empty key data field and a repeated message 3 do.
  \<^item> \<open>Blacklist\<close>: blacklist.c, an interpretation \<open>bl\<close> of \<open>failure_counter\<close>. \<open>Network_Select\<close>: the selection in events.c returns the first
    match of the highest priority. \<open>Scan_Event\<close>: scan.c, the decision to roam, connecting, and the handler of scan results
    as a whole.
  \<^item> \<open>Eap_Peer\<close>: src/eap_peer/eap.c and src/eap_common/eap_common.c, every state and transition of the EAP peer over the
    variables it shares with EAPOL. \<open>Eap_Peer_Safe\<close>: success is reached only by a decision of the current session, of a method or
    of the lower layer (\<open>eap_run\<close> records them), the
    loop of \<open>eap_peer_sm_step\<close> returns in a waiting state without a fault, and the Nak offers the allowed methods.

  \<^bold>\<open>Loops and bounds.\<close> Loops are structural recursions or functions with a termination proof; none uses fuel. Loops over
  packets decrease the number of octets left, the loop of the EAP peer decreases \<open>eap_rank\<close>, and the loop of the event loop
  is a recursion over a list of iterations given by the environment, since the program runs until it is told to
  stop. Assumed of the environment are facts such as: a hash returns its documented length, AES decryption inverts
  encryption, an EAP method returns a valid buffer (\<open>hash_ok\<close>, \<open>aes_ok\<close>, \<open>methods_ok\<close> and similar predicates, each with a
  witness that it can hold).

  \<^bold>\<open>Flaws.\<close> Several theorems state what the code does where it seems not to do what it means to: reads outside a buffer
  (\<open>wpa_sm_rx_eapol_underflow\<close>, \<open>wep_tx_keyidx_overread\<close>, \<open>refused_wep_key_overread\<close>), freed or null objects
  (\<open>pmksa_cache_get_opportunistic_use_after_free\<close>, \<open>gas_query_req_failed_tx_dangles\<close>, \<open>anqp_resp_cb_unknown_bss\<close>,
  \<open>wpa_bss_add_evicts_current\<close>), a repeated installation of the pairwise key, a fetch that stalls without memory, a comparison function
  that is not an order, and roaming to a weaker access point.

  \<^bold>\<open>Not modelled.\<close> Drivers, layer 2 sockets, control and D-Bus interfaces and configuration files are input and output around
  the modelled operations. The EAP methods, TLS and the primitive ciphers rest on OpenSSL. The three IEEE 802.1X machines of
  src/eapol_supp/eapol_supp_sm.c appear only through the variables and callbacks they share with the EAP peer. SME, TDLS
  and PeerKey are independent of the roaming path; the access point, WPS, P2P and the Windows and Symbian ports are not
  built. Status texts (\<open>wpa_sm_get_mib\<close>, \<open>eap_sm_get_status\<close>) and debug output are left out everywhere.
\<close>

end
